(* ===== verification/Prelude.thy ===== *)
theory Prelude
  imports Main "HOL-Library.Word"
begin

unbundle bit_operations_syntax

text \<open>
  Shared vocabulary of the development: the exceptions the modelled Python code raises, results of
  fallible calls, Python's list indexing and slicing, Python's string helpers (\<open>str.split\<close>,
  \<open>int(s, 0)\<close>, \<open>str(n)\<close>), little-endian byte strings as produced and read by the \<open>struct\<close>
  module, and the lemmas about them every component uses.
\<close>

section \<open>Exceptions and results\<close>

text \<open>
  One constructor per exception class that the modelled code raises (\<open>iotile.core.exceptions\<close>,
  \<open>iotile.sg.exceptions\<close> and Python's own).  The keyword arguments of \<open>IOTileException\<close> only feed
  the error message and are not kept.
\<close>

datatype py_error =
    ArgumentError | InternalError | DataError | NotFoundError | ExternalError | HardwareError
  | StreamEmptyError | StorageFullError | UnresolvedIdentifierError
  | TooManyInputsError | TooManyOutputsError | NodeConnectionError
  | ProcessingFunctionError | ResourceUsageError | SensorGraphSemanticError | SensorGraphSyntaxError
  | ValidationError | TimeoutExpiredError | NotImplementedException | AsyncTimeoutError | InvalidStateError | CancelledError
  | KeyError | IndexError | ValueError | PyTypeError | AttributeError | AssertionError | StructError
  | ZeroDivisionError | NameError | UnboundLocalError | ParseException | PlainException

type_synonym 'a res = "py_error + 'a"

text \<open>A call that may change the state and may raise; the state is kept in both cases.\<close>

type_synonym ('a, 's) act = "'a res \<times> 's"

named_theorems py_simps \<open>evaluation of the Python helper functions\<close>
named_theorems enc_simps \<open>bit operations on encoded fields\<close>

text \<open>The exceptions are \<open>py_error\<close> in most of the code; sequencing is the same for any type of them.\<close>

definition bind_res :: "'e + 'a \<Rightarrow> ('a \<Rightarrow> 'e + 'b) \<Rightarrow> 'e + 'b" where
  "bind_res x f = (case x of Inl e \<Rightarrow> Inl e | Inr a \<Rightarrow> f a)"

lemma bind_res_simps [simp]:
  "bind_res (Inl e) f = Inl e"
  "bind_res (Inr a) f = f a"
  by (simp_all add: bind_res_def)

lemma bind_res_Inr_iff:
  "bind_res x f = Inr b \<longleftrightarrow> (\<exists>a. x = Inr a \<and> f a = Inr b)"
  by (cases x) simp_all

definition bind_act ::
  "('e + 'a) \<times> 's \<Rightarrow> ('a \<Rightarrow> 's \<Rightarrow> ('e + 'b) \<times> 's) \<Rightarrow> ('e + 'b) \<times> 's" where
  "bind_act x f = (case x of (Inl e, s) \<Rightarrow> (Inl e, s) | (Inr a, s) \<Rightarrow> f a s)"

lemma bind_act_simps [simp]:
  "bind_act (Inl e, s) f = (Inl e, s)"
  "bind_act (Inr a, s) f = f a s"
  by (simp_all add: bind_act_def)

fun map_res :: "('a \<Rightarrow> 'b res) \<Rightarrow> 'a list \<Rightarrow> 'b list res" where
  "map_res f [] = Inr []"
| "map_res f (x # xs) = bind_res (f x) (\<lambda>y. bind_res (map_res f xs) (\<lambda>ys. Inr (y # ys)))"

lemma map_res_Inr: "(\<And>x. x \<in> set xs \<Longrightarrow> f x = Inr (g x)) \<Longrightarrow> map_res f xs = Inr (map g xs)"
  by (induction xs) auto

lemma map_res_all2: "map_res f xs = Inr ys \<longleftrightarrow> list_all2 (\<lambda>x y. f x = Inr y) xs ys"
  by (induction xs arbitrary: ys) (auto simp: bind_res_Inr_iff list_all2_Cons1)

text \<open>
  \<open>for x in xs: ...\<close> with a body that may change the state and may raise.
\<close>

fun for_each :: "('x \<Rightarrow> 's \<Rightarrow> (unit, 's) act) \<Rightarrow> 'x list \<Rightarrow> 's \<Rightarrow> (unit, 's) act" where
  "for_each body [] s = (Inr (), s)"
| "for_each body (x # xs) s = bind_act (body x s) (\<lambda>_. for_each body xs)"

lemma for_each_append:
  "for_each body (xs @ ys) s = bind_act (for_each body xs s) (\<lambda>_. for_each body ys)"
  by (induction xs arbitrary: s) (auto simp: bind_act_def split: prod.splits sum.splits)

text \<open>A loop whose body never raises on the states that satisfy an invariant.\<close>

lemma for_each_total:
  assumes "P s" "\<And>x s. x \<in> set xs \<Longrightarrow> P s \<Longrightarrow> body x s = (Inr (), step x s) \<and> P (step x s)"
  shows "for_each body xs s = (Inr (), fold step xs s) \<and> P (fold step xs s)"
  using assms by (induction xs arbitrary: s) auto

section \<open>Lists the way Python indexes them\<close>

text \<open>\<open>xs[i]\<close>: a negative index counts from the end, anything else out of range raises.\<close>

definition py_nth :: "'a list \<Rightarrow> int \<Rightarrow> 'a res" where
  "py_nth xs i =
     (if 0 \<le> i \<and> nat i < length xs then Inr (xs ! nat i)
      else if i < 0 \<and> nat (- i) \<le> length xs then Inr (xs ! (length xs - nat (- i)))
      else Inl IndexError)"

text \<open>\<open>xs[:n]\<close> and \<open>xs[n:]\<close>: a negative bound counts from the end, bounds are clamped.\<close>

definition py_clamp :: "'a list \<Rightarrow> int \<Rightarrow> nat" where
  "py_clamp xs n = nat (if n < 0 then int (length xs) + n else n)"

definition py_slice_to :: "'a list \<Rightarrow> int \<Rightarrow> 'a list" where
  "py_slice_to xs n = take (py_clamp xs n) xs"

definition py_slice_from :: "'a list \<Rightarrow> int \<Rightarrow> 'a list" where
  "py_slice_from xs n = drop (py_clamp xs n) xs"

lemma py_slice_append: "py_slice_to xs n @ py_slice_from xs n = xs"
  by (simp add: py_slice_to_def py_slice_from_def)

lemma py_nth_Inr: "0 \<le> i \<Longrightarrow> i < int (length xs) \<Longrightarrow> py_nth xs i = Inr (xs ! nat i)"
  by (simp add: py_nth_def)

lemma py_nth_last: "py_nth xs (- 1) = (if xs = [] then Inl IndexError else Inr (last xs))"
  by (auto simp: py_nth_def last_conv_nth Suc_le_eq)

lemma py_nth_not_StreamEmpty: "py_nth xs i \<noteq> Inl StreamEmptyError"
  by (simp add: py_nth_def Let_def)

lemma py_slice_nonneg:
  "0 \<le> n \<Longrightarrow> py_slice_to xs n = take (nat n) xs"
  "0 \<le> n \<Longrightarrow> py_slice_from xs n = drop (nat n) xs"
  by (simp_all add: py_slice_to_def py_slice_from_def py_clamp_def)

lemma filter_drop_step:
  "n < length xs \<Longrightarrow>
   filter P (drop n xs) = (if P (xs ! n) then [xs ! n] else []) @ filter P (drop (Suc n) xs)"
  by (simp add: Cons_nth_drop_Suc [symmetric])

section \<open>Strings\<close>

text \<open>
  A \<open>char\<close> stands for the Unicode code point of the same number, so the strings modelled are those
  over code points below 256.  White space is what \<open>str.isspace\<close> says about those code points.
\<close>

definition py_isspace :: "char \<Rightarrow> bool" where
  "py_isspace c = (let n = of_char c :: nat in
     (9 \<le> n \<and> n \<le> 13) \<or> (28 \<le> n \<and> n \<le> 32) \<or> n = 133 \<or> n = 160)"

text \<open>\<open>s.split()\<close>: the maximal runs of non-space characters.\<close>

fun py_split_acc :: "string \<Rightarrow> string \<Rightarrow> string list" where
  "py_split_acc acc [] = (if acc = [] then [] else [rev acc])"
| "py_split_acc acc (c # cs) =
     (if py_isspace c then (if acc = [] then py_split_acc [] cs else rev acc # py_split_acc [] cs)
      else py_split_acc (c # acc) cs)"

definition py_split :: "string \<Rightarrow> string list" where
  "py_split s = py_split_acc [] s"

text \<open>\<open>s.strip()\<close>.\<close>

definition py_strip :: "string \<Rightarrow> string" where
  "py_strip s = rev (dropWhile py_isspace (rev (dropWhile py_isspace s)))"

definition no_space :: "string \<Rightarrow> bool" where
  "no_space s \<longleftrightarrow> list_all (\<lambda>c. \<not> py_isspace c) s"

lemma py_split_acc_word:
  "no_space w \<Longrightarrow> py_split_acc acc (w @ cs) = py_split_acc (rev w @ acc) cs"
  by (induction w arbitrary: acc) (auto simp: no_space_def)

lemma isspace_space [simp]: "py_isspace (CHR '' '')"
  by (simp add: py_isspace_def)

lemma py_split_cons:
  assumes "no_space w" "w \<noteq> []"
  shows "py_split (w @ CHR '' '' # cs) = w # py_split cs"
  using assms by (simp add: py_split_def py_split_acc_word)

lemma py_split_single:
  assumes "no_space w" "w \<noteq> []"
  shows "py_split w = [w]"
  using assms py_split_acc_word [of w "[]" "[]"] by (simp add: py_split_def)

text \<open>\<open>s.replace(pat, '')\<close> for a non-empty pattern: occurrences are removed from the left.\<close>

fun py_replace_empty :: "string \<Rightarrow> string \<Rightarrow> string" where
  "py_replace_empty pat [] = []"
| "py_replace_empty pat (c # cs) =
     (if take (length pat) (c # cs) = pat then py_replace_empty pat (drop (length pat - 1) cs)
      else c # py_replace_empty pat cs)"

definition py_startswith :: "string \<Rightarrow> string \<Rightarrow> bool" where
  "py_startswith s pre = (take (length pre) s = pre)"

definition py_endswith :: "string \<Rightarrow> string \<Rightarrow> bool" where
  "py_endswith s suf = py_startswith (rev s) (rev suf)"

lemma py_replace_empty_absent:
  "hd pat \<notin> set s \<Longrightarrow> pat \<noteq> [] \<Longrightarrow> py_replace_empty pat s = s"
proof (induction pat s rule: py_replace_empty.induct)
  case (2 pat c cs)
  then have "take (length pat) (c # cs) \<noteq> pat"
    by (cases pat) auto
  with 2 show ?case by simp
qed simp

text \<open>\<open>s.lower()\<close>.\<close>

definition py_lower :: "string \<Rightarrow> string" where
  "py_lower s = map (\<lambda>c. let n = of_char c :: nat in
     if 65 \<le> n \<and> n \<le> 90 \<or> 192 \<le> n \<and> n \<le> 222 \<and> n \<noteq> 215 then char_of (n + 32) else c) s"

section \<open>Integers as text\<close>

definition digit_char :: "nat \<Rightarrow> char" where
  "digit_char d = ''0123456789'' ! d"

fun py_str_nat :: "nat \<Rightarrow> string" where
  "py_str_nat n = (if n < 10 then [digit_char n] else py_str_nat (n div 10) @ [digit_char (n mod 10)])"

declare py_str_nat.simps [simp del]

text \<open>\<open>str(n)\<close> and \<open>'{}'.format(n)\<close> for an integer.\<close>

definition py_str_int :: "int \<Rightarrow> string" where
  "py_str_int n = (if n < 0 then CHR ''-'' # py_str_nat (nat (- n)) else py_str_nat (nat n))"

text \<open>The value of a digit character in the bases 2 to 36.\<close>

definition digit_val :: "char \<Rightarrow> nat option" where
  "digit_val c = (let n = of_char c :: nat in
     if 48 \<le> n \<and> n \<le> 57 then Some (n - 48)
     else if 97 \<le> n \<and> n \<le> 122 then Some (n - 87)
     else if 65 \<le> n \<and> n \<le> 90 then Some (n - 55)
     else None)"

text \<open>
  A digit sequence as \<open>int\<close> reads it: single underscores may separate digits.  \<open>us\<close> says that a
  digit has to come next.
\<close>

fun digits_val :: "nat \<Rightarrow> nat \<Rightarrow> bool \<Rightarrow> string \<Rightarrow> nat option" where
  "digits_val b acc us [] = (if us then None else Some acc)"
| "digits_val b acc us (c # cs) =
     (if c = CHR ''_'' then (if us then None else digits_val b acc True cs)
      else (case digit_val c of
              None \<Rightarrow> None
            | Some d \<Rightarrow> (if d < b then digits_val b (acc * b + d) False cs else None)))"

text \<open>
  The magnitude part of \<open>int(s, 0)\<close>: a prefix \<open>0x\<close>, \<open>0o\<close> or \<open>0b\<close> selects the base (and may be
  followed by one underscore), a plain literal with a leading zero must be zero.
\<close>

definition base_of_prefix :: "char \<Rightarrow> nat option" where
  "base_of_prefix c =
     (if c = CHR ''x'' \<or> c = CHR ''X'' then Some 16
      else if c = CHR ''o'' \<or> c = CHR ''O'' then Some 8
      else if c = CHR ''b'' \<or> c = CHR ''B'' then Some 2 else None)"

definition nat_base0 :: "string \<Rightarrow> nat option" where
  "nat_base0 s =
     (case s of
        c # p # rest \<Rightarrow>
          (if c = CHR ''0'' then
             (case base_of_prefix p of
                Some b \<Rightarrow> digits_val b 0 True
                            (case rest of r # rs \<Rightarrow> if r = CHR ''_'' then rs else rest | [] \<Rightarrow> rest)
              | None \<Rightarrow> (case digits_val 10 0 True s of Some 0 \<Rightarrow> Some 0 | _ \<Rightarrow> None))
           else digits_val 10 0 True s)
      | _ \<Rightarrow> digits_val 10 0 True s)"

definition signed_of :: "(string \<Rightarrow> nat option) \<Rightarrow> string \<Rightarrow> int option" where
  "signed_of f s =
     (case s of
        c # cs \<Rightarrow>
          (if c = CHR ''-'' then map_option (\<lambda>n. - int n) (f cs)
           else if c = CHR ''+'' then map_option int (f cs)
           else map_option int (f s))
      | [] \<Rightarrow> None)"

text \<open>\<open>int(s, 0)\<close> and \<open>int(s)\<close>; \<open>None\<close> is the \<open>ValueError\<close>.\<close>

definition py_int0 :: "string \<Rightarrow> int option" where
  "py_int0 s = signed_of nat_base0 (py_strip s)"

definition py_int10 :: "string \<Rightarrow> int option" where
  "py_int10 s = signed_of (digits_val 10 0 True) (py_strip s)"

lemma less_ten_cases: "(d::nat) < 10 \<Longrightarrow> d \<in> {0, 1, 2, 3, 4, 5, 6, 7, 8, 9}"
  by auto

lemma digit_val_digit_char [py_simps]: "d < 10 \<Longrightarrow> digit_val (digit_char d) = Some d"
  by (drule less_ten_cases) (auto simp: digit_char_def digit_val_def)

lemma digit_char_plain [py_simps]:
  assumes "d < 10"
  shows "digit_char d \<noteq> CHR ''_''" "digit_char d \<noteq> CHR ''-''" "digit_char d \<noteq> CHR ''+''"
    "\<not> py_isspace (digit_char d)" "base_of_prefix (digit_char d) = None"
  using less_ten_cases [OF assms] by (auto simp: digit_char_def py_isspace_def base_of_prefix_def)

lemma digit_char_zero [py_simps]: "d < 10 \<Longrightarrow> digit_char d = CHR ''0'' \<longleftrightarrow> d = 0"
  by (drule less_ten_cases) (auto simp: digit_char_def)

lemma digits_val_append:
  assumes "list_all (\<lambda>c. \<exists>d<10. c = digit_char d) xs"
  shows "digits_val 10 acc us (xs @ ys) =
    digits_val 10 (foldl (\<lambda>a c. a * 10 + the (digit_val c)) acc xs)
      (if xs = [] then us else False) ys"
  using assms by (induction xs arbitrary: acc us) (auto simp: py_simps)

lemma py_str_nat_digits: "list_all (\<lambda>c. \<exists>d<10. c = digit_char d) (py_str_nat n)"
proof (induction n rule: py_str_nat.induct)
  case (1 n)
  have "n mod 10 < 10" by simp
  with 1 show ?case by (subst py_str_nat.simps) (auto simp del: mod_less_divisor)
qed

lemma py_str_nat_fold: "foldl (\<lambda>a c. a * 10 + the (digit_val c)) 0 (py_str_nat n) = n"
proof (induction n rule: py_str_nat.induct)
  case (1 n)
  then show ?case by (subst py_str_nat.simps) (auto simp: py_simps)
qed

lemma py_str_nat_nonempty [simp]: "py_str_nat n \<noteq> []"
  by (subst py_str_nat.simps) simp

lemma digits_val_str_nat: "digits_val 10 0 True (py_str_nat n) = Some n"
  using digits_val_append [OF py_str_nat_digits, of 0 True n "[]"]
  by (simp add: py_str_nat_fold)

text \<open>Only the number zero is printed with a leading zero.\<close>

lemma py_str_nat_hd: "hd (py_str_nat n) = CHR ''0'' \<longleftrightarrow> n = 0"
proof (induction n rule: py_str_nat.induct)
  case (1 n)
  show ?case
  proof (cases "n < 10")
    case True
    then show ?thesis by (subst py_str_nat.simps) (simp add: py_simps)
  next
    case False
    with 1 have "hd (py_str_nat (n div 10)) = CHR ''0'' \<longleftrightarrow> n div 10 = 0" by simp
    with False show ?thesis by (subst py_str_nat.simps) simp
  qed
qed

lemma py_str_nat_zero: "py_str_nat 0 = ''0''"
  by (subst py_str_nat.simps) (simp add: digit_char_def)

lemma nat_base0_str_nat: "nat_base0 (py_str_nat n) = Some n"
proof (cases "n = 0")
  case True
  then show ?thesis by (simp add: py_str_nat_zero nat_base0_def digit_val_def)
next
  case False
  then have "hd (py_str_nat n) \<noteq> CHR ''0''" by (simp add: py_str_nat_hd)
  then show ?thesis
    using digits_val_str_nat [of n] by (cases "py_str_nat n") (auto simp: nat_base0_def split: list.splits)
qed

lemma no_space_append [simp]: "no_space (xs @ ys) \<longleftrightarrow> no_space xs \<and> no_space ys"
  by (simp add: no_space_def)

lemma no_space_Cons [simp]: "no_space (x # xs) \<longleftrightarrow> \<not> py_isspace x \<and> no_space xs"
  by (simp add: no_space_def)

lemma no_space_Nil [simp]: "no_space []"
  by (simp add: no_space_def)

lemma no_space_str_nat [simp]: "no_space (py_str_nat n)"
  using py_str_nat_digits [of n] unfolding no_space_def
  by (rule list.pred_mono_strong) (auto simp: py_simps)

lemma no_space_str_int [simp]: "no_space (py_str_int n)"
  by (simp add: py_str_int_def py_isspace_def)

lemma py_str_int_nonempty [simp]: "py_str_int n \<noteq> []"
  by (simp add: py_str_int_def)

lemma dropWhile_no_space: "no_space s \<Longrightarrow> dropWhile py_isspace s = s"
  by (cases s) auto

lemma py_strip_no_space: "no_space s \<Longrightarrow> py_strip s = s"
proof -
  assume s: "no_space s"
  then have "no_space (rev s)" by (simp add: no_space_def)
  with s show ?thesis by (simp add: py_strip_def dropWhile_no_space)
qed

lemma hd_str_nat_plain:
  "hd (py_str_nat n) \<noteq> CHR ''-''" "hd (py_str_nat n) \<noteq> CHR ''+''"
  using py_str_nat_digits [of n] by (cases "py_str_nat n"; auto simp: py_simps)+

lemma signed_of_str_int:
  assumes "\<And>n. f (py_str_nat n) = Some n"
  shows "signed_of f (py_str_int k) = Some k"
proof (cases "k < 0")
  case True
  then show ?thesis using assms [of "nat (- k)"] by (simp add: signed_of_def py_str_int_def)
next
  case False
  then show ?thesis using assms [of "nat k"] hd_str_nat_plain [of "nat k"]
    by (cases "py_str_nat (nat k)") (auto simp: signed_of_def py_str_int_def)
qed

text \<open>Printing a number and reading it back with \<open>int(s, 0)\<close> or \<open>int(s)\<close> gives the number.\<close>

lemma py_int0_str_int: "py_int0 (py_str_int k) = Some k"
  by (simp add: py_int0_def py_strip_no_space signed_of_str_int nat_base0_str_nat)

lemma py_int10_str_int: "py_int10 (py_str_int k) = Some k"
  by (simp add: py_int10_def py_strip_no_space signed_of_str_int digits_val_str_nat)

section \<open>Little-endian byte strings\<close>

type_synonym byte = "8 word"

text \<open>The \<open>n\<close> low bytes of a number, least significant first, and the number of a byte string.\<close>

fun le_bytes :: "nat \<Rightarrow> int \<Rightarrow> byte list" where
  "le_bytes 0 v = []"
| "le_bytes (Suc n) v = word_of_int v # le_bytes n (v div 256)"

fun le_int :: "byte list \<Rightarrow> int" where
  "le_int [] = 0"
| "le_int (b # bs) = uint b + 256 * le_int bs"

text \<open>
  \<open>struct.pack\<close> of one unsigned field of \<open>n\<close> bytes (\<open>B\<close>, \<open>H\<close>, \<open>L\<close> are 1, 2 and 4 bytes under
  \<open><\<close>): a value that does not fit is a \<open>struct.error\<close>.
\<close>

definition pack_u :: "nat \<Rightarrow> int \<Rightarrow> byte list res" where
  "pack_u n v = (if 0 \<le> v \<and> v < 256 ^ n then Inr (le_bytes n v) else Inl StructError)"

text \<open>\<open>struct.pack\<close> of a sequence of unsigned fields, given as (width, value) pairs.\<close>

fun pack_fields :: "(nat \<times> int) list \<Rightarrow> byte list res" where
  "pack_fields [] = Inr []"
| "pack_fields ((n, v) # fs) =
     bind_res (pack_u n v) (\<lambda>bs. bind_res (pack_fields fs) (\<lambda>rest. Inr (bs @ rest)))"

text \<open>\<open>struct.unpack\<close> of unsigned fields of the given widths from a string of exactly their size.\<close>

fun unpack_fields :: "nat list \<Rightarrow> byte list \<Rightarrow> int list" where
  "unpack_fields [] bs = []"
| "unpack_fields (n # ns) bs = le_int (take n bs) # unpack_fields ns (drop n bs)"

lemma length_le_bytes [simp]: "length (le_bytes n v) = n"
  by (induction n arbitrary: v) auto

lemma le_int_le_bytes: "le_int (le_bytes n v) = v mod 256 ^ n"
proof (induction n arbitrary: v)
  case 0
  then show ?case by simp
next
  case (Suc n)
  have "v mod 256 ^ Suc n = v mod 256 + 256 * ((v div 256) mod 256 ^ n)"
    using zmod_zmult2_eq [of "256 ^ n" v 256] by simp
  with Suc show ?case by (simp add: uint_word_of_int)
qed

lemma le_int_bounds: "0 \<le> le_int bs \<and> le_int bs < 256 ^ length bs"
proof (induction bs)
  case Nil
  then show ?case by simp
next
  case (Cons b bs)
  have "0 \<le> uint b" "uint b < 256" using uint_bounded [of b] by simp_all
  with Cons show ?case by simp
qed

lemma le_bytes_le_int: "le_bytes (length bs) (le_int bs) = bs"
proof (induction bs)
  case Nil
  then show ?case by simp
next
  case (Cons b bs)
  have b: "0 \<le> uint b" "uint b < 256" using uint_bounded [of b] by simp_all
  have "(word_of_int (256 * le_int bs) :: byte) = 0"
    by (simp only: word_of_int_eq_0_iff) simp
  then have "(word_of_int (uint b + 256 * le_int bs) :: byte) = b"
    by (simp only: wi_hom_add [symmetric] word_of_int_uint add_0_right)
  moreover have "(uint b + 256 * le_int bs) div 256 = le_int bs" using b by simp
  ultimately show ?case using Cons by simp
qed

lemma length_pack_fields:
  "pack_fields fs = Inr bs \<Longrightarrow> length bs = sum_list (map fst fs)"
  by (induction fs arbitrary: bs rule: pack_fields.induct)
    (auto simp: pack_u_def bind_res_Inr_iff split: if_splits)

text \<open>Unpacking a packed structure gives the packed values.\<close>

lemma unpack_pack_fields:
  "pack_fields fs = Inr bs \<Longrightarrow> unpack_fields (map fst fs) (bs @ rest) = map snd fs"
  by (induction fs arbitrary: bs rule: pack_fields.induct)
    (auto simp: pack_u_def bind_res_Inr_iff le_int_le_bytes split: if_splits)

text \<open>A string of the right size packs back from the fields it unpacks to.\<close>

lemma pack_unpack_fields:
  "length bs = sum_list ns \<Longrightarrow> pack_fields (zip ns (unpack_fields ns bs)) = Inr bs"
proof (induction ns arbitrary: bs)
  case Nil
  then show ?case by simp
next
  case (Cons n ns)
  let ?h = "take n bs"
  have len: "length ?h = n" using Cons.prems by simp
  have "pack_u n (le_int ?h) = Inr ?h"
    using le_int_bounds [of ?h] le_bytes_le_int [of ?h] len by (simp add: pack_u_def)
  with Cons show ?case by simp
qed

lemma pack_fields_Inr_iff:
  "(\<exists>bs. pack_fields fs = Inr bs) \<longleftrightarrow> list_all (\<lambda>(n, v). 0 \<le> v \<and> v < 256 ^ n) fs"
  by (induction fs rule: pack_fields.induct) (auto simp: pack_u_def bind_res_Inr_iff)

section \<open>Hexadecimal text and ranges\<close>

definition hex_upper :: "nat \<Rightarrow> char" where
  "hex_upper d = ''0123456789ABCDEF'' ! d"

fun hex_digits :: "nat \<Rightarrow> string" where
  "hex_digits n = (if n < 16 then [hex_upper n] else hex_digits (n div 16) @ [hex_upper (n mod 16)])"

declare hex_digits.simps [simp del]

definition hex_lower :: "nat \<Rightarrow> char" where
  "hex_lower d = ''0123456789abcdef'' ! d"

definition hex_byte :: "byte \<Rightarrow> string" where
  "hex_byte b = [hex_lower (unat b div 16), hex_lower (unat b mod 16)]"

fun hex_nat :: "nat \<Rightarrow> string" where
  "hex_nat n = (if n < 16 then [hex_lower n] else hex_nat (n div 16) @ [hex_lower (n mod 16)])"

declare hex_nat.simps [simp del]

text \<open>\<open>hexlify\<close> and \<open>unhexlify\<close>.\<close>

definition hexlify :: "byte list \<Rightarrow> string" where
  "hexlify bs = concat (map hex_byte bs)"

fun unhexlify :: "string \<Rightarrow> byte list option" where
  "unhexlify [] = Some []"
| "unhexlify [c] = None"
| "unhexlify (a # b # rest) =
     (case (digit_val a, digit_val b, unhexlify rest) of
        (Some x, Some y, Some bs) \<Rightarrow>
          if x < 16 \<and> y < 16 then Some (word_of_nat (16 * x + y) # bs) else None
      | _ \<Rightarrow> None)"

text \<open>\<open>range(start, stop, step)\<close> for a positive step.\<close>

function py_range :: "nat \<Rightarrow> nat \<Rightarrow> nat \<Rightarrow> nat list" where
  "py_range start stop step =
     (if step = 0 \<or> start \<ge> stop then [] else start # py_range (start + step) stop step)"
  by auto
termination by (relation "measure (\<lambda>(start, stop, step). stop - start)") auto

declare py_range.simps [simp del]

section \<open>Bit fields of encoded integers\<close>

lemma push_bit_or_field:
  assumes "0 \<le> (b::int)" "b < 2 ^ n"
  shows "push_bit n a OR b = a * 2 ^ n + b"
proof -
  have tb: "take_bit n b = b" using assms by (simp add: take_bit_int_eq_self)
  have "push_bit n a OR b = concat_bit n b a"
    by (simp add: concat_bit_def tb or.commute)
  also have "\<dots> = a * 2 ^ n + b"
    by (simp add: concat_bit_eq push_bit_eq_mult tb)
  finally show ?thesis .
qed

lemma and_low_bits: "x AND (2 ^ n - 1) = (x::int) mod 2 ^ n"
  by (simp flip: take_bit_eq_mod take_bit_eq_mask mask_eq_exp_minus_1)

lemma and_single_bit: "x AND 2 ^ n \<noteq> 0 \<longleftrightarrow> odd ((x::int) div 2 ^ n)"
  by (simp add: and_exp_eq_0_iff_not_bit bit_iff_odd)

lemma and_masks [enc_simps]:
  fixes x :: int
  shows "x AND 1 = x mod 2" "x AND 0b1111 = x mod 16" "x AND 127 = x mod 128"
    "x AND 2047 = x mod 2048" "x AND 65535 = x mod 65536"
  using and_low_bits [of x 1] and_low_bits [of x 4] and_low_bits [of x 7] and_low_bits [of x 11]
    and_low_bits [of x 16] by simp_all

lemma and_flags [enc_simps]:
  fixes x :: int
  shows "(x AND 128 = 0) = even (x div 128)" "(x AND 2048 = 0) = even (x div 2048)"
    "(x AND 2147483648 = 0) = even (x div 2147483648)"
  using and_single_bit [of x 7] and_single_bit [of x 11] and_single_bit [of x 31] by simp_all

lemma drop_bits [enc_simps]:
  fixes x :: int
  shows "drop_bit 1 x = x div 2" "drop_bit 8 x = x div 256" "drop_bit 12 x = x div 4096"
    "drop_bit 16 x = x div 65536" "drop_bit (Suc 0) x = x div 2"
  by (simp_all add: drop_bit_eq_div)

section \<open>Text as bytes\<close>

text \<open>\<open>bytes(s, 'utf-8')\<close> for code points below 256.\<close>

definition utf8 :: "string \<Rightarrow> byte list" where
  "utf8 s = concat (map (\<lambda>c. let n = of_char c :: int in
     if n < 128 then [word_of_int n] else [word_of_int (192 + n div 64), word_of_int (128 + n mod 64)]) s)"

text \<open>\<open>b.decode('utf-8')\<close> gives code points; overlong forms and surrogates are errors.\<close>

definition utf8_cont :: "byte \<Rightarrow> bool" where
  "utf8_cont c \<longleftrightarrow> 128 \<le> unat c \<and> unat c < 192"

fun utf8_decode :: "byte list \<Rightarrow> nat list option" where
  "utf8_decode [] = Some []"
| "utf8_decode (a # bs) =
     (let n = unat a in
      if n < 128 then map_option ((#) n) (utf8_decode bs)
      else if n < 194 then None
      else if n < 224 then
        (case bs of
           b # bs \<Rightarrow> if utf8_cont b then map_option ((#) ((n - 192) * 64 + (unat b - 128))) (utf8_decode bs) else None
         | [] \<Rightarrow> None)
      else if n < 240 then
        (case bs of
           b # c # bs \<Rightarrow>
             let v = (n - 224) * 4096 + (unat b - 128) * 64 + (unat c - 128) in
             if utf8_cont b \<and> utf8_cont c \<and> v \<ge> 2048 \<and> \<not> (55296 \<le> v \<and> v < 57344)
             then map_option ((#) v) (utf8_decode bs) else None
         | _ \<Rightarrow> None)
      else if n < 245 then
        (case bs of
           b # c # d # bs \<Rightarrow>
             let v = (n - 240) * 262144 + (unat b - 128) * 4096 + (unat c - 128) * 64 + (unat d - 128) in
             if utf8_cont b \<and> utf8_cont c \<and> utf8_cont d \<and> 65536 \<le> v \<and> v < 1114112
             then map_option ((#) v) (utf8_decode bs) else None
         | _ \<Rightarrow> None)
      else None)"

lemma utf8_decode_char:
  fixes n :: nat
  assumes "n < 256"
  shows "utf8_decode ((if int n < 128 then [word_of_int (int n)]
      else [word_of_int (192 + int n div 64), word_of_int (128 + int n mod 64)]) @ bs) = map_option ((#) n) (utf8_decode bs)"
proof -
  have unat: "unat (word_of_nat k :: byte) = k" if "k < 256" for k
    using that by (simp add: unsigned_of_nat take_bit_nat_eq_self)
  have "192 + int n div 64 = int (192 + n div 64)" "128 + int n mod 64 = int (128 + n mod 64)"
    by (simp_all add: zdiv_int zmod_int)
  moreover have "n div 64 < 4" using assms by (simp add: less_mult_imp_div_less)
  moreover have "n mod 64 < 64" by simp
  ultimately show ?thesis
  proof (cases "n < 128")
    case True
    then show ?thesis using unat [of n] assms by simp
  next
    case False
    then have "2 \<le> n div 64" using div_le_mono [of 128 n 64] by simp
    with False \<open>n div 64 < 4\<close> \<open>n mod 64 < 64\<close> show ?thesis
      unfolding \<open>192 + int n div 64 = _\<close> \<open>128 + int n mod 64 = _\<close>
      by (simp add: unat utf8_cont_def Let_def del: of_nat_add)
  qed
qed

lemma utf8_decode_utf8: "utf8_decode (utf8 s) = Some (map of_char s)"
proof (induction s)
  case (Cons c s)
  have "utf8 (c # s) = (let n = int (of_char c) in
      if n < 128 then [word_of_int n] else [word_of_int (192 + n div 64), word_of_int (128 + n mod 64)]) @ utf8 s"
    by (simp add: utf8_def of_nat_of_char)
  with Cons utf8_decode_char [of "of_char c" "utf8 s"] show ?case by (simp add: Let_def del: utf8_decode.simps)
qed (simp add: utf8_def)

section \<open>Codecs\<close>

text \<open>
  The contract of an encoder and its decoder: what is encoded from a well-formed value decodes to
  that value.  Two well-formed values never share an encoding.
\<close>

locale codec =
  fixes enc :: "'a \<Rightarrow> 'b res"
    and dec :: "'b \<Rightarrow> 'a res"
    and wf :: "'a \<Rightarrow> bool"
  assumes total: "wf a \<Longrightarrow> \<exists>b. enc a = Inr b"
    and inverse: "wf a \<Longrightarrow> enc a = Inr b \<Longrightarrow> dec b = Inr a"
begin

lemma roundtrip: "wf a \<Longrightarrow> bind_res (enc a) dec = Inr a"
  using total inverse by fastforce

lemma inject: "wf a \<Longrightarrow> wf a' \<Longrightarrow> enc a = enc a' \<longleftrightarrow> a = a'"
  using total inverse by (metis sum.inject(2))

lemma roundtrip_list:
  "(\<And>a. a \<in> set xs \<Longrightarrow> wf a) \<Longrightarrow> bind_res (map_res enc xs) (map_res dec) = Inr xs"
proof (induction xs)
  case Nil
  then show ?case by simp
next
  case (Cons a xs)
  obtain b where b: "enc a = Inr b" "dec b = Inr a"
    using Cons.prems total inverse by (meson list.set_intros(1))
  have "bind_res (map_res enc xs) (map_res dec) = Inr xs"
    using Cons by simp
  with b show ?case by (cases "map_res enc xs") auto
qed

end

end
