(* ===== verification/Rpc_Payload.thy ===== *)
theory Rpc_Payload
  imports Prelude
begin

text \<open>
  Remote procedure calls (\<open>iotile/core/hw/virtual/common_types.py\<close>): arguments and results as bytes,
  status codes, and the dispatcher of a tile.
\<close>

section \<open>Formats of the struct module\<close>

text \<open>
  The value of a struct field is a number or a byte string; text cannot be packed.  A format is a string of codes with repeat counts.
  The codes are those that the declarations of the repository use: integers, byte strings and padding.  Every
  format here has the prefix \<open><\<close> in the code: little-endian, without alignment.
\<close>

datatype rpc_value = Num int | Raw "byte list" | Text string

datatype struct_field = PadByte | IntField nat bool | CharsField nat

definition int_code :: "char \<Rightarrow> (nat \<times> bool) option" where
  "int_code c = map_of
     [(CHR ''b'', 1, True), (CHR ''B'', 1, False), (CHR ''h'', 2, True), (CHR ''H'', 2, False),
      (CHR ''i'', 4, True), (CHR ''I'', 4, False), (CHR ''l'', 4, True), (CHR ''L'', 4, False),
      (CHR ''q'', 8, True), (CHR ''Q'', 8, False)] c"

definition code_fields :: "nat option \<Rightarrow> char \<Rightarrow> struct_field list option" where
  "code_fields rep c =
     (let n = (case rep of None \<Rightarrow> 1 | Some k \<Rightarrow> k) in
      if c = CHR ''s'' then Some [CharsField n]
      else if c = CHR ''x'' then Some (replicate n PadByte)
      else map_option (\<lambda>(w, neg). replicate n (IntField w neg)) (int_code c))"

definition dec_digit :: "char \<Rightarrow> nat option" where
  "dec_digit c = (case digit_val c of Some d \<Rightarrow> if d < 10 then Some d else None | None \<Rightarrow> None)"

text \<open>\<open>rep\<close> is the repeat count read so far.  White space may stand between the items.\<close>

fun struct_parse :: "nat option \<Rightarrow> string \<Rightarrow> struct_field list option" where
  "struct_parse rep [] = (if rep = None then Some [] else None)"
| "struct_parse rep (c # cs) =
     (case dec_digit c of
        Some d \<Rightarrow> struct_parse (Some ((case rep of None \<Rightarrow> 0 | Some k \<Rightarrow> k) * 10 + d)) cs
      | None \<Rightarrow>
          if rep = None \<and> py_isspace c then struct_parse None cs
          else case code_fields rep c of
            None \<Rightarrow> None
          | Some fs \<Rightarrow> map_option ((@) fs) (struct_parse None cs))"

fun field_width :: "struct_field \<Rightarrow> nat" where
  "field_width PadByte = 1"
| "field_width (IntField n neg) = n"
| "field_width (CharsField n) = n"

definition fields_width :: "struct_field list \<Rightarrow> nat" where
  "fields_width fs = sum_list (map field_width fs)"

definition int_fits :: "nat \<Rightarrow> bool \<Rightarrow> int \<Rightarrow> bool" where
  "int_fits n neg v =
     (if neg then - (256 ^ n div 2) \<le> v \<and> v < 256 ^ n div 2 else 0 \<le> v \<and> v < 256 ^ n)"

text \<open>A byte string is cut or filled with zeros to the width of its field.\<close>

definition fill_chars :: "nat \<Rightarrow> byte list \<Rightarrow> byte list" where
  "fill_chars n b = take n b @ replicate (n - length b) 0"

fun pack_values :: "struct_field list \<Rightarrow> rpc_value list \<Rightarrow> byte list option" where
  "pack_values [] [] = Some []"
| "pack_values (PadByte # fs) vs = map_option ((#) 0) (pack_values fs vs)"
| "pack_values (IntField n neg # fs) (Num v # vs) =
     (if int_fits n neg v then map_option ((@) (le_bytes n v)) (pack_values fs vs) else None)"
| "pack_values (CharsField n # fs) (Raw b # vs) = map_option ((@) (fill_chars n b)) (pack_values fs vs)"
| "pack_values _ _ = None"

definition sign_value :: "nat \<Rightarrow> bool \<Rightarrow> int \<Rightarrow> int" where
  "sign_value n neg v = (if neg \<and> v \<ge> 256 ^ n div 2 then v - 256 ^ n else v)"

fun unpack_values :: "struct_field list \<Rightarrow> byte list \<Rightarrow> rpc_value list" where
  "unpack_values [] b = []"
| "unpack_values (PadByte # fs) b = unpack_values fs (drop 1 b)"
| "unpack_values (IntField n neg # fs) b =
     Num (sign_value n neg (le_int (take n b))) # unpack_values fs (drop n b)"
| "unpack_values (CharsField n # fs) b = Raw (take n b) # unpack_values fs (drop n b)"

definition struct_calcsize :: "string \<Rightarrow> nat res" where
  "struct_calcsize code =
     (case struct_parse None code of None \<Rightarrow> Inl StructError | Some fs \<Rightarrow> Inr (fields_width fs))"

definition struct_pack :: "string \<Rightarrow> rpc_value list \<Rightarrow> byte list res" where
  "struct_pack code args =
     (case struct_parse None code of
        None \<Rightarrow> Inl StructError
      | Some fs \<Rightarrow> (case pack_values fs args of None \<Rightarrow> Inl StructError | Some b \<Rightarrow> Inr b))"

definition struct_unpack :: "string \<Rightarrow> byte list \<Rightarrow> rpc_value list res" where
  "struct_unpack code b =
     (case struct_parse None code of
        None \<Rightarrow> Inl StructError
      | Some fs \<Rightarrow> if length b = fields_width fs then Inr (unpack_values fs b) else Inl StructError)"

section \<open>Payloads\<close>

text \<open>
  The exceptions of \<open>iotile.core.hw.exceptions\<close> that calls raise, all of them hardware errors, and the
  others.
\<close>

datatype rpc_exception =
    RPCNotFoundError | RPCInvalidArgumentsError | RPCInvalidReturnValueError | RPCInvalidIDError
  | TileNotFoundError | RPCErrorCode int | BusyRPCResponse | OtherException py_error

type_synonym 'a rpc_res = "rpc_exception + 'a"

definition lift_res :: "'a res \<Rightarrow> 'a rpc_res" where
  "lift_res x = (case x of Inl e \<Rightarrow> Inl (OtherException e) | Inr a \<Rightarrow> Inr a)"

definition create_argcode :: "string \<Rightarrow> byte list \<Rightarrow> string rpc_res" where
  "create_argcode code arg_bytes =
     (if \<not> py_endswith code ''V'' then Inr code
      else let code = butlast code in
        bind_res (lift_res (struct_calcsize code)) (\<lambda>fixed_size.
          let var_size = int (length arg_bytes) - int fixed_size in
          if var_size < 0 then Inl RPCInvalidArgumentsError
          else Inr (code @ py_str_int var_size @ ''s'')))"

definition create_respcode :: "string \<Rightarrow> rpc_value list \<Rightarrow> string rpc_res" where
  "create_respcode code resp =
     (if \<not> py_endswith code ''V'' then Inr code
      else let code = butlast code in
        bind_res (lift_res (py_nth resp (- 1))) (\<lambda>last_value.
        bind_res (case last_value of
            Num _ \<Rightarrow> Inl (OtherException PyTypeError)
          | Raw b \<Rightarrow> Inr (length b)
          | Text t \<Rightarrow> Inr (length t)) (\<lambda>final_length.
        bind_res (lift_res (struct_calcsize code)) (\<lambda>fixed_size.
          if fixed_size + final_length > 20 then Inl RPCInvalidReturnValueError
          else Inr (code @ py_str_int (int final_length) @ ''s'')))))"

definition pack_rpc_payload :: "string \<Rightarrow> rpc_value list \<Rightarrow> byte list rpc_res" where
  "pack_rpc_payload arg_format args =
     bind_res (create_respcode arg_format args) (\<lambda>code.
     bind_res (lift_res (struct_pack code args)) (\<lambda>packed_result.
     bind_res (lift_res (struct_unpack code packed_result)) (\<lambda>unpacked_validation.
       if args \<noteq> unpacked_validation then Inl RPCInvalidArgumentsError else Inr packed_result)))"

definition unpack_rpc_payload :: "string \<Rightarrow> byte list \<Rightarrow> rpc_value list rpc_res" where
  "unpack_rpc_payload resp_format payload =
     bind_res (create_argcode resp_format payload) (\<lambda>code. lift_res (struct_unpack code payload))"

section \<open>Status codes\<close>

definition pack_rpc_response :: "byte list option \<Rightarrow> rpc_exception option \<Rightarrow> int \<times> byte list" where
  "pack_rpc_response resp exc =
     (let response = (case resp of None \<Rightarrow> [] | Some b \<Rightarrow> b) in
      ((case exc of
          None \<Rightarrow> if length response > 0 then push_bit 6 1 OR push_bit 7 1 else push_bit 6 1
        | Some RPCInvalidIDError \<Rightarrow> 2
        | Some RPCNotFoundError \<Rightarrow> 2
        | Some BusyRPCResponse \<Rightarrow> 0
        | Some TileNotFoundError \<Rightarrow> 0xFF
        | Some (RPCErrorCode code) \<Rightarrow> push_bit 6 1 OR (code AND (push_bit 6 1 - 1))
        | Some _ \<Rightarrow> 3),
       response))"

definition unpack_rpc_response :: "int \<Rightarrow> byte list option \<Rightarrow> int \<Rightarrow> byte list rpc_res" where
  "unpack_rpc_response status response address =
     (let code0 = status AND (push_bit 6 1 - 1);
          status_code = (if address = 8 then code0 AND NOT (push_bit 7 1) else code0) in
      if status = 0 then Inl BusyRPCResponse
      else if status = 2 \<or> (address = 8 \<and> status_code = 2) then Inl RPCNotFoundError
      else if status = 3 then Inl (RPCErrorCode status_code)
      else if status = 0xFF then Inl TileNotFoundError
      else if status_code \<noteq> 0 then Inl (RPCErrorCode status_code)
      else Inr (case response of None \<Rightarrow> [] | Some b \<Rightarrow> b))"

section \<open>Handlers and dispatch\<close>

text \<open>
  A handler gets the decoded arguments and returns a list of results or nothing.  Without a format for the
  results the list itself is the answer.
\<close>

datatype rpc_answer = Payload "byte list" | Values "rpc_value list"

type_synonym 's rpc_function = "rpc_value list \<Rightarrow> 's \<Rightarrow> (rpc_value list option rpc_res) \<times> 's"
type_synonym 's rpc_handler = "byte list \<Rightarrow> 's \<Rightarrow> (rpc_answer rpc_res) \<times> 's"

definition struct_error_as :: "rpc_exception \<Rightarrow> 'a rpc_res \<Rightarrow> 'a rpc_res" where
  "struct_error_as e x = (if x = Inl (OtherException StructError) then Inl e else x)"

definition rpc_executor :: "string \<Rightarrow> string option \<Rightarrow> 's rpc_function \<Rightarrow> 's rpc_handler" where
  "rpc_executor arg_format resp_format func payload s =
     bind_act (struct_error_as RPCInvalidArgumentsError (unpack_rpc_payload arg_format payload), s) (\<lambda>args s.
     bind_act (func args s) (\<lambda>result s.
       let resp = (case result of None \<Rightarrow> [] | Some r \<Rightarrow> r) in
       case resp_format of
         None \<Rightarrow> (Inr (Values resp), s)
       | Some fmt \<Rightarrow>
           bind_act (struct_error_as RPCInvalidReturnValueError (pack_rpc_payload fmt resp), s) (\<lambda>b s.
             (Inr (Payload b), s))))"

text \<open>The decorator checks the number of the call when the class is made.\<close>

definition rpc_decorator :: "int \<Rightarrow> string \<Rightarrow> string option \<Rightarrow> 's rpc_function \<Rightarrow> (int \<times> 's rpc_handler) rpc_res" where
  "rpc_decorator rpc_id arg_format resp_format func =
     (if rpc_id < 0 \<or> rpc_id > 0xFFFF then Inl RPCInvalidIDError
      else Inr (rpc_id, rpc_executor arg_format resp_format func))"

type_synonym 's rpc_dispatcher = "int \<rightharpoonup> 's rpc_handler"

definition add_rpc :: "int \<Rightarrow> 's rpc_handler \<Rightarrow> 's rpc_dispatcher \<Rightarrow> 's rpc_dispatcher" where
  "add_rpc rpc_id func rpcs = rpcs(rpc_id \<mapsto> func)"

definition new_dispatcher :: "(int \<times> 's rpc_handler) list \<Rightarrow> 's rpc_dispatcher" where
  "new_dispatcher members = fold (\<lambda>(rpc_id, func). add_rpc rpc_id func) members Map.empty"

definition has_rpc :: "int \<Rightarrow> 's rpc_dispatcher \<Rightarrow> bool" where
  "has_rpc rpc_id rpcs = (rpcs rpc_id \<noteq> None)"

definition dispatch_rpc :: "'s rpc_dispatcher \<Rightarrow> int \<Rightarrow> 's rpc_handler" where
  "dispatch_rpc rpcs rpc_id payload s =
     (if rpc_id < 0 \<or> rpc_id > 0xFFFF then (Inl RPCInvalidIDError, s)
      else case rpcs rpc_id of None \<Rightarrow> (Inl RPCNotFoundError, s) | Some func \<Rightarrow> func payload s)"

text \<open>
  The methods of a class as functions on lists of arguments: a wrong number of arguments is a \<open>TypeError\<close>.
  A declaration has the number of the call, the formats of arguments and results and the method.
\<close>

definition as_function :: "(rpc_value list \<Rightarrow> ('s \<Rightarrow> (rpc_value list, 's) act) option) \<Rightarrow> 's rpc_function" where
  "as_function f args s =
     (case f args of
        None \<Rightarrow> (Inl (OtherException PyTypeError), s)
      | Some g \<Rightarrow> (case g s of (Inl e, t) \<Rightarrow> (Inl (OtherException e), t) | (Inr r, t) \<Rightarrow> (Inr (Some r), t)))"

type_synonym 's rpc_declaration = "int \<times> string \<times> string \<times> 's rpc_function"

definition rpc_table :: "'s rpc_declaration list \<Rightarrow> 's rpc_dispatcher" where
  "rpc_table decls = new_dispatcher (map (\<lambda>(rpc_id, af, rf, f). (rpc_id, rpc_executor af (Some rf) f)) decls)"

section \<open>Services\<close>

text \<open>The states that calls with any numbers and payloads lead to.\<close>

inductive served :: "'s rpc_declaration list \<Rightarrow> 's \<Rightarrow> 's \<Rightarrow> bool" for decls where
  start: "served decls s s"
| call: "served decls s t \<Longrightarrow> served decls s (snd (dispatch_rpc (rpc_table decls) rpc_id payload t))"

lemma new_dispatcher_member:
  "new_dispatcher members rpc_id = Some h \<Longrightarrow> (rpc_id, h) \<in> set members"
proof (induction members rule: rev_induct)
  case (snoc m members)
  then show ?case by (cases m) (auto simp: new_dispatcher_def add_rpc_def split: if_splits)
qed (simp add: new_dispatcher_def)

lemma rpc_executor_state:
  "snd (rpc_executor af rf f payload s) = s \<or> (\<exists>args. snd (rpc_executor af rf f payload s) = snd (f args s))"
proof (cases "struct_error_as RPCInvalidArgumentsError (unpack_rpc_payload af payload)")
  case (Inr args)
  have "snd (rpc_executor af rf f payload s) = snd (f args s)"
    using Inr by (cases "f args s"; cases "fst (f args s)")
      (auto simp: rpc_executor_def bind_act_def Let_def split: option.splits sum.splits)
  then show ?thesis by blast
qed (simp add: rpc_executor_def)

text \<open>A service whose methods keep an invariant keeps it whatever its clients send.\<close>

locale rpc_service =
  fixes decls :: "'s rpc_declaration list" and ok :: "'s \<Rightarrow> bool"
  assumes keeps: "(rpc_id, af, rf, f) \<in> set decls \<Longrightarrow> ok s \<Longrightarrow> ok (snd (f args s))"
begin

lemma dispatch_keeps:
  assumes "ok s"
  shows "ok (snd (dispatch_rpc (rpc_table decls) rpc_id payload s))"
proof (cases "rpc_table decls rpc_id")
  case None
  with assms show ?thesis by (simp add: dispatch_rpc_def)
next
  case (Some h)
  then obtain af rf f where f: "(rpc_id, af, rf, f) \<in> set decls" "h = rpc_executor af (Some rf) f"
    using new_dispatcher_member [OF Some [unfolded rpc_table_def]] by auto
  have "ok (snd (h payload s))"
    using rpc_executor_state [of af "Some rf" f payload s] keeps [OF f(1) assms] assms f(2) by auto
  with Some assms show ?thesis by (simp add: dispatch_rpc_def)
qed

lemma served_ok: "served decls s t \<Longrightarrow> ok s \<Longrightarrow> ok t"
  by (induction rule: served.induct) (auto intro: dispatch_keeps)

end

lemma as_function_state: "snd (as_function f args s) = (case f args of None \<Rightarrow> s | Some g \<Rightarrow> snd (g s))"
  by (auto simp: as_function_def split: option.splits prod.splits sum.splits)

section \<open>Parsing formats\<close>

lemma dec_digit_char: "d < 10 \<Longrightarrow> dec_digit (digit_char d) = Some d"
  by (simp add: dec_digit_def digit_val_digit_char)

lemma struct_parse_digits:
  assumes "list_all (\<lambda>c. \<exists>d<10. c = digit_char d) ds" "ds \<noteq> []"
  shows "struct_parse rep (ds @ cs) =
    struct_parse (Some (foldl (\<lambda>a c. a * 10 + the (digit_val c)) (case rep of None \<Rightarrow> 0 | Some k \<Rightarrow> k) ds)) cs"
  using assms
proof (induction ds arbitrary: rep)
  case (Cons c ds)
  then obtain d where d: "d < 10" "c = digit_char d" by auto
  show ?case
  proof (cases "ds = []")
    case True
    with d show ?thesis by (simp add: dec_digit_char digit_val_digit_char)
  next
    case False
    with d Cons show ?thesis by (simp add: dec_digit_char digit_val_digit_char)
  qed
qed simp

lemma struct_parse_count: "struct_parse None (py_str_nat n @ CHR ''s'' # cs) =
    map_option ((#) (CharsField n)) (struct_parse None cs)"
proof -
  have "struct_parse None (py_str_nat n @ CHR ''s'' # cs) = struct_parse (Some n) (CHR ''s'' # cs)"
    by (simp add: struct_parse_digits py_str_nat_digits py_str_nat_fold)
  also have "\<dots> = map_option ((#) (CharsField n)) (struct_parse None cs)"
    by (simp add: dec_digit_def digit_val_def code_fields_def) (rule arg_cong [where f = "\<lambda>f. map_option f _"], auto)
  finally show ?thesis .
qed

lemma append_twice: "(@) (xs @ ys) = (\<lambda>zs. xs @ ys @ zs)"
  by (simp add: fun_eq_iff)

lemma struct_parse_append:
  "struct_parse rep code = Some fs \<Longrightarrow>
     struct_parse rep (code @ rest) = map_option ((@) fs) (struct_parse None rest)"
proof (induction rep code arbitrary: fs rule: struct_parse.induct)
  case (1 rep)
  then show ?case by (auto split: if_splits simp: option.map_ident)
next
  case (2 rep c cs)
  then show ?case
    by (cases "dec_digit c"; cases "code_fields rep c")
      (auto split: if_splits option.splits simp: option.map_comp o_def append_twice)
qed

text \<open>A count and an \<open>s\<close> after a format add a byte string.\<close>

lemma struct_parse_var:
  assumes "struct_parse None code = Some fs"
  shows "struct_parse None (code @ py_str_int (int n) @ ''s'') = Some (fs @ [CharsField n])"
  using struct_parse_append [OF assms] struct_parse_count [of n "[]"] by (simp add: py_str_int_def)

section \<open>Values\<close>

lemma sign_value_le_bytes:
  assumes "int_fits n neg v" "n > 0"
  shows "sign_value n neg (le_int (le_bytes n v)) = v"
proof -
  have even: "(256 :: int) ^ n = 2 * (256 ^ n div 2)" using assms(2) by simp
  show ?thesis
  proof (cases "v < 0")
    case True
    then have neg and low: "- (256 ^ n div 2) \<le> v" using assms(1) by (auto simp: int_fits_def split: if_splits)
    have "(0 :: int) < 256 ^ n" by simp
    then have "(v + 256 ^ n) mod 256 ^ n = v + 256 ^ n" using True low even by (intro mod_pos_pos_trivial) linarith+
    then have "v mod 256 ^ n = v + 256 ^ n" by simp
    with \<open>neg\<close> True low even show ?thesis by (simp add: sign_value_def le_int_le_bytes)
  next
    case False
    have "v < 256 ^ n" using assms even False by (auto simp: int_fits_def split: if_splits)
    then have "v mod 256 ^ n = v" using False by simp
    then show ?thesis using assms(1) False by (auto simp: sign_value_def le_int_le_bytes int_fits_def)
  qed
qed

definition widths_pos :: "struct_field list \<Rightarrow> bool" where
  "widths_pos fs = list_all (\<lambda>f. case f of IntField n _ \<Rightarrow> n > 0 | _ \<Rightarrow> True) fs"

lemma struct_parse_pos: "struct_parse rep code = Some fs \<Longrightarrow> widths_pos fs"
  by (induction rep code arbitrary: fs rule: struct_parse.induct)
    (auto simp: widths_pos_def code_fields_def int_code_def list_all_iff split: if_splits option.splits)

lemma length_fill_chars [simp]: "length (fill_chars n b) = n"
  by (simp add: fill_chars_def)

lemma length_pack_values: "pack_values fs vs = Some b \<Longrightarrow> length b = fields_width fs"
  by (induction fs vs arbitrary: b rule: pack_values.induct) (auto simp: fields_width_def split: if_splits)

text \<open>What was packed reads back, up to the cutting and filling of byte strings.\<close>

fun fitted :: "struct_field list \<Rightarrow> rpc_value list \<Rightarrow> rpc_value list" where
  "fitted (PadByte # fs) vs = fitted fs vs"
| "fitted (CharsField n # fs) (Raw b # vs) = Raw (fill_chars n b) # fitted fs vs"
| "fitted (f # fs) (v # vs) = v # fitted fs vs"
| "fitted _ _ = []"

lemma unpack_pack_values:
  "pack_values fs vs = Some b \<Longrightarrow> widths_pos fs \<Longrightarrow> unpack_values fs b = fitted fs vs"
  by (induction fs vs arbitrary: b rule: pack_values.induct)
    (auto simp: widths_pos_def sign_value_le_bytes split: if_splits)

text \<open>The arguments that fit a format: byte strings have to have exactly the width of their field.\<close>

fun conforms :: "struct_field list \<Rightarrow> rpc_value list \<Rightarrow> bool" where
  "conforms [] [] = True"
| "conforms (PadByte # fs) vs = conforms fs vs"
| "conforms (IntField n neg # fs) (Num v # vs) \<longleftrightarrow> int_fits n neg v \<and> conforms fs vs"
| "conforms (CharsField n # fs) (Raw b # vs) \<longleftrightarrow> length b = n \<and> conforms fs vs"
| "conforms _ _ = False"

lemma fill_chars_same: "fill_chars n b = b \<longleftrightarrow> length b = n"
proof
  assume "fill_chars n b = b"
  then have "length (fill_chars n b) = length b" by simp
  then show "length b = n" by simp
qed (simp add: fill_chars_def)

lemma conforms_iff: "conforms fs vs \<longleftrightarrow> pack_values fs vs \<noteq> None \<and> fitted fs vs = vs"
  by (induction fs vs rule: pack_values.induct) (auto simp: fill_chars_same)

lemma conforms_append:
  "conforms (fs @ [CharsField n]) vs \<longleftrightarrow>
     (\<exists>us b. vs = us @ [Raw b] \<and> length b = n \<and> conforms fs us)"
proof (induction fs arbitrary: vs)
  case Nil
  have "conforms [CharsField n] (v # vs') \<longleftrightarrow> (\<exists>b. v = Raw b \<and> length b = n) \<and> vs' = []" for v vs'
    by (cases v; cases vs') auto
  then show ?case by (cases vs) (auto simp: Cons_eq_append_conv)
next
  case (Cons f fs)
  show ?case
  proof (cases "f = PadByte")
    case True
    with Cons show ?thesis by simp
  next
    case False
    have step: "conforms (f # gs) (v # vs') \<longleftrightarrow> conforms [f] [v] \<and> conforms gs vs'" for gs v vs'
      using False by (cases f; cases v) simp_all
    have none: "\<not> conforms (f # gs) []" for gs using False by (cases f) simp_all
    show ?thesis
    proof (cases vs)
      case (Cons v vs')
      then show ?thesis using Cons.IH [of vs'] step [of "fs @ [CharsField n]" v vs'] step [of fs v] none [of fs]
        by (auto simp: Cons_eq_append_conv)
    qed (simp add: none)
  qed
qed

lemma struct_unpack_packed:
  assumes "struct_parse None code = Some fs" "struct_pack code args = Inr b"
  shows "struct_unpack code b = Inr (fitted fs args)" "length b = fields_width fs"
  using assms unpack_pack_values [OF _ struct_parse_pos [OF assms(1)]] length_pack_values
  by (auto simp: struct_pack_def struct_unpack_def split: option.splits)

lemma struct_pack_conforms:
  assumes "struct_parse None code = Some fs"
  shows "(\<exists>b. struct_pack code args = Inr b \<and> fitted fs args = args) \<longleftrightarrow> conforms fs args"
  using assms by (auto simp: struct_pack_def conforms_iff split: option.splits)

section \<open>Payloads\<close>

definition payload_ok :: "string \<Rightarrow> rpc_value list \<Rightarrow> bool" where
  "payload_ok fmt args =
     (if py_endswith fmt ''V'' then
        (case struct_parse None (butlast fmt) of
           None \<Rightarrow> False
         | Some fs \<Rightarrow> args \<noteq> [] \<and> conforms fs (butlast args) \<and>
             (case last args of Raw b \<Rightarrow> fields_width fs + length b \<le> 20 | _ \<Rightarrow> False))
      else (case struct_parse None fmt of None \<Rightarrow> False | Some fs \<Rightarrow> conforms fs args))"

lemma pack_with_code:
  assumes "create_respcode fmt args = Inr code" "struct_parse None code = Some fs"
  shows "pack_rpc_payload fmt args = Inr b \<longleftrightarrow> struct_pack code args = Inr b \<and> fitted fs args = args"
  using assms struct_unpack_packed [OF assms(2), of args]
  by (cases "struct_pack code args") (auto simp: pack_rpc_payload_def lift_res_def)

lemma pack_rpc_payload_fixed:
  assumes "\<not> py_endswith fmt ''V''"
  shows "(\<exists>b. pack_rpc_payload fmt args = Inr b \<and> unpack_rpc_payload fmt b = Inr args) \<longleftrightarrow> payload_ok fmt args"
proof (cases "struct_parse None fmt")
  case None
  with assms show ?thesis
    by (auto simp: payload_ok_def pack_rpc_payload_def create_respcode_def struct_pack_def lift_res_def)
next
  case (Some fs)
  have code: "create_respcode fmt args = Inr fmt" using assms by (simp add: create_respcode_def)
  have unpack: "unpack_rpc_payload fmt b = Inr args"
    if b: "struct_pack fmt args = Inr b" "fitted fs args = args" for b
    using assms struct_unpack_packed [OF Some b(1)] b(2)
    by (simp add: unpack_rpc_payload_def create_argcode_def lift_res_def)
  show ?thesis
    using unpack struct_pack_conforms [OF Some, of args] assms Some
    by (auto simp: pack_with_code [OF code Some] payload_ok_def)
qed

lemma pack_rpc_payload_var:
  assumes "py_endswith fmt ''V''"
  shows "(\<exists>b. pack_rpc_payload fmt args = Inr b \<and> unpack_rpc_payload fmt b = Inr args \<and> length b \<le> 20)
      \<longleftrightarrow> payload_ok fmt args"
    and "pack_rpc_payload fmt args = Inr b \<Longrightarrow> payload_ok fmt args"
proof -
  let ?code = "butlast fmt"
  have both: "if payload_ok fmt args
    then \<exists>b. pack_rpc_payload fmt args = Inr b \<and> unpack_rpc_payload fmt b = Inr args \<and> length b \<le> 20
    else \<forall>b. pack_rpc_payload fmt args \<noteq> Inr b"
  proof (cases "\<exists>fs us d. struct_parse None ?code = Some fs \<and> args = us @ [Raw d] \<and> fields_width fs + length d \<le> 20")
    case True
    then obtain fs us d where ok: "struct_parse None ?code = Some fs" "args = us @ [Raw d]"
      "fields_width fs + length d \<le> 20" by blast
    let ?full = "?code @ py_str_int (int (length d)) @ ''s''"
    have code: "create_respcode fmt args = Inr ?full"
      using assms ok by (simp add: create_respcode_def py_nth_def lift_res_def struct_calcsize_def)
    have parse: "struct_parse None ?full = Some (fs @ [CharsField (length d)])"
      by (rule struct_parse_var [OF ok(1)])
    have "unpack_rpc_payload fmt b = Inr args \<and> length b \<le> 20"
      if b: "struct_pack ?full args = Inr b" "fitted (fs @ [CharsField (length d)]) args = args" for b
    proof -
      have "length b = fields_width fs + length d"
        using struct_unpack_packed(2) [OF parse b(1)] by (simp add: fields_width_def)
      moreover have "create_argcode fmt b = Inr ?full"
        using assms ok calculation by (simp add: create_argcode_def lift_res_def struct_calcsize_def)
      ultimately show ?thesis
        using struct_unpack_packed(1) [OF parse b(1)] b(2) ok(3) by (simp add: unpack_rpc_payload_def lift_res_def)
    qed
    moreover have "payload_ok fmt args \<longleftrightarrow> conforms (fs @ [CharsField (length d)]) args"
      using assms ok by (simp add: payload_ok_def conforms_append)
    ultimately show ?thesis
      using struct_pack_conforms [OF parse, of args] by (auto simp: pack_with_code [OF code parse])
  next
    case False
    have "(\<exists>e. create_respcode fmt args = Inl e) \<or>
      (\<exists>fs us t. struct_parse None ?code = Some fs \<and> args = us @ [Text t] \<and>
         create_respcode fmt args = Inr (?code @ py_str_int (int (length t)) @ ''s''))"
      using False assms
      by (cases args rule: rev_cases; cases "last args"; cases "struct_parse None ?code")
        (auto simp: create_respcode_def py_nth_def lift_res_def struct_calcsize_def)
    then have "pack_rpc_payload fmt args \<noteq> Inr b" for b
    proof (elim disjE exE conjE)
      fix fs us t
      assume t: "struct_parse None ?code = Some fs" "args = us @ [Text t]"
        "create_respcode fmt args = Inr (?code @ py_str_int (int (length t)) @ ''s'')"
      have "\<not> conforms (fs @ [CharsField (length t)]) args" using t(2) by (simp add: conforms_append)
      then show ?thesis
        using pack_with_code [OF t(3) struct_parse_var [OF t(1), of "length t"]] struct_pack_conforms [OF struct_parse_var [OF t(1), of "length t"], of args] by blast
    qed (auto simp: pack_rpc_payload_def)
    moreover have "\<not> payload_ok fmt args"
      using False assms
      by (cases args rule: rev_cases; cases "last args"; cases "struct_parse None ?code") (auto simp: payload_ok_def)
    ultimately show ?thesis by simp
  qed
  then show "pack_rpc_payload fmt args = Inr b \<Longrightarrow> payload_ok fmt args" by (auto split: if_splits)
  show "(\<exists>b. pack_rpc_payload fmt args = Inr b \<and> unpack_rpc_payload fmt b = Inr args \<and> length b \<le> 20)
    \<longleftrightarrow> payload_ok fmt args" using both by (auto split: if_splits)
qed

lemma packed_ok: "pack_rpc_payload fmt args = Inr b \<Longrightarrow> payload_ok fmt args"
proof (cases "py_endswith fmt ''V''")
  case False
  assume p: "pack_rpc_payload fmt args = Inr b"
  have code: "create_respcode fmt args = Inr fmt" using False by (simp add: create_respcode_def)
  show ?thesis
  proof (cases "struct_parse None fmt")
    case None
    with p code show ?thesis by (simp add: pack_rpc_payload_def struct_pack_def lift_res_def)
  next
    case (Some fs)
    with p False show ?thesis
      using struct_pack_conforms [OF Some, of args] by (auto simp: pack_with_code [OF code Some] payload_ok_def)
  qed
qed (rule pack_rpc_payload_var(2))

lemma payload_ok_iff:
  "payload_ok fmt args \<longleftrightarrow> (\<exists>b. pack_rpc_payload fmt args = Inr b \<and> unpack_rpc_payload fmt b = Inr args \<and>
     (py_endswith fmt ''V'' \<longrightarrow> length b \<le> 20))"
  using pack_rpc_payload_fixed [of fmt args] pack_rpc_payload_var(1) [of fmt args] by (cases "py_endswith fmt ''V''") simp_all

text \<open>Packing either gives bytes that unpack to the values, or raises.\<close>

lemma pack_cases:
  obtains b where "payload_ok fmt args" "pack_rpc_payload fmt args = Inr b" "unpack_rpc_payload fmt b = Inr args"
  | e where "\<not> payload_ok fmt args" "pack_rpc_payload fmt args = Inl e"
  using payload_ok_iff [of fmt args] packed_ok [of fmt args] by (cases "pack_rpc_payload fmt args") auto

section \<open>Properties\<close>

text \<open>
  C10: packing decides exactly which values fit the format, and loses nothing.  A payload is only packed when the
  values fit, which means numbers in the range of their field, byte strings of exactly its width, and for a format
  that ends in \<open>V\<close> one more byte string, of a length that keeps the payload within 20 bytes; what was packed
  unpacks to the same values.  Packing raises on all other values: nothing is cut or filled silently.
\<close>

theorem rpc_payload_roundtrip:
  "case pack_rpc_payload fmt args of
     Inr b \<Rightarrow> payload_ok fmt args \<and> unpack_rpc_payload fmt b = Inr args \<and> (py_endswith fmt ''V'' \<longrightarrow> length b \<le> 20)
   | Inl e \<Rightarrow> \<not> payload_ok fmt args"
  using payload_ok_iff [of fmt args] packed_ok [of fmt args] by (cases "pack_rpc_payload fmt args") auto

theorem rpc_payload_roundtrip_witness:
  "(\<exists>b. pack_rpc_payload ''HV'' [Num 513, Raw [7, 8, 9]] = Inr b \<and>
     unpack_rpc_payload ''HV'' b = Inr [Num 513, Raw [7, 8, 9]] \<and> length b \<le> 20) \<and>
   (\<exists>e. pack_rpc_payload ''2s'' [Raw [7]] = Inl e)"
proof -
  have fits: "payload_ok ''HV'' [Num 513, Raw [7, 8, 9]]" and short: "\<not> payload_ok ''2s'' [Raw [7]]" by code_simp+
  have var: "py_endswith ''HV'' ''V''" by (simp add: py_endswith_def py_startswith_def)
  show ?thesis
    using rpc_payload_roundtrip [of "''HV''" "[Num 513, Raw [7, 8, 9]]"] rpc_payload_roundtrip [of "''2s''" "[Raw [7]]"] fits short var
    by (auto split: sum.splits)
qed

text \<open>
  Status codes carry the outcome of a call, with two losses.  A response always arrives.  Not found, busy
  and a missing tile arrive as themselves, an invalid id as not found, and every other exception as the code 3.
  Of an error code only six bits arrive: a multiple of 64 reads as success, and code 2 of the controller as not
  found.
\<close>

theorem rpc_status:
  "(let roundtrip = (\<lambda>resp exc address.
      case pack_rpc_response resp exc of (status, b) \<Rightarrow> unpack_rpc_response status (Some b) address) in
    roundtrip resp None address = Inr (case resp of None \<Rightarrow> [] | Some b \<Rightarrow> b) \<and>
    roundtrip resp (Some e) address =
      (case e of
         RPCErrorCode code \<Rightarrow>
           if code mod 64 = 0 then Inr (case resp of None \<Rightarrow> [] | Some b \<Rightarrow> b)
           else if address = 8 \<and> code mod 64 = 2 then Inl RPCNotFoundError
           else Inl (RPCErrorCode (code mod 64))
       | RPCInvalidIDError \<Rightarrow> Inl RPCNotFoundError
       | RPCNotFoundError \<Rightarrow> Inl RPCNotFoundError
       | BusyRPCResponse \<Rightarrow> Inl BusyRPCResponse
       | TileNotFoundError \<Rightarrow> Inl TileNotFoundError
       | _ \<Rightarrow> Inl (RPCErrorCode 3)))"
proof -
  have code: "64 OR (c AND 63) = 64 + c mod 64" "(64 + c mod 64) AND 63 = c mod 64" "(c mod 64) AND - 129 = c mod 64" for c :: int
  proof -
    have six: "x AND 63 = x mod 64" for x :: int using and_low_bits [of x 6] by simp
    have "64 AND (c AND 63) = 0" by (simp add: and.left_commute)
    then have "64 + (c AND 63) = 64 OR (c AND 63)" by (rule disjunctive_add_eq_or)
    then show "64 OR (c AND 63) = 64 + c mod 64" by (simp add: six)
    show "(64 + c mod 64) AND 63 = c mod 64" by (simp add: six)
    have "(c AND 63) AND - 129 = c AND 63" by (simp add: and.assoc)
    then show "(c mod 64) AND - 129 = c mod 64" by (simp add: six)
  qed
  have range: "c mod 64 + 64 \<noteq> 0 \<and> c mod 64 + 64 \<noteq> 2 \<and> c mod 64 + 64 \<noteq> 3 \<and> c mod 64 + 64 \<noteq> 255" for c :: int
    using pos_mod_bound [of 64 c] pos_mod_sign [of 64 c] by linarith
  have err: "unpack_rpc_response (64 OR (c AND 63)) (Some b) address =
    (if c mod 64 = 0 then Inr b
     else if address = 8 \<and> c mod 64 = 2 then Inl RPCNotFoundError
     else Inl (RPCErrorCode (c mod 64)))" for c b
    using range [of c] by (simp add: unpack_rpc_response_def code Let_def add.commute)
  have ok: "unpack_rpc_response 64 (Some b) address = Inr b" "unpack_rpc_response 192 (Some b) address = Inr b"
    "unpack_rpc_response 2 (Some b) address = Inl RPCNotFoundError"
    "unpack_rpc_response 0 (Some b) address = Inl BusyRPCResponse"
    "unpack_rpc_response 255 (Some b) address = Inl TileNotFoundError"
    "unpack_rpc_response 3 (Some b) address = Inl (RPCErrorCode 3)" for b
    by (simp_all add: unpack_rpc_response_def)
  show ?thesis
    by (cases e) (simp_all add: pack_rpc_response_def Let_def err ok)
qed

text \<open>
  The payloads and the dispatcher are transparent.  When a client packs arguments that fit the declaration
  of a call and the tile has the call, then the handler gets exactly these arguments, and what it returns reaches
  the client, who gets the same values.  A handler that raises, or whose results do not fit the declaration,
  leaves an exception and keeps what it did to the state.
\<close>

theorem rpc_transparent:
  assumes "rpc_decorator rpc_id af (Some rf) func = Inr (rpc_id, handler)" "rpcs rpc_id = Some handler"
    and "payload_ok af args"
  shows "\<exists>p. pack_rpc_payload af args = Inr p \<and> (case func args s of
      (Inl e, t) \<Rightarrow> dispatch_rpc rpcs rpc_id p s = (Inl e, t)
    | (Inr result, t) \<Rightarrow>
        let resp = (case result of None \<Rightarrow> [] | Some r \<Rightarrow> r) in
        if payload_ok rf resp
        then \<exists>b. dispatch_rpc rpcs rpc_id p s = (Inr (Payload b), t) \<and> unpack_rpc_payload rf b = Inr resp
        else \<exists>e. dispatch_rpc rpcs rpc_id p s = (Inl e, t))"
proof -
  obtain p where p: "pack_rpc_payload af args = Inr p" "unpack_rpc_payload af p = Inr args"
    using assms(3) payload_ok_iff by blast
  have run: "dispatch_rpc rpcs rpc_id p s = rpc_executor af (Some rf) func p s"
    using assms(1,2) by (auto simp: rpc_decorator_def dispatch_rpc_def split: if_splits)
  show ?thesis
  proof (cases "func args s")
    case (Pair r t)
    show ?thesis
    proof (cases r)
      case (Inl e)
      with p Pair show ?thesis by (simp add: run rpc_executor_def struct_error_as_def)
    next
      case (Inr result)
      define resp where "resp = (case result of None \<Rightarrow> [] | Some r \<Rightarrow> r)"
      have "rpc_executor af (Some rf) func p s =
        bind_act (struct_error_as RPCInvalidReturnValueError (pack_rpc_payload rf resp), t) (\<lambda>b s. (Inr (Payload b), s))"
        using p Pair Inr by (simp add: rpc_executor_def struct_error_as_def resp_def)
      with p Pair Inr show ?thesis
        by (cases rule: pack_cases [of rf resp]) (simp_all add: run struct_error_as_def flip: resp_def)
    qed
  qed
qed

theorem rpc_transparent_witness:
  "\<exists>b. dispatch_rpc [7 \<mapsto> rpc_executor ''H'' (Some ''L'') (\<lambda>args s. (Inr (Some args), s + 1))] 7 [1, 2] (5 :: nat) =
     (Inr (Payload b), 6) \<and> unpack_rpc_payload ''L'' b = Inr [Num 513]"
proof -
  let ?f = "\<lambda>args s :: nat. (Inr (Some args) :: rpc_value list option rpc_res, s + 1)"
  have args: "payload_ok ''H'' [Num 513]" "payload_ok ''L'' [Num 513]" "pack_rpc_payload ''H'' [Num 513] = Inr [1, 2]"
    by code_simp+
  show ?thesis
    using rpc_transparent [of 7 "''H''" "''L''" ?f "rpc_executor ''H'' (Some ''L'') ?f"
        "[7 \<mapsto> rpc_executor ''H'' (Some ''L'') ?f]" "[Num 513]" 5] args
    by (simp add: rpc_decorator_def)
qed

section \<open>Types of decoded arguments\<close>

lemma sign_value_fits:
  assumes "n > 0" "0 \<le> v" "v < 256 ^ n"
  shows "int_fits n neg (sign_value n neg v)"
proof -
  have even: "(256 :: int) ^ n = 2 * (256 ^ n div 2)" using assms(1) by simp
  show ?thesis
  proof (cases "neg \<and> v \<ge> 256 ^ n div 2")
    case True
    have "- (256 ^ n div 2) \<le> v - 256 ^ n \<and> v - 256 ^ n < 256 ^ n div 2"
      using True assms(2,3) even by linarith
    then show ?thesis using True by (simp add: int_fits_def sign_value_def)
  next
    case False
    with assms even show ?thesis by (auto simp: int_fits_def sign_value_def)
  qed
qed

lemma unpack_values_conform:
  "widths_pos fs \<Longrightarrow> length b = fields_width fs \<Longrightarrow> conforms fs (unpack_values fs b)"
proof (induction fs b rule: unpack_values.induct)
  case (3 n neg fs b)
  have n: "n > 0" "length (take n b) = n" using 3(2,3) by (auto simp: widths_pos_def fields_width_def)
  have "0 \<le> le_int (take n b)" "le_int (take n b) < 256 ^ n"
    using le_int_bounds [of "take n b"] n(2) by auto
  then show ?case using 3 n by (auto simp: widths_pos_def fields_width_def sign_value_fits)
qed (auto simp: widths_pos_def fields_width_def)

text \<open>
  The arguments that a handler gets have the types of its format: whenever \<open>unpack_rpc_payload\<close>
  succeeds, the payload has exactly the length of the fields, there is a value for every field that is not
  padding, every number lies in the range of its field and every byte string has the length of its field.
\<close>

theorem rpc_argument_types:
  assumes "unpack_rpc_payload fmt payload = Inr args"
  shows "\<exists>code fs. create_argcode fmt payload = Inr code \<and> struct_parse None code = Some fs \<and>
    length payload = fields_width fs \<and> conforms fs args"
proof -
  from assms obtain code fs where c: "create_argcode fmt payload = Inr code" "struct_parse None code = Some fs"
    "length payload = fields_width fs" "args = unpack_values fs payload"
    by (auto simp: unpack_rpc_payload_def bind_res_def lift_res_def struct_unpack_def split: sum.splits option.splits if_splits)
  then show ?thesis using unpack_values_conform [OF struct_parse_pos [OF c(2)] c(3)] by simp
qed

theorem rpc_argument_types_witness:
  "\<exists>fs. length [1, 2, 0xFF, 7 :: byte] = fields_width fs \<and> conforms fs [Num 513, Num (-1), Raw [7]]"
proof -
  have "unpack_rpc_payload ''HbV'' [1, 2, 0xFF, 7] = Inr [Num 513, Num (-1), Raw [7]]" by code_simp
  then show ?thesis using rpc_argument_types by blast
qed

end
