(* ===== verification/Error_Codes.thy ===== *)
theory Error_Codes
  imports Prelude
begin

text \<open>
  The error codes that remote procedure calls answer (\<open>emulate/constants/errors.py\<close>,
  \<open>const_subsystems.py\<close>): a code, alone or packed with the subsystem that reports it.
\<close>

abbreviation (input) NO_ERROR :: int where "NO_ERROR \<equiv> 0"
abbreviation (input) INPUT_BUFFER_TOO_LONG :: int where "INPUT_BUFFER_TOO_LONG \<equiv> 3"
abbreviation (input) INVALID_ARRAY_KEY :: int where "INVALID_ARRAY_KEY \<equiv> 6"
abbreviation (input) STATE_CHANGE_AT_INVALID_TIME :: int where "STATE_CHANGE_AT_INVALID_TIME \<equiv> 9"
abbreviation (input) DESTINATION_BUFFER_TOO_SMALL :: int where "DESTINATION_BUFFER_TOO_SMALL \<equiv> 16"
abbreviation (input) INPUT_BUFFER_WRONG_SIZE :: int where "INPUT_BUFFER_WRONG_SIZE \<equiv> 17"
abbreviation (input) OBSOLETE_ENTRY :: int where "OBSOLETE_ENTRY \<equiv> 0x8000"

abbreviation (input) SENSOR_LOG :: int where "SENSOR_LOG \<equiv> 0x8002"
abbreviation (input) SENSOR_GRAPH :: int where "SENSOR_GRAPH \<equiv> 0x8003"
abbreviation (input) NO_MORE_READINGS :: int where "NO_MORE_READINGS \<equiv> 0x8000"
abbreviation (input) VIRTUAL_STREAM_NOT_FOUND :: int where "VIRTUAL_STREAM_NOT_FOUND \<equiv> 0x8001"
abbreviation (input) STREAM_WALKER_NOT_INITIALIZED :: int where "STREAM_WALKER_NOT_INITIALIZED \<equiv> 0x8005"
abbreviation (input) CANNOT_USE_UNBUFFERED_STREAM :: int where "CANNOT_USE_UNBUFFERED_STREAM \<equiv> 0x8006"
abbreviation (input) ID_FOUND_FOR_ANOTHER_STREAM :: int where "ID_FOUND_FOR_ANOTHER_STREAM \<equiv> 0x8007"
abbreviation (input) RING_BUFFER_FULL :: int where "RING_BUFFER_FULL \<equiv> 0x8008"

abbreviation (input) INVALID_PROCESSING_FUNCTION :: int where "INVALID_PROCESSING_FUNCTION \<equiv> 0x8009"
abbreviation (input) STREAM_NOT_IN_USE :: int where "STREAM_NOT_IN_USE \<equiv> 0x800B"
abbreviation (input) NO_NODE_SPACE_AVAILABLE :: int where "NO_NODE_SPACE_AVAILABLE \<equiv> 0x800C"
abbreviation (input) INVALID_NODE_STREAM :: int where "INVALID_NODE_STREAM \<equiv> 0x800D"
abbreviation (input) STREAM_ALREADY_IN_PROGRESS :: int where "STREAM_ALREADY_IN_PROGRESS \<equiv> 0x8011"
abbreviation (input) NO_MORE_STREAMER_RESOURCES :: int where "NO_MORE_STREAMER_RESOURCES \<equiv> 0x8013"
abbreviation (input) STREAMER_NOT_ALLOCATED :: int where "STREAMER_NOT_ALLOCATED \<equiv> 0x8018"
abbreviation (input) OLD_ACKNOWLEDGE_UPDATE :: int where "OLD_ACKNOWLEDGE_UPDATE \<equiv> 0x801E"
abbreviation (input) STREAMER_HAS_NO_NEW_DATA :: int where "STREAMER_HAS_NO_NEW_DATA \<equiv> 0x801F"

definition pack_error :: "int \<Rightarrow> int \<Rightarrow> int" where
  "pack_error subsystem code = push_bit 16 (subsystem AND 0xFFFF) OR (code AND 0xFFFF)"

definition unpack_error :: "int \<Rightarrow> int \<times> int" where
  "unpack_error err = (drop_bit 16 err, err AND 0xFFFF)"

end
