(* ===== verification/Clock_Manager.thy ===== *)
theory Clock_Manager
  imports Rpc_Payload Error_Codes "HOL-Library.AList"
begin

text \<open>
  The clock of an emulated controller (\<open>controller_features/clock_manager.py\<close>): the time of the device, its
  synchronization, and the periodic inputs that it sends to the sensor graph.
\<close>

section \<open>State\<close>

text \<open>\<open>ck_ticks\<close> has the intervals and \<open>ck_counters\<close> the seconds since a tick, in the order of the dictionaries.\<close>

record clock_manager =
  ck_uptime :: int
  ck_time_offset :: int
  ck_is_utc :: bool
  ck_stored_offset :: "int option"
  ck_has_rtc :: bool
  ck_ticks :: "(string \<times> int) list"
  ck_counters :: "(string \<times> int) list"

definition TICK_NAMES :: "(int \<times> string) list" where
  "TICK_NAMES = [(0, ''fast''), (1, ''user1''), (2, ''user2'')]"

text \<open>\<open>streams.FAST_TICK\<close> and the others: the system inputs 3, 2, 5 and 6.\<close>

definition TICK_STREAMS :: "(string \<times> int) list" where
  "TICK_STREAMS = [(''fast'', 0x3803), (''normal'', 0x3802), (''user1'', 0x3805), (''user2'', 0x3806)]"

definition no_counts :: "(string \<times> int) list" where
  "no_counts = [(''fast'', 0), (''user1'', 0), (''user2'', 0), (''normal'', 0)]"

definition new_clock_manager :: "bool \<Rightarrow> clock_manager" where
  "new_clock_manager has_rtc =
     \<lparr>ck_uptime = 0, ck_time_offset = 0, ck_is_utc = False, ck_stored_offset = None, ck_has_rtc = has_rtc,
      ck_ticks = [(''fast'', 0), (''user1'', 0), (''user2'', 0), (''normal'', 10)], ck_counters = no_counts\<rparr>"

section \<open>Operations\<close>

definition config_interval :: "(string \<times> int) list \<Rightarrow> string \<Rightarrow> int" where
  "config_interval config_vars name = (case map_of config_vars name of None \<Rightarrow> 0 | Some n \<Rightarrow> n)"

definition ck_clear_to_reset :: "(string \<times> int) list \<Rightarrow> clock_manager \<Rightarrow> clock_manager" where
  "ck_clear_to_reset config_vars c =
     c\<lparr>ck_counters := no_counts, ck_is_utc := False,
       ck_time_offset := (case ck_stored_offset c of Some t \<Rightarrow> if ck_has_rtc c then t + ck_uptime c else 0 | None \<Rightarrow> 0),
       ck_uptime := 0,
       ck_ticks := AList.update ''user2'' (config_interval config_vars ''user_tick_2'')
         (AList.update ''user1'' (config_interval config_vars ''user_tick_1'')
           (AList.update ''fast'' (config_interval config_vars ''fast_tick'') (ck_ticks c)))\<rparr>"

definition tick_name :: "int \<Rightarrow> string option" where
  "tick_name tick_index = map_of TICK_NAMES tick_index"

text \<open>One entry of the loop of \<open>handle_tick\<close>; what the sensor graph does with an input is a parameter.\<close>

definition count_tick ::
  "(int \<Rightarrow> int \<Rightarrow> 'w \<Rightarrow> (unit, 'w) act) \<Rightarrow> string \<times> int \<Rightarrow> clock_manager \<times> 'w \<Rightarrow> (unit, clock_manager \<times> 'w) act" where
  "count_tick graph_input tick cw =
     (case (tick, cw) of ((name, interval), (c, w)) \<Rightarrow>
        if interval = 0 then (Inr (), cw)
        else case map_of (ck_counters c) name of
          None \<Rightarrow> (Inl KeyError, cw)
        | Some k \<Rightarrow>
            let c1 = c\<lparr>ck_counters := AList.update name (k + 1) (ck_counters c)\<rparr> in
            if k + 1 = interval then
              (case map_of TICK_STREAMS name of
                 None \<Rightarrow> (Inl KeyError, c1, w)
               | Some strm \<Rightarrow>
                   (case graph_input strm (ck_uptime c) w of
                      (Inl err, w1) \<Rightarrow> (Inl err, c1, w1)
                    | (Inr _, w1) \<Rightarrow> (Inr (), c1\<lparr>ck_counters := AList.update name 0 (ck_counters c1)\<rparr>, w1)))
            else (Inr (), c1, w))"

definition handle_tick ::
  "(int \<Rightarrow> int \<Rightarrow> 'w \<Rightarrow> (unit, 'w) act) \<Rightarrow> clock_manager \<times> 'w \<Rightarrow> (unit, clock_manager \<times> 'w) act" where
  "handle_tick graph_input cw =
     (case cw of (c, w) \<Rightarrow>
        for_each (count_tick graph_input) (ck_ticks c) (c\<lparr>ck_uptime := ck_uptime c + 1\<rparr>, w))"

definition set_tick :: "int \<Rightarrow> int \<Rightarrow> clock_manager \<Rightarrow> int \<times> clock_manager" where
  "set_tick index interval c =
     (case tick_name index of
        None \<Rightarrow> (pack_error SENSOR_GRAPH INVALID_ARRAY_KEY, c)
      | Some name \<Rightarrow> (NO_ERROR, c\<lparr>ck_ticks := AList.update name interval (ck_ticks c)\<rparr>))"

definition ck_get_tick :: "int \<Rightarrow> clock_manager \<Rightarrow> (int \<times> int) res" where
  "ck_get_tick index c =
     (case tick_name index of
        None \<Rightarrow> Inr (pack_error SENSOR_GRAPH INVALID_ARRAY_KEY, 0)
      | Some name \<Rightarrow> (case map_of (ck_ticks c) name of None \<Rightarrow> Inl KeyError | Some n \<Rightarrow> Inr (NO_ERROR, n)))"

definition get_time :: "bool \<Rightarrow> clock_manager \<Rightarrow> int" where
  "get_time force_uptime c =
     (if force_uptime then ck_uptime c
      else let time = ck_uptime c + ck_time_offset c in if ck_is_utc c then time OR 2 ^ 31 else time)"

definition sync_clock :: "int \<Rightarrow> clock_manager \<Rightarrow> clock_manager" where
  "sync_clock offset c =
     (let c1 = c\<lparr>ck_time_offset := offset - ck_uptime c, ck_is_utc := True\<rparr> in
      if ck_has_rtc c then c1\<lparr>ck_stored_offset := Some (ck_time_offset c1)\<rparr> else c1)"

section \<open>RPCs\<close>

definition get_user_timer :: "int \<Rightarrow> clock_manager \<Rightarrow> (rpc_value list, clock_manager) act" where
  "get_user_timer index c = (map_sum id (\<lambda>(err, tick). [Num err, Num tick]) (ck_get_tick index c), c)"

definition set_user_timer :: "int \<Rightarrow> int \<Rightarrow> clock_manager \<Rightarrow> (rpc_value list, clock_manager) act" where
  "set_user_timer interval index c = (case set_tick index interval c of (err, c1) \<Rightarrow> (Inr [Num err], c1))"

definition get_current_time :: "clock_manager \<Rightarrow> (rpc_value list, clock_manager) act" where
  "get_current_time c = (Inr [Num (get_time False c)], c)"

definition get_current_uptime :: "clock_manager \<Rightarrow> (rpc_value list, clock_manager) act" where
  "get_current_uptime c = (Inr [Num (get_time True c)], c)"

definition get_time_offset :: "clock_manager \<Rightarrow> (rpc_value list, clock_manager) act" where
  "get_time_offset c = (Inr [Num (ck_time_offset c), Num (of_bool (ck_is_utc c))], c)"

definition set_time_offset :: "int \<Rightarrow> int \<Rightarrow> clock_manager \<Rightarrow> (rpc_value list, clock_manager) act" where
  "set_time_offset offset is_utc c = (Inr [Num NO_ERROR], c\<lparr>ck_time_offset := offset, ck_is_utc := (is_utc \<noteq> 0)\<rparr>)"

definition synchronize_clock :: "int \<Rightarrow> clock_manager \<Rightarrow> (rpc_value list, clock_manager) act" where
  "synchronize_clock offset c = (Inr [Num NO_ERROR], sync_clock offset c)"

definition clock_functions :: "clock_manager rpc_declaration list" where
  "clock_functions =
     [(0x2014, ''H'', ''LL'', as_function (\<lambda>args. case args of [Num index] \<Rightarrow> Some (get_user_timer index) | _ \<Rightarrow> None)),
      (0x2015, ''LH'', ''L'', as_function (\<lambda>args. case args of
         [Num interval, Num index] \<Rightarrow> Some (set_user_timer interval index) | _ \<Rightarrow> None)),
      (0x1001, '''', ''L'', as_function (\<lambda>args. case args of [] \<Rightarrow> Some get_current_time | _ \<Rightarrow> None)),
      (0x100f, '''', ''L'', as_function (\<lambda>args. case args of [] \<Rightarrow> Some get_current_uptime | _ \<Rightarrow> None)),
      (0x100d, '''', ''LL'', as_function (\<lambda>args. case args of [] \<Rightarrow> Some get_time_offset | _ \<Rightarrow> None)),
      (0x100e, ''LL'', ''L'', as_function (\<lambda>args. case args of
         [Num offset, Num is_utc] \<Rightarrow> Some (set_time_offset offset is_utc) | _ \<Rightarrow> None)),
      (0x1010, ''L'', ''L'', as_function (\<lambda>args. case args of [Num offset] \<Rightarrow> Some (synchronize_clock offset) | _ \<Rightarrow> None))]"

section \<open>Well-formed clocks\<close>

definition clock_ok :: "clock_manager \<Rightarrow> bool" where
  "clock_ok c \<longleftrightarrow> map fst (ck_ticks c) = map fst no_counts \<and> map fst (ck_counters c) = map fst no_counts"

lemma names: "map fst no_counts = [''fast'', ''user1'', ''user2'', ''normal'']"
  by (simp add: no_counts_def)

lemma clock_ok_new: "clock_ok (new_clock_manager has_rtc)"
  by (simp add: clock_ok_def new_clock_manager_def no_counts_def)

lemma update_known: "k \<in> fst ` set al \<Longrightarrow> map fst (AList.update k v al) = map fst al"
  by (simp add: update_keys)

lemma tick_name_known: "tick_name i = Some n \<Longrightarrow> n \<in> set (map fst no_counts)"
  by (auto simp: tick_name_def TICK_NAMES_def names split: if_splits)

lemma clock_ok_reset: "clock_ok c \<Longrightarrow> clock_ok (ck_clear_to_reset config_vars c)"
  by (simp add: clock_ok_def ck_clear_to_reset_def update_keys names)

lemma clock_ok_set_tick: "clock_ok c \<Longrightarrow> clock_ok (snd (set_tick index interval c))"
  using tick_name_known [of index]
  by (auto simp: clock_ok_def set_tick_def update_keys split: option.split)

lemma clock_ok_calls:
  assumes "clock_ok c"
  shows "clock_ok (snd (set_user_timer interval index c))" "clock_ok (c\<lparr>ck_time_offset := offset, ck_is_utc := utc\<rparr>)"
    "clock_ok (sync_clock offset c)"
  using assms clock_ok_set_tick [OF assms, of index interval]
  by (simp_all add: set_user_timer_def split_beta sync_clock_def Let_def clock_ok_def)

interpretation clock_service: rpc_service clock_functions clock_ok
proof unfold_locales
  fix rpc_id af rf f args and c :: clock_manager
  assume "(rpc_id, af, rf, f) \<in> set clock_functions" "clock_ok c"
  then show "clock_ok (snd (f args c))"
    by (auto simp: clock_functions_def as_function_state get_user_timer_def get_current_time_def get_current_uptime_def
        get_time_offset_def set_time_offset_def synchronize_clock_def clock_ok_calls
        split: option.splits list.splits rpc_value.splits)
qed

section \<open>When the inputs come\<close>

text \<open>A sensor graph that notes the inputs with their times, and \<open>n\<close> seconds.\<close>

definition noted :: "int \<Rightarrow> int \<Rightarrow> (int \<times> int) list \<Rightarrow> (unit, (int \<times> int) list) act" where
  "noted strm time w = (Inr (), w @ [(strm, time)])"

primrec seconds_pass :: "(int \<Rightarrow> int \<Rightarrow> 'w \<Rightarrow> (unit, 'w) act) \<Rightarrow> nat \<Rightarrow> clock_manager \<times> 'w \<Rightarrow> clock_manager \<times> 'w" where
  "seconds_pass graph_input 0 cw = cw"
| "seconds_pass graph_input (Suc n) cw = seconds_pass graph_input n (snd (handle_tick graph_input cw))"

definition tick_count :: "clock_manager \<Rightarrow> string \<Rightarrow> int" where
  "tick_count c name = the (map_of (ck_counters c) name)"

definition tick_stream :: "string \<Rightarrow> int" where
  "tick_stream name = the (map_of TICK_STREAMS name)"

text \<open>No timer has counted up to its interval yet.\<close>

definition counting :: "clock_manager \<Rightarrow> bool" where
  "counting c \<longleftrightarrow> clock_ok c \<and> (\<forall>(name, i) \<in> set (ck_ticks c). 0 \<le> i \<and> (0 < i \<longrightarrow> 0 \<le> tick_count c name \<and> tick_count c name < i))"

text \<open>The inputs that are due after \<open>k\<close> seconds.\<close>

definition due :: "clock_manager \<Rightarrow> nat \<Rightarrow> (int \<times> int) list" where
  "due c k = map (\<lambda>(name, i). (tick_stream name, ck_uptime c + int k))
     (filter (\<lambda>(name, i). 0 < i \<and> (tick_count c name + int k) mod i = 0) (ck_ticks c))"

lemma known_name:
  assumes "clock_ok c" and "(name, i) \<in> set (ck_ticks c)"
  shows "\<exists>k. map_of (ck_counters c) name = Some k" and "\<exists>strm. map_of TICK_STREAMS name = Some strm"
proof -
  have "name \<in> set (map fst no_counts)" using assms by (metis clock_ok_def image_eqI list.set_map fst_conv)
  then show "\<exists>k. map_of (ck_counters c) name = Some k"
    using assms(1) by (simp add: clock_ok_def map_of_eq_Some_iff flip: not_None_eq) (metis list.set_map map_of_eq_None_iff not_None_eq)
  show "\<exists>strm. map_of TICK_STREAMS name = Some strm"
    using \<open>name \<in> set (map fst no_counts)\<close> by (auto simp: names TICK_STREAMS_def)
qed

lemma mod_next: "0 \<le> (k :: int) \<Longrightarrow> k < i \<Longrightarrow> (k + 1) mod i = (if k + 1 = i then 0 else k + 1)"
  by simp

lemma count_tick_noted:
  assumes "map_of (ck_counters c) name = Some k" and "map_of TICK_STREAMS name = Some strm" and "0 < i" and "0 \<le> k" and "k < i"
  shows "count_tick noted (name, i) (c, w) =
    (Inr (), c\<lparr>ck_counters := AList.update name ((k + 1) mod i) (ck_counters c)\<rparr>,
     w @ (if (k + 1) mod i = 0 then [(tick_stream name, ck_uptime c)] else []))"
  using assms by (auto simp: count_tick_def noted_def Let_def tick_stream_def mod_next)

lemma counted:
  assumes "distinct (map fst xs)" and "\<forall>(name, i) \<in> set xs. 0 \<le> i \<and> (0 < i \<longrightarrow>
      (\<exists>k strm. map_of (ck_counters c) name = Some k \<and> map_of TICK_STREAMS name = Some strm \<and> 0 \<le> k \<and> k < i))"
  shows "\<exists>cs. for_each (count_tick noted) xs (c, w) = (Inr (), c\<lparr>ck_counters := cs\<rparr>,
      w @ map (\<lambda>(name, i). (tick_stream name, ck_uptime c)) (filter (\<lambda>(name, i). 0 < i \<and> (tick_count c name + 1) mod i = 0) xs)) \<and>
    map fst cs = map fst (ck_counters c) \<and>
    (\<forall>name. map_of cs name = (case map_of xs name of
       Some i \<Rightarrow> if 0 < i then Some ((tick_count c name + 1) mod i) else map_of (ck_counters c) name
     | None \<Rightarrow> map_of (ck_counters c) name))"
  using assms
proof (induction xs arbitrary: c w)
  case Nil
  then show ?case by (intro exI [of _ "ck_counters c"]) simp
next
  case (Cons x xs)
  obtain name i where x: "x = (name, i)" by (cases x)
  show ?case
  proof (cases "0 < i")
    case True
    then obtain k strm where k: "map_of (ck_counters c) name = Some k" "map_of TICK_STREAMS name = Some strm" "0 \<le> k" "k < i"
      using Cons.prems(2) x by auto
    let ?c = "c\<lparr>ck_counters := AList.update name ((k + 1) mod i) (ck_counters c)\<rparr>"
    let ?w = "w @ (if (k + 1) mod i = 0 then [(tick_stream name, ck_uptime c)] else [])"
    have step: "count_tick noted (name, i) (c, w) = (Inr (), ?c, ?w)" using count_tick_noted [OF k(1,2) True k(3,4)] .
    have other: "map_of (ck_counters ?c) n = map_of (ck_counters c) n" if "n \<noteq> name" for n
      using that by (simp add: update_conv)
    have "\<forall>(n, i) \<in> set xs. 0 \<le> i \<and> (0 < i \<longrightarrow>
        (\<exists>k strm. map_of (ck_counters ?c) n = Some k \<and> map_of TICK_STREAMS n = Some strm \<and> 0 \<le> k \<and> k < i))"
    proof clarify
      fix n j
      assume "(n, j) \<in> set xs"
      moreover from this have "n \<noteq> name" using Cons.prems(1) x by force
      ultimately show "0 \<le> j \<and> (0 < j \<longrightarrow>
          (\<exists>k strm. map_of (ck_counters ?c) n = Some k \<and> map_of TICK_STREAMS n = Some strm \<and> 0 \<le> k \<and> k < j))"
        using Cons.prems(2) unfolding other [OF \<open>n \<noteq> name\<close>] by fastforce
    qed
    moreover have "distinct (map fst xs)" using Cons.prems(1) by simp
    ultimately obtain cs where cs: "for_each (count_tick noted) xs (?c, ?w) = (Inr (), ?c\<lparr>ck_counters := cs\<rparr>,
        ?w @ map (\<lambda>(name, i). (tick_stream name, ck_uptime ?c)) (filter (\<lambda>(name, i). 0 < i \<and> (tick_count ?c name + 1) mod i = 0) xs))"
      "map fst cs = map fst (ck_counters ?c)"
      "\<And>n. map_of cs n = (case map_of xs n of
         Some i \<Rightarrow> if 0 < i then Some ((tick_count ?c n + 1) mod i) else map_of (ck_counters ?c) n
       | None \<Rightarrow> map_of (ck_counters ?c) n)"
      using Cons.IH [of ?c ?w] by blast
    have same: "filter (\<lambda>(name, i). 0 < i \<and> (tick_count ?c name + 1) mod i = 0) xs =
        filter (\<lambda>(name, i). 0 < i \<and> (tick_count c name + 1) mod i = 0) xs"
    proof (rule filter_cong [OF refl])
      fix y
      assume "y \<in> set xs"
      then have "fst y \<noteq> name" using Cons.prems(1) x by force
      then show "(case y of (name, i) \<Rightarrow> 0 < i \<and> (tick_count ?c name + 1) mod i = 0) =
          (case y of (name, i) \<Rightarrow> 0 < i \<and> (tick_count c name + 1) mod i = 0)"
        by (cases y) (simp add: tick_count_def update_conv)
    qed
    have mine: "tick_count c name = k" by (simp add: tick_count_def k(1))
    have notin: "map_of xs name = None" using Cons.prems(1) x by (simp add: map_of_eq_None_iff)
    have "name \<in> fst ` set (ck_counters c)" using k(1) by (force dest: map_of_SomeD)
    then have "map fst cs = map fst (ck_counters c)" using cs(2) by (simp add: update_keys)
    moreover have "map_of cs n = (case map_of (x # xs) n of
         Some i \<Rightarrow> if 0 < i then Some ((tick_count c n + 1) mod i) else map_of (ck_counters c) n
       | None \<Rightarrow> map_of (ck_counters c) n)" for n
      using cs(3) [of n] notin mine True by (cases "n = name") (auto simp: x tick_count_def update_conv split: option.split)
    ultimately show ?thesis
      using cs(1) by (intro exI [of _ cs]) (simp add: x step bind_act_def same mine True)
  next
    case False
    then have "i = 0" using Cons.prems(2) x by auto
    then have "count_tick noted x (c, w) = (Inr (), c, w)" by (simp add: x count_tick_def)
    moreover have "map_of xs name = None" using Cons.prems(1) x by (simp add: map_of_eq_None_iff)
    ultimately show ?thesis
      using Cons.IH [of c w] Cons.prems \<open>i = 0\<close> by (auto simp: x bind_act_def split: option.split)
  qed
qed

lemma tick_count_uptime [simp]: "tick_count (c\<lparr>ck_uptime := u\<rparr>) = tick_count c"
  by (simp add: tick_count_def fun_eq_iff)

lemma counting_tick:
  assumes "counting c"
  shows "\<exists>c'. handle_tick noted (c, w) = (Inr (), c', w @ due c 1) \<and> counting c' \<and> ck_ticks c' = ck_ticks c \<and>
    ck_uptime c' = ck_uptime c + 1 \<and>
    (\<forall>(name, i) \<in> set (ck_ticks c). 0 < i \<longrightarrow> tick_count c' name = (tick_count c name + 1) mod i)"
proof -
  have ok: "clock_ok c" and count: "\<And>name i. (name, i) \<in> set (ck_ticks c) \<Longrightarrow> 0 \<le> i \<and>
      (0 < i \<longrightarrow> 0 \<le> tick_count c name \<and> tick_count c name < i)"
    using assms by (auto simp: counting_def)
  let ?c = "c\<lparr>ck_uptime := ck_uptime c + 1\<rparr>"
  have distinct: "distinct (map fst (ck_ticks c))" using ok by (simp add: clock_ok_def names)
  have "\<forall>(name, i) \<in> set (ck_ticks c). 0 \<le> i \<and> (0 < i \<longrightarrow>
      (\<exists>k strm. map_of (ck_counters ?c) name = Some k \<and> map_of TICK_STREAMS name = Some strm \<and> 0 \<le> k \<and> k < i))"
  proof clarify
    fix name i
    assume tick: "(name, i) \<in> set (ck_ticks c)"
    then obtain k strm where "map_of (ck_counters c) name = Some k" "map_of TICK_STREAMS name = Some strm"
      using known_name [OF ok] by blast
    then show "0 \<le> i \<and> (0 < i \<longrightarrow>
        (\<exists>k strm. map_of (ck_counters ?c) name = Some k \<and> map_of TICK_STREAMS name = Some strm \<and> 0 \<le> k \<and> k < i))"
      using count [OF tick] by (simp add: tick_count_def)
  qed
  note raw = counted [OF distinct this, of w, simplified tick_count_uptime]
  have "map (\<lambda>(name, i). (tick_stream name, ck_uptime ?c)) (filter (\<lambda>(name, i). 0 < i \<and> (tick_count c name + 1) mod i = 0) (ck_ticks c)) =
      due c 1" by (simp add: due_def)
  with raw obtain cs
    where cs: "for_each (count_tick noted) (ck_ticks c) (?c, w) = (Inr (), ?c\<lparr>ck_counters := cs\<rparr>, w @ due c 1)"
      "map fst cs = map fst (ck_counters c)"
      "\<And>name. map_of cs name = (case map_of (ck_ticks c) name of
         Some i \<Rightarrow> if 0 < i then Some ((tick_count c name + 1) mod i) else map_of (ck_counters ?c) name
       | None \<Rightarrow> map_of (ck_counters ?c) name)"
    by auto
  let ?d = "?c\<lparr>ck_counters := cs\<rparr>"
  have new: "tick_count ?d name = (tick_count c name + 1) mod i" if "(name, i) \<in> set (ck_ticks c)" "0 < i" for name i
    using that distinct cs(3) [of name] by (simp add: tick_count_def)
  moreover have "counting ?d"
    unfolding counting_def using new count ok cs(2) by (fastforce simp: clock_ok_def)
  ultimately show ?thesis using cs(1) by (intro exI [of _ ?d]) (auto simp: handle_tick_def)
qed

lemma due_later:
  assumes "ck_ticks c' = ck_ticks c" and "ck_uptime c' = ck_uptime c + 1"
    and "\<forall>(name, i) \<in> set (ck_ticks c). 0 < i \<longrightarrow> tick_count c' name = (tick_count c name + 1) mod i"
  shows "due c' k = due c (Suc k)"
proof -
  have "filter (\<lambda>(name, i). 0 < i \<and> (tick_count c' name + int k) mod i = 0) (ck_ticks c) =
      filter (\<lambda>(name, i). 0 < i \<and> (tick_count c name + int (Suc k)) mod i = 0) (ck_ticks c)"
  proof (rule filter_cong [OF refl], clarify)
    fix name i
    assume "(name, i) \<in> set (ck_ticks c)"
    then have "0 < i \<Longrightarrow> tick_count c' name = (tick_count c name + 1) mod i" using assms(3) by auto
    moreover have "((tick_count c name + 1) mod i + int k) mod i = (tick_count c name + int (Suc k)) mod i"
      by (subst mod_add_left_eq) (simp add: ac_simps)
    ultimately show "(0 < i \<and> (tick_count c' name + int k) mod i = 0) = (0 < i \<and> (tick_count c name + int (Suc k)) mod i = 0)"
      by auto
  qed
  then show ?thesis by (simp add: due_def assms(1,2) add.assoc)
qed

lemma seconds_due:
  assumes "counting c"
  shows "\<exists>c'. seconds_pass noted n (c, w) = (c', w @ concat (map (due c) [1..<Suc n])) \<and> counting c' \<and> ck_uptime c' = ck_uptime c + int n"
  using assms
proof (induction n arbitrary: c w)
  case (Suc n)
  obtain c1 where c1: "handle_tick noted (c, w) = (Inr (), c1, w @ due c 1)" "counting c1" "ck_ticks c1 = ck_ticks c"
      "ck_uptime c1 = ck_uptime c + 1"
      "\<forall>(name, i) \<in> set (ck_ticks c). 0 < i \<longrightarrow> tick_count c1 name = (tick_count c name + 1) mod i"
    using counting_tick [OF Suc.prems, of w] by blast
  obtain c' where c': "seconds_pass noted n (c1, w @ due c 1) = (c', (w @ due c 1) @ concat (map (due c1) [1..<Suc n]))"
      "counting c'" "ck_uptime c' = ck_uptime c1 + int n"
    using Suc.IH [OF c1(2)] by blast
  have "[1..<Suc (Suc n)] = 1 # map Suc [1..<Suc n]" by (simp only: map_Suc_upt) (simp add: upt_conv_Cons del: upt_Suc)
  moreover have "due c1 = due c \<circ> Suc" using due_later [OF c1(3,4,5)] by (simp add: fun_eq_iff)
  ultimately have "concat (map (due c) [1..<Suc (Suc n)]) = due c 1 @ concat (map (due c1) [1..<Suc n])"
    by (simp del: upt_Suc)
  then show ?case using c' c1(1,4) by (simp add: add.assoc del: upt_Suc)
qed simp

lemma counting_new: "counting (new_clock_manager has_rtc)"
  by (simp add: counting_def clock_ok_new) (simp add: new_clock_manager_def no_counts_def tick_count_def)

text \<open>
  C39: The inputs come when they are due: as long as no interval is changed, a timer with an interval of \<open>i\<close> seconds that has
  counted \<open>k < i\<close> seconds sends its input after every \<open>n\<close> seconds for which \<open>i\<close> divides \<open>k + n\<close>, with the uptime of that
  second, and at no other time; a timer with interval 0 sends nothing; inputs of the same second come in the order of the timers.
\<close>

theorem ticks_on_time:
  assumes "counting c"
  shows "snd (seconds_pass noted n (c, [])) =
    concat (map (\<lambda>k. map (\<lambda>(name, i). (tick_stream name, ck_uptime c + int k))
      (filter (\<lambda>(name, i). 0 < i \<and> (tick_count c name + int k) mod i = 0) (ck_ticks c))) [1..<Suc n])"
proof -
  obtain c' where "seconds_pass noted n (c, []) = (c', [] @ concat (map (due c) [1..<Suc n]))"
    using seconds_due [OF assms] by blast
  then show ?thesis by (simp add: due_def [abs_def] del: upt_Suc)
qed

theorem ticks_on_time_witness:
  "snd (seconds_pass noted 25 (snd (set_tick 1 7 (new_clock_manager False)), [])) =
     [(0x3805, 7), (0x3802, 10), (0x3805, 14), (0x3802, 20), (0x3805, 21)]"
proof -
  let ?c = "snd (set_tick 1 7 (new_clock_manager False))"
  have "counting ?c" by code_simp
  from ticks_on_time [OF this, of 25] show ?thesis by simp code_simp
qed

section \<open>A timer that is made faster\<close>

definition overdue :: "string \<Rightarrow> int \<Rightarrow> clock_manager \<Rightarrow> bool" where
  "overdue name i c \<longleftrightarrow> clock_ok c \<and> map_of (ck_ticks c) name = Some i \<and> 0 < i \<and> i \<le> tick_count c name"

lemma tick_streams_distinct:
  "n \<in> set (map fst no_counts) \<Longrightarrow> name \<in> set (map fst no_counts) \<Longrightarrow> n \<noteq> name \<Longrightarrow> tick_stream n \<noteq> tick_stream name"
  by (auto simp: names tick_stream_def TICK_STREAMS_def)

lemma overdue_step:
  assumes "overdue name i c" and "(n, j) \<in> set (ck_ticks c)"
  shows "\<exists>c' ws. snd (count_tick noted (n, j) (c, w)) = (c', w @ ws) \<and> overdue name i c' \<and> ck_ticks c' = ck_ticks c \<and>
    tick_stream name \<notin> fst ` set ws"
proof -
  have ok: "clock_ok c" and i: "map_of (ck_ticks c) name = Some i" "0 < i" "i \<le> tick_count c name"
    using assms(1) by (simp_all add: overdue_def)
  obtain k strm where k: "map_of (ck_counters c) n = Some k" "map_of TICK_STREAMS n = Some strm" using known_name [OF ok assms(2)] by blast
  have known: "n \<in> set (map fst no_counts)" "name \<in> set (map fst no_counts)"
    using ok assms(2) i(1) by (metis clock_ok_def image_eqI list.set_map fst_conv map_of_SomeD)+
  have "distinct (map fst (ck_ticks c))" using ok by (simp add: clock_ok_def names)
  then have "n = name \<Longrightarrow> j = i" using assms(2) i(1) by simp
  moreover have keys: "clock_ok (c\<lparr>ck_counters := AList.update n v (ck_counters c)\<rparr>)" for v
    using ok known(1) by (simp add: clock_ok_def update_keys)
  have "clock_ok (c\<lparr>ck_counters := AList.update n u (AList.update n v (ck_counters c))\<rparr>)" for u v
    using ok known(1) by (simp add: clock_ok_def update_keys)
  ultimately show ?thesis
    using i k keys tick_streams_distinct [OF known] ok
    by (cases "n = name")
      (auto simp: count_tick_def noted_def Let_def overdue_def tick_count_def update_conv tick_stream_def)
qed


lemma overdue_seconds:
  assumes "overdue name i c"
  shows "\<exists>c' ws. seconds_pass noted n (c, w) = (c', w @ ws) \<and> tick_stream name \<notin> fst ` set ws"
  using assms
proof (induction n arbitrary: c w)
  case (Suc n)
  have loop: "\<exists>c' ws. snd (for_each (count_tick noted) xs (d, v)) = (c', v @ ws) \<and> overdue name i c' \<and> ck_ticks c' = ck_ticks d \<and>
      tick_stream name \<notin> fst ` set ws" if "overdue name i d" "set xs \<subseteq> set (ck_ticks d)" for xs d v
    using that
  proof (induction xs arbitrary: d v)
    case (Cons x xs)
    obtain m j where x: "x = (m, j)" by (cases x)
    obtain d' ws where d': "snd (count_tick noted (m, j) (d, v)) = (d', v @ ws)" "overdue name i d'" "ck_ticks d' = ck_ticks d"
        "tick_stream name \<notin> fst ` set ws"
      using overdue_step [OF Cons.prems(1), of m j v] Cons.prems(2) x by auto
    then obtain r where r: "count_tick noted (m, j) (d, v) = (r, d', v @ ws)" by (metis prod.collapse)
    obtain d'' ws' where "snd (for_each (count_tick noted) xs (d', v @ ws)) = (d'', (v @ ws) @ ws')" "overdue name i d''"
        "ck_ticks d'' = ck_ticks d'" "tick_stream name \<notin> fst ` set ws'"
      using Cons.IH [OF d'(2), of "v @ ws"] Cons.prems(2) d'(3) by auto
    then show ?case using r d' x by (cases r) (auto simp: bind_act_def)
  qed auto
  have "overdue name i (c\<lparr>ck_uptime := ck_uptime c + 1\<rparr>)" using Suc.prems by (simp add: overdue_def clock_ok_def)
  from loop [OF this, of "ck_ticks c" w] obtain c1 ws where c1: "snd (handle_tick noted (c, w)) = (c1, w @ ws)" "overdue name i c1"
      "tick_stream name \<notin> fst ` set ws"
    by (auto simp: handle_tick_def)
  obtain c' ws' where "seconds_pass noted n (c1, w @ ws) = (c', (w @ ws) @ ws')" "tick_stream name \<notin> fst ` set ws'"
    using Suc.IH [OF c1(2)] by blast
  then show ?case using c1 by auto
qed simp

text \<open>
  C40: A timer whose interval is set to no more than the seconds it has already counted never sends an input again: the counter
  is past the interval, and it is only compared for equality.
\<close>

theorem shortened_timer_stops:
  assumes "clock_ok c" and "set_tick index interval c = (NO_ERROR, c1)" and "tick_name index = Some name"
    and "0 < interval" and "interval \<le> tick_count c name"
  shows "tick_stream name \<notin> fst ` set (snd (seconds_pass noted n (c1, [])))"
proof -
  have "overdue name interval c1"
    using assms clock_ok_set_tick [OF assms(1), of index interval]
    by (auto simp: overdue_def set_tick_def tick_count_def update_conv)
  from overdue_seconds [OF this, of n "[]"] show ?thesis by auto
qed

definition slow_clock :: clock_manager where
  "slow_clock = fst (seconds_pass noted 8 (snd (set_tick 1 60 (new_clock_manager False)), []))"

theorem shortened_timer_stops_witness:
  "set_tick 1 5 slow_clock = (0, snd (set_tick 1 5 slow_clock)) \<and>
   0x3805 \<notin> fst ` set (snd (seconds_pass noted 1000 (snd (set_tick 1 5 slow_clock), [])))"
proof -
  have "clock_ok slow_clock" "tick_name 1 = Some ''user1''" "(5 :: int) \<le> tick_count slow_clock ''user1''"
    "tick_stream ''user1'' = 0x3805"
    by code_simp+
  moreover have "set_tick 1 5 slow_clock = (0, snd (set_tick 1 5 slow_clock))" by (simp add: set_tick_def calculation(2))
  ultimately show ?thesis using shortened_timer_stops [of slow_clock 1 5 _ "''user1''" 1000] by force
qed

section \<open>The time\<close>

text \<open>What a tick changes, whatever the sensor graph does with the inputs.\<close>

definition same_time :: "clock_manager \<Rightarrow> clock_manager \<Rightarrow> bool" where
  "same_time c d \<longleftrightarrow> ck_uptime d = ck_uptime c \<and> ck_time_offset d = ck_time_offset c \<and> ck_is_utc d = ck_is_utc c \<and>
     ck_stored_offset d = ck_stored_offset c \<and> ck_has_rtc d = ck_has_rtc c"

lemma count_tick_time: "same_time c (fst (snd (count_tick graph_input x (c, w))))"
  by (cases x) (auto simp: count_tick_def same_time_def Let_def split: option.split prod.split sum.split)

lemma for_each_time: "same_time c (fst (snd (for_each (count_tick graph_input) xs (c, w))))"
proof (induction xs arbitrary: c w)
  case (Cons x xs)
  obtain r d v where step: "count_tick graph_input x (c, w) = (r, d, v)" by (rule prod_cases3)
  then have "same_time c d" using count_tick_time [of c graph_input x w] by simp
  then show ?case using Cons.IH [of d v] by (cases r) (auto simp: step bind_act_def same_time_def)
qed (simp add: same_time_def)

lemma tick_time: "same_time (c\<lparr>ck_uptime := ck_uptime c + 1\<rparr>) (fst (snd (handle_tick graph_input (c, w))))"
  by (simp add: handle_tick_def for_each_time)

lemma seconds_time: "same_time (c\<lparr>ck_uptime := ck_uptime c + int n\<rparr>) (fst (seconds_pass graph_input n (c, w)))"
proof (induction n arbitrary: c w)
  case (Suc n)
  obtain d v where step: "snd (handle_tick graph_input (c, w)) = (d, v)" by fastforce
  then have "same_time (c\<lparr>ck_uptime := ck_uptime c + 1\<rparr>) d" using tick_time [of c graph_input w] by simp
  then show ?case using Suc.IH [of d v] by (simp add: step same_time_def)
qed (simp add: same_time_def)

text \<open>
  A clock that was set to \<open>offset\<close> shows, \<open>n\<close> seconds later, the time \<open>offset + n\<close> marked as UTC in bit 31, whatever the
  sensor graph did with the inputs; the uptime goes on as it was.  After a reset a clock with an RTC shows the seconds since the
  millennium again, but not marked, and after another reset it is late by the uptime that it had at the first one.
\<close>

theorem time_after_sync:
  assumes "c1 = fst (seconds_pass graph_input n (sync_clock offset c, w))"
    and "c2 = fst (seconds_pass graph_input n2 (ck_clear_to_reset vars c1, w2))"
    and "c3 = ck_clear_to_reset vars2 c2"
  shows "get_time False c1 = (offset + int n) OR 2 ^ 31 \<and> get_time True c1 = ck_uptime c + int n \<and>
    (ck_has_rtc c \<longrightarrow> get_time False c2 = offset + int n + int n2 \<and>
       get_time False c3 = offset + int n + int n2 - ck_uptime c1)"
  using seconds_time [of "sync_clock offset c" n graph_input w] seconds_time [of "ck_clear_to_reset vars c1" n2 graph_input w2]
  unfolding assms(1) [symmetric] assms(2) [symmetric]
  by (simp add: assms(3) same_time_def sync_clock_def Let_def get_time_def ck_clear_to_reset_def add.commute [of offset] split: if_splits)

theorem time_after_sync_witness:
  "get_time False (fst (seconds_pass noted 3 (sync_clock 600000000 (new_clock_manager True), []))) = 600000003 OR 2 ^ 31"
  using time_after_sync [OF refl refl refl, of noted 3 600000000 "new_clock_manager True" "[]"] by simp

end
