(* ===== verification/Service_States.thy ===== *)
theory Service_States
  imports Prelude "HOL-Library.AList"
begin

text \<open>
  What the supervisor keeps of the services of a gateway: messages and states (\<open>supervisor/states.py\<close>), values that are
  waited for (\<open>async_tools/awaitable_dict.py\<close>) and the manager of services (\<open>supervisor/service_manager.py\<close>).
\<close>

section \<open>Messages\<close>

text \<open>Times are in milliseconds of the monotonic clock; \<open>now\<close> is its value.\<close>

definition KNOWN_STATES :: "(int \<times> string) list" where
  "KNOWN_STATES = [(0, ''Not Started''), (1, ''Running''), (3, ''Stopped''), (2, ''Degraded''), (4, ''Unknown'')]"

record service_message =
  sm_level :: int
  sm_text :: string
  sm_count :: int
  sm_id :: int
  sm_created :: int

definition new_message :: "int \<Rightarrow> string \<Rightarrow> int \<Rightarrow> int option \<Rightarrow> int option \<Rightarrow> int \<Rightarrow> service_message" where
  "new_message level text mid timestamp now_reference now =
     \<lparr>sm_level = level, sm_text = text, sm_count = 1, sm_id = mid,
      sm_created = (case timestamp of
          None \<Rightarrow> now
        | Some t \<Rightarrow> (case now_reference of None \<Rightarrow> t | Some r \<Rightarrow> min (t + (now - r)) now))\<rparr>"

record message_dict =
  md_level :: int
  md_message :: string
  md_now_time :: int
  md_created_time :: int
  md_id :: int
  md_count :: int

definition message_to_dict :: "int \<Rightarrow> service_message \<Rightarrow> message_dict" where
  "message_to_dict now m =
     \<lparr>md_level = sm_level m, md_message = sm_text m, md_now_time = now, md_created_time = sm_created m, md_id = sm_id m,
      md_count = sm_count m\<rparr>"

definition message_of_dict :: "int \<Rightarrow> message_dict \<Rightarrow> service_message" where
  "message_of_dict now d =
     (let m = new_message (md_level d) (md_message d) (md_id d) (Some (md_created_time d)) (Some (md_now_time d)) now in
      if md_count d > 1 then m\<lparr>sm_count := md_count d\<rparr> else m)"

definition message_age :: "int \<Rightarrow> service_message \<Rightarrow> int" where
  "message_age now m = now - sm_created m"

section \<open>States of services\<close>

record service_state =
  ss_short_name :: string
  ss_long_name :: string
  ss_preregistered :: bool
  ss_last_heartbeat :: int
  ss_num_heartbeats :: int
  ss_id :: "int option"
  ss_state :: int
  ss_max_messages :: nat
  ss_messages :: "service_message list"
  ss_headline :: "service_message option"
  ss_last_message_id :: int

definition new_service_state :: "string \<Rightarrow> string \<Rightarrow> bool \<Rightarrow> int option \<Rightarrow> nat \<Rightarrow> int \<Rightarrow> service_state" where
  "new_service_state short_name long_name preregistered int_id max_messages now =
     \<lparr>ss_short_name = short_name, ss_long_name = long_name, ss_preregistered = preregistered, ss_last_heartbeat = now,
      ss_num_heartbeats = 0, ss_id = int_id, ss_state = 4, ss_max_messages = max_messages, ss_messages = [], ss_headline = None,
      ss_last_message_id = 0\<rparr>"

definition string_state :: "service_state \<Rightarrow> string res" where
  "string_state s = (case map_of KNOWN_STATES (ss_state s) of None \<Rightarrow> Inl KeyError | Some t \<Rightarrow> Inr t)"

definition heartbeat_age :: "int \<Rightarrow> service_state \<Rightarrow> int" where
  "heartbeat_age now s = now - ss_last_heartbeat s"

definition set_state :: "int \<Rightarrow> service_state \<Rightarrow> (unit, service_state) act" where
  "set_state n s = (if map_of KNOWN_STATES n = None then (Inl ArgumentError, s) else (Inr (), s\<lparr>ss_state := n\<rparr>))"

definition get_message :: "int \<Rightarrow> service_state \<Rightarrow> service_message res" where
  "get_message mid s =
     (case find (\<lambda>m. sm_id m = mid) (ss_messages s) of None \<Rightarrow> Inl ArgumentError | Some m \<Rightarrow> Inr m)"

text \<open>\<open>append\<close> to a \<open>deque\<close> with a largest length drops elements from the left.\<close>

definition deque_append :: "nat \<Rightarrow> 'a list \<Rightarrow> 'a \<Rightarrow> 'a list" where
  "deque_append max_len xs x = drop (length xs + 1 - max_len) (xs @ [x])"

text \<open>A message with the text of the last one only counts up, whatever its level.\<close>

definition post_message ::
  "int \<Rightarrow> string \<Rightarrow> int \<Rightarrow> int option \<Rightarrow> int option \<Rightarrow> int \<Rightarrow> service_state \<Rightarrow> (service_message, service_state) act" where
  "post_message level text n timestamp now_reference now s =
     (let ms = ss_messages s;
          s1 = (if ms \<noteq> [] \<and> sm_text (last ms) = text
                then s\<lparr>ss_messages := butlast ms @ [(last ms)\<lparr>sm_count := sm_count (last ms) + 1\<rparr>]\<rparr>
                else s\<lparr>ss_messages := deque_append (ss_max_messages s) ms
                         ((new_message level text (ss_last_message_id s) timestamp now_reference now)\<lparr>sm_count := n\<rparr>),
                       ss_last_message_id := ss_last_message_id s + 1\<rparr>)
      in (py_nth (ss_messages s1) (- 1), s1))"

definition set_headline :: "int \<Rightarrow> string \<Rightarrow> int option \<Rightarrow> int option \<Rightarrow> int \<Rightarrow> service_state \<Rightarrow> service_state" where
  "set_headline level text timestamp now_reference now s =
     (case ss_headline s of
        Some h \<Rightarrow>
          if sm_text h = text then s\<lparr>ss_headline := Some (h\<lparr>sm_created := now, sm_count := sm_count h + 1\<rparr>)\<rparr>
          else s\<lparr>ss_headline := Some (new_message level text (ss_last_message_id s) timestamp now_reference now),
                 ss_last_message_id := ss_last_message_id s + 1\<rparr>
      | None \<Rightarrow> s\<lparr>ss_headline := Some (new_message level text (ss_last_message_id s) timestamp now_reference now),
                  ss_last_message_id := ss_last_message_id s + 1\<rparr>)"

definition heartbeat :: "int \<Rightarrow> service_state \<Rightarrow> service_state" where
  "heartbeat now s = s\<lparr>ss_last_heartbeat := now, ss_num_heartbeats := ss_num_heartbeats s + 1\<rparr>"

section \<open>Values that are waited for\<close>

text \<open>A key has a future, which is pending, done or cancelled.\<close>

datatype 'v future = Pending | Done 'v | Cancelled

type_synonym 'v awaitable_dict = "(string \<times> 'v future) list"

definition aw_declare :: "string \<Rightarrow> 'v awaitable_dict \<Rightarrow> (unit, 'v awaitable_dict) act" where
  "aw_declare name d =
     (if map_of d name \<noteq> None then (Inl KeyError, d) else (Inr (), AList.update name Pending d))"

definition aw_ensure_declared :: "string \<Rightarrow> 'v awaitable_dict \<Rightarrow> 'v awaitable_dict" where
  "aw_ensure_declared name d = (if map_of d name \<noteq> None then d else AList.update name Pending d)"

text \<open>
  \<open>get\<close> up to the point where it waits is \<open>aw_ensure_declared\<close>.  When it is woken, it has a value, its time is over, or it
  goes on waiting (\<open>None\<close>).  A timeout cancels the future; another getter may have taken the key.
\<close>

definition aw_get :: "bool \<Rightarrow> bool \<Rightarrow> string \<Rightarrow> 'v awaitable_dict \<Rightarrow> ('v option, 'v awaitable_dict) act" where
  "aw_get autoremove timed_out name d =
     (case map_of d name of
        None \<Rightarrow> (Inl KeyError, d)
      | Some (Done v) \<Rightarrow> (Inr (Some v), if autoremove then AList.delete name d else d)
      | Some Cancelled \<Rightarrow> (Inl CancelledError, if autoremove then AList.delete name d else d)
      | Some Pending \<Rightarrow>
          if timed_out then (Inl AsyncTimeoutError, if autoremove then AList.delete name d else AList.update name Cancelled d)
          else (Inr None, d))"

text \<open>The key stays declared after a call that did not find it.\<close>

definition aw_get_nowait :: "'v option \<Rightarrow> bool \<Rightarrow> string \<Rightarrow> 'v awaitable_dict \<Rightarrow> ('v, 'v awaitable_dict) act" where
  "aw_get_nowait dflt autoremove name d =
     (let d1 = aw_ensure_declared name d; d2 = (if autoremove then AList.delete name d1 else d1) in
      (case map_of d1 name of
         Some (Done v) \<Rightarrow> Inr v
       | Some Cancelled \<Rightarrow> Inl CancelledError
       | _ \<Rightarrow> (case dflt of None \<Rightarrow> Inl KeyError | Some v \<Rightarrow> Inr v), d2))"

definition aw_set :: "string \<Rightarrow> 'v \<Rightarrow> bool \<Rightarrow> 'v awaitable_dict \<Rightarrow> (unit, 'v awaitable_dict) act" where
  "aw_set name v autodeclare d =
     (if \<not> autodeclare \<and> map_of d name = None then (Inl KeyError, d)
      else let d1 = aw_ensure_declared name d in
        case map_of d1 name of
          Some Pending \<Rightarrow> (Inr (), AList.update name (Done v) d1)
        | _ \<Rightarrow> (Inl InvalidStateError, d1))"

section \<open>The manager\<close>

text \<open>The server passes a time in the place of the sender.\<close>

datatype rpc_sender = SenderName string | SenderNumber int

record in_flight_rpc =
  if_sender :: rpc_sender
  if_service :: string
  if_sent_timestamp :: int
  if_timeout :: int

record rpc_result =
  rr_result :: string
  rr_response :: "byte list"

record 'c service_manager =
  sv_services :: "(string \<times> service_state) list"
  sv_agents :: "(string \<times> string) list"
  sv_in_flight :: "(string \<times> in_flight_rpc) list"
  sv_rpc_results :: "rpc_result awaitable_dict"
  sv_monitors :: "'c list"
  sv_now :: int

text \<open>What changed, and the client that a change is meant for, if it is meant for one.\<close>

datatype service_change =
    StateChange int int string
  | NewService string string bool
  | NewMessage message_dict
  | NewHeadline message_dict
  | HeartbeatReceived
  | RpcCommand int "byte list" string

record service_update =
  su_name :: string
  su_change :: service_change
  su_directed :: "string option"

text \<open>
  Calling a monitor changes the world around the manager; what it raises is only logged.  The monitors are a set; the list has
  them in the order in which the set is traversed.
\<close>

type_synonym ('c, 'w) monitoring = "'c \<Rightarrow> service_update \<Rightarrow> 'w \<Rightarrow> 'w"
type_synonym ('c, 'w) managed = "'c service_manager \<times> 'w"

definition notify_update :: "('c, 'w) monitoring \<Rightarrow> string \<Rightarrow> service_change \<Rightarrow> string option \<Rightarrow> ('c, 'w) managed \<Rightarrow> ('c, 'w) managed" where
  "notify_update mon name what directed mw =
     (case mw of (m, w) \<Rightarrow>
        (m, fold (\<lambda>c. mon c \<lparr>su_name = name, su_change = what, su_directed = directed\<rparr>) (sv_monitors m) w))"

definition add_monitor :: "'c \<Rightarrow> 'c service_manager \<Rightarrow> 'c service_manager" where
  "add_monitor c m = m\<lparr>sv_monitors := (if c \<in> set (sv_monitors m) then sv_monitors m else sv_monitors m @ [c])\<rparr>"

definition remove_monitor :: "'c \<Rightarrow> 'c service_manager \<Rightarrow> (unit, 'c service_manager) act" where
  "remove_monitor c m =
     (if c \<in> set (sv_monitors m) then (Inr (), m\<lparr>sv_monitors := remove1 c (sv_monitors m)\<rparr>) else (Inl ArgumentError, m))"

definition service_info :: "string \<Rightarrow> 'c service_manager \<Rightarrow> (string \<times> string \<times> bool) res" where
  "service_info name m =
     (case map_of (sv_services m) name of
        None \<Rightarrow> Inl ArgumentError
      | Some s \<Rightarrow> Inr (name, ss_long_name s, ss_preregistered s))"

definition put_service :: "string \<Rightarrow> service_state \<Rightarrow> 'c service_manager \<Rightarrow> 'c service_manager" where
  "put_service name s m = m\<lparr>sv_services := AList.update name s (sv_services m)\<rparr>"

definition add_service ::
  "('c, 'w) monitoring \<Rightarrow> string \<Rightarrow> string \<Rightarrow> bool \<Rightarrow> bool \<Rightarrow> ('c, 'w) managed \<Rightarrow> (unit, ('c, 'w) managed) act" where
  "add_service mon name long_name preregistered notify mw =
     (case mw of (m, w) \<Rightarrow>
        if map_of (sv_services m) name \<noteq> None then (Inl ArgumentError, m, w)
        else let m1 = put_service name (new_service_state name long_name preregistered None 5 (sv_now m)) m in
          if notify then
            (case service_info name m1 of
               Inl err \<Rightarrow> (Inl err, m1, w)
             | Inr (n, l, p) \<Rightarrow> (Inr (), notify_update mon name (NewService n l p) None (m1, w)))
          else (Inr (), m1, w))"

text \<open>The names and the long names of the expected services.\<close>

definition new_service_manager :: "('c, 'w) monitoring \<Rightarrow> (string \<times> string) list \<Rightarrow> int \<Rightarrow> 'w \<Rightarrow> (unit, ('c, 'w) managed) act" where
  "new_service_manager mon expected_services now w =
     for_each (\<lambda>(short_name, long_name). add_service mon short_name long_name True False) expected_services
       (\<lparr>sv_services = [], sv_agents = [], sv_in_flight = [], sv_rpc_results = [], sv_monitors = [], sv_now = now\<rparr>, w)"

definition update_state :: "('c, 'w) monitoring \<Rightarrow> string \<Rightarrow> int \<Rightarrow> ('c, 'w) managed \<Rightarrow> (unit, ('c, 'w) managed) act" where
  "update_state mon name new_state mw =
     (case mw of (m, w) \<Rightarrow>
        case map_of (sv_services m) name of
          None \<Rightarrow> (Inl ArgumentError, m, w)
        | Some serv \<Rightarrow>
            (case map_of KNOWN_STATES new_state of
               None \<Rightarrow> (Inl ArgumentError, m, w)
             | Some text \<Rightarrow>
                 if ss_state serv = new_state then (Inr (), m, w)
                 else (case set_state new_state serv of
                     (Inl err, s) \<Rightarrow> (Inl err, put_service name s m, w)
                   | (Inr _, s) \<Rightarrow>
                       (Inr (), notify_update mon name (StateChange (ss_state serv) new_state text) None (put_service name s m, w)))))"

definition service_messages :: "string \<Rightarrow> 'c service_manager \<Rightarrow> service_message list res" where
  "service_messages name m =
     (case map_of (sv_services m) name of None \<Rightarrow> Inl ArgumentError | Some s \<Rightarrow> Inr (ss_messages s))"

definition service_headline :: "string \<Rightarrow> 'c service_manager \<Rightarrow> service_message option res" where
  "service_headline name m =
     (case map_of (sv_services m) name of None \<Rightarrow> Inl ArgumentError | Some s \<Rightarrow> Inr (ss_headline s))"

definition service_status :: "string \<Rightarrow> 'c service_manager \<Rightarrow> (int \<times> int \<times> string) res" where
  "service_status name m =
     (case map_of (sv_services m) name of
        None \<Rightarrow> Inl ArgumentError
      | Some s \<Rightarrow> bind_res (string_state s) (\<lambda>text. Inr (heartbeat_age (sv_now m) s, ss_state s, text)))"

definition send_message :: "('c, 'w) monitoring \<Rightarrow> string \<Rightarrow> int \<Rightarrow> string \<Rightarrow> ('c, 'w) managed \<Rightarrow> (unit, ('c, 'w) managed) act" where
  "send_message mon name level text mw =
     (case mw of (m, w) \<Rightarrow>
        case map_of (sv_services m) name of
          None \<Rightarrow> (Inl ArgumentError, m, w)
        | Some serv \<Rightarrow>
            (case post_message level text 1 None None (sv_now m) serv of
               (Inl err, s) \<Rightarrow> (Inl err, put_service name s m, w)
             | (Inr msg, s) \<Rightarrow>
                 (Inr (), notify_update mon name (NewMessage (message_to_dict (sv_now m) msg)) None (put_service name s m, w))))"

definition send_headline :: "('c, 'w) monitoring \<Rightarrow> string \<Rightarrow> int \<Rightarrow> string \<Rightarrow> ('c, 'w) managed \<Rightarrow> (unit, ('c, 'w) managed) act" where
  "send_headline mon name level text mw =
     (case mw of (m, w) \<Rightarrow>
        case map_of (sv_services m) name of
          None \<Rightarrow> (Inl ArgumentError, m, w)
        | Some serv \<Rightarrow>
            let s = set_headline level text None None (sv_now m) serv in
            (case ss_headline s of
               None \<Rightarrow> (Inl AttributeError, put_service name s m, w)
             | Some h \<Rightarrow>
                 (Inr (), notify_update mon name (NewHeadline (message_to_dict (sv_now m) h)) None (put_service name s m, w))))"

definition send_heartbeat :: "('c, 'w) monitoring \<Rightarrow> string \<Rightarrow> ('c, 'w) managed \<Rightarrow> (unit, ('c, 'w) managed) act" where
  "send_heartbeat mon name mw =
     (case mw of (m, w) \<Rightarrow>
        case map_of (sv_services m) name of
          None \<Rightarrow> (Inl ArgumentError, m, w)
        | Some serv \<Rightarrow>
            (Inr (), notify_update mon name HeartbeatReceived None (put_service name (heartbeat (sv_now m) serv) m, w)))"

definition list_services :: "'c service_manager \<Rightarrow> string list" where
  "list_services m = map fst (sv_services m)"

definition set_agent :: "string \<Rightarrow> string \<Rightarrow> 'c service_manager \<Rightarrow> (unit, 'c service_manager) act" where
  "set_agent name client m =
     (if map_of (sv_services m) name = None then (Inl ArgumentError, m)
      else (Inr (), m\<lparr>sv_agents := AList.update name client (sv_agents m)\<rparr>))"

definition clear_agent :: "string \<Rightarrow> string \<Rightarrow> 'c service_manager \<Rightarrow> (unit, 'c service_manager) act" where
  "clear_agent name client m =
     (if map_of (sv_services m) name = None then (Inl ArgumentError, m)
      else if map_of (sv_agents m) name \<noteq> Some client then (Inl ArgumentError, m)
      else (Inr (), m\<lparr>sv_agents := AList.delete name (sv_agents m)\<rparr>))"

text \<open>The tag of the RPC is a new unique text.\<close>

definition send_rpc_command ::
  "('c, 'w) monitoring \<Rightarrow> string \<Rightarrow> string \<Rightarrow> int \<Rightarrow> byte list \<Rightarrow> rpc_sender \<Rightarrow> int \<Rightarrow> ('c, 'w) managed
   \<Rightarrow> (unit, ('c, 'w) managed) act" where
  "send_rpc_command mon tag name rpc_id payload sender timeout mw =
     (case mw of (m, w) \<Rightarrow>
        case aw_declare tag (sv_rpc_results m) of
          (Inl err, d) \<Rightarrow> (Inl err, m\<lparr>sv_rpc_results := d\<rparr>, w)
        | (Inr _, d) \<Rightarrow>
            let m1 = m\<lparr>sv_rpc_results := d\<rparr> in
            if map_of (sv_services m) name \<noteq> None \<and> map_of (sv_agents m) name \<noteq> None then
              let m2 = m1\<lparr>sv_in_flight := AList.update tag
                    \<lparr>if_sender = sender, if_service = name, if_sent_timestamp = sv_now m, if_timeout = timeout\<rparr> (sv_in_flight m1)\<rparr>
              in (Inr (), notify_update mon name (RpcCommand rpc_id payload tag) (map_of (sv_agents m) name) (m2, w))
            else (case aw_set tag \<lparr>rr_result = ''service_not_found'', rr_response = []\<rparr> False d of
              (r, d1) \<Rightarrow> (r, m1\<lparr>sv_rpc_results := d1\<rparr>, w)))"

text \<open>An answer for which nobody waits any more is only logged; a value that is set twice raises.\<close>

definition send_rpc_response :: "string \<Rightarrow> string \<Rightarrow> byte list \<Rightarrow> 'c service_manager \<Rightarrow> (unit, 'c service_manager) act" where
  "send_rpc_response tag outcome response m =
     (if map_of (sv_in_flight m) tag = None then (Inl ArgumentError, m)
      else let m1 = m\<lparr>sv_in_flight := AList.delete tag (sv_in_flight m)\<rparr> in
        (case aw_set tag \<lparr>rr_result = outcome, rr_response = response\<rparr> False (sv_rpc_results m1) of
           (r, d) \<Rightarrow> (if r = Inl KeyError then Inr () else r, m1\<lparr>sv_rpc_results := d\<rparr>)))"

definition periodic_service_rpcs :: "'c service_manager \<Rightarrow> 'c service_manager" where
  "periodic_service_rpcs m =
     m\<lparr>sv_in_flight := filter (\<lambda>(tag, rpc). \<not> if_sent_timestamp rpc + if_timeout rpc < sv_now m) (sv_in_flight m)\<rparr>"

end
