(* ===== verification/Supervisor.thy ===== *)
theory Supervisor
  imports Service_States Rpc_Payload
begin

text \<open>
  The server that brokers between services and clients (\<open>supervisor/server.py\<close>), a client that keeps a copy of the states of
  all services (\<open>supervisor/client.py\<close>), and a tile whose RPCs are answered by a service (\<open>supervisor/service_tile.py\<close>).
\<close>

section \<open>The server\<close>

text \<open>
  What was sent to the clients, in order, and which clients are connected.  The monitor of a client is named by the id of the
  client.
\<close>

record connections =
  co_clients :: "string list"
  co_sent :: "(string \<times> service_update) list"

type_synonym supervisor = "(string, connections) managed"

definition send_event :: "(string, connections) monitoring" where
  "send_event client event w =
     (if su_directed event \<noteq> None \<and> su_directed event \<noteq> Some client then w
      else if client \<notin> set (co_clients w) then w
      else w\<lparr>co_sent := co_sent w @ [(client, event)]\<rparr>)"

definition new_supervisor :: "(string \<times> string) list \<Rightarrow> int \<Rightarrow> (unit, supervisor) act" where
  "new_supervisor expected_services now =
     new_service_manager send_event expected_services now \<lparr>co_clients = [], co_sent = []\<rparr>"

text \<open>The id of a new client is a new unique text.\<close>

definition prepare_conn :: "string \<Rightarrow> supervisor \<Rightarrow> supervisor" where
  "prepare_conn client mw = (case mw of (m, w) \<Rightarrow> (add_monitor client m, w\<lparr>co_clients := co_clients w @ [client]\<rparr>))"

text \<open>The monitor and the services of the client are kept.\<close>

definition teardown_conn :: "string \<Rightarrow> supervisor \<Rightarrow> supervisor" where
  "teardown_conn client mw = (case mw of (m, w) \<Rightarrow> (m, w\<lparr>co_clients := filter (\<lambda>c. c \<noteq> client) (co_clients w)\<rparr>))"

datatype server_command =
    RegisterService string string
  | SetAgent string
  | PostMessage string int string
  | SetHeadline string int string
  | PostHeartbeat string
  | UpdateState string int
  | RespondRpc string string "byte list"

definition on_manager :: "(string service_manager \<Rightarrow> ('a, string service_manager) act) \<Rightarrow> supervisor \<Rightarrow> ('a, supervisor) act" where
  "on_manager f mw = (case mw of (m, w) \<Rightarrow> (case f m of (r, m1) \<Rightarrow> (r, m1, w)))"

definition serve_command :: "string \<Rightarrow> server_command \<Rightarrow> supervisor \<Rightarrow> (unit, supervisor) act" where
  "serve_command client cmd mw =
     (case cmd of
        RegisterService name long_name \<Rightarrow> add_service send_event name long_name False True mw
      | SetAgent name \<Rightarrow> on_manager (set_agent name client) mw
      | PostMessage name level text \<Rightarrow> send_message send_event name level text mw
      | SetHeadline name level text \<Rightarrow> send_headline send_event name level text mw
      | PostHeartbeat name \<Rightarrow> send_heartbeat send_event name mw
      | UpdateState name n \<Rightarrow> update_state send_event name n mw
      | RespondRpc tag outcome response \<Rightarrow> on_manager (send_rpc_response tag outcome response) mw)"

text \<open>
  \<open>send_rpc\<close> up to the point where it waits.  Its fourth argument is the time limit, which is taken for the sender; the limit of
  the RPC is then the default of one second.
\<close>

definition begin_send_rpc :: "string \<Rightarrow> string \<Rightarrow> int \<Rightarrow> byte list \<Rightarrow> int \<Rightarrow> supervisor \<Rightarrow> (unit, supervisor) act" where
  "begin_send_rpc tag name rpc_id payload timeout mw =
     send_rpc_command send_event tag name rpc_id payload (SenderNumber timeout) 1000 mw"

text \<open>When it is woken: the answer, or nothing as long as it has to wait.\<close>

definition finish_send_rpc :: "bool \<Rightarrow> string \<Rightarrow> supervisor \<Rightarrow> (rpc_result option, supervisor) act" where
  "finish_send_rpc timed_out tag mw =
     (case mw of (m, w) \<Rightarrow>
        (case aw_get True timed_out tag (sv_rpc_results m) of
           (r, d) \<Rightarrow>
             (if r = Inl AsyncTimeoutError then Inr (Some \<lparr>rr_result = ''timeout'', rr_response = []\<rparr>) else r,
              m\<lparr>sv_rpc_results := d\<rparr>, w)))"

section \<open>The copy of a client\<close>

text \<open>
  The callback for changes is called with the name, the id and the state of a service, and whether the service and its
  headline are new.
\<close>

record supervisor_client =
  cl_services :: "(string \<times> service_state) list"
  cl_name_map :: "(int \<times> string) list"
  cl_listening :: bool
  cl_changes :: "(string \<times> int option \<times> int \<times> bool \<times> bool) list"

definition new_supervisor_client :: supervisor_client where
  "new_supervisor_client = \<lparr>cl_services = [], cl_name_map = [], cl_listening = False, cl_changes = []\<rparr>"

text \<open>One service as \<open>sync_services\<close> copies it, from what the server answers to the four queries.\<close>

definition sync_service ::
  "int \<Rightarrow> int \<Rightarrow> (string \<times> string \<times> bool) \<Rightarrow> int \<Rightarrow> service_message list \<Rightarrow> service_message option \<Rightarrow> (service_state, service_state) act" where
  "sync_service now i info numeric_status messages headline =
     (case info of (short_name, long_name, preregistered) \<Rightarrow>
        let s0 = new_service_state short_name long_name preregistered (Some i) 5 now in
        bind_act (set_state numeric_status s0) (\<lambda>_ s1.
        bind_act (for_each (\<lambda>m s. map_prod (map_sum id (\<lambda>_. ())) id
            (post_message (sm_level m) (sm_text m) (sm_count m) (Some (sm_created m)) None now s)) messages s1) (\<lambda>_ s2.
          let s3 = (case headline of
                None \<Rightarrow> s2
              | Some h \<Rightarrow> set_headline (sm_level h) (sm_text h) (Some (sm_created h)) None now s2)
          in (Inr s3, s3))))"

text \<open>The queries for one service; messages travel as dictionaries.\<close>

definition query_service :: "int \<Rightarrow> int \<Rightarrow> string \<Rightarrow> string service_manager \<Rightarrow> service_state res" where
  "query_service now i name m =
     bind_res (service_info name m) (\<lambda>info.
     bind_res (service_status name m) (\<lambda>(_, numeric_status, _).
     bind_res (service_messages name m) (\<lambda>ms.
     bind_res (service_headline name m) (\<lambda>h.
       let received = message_of_dict now \<circ> message_to_dict (sv_now m) in
       fst (sync_service now i info numeric_status (map received ms) (map_option received h))))))"

text \<open>\<open>sync_services\<close> when nothing changes in between.\<close>

definition sync_services :: "int \<Rightarrow> string service_manager \<Rightarrow> (string \<times> service_state) list res" where
  "sync_services now m =
     map_res (\<lambda>(i, name). bind_res (query_service now (int i) name m) (\<lambda>s. Inr (name, s)))
       (zip [0..<length (list_services m)] (list_services m))"

definition populate_name_map :: "(string \<times> service_state) list \<Rightarrow> supervisor_client \<Rightarrow> supervisor_client" where
  "populate_name_map services c =
     c\<lparr>cl_services := services,
       cl_name_map := fold (\<lambda>(i, name) ns. AList.update (int i) name ns) (zip [0..<length services] (map fst services)) (cl_name_map c)\<rparr>"

definition local_service :: "string + int \<Rightarrow> supervisor_client \<Rightarrow> service_state res" where
  "local_service name_or_id c =
     bind_res (case name_or_id of
         Inl name \<Rightarrow> Inr name
       | Inr i \<Rightarrow> (case map_of (cl_name_map c) i of None \<Rightarrow> Inl ArgumentError | Some name \<Rightarrow> Inr name)) (\<lambda>name.
       case map_of (cl_services c) name of None \<Rightarrow> Inl ArgumentError | Some s \<Rightarrow> Inr s)"

definition local_services :: "supervisor_client \<Rightarrow> (int \<times> string) list" where
  "local_services c = sort_key fst (cl_name_map c)"

definition changed :: "string \<Rightarrow> int option \<Rightarrow> int \<Rightarrow> bool \<Rightarrow> bool \<Rightarrow> supervisor_client \<Rightarrow> supervisor_client" where
  "changed name i n is_new new_headline c =
     (if cl_listening c then c\<lparr>cl_changes := cl_changes c @ [(name, i, n, is_new, new_headline)]\<rparr> else c)"

definition put_local :: "string \<Rightarrow> service_state \<Rightarrow> supervisor_client \<Rightarrow> supervisor_client" where
  "put_local name s c = c\<lparr>cl_services := AList.update name s (cl_services c)\<rparr>"

definition on_status_change :: "string \<Rightarrow> int \<Rightarrow> supervisor_client \<Rightarrow> (unit, supervisor_client) act" where
  "on_status_change name n c =
     (case map_of (cl_services c) name of
        None \<Rightarrow> (Inr (), c)
      | Some s \<Rightarrow>
          (case set_state n s of
             (Inl err, s1) \<Rightarrow> (Inl err, put_local name s1 c)
           | (Inr _, s1) \<Rightarrow>
               let c1 = put_local name s1 c in
               (Inr (), if ss_state s \<noteq> n then changed name (ss_id s1) n False False c1 else c1)))"

definition on_service_added :: "int \<Rightarrow> string \<Rightarrow> string \<Rightarrow> bool \<Rightarrow> supervisor_client \<Rightarrow> supervisor_client" where
  "on_service_added now name long_name preregistered c =
     (if map_of (cl_services c) name \<noteq> None then c
      else let new_id = int (length (cl_services c)); s = new_service_state name long_name preregistered (Some new_id) 5 now;
               c1 = (put_local name s c)\<lparr>cl_name_map := AList.update new_id name (cl_name_map c)\<rparr>
        in changed name (Some new_id) (ss_state s) True False c1)"

definition on_heartbeat :: "int \<Rightarrow> string \<Rightarrow> supervisor_client \<Rightarrow> supervisor_client" where
  "on_heartbeat now name c =
     (case map_of (cl_services c) name of None \<Rightarrow> c | Some s \<Rightarrow> put_local name (heartbeat now s) c)"

definition on_message :: "int \<Rightarrow> string \<Rightarrow> int \<Rightarrow> string \<Rightarrow> supervisor_client \<Rightarrow> (unit, supervisor_client) act" where
  "on_message now name level text c =
     (case map_of (cl_services c) name of
        None \<Rightarrow> (Inr (), c)
      | Some s \<Rightarrow> (case post_message level text 1 None None now s of
          (r, s1) \<Rightarrow> (map_sum id (\<lambda>_. ()) r, put_local name s1 c)))"

definition on_headline :: "int \<Rightarrow> string \<Rightarrow> int \<Rightarrow> string \<Rightarrow> supervisor_client \<Rightarrow> (unit, supervisor_client) act" where
  "on_headline now name level text c =
     (case map_of (cl_services c) name of
        None \<Rightarrow> (Inr (), c)
      | Some s \<Rightarrow>
          let s1 = set_headline level text None None now s; c1 = put_local name s1 c in
          case ss_headline s1 of
            None \<Rightarrow> (Inl AttributeError, c1)
          | Some h \<Rightarrow> (Inr (), if sm_count h = 1 then changed name (ss_id s1) (ss_state s1) False True c1 else c1))"

text \<open>The callback that is registered for an event; commands for the client itself are handled below.\<close>

definition handle_event :: "int \<Rightarrow> service_update \<Rightarrow> supervisor_client \<Rightarrow> (unit, supervisor_client) act" where
  "handle_event now event c =
     (case su_change event of
        StateChange old n text \<Rightarrow> on_status_change (su_name event) n c
      | NewService name long_name preregistered \<Rightarrow> (Inr (), on_service_added now name long_name preregistered c)
      | HeartbeatReceived \<Rightarrow> (Inr (), on_heartbeat now (su_name event) c)
      | NewMessage d \<Rightarrow> on_message now (su_name event) (md_level d) (md_message d) c
      | NewHeadline d \<Rightarrow> on_headline now (su_name event) (md_level d) (md_message d) c
      | RpcCommand rpc_id payload tag \<Rightarrow> (Inr (), c))"

section \<open>RPCs to services\<close>

text \<open>
  The command with which the client answers.  An answer that is not bytes does not pass the check of the message, so no
  response is sent.
\<close>

definition on_rpc_command :: "'s rpc_dispatcher option \<Rightarrow> int \<Rightarrow> byte list \<Rightarrow> string \<Rightarrow> 's \<Rightarrow> server_command option \<times> 's" where
  "on_rpc_command dispatcher rpc_id args tag s =
     (case dispatcher of
        None \<Rightarrow> (Some (RespondRpc tag ''rpc_not_found'' []), s)
      | Some d \<Rightarrow>
          if \<not> has_rpc rpc_id d then (Some (RespondRpc tag ''rpc_not_found'' []), s)
          else (case dispatch_rpc d rpc_id args s of
              (Inr (Payload response), s1) \<Rightarrow> (Some (RespondRpc tag ''success'' response), s1)
            | (Inr (Values _), s1) \<Rightarrow> (None, s1)
            | (Inl RPCInvalidArgumentsError, s1) \<Rightarrow> (Some (RespondRpc tag ''invalid_arguments'' []), s1)
            | (Inl RPCInvalidReturnValueError, s1) \<Rightarrow> (Some (RespondRpc tag ''invalid_response'' []), s1)
            | (Inl _, s1) \<Rightarrow> (Some (RespondRpc tag ''execution_exception'' []), s1)))"

text \<open>What the tile makes of the result of its service.\<close>

definition delegate_result :: "rpc_result \<Rightarrow> byte list rpc_res" where
  "delegate_result resp =
     (if rr_result resp = ''success'' then Inr (rr_response resp)
      else if rr_result resp = ''service_not_found'' then Inl TileNotFoundError
      else if rr_result resp = ''rpc_not_found'' then Inl RPCNotFoundError
      else if rr_result resp = ''invalid_arguments'' then Inl RPCInvalidArgumentsError
      else if rr_result resp = ''invalid_response'' then Inl RPCInvalidReturnValueError
      else Inl (OtherException InternalError))"

section \<open>What a client should know of a service\<close>

definition message_view :: "service_message \<Rightarrow> int \<times> string \<times> int" where
  "message_view m = (sm_level m, sm_text m, sm_count m)"

definition headline_view :: "service_message \<Rightarrow> int \<times> string" where
  "headline_view h = (sm_level h, sm_text h)"

text \<open>The names, the state, the messages with their counts and the headline.\<close>

definition service_view ::
  "service_state \<Rightarrow> string \<times> string \<times> bool \<times> int \<times> nat \<times> (int \<times> string \<times> int) list \<times> (int \<times> string) option" where
  "service_view s =
     (ss_short_name s, ss_long_name s, ss_preregistered s, ss_state s, ss_max_messages s, map message_view (ss_messages s),
      map_option headline_view (ss_headline s))"

definition post_view :: "nat \<Rightarrow> int \<Rightarrow> string \<Rightarrow> int \<Rightarrow> (int \<times> string \<times> int) list \<Rightarrow> (int \<times> string \<times> int) list" where
  "post_view k level text n vs =
     (if vs \<noteq> [] \<and> fst (snd (last vs)) = text
      then butlast vs @ [(fst (last vs), text, snd (snd (last vs)) + 1)] else deque_append k vs (level, text, n))"

definition headline_post :: "int \<Rightarrow> string \<Rightarrow> (int \<times> string) option \<Rightarrow> (int \<times> string) option" where
  "headline_post level text h = (case h of None \<Rightarrow> Some (level, text) | Some (l, t) \<Rightarrow> if t = text then h else Some (level, text))"

lemma deque_map: "map f (deque_append k xs x) = deque_append k (map f xs) (f x)"
  by (simp add: deque_append_def flip: drop_map)

lemma post_message_returns:
  assumes "ss_max_messages s \<noteq> 0"
  shows "\<exists>msg. fst (post_message level text n a b now s) = Inr msg"
  using assms by (auto simp: post_message_def Let_def deque_append_def py_nth_last)

lemma post_message_view:
  "map message_view (ss_messages (snd (post_message level text n a b now s))) =
     post_view (ss_max_messages s) level text n (map message_view (ss_messages s))"
  by (auto simp: post_message_def Let_def post_view_def message_view_def last_map map_butlast deque_map new_message_def)

lemma post_message_frame:
  "ss_short_name (snd (post_message level text n a b now s)) = ss_short_name s"
  "ss_long_name (snd (post_message level text n a b now s)) = ss_long_name s"
  "ss_preregistered (snd (post_message level text n a b now s)) = ss_preregistered s"
  "ss_state (snd (post_message level text n a b now s)) = ss_state s"
  "ss_max_messages (snd (post_message level text n a b now s)) = ss_max_messages s"
  "ss_headline (snd (post_message level text n a b now s)) = ss_headline s"
  "ss_id (snd (post_message level text n a b now s)) = ss_id s"
  by (simp_all add: post_message_def Let_def)

lemma set_headline_view:
  "map_option headline_view (ss_headline (set_headline level text a b now s)) =
     headline_post level text (map_option headline_view (ss_headline s))"
  by (auto simp: set_headline_def headline_post_def headline_view_def new_message_def split: option.split)

lemma set_headline_frame:
  "ss_short_name (set_headline level text a b now s) = ss_short_name s"
  "ss_long_name (set_headline level text a b now s) = ss_long_name s"
  "ss_preregistered (set_headline level text a b now s) = ss_preregistered s"
  "ss_state (set_headline level text a b now s) = ss_state s"
  "ss_max_messages (set_headline level text a b now s) = ss_max_messages s"
  "ss_messages (set_headline level text a b now s) = ss_messages s"
  "ss_id (set_headline level text a b now s) = ss_id s"
  by (simp_all add: set_headline_def split: option.split)

lemmas state_frames = post_message_view post_message_frame set_headline_view set_headline_frame

text \<open>A service as the server keeps it: at most five messages, of which no two neighbours have the same text.\<close>

definition service_ok :: "service_state \<Rightarrow> bool" where
  "service_ok s \<longleftrightarrow> ss_max_messages s = 5 \<and> length (ss_messages s) \<le> 5 \<and> distinct_adj (map sm_text (ss_messages s)) \<and>
     (\<forall>m \<in> set (ss_messages s). 1 \<le> sm_count m) \<and> map_of KNOWN_STATES (ss_state s) \<noteq> None"

lemma distinct_adj_drop: "distinct_adj xs \<Longrightarrow> distinct_adj (drop k xs)"
  by (metis append_take_drop_id distinct_adj_appendD2)

lemma post_message_ok:
  assumes "service_ok s" and "1 \<le> n"
  shows "\<exists>m s'. post_message level text n a b now s = (Inr m, s') \<and> service_ok s' \<and> ss_messages s' \<noteq> []"
proof (cases "ss_messages s \<noteq> [] \<and> sm_text (last (ss_messages s)) = text")
  case True
  let ?ms = "butlast (ss_messages s) @ [(last (ss_messages s))\<lparr>sm_count := sm_count (last (ss_messages s)) + 1\<rparr>]"
  have "map sm_text ?ms = map sm_text (butlast (ss_messages s) @ [last (ss_messages s)])" by simp
  also have "\<dots> = map sm_text (ss_messages s)" using append_butlast_last_id [OF conjunct1 [OF True]] by (simp only:)
  finally have "map sm_text ?ms = map sm_text (ss_messages s)" .
  moreover have "\<forall>m \<in> set ?ms. 1 \<le> sm_count m"
  proof -
    have all: "\<forall>m \<in> set (ss_messages s). 1 \<le> sm_count m" using assms(1) by (simp add: service_ok_def)
    then have "1 \<le> sm_count (last (ss_messages s))" using last_in_set [of "ss_messages s"] True by blast
    then show ?thesis using all by (auto dest: in_set_butlastD)
  qed
  ultimately show ?thesis
    using assms(1) True by (auto simp: post_message_def Let_def service_ok_def py_nth_last)
next
  case False
  let ?m = "(new_message level text (ss_last_message_id s) a b now)\<lparr>sm_count := n\<rparr>"
  let ?ms = "deque_append (ss_max_messages s) (ss_messages s) ?m"
  have len: "length ?ms \<le> 5" "?ms \<noteq> []" using assms(1) by (auto simp: service_ok_def deque_append_def)
  have "distinct_adj (map sm_text (ss_messages s) @ [text])"
    using assms(1) False by (auto simp: service_ok_def distinct_adj_append_iff last_map)
  then have "distinct_adj (map sm_text ?ms)"
    using distinct_adj_drop [of "map sm_text (ss_messages s) @ [text]"] by (simp add: deque_append_def drop_map [symmetric] new_message_def del: drop_append)
  moreover have "\<forall>m \<in> set ?ms. 1 \<le> sm_count m"
    using assms by (auto simp: service_ok_def deque_append_def dest!: in_set_dropD)
  ultimately show ?thesis
    using assms(1) False len by (auto simp: post_message_def Let_def service_ok_def py_nth_last)
qed


section \<open>Copies\<close>

definition same_service :: "string \<times> service_state \<Rightarrow> string \<times> service_state \<Rightarrow> bool" where
  "same_service p q \<longleftrightarrow> fst p = fst q \<and> service_view (snd p) = service_view (snd q) \<and> service_ok (snd p) \<and> ss_short_name (snd p) = fst p"

definition numbered_services :: "(string \<times> service_state) list \<Rightarrow> bool" where
  "numbered_services ss \<longleftrightarrow> map (ss_id \<circ> snd) ss = map (Some \<circ> int) [0..<length ss]"

text \<open>The client has the services of the server in the same order, numbered from zero.\<close>

definition replica :: "string service_manager \<Rightarrow> supervisor_client \<Rightarrow> bool" where
  "replica m c \<longleftrightarrow> list_all2 same_service (sv_services m) (cl_services c) \<and> numbered_services (cl_services c) \<and>
     cl_name_map c = zip (map int [0..<length (cl_services c)]) (map fst (cl_services c))"

lemma same_service_state:
  "same_service (n, s) (n, t) \<Longrightarrow> map_of KNOWN_STATES k \<noteq> None \<Longrightarrow> same_service (n, s\<lparr>ss_state := k\<rparr>) (n, t\<lparr>ss_state := k\<rparr>)"
  by (auto simp: same_service_def service_view_def service_ok_def)

lemma same_service_heartbeat:
  "same_service (n, s) (n, t) \<Longrightarrow> same_service (n, s\<lparr>ss_last_heartbeat := a, ss_num_heartbeats := i\<rparr>)
     (n, t\<lparr>ss_last_heartbeat := b, ss_num_heartbeats := j\<rparr>)"
  by (auto simp: same_service_def service_view_def service_ok_def)

lemma same_services_lookup:
  assumes "list_all2 same_service xs ys"
  shows "map_of xs n = None \<Longrightarrow> map_of ys n = None"
    and "map_of xs n = Some s \<Longrightarrow> \<exists>t. map_of ys n = Some t \<and> same_service (n, s) (n, t)"
  using assms by (induction rule: list_all2_induct) (auto simp: same_service_def split: if_splits)

lemma same_services_update:
  assumes "list_all2 same_service xs ys" and "same_service (n, s) (n, t)"
  shows "list_all2 same_service (AList.update n s xs) (AList.update n t ys)"
  using assms(1)
proof (induction rule: list_all2_induct)
  case (Cons x xs y ys)
  then have "fst x = fst y" by (simp add: same_service_def)
  then show ?case using Cons assms(2) by (cases x; cases y) simp
qed (use assms(2) in simp)

lemma update_keeps_map:
  assumes "map_of ys n = Some t" and "g (n, s) = g (n, t)"
  shows "map g (AList.update n s ys) = map g ys"
  using assms(1) by (induction ys) (use assms(2) in \<open>auto split: if_splits\<close>)

lemma update_length: "map_of ys n = Some t \<Longrightarrow> length (AList.update n s ys) = length ys"
  by (induction ys) (auto split: if_splits)

lemma update_new: "map_of ys n = None \<Longrightarrow> AList.update n s ys = ys @ [(n, s)]"
  by (induction ys) (auto split: if_splits)

lemma replica_put:
  assumes "replica m c" and "map_of (cl_services c) n = Some t0" and "ss_id t = ss_id t0" and "same_service (n, s) (n, t)"
  shows "replica (put_service n s m) (put_local n t c)"
proof -
  let ?cs = "cl_services c"
  note keep = update_keeps_map [OF assms(2), of _ t]
  have "length (AList.update n t ?cs) = length ?cs" using assms(2) by (rule update_length)
  then show ?thesis
    using assms(1) same_services_update [OF _ assms(4)] keep [of "ss_id \<circ> snd"] keep [of fst] assms(3)
    by (simp add: replica_def put_service_def put_local_def numbered_services_def)
qed

lemma replica_frame:
  "replica m c \<Longrightarrow> sv_services m' = sv_services m \<Longrightarrow> cl_services c' = cl_services c \<Longrightarrow> cl_name_map c' = cl_name_map c \<Longrightarrow> replica m' c'"
  by (simp add: replica_def)

lemma changed_frame [simp]:
  "cl_services (changed n i k a b c) = cl_services c" "cl_name_map (changed n i k a b c) = cl_name_map c"
  by (simp_all add: changed_def)

lemma replica_changed [simp]: "replica m (changed n i k a b c) \<longleftrightarrow> replica m c"
  by (simp add: replica_def)

text \<open>What the events do to the copy.\<close>

lemma known_state: "map_of KNOWN_STATES n = Some text \<Longrightarrow> set_state n s = (Inr (), s\<lparr>ss_state := n\<rparr>)"
  by (simp add: set_state_def)

lemma status_event:
  assumes "replica m c" and "map_of (sv_services m) name = Some serv" and "map_of KNOWN_STATES n = Some text"
  shows "\<exists>c'. on_status_change name n c = (Inr (), c') \<and> replica (put_service name (serv\<lparr>ss_state := n\<rparr>) m) c'"
proof -
  obtain t where t: "map_of (cl_services c) name = Some t" "same_service (name, serv) (name, t)"
    using same_services_lookup(2) assms(1,2) unfolding replica_def by blast
  have "same_service (name, serv\<lparr>ss_state := n\<rparr>) (name, t\<lparr>ss_state := n\<rparr>)"
    using same_service_state [OF t(2)] assms(3) by simp
  from replica_put [OF assms(1) t(1) _ this] show ?thesis by (simp add: on_status_change_def t(1) known_state [OF assms(3)] Let_def)
qed

lemma posted_message:
  assumes "post_message level text n a b now s = (Inr msg, s')"
  shows "sm_text msg = text"
    and "post_view k (sm_level msg) text n' (map message_view (ss_messages s)) = post_view k level text n' (map message_view (ss_messages s))"
  using assms by (auto simp: post_message_def Let_def py_nth_last new_message_def deque_append_def post_view_def message_view_def last_map
      split: if_splits)

lemma message_event:
  assumes "replica m c" and "map_of (sv_services m) name = Some serv"
    and post: "post_message level text 1 a b now serv = (Inr msg, serv')"
  shows "\<exists>c'. on_message now' name (sm_level msg) (sm_text msg) c = (Inr (), c') \<and> replica (put_service name serv' m) c'"
proof -
  obtain t where t: "map_of (cl_services c) name = Some t" "same_service (name, serv) (name, t)"
    using same_services_lookup(2) assms(1,2) unfolding replica_def by blast
  have view: "service_view serv = service_view t" and ok: "service_ok serv" "ss_short_name serv = name"
    using t(2) by (simp_all add: same_service_def)
  have serv': "serv' = snd (post_message level text 1 a b now serv)" using post by simp
  let ?t' = "snd (post_message (sm_level msg) text 1 None None now' t)"
  have "service_view serv' = service_view ?t'"
    using view posted_message(2) [OF post] unfolding serv' service_view_def by (simp add: post_message_view post_message_frame)
  moreover have "service_ok serv'" using post_message_ok [OF ok(1)] unfolding serv' by (metis order_refl snd_conv)
  moreover have "ss_short_name serv' = name" using ok(2) unfolding serv' by (simp add: post_message_frame)
  ultimately have "same_service (name, serv') (name, ?t')" by (simp add: same_service_def)
  from replica_put [OF assms(1) t(1) _ this] have "replica (put_service name serv' m) (put_local name ?t' c)"
    by (simp add: post_message_frame)
  moreover have "ss_max_messages t \<noteq> 0" using view ok(1) by (simp add: service_view_def service_ok_def)
  then obtain msg' where "fst (post_message (sm_level msg) text 1 None None now' t) = Inr msg'"
    using post_message_returns by blast
  ultimately show ?thesis
    by (auto simp: on_message_def t(1) posted_message(1) [OF post] split_beta)
qed

lemma set_headline_posted:
  obtains h where "ss_headline (set_headline level text a b now s) = Some h" and "sm_text h = text"
    and "\<And>v. v = map_option headline_view (ss_headline s) \<Longrightarrow> headline_post (sm_level h) text v = headline_post level text v"
  by (rule that [of "the (ss_headline (set_headline level text a b now s))"])
    (auto simp: set_headline_def new_message_def headline_post_def headline_view_def split: option.splits)

lemma headline_event:
  assumes "replica m c" and "map_of (sv_services m) name = Some serv"
    and h: "ss_headline (set_headline level text a b now serv) = Some h"
  shows "\<exists>c'. on_headline now' name (sm_level h) (sm_text h) c = (Inr (), c') \<and>
    replica (put_service name (set_headline level text a b now serv) m) c'"
proof -
  obtain t where t: "map_of (cl_services c) name = Some t" "same_service (name, serv) (name, t)"
    using same_services_lookup(2) assms(1,2) unfolding replica_def by blast
  have view: "service_view serv = service_view t" and ok: "service_ok serv" "ss_short_name serv = name"
    using t(2) by (simp_all add: same_service_def)
  have same_text: "sm_text h = text"
    and same_post: "\<And>v. v = map_option headline_view (ss_headline serv) \<Longrightarrow> headline_post (sm_level h) text v = headline_post level text v"
    using set_headline_posted [of level "text" a b now serv] h by (metis option.inject)+
  let ?s = "set_headline level text a b now serv" and ?t = "set_headline (sm_level h) text None None now' t"
  have "service_view ?s = service_view ?t"
    using view same_post unfolding service_view_def by (simp add: set_headline_view set_headline_frame)
  moreover have "service_ok ?s" using ok(1) by (simp add: service_ok_def set_headline_frame)
  ultimately have "same_service (name, ?s) (name, ?t)" using ok(2) by (simp add: same_service_def set_headline_frame)
  from replica_put [OF assms(1) t(1) _ this] have "replica (put_service name ?s m) (put_local name ?t c)"
    by (simp add: set_headline_frame)
  moreover obtain g where "ss_headline ?t = Some g" using set_headline_posted by blast
  ultimately show ?thesis by (simp add: on_headline_def t(1) same_text Let_def)
qed

lemma heartbeat_event:
  assumes "replica m c" and "map_of (sv_services m) name = Some serv"
  shows "replica (put_service name (heartbeat now serv) m) (on_heartbeat now' name c)"
proof -
  obtain t where t: "map_of (cl_services c) name = Some t" "same_service (name, serv) (name, t)"
    using same_services_lookup(2) assms(1,2) unfolding replica_def by blast
  then have "same_service (name, heartbeat now serv) (name, heartbeat now' t)"
    by (simp add: heartbeat_def same_service_heartbeat)
  from replica_put [OF assms(1) t(1) _ this] show ?thesis by (simp add: on_heartbeat_def t(1) heartbeat_def)
qed

lemma added_event:
  assumes "replica m c" and "map_of (sv_services m) name = None"
  shows "replica (put_service name (new_service_state name long_name p None 5 now) m) (on_service_added now' name long_name p c)"
proof -
  have none: "map_of (cl_services c) name = None" using same_services_lookup(1) assms unfolding replica_def by blast
  let ?k = "length (cl_services c)"
  have "AList.update (int ?k) name (cl_name_map c) = cl_name_map c @ [(int ?k, name)]"
    using assms(1) by (intro update_new) (auto simp: replica_def map_of_eq_None_iff dest!: set_zip_leftD)
  moreover have "same_service (name, new_service_state name long_name p None 5 now)
      (name, new_service_state name long_name p (Some (int ?k)) 5 now')"
    by (simp add: same_service_def service_view_def service_ok_def new_service_state_def KNOWN_STATES_def)
  ultimately show ?thesis
    using assms none
    by (simp add: replica_def on_service_added_def Let_def put_service_def put_local_def update_new numbered_services_def
        list_all2_appendI new_service_state_def)
qed


section \<open>Events\<close>

definition events :: "string \<Rightarrow> supervisor \<Rightarrow> service_update list" where
  "events client mw = map snd (filter (\<lambda>(c, _). c = client) (co_sent (snd mw)))"

definition watched :: "string \<Rightarrow> supervisor \<Rightarrow> bool" where
  "watched client mw \<longleftrightarrow> client \<in> set (co_clients (snd mw)) \<and> client \<in> set (sv_monitors (fst mw)) \<and> distinct (sv_monitors (fst mw))"

definition meant_for :: "string option \<Rightarrow> string \<Rightarrow> bool" where
  "meant_for directed client \<longleftrightarrow> directed = None \<or> directed = Some client"

lemma send_event_connections: "co_clients (send_event c e w) = co_clients w"
  by (simp add: send_event_def)

lemma fold_send_events:
  "co_clients (fold (\<lambda>c. send_event c e) cs w) = co_clients w"
  "distinct cs \<Longrightarrow> client \<in> set (co_clients w) \<Longrightarrow>
     events client (m, fold (\<lambda>c. send_event c e) cs w) =
     events client (m, w) @ (if client \<in> set cs \<and> meant_for (su_directed e) client then [e] else [])"
proof (induction cs arbitrary: w)
  case (Cons c cs)
  { case 1 then show ?case using Cons.IH(1) by (simp add: send_event_connections)
  next
    case 2
    have "events client (m, send_event c e w) = events client (m, w) @ (if client = c \<and> meant_for (su_directed e) client then [e] else [])"
      using 2(2) by (cases "client = c"; cases "su_directed e") (simp_all add: events_def send_event_def meant_for_def)
    then show ?case using 2 Cons.IH(2) [of "send_event c e w"] by (auto simp: send_event_connections) }
qed simp_all

lemma events_frame: "events client (m', w) = events client (m, w)"
  by (simp add: events_def)

lemma notify_watched:
  assumes "watched client (m, w)" and "sv_monitors m' = sv_monitors m"
  shows "watched client (notify_update send_event name what directed (m', w))"
    and "fst (notify_update send_event name what directed (m', w)) = m'"
    and "events client (notify_update send_event name what directed (m', w)) = events client (m, w) @
       (if meant_for directed client then [\<lparr>su_name = name, su_change = what, su_directed = directed\<rparr>] else [])"
proof -
  let ?e = "\<lparr>su_name = name, su_change = what, su_directed = directed\<rparr>"
  have split: "notify_update send_event name what directed (m', w) = (m', fold (\<lambda>c. send_event c ?e) (sv_monitors m') w)"
    by (simp add: notify_update_def)
  show "fst (notify_update send_event name what directed (m', w)) = m'" by (simp add: split)
  show "watched client (notify_update send_event name what directed (m', w))"
    using assms by (simp add: split watched_def fold_send_events(1))
  show "events client (notify_update send_event name what directed (m', w)) = events client (m, w) @
       (if meant_for directed client then [?e] else [])"
    unfolding split events_frame [of client m' w m, symmetric]
    using assms by (subst fold_send_events(2)) (simp_all add: watched_def)
qed

datatype server_step =
    Serve string server_command
  | BeginRpc string string int "byte list" int
  | FinishRpc bool string
  | Connect string
  | Disconnect string
  | Tick int

primrec do_step :: "server_step \<Rightarrow> supervisor \<Rightarrow> supervisor" where
  "do_step (Serve client cmd) mw = snd (serve_command client cmd mw)"
| "do_step (BeginRpc tag name rpc_id payload timeout) mw = snd (begin_send_rpc tag name rpc_id payload timeout mw)"
| "do_step (FinishRpc timed_out tag) mw = snd (finish_send_rpc timed_out tag mw)"
| "do_step (Connect client) mw = prepare_conn client mw"
| "do_step (Disconnect client) mw = teardown_conn client mw"
| "do_step (Tick d) mw = ((fst mw)\<lparr>sv_now := sv_now (fst mw) + d\<rparr>, snd mw)"

definition server_run :: "server_step list \<Rightarrow> supervisor \<Rightarrow> supervisor" where
  "server_run = fold do_step"

text \<open>What a step means for a client: at most one event, which takes a copy of the old services to a copy of the new ones.\<close>

definition follows :: "string \<Rightarrow> supervisor \<Rightarrow> supervisor \<Rightarrow> bool" where
  "follows client mw mw' \<longleftrightarrow> watched client mw' \<and>
     (\<exists>evs. events client mw' = events client mw @ evs \<and> length evs \<le> 1 \<and>
       (\<forall>c times. replica (fst mw) c \<longrightarrow> length times = length evs \<longrightarrow>
          (\<exists>c'. for_each (\<lambda>(now, e). handle_event now e) (zip times evs) c = (Inr (), c') \<and> replica (fst mw') c')))"

lemma follows_silent:
  assumes "watched client mw'" and "events client mw' = events client mw" and "sv_services (fst mw') = sv_services (fst mw)"
  shows "follows client mw mw'"
  using assms by (auto simp: follows_def replica_def)

lemma follows_event:
  assumes "watched client mw'" and "events client mw' = events client mw @ [e]"
    and "\<And>c now. replica (fst mw) c \<Longrightarrow> \<exists>c'. handle_event now e c = (Inr (), c') \<and> replica (fst mw') c'"
  shows "follows client mw mw'"
proof -
  have "\<exists>c'. for_each (\<lambda>(now, e). handle_event now e) (zip times [e]) c = (Inr (), c') \<and> replica (fst mw') c'"
    if c: "replica (fst mw) c" and len: "length times = length [e]" for c times
  proof -
    obtain now where "times = [now]" using len by (auto simp: length_Suc_conv)
    then show ?thesis using assms(3) [OF c, of now] by (auto simp: bind_act_def)
  qed
  then show ?thesis unfolding follows_def using assms(1,2) by (intro conjI exI [of _ "[e]"]) simp_all
qed

lemma put_service_frame [simp]:
  "sv_monitors (put_service n s m) = sv_monitors m" "sv_now (put_service n s m) = sv_now m"
  by (simp_all add: put_service_def)

lemma follows_notify:
  assumes "watched client (m, w)"
    and "\<And>c now. replica m c \<Longrightarrow> \<exists>c'. handle_event now \<lparr>su_name = name, su_change = what, su_directed = None\<rparr> c = (Inr (), c') \<and>
      replica (put_service n s m) c'"
  shows "follows client (m, w) (notify_update send_event name what None (put_service n s m, w))"
  by (rule follows_event) (use assms(2) notify_watched [OF assms(1), of "put_service n s m"] in \<open>auto simp: meant_for_def\<close>)


lemma watched_frame:
  "watched client (m, w) \<Longrightarrow> sv_monitors m' = sv_monitors m \<Longrightarrow> watched client (m', w)"
  by (simp add: watched_def)

lemma silent_state:
  assumes "watched client (m, w)" and "sv_services m' = sv_services m" and "sv_monitors m' = sv_monitors m"
  shows "follows client (m, w) (m', w)"
  using assms by (intro follows_silent) (auto simp: watched_frame events_def)

lemma add_service_follows:
  assumes "watched client mw"
  shows "follows client mw (snd (add_service send_event name long_name False True mw))"
proof (cases mw)
  case (Pair m w)
  show ?thesis
  proof (cases "map_of (sv_services m) name")
    case None
    let ?s = "new_service_state name long_name False None 5 (sv_now m)"
    have "follows client (m, w) (notify_update send_event name (NewService name long_name False) None (put_service name ?s m, w))"
      by (rule follows_notify)
        (use assms Pair None in \<open>auto simp: handle_event_def added_event\<close>)
    then show ?thesis
      using Pair None
      by (simp add: add_service_def service_info_def Let_def put_service_def new_service_state_def update_conv)
  next
    case (Some s)
    then show ?thesis using Pair assms silent_state [of client m w m] by (simp add: add_service_def)
  qed
qed

lemma update_state_follows:
  assumes "watched client mw"
  shows "follows client mw (snd (update_state send_event name n mw))"
proof (cases mw)
  case (Pair m w)
  have silent: "follows client (m, w) (m, w)" using silent_state assms Pair by simp
  show ?thesis
  proof (cases "map_of (sv_services m) name \<noteq> None \<and> map_of KNOWN_STATES n \<noteq> None")
    case True
    then obtain serv label where some: "map_of (sv_services m) name = Some serv" "map_of KNOWN_STATES n = Some label" by auto
    have "follows client (m, w)
        (notify_update send_event name (StateChange (ss_state serv) n label) None (put_service name (serv\<lparr>ss_state := n\<rparr>) m, w))"
      by (rule follows_notify) (use assms Pair status_event [OF _ some] in \<open>auto simp: handle_event_def\<close>)
    then show ?thesis using Pair silent some by (simp add: update_state_def known_state [OF some(2)])
  next
    case False
    then show ?thesis using Pair silent by (auto simp: update_state_def split: option.split)
  qed
qed

lemma heartbeat_follows:
  assumes "watched client mw"
  shows "follows client mw (snd (send_heartbeat send_event name mw))"
proof (cases mw)
  case (Pair m w)
  show ?thesis
  proof (cases "map_of (sv_services m) name")
    case None
    then show ?thesis using Pair assms silent_state [of client m w m] by (simp add: send_heartbeat_def)
  next
    case (Some serv)
    have "follows client (m, w) (notify_update send_event name HeartbeatReceived None (put_service name (heartbeat (sv_now m) serv) m, w))"
      by (rule follows_notify) (use assms Pair heartbeat_event [OF _ Some] in \<open>auto simp: handle_event_def\<close>)
    then show ?thesis using Pair Some by (simp add: send_heartbeat_def)
  qed
qed

lemma replica_service_ok:
  assumes "replica m c" and "map_of (sv_services m) name = Some serv"
  shows "service_ok serv"
  using same_services_lookup(2) assms unfolding replica_def same_service_def by fastforce

lemma message_follows:
  assumes "watched client mw" and ok: "\<And>s. map_of (sv_services (fst mw)) name = Some s \<Longrightarrow> service_ok s"
  shows "follows client mw (snd (send_message send_event name level body mw))"
proof (cases mw)
  case (Pair m w)
  show ?thesis
  proof (cases "map_of (sv_services m) name")
    case None
    then show ?thesis using Pair assms silent_state [of client m w m] by (simp add: send_message_def)
  next
    case (Some serv)
    then have "service_ok serv" using ok Pair by simp
    then obtain msg s where post: "post_message level body 1 None None (sv_now m) serv = (Inr msg, s)"
      using post_message_ok [of serv 1] by fastforce
    have "follows client (m, w)
        (notify_update send_event name (NewMessage (message_to_dict (sv_now m) msg)) None (put_service name s m, w))"
      by (rule follows_notify) (use assms Pair message_event [OF _ Some post] in \<open>auto simp: handle_event_def message_to_dict_def\<close>)
    then show ?thesis using Pair Some by (simp add: send_message_def post)
  qed
qed

lemma headline_follows:
  assumes "watched client mw"
  shows "follows client mw (snd (send_headline send_event name level text mw))"
proof (cases mw)
  case (Pair m w)
  show ?thesis
  proof (cases "map_of (sv_services m) name")
    case None
    then show ?thesis using Pair assms silent_state [of client m w m] by (simp add: send_headline_def)
  next
    case (Some serv)
    let ?s = "set_headline level text None None (sv_now m) serv"
    obtain h where h: "ss_headline ?s = Some h" using set_headline_posted by blast
    have "follows client (m, w)
        (notify_update send_event name (NewHeadline (message_to_dict (sv_now m) h)) None (put_service name ?s m, w))"
      by (rule follows_notify) (use assms Pair headline_event [OF _ Some h] in \<open>auto simp: handle_event_def message_to_dict_def\<close>)
    then show ?thesis using Pair Some by (simp add: send_headline_def h)
  qed
qed


section \<open>The state of the server\<close>

definition named_ok :: "string \<times> service_state \<Rightarrow> bool" where
  "named_ok p \<longleftrightarrow> service_ok (snd p) \<and> ss_short_name (snd p) = fst p"

definition sup_ok :: "supervisor \<Rightarrow> bool" where
  "sup_ok mw \<longleftrightarrow> distinct (map fst (sv_services (fst mw))) \<and> (\<forall>p \<in> set (sv_services (fst mw)). named_ok p) \<and>
     distinct (sv_monitors (fst mw)) \<and> set (co_clients (snd mw)) \<subseteq> set (sv_monitors (fst mw))"

lemma sup_ok_frame:
  "sup_ok (m, w) \<Longrightarrow> sv_services m' = sv_services m \<Longrightarrow> sv_monitors m' = sv_monitors m \<Longrightarrow> co_clients w' = co_clients w \<Longrightarrow> sup_ok (m', w')"
  by (simp add: sup_ok_def)

lemma named_ok_lookup: "sup_ok (m, w) \<Longrightarrow> map_of (sv_services m) n = Some s \<Longrightarrow> service_ok s \<and> ss_short_name s = n"
  by (auto simp: sup_ok_def named_ok_def dest!: map_of_SomeD)

lemma entries_update: "set (AList.update n s xs) \<subseteq> insert (n, s) (set xs)"
  by (induction xs) auto

lemma sup_ok_put:
  assumes "sup_ok (m, w)" and "named_ok (n, s)" and "co_clients w' = co_clients w"
  shows "sup_ok (put_service n s m, w')"
proof -
  have "\<forall>p \<in> set (AList.update n s (sv_services m)). named_ok p"
    using assms(1,2) entries_update [of n s "sv_services m"] by (auto simp: sup_ok_def)
  then show ?thesis using assms by (simp add: sup_ok_def put_service_def distinct_update)
qed


lemma notify_connections: "co_clients (snd (notify_update send_event name what directed (m, w))) = co_clients w"
  by (simp add: notify_update_def fold_send_events(1))

lemma sup_ok_notify:
  assumes "sup_ok (m, w)"
  shows "sup_ok (notify_update send_event name what directed (m, w))"
  using sup_ok_frame [OF assms refl refl] by (simp add: notify_update_def fold_send_events(1))

lemma sup_ok_notify_put:
  assumes "sup_ok (m, w)" and "named_ok (n, s)"
  shows "sup_ok (notify_update send_event name what directed (put_service n s m, w))"
  using sup_ok_put [OF assms refl] by (rule sup_ok_notify)

lemma add_service_ok:
  assumes "sup_ok mw"
  shows "sup_ok (snd (add_service send_event name long_name p notify mw))"
proof (cases mw)
  case (Pair m w)
  let ?s = "new_service_state name long_name p None 5 (sv_now m)"
  have "named_ok (name, ?s)" by (simp add: named_ok_def service_ok_def new_service_state_def KNOWN_STATES_def)
  then have "sup_ok (put_service name ?s m, w)" and "\<And>what. sup_ok (notify_update send_event name what None (put_service name ?s m, w))"
    using sup_ok_put sup_ok_notify_put assms Pair by blast+
  then show ?thesis using assms Pair by (auto simp: add_service_def Let_def split: sum.split)
qed

lemma update_state_ok:
  assumes "sup_ok mw"
  shows "sup_ok (snd (update_state send_event name n mw))"
proof (cases mw)
  case (Pair m w)
  have "named_ok (name, serv\<lparr>ss_state := n\<rparr>)" if "map_of (sv_services m) name = Some serv" "map_of KNOWN_STATES n = Some label" for serv label
    using named_ok_lookup [of m w name serv] assms Pair that by (simp add: named_ok_def service_ok_def)
  then show ?thesis
    using assms Pair by (auto simp: update_state_def known_state intro: sup_ok_notify_put split: option.split)
qed

lemma send_message_ok:
  assumes "sup_ok mw"
  shows "sup_ok (snd (send_message send_event name level body mw))"
proof (cases mw)
  case (Pair m w)
  have "named_ok (name, s)"
    if "map_of (sv_services m) name = Some serv" "post_message level body 1 None None (sv_now m) serv = (r, s)" for serv r s
    using named_ok_lookup [of m w name serv] assms Pair that post_message_ok [of serv 1 level body None None "sv_now m"]
      post_message_frame(1) [of level body 1 None None "sv_now m" serv] by (auto simp: named_ok_def)
  then show ?thesis
    using assms Pair sup_ok_put [of m w] by (auto simp: send_message_def intro: sup_ok_notify_put split: option.split sum.split prod.split)
qed

lemma send_headline_ok:
  assumes "sup_ok mw"
  shows "sup_ok (snd (send_headline send_event name level body mw))"
proof (cases mw)
  case (Pair m w)
  have "named_ok (name, set_headline level body None None (sv_now m) serv)" if "map_of (sv_services m) name = Some serv" for serv
    using named_ok_lookup [of m w name serv] assms Pair that by (simp add: named_ok_def service_ok_def set_headline_frame)
  then show ?thesis
    using assms Pair sup_ok_put [of m w]
    by (auto simp: send_headline_def Let_def intro: sup_ok_notify_put split: option.split)
qed

lemma send_heartbeat_ok:
  assumes "sup_ok mw"
  shows "sup_ok (snd (send_heartbeat send_event name mw))"
proof (cases mw)
  case (Pair m w)
  have "named_ok (name, heartbeat (sv_now m) serv)" if "map_of (sv_services m) name = Some serv" for serv
    using named_ok_lookup [of m w name serv] assms Pair that by (simp add: named_ok_def service_ok_def heartbeat_def)
  then show ?thesis
    using assms Pair by (auto simp: send_heartbeat_def intro: sup_ok_notify_put split: option.split)
qed

text \<open>The steps that leave the services and the monitors alone.\<close>

lemma manager_frames:
  "sv_services (snd (set_agent name client m)) = sv_services m" "sv_monitors (snd (set_agent name client m)) = sv_monitors m"
  "sv_services (snd (send_rpc_response tag r b m)) = sv_services m" "sv_monitors (snd (send_rpc_response tag r b m)) = sv_monitors m"
  by (simp_all add: set_agent_def send_rpc_response_def Let_def split_beta)

lemma on_manager_snd: "snd (on_manager f (m, w)) = (snd (f m), w)"
  by (simp add: on_manager_def split_beta)

lemma finish_send_rpc_frames:
  "sv_services (fst (snd (finish_send_rpc timed_out tag (m, w)))) = sv_services m"
  "sv_monitors (fst (snd (finish_send_rpc timed_out tag (m, w)))) = sv_monitors m"
  "snd (snd (finish_send_rpc timed_out tag (m, w))) = w"
  by (simp_all add: finish_send_rpc_def split_beta)

lemma begin_send_rpc_cases:
  obtains (silent) m' where "snd (begin_send_rpc tag name rpc_id payload timeout (m, w)) = (m', w)"
      "sv_services m' = sv_services m" "sv_monitors m' = sv_monitors m"
  | (sent) m' agent where "snd (begin_send_rpc tag name rpc_id payload timeout (m, w)) =
        notify_update send_event name (RpcCommand rpc_id payload tag) (Some agent) (m', w)"
      "map_of (sv_agents m) name = Some agent" "sv_services m' = sv_services m" "sv_monitors m' = sv_monitors m"
proof (cases "map_of (sv_services m) name \<noteq> None \<and> map_of (sv_agents m) name \<noteq> None \<and> map_of (sv_rpc_results m) tag = None")
  case True
  then obtain agent where "map_of (sv_agents m) name = Some agent" by auto
  with True show thesis
    by (intro sent [where m' = "m\<lparr>sv_rpc_results := AList.update tag Pending (sv_rpc_results m),
           sv_in_flight := AList.update tag \<lparr>if_sender = SenderNumber timeout, if_service = name,
             if_sent_timestamp = sv_now m, if_timeout = 1000\<rparr> (sv_in_flight m)\<rparr>"])
      (simp_all add: begin_send_rpc_def send_rpc_command_def aw_declare_def Let_def)
next
  case False
  then show thesis
    by (intro silent [where m' = "fst (snd (begin_send_rpc tag name rpc_id payload timeout (m, w)))"])
      (auto simp: begin_send_rpc_def send_rpc_command_def aw_declare_def Let_def split_beta)
qed


lemma sup_ok_step:
  assumes "sup_ok mw"
  shows "sup_ok (do_step st mw)"
proof (cases st)
  case (Serve client cmd)
  obtain m w where mw: "mw = (m, w)" by (cases mw)
  have silent: "sup_ok (m', w)" if "sv_services m' = sv_services m" "sv_monitors m' = sv_monitors m" for m'
    using sup_ok_frame [of m w m' w] assms mw that by simp
  show ?thesis
    using assms Serve mw add_service_ok [OF assms] update_state_ok [OF assms] send_message_ok [OF assms] send_headline_ok [OF assms]
      send_heartbeat_ok [OF assms] by (cases cmd) (simp_all add: serve_command_def on_manager_snd silent manager_frames)
next
  case (BeginRpc tag name rpc_id payload timeout)
  obtain m w where mw: "mw = (m, w)" by (cases mw)
  show ?thesis
    using assms sup_ok_notify sup_ok_frame [of m w _ w] unfolding BeginRpc mw
    by (cases rule: begin_send_rpc_cases [of tag name rpc_id payload timeout m w]) simp_all
next
  case (FinishRpc timed_out tag)
  obtain m w where mw: "mw = (m, w)" by (cases mw)
  show ?thesis
    using assms sup_ok_frame [of m w _ w] finish_send_rpc_frames [of timed_out tag m w] unfolding FinishRpc mw
    by (cases "snd (finish_send_rpc timed_out tag (m, w))") simp
next
  case (Connect client)
  then show ?thesis using assms by (cases mw) (auto simp: prepare_conn_def add_monitor_def sup_ok_def)
next
  case (Disconnect client)
  then show ?thesis using assms by (cases mw) (auto simp: teardown_conn_def sup_ok_def)
next
  case (Tick d)
  then show ?thesis using assms by (simp add: sup_ok_def)
qed

lemma sup_ok_run: "sup_ok mw \<Longrightarrow> sup_ok (server_run steps mw)"
  unfolding server_run_def by (induction steps arbitrary: mw) (simp_all add: sup_ok_step)

lemma sup_ok_new:
  assumes "new_supervisor expected now = (Inr (), mw)"
  shows "sup_ok mw"
proof -
  have "for_each (\<lambda>(short_name, long_name). add_service send_event short_name long_name True False) expected mw0 = (r, mw) \<Longrightarrow>
      sup_ok mw0 \<Longrightarrow> sup_ok mw" for mw0 r
  proof (induction expected arbitrary: mw0)
    case (Cons e es)
    obtain short_name long_name where e: "e = (short_name, long_name)" by (cases e)
    obtain r1 mw1 where step: "add_service send_event short_name long_name True False mw0 = (r1, mw1)" by (rule prod.exhaust)
    then have "sup_ok mw1" using add_service_ok [OF Cons.prems(2)] by (metis snd_conv)
    then show ?case using Cons.prems(1) Cons.IH [of mw1] by (cases r1) (auto simp: e step bind_act_def)
  qed simp
  then show ?thesis using assms unfolding new_supervisor_def new_service_manager_def by (auto simp: sup_ok_def)
qed

lemma follows_step:
  assumes "sup_ok mw" and "watched client mw" and "st \<noteq> Disconnect client"
  shows "follows client mw (do_step st mw)"
proof -
  obtain m w where mw: "mw = (m, w)" by (cases mw)
  have silent: "follows client (m, w) (m', w)" if "sv_services m' = sv_services m" "sv_monitors m' = sv_monitors m" for m'
    using silent_state [of client m w m'] assms(2) mw that by simp
  show ?thesis
  proof (cases st)
    case (Serve c cmd)
    have ok: "service_ok s" if "map_of (sv_services (fst mw)) n = Some s" for n s
      using named_ok_lookup [of m w n s] assms(1) mw that by simp
    show ?thesis
      using Serve mw add_service_follows [OF assms(2)] update_state_follows [OF assms(2)] message_follows [OF assms(2) ok]
        headline_follows [OF assms(2)] heartbeat_follows [OF assms(2)]
      by (cases cmd) (simp_all add: serve_command_def on_manager_snd silent manager_frames)
  next
    case (BeginRpc tag name rpc_id payload timeout)
    show ?thesis
    proof (cases rule: begin_send_rpc_cases [of tag name rpc_id payload timeout m w])
      case (silent m')
      then show ?thesis using \<open>\<And>m'. _ \<Longrightarrow> _ \<Longrightarrow> follows client (m, w) (m', w)\<close> by (simp add: BeginRpc mw)
    next
      case (sent m' agent)
      let ?n = "notify_update send_event name (RpcCommand rpc_id payload tag) (Some agent) (m', w)"
      note facts = notify_watched [OF assms(2) [unfolded mw] sent(4), of name "RpcCommand rpc_id payload tag" "Some agent"]
      have "follows client (m, w) ?n"
      proof (cases "agent = client")
        case True
        then show ?thesis
          using facts sent(3) by (intro follows_event) (auto simp: meant_for_def handle_event_def replica_def)
      next
        case False
        then show ?thesis using facts sent(3) by (intro follows_silent) (auto simp: meant_for_def)
      qed
      then show ?thesis by (simp add: BeginRpc mw sent(1))
    qed
  next
    case (FinishRpc timed_out tag)
    obtain m' where "snd (finish_send_rpc timed_out tag (m, w)) = (m', w)"
      using finish_send_rpc_frames(3) [of timed_out tag m w] by (metis prod.collapse)
    then show ?thesis using FinishRpc mw silent [of m'] finish_send_rpc_frames(1,2) [of timed_out tag m w] by simp
  next
    case (Connect c)
    then show ?thesis
      using assms(2) mw by (intro follows_silent) (auto simp: prepare_conn_def watched_def events_def add_monitor_def)
  next
    case (Disconnect c)
    then show ?thesis
      using assms(2,3) mw by (intro follows_silent) (auto simp: teardown_conn_def watched_def events_def)
  next
    case (Tick d)
    then show ?thesis using mw silent [of "m\<lparr>sv_now := sv_now m + d\<rparr>"] by simp
  qed
qed

lemma follows_run:
  assumes "sup_ok mw" and "watched client mw" and "Disconnect client \<notin> set steps"
  shows "\<exists>evs. events client (server_run steps mw) = events client mw @ evs \<and>
    (\<forall>c times. replica (fst mw) c \<longrightarrow> length times = length evs \<longrightarrow>
       (\<exists>c'. for_each (\<lambda>(now, e). handle_event now e) (zip times evs) c = (Inr (), c') \<and> replica (fst (server_run steps mw)) c'))"
  using assms
proof (induction steps arbitrary: mw)
  case Nil
  then show ?case by (simp add: server_run_def)
next
  case (Cons st steps)
  let ?mw1 = "do_step st mw"
  have "follows client mw ?mw1" using Cons.prems by (intro follows_step) auto
  then obtain ev where w1: "watched client ?mw1" and ev: "events client ?mw1 = events client mw @ ev"
    and one: "\<And>c times. replica (fst mw) c \<Longrightarrow> length times = length ev \<Longrightarrow>
      \<exists>c'. for_each (\<lambda>(now, e). handle_event now e) (zip times ev) c = (Inr (), c') \<and> replica (fst ?mw1) c'"
    unfolding follows_def by blast
  obtain evs where evs: "events client (server_run steps ?mw1) = events client ?mw1 @ evs"
    and more_evs: "\<And>c times. replica (fst ?mw1) c \<Longrightarrow> length times = length evs \<Longrightarrow>
      \<exists>c'. for_each (\<lambda>(now, e). handle_event now e) (zip times evs) c = (Inr (), c') \<and> replica (fst (server_run steps ?mw1)) c'"
    using Cons.IH [OF sup_ok_step [OF Cons.prems(1)] w1] Cons.prems(3) by auto
  have run: "server_run (st # steps) mw = server_run steps ?mw1" by (simp add: server_run_def)
  have "\<exists>c'. for_each (\<lambda>(now, e). handle_event now e) (zip times (ev @ evs)) c = (Inr (), c') \<and> replica (fst (server_run steps ?mw1)) c'"
    if "replica (fst mw) c" "length times = length (ev @ evs)" for c times
  proof -
    note prems = that
    let ?ts = "take (length ev) times" and ?us = "drop (length ev) times"
    obtain c1 where c1: "for_each (\<lambda>(now, e). handle_event now e) (zip ?ts ev) c = (Inr (), c1)" "replica (fst ?mw1) c1"
      using one [OF prems(1), of ?ts] prems(2) by auto
    obtain c2 where c2: "for_each (\<lambda>(now, e). handle_event now e) (zip ?us evs) c1 = (Inr (), c2)"
        "replica (fst (server_run steps ?mw1)) c2"
      using more_evs [OF c1(2), of ?us] prems(2) by auto
    have "zip times (ev @ evs) = zip ?ts ev @ zip ?us evs" using prems(2) by (simp add: zip_append2)
    then show ?thesis using c1(1) c2 by (simp add: for_each_append bind_act_def)
  qed
  then show ?case using ev evs by (auto simp: run intro!: exI [of _ "ev @ evs"])
qed


section \<open>Copying all services\<close>

lemma received_message:
  assumes "1 \<le> sm_count msg"
  shows "message_view (message_of_dict now (message_to_dict now' msg)) = message_view msg"
  using assms by (auto simp: message_view_def message_of_dict_def message_to_dict_def new_message_def Let_def)

lemma sync_messages:
  assumes "distinct_adj (map sm_text (ms @ xs))" and "length (ms @ xs) \<le> 5" and "ss_max_messages s = 5"
    and "map message_view (ss_messages s) = map message_view ms"
  shows "\<exists>s'. for_each (\<lambda>msg s. map_prod (map_sum id (\<lambda>_. ())) id
      (post_message (sm_level msg) (sm_text msg) (sm_count msg) (Some (sm_created msg)) None now s)) xs s = (Inr (), s') \<and>
    service_view s' = (ss_short_name s, ss_long_name s, ss_preregistered s, ss_state s, 5,
      map message_view (ms @ xs), map_option headline_view (ss_headline s)) \<and> ss_id s' = ss_id s"
  using assms
proof (induction xs arbitrary: ms s)
  case Nil
  then show ?case by (simp add: service_view_def)
next
  case (Cons x xs)
  define s' where "s' = snd (post_message (sm_level x) (sm_text x) (sm_count x) (Some (sm_created x)) None now s)"
  obtain msg where "fst (post_message (sm_level x) (sm_text x) (sm_count x) (Some (sm_created x)) None now s) = Inr msg"
    using post_message_returns [of s] Cons.prems(3) by fastforce
  then have step: "post_message (sm_level x) (sm_text x) (sm_count x) (Some (sm_created x)) None now s = (Inr msg, s')"
    unfolding s'_def by (metis prod.collapse)
  note frame = post_message_frame [of "sm_level x" "sm_text x" "sm_count x" "Some (sm_created x)" None now s, folded s'_def]
  let ?vs = "map message_view ms"
  have "ms \<noteq> [] \<Longrightarrow> sm_text (last ms) \<noteq> sm_text x"
    using Cons.prems(1) by (auto simp: distinct_adj_append_iff last_map)
  then have "\<not> (?vs \<noteq> [] \<and> fst (snd (last ?vs)) = sm_text x)" by (auto simp: last_map message_view_def)
  then have "post_view 5 (sm_level x) (sm_text x) (sm_count x) ?vs = deque_append 5 ?vs (sm_level x, sm_text x, sm_count x)"
    unfolding post_view_def by (rule if_not_P)
  also have "\<dots> = ?vs @ [message_view x]" using Cons.prems(2) by (simp add: deque_append_def message_view_def)
  finally have "post_view 5 (sm_level x) (sm_text x) (sm_count x) ?vs = ?vs @ [message_view x]" .
  then have "map message_view (ss_messages s') = map message_view (ms @ [x])"
    by (simp add: s'_def post_message_view Cons.prems(3,4))
  then have "\<exists>s''. for_each (\<lambda>msg s. map_prod (map_sum id (\<lambda>_. ())) id
      (post_message (sm_level msg) (sm_text msg) (sm_count msg) (Some (sm_created msg)) None now s)) xs s' = (Inr (), s'') \<and>
    service_view s'' = (ss_short_name s', ss_long_name s', ss_preregistered s', ss_state s', 5,
      map message_view ((ms @ [x]) @ xs), map_option headline_view (ss_headline s')) \<and> ss_id s'' = ss_id s'"
    using Cons.prems by (intro Cons.IH) (simp_all add: frame)
  then show ?case by (simp add: bind_act_def step frame id_def)
qed

lemma sync_service_view:
  assumes "service_ok s" and "map message_view ms = map message_view (ss_messages s)"
    and "map_option headline_view h = map_option headline_view (ss_headline s)"
  shows "\<exists>t. fst (sync_service now i (ss_short_name s, ss_long_name s, ss_preregistered s) (ss_state s) ms h) = Inr t \<and>
    service_view t = service_view s \<and> ss_id t = Some i"
proof -
  let ?s1 = "(new_service_state (ss_short_name s) (ss_long_name s) (ss_preregistered s) (Some i) 5 now)\<lparr>ss_state := ss_state s\<rparr>"
  have "map sm_text xs = map (fst \<circ> snd) (map message_view xs)" for xs by (simp add: message_view_def)
  then have texts: "map sm_text ms = map sm_text (ss_messages s)" by (simp only: assms(2))
  have "length ms = length (ss_messages s)" using assms(2) by (rule map_eq_imp_length_eq)
  then obtain s2 where s2: "for_each (\<lambda>msg s. map_prod (map_sum id (\<lambda>_. ())) id
      (post_message (sm_level msg) (sm_text msg) (sm_count msg) (Some (sm_created msg)) None now s)) ms ?s1 = (Inr (), s2)"
      "service_view s2 = (ss_short_name s, ss_long_name s, ss_preregistered s, ss_state s, 5, map message_view ms, None)"
      "ss_id s2 = Some i"
    using sync_messages [of "[]" ms ?s1 now] assms(1) texts by (auto simp: new_service_state_def service_ok_def)
  let ?t = "case h of None \<Rightarrow> s2 | Some h \<Rightarrow> set_headline (sm_level h) (sm_text h) (Some (sm_created h)) None now s2"
  have "service_view ?t = service_view s"
    using s2(2) assms
    by (cases h; cases "ss_headline s") (auto simp: service_view_def service_ok_def set_headline_frame set_headline_view
        headline_post_def headline_view_def)
  moreover have "ss_id ?t = Some i" using s2(3) by (simp add: set_headline_frame split: option.split)
  moreover obtain label where "map_of KNOWN_STATES (ss_state s) = Some label" using assms(1) by (auto simp: service_ok_def)
  ultimately show ?thesis by (simp add: sync_service_def Let_def known_state bind_act_def s2(1))
qed

lemma query_service_view:
  assumes "sup_ok (m, w)" and "map_of (sv_services m) name = Some s"
  shows "\<exists>t. query_service now i name m = Inr t \<and> service_view t = service_view s \<and> ss_id t = Some i"
proof -
  have s: "service_ok s" "ss_short_name s = name" using named_ok_lookup [OF assms] by simp_all
  let ?received = "message_of_dict now \<circ> message_to_dict (sv_now m)"
  have "map message_view (map ?received (ss_messages s)) = map message_view (ss_messages s)"
    using s(1) by (auto simp: service_ok_def received_message)
  moreover have "map_option headline_view (map_option ?received (ss_headline s)) = map_option headline_view (ss_headline s)"
    by (cases "ss_headline s") (auto simp: headline_view_def message_of_dict_def message_to_dict_def new_message_def Let_def)
  ultimately obtain t where "fst (sync_service now i (name, ss_long_name s, ss_preregistered s) (ss_state s)
      (map ?received (ss_messages s)) (map_option ?received (ss_headline s))) = Inr t \<and> service_view t = service_view s \<and> ss_id t = Some i"
    using sync_service_view [OF s(1)] s(2) by blast
  moreover obtain label where "map_of KNOWN_STATES (ss_state s) = Some label" using s(1) by (auto simp: service_ok_def)
  ultimately show ?thesis
    by (simp add: query_service_def service_info_def service_status_def service_messages_def service_headline_def
        string_state_def bind_res_def assms(2) comp_def)
qed


lemma map_res_exists:
  assumes "\<And>x. x \<in> set xs \<Longrightarrow> \<exists>y. f x = Inr y \<and> P x y"
  shows "\<exists>ys. map_res f xs = Inr ys \<and> list_all2 P xs ys"
  using assms
proof (induction xs)
  case (Cons x xs)
  obtain y where y: "f x = Inr y" "P x y" using Cons.prems [of x] by auto
  obtain ys where "map_res f xs = Inr ys" "list_all2 P xs ys" using Cons.IH Cons.prems by auto
  then show ?case using y by auto
qed simp

lemma name_map_fold:
  "k \<notin> set ks \<Longrightarrow> distinct ks \<Longrightarrow> length ks = length ns \<Longrightarrow> fst ` set am \<inter> set (map int ks) = {} \<Longrightarrow>
     fold (\<lambda>(i, name) al. AList.update (int i) name al) (zip ks ns) am = am @ zip (map int ks) ns"
proof (induction ks arbitrary: ns am)
  case (Cons i ks)
  obtain n ns' where ns: "ns = n # ns'" using Cons.prems(3) by (cases ns) auto
  have "AList.update (int i) n am = am @ [(int i, n)]"
    using Cons.prems(4) by (intro update_new) (auto simp: map_of_eq_None_iff)
  moreover have "fst ` set (am @ [(int i, n)]) \<inter> set (map int ks) = {}" using Cons.prems(2,4) by auto
  ultimately show ?case using Cons.prems Cons.IH [of ns' "am @ [(int i, n)]"] by (simp add: ns)
qed simp

lemma sync_replica:
  assumes "sup_ok (m, w)"
  shows "\<exists>services. sync_services now m = Inr services \<and> replica m (populate_name_map services new_supervisor_client)"
proof -
  let ?names = "list_services m" and ?ss = "sv_services m"
  let ?P = "\<lambda>(i, name) (n, t). n = name \<and> (\<exists>s. map_of ?ss name = Some s \<and> service_view t = service_view s \<and> ss_id t = Some (int i))"
  have one: "\<exists>y. (\<lambda>(i, name). bind_res (query_service now (int i) name m) (\<lambda>s. Inr (name, s))) x = Inr y \<and> ?P x y"
    if "x \<in> set (zip [0..<length ?names] ?names)" for x
  proof -
    obtain i name where x: "x = (i, name)" by (cases x)
    then have "name \<in> set ?names" using that by (auto dest: set_zip_rightD)
    then obtain s where "map_of ?ss name = Some s" unfolding list_services_def by (auto simp: weak_map_of_SomeI dest: weak_map_of_SomeI)
    then show ?thesis using query_service_view [OF assms, of name s now "int i"] by (auto simp: x)
  qed
  obtain services where services: "sync_services now m = Inr services" "list_all2 ?P (zip [0..<length ?names] ?names) services"
    using map_res_exists [of "zip [0..<length ?names] ?names" _ ?P, OF one] unfolding sync_services_def by blast
  have len: "length services = length ?ss"
    using list_all2_lengthD [OF services(2)] by (simp add: list_services_def)
  have distinct: "distinct (map fst ?ss)" using assms by (simp add: sup_ok_def)
  have nth: "fst (services ! k) = fst (?ss ! k) \<and> service_view (snd (services ! k)) = service_view (snd (?ss ! k)) \<and>
      ss_id (snd (services ! k)) = Some (int k)" if "k < length ?ss" for k
  proof -
    have "?P (zip [0..<length ?names] ?names ! k) (services ! k)"
      using that by (intro list_all2_nthD [OF services(2)]) (simp add: list_services_def)
    moreover have "map_of ?ss (fst (?ss ! k)) = Some (snd (?ss ! k))" using that distinct by (simp add: map_of_eq_Some_iff)
    ultimately show ?thesis using that by (auto simp: list_services_def split: prod.splits)
  qed
  have "list_all2 same_service ?ss services"
    unfolding list_all2_conv_all_nth using assms nth len
    by (auto simp: same_service_def sup_ok_def named_ok_def)
  moreover have "numbered_services services"
    unfolding numbered_services_def using nth len by (intro nth_equalityI) simp_all
  moreover have "cl_name_map (populate_name_map services new_supervisor_client) =
      zip (map int [0..<length services]) (map fst services)"
    using name_map_fold [of "length services" "[0..<length services]" "map fst services" "[]"]
    by (simp add: populate_name_map_def new_supervisor_client_def)
  ultimately show ?thesis using services(1) by (auto simp: replica_def populate_name_map_def)
qed


section \<open>The copies of the clients\<close>

lemma sort_numbered: "length ns = k \<Longrightarrow> sort_key fst (zip (map int [0..<k]) ns) = zip (map int [0..<k]) ns"
  by (intro sort_key_id_if_sorted) (simp add: sorted_map)

text \<open>The clients that never left are watched.\<close>

lemma watched_step:
  assumes "sup_ok mw" and "client \<in> set (co_clients (snd mw))"
  shows "watched client mw"
  using assms by (auto simp: sup_ok_def watched_def)

text \<open>
  C5: Take any run of the supervisor, a client that is connected then and copies all services, and any further run in which
  that client stays connected, with other clients that come, go, post and call.  Copying succeeds, and when the client has
  handled the events it was sent since, each at any time, without an exception, its copy has the services of the supervisor in
  the same order, with the same names, states, messages and their counts, and headlines, and the ids 0, 1, 2, ...
\<close>

theorem replicas_agree:
  assumes "new_supervisor expected now0 = (Inr (), mw0)"
    and "mw = server_run before mw0" and "client \<in> set (co_clients (snd mw))"
    and "mw' = server_run steps mw" and "Disconnect client \<notin> set steps"
  shows "\<exists>services evs. sync_services now (fst mw) = Inr services \<and> events client mw' = events client mw @ evs \<and>
    (\<forall>times. length times = length evs \<longrightarrow>
       (\<exists>c. for_each (\<lambda>(t, e). handle_event t e) (zip times evs) (populate_name_map services new_supervisor_client) = (Inr (), c) \<and>
          map fst (cl_services c) = map fst (sv_services (fst mw')) \<and>
          map (service_view \<circ> snd) (cl_services c) = map (service_view \<circ> snd) (sv_services (fst mw')) \<and>
          local_services c = zip (map int [0..<length (sv_services (fst mw'))]) (map fst (sv_services (fst mw')))))"
proof -
  have ok: "sup_ok mw" using sup_ok_run [OF sup_ok_new [OF assms(1)]] assms(2) by simp
  obtain services where services: "sync_services now (fst mw) = Inr services"
      "replica (fst mw) (populate_name_map services new_supervisor_client)"
    using sync_replica [of "fst mw" "snd mw" now] ok by auto
  obtain evs where evs: "events client mw' = events client mw @ evs"
    and run: "\<And>times. length times = length evs \<Longrightarrow> \<exists>c. for_each (\<lambda>(t, e). handle_event t e) (zip times evs)
        (populate_name_map services new_supervisor_client) = (Inr (), c) \<and> replica (fst mw') c"
    using follows_run [OF ok watched_step [OF ok assms(3)] assms(5)] services(2) assms(4) by blast
  have "map fst (cl_services c) = map fst (sv_services (fst mw')) \<and>
      map (service_view \<circ> snd) (cl_services c) = map (service_view \<circ> snd) (sv_services (fst mw')) \<and>
      local_services c = zip (map int [0..<length (sv_services (fst mw'))]) (map fst (sv_services (fst mw')))"
    if "replica (fst mw') c" for c
  proof -
    have all: "list_all2 same_service (sv_services (fst mw')) (cl_services c)" using that by (simp add: replica_def)
    then have len: "length (cl_services c) = length (sv_services (fst mw'))" by (simp add: list_all2_lengthD)
    have "map fst (cl_services c) = map fst (sv_services (fst mw'))"
      and "map (service_view \<circ> snd) (cl_services c) = map (service_view \<circ> snd) (sv_services (fst mw'))"
      using all by (induction rule: list_all2_induct) (simp_all add: same_service_def)
    then have same: "map fst (cl_services c) = map fst (sv_services (fst mw')) \<and>
        map (service_view \<circ> snd) (cl_services c) = map (service_view \<circ> snd) (sv_services (fst mw'))" by simp
    have "cl_name_map c = zip (map int [0..<length (map fst (sv_services (fst mw')))]) (map fst (sv_services (fst mw')))"
      using that len by (simp add: replica_def same)
    then show ?thesis using sort_numbered [of "map fst (sv_services (fst mw'))", OF length_map] same by (simp add: local_services_def)
  qed
  then show ?thesis using services(1) evs run by blast
qed


text \<open>One gateway: a service that is renamed while a client joins, and a second client that comes and goes.\<close>

definition joining :: "server_step list" where
  "joining = [Connect ''a'', Serve ''a'' (RegisterService ''s'' ''long''), Serve ''a'' (PostMessage ''s'' 1 ''hello''),
     Serve ''a'' (UpdateState ''s'' 1)]"

definition talking :: "server_step list" where
  "talking = [Connect ''b'', Serve ''b'' (PostMessage ''s'' 2 ''hello''), Tick 500, Serve ''b'' (SetHeadline ''t'' 3 ''up''),
     Disconnect ''b'', Serve ''a'' (UpdateState ''s'' 9), Serve ''a'' (RegisterService ''u'' ''other'')]"

definition starting :: supervisor where
  "starting = snd (new_supervisor [(''t'', ''expected'')] 0)"

theorem replicas_agree_witness:
  "\<exists>services evs. sync_services 7 (fst (server_run joining starting)) = Inr services \<and>
     events ''a'' (server_run talking (server_run joining starting)) = events ''a'' (server_run joining starting) @ evs \<and>
     length (sv_services (fst (server_run talking (server_run joining starting)))) = 3"
proof -
  have new: "new_supervisor [(''t'', ''expected'')] 0 = (Inr (), starting)" by code_simp
  have here: "''a'' \<in> set (co_clients (snd (server_run joining starting)))" by code_simp
  have stays: "Disconnect ''a'' \<notin> set talking" by code_simp
  have three: "length (sv_services (fst (server_run talking (server_run joining starting)))) = 3" by code_simp
  show ?thesis using replicas_agree [OF new refl here refl stays, of 7] three by blast
qed

text \<open>
  C37: A change between the queries of a client that starts and the moment it takes over the answers is lost for it.  The event
  of the new state arrives when the client has no services yet and does nothing, and afterwards the copy has the old state,
  although the client was connected all the time and handled every event.
\<close>

theorem sync_race:
  assumes "new_supervisor expected now0 = (Inr (), mw0)"
    and "mw = server_run before mw0" and "client \<in> set (co_clients (snd mw))"
    and "map_of (sv_services (fst mw)) name = Some s" and "map_of KNOWN_STATES n \<noteq> None" and "n \<noteq> ss_state s"
    and "mw' = do_step (Serve client' (UpdateState name n)) mw"
  shows "\<exists>services e c t. sync_services now (fst mw) = Inr services \<and> events client mw' = events client mw @ [e] \<and>
    handle_event now e new_supervisor_client = (Inr (), c) \<and>
    map_of (cl_services (populate_name_map services c)) name = Some t \<and> ss_state t = ss_state s \<and>
    map_option ss_state (map_of (sv_services (fst mw')) name) = Some n"
proof -
  obtain m w where mw: "mw = (m, w)" by (cases mw)
  have ok: "sup_ok mw" using sup_ok_run [OF sup_ok_new [OF assms(1)]] assms(2) by simp
  obtain services where services: "sync_services now m = Inr services" "replica m (populate_name_map services new_supervisor_client)"
    using sync_replica [of m w now] ok mw by auto
  have "list_all2 same_service (sv_services m) services" using services(2) by (simp add: replica_def populate_name_map_def)
  then obtain t where t: "map_of services name = Some t" "same_service (name, s) (name, t)"
    using same_services_lookup(2) assms(4) unfolding mw fst_conv by blast
  obtain label where label: "map_of KNOWN_STATES n = Some label" using assms(5) by auto
  let ?e = "\<lparr>su_name = name, su_change = StateChange (ss_state s) n label, su_directed = None\<rparr>"
  have watched: "watched client (m, w)" using watched_step [OF ok assms(3)] mw by simp
  have mw': "mw' = notify_update send_event name (StateChange (ss_state s) n label) None (put_service name (s\<lparr>ss_state := n\<rparr>) m, w)"
    using assms(4,6,7) mw label by (simp add: serve_command_def update_state_def known_state)
  have "events client mw' = events client mw @ [?e]"
    and "fst mw' = put_service name (s\<lparr>ss_state := n\<rparr>) m"
    using notify_watched [OF watched, of "put_service name (s\<lparr>ss_state := n\<rparr>) m"] unfolding mw' mw by (simp_all add: meant_for_def)
  moreover have "handle_event now ?e new_supervisor_client = (Inr (), new_supervisor_client)"
    by (simp add: handle_event_def on_status_change_def new_supervisor_client_def)
  moreover have "ss_state t = ss_state s" using t(2) by (simp add: same_service_def service_view_def)
  ultimately show ?thesis using services(1) t(1) mw by (auto simp: populate_name_map_def put_service_def update_conv)
qed

theorem sync_race_witness:
  "\<exists>services e c t. sync_services 7 (fst (server_run joining starting)) = Inr services \<and>
    events ''a'' (do_step (Serve ''z'' (UpdateState ''s'' 3)) (server_run joining starting)) =
      events ''a'' (server_run joining starting) @ [e] \<and>
    handle_event 7 e new_supervisor_client = (Inr (), c) \<and>
    map_of (cl_services (populate_name_map services c)) ''s'' = Some t \<and> ss_state t = 1"
proof -
  have new: "new_supervisor [(''t'', ''expected'')] 0 = (Inr (), starting)" by code_simp
  have here: "''a'' \<in> set (co_clients (snd (server_run joining starting)))" by code_simp
  have state: "map_option ss_state (map_of (sv_services (fst (server_run joining starting))) ''s'') = Some 1" by code_simp
  then obtain s where s: "map_of (sv_services (fst (server_run joining starting))) ''s'' = Some s" "ss_state s = 1" by auto
  have known: "map_of KNOWN_STATES 3 \<noteq> None" by code_simp
  show ?thesis using sync_race [OF new refl here s(1) known _ refl, of 7 "''z''"] s(2) by auto
qed

section \<open>RPCs through the supervisor\<close>

text \<open>What a tile answers for its service, in terms of what the dispatcher of the service does.\<close>

definition delegated :: "'s rpc_dispatcher option \<Rightarrow> int \<Rightarrow> byte list \<Rightarrow> 's \<Rightarrow> byte list rpc_res" where
  "delegated dispatcher rpc_id args t =
     (case dispatcher of
        None \<Rightarrow> Inl RPCNotFoundError
      | Some d \<Rightarrow>
          if d rpc_id = None then Inl RPCNotFoundError
          else (case fst (dispatch_rpc d rpc_id args t) of
              Inr (Payload response) \<Rightarrow> Inr response
            | Inl RPCInvalidArgumentsError \<Rightarrow> Inl RPCInvalidArgumentsError
            | Inl RPCInvalidReturnValueError \<Rightarrow> Inl RPCInvalidReturnValueError
            | _ \<Rightarrow> Inl (OtherException InternalError)))"

lemma answered_command:
  assumes "on_rpc_command dispatcher rpc_id args tag t = (Some cmd, t')"
  obtains outcome response where "cmd = RespondRpc tag outcome response"
    and "delegate_result \<lparr>rr_result = outcome, rr_response = response\<rparr> = delegated dispatcher rpc_id args t"
  using assms
  by (cases dispatcher; cases "fst (dispatch_rpc (the dispatcher) rpc_id args t)"; cases "dispatch_rpc (the dispatcher) rpc_id args t")
    (auto simp: on_rpc_command_def delegated_def has_rpc_def delegate_result_def
      split: if_splits sum.splits rpc_exception.splits rpc_answer.splits prod.splits)

lemma delete_new: "map_of al k = None \<Longrightarrow> AList.delete k al = al"
  by (simp add: delete_id map_of_eq_None_iff)

text \<open>
  C38: A tile that delegates to a service answers what the dispatcher of the service answers: the supervisor sends exactly one
  command, to the agent of the service; the answer of the agent ends the wait of the tile; its bytes come back unchanged, a
  missing RPC, wrong arguments and a wrong return value come back as the exceptions they were, and everything else as an
  internal error.  Afterwards the supervisor keeps nothing of the RPC.
\<close>

theorem delegated_rpc:
  assumes "watched agent mw"
    and "map_of (sv_services (fst mw)) name \<noteq> None" and "map_of (sv_agents (fst mw)) name = Some agent"
    and "map_of (sv_rpc_results (fst mw)) tag = None" and "map_of (sv_in_flight (fst mw)) tag = None"
    and "on_rpc_command dispatcher rpc_id args tag t = (Some cmd, t')"
  shows "\<exists>mw1 mw2 w res.
    begin_send_rpc tag name rpc_id args timeout mw = (Inr (), mw1) \<and>
    events agent mw1 = events agent mw @ [\<lparr>su_name = name, su_change = RpcCommand rpc_id args tag, su_directed = Some agent\<rparr>] \<and>
    (\<forall>client. client \<noteq> agent \<longrightarrow> watched client mw \<longrightarrow> events client mw1 = events client mw) \<and>
    finish_send_rpc False tag mw1 = (Inr None, mw1) \<and>
    serve_command agent cmd mw1 = (Inr (), mw2) \<and>
    finish_send_rpc False tag mw2 = (Inr (Some res), fst mw, w) \<and>
    delegate_result res = delegated dispatcher rpc_id args t"
proof -
  obtain m w where mw: "mw = (m, w)" by (cases mw)
  obtain outcome response where cmd: "cmd = RespondRpc tag outcome response"
    and res: "delegate_result \<lparr>rr_result = outcome, rr_response = response\<rparr> = delegated dispatcher rpc_id args t"
    using answered_command [OF assms(6)] .
  let ?rpc = "\<lparr>if_sender = SenderNumber timeout, if_service = name, if_sent_timestamp = sv_now m, if_timeout = 1000\<rparr>"
  let ?m1 = "m\<lparr>sv_rpc_results := AList.update tag Pending (sv_rpc_results m), sv_in_flight := AList.update tag ?rpc (sv_in_flight m)\<rparr>"
  let ?mw1 = "notify_update send_event name (RpcCommand rpc_id args tag) (Some agent) (?m1, w)"
  obtain w1 where w1: "?mw1 = (?m1, w1)" by (simp add: notify_update_def)
  have begun: "begin_send_rpc tag name rpc_id args timeout mw = (Inr (), ?mw1)"
    using assms(2-4) mw by (simp add: begin_send_rpc_def send_rpc_command_def aw_declare_def Let_def)
  have sent: "events client ?mw1 = events client mw @ (if client = agent
      then [\<lparr>su_name = name, su_change = RpcCommand rpc_id args tag, su_directed = Some agent\<rparr>] else [])" if "watched client mw" for client
    using notify_watched(3) [of client m w ?m1 name "RpcCommand rpc_id args tag" "Some agent"] that mw by (auto simp: meant_for_def)
  have waits: "finish_send_rpc False tag ?mw1 = (Inr None, ?mw1)"
    by (simp add: w1 finish_send_rpc_def aw_get_def update_conv)
  let ?res = "\<lparr>rr_result = outcome, rr_response = response\<rparr>"
  let ?m2 = "m\<lparr>sv_rpc_results := AList.update tag (Done ?res) (AList.update tag Pending (sv_rpc_results m))\<rparr>"
  have gone: "AList.delete tag (AList.update tag ?rpc (sv_in_flight m)) = sv_in_flight m"
    using assms(5) mw by (simp add: delete_update_same delete_new)
  have served: "serve_command agent cmd ?mw1 = (Inr (), ?m2, w1)"
    by (simp add: w1 cmd serve_command_def on_manager_def send_rpc_response_def Let_def aw_set_def aw_ensure_declared_def update_conv gone)
  have "AList.delete tag (AList.update tag (Done ?res) (AList.update tag Pending (sv_rpc_results m))) = sv_rpc_results m"
    using assms(4) mw by (simp add: delete_update_same delete_new)
  then have "finish_send_rpc False tag (?m2, w1) = (Inr (Some ?res), m, w1)"
    by (simp add: finish_send_rpc_def aw_get_def update_conv)
  then show ?thesis using begun sent assms(1) waits served res mw by fastforce
qed

theorem delegated_rpc_witness:
  "\<exists>mw1 mw2 w res.
    begin_send_rpc ''id'' ''s'' 7 [1, 2] 120 (server_run (joining @ [Serve ''a'' (SetAgent ''s'')]) starting) = (Inr (), mw1) \<and>
    serve_command ''a'' (RespondRpc ''id'' ''success'' [1, 2]) mw1 = (Inr (), mw2) \<and>
    finish_send_rpc False ''id'' mw2 = (Inr (Some res), w) \<and> delegate_result res = Inr [1, 2]"
proof -
  let ?mw = "server_run (joining @ [Serve ''a'' (SetAgent ''s'')]) starting"
  let ?d = "Some [7 \<mapsto> \<lambda>args t. (Inr (Payload args), t)] :: unit rpc_dispatcher option"
  have "watched ''a'' ?mw" "map_of (sv_services (fst ?mw)) ''s'' \<noteq> None" "map_of (sv_agents (fst ?mw)) ''s'' = Some ''a''"
    "map_of (sv_rpc_results (fst ?mw)) ''id'' = None" "map_of (sv_in_flight (fst ?mw)) ''id'' = None"
    by code_simp+
  moreover have "on_rpc_command ?d 7 [1, 2] ''id'' () = (Some (RespondRpc ''id'' ''success'' [1, 2]), ())"
    and "delegated ?d 7 [1, 2] () = Inr [1, 2]"
    by (simp_all add: on_rpc_command_def has_rpc_def dispatch_rpc_def delegated_def)
  ultimately show ?thesis using delegated_rpc [of "''a''" ?mw "''s''" "''id''" ?d 7 "[1, 2]" "()" _ "()" 120] by fastforce
qed

text \<open>
  When the agent of a service has gone, an RPC to the service is not refused the way an RPC to an unknown service is: the
  agent is still on record, so the command is sent to nobody, and the caller waits until its time is over and gets an internal
  error.
\<close>

theorem dead_agent:
  assumes "map_of (sv_services (fst mw)) name \<noteq> None" and "map_of (sv_agents (fst mw)) name = Some agent"
    and "map_of (sv_rpc_results (fst mw)) tag = None"
  shows "\<exists>m1 w1 res mw2.
    begin_send_rpc tag name rpc_id args timeout (do_step (Disconnect agent) mw) = (Inr (), m1, w1) \<and>
    co_sent w1 = co_sent (snd mw) \<and>
    finish_send_rpc False tag (m1, w1) = (Inr None, m1, w1) \<and>
    finish_send_rpc True tag (m1, w1) = (Inr (Some res), mw2) \<and>
    delegate_result res = Inl (OtherException InternalError) \<and>
    (map_of (sv_services (fst mw)) other = None \<longrightarrow>
       (\<exists>mw3 res' mw4. begin_send_rpc tag other rpc_id args timeout (do_step (Disconnect agent) mw) = (Inr (), mw3) \<and>
          finish_send_rpc False tag mw3 = (Inr (Some res'), mw4) \<and> delegate_result res' = Inl TileNotFoundError))"
proof -
  obtain m w where mw: "mw = (m, w)" by (cases mw)
  let ?w = "w\<lparr>co_clients := filter (\<lambda>c. c \<noteq> agent) (co_clients w)\<rparr>"
  have gone: "do_step (Disconnect agent) mw = (m, ?w)" by (simp add: mw teardown_conn_def)
  let ?e = "\<lparr>su_name = name, su_change = RpcCommand rpc_id args tag, su_directed = Some agent\<rparr>"
  let ?m1 = "m\<lparr>sv_rpc_results := AList.update tag Pending (sv_rpc_results m), sv_in_flight := AList.update tag
     \<lparr>if_sender = SenderNumber timeout, if_service = name, if_sent_timestamp = sv_now m, if_timeout = 1000\<rparr> (sv_in_flight m)\<rparr>"
  have "send_event c ?e ?w = ?w" for c by (simp add: send_event_def)
  then have "fold (\<lambda>c. send_event c ?e) cs ?w = ?w" for cs by (induction cs) simp_all
  then have "begin_send_rpc tag name rpc_id args timeout (m, ?w) = (Inr (), ?m1, ?w)"
    using assms(1-3) mw by (simp add: begin_send_rpc_def send_rpc_command_def aw_declare_def Let_def notify_update_def)
  moreover have "finish_send_rpc False tag (?m1, ?w) = (Inr None, ?m1, ?w)"
    by (simp add: finish_send_rpc_def aw_get_def update_conv)
  moreover have "\<exists>mw2. finish_send_rpc True tag (?m1, ?w) = (Inr (Some \<lparr>rr_result = ''timeout'', rr_response = []\<rparr>), mw2)"
    by (simp add: finish_send_rpc_def aw_get_def update_conv)
  moreover have "\<exists>mw3 mw4. begin_send_rpc tag other rpc_id args timeout (m, ?w) = (Inr (), mw3) \<and>
      finish_send_rpc False tag mw3 = (Inr (Some \<lparr>rr_result = ''service_not_found'', rr_response = []\<rparr>), mw4)"
    if "map_of (sv_services m) other = None"
    using that assms(3) mw
    by (simp add: begin_send_rpc_def send_rpc_command_def aw_declare_def Let_def aw_set_def aw_ensure_declared_def update_conv
        finish_send_rpc_def aw_get_def)
  ultimately show ?thesis unfolding gone by (fastforce simp: mw delegate_result_def)
qed

theorem dead_agent_witness:
  "\<exists>m1 w1 res mw2. begin_send_rpc ''id'' ''s'' 7 [1, 2] 120
      (do_step (Disconnect ''a'') (server_run (joining @ [Serve ''a'' (SetAgent ''s'')]) starting)) = (Inr (), m1, w1) \<and>
    finish_send_rpc True ''id'' (m1, w1) = (Inr (Some res), mw2) \<and> delegate_result res = Inl (OtherException InternalError)"
proof -
  let ?mw = "server_run (joining @ [Serve ''a'' (SetAgent ''s'')]) starting"
  have "map_of (sv_services (fst ?mw)) ''s'' \<noteq> None" "map_of (sv_agents (fst ?mw)) ''s'' = Some ''a''"
    "map_of (sv_rpc_results (fst ?mw)) ''id'' = None"
    by code_simp+
  then show ?thesis using dead_agent [of ?mw "''s''" "''a''" "''id''" 7 "[1, 2]" 120] by blast
qed

end
