(* ===== verification/Streams.thy ===== *)
theory Streams
  imports Prelude
begin

unbundle bit_operations_syntax

text \<open>
  Data streams and stream selectors (\<open>iotile/sg/stream.py\<close>): the 16-bit encodings, the textual
  forms and the matching of streams by selectors.
\<close>

section \<open>Data streams\<close>

abbreviation (input) BufferedType :: int where "BufferedType \<equiv> 0"
abbreviation (input) UnbufferedType :: int where "UnbufferedType \<equiv> 1"
abbreviation (input) ConstantType :: int where "ConstantType \<equiv> 2"
abbreviation (input) InputType :: int where "InputType \<equiv> 3"
abbreviation (input) CounterType :: int where "CounterType \<equiv> 4"
abbreviation (input) OutputType :: int where "OutputType \<equiv> 5"

abbreviation (input) ImportantSystemOutputStart :: int where "ImportantSystemOutputStart \<equiv> 1024"
abbreviation (input) ImportantSystemStorageStart :: int where "ImportantSystemStorageStart \<equiv> 1024 + 512"

definition StringToType :: "string \<Rightarrow> int option" where
  "StringToType = map_of
     [(''buffered'', 0), (''unbuffered'', 1), (''constant'', 2), (''input'', 3), (''counter'', 4),
      (''output'', 5)]"

definition TypeToString :: "int \<Rightarrow> string option" where
  "TypeToString = map_of
     [(0, ''buffered''), (1, ''unbuffered''), (2, ''constant''), (3, ''input''), (4, ''counter''),
      (5, ''output'')]"

definition KnownBreakStreams :: "int list" where
  "KnownBreakStreams = [1024]"

record data_stream =
  stream_type :: int
  stream_id :: int
  system :: bool

definition new_stream :: "int \<Rightarrow> int \<Rightarrow> bool \<Rightarrow> data_stream" where
  "new_stream t i sys = \<lparr>stream_type = t, stream_id = i, system = sys\<rparr>"

definition stream_input :: "data_stream \<Rightarrow> bool" where
  "stream_input s = (stream_type s = InputType)"

definition stream_buffered :: "data_stream \<Rightarrow> bool" where
  "stream_buffered s = (stream_type s = BufferedType \<or> stream_type s = OutputType)"

definition stream_output :: "data_stream \<Rightarrow> bool" where
  "stream_output s = (stream_type s = OutputType)"

definition stream_important :: "data_stream \<Rightarrow> bool" where
  "stream_important s =
     (stream_type s = InputType \<and> system s \<and> stream_id s \<ge> ImportantSystemOutputStart)"

definition associated_stream :: "data_stream \<Rightarrow> data_stream res" where
  "associated_stream s =
     (if \<not> stream_important s then Inl InternalError
      else Inr (new_stream
        (if stream_id s \<ge> ImportantSystemStorageStart then BufferedType else OutputType)
        (stream_id s) True))"

definition stream_of_string :: "string \<Rightarrow> data_stream res" where
  "stream_of_string rep =
     (let parts = py_split rep in
      if length parts > 3 then Inl ArgumentError
      else if length parts = 3 \<and> parts ! 0 \<noteq> ''system'' then Inl ArgumentError
      else if length parts < 2 then Inl ArgumentError
      else
        let sys = (length parts = 3);
            type_str = (if sys then parts ! 1 else parts ! 0);
            id_str = (if sys then parts ! 2 else parts ! 1)
        in case py_int0 id_str of
             None \<Rightarrow> Inl ArgumentError
           | Some i \<Rightarrow> (case StringToType type_str of
                 None \<Rightarrow> Inl ArgumentError
               | Some t \<Rightarrow> Inr (new_stream t i sys)))"

definition stream_of_encoded :: "int \<Rightarrow> data_stream" where
  "stream_of_encoded encoded =
     new_stream (drop_bit 12 encoded AND 0b1111)
       (encoded AND (push_bit 11 1 - 1))
       (encoded AND push_bit 11 1 \<noteq> 0)"

definition stream_encode :: "data_stream \<Rightarrow> int" where
  "stream_encode s =
     (push_bit 12 (stream_type s) OR push_bit 11 (of_bool (system s))) OR stream_id s"

definition stream_str :: "data_stream \<Rightarrow> string res" where
  "stream_str s =
     (case TypeToString (stream_type s) of
        None \<Rightarrow> Inl KeyError
      | Some type_str \<Rightarrow>
          Inr (if system s then ''system '' @ type_str @ '' '' @ py_str_int (stream_id s)
               else type_str @ '' '' @ py_str_int (stream_id s)))"

text \<open>
  \<open>hash(stream)\<close> hashes \<open>str(stream)\<close>, so using a stream as a dictionary key raises \<open>KeyError\<close>
  for a type that has no name.
\<close>

definition stream_hashable :: "data_stream \<Rightarrow> bool" where
  "stream_hashable s = (TypeToString (stream_type s) \<noteq> None)"

section \<open>Stream selectors\<close>

abbreviation (input) MatchSystemOnly :: int where "MatchSystemOnly \<equiv> 1"
abbreviation (input) MatchCombined :: int where "MatchCombined \<equiv> 2"
abbreviation (input) MatchUserOnly :: int where "MatchUserOnly \<equiv> 3"
abbreviation (input) MatchUserAndBreaks :: int where "MatchUserAndBreaks \<equiv> 4"

definition ValidSpecifiers :: "int list" where
  "ValidSpecifiers = [MatchSystemOnly, MatchCombined, MatchUserOnly, MatchUserAndBreaks]"

definition SpecifierStrings :: "int \<Rightarrow> string option" where
  "SpecifierStrings = map_of
     [(MatchSystemOnly, ''system''), (MatchCombined, ''combined''), (MatchUserOnly, ''user''),
      (MatchUserAndBreaks, '''')]"

definition SpecifierNames :: "string \<Rightarrow> int option" where
  "SpecifierNames = map_of
     [(''system'', MatchSystemOnly), (''combined'', MatchCombined), (''user'', MatchUserOnly),
      ('''', MatchUserAndBreaks)]"

definition SpecifierEncodings :: "int \<Rightarrow> int option" where
  "SpecifierEncodings = map_of
     [(MatchSystemOnly, push_bit 11 1), (MatchUserOnly, 0), (MatchUserAndBreaks, push_bit 15 1),
      (MatchCombined, push_bit 11 1 OR push_bit 15 1)]"

definition SpecifierEncodingMap :: "int \<Rightarrow> int option" where
  "SpecifierEncodingMap = map_of
     [(push_bit 11 1, MatchSystemOnly), (0, MatchUserOnly), (push_bit 15 1, MatchUserAndBreaks),
      (push_bit 11 1 OR push_bit 15 1, MatchCombined)]"

definition MatchAllCode :: int where
  "MatchAllCode = push_bit 11 1 - 1"

record selector =
  match_type :: int
  match_id :: "int option"
  match_spec :: int

definition new_selector :: "int \<Rightarrow> int option \<Rightarrow> int \<Rightarrow> selector res" where
  "new_selector t i spec =
     (if spec \<notin> set ValidSpecifiers then Inl ArgumentError
      else Inr \<lparr>match_type = t, match_id = i, match_spec = spec\<rparr>)"

definition sel_input :: "selector \<Rightarrow> bool" where
  "sel_input s = (match_type s = InputType)"

definition sel_inexhaustible :: "selector \<Rightarrow> bool" where
  "sel_inexhaustible s = (match_type s = ConstantType)"

definition sel_singular :: "selector \<Rightarrow> bool" where
  "sel_singular s = (match_id s \<noteq> None)"

definition sel_buffered :: "selector \<Rightarrow> bool" where
  "sel_buffered s = (match_type s = BufferedType \<or> match_type s = OutputType)"

definition sel_output :: "selector \<Rightarrow> bool" where
  "sel_output s = (match_type s = OutputType)"

definition sel_as_stream :: "selector \<Rightarrow> data_stream res" where
  "sel_as_stream s =
     (case match_id s of
        None \<Rightarrow> Inl ArgumentError
      | Some i \<Rightarrow> Inr (new_stream (match_type s) i (match_spec s = MatchSystemOnly)))"

definition sel_of_stream :: "data_stream \<Rightarrow> selector res" where
  "sel_of_stream s =
     new_selector (stream_type s) (Some (stream_id s))
       (if system s then MatchSystemOnly else MatchUserOnly)"

definition sel_of_encoded :: "int \<Rightarrow> selector res" where
  "sel_of_encoded encoded =
     (let spec_bits = encoded AND (push_bit 11 1 OR push_bit 15 1);
          mtype = drop_bit 12 (encoded AND push_bit 12 0b111);
          mid = encoded AND (push_bit 11 1 - 1)
      in case SpecifierEncodingMap spec_bits of
           None \<Rightarrow> Inl ArgumentError
         | Some spec_name \<Rightarrow>
             new_selector mtype (if mid = MatchAllCode then None else Some mid) spec_name)"

definition sel_of_string :: "string \<Rightarrow> selector res" where
  "sel_of_string string_rep =
     (let rep = py_replace_empty ''nodes'' (py_replace_empty ''node'' string_rep) in
      if py_startswith rep ''all'' then
        (let parts = py_split rep in
         if length parts \<noteq> 3 \<and> length parts \<noteq> 2 then Inl ArgumentError
         else
           let spec_string = (if length parts = 3 then parts ! 1 else '''');
               type_str = (if length parts = 3 then parts ! 2 else parts ! 1);
               base_type = (if py_endswith type_str ''s'' then py_slice_to type_str (-1) else type_str)
           in case StringToType base_type of
                None \<Rightarrow> Inl ArgumentError
              | Some t \<Rightarrow> (case SpecifierNames spec_string of
                    None \<Rightarrow> Inl ArgumentError
                  | Some spec \<Rightarrow> new_selector t None spec))
      else bind_res (stream_of_string rep) sel_of_stream)"

definition sel_str :: "selector \<Rightarrow> string res" where
  "sel_str s =
     (case TypeToString (match_type s) of
        None \<Rightarrow> Inl KeyError
      | Some type_str \<Rightarrow>
          (case match_id s of
             Some i \<Rightarrow>
               Inr (if match_spec s = MatchSystemOnly
                    then ''system '' @ type_str @ '' '' @ py_str_int i
                    else type_str @ '' '' @ py_str_int i)
           | None \<Rightarrow>
               (case SpecifierStrings (match_spec s) of
                  None \<Rightarrow> Inl KeyError
                | Some specifier \<Rightarrow>
                    Inr (''all '' @ (if specifier \<noteq> '''' then specifier @ '' '' else specifier)
                         @ (if type_str \<noteq> ''buffered'' then type_str @ ''s'' else type_str)))))"

definition sel_matches :: "selector \<Rightarrow> data_stream \<Rightarrow> bool" where
  "sel_matches s stream =
     (if match_type s \<noteq> stream_type stream then False
      else case match_id s of
        Some i \<Rightarrow> i = stream_id stream
      | None \<Rightarrow>
          (if match_spec s = MatchUserOnly then \<not> system stream
           else if match_spec s = MatchSystemOnly then system stream
           else if match_spec s = MatchUserAndBreaks then
             \<not> system stream \<or> (system stream \<and> stream_id stream \<in> set KnownBreakStreams)
           else True))"

definition sel_encode :: "selector \<Rightarrow> int res" where
  "sel_encode s =
     (let mid = (case match_id s of None \<Rightarrow> push_bit 11 1 - 1 | Some i \<Rightarrow> i) in
      case SpecifierEncodings (match_spec s) of
        None \<Rightarrow> Inl KeyError
      | Some enc \<Rightarrow> Inr ((push_bit 12 (match_type s) OR enc) OR mid))"

definition sel_hashable :: "selector \<Rightarrow> bool" where
  "sel_hashable s = (case sel_str s of Inl _ \<Rightarrow> False | Inr _ \<Rightarrow> True)"

section \<open>Well-formed streams and selectors\<close>

text \<open>The streams a 16-bit encoding can express, and those that have a textual form.\<close>

definition stream_encodable :: "data_stream \<Rightarrow> bool" where
  "stream_encodable s \<longleftrightarrow>
     0 \<le> stream_type s \<and> stream_type s < 16 \<and> 0 \<le> stream_id s \<and> stream_id s < 2048"

definition stream_named :: "data_stream \<Rightarrow> bool" where
  "stream_named s \<longleftrightarrow> 0 \<le> stream_type s \<and> stream_type s < 6"

text \<open>
  The selectors a 16-bit encoding can express: the id \<open>MatchAllCode\<close> is taken by the wildcard.
\<close>

definition sel_encodable :: "selector \<Rightarrow> bool" where
  "sel_encodable s \<longleftrightarrow>
     0 \<le> match_type s \<and> match_type s < 8 \<and> match_spec s \<in> set ValidSpecifiers \<and>
     (case match_id s of None \<Rightarrow> True | Some i \<Rightarrow> 0 \<le> i \<and> i < MatchAllCode)"

text \<open>
  The selectors that have a textual form of their own.  A selector of a single stream is written
  like the stream, so the specifiers \<open>combined\<close> and user-and-breaks have no text there.
\<close>

definition sel_named :: "selector \<Rightarrow> bool" where
  "sel_named s \<longleftrightarrow>
     0 \<le> match_type s \<and> match_type s < 6 \<and> match_spec s \<in> set ValidSpecifiers \<and>
     (match_id s \<noteq> None \<longrightarrow> match_spec s = MatchSystemOnly \<or> match_spec s = MatchUserOnly)"

lemmas stream_defs = new_stream_def stream_input_def stream_buffered_def stream_output_def
  stream_important_def

lemmas sel_defs = new_selector_def sel_input_def sel_inexhaustible_def sel_singular_def
  sel_buffered_def sel_output_def

section \<open>The 16-bit encodings\<close>

lemma stream_encode_arith:
  assumes "0 \<le> stream_id s" "stream_id s < 2048"
  shows "stream_encode s = stream_type s * 4096 + of_bool (system s) * 2048 + stream_id s"
proof -
  have "push_bit 12 (stream_type s) OR push_bit 11 (of_bool (system s))
      = stream_type s * 4096 + of_bool (system s) * 2048"
    using push_bit_or_field [of "of_bool (system s) * 2048" 12 "stream_type s"]
    by (cases "system s") simp_all
  also have "\<dots> = push_bit 11 (2 * stream_type s + of_bool (system s))"
    by (simp add: push_bit_eq_mult)
  finally have "stream_encode s = push_bit 11 (2 * stream_type s + of_bool (system s)) OR stream_id s"
    by (simp only: stream_encode_def)
  then show ?thesis
    using assms push_bit_or_field [of "stream_id s" 11 "2 * stream_type s + of_bool (system s)"] by simp
qed
lemma field_split:
  fixes t i :: int
  assumes "0 \<le> i" "i < 2048" "b = 0 \<or> b = 1"
  shows "(t * 4096 + b * 2048 + i) div 4096 = t" "(t * 4096 + b * 2048 + i) mod 2048 = i"
    "(t * 4096 + b * 2048 + i) div 2048 = 2 * t + b"
proof -
  have "0 \<le> b * 2048 + i" "b * 2048 + i < 4096" using assms by auto
  then have "(b * 2048 + i) div 4096 = 0" by simp
  then show "(t * 4096 + b * 2048 + i) div 4096 = t" by (simp add: add.assoc)
  have e: "t * 4096 + b * 2048 + i = i + (2 * t + b) * 2048" by simp
  show "(t * 4096 + b * 2048 + i) mod 2048 = i" using assms unfolding e by (subst mod_mult_self1) simp
  show "(t * 4096 + b * 2048 + i) div 2048 = 2 * t + b" using assms unfolding e by (subst div_mult_self1) simp_all
qed
lemma stream_of_encoded_arith:
  "stream_of_encoded v =
     \<lparr>stream_type = v div 4096 mod 16, stream_id = v mod 2048, system = odd (v div 2048)\<rparr>"
  by (simp add: stream_of_encoded_def new_stream_def enc_simps)

lemma stream_decode_encode:
  assumes "stream_encodable s"
  shows "stream_of_encoded (stream_encode s) = s"
proof -
  have b: "of_bool (system s) = 0 \<or> of_bool (system s) = (1::int)" by simp
  show ?thesis
    using assms field_split [OF _ _ b, of "stream_id s" "stream_type s"]
    by (cases s) (simp add: stream_of_encoded_arith stream_encode_arith stream_encodable_def)
qed

lemma stream_of_encoded_encodable: "stream_encodable (stream_of_encoded v)"
  by (simp add: stream_encodable_def stream_of_encoded_arith)

lemma stream_encode_decode:
  assumes "0 \<le> v" "v < 65536"
  shows "stream_encode (stream_of_encoded v) = v"
proof -
  have "stream_encode (stream_of_encoded v) =
      v div 4096 mod 16 * 4096 + v div 2048 mod 2 * 2048 + v mod 2048"
    by (simp add: stream_of_encoded_arith stream_encode_arith of_bool_odd_eq_mod_2)
  moreover have "v div 4096 mod 16 = v div 4096" using assms by simp
  moreover have "v div 2048 = 2 * (v div 4096) + v div 2048 mod 2"
    using zdiv_zmult2_eq [of 2 v 2048] by simp
  ultimately show ?thesis
    using mult_div_mod_eq [of 2048 v] by linarith
qed

lemma stream_encode_bounds:
  assumes "stream_encodable s"
  shows "0 \<le> stream_encode s" "stream_encode s < 65536"
  using assms by (auto simp: stream_encode_arith stream_encodable_def)

lemma upto_cases:
  fixes y :: int
  shows "0 \<le> y \<Longrightarrow> y < 8 \<Longrightarrow> y \<in> {0, 1, 2, 3, 4, 5, 6, 7}"
    "0 \<le> y \<Longrightarrow> y < 6 \<Longrightarrow> y \<in> {0, 1, 2, 3, 4, 5}"
  by auto

text \<open>The five bits above the id field: the type, the system flag and the combined flag.\<close>

definition sel_header :: "int \<Rightarrow> int \<Rightarrow> int" where
  "sel_header t spec =
     2 * t + (if spec = 1 then 1 else if spec = 2 then 17
              else if spec = 3 then 0 else 16)"

lemma sel_header_encode:
  assumes "0 \<le> t" "t < 8" "spec \<in> set ValidSpecifiers"
  shows "\<exists>enc. SpecifierEncodings spec = Some enc \<and>
    push_bit 12 t OR enc = push_bit 11 (sel_header t spec)"
  using upto_cases(1) [OF assms(1,2)] assms(3)
  by (auto simp: ValidSpecifiers_def SpecifierEncodings_def sel_header_def)

lemma sel_encode_arith:
  assumes "sel_encodable s"
  shows "sel_encode s = Inr (sel_header (match_type s) (match_spec s) * 2048 +
    (case match_id s of None \<Rightarrow> 2047 | Some i \<Rightarrow> i))"
proof -
  let ?mid = "case match_id s of None \<Rightarrow> 2047 | Some i \<Rightarrow> (i :: int)"
  have mid: "0 \<le> ?mid" "?mid < 2 ^ 11"
    using assms by (auto simp: sel_encodable_def MatchAllCode_def split: option.splits)
  obtain enc where "SpecifierEncodings (match_spec s) = Some enc"
    "push_bit 12 (match_type s) OR enc = push_bit 11 (sel_header (match_type s) (match_spec s))"
    using sel_header_encode assms unfolding sel_encodable_def by blast
  then show ?thesis
    using push_bit_or_field [OF mid] by (cases "match_id s") (simp_all add: sel_encode_def)
qed

lemma and_push_bit: "v AND push_bit n m = push_bit n (drop_bit n v AND (m::int))"
  by (auto simp: bit_eq_iff bit_simps)

lemma and_header: "v AND 34816 = push_bit 11 (v div 2048 AND (17::int))"
proof -
  have "v AND push_bit 11 17 = push_bit 11 (drop_bit 11 v AND (17::int))"
    by (rule and_push_bit)
  then show ?thesis by (simp add: drop_bit_eq_div)
qed

lemma and_type: "drop_bit 12 (v AND 28672) = v div 4096 mod (8::int)"
proof -
  have "drop_bit 12 (v AND push_bit 12 7) = drop_bit 12 v AND (7::int)"
    by (auto simp: bit_eq_iff bit_simps)
  then show ?thesis using and_low_bits [of "v div 4096" 3] by (simp add: drop_bit_eq_div)
qed

lemma sel_of_encoded_arith:
  "sel_of_encoded v =
    (case SpecifierEncodingMap (push_bit 11 (v div 2048 AND 17)) of
       None \<Rightarrow> Inl ArgumentError
     | Some spec \<Rightarrow> new_selector (v div 4096 mod 8)
         (if v mod 2048 = 2047 then None else Some (v mod 2048)) spec)"
proof -
  have "push_bit 11 1 OR push_bit 15 1 = (34816::int)" "push_bit 12 7 = (28672::int)"
    "push_bit 11 1 - 1 = (2047::int)" by simp_all
  then show ?thesis
    by (simp only: sel_of_encoded_def and_header and_type and_masks MatchAllCode_def Let_def)
qed

lemma int_range_all:
  assumes "list_all P [0..n - 1]" "0 \<le> (y::int)" "y < n"
  shows "P y"
  using assms by (simp add: list_all_iff)

definition header_ok :: "int \<Rightarrow> bool" where
  "header_ok y =
     (case SpecifierEncodingMap (push_bit 11 (y AND 17)) of
        None \<Rightarrow> False
      | Some spec \<Rightarrow> List.member ValidSpecifiers spec \<and> sel_header (y div 2 mod 8) spec = y)"

lemma header_ok_all: "list_all header_ok [0..32 - 1]"
  by code_simp

lemma sel_header_inv_all:
  "list_all (\<lambda>t. list_all (\<lambda>spec.
     0 \<le> sel_header t spec \<and> sel_header t spec < 32 \<and>
     SpecifierEncodingMap (push_bit 11 (sel_header t spec AND 17)) = Some spec \<and>
     sel_header t spec div 2 mod 8 = t) ValidSpecifiers) [0..8 - 1]"
  by code_simp

lemma sel_decode_encode:
  assumes "sel_encodable s" "sel_encode s = Inr v"
  shows "sel_of_encoded v = Inr s"
proof -
  let ?h = "sel_header (match_type s) (match_spec s)"
  let ?mid = "case match_id s of None \<Rightarrow> 2047 | Some i \<Rightarrow> (i :: int)"
  have mid: "0 \<le> ?mid" "?mid < 2048"
    using assms by (auto simp: sel_encodable_def MatchAllCode_def split: option.splits)
  have h: "SpecifierEncodingMap (push_bit 11 (?h AND 17)) = Some (match_spec s)"
    "?h div 2 mod 8 = match_type s"
    using int_range_all [OF sel_header_inv_all, of "match_type s"] assms(1)
    by (auto simp: sel_encodable_def list_all_iff)
  have v: "v = ?mid + ?h * 2048"
    using assms by (simp add: sel_encode_arith)
  have "v mod 2048 = ?mid" "v div 2048 = ?h"
    using mid unfolding v by simp_all
  moreover have "v div 4096 = v div 2048 div 2"
    using zdiv_zmult2_eq [of 2 v 2048] by simp
  ultimately show ?thesis
    using h assms(1) mid
    by (cases s) (auto simp: sel_of_encoded_arith new_selector_def sel_encodable_def MatchAllCode_def
      split: option.splits)
qed

lemma sel_encode_decode:
  assumes "0 \<le> v" "v < 65536"
  shows "bind_res (sel_of_encoded v) sel_encode = Inr v"
proof -
  let ?y = "v div 2048"
  have y: "0 \<le> ?y" "?y < 32" using assms by auto
  obtain spec where spec: "SpecifierEncodingMap (push_bit 11 (?y AND 17)) = Some spec"
    "spec \<in> set ValidSpecifiers" "sel_header (?y div 2 mod 8) spec = ?y"
    using int_range_all [OF header_ok_all y] by (auto simp: header_ok_def split: option.splits)
  have "v div 4096 = ?y div 2" using zdiv_zmult2_eq [of 2 v 2048] by simp
  then have d: "sel_of_encoded v = Inr \<lparr>match_type = ?y div 2 mod 8,
      match_id = (if v mod 2048 = 2047 then None else Some (v mod 2048)), match_spec = spec\<rparr>"
    using spec by (simp add: sel_of_encoded_arith new_selector_def)
  have "sel_encodable \<lparr>match_type = ?y div 2 mod 8,
      match_id = (if v mod 2048 = 2047 then None else Some (v mod 2048)), match_spec = spec\<rparr>"
    using spec pos_mod_bound [of 2048 v] pos_mod_sign [of 2048 v]
    by (auto simp: sel_encodable_def MatchAllCode_def)
  moreover have "v div 2048 * 2048 = v - v mod 2048"
    using mult_div_mod_eq [of 2048 v] by linarith
  ultimately show ?thesis
    using spec(3) by (auto simp: d sel_encode_arith)
qed
section \<open>The textual forms\<close>

lemma type_names:
  assumes "0 \<le> t" "t < 6"
  obtains n where "TypeToString t = Some n" "StringToType n = Some t" "no_space n" "n \<noteq> []"
    "(t, n) \<in> {(0, ''buffered''), (1, ''unbuffered''), (2, ''constant''), (3, ''input''),
       (4, ''counter''), (5, ''output'')}"
  using upto_cases(2) [OF assms]
  by (auto simp: TypeToString_def StringToType_def py_isspace_def)

lemma stream_string_roundtrip:
  assumes "stream_named s"
  shows "\<exists>t. stream_str s = Inr t \<and> stream_of_string t = Inr s"
proof -
  obtain n where n: "TypeToString (stream_type s) = Some n" "StringToType n = Some (stream_type s)"
    "no_space n" "n \<noteq> []"
    using type_names assms unfolding stream_named_def by metis
  have sys: "no_space ''system''" "''system'' \<noteq> []" by (simp_all add: py_isspace_def)
  let ?i = "py_str_int (stream_id s)"
  have two: "py_split (n @ CHR '' '' # ?i) = [n, ?i]"
    using py_split_cons [OF n(3,4)] by (simp add: py_split_single)
  have three: "py_split (''system'' @ CHR '' '' # n @ CHR '' '' # ?i) = [''system'', n, ?i]"
    using py_split_cons [OF sys] two by simp
  show ?thesis
    using n two three
    by (cases s; cases "system s")
      (simp_all add: stream_str_def stream_of_string_def py_int0_str_int new_stream_def)
qed

lemma str_int_no_n: "CHR ''n'' \<notin> set (py_str_int k)"
proof -
  have "CHR ''n'' \<notin> set (py_str_nat m)" for m
    using py_str_nat_digits [of m] by (fastforce simp: list_all_iff digit_char_def dest: less_ten_cases)
  then show ?thesis by (simp add: py_str_int_def)
qed

lemma replace_node_str_int [simp]:
  "py_replace_empty ''node'' (py_str_int k) = py_str_int k"
  "py_replace_empty ''nodes'' (py_str_int k) = py_str_int k"
  using str_int_no_n by (simp_all add: py_replace_empty_absent)

lemma sel_string_single:
  assumes "stream_named s" "stream_str s = Inr t"
  shows "sel_of_string t = bind_res (stream_of_string t) sel_of_stream"
proof -
  obtain n where n: "TypeToString (stream_type s) = Some n"
    "(stream_type s, n) \<in> {(0, ''buffered''), (1, ''unbuffered''), (2, ''constant''), (3, ''input''),
       (4, ''counter''), (5, ''output'')}"
    using type_names assms(1) unfolding stream_named_def by metis
  let ?sys = "if system s then ''system '' else []"
  have t: "t = ?sys @ n @ '' '' @ py_str_int (stream_id s)"
    using assms(2) n by (auto simp: stream_str_def)
  have "py_replace_empty ''node'' t = t" "py_replace_empty ''nodes'' t = t"
    "\<not> py_startswith t ''all''"
    using n(2) unfolding t by (cases "system s"; auto simp: py_startswith_def)+
  then show ?thesis by (simp add: sel_of_string_def)
qed

lemma sel_string_roundtrip_single:
  assumes "sel_named s" "match_id s = Some i"
  shows "\<exists>t. sel_str s = Inr t \<and> sel_of_string t = Inr s"
proof -
  let ?st = "\<lparr>stream_type = match_type s, stream_id = i, system = (match_spec s = 1)\<rparr>"
  have named: "stream_named ?st" using assms by (simp add: sel_named_def stream_named_def)
  then obtain t where t: "stream_str ?st = Inr t" "stream_of_string t = Inr ?st"
    using stream_string_roundtrip by blast
  have "sel_str s = Inr t"
    using t(1) assms by (auto simp: stream_str_def sel_str_def split: option.splits if_splits)
  moreover have "sel_of_stream ?st = Inr s"
    using assms by (cases s) (auto simp: sel_of_stream_def new_selector_def ValidSpecifiers_def sel_named_def)
  ultimately show ?thesis
    using sel_string_single [OF named t(1)] t(2) by simp
qed

definition wildcard_ok :: "int \<Rightarrow> int \<Rightarrow> bool" where
  "wildcard_ok t spec =
     (let s = \<lparr>match_type = t, match_id = None, match_spec = spec\<rparr> in
      bind_res (sel_str s) sel_of_string = Inr s)"

lemma wildcard_ok_all: "list_all (\<lambda>t. list_all (wildcard_ok t) ValidSpecifiers) [0..6 - 1]"
  by code_simp

lemma sel_string_roundtrip:
  assumes "sel_named s"
  shows "\<exists>t. sel_str s = Inr t \<and> sel_of_string t = Inr s"
proof (cases "match_id s")
  case None
  have "wildcard_ok (match_type s) (match_spec s)"
    using int_range_all [OF wildcard_ok_all, of "match_type s"] assms
    by (simp add: sel_named_def list_all_iff)
  then show ?thesis
    using None by (cases s; cases "sel_str s") (auto simp: wildcard_ok_def Let_def)
next
  case (Some i)
  then show ?thesis using assms sel_string_roundtrip_single by blast
qed

section \<open>The four codecs\<close>

interpretation stream_bits: codec "\<lambda>s. Inr (stream_encode s)" "\<lambda>v. Inr (stream_of_encoded v)"
  stream_encodable
  by unfold_locales (auto simp: stream_decode_encode)

interpretation sel_bits: codec sel_encode sel_of_encoded sel_encodable
  by unfold_locales (auto simp: sel_decode_encode sel_encode_arith)

interpretation stream_text: codec stream_str stream_of_string stream_named
  by unfold_locales (use stream_string_roundtrip in fastforce)+

interpretation sel_text: codec sel_str sel_of_string sel_named
  by unfold_locales (use sel_string_roundtrip in fastforce)+

section \<open>Properties\<close>

text \<open>
  The 16-bit encoding of data streams is lossless in both directions.  Every stream with a type
  below 16 and an id below 2048 is recovered by \<open>FromEncoded\<close> from what \<open>encode\<close> produces, and
  every 16-bit integer is recovered by \<open>encode\<close> from the stream \<open>FromEncoded\<close> reads in it.
\<close>

theorem stream_encoding_roundtrip:
  "(stream_encodable s \<longrightarrow>
      stream_of_encoded (stream_encode s) = s \<and> stream_encode s \<in> {0..<65536}) \<and>
   (v \<in> {0..<65536} \<longrightarrow>
      stream_encode (stream_of_encoded v) = v \<and> stream_encodable (stream_of_encoded v))"
  using stream_decode_encode stream_encode_bounds stream_encode_decode stream_of_encoded_encodable
  by simp

theorem stream_encoding_roundtrip_witness:
  "stream_of_encoded (stream_encode \<lparr>stream_type = 5, stream_id = 1024, system = True\<rparr>)
     = \<lparr>stream_type = 5, stream_id = 1024, system = True\<rparr> \<and>
   stream_encode (stream_of_encoded 55295) = 55295"
  using stream_encoding_roundtrip [of "\<lparr>stream_type = 5, stream_id = 1024, system = True\<rparr>" 55295]
  by (simp add: stream_encodable_def)

text \<open>
  Decoding and encoding selectors.  Every 16-bit integer is read by
  \<open>DataStreamSelector.FromEncoded\<close>, and encoding the result gives the integer back, as the
  docstring of \<open>FromEncoded\<close> says; and every selector with a 3-bit type whose id is not the
  wildcard code is recovered from its encoding.
\<close>

theorem sel_encoding_roundtrip:
  "(v \<in> {0..<65536} \<longrightarrow> bind_res (sel_of_encoded v) sel_encode = Inr v) \<and>
   (sel_encodable s \<longrightarrow> bind_res (sel_encode s) sel_of_encoded = Inr s)"
  using sel_encode_decode sel_bits.roundtrip by simp

theorem sel_encoding_roundtrip_witness:
  "bind_res (sel_of_encoded 55295) sel_encode = Inr 55295 \<and>
   bind_res (sel_encode \<lparr>match_type = 5, match_id = None, match_spec = 2\<rparr>) sel_of_encoded
     = Inr \<lparr>match_type = 5, match_id = None, match_spec = 2\<rparr>"
  using sel_encoding_roundtrip [of 55295 "\<lparr>match_type = 5, match_id = None, match_spec = 2\<rparr>"]
  by (simp add: sel_encodable_def ValidSpecifiers_def)

text \<open>
  Printing and parsing.  A selector that has a textual form of its own (a wildcard with any
  specifier, or one stream selected as a system or a user stream) prints without an error, parsing
  the text gives the selector back, and two such selectors never share a text.  The text is the key
  under which \<open>SensorLog.dump\<close> stores the state of the selector's walker.
\<close>

theorem sel_text_roundtrip:
  assumes "sel_named s" "sel_named s'"
  shows "bind_res (sel_str s) sel_of_string = Inr s \<and> (sel_str s = sel_str s' \<longleftrightarrow> s = s')"
  using assms sel_text.roundtrip sel_text.inject by blast

theorem sel_text_roundtrip_witness:
  "bind_res (sel_str \<lparr>match_type = 5, match_id = None, match_spec = 1\<rparr>) sel_of_string
     = Inr \<lparr>match_type = 5, match_id = None, match_spec = 1\<rparr> \<and>
   sel_str \<lparr>match_type = 5, match_id = None, match_spec = 1\<rparr>
     \<noteq> sel_str \<lparr>match_type = 0, match_id = Some 10, match_spec = 3\<rparr>"
  using sel_text_roundtrip [of "\<lparr>match_type = 5, match_id = None, match_spec = 1\<rparr>"
      "\<lparr>match_type = 0, match_id = Some 10, match_spec = 3\<rparr>"]
  by (simp add: sel_named_def ValidSpecifiers_def)

text \<open>
  What a selector made from a stream matches.  The selector \<open>FromStream\<close> builds is accepted by
  the constructor, converts back to the same stream, and matches exactly the streams of the same
  type and id: the system flag, which the specifier of the selector records, plays no part, so the
  selector of a system stream also matches the user stream of the same number.
\<close>

theorem sel_of_stream_matches:
  "\<exists>sel. sel_of_stream s = Inr sel \<and> sel_as_stream sel = Inr s \<and>
     (\<forall>t. sel_matches sel t = (stream_type t = stream_type s \<and> stream_id t = stream_id s))"
  by (cases s) (auto simp: sel_of_stream_def new_selector_def ValidSpecifiers_def sel_as_stream_def
    sel_matches_def new_stream_def)

end
