(* ===== verification/Readings.thy ===== *)
theory Readings
  imports Prelude
begin

unbundle bit_operations_syntax

text \<open>
  Readings (class \<open>IOTileReading\<close> of \<open>iotile/core/hw/reports/report.py\<close>).  A point in time
  (\<open>datetime\<close>) is the number of microseconds since the reference date 2000-01-01 of the class;
  Python's limits on years are not modelled.
\<close>

type_synonym datetime = int

definition seconds :: "int \<Rightarrow> int" where
  "seconds n = n * 1000000"

abbreviation (input) InvalidReadingID :: int where "InvalidReadingID \<equiv> 0"
abbreviation (input) InvalidRawTime :: int where "InvalidRawTime \<equiv> 0xFFFFFFFF"
abbreviation (input) Y2KReference :: datetime where "Y2KReference \<equiv> 0"

record reading =
  raw_time :: int
  r_stream :: int
  r_value :: int
  reading_id :: int
  reading_time :: "datetime option"

definition try_assign_utc_time :: "int \<Rightarrow> datetime option \<Rightarrow> datetime option" where
  "try_assign_utc_time raw time_base =
     (if raw \<noteq> InvalidRawTime \<and> raw AND push_bit 31 1 \<noteq> 0
      then Some (Y2KReference + seconds (raw XOR push_bit 31 1))
      else case time_base of
        Some base \<Rightarrow> Some (base + seconds raw)
      | None \<Rightarrow> None)"

text \<open>\<open>IOTileReading(raw_time, stream, value, time_base, reading_id, reading_time)\<close>.\<close>

definition new_reading ::
  "int \<Rightarrow> int \<Rightarrow> int \<Rightarrow> datetime option \<Rightarrow> int option \<Rightarrow> datetime option \<Rightarrow> reading" where
  "new_reading raw strm val time_base rid rtime =
     \<lparr>raw_time = raw, r_stream = strm, r_value = val,
      reading_id = (case rid of None \<Rightarrow> InvalidReadingID | Some i \<Rightarrow> i),
      reading_time = (case rtime of Some t \<Rightarrow> Some t | None \<Rightarrow> try_assign_utc_time raw time_base)\<rparr>"

text \<open>\<open>__eq__\<close> does not compare the times assigned to the readings.\<close>

definition reading_eq :: "reading \<Rightarrow> reading \<Rightarrow> bool" where
  "reading_eq a b =
     (raw_time a = raw_time b \<and> r_stream a = r_stream b \<and> r_value a = r_value b \<and>
      reading_id a = reading_id b)"

text \<open>
  The dictionary of \<open>asdict\<close>.  Its time stamp is the text made by \<open>datetime.isoformat\<close>, which
  \<open>FromDict\<close> reads with the third-party \<open>dateutil\<close> parser: both are parameters.
\<close>

record reading_dict =
  d_stream :: int
  d_device_timestamp :: int
  d_streamer_local_id :: int
  d_timestamp :: "string option"
  d_value :: int

definition reading_asdict :: "(datetime \<Rightarrow> string) \<Rightarrow> reading \<Rightarrow> reading_dict" where
  "reading_asdict isoformat r =
     \<lparr>d_stream = r_stream r, d_device_timestamp = raw_time r, d_streamer_local_id = reading_id r,
      d_timestamp = map_option isoformat (reading_time r), d_value = r_value r\<rparr>"

definition reading_of_dict :: "(string \<Rightarrow> datetime) \<Rightarrow> reading_dict \<Rightarrow> reading" where
  "reading_of_dict parse d =
     new_reading (d_device_timestamp d) (d_stream d) (d_value d) None (Some (d_streamer_local_id d))
       (map_option parse (d_timestamp d))"

lemma reading_eq_refl [simp]: "reading_eq r r"
  by (simp add: reading_eq_def)

lemma reading_dict_roundtrip [simp]:
  "reading_eq (reading_of_dict parse (reading_asdict isof r)) r"
  by (simp add: reading_eq_def reading_of_dict_def reading_asdict_def new_reading_def)

lemma reading_dict_stream [simp]:
  "r_stream (reading_of_dict parse (reading_asdict isof r)) = r_stream r"
  "reading_id (reading_of_dict parse (reading_asdict isof r)) = reading_id r"
  by (simp_all add: reading_of_dict_def reading_asdict_def new_reading_def)

text \<open>
  The time stamp survives as well when it was set, or when the raw time carries no UTC marker.
\<close>

lemma reading_dict_roundtrip_exact:
  assumes "\<And>t. parse (isof t) = t"
    "reading_time r = None \<longrightarrow> try_assign_utc_time (raw_time r) None = None"
  shows "reading_of_dict parse (reading_asdict isof r) = r"
  using assms by (cases r; cases "reading_time r")
    (auto simp: reading_of_dict_def reading_asdict_def new_reading_def)

end
