(* ===== verification/Device_Model.thy ===== *)
theory Device_Model
  imports Prelude
begin

text \<open>
  The device model (\<open>iotile/sg/model.py\<close>): a table of named limits that is set up by the
  constructor and consulted by the storage engine, the sensor log, nodes and the graph.
\<close>

type_synonym device_model = "string \<Rightarrow> int option"

definition dm_add_property :: "device_model \<Rightarrow> string \<Rightarrow> int \<Rightarrow> device_model" where
  "dm_add_property m name v = m(name \<mapsto> v)"

definition new_device_model :: device_model where
  "new_device_model =
     foldl (\<lambda>m (name, v). dm_add_property m name v) Map.empty
       [(''max_node_inputs'', 2), (''max_node_outputs'', 4), (''max_root_nodes'', 8),
        (''max_streamers'', 8), (''max_nodes'', 32), (''max_storage_buffer'', 16128),
        (''max_streaming_buffer'', 48896), (''buffer_erase_size'', 256)]"

definition dm_set :: "device_model \<Rightarrow> string \<Rightarrow> int \<Rightarrow> device_model res" where
  "dm_set m name v = (if m name = None then Inl ArgumentError else Inr (m(name \<mapsto> v)))"

definition dm_get :: "device_model \<Rightarrow> string \<Rightarrow> int res" where
  "dm_get m name = (case m name of None \<Rightarrow> Inl ArgumentError | Some v \<Rightarrow> Inr v)"

lemma dm_get_set:
  "dm_set m name v = Inr m' \<Longrightarrow> dm_get m' k = (if k = name then Inr v else dm_get m k)"
  by (auto simp: dm_set_def dm_get_def split: if_splits)

lemma dm_set_dom: "dm_set m name v = Inr m' \<Longrightarrow> dom m' = dom m"
  by (auto simp: dm_set_def split: if_splits)

end
