(* ===== verification/Storage_Engine.thy ===== *)
theory Storage_Engine
  imports Streams Readings Device_Model
begin

text \<open>
  The in-memory storage engine (\<open>iotile/sg/engine/in_memory.py\<close>): two bounded buffers of readings,
  the storage area and the streaming area, addressed by offset from the oldest reading.
\<close>

section \<open>State and operations\<close>

record engine =
  storage_length :: int
  streaming_length :: int
  storage_data :: "reading list"
  streaming_data :: "reading list"

definition new_engine :: "device_model \<Rightarrow> engine res" where
  "new_engine model =
     bind_res (dm_get model ''max_storage_buffer'') (\<lambda>sl.
     bind_res (dm_get model ''max_streaming_buffer'') (\<lambda>st.
       Inr \<lparr>storage_length = sl, streaming_length = st, storage_data = [], streaming_data = []\<rparr>))"

record engine_dump =
  ed_storage :: "reading_dict list"
  ed_streaming :: "reading_dict list"

definition engine_dump :: "(datetime \<Rightarrow> string) \<Rightarrow> engine \<Rightarrow> engine_dump" where
  "engine_dump isof e =
     \<lparr>ed_storage = map (reading_asdict isof) (storage_data e),
      ed_streaming = map (reading_asdict isof) (streaming_data e)\<rparr>"

definition engine_restore ::
  "(string \<Rightarrow> datetime) \<Rightarrow> engine_dump \<Rightarrow> engine \<Rightarrow> (unit, engine) act" where
  "engine_restore parse d e =
     (if int (length (ed_storage d)) > storage_length e
         \<or> int (length (ed_streaming d)) > streaming_length e
      then (Inl ArgumentError, e)
      else (Inr (), e\<lparr>storage_data := map (reading_of_dict parse) (ed_storage d),
                       streaming_data := map (reading_of_dict parse) (ed_streaming d)\<rparr>))"

definition engine_count :: "engine \<Rightarrow> int \<times> int" where
  "engine_count e = (int (length (storage_data e)), int (length (streaming_data e)))"

fun count_loop :: "selector \<Rightarrow> reading list \<Rightarrow> int list \<Rightarrow> int \<Rightarrow> int res" where
  "count_loop sel data [] count = Inr count"
| "count_loop sel data (i # is) count =
     bind_res (py_nth data i) (\<lambda>reading.
       count_loop sel data is
         (if sel_matches sel (stream_of_encoded (r_stream reading)) then count + 1 else count))"

definition engine_count_matching :: "engine \<Rightarrow> selector \<Rightarrow> int \<Rightarrow> int res" where
  "engine_count_matching e sel offset =
     (if sel_output sel then
        count_loop sel (streaming_data e) [offset..int (length (streaming_data e)) - 1] 0
      else if sel_buffered sel then
        count_loop sel (storage_data e) [offset..int (length (storage_data e)) - 1] 0
      else Inl ArgumentError)"

text \<open>
  The callable of \<open>scan_storage\<close> is a step on the caller's variables; it answers whether it
  returned \<open>True\<close>, which stops the scan.
\<close>

fun scan_loop ::
  "reading list \<Rightarrow> (int \<Rightarrow> reading \<Rightarrow> 'v \<Rightarrow> bool \<times> 'v) \<Rightarrow> int list \<Rightarrow> int \<Rightarrow> 'v \<Rightarrow> (int, 'v) act" where
  "scan_loop data f [] scanned v = (Inr scanned, v)"
| "scan_loop data f (i # is) scanned v =
     (case py_nth data i of
        Inl err \<Rightarrow> (Inl err, v)
      | Inr reading \<Rightarrow>
          (case f i reading v of (should_break, v') \<Rightarrow>
             if should_break then (Inr (scanned + 1), v') else scan_loop data f is (scanned + 1) v'))"

definition engine_scan_storage ::
  "engine \<Rightarrow> string \<Rightarrow> (int \<Rightarrow> reading \<Rightarrow> 'v \<Rightarrow> bool \<times> 'v) \<Rightarrow> int \<Rightarrow> int option \<Rightarrow> 'v \<Rightarrow> (int, 'v) act" where
  "engine_scan_storage e area_name f start stop v =
     (if area_name \<noteq> ''storage'' \<and> area_name \<noteq> ''streaming'' then (Inl ArgumentError, v)
      else
        let data = (if area_name = ''storage'' then storage_data e else streaming_data e);
            n = int (length data)
        in if n = 0 then (Inr 0, v)
           else case stop of
             None \<Rightarrow> scan_loop data f [start..n - 1] 0 v
           | Some s \<Rightarrow> if s \<ge> n then (Inl ArgumentError, v) else scan_loop data f [start..s] 0 v)"

definition engine_clear :: "engine \<Rightarrow> engine" where
  "engine_clear e = e\<lparr>storage_data := [], streaming_data := []\<rparr>"

definition engine_push :: "reading \<Rightarrow> engine \<Rightarrow> (unit, engine) act" where
  "engine_push value e =
     (if stream_type (stream_of_encoded (r_stream value)) = OutputType then
        (if int (length (streaming_data e)) = streaming_length e then (Inl StorageFullError, e)
         else (Inr (), e\<lparr>streaming_data := streaming_data e @ [value]\<rparr>))
      else
        (if int (length (storage_data e)) = storage_length e then (Inl StorageFullError, e)
         else (Inr (), e\<lparr>storage_data := storage_data e @ [value]\<rparr>)))"

definition engine_area :: "engine \<Rightarrow> string \<Rightarrow> reading list" where
  "engine_area e buffer_type =
     (if buffer_type = ''streaming'' then streaming_data e else storage_data e)"

definition engine_get :: "engine \<Rightarrow> string \<Rightarrow> int \<Rightarrow> reading res" where
  "engine_get e buffer_type offset =
     (let chosen = engine_area e buffer_type in
      if offset \<ge> int (length chosen) then Inl StreamEmptyError else py_nth chosen offset)"

definition engine_popn :: "string \<Rightarrow> int \<Rightarrow> engine \<Rightarrow> (reading list, engine) act" where
  "engine_popn buffer_type count e =
     (let chosen = engine_area e buffer_type in
      if count > int (length chosen) then (Inl StreamEmptyError, e)
      else
        let popped = py_slice_to chosen count; remaining = py_slice_from chosen count
        in (Inr popped,
            if buffer_type = ''streaming'' then e\<lparr>streaming_data := remaining\<rparr>
            else e\<lparr>storage_data := remaining\<rparr>))"

section \<open>Counting and scanning\<close>

definition matching :: "selector \<Rightarrow> reading list \<Rightarrow> reading list" where
  "matching sel data = filter (\<lambda>r. sel_matches sel (stream_of_encoded (r_stream r))) data"

lemma matching_simps [simp]:
  "matching sel [] = []"
  "matching sel (xs @ ys) = matching sel xs @ matching sel ys"
  "matching sel (r # rs) = (if sel_matches sel (stream_of_encoded (r_stream r))
     then r # matching sel rs else matching sel rs)"
  by (simp_all add: matching_def)

lemma upto_from_nat: "n < m \<Longrightarrow> [int n..int m - 1] = int n # [int (Suc n)..int m - 1]"
  by (simp add: upto_rec1 add.commute)

lemma upto_past: "m \<le> n \<Longrightarrow> [int n..int m - 1] = []"
  by simp

lemma count_loop_matching:
  "count_loop sel data [int n..int (length data) - 1] c
     = Inr (c + int (length (matching sel (drop n data))))"
proof (induction "length data - n" arbitrary: n c)
  case 0
  then show ?case by (simp add: upto_past)
next
  case (Suc k)
  then have n: "n < length data" by simp
  have "drop n data = data ! n # drop (Suc n) data" using n by (simp add: Cons_nth_drop_Suc)
  with Suc(1) [of "Suc n"] Suc(2) n show ?case
    by (simp add: upto_from_nat py_nth_Inr)
qed

lemma engine_count_matching_eq:
  assumes "sel_buffered sel"
  shows "engine_count_matching e sel (int n) = Inr (int (length (matching sel
    (drop n (if sel_output sel then streaming_data e else storage_data e)))))"
  using assms count_loop_matching [of sel "streaming_data e" n 0]
    count_loop_matching [of sel "storage_data e" n 0]
  by (simp add: engine_count_matching_def)

section \<open>The areas as bounded queues\<close>

text \<open>
  The contract a sensor log relies on for each area: a push appends unless the area is full, and
  \<open>popn\<close> takes the oldest readings.  In ring-buffer mode a push into a full area first makes room;
  \<open>ring_push\<close> is that sequence of calls.
\<close>

locale bounded_queue =
  fixes contents :: "'e \<Rightarrow> 'a list"
    and capacity :: "'e \<Rightarrow> int"
    and accepts :: "'a \<Rightarrow> bool"
    and push :: "'a \<Rightarrow> 'e \<Rightarrow> (unit, 'e) act"
    and popn :: "int \<Rightarrow> 'e \<Rightarrow> ('a list, 'e) act"
  assumes push_room: "accepts x \<Longrightarrow> int (length (contents e)) \<noteq> capacity e \<Longrightarrow>
      \<exists>e'. push x e = (Inr (), e') \<and> contents e' = contents e @ [x] \<and> capacity e' = capacity e"
    and push_full: "accepts x \<Longrightarrow> int (length (contents e)) = capacity e \<Longrightarrow>
      push x e = (Inl StorageFullError, e)"
    and popn_oldest: "0 \<le> n \<Longrightarrow> n \<le> int (length (contents e)) \<Longrightarrow>
      \<exists>e'. popn n e = (Inr (take (nat n) (contents e)), e') \<and>
        contents e' = drop (nat n) (contents e) \<and> capacity e' = capacity e"
    and popn_short: "int (length (contents e)) < n \<Longrightarrow> popn n e = (Inl StreamEmptyError, e)"
begin

lemma push_iff_room: "accepts x \<Longrightarrow>
    fst (push x e) = Inr () \<longleftrightarrow> int (length (contents e)) \<noteq> capacity e"
  using push_room push_full by fastforce

lemma push_bounded:
  assumes "accepts x" "int (length (contents e)) \<le> capacity e" "push x e = (r, e')"
  shows "int (length (contents e')) \<le> capacity e' \<and> capacity e' = capacity e"
proof (cases "int (length (contents e)) = capacity e")
  case True
  then show ?thesis using assms push_full by fastforce
next
  case False
  then show ?thesis using assms push_room [OF assms(1) False] by auto
qed

text \<open>Erasing and pushing again keeps the newest readings, in order.\<close>

lemma ring_push:
  assumes "accepts x" "0 < n" "n \<le> int (length (contents e))"
    "int (length (contents e)) = capacity e"
  shows "\<exists>e'. bind_act (popn n e) (\<lambda>_. push x) = (Inr (), e') \<and>
    contents e' = drop (nat n) (contents e) @ [x] \<and> capacity e' = capacity e"
proof -
  obtain e1 where e1: "popn n e = (Inr (take (nat n) (contents e)), e1)"
    "contents e1 = drop (nat n) (contents e)" "capacity e1 = capacity e"
    using popn_oldest [of n e] assms by auto
  then have "int (length (contents e1)) \<noteq> capacity e1" using assms by simp
  then obtain e2 where "push x e1 = (Inr (), e2)" "contents e2 = contents e1 @ [x]"
    "capacity e2 = capacity e1"
    using push_room assms(1) by blast
  with e1 show ?thesis by simp
qed

end

definition is_output_reading :: "reading \<Rightarrow> bool" where
  "is_output_reading r = (stream_type (stream_of_encoded (r_stream r)) = OutputType)"

interpretation storage_area: bounded_queue storage_data storage_length
  "\<lambda>r. \<not> is_output_reading r" engine_push "engine_popn ''storage''"
  by unfold_locales
    (auto simp: engine_push_def engine_popn_def engine_area_def is_output_reading_def py_slice_nonneg
      Let_def)

interpretation streaming_area: bounded_queue streaming_data streaming_length
  is_output_reading engine_push "engine_popn ''streaming''"
  by unfold_locales
    (auto simp: engine_push_def engine_popn_def engine_area_def is_output_reading_def py_slice_nonneg
      Let_def)

text \<open>The two areas do not disturb each other.\<close>

lemma engine_push_frame:
  "is_output_reading r \<Longrightarrow> storage_data (snd (engine_push r e)) = storage_data e"
  "\<not> is_output_reading r \<Longrightarrow> streaming_data (snd (engine_push r e)) = streaming_data e"
  by (auto simp: engine_push_def is_output_reading_def)

lemma engine_popn_frame:
  "storage_data (snd (engine_popn ''streaming'' n e)) = storage_data e"
  "streaming_data (snd (engine_popn ''storage'' n e)) = streaming_data e"
  by (auto simp: engine_popn_def Let_def)

section \<open>Capacity invariant\<close>

definition engine_ok :: "engine \<Rightarrow> bool" where
  "engine_ok e \<longleftrightarrow> int (length (storage_data e)) \<le> storage_length e \<and>
     int (length (streaming_data e)) \<le> streaming_length e"

lemma engine_push_ok: "engine_ok e \<Longrightarrow> engine_push r e = (x, e') \<Longrightarrow> engine_ok e'"
  by (auto simp: engine_push_def engine_ok_def split: if_splits)

lemma engine_popn_ok: "engine_ok e \<Longrightarrow> engine_popn b n e = (x, e') \<Longrightarrow> engine_ok e'"
  by (auto simp: engine_popn_def engine_ok_def engine_area_def py_slice_from_def Let_def
    split: if_splits)

lemma engine_restore_ok: "engine_ok e \<Longrightarrow> engine_restore parse d e = (x, e') \<Longrightarrow> engine_ok e'"
  by (auto simp: engine_restore_def engine_ok_def split: if_splits)

end
