(* ===== verification/Walkers.thy ===== *)
theory Walkers
  imports Storage_Engine
begin

text \<open>
  Stream walkers (\<open>iotile/sg/walker.py\<close>): the cursors through which nodes and streamers read the
  streams.  The four classes are the constructors of one datatype; a buffered walker reads the
  storage engine, which is passed to its operations.
\<close>

section \<open>Serialized walkers\<close>

text \<open>
  The dictionaries made by the \<open>dump\<close> methods and read by \<open>restore\<close> with \<open>dict.get\<close>: a missing
  key reads as \<open>None\<close>.
\<close>

record walker_dump =
  wd_selector :: "string option"
  wd_offset :: "int option"
  wd_reading :: "reading_dict option"
  wd_count :: "int option"
  wd_type :: "string option"

definition sel_of_dumped :: "string option \<Rightarrow> selector res" where
  "sel_of_dumped t = sel_of_string (case t of None \<Rightarrow> ''None'' | Some s \<Rightarrow> s)"

section \<open>Buffered walkers\<close>

record buffered_walker =
  bw_selector :: selector
  bw_offset :: int
  bw_count :: int
  bw_storage_type :: string

definition bw_new :: "selector \<Rightarrow> engine \<Rightarrow> bool \<Rightarrow> buffered_walker res" where
  "bw_new sel e skip_all =
     (case engine_count e of (storage, streaming) \<Rightarrow>
        bind_res (if skip_all then Inr 0 else engine_count_matching e sel 0) (\<lambda>count.
          if sel_output sel then
            Inr \<lparr>bw_selector = sel, bw_offset = (if skip_all then streaming else 0),
                 bw_count = count, bw_storage_type = ''streaming''\<rparr>
          else
            Inr \<lparr>bw_selector = sel, bw_offset = (if skip_all then storage else 0),
                 bw_count = count, bw_storage_type = ''storage''\<rparr>))"

definition bw_dump :: "buffered_walker \<Rightarrow> walker_dump res" where
  "bw_dump w = bind_res (sel_str (bw_selector w)) (\<lambda>s.
     Inr \<lparr>wd_selector = Some s, wd_offset = Some (bw_offset w), wd_reading = None,
          wd_count = None, wd_type = None\<rparr>)"

definition reads :: "selector \<Rightarrow> reading \<Rightarrow> bool" where
  "reads sel r = sel_matches sel (stream_of_encoded (r_stream r))"

text \<open>
  The loop of \<open>pop\<close>: the engine is read at the offset, which moves past every reading that was
  read, until a reading of the selector comes up or the engine raises.
\<close>

function pop_loop :: "selector \<Rightarrow> engine \<Rightarrow> string \<Rightarrow> int \<Rightarrow> (reading, int) act" where
  "pop_loop sel e area offset =
     (case engine_get e area offset of
        Inl err \<Rightarrow> (Inl err, offset)
      | Inr cur \<Rightarrow>
          if reads sel cur then (Inr cur, offset + 1) else pop_loop sel e area (offset + 1))"
  by pat_completeness auto
termination
  by (relation "measure (\<lambda>(sel, e, area, offset). nat (int (length (engine_area e area)) - offset))")
    (auto simp: engine_get_def Let_def split: if_splits)

declare pop_loop.simps [simp del]

definition bw_pop :: "engine \<Rightarrow> buffered_walker \<Rightarrow> (reading, buffered_walker) act" where
  "bw_pop e w =
     (if bw_count w = 0 then (Inl StreamEmptyError, w)
      else case pop_loop (bw_selector w) e (bw_storage_type w) (bw_offset w) of
        (Inl err, off) \<Rightarrow> (Inl err, w\<lparr>bw_offset := off\<rparr>)
      | (Inr cur, off) \<Rightarrow> (Inr cur, w\<lparr>bw_offset := off, bw_count := bw_count w - 1\<rparr>))"

definition bw_peek :: "engine \<Rightarrow> buffered_walker \<Rightarrow> reading res" where
  "bw_peek e w =
     (if bw_count w = 0 then Inl StreamEmptyError
      else fst (pop_loop (bw_selector w) e (bw_storage_type w) (bw_offset w)))"

text \<open>The closure \<open>_id_searcher\<close> of \<open>_find_id\<close>, on its shared variable.\<close>

definition id_searcher :: "int \<Rightarrow> int \<Rightarrow> reading \<Rightarrow> int option \<Rightarrow> bool \<times> int option" where
  "id_searcher rid i reading shared =
     (if reading_id reading = rid then (True, Some i) else (False, shared))"

definition bw_find_id :: "engine \<Rightarrow> string \<Rightarrow> int \<Rightarrow> int res" where
  "bw_find_id e area rid =
     (case engine_scan_storage e area (id_searcher rid) 0 None None of
        (Inl err, shared) \<Rightarrow> Inl err
      | (Inr scanned, None) \<Rightarrow> Inl UnresolvedIdentifierError
      | (Inr scanned, Some found_offset) \<Rightarrow> Inr found_offset)"

definition bw_verify_offset :: "engine \<Rightarrow> int \<Rightarrow> buffered_walker \<Rightarrow> (unit, buffered_walker) act" where
  "bw_verify_offset e offset w =
     (case engine_count e of (storage_count, streaming_count) \<Rightarrow>
        let count = (if bw_storage_type w = ''streaming'' then streaming_count else storage_count)
        in if offset \<ge> count then (Inl UnresolvedIdentifierError, w)
           else (Inr (), w\<lparr>bw_offset := offset\<rparr>))"

text \<open>What \<open>seek\<close> does after it has set the offset: recount, then inspect the reading there.\<close>

definition bw_resync :: "engine \<Rightarrow> buffered_walker \<Rightarrow> (bool, buffered_walker) act" where
  "bw_resync e w =
     (case engine_count_matching e (bw_selector w) (bw_offset w) of
        Inl err \<Rightarrow> (Inl err, w)
      | Inr c \<Rightarrow>
          (case engine_get e (bw_storage_type w) (bw_offset w) of
             Inl err \<Rightarrow> (Inl err, w\<lparr>bw_count := c\<rparr>)
           | Inr cur \<Rightarrow> (Inr (reads (bw_selector w) cur), w\<lparr>bw_count := c\<rparr>)))"

definition bw_seek :: "engine \<Rightarrow> int \<Rightarrow> string \<Rightarrow> buffered_walker \<Rightarrow> (bool, buffered_walker) act" where
  "bw_seek e value target w =
     (if target \<noteq> ''offset'' \<and> target \<noteq> ''id'' then (Inl ArgumentError, w)
      else if target = ''offset'' then
        bind_act (bw_verify_offset e value w) (\<lambda>_ w. bw_resync e (w\<lparr>bw_offset := value\<rparr>))
      else (case bw_find_id e (bw_storage_type w) value of
              Inl err \<Rightarrow> (Inl err, w)
            | Inr off \<Rightarrow> bw_resync e (w\<lparr>bw_offset := off\<rparr>)))"

definition bw_restore :: "engine \<Rightarrow> walker_dump \<Rightarrow> buffered_walker \<Rightarrow> (unit, buffered_walker) act" where
  "bw_restore e state w =
     (case sel_of_dumped (wd_selector state) of
        Inl err \<Rightarrow> (Inl err, w)
      | Inr sel \<Rightarrow>
          if sel \<noteq> bw_selector w then (Inl ArgumentError, w)
          else (case wd_offset state of
            None \<Rightarrow> (Inl PyTypeError, w)
          | Some off \<Rightarrow>
              (case bw_seek e off ''offset'' w of
                 (Inl err, w') \<Rightarrow> (Inl err, w') | (Inr _, w') \<Rightarrow> (Inr (), w'))))"

definition bw_skip_all :: "engine \<Rightarrow> buffered_walker \<Rightarrow> buffered_walker" where
  "bw_skip_all e w =
     (case engine_count e of (storage, streaming) \<Rightarrow>
        w\<lparr>bw_offset := (if sel_output (bw_selector w) then streaming else storage), bw_count := 0\<rparr>)"

definition bw_notify_added :: "data_stream \<Rightarrow> buffered_walker \<Rightarrow> buffered_walker" where
  "bw_notify_added s w =
     (if \<not> sel_matches (bw_selector w) s then w else w\<lparr>bw_count := bw_count w + 1\<rparr>)"

definition bw_notify_rollover :: "data_stream \<Rightarrow> buffered_walker \<Rightarrow> (unit, buffered_walker) act" where
  "bw_notify_rollover s w0 =
     (let w = w0\<lparr>bw_offset := bw_offset w0 - 1\<rparr> in
      if \<not> sel_matches (bw_selector w) s then (Inr (), w)
      else if bw_count w = 0 then (Inl InternalError, w)
      else (Inr (), w\<lparr>bw_count := bw_count w - 1\<rparr>))"

section \<open>Virtual walkers\<close>

record virtual_walker =
  vw_selector :: selector
  vw_reading :: "reading option"

definition vw_new :: "selector \<Rightarrow> virtual_walker res" where
  "vw_new sel =
     (if match_id sel = None then Inl ArgumentError
      else Inr \<lparr>vw_selector = sel, vw_reading = None\<rparr>)"

definition vw_dump :: "(datetime \<Rightarrow> string) \<Rightarrow> virtual_walker \<Rightarrow> walker_dump res" where
  "vw_dump isof w = bind_res (sel_str (vw_selector w)) (\<lambda>s.
     Inr \<lparr>wd_selector = Some s, wd_offset = None,
          wd_reading = map_option (reading_asdict isof) (vw_reading w),
          wd_count = None, wd_type = None\<rparr>)"

definition vw_restore ::
  "(string \<Rightarrow> datetime) \<Rightarrow> walker_dump \<Rightarrow> virtual_walker \<Rightarrow> (unit, virtual_walker) act" where
  "vw_restore parse state w =
     (let reading = map_option (reading_of_dict parse) (wd_reading state) in
      case sel_of_dumped (wd_selector state) of
        Inl err \<Rightarrow> (Inl err, w)
      | Inr sel \<Rightarrow>
          if vw_selector w \<noteq> sel then (Inl ArgumentError, w)
          else (Inr (), w\<lparr>vw_reading := reading\<rparr>))"

definition vw_push :: "data_stream \<Rightarrow> reading \<Rightarrow> virtual_walker \<Rightarrow> (unit, virtual_walker) act" where
  "vw_push s value w =
     (if \<not> sel_matches (vw_selector w) s then (Inl ArgumentError, w)
      else (Inr (), w\<lparr>vw_reading := Some value\<rparr>))"

definition vw_iter :: "virtual_walker \<Rightarrow> reading list" where
  "vw_iter w = (case vw_reading w of None \<Rightarrow> [] | Some r \<Rightarrow> [r])"

definition vw_count :: "virtual_walker \<Rightarrow> int" where
  "vw_count w =
     (if match_type (vw_selector w) = ConstantType then 0xFFFFFFFF
      else if vw_reading w = None then 0 else 1)"

definition vw_pop :: "virtual_walker \<Rightarrow> (reading, virtual_walker) act" where
  "vw_pop w =
     (case vw_reading w of
        None \<Rightarrow> (Inl StreamEmptyError, w)
      | Some r \<Rightarrow>
          (Inr r, if match_type (vw_selector w) \<noteq> ConstantType then w\<lparr>vw_reading := None\<rparr> else w))"

definition vw_peek :: "virtual_walker \<Rightarrow> reading res" where
  "vw_peek w = (case vw_reading w of None \<Rightarrow> Inl StreamEmptyError | Some r \<Rightarrow> Inr r)"

definition vw_skip_all :: "virtual_walker \<Rightarrow> virtual_walker" where
  "vw_skip_all w =
     (if match_type (vw_selector w) = ConstantType then w else w\<lparr>vw_reading := None\<rparr>)"

section \<open>Counter walkers\<close>

record counter_walker =
  cw_selector :: selector
  cw_reading :: "reading option"
  cw_count :: int

definition cw_new :: "selector \<Rightarrow> counter_walker res" where
  "cw_new sel =
     (if match_id sel = None then Inl ArgumentError
      else Inr \<lparr>cw_selector = sel, cw_reading = None, cw_count = 0\<rparr>)"

definition cw_dump :: "(datetime \<Rightarrow> string) \<Rightarrow> counter_walker \<Rightarrow> walker_dump res" where
  "cw_dump isof w = bind_res (sel_str (cw_selector w)) (\<lambda>s.
     Inr \<lparr>wd_selector = Some s, wd_offset = None,
          wd_reading = map_option (reading_asdict isof) (cw_reading w),
          wd_count = Some (cw_count w), wd_type = None\<rparr>)"

text \<open>
  \<open>restore\<close> takes the dumped count as it is.  A dump without a count, which \<open>dump\<close> never makes,
  would leave \<open>None\<close> in the walker; the model raises instead.
\<close>

definition cw_restore ::
  "(string \<Rightarrow> datetime) \<Rightarrow> walker_dump \<Rightarrow> counter_walker \<Rightarrow> (unit, counter_walker) act" where
  "cw_restore parse state w =
     (let reading = map_option (reading_of_dict parse) (wd_reading state) in
      case sel_of_dumped (wd_selector state) of
        Inl err \<Rightarrow> (Inl err, w)
      | Inr sel \<Rightarrow>
          if cw_selector w \<noteq> sel then (Inl ArgumentError, w)
          else (case wd_count state of
                  None \<Rightarrow> (Inl PyTypeError, w)
                | Some c \<Rightarrow> (Inr (), w\<lparr>cw_reading := reading, cw_count := c\<rparr>)))"

definition cw_push :: "data_stream \<Rightarrow> reading \<Rightarrow> counter_walker \<Rightarrow> (unit, counter_walker) act" where
  "cw_push s value w =
     (if \<not> sel_matches (cw_selector w) s then (Inl ArgumentError, w)
      else (Inr (), w\<lparr>cw_reading := Some value, cw_count := cw_count w + 1\<rparr>))"

text \<open>
  \<open>pop\<close> returns the attribute \<open>reading\<close>, which is set whenever the count is positive
  (\<open>walker_ok\<close> below); the model raises where Python would return \<open>None\<close>.
\<close>

definition cw_pop :: "counter_walker \<Rightarrow> (reading, counter_walker) act" where
  "cw_pop w =
     (if cw_count w = 0 then (Inl StreamEmptyError, w)
      else let w' = w\<lparr>cw_count := cw_count w - 1\<rparr> in
        case cw_reading w of None \<Rightarrow> (Inl AttributeError, w') | Some r \<Rightarrow> (Inr r, w'))"

text \<open>\<open>iter\<close> yields the reading once per count, under the same invariant.\<close>

definition cw_iter :: "counter_walker \<Rightarrow> reading list" where
  "cw_iter w = (case cw_reading w of None \<Rightarrow> [] | Some r \<Rightarrow> replicate (nat (cw_count w)) r)"

definition cw_peek :: "counter_walker \<Rightarrow> reading res" where
  "cw_peek w = (case cw_reading w of None \<Rightarrow> Inl StreamEmptyError | Some r \<Rightarrow> Inr r)"

definition cw_skip_all :: "counter_walker \<Rightarrow> counter_walker" where
  "cw_skip_all w = w\<lparr>cw_count := 0\<rparr>"

section \<open>Invalid walkers\<close>

text \<open>An unconnected input of a node holds an invalid walker whose selector is \<open>None\<close>.\<close>

definition iw_selector_str :: "selector option \<Rightarrow> string res" where
  "iw_selector_str sel = (case sel of None \<Rightarrow> Inr ''None'' | Some s \<Rightarrow> sel_str s)"

definition iw_dump :: "selector option \<Rightarrow> walker_dump res" where
  "iw_dump sel = bind_res (iw_selector_str sel) (\<lambda>s.
     Inr \<lparr>wd_selector = Some s, wd_offset = None, wd_reading = None, wd_count = None,
          wd_type = Some ''invalid''\<rparr>)"

definition iw_restore :: "walker_dump \<Rightarrow> selector option \<Rightarrow> unit res" where
  "iw_restore state sel =
     bind_res (sel_of_dumped (wd_selector state)) (\<lambda>s.
       if sel \<noteq> Some s then Inl ArgumentError
       else if wd_type state \<noteq> Some ''invalid'' then Inl ArgumentError
       else Inr ())"

section \<open>The walker interface\<close>

datatype walker =
    Buffered buffered_walker
  | Virtual virtual_walker
  | Counter counter_walker
  | Invalid "selector option"

fun walker_selector :: "walker \<Rightarrow> selector option" where
  "walker_selector (Buffered w) = Some (bw_selector w)"
| "walker_selector (Virtual w) = Some (vw_selector w)"
| "walker_selector (Counter w) = Some (cw_selector w)"
| "walker_selector (Invalid sel) = sel"

fun walker_matches :: "walker \<Rightarrow> data_stream \<Rightarrow> bool" where
  "walker_matches (Invalid sel) s = False"
| "walker_matches w s = (case walker_selector w of None \<Rightarrow> False | Some sel \<Rightarrow> sel_matches sel s)"

definition walker_buffered :: "walker \<Rightarrow> bool res" where
  "walker_buffered w =
     (case walker_selector w of None \<Rightarrow> Inl AttributeError | Some sel \<Rightarrow> Inr (sel_buffered sel))"

fun walker_count :: "walker \<Rightarrow> int" where
  "walker_count (Buffered w) = bw_count w"
| "walker_count (Virtual w) = vw_count w"
| "walker_count (Counter w) = cw_count w"
| "walker_count (Invalid sel) = 0"

definition map_state :: "('s \<Rightarrow> 't) \<Rightarrow> ('a, 's) act \<Rightarrow> ('a, 't) act" where
  "map_state f x = (fst x, f (snd x))"

lemma map_state_simp [simp]: "map_state f (r, s) = (r, f s)"
  by (simp add: map_state_def)

fun walker_pop :: "engine \<Rightarrow> walker \<Rightarrow> (reading, walker) act" where
  "walker_pop e (Buffered w) = map_state Buffered (bw_pop e w)"
| "walker_pop e (Virtual w) = map_state Virtual (vw_pop w)"
| "walker_pop e (Counter w) = map_state Counter (cw_pop w)"
| "walker_pop e (Invalid sel) = (Inl StreamEmptyError, Invalid sel)"

fun walker_peek :: "engine \<Rightarrow> walker \<Rightarrow> reading res" where
  "walker_peek e (Buffered w) = bw_peek e w"
| "walker_peek e (Virtual w) = vw_peek w"
| "walker_peek e (Counter w) = cw_peek w"
| "walker_peek e (Invalid sel) = Inl StreamEmptyError"

fun walker_skip_all :: "engine \<Rightarrow> walker \<Rightarrow> walker" where
  "walker_skip_all e (Buffered w) = Buffered (bw_skip_all e w)"
| "walker_skip_all e (Virtual w) = Virtual (vw_skip_all w)"
| "walker_skip_all e (Counter w) = Counter (cw_skip_all w)"
| "walker_skip_all e (Invalid sel) = Invalid sel"

text \<open>A buffered walker has no method \<open>push\<close>.\<close>

fun walker_push :: "data_stream \<Rightarrow> reading \<Rightarrow> walker \<Rightarrow> (unit, walker) act" where
  "walker_push s value (Buffered w) = (Inl AttributeError, Buffered w)"
| "walker_push s value (Virtual w) = map_state Virtual (vw_push s value w)"
| "walker_push s value (Counter w) = map_state Counter (cw_push s value w)"
| "walker_push s value (Invalid sel) = (Inl ArgumentError, Invalid sel)"

fun dump_walker :: "(datetime \<Rightarrow> string) \<Rightarrow> walker \<Rightarrow> walker_dump res" where
 "dump_walker isof (Buffered w) = bw_dump w"
| "dump_walker isof (Virtual w) = vw_dump isof w"
| "dump_walker isof (Counter w) = cw_dump isof w"
| "dump_walker isof (Invalid sel) = iw_dump sel"

fun restore_walker_state ::
  "(string \<Rightarrow> datetime) \<Rightarrow> engine \<Rightarrow> walker_dump \<Rightarrow> walker \<Rightarrow> (unit, walker) act" where
  "restore_walker_state parse e state (Buffered w) = map_state Buffered (bw_restore e state w)"
| "restore_walker_state parse e state (Virtual w) = map_state Virtual (vw_restore parse state w)"
| "restore_walker_state parse e state (Counter w) = map_state Counter (cw_restore parse state w)"
| "restore_walker_state parse e state (Invalid sel) = (iw_restore state sel, Invalid sel)"

section \<open>Reading through a cursor\<close>

text \<open>
  The contract of a cursor whose readings run readings: \<open>contents\<close> is what is still to be read, \<open>count\<close>
  its number, and \<open>pop\<close> takes the first.  The node functions and the streamers use walkers through
  this interface.
\<close>

locale reader =
  fixes count :: "'s \<Rightarrow> int"
    and pop :: "'s \<Rightarrow> ('a, 's) act"
    and contents :: "'s \<Rightarrow> 'a list"
    and ok :: "'s \<Rightarrow> bool"
  assumes count_contents: "ok s \<Longrightarrow> count s = int (length (contents s))"
    and pop_next: "ok s \<Longrightarrow> contents s = r # rs \<Longrightarrow>
      \<exists>s'. pop s = (Inr r, s') \<and> contents s' = rs \<and> ok s'"
    and pop_empty: "ok s \<Longrightarrow> contents s = [] \<Longrightarrow> pop s = (Inl StreamEmptyError, s)"

text \<open>The loop \<open>while walker.count() > 0: output.append(walker.pop())\<close>; it may never return.\<close>

partial_function (option) drain ::
  "('s \<Rightarrow> int) \<Rightarrow> ('s \<Rightarrow> ('a, 's) act) \<Rightarrow> 's \<Rightarrow> 'a list \<Rightarrow> ('a list, 's) act option" where
  "drain count pop s readings =
     (if count s > 0 then
        (case pop s of
           (Inl err, s') \<Rightarrow> Some (Inl err, s')
         | (Inr r, s') \<Rightarrow> drain count pop s' (readings @ [r]))
      else Some (Inr readings, s))"

context reader
begin

lemma drain_all:
  assumes "ok s"
  shows "\<exists>s'. drain count pop s readings = Some (Inr (readings @ contents s), s') \<and>
    contents s' = [] \<and> ok s'"
  using assms
proof (induction "contents s" arbitrary: s readings)
  case Nil
  then have "count s = 0" using count_contents by simp
  with Nil show ?case by (subst drain.simps) simp
next
  case (Cons r rs)
  obtain s' where s': "pop s = (Inr r, s')" "contents s' = rs" "ok s'"
    using pop_next Cons by metis
  then obtain s'' where "drain count pop s' (readings @ [r]) = Some (Inr ((readings @ [r]) @ contents s'), s'')"
    "contents s'' = []" "ok s''"
    using Cons.hyps(1) by blast
  moreover have "count s > 0" using count_contents Cons.hyps(2) Cons.prems by (metis length_greater_0_conv list.discI of_nat_0_less_iff)
  ultimately show ?case
    using s' Cons.hyps(2) by (subst drain.simps) simp
qed

end

text \<open>A cursor that never runs readings keeps the loop running for ever.\<close>

lemma drain_returns_imp:
  assumes "drain cnt pop s readings = Some y"
  shows "\<not> (cnt s > 0 \<and> pop s = (Inr r, s))"
proof (rule drain.raw_induct [where P = "\<lambda>cnt pop s readings y. \<not> (cnt s > 0 \<and> pop s = (Inr r, s))", OF _ assms])
  fix d and cnt :: "'s \<Rightarrow> int" and pop :: "'s \<Rightarrow> ('a, 's) act" and s readings y
  assume IH: "\<And>cnt pop s readings y. d cnt pop s readings = Some y \<Longrightarrow> \<not> (cnt s > 0 \<and> pop s = (Inr r, s))"
    and eq: "(if 0 < cnt s
        then (case pop s of (Inl err, s') \<Rightarrow> Some (Inl err, s')
              | (Inr r, s') \<Rightarrow> d cnt pop s' (readings @ [r]))
        else Some (Inr readings, s)) = Some y"
  show "\<not> (cnt s > 0 \<and> pop s = (Inr r, s))"
  proof
    assume h: "cnt s > 0 \<and> pop s = (Inr r, s)"
    with eq have "d cnt pop s (readings @ [r]) = Some y" by simp
    from IH [OF this] h show False by simp
  qed
qed

lemma drain_diverges:
  assumes "cnt s > 0" "pop s = (Inr r, s)"
  shows "drain cnt pop s readings = None"
proof (cases "drain cnt pop s readings")
  case (Some y)
  with drain_returns_imp [OF Some, of r] assms show ?thesis by simp
qed

section \<open>Buffered walkers in step with the engine\<close>

text \<open>
  What a buffered walker promises: its offset lies inside its area or just past it, and its count is
  the number of selected readings from there on.  \<open>bw_contents\<close> are these readings, the abstract
  queue behind the walker.
\<close>

definition area_of :: "selector \<Rightarrow> string" where
  "area_of sel = (if sel_output sel then ''streaming'' else ''storage'')"

definition bw_contents :: "engine \<Rightarrow> buffered_walker \<Rightarrow> reading list" where
  "bw_contents e w =
     matching (bw_selector w) (drop (nat (bw_offset w)) (engine_area e (bw_storage_type w)))"

definition bw_ok :: "engine \<Rightarrow> buffered_walker \<Rightarrow> bool" where
  "bw_ok e w \<longleftrightarrow> sel_buffered (bw_selector w) \<and> bw_storage_type w = area_of (bw_selector w) \<and>
     0 \<le> bw_offset w \<and> bw_offset w \<le> int (length (engine_area e (bw_storage_type w))) \<and>
     bw_count w = int (length (bw_contents e w))"

lemma engine_get_in:
  assumes "n < length (engine_area e area)"
  shows "engine_get e area (int n) = Inr (engine_area e area ! n)"
  using assms by (simp add: engine_get_def py_nth_Inr)

lemma engine_get_end:
  assumes "length (engine_area e area) \<le> n"
  shows "engine_get e area (int n) = Inl StreamEmptyError"
  using assms by (simp add: engine_get_def Let_def)

lemma matching_reads: "matching sel data = filter (reads sel) data"
  by (simp add: matching_def reads_def [abs_def])

lemma pop_loop_next:
  assumes "n \<le> length (engine_area e area)"
    "matching sel (drop n (engine_area e area)) = r # rs"
  shows "\<exists>m. pop_loop sel e area (int n) = (Inr r, int m) \<and> n < m \<and>
    m \<le> length (engine_area e area) \<and> matching sel (drop m (engine_area e area)) = rs"
  using assms
proof (induction "length (engine_area e area) - n" arbitrary: n)
  case 0
  then show ?case by simp
next
  case (Suc k)
  let ?xs = "engine_area e area"
  have n: "n < length ?xs" using Suc(2) by simp
  have d: "drop n ?xs = ?xs ! n # drop (Suc n) ?xs" using n by (simp add: Cons_nth_drop_Suc)
  show ?case
  proof (cases "reads sel (?xs ! n)")
    case True
    have eq: "pop_loop sel e area (int n) = (Inr (?xs ! n), int n + 1)"
      using True n by (subst pop_loop.simps) (simp add: engine_get_in)
    have "int n + 1 = int (Suc n)" by simp
    then show ?thesis using True Suc.prems d n eq
      by (intro exI [of _ "Suc n"]) (auto simp: matching_reads)
  next
    case False
    have eq: "pop_loop sel e area (int n) = pop_loop sel e area (int (Suc n))"
      using False n by (subst pop_loop.simps) (simp add: engine_get_in add.commute)
    have "matching sel (drop (Suc n) ?xs) = r # rs"
      using Suc.prems(2) d False by (simp add: matching_reads)
    then show ?thesis using Suc(1) [of "Suc n"] Suc(2) n eq by fastforce
  qed
qed

lemma bw_pop_next:
  assumes "bw_ok e w" "bw_contents e w = r # rs"
  shows "\<exists>w'. bw_pop e w = (Inr r, w') \<and> bw_contents e w' = rs \<and> bw_ok e w' \<and>
    bw_selector w' = bw_selector w"
proof -
  obtain n where n: "bw_offset w = int n" "n \<le> length (engine_area e (bw_storage_type w))"
    using assms(1) unfolding bw_ok_def by (metis of_nat_le_iff zero_le_imp_eq_int)
  obtain m where m: "pop_loop (bw_selector w) e (bw_storage_type w) (bw_offset w) = (Inr r, int m)"
    "m \<le> length (engine_area e (bw_storage_type w))"
    "matching (bw_selector w) (drop m (engine_area e (bw_storage_type w))) = rs"
    using pop_loop_next [OF n(2)] assms(2) n(1) by (fastforce simp: bw_contents_def)
  then show ?thesis
    using assms by (auto simp: bw_pop_def bw_ok_def bw_contents_def)
qed

lemma bw_pop_empty:
  "bw_ok e w \<Longrightarrow> bw_contents e w = [] \<Longrightarrow> bw_pop e w = (Inl StreamEmptyError, w)"
  by (simp add: bw_pop_def bw_ok_def)

lemma bw_peek_next:
  assumes "bw_ok e w" "bw_contents e w = r # rs"
  shows "bw_peek e w = Inr r"
  using bw_pop_next [OF assms] assms
  by (auto simp: bw_pop_def bw_peek_def split: if_splits prod.splits sum.splits)

interpretation buffered_reader: reader bw_count "bw_pop e" "bw_contents e" "bw_ok e" for e
  by unfold_locales (simp add: bw_ok_def, use bw_pop_next in blast, rule bw_pop_empty)

section \<open>The operations keep a buffered walker in step\<close>

lemma bw_new_ok:
  assumes "sel_buffered sel"
  shows "\<exists>w. bw_new sel e skip = Inr w \<and> bw_ok e w \<and> bw_selector w = sel \<and>
    bw_contents e w = (if skip then [] else matching sel (engine_area e (area_of sel)))"
  using assms engine_count_matching_eq [OF assms, of e 0]
  by (auto simp: bw_new_def engine_count_def bw_ok_def bw_contents_def area_of_def engine_area_def)

lemma bw_skip_all_ok:
  assumes "sel_buffered (bw_selector w)" "bw_storage_type w = area_of (bw_selector w)"
  shows "bw_ok e (bw_skip_all e w) \<and> bw_contents e (bw_skip_all e w) = [] \<and>
    bw_selector (bw_skip_all e w) = bw_selector w"
  using assms by (auto simp: bw_skip_all_def engine_count_def bw_ok_def bw_contents_def area_of_def
    engine_area_def)

lemma bw_resync_ok:
  assumes "sel_buffered (bw_selector w)" "bw_storage_type w = area_of (bw_selector w)"
    "bw_offset w = int n" "n < length (engine_area e (bw_storage_type w))"
  shows "\<exists>w'. bw_resync e w = (Inr (reads (bw_selector w) (engine_area e (bw_storage_type w) ! n)), w')
    \<and> bw_ok e w' \<and> bw_selector w' = bw_selector w \<and> bw_offset w' = bw_offset w"
proof -
  have area: "engine_area e (bw_storage_type w) =
      (if sel_output (bw_selector w) then streaming_data e else storage_data e)"
    using assms(2) by (simp add: area_of_def engine_area_def)
  show ?thesis
    using assms engine_count_matching_eq [OF assms(1), of e n]
    by (simp add: bw_resync_def engine_get_in bw_ok_def bw_contents_def area [symmetric])
qed

lemma bw_seek_offset_ok:
  assumes "bw_ok e w" "0 \<le> v"
  shows "bw_seek e v ''offset'' w =
      (if v < int (length (engine_area e (bw_storage_type w)))
       then (Inr (reads (bw_selector w) (engine_area e (bw_storage_type w) ! nat v)),
             snd (bw_resync e (w\<lparr>bw_offset := v\<rparr>)))
       else (Inl UnresolvedIdentifierError, w))
    \<and> bw_ok e (snd (bw_seek e v ''offset'' w))"
proof (cases "v < int (length (engine_area e (bw_storage_type w)))")
  case True
  define w1 where "w1 = w\<lparr>bw_offset := v\<rparr>"
  have w1: "sel_buffered (bw_selector w1)" "bw_storage_type w1 = area_of (bw_selector w1)"
    "bw_offset w1 = int (nat v)" "nat v < length (engine_area e (bw_storage_type w1))"
    "bw_selector w1 = bw_selector w" "bw_storage_type w1 = bw_storage_type w"
    using assms True by (auto simp: w1_def bw_ok_def)
  obtain w' where w': "bw_resync e w1 =
      (Inr (reads (bw_selector w) (engine_area e (bw_storage_type w) ! nat v)), w')" "bw_ok e w'"
    using bw_resync_ok [OF w1(1-4)] w1(5,6) by auto
  have "bw_verify_offset e v w = (Inr (), w1)"
    using True by (auto simp: bw_verify_offset_def engine_count_def engine_area_def w1_def Let_def)
  then show ?thesis
    using True w' by (simp add: bw_seek_def w1_def)
next
  case False
  then show ?thesis
    using assms by (auto simp: bw_seek_def bw_verify_offset_def engine_count_def engine_area_def Let_def
      bw_ok_def)
qed

text \<open>Searching a reading by id finds its first occurrence in the area.\<close>

fun first_with_id :: "int \<Rightarrow> reading list \<Rightarrow> nat option" where
  "first_with_id rid [] = None"
| "first_with_id rid (r # rs) =
     (if reading_id r = rid then Some 0 else map_option Suc (first_with_id rid rs))"

lemma first_with_id_bound: "first_with_id rid data = Some n \<Longrightarrow> n < length data"
  by (induction data arbitrary: n) (auto split: if_splits)

lemma first_with_id_Some_iff:
  "first_with_id rid data = Some n \<longleftrightarrow>
   n < length data \<and> reading_id (data ! n) = rid \<and> (\<forall>m<n. reading_id (data ! m) \<noteq> rid)"
proof (induction data arbitrary: n)
  case Nil
  then show ?case by simp
next
  case (Cons r rs)
  then show ?case by (cases n) (auto simp: All_less_Suc2)
qed

lemma first_with_id_None_iff:
  "first_with_id rid data = None \<longleftrightarrow> (\<forall>r \<in> set data. reading_id r \<noteq> rid)"
  by (induction data) auto

lemma scan_find:
  "\<exists>k. scan_loop data (id_searcher rid) [int n..int (length data) - 1] c None =
    (Inr k, map_option (\<lambda>m. int n + int m) (first_with_id rid (drop n data)))"
proof (induction "length data - n" arbitrary: n c)
  case 0
  then show ?case by (simp add: upto_past)
next
  case (Suc k)
  then have n: "n < length data" by simp
  have d: "drop n data = data ! n # drop (Suc n) data" using n by (simp add: Cons_nth_drop_Suc)
  show ?case
  proof (cases "reading_id (data ! n) = rid")
    case True
    then show ?thesis using n d by (simp add: upto_from_nat py_nth_Inr id_searcher_def)
  next
    case False
    obtain k' where "scan_loop data (id_searcher rid) [int (Suc n)..int (length data) - 1] (c + 1) None =
      (Inr k', map_option (\<lambda>m. int (Suc n) + int m) (first_with_id rid (drop (Suc n) data)))"
      using Suc(1) [of "Suc n" "c + 1"] Suc(2) by fastforce
    then show ?thesis using n False d
      by (simp add: upto_from_nat py_nth_Inr id_searcher_def option.map_comp o_def ac_simps)
  qed
qed

lemma bw_find_id_first:
  assumes "area = ''storage'' \<or> area = ''streaming''"
  shows "bw_find_id e area rid =
    (case first_with_id rid (engine_area e area) of
       None \<Rightarrow> Inl UnresolvedIdentifierError | Some n \<Rightarrow> Inr (int n))"
proof (cases "engine_area e area = []")
  case True
  then show ?thesis using assms
    by (auto simp: bw_find_id_def engine_scan_storage_def engine_area_def)
next
  case False
  obtain k where "scan_loop (engine_area e area)
      (id_searcher rid)
      [0..int (length (engine_area e area)) - 1] 0 None =
      (Inr k, map_option int (first_with_id rid (engine_area e area)))"
    using scan_find [of "engine_area e area" rid 0 0] by auto
  then show ?thesis using assms False
    by (auto simp: bw_find_id_def engine_scan_storage_def engine_area_def Let_def split: option.splits)
qed

lemma area_of_names: "area_of sel = ''storage'' \<or> area_of sel = ''streaming''"
  by (simp add: area_of_def)

lemma bw_seek_id_ok:
  assumes "bw_ok e w"
  shows "(case first_with_id rid (engine_area e (bw_storage_type w)) of
      None \<Rightarrow> bw_seek e rid ''id'' w = (Inl UnresolvedIdentifierError, w)
    | Some n \<Rightarrow> \<exists>w'. bw_seek e rid ''id'' w =
        (Inr (reads (bw_selector w) (engine_area e (bw_storage_type w) ! n)), w') \<and>
        bw_ok e w' \<and> bw_selector w' = bw_selector w \<and> bw_offset w' = int n)"
proof (cases "first_with_id rid (engine_area e (bw_storage_type w))")
  case None
  then show ?thesis using assms area_of_names [of "bw_selector w"]
    by (simp add: bw_seek_def bw_find_id_first bw_ok_def)
next
  case (Some n)
  define w1 where "w1 = w\<lparr>bw_offset := int n\<rparr>"
  have "\<exists>w'. bw_resync e w1 = (Inr (reads (bw_selector w1) (engine_area e (bw_storage_type w1) ! n)), w')
    \<and> bw_ok e w' \<and> bw_selector w' = bw_selector w1 \<and> bw_offset w' = bw_offset w1"
    using assms first_with_id_bound [OF Some] by (intro bw_resync_ok) (auto simp: w1_def bw_ok_def)
  then show ?thesis using assms Some area_of_names [of "bw_selector w"]
    by (simp add: bw_seek_def bw_find_id_first bw_ok_def w1_def)
qed

section \<open>New and overwritten readings\<close>

lemma bw_notify_added_ok:
  assumes "bw_ok e w" "engine_area e' (bw_storage_type w) = engine_area e (bw_storage_type w) @ [r]"
  shows "bw_ok e' (bw_notify_added (stream_of_encoded (r_stream r)) w) \<and>
    bw_contents e' (bw_notify_added (stream_of_encoded (r_stream r)) w) =
      bw_contents e w @ matching (bw_selector w) [r]"
proof -
  let ?n = "nat (bw_offset w)"
  have "?n \<le> length (engine_area e (bw_storage_type w))" using assms(1) unfolding bw_ok_def nat_le_iff by blast
  then have "drop ?n (engine_area e' (bw_storage_type w)) =
      drop ?n (engine_area e (bw_storage_type w)) @ [r]"
    using assms(2) by simp
  then show ?thesis using assms
    by (auto simp: bw_ok_def bw_contents_def bw_notify_added_def)
qed

text \<open>
  The notifications for a batch of overwritten readings: the offset moves down by their number, and
  every selected one is taken off the count, whether or not it had been read already.
\<close>

fun bw_rollover_all :: "reading list \<Rightarrow> buffered_walker \<Rightarrow> (unit, buffered_walker) act" where
  "bw_rollover_all [] w = (Inr (), w)"
| "bw_rollover_all (r # rs) w =
     bind_act (bw_notify_rollover (stream_of_encoded (r_stream r)) w) (\<lambda>_. bw_rollover_all rs)"

lemma bw_rollover_all_ok:
  assumes "int (length (matching (bw_selector w) rs)) \<le> bw_count w"
  shows "bw_rollover_all rs w =
    (Inr (), w\<lparr>bw_offset := bw_offset w - int (length rs),
               bw_count := bw_count w - int (length (matching (bw_selector w) rs))\<rparr>)"
  using assms
proof (induction rs arbitrary: w)
  case Nil
  then show ?case by simp
next
  case (Cons r rs)
  show ?case
  proof (cases "sel_matches (bw_selector w) (stream_of_encoded (r_stream r))")
    case True
    then show ?thesis using Cons by (simp add: bw_notify_rollover_def Let_def)
  next
    case False
    then show ?thesis using Cons by (simp add: bw_notify_rollover_def Let_def)
  qed
qed

lemma bw_rollover_all_raises:
  assumes "0 \<le> bw_count w" "bw_count w < int (length (matching (bw_selector w) rs))"
  shows "fst (bw_rollover_all rs w) = Inl InternalError"
  using assms
proof (induction rs arbitrary: w)
  case Nil
  then show ?case by simp
next
  case (Cons r rs)
  then show ?case
    by (cases "bw_count w = 0") (auto simp: bw_notify_rollover_def Let_def)
qed

section \<open>All walkers as cursors\<close>

fun walker_contents :: "engine \<Rightarrow> walker \<Rightarrow> reading list" where
  "walker_contents e (Buffered w) = bw_contents e w"
| "walker_contents e (Virtual w) = vw_iter w"
| "walker_contents e (Counter w) = cw_iter w"
| "walker_contents e (Invalid sel) = []"

text \<open>The invariant of the walkers of each class.\<close>

fun walker_ok :: "engine \<Rightarrow> walker \<Rightarrow> bool" where
  "walker_ok e (Buffered w) = bw_ok e w"
| "walker_ok e (Virtual w) = (match_id (vw_selector w) \<noteq> None)"
| "walker_ok e (Counter w) = (match_id (cw_selector w) \<noteq> None \<and> 0 \<le> cw_count w \<and>
     (0 < cw_count w \<longrightarrow> cw_reading w \<noteq> None))"
| "walker_ok e (Invalid sel) = True"

text \<open>A constant stream can be read any number of times; every other walker runs out.\<close>

definition walker_finite :: "walker \<Rightarrow> bool" where
  "walker_finite w = (case w of Virtual v \<Rightarrow> match_type (vw_selector v) \<noteq> ConstantType | _ \<Rightarrow> True)"

lemma cw_iter_pop:
  assumes "walker_ok e (Counter w)" "cw_iter w = r # rs"
  shows "\<exists>w'. cw_pop w = (Inr r, w') \<and> cw_iter w' = rs \<and> walker_ok e (Counter w')"
proof -
  obtain x where x: "cw_reading w = Some x" using assms(2) by (auto simp: cw_iter_def split: option.splits)
  then obtain k where k: "nat (cw_count w) = Suc k" using assms by (cases "nat (cw_count w)") (auto simp: cw_iter_def)
  then have "nat (cw_count w - 1) = k" "cw_count w \<noteq> 0" "r = x" "rs = replicate k x"
    using assms x by (auto simp: cw_iter_def)
  then show ?thesis using assms x k by (auto simp: cw_pop_def cw_iter_def)
qed

lemma cw_iter_count: "walker_ok e (Counter w) \<Longrightarrow> cw_count w = int (length (cw_iter w))"
  by (auto simp: cw_iter_def split: option.splits)

lemma walker_pop_next:
  assumes "walker_ok e w" "walker_finite w" "walker_contents e w = r # rs"
  shows "\<exists>w'. walker_pop e w = (Inr r, w') \<and> walker_contents e w' = rs \<and> walker_ok e w' \<and>
    walker_finite w' \<and> walker_selector w' = walker_selector w"
proof (cases w)
  case (Buffered b)
  then show ?thesis using assms bw_pop_next [of e b r rs] by (auto simp: walker_finite_def)
next
  case (Virtual v)
  then show ?thesis using assms
    by (auto simp: vw_iter_def vw_pop_def walker_finite_def split: option.splits)
next
  case (Counter c)
  then obtain c' where "cw_pop c = (Inr r, c')" "cw_iter c' = rs" "walker_ok e (Counter c')"
    using assms cw_iter_pop [of e c r rs] by auto
  moreover from this have "cw_selector c' = cw_selector c"
    by (auto simp: cw_pop_def Let_def split: if_splits option.splits)
  ultimately show ?thesis using Counter by (auto simp: walker_finite_def)
qed (use assms in simp)

lemma walker_pop_empty:
  assumes "walker_ok e w" "walker_finite w" "walker_contents e w = []"
  shows "walker_pop e w = (Inl StreamEmptyError, w)"
proof (cases w)
  case (Virtual v)
  then show ?thesis using assms by (auto simp: vw_iter_def vw_pop_def split: option.splits)
next
  case (Counter c)
  with assms(1) have "cw_count c = int (length (cw_iter c))" by (intro cw_iter_count) blast
  then have "cw_count c = 0" using Counter assms(3) by simp
  then show ?thesis using Counter by (simp add: cw_pop_def)
next
  case (Buffered b)
  then show ?thesis using assms bw_pop_empty [of e b] by simp
qed simp

lemma walker_count_contents:
  assumes "walker_ok e w" "walker_finite w"
  shows "walker_count w = int (length (walker_contents e w))"
proof (cases w)
  case (Counter c)
  with assms(1) have "cw_count c = int (length (cw_iter c))" by (intro cw_iter_count) blast
  then show ?thesis using Counter by simp
qed (use assms in \<open>auto simp: bw_ok_def vw_count_def vw_iter_def walker_finite_def split: option.splits\<close>)

interpretation walker_reader: reader walker_count "walker_pop e" "walker_contents e"
  "\<lambda>w. walker_ok e w \<and> walker_finite w" for e
  by unfold_locales
    (use walker_count_contents in blast, use walker_pop_next in blast, use walker_pop_empty in blast)

text \<open>Peeking shows the reading that \<open>pop\<close> would take.\<close>

lemma walker_peek_next:
  assumes "walker_ok e w" "walker_finite w" "walker_contents e w = r # rs"
  shows "walker_peek e w = Inr r"
proof (cases w)
  case (Buffered b)
  then show ?thesis using assms bw_peek_next by simp
next
  case (Virtual v)
  then show ?thesis using assms by (auto simp: vw_iter_def vw_peek_def split: option.splits)
next
  case (Counter c)
  then obtain x where x: "cw_reading c = Some x" "replicate (nat (cw_count c)) x = r # rs"
    using assms by (auto simp: cw_iter_def split: option.splits)
  then have "x = r" by (cases "nat (cw_count c)") auto
  then show ?thesis using x Counter by (simp add: cw_peek_def)
qed (use assms in simp)

lemma walker_skip_all_ok:
  assumes "walker_ok e w"
  shows "walker_ok e (walker_skip_all e w)"
    "walker_finite w \<Longrightarrow> walker_contents e (walker_skip_all e w) = []"
    "walker_selector (walker_skip_all e w) = walker_selector w"
  using assms bw_skip_all_ok
  by (cases w; auto simp: vw_skip_all_def vw_iter_def cw_skip_all_def cw_iter_def walker_finite_def
      bw_ok_def bw_skip_all_def engine_count_def split: option.splits)+

lemma walker_pop_ok:
  assumes "walker_ok e w"
  shows "walker_ok e (snd (walker_pop e w)) \<and>
    walker_selector (snd (walker_pop e w)) = walker_selector w"
proof (cases "walker_finite w")
  case True
  then show ?thesis
    using assms walker_pop_next walker_pop_empty by (cases "walker_contents e w") fastforce+
next
  case False
  then show ?thesis using assms
    by (cases w) (auto simp: walker_finite_def vw_pop_def split: option.splits)
qed

section \<open>Saving and restoring a walker\<close>

lemma bw_restore_dump:
  assumes "bw_ok e w" "sel_named (bw_selector w)" "bw_dump w = Inr d"
    "bw_selector w0 = bw_selector w" "bw_storage_type w0 = bw_storage_type w"
  shows "bw_restore e d w0 =
    (if bw_offset w < int (length (engine_area e (bw_storage_type w))) then (Inr (), w)
     else (Inl UnresolvedIdentifierError, w0))"
proof -
  let ?area = "engine_area e (bw_storage_type w)"
  have sel: "sel_of_dumped (wd_selector d) = Inr (bw_selector w)" and off: "wd_offset d = Some (bw_offset w)"
    using assms(3) sel_text.roundtrip [OF assms(2)]
    by (auto simp: bw_dump_def sel_of_dumped_def bind_res_Inr_iff)
  show ?thesis
  proof (cases "bw_offset w < int (length ?area)")
    case True
    define w1 where "w1 = w0\<lparr>bw_offset := bw_offset w\<rparr>"
    have w1: "sel_buffered (bw_selector w1)" "bw_storage_type w1 = area_of (bw_selector w1)"
      "bw_offset w1 = int (nat (bw_offset w))" "nat (bw_offset w) < length (engine_area e (bw_storage_type w1))"
      using assms True by (auto simp: w1_def bw_ok_def)
    obtain b w' where w': "bw_resync e w1 = (Inr b, w')" "bw_ok e w'" "bw_selector w' = bw_selector w1"
      "bw_offset w' = bw_offset w1"
      using bw_resync_ok [OF w1] by blast
    then have "w' = w" using assms(1,4)
      by (cases w; cases w') (simp add: bw_ok_def bw_contents_def w1_def)
    moreover have "bw_verify_offset e (bw_offset w) w0 = (Inr (), w1)"
      using True assms(5) by (auto simp: bw_verify_offset_def engine_count_def engine_area_def w1_def Let_def)
    ultimately show ?thesis
      using True w' sel off assms(4) by (simp add: bw_restore_def bw_seek_def w1_def)
  next
    case False
    then have "bw_verify_offset e (bw_offset w) w0 = (Inl UnresolvedIdentifierError, w0)"
      using assms(5) by (auto simp: bw_verify_offset_def engine_count_def engine_area_def Let_def)
    then show ?thesis using False sel off assms(4) by (simp add: bw_restore_def bw_seek_def)
  qed
qed

lemma vw_restore_dump:
  assumes "sel_named (vw_selector w)" "vw_dump isof w = Inr d" "vw_selector w0 = vw_selector w"
  shows "vw_restore parse d w0 =
    (Inr (), w0\<lparr>vw_reading := map_option (\<lambda>r. reading_of_dict parse (reading_asdict isof r)) (vw_reading w)\<rparr>)"
  using assms sel_text.roundtrip [OF assms(1)]
  by (auto simp: vw_dump_def vw_restore_def sel_of_dumped_def bind_res_Inr_iff option.map_comp o_def)

lemma cw_restore_dump:
  assumes "sel_named (cw_selector w)" "cw_dump isof w = Inr d" "cw_selector w0 = cw_selector w"
  shows "cw_restore parse d w0 =
    (Inr (), w0\<lparr>cw_reading := map_option (\<lambda>r. reading_of_dict parse (reading_asdict isof r)) (cw_reading w),
               cw_count := cw_count w\<rparr>)"
  using assms sel_text.roundtrip [OF assms(1)]
  by (auto simp: cw_dump_def cw_restore_def sel_of_dumped_def bind_res_Inr_iff option.map_comp o_def)

section \<open>Properties\<close>

text \<open>
  C14: a walker is a first-in first-out cursor.  In a walker of any class that satisfies the walker
  invariant, other than one on a constant stream, \<open>count\<close> is the number of readings still to be read;
  if there are none \<open>pop\<close> raises \<open>StreamEmptyError\<close> and changes nothing; otherwise \<open>pop\<close> and \<open>peek\<close>
  give the oldest one, \<open>pop\<close> removes exactly it and keeps the invariant.  For a buffered walker the
  readings to come are the selected readings of its storage area from its offset on.
\<close>

theorem walker_fifo:
  assumes "walker_ok e w" "walker_finite w"
  shows "walker_count w = int (length (walker_contents e w)) \<and>
    (case walker_contents e w of
       [] \<Rightarrow> walker_pop e w = (Inl StreamEmptyError, w)
     | r # rs \<Rightarrow> walker_peek e w = Inr r \<and>
         (\<exists>w'. walker_pop e w = (Inr r, w') \<and> walker_contents e w' = rs \<and> walker_ok e w' \<and>
            walker_finite w'))"
proof (cases "walker_contents e w")
  case Nil
  then show ?thesis using assms walker_count_contents walker_pop_empty by simp
next
  case (Cons r rs)
  then show ?thesis
    using walker_count_contents [OF assms] walker_pop_next [OF assms Cons]
      walker_peek_next [OF assms Cons] by auto
qed

definition sample_reading :: "int \<Rightarrow> int \<Rightarrow> int \<Rightarrow> reading" where
  "sample_reading strm val rid = new_reading 0 strm val None (Some rid) None"

definition sample_engine :: engine where
  "sample_engine = \<lparr>storage_length = 4, streaming_length = 4,
     storage_data = [sample_reading 1 10 1, sample_reading 2 20 2, sample_reading 1 30 3],
     streaming_data = []\<rparr>"

definition sample_walker :: "int \<Rightarrow> int \<Rightarrow> buffered_walker" where
  "sample_walker off cnt = \<lparr>bw_selector = \<lparr>match_type = 0, match_id = Some 1, match_spec = 3\<rparr>,
     bw_offset = off, bw_count = cnt, bw_storage_type = ''storage''\<rparr>"

lemmas sample_defs = sample_reading_def sample_engine_def sample_walker_def new_reading_def
  bw_ok_def bw_contents_def area_of_def engine_area_def sel_defs sel_matches_def
  stream_of_encoded_arith matching_def walker_finite_def

lemma sample_walker_ok: "bw_ok sample_engine (sample_walker 1 1)"
  by (simp add: sample_defs)

theorem walker_fifo_witness:
  "walker_ok sample_engine (Buffered (sample_walker 1 1)) \<and>
   walker_peek sample_engine (Buffered (sample_walker 1 1)) = Inr (sample_reading 1 30 3)"
proof -
  have ok: "walker_ok sample_engine (Buffered (sample_walker 1 1))"
    using sample_walker_ok by simp
  have c: "walker_contents sample_engine (Buffered (sample_walker 1 1)) = [sample_reading 1 30 3]"
    by (simp add: sample_defs)
  show ?thesis
    using walker_fifo [OF ok] ok unfolding c by (simp add: walker_finite_def)
qed

text \<open>
  Seeking a reading by its id.  If no reading of the walker's area carries the id, \<open>seek\<close> raises
  \<open>UnresolvedIdentifierError\<close> and leaves the walker alone.  Otherwise the walker stands at the first
  reading with that id, the answer says whether the walker selects this very reading, and the count
  agrees with the new position.
\<close>

theorem bw_seek_id:
  assumes "bw_ok e w"
  shows "(if \<exists>r \<in> set (engine_area e (bw_storage_type w)). reading_id r = rid
      then \<exists>n w'. n < length (engine_area e (bw_storage_type w)) \<and>
        reading_id (engine_area e (bw_storage_type w) ! n) = rid \<and>
        (\<forall>m<n. reading_id (engine_area e (bw_storage_type w) ! m) \<noteq> rid) \<and>
        bw_seek e rid ''id'' w =
          (Inr (reads (bw_selector w) (engine_area e (bw_storage_type w) ! n)), w') \<and>
        bw_ok e w' \<and> bw_offset w' = int n \<and> bw_selector w' = bw_selector w
      else bw_seek e rid ''id'' w = (Inl UnresolvedIdentifierError, w))"
proof (cases "first_with_id rid (engine_area e (bw_storage_type w))")
  case None
  then have "\<not> (\<exists>r \<in> set (engine_area e (bw_storage_type w)). reading_id r = rid)"
    by (simp add: first_with_id_None_iff)
  then show ?thesis using bw_seek_id_ok [OF assms, of rid] None by simp
next
  case (Some n)
  then have n: "n < length (engine_area e (bw_storage_type w))"
    "reading_id (engine_area e (bw_storage_type w) ! n) = rid"
    "\<forall>m<n. reading_id (engine_area e (bw_storage_type w) ! m) \<noteq> rid"
    by (simp_all add: first_with_id_Some_iff)
  then have ex: "\<exists>r \<in> set (engine_area e (bw_storage_type w)). reading_id r = rid"
    using nth_mem by blast
  show ?thesis using bw_seek_id_ok [OF assms, of rid] Some n unfolding if_P [OF ex] by auto
qed

theorem bw_seek_id_witness:
  "\<exists>w'. bw_seek sample_engine 2 ''id'' (sample_walker 3 0) = (Inr False, w') \<and> bw_offset w' = 1"
proof -
  have ok: "bw_ok sample_engine (sample_walker 3 0)" by (simp add: sample_defs)
  have area: "engine_area sample_engine (bw_storage_type (sample_walker 3 0)) =
      [sample_reading 1 10 1, sample_reading 2 20 2, sample_reading 1 30 3]"
    by (simp add: sample_walker_def sample_engine_def engine_area_def)
  have ids: "reading_id (sample_reading a b c) = c" for a b c
    by (simp add: sample_reading_def new_reading_def)
  obtain n w' where n: "n < 3" "reading_id ([sample_reading 1 10 1, sample_reading 2 20 2, sample_reading 1 30 3] ! n) = 2"
    "bw_seek sample_engine 2 ''id'' (sample_walker 3 0) = (Inr (reads (bw_selector (sample_walker 3 0))
      ([sample_reading 1 10 1, sample_reading 2 20 2, sample_reading 1 30 3] ! n)), w')"
    "bw_offset w' = int n"
    using bw_seek_id [OF ok, of 2] unfolding area by (auto simp: ids)
  have "n = 1" using n(1,2) by (auto simp: less_Suc_eq numeral_3_eq_3 ids)
  then have "reads (bw_selector (sample_walker 3 0))
      ([sample_reading 1 10 1, sample_reading 2 20 2, sample_reading 1 30 3] ! n) = False"
    by (simp add: reads_def sample_defs)
  then show ?thesis using n \<open>n = 1\<close> by auto
qed

text \<open>
  Restoring a saved buffered walker.  For a walker in step with the engine, restoring its own
  dump (into any walker of the same selector) gives exactly the saved walker, provided its offset
  lies inside its area.  If the offset is past the last reading, which is where a new walker and a
  walker that has read everything stand, \<open>restore\<close> raises \<open>UnresolvedIdentifierError\<close>.
\<close>

theorem bw_dump_restore:
  assumes "bw_ok e w" "sel_named (bw_selector w)" "bw_dump w = Inr d"
    "bw_selector w0 = bw_selector w" "bw_storage_type w0 = bw_storage_type w"
  shows "bw_restore e d w0 =
    (if bw_offset w < int (length (engine_area e (bw_storage_type w))) then (Inr (), w)
     else (Inl UnresolvedIdentifierError, w0))"
  using assms by (rule bw_restore_dump)

theorem bw_dump_restore_witness:
  "\<exists>d d'. bw_dump (sample_walker 1 1) = Inr d \<and>
     bw_restore sample_engine d (sample_walker 3 0) = (Inr (), sample_walker 1 1) \<and>
     bw_dump (sample_walker 3 0) = Inr d' \<and>
     fst (bw_restore sample_engine d' (sample_walker 3 0)) = Inl UnresolvedIdentifierError"
proof -
  have ok: "bw_ok sample_engine (sample_walker 1 1)" "bw_ok sample_engine (sample_walker 3 0)"
    by (simp_all add: sample_defs)
  have named: "sel_named (bw_selector (sample_walker a b))" for a b
    by (simp add: sample_walker_def sel_named_def ValidSpecifiers_def)
  have "\<exists>d. bw_dump (sample_walker a b) = Inr d" for a b
    using sel_text.total [OF named, of a b] by (auto simp: bw_dump_def)
  then obtain d d' where d: "bw_dump (sample_walker 1 1) = Inr d" "bw_dump (sample_walker 3 0) = Inr d'"
    by meson
  have same: "bw_selector (sample_walker a b) = bw_selector (sample_walker a' b')"
    "bw_storage_type (sample_walker a b) = bw_storage_type (sample_walker a' b')" for a b a' b'
    by (simp_all add: sample_walker_def)
  show ?thesis
    using bw_dump_restore [OF ok(1) named d(1) same] bw_dump_restore [OF ok(2) named d(2) same] d
    by (simp add: sample_walker_def sample_engine_def engine_area_def)
qed

end
