(* ===== verification/Sensor_Log.thy ===== *)
theory Sensor_Log
  imports Walkers "HOL-Library.AList"
begin

text \<open>
  The sensor log (\<open>iotile/sg/sensor_log.py\<close>): it owns the storage engine, creates the walkers and
  keeps them up to date when readings are pushed, overwritten or cleared.
\<close>

section \<open>State\<close>

text \<open>
  Walkers are shared objects: the log lists them, and nodes and streamers hold them.  They live in
  the store \<open>sl_walkers\<close> under a number, and every holder keeps the number.  The functions given to
  \<open>watch\<close> are client code: the log keeps them as numbers and \<open>sl_calls\<close> records the calls made to them
  (the set of functions of one selector is kept in the order of registration).
\<close>

record sensor_log =
  sl_monitors :: "(selector option \<times> nat list) list"
  sl_last_values :: "(data_stream \<times> reading) list"
  sl_virtual :: "nat list"
  sl_queue :: "nat list"
  sl_engine :: engine
  sl_model :: device_model
  sl_rollover_streaming :: bool
  sl_rollover_storage :: bool
  sl_walkers :: "nat \<Rightarrow> walker option"
  sl_next :: nat
  sl_calls :: "(nat \<times> data_stream \<times> reading) list"

definition new_sensor_log :: "engine option \<Rightarrow> device_model option \<Rightarrow> sensor_log res" where
  "new_sensor_log eng mdl =
     (let model = (case mdl of None \<Rightarrow> new_device_model | Some m \<Rightarrow> m) in
      bind_res (case eng of None \<Rightarrow> new_engine model | Some e \<Rightarrow> Inr e) (\<lambda>e.
        Inr \<lparr>sl_monitors = [], sl_last_values = [], sl_virtual = [], sl_queue = [], sl_engine = e,
             sl_model = model, sl_rollover_streaming = True, sl_rollover_storage = True,
             sl_walkers = Map.empty, sl_next = 0, sl_calls = []\<rparr>))"

section \<open>Operations on the walkers of a log\<close>

text \<open>A method call on the walker object \<open>wid\<close>; a number that is no walker raises.\<close>

definition on_walker ::
  "nat \<Rightarrow> (walker \<Rightarrow> ('a, walker) act) \<Rightarrow> sensor_log \<Rightarrow> ('a, sensor_log) act" where
  "on_walker wid f log =
     (case sl_walkers log wid of
        None \<Rightarrow> (Inl KeyError, log)
      | Some w \<Rightarrow> map_state (\<lambda>w'. log\<lparr>sl_walkers := (sl_walkers log)(wid \<mapsto> w')\<rparr>) (f w))"

definition log_count :: "nat \<Rightarrow> sensor_log \<Rightarrow> int" where
  "log_count wid log = (case sl_walkers log wid of None \<Rightarrow> 0 | Some w \<Rightarrow> walker_count w)"

definition log_pop :: "nat \<Rightarrow> sensor_log \<Rightarrow> (reading, sensor_log) act" where
  "log_pop wid log = on_walker wid (walker_pop (sl_engine log)) log"

definition log_peek :: "nat \<Rightarrow> sensor_log \<Rightarrow> reading res" where
  "log_peek wid log =
     (case sl_walkers log wid of None \<Rightarrow> Inl KeyError | Some w \<Rightarrow> walker_peek (sl_engine log) w)"

definition log_skip_all :: "nat \<Rightarrow> sensor_log \<Rightarrow> sensor_log" where
  "log_skip_all wid log = snd (on_walker wid (\<lambda>w. (Inr (), walker_skip_all (sl_engine log) w)) log)"

definition log_seek :: "nat \<Rightarrow> int \<Rightarrow> string \<Rightarrow> sensor_log \<Rightarrow> (bool, sensor_log) act" where
  "log_seek wid value target log =
     on_walker wid (\<lambda>w. case w of
         Buffered b \<Rightarrow> map_state Buffered (bw_seek (sl_engine log) value target b)
       | _ \<Rightarrow> (Inl AttributeError, w)) log"

definition alloc_walker :: "walker \<Rightarrow> sensor_log \<Rightarrow> nat \<times> sensor_log" where
  "alloc_walker w log =
     (sl_next log,
      log\<lparr>sl_walkers := (sl_walkers log)(sl_next log \<mapsto> w), sl_next := Suc (sl_next log)\<rparr>)"

definition log_create_walker :: "selector \<Rightarrow> bool \<Rightarrow> sensor_log \<Rightarrow> (nat, sensor_log) act" where
  "log_create_walker sel skip_all log =
     (if sel_buffered sel then
        (case bw_new sel (sl_engine log) skip_all of
           Inl err \<Rightarrow> (Inl err, log)
         | Inr w \<Rightarrow> (case alloc_walker (Buffered w) log of (wid, log') \<Rightarrow>
             (Inr wid, log'\<lparr>sl_queue := sl_queue log' @ [wid]\<rparr>)))
      else
        (case (if match_type sel = CounterType then map_sum id Counter (cw_new sel)
               else map_sum id Virtual (vw_new sel)) of
           Inl err \<Rightarrow> (Inl err, log)
         | Inr w \<Rightarrow> (case alloc_walker w log of (wid, log') \<Rightarrow>
             (Inr wid, log'\<lparr>sl_virtual := sl_virtual log' @ [wid]\<rparr>))))"

text \<open>\<open>list.remove\<close> takes out the first occurrence and raises when there is none.\<close>

definition py_remove :: "'a \<Rightarrow> 'a list \<Rightarrow> 'a list res" where
  "py_remove x xs = (if x \<in> set xs then Inr (remove1 x xs) else Inl ValueError)"

definition log_destroy_walker :: "nat \<Rightarrow> sensor_log \<Rightarrow> (unit, sensor_log) act" where
  "log_destroy_walker wid log =
     (case sl_walkers log wid of
        None \<Rightarrow> (Inl KeyError, log)
      | Some w \<Rightarrow>
          (case walker_buffered w of
             Inl err \<Rightarrow> (Inl err, log)
           | Inr True \<Rightarrow>
               (case py_remove wid (sl_queue log) of
                  Inl err \<Rightarrow> (Inl err, log) | Inr q \<Rightarrow> (Inr (), log\<lparr>sl_queue := q\<rparr>))
           | Inr False \<Rightarrow>
               (case py_remove wid (sl_virtual log) of
                  Inl err \<Rightarrow> (Inl err, log) | Inr q \<Rightarrow> (Inr (), log\<lparr>sl_virtual := q\<rparr>))))"

definition log_destroy_all_walkers :: "sensor_log \<Rightarrow> sensor_log" where
  "log_destroy_all_walkers log = log\<lparr>sl_queue := [], sl_virtual := []\<rparr>"

definition log_restore_walker ::
  "(string \<Rightarrow> datetime) \<Rightarrow> walker_dump \<Rightarrow> sensor_log \<Rightarrow> (nat, sensor_log) act" where
  "log_restore_walker parse state log =
     (case wd_selector state of
        None \<Rightarrow> (Inl ArgumentError, log)
      | Some t \<Rightarrow>
          (case sel_of_string t of
             Inl err \<Rightarrow> (Inl err, log)
           | Inr sel \<Rightarrow>
               bind_act (log_create_walker sel True log) (\<lambda>wid log'.
               bind_act (on_walker wid (restore_walker_state parse (sl_engine log') state) log') (\<lambda>_ log''.
                 (Inr wid, log'')))))"

section \<open>Configuration and inspection\<close>

definition log_set_rollover :: "string \<Rightarrow> bool \<Rightarrow> sensor_log \<Rightarrow> (unit, sensor_log) act" where
  "log_set_rollover area enabled log =
     (if area = ''streaming'' then (Inr (), log\<lparr>sl_rollover_streaming := enabled\<rparr>)
      else if area = ''storage'' then (Inr (), log\<lparr>sl_rollover_storage := enabled\<rparr>)
      else (Inl ArgumentError, log))"

definition log_watch :: "selector option \<Rightarrow> nat \<Rightarrow> sensor_log \<Rightarrow> (unit, sensor_log) act" where
  "log_watch sel callback log =
     (if (case sel of None \<Rightarrow> False | Some s \<Rightarrow> \<not> sel_hashable s) then (Inl KeyError, log)
      else
        let old = (case map_of (sl_monitors log) sel of None \<Rightarrow> [] | Some cs \<Rightarrow> cs);
            new = (if callback \<in> set old then old else old @ [callback])
        in (Inr (), log\<lparr>sl_monitors := AList.update sel new (sl_monitors log)\<rparr>))"

fun dump_constants_loop :: "walker list \<Rightarrow> (data_stream \<times> reading option) list res" where
  "dump_constants_loop [] = Inr []"
| "dump_constants_loop (w # ws) =
     (case walker_selector w of
        None \<Rightarrow> Inl AttributeError
      | Some sel \<Rightarrow>
          if \<not> sel_inexhaustible sel then dump_constants_loop ws
          else bind_res (sel_as_stream sel) (\<lambda>s.
               bind_res (dump_constants_loop ws) (\<lambda>rest.
                 Inr ((s, case w of Virtual v \<Rightarrow> vw_reading v | Counter c \<Rightarrow> cw_reading c | _ \<Rightarrow> None)
                      # rest))))"

definition walkers_of :: "sensor_log \<Rightarrow> nat list \<Rightarrow> walker list" where
  "walkers_of log wids = List.map_filter (sl_walkers log) wids"

definition log_dump_constants :: "sensor_log \<Rightarrow> (data_stream \<times> reading option) list res" where
  "log_dump_constants log = dump_constants_loop (walkers_of log (sl_virtual log))"

definition log_engine_count :: "sensor_log \<Rightarrow> int \<times> int" where
  "log_engine_count log = engine_count (sl_engine log)"

definition log_inspect_last :: "data_stream \<Rightarrow> bool \<Rightarrow> sensor_log \<Rightarrow> reading res" where
  "log_inspect_last s only_allocated log =
     (if only_allocated \<and> \<not> list_ex (\<lambda>w. walker_matches w s) (walkers_of log (sl_virtual log))
      then Inl UnresolvedIdentifierError
      else if \<not> stream_hashable s then Inl KeyError
      else case map_of (sl_last_values log) s of
        Some r \<Rightarrow> Inr r
      | None \<Rightarrow> Inl StreamEmptyError)"

section \<open>Clearing\<close>

definition log_clear :: "sensor_log \<Rightarrow> sensor_log" where
  "log_clear log =
     (let log1 = fold log_skip_all (sl_virtual log) log;
          log2 = log1\<lparr>sl_engine := engine_clear (sl_engine log1)\<rparr>;
          log3 = fold log_skip_all (sl_queue log2) log2
      in log3\<lparr>sl_last_values := []\<rparr>)"

section \<open>Pushing readings\<close>

text \<open>Only the walkers whose selector is on the same area are told about a change to it.\<close>

definition notify_added :: "data_stream \<Rightarrow> bool \<Rightarrow> nat \<Rightarrow> sensor_log \<Rightarrow> (unit, sensor_log) act" where
  "notify_added s output_buffer wid =
     on_walker wid (\<lambda>w. case w of
         Buffered b \<Rightarrow>
           (Inr (), Buffered (if sel_output (bw_selector b) = output_buffer then bw_notify_added s b else b))
       | _ \<Rightarrow> (Inl AttributeError, w))"

definition notify_rollover :: "data_stream \<Rightarrow> bool \<Rightarrow> nat \<Rightarrow> sensor_log \<Rightarrow> (unit, sensor_log) act" where
  "notify_rollover s output_buffer wid =
     on_walker wid (\<lambda>w. case w of
         Buffered b \<Rightarrow>
           (if sel_output (bw_selector b) = output_buffer
            then map_state Buffered (bw_notify_rollover s b) else (Inr (), w))
       | _ \<Rightarrow> (Inl AttributeError, w))"

definition on_engine :: "(engine \<Rightarrow> ('a, engine) act) \<Rightarrow> sensor_log \<Rightarrow> ('a, sensor_log) act" where
  "on_engine f log = map_state (\<lambda>e. log\<lparr>sl_engine := e\<rparr>) (f (sl_engine log))"

definition notify_erased :: "bool \<Rightarrow> reading \<Rightarrow> sensor_log \<Rightarrow> (unit, sensor_log) act" where
  "notify_erased output_buffer reading log =
     for_each (notify_rollover (stream_of_encoded (r_stream reading)) output_buffer) (sl_queue log) log"

definition log_erase_buffer :: "bool \<Rightarrow> sensor_log \<Rightarrow> (unit, sensor_log) act" where
  "log_erase_buffer output_buffer log =
     (case dm_get (sl_model log) ''buffer_erase_size'' of
        Inl err \<Rightarrow> (Inl err, log)
      | Inr erase_size \<Rightarrow>
          bind_act
            (on_engine (engine_popn (if output_buffer then ''streaming'' else ''storage'') erase_size) log)
            (\<lambda>old_readings. for_each (notify_erased output_buffer) old_readings))"

text \<open>The buffered part of \<open>push\<close>: store the reading, making room if necessary, and tell the walkers.\<close>

definition log_store :: "data_stream \<Rightarrow> reading \<Rightarrow> sensor_log \<Rightarrow> (unit, sensor_log) act" where
  "log_store s reading log =
     (case on_engine (engine_push reading) log of
        (Inr _, log') \<Rightarrow> (Inr (), log')
      | (Inl err, log') \<Rightarrow>
          (if err = StorageFullError then
             (if (stream_output s \<and> \<not> sl_rollover_streaming log')
                 \<or> (\<not> stream_output s \<and> \<not> sl_rollover_storage log')
              then (Inl StorageFullError, log')
              else bind_act (log_erase_buffer (stream_output s) log')
                     (\<lambda>_. on_engine (engine_push reading)))
           else (Inl err, log')))"

definition notify_queue :: "data_stream \<Rightarrow> sensor_log \<Rightarrow> (unit, sensor_log) act" where
  "notify_queue s log = for_each (notify_added s (stream_output s)) (sl_queue log) log"

definition call_monitors :: "data_stream \<Rightarrow> reading \<Rightarrow> sensor_log \<Rightarrow> sensor_log" where
  "call_monitors s reading log =
     log\<lparr>sl_calls := sl_calls log @
       concat (map (\<lambda>(sel, callbacks).
           if (case sel of None \<Rightarrow> True | Some x \<Rightarrow> sel_matches x s)
           then map (\<lambda>c. (c, s, reading)) callbacks else []) (sl_monitors log))\<rparr>"

definition push_virtual :: "data_stream \<Rightarrow> reading \<Rightarrow> nat \<Rightarrow> sensor_log \<Rightarrow> (unit, sensor_log) act" where
  "push_virtual s reading wid =
     on_walker wid (\<lambda>w. if walker_matches w s then walker_push s reading w else (Inr (), w))"

definition set_last_value :: "data_stream \<Rightarrow> reading \<Rightarrow> sensor_log \<Rightarrow> (unit, sensor_log) act" where
  "set_last_value s reading log =
     (if stream_hashable s
      then (Inr (), log\<lparr>sl_last_values := AList.update s reading (sl_last_values log)\<rparr>)
      else (Inl KeyError, log))"

text \<open>
  \<open>push\<close>.  \<open>assigned\<close> is what the function \<open>id_assigner\<close> returns for this reading, \<open>None\<close> if the log
  has no such function; it is consulted for buffered streams only.
\<close>

definition stamped :: "int option \<Rightarrow> data_stream \<Rightarrow> reading \<Rightarrow> reading" where
  "stamped assigned s reading =
     (let r = reading\<lparr>r_stream := stream_encode s\<rparr> in
      if stream_buffered s then (case assigned of None \<Rightarrow> r | Some i \<Rightarrow> r\<lparr>reading_id := i\<rparr>) else r)"

definition log_push ::
  "int option \<Rightarrow> data_stream \<Rightarrow> reading \<Rightarrow> sensor_log \<Rightarrow> (unit, sensor_log) act" where
  "log_push assigned s reading log =
     (let r = stamped assigned s reading in
      bind_act (if stream_buffered s then bind_act (log_store s r log) (\<lambda>_. notify_queue s)
                else (Inr (), log)) (\<lambda>_ log1.
      let log2 = call_monitors s r log1 in
      bind_act (for_each (push_virtual s r) (sl_virtual log2) log2) (\<lambda>_ log3.
      set_last_value s r log3)))"

section \<open>Saving and restoring\<close>

record log_dump =
  ld_engine :: engine_dump
  ld_rollover_storage :: bool
  ld_rollover_streaming :: bool
  ld_last_values :: "(string \<times> reading_dict) list"
  ld_walkers :: "(string \<times> walker_dump) list"

text \<open>\<open>d.update({str(w.selector): w.dump() for w in walkers})\<close>.\<close>

fun dump_walkers ::
  "(datetime \<Rightarrow> string) \<Rightarrow> walker list \<Rightarrow> (string \<times> walker_dump) list \<Rightarrow> (string \<times> walker_dump) list res" where
  "dump_walkers isof [] d = Inr d"
| "dump_walkers isof (w # ws) d =
     bind_res (iw_selector_str (walker_selector w)) (\<lambda>k.
     bind_res (dump_walker isof w) (\<lambda>v.
       dump_walkers isof ws (AList.update k v d)))"

fun dump_last_values ::
  "(datetime \<Rightarrow> string) \<Rightarrow> (data_stream \<times> reading) list \<Rightarrow> (string \<times> reading_dict) list
   \<Rightarrow> (string \<times> reading_dict) list res" where
  "dump_last_values isof [] d = Inr d"
| "dump_last_values isof ((s, r) # rest) d =
     bind_res (stream_str s) (\<lambda>k. dump_last_values isof rest (AList.update k (reading_asdict isof r) d))"

definition log_dump_state :: "(datetime \<Rightarrow> string) \<Rightarrow> sensor_log \<Rightarrow> log_dump res" where
  "log_dump_state isof log =
     bind_res (dump_walkers isof (walkers_of log (sl_queue log)) []) (\<lambda>ws.
     bind_res (dump_walkers isof (walkers_of log (sl_virtual log)) ws) (\<lambda>walkers.
     bind_res (dump_last_values isof (sl_last_values log) []) (\<lambda>lv.
       Inr \<lparr>ld_engine = engine_dump isof (sl_engine log),
            ld_rollover_storage = sl_rollover_storage log,
            ld_rollover_streaming = sl_rollover_streaming log,
            ld_last_values = lv, ld_walkers = walkers\<rparr>)))"

fun restore_last_values ::
  "(string \<Rightarrow> datetime) \<Rightarrow> (string \<times> reading_dict) list \<Rightarrow> (data_stream \<times> reading) list
   \<Rightarrow> (data_stream \<times> reading) list res" where
  "restore_last_values parse [] m = Inr m"
| "restore_last_values parse ((t, d) # rest) m =
     bind_res (stream_of_string t) (\<lambda>s.
       restore_last_values parse rest (AList.update s (reading_of_dict parse d) m))"

fun parse_old_walkers ::
  "(string \<times> walker_dump) list \<Rightarrow> (selector \<times> walker_dump) list \<Rightarrow> (selector \<times> walker_dump) list res" where
  "parse_old_walkers [] m = Inr m"
| "parse_old_walkers ((t, d) # rest) m =
     bind_res (sel_of_string t) (\<lambda>sel. parse_old_walkers rest (AList.update sel d m))"

definition restore_one_walker ::
  "(string \<Rightarrow> datetime) \<Rightarrow> bool \<Rightarrow> (selector \<times> walker_dump) list \<Rightarrow> nat \<Rightarrow> sensor_log
   \<Rightarrow> (unit, sensor_log) act" where
  "restore_one_walker parse permissive old wid log =
     on_walker wid (\<lambda>w.
       case walker_selector w of
         None \<Rightarrow> (Inl AttributeError, w)
       | Some sel \<Rightarrow>
           if \<not> sel_hashable sel then (Inl KeyError, w)
           else (case map_of old sel of
              Some d \<Rightarrow> restore_walker_state parse (sl_engine log) d w
            | None \<Rightarrow> if permissive then (Inr (), w) else (Inl ArgumentError, w))) log"

definition log_restore ::
  "(string \<Rightarrow> datetime) \<Rightarrow> log_dump \<Rightarrow> bool \<Rightarrow> sensor_log \<Rightarrow> (unit, sensor_log) act" where
  "log_restore parse state permissive log =
     bind_act (on_engine (engine_restore parse (ld_engine state)) log) (\<lambda>_ log1.
       case restore_last_values parse (ld_last_values state) [] of
         Inl err \<Rightarrow> (Inl err, log1)
       | Inr lv \<Rightarrow>
           (let log2 = log1\<lparr>sl_last_values := lv, sl_rollover_storage := ld_rollover_storage state,
                           sl_rollover_streaming := ld_rollover_streaming state\<rparr> in
            case parse_old_walkers (ld_walkers state) [] of
              Inl err \<Rightarrow> (Inl err, log2)
            | Inr old \<Rightarrow>
                bind_act (for_each (restore_one_walker parse permissive old) (sl_virtual log2) log2)
                  (\<lambda>_ log3. for_each (restore_one_walker parse permissive old) (sl_queue log3) log3)))"

section \<open>Loops over the walkers of a log\<close>

definition update_walkers :: "nat list \<Rightarrow> (walker \<Rightarrow> walker) \<Rightarrow> sensor_log \<Rightarrow> sensor_log" where
  "update_walkers wids g log = log\<lparr>sl_walkers :=
     (\<lambda>wid. if wid \<in> set wids then map_option g (sl_walkers log wid) else sl_walkers log wid)\<rparr>"

lemma update_walkers_fields [simp]:
  "sl_monitors (update_walkers wids g log) = sl_monitors log"
  "sl_last_values (update_walkers wids g log) = sl_last_values log"
  "sl_virtual (update_walkers wids g log) = sl_virtual log"
  "sl_queue (update_walkers wids g log) = sl_queue log"
  "sl_engine (update_walkers wids g log) = sl_engine log"
  "sl_model (update_walkers wids g log) = sl_model log"
  "sl_rollover_streaming (update_walkers wids g log) = sl_rollover_streaming log"
  "sl_rollover_storage (update_walkers wids g log) = sl_rollover_storage log"
  "sl_next (update_walkers wids g log) = sl_next log"
  "sl_calls (update_walkers wids g log) = sl_calls log"
  "sl_walkers (update_walkers wids g log) wid =
     (if wid \<in> set wids then map_option g (sl_walkers log wid) else sl_walkers log wid)"
  by (simp_all add: update_walkers_def)

lemma on_walker_Some:
  "sl_walkers log wid = Some w \<Longrightarrow> f w = (r, w') \<Longrightarrow>
   on_walker wid f log = (r, log\<lparr>sl_walkers := (sl_walkers log)(wid \<mapsto> w')\<rparr>)"
  by (simp add: on_walker_def)

lemma on_walker_frame:
  "sl_monitors (snd (on_walker wid f log)) = sl_monitors log"
  "sl_last_values (snd (on_walker wid f log)) = sl_last_values log"
  "sl_virtual (snd (on_walker wid f log)) = sl_virtual log"
  "sl_queue (snd (on_walker wid f log)) = sl_queue log"
  "sl_engine (snd (on_walker wid f log)) = sl_engine log"
  "sl_model (snd (on_walker wid f log)) = sl_model log"
  "sl_rollover_streaming (snd (on_walker wid f log)) = sl_rollover_streaming log"
  "sl_rollover_storage (snd (on_walker wid f log)) = sl_rollover_storage log"
  "sl_next (snd (on_walker wid f log)) = sl_next log"
  "sl_calls (snd (on_walker wid f log)) = sl_calls log"
  "wid' \<noteq> wid \<Longrightarrow> sl_walkers (snd (on_walker wid f log)) wid' = sl_walkers log wid'"
  by (simp_all add: on_walker_def map_state_def split: option.split)

text \<open>A loop that calls a method on each of some walkers, none of which raises.\<close>

lemma for_each_walkers:
  assumes "distinct wids"
    "\<And>wid. wid \<in> set wids \<Longrightarrow>
      \<exists>w. sl_walkers log wid = Some w \<and> f (sl_engine log) w = (Inr (), g w)"
  shows "for_each (\<lambda>wid log. on_walker wid (f (sl_engine log)) log) wids log
    = (Inr (), update_walkers wids g log)"
  using assms
proof (induction wids arbitrary: log)
  case Nil
  then show ?case by (simp add: update_walkers_def)
next
  case (Cons wid wids)
  obtain w where w: "sl_walkers log wid = Some w" "f (sl_engine log) w = (Inr (), g w)"
    using Cons.prems(2) by force
  define log1 where "log1 = log\<lparr>sl_walkers := (sl_walkers log)(wid \<mapsto> g w)\<rparr>"
  have step: "on_walker wid (f (sl_engine log)) log = (Inr (), log1)"
    unfolding log1_def using w by (rule on_walker_Some)
  have "for_each (\<lambda>wid log. on_walker wid (f (sl_engine log)) log) wids log1
      = (Inr (), update_walkers wids g log1)"
  proof (rule Cons.IH)
    fix v assume "v \<in> set wids"
    moreover from this have "v \<noteq> wid" using Cons.prems(1) by auto
    ultimately show "\<exists>w. sl_walkers log1 v = Some w \<and> f (sl_engine log1) w = (Inr (), g w)"
      using Cons.prems(2) by (simp add: log1_def)
  qed (use Cons.prems(1) in simp)
  moreover have "update_walkers wids g log1 = update_walkers (wid # wids) g log"
    using Cons.prems(1) w by (auto simp: update_walkers_def log1_def fun_eq_iff)
  ultimately show ?case using step by simp
qed

lemma for_each_walkers_const:
  assumes "distinct wids"
    "\<And>wid. wid \<in> set wids \<Longrightarrow> \<exists>w. sl_walkers log wid = Some w \<and> f w = (Inr (), g w)"
  shows "for_each (\<lambda>wid. on_walker wid f) wids log = (Inr (), update_walkers wids g log)"
  using for_each_walkers [of wids log "\<lambda>_. f" g] assms by simp

section \<open>The invariant of the log\<close>

definition queue_walker_ok :: "engine \<Rightarrow> walker option \<Rightarrow> bool" where
  "queue_walker_ok e w = (case w of Some (Buffered b) \<Rightarrow> bw_ok e b | _ \<Rightarrow> False)"

definition virtual_walker_ok :: "engine \<Rightarrow> walker option \<Rightarrow> bool" where
  "virtual_walker_ok e w = (case w of
       Some (Virtual v) \<Rightarrow> walker_ok e (Virtual v) \<and> \<not> sel_buffered (vw_selector v)
     | Some (Counter c) \<Rightarrow> walker_ok e (Counter c) \<and> \<not> sel_buffered (cw_selector c)
     | _ \<Rightarrow> False)"

definition log_ok :: "sensor_log \<Rightarrow> bool" where
  "log_ok log \<longleftrightarrow> engine_ok (sl_engine log) \<and> distinct (sl_queue log @ sl_virtual log) \<and>
     (\<forall>wid \<in> set (sl_queue log). queue_walker_ok (sl_engine log) (sl_walkers log wid)) \<and>
     (\<forall>wid \<in> set (sl_virtual log). virtual_walker_ok (sl_engine log) (sl_walkers log wid)) \<and>
     (\<forall>wid. sl_next log \<le> wid \<longrightarrow> sl_walkers log wid = None)"

text \<open>What is still to be read through a walker of the log.\<close>

fun contents_of :: "engine \<Rightarrow> walker option \<Rightarrow> reading list" where
  "contents_of e None = []"
| "contents_of e (Some w) = walker_contents e w"

definition log_contents :: "nat \<Rightarrow> sensor_log \<Rightarrow> reading list" where
  "log_contents wid log = contents_of (sl_engine log) (sl_walkers log wid)"

lemma queue_walker_ok_iff: "queue_walker_ok e w \<longleftrightarrow> (\<exists>b. w = Some (Buffered b) \<and> bw_ok e b)"
  by (auto simp: queue_walker_ok_def split: option.splits walker.splits)

lemma virtual_walker_ok_iff: "virtual_walker_ok e w \<longleftrightarrow>
    (\<exists>v. w = Some (Virtual v) \<and> walker_ok e (Virtual v) \<and> \<not> sel_buffered (vw_selector v)) \<or>
    (\<exists>c. w = Some (Counter c) \<and> walker_ok e (Counter c) \<and> \<not> sel_buffered (cw_selector c))"
  by (auto simp: virtual_walker_ok_def split: option.splits walker.splits)

lemma virtual_walker_ok_engine: "virtual_walker_ok e w \<Longrightarrow> virtual_walker_ok e' w"
  by (auto simp: virtual_walker_ok_iff)

lemma log_okD:
  assumes "log_ok log"
  shows "engine_ok (sl_engine log)" "distinct (sl_queue log)" "distinct (sl_virtual log)"
    "set (sl_queue log) \<inter> set (sl_virtual log) = {}"
    "wid \<in> set (sl_queue log) \<Longrightarrow> \<exists>b. sl_walkers log wid = Some (Buffered b) \<and> bw_ok (sl_engine log) b"
    "wid \<in> set (sl_virtual log) \<Longrightarrow> virtual_walker_ok (sl_engine log) (sl_walkers log wid)"
    "sl_next log \<le> wid \<Longrightarrow> sl_walkers log wid = None"
  using assms by (auto simp: log_ok_def queue_walker_ok_iff)

lemma new_sensor_log_ok:
  assumes "new_sensor_log eng mdl = Inr log" "\<And>e. eng = Some e \<Longrightarrow> engine_ok e"
    "\<And>m. mdl = Some m \<Longrightarrow> \<exists>a b. 0 \<le> a \<and> 0 \<le> b \<and> m ''max_storage_buffer'' = Some a
       \<and> m ''max_streaming_buffer'' = Some b"
  shows "log_ok log"
  using assms by (cases eng; cases mdl)
    (auto simp: new_sensor_log_def log_ok_def engine_ok_def bind_res_Inr_iff new_engine_def dm_get_def
      new_device_model_def dm_add_property_def split: option.splits)

lemma log_create_walker_ok:
  assumes "log_ok log" "sel_buffered sel \<or> sel_singular sel"
  shows "\<exists>log'. log_create_walker sel skip log = (Inr (sl_next log), log') \<and> log_ok log' \<and>
    log_contents (sl_next log) log' =
      (if sel_buffered sel \<and> \<not> skip
       then matching sel (engine_area (sl_engine log) (area_of sel)) else []) \<and>
    (\<forall>wid. wid \<noteq> sl_next log \<longrightarrow> log_contents wid log' = log_contents wid log) \<and>
    sl_engine log' = sl_engine log"
proof -
  note ok = log_okD [OF assms(1)]
  have fresh: "sl_next log \<notin> set (sl_queue log)" "sl_next log \<notin> set (sl_virtual log)"
    using ok(5) [of "sl_next log"] ok(6) [of "sl_next log"] ok(7) [of "sl_next log"]
    by (auto simp: virtual_walker_ok_iff)
  show ?thesis
  proof (cases "sel_buffered sel")
    case True
    obtain w where w: "bw_new sel (sl_engine log) skip = Inr w" "bw_ok (sl_engine log) w"
      "bw_contents (sl_engine log) w =
        (if skip then [] else matching sel (engine_area (sl_engine log) (area_of sel)))"
      using bw_new_ok [OF True] by blast
    then show ?thesis using True assms(1) fresh
      by (auto simp: log_create_walker_def alloc_walker_def log_contents_def log_ok_def
          queue_walker_ok_iff)
  next
    case False
    then have "match_id sel \<noteq> None" using assms(2) by (simp add: sel_singular_def)
    then show ?thesis using False assms(1) fresh
      by (auto simp: log_create_walker_def alloc_walker_def log_contents_def log_ok_def
          virtual_walker_ok_iff vw_new_def cw_new_def vw_iter_def cw_iter_def)
  qed
qed

section \<open>Reading through a walker of the log\<close>

lemma log_pop_frame:
  "sl_queue (snd (log_pop wid log)) = sl_queue log"
  "sl_virtual (snd (log_pop wid log)) = sl_virtual log"
  "sl_engine (snd (log_pop wid log)) = sl_engine log"
  "sl_next (snd (log_pop wid log)) = sl_next log"
  "wid' \<noteq> wid \<Longrightarrow> log_contents wid' (snd (log_pop wid log)) = log_contents wid' log"
  by (simp_all add: log_pop_def on_walker_frame log_contents_def)

text \<open>The walkers of a log, seen through \<open>log_count\<close> and \<open>log_pop\<close>, are cursors.\<close>

definition log_readable :: "nat \<Rightarrow> sensor_log \<Rightarrow> bool" where
  "log_readable wid log \<longleftrightarrow>
     (\<exists>w. sl_walkers log wid = Some w \<and> walker_ok (sl_engine log) w \<and> walker_finite w)"

interpretation log_reader: reader "log_count wid" "log_pop wid" "log_contents wid" "log_readable wid"
  for wid
proof unfold_locales
  fix log
  assume "log_readable wid log"
  then show "log_count wid log = int (length (log_contents wid log))"
    using walker_count_contents by (auto simp: log_readable_def log_count_def log_contents_def)
next
  fix log r rs
  assume "log_readable wid log" "log_contents wid log = r # rs"
  then obtain w where "sl_walkers log wid = Some w" "walker_ok (sl_engine log) w" "walker_finite w"
    "walker_contents (sl_engine log) w = r # rs"
    by (auto simp: log_readable_def log_contents_def)
  then show "\<exists>log'. log_pop wid log = (Inr r, log') \<and> log_contents wid log' = rs \<and> log_readable wid log'"
    using walker_pop_next [of "sl_engine log" w r rs]
    by (fastforce simp: log_pop_def on_walker_def log_readable_def log_contents_def)
next
  fix log
  assume "log_readable wid log" "log_contents wid log = []"
  then obtain w where "sl_walkers log wid = Some w" "walker_pop (sl_engine log) w = (Inl StreamEmptyError, w)"
    using walker_pop_empty by (auto simp: log_readable_def log_contents_def)
  then show "log_pop wid log = (Inl StreamEmptyError, log)"
    by (simp add: log_pop_def on_walker_def fun_upd_idem)
qed

text \<open>A method that keeps the class and the invariant of its walker keeps the invariant of the log.\<close>

definition walker_safe :: "engine \<Rightarrow> walker \<Rightarrow> walker \<Rightarrow> bool" where
  "walker_safe e w w' \<longleftrightarrow> (walker_ok e w \<longrightarrow> walker_ok e w') \<and>
     walker_selector w' = walker_selector w \<and>
     (case (w, w') of (Buffered _, Buffered _) \<Rightarrow> True | (Virtual _, Virtual _) \<Rightarrow> True
       | (Counter _, Counter _) \<Rightarrow> True | (Invalid _, Invalid _) \<Rightarrow> True | _ \<Rightarrow> False)"

lemma walker_safe_queue:
  "walker_safe e w w' \<Longrightarrow> queue_walker_ok e (Some w) \<Longrightarrow> queue_walker_ok e (Some w')"
  by (cases w; cases w') (auto simp: walker_safe_def queue_walker_ok_def)

lemma walker_safe_virtual:
  "walker_safe e w w' \<Longrightarrow> virtual_walker_ok e (Some w) \<Longrightarrow> virtual_walker_ok e (Some w')"
  by (cases w; cases w') (auto simp: walker_safe_def virtual_walker_ok_def)

lemma on_walker_log_ok:
  assumes "log_ok log" "\<And>w. sl_walkers log wid = Some w \<Longrightarrow> walker_safe (sl_engine log) w (snd (f w))"
  shows "log_ok (snd (on_walker wid f log))"
proof (cases "sl_walkers log wid")
  case None
  with assms show ?thesis by (simp add: on_walker_def)
next
  case (Some w)
  note safe = assms(2) [OF Some]
  have "queue_walker_ok (sl_engine log) (Some (snd (f w)))" if "wid \<in> set (sl_queue log)"
    using that assms(1) Some walker_safe_queue [OF safe] by (force simp: log_ok_def)
  moreover have "virtual_walker_ok (sl_engine log) (Some (snd (f w)))" if "wid \<in> set (sl_virtual log)"
    using that assms(1) Some walker_safe_virtual [OF safe] by (force simp: log_ok_def)
  moreover have "\<not> sl_next log \<le> wid"
    using assms(1) Some by (auto simp: log_ok_def)
  ultimately show ?thesis using assms(1) Some
    by (auto simp: log_ok_def on_walker_def map_state_def)
qed

lemma walker_pop_safe: "walker_safe e w (snd (walker_pop e w))"
  using walker_pop_ok [of e w]
  by (cases w) (auto simp: walker_safe_def map_state_def bw_pop_def vw_pop_def cw_pop_def Let_def
      split: prod.splits sum.splits option.splits)

lemma walker_skip_all_safe: "walker_safe e w (walker_skip_all e w)"
  using walker_skip_all_ok [of e w]
  by (cases w) (auto simp: walker_safe_def bw_skip_all_def engine_count_def vw_skip_all_def cw_skip_all_def)

lemma log_pop_ok: "log_ok log \<Longrightarrow> log_ok (snd (log_pop wid log))"
  unfolding log_pop_def by (rule on_walker_log_ok) (simp_all add: walker_pop_safe)

lemma log_skip_all_ok: "log_ok log \<Longrightarrow> log_ok (log_skip_all wid log)"
  unfolding log_skip_all_def by (rule on_walker_log_ok) (simp_all add: walker_skip_all_safe)

lemma log_seek_ok:
  assumes "log_ok log" "target = ''offset'' \<longrightarrow> 0 \<le> v"
  shows "log_ok (snd (log_seek wid v target log))"
  unfolding log_seek_def
proof (rule on_walker_log_ok [OF assms(1)])
  fix w
  have "walker_safe (sl_engine log) (Buffered b) (Buffered (snd (bw_seek (sl_engine log) v target b)))" for b
  proof -
    have sel: "bw_selector (snd (bw_seek (sl_engine log) v target b)) = bw_selector b"
      by (auto simp: bw_seek_def bw_resync_def bw_verify_offset_def bind_act_def Let_def
          split: prod.splits sum.splits)
    have "bw_ok (sl_engine log) (snd (bw_seek (sl_engine log) v target b))" if b: "bw_ok (sl_engine log) b"
    proof (cases "target = ''offset''")
      case True
      with assms(2) have "0 \<le> v" by simp
      from bw_seek_offset_ok [OF b this] show ?thesis unfolding True by (rule conjunct2)
    next
      case False
      then show ?thesis using b bw_seek_id_ok [OF b, of v]
        by (cases "target = ''id''") (auto simp: bw_seek_def split: option.splits)
    qed
    with sel show ?thesis by (simp add: walker_safe_def)
  qed
  then show "walker_safe (sl_engine log) w (snd (case w of
       Buffered b \<Rightarrow> map_state Buffered (bw_seek (sl_engine log) v target b)
     | _ \<Rightarrow> (Inl AttributeError, w)))"
    by (cases w) (auto simp: map_state_def walker_safe_def)
qed

section \<open>Pushing\<close>

text \<open>What a push does to one walker, and what follows the storing of the reading.\<close>

definition added_view :: "data_stream \<Rightarrow> walker \<Rightarrow> walker" where
  "added_view s w = (case w of
     Buffered b \<Rightarrow> Buffered (if sel_output (bw_selector b) = stream_output s then bw_notify_added s b else b)
   | _ \<Rightarrow> w)"

definition pushed_view :: "data_stream \<Rightarrow> reading \<Rightarrow> walker \<Rightarrow> walker" where
  "pushed_view s r w = (if walker_matches w s then snd (walker_push s r w) else w)"

definition after_store :: "data_stream \<Rightarrow> reading \<Rightarrow> sensor_log \<Rightarrow> sensor_log" where
  "after_store s r log =
     (let log1 = (if stream_buffered s then update_walkers (sl_queue log) (added_view s) log else log);
          log2 = update_walkers (sl_virtual log) (pushed_view s r) (call_monitors s r log1)
      in log2\<lparr>sl_last_values := AList.update s r (sl_last_values log2)\<rparr>)"

definition is_buffered_walker :: "walker option \<Rightarrow> bool" where
  "is_buffered_walker w = (case w of Some (Buffered b) \<Rightarrow> True | _ \<Rightarrow> False)"

definition is_virtual_walker :: "walker option \<Rightarrow> bool" where
  "is_virtual_walker w = (case w of Some (Virtual v) \<Rightarrow> True | Some (Counter c) \<Rightarrow> True | _ \<Rightarrow> False)"

definition log_shape :: "sensor_log \<Rightarrow> bool" where
  "log_shape log \<longleftrightarrow> distinct (sl_queue log @ sl_virtual log) \<and>
     (\<forall>wid \<in> set (sl_queue log). is_buffered_walker (sl_walkers log wid)) \<and>
     (\<forall>wid \<in> set (sl_virtual log). is_virtual_walker (sl_walkers log wid))"

lemma log_ok_shape: "log_ok log \<Longrightarrow> log_shape log"
  by (fastforce simp: log_ok_def log_shape_def queue_walker_ok_iff virtual_walker_ok_iff
      is_buffered_walker_def is_virtual_walker_def)

lemma call_monitors_fields [simp]:
  "sl_walkers (call_monitors s r log) = sl_walkers log"
  "sl_virtual (call_monitors s r log) = sl_virtual log"
  "sl_queue (call_monitors s r log) = sl_queue log"
  "sl_engine (call_monitors s r log) = sl_engine log"
  "sl_last_values (call_monitors s r log) = sl_last_values log"
  "sl_next (call_monitors s r log) = sl_next log"
  "sl_model (call_monitors s r log) = sl_model log"
  by (simp_all add: call_monitors_def)

lemma notify_queue_total:
  assumes "log_shape log"
  shows "notify_queue s log = (Inr (), update_walkers (sl_queue log) (added_view s) log)"
  unfolding notify_queue_def notify_added_def
proof (rule for_each_walkers_const)
  fix wid assume "wid \<in> set (sl_queue log)"
  then have "is_buffered_walker (sl_walkers log wid)" using assms by (simp add: log_shape_def)
  then show "\<exists>w. sl_walkers log wid = Some w \<and> (case w of
         Buffered b \<Rightarrow> (Inr (), Buffered (if sel_output (bw_selector b) = stream_output s then bw_notify_added s b else b))
       | _ \<Rightarrow> (Inl AttributeError, w)) = (Inr (), added_view s w)"
    by (auto simp: is_buffered_walker_def added_view_def split: option.splits walker.splits)
qed (use assms in \<open>simp add: log_shape_def\<close>)

lemma push_virtual_total:
  assumes "log_shape log"
  shows "for_each (push_virtual s r) (sl_virtual log) log =
    (Inr (), update_walkers (sl_virtual log) (pushed_view s r) log)"
  unfolding push_virtual_def [abs_def]
proof (rule for_each_walkers_const)
  fix wid assume "wid \<in> set (sl_virtual log)"
  then have "is_virtual_walker (sl_walkers log wid)" using assms by (simp add: log_shape_def)
  then show "\<exists>w. sl_walkers log wid = Some w \<and>
      (if walker_matches w s then walker_push s r w else (Inr (), w)) = (Inr (), pushed_view s r w)"
    by (auto simp: is_virtual_walker_def pushed_view_def vw_push_def cw_push_def
        split: option.splits walker.splits)
qed (use assms in \<open>simp add: log_shape_def\<close>)

lemma log_shape_update:
  assumes "log_shape log" "\<And>w. is_buffered_walker (Some (g w)) = is_buffered_walker (Some w)"
    "\<And>w. is_virtual_walker (Some (g w)) = is_virtual_walker (Some w)"
  shows "log_shape (update_walkers wids g log)"
proof -
  have "is_buffered_walker (map_option g w) = is_buffered_walker w"
    "is_virtual_walker (map_option g w) = is_virtual_walker w" for w
    using assms(2,3) by (cases w; simp add: is_buffered_walker_def is_virtual_walker_def)+
  then show ?thesis using assms(1) by (simp add: log_shape_def)
qed

lemma log_shape_added: "log_shape log \<Longrightarrow> log_shape (update_walkers wids (added_view s) log)"
  by (erule log_shape_update)
    (simp_all add: added_view_def is_buffered_walker_def is_virtual_walker_def split: walker.splits)

lemma log_shape_fields: "log_shape (call_monitors s r log) = log_shape log"
  "log_shape (log\<lparr>sl_engine := e\<rparr>) = log_shape log"
  by (simp_all add: log_shape_def)

text \<open>Once the reading is stored, nothing in \<open>push\<close> raises.\<close>

lemma push_after_store:
  assumes "log_shape log1" "stream_hashable s"
    "stream_buffered s \<Longrightarrow> log_store s (stamped assigned s reading) log = (Inr (), log1)"
    "\<not> stream_buffered s \<Longrightarrow> log1 = log"
  shows "log_push assigned s reading log = (Inr (), after_store s (stamped assigned s reading) log1)"
  using assms notify_queue_total [OF assms(1)]
    push_virtual_total [of "call_monitors s (stamped assigned s reading) (update_walkers (sl_queue log1) (added_view s) log1)" s "stamped assigned s reading"]
    push_virtual_total [of "call_monitors s (stamped assigned s reading) log1" s "stamped assigned s reading"]
  by (cases "stream_buffered s")
    (simp_all add: log_push_def Let_def after_store_def set_last_value_def log_shape_fields log_shape_added)

lemma log_push_raises:
  assumes "stream_buffered s" "log_store s (stamped assigned s reading) log = (Inl err, log1)"
  shows "log_push assigned s reading log = (Inl err, log1)"
  using assms by (simp add: log_push_def Let_def)

section \<open>Where a reading is stored\<close>

definition area_data :: "bool \<Rightarrow> engine \<Rightarrow> reading list" where
  "area_data out e = (if out then streaming_data e else storage_data e)"

definition area_capacity :: "bool \<Rightarrow> engine \<Rightarrow> int" where
  "area_capacity out e = (if out then streaming_length e else storage_length e)"

definition set_area :: "bool \<Rightarrow> reading list \<Rightarrow> engine \<Rightarrow> engine" where
  "set_area out data e = (if out then e\<lparr>streaming_data := data\<rparr> else e\<lparr>storage_data := data\<rparr>)"

lemma area_simps [simp]:
  "area_data out (set_area out data e) = data"
  "out' \<noteq> out \<Longrightarrow> area_data out' (set_area out data e) = area_data out' e"
  "area_capacity out' (set_area out data e) = area_capacity out' e"
  by (auto simp: area_data_def set_area_def area_capacity_def)

lemma engine_area_data: "engine_area e (area_of sel) = area_data (sel_output sel) e"
  by (simp add: engine_area_def area_of_def area_data_def)

lemma engine_ok_area: "engine_ok e \<longleftrightarrow>
    (\<forall>out. int (length (area_data out e)) \<le> area_capacity out e)"
  by (auto simp: engine_ok_def area_data_def area_capacity_def)

lemma engine_push_area:
  "engine_push r e =
     (if int (length (area_data (is_output_reading r) e)) = area_capacity (is_output_reading r) e
      then (Inl StorageFullError, e)
      else (Inr (), set_area (is_output_reading r) (area_data (is_output_reading r) e @ [r]) e))"
  by (auto simp: engine_push_def is_output_reading_def area_data_def area_capacity_def set_area_def)

lemma stamped_stream:
  assumes "stream_encodable s"
  shows "stream_of_encoded (r_stream (stamped assigned s reading)) = s"
    "is_output_reading (stamped assigned s reading) = stream_output s"
  using stream_decode_encode [OF assms]
  by (simp_all add: stamped_def Let_def is_output_reading_def stream_output_def split: option.split)

lemma log_store_room:
  assumes "is_output_reading r = stream_output s"
    "int (length (area_data (stream_output s) (sl_engine log))) \<noteq> area_capacity (stream_output s) (sl_engine log)"
  shows "log_store s r log = (Inr (), log\<lparr>sl_engine := set_area (stream_output s)
    (area_data (stream_output s) (sl_engine log) @ [r]) (sl_engine log)\<rparr>)"
  using assms by (simp add: log_store_def on_engine_def engine_push_area)

lemma log_store_fill_stop:
  assumes "is_output_reading r = stream_output s"
    "int (length (area_data (stream_output s) (sl_engine log))) = area_capacity (stream_output s) (sl_engine log)"
    "\<not> (if stream_output s then sl_rollover_streaming log else sl_rollover_storage log)"
  shows "log_store s r log = (Inl StorageFullError, log)"
  using assms by (simp add: log_store_def on_engine_def engine_push_area split: if_splits)

section \<open>What a push does to every walker\<close>

lemma matching_one: "matching sel [r] = (if sel_matches sel (stream_of_encoded (r_stream r)) then [r] else [])"
  by simp

lemma sel_matches_kind:
  "sel_matches sel s \<Longrightarrow> sel_output sel = stream_output s \<and> sel_buffered sel = stream_buffered s"
  by (auto simp: sel_matches_def sel_output_def sel_buffered_def stream_output_def stream_buffered_def
      split: if_splits)

lemma added_view_ok:
  assumes "bw_ok e b" "stream_of_encoded (r_stream r) = s"
    "e' = set_area (stream_output s) (area_data (stream_output s) e @ [r]) e"
  shows "\<exists>b'. added_view s (Buffered b) = Buffered b' \<and> bw_ok e' b' \<and>
    bw_contents e' b' = bw_contents e b @ matching (bw_selector b) [r]"
proof -
  have st: "bw_storage_type b = area_of (bw_selector b)" using assms(1) by (simp add: bw_ok_def)
  show ?thesis
  proof (cases "sel_output (bw_selector b) = stream_output s")
    case True
    then have "engine_area e' (bw_storage_type b) = engine_area e (bw_storage_type b) @ [r]"
      by (simp add: st engine_area_data assms(3))
    from bw_notify_added_ok [OF assms(1) this] True assms(2) show ?thesis
      by (simp add: added_view_def)
  next
    case False
    then have area: "engine_area e' (bw_storage_type b) = engine_area e (bw_storage_type b)"
      by (simp add: st engine_area_data assms(3))
    have "\<not> sel_matches (bw_selector b) s" using False sel_matches_kind by blast
    moreover have "bw_ok e' b" using assms(1) area by (auto simp: bw_ok_def bw_contents_def)
    ultimately show ?thesis using False area assms(2)
      by (simp add: added_view_def matching_one bw_contents_def)
  qed
qed

text \<open>
  The readings a virtual or counter walker holds after a push: the last one, as often as the walker
  counts it.
\<close>

fun pushed_contents :: "reading \<Rightarrow> walker \<Rightarrow> reading list" where
  "pushed_contents r (Counter c) = replicate (Suc (nat (cw_count c))) r"
| "pushed_contents r w = [r]"

lemma pushed_view_ok:
  assumes "virtual_walker_ok e (Some w)"
  shows "virtual_walker_ok e' (Some (pushed_view s r w)) \<and>
    walker_contents e' (pushed_view s r w) =
      (if walker_matches w s then pushed_contents r w else walker_contents e w)"
  using assms
  by (cases w) (auto simp: virtual_walker_ok_def pushed_view_def vw_push_def cw_push_def vw_iter_def
      cw_iter_def nat_add_distrib)

lemma after_store_fields:
  "sl_engine (after_store s r log) = sl_engine log"
  "sl_queue (after_store s r log) = sl_queue log"
  "sl_virtual (after_store s r log) = sl_virtual log"
  "sl_next (after_store s r log) = sl_next log"
  "map_of (sl_last_values (after_store s r log)) = (map_of (sl_last_values log))(s \<mapsto> r)"
  by (simp_all add: after_store_def Let_def update_conv')

lemma after_store_queue:
  assumes "log_shape log" "wid \<in> set (sl_queue log)"
  shows "sl_walkers (after_store s r log) wid =
    (if stream_buffered s then map_option (added_view s) (sl_walkers log wid) else sl_walkers log wid)"
proof -
  have "wid \<notin> set (sl_virtual log)" using assms by (auto simp: log_shape_def)
  then show ?thesis using assms(2) by (simp add: after_store_def Let_def)
qed

lemma after_store_virtual:
  assumes "log_shape log" "wid \<in> set (sl_virtual log)"
  shows "sl_walkers (after_store s r log) wid = map_option (pushed_view s r) (sl_walkers log wid)"
proof -
  have "wid \<notin> set (sl_queue log)" using assms by (auto simp: log_shape_def)
  then show ?thesis using assms(2) by (simp add: after_store_def Let_def)
qed

lemma after_store_other:
  "wid \<notin> set (sl_queue log) \<Longrightarrow> wid \<notin> set (sl_virtual log) \<Longrightarrow>
   sl_walkers (after_store s r log) wid = sl_walkers log wid"
  by (simp add: after_store_def Let_def)

definition stored :: "data_stream \<Rightarrow> reading \<Rightarrow> engine \<Rightarrow> engine" where
  "stored s r e = (if stream_buffered s
     then set_area (stream_output s) (area_data (stream_output s) e @ [r]) e else e)"

lemma stored_engine_ok:
  assumes "engine_ok e" "stream_buffered s \<Longrightarrow>
    int (length (area_data (stream_output s) e)) \<noteq> area_capacity (stream_output s) e"
  shows "engine_ok (stored s r e)"
proof -
  have "int (length (area_data out (stored s r e))) \<le> area_capacity out (stored s r e)" for out
  proof (cases "stream_buffered s \<and> out = stream_output s")
    case True
    moreover have "int (length (area_data out e)) \<le> area_capacity out e"
      using assms(1) by (simp add: engine_ok_area)
    ultimately show ?thesis using assms(2) by (simp add: stored_def)
  next
    case False
    then show ?thesis using assms(1) by (auto simp: stored_def engine_ok_area)
  qed
  then show ?thesis by (simp add: engine_ok_area)
qed

definition after_push :: "data_stream \<Rightarrow> reading \<Rightarrow> sensor_log \<Rightarrow> sensor_log" where
  "after_push s r log = after_store s r (log\<lparr>sl_engine := stored s r (sl_engine log)\<rparr>)"

lemma after_push_fields [simp]:
  "sl_engine (after_push s r log) = stored s r (sl_engine log)"
  "sl_queue (after_push s r log) = sl_queue log"
  "sl_virtual (after_push s r log) = sl_virtual log"
  "sl_next (after_push s r log) = sl_next log"
  "map_of (sl_last_values (after_push s r log)) = (map_of (sl_last_values log))(s \<mapsto> r)"
  by (simp_all add: after_push_def after_store_fields)

lemma after_push_queue:
  assumes "log_ok log" "stream_of_encoded (r_stream r) = s" "wid \<in> set (sl_queue log)"
  shows "\<exists>b b'. sl_walkers log wid = Some (Buffered b) \<and>
    sl_walkers (after_push s r log) wid = Some (Buffered b') \<and> bw_ok (stored s r (sl_engine log)) b' \<and>
    bw_contents (stored s r (sl_engine log)) b' =
      bw_contents (sl_engine log) b @ (if stream_buffered s then matching (bw_selector b) [r] else [])"
proof -
  obtain b where b: "sl_walkers log wid = Some (Buffered b)" "bw_ok (sl_engine log) b"
    using log_okD(5) [OF assms(1,3)] by blast
  have shape: "log_shape (log\<lparr>sl_engine := stored s r (sl_engine log)\<rparr>)"
    using log_ok_shape [OF assms(1)] by (simp add: log_shape_fields)
  show ?thesis
    using b added_view_ok [OF b(2) assms(2) refl] after_store_queue [OF shape, of wid s r] assms(3)
    by (auto simp: after_push_def stored_def)
qed

lemma after_push_virtual:
  assumes "log_ok log" "wid \<in> set (sl_virtual log)"
  shows "\<exists>w. sl_walkers log wid = Some w \<and>
    virtual_walker_ok (stored s r (sl_engine log)) (sl_walkers (after_push s r log) wid) \<and>
    log_contents wid (after_push s r log) =
      (if walker_matches w s then pushed_contents r w else log_contents wid log)"
proof -
  have v: "virtual_walker_ok (sl_engine log) (sl_walkers log wid)"
    using log_okD(6) [OF assms] .
  then obtain w where w: "sl_walkers log wid = Some w"
    by (auto simp: virtual_walker_ok_iff)
  have shape: "log_shape (log\<lparr>sl_engine := stored s r (sl_engine log)\<rparr>)"
    using log_ok_shape [OF assms(1)] by (simp add: log_shape_fields)
  show ?thesis
    using w v pushed_view_ok [of "sl_engine log" w "stored s r (sl_engine log)" s r]
      after_store_virtual [OF shape, of wid s r] assms(2)
    by (simp add: log_contents_def after_store_fields after_push_def)
qed

lemma after_push_ok:
  assumes "log_ok log" "stream_of_encoded (r_stream r) = s"
    "stream_buffered s \<Longrightarrow> int (length (area_data (stream_output s) (sl_engine log)))
       \<noteq> area_capacity (stream_output s) (sl_engine log)"
  shows "log_ok (after_push s r log)"
proof -
  have "queue_walker_ok (stored s r (sl_engine log)) (sl_walkers (after_push s r log) wid)"
    if "wid \<in> set (sl_queue log)" for wid
    using after_push_queue [OF assms(1,2) that] by (auto simp: queue_walker_ok_iff)
  moreover have "virtual_walker_ok (stored s r (sl_engine log)) (sl_walkers (after_push s r log) wid)"
    if "wid \<in> set (sl_virtual log)" for wid
    using after_push_virtual [OF assms(1) that] by blast
  moreover have "sl_walkers (after_push s r log) wid = None" if "sl_next log \<le> wid" for wid
  proof -
    have none: "sl_walkers log wid = None" using log_okD(7) [OF assms(1) that] .
    then have "wid \<notin> set (sl_queue log)" "wid \<notin> set (sl_virtual log)"
      using log_okD(5,6) [OF assms(1), of wid] by (auto simp: virtual_walker_ok_iff)
    with none show ?thesis by (simp add: after_push_def after_store_other)
  qed
  ultimately show ?thesis
    using assms(1,3) stored_engine_ok [of "sl_engine log" s r] by (simp add: log_ok_def)
qed

lemma log_push_room:
  assumes "log_ok log" "stream_encodable s" "stream_hashable s"
    "stream_buffered s \<Longrightarrow> int (length (area_data (stream_output s) (sl_engine log)))
       \<noteq> area_capacity (stream_output s) (sl_engine log)"
  shows "log_push assigned s reading log = (Inr (), after_push s (stamped assigned s reading) log)"
proof -
  let ?r = "stamped assigned s reading"
  have "log_shape (log\<lparr>sl_engine := stored s ?r (sl_engine log)\<rparr>)"
    using log_ok_shape [OF assms(1)] by (simp add: log_shape_fields)
  moreover have "log_store s ?r log = (Inr (), log\<lparr>sl_engine := stored s ?r (sl_engine log)\<rparr>)"
    if "stream_buffered s"
    using log_store_room [of ?r s log] assms(4) that stamped_stream(2) [OF assms(2)]
    by (simp add: stored_def)
  moreover have "log\<lparr>sl_engine := stored s ?r (sl_engine log)\<rparr> = log" if "\<not> stream_buffered s"
    using that by (simp add: stored_def)
  ultimately show ?thesis
    using push_after_store [OF _ assms(3)] unfolding after_push_def by blast
qed

section \<open>Making room\<close>

text \<open>
  The effect of the notifications about overwritten readings \<open>rs\<close> of an area on one walker, and
  whether they leave its count non-negative.
\<close>

definition on_area :: "bool \<Rightarrow> walker \<Rightarrow> bool" where
  "on_area out w = (case w of Buffered b \<Rightarrow> sel_output (bw_selector b) = out | _ \<Rightarrow> False)"

definition rolled :: "bool \<Rightarrow> reading list \<Rightarrow> walker \<Rightarrow> walker" where
  "rolled out rs w = (case w of
     Buffered b \<Rightarrow> Buffered (if sel_output (bw_selector b) = out
       then b\<lparr>bw_offset := bw_offset b - int (length rs),
              bw_count := bw_count b - int (length (matching (bw_selector b) rs))\<rparr> else b)
   | _ \<Rightarrow> w)"

definition rollable :: "bool \<Rightarrow> reading list \<Rightarrow> walker option \<Rightarrow> bool" where
  "rollable out rs w = (case w of
     Some (Buffered b) \<Rightarrow> sel_output (bw_selector b) = out \<longrightarrow>
       int (length (matching (bw_selector b) rs)) \<le> bw_count b
   | _ \<Rightarrow> True)"

lemma rolled_Nil [simp]: "rolled out [] w = w"
  by (simp add: rolled_def split: walker.split)

lemma rolled_append: "rolled out rs (rolled out qs w) = rolled out (qs @ rs) w"
  by (simp add: rolled_def split: walker.split)

lemma rollable_Nil: "(\<forall>b. w = Some (Buffered b) \<longrightarrow> 0 \<le> bw_count b) \<Longrightarrow> rollable out [] w"
  by (auto simp: rollable_def split: option.splits walker.splits)

lemma rollable_Cons:
  "rollable out (r # rs) w \<longleftrightarrow> (rollable out [r] w \<and> rollable out rs (map_option (rolled out [r]) w))
     \<or> (\<not> rollable out [r] w \<and> rollable out (r # rs) w)"
  by (auto simp: rollable_def rolled_def split: option.splits walker.splits if_splits)

lemma update_walkers_twice:
  "update_walkers wids g (update_walkers wids f log) = update_walkers wids (\<lambda>w. g (f w)) log"
  by (auto simp: update_walkers_def fun_eq_iff option.map_comp o_def)

lemma update_walkers_id: "(\<And>w. g w = w) \<Longrightarrow> update_walkers wids g log = log"
proof -
  assume "\<And>w. g w = w"
  then have "g = (\<lambda>w. w)" by (simp add: fun_eq_iff)
  then show ?thesis by (simp add: update_walkers_def option.map_ident cong: if_cong)
qed

lemma for_each_frame:
  "(\<And>x s. P s \<Longrightarrow> P (snd (body x s))) \<Longrightarrow> P s \<Longrightarrow> P (snd (for_each body xs s))"
proof (induction xs arbitrary: s)
  case (Cons x xs)
  have "P (snd (body x s))" using Cons.prems by blast
  moreover obtain y s' where y: "body x s = (y, s')" by (cases "body x s")
  ultimately show ?case using Cons by (cases y) auto
qed simp

lemma notify_rollover_step:
  "bw_count b \<ge> 0 \<Longrightarrow>
   (case Buffered b of Buffered b \<Rightarrow>
       (if sel_output (bw_selector b) = out
        then map_state Buffered (bw_notify_rollover (stream_of_encoded (r_stream r)) b)
        else (Inr (), Buffered b))
     | _ \<Rightarrow> (Inl AttributeError, Buffered b)) =
   (if rollable out [r] (Some (Buffered b)) then (Inr (), rolled out [r] (Buffered b))
    else (Inl InternalError, Buffered (b\<lparr>bw_offset := bw_offset b - 1\<rparr>)))"
  by (auto simp: bw_notify_rollover_def Let_def rollable_def rolled_def)

definition counts_ok :: "sensor_log \<Rightarrow> bool" where
  "counts_ok log \<longleftrightarrow> (\<forall>wid \<in> set (sl_queue log). \<exists>b. sl_walkers log wid = Some (Buffered b) \<and> 0 \<le> bw_count b)"

lemma notify_erased_ok:
  assumes "log_shape log" "counts_ok log"
    "\<forall>wid \<in> set (sl_queue log). rollable out [r] (sl_walkers log wid)"
  shows "notify_erased out r log = (Inr (), update_walkers (sl_queue log) (rolled out [r]) log)"
  unfolding notify_erased_def notify_rollover_def
proof (rule for_each_walkers_const)
  fix wid assume "wid \<in> set (sl_queue log)"
  then obtain b where b: "sl_walkers log wid = Some (Buffered b)" "0 \<le> bw_count b"
    "rollable out [r] (Some (Buffered b))"
    using assms(2,3) unfolding counts_ok_def by metis
  then show "\<exists>w. sl_walkers log wid = Some w \<and> (case w of
         Buffered b \<Rightarrow>
           (if sel_output (bw_selector b) = out
            then map_state Buffered (bw_notify_rollover (stream_of_encoded (r_stream r)) b) else (Inr (), w))
       | _ \<Rightarrow> (Inl AttributeError, w)) = (Inr (), rolled out [r] w)"
    using notify_rollover_step [of b out r] by auto
qed (use assms in \<open>simp add: log_shape_def\<close>)

lemma notify_rollover_raises:
  assumes "distinct wids" "\<forall>wid \<in> set wids. \<exists>b. sl_walkers log wid = Some (Buffered b) \<and> 0 \<le> bw_count b"
    "\<exists>wid \<in> set wids. \<not> rollable out [r] (sl_walkers log wid)"
  shows "fst (for_each (notify_rollover (stream_of_encoded (r_stream r)) out) wids log) = Inl InternalError"
  using assms
proof (induction wids arbitrary: log)
  case Nil
  then show ?case by simp
next
  case (Cons wid wids)
  obtain b where b: "sl_walkers log wid = Some (Buffered b)" "0 \<le> bw_count b"
    using Cons.prems(2) by auto
  note step = notify_rollover_step [OF b(2), of out r]
  show ?case
  proof (cases "rollable out [r] (sl_walkers log wid)")
    case False
    then show ?thesis using step b
      by (simp add: notify_rollover_def on_walker_def)
  next
    case True
    define log1 where "log1 = log\<lparr>sl_walkers := (sl_walkers log)(wid \<mapsto> rolled out [r] (Buffered b))\<rparr>"
    have "notify_rollover (stream_of_encoded (r_stream r)) out wid log = (Inr (), log1)"
      using step b True by (simp add: notify_rollover_def on_walker_def log1_def)
    moreover have "fst (for_each (notify_rollover (stream_of_encoded (r_stream r)) out) wids log1) = Inl InternalError"
    proof (rule Cons.IH)
      show "\<forall>v \<in> set wids. \<exists>b. sl_walkers log1 v = Some (Buffered b) \<and> 0 \<le> bw_count b"
        using Cons.prems(1,2) by (auto simp: log1_def)
      show "\<exists>v \<in> set wids. \<not> rollable out [r] (sl_walkers log1 v)"
        using Cons.prems(1,3) True by (auto simp: log1_def)
    qed (use Cons.prems(1) in simp)
    ultimately show ?thesis by simp
  qed
qed

lemma notify_erased_raises:
  assumes "log_shape log" "counts_ok log"
    "\<exists>wid \<in> set (sl_queue log). \<not> rollable out [r] (sl_walkers log wid)"
  shows "fst (notify_erased out r log) = Inl InternalError"
  unfolding notify_erased_def
  by (rule notify_rollover_raises) (use assms in \<open>auto simp: log_shape_def counts_ok_def\<close>)

lemma counts_ok_rolled:
  assumes "counts_ok log" "\<forall>wid \<in> set (sl_queue log). rollable out [r] (sl_walkers log wid)"
  shows "counts_ok (update_walkers (sl_queue log) (rolled out [r]) log)"
  unfolding counts_ok_def
proof
  fix wid assume "wid \<in> set (sl_queue (update_walkers (sl_queue log) (rolled out [r]) log))"
  then have "wid \<in> set (sl_queue log)" by simp
  moreover from this obtain b where "sl_walkers log wid = Some (Buffered b)" "0 \<le> bw_count b"
    "rollable out [r] (Some (Buffered b))"
    using assms unfolding counts_ok_def by metis
  ultimately show "\<exists>b. sl_walkers (update_walkers (sl_queue log) (rolled out [r]) log) wid = Some (Buffered b)
      \<and> 0 \<le> bw_count b"
    by (simp add: rolled_def rollable_def)
qed

lemma log_shape_rolled: "log_shape log \<Longrightarrow> log_shape (update_walkers wids (rolled out rs) log)"
  by (erule log_shape_update)
    (simp_all add: rolled_def is_buffered_walker_def is_virtual_walker_def split: walker.splits)

text \<open>All notifications of a rollover: they succeed, or the first bad one raises.\<close>

lemma notify_all_erased:
  assumes "log_shape log" "counts_ok log"
  shows "if \<forall>wid \<in> set (sl_queue log). rollable out rs (sl_walkers log wid)
    then for_each (notify_erased out) rs log = (Inr (), update_walkers (sl_queue log) (rolled out rs) log)
    else fst (for_each (notify_erased out) rs log) = Inl InternalError"
  using assms
proof (induction rs arbitrary: log)
  case Nil
  then have "\<forall>wid \<in> set (sl_queue log). rollable out [] (sl_walkers log wid)"
    by (auto simp: counts_ok_def intro!: rollable_Nil)
  then show ?case by (simp add: update_walkers_id)
next
  case (Cons r rs)
  let ?log1 = "update_walkers (sl_queue log) (rolled out [r]) log"
  have mono: "rollable out (r # rs) w \<Longrightarrow> rollable out [r] w" for w
    by (auto simp: rollable_def split: option.splits walker.splits if_splits)
  show ?case
  proof (cases "\<forall>wid \<in> set (sl_queue log). rollable out [r] (sl_walkers log wid)")
    case False
    then have "\<not> (\<forall>wid \<in> set (sl_queue log). rollable out (r # rs) (sl_walkers log wid))"
      using mono by blast
    moreover have "fst (notify_erased out r log) = Inl InternalError"
      using notify_erased_raises [OF Cons.prems] False by blast
    then have "fst (for_each (notify_erased out) (r # rs) log) = Inl InternalError"
      by (auto simp: bind_act_def split: prod.splits sum.splits)
    ultimately show ?thesis by (simp only: if_False)
  next
    case True
    have step: "rollable out (r # rs) (sl_walkers log wid) = rollable out rs (sl_walkers ?log1 wid)"
      if "wid \<in> set (sl_queue log)" for wid
      using rollable_Cons [of out r rs "sl_walkers log wid"] True that by simp
    have "notify_erased out r log = (Inr (), ?log1)"
      using notify_erased_ok [OF Cons.prems True] .
    then have "for_each (notify_erased out) (r # rs) log = for_each (notify_erased out) rs ?log1"
      by simp
    then show ?thesis
      using Cons.IH [OF log_shape_rolled [OF Cons.prems(1)] counts_ok_rolled [OF Cons.prems(2) True]] step
      by (simp add: update_walkers_twice rolled_append)
  qed
qed

lemma notify_erased_engine: "sl_engine (snd (for_each (notify_erased out) rs log)) = sl_engine log"
proof (rule for_each_frame [where P = "\<lambda>s. sl_engine s = sl_engine log"])
  fix r and s :: sensor_log assume s: "sl_engine s = sl_engine log"
  show "sl_engine (snd (notify_erased out r s)) = sl_engine log"
    unfolding notify_erased_def
    by (rule for_each_frame [where P = "\<lambda>s. sl_engine s = sl_engine log"])
      (simp_all add: s notify_rollover_def on_walker_frame)
qed simp

lemma engine_popn_area:
  assumes "0 \<le> n" "n \<le> int (length (area_data out e))"
  shows "engine_popn (if out then ''streaming'' else ''storage'') n e =
    (Inr (take (nat n) (area_data out e)), set_area out (drop (nat n) (area_data out e)) e)"
  using assms by (auto simp: engine_popn_def engine_area_def area_data_def set_area_def py_slice_nonneg Let_def)

lemma update_walkers_engine:
  "update_walkers wids g (log\<lparr>sl_engine := e\<rparr>) = (update_walkers wids g log)\<lparr>sl_engine := e\<rparr>"
  by (simp add: update_walkers_def cong: if_cong)

lemma set_area_twice [simp]: "set_area out d (set_area out d' e) = set_area out d e"
  by (simp add: set_area_def)

lemma log_erase_buffer_eq:
  assumes "log_shape log" "counts_ok log" "dm_get (sl_model log) ''buffer_erase_size'' = Inr n"
    "0 \<le> n" "n \<le> int (length (area_data out (sl_engine log)))"
  shows "if \<forall>wid \<in> set (sl_queue log). rollable out (take (nat n) (area_data out (sl_engine log))) (sl_walkers log wid)
    then log_erase_buffer out log = (Inr (),
      (update_walkers (sl_queue log) (rolled out (take (nat n) (area_data out (sl_engine log)))) log)
        \<lparr>sl_engine := set_area out (drop (nat n) (area_data out (sl_engine log))) (sl_engine log)\<rparr>)
    else fst (log_erase_buffer out log) = Inl InternalError \<and>
      sl_engine (snd (log_erase_buffer out log)) =
        set_area out (drop (nat n) (area_data out (sl_engine log))) (sl_engine log)"
proof -
  let ?rs = "take (nat n) (area_data out (sl_engine log))"
  let ?log1 = "log\<lparr>sl_engine := set_area out (drop (nat n) (area_data out (sl_engine log))) (sl_engine log)\<rparr>"
  have shape: "log_shape ?log1" "counts_ok ?log1"
    using assms(1,2) by (simp_all add: log_shape_fields counts_ok_def)
  have "log_erase_buffer out log = for_each (notify_erased out) ?rs ?log1"
    using assms(3) engine_popn_area [OF assms(4,5)]
    by (simp add: log_erase_buffer_def on_engine_def)
  then show ?thesis
    using notify_all_erased [OF shape, of out ?rs] notify_erased_engine [of out ?rs ?log1]
    by (simp add: update_walkers_engine split: if_splits)
qed

lemma log_ok_counts: "log_ok log \<Longrightarrow> counts_ok log"
  unfolding counts_ok_def by (metis bw_ok_def log_okD(5) of_nat_0_le_iff)

lemma log_store_rollover:
  assumes "log_shape log" "counts_ok log" "is_output_reading r = stream_output s"
    "int (length (area_data (stream_output s) (sl_engine log))) = area_capacity (stream_output s) (sl_engine log)"
    "if stream_output s then sl_rollover_streaming log else sl_rollover_storage log"
    "dm_get (sl_model log) ''buffer_erase_size'' = Inr n"
    "0 < n" "n \<le> area_capacity (stream_output s) (sl_engine log)"
    "erased = take (nat n) (area_data (stream_output s) (sl_engine log))"
    "kept = drop (nat n) (area_data (stream_output s) (sl_engine log))"
  shows "if \<forall>wid \<in> set (sl_queue log). rollable (stream_output s) erased (sl_walkers log wid)
    then log_store s r log = (Inr (),
      (update_walkers (sl_queue log) (rolled (stream_output s) erased) log)
        \<lparr>sl_engine := set_area (stream_output s) (kept @ [r]) (sl_engine log)\<rparr>)
    else fst (log_store s r log) = Inl InternalError \<and>
      sl_engine (snd (log_store s r log)) = set_area (stream_output s) kept (sl_engine log)"
proof -
  have full: "on_engine (engine_push r) log = (Inl StorageFullError, log)"
    using assms(3,4) by (simp add: on_engine_def engine_push_area)
  then have store: "log_store s r log =
      bind_act (log_erase_buffer (stream_output s) log) (\<lambda>_. on_engine (engine_push r))"
    using assms(5) by (simp add: log_store_def split: if_splits)
  have n: "0 \<le> n" "n \<le> int (length (area_data (stream_output s) (sl_engine log)))"
    using assms(4,7,8) by simp_all
  have room: "int (length kept) \<noteq> area_capacity (stream_output s) (sl_engine log)"
    using assms(4,7,8,10) by simp
  have push: "on_engine (engine_push r) (log'\<lparr>sl_engine := set_area (stream_output s) kept (sl_engine log)\<rparr>)
      = (Inr (), log'\<lparr>sl_engine := set_area (stream_output s) (kept @ [r]) (sl_engine log)\<rparr>)" for log'
    using room assms(3) by (simp add: on_engine_def engine_push_area)
  note erase = log_erase_buffer_eq [OF assms(1,2,6) n, folded assms(9,10)]
  show ?thesis
  proof (cases "\<forall>wid \<in> set (sl_queue log). rollable (stream_output s) erased (sl_walkers log wid)")
    case True
    then have "log_erase_buffer (stream_output s) log = (Inr (),
        (update_walkers (sl_queue log) (rolled (stream_output s) erased) log)
          \<lparr>sl_engine := set_area (stream_output s) kept (sl_engine log)\<rparr>)"
      using erase by (simp only: if_True)
    then show ?thesis using True by (simp add: store push)
  next
    case False
    then have "fst (log_erase_buffer (stream_output s) log) = Inl InternalError"
      "sl_engine (snd (log_erase_buffer (stream_output s) log)) = set_area (stream_output s) kept (sl_engine log)"
      using erase by (simp_all only: if_False)
    then have "fst (log_store s r log) = Inl InternalError \<and>
        sl_engine (snd (log_store s r log)) = set_area (stream_output s) kept (sl_engine log)"
      unfolding store by (cases "log_erase_buffer (stream_output s) log") (simp add: bind_act_def)
    then show ?thesis using False by (simp only: if_False)
  qed
qed

text \<open>A walker that stands past the erased readings and selects none of them stays in step.\<close>

lemma rolled_past:
  assumes "bw_ok e b" "bw_storage_type b = area_of sel" "sel = bw_selector b" "sel_output sel = out"
    "n \<le> nat (bw_offset b)" "n \<le> length (area_data out e)" "matching sel (take n (area_data out e)) = []"
    "e' = set_area out (drop n (area_data out e)) e"
  shows "\<exists>b'. rolled out (take n (area_data out e)) (Buffered b) = Buffered b' \<and> bw_ok e' b' \<and>
    bw_contents e' b' = bw_contents e b \<and> bw_selector b' = bw_selector b"
proof -
  have "nat (bw_offset b - int n) + n = nat (bw_offset b)" using assms(1,5) by (auto simp: bw_ok_def)
  then have "drop (nat (bw_offset b - int n)) (drop n (area_data out e)) = drop (nat (bw_offset b)) (area_data out e)"
    by (simp add: add.commute)
  then show ?thesis using assms by (auto simp: rolled_def bw_ok_def bw_contents_def engine_area_data min_def)
qed

section \<open>Clearing\<close>

lemma log_skip_all_eq: "log_skip_all wid log = update_walkers [wid] (walker_skip_all (sl_engine log)) log"
proof (cases "sl_walkers log wid")
  case None
  then have "(\<lambda>v. if v = wid then None else sl_walkers log v) = sl_walkers log" by auto
  then show ?thesis using None by (simp add: log_skip_all_def on_walker_def update_walkers_def cong: if_cong)
next
  case (Some w)
  then show ?thesis by (auto simp: log_skip_all_def on_walker_def update_walkers_def fun_eq_iff)
qed

lemma fold_skip_all:
  "distinct wids \<Longrightarrow> fold log_skip_all wids log = update_walkers wids (walker_skip_all (sl_engine log)) log"
proof (induction wids arbitrary: log)
  case Nil
  then show ?case by (simp add: update_walkers_def)
next
  case (Cons wid wids)
  then show ?case
    by (simp add: log_skip_all_eq) (auto simp: update_walkers_def fun_eq_iff)
qed

lemma log_clear_eq:
  assumes "log_ok log"
  shows "log_clear log = (update_walkers (sl_queue log) (walker_skip_all (engine_clear (sl_engine log)))
      (update_walkers (sl_virtual log) (walker_skip_all (sl_engine log)) log))
    \<lparr>sl_engine := engine_clear (sl_engine log), sl_last_values := []\<rparr>"
  using log_okD(2,3) [OF assms]
  by (simp add: log_clear_def Let_def fold_skip_all update_walkers_engine)

lemma log_clear_ok:
  assumes "log_ok log"
  shows "log_ok (log_clear log)"
    "wid \<in> set (sl_queue log) \<Longrightarrow> log_contents wid (log_clear log) = []"
    "wid \<in> set (sl_virtual log) \<Longrightarrow> sl_walkers log wid = Some w \<Longrightarrow>
      log_contents wid (log_clear log) = (if walker_finite w then [] else log_contents wid log)"
proof -
  let ?e = "engine_clear (sl_engine log)"
  note ok = log_okD [OF assms]
  have q: "\<exists>b. sl_walkers (log_clear log) wid = Some (Buffered b) \<and> bw_ok ?e b \<and> bw_contents ?e b = []"
    if wid: "wid \<in> set (sl_queue log)" for wid
  proof -
    obtain b where b: "sl_walkers log wid = Some (Buffered b)" "bw_ok (sl_engine log) b"
      using ok(5) [OF wid] by blast
    moreover have "wid \<notin> set (sl_virtual log)" using wid ok(4) by blast
    moreover have "sel_buffered (bw_selector b)" "bw_storage_type b = area_of (bw_selector b)"
      using b(2) by (simp_all add: bw_ok_def)
    ultimately show ?thesis using wid bw_skip_all_ok [of b ?e]
      by (simp add: log_clear_eq [OF assms])
  qed
  have v: "\<exists>w. sl_walkers log wid = Some w \<and> sl_walkers (log_clear log) wid = Some (walker_skip_all (sl_engine log) w)
      \<and> virtual_walker_ok (sl_engine log) (Some w)"
    if wid: "wid \<in> set (sl_virtual log)" for wid
  proof -
    have "virtual_walker_ok (sl_engine log) (sl_walkers log wid)" using ok(6) [OF wid] .
    then obtain w where w: "sl_walkers log wid = Some w" "virtual_walker_ok (sl_engine log) (Some w)"
      by (auto simp: virtual_walker_ok_iff)
    moreover have "wid \<notin> set (sl_queue log)" using wid ok(4) by blast
    ultimately show ?thesis using wid by (simp add: log_clear_eq [OF assms])
  qed
  have fields: "sl_queue (log_clear log) = sl_queue log" "sl_virtual (log_clear log) = sl_virtual log"
    "sl_engine (log_clear log) = ?e" "sl_next (log_clear log) = sl_next log"
    by (simp_all add: log_clear_eq [OF assms])
  have "engine_ok ?e" using ok(1) by (auto simp: engine_clear_def engine_ok_def)
  moreover have "sl_walkers (log_clear log) wid = None" if "sl_next log \<le> wid" for wid
    using ok(7) [OF that] by (simp add: log_clear_eq [OF assms])
  moreover have "virtual_walker_ok ?e (sl_walkers (log_clear log) wid)" if "wid \<in> set (sl_virtual log)" for wid
    using v [OF that] walker_safe_virtual [OF walker_skip_all_safe] virtual_walker_ok_engine by metis
  ultimately show "log_ok (log_clear log)"
    using q assms by (simp add: log_ok_def fields queue_walker_ok_iff) blast
  show "log_contents wid (log_clear log) = []" if "wid \<in> set (sl_queue log)"
    using q [OF that] by (auto simp: log_contents_def fields)
  show "log_contents wid (log_clear log) = (if walker_finite w then [] else log_contents wid log)"
    if "wid \<in> set (sl_virtual log)" "sl_walkers log wid = Some w"
    using v [OF that(1)] that(2)
    by (cases w) (auto simp: log_contents_def fields virtual_walker_ok_iff walker_finite_def
        vw_skip_all_def vw_iter_def cw_skip_all_def cw_iter_def split: option.splits)
qed

lemma log_create_walker_raises:
  assumes "\<not> sel_buffered sel" "\<not> sel_singular sel"
  shows "log_create_walker sel skip log = (Inl ArgumentError, log)"
  using assms by (simp add: log_create_walker_def vw_new_def cw_new_def sel_singular_def)

lemma log_destroy_walker_ok:
  assumes "log_ok log"
  shows "log_ok (snd (log_destroy_walker wid log))"
proof -
  have "log_ok (log\<lparr>sl_queue := remove1 wid (sl_queue log)\<rparr>)" "log_ok (log\<lparr>sl_virtual := remove1 wid (sl_virtual log)\<rparr>)"
    using assms by (auto simp: log_ok_def)
  then show ?thesis using assms
    by (simp add: log_destroy_walker_def py_remove_def split: option.split sum.split bool.split)
qed

section \<open>Runs of a log\<close>

text \<open>
  The calls a client makes on a log that does not overwrite: a reading is pushed into an area with
  room, or the area is in fill-stop mode.  A numeric seek is to a non-negative offset.
\<close>

definition may_push :: "data_stream \<Rightarrow> sensor_log \<Rightarrow> bool" where
  "may_push s log \<longleftrightarrow> stream_encodable s \<and> stream_hashable s \<and> (stream_buffered s \<longrightarrow>
     int (length (area_data (stream_output s) (sl_engine log))) \<noteq> area_capacity (stream_output s) (sl_engine log) \<or>
     \<not> (if stream_output s then sl_rollover_streaming log else sl_rollover_storage log))"

inductive log_step :: "sensor_log \<Rightarrow> sensor_log \<Rightarrow> bool" where
  create: "log_create_walker sel skip log = (res, log') \<Longrightarrow> log_step log log'"
| destroy: "log_step log (snd (log_destroy_walker wid log))"
| destroy_all: "log_step log (log_destroy_all_walkers log)"
| push: "may_push s log \<Longrightarrow> log_step log (snd (log_push assigned s reading log))"
| pop: "log_step log (snd (log_pop wid log))"
| seek: "target = ''offset'' \<longrightarrow> 0 \<le> v \<Longrightarrow> log_step log (snd (log_seek wid v target log))"
| skip: "log_step log (log_skip_all wid log)"
| clear: "log_step log (log_clear log)"
| set_rollover: "log_step log (snd (log_set_rollover area enabled log))"
| watch: "log_step log (snd (log_watch sel callback log))"

inductive_cases log_stepE: "log_step log log'"

lemma log_push_may:
  assumes "log_ok log" "may_push s log"
  shows "log_ok (snd (log_push assigned s reading log))"
proof (cases "stream_buffered s \<longrightarrow>
    int (length (area_data (stream_output s) (sl_engine log))) \<noteq> area_capacity (stream_output s) (sl_engine log)")
  case True
  then show ?thesis
    using log_push_room [OF assms(1), of s assigned reading] assms(2) stamped_stream [of s assigned reading]
      after_push_ok [OF assms(1), of "stamped assigned s reading" s]
    by (simp add: may_push_def)
next
  case False
  then have "log_store s (stamped assigned s reading) log = (Inl StorageFullError, log)"
    using assms(2) stamped_stream(2) [of s assigned reading]
    by (intro log_store_fill_stop) (auto simp: may_push_def)
  then show ?thesis using False assms(1) log_push_raises by fastforce
qed

lemma log_step_ok:
  assumes "log_step log log'" "log_ok log"
  shows "log_ok log'"
  using assms
proof (cases rule: log_step.cases)
  case (create sel skip res)
  then show ?thesis
    using log_create_walker_ok [OF assms(2), of sel skip] log_create_walker_raises [of sel skip log] assms(2)
    by (cases "sel_buffered sel \<or> sel_singular sel") auto
next
  case destroy_all
  then show ?thesis using assms(2) by (simp add: log_destroy_all_walkers_def log_ok_def)
next
  case (set_rollover area enabled)
  then show ?thesis using assms(2) by (auto simp: log_set_rollover_def log_ok_def)
next
  case (watch sel callback)
  then show ?thesis using assms(2) by (auto simp: log_watch_def log_ok_def Let_def)
qed (auto simp: log_destroy_walker_ok log_push_may log_pop_ok log_seek_ok log_skip_all_ok log_clear_ok)

lemma log_run_ok: "log_step\<^sup>*\<^sup>* log log' \<Longrightarrow> log_ok log \<Longrightarrow> log_ok log'"
  by (induction rule: rtranclp_induct) (auto intro: log_step_ok)

section \<open>Properties\<close>

text \<open>
  C1: pushing a reading when there is room for it (or when its stream is not buffered).  The call
  succeeds and keeps the invariant of the log; the reading is appended to its storage area; every
  buffered walker has exactly this reading added to what it will still read, if its selector covers
  the stream; every virtual walker on the stream now holds just this reading and every counter walker
  one more; \<open>inspect_last\<close> shows the reading.  The reading is stamped with the stream and, for a
  buffered stream, with the id that was assigned.
\<close>

theorem push_updates_walkers:
  assumes "log_ok log" "stream_encodable s" "stream_hashable s"
    "stream_buffered s \<longrightarrow> int (length (area_data (stream_output s) (sl_engine log)))
       \<noteq> area_capacity (stream_output s) (sl_engine log)"
    "r = stamped assigned s reading"
  shows "\<exists>log'. log_push assigned s reading log = (Inr (), log') \<and> log_ok log' \<and>
    log_inspect_last s False log' = Inr r \<and>
    area_data (stream_output s) (sl_engine log') = area_data (stream_output s) (sl_engine log) @
      (if stream_buffered s then [r] else []) \<and>
    area_data (\<not> stream_output s) (sl_engine log') = area_data (\<not> stream_output s) (sl_engine log) \<and>
    (\<forall>wid \<in> set (sl_queue log). \<exists>b. sl_walkers log wid = Some (Buffered b) \<and>
       log_contents wid log' = log_contents wid log @ (if sel_matches (bw_selector b) s then [r] else [])) \<and>
    (\<forall>wid \<in> set (sl_virtual log). \<exists>w. sl_walkers log wid = Some w \<and>
       log_contents wid log' = (if walker_matches w s then pushed_contents r w else log_contents wid log))"
proof -
  let ?log' = "after_push s r log"
  have s: "stream_of_encoded (r_stream r) = s" using stamped_stream(1) [OF assms(2)] assms(5) by simp
  have room: "stream_buffered s \<Longrightarrow> int (length (area_data (stream_output s) (sl_engine log)))
       \<noteq> area_capacity (stream_output s) (sl_engine log)"
    using assms(4) by blast
  have "log_push assigned s reading log = (Inr (), ?log')"
    using log_push_room [OF assms(1-3) room] assms(5) by simp
  moreover have "log_ok ?log'" using after_push_ok [OF assms(1) s room] .
  moreover have "log_inspect_last s False ?log' = Inr r"
    using assms(3) by (simp add: log_inspect_last_def)
  moreover have "\<exists>b. sl_walkers log wid = Some (Buffered b) \<and> log_contents wid ?log' = log_contents wid log @
      (if sel_matches (bw_selector b) s then [r] else [])" if q: "wid \<in> set (sl_queue log)" for wid
  proof -
    obtain b where b: "sl_walkers log wid = Some (Buffered b)" "bw_ok (sl_engine log) b"
      using log_okD(5) [OF assms(1) q] by blast
    then have "sel_matches (bw_selector b) s \<Longrightarrow> stream_buffered s"
      using sel_matches_kind by (auto simp: bw_ok_def)
    with after_push_queue [OF assms(1) s q] b(1) show ?thesis
      by (auto simp: log_contents_def s)
  qed
  moreover have "\<exists>w. sl_walkers log wid = Some w \<and> log_contents wid ?log' =
      (if walker_matches w s then pushed_contents r w else log_contents wid log)"
    if "wid \<in> set (sl_virtual log)" for wid
    using after_push_virtual [OF assms(1) that] by blast
  ultimately show ?thesis by (intro exI [of _ ?log']) (simp add: stored_def)
qed

definition small_model :: device_model where
  "small_model = new_device_model(''max_storage_buffer'' \<mapsto> 3, ''buffer_erase_size'' \<mapsto> 1)"

definition small_log :: sensor_log where
  "small_log = snd (log_create_walker \<lparr>match_type = 0, match_id = Some 1, match_spec = 3\<rparr> False
     (case new_sensor_log None (Some small_model) of Inr l \<Rightarrow> l | Inl e \<Rightarrow> undefined))"

definition user_stream :: "int \<Rightarrow> data_stream" where
  "user_stream i = new_stream BufferedType i False"

lemma small_engine: "sl_engine small_log =
    \<lparr>storage_length = 3, streaming_length = 48896, storage_data = [], streaming_data = []\<rparr>"
  by (simp add: small_log_def new_sensor_log_def new_engine_def dm_get_def small_model_def new_device_model_def
    dm_add_property_def log_create_walker_def sel_defs bw_new_def engine_count_def engine_count_matching_def alloc_walker_def)

lemma small_log_ok: "log_ok small_log"
proof -
  obtain l where l: "new_sensor_log None (Some small_model) = Inr l"
    by (simp add: new_sensor_log_def new_engine_def dm_get_def small_model_def new_device_model_def dm_add_property_def)
  have "log_ok l"
    by (rule new_sensor_log_ok [OF l]) (auto simp: small_model_def new_device_model_def dm_add_property_def)
  from log_create_walker_ok [OF this, of "\<lparr>match_type = 0, match_id = Some 1, match_spec = 3\<rparr>" False]
  show ?thesis by (auto simp: small_log_def l sel_defs)
qed

theorem push_updates_walkers_witness:
  "\<exists>log'. log_push (Some 7) (user_stream 1) (sample_reading 0 42 0) small_log = (Inr (), log') \<and>
     log_inspect_last (user_stream 1) False log' = Inr (sample_reading 1 42 7)"
proof -
  have "stamped (Some 7) (user_stream 1) (sample_reading 0 42 0) = sample_reading 1 42 7"
    by (simp add: stamped_def user_stream_def sample_reading_def new_reading_def new_stream_def
        stream_buffered_def stream_encode_def try_assign_utc_time_def)
  then show ?thesis
    using push_updates_walkers [of small_log "user_stream 1" "sample_reading 1 42 7" "Some 7" "sample_reading 0 42 0",
        OF small_log_ok]
    by (auto simp: user_stream_def stream_encodable_def stream_hashable_def TypeToString_def new_stream_def
        small_engine area_data_def area_capacity_def stream_output_def)
qed

text \<open>
  Fill-stop mode.  If the area of a buffered stream is full and rollover is disabled for it,
  \<open>push\<close> raises \<open>StorageFullError\<close> and changes nothing.
\<close>

theorem push_fill_stop:
  assumes "stream_encodable s" "stream_buffered s"
    "int (length (area_data (stream_output s) (sl_engine log))) = area_capacity (stream_output s) (sl_engine log)"
    "\<not> (if stream_output s then sl_rollover_streaming log else sl_rollover_storage log)"
  shows "log_push assigned s reading log = (Inl StorageFullError, log)"
  using log_push_raises [OF assms(2)]
    log_store_fill_stop [OF stamped_stream(2) [OF assms(1), of assigned reading] assms(3,4)]
  by blast

definition full_log :: "bool \<Rightarrow> sensor_log" where
  "full_log rollover = snd (log_set_rollover ''storage'' rollover
     (small_log\<lparr>sl_engine := (sl_engine small_log)\<lparr>storage_data :=
        [sample_reading 1 10 1, sample_reading 1 20 2, sample_reading 1 30 3]\<rparr>,
        sl_walkers := [0 \<mapsto> Buffered (sample_walker 0 3)]\<rparr>))"

theorem push_fill_stop_witness:
  "log_push (Some 7) (user_stream 1) (sample_reading 0 42 0) (full_log False) = (Inl StorageFullError, full_log False)"
  by (rule push_fill_stop)
    (simp_all add: user_stream_def stream_encodable_def new_stream_def full_log_def small_engine area_data_def
      area_capacity_def stream_output_def stream_buffered_def log_set_rollover_def)

text \<open>
  Ring-buffer mode.  Pushing into a full area erases its \<open>n\<close> oldest readings first.  If the count
  of every buffered walker on the area is at least the number of erased readings it selects, the push
  succeeds, the area holds the kept readings and the new one, and a walker that stands past the erased
  readings and selects none of them gains exactly the new reading if it selects it.  Otherwise, for
  instance when a walker has already read the readings that are erased, \<open>push\<close> raises
  \<open>InternalError\<close> after the erasure and the new reading is lost.
\<close>

theorem push_rollover:
  assumes "log_ok log" "stream_encodable s" "stream_hashable s" "stream_buffered s" "out = stream_output s"
    "int (length (area_data out (sl_engine log))) = area_capacity out (sl_engine log)"
    "if out then sl_rollover_streaming log else sl_rollover_storage log"
    "dm_get (sl_model log) ''buffer_erase_size'' = Inr (int n)" "0 < n" "int n \<le> area_capacity out (sl_engine log)"
    "erased = take n (area_data out (sl_engine log))" "kept = drop n (area_data out (sl_engine log))"
    "r = stamped assigned s reading"
  shows "if \<forall>wid \<in> set (sl_queue log). rollable out erased (sl_walkers log wid)
    then \<exists>log'. log_push assigned s reading log = (Inr (), log') \<and>
      area_data out (sl_engine log') = kept @ [r] \<and>
      area_data (\<not> out) (sl_engine log') = area_data (\<not> out) (sl_engine log) \<and>
      (\<forall>wid \<in> set (sl_queue log). \<forall>b. sl_walkers log wid = Some (Buffered b) \<longrightarrow>
         sel_output (bw_selector b) = out \<longrightarrow> n \<le> nat (bw_offset b) \<longrightarrow> matching (bw_selector b) erased = [] \<longrightarrow>
         queue_walker_ok (sl_engine log') (sl_walkers log' wid) \<and>
         log_contents wid log' = log_contents wid log @ (if sel_matches (bw_selector b) s then [r] else []))
    else fst (log_push assigned s reading log) = Inl InternalError \<and>
      area_data out (sl_engine (snd (log_push assigned s reading log))) = kept"
proof -
  note shape = log_ok_shape [OF assms(1)]
  have r: "stream_of_encoded (r_stream r) = s" "is_output_reading r = stream_output s"
    using stamped_stream [OF assms(2)] assms(13) by simp_all
  let ?log1 = "(update_walkers (sl_queue log) (rolled out erased) log)
        \<lparr>sl_engine := set_area out (kept @ [r]) (sl_engine log)\<rparr>"
  have store: "if \<forall>wid \<in> set (sl_queue log). rollable out erased (sl_walkers log wid)
    then log_store s r log = (Inr (), ?log1)
    else fst (log_store s r log) = Inl InternalError \<and>
      sl_engine (snd (log_store s r log)) = set_area out kept (sl_engine log)"
    unfolding assms(5)
    by (rule log_store_rollover [OF shape log_ok_counts [OF assms(1)] r(2), where n = "int n"])
      (use assms(5-12) in simp_all)
  show ?thesis
  proof (cases "\<forall>wid \<in> set (sl_queue log). rollable out erased (sl_walkers log wid)")
    case False
    then have "fst (log_store s r log) = Inl InternalError \<and>
        sl_engine (snd (log_store s r log)) = set_area out kept (sl_engine log)"
      using store by (simp only: if_False)
    then obtain l where "log_store s r log = (Inl InternalError, l)"
      "sl_engine l = set_area out kept (sl_engine log)"
      by (cases "log_store s r log") auto
    then have "log_push assigned s reading log = (Inl InternalError, l)" "area_data out (sl_engine l) = kept"
      using log_push_raises [OF assms(4)] assms(13) by simp_all
    then show ?thesis using False by (simp only: if_False fst_conv snd_conv)
  next
    case True
    have shape1: "log_shape ?log1" using log_shape_rolled [OF shape] by (simp add: log_shape_fields)
    have "log_store s r log = (Inr (), ?log1)" using store True by (simp only: if_True)
    then have "log_push assigned s reading log = (Inr (), after_store s r ?log1)"
      using push_after_store [OF shape1 assms(3)] assms(4,13) by blast
    moreover have "queue_walker_ok (sl_engine (after_store s r ?log1)) (sl_walkers (after_store s r ?log1) wid) \<and>
         log_contents wid (after_store s r ?log1) = log_contents wid log @ (if sel_matches (bw_selector b) s then [r] else [])"
      if wid: "wid \<in> set (sl_queue log)" and b: "sl_walkers log wid = Some (Buffered b)"
        "sel_output (bw_selector b) = out" "n \<le> nat (bw_offset b)" "matching (bw_selector b) erased = []" for wid b
    proof -
      let ?e1 = "set_area out kept (sl_engine log)"
      have ok: "bw_ok (sl_engine log) b" "bw_storage_type b = area_of (bw_selector b)"
        using log_okD(5) [OF assms(1) wid] b by (auto simp: bw_ok_def)
      have n: "n \<le> length (area_data out (sl_engine log))" using assms(6,10) by simp
      obtain b' where b': "rolled out erased (Buffered b) = Buffered b'" "bw_ok ?e1 b'"
        "bw_contents ?e1 b' = bw_contents (sl_engine log) b" "bw_selector b' = bw_selector b"
        using rolled_past [OF ok refl b(2,3) n _ refl] b(4) assms(11,12) by auto
      have "set_area out (kept @ [r]) (sl_engine log) =
          set_area (stream_output s) (area_data (stream_output s) ?e1 @ [r]) ?e1"
        using assms(5) by simp
      from added_view_ok [OF b'(2) r(1) this] b' show ?thesis
        using after_store_queue [OF shape1, of wid s r] wid b(1) assms(4)
        by (auto simp: after_store_fields queue_walker_ok_iff log_contents_def r(1))
    qed
    ultimately show ?thesis using True by (auto simp: after_store_fields)
  qed
qed


lemma small_fields:
  "sl_queue small_log = [0]" "sl_virtual small_log = []" "sl_next small_log = 1" "sl_model small_log = small_model"
  by (simp_all add: small_log_def new_sensor_log_def new_engine_def dm_get_def small_model_def new_device_model_def
    dm_add_property_def log_create_walker_def sel_defs bw_new_def engine_count_def engine_count_matching_def alloc_walker_def)

lemma full_log_fields:
  "sl_queue (full_log b) = [0]" "sl_virtual (full_log b) = []" "sl_next (full_log b) = 1"
  "sl_model (full_log b) = small_model" "sl_rollover_storage (full_log b) = b"
  "sl_walkers (full_log b) = [0 \<mapsto> Buffered (sample_walker 0 3)]"
  "sl_engine (full_log b) = \<lparr>storage_length = 3, streaming_length = 48896,
     storage_data = [sample_reading 1 10 1, sample_reading 1 20 2, sample_reading 1 30 3], streaming_data = []\<rparr>"
  by (simp_all add: full_log_def log_set_rollover_def small_fields small_engine)

lemma full_log_ok: "log_ok (full_log b)"
  by (simp add: full_log_fields log_ok_def engine_ok_def queue_walker_ok_def sample_defs)

lemma user_stream_simps:
  "stream_encodable (user_stream 1)" "stream_hashable (user_stream 1)" "stream_buffered (user_stream 1)"
  "stream_output (user_stream 1) = False"
  by (simp_all add: user_stream_def stream_encodable_def stream_hashable_def TypeToString_def new_stream_def
      stream_buffered_def stream_output_def)

theorem push_rollover_witness:
  "fst (log_push (Some 4) (user_stream 1) (sample_reading 0 40 0) (full_log True)) = Inr ()"
proof -
  have all: "\<forall>wid \<in> set (sl_queue (full_log True)).
      rollable False [sample_reading 1 10 1] (sl_walkers (full_log True) wid)"
    by (simp add: full_log_fields rollable_def sample_defs)
  obtain r where r: "r = stamped (Some 4) (user_stream 1) (sample_reading 0 40 0)" by blast
  have area: "area_data False (sl_engine (full_log True)) =
      [sample_reading 1 10 1, sample_reading 1 20 2, sample_reading 1 30 3]"
    "area_capacity False (sl_engine (full_log True)) = 3"
    by (simp_all add: full_log_fields area_data_def area_capacity_def)
  have full: "int (length (area_data False (sl_engine (full_log True)))) = area_capacity False (sl_engine (full_log True))"
    "int 1 \<le> area_capacity False (sl_engine (full_log True))" "(0::nat) < 1"
    "if False then sl_rollover_streaming (full_log True) else sl_rollover_storage (full_log True)"
    "dm_get (sl_model (full_log True)) ''buffer_erase_size'' = Inr (int 1)"
    "[sample_reading 1 10 1] = take 1 (area_data False (sl_engine (full_log True)))"
    by (simp_all add: full_log_fields area_data_def area_capacity_def dm_get_def small_model_def)
  note main = push_rollover [OF full_log_ok user_stream_simps(1-3) user_stream_simps(4) [symmetric]
      full(1,4,5,3,2,6) refl r]
  show ?thesis using main unfolding if_P [OF all] by (elim exE conjE) simp
qed

definition rolled_data :: "reading list" where
  "rolled_data = [sample_reading 1 20 2, sample_reading 1 30 3, sample_reading 1 40 4]"

lemma rolled_log:
  "\<exists>log1. log_push (Some 4) (user_stream 1) (sample_reading 0 40 0) (full_log True) = (Inr (), log1) \<and>
    sl_walkers log1 0 = Some (Buffered (sample_walker (-1) 3)) \<and> storage_data (sl_engine log1) = rolled_data"
proof -
  let ?r = "stamped (Some 4) (user_stream 1) (sample_reading 0 40 0)"
  let ?log1 = "(update_walkers [0] (rolled False [sample_reading 1 10 1]) (full_log True))
      \<lparr>sl_engine := (sl_engine (full_log True))\<lparr>storage_data := rolled_data\<rparr>\<rparr>"
  have r: "?r = sample_reading 1 40 4"
    by (simp add: stamped_def user_stream_def sample_reading_def new_reading_def new_stream_def
        stream_buffered_def stream_encode_def try_assign_utc_time_def)
  have "log_store (user_stream 1) ?r (full_log True) = (Inr (), ?log1)"
    unfolding r
    using log_store_rollover [OF log_ok_shape [OF full_log_ok] log_ok_counts [OF full_log_ok],
        of "sample_reading 1 40 4" "user_stream 1" True 1]
    by (simp add: user_stream_simps full_log_fields area_data_def area_capacity_def dm_get_def small_model_def
        rollable_def sample_defs set_area_def rolled_data_def is_output_reading_def)
  moreover have "log_shape ?log1"
    using log_shape_rolled [OF log_ok_shape [OF full_log_ok]] by (simp add: log_shape_fields)
  ultimately have "log_push (Some 4) (user_stream 1) (sample_reading 0 40 0) (full_log True) =
      (Inr (), after_store (user_stream 1) ?r ?log1)"
    using push_after_store user_stream_simps by blast
  moreover have "sl_walkers (after_store (user_stream 1) ?r ?log1) 0 = Some (Buffered (sample_walker (-1) 3))"
    by (simp add: after_store_def Let_def user_stream_simps full_log_fields rolled_def added_view_def sample_defs
        bw_notify_added_def) (simp add: user_stream_def new_stream_def stream_output_def)
  ultimately show ?thesis by (simp add: after_store_fields)
qed

text \<open>
  Overwriting disturbs a reader that has not caught up.  In a log with room for three readings that
  erases one at a time, a walker that has read none of the three stored readings 10, 20, 30 reads, after
  40 is pushed, first 40 and then 20 and 30.
\<close>

theorem rollover_reorders:
  "(case log_push (Some 4) (user_stream 1) (sample_reading 0 40 0) (full_log True) of (res, log1) \<Rightarrow>
    (case log_pop 0 log1 of (r1, log2) \<Rightarrow>
    (case log_pop 0 log2 of (r2, log3) \<Rightarrow>
    (case log_pop 0 log3 of (r3, log4) \<Rightarrow>
      res = Inr () \<and> map_sum id r_value r1 = Inr 40 \<and> map_sum id r_value r2 = Inr 20 \<and>
      map_sum id r_value r3 = Inr 30))))"
proof -
  obtain log1 where log1: "log_push (Some 4) (user_stream 1) (sample_reading 0 40 0) (full_log True) = (Inr (), log1)"
    "sl_walkers log1 0 = Some (Buffered (sample_walker (-1) 3))" "storage_data (sl_engine log1) = rolled_data"
    using rolled_log by blast
  define log2 where "log2 = log1\<lparr>sl_walkers := (sl_walkers log1)(0 \<mapsto> Buffered (sample_walker 0 2))\<rparr>"
  define log3 where "log3 = log2\<lparr>sl_walkers := (sl_walkers log2)(0 \<mapsto> Buffered (sample_walker 1 1))\<rparr>"
  note area = rolled_data_def engine_get_def engine_area_def py_nth_def reads_def
  have "log_pop 0 log1 = (Inr (sample_reading 1 40 4), log2)"
    using log1(2,3) by (simp add: log_pop_def on_walker_def bw_pop_def pop_loop.simps area sample_defs log2_def)
  moreover have "log_pop 0 log2 = (Inr (sample_reading 1 20 2), log3)"
    using log1(3) by (simp add: log_pop_def on_walker_def bw_pop_def pop_loop.simps area sample_defs log2_def log3_def)
  moreover have "\<exists>log4. log_pop 0 log3 = (Inr (sample_reading 1 30 3), log4)"
    using log1(3) by (simp add: log_pop_def on_walker_def bw_pop_def pop_loop.simps area sample_defs log2_def log3_def)
  ultimately show ?thesis using log1(1) by (auto simp: sample_reading_def new_reading_def)
qed


text \<open>
  The invariant of the log holds in every state that its operations reach.  From a new log,
  creating and destroying walkers, reading and seeking through them, clearing, configuring and pushing
  (into an area with room or in fill-stop mode) keep the engine within its capacity, the lists of
  walkers free of duplicates and every walker in step with the engine.
\<close>

theorem log_reachable_ok:
  assumes "new_sensor_log eng mdl = Inr log" "log_step\<^sup>*\<^sup>* log log'"
    "\<And>e. eng = Some e \<Longrightarrow> engine_ok e"
    "\<And>m. mdl = Some m \<Longrightarrow> \<exists>a b. 0 \<le> a \<and> 0 \<le> b \<and> m ''max_storage_buffer'' = Some a
       \<and> m ''max_streaming_buffer'' = Some b"
  shows "engine_ok (sl_engine log') \<and> distinct (sl_queue log' @ sl_virtual log') \<and>
    (\<forall>wid \<in> set (sl_queue log'). \<exists>b. sl_walkers log' wid = Some (Buffered b) \<and>
       bw_count b = int (length (bw_contents (sl_engine log') b)) \<and> bw_ok (sl_engine log') b)"
proof -
  have "log_ok log'" using log_run_ok [OF assms(2) new_sensor_log_ok [OF assms(1,3,4)]] .
  then show ?thesis
    by (auto simp: log_ok_def queue_walker_ok_iff bw_ok_def)
qed

theorem log_reachable_ok_witness:
  "\<exists>log (log'::sensor_log). new_sensor_log None (Some small_model) = Inr log \<and> sl_queue log' = [0] \<and>
     engine_ok (sl_engine log')"
proof -
  obtain l where l: "new_sensor_log None (Some small_model) = Inr l"
    by (simp add: new_sensor_log_def new_engine_def dm_get_def small_model_def new_device_model_def dm_add_property_def)
  have "log_step l small_log"
    using log_step.create [of "\<lparr>match_type = 0, match_id = Some 1, match_spec = 3\<rparr>" False l] l
    by (metis (no_types, lifting) prod.collapse small_log_def sum.case(2))
  then have "log_step\<^sup>*\<^sup>* l small_log" by blast
  from log_reachable_ok [OF l this] have "engine_ok (sl_engine small_log)"
    by (auto simp: small_model_def new_device_model_def dm_add_property_def)
  then show ?thesis using l small_fields(1) by blast
qed

text \<open>
  C22: \<open>clear\<close>.  The engine is emptied, no buffered walker has anything left to read, a virtual or counter
  walker is emptied unless its stream is constant, no last value is remembered, and the invariant holds.
\<close>

theorem log_clear_empties:
  assumes "log_ok log"
  shows "log_ok (log_clear log) \<and> log_engine_count (log_clear log) = (0, 0) \<and>
    (\<forall>wid \<in> set (sl_queue log). log_contents wid (log_clear log) = []) \<and>
    (\<forall>wid \<in> set (sl_virtual log). \<forall>w. sl_walkers log wid = Some w \<longrightarrow>
       log_contents wid (log_clear log) = (if walker_finite w then [] else log_contents wid log)) \<and>
    (\<forall>s. stream_hashable s \<longrightarrow> log_inspect_last s False (log_clear log) = Inl StreamEmptyError)"
  using log_clear_ok [OF assms] log_clear_eq [OF assms]
  by (simp add: log_engine_count_def engine_count_def engine_clear_def log_inspect_last_def)

theorem log_clear_empties_witness:
  "log_contents 0 (full_log True) = [sample_reading 1 10 1, sample_reading 1 20 2, sample_reading 1 30 3] \<and>
   log_contents 0 (log_clear (full_log True)) = []"
  using log_clear_empties [OF full_log_ok, of True]
  by (simp add: full_log_fields log_contents_def) (simp add: sample_defs)

end
