(* ===== verification/Nodes.thy ===== *)
theory Nodes
  imports Sensor_Log
begin

text \<open>
  Sensor graph nodes (\<open>iotile/sg/node.py\<close>): input triggers, the wiring of a node, and when it fires.
\<close>

section \<open>The inputs of a node\<close>

text \<open>
  An input holds a walker of the sensor log, given by its number, or the \<open>InvalidStreamWalker(None)\<close>
  of an unconnected input, given as \<open>None\<close>.  The walker methods are lifted to such references.
\<close>

type_synonym input_ref = "nat option"

definition in_walker :: "sensor_log \<Rightarrow> input_ref \<Rightarrow> walker" where
  "in_walker log ref = (case ref of
     None \<Rightarrow> Invalid None
   | Some wid \<Rightarrow> (case sl_walkers log wid of None \<Rightarrow> Invalid None | Some w \<Rightarrow> w))"

definition in_count :: "input_ref \<Rightarrow> sensor_log \<Rightarrow> int" where
  "in_count ref log = walker_count (in_walker log ref)"

definition in_selector :: "input_ref \<Rightarrow> sensor_log \<Rightarrow> selector option" where
  "in_selector ref log = walker_selector (in_walker log ref)"

definition in_matches :: "input_ref \<Rightarrow> sensor_log \<Rightarrow> data_stream \<Rightarrow> bool" where
  "in_matches ref log s = walker_matches (in_walker log ref) s"

definition in_peek :: "input_ref \<Rightarrow> sensor_log \<Rightarrow> reading res" where
  "in_peek ref log = walker_peek (sl_engine log) (in_walker log ref)"

fun in_pop :: "input_ref \<Rightarrow> sensor_log \<Rightarrow> (reading, sensor_log) act" where
  "in_pop None log = (Inl StreamEmptyError, log)"
| "in_pop (Some wid) log = log_pop wid log"

fun in_skip_all :: "input_ref \<Rightarrow> sensor_log \<Rightarrow> sensor_log" where
  "in_skip_all None log = log"
| "in_skip_all (Some wid) log = log_skip_all wid log"

definition in_contents :: "input_ref \<Rightarrow> sensor_log \<Rightarrow> reading list" where
  "in_contents ref log = walker_contents (sl_engine log) (in_walker log ref)"

text \<open>A reference to a walker that is in step and runs out of readings.\<close>

definition in_readable :: "input_ref \<Rightarrow> sensor_log \<Rightarrow> bool" where
  "in_readable ref log \<longleftrightarrow> (case ref of None \<Rightarrow> True | Some wid \<Rightarrow> log_readable wid log)"

lemma in_contents_simps [simp]:
  "in_contents None log = []"
  "in_contents (Some wid) log = log_contents wid log"
  by (auto simp: in_contents_def in_walker_def log_contents_def split: option.split)

lemma in_count_simps [simp]:
  "in_count None log = 0"
  "in_count (Some wid) log = log_count wid log"
  by (auto simp: in_count_def in_walker_def log_count_def split: option.split)

interpretation input: reader "in_count ref" "in_pop ref" "in_contents ref" "in_readable ref" for ref
proof unfold_locales
  fix log
  assume "in_readable ref log"
  then show "in_count ref log = int (length (in_contents ref log))"
    using log_reader.count_contents by (cases ref) (simp_all add: in_readable_def)
next
  fix log r rs
  assume "in_readable ref log" "in_contents ref log = r # rs"
  then show "\<exists>log'. in_pop ref log = (Inr r, log') \<and> in_contents ref log' = rs \<and> in_readable ref log'"
    using log_reader.pop_next by (cases ref) (simp_all add: in_readable_def)
next
  fix log
  assume "in_readable ref log" "in_contents ref log = []"
  then show "in_pop ref log = (Inl StreamEmptyError, log)"
    using log_reader.pop_empty by (cases ref) (simp_all add: in_readable_def)
qed

lemma in_peek_next: "in_readable ref log \<Longrightarrow> in_contents ref log = r # rs \<Longrightarrow> in_peek ref log = Inr r"
  using walker_peek_next [of "sl_engine log" "in_walker log ref" r rs]
  by (cases ref) (auto simp: in_readable_def log_readable_def in_peek_def log_contents_def in_walker_def)

section \<open>Triggers\<close>

record input_trigger =
  use_count :: bool
  comp_string :: string
  reference :: int

definition known_comps :: "string list" where
  "known_comps = [''>'', ''>='', ''<'', ''<='', ''=='']"

definition comp_function :: "string \<Rightarrow> int \<Rightarrow> int \<Rightarrow> bool" where
  "comp_function c v ref =
     (if c = ''>'' then v > ref else if c = ''>='' then v \<ge> ref
      else if c = ''<'' then v < ref else if c = ''<='' then v \<le> ref else v = ref)"

definition new_input_trigger :: "string \<Rightarrow> string \<Rightarrow> int \<Rightarrow> input_trigger res" where
  "new_input_trigger source comparator ref =
     (if source \<notin> set [''count'', ''value''] then Inl ArgumentError
      else if comparator \<notin> set known_comps then Inl ArgumentError
      else Inr \<lparr>use_count = (source = ''count''), comp_string = comparator, reference = ref\<rparr>)"

datatype trigger = InputTrigger input_trigger | FalseTrigger | TrueTrigger

fun trigger_fires :: "trigger \<Rightarrow> input_ref \<Rightarrow> sensor_log \<Rightarrow> bool res" where
  "trigger_fires FalseTrigger ref log = Inr False"
| "trigger_fires TrueTrigger ref log = Inr True"
| "trigger_fires (InputTrigger t) ref log =
     (if use_count t then Inr (comp_function (comp_string t) (in_count ref log) (reference t))
      else if in_count ref log = 0 then Inr False
      else bind_res (in_peek ref log) (\<lambda>r.
        Inr (comp_function (comp_string t) (r_value r) (reference t))))"

text \<open>
  \<open>format_trigger\<close> and \<open>__str__\<close>; the text of the stream is computed by the caller.  A \<open>FalseTrigger\<close> has
  no \<open>format_trigger\<close>, and its text is Python's default, here without the object's address.
\<close>

fun format_trigger :: "trigger \<Rightarrow> string \<Rightarrow> string res" where
  "format_trigger FalseTrigger stream = Inl AttributeError"
| "format_trigger TrueTrigger stream = Inr stream"
| "format_trigger (InputTrigger t) stream =
     Inr ((if use_count t then ''count'' else ''value'') @ ''('' @ stream @ '') '' @ comp_string t @ '' ''
          @ py_str_int (reference t))"

fun trigger_str :: "trigger \<Rightarrow> string" where
  "trigger_str FalseTrigger = ''<iotile.sg.node.FalseTrigger object>''"
| "trigger_str TrueTrigger = ''always''"
| "trigger_str (InputTrigger t) =
     (if use_count t then ''when count '' else ''when value '') @ comp_string t @ '' ''
       @ py_str_int (reference t)"

section \<open>Nodes\<close>

text \<open>
  Nodes are shared objects as well: the graph keeps them in a store, and \<open>n_outputs\<close> holds numbers of
  nodes.  The processing function is known by its name.
\<close>

abbreviation (input) AndTriggerCombiner :: int where "AndTriggerCombiner \<equiv> 0"
abbreviation (input) OrTriggerCombiner :: int where "OrTriggerCombiner \<equiv> 1"

record 'f sg_node =
  n_inputs :: "(input_ref \<times> trigger) list"
  n_outputs :: "nat list"
  n_stream :: data_stream
  n_func_name :: "string option"
  n_func :: "'f option"
  n_combiner :: int
  n_max_outputs :: int

definition new_node :: "data_stream \<Rightarrow> device_model \<Rightarrow> 'f sg_node res" where
  "new_node strm model =
     bind_res (dm_get model ''max_node_inputs'') (\<lambda>max_inputs.
     bind_res (dm_get model ''max_node_outputs'') (\<lambda>max_outputs.
       Inr \<lparr>n_inputs = replicate (nat max_inputs) (None, TrueTrigger), n_outputs = [], n_stream = strm,
            n_func_name = None, n_func = None, n_combiner = AndTriggerCombiner,
            n_max_outputs = max_outputs\<rparr>))"

text \<open>\<open>xs[i] = v\<close>.\<close>

definition py_set :: "'a list \<Rightarrow> int \<Rightarrow> 'a \<Rightarrow> 'a list res" where
  "py_set xs i v =
     (let k = (if i < 0 then int (length xs) + i else i) in
      if 0 \<le> k \<and> k < int (length xs) then Inr (xs[nat k := v]) else Inl IndexError)"

definition connect_input ::
  "int \<Rightarrow> input_ref \<Rightarrow> trigger option \<Rightarrow> 'f sg_node \<Rightarrow> (unit, 'f sg_node) act" where
  "connect_input index walker trig node =
     (let t = (case trig of None \<Rightarrow> TrueTrigger | Some t \<Rightarrow> t) in
      if index \<ge> int (length (n_inputs node)) then (Inl TooManyInputsError, node)
      else (case py_set (n_inputs node) index (walker, t) of
              Inl err \<Rightarrow> (Inl err, node) | Inr xs \<Rightarrow> (Inr (), node\<lparr>n_inputs := xs\<rparr>)))"

fun input_streams_loop :: "sensor_log \<Rightarrow> (input_ref \<times> trigger) list \<Rightarrow> data_stream list res" where
  "input_streams_loop log [] = Inr []"
| "input_streams_loop log ((ref, t) # rest) =
     (case in_selector ref log of
        None \<Rightarrow> input_streams_loop log rest
      | Some sel \<Rightarrow>
          if \<not> sel_singular sel then input_streams_loop log rest
          else bind_res (sel_as_stream sel) (\<lambda>s. bind_res (input_streams_loop log rest) (\<lambda>ss. Inr (s # ss))))"

definition input_streams :: "sensor_log \<Rightarrow> 'f sg_node \<Rightarrow> data_stream list res" where
  "input_streams log node = input_streams_loop log (n_inputs node)"

fun find_input_loop :: "sensor_log \<Rightarrow> data_stream \<Rightarrow> int \<Rightarrow> (input_ref \<times> trigger) list \<Rightarrow> int option" where
  "find_input_loop log s i [] = None"
| "find_input_loop log s i ((ref, t) # rest) =
     (if in_matches ref log s then Some i else find_input_loop log s (i + 1) rest)"

definition find_input :: "sensor_log \<Rightarrow> data_stream \<Rightarrow> 'f sg_node \<Rightarrow> int option" where
  "find_input log s node = find_input_loop log s 0 (n_inputs node)"

definition num_inputs :: "'f sg_node \<Rightarrow> int" where
  "num_inputs node = int (length (filter (\<lambda>(ref, t). ref \<noteq> None) (n_inputs node)))"

definition num_outputs :: "'f sg_node \<Rightarrow> int" where
  "num_outputs node = int (length (n_outputs node))"

definition free_outputs :: "'f sg_node \<Rightarrow> int" where
  "free_outputs node = n_max_outputs node - num_outputs node"

definition connect_output :: "nat \<Rightarrow> 'f sg_node \<Rightarrow> (unit, 'f sg_node) act" where
  "connect_output downstream node =
     (if int (length (n_outputs node)) = n_max_outputs node then (Inl TooManyOutputsError, node)
      else (Inr (), node\<lparr>n_outputs := n_outputs node @ [downstream]\<rparr>))"

definition node_triggered :: "sensor_log \<Rightarrow> 'f sg_node \<Rightarrow> bool res" where
  "node_triggered log node =
     bind_res (map_res (\<lambda>(ref, t). trigger_fires t ref log) (n_inputs node)) (\<lambda>trigs.
       if n_combiner node = OrTriggerCombiner then Inr (True \<in> set trigs) else Inr (False \<notin> set trigs))"

definition set_func :: "string \<Rightarrow> 'f \<Rightarrow> 'f sg_node \<Rightarrow> 'f sg_node" where
  "set_func name func node = node\<lparr>n_func_name := Some name, n_func := Some func\<rparr>"

definition node_str :: "sensor_log \<Rightarrow> 'f sg_node \<Rightarrow> string res" where
  "node_str log node =
     (let comb = (if n_combiner node = AndTriggerCombiner then ''&&'' else ''||'');
          func = (case n_func_name node of None \<Rightarrow> ''None'' | Some n \<Rightarrow> n);
          text = (\<lambda>i. bind_res (py_nth (n_inputs node) i) (\<lambda>(ref, t).
                    bind_res (iw_selector_str (in_selector ref log)) (\<lambda>s. Inr (s @ '' '' @ trigger_str t))))
      in bind_res (py_nth (n_inputs node) 1) (\<lambda>(ref1, t1).
         bind_res (text 0) (\<lambda>a.
         if ref1 = None then
           bind_res (stream_str (n_stream node)) (\<lambda>s.
             Inr (''('' @ a @ '') => '' @ s @ '' using '' @ func))
         else
           bind_res (text 1) (\<lambda>b.
           bind_res (stream_str (n_stream node)) (\<lambda>s.
             Inr (''('' @ a @ '' '' @ comb @ '' '' @ b @ '') => '' @ s @ '' using '' @ func))))))"

section \<open>When a node fires\<close>

text \<open>The condition of an input, over the readings still to be read through it.\<close>

fun condition :: "trigger \<Rightarrow> reading list \<Rightarrow> bool" where
  "condition FalseTrigger rs = False"
| "condition TrueTrigger rs = True"
| "condition (InputTrigger t) rs =
     (if use_count t then comp_function (comp_string t) (int (length rs)) (reference t)
      else (case rs of [] \<Rightarrow> False
            | r # _ \<Rightarrow> comp_function (comp_string t) (r_value r) (reference t)))"

lemma trigger_fires_condition:
  assumes "in_readable ref log"
  shows "trigger_fires t ref log = Inr (condition t (in_contents ref log))"
proof (cases t)
  case (InputTrigger i)
  then show ?thesis
    using input.count_contents [OF assms] in_peek_next [OF assms]
    by (cases "in_contents ref log") simp_all
qed simp_all

lemma node_triggered_condition:
  assumes "\<And>ref t. (ref, t) \<in> set (n_inputs node) \<Longrightarrow> in_readable ref log"
  shows "node_triggered log node = Inr (
    if n_combiner node = OrTriggerCombiner
    then \<exists>(ref, t) \<in> set (n_inputs node). condition t (in_contents ref log)
    else \<forall>(ref, t) \<in> set (n_inputs node). condition t (in_contents ref log))"
proof -
  have "map_res (\<lambda>(ref, t). trigger_fires t ref log) (n_inputs node) =
      Inr (map (\<lambda>(ref, t). condition t (in_contents ref log)) (n_inputs node))"
    by (rule map_res_Inr) (use assms trigger_fires_condition in fastforce)
  then show ?thesis by (auto simp: node_triggered_def)
qed

lemma connect_input_frame:
  "0 \<le> i \<Longrightarrow> connect_input i walker trig node =
    (if i < int (length (n_inputs node))
     then (Inr (), node\<lparr>n_inputs := (n_inputs node)[nat i := (walker, case trig of None \<Rightarrow> TrueTrigger | Some t \<Rightarrow> t)]\<rparr>)
     else (Inl TooManyInputsError, node))"
  by (simp add: connect_input_def py_set_def Let_def)

lemma find_input_loop_Some:
  "find_input_loop log s i xs = Some k \<longleftrightarrow>
   (\<exists>n. k = i + int n \<and> n < length xs \<and> in_matches (fst (xs ! n)) log s \<and>
     (\<forall>m<n. \<not> in_matches (fst (xs ! m)) log s))"
proof (induction xs arbitrary: i)
  case Nil
  then show ?case by simp
next
  case (Cons x xs)
  obtain ref t where x: "x = (ref, t)" by (cases x)
  show ?case
  proof (cases "in_matches ref log s")
    case True
    then have "(\<exists>n. k = i + int n \<and> n < length (x # xs) \<and> in_matches (fst ((x # xs) ! n)) log s \<and>
        (\<forall>m<n. \<not> in_matches (fst ((x # xs) ! m)) log s)) \<longleftrightarrow> k = i"
      using x by (auto intro: exI [of _ 0]) (metis fst_conv gr0I nth_Cons_0)
    then show ?thesis using True x by auto
  next
    case False
    have "(\<exists>n. k = i + int n \<and> n < length (x # xs) \<and> in_matches (fst ((x # xs) ! n)) log s \<and>
        (\<forall>m<n. \<not> in_matches (fst ((x # xs) ! m)) log s)) \<longleftrightarrow>
        (\<exists>n. k = (i + 1) + int n \<and> n < length xs \<and> in_matches (fst (xs ! n)) log s \<and>
        (\<forall>m<n. \<not> in_matches (fst (xs ! m)) log s))" (is "(\<exists>n. ?P n) \<longleftrightarrow> (\<exists>n. ?Q n)")
    proof
      assume "\<exists>n. ?P n"
      then obtain n where n: "?P n" by blast
      then have "n \<noteq> 0" using False x by (cases n) auto
      then obtain m where "n = Suc m" by (cases n) auto
      with n have "?Q m" by auto
      then show "\<exists>n. ?Q n" by blast
    next
      assume "\<exists>n. ?Q n"
      then obtain m where m: "?Q m" by blast
      then have "?P (Suc m)" using False x by (auto simp: less_Suc_eq_0_disj)
      then show "\<exists>n. ?P n" by blast
    qed
    then show ?thesis using False x Cons.IH [of "i + 1"] by simp
  qed
qed

text \<open>
  Wiring replaces exactly the given input, and \<open>find_input\<close> gives the first input whose walker covers
  the stream.
\<close>

lemma connect_input_wires:
  assumes "0 \<le> i"
  shows "connect_input i walker trig node =
      (if i < int (length (n_inputs node))
       then (Inr (), node\<lparr>n_inputs := (n_inputs node)[nat i := (walker, case trig of None \<Rightarrow> TrueTrigger | Some t \<Rightarrow> t)]\<rparr>)
       else (Inl TooManyInputsError, node)) \<and>
    (find_input log s node = Some i \<longleftrightarrow> i < int (length (n_inputs node)) \<and>
       in_matches (fst (n_inputs node ! nat i)) log s \<and> (\<forall>m < nat i. \<not> in_matches (fst (n_inputs node ! m)) log s))"
proof -
  have "find_input log s node = Some i \<longleftrightarrow> (\<exists>n. i = int n \<and> n < length (n_inputs node) \<and>
      in_matches (fst (n_inputs node ! n)) log s \<and> (\<forall>m<n. \<not> in_matches (fst (n_inputs node ! m)) log s))"
    by (simp add: find_input_def find_input_loop_Some)
  also have "\<dots> \<longleftrightarrow> i < int (length (n_inputs node)) \<and>
       in_matches (fst (n_inputs node ! nat i)) log s \<and> (\<forall>m < nat i. \<not> in_matches (fst (n_inputs node ! m)) log s)"
    using assms by (auto simp: nat_less_iff intro!: exI [of _ "nat i"])
  finally show ?thesis using connect_input_frame [OF assms] by blast
qed

section \<open>Properties\<close>

text \<open>
  When a node fires.  If the walkers of its inputs are in step and run out of readings, \<open>triggered\<close>
  raises nothing: it answers whether the conditions of all inputs hold, or of one input for the
  combiner \<open>||\<close>.  A count condition compares the number of unread readings; a value condition compares
  the oldest unread reading and fails if there is none.
\<close>

theorem node_fires:
  assumes "\<forall>(ref, t) \<in> set (n_inputs node). in_readable ref log"
  shows "node_triggered log node = Inr (
    if n_combiner node = OrTriggerCombiner
    then \<exists>(ref, t) \<in> set (n_inputs node). condition t (in_contents ref log)
    else \<forall>(ref, t) \<in> set (n_inputs node). condition t (in_contents ref log))"
  by (rule node_triggered_condition) (use assms in fastforce)

definition sample_node :: "string \<Rightarrow> int \<Rightarrow> unit sg_node" where
  "sample_node c ref = \<lparr>n_inputs = [(Some 0, InputTrigger \<lparr>use_count = False, comp_string = c, reference = ref\<rparr>),
      (None, TrueTrigger)], n_outputs = [], n_stream = user_stream 9, n_func_name = None, n_func = None,
      n_combiner = 0, n_max_outputs = 4\<rparr>"

theorem node_fires_witness:
  "node_triggered (full_log True) (sample_node ''=='' 10) = Inr True \<and>
   node_triggered (full_log True) (sample_node ''=='' 30) = Inr False"
proof -
  have read: "in_readable (Some 0) (full_log True)" "in_readable None (full_log True)"
    by (simp_all add: in_readable_def log_readable_def full_log_fields sample_defs)
  have "in_contents (Some 0) (full_log True) = [sample_reading 1 10 1, sample_reading 1 20 2, sample_reading 1 30 3]"
    by (simp add: log_contents_def full_log_fields) (simp add: sample_defs)
  moreover have "r_value (sample_reading 1 10 1) = 10" by (simp add: sample_defs)
  ultimately show ?thesis
    using read node_fires [of "sample_node ''=='' 10" "full_log True"]
      node_fires [of "sample_node ''=='' 30" "full_log True"]
    by (simp add: sample_node_def comp_function_def)
qed

end
