(* ===== verification/Node_Descriptor.thy ===== *)
theory Node_Descriptor
  imports Nodes
begin

text \<open>
  Node descriptors (\<open>iotile/sg/node_descriptor.py\<close>): the text of a node and the 20 bytes sent to a device.
  The \<open>pyparsing\<close> grammar is a parameter; what the code takes from its result is a record.
\<close>

section \<open>Reading the text\<close>

text \<open>
  The named results of \<open>graph_node.parseString\<close>: the words of the streams, and for an input with a
  condition its type, operator and reference.
\<close>

record input_tokens =
  it_stream :: "string list"
  it_trigger :: "(string \<times> string \<times> string) option"

record node_tokens =
  nt_node :: "string list"
  nt_input_a :: "input_tokens option"
  nt_input_b :: "input_tokens option"
  nt_combiner :: "string option"
  nt_processor :: string

type_synonym node_grammar = "string \<Rightarrow> node_tokens option"

text \<open>\<open>' '.join(words)\<close>.\<close>

fun join_words :: "string list \<Rightarrow> string" where
  "join_words [] = []"
| "join_words [w] = w"
| "join_words (w # ws) = w @ '' '' @ join_words ws"

definition parse_input :: "input_tokens \<Rightarrow> (selector \<times> trigger option) res" where
  "parse_input i =
     bind_res (sel_of_string (join_words (it_stream i))) (\<lambda>sel.
       case it_trigger i of
         None \<Rightarrow> Inr (sel, None)
       | Some (src, op, ref) \<Rightarrow>
           (case py_int0 ref of
              None \<Rightarrow> Inl ValueError
            | Some n \<Rightarrow> bind_res (new_input_trigger src op n) (\<lambda>t. Inr (sel, Some (InputTrigger t)))))"

definition parse_inputs :: "input_tokens option list \<Rightarrow> (selector \<times> trigger option) list res" where
  "parse_inputs tokens = map_res parse_input (concat (map (\<lambda>i. case i of None \<Rightarrow> [] | Some x \<Rightarrow> [x]) tokens))"

definition parse_node_descriptor ::
  "node_grammar \<Rightarrow> string \<Rightarrow> device_model option
   \<Rightarrow> ('f sg_node \<times> (selector \<times> trigger option) list \<times> string) res" where
  "parse_node_descriptor grammar desc model =
     (case grammar desc of
        None \<Rightarrow> Inl ParseException
      | Some data \<Rightarrow>
          bind_res (stream_of_string (join_words (nt_node data))) (\<lambda>strm.
          bind_res (case model of None \<Rightarrow> Inl AttributeError | Some m \<Rightarrow> new_node strm m) (\<lambda>node.
          bind_res (parse_inputs [nt_input_a data, nt_input_b data]) (\<lambda>inputs.
            Inr (node\<lparr>n_combiner := if nt_combiner data = Some ''||'' then OrTriggerCombiner
                                       else AndTriggerCombiner\<rparr>,
                 inputs, nt_processor data)))))"

section \<open>The binary form\<close>

definition func_names :: "(int \<times> string) list" where
  "func_names = [(0, ''copy_latest_a''), (1, ''average_a''), (2, ''copy_all_a''), (3, ''sum_a''),
     (4, ''copy_count_a''), (5, ''trigger_streamer''), (6, ''call_rpc''), (7, ''subtract_afromb'')]"

definition trigger_ops :: "(int \<times> string) list" where
  "trigger_ops = [(0, ''>''), (1, ''<''), (2, ''>=''), (3, ''<=''), (4, ''==''), (5, ''always'')]"

text \<open>\<open>{y: x for x, y in names.items()}\<close>.\<close>

definition codes_of :: "(int \<times> string) list \<Rightarrow> string \<Rightarrow> int option" where
  "codes_of names = map_of (rev (map (\<lambda>(x, y). (y, x)) names))"

fun create_binary_trigger :: "trigger \<Rightarrow> int res" where
  "create_binary_trigger TrueTrigger =
     (case codes_of trigger_ops ''always'' of None \<Rightarrow> Inl KeyError | Some op \<Rightarrow> Inr (push_bit 1 op OR 0))"
| "create_binary_trigger FalseTrigger = Inl ArgumentError"
| "create_binary_trigger (InputTrigger t) =
     (case codes_of trigger_ops (comp_string t) of
        None \<Rightarrow> Inl KeyError
      | Some op \<Rightarrow> Inr (push_bit 1 op OR (if use_count t then 1 else 0)))"

definition process_binary_trigger :: "int \<Rightarrow> int \<Rightarrow> trigger res" where
  "process_binary_trigger value cond =
     (let encoded_source = cond AND 1; encoded_op = drop_bit 1 cond in
      case map_of trigger_ops encoded_op of
        None \<Rightarrow> Inl ArgumentError
      | Some oper \<Rightarrow>
          (case map_of [(0, ''value''), (1, ''count'')] encoded_source of
             None \<Rightarrow> Inl ArgumentError
           | Some source \<Rightarrow>
               if oper = ''always'' then Inr TrueTrigger
               else bind_res (new_input_trigger source oper value) (\<lambda>t. Inr (InputTrigger t))))"

definition trigger_reference :: "trigger option \<Rightarrow> int" where
  "trigger_reference t = (case t of Some (InputTrigger i) \<Rightarrow> reference i | _ \<Rightarrow> 0)"

definition trigger_or_true :: "trigger option \<Rightarrow> trigger" where
  "trigger_or_true t = (case t of None \<Rightarrow> TrueTrigger | Some x \<Rightarrow> x)"

text \<open>The format \<open><LLHHHBBBB2x\<close>.\<close>

definition pack_node :: "int \<Rightarrow> int \<Rightarrow> int \<Rightarrow> int \<Rightarrow> int \<Rightarrow> int \<Rightarrow> int \<Rightarrow> int \<Rightarrow> int \<Rightarrow> byte list res" where
  "pack_node ref_a ref_b strm a b f cond_a cond_b comb =
     pack_fields [(4, ref_a), (4, ref_b), (2, strm), (2, a), (2, b), (1, f), (1, cond_a), (1, cond_b), (1, comb), (2, 0)]"

definition unpack_node :: "byte list \<Rightarrow> int list" where
  "unpack_node bindata = unpack_fields [4, 4, 2, 2, 2, 1, 1, 1, 1, 2] bindata"

definition create_node_descriptor :: "node_grammar \<Rightarrow> string \<Rightarrow> byte list res" where
  "create_node_descriptor grammar descriptor =
     bind_res (parse_node_descriptor grammar descriptor (Some new_device_model)) (\<lambda>(node :: unit sg_node, inputs, processing).
       case codes_of func_names processing of
         None \<Rightarrow> Inl ArgumentError
       | Some func_code \<Rightarrow>
           bind_res (py_nth inputs 0) (\<lambda>(sel_a, trigger_a).
           bind_res (sel_encode sel_a) (\<lambda>stream_a.
           bind_res (if length inputs = 2
                     then bind_res (py_nth inputs 1) (\<lambda>(sel_b, trigger_b).
                            bind_res (sel_encode sel_b) (\<lambda>stream_b. Inr (stream_b, trigger_b)))
                     else Inr (0xFFFF, None)) (\<lambda>(stream_b, trigger_b).
           bind_res (create_binary_trigger (trigger_or_true trigger_a)) (\<lambda>cond_a.
           bind_res (create_binary_trigger (trigger_or_true trigger_b)) (\<lambda>cond_b.
             pack_node (trigger_reference trigger_a) (trigger_reference trigger_b)
               (stream_encode (n_stream node)) stream_a stream_b func_code cond_a cond_b (n_combiner node)))))))"

definition parse_node_binary :: "byte list \<Rightarrow> string res" where
  "parse_node_binary bindata =
     (if length bindata \<noteq> 20 then Inl ArgumentError
      else case unpack_node bindata of
        [a_trig, b_trig, sid, a_id, b_id, proc, a_cond, b_cond, trig_combiner, pad] \<Rightarrow>
          let node_stream = stream_of_encoded sid in
          if a_id = 0xFFFF then Inl ArgumentError
          else
            bind_res (sel_of_encoded a_id) (\<lambda>a_selector.
            bind_res (process_binary_trigger a_trig a_cond) (\<lambda>a_trigger.
            bind_res (if b_id = 0xFFFF then Inr None
                      else bind_res (sel_of_encoded b_id) (\<lambda>s.
                             bind_res (process_binary_trigger b_trig b_cond) (\<lambda>t. Inr (Some (s, t)))))
              (\<lambda>input_b.
            if trig_combiner \<noteq> AndTriggerCombiner \<and> trig_combiner \<noteq> OrTriggerCombiner then Inl ArgumentError
            else
              let comb = (if trig_combiner = AndTriggerCombiner then ''&&'' else ''||'') in
              case map_of func_names proc of
                None \<Rightarrow> Inl ArgumentError
              | Some func_name \<Rightarrow>
                  bind_res (sel_str a_selector) (\<lambda>a.
                  case input_b of
                    None \<Rightarrow>
                      bind_res (stream_str node_stream) (\<lambda>n.
                        Inr (''('' @ a @ '' '' @ trigger_str a_trigger @ '') => '' @ n @ '' using '' @ func_name))
                  | Some (b_selector, b_trigger) \<Rightarrow>
                      bind_res (sel_str b_selector) (\<lambda>b.
                      bind_res (stream_str node_stream) (\<lambda>n.
                        Inr (''('' @ a @ '' '' @ trigger_str a_trigger @ '' '' @ comb @ '' '' @ b @ '' '' @
                             trigger_str b_trigger @ '') => '' @ n @ '' using '' @ func_name)))))))
      | _ \<Rightarrow> Inl StructError)"

section \<open>What the two forms express\<close>

text \<open>
  A descriptor as data: an input or two on single streams with their triggers, the combiner, the stream
  and the name of the function; its text, and the words a grammar has to find in this text.
\<close>

record node_desc =
  nd_input_a :: "data_stream \<times> trigger"
  nd_input_b :: "(data_stream \<times> trigger) option"
  nd_combiner :: int
  nd_stream :: data_stream
  nd_func :: string

definition stream_words :: "data_stream \<Rightarrow> string list" where
  "stream_words s = (if system s then [''system''] else []) @
     [(case TypeToString (stream_type s) of None \<Rightarrow> '''' | Some n \<Rightarrow> n), py_str_int (stream_id s)]"

definition input_text :: "data_stream \<times> trigger \<Rightarrow> string" where
  "input_text = (\<lambda>(s, t). join_words (stream_words s) @ '' '' @ trigger_str t)"

definition desc_text :: "node_desc \<Rightarrow> string" where
  "desc_text d =
     ''('' @ input_text (nd_input_a d) @
     (case nd_input_b d of
        None \<Rightarrow> ''''
      | Some b \<Rightarrow> '' '' @ (if nd_combiner d = AndTriggerCombiner then ''&&'' else ''||'') @ '' '' @ input_text b) @
     '') => '' @ join_words (stream_words (nd_stream d)) @ '' using '' @ nd_func d"

fun trigger_tokens :: "trigger \<Rightarrow> (string \<times> string \<times> string) option" where
  "trigger_tokens (InputTrigger t) =
     Some (if use_count t then ''count'' else ''value'', comp_string t, py_str_int (reference t))"
| "trigger_tokens _ = None"

definition tokens_of_input :: "data_stream \<times> trigger \<Rightarrow> input_tokens" where
  "tokens_of_input = (\<lambda>(s, t). \<lparr>it_stream = stream_words s, it_trigger = trigger_tokens t\<rparr>)"

definition desc_tokens :: "node_desc \<Rightarrow> node_tokens" where
  "desc_tokens d =
     \<lparr>nt_node = stream_words (nd_stream d), nt_input_a = Some (tokens_of_input (nd_input_a d)),
      nt_input_b = map_option tokens_of_input (nd_input_b d),
      nt_combiner = (case nd_input_b d of None \<Rightarrow> None
        | Some _ \<Rightarrow> Some (if nd_combiner d = AndTriggerCombiner then ''&&'' else ''||'')),
      nt_processor = nd_func d\<rparr>"

text \<open>The descriptors that fit the fields of the binary form.\<close>

fun trigger_fits :: "trigger \<Rightarrow> bool" where
  "trigger_fits TrueTrigger = True"
| "trigger_fits FalseTrigger = False"
| "trigger_fits (InputTrigger t) = (comp_string t \<in> set known_comps \<and> 0 \<le> reference t \<and> reference t < 256 ^ 4)"

definition stream_fits :: "data_stream \<Rightarrow> bool" where
  "stream_fits s \<longleftrightarrow> stream_named s \<and> 0 \<le> stream_id s \<and> stream_id s < 2047"

definition desc_fits :: "node_desc \<Rightarrow> bool" where
  "desc_fits d \<longleftrightarrow>
     stream_fits (fst (nd_input_a d)) \<and> trigger_fits (snd (nd_input_a d)) \<and>
     (case nd_input_b d of
        None \<Rightarrow> nd_combiner d = AndTriggerCombiner
      | Some b \<Rightarrow> stream_fits (fst b) \<and> trigger_fits (snd b) \<and> nd_combiner d \<in> {AndTriggerCombiner, OrTriggerCombiner}) \<and>
     stream_named (nd_stream d) \<and> 0 \<le> stream_id (nd_stream d) \<and> stream_id (nd_stream d) < 2048 \<and>
     nd_func d \<in> snd ` set func_names"

section \<open>The parts of a descriptor\<close>

definition single :: "data_stream \<Rightarrow> selector" where
  "single s = \<lparr>match_type = stream_type s, match_id = Some (stream_id s),
     match_spec = if system s then MatchSystemOnly else MatchUserOnly\<rparr>"

lemma single_of_stream: "sel_of_stream s = Inr (single s)"
  by (simp add: sel_of_stream_def single_def new_selector_def ValidSpecifiers_def)

lemma stream_words_str: "stream_named s \<Longrightarrow> stream_str s = Inr (join_words (stream_words s))"
  using type_names [of "stream_type s"]
  by (auto simp: stream_named_def stream_str_def stream_words_def split: option.splits elim!: type_names)

lemma single_str: "stream_named s \<Longrightarrow> sel_str (single s) = stream_str s"
  using type_names [of "stream_type s"]
  by (auto simp: stream_named_def stream_str_def sel_str_def single_def split: option.splits)

lemma single_of_words: "stream_named s \<Longrightarrow> sel_of_string (join_words (stream_words s)) = Inr (single s)"
  using sel_string_single [OF _ stream_words_str, of s] stream_string_roundtrip [of s]
  by (auto simp: stream_words_str single_of_stream)

lemma stream_of_words: "stream_named s \<Longrightarrow> stream_of_string (join_words (stream_words s)) = Inr s"
  using stream_string_roundtrip [of s] by (auto simp: stream_words_str)

lemma single_encode:
  assumes "stream_fits s"
  shows "\<exists>code. sel_encode (single s) = Inr code \<and> 0 \<le> code \<and> code < 65535 \<and> sel_of_encoded code = Inr (single s)"
proof -
  have ok: "sel_encodable (single s)"
    using assms by (auto simp: stream_fits_def stream_named_def single_def sel_encodable_def ValidSpecifiers_def MatchAllCode_def)
  then obtain code where code: "sel_encode (single s) = Inr code" "sel_of_encoded code = Inr (single s)"
    using sel_bits.total sel_bits.inverse by meson
  have "0 \<le> code \<and> code < 65535"
    using code(1) ok assms by (auto simp: sel_encode_arith sel_header_def single_def stream_fits_def stream_named_def)
  with code show ?thesis by blast
qed

lemma parse_tokens:
  assumes "stream_fits s" "trigger_fits t"
  shows "parse_input (tokens_of_input (s, t)) = Inr (single s, case t of InputTrigger i \<Rightarrow> Some t | _ \<Rightarrow> None)"
  using assms by (cases t) (auto simp: parse_input_def tokens_of_input_def stream_fits_def single_of_words
    py_int0_str_int new_input_trigger_def)

lemma trigger_codes:
  assumes "trigger_fits t"
  shows "\<exists>c. create_binary_trigger t = Inr c \<and> 0 \<le> c \<and> c < 256 \<and>
    process_binary_trigger (trigger_reference (Some t)) c = Inr t"
proof (cases t)
  case (InputTrigger i)
  with assms have "comp_string i \<in> {''>'', ''>='', ''<'', ''<='', ''==''}" by (auto simp: known_comps_def)
  then show ?thesis using InputTrigger
    by (cases i; cases "use_count i")
      (auto simp: codes_of_def trigger_ops_def process_binary_trigger_def trigger_reference_def new_input_trigger_def
        known_comps_def)
next
  case FalseTrigger
  then show ?thesis using assms by simp
next
  case TrueTrigger
  then show ?thesis
    by (simp add: codes_of_def trigger_ops_def process_binary_trigger_def trigger_reference_def)
qed

lemma func_codes:
  assumes "f \<in> snd ` set func_names"
  shows "\<exists>c. codes_of func_names f = Some c \<and> 0 \<le> c \<and> c < 256 \<and> map_of func_names c = Some f"
  using assms by (auto simp: func_names_def codes_of_def)

lemma trigger_of_tokens:
  assumes "trigger_fits t"
  shows "trigger_or_true (case t of InputTrigger i \<Rightarrow> Some t | _ \<Rightarrow> None) = t"
    "trigger_reference (case t of InputTrigger i \<Rightarrow> Some t | _ \<Rightarrow> None) = trigger_reference (Some t)"
    "0 \<le> trigger_reference (Some t)" "trigger_reference (Some t) < 256 ^ 4"
  using assms by (cases t; auto simp: trigger_or_true_def trigger_reference_def)+

text \<open>The descriptor of a text that the grammar reads as the words of \<open>d\<close>.\<close>

lemma parse_desc:
  assumes "desc_fits d" "grammar text = Some (desc_tokens d)"
  shows "\<exists>node :: 'f sg_node. parse_node_descriptor grammar text (Some new_device_model) =
      Inr (node, map (\<lambda>(s, t). (single s, case t of InputTrigger i \<Rightarrow> Some t | _ \<Rightarrow> None))
        (nd_input_a d # (case nd_input_b d of None \<Rightarrow> [] | Some b \<Rightarrow> [b])), nd_func d) \<and>
    n_stream node = nd_stream d \<and> n_combiner node = nd_combiner d"
proof -
  obtain sa ta where a: "nd_input_a d = (sa, ta)" by fastforce
  have pa: "parse_input (tokens_of_input (sa, ta)) = Inr (single sa, case ta of InputTrigger i \<Rightarrow> Some ta | _ \<Rightarrow> None)"
    using assms(1) a by (intro parse_tokens) (auto simp: desc_fits_def)
  have new: "new_node (nd_stream d) new_device_model =
      Inr \<lparr>n_inputs = [(None, TrueTrigger), (None, TrueTrigger)], n_outputs = [], n_stream = nd_stream d,
        n_func_name = None, n_func = None :: 'f option, n_combiner = AndTriggerCombiner, n_max_outputs = 4\<rparr>"
    by (simp add: new_node_def dm_get_def new_device_model_def dm_add_property_def eval_nat_numeral)
  have strm: "stream_of_string (join_words (stream_words (nd_stream d))) = Inr (nd_stream d)"
    using assms(1) by (intro stream_of_words) (simp add: desc_fits_def)
  show ?thesis
  proof (cases "nd_input_b d")
    case None
    then show ?thesis using assms a pa new strm
      by (simp add: parse_node_descriptor_def desc_tokens_def parse_inputs_def desc_fits_def)
  next
    case (Some b)
    obtain sb tb where b: "b = (sb, tb)" by fastforce
    have "parse_input (tokens_of_input (sb, tb)) = Inr (single sb, case tb of InputTrigger i \<Rightarrow> Some tb | _ \<Rightarrow> None)"
      using assms(1) Some b by (intro parse_tokens) (auto simp: desc_fits_def)
    then show ?thesis using assms a b pa new strm Some
      by (auto simp: parse_node_descriptor_def desc_tokens_def parse_inputs_def desc_fits_def)
  qed
qed

lemma pack_node_fits:
  assumes "0 \<le> ra" "ra < 256 ^ 4" "0 \<le> rb" "rb < 256 ^ 4" "0 \<le> s" "s < 65536" "0 \<le> a" "a < 65536" "0 \<le> b" "b < 65536"
    "0 \<le> f" "f < 256" "0 \<le> ca" "ca < 256" "0 \<le> cb" "cb < 256" "0 \<le> comb" "comb < 256"
  shows "\<exists>bs. pack_node ra rb s a b f ca cb comb = Inr bs \<and> length bs = 20 \<and>
    unpack_node bs = [ra, rb, s, a, b, f, ca, cb, comb, 0]"
proof -
  let ?fs = "[(4, ra), (4, rb), (2, s), (2, a), (2, b), (1, f), (1, ca), (1, cb), (1, comb), (2, 0)]"
  have "list_all (\<lambda>(n, v). 0 \<le> v \<and> v < 256 ^ n) ?fs" using assms by simp
  then obtain bs where bs: "pack_fields ?fs = Inr bs" using pack_fields_Inr_iff by blast
  then show ?thesis
    using length_pack_fields [OF bs] unpack_pack_fields [OF bs, of "[]"]
    by (auto simp: pack_node_def unpack_node_def simp del: pack_fields.simps unpack_fields.simps)
qed

lemma descriptor_roundtrip:
  assumes "desc_fits d" "grammar (desc_text d) = Some (desc_tokens d)"
  shows "\<exists>b. create_node_descriptor grammar (desc_text d) = Inr b \<and> length b = 20 \<and> parse_node_binary b = Inr (desc_text d)"
proof -
  obtain sa ta where a: "nd_input_a d = (sa, ta)" by fastforce
  have fits: "stream_fits sa" "trigger_fits ta" "stream_named (nd_stream d)" "stream_encodable (nd_stream d)"
    using assms(1) a by (auto simp: desc_fits_def stream_named_def stream_encodable_def)
  obtain node :: "unit sg_node" where node: "parse_node_descriptor grammar (desc_text d) (Some new_device_model) =
      Inr (node, map (\<lambda>(s, t). (single s, case t of InputTrigger i \<Rightarrow> Some t | _ \<Rightarrow> None))
        (nd_input_a d # (case nd_input_b d of None \<Rightarrow> [] | Some b \<Rightarrow> [b])), nd_func d)"
    "n_stream node = nd_stream d" "n_combiner node = nd_combiner d"
    using parse_desc [of d grammar "desc_text d", OF assms] by blast
  obtain f where f: "codes_of func_names (nd_func d) = Some f" "0 \<le> f" "f < 256" "map_of func_names f = Some (nd_func d)"
    using func_codes assms(1) unfolding desc_fits_def by metis
  obtain codea where codea: "sel_encode (single sa) = Inr codea" "0 \<le> codea" "codea < 65535" "sel_of_encoded codea = Inr (single sa)"
    using single_encode fits(1) by blast
  obtain ca where ca: "create_binary_trigger ta = Inr ca" "0 \<le> ca" "ca < 256"
      "process_binary_trigger (trigger_reference (Some ta)) ca = Inr ta"
    using trigger_codes fits(2) by blast
  have s: "0 \<le> stream_encode (nd_stream d)" "stream_encode (nd_stream d) < 65536"
      "stream_of_encoded (stream_encode (nd_stream d)) = nd_stream d"
    using stream_encode_bounds fits(4) stream_decode_encode by blast+
  have "codea \<noteq> 65535" "codea < 65536" using codea(3) by linarith+
  note [simp] = this f codea ca s fits trigger_of_tokens node a single_str stream_words_str stream_fits_def
  have comb: "0 \<le> nd_combiner d" "nd_combiner d < 256" "nd_combiner d = 0 \<or> nd_combiner d = 1"
    using assms(1) by (auto simp: desc_fits_def split: option.splits)
  have named: "stream_named sa" using fits by (simp add: stream_fits_def)
  have "\<exists>codeb rb cb. 0 \<le> codeb \<and> codeb < 65536 \<and> 0 \<le> rb \<and> rb < 256 ^ 4 \<and> 0 \<le> cb \<and> cb < 256 \<and>
     create_node_descriptor grammar (desc_text d) =
       pack_node (trigger_reference (Some ta)) rb (stream_encode (nd_stream d)) codea codeb f ca cb (nd_combiner d) \<and>
     (\<forall>bs. length bs = 20 \<longrightarrow> unpack_node bs = [trigger_reference (Some ta), rb, stream_encode (nd_stream d), codea, codeb,
         f, ca, cb, nd_combiner d, 0] \<longrightarrow> parse_node_binary bs = Inr (desc_text d))"
  proof (cases "nd_input_b d")
    case None
    have always: "create_binary_trigger TrueTrigger = Inr 10" by (simp add: codes_of_def trigger_ops_def)
    have "create_node_descriptor grammar (desc_text d) =
        pack_node (trigger_reference (Some ta)) 0 (stream_encode (nd_stream d)) codea 65535 f ca 10 (nd_combiner d)"
      using None always fits(2)
      by (simp add: create_node_descriptor_def py_nth_def trigger_or_true_def [of None] trigger_reference_def [of None]
          del: create_binary_trigger.simps)
    moreover have "\<forall>bs. length bs = 20 \<longrightarrow> unpack_node bs = [trigger_reference (Some ta), 0, stream_encode (nd_stream d), codea,
        65535, f, ca, 10, nd_combiner d, 0] \<longrightarrow> parse_node_binary bs = Inr (desc_text d)"
      using None comb named by (auto simp: parse_node_binary_def desc_text_def input_text_def Let_def)
    ultimately show ?thesis by (intro exI [of _ 65535] exI [of _ 0] exI [of _ 10]) simp
  next
    case (Some b)
    obtain sb tb where b: "b = (sb, tb)" by fastforce
    have fitsb: "stream_fits sb" "trigger_fits tb" "stream_named sb"
      using assms(1) Some b by (auto simp: desc_fits_def stream_fits_def)
    obtain codeb where codeb: "sel_encode (single sb) = Inr codeb" "0 \<le> codeb" "codeb < 65535" "sel_of_encoded codeb = Inr (single sb)"
      using single_encode fitsb(1) by blast
    have "codeb \<noteq> 65535" using codeb(3) by linarith
    obtain cb where cb: "create_binary_trigger tb = Inr cb" "0 \<le> cb" "cb < 256"
        "process_binary_trigger (trigger_reference (Some tb)) cb = Inr tb"
      using trigger_codes fitsb(2) by blast
    have "create_node_descriptor grammar (desc_text d) = pack_node (trigger_reference (Some ta)) (trigger_reference (Some tb))
        (stream_encode (nd_stream d)) codea codeb f ca cb (nd_combiner d)"
      using Some b fits(2) fitsb(2) codeb(1) cb(1)
      by (simp add: create_node_descriptor_def py_nth_def del: create_binary_trigger.simps)
    moreover have "\<forall>bs. length bs = 20 \<longrightarrow> unpack_node bs = [trigger_reference (Some ta), trigger_reference (Some tb),
        stream_encode (nd_stream d), codea, codeb, f, ca, cb, nd_combiner d, 0] \<longrightarrow> parse_node_binary bs = Inr (desc_text d)"
      using Some b comb named fitsb codeb cb \<open>codeb \<noteq> 65535\<close>
      by (auto simp: parse_node_binary_def desc_text_def input_text_def Let_def)
    ultimately show ?thesis using codeb cb trigger_of_tokens(3,4) [OF fitsb(2)]
      by (intro exI [of _ codeb] exI [of _ "trigger_reference (Some tb)"] exI [of _ cb]) simp
  qed
  then obtain codeb rb cb where B: "0 \<le> codeb" "codeb < 65536" "0 \<le> rb" "rb < 256 ^ 4" "0 \<le> cb" "cb < 256"
    and created: "create_node_descriptor grammar (desc_text d) =
       pack_node (trigger_reference (Some ta)) rb (stream_encode (nd_stream d)) codea codeb f ca cb (nd_combiner d)"
    and parsed: "\<And>bs. length bs = 20 \<Longrightarrow> unpack_node bs = [trigger_reference (Some ta), rb, stream_encode (nd_stream d), codea,
         codeb, f, ca, cb, nd_combiner d, 0] \<Longrightarrow> parse_node_binary bs = Inr (desc_text d)"
    by blast
  then obtain bs where "pack_node (trigger_reference (Some ta)) rb (stream_encode (nd_stream d)) codea codeb f ca cb (nd_combiner d) = Inr bs"
      "length bs = 20" "unpack_node bs = [trigger_reference (Some ta), rb, stream_encode (nd_stream d), codea, codeb, f, ca, cb, nd_combiner d, 0]"
    using pack_node_fits [OF trigger_of_tokens(3,4) [OF fits(2)] B(3,4) s(1,2) codea(2) \<open>codea < 65536\<close> B(1,2) f(2,3) ca(2,3) B(5,6) comb(1,2)] by blast
  then show ?thesis using created parsed by metis
qed

section \<open>Properties\<close>

text \<open>
  Node descriptors.  For one or two inputs on single streams with conditions that fit their fields and a
  known function, if the grammar reads the text of the node as its words, then the binary descriptor has 20
  bytes, \<open>parse_binary_descriptor\<close> gives the text again, and creating a descriptor from what it gives is a noop.
\<close>

theorem node_descriptor_roundtrip:
  assumes "desc_fits d" "grammar (desc_text d) = Some (desc_tokens d)"
  shows "\<exists>b. create_node_descriptor grammar (desc_text d) = Inr b \<and> length b = 20 \<and>
    parse_node_binary b = Inr (desc_text d) \<and>
    bind_res (parse_node_binary b) (create_node_descriptor grammar) = Inr b"
  using descriptor_roundtrip [of d grammar, OF assms] by auto

definition sample_desc :: node_desc where
  "sample_desc = \<lparr>nd_input_a = (\<lparr>stream_type = 3, stream_id = 2, system = True\<rparr>,
      InputTrigger \<lparr>use_count = True, comp_string = ''>='', reference = 60\<rparr>),
    nd_input_b = Some (\<lparr>stream_type = 2, stream_id = 1, system = False\<rparr>, TrueTrigger), nd_combiner = 0,
    nd_stream = \<lparr>stream_type = 1, stream_id = 5, system = False\<rparr>, nd_func = ''copy_latest_a''\<rparr>"

theorem node_descriptor_roundtrip_witness:
  "\<exists>b. create_node_descriptor (\<lambda>t. if t = desc_text sample_desc then Some (desc_tokens sample_desc) else None)
      (desc_text sample_desc) = Inr b \<and> parse_node_binary b = Inr (desc_text sample_desc) \<and>
    desc_text sample_desc =
      ''(system input 2 when count >= 60 && constant 1 always) => unbuffered 5 using copy_latest_a''"
proof -
  have "desc_fits sample_desc"
    by (simp add: sample_desc_def desc_fits_def stream_fits_def stream_named_def known_comps_def func_names_def)
  moreover have "desc_text sample_desc =
      ''(system input 2 when count >= 60 && constant 1 always) => unbuffered 5 using copy_latest_a''"
    by (simp add: sample_desc_def desc_text_def input_text_def stream_words_def TypeToString_def py_str_int_def
        py_str_nat.simps digit_char_def)
  ultimately show ?thesis
    using node_descriptor_roundtrip [of sample_desc "\<lambda>t. if t = desc_text sample_desc then Some (desc_tokens sample_desc) else None"]
    by auto
qed

end
