(* ===== verification/Auth.thy ===== *)
theory Auth
  imports Hashing
begin

text \<open>
  Keys of devices (\<open>iotile/core/hw/auth\<close>): deriving one-time keys from a root key, the providers that hold
  root keys, and the chain of providers that is asked by default.
\<close>

section \<open>Deriving keys\<close>

abbreviation (input) NoKey :: int where "NoKey \<equiv> 0"
abbreviation (input) NullKey :: int where "NullKey \<equiv> 1"
abbreviation (input) UserKey :: int where "UserKey \<equiv> 2"
abbreviation (input) DeviceKey :: int where "DeviceKey \<equiv> 3"
abbreviation (input) PasswordBasedKey :: int where "PasswordBasedKey \<equiv> 4"
abbreviation (input) ReportKeyMagic :: int where "ReportKeyMagic \<equiv> 2"

definition KnownKeyRoots :: "int list" where
  "KnownKeyRoots = [NoKey, NullKey, UserKey, DeviceKey, PasswordBasedKey]"

definition derive_report_key :: "byte list \<Rightarrow> int \<Rightarrow> int \<Rightarrow> byte list res" where
  "derive_report_key root_key report_id sent_timestamp =
     bind_res (pack_fields [(4, ReportKeyMagic), (4, report_id), (4, sent_timestamp)]) (\<lambda>signed_data.
       Inr (hmac_sha256 root_key signed_data))"

definition derive_reboot_key :: "byte list \<Rightarrow> int \<Rightarrow> int \<Rightarrow> byte list res" where
  "derive_reboot_key root_key key_purpose reboot_counter =
     bind_res (pack_fields [(4, key_purpose), (4, reboot_counter)]) (\<lambda>signed_data.
       Inr (take 16 (hmac_sha256 root_key signed_data)))"

text \<open>
  AES in ECB mode is third-party code: \<open>aes_ecb key block\<close> is a parameter.  The exponent of Python's \<open>**\<close>
  has to be non-negative for the bit operations that follow.
\<close>

definition derive_rotated_key ::
  "(byte list \<Rightarrow> byte list \<Rightarrow> byte list) \<Rightarrow> byte list \<Rightarrow> int \<Rightarrow> int \<Rightarrow> byte list res" where
  "derive_rotated_key aes_ecb reboot_key current_timestamp rotation_interval_power =
     (if rotation_interval_power < 0 then Inl PyTypeError
      else
        let timestamp = current_timestamp AND NOT (2 ^ nat rotation_interval_power - 1)
        in bind_res (pack_fields [(4, timestamp), (4, 0), (4, 0), (4, 0)]) (\<lambda>msg.
             Inr (aes_ecb reboot_key msg)))"

section \<open>Providers\<close>

text \<open>
  A provider that derives its keys from root keys.  Where the root key comes from is the state of the
  provider: the environment, the passwords in memory, the terminal or the null key.
\<close>

record auth_provider =
  supported_keys :: "int list"
  stored_root_key :: "int \<Rightarrow> int \<Rightarrow> byte list res"

definition verify_key :: "auth_provider \<Rightarrow> int \<Rightarrow> unit res" where
  "verify_key p root_key_type =
     (if root_key_type \<notin> set KnownKeyRoots then Inl NotFoundError
      else if root_key_type \<notin> set (supported_keys p) then Inl NotFoundError
      else Inr ())"

definition provider_root_key :: "auth_provider \<Rightarrow> int \<Rightarrow> int \<Rightarrow> byte list res" where
  "provider_root_key p key_type device_id =
     bind_res (verify_key p key_type) (\<lambda>_. stored_root_key p key_type device_id)"

text \<open>The optional key information; a missing entry is \<open>None\<close>.\<close>

definition root_serialized_key ::
  "auth_provider \<Rightarrow> int \<Rightarrow> int \<Rightarrow> int option \<Rightarrow> int option \<Rightarrow> byte list res" where
  "root_serialized_key p key_type device_id report_id sent_timestamp =
     (case (report_id, sent_timestamp) of
        (Some rid, Some sent) \<Rightarrow>
          bind_res (verify_key p key_type) (\<lambda>_.
          bind_res (provider_root_key p key_type device_id) (\<lambda>root_key.
            derive_report_key root_key rid sent))
      | _ \<Rightarrow> Inl NotFoundError)"

text \<open>\<open>not x\<close> holds for a missing number and for zero.\<close>

definition py_falsy :: "int option \<Rightarrow> bool" where
  "py_falsy x = (case x of None \<Rightarrow> True | Some n \<Rightarrow> n = 0)"

definition root_rotated_key ::
  "(byte list \<Rightarrow> byte list \<Rightarrow> byte list) \<Rightarrow> auth_provider \<Rightarrow> int \<Rightarrow> int
   \<Rightarrow> int option \<Rightarrow> int option \<Rightarrow> int option \<Rightarrow> byte list res" where
  "root_rotated_key aes_ecb p key_type device_id counter interval_power timestamp =
     (if py_falsy counter then Inl NotFoundError
      else if py_falsy interval_power then Inl NotFoundError
      else if py_falsy timestamp then Inl NotFoundError
      else
        bind_res (verify_key p key_type) (\<lambda>_.
        bind_res (provider_root_key p key_type device_id) (\<lambda>root_key.
        bind_res (derive_reboot_key root_key 0 (the counter)) (\<lambda>reboot_key.
          derive_rotated_key aes_ecb reboot_key (the timestamp) (the interval_power)))))"

text \<open>The null provider: 16 zero bytes for every device.\<close>

definition null_provider :: auth_provider where
  "null_provider = \<lparr>supported_keys = [NullKey], stored_root_key = (\<lambda>key_type device_id. Inr (replicate 16 0))\<rparr>"

text \<open>The environment provider: the variable named by the device holds the key as 64 hex digits.\<close>

definition construct_var_name :: "nat \<Rightarrow> string" where
  "construct_var_name device_id =
     (let h = hex_digits device_id in ''USER_KEY_'' @ replicate (8 - length h) (CHR ''0'') @ h)"

definition env_root_key :: "(string \<rightharpoonup> string) \<Rightarrow> int \<Rightarrow> int \<Rightarrow> byte list res" where
  "env_root_key environ key_type device_id =
     (case environ (construct_var_name (nat device_id)) of
        None \<Rightarrow> Inl NotFoundError
      | Some key_var \<Rightarrow>
          if length key_var \<noteq> 64 then Inl NotFoundError
          else (case unhexlify key_var of
                  None \<Rightarrow> Inl NotFoundError
                | Some key \<Rightarrow> if length key \<noteq> 32 then Inl NotFoundError else Inr key))"

definition env_provider :: "(string \<rightharpoonup> string) \<Rightarrow> auth_provider" where
  "env_provider environ = \<lparr>supported_keys = [UserKey], stored_root_key = env_root_key environ\<rparr>"

section \<open>The chain\<close>

text \<open>
  The providers are sorted by priority, stably, and asked in turn; a provider that raises anything but
  \<open>NotFoundError\<close> ends the search.
\<close>

definition chain_providers :: "(int \<times> 'p) list \<Rightarrow> (int \<times> 'p) list" where
  "chain_providers ps = sort_key fst ps"

fun ask_providers :: "('p \<Rightarrow> 'a res) \<Rightarrow> (int \<times> 'p) list \<Rightarrow> 'a res" where
  "ask_providers f [] = Inl NotFoundError"
| "ask_providers f ((prio, p) # ps) =
     (case f p of Inl err \<Rightarrow> if err = NotFoundError then ask_providers f ps else Inl err | Inr key \<Rightarrow> Inr key)"

definition chain_root_key :: "(int \<times> auth_provider) list \<Rightarrow> int \<Rightarrow> int \<Rightarrow> byte list res" where
  "chain_root_key chain key_type device_id =
     ask_providers (\<lambda>p. provider_root_key p key_type device_id) chain"

definition chain_serialized_key ::
  "(int \<times> auth_provider) list \<Rightarrow> int \<Rightarrow> int \<Rightarrow> int option \<Rightarrow> int option \<Rightarrow> byte list res" where
  "chain_serialized_key chain key_type device_id report_id sent_timestamp =
     ask_providers (\<lambda>p. root_serialized_key p key_type device_id report_id sent_timestamp) chain"

definition chain_rotated_key ::
  "(byte list \<Rightarrow> byte list \<Rightarrow> byte list) \<Rightarrow> (int \<times> auth_provider) list \<Rightarrow> int \<Rightarrow> int
   \<Rightarrow> int option \<Rightarrow> int option \<Rightarrow> int option \<Rightarrow> byte list res" where
  "chain_rotated_key aes_ecb chain key_type device_id counter interval_power timestamp =
     ask_providers (\<lambda>p. root_rotated_key aes_ecb p key_type device_id counter interval_power timestamp) chain"

section \<open>Facts about keys\<close>

lemma derive_report_key_length: "derive_report_key k rid sent = Inr key \<Longrightarrow> length key = 32"
  by (auto simp: derive_report_key_def bind_res_Inr_iff simp del: pack_fields.simps)

lemma derive_reboot_key_length: "derive_reboot_key k purpose counter = Inr key \<Longrightarrow> length key = 16"
  by (auto simp: derive_reboot_key_def bind_res_Inr_iff simp del: pack_fields.simps)

lemma ask_providers_first:
  assumes "\<And>q. q \<in> set (map snd ps) \<Longrightarrow> f q = Inl NotFoundError" "f p \<noteq> Inl NotFoundError"
  shows "ask_providers f (ps @ (prio, p) # qs) = f p"
  using assms by (induction ps) (auto split: sum.split)

lemma ask_providers_none:
  "ask_providers f ps = Inl NotFoundError \<longleftrightarrow> (\<forall>p \<in> set (map snd ps). f p = Inl NotFoundError)"
  by (induction f ps rule: ask_providers.induct) (auto split: sum.splits)

text \<open>Clearing the low bits of the time gives the start of the rotation interval.\<close>

lemma and_not_mask: "x AND NOT (2 ^ n - 1) = (x div 2 ^ n) * (2 ^ n :: int)"
proof -
  have "x AND NOT (mask n) = push_bit n (drop_bit n x)"
    by (auto simp: bit_eq_iff bit_and_iff bit_not_iff bit_mask_iff bit_push_bit_iff bit_drop_bit_eq)
  then show ?thesis by (simp add: mask_eq_exp_minus_1 push_bit_eq_mult drop_bit_eq_div)
qed

lemma chain_picks:
  assumes "(prio, p) \<in> set ps" "f p \<noteq> Inl NotFoundError"
    "\<And>pr q. (pr, q) \<in> set ps \<Longrightarrow> f q \<noteq> Inl NotFoundError \<Longrightarrow> (pr, q) = (prio, p) \<or> prio < pr"
  shows "ask_providers f (chain_providers ps) = f p"
proof -
  have "(prio, p) \<in> set (chain_providers ps)" using assms(1) by (simp add: chain_providers_def)
  then obtain xs ys where split: "chain_providers ps = xs @ (prio, p) # ys" "(prio, p) \<notin> set xs"
    by (meson split_list_first)
  have sorted: "sorted (map fst (xs @ (prio, p) # ys))"
    using sorted_sort_key [of fst ps] split(1) by (metis chain_providers_def)
  have "f q = Inl NotFoundError" if q: "q \<in> set (map snd xs)" for q
  proof (rule ccontr)
    assume "f q \<noteq> Inl NotFoundError"
    moreover obtain pr where pr: "(pr, q) \<in> set xs" using q by auto
    moreover from pr have "(pr, q) \<in> set ps"
      using split(1) by (metis Un_iff chain_providers_def set_append set_sort)
    ultimately have "(pr, q) = (prio, p) \<or> prio < pr" using assms(3) by blast
    moreover have "pr \<le> prio" using sorted pr by (force simp: sorted_append)
    ultimately show False using pr split(2) by auto
  qed
  then show ?thesis unfolding split(1) by (rule ask_providers_first) (use assms(2) in simp_all)
qed

section \<open>Properties\<close>

text \<open>
  Rotated keys.  Two times in the same interval of \<open>2 ^ p\<close> seconds give the same key, for every device
  and provider.  A reboot counter, an interval exponent or a time of zero is treated as missing and
  raises \<open>NotFoundError\<close>, even for a provider that has a key.
\<close>

theorem rotated_key_interval:
  assumes "p \<noteq> 0" "t1 \<noteq> 0" "t2 \<noteq> 0" "t1 div 2 ^ nat p = t2 div 2 ^ nat p"
  shows "root_rotated_key aes prov key_type dev counter (Some p) (Some t1) =
      root_rotated_key aes prov key_type dev counter (Some p) (Some t2) \<and>
    root_rotated_key aes prov key_type dev (Some 0) (Some p) (Some t1) = Inl NotFoundError \<and>
    root_rotated_key aes prov key_type dev counter (Some 0) (Some t1) = Inl NotFoundError \<and>
    root_rotated_key aes prov key_type dev counter (Some p) (Some 0) = Inl NotFoundError"
proof -
  have "t1 AND NOT (2 ^ nat p - 1) = t2 AND NOT (2 ^ nat p - 1)" by (simp add: and_not_mask assms(4))
  then have "derive_rotated_key aes k t1 p = derive_rotated_key aes k t2 p" for k
    by (simp only: derive_rotated_key_def)
  then show ?thesis using assms(1-3) by (simp add: root_rotated_key_def py_falsy_def)
qed

theorem rotated_key_interval_witness:
  "root_rotated_key (\<lambda>key msg. msg) null_provider 1 7 (Some 1) (Some 4) (Some 33) =
     root_rotated_key (\<lambda>key msg. msg) null_provider 1 7 (Some 1) (Some 4) (Some 47)"
  using rotated_key_interval [of 4 33 47] by simp

text \<open>
  The chain of providers.  A key is answered by the provider with the lowest priority number among
  those that do not raise \<open>NotFoundError\<close> for it, whatever the order of installation, and its answer is the
  answer of the chain; if every provider raises \<open>NotFoundError\<close> so does the chain.
\<close>

theorem chain_first_provider:
  "((prio, p) \<in> set ps \<longrightarrow> root_serialized_key p key_type dev rid sent \<noteq> Inl NotFoundError \<longrightarrow>
     (\<forall>pr q. (pr, q) \<in> set ps \<longrightarrow> root_serialized_key q key_type dev rid sent \<noteq> Inl NotFoundError \<longrightarrow>
        (pr, q) = (prio, p) \<or> prio < pr) \<longrightarrow>
     chain_serialized_key (chain_providers ps) key_type dev rid sent = root_serialized_key p key_type dev rid sent) \<and>
   ((\<forall>(pr, q) \<in> set ps. root_serialized_key q key_type dev rid sent = Inl NotFoundError) \<longrightarrow>
     chain_serialized_key (chain_providers ps) key_type dev rid sent = Inl NotFoundError)"
  unfolding chain_serialized_key_def
  using chain_picks [of prio p ps "\<lambda>p. root_serialized_key p key_type dev rid sent"]
  by (auto simp: ask_providers_none chain_providers_def)

theorem chain_first_provider_witness:
  "chain_serialized_key (chain_providers [(150, null_provider), (50, env_provider Map.empty)]) NullKey 7 (Some 1) (Some 2)
     = root_serialized_key null_provider NullKey 7 (Some 1) (Some 2)"
proof -
  have null: "root_serialized_key null_provider NullKey 7 (Some 1) (Some 2) \<noteq> Inl NotFoundError"
    by (auto simp: root_serialized_key_def verify_key_def null_provider_def KnownKeyRoots_def provider_root_key_def
        derive_report_key_def pack_u_def)
  have env: "root_serialized_key (env_provider Map.empty) NullKey 7 (Some 1) (Some 2) = Inl NotFoundError"
    by (simp add: root_serialized_key_def verify_key_def env_provider_def KnownKeyRoots_def)
  show ?thesis
    using chain_first_provider [of 150 null_provider "[(150, null_provider), (50, env_provider Map.empty)]"
        NullKey 7 "Some 1" "Some 2"] null env by auto
qed

end
