(* ===== verification/Reports.thy ===== *)
theory Reports
  imports Auth Readings
begin

text \<open>
  The binary report formats (\<open>iotile/core/hw/reports\<close>): individual readings, broadcasts and signed lists.
  A report object is built from its bytes and decodes them in its constructor, so building it may raise.
  The time at which a report is received is a parameter of the constructors.
\<close>

section \<open>Reports\<close>

record iotile_report =
  origin :: int
  received_time :: datetime
  raw_report :: "byte list"
  signed :: bool
  encrypted :: bool
  verified :: bool
  sent_timestamp :: int
  visible_readings :: "reading list"

text \<open>The attributes that decoding a signed list sets on top of these.\<close>

record signed_list_report = iotile_report +
  report_id :: int
  origin_streamer :: int
  streamer_selector :: int
  signature_flags :: int
  lowest_id :: int
  highest_id :: int
  signature :: "byte list"

text \<open>\<open>struct.unpack\<close> needs a string of exactly the size of the format.\<close>

definition unpack_exact :: "nat list \<Rightarrow> byte list \<Rightarrow> int list res" where
  "unpack_exact ns bs = (if length bs = sum_list ns then Inr (unpack_fields ns bs) else Inl StructError)"

section \<open>Individual readings\<close>

definition individual_header_length :: int where "individual_header_length = 1"
definition individual_report_length :: "byte list \<Rightarrow> int res" where "individual_report_length header = Inr 20"

definition individual_decode :: "datetime \<Rightarrow> byte list \<Rightarrow> iotile_report res" where
  "individual_decode now raw =
     bind_res (unpack_exact [1, 1, 2, 4, 4, 4, 4] raw) (\<lambda>fs.
       case fs of
         [fmt, pad, strm, uuid, sent, timestamp, val] \<Rightarrow>
           if fmt \<noteq> 0 then Inl AssertionError
           else Inr \<lparr>origin = uuid, received_time = now, raw_report = raw, signed = False, encrypted = False,
                     verified = False, sent_timestamp = sent,
                     visible_readings =
                       [new_reading timestamp strm val (Some (now - seconds sent)) None None]\<rparr>
       | _ \<Rightarrow> Inl StructError)"

definition individual_from_readings :: "datetime \<Rightarrow> int \<Rightarrow> reading list \<Rightarrow> iotile_report res" where
  "individual_from_readings now uuid readings =
     (if length readings \<noteq> 1 then Inl ArgumentError
      else
        let r = hd readings
        in bind_res (pack_fields [(1, 0), (1, 0), (2, r_stream r), (4, uuid), (4, 0), (4, raw_time r), (4, r_value r)])
             (individual_decode now))"

definition individual_encode :: "iotile_report \<Rightarrow> byte list res" where
  "individual_encode rep =
     bind_res (py_nth (visible_readings rep) 0) (\<lambda>r.
       pack_fields [(1, 0), (1, 0), (2, r_stream r), (4, origin rep), (4, sent_timestamp rep),
         (4, raw_time r), (4, r_value r)])"

section \<open>Readings in frames of 16 bytes\<close>

definition pack_reading :: "reading \<Rightarrow> byte list res" where
  "pack_reading r =
     pack_fields [(2, r_stream r), (2, 0), (4, reading_id r), (4, raw_time r), (4, r_value r)]"

definition pack_readings :: "reading list \<Rightarrow> byte list res" where
  "pack_readings rs = bind_res (map_res pack_reading rs) (\<lambda>bs. Inr (concat bs))"

definition unpack_reading :: "datetime \<Rightarrow> byte list \<Rightarrow> reading res" where
  "unpack_reading time_base bs =
     bind_res (unpack_exact [2, 2, 4, 4, 4] bs) (\<lambda>fs.
       case fs of
         [strm, pad, rid, timestamp, val] \<Rightarrow>
           Inr (new_reading timestamp strm val (Some time_base) (Some rid) None)
       | _ \<Rightarrow> Inl StructError)"

text \<open>The loop over \<open>range(0, len(readings), 16)\<close>.\<close>

function unpack_readings :: "datetime \<Rightarrow> byte list \<Rightarrow> reading list res" where
  "unpack_readings time_base bs =
     (if bs = [] then Inr []
      else bind_res (unpack_reading time_base (take 16 bs)) (\<lambda>r.
           bind_res (unpack_readings time_base (drop 16 bs)) (\<lambda>rs. Inr (r # rs))))"
  by pat_completeness auto
termination by (relation "measure (\<lambda>(time_base, bs). length bs)") auto

declare unpack_readings.simps [simp del]

section \<open>Broadcasts\<close>

definition broadcast_header_length :: int where "broadcast_header_length = 16"

definition broadcast_auth_block_length :: "int \<Rightarrow> int option" where
  "broadcast_auth_block_length auth_type = (if auth_type = 0 then Some 0 else None)"

text \<open>The format \<open><xBHLLL\<close>; the first byte is padding.\<close>

definition broadcast_parse_header :: "byte list \<Rightarrow> (int \<times> int \<times> int \<times> int) res" where
  "broadcast_parse_header header =
     (if length header \<noteq> 16 then Inl AssertionError
      else case unpack_fields [1, 1, 2, 4, 4, 4] header of
        [pad, auth_type, reading_length, uuid, sent, reserved] \<Rightarrow> Inr (auth_type, reading_length, uuid, sent)
      | _ \<Rightarrow> Inl StructError)"

definition broadcast_report_length :: "byte list \<Rightarrow> int res" where
  "broadcast_report_length header =
     bind_res (broadcast_parse_header header) (\<lambda>(auth_type, reading_length, uuid, sent).
       case broadcast_auth_block_length auth_type of
         None \<Rightarrow> Inl DataError | Some auth_size \<Rightarrow> Inr (16 + reading_length + auth_size))"

definition broadcast_decode :: "datetime \<Rightarrow> byte list \<Rightarrow> iotile_report res" where
  "broadcast_decode now raw =
     bind_res (broadcast_parse_header (take 16 raw)) (\<lambda>(auth_type, reading_length, uuid, sent).
       if broadcast_auth_block_length auth_type = None then Inl AssertionError
       else if reading_length mod 16 \<noteq> 0 then Inl AssertionError
       else
         bind_res (unpack_readings (now - seconds sent) (take (nat reading_length) (drop 16 raw))) (\<lambda>rs.
           Inr \<lparr>origin = uuid, received_time = now, raw_report = raw, signed = False, encrypted = False,
                verified = False, sent_timestamp = sent, visible_readings = rs\<rparr>))"

definition broadcast_from_readings :: "datetime \<Rightarrow> int \<Rightarrow> reading list \<Rightarrow> int \<Rightarrow> iotile_report res" where
  "broadcast_from_readings now uuid readings sent =
     bind_res (pack_fields [(1, 3), (1, 0), (2, int (length readings) * 16), (4, uuid), (4, sent), (4, 0)]) (\<lambda>header.
     bind_res (pack_readings readings) (\<lambda>packed. broadcast_decode now (header @ packed)))"

section \<open>Signed lists\<close>

abbreviation (input) SIGNED_WITH_HASH :: int where "SIGNED_WITH_HASH \<equiv> 0"
abbreviation (input) SIGNED_WITH_USER_KEY :: int where "SIGNED_WITH_USER_KEY \<equiv> 1"
abbreviation (input) SIGNED_WITH_DEVICE_KEY :: int where "SIGNED_WITH_DEVICE_KEY \<equiv> 2"

definition key_type_to_stream_type :: "int \<Rightarrow> int res" where
  "key_type_to_stream_type key_type =
     (if key_type = NoKey then Inr SIGNED_WITH_HASH
      else if key_type = UserKey then Inr SIGNED_WITH_USER_KEY
      else if key_type = DeviceKey then Inr SIGNED_WITH_DEVICE_KEY
      else Inl ExternalError)"

definition stream_type_to_key_type :: "int \<Rightarrow> int res" where
  "stream_type_to_key_type stream_type =
     (if stream_type = SIGNED_WITH_HASH then Inr NoKey
      else if stream_type = SIGNED_WITH_USER_KEY then Inr UserKey
      else if stream_type = SIGNED_WITH_DEVICE_KEY then Inr DeviceKey
      else Inl ExternalError)"

definition signed_list_header_length :: int where "signed_list_header_length = 20"

definition signed_list_report_length :: "byte list \<Rightarrow> int res" where
  "signed_list_report_length header =
     bind_res (unpack_exact [4] (take 4 header)) (\<lambda>fs. Inr (drop_bit 8 (hd fs)))"

text \<open>
  The signer is given by its function for one-time keys: key type, device, report id and time.  AES in
  counter mode is third-party code: \<open>aes_ctr key data\<close> is a parameter, used to encrypt and to decrypt.
\<close>

type_synonym signer = "int \<Rightarrow> int \<Rightarrow> int option \<Rightarrow> int option \<Rightarrow> byte list res"

definition sign_report :: "signer \<Rightarrow> int \<Rightarrow> int \<Rightarrow> int \<Rightarrow> int \<Rightarrow> byte list \<Rightarrow> byte list res" where
  "sign_report auth device_id key_type rid sent data =
     (if key_type = NoKey then Inr (sha256 data)
      else bind_res (auth key_type device_id (Some rid) (Some sent)) (\<lambda>report_key.
             Inr (hmac_sha256 report_key (sha256 data))))"

text \<open>
  \<open>VerifyReport\<close>, its flag only; \<open>hmac.compare_digest\<close> is equality of the two byte strings.
\<close>

definition verify_report ::
  "signer \<Rightarrow> int \<Rightarrow> int \<Rightarrow> int \<Rightarrow> int \<Rightarrow> byte list \<Rightarrow> byte list \<Rightarrow> bool res" where
  "verify_report auth device_id key_type rid sent data sig =
     bind_res (if key_type = NoKey then Inr (sha256 data)
               else bind_res (auth key_type device_id (Some rid) (Some sent)) (\<lambda>report_key.
                      Inr (hmac_sha256 report_key (sha256 data)))) (\<lambda>result.
       Inr (if length sig = 0 then False
            else if length sig > length result then False
            else if length sig < length result then sig = take (length sig) result
            else sig = result))"

definition crypt_report ::
  "(byte list \<Rightarrow> byte list \<Rightarrow> byte list) \<Rightarrow> signer \<Rightarrow> int \<Rightarrow> int \<Rightarrow> int \<Rightarrow> int \<Rightarrow> byte list \<Rightarrow> byte list res" where
  "crypt_report aes_ctr auth device_id key_type rid sent data =
     bind_res (auth key_type device_id (Some rid) (Some sent)) (\<lambda>report_key.
       Inr (aes_ctr (take 16 report_key) data))"

text \<open>An exception of the class \<open>NotFoundError\<close> is turned into another one, every other is passed on.\<close>

definition not_found_as :: "py_error \<Rightarrow> 'a res \<Rightarrow> 'a res" where
  "not_found_as err x = (case x of Inl e \<Rightarrow> Inl (if e = NotFoundError then err else e) | Inr a \<Rightarrow> Inr a)"

definition signed_list_decode ::
  "(byte list \<Rightarrow> byte list \<Rightarrow> byte list) \<Rightarrow> signer \<Rightarrow> datetime \<Rightarrow> byte list \<Rightarrow> signed_list_report res" where
  "signed_list_decode aes_ctr auth now raw =
     bind_res (unpack_exact [1, 1, 2, 4, 4, 4, 1, 1, 2] (take 20 raw)) (\<lambda>fs.
       case fs of
         [fmt, len_low, len_high, device_id, rid, sent, flags, streamer, sel] \<Rightarrow>
           (if fmt \<noteq> 1 then Inl AssertionError
            else if int (length raw) \<noteq> (push_bit 8 len_high OR len_low) then Inl AssertionError
            else
              let remaining = drop 20 raw
              in if length remaining < 24 then Inl AssertionError
              else
                let readings = take (length remaining - 24) remaining;
                    footer = drop (length remaining - 24) remaining;
                    sig = drop 8 footer;
                    signed_data = take (length raw - 16) raw
                in
                bind_res (stream_type_to_key_type flags) (\<lambda>key_type.
                let ver = (case verify_report auth device_id key_type rid sent signed_data sig of
                             Inl e \<Rightarrow> if e = NotFoundError then Inr False else Inl e | Inr b \<Rightarrow> Inr b)
                in bind_res ver (\<lambda>ok.
                let result = (\<lambda>rs. Inr \<lparr>origin = device_id, received_time = now, raw_report = raw, signed = True,
                       encrypted = (key_type \<noteq> NoKey), verified = ok, sent_timestamp = sent,
                       visible_readings = rs, report_id = rid, origin_streamer = streamer,
                       streamer_selector = sel, signature_flags = flags, lowest_id = le_int (take 4 footer),
                       highest_id = le_int (take 4 (drop 4 footer)), signature = sig\<rparr>);
                    parse = (\<lambda>data. if length data mod 16 \<noteq> 0 then Inl AssertionError
                       else bind_res (unpack_readings (now - seconds sent) data) result)
                in if \<not> ok then result []
                   else if key_type = NoKey then parse readings
                   else case crypt_report aes_ctr auth device_id key_type rid sent readings of
                       Inl e \<Rightarrow> if e = NotFoundError then result [] else Inl e
                     | Inr data \<Rightarrow> parse data)))
       | _ \<Rightarrow> Inl StructError)"

definition real_ids :: "reading list \<Rightarrow> int list" where
  "real_ids readings = filter (\<lambda>i. i \<noteq> InvalidReadingID) (map reading_id readings)"

text \<open>
  A report is signed and encrypted by the given signer, by default a new \<open>ChainedAuthProvider\<close>, whose keys are
  \<open>auth\<close>.  The report is then made from its bytes, and so is read with the keys of the chain, whoever signed it.
\<close>

definition signing_provider :: "signer option \<Rightarrow> signer \<Rightarrow> signer" where
  "signing_provider signer auth = (case signer of None \<Rightarrow> auth | Some s \<Rightarrow> s)"

definition signed_list_from_readings ::
  "(byte list \<Rightarrow> byte list \<Rightarrow> byte list) \<Rightarrow> signer \<Rightarrow> signer option \<Rightarrow> datetime \<Rightarrow> int \<Rightarrow> reading list \<Rightarrow> int \<Rightarrow> int \<Rightarrow> int \<Rightarrow> int \<Rightarrow> int
   \<Rightarrow> signed_list_report res" where
  "signed_list_from_readings aes_ctr auth signer now uuid readings root_key rid sel streamer sent =
     (let ids = real_ids readings;
          lowest = (if ids = [] then InvalidReadingID else Min (set ids));
          highest = (if ids = [] then InvalidReadingID else Max (set ids));
          report_len = 20 + 16 * int (length readings) + 24
      in
      bind_res (key_type_to_stream_type root_key) (\<lambda>flags.
      bind_res (pack_fields [(1, 1), (1, report_len AND 0xFF), (2, drop_bit 8 report_len), (4, uuid), (4, rid),
                  (4, sent), (1, flags), (1, streamer), (2, sel)]) (\<lambda>header.
      bind_res (pack_readings readings) (\<lambda>packed.
      bind_res (pack_fields [(4, lowest), (4, highest)]) (\<lambda>footer_stats.
      bind_res (if root_key \<noteq> NoKey
                then not_found_as ExternalError (crypt_report aes_ctr (signing_provider signer auth) uuid root_key rid sent packed)
                else Inr packed) (\<lambda>payload.
      let signed_data = header @ payload @ footer_stats
      in bind_res (not_found_as ExternalError (sign_report (signing_provider signer auth) uuid root_key rid sent signed_data)) (\<lambda>sig.
           signed_list_decode aes_ctr auth now (signed_data @ take 16 sig))))))))"

section \<open>Round trips\<close>

text \<open>The readings whose fields fit into a frame.\<close>

definition packable :: "reading \<Rightarrow> bool" where
  "packable r \<longleftrightarrow> 0 \<le> r_stream r \<and> r_stream r < 256 ^ 2 \<and> 0 \<le> reading_id r \<and> reading_id r < 256 ^ 4 \<and>
     0 \<le> raw_time r \<and> raw_time r < 256 ^ 4 \<and> 0 \<le> r_value r \<and> r_value r < 256 ^ 4"

text \<open>The reading that a receiver decodes: its time is computed from the estimated start of the device.\<close>

definition received :: "datetime \<Rightarrow> reading \<Rightarrow> reading" where
  "received time_base r = new_reading (raw_time r) (r_stream r) (r_value r) (Some time_base) (Some (reading_id r)) None"

lemma received_eq: "reading_eq (received time_base r) r"
  by (simp add: received_def new_reading_def reading_eq_def)

lemma unpack_exact_pack:
  assumes "pack_fields fs = Inr bs"
  shows "unpack_exact (map fst fs) bs = Inr (map snd fs)"
  using unpack_pack_fields [OF assms, of "[]"] length_pack_fields [OF assms] by (simp add: unpack_exact_def)

lemma pack_fields_total:
  "list_all (\<lambda>(n, v). 0 \<le> v \<and> v < 256 ^ n) fs \<Longrightarrow> \<exists>bs. pack_fields fs = Inr bs"
  by (simp add: pack_fields_Inr_iff)

lemma pack_reading_total: "packable r \<Longrightarrow> \<exists>bs. pack_reading r = Inr bs"
  unfolding pack_reading_def by (rule pack_fields_total) (simp add: packable_def)

lemma pack_reading_unpack:
  assumes "pack_reading r = Inr bs"
  shows "length bs = 16" "unpack_reading time_base bs = Inr (received time_base r)"
  using length_pack_fields [OF assms [unfolded pack_reading_def]]
    unpack_exact_pack [OF assms [unfolded pack_reading_def]]
  by (simp_all add: unpack_reading_def received_def)

lemma pack_readings_unpack:
  assumes "pack_readings rs = Inr bs"
  shows "length bs = 16 * length rs \<and> unpack_readings time_base bs = Inr (map (received time_base) rs)"
  using assms
proof (induction rs arbitrary: bs)
  case Nil
  then show ?case by (simp add: pack_readings_def unpack_readings.simps)
next
  case (Cons r rs)
  then obtain b bs' where b: "pack_reading r = Inr b" and bs': "pack_readings rs = Inr bs'" and bs: "bs = b @ bs'"
    by (auto simp: pack_readings_def bind_res_Inr_iff)
  have len: "length b = 16" using pack_reading_unpack(1) [OF b] .
  then have "b @ bs' \<noteq> []" by auto
  then show ?case
    using Cons.IH [OF bs'] len pack_reading_unpack(2) [OF b] bs
    by (simp add: unpack_readings.simps [of time_base "b @ bs'"])
qed

lemma pack_readings_total:
  assumes "list_all packable rs"
  shows "\<exists>bs. pack_readings rs = Inr bs"
proof -
  have "\<exists>xs. map_res pack_reading rs = Inr xs"
    using assms
  proof (induction rs)
    case (Cons r rs)
    then obtain b xs where "pack_reading r = Inr b" "map_res pack_reading rs = Inr xs"
      using pack_reading_total [of r] by auto
    then show ?case by simp
  qed simp
  then show ?thesis by (auto simp: pack_readings_def)
qed

lemma le_int_append: "le_int (xs @ ys) = le_int xs + 256 ^ length xs * le_int ys"
  by (induction xs) (simp_all add: algebra_simps)

lemma and_255: "(x::int) AND 255 = x mod 256"
  using and_low_bits [of x 8] by simp

lemma split_length:
  fixes n :: int
  assumes "0 \<le> n" "n < 2 ^ 24"
  shows "push_bit 8 (drop_bit 8 n) OR (n AND 255) = n" "drop_bit 8 n < 256 ^ 2" "0 \<le> drop_bit 8 n"
    "n AND 255 < 256" "0 \<le> n AND 255"
proof -
  show "push_bit 8 (drop_bit 8 n) OR (n AND 255) = n"
    using push_bit_or_field [of "n mod 256" 8 "n div 256"] by (simp add: and_255 drop_bits)
  show "drop_bit 8 n < 256 ^ 2" "0 \<le> drop_bit 8 n" "n AND 255 < 256" "0 \<le> n AND 255"
    using assms by (simp_all add: and_255 drop_bits)
qed

lemma pack_fields_Cons:
  "pack_fields ((n, v) # fs) = Inr bs \<longleftrightarrow>
   0 \<le> v \<and> v < 256 ^ n \<and> (\<exists>rest. pack_fields fs = Inr rest \<and> bs = le_bytes n v @ rest)"
  by (auto simp: pack_u_def bind_res_Inr_iff)

text \<open>Verifying accepts a non-empty prefix of the signature, in particular its first 16 bytes.\<close>

lemma verify_sign:
  assumes "sign_report auth dev key rid sent data = Inr sig" "0 < n"
  shows "verify_report auth dev key rid sent data (take n sig) = Inr True"
proof -
  have "length sig = 32"
    using assms(1) by (auto simp: sign_report_def bind_res_Inr_iff split: if_splits)
  then show ?thesis using assms
    by (auto simp: sign_report_def verify_report_def bind_res_Inr_iff min_def split: if_splits)
qed

lemma sign_report_length: "sign_report auth dev key rid sent data = Inr sig \<Longrightarrow> length sig = 32"
  by (auto simp: sign_report_def bind_res_Inr_iff split: if_splits)

lemma key_type_roundtrip:
  "key_type_to_stream_type k = Inr t \<Longrightarrow> stream_type_to_key_type t = Inr k \<and> 0 \<le> t \<and> t < 256"
  by (auto simp: key_type_to_stream_type_def stream_type_to_key_type_def split: if_splits)

section \<open>Decoding a signed list that was put together\<close>

text \<open>
  A report is a header, the packed (and possibly encrypted) readings, the id statistics and the first 16
  bytes of the signature.
\<close>

lemma signed_list_decode_parts:
  assumes header: "pack_fields [(1, 1), (1, n AND 0xFF), (2, drop_bit 8 n), (4, uuid), (4, rid),
                  (4, sent), (1, flags), (1, streamer), (2, sel)] = Inr header"
    and stats: "pack_fields [(4, lowest), (4, highest)] = Inr stats"
    and n: "n = int (44 + length payload)" "n < 2 ^ 24"
    and key: "stream_type_to_key_type flags = Inr key_type"
    and sig: "length sig = 16" "(case verify_report auth uuid key_type rid sent (header @ payload @ stats) sig of
      Inl e \<Rightarrow> if e = NotFoundError then Inr False else Inl e | Inr b \<Rightarrow> Inr b) = Inr ok"
    and plain: "ok \<Longrightarrow> if key_type = NoKey then plain = payload
      else crypt_report aes_ctr auth uuid key_type rid sent payload = Inr plain"
    and rs: "ok \<Longrightarrow> length plain mod 16 = 0" "ok \<Longrightarrow> unpack_readings (now - seconds sent) plain = Inr rs"
  shows "signed_list_decode aes_ctr auth now (header @ payload @ stats @ sig) =
    Inr \<lparr>origin = uuid, received_time = now, raw_report = header @ payload @ stats @ sig, signed = True,
       encrypted = (key_type \<noteq> NoKey), verified = ok, sent_timestamp = sent,
       visible_readings = (if ok then rs else []), report_id = rid, origin_streamer = streamer,
       streamer_selector = sel, signature_flags = flags, lowest_id = lowest, highest_id = highest, signature = sig\<rparr>"
proof -
  let ?raw = "header @ payload @ stats @ sig"
  have len: "length header = 20" "length stats = 8"
    using length_pack_fields [OF header] length_pack_fields [OF stats] by simp_all
  have hd: "unpack_exact [1, 1, 2, 4, 4, 4, 1, 1, 2] (take 20 ?raw) =
      Inr [1, n AND 0xFF, drop_bit 8 n, uuid, rid, sent, flags, streamer, sel]"
    using unpack_exact_pack [OF header] len by simp
  have total: "int (length ?raw) = push_bit 8 (drop_bit 8 n) OR (n AND 255)"
    using split_length(1) [of n] n len sig(1) by simp
  have parts: "length (drop 20 ?raw) = length payload + 24" "drop 20 ?raw = payload @ stats @ sig"
    "take (length ?raw - 16) ?raw = header @ payload @ stats"
    using len sig(1) by simp_all
  have ids: "le_int (take 4 stats) = lowest" "le_int (take 4 (drop 4 stats)) = highest"
    using unpack_pack_fields [OF stats, of "[]"] by simp_all
  have dropped: "drop 8 (drop (length payload) (payload @ stats @ sig)) = sig" "drop (length payload) (payload @ stats @ sig) = stats @ sig"
    using len by simp_all
  consider "\<not> ok" | "ok" "key_type = NoKey" | "ok" "key_type \<noteq> NoKey" by blast
  then show ?thesis
  proof cases
    case 3
    then have "crypt_report aes_ctr auth uuid key_type rid sent payload = Inr plain" using plain by simp
    then show ?thesis
      using 3 hd total parts ids len sig key rs
      by (simp add: signed_list_decode_def Let_def)
  qed (use hd total parts ids len sig key plain rs in \<open>simp add: signed_list_decode_def Let_def\<close>)+
qed

definition key_available :: "signer \<Rightarrow> int \<Rightarrow> int \<Rightarrow> int \<Rightarrow> int \<Rightarrow> bool" where
  "key_available auth key_type dev rid sent \<longleftrightarrow>
     key_type = NoKey \<or> (key_type \<in> {UserKey, DeviceKey} \<and> (\<exists>key. auth key_type dev (Some rid) (Some sent) = Inr key))"

lemma real_ids_packable: "list_all packable rs \<Longrightarrow> i \<in> set (real_ids rs) \<Longrightarrow> 0 \<le> i \<and> i < 256 ^ 4"
  by (auto simp: real_ids_def packable_def list_all_iff)

lemma signed_list_length_word:
  assumes "pack_fields [(1, 1), (1, n AND 0xFF), (2, drop_bit 8 n), (4, uuid), (4, rid),
                  (4, sent), (1, flags), (1, streamer), (2, sel)] = Inr header"
    and "0 \<le> n"
  shows "signed_list_report_length (take 20 (header @ rest)) = Inr n"
proof -
  have len: "length header = 20" using length_pack_fields [OF assms(1)] by simp
  obtain tail where "header = le_bytes 1 1 @ le_bytes 1 (n AND 0xFF) @ le_bytes 2 (drop_bit 8 n) @ tail"
    "0 \<le> drop_bit 8 n" "drop_bit 8 n < 256 ^ 2"
    using assms(1) unfolding pack_fields_Cons by auto
  then have "take 4 header = le_bytes 1 1 @ le_bytes 1 (n AND 0xFF) @ le_bytes 2 (drop_bit 8 n)"
    "drop_bit 8 n mod 256 ^ 2 = drop_bit 8 n"
    by simp_all
  then have "le_int (take 4 header) = 1 + 256 * (n mod 256 + 256 * drop_bit 8 n)"
    by (simp add: le_int_append le_int_le_bytes and_255 del: le_bytes.simps)
  then have "le_int (take 4 header) = 1 + 256 * n" by (simp add: drop_bits)
  then show ?thesis using len by (simp add: signed_list_report_length_def unpack_exact_def drop_bits)
qed

lemma signed_list_roundtrip_lemma:
  assumes rs: "list_all packable readings" "20 + 16 * int (length readings) + 24 < 2 ^ 24"
    and range: "0 \<le> uuid" "uuid < 256 ^ 4" "0 \<le> rid" "rid < 256 ^ 4" "0 \<le> sent" "sent < 256 ^ 4"
      "0 \<le> streamer" "streamer < 256" "0 \<le> sel" "sel < 256 ^ 2"
    and key: "key_available (signing_provider signer auth) root_key uuid rid sent"
    and known: "root_key = NoKey \<or> auth root_key uuid (Some rid) (Some sent) = signing_provider signer auth root_key uuid (Some rid) (Some sent) \<or>
      auth root_key uuid (Some rid) (Some sent) = Inl NotFoundError"
    and aes: "root_key \<noteq> NoKey \<longrightarrow> (\<forall>k d. aes k (aes k d) = d \<and> length (aes k d) = length d)"
  shows "\<exists>rep. signed_list_from_readings aes auth signer now uuid readings root_key rid sel streamer sent = Inr rep \<and>
    origin rep = uuid \<and> report_id rep = rid \<and> sent_timestamp rep = sent \<and> origin_streamer rep = streamer \<and>
    streamer_selector rep = sel \<and>
    verified rep = (root_key = NoKey \<or> auth root_key uuid (Some rid) (Some sent) = signing_provider signer auth root_key uuid (Some rid) (Some sent)) \<and>
    encrypted rep = (root_key \<noteq> NoKey) \<and>
    visible_readings rep = (if verified rep then map (received (now - seconds sent)) readings else []) \<and>
    signed_list_report_length (take 20 (raw_report rep)) = Inr (int (length (raw_report rep))) \<and>
    int (length (raw_report rep)) = 20 + 16 * int (length readings) + 24"
proof -
  let ?s = "signing_provider signer auth"
  define ok where "ok = (root_key = NoKey \<or> auth root_key uuid (Some rid) (Some sent) = ?s root_key uuid (Some rid) (Some sent))"
  let ?n = "20 + 16 * int (length readings) + 24"
  define lowest where "lowest = (if real_ids readings = [] then InvalidReadingID else Min (set (real_ids readings)))"
  define highest where "highest = (if real_ids readings = [] then InvalidReadingID else Max (set (real_ids readings)))"
  note split = split_length [of ?n]
  have "root_key \<in> {NoKey, UserKey, DeviceKey}" using key by (auto simp: key_available_def)
  then obtain flags where flags: "key_type_to_stream_type root_key = Inr flags"
    by (auto simp: key_type_to_stream_type_def)
  note flags_back = key_type_roundtrip [OF flags]
  have "\<exists>header. pack_fields [(1, 1), (1, ?n AND 0xFF), (2, drop_bit 8 ?n), (4, uuid), (4, rid),
                  (4, sent), (1, flags), (1, streamer), (2, sel)] = Inr header"
    by (rule pack_fields_total) (use range flags_back split rs(2) in simp)
  then obtain header where header: "pack_fields [(1, 1), (1, ?n AND 0xFF), (2, drop_bit 8 ?n), (4, uuid), (4, rid),
                  (4, sent), (1, flags), (1, streamer), (2, sel)] = Inr header" by blast
  obtain packed where packed: "pack_readings readings = Inr packed" using pack_readings_total [OF rs(1)] by blast
  note unpacked = pack_readings_unpack [OF packed, of "now - seconds sent"]
  have "0 \<le> lowest \<and> lowest < 256 ^ 4" "0 \<le> highest \<and> highest < 256 ^ 4"
    using real_ids_packable [OF rs(1)] Min_in [of "set (real_ids readings)"] Max_in [of "set (real_ids readings)"]
    by (auto simp: lowest_def highest_def)
  then have "\<exists>stats. pack_fields [(4, lowest), (4, highest)] = Inr stats"
    by (intro pack_fields_total) simp
  then obtain stats where stats: "pack_fields [(4, lowest), (4, highest)] = Inr stats" by blast
  define payload where "payload = (if root_key = NoKey then packed
     else case ?s root_key uuid (Some rid) (Some sent) of Inr key \<Rightarrow> aes (take 16 key) packed | Inl e \<Rightarrow> [])"
  have crypt: "root_key \<noteq> NoKey \<Longrightarrow> crypt_report aes ?s uuid root_key rid sent packed = Inr payload"
    "root_key \<noteq> NoKey \<Longrightarrow> ok \<Longrightarrow> crypt_report aes auth uuid root_key rid sent payload = Inr packed"
    "length payload = length packed"
    using key aes by (auto simp: payload_def crypt_report_def key_available_def ok_def)
  obtain sig where sig: "sign_report ?s uuid root_key rid sent (header @ payload @ stats) = Inr sig"
    using key by (auto simp: sign_report_def key_available_def)
  have "length (take 16 sig) = 16" using sign_report_length [OF sig] by simp
  moreover have "(case verify_report auth uuid root_key rid sent (header @ payload @ stats) (take 16 sig) of
      Inl e \<Rightarrow> if e = NotFoundError then Inr False else Inl e | Inr b \<Rightarrow> Inr b) = Inr ok"
  proof (cases ok)
    case True
    then have "verify_report auth uuid root_key rid sent (header @ payload @ stats) (take 16 sig) =
        verify_report ?s uuid root_key rid sent (header @ payload @ stats) (take 16 sig)"
      by (auto simp: ok_def verify_report_def)
    then show ?thesis using True verify_sign [OF sig, of 16] by simp
  next
    case False
    then show ?thesis using known by (auto simp: ok_def verify_report_def)
  qed
  moreover have "?n = int (44 + length payload)" using unpacked crypt(3) by simp
  ultimately have "signed_list_decode aes auth now (header @ payload @ stats @ take 16 sig) =
    Inr \<lparr>origin = uuid, received_time = now, raw_report = header @ payload @ stats @ take 16 sig, signed = True,
       encrypted = (root_key \<noteq> NoKey), verified = ok, sent_timestamp = sent,
       visible_readings = (if ok then map (received (now - seconds sent)) readings else []), report_id = rid,
       origin_streamer = streamer, streamer_selector = sel, signature_flags = flags, lowest_id = lowest,
       highest_id = highest, signature = take 16 sig\<rparr>"
    using signed_list_decode_parts [OF header stats _ rs(2), where payload = payload and key_type = root_key
        and auth = auth and sig = "take 16 sig" and aes_ctr = aes and plain = packed and ok = ok]
      flags_back unpacked crypt by (auto simp: payload_def)
  moreover have pay: "(if root_key \<noteq> NoKey then not_found_as ExternalError (crypt_report aes ?s uuid root_key rid sent packed)
      else Inr packed) = Inr payload"
    using crypt(1) by (simp add: not_found_as_def) (simp add: payload_def)
  moreover have signs: "not_found_as ExternalError (sign_report ?s uuid root_key rid sent (header @ payload @ stats)) = Inr sig"
    using sig by (simp add: not_found_as_def)
  moreover have "signed_list_from_readings aes auth signer now uuid readings root_key rid sel streamer sent =
      signed_list_decode aes auth now (header @ payload @ stats @ take 16 sig)"
    unfolding signed_list_from_readings_def Let_def lowest_def [symmetric] highest_def [symmetric]
    by (simp only: flags header packed stats pay signs bind_res_simps append_assoc)
  moreover have "int (length (header @ payload @ stats @ take 16 sig)) = ?n"
    using length_pack_fields [OF header] length_pack_fields [OF stats] \<open>length (take 16 sig) = 16\<close>
      \<open>?n = int (44 + length payload)\<close> by simp
  moreover have "signed_list_report_length (take 20 (header @ payload @ stats @ take 16 sig)) = Inr ?n"
    by (rule signed_list_length_word [OF header]) simp
  ultimately show ?thesis by (simp add: ok_def del: take_append length_append)
qed

text \<open>A report that is signed with a hash only.\<close>

lemma signed_list_unkeyed:
  assumes "list_all packable readings" "20 + 16 * int (length readings) + 24 < 2 ^ 24"
    "0 \<le> uuid" "uuid < 256 ^ 4" "0 \<le> rid" "rid < 256 ^ 4" "0 \<le> sent" "sent < 256 ^ 4"
    "0 \<le> streamer" "streamer < 256" "0 \<le> sel" "sel < 256 ^ 2"
  shows "\<exists>rep. signed_list_from_readings aes auth signer now uuid readings NoKey rid sel streamer sent = Inr rep \<and>
    verified rep \<and> report_id rep = rid \<and> visible_readings rep = map (received (now - seconds sent)) readings \<and>
    int (length (raw_report rep)) = 20 + 16 * int (length readings) + 24"
proof -
  have "key_available (signing_provider signer auth) NoKey uuid rid sent" by (simp add: key_available_def)
  from signed_list_roundtrip_lemma [OF assms this, of aes now] show ?thesis by auto
qed

lemma unpack_nine:
  "unpack_exact [n1, n2, n3, n4, n5, n6, n7, n8, n9] bs = Inr fs \<Longrightarrow>
   \<exists>a b c d e f g h i. fs = [a, b, c, d, e, f, g, h, i]"
  by (auto simp: unpack_exact_def split: if_splits)

lemma finish_inv:
  assumes "(if c1 then Inl AssertionError else if c2 then Inl AssertionError else if c3 then Inl AssertionError
    else if \<not> ok then Inr (mk [])
    else if nokey then (if c4 then Inl AssertionError else bind_res u (\<lambda>rs. Inr (mk rs)))
    else case cr of Inl e \<Rightarrow> if e = NotFoundError then Inr (mk []) else Inl e
      | Inr data \<Rightarrow> if c5 data then Inl AssertionError else bind_res (u' data) (\<lambda>rs. Inr (mk rs))) = Inr rep"
  shows "\<exists>rs. rep = mk rs \<and> (\<not> ok \<longrightarrow> rs = [])"
  using assms by (auto simp: bind_res_Inr_iff split: if_splits sum.splits)

lemma signed_list_decode_inv:
  assumes "signed_list_decode aes auth now raw = Inr rep"
  shows "raw_report rep = raw \<and> (\<exists>key_type. stream_type_to_key_type (signature_flags rep) = Inr key_type \<and> 44 \<le> length raw \<and>
    signature rep = drop (length raw - 16) raw \<and> (\<not> verified rep \<longrightarrow> visible_readings rep = []) \<and>
    (verified rep \<longrightarrow> verify_report auth (origin rep) key_type (report_id rep) (sent_timestamp rep)
       (take (length raw - 16) raw) (signature rep) = Inr True))"
proof -
  obtain fs where fs0: "unpack_exact [1, 1, 2, 4, 4, 4, 1, 1, 2] (take 20 raw) = Inr fs"
    using assms by (cases "unpack_exact [1, 1, 2, 4, 4, 4, 1, 1, 2] (take 20 raw)") (simp_all add: signed_list_decode_def)
  obtain fmt lo hi dev rid sent fl st se where "fs = [fmt, lo, hi, dev, rid, sent, fl, st, se]"
    using unpack_nine [OF fs0] by (elim exE)
  then have fs: "unpack_exact [1, 1, 2, 4, 4, 4, 1, 1, 2] (take 20 raw) = Inr [fmt, lo, hi, dev, rid, sent, fl, st, se]"
    using fs0 by simp
  note decode = assms [unfolded signed_list_decode_def fs bind_res_simps list.case Let_def]
  have long: "\<not> length (drop 20 raw) < 24"
    using decode by (simp split: if_splits)
  obtain key_type where key: "stream_type_to_key_type fl = Inr key_type"
    using decode by (cases "stream_type_to_key_type fl") (simp_all split: if_splits)
  obtain ver where ver: "(case verify_report auth dev key_type rid sent (take (length raw - 16) raw)
        (drop 8 (drop (length (drop 20 raw) - 24) (drop 20 raw))) of
      Inl e \<Rightarrow> if e = NotFoundError then Inr False else Inl e | Inr b \<Rightarrow> Inr b) = Inr ver"
    using decode unfolding key bind_res_simps
    by (cases "case verify_report auth dev key_type rid sent (take (length raw - 16) raw)
        (drop 8 (drop (length (drop 20 raw) - 24) (drop 20 raw))) of
      Inl e \<Rightarrow> if e = NotFoundError then Inr False else Inl e | Inr b \<Rightarrow> Inr b") (simp_all split: if_splits)
  have d: "drop 8 (drop (length (drop 20 raw) - 24) (drop 20 raw)) = drop (length raw - 16) raw"
    using long by (simp add: add.commute)
  have sig: "ver \<Longrightarrow> verify_report auth dev key_type rid sent (take (length raw - 16) raw) (drop (length raw - 16) raw) = Inr True"
    using ver unfolding d by (simp split: sum.splits if_splits)
  note decode' = decode [unfolded key bind_res_simps d, unfolded ver [unfolded d] bind_res_simps]
  have "raw_report rep = raw \<and> signature_flags rep = fl \<and> origin rep = dev \<and> report_id rep = rid \<and> sent_timestamp rep = sent \<and>
      signature rep = drop (length raw - 16) raw \<and> verified rep = ver \<and> (\<not> ver \<longrightarrow> visible_readings rep = [])"
    using finish_inv [OF decode'] by (elim exE conjE) simp
  then show ?thesis using key sig long by auto
qed

lemma signed_list_from_readings_decode:
  "signed_list_from_readings aes auth signer now uuid readings key rid sel streamer sent = Inr rep \<Longrightarrow>
   signed_list_decode aes auth now (raw_report rep) = Inr rep"
  by (auto simp: signed_list_from_readings_def Let_def bind_res_Inr_iff simp del: pack_fields.simps)
    (metis signed_list_decode_inv)

lemma verify_16:
  assumes "verify_report auth dev key rid sent data sig = Inr True" "length sig = 16"
  shows "\<exists>full. sign_report auth dev key rid sent data = Inr full \<and> sig = take 16 full"
proof -
  obtain full where full: "sign_report auth dev key rid sent data = Inr full"
    using assms(1) by (auto simp: verify_report_def sign_report_def bind_res_Inr_iff split: if_splits)
  then show ?thesis using assms sign_report_length [OF full]
    by (auto simp: verify_report_def sign_report_def bind_res_Inr_iff split: if_splits)
qed

section \<open>Properties\<close>

text \<open>
  C18: signed lists.  For readings and header values that fit their fields, a supported key that the signer
  knows, and a symmetric cipher that is its own inverse and keeps the length, \<open>FromReadings\<close> succeeds and
  the report it builds carries the header values, is marked encrypted exactly if a key was used, and
  \<open>ReportLength\<close> computes its length from its first 20 bytes.  The report is read with the default chain of
  providers, not with the signer.  If no key is used or the chain has the same key, it is verified and shows the given
  readings in order, each equal to the original as \<open>__eq__\<close> compares them; if the chain does not find the key,
  the report is there but not verified, and shows nothing.
\<close>

theorem signed_list_roundtrip:
  assumes "list_all packable readings" "20 + 16 * int (length readings) + 24 < 2 ^ 24"
    "0 \<le> uuid" "uuid < 256 ^ 4" "0 \<le> rid" "rid < 256 ^ 4" "0 \<le> sent" "sent < 256 ^ 4"
    "0 \<le> streamer" "streamer < 256" "0 \<le> sel" "sel < 256 ^ 2"
    "key_available (signing_provider signer auth) root_key uuid rid sent"
    "same_key \<longleftrightarrow> root_key = NoKey \<or>
      auth root_key uuid (Some rid) (Some sent) = signing_provider signer auth root_key uuid (Some rid) (Some sent)"
    "same_key \<or> auth root_key uuid (Some rid) (Some sent) = Inl NotFoundError"
    "\<And>k d. aes k (aes k d) = d" "\<And>k d. length (aes k d) = length d"
  shows "\<exists>rep. signed_list_from_readings aes auth signer now uuid readings root_key rid sel streamer sent = Inr rep \<and>
    origin rep = uuid \<and> report_id rep = rid \<and> sent_timestamp rep = sent \<and> origin_streamer rep = streamer \<and>
    streamer_selector rep = sel \<and> encrypted rep = (root_key \<noteq> NoKey) \<and>
    signed_list_report_length (take 20 (raw_report rep)) = Inr (int (length (raw_report rep))) \<and>
    verified rep = same_key \<and>
    list_all2 reading_eq (visible_readings rep) (if same_key then readings else [])"
proof -
  have same: "list_all2 reading_eq (map (received tb) readings) readings" for tb
    by (simp add: list_all2_map1 list_all2_same received_eq)
  have known: "root_key = NoKey \<or> auth root_key uuid (Some rid) (Some sent) = signing_provider signer auth root_key uuid (Some rid) (Some sent) \<or>
      auth root_key uuid (Some rid) (Some sent) = Inl NotFoundError"
    using assms(14,15) by blast
  have "root_key \<noteq> NoKey \<longrightarrow> (\<forall>k d. aes k (aes k d) = d \<and> length (aes k d) = length d)"
    using assms(16,17) by simp
  from signed_list_roundtrip_lemma [OF assms(1-13) known this, of now] show ?thesis
    using same [of "now - seconds sent"] assms(14) by auto
qed

definition toy_cipher :: "byte list \<Rightarrow> byte list \<Rightarrow> byte list" where
  "toy_cipher key data = map (\<lambda>b. b XOR hd (key @ [0x55])) data"

lemma toy_cipher_involution: "toy_cipher k (toy_cipher k d) = d" "length (toy_cipher k d) = length d"
proof -
  show "toy_cipher k (toy_cipher k d) = d"
    by (simp add: toy_cipher_def o_def xor.assoc)
qed (simp add: toy_cipher_def)

theorem signed_list_roundtrip_witness:
  "(\<exists>rep. signed_list_from_readings toy_cipher (\<lambda>kt dev rid sent. Inr [1, 2, 3]) None 0 5
       [new_reading 10 0x1001 99 None (Some 4) None, new_reading 11 0x1001 100 None (Some 5) None]
       UserKey 6 0x3C00 0 20 = Inr rep \<and> encrypted rep \<and> verified rep \<and> length (visible_readings rep) = 2) \<and>
   (\<exists>rep. signed_list_from_readings toy_cipher (\<lambda>kt dev rid sent. Inl NotFoundError) (Some (\<lambda>kt dev rid sent. Inr [1, 2, 3])) 0 5
       [new_reading 10 0x1001 99 None (Some 4) None, new_reading 11 0x1001 100 None (Some 5) None]
       UserKey 6 0x3C00 0 20 = Inr rep \<and> encrypted rep \<and> \<not> verified rep \<and> visible_readings rep = [])"
proof -
  let ?key = "\<lambda>kt dev rid sent. Inr [1, 2, 3]"
  have rs: "list_all packable [new_reading 10 0x1001 99 None (Some 4) None, new_reading 11 0x1001 100 None (Some 5) None]"
    by (simp add: packable_def new_reading_def)
  note roundtrip = signed_list_roundtrip [OF rs, where uuid = 5 and rid = 6 and sent = 20 and streamer = 0 and sel = "0x3C00"
      and root_key = UserKey and aes = toy_cipher and now = 0]
  from roundtrip [where auth = ?key and signer = None and same_key = True]
    roundtrip [where auth = "\<lambda>kt dev rid sent. Inl NotFoundError" and signer = "Some ?key" and same_key = False]
    toy_cipher_involution
  show ?thesis by (fastforce simp: key_available_def signing_provider_def dest: list_all2_lengthD)
qed

text \<open>
  C16: a report shows readings only if its signature is right.  If decoding a signed list succeeds and
  readings are visible, then the last 16 bytes of the report are the first 16 bytes of the hash (or keyed
  hash) of everything before them.
\<close>

theorem signed_list_authentic:
  assumes "signed_list_decode aes auth now raw = Inr rep" "visible_readings rep \<noteq> []"
  shows "\<exists>key_type sig. stream_type_to_key_type (signature_flags rep) = Inr key_type \<and>
    sign_report auth (origin rep) key_type (report_id rep) (sent_timestamp rep) (take (length raw - 16) raw) = Inr sig \<and>
    drop (length raw - 16) raw = take 16 sig"
proof -
  obtain key_type where inv: "stream_type_to_key_type (signature_flags rep) = Inr key_type" "44 \<le> length raw"
    "signature rep = drop (length raw - 16) raw" "verified rep"
    "verify_report auth (origin rep) key_type (report_id rep) (sent_timestamp rep)
       (take (length raw - 16) raw) (signature rep) = Inr True"
    using signed_list_decode_inv [OF assms(1)] assms(2) by blast
  have "length (signature rep) = 16" using inv(2,3) by simp
  from verify_16 [OF inv(5) this] inv(1,3) show ?thesis by auto
qed

theorem signed_list_authentic_witness:
  "\<exists>rep sig. signed_list_from_readings toy_cipher (\<lambda>kt dev rid sent. Inl NotFoundError) None 0 5
       [new_reading 10 0x1001 99 None (Some 4) None] NoKey 6 0x3C00 0 20 = Inr rep \<and> visible_readings rep \<noteq> [] \<and>
     drop (length (raw_report rep) - 16) (raw_report rep) = take 16 sig \<and> length sig = 32"
proof -
  let ?auth = "\<lambda>kt dev rid sent. Inl NotFoundError" and ?rs = "[new_reading 10 0x1001 99 None (Some 4) None]"
  have "list_all packable ?rs" by (simp add: packable_def new_reading_def)
  from signed_list_roundtrip_lemma [OF this, where uuid = 5 and rid = 6 and sent = 20 and streamer = 0
      and sel = "0x3C00" and auth = ?auth and signer = None and root_key = NoKey and aes = toy_cipher and now = 0]
    toy_cipher_involution
  obtain rep where rep: "signed_list_from_readings toy_cipher ?auth None 0 5 ?rs NoKey 6 0x3C00 0 20 = Inr rep"
    "visible_readings rep \<noteq> []"
    by (fastforce simp: key_available_def)
  from signed_list_authentic [OF signed_list_from_readings_decode [OF rep(1)] rep(2)] rep sign_report_length
  show ?thesis by blast
qed

lemma individual_roundtrip_lemma:
  assumes "0 \<le> r_stream r" "r_stream r < 256 ^ 2" "0 \<le> raw_time r" "raw_time r < 256 ^ 4"
    "0 \<le> r_value r" "r_value r < 256 ^ 4" "0 \<le> uuid" "uuid < 256 ^ 4"
  shows "\<exists>rep. individual_from_readings now uuid [r] = Inr rep \<and> origin rep = uuid \<and> sent_timestamp rep = 0 \<and>
    visible_readings rep = [new_reading (raw_time r) (r_stream r) (r_value r) (Some now) None None] \<and>
    individual_encode rep = Inr (raw_report rep) \<and> length (raw_report rep) = 20"
proof -
  let ?fs = "[(1, 0), (1, 0), (2, r_stream r), (4, uuid), (4, 0), (4, raw_time r), (4, r_value r)]"
  have "\<exists>b. pack_fields ?fs = Inr b" by (rule pack_fields_total) (use assms in simp)
  then obtain b where b: "pack_fields ?fs = Inr b" by blast
  have "unpack_exact [1, 1, 2, 4, 4, 4, 4] b = Inr [0, 0, r_stream r, uuid, 0, raw_time r, r_value r]"
    using unpack_exact_pack [OF b] by simp
  moreover have "length b = 20" using length_pack_fields [OF b] by simp
  ultimately show ?thesis
    using b by (simp add: individual_from_readings_def individual_decode_def individual_encode_def py_nth_def
        new_reading_def seconds_def del: pack_fields.simps)
qed

lemma broadcast_roundtrip_lemma:
  assumes "list_all packable rs" "16 * int (length rs) < 256 ^ 2" "0 \<le> uuid" "uuid < 256 ^ 4"
    "0 \<le> sent" "sent < 256 ^ 4"
  shows "\<exists>rep. broadcast_from_readings now uuid rs sent = Inr rep \<and> origin rep = uuid \<and> sent_timestamp rep = sent \<and>
    visible_readings rep = map (received (now - seconds sent)) rs \<and>
    broadcast_report_length (take 16 (raw_report rep)) = Inr (int (length (raw_report rep)))"
proof -
  let ?fs = "[(1, 3), (1, 0), (2, int (length rs) * 16), (4, uuid), (4, sent), (4, 0)]"
  have "\<exists>h. pack_fields ?fs = Inr h" by (rule pack_fields_total) (use assms in simp)
  then obtain h where h: "pack_fields ?fs = Inr h" by blast
  obtain p where p: "pack_readings rs = Inr p" using pack_readings_total [OF assms(1)] by blast
  note up = pack_readings_unpack [OF p, of "now - seconds sent"]
  have len: "length h = 16" using length_pack_fields [OF h] by simp
  have parse: "broadcast_parse_header (take 16 (h @ p)) = Inr (0, int (length rs) * 16, uuid, sent)"
    using unpack_pack_fields [OF h, of "[]"] len by (simp add: broadcast_parse_header_def)
  have "nat (int (length rs) * 16) = length p" using up by (simp add: nat_mult_distrib)
  then show ?thesis
    using h p parse up len
    by (simp add: broadcast_from_readings_def broadcast_decode_def broadcast_auth_block_length_def
        broadcast_report_length_def del: pack_fields.simps)
qed

text \<open>
  The plain formats.  An individual report made from one reading whose fields fit has 20 bytes, shows
  this reading without its id, and \<open>encode\<close> gives its bytes again; a broadcast made from readings that fit
  shows exactly these readings, and \<open>ReportLength\<close> computes its length from its 16-byte header.  An
  individual report of any other number of readings raises \<open>ArgumentError\<close>.
\<close>

theorem plain_reports_roundtrip:
  assumes "list_all packable (r # rs)" "16 * int (length (r # rs)) < 256 ^ 2" "0 \<le> uuid" "uuid < 256 ^ 4"
    "0 \<le> sent" "sent < 256 ^ 4"
  shows "(\<exists>rep. individual_from_readings now uuid [r] = Inr rep \<and> origin rep = uuid \<and> length (raw_report rep) = 20 \<and>
      individual_encode rep = Inr (raw_report rep) \<and>
      list_all2 reading_eq (visible_readings rep) [r\<lparr>reading_id := InvalidReadingID\<rparr>]) \<and>
    (\<exists>rep. broadcast_from_readings now uuid (r # rs) sent = Inr rep \<and> origin rep = uuid \<and>
      sent_timestamp rep = sent \<and> list_all2 reading_eq (visible_readings rep) (r # rs) \<and>
      broadcast_report_length (take 16 (raw_report rep)) = Inr (int (length (raw_report rep)))) \<and>
    (rs \<noteq> [] \<longrightarrow> individual_from_readings now uuid (r # rs) = Inl ArgumentError)"
proof -
  obtain rep where rep: "individual_from_readings now uuid [r] = Inr rep" "origin rep = uuid"
    "visible_readings rep = [new_reading (raw_time r) (r_stream r) (r_value r) (Some now) None None]"
    "individual_encode rep = Inr (raw_report rep)" "length (raw_report rep) = 20"
    using individual_roundtrip_lemma [of r uuid now] assms by (auto simp: packable_def)
  have one: "list_all2 reading_eq (visible_readings rep) [r\<lparr>reading_id := InvalidReadingID\<rparr>]"
    by (simp add: rep(3) reading_eq_def new_reading_def)
  obtain rep2 where rep2: "broadcast_from_readings now uuid (r # rs) sent = Inr rep2" "origin rep2 = uuid"
    "sent_timestamp rep2 = sent" "visible_readings rep2 = map (received (now - seconds sent)) (r # rs)"
    "broadcast_report_length (take 16 (raw_report rep2)) = Inr (int (length (raw_report rep2)))"
    using broadcast_roundtrip_lemma [OF assms, of now] by blast
  have "list_all2 reading_eq (map (received (now - seconds sent)) (r # rs)) (r # rs)"
    unfolding list_all2_map1 by (rule list_all2_refl) (rule received_eq)
  then have many: "list_all2 reading_eq (visible_readings rep2) (r # rs)" by (simp only: rep2(4))
  have "rs \<noteq> [] \<longrightarrow> individual_from_readings now uuid (r # rs) = Inl ArgumentError"
    by (simp add: individual_from_readings_def)
  with rep(1,2,4,5) one rep2(1-3,5) many show ?thesis by blast
qed

theorem plain_reports_roundtrip_witness:
  "\<exists>rep. broadcast_from_readings 0 5 [new_reading 10 0x1001 99 None (Some 4) None] 20 = Inr rep \<and>
     length (visible_readings rep) = 1"
  using plain_reports_roundtrip [of "new_reading 10 0x1001 99 None (Some 4) None" "[]" 5 20 0]
  by (auto simp: packable_def new_reading_def dest: list_all2_lengthD)

end
