(* ===== verification/Report_Parser.thy ===== *)
theory Report_Parser
  imports Reports
begin

text \<open>
  The state machine that cuts reports out of a stream of bytes arriving in chunks
  (\<open>iotile/core/hw/reports/parser.py\<close>).
\<close>

section \<open>State and operations\<close>

abbreviation (input) WaitingForReportType :: int where "WaitingForReportType \<equiv> 1"
abbreviation (input) WaitingForReportHeader :: int where "WaitingForReportHeader \<equiv> 2"
abbreviation (input) WaitingForCompleteReport :: int where "WaitingForCompleteReport \<equiv> 3"
abbreviation (input) ErrorState :: int where "ErrorState \<equiv> 4"

abbreviation (input) ErrorFindingReportType :: int where "ErrorFindingReportType \<equiv> 1"
abbreviation (input) ErrorParsingReportHeader :: int where "ErrorParsingReportHeader \<equiv> 2"
abbreviation (input) ErrorParsingCompleteReport :: int where "ErrorParsingCompleteReport \<equiv> 3"

text \<open>The interface of a report class, and what a parser is constructed with.\<close>

record 'r report_format =
  format_header_length :: int
  format_report_length :: "byte list \<Rightarrow> int res"
  format_make :: "byte list \<Rightarrow> 'r res"

record 'r parser_env =
  known_formats :: "int \<Rightarrow> 'r report_format option"
  report_callback :: "('r \<Rightarrow> bool res) option"
  error_callback :: bool

text \<open>\<open>p_calls\<close> and \<open>p_errors\<close> record the calls of the two callbacks; the error callback returns.\<close>

record 'r report_parser =
  p_raw_data :: "byte list"
  p_state :: int
  current_type :: int
  current_header_size :: int
  current_report_size :: int
  p_reports :: "'r list"
  p_calls :: "'r list"
  p_errors :: "int list"

definition new_parser :: "'r report_parser" where
  "new_parser = \<lparr>p_raw_data = [], p_state = WaitingForReportType, current_type = 0, current_header_size = 0,
     current_report_size = 0, p_reports = [], p_calls = [], p_errors = []\<rparr>"

definition calculate_header_size :: "'r parser_env \<Rightarrow> int \<Rightarrow> int res" where
  "calculate_header_size env t =
     (case known_formats env t of None \<Rightarrow> Inl KeyError | Some f \<Rightarrow> Inr (format_header_length f))"

definition calculate_report_size :: "'r parser_env \<Rightarrow> int \<Rightarrow> byte list \<Rightarrow> int res" where
  "calculate_report_size env t header =
     (case known_formats env t of None \<Rightarrow> Inl KeyError | Some f \<Rightarrow> format_report_length f header)"

definition parse_report :: "'r parser_env \<Rightarrow> int \<Rightarrow> byte list \<Rightarrow> 'r res" where
  "parse_report env t data =
     (case known_formats env t of None \<Rightarrow> Inl KeyError | Some f \<Rightarrow> format_make f data)"

definition handle_report :: "'r parser_env \<Rightarrow> 'r \<Rightarrow> 'r report_parser \<Rightarrow> (unit, 'r report_parser) act" where
  "handle_report env rep p =
     (case report_callback env of
        None \<Rightarrow> (Inr (), p\<lparr>p_reports := p_reports p @ [rep]\<rparr>)
      | Some callback \<Rightarrow>
          let p1 = p\<lparr>p_calls := p_calls p @ [rep]\<rparr> in
          (case callback rep of
             Inl err \<Rightarrow> (Inl err, p1)
           | Inr keep \<Rightarrow> (Inr (), if keep then p1\<lparr>p_reports := p_reports p1 @ [rep]\<rparr> else p1)))"

text \<open>The handler of an exception in each stage of \<open>process_data\<close>.\<close>

definition parser_fails ::
  "'r parser_env \<Rightarrow> int \<Rightarrow> py_error \<Rightarrow> 'r report_parser \<Rightarrow> (bool, 'r report_parser) act" where
  "parser_fails env code err p =
     (let p1 = p\<lparr>p_state := ErrorState\<rparr> in
      if error_callback env then (Inr False, p1\<lparr>p_errors := p_errors p1 @ [code]\<rparr>) else (Inl err, p1))"

text \<open>The three stages; each answers whether it set \<open>further_processing\<close>.\<close>

definition stage_type :: "'r parser_env \<Rightarrow> 'r report_parser \<Rightarrow> (bool, 'r report_parser) act" where
  "stage_type env p =
     (if p_state p = WaitingForReportType \<and> length (p_raw_data p) > 0 then
        let p1 = p\<lparr>current_type := uint (hd (p_raw_data p))\<rparr> in
        (case calculate_header_size env (current_type p1) of
           Inl err \<Rightarrow> parser_fails env ErrorFindingReportType err p1
         | Inr n \<Rightarrow> (Inr True, p1\<lparr>current_header_size := n, p_state := WaitingForReportHeader\<rparr>))
      else (Inr False, p))"

definition stage_header :: "'r parser_env \<Rightarrow> 'r report_parser \<Rightarrow> (bool, 'r report_parser) act" where
  "stage_header env p =
     (if p_state p = WaitingForReportHeader \<and> int (length (p_raw_data p)) \<ge> current_header_size p then
        (case calculate_report_size env (current_type p) (py_slice_to (p_raw_data p) (current_header_size p)) of
           Inl err \<Rightarrow> parser_fails env ErrorParsingReportHeader err p
         | Inr n \<Rightarrow> (Inr True, p\<lparr>current_report_size := n, p_state := WaitingForCompleteReport\<rparr>))
      else (Inr False, p))"

definition stage_report :: "'r parser_env \<Rightarrow> 'r report_parser \<Rightarrow> (bool, 'r report_parser) act" where
  "stage_report env p =
     (if p_state p = WaitingForCompleteReport \<and> int (length (p_raw_data p)) \<ge> current_report_size p then
        let report_data = py_slice_to (p_raw_data p) (current_report_size p);
            p1 = p\<lparr>p_raw_data := py_slice_from (p_raw_data p) (current_report_size p)\<rparr>
        in (case parse_report env (current_type p1) report_data of
              Inl err \<Rightarrow> parser_fails env ErrorParsingCompleteReport err p1
            | Inr rep \<Rightarrow>
                (case handle_report env rep p1 of
                   (Inl err, p2) \<Rightarrow> parser_fails env ErrorParsingCompleteReport err p2
                 | (Inr _, p2) \<Rightarrow> (Inr True, p2\<lparr>p_state := WaitingForReportType\<rparr>)))
      else (Inr False, p))"

definition process_data :: "'r parser_env \<Rightarrow> 'r report_parser \<Rightarrow> (bool, 'r report_parser) act" where
  "process_data env p =
     bind_act (stage_type env p) (\<lambda>b1 p1.
     bind_act (stage_header env p1) (\<lambda>b2 p2.
     bind_act (stage_report env p2) (\<lambda>b3 p3. (Inr (b1 \<or> b2 \<or> b3), p3))))"

text \<open>The loop of \<open>add_data\<close>; it does not return if a format keeps cutting empty reports.\<close>

partial_function (option) process_loop ::
  "'r parser_env \<Rightarrow> 'r report_parser \<Rightarrow> (unit, 'r report_parser) act option" where
  "process_loop env p =
     (case process_data env p of
        (Inl err, p') \<Rightarrow> Some (Inl err, p')
      | (Inr still_processing, p') \<Rightarrow>
          if still_processing then process_loop env p' else Some (Inr (), p'))"

definition add_data ::
  "'r parser_env \<Rightarrow> byte list \<Rightarrow> 'r report_parser \<Rightarrow> (unit, 'r report_parser) act option" where
  "add_data env data p =
     (if p_state p = ErrorState then Some (Inr (), p)
      else process_loop env (p\<lparr>p_raw_data := p_raw_data p @ data\<rparr>))"

section \<open>One transition at a time\<close>

definition advance :: "'r parser_env \<Rightarrow> 'r report_parser \<Rightarrow> (bool, 'r report_parser) act" where
  "advance env p =
     (if p_state p = WaitingForReportType then stage_type env p
      else if p_state p = WaitingForReportHeader then stage_header env p
      else if p_state p = WaitingForCompleteReport then stage_report env p
      else (Inr False, p))"

partial_function (option) exhaust ::
  "'r parser_env \<Rightarrow> 'r report_parser \<Rightarrow> (unit, 'r report_parser) act option" where
  "exhaust env p =
     (case advance env p of
        (Inl err, p') \<Rightarrow> Some (Inl err, p')
      | (Inr b, p') \<Rightarrow> if b then exhaust env p' else Some (Inr (), p'))"

declare exhaust.simps [simp del] process_loop.simps [simp del]

lemma parser_fails_cases:
  "parser_fails env code err p = (Inr b, p') \<Longrightarrow> b = False \<and> p_state p' = ErrorState"
  "parser_fails env code err p = (Inl e, p') \<Longrightarrow> p_state p' = ErrorState"
  by (auto simp: parser_fails_def Let_def split: if_splits)

text \<open>A stage other than the one of the state does nothing.\<close>

lemma stage_skip:
  "p_state p \<noteq> WaitingForReportType \<Longrightarrow> stage_type env p = (Inr False, p)"
  "p_state p \<noteq> WaitingForReportHeader \<Longrightarrow> stage_header env p = (Inr False, p)"
  "p_state p \<noteq> WaitingForCompleteReport \<Longrightarrow> stage_report env p = (Inr False, p)"
  by (simp_all add: stage_type_def stage_header_def stage_report_def)

lemma advance_error [simp]: "p_state p = ErrorState \<Longrightarrow> advance env p = (Inr False, p)"
  by (simp add: advance_def)

lemma stage_False:
  "stage_type env p = (Inr False, p') \<Longrightarrow> p' = p \<or> p_state p' = ErrorState"
  "stage_header env p = (Inr False, p') \<Longrightarrow> p' = p \<or> p_state p' = ErrorState"
  "stage_report env p = (Inr False, p') \<Longrightarrow> p' = p \<or> p_state p' = ErrorState"
  by (auto simp: stage_type_def stage_header_def stage_report_def parser_fails_def Let_def
      split: if_splits sum.splits prod.splits)

lemma advance_False:
  assumes "advance env p = (Inr False, p')"
  shows "p' = p \<or> p_state p' = ErrorState"
  using assms stage_False [of env p p'] by (simp add: advance_def split: if_splits)

lemma advance_stuck: "advance env p = (Inr False, p') \<Longrightarrow> advance env p' = (Inr False, p')"
  using advance_False [of env p p'] advance_error by metis

lemma exhaust_advance:
  "exhaust env p = (case advance env p of
     (Inl err, p') \<Rightarrow> Some (Inl err, p') | (Inr b, p') \<Rightarrow> exhaust env p')"
proof (cases "advance env p")
  case (Pair res p')
  show ?thesis
  proof (cases res)
    case (Inl err)
    then show ?thesis using Pair exhaust.simps [of env p] by simp
  next
    case (Inr b)
    show ?thesis
    proof (cases b)
      case True
      then show ?thesis using Pair Inr by (subst exhaust.simps) simp
    next
      case False
      then have "advance env p' = (Inr False, p')" using advance_stuck [of env p p'] Pair Inr by simp
      then have "exhaust env p' = Some (Inr (), p')" by (subst exhaust.simps) simp
      then show ?thesis using Pair Inr False by (subst exhaust.simps) simp
    qed
  qed
qed

text \<open>Whichever stage is run next, exhausting the rest is the same.\<close>

lemma exhaust_stage:
  assumes "stage \<in> {stage_type env, stage_header env, stage_report env}"
  shows "exhaust env p = (case stage p of
     (Inl err, p') \<Rightarrow> Some (Inl err, p') | (Inr b, p') \<Rightarrow> exhaust env p')"
proof (cases "stage p = advance env p")
  case True
  then show ?thesis using exhaust_advance [of env p] by simp
next
  case False
  then have "stage p = (Inr False, p)"
    using assms stage_skip [of p env] by (auto simp: advance_def split: if_splits)
  then show ?thesis by simp
qed

lemma exhaust_process:
  "exhaust env p = (case process_data env p of
     (Inl err, p') \<Rightarrow> Some (Inl err, p') | (Inr b, p') \<Rightarrow> exhaust env p')"
proof -
  obtain r1 p1 where s1: "stage_type env p = (r1, p1)" by fastforce
  obtain r2 p2 where s2: "stage_header env p1 = (r2, p2)" by fastforce
  obtain r3 p3 where s3: "stage_report env p2 = (r3, p3)" by fastforce
  show ?thesis
    using exhaust_stage [of "stage_type env" env p] exhaust_stage [of "stage_header env" env p1]
      exhaust_stage [of "stage_report env" env p2] s1 s2 s3
    by (cases r1; cases r2; cases r3) (simp_all add: process_data_def)
qed

section \<open>What a parser relies on\<close>

text \<open>
  The sizes that the formats compute are not negative, and no format makes a report of no bytes.
\<close>

locale report_formats =
  fixes env :: "'r parser_env"
  assumes header_size: "known_formats env t = Some f \<Longrightarrow> 0 \<le> format_header_length f"
    and report_size: "known_formats env t = Some f \<Longrightarrow> format_report_length f h = Inr n \<Longrightarrow> 0 \<le> n"
    and no_empty: "known_formats env t = Some f \<Longrightarrow> \<exists>err. format_make f [] = Inl err"

definition parser_ok :: "'r report_parser \<Rightarrow> bool" where
  "parser_ok p \<longleftrightarrow> p_state p \<in> {1, 2, 3, 4} \<and> (p_state p = 2 \<longrightarrow> 0 \<le> current_header_size p) \<and>
     (p_state p = 3 \<longrightarrow> 0 \<le> current_report_size p)"

definition weight :: "'r report_parser \<Rightarrow> nat" where
  "weight p = 4 * length (p_raw_data p) + (if p_state p = 1 then 2 else if p_state p = 2 then 1 else 0)"

text \<open>The same parser with more data waiting.\<close>

definition more_data :: "byte list \<Rightarrow> 'r report_parser \<Rightarrow> 'r report_parser" where
  "more_data y p = p\<lparr>p_raw_data := p_raw_data p @ y\<rparr>"

lemma more_data_simps [simp]:
  "p_raw_data (more_data y p) = p_raw_data p @ y"
  "p_state (more_data y p) = p_state p"
  "current_type (more_data y p) = current_type p"
  "current_header_size (more_data y p) = current_header_size p"
  "current_report_size (more_data y p) = current_report_size p"
  "p_reports (more_data y p) = p_reports p"
  "p_calls (more_data y p) = p_calls p"
  "p_errors (more_data y p) = p_errors p"
  "parser_ok (more_data y p) = parser_ok p"
  "more_data z (more_data y p) = more_data (y @ z) p"
  "more_data [] p = p"
  by (simp_all add: more_data_def parser_ok_def)

lemma parser_fails_eq:
  "parser_fails env code err p =
     (if error_callback env then Inr False else Inl err,
      p\<lparr>p_state := ErrorState, p_errors := (if error_callback env then p_errors p @ [code] else p_errors p)\<rparr>)"
  by (simp add: parser_fails_def Let_def)

lemma parser_fails_more: "parser_fails env code err (more_data y p) =
    (fst (parser_fails env code err p), more_data y (snd (parser_fails env code err p)))"
  by (simp add: parser_fails_eq more_data_def)

lemma handle_report_more: "handle_report env rep (more_data y p) =
    (fst (handle_report env rep p), more_data y (snd (handle_report env rep p)))"
  by (simp add: handle_report_def more_data_def Let_def split: option.split sum.split)

lemma handle_report_fields:
  "p_raw_data (snd (handle_report env rep p)) = p_raw_data p"
  "p_state (snd (handle_report env rep p)) = p_state p"
  by (auto simp: handle_report_def Let_def split: option.split sum.split)

context report_formats
begin

lemma advance_1:
  assumes "p_state p = 1"
  shows "advance env p = (if p_raw_data p = [] then (Inr False, p)
    else let p1 = p\<lparr>current_type := uint (hd (p_raw_data p))\<rparr> in
      case known_formats env (uint (hd (p_raw_data p))) of
        None \<Rightarrow> parser_fails env ErrorFindingReportType KeyError p1
      | Some f \<Rightarrow> (Inr True, p1\<lparr>current_header_size := format_header_length f, p_state := 2\<rparr>))"
  using assms by (simp add: advance_def stage_type_def calculate_header_size_def Let_def split: option.split)

lemma advance_3:
  assumes "p_state p = 3" "0 \<le> current_report_size p" "nat (current_report_size p) \<le> length (p_raw_data p)"
  shows "advance env p =
    (let n = nat (current_report_size p); p1 = p\<lparr>p_raw_data := drop n (p_raw_data p)\<rparr> in
     case parse_report env (current_type p) (take n (p_raw_data p)) of
       Inl err \<Rightarrow> parser_fails env ErrorParsingCompleteReport err p1
     | Inr rep \<Rightarrow> (case handle_report env rep p1 of
         (Inl err, p2) \<Rightarrow> parser_fails env ErrorParsingCompleteReport err p2
       | (Inr _, p2) \<Rightarrow> (Inr True, p2\<lparr>p_state := 1\<rparr>)))"
proof -
  have "current_report_size p \<le> int (length (p_raw_data p))" using assms(2,3) by linarith
  then show ?thesis using assms by (simp add: advance_def stage_report_def py_slice_nonneg Let_def)
qed

lemma advance_ok:
  assumes "parser_ok p" "advance env p = (r, p')"
  shows "parser_ok p'"
proof -
  consider "p_state p = 1" | "p_state p = 2" | "p_state p = 3" | "p_state p = 4"
    using assms(1) by (auto simp: parser_ok_def)
  then show ?thesis
  proof cases
    case 1
    then show ?thesis using assms header_size
      by (auto simp: advance_1 Let_def parser_ok_def parser_fails_eq split: if_splits option.splits)
  next
    case 2
    then show ?thesis using assms report_size
      by (auto simp: advance_def stage_header_def calculate_report_size_def parser_ok_def parser_fails_eq
          split: if_splits option.splits sum.splits)
  next
    case 3
    then show ?thesis using assms
      by (auto simp: advance_def stage_report_def parser_ok_def parser_fails_eq Let_def
          split: if_splits sum.splits prod.splits)
  next
    case 4
    then show ?thesis using assms by simp
  qed
qed

lemma advance_weight:
  assumes "parser_ok p" "advance env p = (Inr True, p')"
  shows "weight p' < weight p"
proof -
  consider "p_state p = 1" | "p_state p = 2" | "p_state p = 3" | "p_state p = 4"
    using assms(1) by (auto simp: parser_ok_def)
  then show ?thesis
  proof cases
    case 1
    then show ?thesis using assms
      by (auto simp: advance_1 Let_def weight_def parser_fails_eq split: if_splits option.splits)
  next
    case 2
    then show ?thesis using assms
      by (auto simp: advance_def stage_header_def weight_def parser_fails_eq split: if_splits sum.splits)
  next
    case 3
    then have size: "0 \<le> current_report_size p" using assms(1) by (simp add: parser_ok_def)
    let ?n = "nat (current_report_size p)" and ?raw = "p_raw_data p"
    from 3 assms size obtain rep p2 where rep:
      "?n \<le> length ?raw" "parse_report env (current_type p) (take ?n ?raw) = Inr rep"
      "handle_report env rep (p\<lparr>p_raw_data := drop ?n ?raw\<rparr>) = (Inr (), p2)" "p' = p2\<lparr>p_state := 1\<rparr>"
      by (auto simp: advance_def stage_report_def parser_fails_eq py_slice_nonneg Let_def
          split: if_splits sum.splits prod.splits)
    have "take ?n ?raw \<noteq> []"
    proof
      assume "take ?n ?raw = []"
      then obtain f where "known_formats env (current_type p) = Some f" "format_make f [] = Inr rep"
        using rep(2) by (auto simp: parse_report_def split: option.splits)
      then show False using no_empty by fastforce
    qed
    then have "0 < ?n" "?raw \<noteq> []" by auto
    moreover have "p_raw_data p2 = drop ?n ?raw"
      using handle_report_fields(1) [of env rep "p\<lparr>p_raw_data := drop ?n ?raw\<rparr>"] rep(3) by simp
    ultimately show ?thesis using rep(1,4) 3 by (simp add: weight_def)
  next
    case 4
    then show ?thesis using assms by simp
  qed
qed

lemma exhaust_total: "parser_ok p \<Longrightarrow> \<exists>r q. exhaust env p = Some (r, q) \<and> parser_ok q"
proof (induction "weight p" arbitrary: p rule: less_induct)
  case less
  obtain res p' where adv: "advance env p = (res, p')" by fastforce
  note ok = advance_ok [OF less.prems adv]
  show ?case
  proof (cases "res = Inr True")
    case True
    then have "weight p' < weight p" using advance_weight less.prems adv by simp
    then show ?thesis using less.hyps [OF _ ok] adv True by (subst exhaust.simps) simp
  next
    case False
    then show ?thesis using adv ok by (subst exhaust.simps) (auto split: sum.split)
  qed
qed

lemma advance_more:
  assumes "parser_ok p" "advance env p = (r, p')" "r = Inr True \<or> p' \<noteq> p \<or> (\<exists>e. r = Inl e)"
  shows "advance env (more_data y p) = (r, more_data y p')"
proof -
  consider "p_state p = 1" | "p_state p = 2" | "p_state p = 3" | "p_state p = 4"
    using assms(1) by (auto simp: parser_ok_def)
  then show ?thesis
  proof cases
    case 1
    then have "p_raw_data p \<noteq> []" using assms(2,3) by (auto simp: advance_1 split: if_splits)
    then show ?thesis using assms(2) 1
      by (simp add: advance_1 Let_def parser_fails_eq split: option.splits) (auto simp: more_data_def)
  next
    case 2
    have size: "0 \<le> current_header_size p" using assms(1) 2 by (simp add: parser_ok_def)
    have "current_header_size p \<le> int (length (p_raw_data p))"
      using assms(2,3) 2 by (auto simp: advance_def stage_header_def split: if_splits)
    then show ?thesis using assms(2) 2 size
      by (simp add: advance_def stage_header_def py_slice_nonneg parser_fails_eq split: sum.splits)
        (auto simp: more_data_def)
  next
    case 3
    have size: "0 \<le> current_report_size p" using assms(1) 3 by (simp add: parser_ok_def)
    let ?n = "nat (current_report_size p)"
    have n: "?n \<le> length (p_raw_data p)"
      using assms(2,3) 3 by (auto simp: advance_def stage_report_def Let_def split: if_splits)
    let ?p1 = "p\<lparr>p_raw_data := drop ?n (p_raw_data p)\<rparr>"
    have p1: "(more_data y p)\<lparr>p_raw_data := drop ?n (p_raw_data p @ y)\<rparr> = more_data y ?p1"
      using n by (simp add: more_data_def)
    have n': "nat (current_report_size (more_data y p)) \<le> length (p_raw_data (more_data y p))" using n by simp
    note adv = advance_3 [OF 3 size n] and adv' = advance_3 [of "more_data y p", OF _ _ n']
    have take: "take ?n (p_raw_data p @ y) = take ?n (p_raw_data p)" using n by simp
    have drop: "drop ?n (p_raw_data p @ y) = drop ?n (p_raw_data p) @ y" using n by simp
    show ?thesis
    proof (cases "parse_report env (current_type p) (take ?n (p_raw_data p))")
      case (Inl err)
      have "advance env (more_data y p) = parser_fails env 3 err (more_data y ?p1)"
        using adv' 3 size Inl p1 by (simp add: Let_def take del: take_append drop_append)
      then show ?thesis using assms(2) adv Inl by (simp add: Let_def parser_fails_more)
    next
      case (Inr rep)
      obtain hr p2 where hr: "handle_report env rep ?p1 = (hr, p2)" by fastforce
      then have "handle_report env rep (more_data y ?p1) = (hr, more_data y p2)"
        by (simp add: handle_report_more)
      then have "advance env (more_data y p) = (case hr of Inl err \<Rightarrow> parser_fails env 3 err (more_data y p2)
          | Inr _ \<Rightarrow> (Inr True, (more_data y p2)\<lparr>p_state := 1\<rparr>))"
        using adv' 3 size Inr p1 by (simp add: Let_def take del: take_append drop_append)
      then show ?thesis using assms(2) adv Inr hr
        by (cases hr) (simp add: Let_def parser_fails_more, simp add: Let_def, auto simp: more_data_def)
    qed
  next
    case 4
    then show ?thesis using assms by auto
  qed
qed

end

lemma process_data_stuck:
  assumes "process_data env p = (Inr False, p')"
  shows "advance env p' = (Inr False, p')"
proof -
  obtain p1 p2 where s: "stage_type env p = (Inr False, p1)" "stage_header env p1 = (Inr False, p2)"
    "stage_report env p2 = (Inr False, p')"
    using assms by (auto simp: process_data_def bind_act_def split: prod.splits sum.splits)
  show ?thesis
  proof (cases "p_state p' = ErrorState")
    case False
    then have "p2 = p'" using stage_False(3) [OF s(3)] by simp
    then have "p1 = p'" using stage_False(2) [OF s(2)] False by simp
    then have "p = p'" using stage_False(1) [OF s(1)] False by simp
    then show ?thesis using s \<open>p1 = p'\<close> \<open>p2 = p'\<close> by (simp add: advance_def)
  qed simp
qed

lemma handle_weight:
  "weight (snd (handle_report env rep p)\<lparr>p_state := s\<rparr>) = weight (p\<lparr>p_state := s\<rparr>)"
  by (simp add: weight_def handle_report_fields)

context report_formats
begin

lemma advance_weight_le:
  assumes "parser_ok p" "advance env p = (Inr b, p')"
  shows "weight p' \<le> weight p"
proof (cases b)
  case True
  then show ?thesis using advance_weight [of p p'] assms by (simp add: less_imp_le)
next
  case False
  consider "p_state p = 1" | "p_state p = 2" | "p_state p = 3" | "p_state p = 4"
    using assms(1) by (auto simp: parser_ok_def)
  then show ?thesis
  proof cases
    case 1
    then show ?thesis using assms False
      by (auto simp: advance_1 Let_def weight_def parser_fails_eq split: if_splits option.splits)
  next
    case 2
    then show ?thesis using assms False
      by (auto simp: advance_def stage_header_def weight_def parser_fails_eq split: if_splits sum.splits)
  next
    case 3
    show ?thesis
    proof (cases "p' = p")
      case False
      have size: "0 \<le> current_report_size p" using assms(1) 3 by (simp add: parser_ok_def)
      have n: "nat (current_report_size p) \<le> length (p_raw_data p)"
        using assms(2) 3 False by (auto simp: advance_def stage_report_def Let_def split: if_splits)
      show ?thesis
      proof (cases "parse_report env (current_type p) (take (nat (current_report_size p)) (p_raw_data p))")
        case (Inl err)
        then show ?thesis using assms(2) advance_3 [OF 3 size n]
          by (auto simp: Let_def parser_fails_eq weight_def 3 split: if_splits)
      next
        case (Inr rep)
        let ?p1 = "p\<lparr>p_raw_data := drop (nat (current_report_size p)) (p_raw_data p)\<rparr>"
        obtain hr p2 where hr: "handle_report env rep ?p1 = (hr, p2)" by fastforce
        have raw: "p_raw_data p2 = drop (nat (current_report_size p)) (p_raw_data p)"
          using handle_report_fields(1) [of env rep ?p1] hr by simp
        show ?thesis
        proof (cases hr)
          case (Inl e)
          then have "parser_fails env 3 e p2 = (Inr b, p')"
            using assms(2) advance_3 [OF 3 size n] Inr hr by (simp add: Let_def)
          then have "p_raw_data p' = p_raw_data p2" "p_state p' = 4"
            by (auto simp: parser_fails_eq split: if_splits)
          then show ?thesis using raw 3 by (simp add: weight_def)
        next
          case (Inr u)
          then have "p' = p2\<lparr>p_state := 1\<rparr>" "b"
            using assms(2) advance_3 [OF 3 size n] \<open>parse_report env _ _ = Inr rep\<close> hr by (simp_all add: Let_def)
          then show ?thesis using \<open>\<not> b\<close> by simp
        qed
      qed
    qed simp
  next
    case 4
    then show ?thesis using assms by simp
  qed
qed

lemma stage_weight:
  assumes "stage \<in> {stage_type env, stage_header env, stage_report env}" "parser_ok p" "stage p = (Inr b, p')"
  shows "parser_ok p' \<and> weight p' \<le> weight p \<and> (b \<longrightarrow> weight p' < weight p)"
proof (cases "stage p = advance env p")
  case True
  then have adv: "advance env p = (Inr b, p')" using assms(3) by simp
  then show ?thesis
    using advance_ok [OF assms(2) adv] advance_weight_le [OF assms(2) adv] advance_weight [OF assms(2)] by auto
next
  case False
  then have "stage p = (Inr False, p)"
    using assms(1) stage_skip [of p env] by (auto simp: advance_def split: if_splits)
  then show ?thesis using assms by simp
qed

lemma process_data_weight:
  assumes "parser_ok p" "process_data env p = (Inr b, p')"
  shows "parser_ok p' \<and> (b \<longrightarrow> weight p' < weight p)"
proof -
  obtain b1 p1 b2 p2 b3 where s: "stage_type env p = (Inr b1, p1)" "stage_header env p1 = (Inr b2, p2)"
    "stage_report env p2 = (Inr b3, p')" "b = (b1 \<or> b2 \<or> b3)"
    using assms(2) by (auto simp: process_data_def bind_act_def split: prod.splits sum.splits)
  have 1: "parser_ok p1 \<and> weight p1 \<le> weight p \<and> (b1 \<longrightarrow> weight p1 < weight p)"
    using stage_weight [of "stage_type env", OF _ assms(1) s(1)] by simp
  then have 2: "parser_ok p2 \<and> weight p2 \<le> weight p1 \<and> (b2 \<longrightarrow> weight p2 < weight p1)"
    using stage_weight [of "stage_header env", OF _ _ s(2)] by simp
  then have "parser_ok p' \<and> weight p' \<le> weight p2 \<and> (b3 \<longrightarrow> weight p' < weight p2)"
    using stage_weight [of "stage_report env", OF _ _ s(3)] by simp
  with 1 2 s(4) show ?thesis by auto
qed

text \<open>The loop of \<open>add_data\<close> makes the transitions one after the other until none is possible.\<close>

lemma process_loop_exhaust: "parser_ok p \<Longrightarrow> process_loop env p = exhaust env p"
proof (induction "weight p" arbitrary: p rule: less_induct)
  case less
  obtain res p' where pd: "process_data env p = (res, p')" by fastforce
  show ?case
  proof (cases res)
    case (Inl err)
    then show ?thesis using pd exhaust_process [of env p] by (subst process_loop.simps) simp
  next
    case (Inr b)
    note w = process_data_weight [OF less.prems pd [unfolded Inr]]
    show ?thesis
    proof (cases b)
      case True
      then have "process_loop env p' = exhaust env p'" using less.hyps [of p'] w by simp
      then show ?thesis using pd exhaust_process [of env p] Inr True by (subst process_loop.simps) simp
    next
      case False
      then have "advance env p' = (Inr False, p')" using process_data_stuck pd Inr by simp
      then have "exhaust env p' = Some (Inr (), p')" by (subst exhaust.simps) simp
      then show ?thesis using pd exhaust_process [of env p] Inr False by (subst process_loop.simps) simp
    qed
  qed
qed

lemma exhaust_more:
  assumes "parser_ok p" "exhaust env p = Some (res, q)"
  shows "exhaust env (more_data y p) =
    (if res = Inr () \<and> p_state q \<noteq> ErrorState then exhaust env (more_data y q) else Some (res, more_data y q))"
  using assms
proof (induction "weight p" arbitrary: p rule: less_induct)
  case less
  obtain r p' where adv: "advance env p = (r, p')" by fastforce
  note ok = advance_ok [OF less.prems(1) adv]
  consider (go) "r = Inr True" | (err) e where "r = Inl e" | (stuck) "r = Inr False" "p' = p"
    | (fail) "r = Inr False" "p' \<noteq> p"
    by (cases r) auto
  then show ?case
  proof cases
    case go
    have more: "advance env (more_data y p) = (Inr True, more_data y p')"
      using advance_more [OF less.prems(1) adv] go by simp
    have "exhaust env p' = Some (res, q)"
      using less.prems(2) adv go by (subst (asm) exhaust.simps) simp
    moreover have "weight p' < weight p" using advance_weight less.prems(1) adv go by simp
    ultimately show ?thesis using less.hyps [OF _ ok] more by (subst exhaust.simps) simp
  next
    case (err e)
    have "advance env (more_data y p) = (Inl e, more_data y p')"
      using advance_more [OF less.prems(1) adv] err by simp
    moreover have "res = Inl e" "q = p'"
      using less.prems(2) adv err by (subst (asm) exhaust.simps, simp)+
    ultimately show ?thesis by (subst exhaust.simps) simp
  next
    case stuck
    have q: "res = Inr ()" "q = p"
      using less.prems(2) adv stuck by (subst (asm) exhaust.simps, simp)+
    show ?thesis
    proof (cases "p_state p = ErrorState")
      case True
      then have "advance env (more_data y p) = (Inr False, more_data y p)" by simp
      then have "exhaust env (more_data y p) = Some (Inr (), more_data y p)" by (subst exhaust.simps) simp
      then show ?thesis using q True by simp
    qed (use q in simp)
  next
    case fail
    have more: "advance env (more_data y p) = (Inr False, more_data y p')"
      using advance_more [OF less.prems(1) adv] fail by simp
    have "res = Inr ()" "q = p'"
      using less.prems(2) adv fail by (subst (asm) exhaust.simps, simp)+
    moreover have "p_state p' = ErrorState" using advance_False adv fail by blast
    ultimately show ?thesis using more by (subst exhaust.simps) simp
  qed
qed

end

section \<open>Chunks\<close>

text \<open>The transport delivers the bytes in chunks; an exception of \<open>add_data\<close> ends the delivery.\<close>

primrec feed ::
  "'r parser_env \<Rightarrow> byte list list \<Rightarrow> 'r report_parser \<Rightarrow> (unit, 'r report_parser) act option" where
  "feed env [] p = Some (Inr (), p)"
| "feed env (chunk # chunks) p =
     (case add_data env chunk p of
        None \<Rightarrow> None
      | Some (Inl err, q) \<Rightarrow> Some (Inl err, q)
      | Some (Inr _, q) \<Rightarrow> feed env chunks q)"

text \<open>What an observer sees: everything but the bytes kept after a fatal error.\<close>

definition observed :: "(unit, 'r report_parser) act \<Rightarrow> (unit, 'r report_parser) act" where
  "observed x = (fst x, if p_state (snd x) = ErrorState then (snd x)\<lparr>p_raw_data := []\<rparr> else snd x)"

lemma add_data_error: "p_state p = ErrorState \<Longrightarrow> add_data env data p = Some (Inr (), p)"
  by (simp add: add_data_def)

lemma feed_error: "p_state p = ErrorState \<Longrightarrow> feed env chunks p = Some (Inr (), p)"
  by (induction chunks) (simp_all add: add_data_error)

lemma advance_Inl: "advance env p = (Inl e, q) \<Longrightarrow> p_state q = ErrorState"
  by (auto simp: advance_def stage_type_def stage_header_def stage_report_def parser_fails_eq Let_def
      split: if_splits sum.splits prod.splits)

lemma exhaust_settled_aux:
  "exhaust env p = Some y \<Longrightarrow>
    (\<forall>q. y = (Inr (), q) \<longrightarrow> advance env q = (Inr False, q)) \<and>
    (\<forall>e q. y = (Inl e, q) \<longrightarrow> p_state q = ErrorState)"
proof (induction rule: exhaust.raw_induct [rotated, consumes 1, case_names step])
  case (step rec env p y)
  obtain r p' where adv: "advance env p = (r, p')" by fastforce
  show ?case
  proof (cases r)
    case (Inl e)
    then show ?thesis using step adv advance_Inl by auto
  next
    case (Inr b)
    then show ?thesis using step adv advance_stuck by (cases b) auto
  qed
qed

lemma exhaust_settled:
  "exhaust env p = Some (Inr (), q) \<Longrightarrow> advance env q = (Inr False, q)"
  "exhaust env p = Some (Inl e, q) \<Longrightarrow> p_state q = ErrorState"
  using exhaust_settled_aux by blast+

lemma exhaust_stuck: "advance env q = (Inr False, q) \<Longrightarrow> exhaust env q = Some (Inr (), q)"
  by (subst exhaust.simps) simp

context report_formats
begin

lemma add_data_exhaust:
  "parser_ok p \<Longrightarrow> p_state p \<noteq> ErrorState \<Longrightarrow> add_data env data p = exhaust env (more_data data p)"
  using process_loop_exhaust [of "more_data data p"] by (simp add: add_data_def more_data_def [symmetric])

text \<open>Feeding chunks is adding all their bytes at once.\<close>

lemma feed_concat:
  assumes "parser_ok p" "advance env p = (Inr False, p)"
  shows "map_option observed (feed env chunks p) = map_option observed (add_data env (concat chunks) p)"
  using assms
proof (induction chunks arbitrary: p)
  case Nil
  then show ?case
    by (cases "p_state p = 4") (simp_all add: add_data_error add_data_exhaust exhaust_stuck)
next
  case (Cons chunk chunks)
  show ?case
  proof (cases "p_state p = 4")
    case True
    then show ?thesis using Cons.IH [OF Cons.prems] by (simp add: add_data_error feed_error)
  next
    case False
    obtain res q where ex: "exhaust env (more_data chunk p) = Some (res, q)" "parser_ok q"
      using exhaust_total [of "more_data chunk p"] Cons.prems(1) by auto
    have all: "add_data env (concat (chunk # chunks)) p = exhaust env (more_data (concat chunks) (more_data chunk p))"
      using add_data_exhaust [OF Cons.prems(1) False, of "concat (chunk # chunks)"] by simp
    have more: "exhaust env (more_data (concat chunks) (more_data chunk p)) =
        (if res = Inr () \<and> p_state q \<noteq> 4 then exhaust env (more_data (concat chunks) q)
         else Some (res, more_data (concat chunks) q))"
      using exhaust_more [OF _ ex(1)] Cons.prems(1) by simp
    have one: "add_data env chunk p = Some (res, q)"
      using add_data_exhaust [OF Cons.prems(1) False] ex(1) by simp
    show ?thesis
    proof (cases res)
      case (Inl e)
      then have "p_state q = 4" using exhaust_settled(2) ex(1) by blast
      then have "observed (Inl e, q) = observed (Inl e, more_data (concat chunks) q)"
        by (simp add: observed_def more_data_def)
      then show ?thesis using Inl one all more by simp
    next
      case (Inr u)
      then have settled: "advance env q = (Inr False, q)" using exhaust_settled(1) ex(1) by simp
      show ?thesis
      proof (cases "p_state q = 4")
        case True
        then have "observed (Inr (), q) = observed (Inr (), more_data (concat chunks) q)"
          by (simp add: observed_def more_data_def)
        then show ?thesis using Inr True one all more by (simp add: feed_error)
      next
        case False
        then show ?thesis
          using Inr one all more Cons.IH [OF ex(2) settled] add_data_exhaust [OF ex(2) False] by simp
      qed
    qed
  qed
qed

end

text \<open>Bytes that the formats of \<open>env\<close> cut out as one report and parse.\<close>

definition framed :: "'r parser_env \<Rightarrow> 'r \<Rightarrow> byte list \<Rightarrow> bool" where
  "framed env rep bs \<longleftrightarrow> bs \<noteq> [] \<and>
     (case known_formats env (uint (hd bs)) of
        None \<Rightarrow> False
      | Some f \<Rightarrow> 0 \<le> format_header_length f \<and> format_header_length f \<le> int (length bs) \<and>
          format_report_length f (take (nat (format_header_length f)) bs) = Inr (int (length bs)) \<and>
          format_make f bs = Inr rep)"

lemma exhaust_go: "advance env p = (Inr True, p') \<Longrightarrow> exhaust env p = exhaust env p'"
  by (subst exhaust.simps) simp

lemma exhaust_framed:
  assumes "framed env rep bs" "p_state p = 1" "p_raw_data p = bs @ rest" "report_callback env = None"
  shows "\<exists>t h n. exhaust env p = exhaust env (p\<lparr>p_raw_data := rest, p_state := 1, current_type := t,
     current_header_size := h, current_report_size := n, p_reports := p_reports p @ [rep]\<rparr>)"
proof -
  obtain f where f: "known_formats env (uint (hd bs)) = Some f" "bs \<noteq> []" "0 \<le> format_header_length f"
    "format_header_length f \<le> int (length bs)"
    "format_report_length f (take (nat (format_header_length f)) bs) = Inr (int (length bs))"
    "format_make f bs = Inr rep"
    using assms(1) by (auto simp: framed_def split: option.splits)
  let ?t = "uint (hd bs)" and ?h = "format_header_length f" and ?n = "int (length bs)"
  let ?p1 = "p\<lparr>current_type := ?t, current_header_size := ?h, p_state := 2\<rparr>"
  let ?p2 = "?p1\<lparr>current_report_size := ?n, p_state := 3\<rparr>"
  let ?p3 = "?p2\<lparr>p_raw_data := rest, p_reports := p_reports p @ [rep], p_state := 1\<rparr>"
  have 1: "advance env p = (Inr True, ?p1)"
    using assms(2,3) f(1,2) by (simp add: advance_def stage_type_def calculate_header_size_def)
  have cut: "take (nat ?h) (bs @ rest) = take (nat ?h) bs" "py_slice_to (bs @ rest) ?h = take (nat ?h) (bs @ rest)"
    using f(3,4) by (simp_all add: nat_le_iff py_slice_nonneg)
  have 2: "advance env ?p1 = (Inr True, ?p2)"
    using assms(3) f cut by (simp add: advance_def stage_header_def calculate_report_size_def)
  have 3: "advance env ?p2 = (Inr True, ?p3)"
    using assms(3,4) f by (simp add: advance_def stage_report_def parse_report_def handle_report_def py_slice_nonneg Let_def)
  have "?p3 = p\<lparr>p_raw_data := rest, p_state := 1, current_type := ?t,
     current_header_size := ?h, current_report_size := ?n, p_reports := p_reports p @ [rep]\<rparr>" by simp
  then show ?thesis using exhaust_go [OF 1] exhaust_go [OF 2] exhaust_go [OF 3] by metis
qed

lemma exhaust_delivers:
  assumes "list_all2 (framed env) reps bss" "p_state p = 1" "p_raw_data p = concat bss" "report_callback env = None"
  shows "\<exists>q. exhaust env p = Some (Inr (), q) \<and> p_state q = 1 \<and> p_raw_data q = [] \<and>
    p_reports q = p_reports p @ reps \<and> p_errors q = p_errors p"
  using assms
proof (induction arbitrary: p rule: list_all2_induct)
  case Nil
  then have "advance env p = (Inr False, p)" by (simp add: advance_def stage_type_def)
  then show ?case using exhaust_stuck Nil by fastforce
next
  case (Cons rep reps bs bss)
  then obtain t h n where step: "exhaust env p = exhaust env (p\<lparr>p_raw_data := concat bss, p_state := 1, current_type := t,
     current_header_size := h, current_report_size := n, p_reports := p_reports p @ [rep]\<rparr>)"
    using exhaust_framed [of env rep bs p "concat bss"] by auto
  show ?case
    using Cons.IH [of "p\<lparr>p_raw_data := concat bss, p_state := 1, current_type := t,
     current_header_size := h, current_report_size := n, p_reports := p_reports p @ [rep]\<rparr>"] Cons.prems
    by (simp add: step)
qed

section \<open>The formats of \<open>iotile-core\<close>\<close>

text \<open>
  The classes that \<open>iotile-core\<close> registers as \<open>iotile.report_format\<close>.  All reports of one parser are
  received at the same time \<open>now\<close>.
\<close>

datatype any_report = Individual iotile_report | SignedList signed_list_report | Broadcast iotile_report

definition known_report_formats ::
  "(byte list \<Rightarrow> byte list \<Rightarrow> byte list) \<Rightarrow> signer \<Rightarrow> datetime \<Rightarrow> int \<Rightarrow> any_report report_format option" where
  "known_report_formats aes_ctr auth now t =
     (if t = 0 then Some \<lparr>format_header_length = individual_header_length,
        format_report_length = individual_report_length,
        format_make = (\<lambda>raw. map_sum id Individual (individual_decode now raw))\<rparr>
      else if t = 1 then Some \<lparr>format_header_length = signed_list_header_length,
        format_report_length = signed_list_report_length,
        format_make = (\<lambda>raw. map_sum id SignedList (signed_list_decode aes_ctr auth now raw))\<rparr>
      else if t = 3 then Some \<lparr>format_header_length = broadcast_header_length,
        format_report_length = broadcast_report_length,
        format_make = (\<lambda>raw. map_sum id Broadcast (broadcast_decode now raw))\<rparr>
      else None)"

definition known_parser ::
  "(byte list \<Rightarrow> byte list \<Rightarrow> byte list) \<Rightarrow> signer \<Rightarrow> datetime \<Rightarrow> (any_report \<Rightarrow> bool res) option \<Rightarrow> bool
   \<Rightarrow> any_report parser_env" where
  "known_parser aes_ctr auth now callback errors =
     \<lparr>known_formats = known_report_formats aes_ctr auth now, report_callback = callback, error_callback = errors\<rparr>"

fun any_raw_report :: "any_report \<Rightarrow> byte list" where
  "any_raw_report (Individual rep) = raw_report rep"
| "any_raw_report (SignedList rep) = raw_report rep"
| "any_raw_report (Broadcast rep) = raw_report rep"

fun any_encode :: "any_report \<Rightarrow> byte list res" where
  "any_encode (Individual rep) = individual_encode rep"
| "any_encode (SignedList rep) = Inr (raw_report rep)"
| "any_encode (Broadcast rep) = Inr (raw_report rep)"

fun any_received_time :: "any_report \<Rightarrow> datetime" where
  "any_received_time (Individual rep) = received_time rep"
| "any_received_time (SignedList rep) = received_time rep"
| "any_received_time (Broadcast rep) = received_time rep"

fun any_origin :: "any_report \<Rightarrow> int" where
  "any_origin (Individual rep) = origin rep"
| "any_origin (SignedList rep) = origin rep"
| "any_origin (Broadcast rep) = origin rep"

fun set_received_time :: "datetime \<Rightarrow> any_report \<Rightarrow> any_report" where
  "set_received_time t (Individual rep) = Individual (rep\<lparr>received_time := t\<rparr>)"
| "set_received_time t (SignedList rep) = SignedList (rep\<lparr>received_time := t\<rparr>)"
| "set_received_time t (Broadcast rep) = Broadcast (rep\<lparr>received_time := t\<rparr>)"

record serialized_report =
  ser_received_time :: datetime
  ser_encoded_report :: "byte list"
  ser_report_format :: int
  ser_origin :: int

definition serialize_report :: "any_report \<Rightarrow> serialized_report res" where
  "serialize_report rep =
     bind_res (any_encode rep) (\<lambda>encoded.
     bind_res (py_nth encoded 0) (\<lambda>fmt.
       Inr \<lparr>ser_received_time = any_received_time rep, ser_encoded_report = encoded, ser_report_format = uint fmt,
            ser_origin = any_origin rep\<rparr>))"

definition deserialize_report :: "any_report parser_env \<Rightarrow> serialized_report \<Rightarrow> any_report res" where
  "deserialize_report env ser =
     (case known_formats env (ser_report_format ser) of
        None \<Rightarrow> Inl ArgumentError
      | Some fmt \<Rightarrow>
          bind_res (format_make fmt (ser_encoded_report ser)) (\<lambda>rep.
            Inr (set_received_time (ser_received_time ser) rep)))"

text \<open>What can be asked of \<open>FromReadings\<close>.\<close>

datatype report_request =
    IndividualOf int "reading list"
  | BroadcastOf int "reading list" int
  | SignedListOf int "reading list" int int int int int

fun build_request ::
  "(byte list \<Rightarrow> byte list \<Rightarrow> byte list) \<Rightarrow> signer \<Rightarrow> datetime \<Rightarrow> report_request \<Rightarrow> any_report res" where
  "build_request aes_ctr auth now (IndividualOf uuid readings) =
     map_sum id Individual (individual_from_readings now uuid readings)"
| "build_request aes_ctr auth now (BroadcastOf uuid readings sent) =
     map_sum id Broadcast (broadcast_from_readings now uuid readings sent)"
| "build_request aes_ctr auth now (SignedListOf uuid readings root_key rid sel streamer sent) =
     map_sum id SignedList (signed_list_from_readings aes_ctr auth None now uuid readings root_key rid sel streamer sent)"

lemma unpack_fields_nonneg: "i \<in> set (unpack_fields ns bs) \<Longrightarrow> 0 \<le> i"
  by (induction ns arbitrary: bs) (auto simp: le_int_bounds)

lemma broadcast_report_length_nonneg:
  assumes "broadcast_report_length h = Inr n" shows "0 \<le> n"
proof -
  obtain a b c d e f where u: "unpack_fields [1, 1, 2, 4, 4, 4] h = [a, b, c, d, e, f]" by simp
  then have "0 \<le> c" using unpack_fields_nonneg [of c "[1, 1, 2, 4, 4, 4]" h] by simp
  then show ?thesis using assms u
    by (auto simp: broadcast_report_length_def broadcast_parse_header_def broadcast_auth_block_length_def
        bind_res_Inr_iff split: if_splits simp del: unpack_fields.simps)
qed

lemma signed_list_report_length_nonneg:
  assumes "signed_list_report_length h = Inr n" shows "0 \<le> n"
  using assms by (auto simp: signed_list_report_length_def unpack_exact_def bind_res_Inr_iff le_int_bounds split: if_splits)

interpretation known: report_formats "known_parser aes_ctr auth now callback errors"
  for aes_ctr auth now callback errors
proof
  fix t f
  assume f: "known_formats (known_parser aes_ctr auth now callback errors) t = Some f"
  show "0 \<le> format_header_length f"
    using f by (auto simp: known_parser_def known_report_formats_def individual_header_length_def
        broadcast_header_length_def signed_list_header_length_def split: if_splits)
  show "\<exists>err. format_make f [] = Inl err"
    using f by (auto simp: known_parser_def known_report_formats_def individual_decode_def unpack_exact_def
        signed_list_decode_def broadcast_decode_def broadcast_parse_header_def split: if_splits)
  fix h n
  assume "format_report_length f h = Inr n"
  then show "0 \<le> n"
    using f broadcast_report_length_nonneg signed_list_report_length_nonneg
    by (auto simp: known_parser_def known_report_formats_def individual_report_length_def split: if_splits)
qed

lemma individual_decode_hd:
  assumes "individual_decode now raw = Inr rep"
  shows "raw \<noteq> []" "uint (hd raw) = 0" "raw_report rep = raw" "length raw = 20" "received_time rep = now"
proof -
  obtain a b c d e f g where u: "unpack_fields [1, 1, 2, 4, 4, 4, 4] raw = [a, b, c, d, e, f, g]" by simp
  have len: "length raw = 20" using assms by (auto simp: individual_decode_def unpack_exact_def split: if_splits)
  then show "length raw = 20" "raw \<noteq> []" by auto
  have "a = 0" using assms len u by (auto simp: individual_decode_def unpack_exact_def split: if_splits)
  moreover have "a = uint (hd raw)" using u len by (cases raw) auto
  ultimately show "uint (hd raw) = 0" by simp
  show "raw_report rep = raw" "received_time rep = now"
    using assms len u by (auto simp: individual_decode_def unpack_exact_def split: if_splits)
qed

lemma pack_byte_hd:
  assumes "pack_fields ((1, v) # fs) = Inr bs"
  shows "bs \<noteq> []" "uint (hd bs) = v"
proof -
  obtain rest where "bs = le_bytes 1 v @ rest" "0 \<le> v" "v < 256"
    using assms unfolding pack_fields_Cons by auto
  then show "bs \<noteq> []" "uint (hd bs) = v" by (simp_all add: uint_word_of_int)
qed

lemma framed_individual:
  assumes "individual_from_readings now uuid readings = Inr rep"
  shows "framed (known_parser aes auth now cb err) (Individual rep) (raw_report rep)"
proof -
  obtain bs where "individual_decode now bs = Inr rep"
    using assms by (auto simp: individual_from_readings_def Let_def bind_res_Inr_iff split: if_splits simp del: pack_fields.simps)
  with individual_decode_hd [OF this] show ?thesis
    by (simp add: framed_def known_parser_def known_report_formats_def individual_header_length_def
        individual_report_length_def)
qed

lemma broadcast_decode_raw:
  "broadcast_decode now raw = Inr rep \<Longrightarrow> raw_report rep = raw \<and> received_time rep = now"
  by (auto simp: broadcast_decode_def bind_res_Inr_iff split: if_splits)

lemma framed_broadcast:
  assumes "broadcast_from_readings now uuid readings sent = Inr rep"
  shows "framed (known_parser aes auth now cb err) (Broadcast rep) (raw_report rep)"
proof -
  let ?fs = "[(1, 3), (1, 0), (2, int (length readings) * 16), (4, uuid), (4, sent), (4, 0)]"
  obtain h p where h: "pack_fields ?fs = Inr h" and p: "pack_readings readings = Inr p"
    and dec: "broadcast_decode now (h @ p) = Inr rep"
    using assms by (auto simp: broadcast_from_readings_def bind_res_Inr_iff simp del: pack_fields.simps)
  have len: "length h = 16" "length p = 16 * length readings"
    using length_pack_fields [OF h] pack_readings_unpack [OF p] by simp_all
  have "broadcast_parse_header (take 16 (h @ p)) = Inr (0, int (length readings) * 16, uuid, sent)"
    using unpack_pack_fields [OF h, of "[]"] len by (simp add: broadcast_parse_header_def)
  then have "broadcast_report_length (take 16 (h @ p)) = Inr (int (length (h @ p)))"
    using len by (simp add: broadcast_report_length_def broadcast_auth_block_length_def)
  moreover have "uint (hd (h @ p)) = 3" "h @ p \<noteq> []" using pack_byte_hd [OF h] by simp_all
  ultimately show ?thesis
    using dec broadcast_decode_raw [OF dec] len(1)
    by (simp add: framed_def known_parser_def known_report_formats_def broadcast_header_length_def)
qed

lemma framed_signed_list:
  assumes "signed_list_from_readings aes auth signing now uuid readings key rid sel streamer sent = Inr rep"
  shows "framed (known_parser aes auth now cb err) (SignedList rep) (raw_report rep)"
proof -
  let ?n = "20 + 16 * int (length readings) + 24"
  from assms obtain flags header packed stats payload sig where
    header: "pack_fields [(1, 1), (1, ?n AND 0xFF), (2, drop_bit 8 ?n), (4, uuid), (4, rid),
                  (4, sent), (1, flags), (1, streamer), (2, sel)] = Inr header"
    and "pack_readings readings = Inr packed"
    and dec: "signed_list_decode aes auth now (header @ payload @ stats @ take 16 sig) = Inr rep"
    by (auto simp: signed_list_from_readings_def Let_def bind_res_Inr_iff simp del: pack_fields.simps)
  let ?raw = "header @ payload @ stats @ take 16 sig"
  have raw: "raw_report rep = ?raw" using signed_list_decode_inv [OF dec] by simp
  have len: "length header = 20" using length_pack_fields [OF header] by simp
  have lenword: "signed_list_report_length (take 20 ?raw) = Inr ?n"
    by (rule signed_list_length_word [OF header]) simp
  have "0 \<le> drop_bit 8 ?n \<and> drop_bit 8 ?n < 256 ^ 2" using header unfolding pack_fields_Cons by blast
  then have "?n div 256 < 65536" by (simp add: drop_bits)
  then have "?n < 65536 * 256" by linarith
  then have "?n < 2 ^ 24" by simp
  note split = split_length(1) [of ?n, OF _ this]
  have "unpack_exact [1, 1, 2, 4, 4, 4, 1, 1, 2] (take 20 ?raw) =
      Inr [1, ?n AND 0xFF, drop_bit 8 ?n, uuid, rid, sent, flags, streamer, sel]"
    using unpack_exact_pack [OF header] len by simp
  then have "int (length ?raw) = push_bit 8 (drop_bit 8 ?n) OR (?n AND 255)"
    using dec by (simp add: signed_list_decode_def split: if_splits)
  then have "int (length ?raw) = ?n" using split by simp
  moreover have "uint (hd ?raw) = 1" "?raw \<noteq> []" using pack_byte_hd [OF header] by simp_all
  ultimately show ?thesis
    using dec raw lenword len
    by (simp add: framed_def known_parser_def known_report_formats_def signed_list_header_length_def)
qed

lemma framed_request:
  assumes "build_request aes auth now req = Inr rep"
  shows "framed (known_parser aes auth now cb err) rep (any_raw_report rep)"
  using assms framed_individual framed_broadcast framed_signed_list
  by (cases req) (auto simp: map_sum_def split: sum.splits)

text \<open>
  C15: the parser is insensitive to how the transport cuts the bytes.  With the formats of \<open>iotile-core\<close>,
  any callbacks and any bytes, feeding the bytes in chunks to a new parser always returns, and what an
  observer sees (exception, state, reports kept, callbacks made and, without a fatal error, the bytes left
  over) is the same as after one call of \<open>add_data\<close> with all the bytes.
\<close>

theorem parser_chunking:
  "feed (known_parser aes auth now callback errors) chunks new_parser \<noteq> None \<and>
   map_option observed (feed (known_parser aes auth now callback errors) chunks new_parser) =
   map_option observed (add_data (known_parser aes auth now callback errors) (concat chunks) new_parser)"
proof -
  let ?env = "known_parser aes auth now callback errors" and ?p = "new_parser :: any_report report_parser"
  have ok: "parser_ok ?p" by (simp add: parser_ok_def new_parser_def)
  have "advance ?env ?p = (Inr False, ?p)" by (simp add: advance_def stage_type_def new_parser_def)
  note eq = known.feed_concat [OF ok this]
  have "add_data ?env (concat chunks) ?p = exhaust ?env (more_data (concat chunks) ?p)"
    by (rule known.add_data_exhaust [OF ok]) (simp add: new_parser_def)
  moreover obtain r q where "exhaust ?env (more_data (concat chunks) ?p) = Some (r, q)"
    using known.exhaust_total [where p = "more_data (concat chunks) ?p" and aes_ctr = aes and auth = auth
        and now = now and callback = callback and errors = errors] ok by auto
  ultimately have "map_option observed (feed ?env chunks ?p) \<noteq> None" using eq [of chunks] by (metis option.simps(9) option.distinct(1))
  then show ?thesis using eq [of chunks] by (metis option.map_disc_iff)
qed

lemma delivers:
  assumes "map_res (build_request aes auth now) reqs = Inr reps"
    and "concat chunks = concat (map any_raw_report reps)"
  shows "\<exists>q. feed (known_parser aes auth now None errors) chunks new_parser = Some (Inr (), q) \<and>
    p_reports q = reps \<and> p_raw_data q = [] \<and> p_state q = WaitingForReportType \<and> p_errors q = []"
proof -
  let ?env = "known_parser aes auth now None errors" and ?p = "new_parser :: any_report report_parser"
  have framed: "list_all2 (framed ?env) reps (map any_raw_report reps)"
    using assms(1) by (induction reqs arbitrary: reps) (auto simp: bind_res_Inr_iff framed_request)
  have "add_data ?env (concat chunks) ?p = exhaust ?env (more_data (concat chunks) ?p)"
    by (rule known.add_data_exhaust) (simp_all add: new_parser_def parser_ok_def)
  moreover obtain q where q: "exhaust ?env (more_data (concat chunks) ?p) = Some (Inr (), q)"
    "p_state q = 1" "p_raw_data q = []" "p_reports q = reps" "p_errors q = []"
    using exhaust_delivers [OF framed, of "more_data (concat chunks) ?p"] assms(2)
    by (auto simp: new_parser_def known_parser_def)
  ultimately have "map_option observed (feed ?env chunks ?p) = Some (observed (Inr (), q))"
    using known.feed_concat [of ?p] by (simp add: parser_ok_def advance_def stage_type_def new_parser_def)
  then obtain r q' where "feed ?env chunks ?p = Some (r, q')" "observed (r, q') = observed (Inr (), q)" by auto
  then show ?thesis using q by (auto simp: observed_def split: if_splits)
qed

text \<open>
  Reports survive the trip.  If reports are built with \<open>FromReadings\<close> (individual, broadcast and
  signed list reports in any order) and their bytes are sent one after the other, cut into chunks in any
  way, then a parser without a report callback keeps exactly these reports in this order, with no bytes
  left over and no error.
\<close>

theorem parser_delivers:
  assumes "map_res (build_request aes auth now) reqs = Inr reps"
    and "concat chunks = concat (map any_raw_report reps)"
  shows "\<exists>q. feed (known_parser aes auth now None errors) chunks new_parser = Some (Inr (), q) \<and>
    p_reports q = reps \<and> p_raw_data q = [] \<and> p_state q = WaitingForReportType \<and> p_errors q = []"
  using assms by (rule delivers)

theorem parser_delivers_witness:
  "\<exists>reps q. map_res (build_request toy_cipher (\<lambda>kt dev rid sent. Inl NotFoundError) 0)
        [IndividualOf 5 [new_reading 10 0x1001 99 None None None], IndividualOf 6 [new_reading 7 0x1002 3 None None None]] =
        Inr reps \<and> length reps = 2 \<and>
      feed (known_parser toy_cipher (\<lambda>kt dev rid sent. Inl NotFoundError) 0 None True)
        (map (\<lambda>b. [b]) (concat (map any_raw_report reps))) new_parser = Some (Inr (), q) \<and> p_reports q = reps"
proof -
  let ?auth = "\<lambda>kt dev rid sent. Inl NotFoundError"
  let ?r1 = "new_reading 10 0x1001 99 None None None" and ?r2 = "new_reading 7 0x1002 3 None None None"
  obtain a b where a: "individual_from_readings 0 5 [?r1] = Inr a" and b: "individual_from_readings 0 6 [?r2] = Inr b"
    using individual_roundtrip_lemma [of ?r1 5 0] individual_roundtrip_lemma [of ?r2 6 0]
    by (auto simp: new_reading_def)
  let ?reps = "[Individual a, Individual b]"
  have "map_res (build_request toy_cipher ?auth 0) [IndividualOf 5 [?r1], IndividualOf 6 [?r2]] = Inr ?reps"
    using a b by simp
  moreover have "concat (map (\<lambda>b. [b]) bs) = bs" for bs :: "byte list" by (induction bs) simp_all
  ultimately show ?thesis
    using parser_delivers [of toy_cipher ?auth 0 "[IndividualOf 5 [?r1], IndividualOf 6 [?r2]]" ?reps
        "map (\<lambda>b. [b]) (concat (map any_raw_report ?reps))" True]
    by (metis length_Cons list.size(3) numeral_2_eq_2)
qed

section \<open>Serialised reports\<close>

text \<open>The readings of a report as they are when its bytes are decoded \<open>d\<close> microseconds later.\<close>

definition retime :: "int \<Rightarrow> reading \<Rightarrow> reading" where
  "retime d r = (if raw_time r \<noteq> InvalidRawTime \<and> raw_time r AND push_bit 31 1 \<noteq> 0 then r
     else r\<lparr>reading_time := map_option (\<lambda>t. t + d) (reading_time r)\<rparr>)"

definition retime_readings :: "int \<Rightarrow> 'a iotile_report_scheme \<Rightarrow> 'a iotile_report_scheme" where
  "retime_readings d rep = rep\<lparr>visible_readings := map (retime d) (visible_readings rep)\<rparr>"

fun retimed :: "int \<Rightarrow> any_report \<Rightarrow> any_report" where
  "retimed d (Individual rep) = Individual (retime_readings d rep)"
| "retimed d (SignedList rep) = SignedList (retime_readings d rep)"
| "retimed d (Broadcast rep) = Broadcast (retime_readings d rep)"

lemma retime_new_reading:
  "new_reading raw strm val (Some (tb + d)) rid None = retime d (new_reading raw strm val (Some tb) rid None)"
  by (simp add: new_reading_def retime_def try_assign_utc_time_def algebra_simps)

lemma unpack_reading_later:
  "unpack_reading (tb + d) bs = map_sum id (retime d) (unpack_reading tb bs)"
  by (auto simp: unpack_reading_def unpack_exact_def retime_new_reading split: list.split)

lemma unpack_readings_later:
  "unpack_readings (tb + d) bs = map_sum id (map (retime d)) (unpack_readings tb bs)"
proof (induction tb bs rule: unpack_readings.induct)
  case (1 tb bs)
  show ?case
  proof (cases "bs = []")
    case False
    then show ?thesis
      using 1 unpack_reading_later [of tb d "take 16 bs"]
      by (subst (1 2) unpack_readings.simps)
        (cases "unpack_reading tb (take 16 bs)"; cases "unpack_readings tb (drop 16 bs)"; simp)
  qed (simp add: unpack_readings.simps)
qed

definition later_report :: "int \<Rightarrow> 'a iotile_report_scheme \<Rightarrow> 'a iotile_report_scheme" where
  "later_report d rep = (retime_readings d rep)\<lparr>received_time := received_time rep + d\<rparr>"

lemma individual_decode_later:
  "individual_decode (now + d) raw = map_sum id (later_report d) (individual_decode now raw)"
  using retime_new_reading [of _ _ _ "now - seconds s" d for s]
  by (auto simp: individual_decode_def unpack_exact_def later_report_def retime_readings_def algebra_simps
      split: list.split)

lemma broadcast_decode_later:
  "broadcast_decode (now + d) raw = map_sum id (later_report d) (broadcast_decode now raw)"
proof (cases "broadcast_parse_header (take 16 raw)")
  case (Inr b)
  obtain auth_type n uuid sent where b: "b = (auth_type, n, uuid, sent)" by (cases b)
  have "now + d - seconds sent = now - seconds sent + d" by simp
  then show ?thesis
    using Inr b unpack_readings_later [of "now - seconds sent" d "take (nat n) (drop 16 raw)"]
    by (cases "unpack_readings (now - seconds sent) (take (nat n) (drop 16 raw))")
      (simp_all add: broadcast_decode_def later_report_def retime_readings_def \<open>now + d - _ = _\<close>)
qed (simp add: broadcast_decode_def)

lemma map_sum_bind:
  "map_sum id f (bind_res x g) = bind_res x (\<lambda>a. map_sum id f (g a))"
  "bind_res (map_sum id h x) g' = bind_res x (\<lambda>a. g' (h a))"
  by (cases x; simp)+

lemma signed_list_decode_later:
  "signed_list_decode aes auth (now + d) raw = map_sum id (later_report d) (signed_list_decode aes auth now raw)"
proof (cases "unpack_exact [1, 1, 2, 4, 4, 4, 1, 1, 2] (take 20 raw)")
  case (Inr fs)
  obtain fmt lo hi dev rid sent fl st se where fs: "fs = [fmt, lo, hi, dev, rid, sent, fl, st, se]"
    using unpack_nine [OF Inr] by (elim exE)
  have tb: "now + d - seconds sent = now - seconds sent + d" by simp
  show ?thesis
    unfolding signed_list_decode_def Inr fs bind_res_simps list.case Let_def tb unpack_readings_later
    by (simp add: map_sum_bind if_distrib [of "map_sum id (later_report d)"] sum.case_distrib [of "map_sum id (later_report d)"]
        later_report_def retime_readings_def cong: if_cong sum.case_cong)
qed (simp add: signed_list_decode_def)

lemma individual_encode_raw:
  assumes "individual_from_readings now uuid readings = Inr rep"
  shows "individual_encode rep = Inr (raw_report rep)"
proof -
  let ?r = "hd readings"
  let ?fs = "[(1, 0), (1, 0), (2, r_stream ?r), (4, uuid), (4, 0), (4, raw_time ?r), (4, r_value ?r)]"
  obtain b where b: "pack_fields ?fs = Inr b" and dec: "individual_decode now b = Inr rep"
    using assms by (auto simp: individual_from_readings_def Let_def bind_res_Inr_iff split: if_splits simp del: pack_fields.simps)
  have "unpack_exact [1, 1, 2, 4, 4, 4, 4] b = Inr [0, 0, r_stream ?r, uuid, 0, raw_time ?r, r_value ?r]"
    using unpack_exact_pack [OF b] by simp
  then show ?thesis
    using dec b by (auto simp: individual_decode_def individual_encode_def py_nth_def new_reading_def
        simp del: pack_fields.simps)
qed

lemma any_encode_raw: "build_request aes auth now req = Inr rep \<Longrightarrow> any_encode rep = Inr (any_raw_report rep)"
  by (cases req) (auto simp: individual_encode_raw map_sum_def split: sum.splits)

lemma pred_bind: "(\<And>a. pred_sum (\<lambda>_. True) P (g a)) \<Longrightarrow> pred_sum (\<lambda>_. True) P (bind_res x g)"
  by (cases x) simp_all

lemma signed_list_decode_received: "signed_list_decode aes auth now raw = Inr rep \<Longrightarrow> received_time rep = now"
proof -
  have "pred_sum (\<lambda>_. True) (\<lambda>r. received_time r = now) (signed_list_decode aes auth now raw)"
    unfolding signed_list_decode_def
    by (rule pred_bind) (simp add: Let_def pred_bind split: list.split sum.split if_split)
  then show "signed_list_decode aes auth now raw = Inr rep \<Longrightarrow> received_time rep = now" by simp
qed

lemma any_make_received:
  assumes "known_report_formats aes auth now t = Some f" "format_make f raw = Inr rep"
  shows "any_received_time rep = now"
  using assms individual_decode_hd(5) broadcast_decode_raw signed_list_decode_received
  by (auto simp: known_report_formats_def map_sum_def split: if_splits sum.splits)

lemma any_make_later:
  assumes "known_report_formats aes auth now t = Some f" "format_make f raw = Inr rep"
  shows "\<exists>f' rep'. known_report_formats aes auth (now + d) t = Some f' \<and> format_make f' raw = Inr rep' \<and>
    set_received_time now rep' = set_received_time now (retimed d rep)"
  using assms individual_decode_later broadcast_decode_later signed_list_decode_later
  by (auto simp: known_report_formats_def map_sum_def later_report_def split: if_splits sum.splits)

text \<open>
  Serialised reports.  A report built with \<open>FromReadings\<close> at time \<open>now\<close> can be serialised, and a parser
  running at any other time \<open>now + d\<close> deserialises it to the same report, time of reception included, except
  that the times assigned to its readings are those of a report received at \<open>now + d\<close>: \<open>deserialize_report\<close>
  sets \<open>received_time\<close> only after the constructor has dated the readings with the current time.
\<close>

theorem serialize_restores:
  assumes "build_request aes auth now req = Inr rep"
  shows "\<exists>ser. serialize_report rep = Inr ser \<and>
    deserialize_report (known_parser aes auth (now + d) callback errors) ser = Inr (retimed d rep)"
proof -
  let ?env = "known_parser aes auth now callback errors"
  have "framed ?env rep (any_raw_report rep)" using framed_request [OF assms] by simp
  then obtain f where raw: "any_raw_report rep \<noteq> []"
    and f: "known_report_formats aes auth now (uint (hd (any_raw_report rep))) = Some f"
      "format_make f (any_raw_report rep) = Inr rep"
    by (auto simp: framed_def known_parser_def split: option.splits)
  have now: "any_received_time rep = now" using any_make_received [OF f] .
  then have keep: "set_received_time now (retimed d rep) = retimed d rep"
    by (cases rep) (simp_all add: retime_readings_def)
  obtain f' rep' where later: "known_report_formats aes auth (now + d) (uint (hd (any_raw_report rep))) = Some f'"
    "format_make f' (any_raw_report rep) = Inr rep'" "set_received_time now rep' = retimed d rep"
    using any_make_later [OF f, of d] keep by auto
  have "py_nth (any_raw_report rep) 0 = Inr (hd (any_raw_report rep))"
    using raw by (simp add: py_nth_def hd_conv_nth)
  then show ?thesis
    using any_encode_raw [OF assms] now later
    by (simp add: serialize_report_def deserialize_report_def known_parser_def)
qed

theorem serialize_restores_witness:
  "\<exists>rep ser. individual_from_readings 0 5 [new_reading 10 0x1001 99 None None None] = Inr rep \<and>
     serialize_report (Individual rep) = Inr ser \<and>
     deserialize_report (known_parser toy_cipher (\<lambda>kt dev rid sent. Inl NotFoundError) 60 None True) ser =
       Inr (Individual (rep\<lparr>visible_readings := [new_reading 10 0x1001 99 (Some 60) None None]\<rparr>)) \<and>
     visible_readings rep = [new_reading 10 0x1001 99 (Some 0) None None]"
proof -
  let ?r = "new_reading 10 0x1001 99 None None None"
  obtain rep where rep: "individual_from_readings 0 5 [?r] = Inr rep"
    "visible_readings rep = [new_reading 10 0x1001 99 (Some 0) None None]"
    using individual_roundtrip_lemma [of ?r 5 0] by (auto simp: new_reading_def)
  then have b: "build_request toy_cipher (\<lambda>kt dev rid sent. Inl NotFoundError) 0 (IndividualOf 5 [?r]) = Inr (Individual rep)" by simp
  have "retimed 60 (Individual rep) = Individual (rep\<lparr>visible_readings := [new_reading 10 0x1001 99 (Some 60) None None]\<rparr>)"
    using rep(2) by (simp add: retime_readings_def retime_def new_reading_def try_assign_utc_time_def)
  with serialize_restores [OF b, of 60 None True] rep show ?thesis by auto
qed

end
