(* ===== verification/Slots.thy ===== *)
theory Slots
  imports Prelude
begin

text \<open>
  Slot identifiers (\<open>iotile/sg/slot.py\<close>): the address of a tile on the bus, as text and as the 8-byte
  descriptor sent to a device.
\<close>

section \<open>Definitions\<close>

definition KNOWN_MATCH_CODES :: "int \<Rightarrow> string option" where
  "KNOWN_MATCH_CODES code = map_of
     [(0, ''match_none''), (1, ''match_slot''), (2, ''match_controller''), (3, ''match_name'')] code"

definition KNOWN_MATCH_NAMES :: "string \<Rightarrow> int option" where
  "KNOWN_MATCH_NAMES name = map_of
     [(''match_none'', 0), (''match_slot'', 1), (''match_controller'', 2), (''match_name'', 3)] name"

record slot_identifier =
  controller :: bool
  slot :: "int option"

definition new_slot :: "int option \<Rightarrow> bool \<Rightarrow> slot_identifier res" where
  "new_slot s c =
     (if c \<and> s \<noteq> None then Inl ArgumentError
      else if (case s of Some n \<Rightarrow> n < 1 \<or> n \<ge> 32 | None \<Rightarrow> False) then Inl ArgumentError
      else Inr \<lparr>controller = c, slot = s\<rparr>)"

text \<open>The address of an identifier made without slot and controller raises a \<open>TypeError\<close>.\<close>

definition slot_address :: "slot_identifier \<Rightarrow> int res" where
  "slot_address s =
     (if controller s then Inr 8
      else case slot s of None \<Rightarrow> Inl PyTypeError | Some n \<Rightarrow> Inr (10 + n))"

definition slot_matches :: "slot_identifier \<Rightarrow> int \<Rightarrow> bool res" where
  "slot_matches s address =
     (if controller s then Inr (address = 8)
      else bind_res (slot_address s) (\<lambda>a. Inr (a = address)))"

definition slot_of_string :: "string \<Rightarrow> slot_identifier res" where
  "slot_of_string desc =
     (if desc = ''controller'' then new_slot None True
      else case py_split desc of
        [w0, w1] \<Rightarrow>
          if w0 \<noteq> ''slot'' then Inl ArgumentError
          else (case py_int0 w1 of None \<Rightarrow> Inl ArgumentError | Some n \<Rightarrow> new_slot (Some n) False)
      | _ \<Rightarrow> Inl ArgumentError)"

text \<open>The format \<open><B6xB\<close>: one byte, six bytes of padding, one byte.\<close>

definition slot_of_encoded :: "byte list \<Rightarrow> slot_identifier res" where
  "slot_of_encoded bindata =
     (if length bindata \<noteq> 8 then Inl ArgumentError
      else case unpack_fields [1, 6, 1] bindata of
        [s, pad, match_op] \<Rightarrow>
          (case KNOWN_MATCH_CODES match_op of
             None \<Rightarrow> Inl ArgumentError
           | Some name \<Rightarrow>
               if name = ''match_controller'' then new_slot None True
               else if name = ''match_slot'' then new_slot (Some s) False
               else Inl ArgumentError)
      | _ \<Rightarrow> Inl ArgumentError)"

definition slot_encode :: "slot_identifier \<Rightarrow> byte list res" where
  "slot_encode s =
     (if controller s then
        (case KNOWN_MATCH_NAMES ''match_controller'' of
           None \<Rightarrow> Inl KeyError | Some op \<Rightarrow> pack_fields [(1, 0), (6, 0), (1, op)])
      else
        (case KNOWN_MATCH_NAMES ''match_slot'' of
           None \<Rightarrow> Inl KeyError
         | Some op \<Rightarrow>
             (case slot s of None \<Rightarrow> Inl StructError | Some n \<Rightarrow> pack_fields [(1, n), (6, 0), (1, op)])))"

definition slot_str :: "slot_identifier \<Rightarrow> string" where
  "slot_str s =
     (if controller s then ''controller''
      else ''slot '' @ (case slot s of None \<Rightarrow> ''None'' | Some n \<Rightarrow> py_str_int n))"

section \<open>Codecs\<close>

text \<open>The identifiers of tiles, as opposed to the empty \<open>SlotIdentifier()\<close>.\<close>

definition slot_ok :: "slot_identifier \<Rightarrow> bool" where
  "slot_ok s \<longleftrightarrow>
     (case slot s of None \<Rightarrow> controller s | Some n \<Rightarrow> \<not> controller s \<and> 1 \<le> n \<and> n < 32)"

lemma new_slot_ok: "new_slot s c = Inr x \<Longrightarrow> slot_ok x \<or> x = \<lparr>controller = False, slot = None\<rparr>"
  by (auto simp: new_slot_def slot_ok_def split: if_splits option.splits)

lemma slot_ok_cases:
  assumes "slot_ok s"
  obtains "s = \<lparr>controller = True, slot = None\<rparr>"
    | n where "s = \<lparr>controller = False, slot = Some n\<rparr>" "1 \<le> n" "n < 32"
  using assms by (cases s) (auto simp: slot_ok_def split: option.splits)

lemma slot_text_inverse:
  assumes "slot_ok s"
  shows "slot_of_string (slot_str s) = Inr s"
  using assms
proof (cases s rule: slot_ok_cases)
  case (2 n)
  have "py_split (''slot'' @ CHR '' '' # py_str_int n) = [''slot'', py_str_int n]"
    by (subst py_split_cons) (simp_all add: py_split_single py_isspace_def)
  with 2 show ?thesis
    by (simp add: slot_of_string_def slot_str_def new_slot_def py_int0_str_int)
qed (simp add: slot_of_string_def slot_str_def new_slot_def)

lemma slot_encode_total:
  "slot_ok s \<Longrightarrow> \<exists>b. slot_encode s = Inr b"
  by (erule slot_ok_cases) (simp_all add: slot_encode_def KNOWN_MATCH_NAMES_def pack_u_def)

lemma slot_encode_inverse:
  assumes "slot_ok s" "slot_encode s = Inr b"
  shows "slot_of_encoded b = Inr s"
  using assms(1)
proof (cases s rule: slot_ok_cases)
  case 1
  then have p: "pack_fields [(1, 0), (6, 0), (1, 2)] = Inr b"
    using assms(2) by (simp add: slot_encode_def KNOWN_MATCH_NAMES_def)
  have "unpack_fields [1, 6, 1] b = [0, 0, 2]" "length b = 8"
    using unpack_pack_fields [OF p, of "[]"] length_pack_fields [OF p] by simp_all
  with 1 show ?thesis by (simp add: slot_of_encoded_def KNOWN_MATCH_CODES_def new_slot_def)
next
  case (2 n)
  then have p: "pack_fields [(1, n), (6, 0), (1, 1)] = Inr b"
    using assms(2) by (simp add: slot_encode_def KNOWN_MATCH_NAMES_def)
  have "unpack_fields [1, 6, 1] b = [n, 0, 1]" "length b = 8"
    using unpack_pack_fields [OF p, of "[]"] length_pack_fields [OF p] by simp_all
  with 2 show ?thesis by (simp add: slot_of_encoded_def KNOWN_MATCH_CODES_def new_slot_def)
qed

interpretation slot_text: codec "\<lambda>s. Inr (slot_str s)" slot_of_string slot_ok
  by unfold_locales (auto simp: slot_text_inverse)

interpretation slot_bits: codec slot_encode slot_of_encoded slot_ok
  by unfold_locales (simp_all add: slot_encode_total slot_encode_inverse)

lemma slot_encode_length: "slot_ok s \<Longrightarrow> slot_encode s = Inr b \<Longrightarrow> length b = 8"
  by (erule slot_ok_cases) (auto simp: slot_encode_def KNOWN_MATCH_NAMES_def simp del: pack_fields.simps dest!: length_pack_fields)

section \<open>Properties\<close>

text \<open>
  A slot identifier survives printing and encoding.  For the controller and the slots 1 to 31,
  \<open>FromString\<close> inverts \<open>str\<close>, the descriptor has 8 bytes and \<open>FromEncoded\<close> inverts \<open>encode\<close>; the
  tile addresses of two different identifiers differ, and \<open>matches\<close> accepts exactly the address of the
  identifier.
\<close>

theorem slot_roundtrip:
  assumes "slot_ok s"
  shows "slot_of_string (slot_str s) = Inr s \<and>
    (\<exists>b. slot_encode s = Inr b \<and> length b = 8 \<and> slot_of_encoded b = Inr s) \<and>
    (\<forall>s'. slot_ok s' \<longrightarrow> slot_address s' = slot_address s \<longrightarrow> s' = s) \<and>
    (\<exists>a. slot_address s = Inr a \<and> (\<forall>x. slot_matches s x = Inr (x = a)))"
proof -
  have "s' = s" if s': "slot_ok s'" "slot_address s' = slot_address s" for s'
    using s'(1)
  proof (cases s' rule: slot_ok_cases)
    case 1
    from assms show ?thesis using 1 s'(2) by (cases s rule: slot_ok_cases) (auto simp: slot_address_def)
  next
    case (2 n)
    from assms show ?thesis using 2 s'(2) by (cases s rule: slot_ok_cases) (auto simp: slot_address_def)
  qed
  moreover have "\<exists>a. slot_address s = Inr a \<and> (\<forall>x. slot_matches s x = Inr (x = a))"
    using assms by (cases s rule: slot_ok_cases) (auto simp: slot_address_def slot_matches_def)
  moreover obtain b where "slot_encode s = Inr b" using slot_encode_total [OF assms] by blast
  ultimately show ?thesis
    using assms slot_text_inverse slot_encode_inverse slot_encode_length by blast
qed

theorem slot_roundtrip_witness:
  "slot_of_string ''slot 5'' = Inr \<lparr>controller = False, slot = Some 5\<rparr>"
proof -
  have "slot_str \<lparr>controller = False, slot = Some 5\<rparr> = ''slot 5''"
    by (simp add: slot_str_def py_str_int_def py_str_nat.simps digit_char_def)
  then show ?thesis
    using slot_roundtrip [of "\<lparr>controller = False, slot = Some 5\<rparr>"] by (simp add: slot_ok_def)
qed

end
