(* ===== verification/Streamers.thy ===== *)
theory Streamers
  imports Sensor_Log Report_Parser Slots
begin

text \<open>
  Streamers (\<open>iotile/sg/streamer.py\<close>): they choose readings of the sensor log with a walker and build
  the reports that carry them away.
\<close>

section \<open>State\<close>

definition KnownTypes :: "string \<Rightarrow> int option" where
  "KnownTypes = map_of [(''broadcast'', 1), (''telegram'', 2), (''synchronous'', 4)]"

definition KnownTypeCodes :: "int \<Rightarrow> string option" where
  "KnownTypeCodes = map_of [(1, ''broadcast''), (2, ''telegram''), (4, ''synchronous'')]"

definition KnownFormats :: "string \<Rightarrow> int option" where
  "KnownFormats = map_of
     [(''individual'', 0), (''hashedlist'', 1), (''signedlist_userkey'', 2), (''signedlist_devicekey'', 3)]"

definition KnownFormatCodes :: "int \<Rightarrow> string option" where
  "KnownFormatCodes = map_of
     [(0, ''individual''), (1, ''hashedlist''), (2, ''signedlist_userkey''), (3, ''signedlist_devicekey'')]"

text \<open>
  \<open>st_walker\<close> is the number of the streamer's walker.  A streamer is linked to one sensor log, the one
  that its operations are given: \<open>_sensor_log\<close> is not kept.
\<close>

record data_streamer =
  st_selector :: selector
  st_dest :: slot_identifier
  st_format :: string
  st_automatic :: bool
  st_report_type :: string
  st_with_other :: "int option"
  st_walker :: "nat option"
  st_index :: "int option"

definition link_to_storage :: "data_streamer \<Rightarrow> sensor_log \<Rightarrow> (data_streamer, sensor_log) act" where
  "link_to_storage st log =
     (let destroyed = (case st_walker st of None \<Rightarrow> (Inr (), log) | Some wid \<Rightarrow> log_destroy_walker wid log)
      in bind_act destroyed (\<lambda>_ log1.
         bind_act (log_create_walker (st_selector st) True log1) (\<lambda>wid log2.
           (Inr (st\<lparr>st_walker := Some wid\<rparr>), log2))))"

text \<open>The constructor without a sensor log, and with one.\<close>

definition new_streamer ::
  "selector \<Rightarrow> slot_identifier \<Rightarrow> string \<Rightarrow> bool \<Rightarrow> string \<Rightarrow> int option \<Rightarrow> data_streamer res" where
  "new_streamer sel dest fmt automatic rtype with_other =
     (if KnownFormats fmt = None then Inl ArgumentError
      else if KnownTypes rtype = None then Inl ArgumentError
      else Inr \<lparr>st_selector = sel, st_dest = dest, st_format = fmt, st_automatic = automatic,
                st_report_type = rtype, st_with_other = with_other, st_walker = None, st_index = None\<rparr>)"

definition new_linked_streamer ::
  "selector \<Rightarrow> slot_identifier \<Rightarrow> string \<Rightarrow> bool \<Rightarrow> string \<Rightarrow> int option \<Rightarrow> sensor_log
   \<Rightarrow> (data_streamer, sensor_log) act" where
  "new_linked_streamer sel dest fmt automatic rtype with_other log =
     (case new_streamer sel dest fmt automatic rtype with_other of
        Inl err \<Rightarrow> (Inl err, log) | Inr st \<Rightarrow> link_to_storage st log)"

definition has_data :: "data_streamer \<Rightarrow> sensor_log \<Rightarrow> bool res" where
  "has_data st log =
     (case st_walker st of None \<Rightarrow> Inl InternalError | Some wid \<Rightarrow> Inr (log_count wid log > 0))"

definition streamer_triggered :: "data_streamer \<Rightarrow> bool \<Rightarrow> sensor_log \<Rightarrow> bool res" where
  "streamer_triggered st manual log =
     (if st_walker st = None then Inl InternalError
      else if \<not> st_automatic st \<and> \<not> manual then Inr False
      else has_data st log)"

definition requires_id :: "data_streamer \<Rightarrow> bool" where
  "requires_id st = (st_format st \<noteq> ''individual'')"

definition requires_signing :: "data_streamer \<Rightarrow> bool" where
  "requires_signing st = (st_format st \<in> {''signedlist_userkey'', ''signedlist_devicekey''})"

section \<open>Reports\<close>

record streamer_report =
  sr_report :: any_report
  sr_num_readings :: int
  sr_highest_id :: int

text \<open>The loop of a list report: at most \<open>n\<close> more readings are popped.\<close>

fun collect_readings ::
  "nat \<Rightarrow> nat \<Rightarrow> reading list \<Rightarrow> int \<Rightarrow> sensor_log \<Rightarrow> (reading list \<times> int, sensor_log) act" where
  "collect_readings 0 wid readings highest log = (Inr (readings, highest), log)"
| "collect_readings (Suc n) wid readings highest log =
     (case log_pop wid log of
        (Inl err, log1) \<Rightarrow>
          if err = StreamEmptyError \<and> readings \<noteq> [] then (Inr (readings, highest), log1)
          else (Inl err, log1)
      | (Inr r, log1) \<Rightarrow>
          collect_readings n wid (readings @ [r])
            (if reading_id r > highest then reading_id r else highest) log1)"

definition streamer_result :: "any_report res \<Rightarrow> int \<Rightarrow> int \<Rightarrow> streamer_report res" where
  "streamer_result rep n highest =
     map_sum id (\<lambda>r. \<lparr>sr_report = r, sr_num_readings = n, sr_highest_id = highest\<rparr>) rep"

text \<open>The branch of the format \<open>individual\<close>; a synchronous streamer gets to the final \<open>raise\<close>.\<close>

definition build_individual ::
  "datetime \<Rightarrow> int \<Rightarrow> int \<Rightarrow> string \<Rightarrow> nat \<Rightarrow> sensor_log \<Rightarrow> (streamer_report, sensor_log) act" where
  "build_individual now device_id uptime rtype wid log =
     (case log_pop wid log of
        (Inl err, log1) \<Rightarrow> (Inl err, log1)
      | (Inr r, log1) \<Rightarrow>
          (if rtype = ''telegram'' then
             (streamer_result (map_sum id Individual (individual_from_readings now device_id [r])) 1 (reading_id r), log1)
           else if rtype = ''broadcast'' then
             (streamer_result (map_sum id Broadcast (broadcast_from_readings now device_id [r] uptime)) 1 (reading_id r), log1)
           else (Inl InternalError, log1)))"

text \<open>
  The branch of the format \<open>hashedlist\<close>.  \<open>aes_ctr\<close>, \<open>auth\<close> and \<open>now\<close> are those of the report classes;
  the report is signed with a hash only.
\<close>

definition build_hashed_list ::
  "(byte list \<Rightarrow> byte list \<Rightarrow> byte list) \<Rightarrow> signer \<Rightarrow> datetime \<Rightarrow> int \<Rightarrow> int option \<Rightarrow> int \<Rightarrow> int \<Rightarrow> int
   \<Rightarrow> selector \<Rightarrow> nat \<Rightarrow> sensor_log \<Rightarrow> (streamer_report, sensor_log) act" where
  "build_hashed_list aes_ctr auth now device_id max_size uptime rid index sel wid log =
     (case max_size of
        None \<Rightarrow> (Inl PyTypeError, log)
      | Some limit \<Rightarrow>
          let max_readings = (limit - 20 - 24) div 16 in
          if max_readings \<le> 0 then (Inl InternalError, log)
          else
            bind_act (collect_readings (nat max_readings) wid [] 0 log) (\<lambda>(readings, highest) log1.
              (bind_res (sel_encode sel) (\<lambda>code.
                 streamer_result
                   (map_sum id SignedList
                     (signed_list_from_readings aes_ctr auth None now device_id readings NoKey rid code index uptime))
                   (int (length readings)) highest), log1)))"

text \<open>\<open>has_auth_chain\<close> says whether an \<open>auth_chain\<close> was passed, which is not used otherwise.\<close>

definition build_report ::
  "(byte list \<Rightarrow> byte list \<Rightarrow> byte list) \<Rightarrow> signer \<Rightarrow> datetime \<Rightarrow> int \<Rightarrow> int option \<Rightarrow> int \<Rightarrow> int option \<Rightarrow> bool
   \<Rightarrow> data_streamer \<Rightarrow> sensor_log \<Rightarrow> (streamer_report, sensor_log) act" where
  "build_report aes_ctr auth now device_id max_size uptime rid has_auth_chain st log =
     (case (st_walker st, st_index st) of
        (Some wid, Some index) \<Rightarrow>
          if requires_signing st \<and> \<not> has_auth_chain then (Inl ArgumentError, log)
          else if requires_id st \<and> rid = None then (Inl ArgumentError, log)
          else if st_format st = ''individual'' then
            build_individual now device_id uptime (st_report_type st) wid log
          else if st_format st = ''hashedlist'' then
            build_hashed_list aes_ctr auth now device_id max_size uptime (the rid) index (st_selector st) wid log
          else (Inl InternalError, log)
      | _ \<Rightarrow> (Inl InternalError, log))"

definition streamer_str :: "data_streamer \<Rightarrow> string res" where
  "streamer_str st =
     (let manual = (if st_automatic st then '''' else ''manual '');
          type_string = (if st_report_type st = ''broadcast'' then ''broadcast ''
                         else if st_format st = ''individual'' then ''realtime '' else '''');
          security = (if st_format st = ''signedlist_userkey'' then ''signed '' else '''');
          to_slot = (if controller (st_dest st) then '''' else '' to '' @ slot_str (st_dest st));
          with_statement = (case st_with_other st of None \<Rightarrow> '''' | Some i \<Rightarrow> '' with streamer '' @ py_str_int i)
      in bind_res (sel_str (st_selector st)) (\<lambda>sel.
           Inr (manual @ security @ type_string @ ''streamer on '' @ sel @ to_slot @ with_statement)))"

text \<open>\<open>__eq__\<close>: the format is not compared.\<close>

definition streamer_eq :: "data_streamer \<Rightarrow> data_streamer \<Rightarrow> bool" where
  "streamer_eq a b =
     (st_selector a = st_selector b \<and> st_dest a = st_dest b \<and> st_automatic a = st_automatic b \<and>
      st_report_type a = st_report_type b \<and> st_with_other a = st_with_other b)"

section \<open>Lists of readings\<close>

lemma collect_take:
  assumes "log_readable wid log" "acc \<noteq> [] \<or> log_contents wid log \<noteq> []"
  shows "\<exists>log'. collect_readings n wid acc h log =
      (Inr (acc @ take n (log_contents wid log), fold max (map reading_id (take n (log_contents wid log))) h), log') \<and>
    log_contents wid log' = drop n (log_contents wid log) \<and> log_readable wid log' \<and>
    sl_engine log' = sl_engine log \<and> (\<forall>wid'. wid' \<noteq> wid \<longrightarrow> sl_walkers log' wid' = sl_walkers log wid')"
  using assms
proof (induction n arbitrary: acc h log)
  case (Suc n)
  show ?case
  proof (cases "log_contents wid log")
    case Nil
    then show ?thesis using Suc.prems log_reader.pop_empty [OF Suc.prems(1) Nil] by simp
  next
    case (Cons r rs)
    then obtain log1 where pop: "log_pop wid log = (Inr r, log1)" "log_contents wid log1 = rs" "log_readable wid log1"
      using log_reader.pop_next [OF Suc.prems(1)] by blast
    have frame: "sl_engine log1 = sl_engine log" "\<forall>wid'. wid' \<noteq> wid \<longrightarrow> sl_walkers log1 wid' = sl_walkers log wid'"
      using arg_cong [OF pop(1), of snd] by (auto simp: log_pop_def on_walker_frame)
    have "(if reading_id r > h then reading_id r else h) = max (reading_id r) h" by simp
    with Suc.IH [of log1 "acc @ [r]" "max (reading_id r) h"] pop frame Cons show ?thesis by simp
  qed
qed simp

lemma collect_empty:
  assumes "log_readable wid log" "log_contents wid log = []" "0 < n"
  shows "collect_readings n wid [] h log = (Inl StreamEmptyError, log)"
  using assms log_reader.pop_empty by (cases n) simp_all

lemma sel_encode_range:
  assumes "sel_encodable s"
  shows "\<exists>code. sel_encode s = Inr code \<and> 0 \<le> code \<and> code < 256 ^ 2"
proof -
  have "0 \<le> match_type s" "match_type s < 8" "case match_id s of None \<Rightarrow> True | Some i \<Rightarrow> 0 \<le> i \<and> i < 2047"
    using assms by (auto simp: sel_encodable_def MatchAllCode_def split: option.splits)
  then show ?thesis
    using sel_encode_arith [OF assms] by (auto simp: sel_header_def split: option.splits)
qed

text \<open>A streamer that can make list reports of at most \<open>limit\<close> bytes.\<close>

definition list_streamer :: "int \<Rightarrow> data_streamer \<Rightarrow> bool" where
  "list_streamer limit st \<longleftrightarrow> st_format st = ''hashedlist'' \<and> sel_encodable (st_selector st) \<and>
     (\<exists>i. st_index st = Some i \<and> 0 \<le> i \<and> i < 256) \<and> st_walker st \<noteq> None \<and> 60 \<le> limit \<and> limit < 2 ^ 24"

definition per_report :: "int \<Rightarrow> nat" where
  "per_report limit = nat ((limit - 44) div 16)"

lemma per_report_pos: "60 \<le> limit \<Longrightarrow> 0 < per_report limit"
  by (simp add: per_report_def)

lemma per_report_fits: "60 \<le> limit \<Longrightarrow> 44 + 16 * int (per_report limit) \<le> limit"
  by (simp add: per_report_def) linarith

lemma build_list_report:
  assumes st: "list_streamer limit st" "st_walker st = Some wid"
    and log: "log_readable wid log" "log_contents wid log \<noteq> []" "list_all packable (log_contents wid log)"
    and range: "0 \<le> dev" "dev < 256 ^ 4" "0 \<le> uptime" "uptime < 256 ^ 4" "0 \<le> rid" "rid < 256 ^ 4"
  shows "\<exists>rep log'. build_report aes auth now dev (Some limit) uptime (Some rid) chain st log =
      (Inr \<lparr>sr_report = SignedList rep, sr_num_readings = int (min (length (log_contents wid log)) (per_report limit)),
        sr_highest_id = fold max (map reading_id (take (per_report limit) (log_contents wid log))) 0\<rparr>, log') \<and>
    (\<exists>code i. signed_list_from_readings aes auth None now dev (take (per_report limit) (log_contents wid log)) NoKey rid code i uptime = Inr rep) \<and>
    verified rep \<and> report_id rep = rid \<and>
    visible_readings rep = map (received (now - seconds uptime)) (take (per_report limit) (log_contents wid log)) \<and>
    int (length (raw_report rep)) \<le> limit \<and>
    log_contents wid log' = drop (per_report limit) (log_contents wid log) \<and> log_readable wid log' \<and>
    sl_engine log' = sl_engine log \<and> (\<forall>wid'. wid' \<noteq> wid \<longrightarrow> sl_walkers log' wid' = sl_walkers log wid')"
proof -
  let ?k = "per_report limit"
  let ?rs = "take ?k (log_contents wid log)"
  obtain i where i: "st_index st = Some i" "0 \<le> i" "i < 256" "60 \<le> limit" "limit < 2 ^ 24"
    and fmt: "st_format st = ''hashedlist''" and sel: "sel_encodable (st_selector st)"
    using st(1) by (auto simp: list_streamer_def)
  obtain code where code: "sel_encode (st_selector st) = Inr code" "0 \<le> code" "code < 256 ^ 2"
    using sel_encode_range [OF sel] by auto
  have k: "44 + 16 * int ?k \<le> limit" "0 < ?k" using per_report_fits per_report_pos i(4) by auto
  have n: "20 + 16 * int (length ?rs) + 24 \<le> limit" using k(1) by (simp add: min_def)
  obtain log' where col: "collect_readings ?k wid [] 0 log = (Inr (?rs, fold max (map reading_id ?rs) 0), log')"
    and log': "log_contents wid log' = drop ?k (log_contents wid log)" "log_readable wid log'"
      "sl_engine log' = sl_engine log" "\<forall>wid'. wid' \<noteq> wid \<longrightarrow> sl_walkers log' wid' = sl_walkers log wid'"
    using collect_take [OF log(1), of "[]" ?k 0] log(2) by auto
  have "list_all packable ?rs" using log(3) by (auto simp: list_all_iff dest: in_set_takeD)
  moreover have "20 + 16 * int (length ?rs) + 24 < 2 ^ 24" using n i(5) by linarith
  ultimately obtain rep where rep: "signed_list_from_readings aes auth None now dev ?rs NoKey rid code i uptime = Inr rep"
    "verified rep" "report_id rep = rid" "visible_readings rep = map (received (now - seconds uptime)) ?rs"
    "int (length (raw_report rep)) = 20 + 16 * int (length ?rs) + 24"
    using signed_list_unkeyed [of ?rs dev rid uptime i code aes auth None now] range i code by blast
  have len: "int (length (raw_report rep)) \<le> limit" using n rep(5) by simp
  have "\<not> (limit - 44) div 16 \<le> 0" using k(2) by (simp add: per_report_def)
  then have "build_report aes auth now dev (Some limit) uptime (Some rid) chain st log =
      (Inr \<lparr>sr_report = SignedList rep, sr_num_readings = int (length ?rs),
        sr_highest_id = fold max (map reading_id ?rs) 0\<rparr>, log')"
    using st(2) i(1,4) fmt col code(1) rep(1) k(2)
    by (simp add: build_report_def requires_signing_def build_hashed_list_def streamer_result_def Let_def
        per_report_def [symmetric])
  then show ?thesis using rep len log' by (simp add: min.commute) blast
qed

section \<open>Properties\<close>

text \<open>
  C28: list reports.  A list streamer with a readable walker, given a report id and at least 60 bytes, builds a
  report of the readings that are next, as many as fit and no more: the report is verified, carries the id,
  shows these readings in order and is not longer than allowed; the number of readings and the highest id are
  returned with it; the walker is left with exactly the other readings and no other walker is touched.  With
  nothing to read it raises \<open>StreamEmptyError\<close>.
\<close>

theorem list_report_takes:
  assumes "list_streamer limit st" "st_walker st = Some wid" "log_readable wid log"
    "list_all packable (log_contents wid log)"
    "0 \<le> dev" "dev < 256 ^ 4" "0 \<le> uptime" "uptime < 256 ^ 4" "0 \<le> rid" "rid < 256 ^ 4"
  shows "if log_contents wid log = []
    then build_report aes auth now dev (Some limit) uptime (Some rid) chain st log = (Inl StreamEmptyError, log)
    else \<exists>rep n highest log'. build_report aes auth now dev (Some limit) uptime (Some rid) chain st log =
        (Inr \<lparr>sr_report = SignedList rep, sr_num_readings = int n, sr_highest_id = highest\<rparr>, log') \<and>
      n = min (length (log_contents wid log)) (nat ((limit - 44) div 16)) \<and>
      highest = Max (insert 0 (reading_id ` set (take n (log_contents wid log)))) \<and>
      verified rep \<and> report_id rep = rid \<and> int (length (raw_report rep)) \<le> limit \<and>
      list_all2 reading_eq (visible_readings rep) (take n (log_contents wid log)) \<and>
      log_contents wid log' = drop n (log_contents wid log) \<and> log_readable wid log' \<and>
      (\<forall>wid'. wid' \<noteq> wid \<longrightarrow> log_contents wid' log' = log_contents wid' log)"
proof (cases "log_contents wid log = []")
  case True
  have "60 \<le> limit" "\<exists>i. st_index st = Some i" "st_format st = ''hashedlist''" using assms(1) by (auto simp: list_streamer_def)
  then show ?thesis
    using True assms(2) collect_empty [OF assms(3) True, of "nat ((limit - 44) div 16)" 0] per_report_pos [of limit]
    by (auto simp: build_report_def requires_signing_def build_hashed_list_def Let_def per_report_def)
next
  case False
  let ?rs = "log_contents wid log" and ?k = "per_report limit"
  obtain rep log' where rep: "build_report aes auth now dev (Some limit) uptime (Some rid) chain st log =
      (Inr \<lparr>sr_report = SignedList rep, sr_num_readings = int (min (length ?rs) ?k),
        sr_highest_id = fold max (map reading_id (take ?k ?rs)) 0\<rparr>, log')"
    "verified rep" "report_id rep = rid" "visible_readings rep = map (received (now - seconds uptime)) (take ?k ?rs)"
    "int (length (raw_report rep)) \<le> limit" "log_contents wid log' = drop ?k ?rs" "log_readable wid log'"
    "sl_engine log' = sl_engine log" "\<forall>wid'. wid' \<noteq> wid \<longrightarrow> sl_walkers log' wid' = sl_walkers log wid'"
    using build_list_report [OF assms(1-3) False assms(4-10)] by blast
  have n: "take (min (length ?rs) ?k) ?rs = take ?k ?rs" "drop (min (length ?rs) ?k) ?rs = drop ?k ?rs"
    by (simp_all add: min_def)
  have "fold max (map reading_id (take ?k ?rs)) 0 = Max (insert 0 (reading_id ` set (take ?k ?rs)))"
    using Max.set_eq_fold [of 0 "map reading_id (take ?k ?rs)"] by simp
  moreover have "list_all2 reading_eq (visible_readings rep) (take ?k ?rs)"
    unfolding rep(4) list_all2_map1 by (rule list_all2_refl) (rule received_eq)
  moreover have "log_contents wid' log' = log_contents wid' log" if "wid' \<noteq> wid" for wid'
    using rep(8,9) that by (simp add: log_contents_def)
  ultimately show ?thesis
    using False rep(1-3,5-7) n unfolding per_report_def [symmetric] by auto
qed

definition sample_streamer :: data_streamer where
  "sample_streamer = \<lparr>st_selector = \<lparr>match_type = 0, match_id = Some 1, match_spec = 3\<rparr>,
     st_dest = \<lparr>controller = True, slot = None\<rparr>, st_format = ''hashedlist'', st_automatic = True,
     st_report_type = ''telegram'', st_with_other = None, st_walker = Some 0, st_index = Some 0\<rparr>"

lemma sample_list_streamer: "60 \<le> limit \<Longrightarrow> limit < 2 ^ 24 \<Longrightarrow> list_streamer limit sample_streamer"
  by (simp add: list_streamer_def sample_streamer_def sel_encodable_def ValidSpecifiers_def MatchAllCode_def)

lemma full_log_contents:
  "log_contents 0 (full_log b) = [sample_reading 1 10 1, sample_reading 1 20 2, sample_reading 1 30 3]"
  by (simp add: full_log_fields log_contents_def) (simp add: sample_defs)

lemma full_log_readable: "log_readable 0 (full_log b)"
  by (simp add: log_readable_def full_log_fields) (simp add: sample_defs)

lemma full_log_packable: "list_all packable (log_contents 0 (full_log b))"
  by (simp add: full_log_contents) (simp add: packable_def sample_defs)

theorem list_report_takes_witness:
  "\<exists>rep log'. build_report toy_cipher (\<lambda>kt dev rid sent. Inl NotFoundError) 0 5 (Some 80) 20 (Some 9) False sample_streamer
       (full_log False) = (Inr \<lparr>sr_report = SignedList rep, sr_num_readings = 2, sr_highest_id = 2\<rparr>, log') \<and>
     log_contents 0 log' = [sample_reading 1 30 3]"
  using list_report_takes [of 80 sample_streamer 0 "full_log False" 5 20 9 toy_cipher "\<lambda>kt dev rid sent. Inl NotFoundError" 0 False]
    sample_list_streamer [of 80] full_log_readable [of False] full_log_packable [of False]
  by (auto simp: full_log_contents sample_streamer_def) (auto simp: sample_reading_def new_reading_def)

text \<open>
  What a refused report costs.  The type \<open>synchronous\<close> is among the known types, but building an individual
  report of this type raises \<open>InternalError\<close> after the next reading was taken from the walker, so this reading is
  lost; a streamer with a signed format raises the same error and loses nothing.
\<close>

theorem refused_report_loses:
  assumes "st_walker st = Some wid" "st_index st = Some i" "log_readable wid log" "log_contents wid log = r # rs"
    "chain" "rid \<noteq> None"
  shows "(st_format st = ''individual'' \<and> st_report_type st = ''synchronous'' \<longrightarrow>
      (\<exists>log'. build_report aes auth now dev limit uptime rid chain st log = (Inl InternalError, log') \<and>
        log_contents wid log' = rs)) \<and>
    (requires_signing st \<longrightarrow> build_report aes auth now dev limit uptime rid chain st log = (Inl InternalError, log))"
proof -
  obtain log' where "log_pop wid log = (Inr r, log')" "log_contents wid log' = rs"
    using log_reader.pop_next [OF assms(3,4)] by blast
  then show ?thesis using assms(1,2,5,6)
    by (auto simp: build_report_def requires_signing_def requires_id_def build_individual_def)
qed

theorem refused_report_loses_witness:
  "\<exists>log'. build_report toy_cipher (\<lambda>kt dev rid sent. Inl NotFoundError) 0 5 None 20 (Some 9) True
      (sample_streamer\<lparr>st_format := ''individual'', st_report_type := ''synchronous''\<rparr>) (full_log False) =
      (Inl InternalError, log') \<and> log_contents 0 log' = [sample_reading 1 20 2, sample_reading 1 30 3]"
  using refused_report_loses [of "sample_streamer\<lparr>st_format := ''individual'', st_report_type := ''synchronous''\<rparr>" 0 0
      "full_log False" "sample_reading 1 10 1" "[sample_reading 1 20 2, sample_reading 1 30 3]" True "Some 9"
      toy_cipher "\<lambda>kt dev rid sent. Inl NotFoundError" 0 5 None 20] full_log_readable [of False]
  by (simp add: full_log_contents sample_streamer_def)

end
