(* ===== verification/Streamer_Descriptor.thy ===== *)
theory Streamer_Descriptor
  imports Streamers
begin

text \<open>
  Streamer descriptors (\<open>iotile/sg/streamer_descriptor.py\<close>): the 14 bytes that describe a streamer to a
  device, and the text of a streamer.  The \<open>pyparsing\<close> statement parser is a parameter; what the code takes
  from its result is a record.
\<close>

section \<open>The binary form\<close>

text \<open>The format \<open><8sHBBBx\<close>; the arguments of the constructor that the bytes encode.\<close>

definition streamer_fields ::
  "byte list \<Rightarrow> (selector \<times> slot_identifier \<times> string \<times> bool \<times> string \<times> int option) res" where
  "streamer_fields bindata =
     (if length bindata \<noteq> 14 then Inl ArgumentError
      else case unpack_fields [2, 1, 1, 1, 1] (drop 8 bindata) of
        [sid, trig, format_code, type_code, pad] \<Rightarrow>
          bind_res (slot_of_encoded (take 8 bindata)) (\<lambda>dest_id.
          bind_res (sel_of_encoded sid) (\<lambda>sel.
            case KnownFormatCodes format_code of
              None \<Rightarrow> Inl ArgumentError
            | Some format_name \<Rightarrow>
                (case KnownTypeCodes type_code of
                   None \<Rightarrow> Inl ArgumentError
                 | Some type_name \<Rightarrow>
                     if trig AND push_bit 7 1 \<noteq> 0
                     then Inr (sel, dest_id, format_name, False, type_name, Some (trig AND (push_bit 7 1 - 1)))
                     else if trig = 0 then Inr (sel, dest_id, format_name, False, type_name, None)
                     else if trig = 1 then Inr (sel, dest_id, format_name, True, type_name, None)
                     else Inl ArgumentError)))
      | _ \<Rightarrow> Inl StructError)"

text \<open>\<open>parse_binary_descriptor\<close> without a sensor log, and with one to link the streamer to.\<close>

definition parse_streamer_binary :: "byte list \<Rightarrow> data_streamer res" where
  "parse_streamer_binary bindata =
     bind_res (streamer_fields bindata) (\<lambda>(sel, dest, fmt, auto, rtype, other). new_streamer sel dest fmt auto rtype other)"

definition parse_linked_streamer :: "byte list \<Rightarrow> sensor_log \<Rightarrow> (data_streamer, sensor_log) act" where
  "parse_linked_streamer bindata log =
     (case streamer_fields bindata of
        Inl err \<Rightarrow> (Inl err, log)
      | Inr (sel, dest, fmt, auto, rtype, other) \<Rightarrow> new_linked_streamer sel dest fmt auto rtype other log)"

definition create_streamer_binary :: "data_streamer \<Rightarrow> byte list res" where
  "create_streamer_binary st =
     (let trig = (if st_automatic st then 1
                  else case st_with_other st of None \<Rightarrow> 0 | Some i \<Rightarrow> push_bit 7 1 OR i)
      in bind_res (slot_encode (st_dest st)) (\<lambda>dest.
         bind_res (sel_encode (st_selector st)) (\<lambda>code.
           case KnownFormats (st_format st) of
             None \<Rightarrow> Inl KeyError
           | Some fmt \<Rightarrow>
               (case KnownTypes (st_report_type st) of
                  None \<Rightarrow> Inl KeyError
                | Some rtype \<Rightarrow>
                    bind_res (pack_fields [(2, code), (1, trig), (1, fmt), (1, rtype), (1, 0)]) (\<lambda>rest.
                      Inr (dest @ rest))))))"

section \<open>The text\<close>

text \<open>The named results of the streamer statement; the numbers, the tile and the selector are converted.\<close>

record streamer_tokens =
  tk_manual :: bool
  tk_security :: "string option"
  tk_realtime :: bool
  tk_broadcast :: bool
  tk_selector :: selector
  tk_tile :: "slot_identifier option"
  tk_with_other :: "int option"

type_synonym streamer_grammar = "string \<Rightarrow> streamer_tokens option"

definition parse_string_descriptor :: "streamer_grammar \<Rightarrow> string \<Rightarrow> data_streamer res" where
  "parse_string_descriptor grammar string_desc =
     (let desc = (if py_endswith string_desc '';'' then string_desc else string_desc @ '';'') in
      case grammar desc of
        None \<Rightarrow> Inl ParseException
      | Some parsed \<Rightarrow>
          let encrypted = (tk_security parsed = Some ''encrypted'');
              signd = (tk_security parsed = Some ''signed'');
              auto = (\<not> tk_manual parsed \<and> tk_with_other parsed = None)
          in bind_res (case tk_tile parsed of None \<Rightarrow> slot_of_string ''controller'' | Some t \<Rightarrow> Inr t) (\<lambda>dest.
             if (encrypted \<or> signd) \<and> (tk_realtime parsed \<or> tk_broadcast parsed) then Inl SensorGraphSemanticError
             else
               let report_type = (if tk_broadcast parsed then ''broadcast'' else ''telegram'') in
               if tk_realtime parsed \<or> tk_broadcast parsed
               then new_streamer (tk_selector parsed) dest ''individual'' auto report_type (tk_with_other parsed)
               else if signd
               then new_streamer (tk_selector parsed) dest ''signedlist_userkey'' auto report_type (tk_with_other parsed)
               else if encrypted then Inl SensorGraphSemanticError
               else new_streamer (tk_selector parsed) dest ''hashedlist'' auto report_type (tk_with_other parsed)))"

section \<open>Both directions\<close>

text \<open>The streamers that fit the fields; the number of another streamer is written in eight bits.\<close>

definition streamer_fits :: "data_streamer \<Rightarrow> bool" where
  "streamer_fits st \<longleftrightarrow>
     slot_ok (st_dest st) \<and> sel_encodable (st_selector st) \<and> KnownFormats (st_format st) \<noteq> None \<and>
     KnownTypes (st_report_type st) \<noteq> None \<and>
     (case st_with_other st of None \<Rightarrow> True | Some i \<Rightarrow> 0 \<le> i \<and> i < 256)"

lemma format_codes:
  "KnownFormats f = Some c \<Longrightarrow> KnownFormatCodes c = Some f \<and> 0 \<le> c \<and> c < 256"
  "KnownTypes t = Some k \<Longrightarrow> KnownTypeCodes k = Some t \<and> 0 \<le> k \<and> k < 256"
  by (auto simp: KnownFormats_def KnownFormatCodes_def KnownTypes_def KnownTypeCodes_def split: if_splits)

lemma high_bit_all: "list_all (\<lambda>i :: int. 128 OR i = 128 + i mod 128) [0..256 - 1]"
  by code_simp

definition trigger_code :: "data_streamer \<Rightarrow> int" where
  "trigger_code st = (if st_automatic st then 1
     else case st_with_other st of None \<Rightarrow> 0 | Some i \<Rightarrow> push_bit 7 1 OR i)"

lemma trigger_code_fits:
  assumes "streamer_fits st"
  shows "0 \<le> trigger_code st" "trigger_code st < 256"
    "trigger_code st = (if st_automatic st then 1 else case st_with_other st of None \<Rightarrow> 0 | Some i \<Rightarrow> 128 + i mod 128)"
proof -
  have or: "128 OR i = 128 + i mod 128" if "0 \<le> i" "i < 256" for i :: int
    using int_range_all [OF high_bit_all, of i] that by simp
  show "trigger_code st = (if st_automatic st then 1 else case st_with_other st of None \<Rightarrow> 0 | Some i \<Rightarrow> 128 + i mod 128)"
    using assms or by (auto simp: trigger_code_def streamer_fits_def split: option.splits)
  have "i mod 128 < 128" for i :: int by simp
  then have "128 + i mod 128 < 256" for i :: int by (smt (verit))
  with \<open>trigger_code st = _\<close> show "0 \<le> trigger_code st" "trigger_code st < 256"
    by (auto split: option.splits)
qed

lemma streamer_binary_roundtrip:
  assumes "streamer_fits st"
  shows "\<exists>b. create_streamer_binary st = Inr b \<and> length b = 14 \<and>
    parse_streamer_binary b = Inr (st\<lparr>st_walker := None, st_index := None,
      st_with_other := if st_automatic st then None else map_option (\<lambda>i. i mod 128) (st_with_other st)\<rparr>)"
proof -
  obtain dest where dest: "slot_encode (st_dest st) = Inr dest" "length dest = 8" "slot_of_encoded dest = Inr (st_dest st)"
    using assms slot_encode_total slot_encode_length slot_encode_inverse unfolding streamer_fits_def by metis
  obtain code where code: "sel_encode (st_selector st) = Inr code" "0 \<le> code" "code < 256 ^ 2"
      "sel_of_encoded code = Inr (st_selector st)"
    using assms sel_encode_range sel_decode_encode unfolding streamer_fits_def by metis
  obtain fmt rtype where names: "KnownFormats (st_format st) = Some fmt" "KnownTypes (st_report_type st) = Some rtype"
    using assms by (auto simp: streamer_fits_def)
  note codes = format_codes(1) [OF names(1)] format_codes(2) [OF names(2)]
  let ?fs = "[(2, code), (1, trigger_code st), (1, fmt), (1, rtype), (1, 0)] :: (nat \<times> int) list"
  obtain rest where rest: "pack_fields ?fs = Inr rest"
    using pack_fields_Inr_iff [of ?fs] code(2,3) codes trigger_code_fits [OF assms] by auto
  have created: "create_streamer_binary st = Inr (dest @ rest)"
    using dest code names rest by (simp add: create_streamer_binary_def trigger_code_def [symmetric] del: pack_fields.simps)
  have unpacked: "unpack_fields [2, 1, 1, 1, 1] rest = [code, trigger_code st, fmt, rtype, 0]" "length rest = 6"
    using unpack_pack_fields [OF rest, of "[]"] length_pack_fields [OF rest] by simp_all
  have "parse_streamer_binary (dest @ rest) = Inr (st\<lparr>st_walker := None, st_index := None,
      st_with_other := if st_automatic st then None else map_option (\<lambda>i. i mod 128) (st_with_other st)\<rparr>)"
  proof (cases st)
    have one: "(128 + a mod 128) div 128 = 1" for a :: int
      using div_add_self1 [of 128 "a mod 128"] by simp
    case (fields sel d f auto' t other w i)
    then show ?thesis
      using dest code codes names unpacked trigger_code_fits(3) [OF assms]
      by (cases auto'; cases other)
        (simp_all add: parse_streamer_binary_def streamer_fields_def new_streamer_def enc_simps one del: unpack_fields.simps)
  qed
  with created dest unpacked show ?thesis by auto
qed
section \<open>Properties\<close>

text \<open>
  Streamer descriptors.  A streamer whose parts fit is encoded in 14 bytes, and \<open>parse_binary_descriptor\<close>
  gives the streamer again, not linked and without an index, with two exceptions: an automatic streamer loses
  the number of the streamer it follows, and a number from 128 to 255 comes back reduced by 128.
\<close>

theorem streamer_descriptor_roundtrip:
  assumes "streamer_fits st"
  shows "\<exists>b. create_streamer_binary st = Inr b \<and> length b = 14 \<and>
    parse_streamer_binary b = Inr (st\<lparr>st_walker := None, st_index := None,
      st_with_other := if st_automatic st then None else map_option (\<lambda>i. i mod 128) (st_with_other st)\<rparr>)"
  using assms by (rule streamer_binary_roundtrip)

definition manual_streamer :: "int \<Rightarrow> data_streamer" where
  "manual_streamer i = \<lparr>st_selector = \<lparr>match_type = 5, match_id = None, match_spec = 4\<rparr>,
     st_dest = \<lparr>controller = True, slot = None\<rparr>, st_format = ''hashedlist'', st_automatic = False,
     st_report_type = ''telegram'', st_with_other = Some i, st_walker = None, st_index = None\<rparr>"

theorem streamer_descriptor_roundtrip_witness:
  "bind_res (create_streamer_binary (manual_streamer 3)) parse_streamer_binary = Inr (manual_streamer 3) \<and>
   bind_res (create_streamer_binary (manual_streamer 130)) parse_streamer_binary = Inr (manual_streamer 2)"
proof -
  have "streamer_fits (manual_streamer i)" if "0 \<le> i" "i < 256" for i
    using that by (simp add: streamer_fits_def manual_streamer_def slot_ok_def sel_encodable_def ValidSpecifiers_def
        KnownFormats_def KnownTypes_def)
  then show ?thesis
    using streamer_descriptor_roundtrip [of "manual_streamer 3"] streamer_descriptor_roundtrip [of "manual_streamer 130"]
    by (auto simp: manual_streamer_def)
qed

end
