(* ===== verification/Update_Records.thy ===== *)
theory Update_Records
  imports Node_Descriptor Streamer_Descriptor Rpc_Payload
begin

text \<open>
  The records of update scripts (\<open>iotile/core/hw/update/records\<close>, \<open>iotile/sg/update\<close>) and how a binary
  record finds its class (\<open>iotile/core/hw/update/record.py\<close>).
\<close>

section \<open>Records\<close>

text \<open>
  The records that are calls are kept with the call that they make: its address, number and payload, and the
  fixed size of the response.
\<close>

record rpc_call =
  rc_address :: int
  rc_rpc_id :: int
  rc_payload :: "byte list"
  rc_response :: "int option"

datatype update_record =
    ReflashTileRecord int "byte list" int int
  | SendRPCRecord rpc_call
  | SendErrorCheckingRPCRecord rpc_call
  | ReflashControllerRecord "byte list" int
  | EnhancedReflashControllerRecord "byte list" int int int int int "byte list" "byte list"
  | ResetDeviceRecord
  | SetDeviceTagRecord rpc_call "int option" string "int option" string
  | AddNodeRecord rpc_call string
  | AddStreamerRecord rpc_call data_streamer
  | SetConfigRecord slot_identifier int "byte list"
  | PersistGraphRecord rpc_call
  | ResetGraphRecord rpc_call
  | ClearDataRecord rpc_call
  | ClearConfigVariablesRecord rpc_call
  | SetGraphOnlineRecord rpc_call bool
  | SetConstantRecord rpc_call data_stream int
  | UnknownRecord int "byte list"

text \<open>The classes that can be registered.\<close>

datatype record_class =
    ReflashTile | SendRPC | SendErrorCheckingRPC | ReflashController | EnhancedReflash | ResetDevice | SetDeviceTag
  | AddNode | AddStreamer | SetConfig | PersistGraph | ResetGraph | ClearData | ClearConfigVariables
  | SetGraphOnline | SetConstant

fun record_type :: "record_class \<Rightarrow> int" where
  "record_type ReflashTile = 1"
| "record_type ReflashController = 2"
| "record_type SendRPC = 3"
| "record_type ResetDevice = 5"
| "record_type EnhancedReflash = 6"
| "record_type _ = 4"

text \<open>Calls that may not return: \<open>None\<close>.\<close>

definition bind_run :: "('e + 'a) option \<Rightarrow> ('a \<Rightarrow> ('e + 'b) option) \<Rightarrow> ('e + 'b) option" where
  "bind_run x f = (case x of None \<Rightarrow> None | Some (Inl e) \<Rightarrow> Some (Inl e) | Some (Inr a) \<Rightarrow> f a)"

lemma bind_run_simps [simp]:
  "bind_run None f = None"
  "bind_run (Some (Inl e)) f = Some (Inl e)"
  "bind_run (Some (Inr a)) f = f a"
  by (simp_all add: bind_run_def)

section \<open>Reflashing\<close>

definition create_target :: "int \<Rightarrow> byte list res" where
  "create_target slot_number = pack_fields [(1, slot_number), (6, 0), (1, 1)]"

definition parse_target :: "byte list \<Rightarrow> (bool \<times> int) res" where
  "parse_target target =
     (if length target \<noteq> 8 then Inl ArgumentError
      else case unpack_fields [1, 6, 1] target of
        [slot_number, pad, match_op] \<Rightarrow>
          if match_op = 2 then Inr (True, 0)
          else if match_op = 1 then Inr (False, slot_number)
          else Inl ArgumentError
      | _ \<Rightarrow> Inl StructError)"

definition reflash_tile_contents :: "int \<Rightarrow> byte list \<Rightarrow> int \<Rightarrow> int \<Rightarrow> byte list res" where
  "reflash_tile_contents slot_number raw_data offset hardware_type =
     bind_res (create_target slot_number) (\<lambda>target.
     bind_res (pack_fields [(4, offset), (4, int (length raw_data))]) (\<lambda>b.
     bind_res (pack_fields [(1, hardware_type), (3, 0)]) (\<lambda>c. Inr (b @ target @ c @ raw_data))))"

definition reflash_tile_from_binary :: "byte list \<Rightarrow> update_record res" where
  "reflash_tile_from_binary d =
     (if length d < 20 then Inl ArgumentError
      else case unpack_fields [4, 4, 8, 1, 3] d of
        [offset, data_length, raw_target, hardware_type, pad] \<Rightarrow>
          let bindata = drop 20 d in
          if int (length bindata) \<noteq> data_length then Inl ArgumentError
          else bind_res (parse_target (take 8 (drop 8 d))) (\<lambda>(to_controller, slot_number).
            if to_controller then Inl ArgumentError
            else Inr (ReflashTileRecord slot_number bindata offset hardware_type))
      | _ \<Rightarrow> Inl StructError)"

definition reflash_controller_contents :: "byte list \<Rightarrow> int \<Rightarrow> byte list res" where
  "reflash_controller_contents raw_data offset =
     bind_res (pack_fields [(4, offset), (4, int (length raw_data))]) (\<lambda>b. Inr (b @ raw_data))"

definition reflash_controller_from_binary :: "byte list \<Rightarrow> update_record res" where
  "reflash_controller_from_binary d =
     (if length d < 8 then Inl ArgumentError
      else case unpack_fields [4, 4] d of
        [offset, data_length] \<Rightarrow>
          let bindata = drop 8 d in
          if int (length bindata) \<noteq> data_length then Inl ArgumentError
          else Inr (ReflashControllerRecord bindata offset)
      | _ \<Rightarrow> Inl StructError)"

text \<open>The format \<open><LLLBBBB16s64s\<close>; byte strings are cut or filled to their width.\<close>

definition enhanced_contents ::
  "byte list \<Rightarrow> int \<Rightarrow> int \<Rightarrow> int \<Rightarrow> int \<Rightarrow> int \<Rightarrow> byte list \<Rightarrow> byte list \<Rightarrow> byte list res" where
  "enhanced_contents raw_data base_address image_type flags compression_type settings_length settings checks =
     bind_res (pack_fields [(4, base_address), (4, int (length raw_data)), (4, int (length raw_data)),
         (1, image_type), (1, flags), (1, compression_type), (1, settings_length)]) (\<lambda>b.
       Inr (b @ fill_chars 16 settings @ fill_chars 64 checks @ raw_data))"

definition enhanced_from_binary :: "byte list \<Rightarrow> update_record res" where
  "enhanced_from_binary d =
     (if length d < 96 then Inl ArgumentError
      else case unpack_fields [4, 4, 4, 1, 1, 1, 1] d of
        [base_address, encoded_length, total_length, image_type, flags, compression_type, settings_length] \<Rightarrow>
          let bindata = drop 96 d in
          if int (length bindata) \<noteq> total_length then Inl ArgumentError
          else Inr (EnhancedReflashControllerRecord bindata base_address image_type flags compression_type settings_length
                 (take 16 (drop 16 d)) (take 64 (drop 32 d)))
      | _ \<Rightarrow> Inl StructError)"

definition reset_device_from_binary :: "byte list \<Rightarrow> update_record res" where
  "reset_device_from_binary d = (if length d \<noteq> 0 then Inl ArgumentError else Inr ResetDeviceRecord)"

section \<open>Calls\<close>

text \<open>The payload \<open>None\<close> of the constructor is the empty list here.\<close>

definition new_call :: "int \<Rightarrow> int \<Rightarrow> byte list \<Rightarrow> int option \<Rightarrow> rpc_call res" where
  "new_call address rpc_id payload response_size =
     (if (case response_size of None \<Rightarrow> False | Some n \<Rightarrow> n \<ge> push_bit 7 1) then Inl ArgumentError
      else Inr \<lparr>rc_address = address, rc_rpc_id = rpc_id, rc_payload = payload, rc_response = response_size\<rparr>)"

definition new_checked_call :: "int \<Rightarrow> int \<Rightarrow> byte list \<Rightarrow> int option \<Rightarrow> rpc_call res" where
  "new_checked_call address rpc_id payload response_size =
     (if response_size \<noteq> Some 4 then Inl ArgumentError else new_call address rpc_id payload response_size)"

definition call_contents :: "rpc_call \<Rightarrow> byte list res" where
  "call_contents c =
     (let resp_length = (case rc_response c of None \<Rightarrow> 1 | Some n \<Rightarrow> push_bit 1 n) in
      bind_res (pack_fields [(2, rc_rpc_id c), (1, rc_address c), (1, resp_length)]) (\<lambda>b. Inr (b @ rc_payload c)))"

record rpc_info =
  ri_command :: int
  ri_address :: int
  ri_response_size :: int
  ri_payload :: "byte list"

definition parse_rpc_info :: "byte list \<Rightarrow> rpc_info res" where
  "parse_rpc_info d =
     (if length d < 4 then Inl ArgumentError
      else case unpack_fields [2, 1, 1] d of
        [cmd, address, resp_length] \<Rightarrow>
          Inr \<lparr>ri_command = cmd, ri_address = address, ri_response_size = resp_length, ri_payload = drop 4 d\<rparr>
      | _ \<Rightarrow> Inl StructError)"

text \<open>\<open>FromBinary\<close> of the two general classes, up to the constructor.\<close>

definition call_from_binary :: "(int \<Rightarrow> int \<Rightarrow> byte list \<Rightarrow> int option \<Rightarrow> rpc_call res) \<Rightarrow> byte list \<Rightarrow> rpc_call res" where
  "call_from_binary cls d =
     bind_res (parse_rpc_info d) (\<lambda>i.
       let fixed_length = (if ri_response_size i AND 1 \<noteq> 0 then None else Some (drop_bit 1 (ri_response_size i)))
       in cls (ri_address i) (ri_command i) (ri_payload i) fixed_length)"

text \<open>
  \<open>parse_multiple_rpcs\<close>.  A record of length zero is not cut off the data, so the loop need not end.
\<close>

partial_function (option) parse_multiple_rpcs :: "byte list \<Rightarrow> rpc_info list \<Rightarrow> rpc_info list res option" where
  "parse_multiple_rpcs d rpcs =
     (if d = [] then Some (Inr rpcs)
      else if length d < 8 then Some (Inl StructError)
      else if le_int (take 1 (drop 4 d)) \<noteq> 4 then Some (Inl ArgumentError)
      else case parse_rpc_info (drop 8 (take (nat (le_int (take 4 d))) d)) of
        Inl e \<Rightarrow> Some (Inl e)
      | Inr i \<Rightarrow> parse_multiple_rpcs (drop (nat (le_int (take 4 d))) d) (rpcs @ [i]))"

section \<open>Device tags\<close>

text \<open>The number and the \<open>X.Y\<close> version of an app or os.\<close>

definition parse_info :: "int \<Rightarrow> int \<times> string" where
  "parse_info combined_info =
     (let tag = combined_info AND (push_bit 20 1 - 1);
          major = drop_bit 26 combined_info AND (push_bit 6 1 - 1);
          minor = drop_bit 20 combined_info AND (push_bit 6 1 - 1)
      in (tag, py_str_int major @ ''.'' @ py_str_int minor))"

text \<open>\<open>version.partition('.')\<close>, without the separator.\<close>

definition partition_dot :: "string \<Rightarrow> string \<times> string" where
  "partition_dot s = (takeWhile (\<lambda>c. c \<noteq> CHR ''.'') s, drop 1 (dropWhile (\<lambda>c. c \<noteq> CHR ''.'') s))"

definition combine_info :: "int option \<Rightarrow> string option \<Rightarrow> int res" where
  "combine_info tag0 version0 =
     (let version = (case version0 of None \<Rightarrow> ''0.0'' | Some v \<Rightarrow> v);
          tag = (case tag0 of None \<Rightarrow> 0 | Some t \<Rightarrow> t)
      in if tag \<ge> push_bit 20 1 then Inl ArgumentError
         else if CHR ''.'' \<notin> set version then Inl ArgumentError
         else case partition_dot version of (major_text, minor_text) \<Rightarrow>
           (case (py_int10 major_text, py_int10 minor_text) of
              (Some major, Some minor) \<Rightarrow>
                if major < 0 \<or> minor < 0 \<or> major \<ge> push_bit 6 1 \<or> minor \<ge> push_bit 6 1 then Inl ArgumentError
                else Inr (push_bit 20 (push_bit 6 major OR minor) OR tag)
            | _ \<Rightarrow> Inl ArgumentError))"

definition new_set_device_tag :: "int option \<Rightarrow> string option \<Rightarrow> int option \<Rightarrow> string option \<Rightarrow> update_record res" where
  "new_set_device_tag app_tag app_version0 os_tag os_version0 =
     (let update_app = (if app_tag \<noteq> None then 1 else 0);
          update_os = (if os_tag \<noteq> None then 1 else 0);
          app_version = (case app_version0 of None \<Rightarrow> ''0.0'' | Some v \<Rightarrow> v);
          os_version = (case os_version0 of None \<Rightarrow> ''0.0'' | Some v \<Rightarrow> v)
      in bind_res (combine_info app_tag (Some app_version)) (\<lambda>app_info.
         bind_res (combine_info os_tag (Some os_version)) (\<lambda>os_info.
         bind_res (pack_fields [(4, os_info), (4, app_info), (1, update_os), (1, update_app)]) (\<lambda>payload.
         bind_res (new_checked_call 8 0x100B payload (Some 4)) (\<lambda>c.
           Inr (SetDeviceTagRecord c app_tag app_version os_tag os_version))))))"

definition device_tag_from_binary :: "byte list \<Rightarrow> update_record res" where
  "device_tag_from_binary d =
     bind_res (parse_rpc_info d) (\<lambda>i.
     bind_res (unpack_exact [4, 4, 1, 1] (ri_payload i)) (\<lambda>fs.
       case fs of
         [os_info, app_info, update_os, update_app] \<Rightarrow>
           let os = parse_info os_info; app = parse_info app_info in
           if update_app \<noteq> 0 \<and> update_os = 0 then new_set_device_tag (Some (fst app)) (Some (snd app)) None None
           else if update_os \<noteq> 0 \<and> update_app = 0 then new_set_device_tag None None (Some (fst os)) (Some (snd os))
           else if update_os \<noteq> 0 \<and> update_app \<noteq> 0
           then new_set_device_tag (Some (fst app)) (Some (snd app)) (Some (fst os)) (Some (snd os))
           else Inl ArgumentError
       | _ \<Rightarrow> Inl StructError))"

section \<open>Sensor graph records\<close>

definition new_add_node :: "node_grammar \<Rightarrow> string \<Rightarrow> int \<Rightarrow> update_record res" where
  "new_add_node grammar descriptor address =
     bind_res (create_node_descriptor grammar descriptor) (\<lambda>payload.
     bind_res (new_checked_call address 0x2003 payload (Some 4)) (\<lambda>c. Inr (AddNodeRecord c descriptor)))"

definition add_node_from_binary :: "node_grammar \<Rightarrow> byte list \<Rightarrow> update_record res" where
  "add_node_from_binary grammar d =
     bind_res (parse_rpc_info d) (\<lambda>i.
     bind_res (parse_node_binary (ri_payload i)) (\<lambda>descriptor. new_add_node grammar descriptor (ri_address i)))"

definition new_add_streamer :: "data_streamer \<Rightarrow> int \<Rightarrow> update_record res" where
  "new_add_streamer descriptor address =
     bind_res (create_streamer_binary descriptor) (\<lambda>payload.
     bind_res (new_checked_call address 0x2007 payload (Some 4)) (\<lambda>c. Inr (AddStreamerRecord c descriptor)))"

definition add_streamer_from_binary :: "byte list \<Rightarrow> update_record res" where
  "add_streamer_from_binary d =
     bind_res (parse_rpc_info d) (\<lambda>i.
     bind_res (parse_streamer_binary (ri_payload i)) (\<lambda>descriptor. new_add_streamer descriptor (ri_address i)))"

definition new_set_constant :: "data_stream \<Rightarrow> int \<Rightarrow> int \<Rightarrow> update_record res" where
  "new_set_constant strm v address =
     bind_res (pack_fields [(4, v), (2, stream_encode strm)]) (\<lambda>payload.
     bind_res (new_checked_call address 0x2000 payload (Some 4)) (\<lambda>c. Inr (SetConstantRecord c strm v)))"

definition set_constant_from_binary :: "byte list \<Rightarrow> update_record res" where
  "set_constant_from_binary d =
     bind_res (parse_rpc_info d) (\<lambda>i.
     bind_res (unpack_exact [4, 2] (ri_payload i)) (\<lambda>fs.
       case fs of
         [v, encoded] \<Rightarrow> new_set_constant (stream_of_encoded encoded) v (ri_address i)
       | _ \<Rightarrow> Inl StructError))"

definition new_set_online :: "bool \<Rightarrow> int \<Rightarrow> update_record res" where
  "new_set_online online address =
     bind_res (pack_fields [(2, if online then 1 else 0)]) (\<lambda>payload.
     bind_res (new_checked_call address 0x2005 payload (Some 4)) (\<lambda>c. Inr (SetGraphOnlineRecord c online)))"

definition set_online_from_binary :: "byte list \<Rightarrow> update_record res" where
  "set_online_from_binary d =
     bind_res (parse_rpc_info d) (\<lambda>i.
     bind_res (unpack_exact [2] (ri_payload i)) (\<lambda>fs.
       case fs of [online] \<Rightarrow> new_set_online (online \<noteq> 0) (ri_address i) | _ \<Rightarrow> Inl StructError))"

definition new_reset_graph :: "int \<Rightarrow> update_record res" where
  "new_reset_graph address = bind_res (new_checked_call address 0x200D [] (Some 4)) (\<lambda>c. Inr (ResetGraphRecord c))"

definition reset_graph_from_binary :: "byte list \<Rightarrow> update_record res" where
  "reset_graph_from_binary d = bind_res (parse_rpc_info d) (\<lambda>i. new_reset_graph (ri_address i))"

definition new_persist_graph :: "int \<Rightarrow> update_record res" where
  "new_persist_graph address = bind_res (new_checked_call address 0x200E [] (Some 4)) (\<lambda>c. Inr (PersistGraphRecord c))"

definition persist_graph_from_binary :: "byte list \<Rightarrow> update_record res" where
  "persist_graph_from_binary d = bind_res (parse_rpc_info d) (\<lambda>i. new_persist_graph (ri_address i))"

definition new_clear_data :: "int \<Rightarrow> update_record res" where
  "new_clear_data address = bind_res (new_checked_call address 0x200C [] (Some 4)) (\<lambda>c. Inr (ClearDataRecord c))"

definition clear_data_from_binary :: "byte list \<Rightarrow> update_record res" where
  "clear_data_from_binary d = bind_res (parse_rpc_info d) (\<lambda>i. new_clear_data (ri_address i))"

definition new_clear_configs :: "update_record res" where
  "new_clear_configs = bind_res (new_checked_call 8 0x2A0C [] (Some 4)) (\<lambda>c. Inr (ClearConfigVariablesRecord c))"

definition clear_configs_from_binary :: "byte list \<Rightarrow> update_record res" where
  "clear_configs_from_binary d =
     bind_res (parse_rpc_info d) (\<lambda>i. if ri_address i \<noteq> 8 then Inl ArgumentError else new_clear_configs)"

section \<open>Config variables\<close>

text \<open>A config variable is set with several calls: begin, one push for each 20 bytes, end.\<close>

definition frame_record :: "int \<Rightarrow> byte list \<Rightarrow> byte list res" where
  "frame_record rtype contents =
     bind_res (pack_fields [(4, int (length contents + 8)), (1, rtype), (3, 0)]) (\<lambda>header. Inr (header @ contents))"

definition encode_checked :: "int \<Rightarrow> int \<Rightarrow> byte list \<Rightarrow> byte list res" where
  "encode_checked address rpc_id payload =
     bind_res (new_checked_call address rpc_id payload (Some 4)) (\<lambda>c. bind_res (call_contents c) (frame_record 4))"

definition config_chunks :: "byte list \<Rightarrow> byte list list" where
  "config_chunks d = map (\<lambda>i. take 20 (drop i d)) (py_range 0 (length d) 20)"

definition encode_set_config :: "slot_identifier \<Rightarrow> int \<Rightarrow> byte list \<Rightarrow> byte list res" where
  "encode_set_config target config_id d =
     bind_res (slot_encode target) (\<lambda>encoded_target.
     bind_res (pack_fields [(2, config_id)]) (\<lambda>b.
     bind_res (encode_checked 8 0x2A07 (b @ fill_chars 8 encoded_target)) (\<lambda>start.
     bind_res (map_res (encode_checked 8 0x2A08) (config_chunks d)) (\<lambda>pushes.
     bind_res (encode_checked 8 0x2A09 []) (\<lambda>stop. Inr (start @ concat pushes @ stop))))))"

abbreviation (input) NoMatch :: int where "NoMatch \<equiv> 0"
abbreviation (input) GenericMatch :: int where "GenericMatch \<equiv> 50"
abbreviation (input) PerfectMatch :: int where "PerfectMatch \<equiv> 100"
abbreviation (input) DeferMatch :: int where "DeferMatch \<equiv> 1000"
abbreviation (input) PartialMatch :: int where "PartialMatch \<equiv> 1100"

definition match_config_calls :: "rpc_info list \<Rightarrow> int res" where
  "match_config_calls rpcs =
     (if \<exists>i \<in> set (butlast (tl rpcs)). ri_command i \<noteq> 0x2A08 \<or> ri_address i \<noteq> 8 then Inr NoMatch
      else bind_res (py_nth rpcs (- 1)) (\<lambda>i.
        if ri_command i = 0x2A09 \<and> ri_address i = 8 then Inr PerfectMatch else Inr DeferMatch))"

definition set_config_quality :: "byte list \<Rightarrow> nat \<Rightarrow> int res option" where
  "set_config_quality d record_count =
     (if record_count = 1
      then Some (bind_res (parse_rpc_info d) (\<lambda>i.
             if ri_command i = 0x2A07 \<and> ri_address i = 8 then Inr DeferMatch else Inr NoMatch))
      else let quality = bind_run (parse_multiple_rpcs d []) (\<lambda>rpcs. Some (match_config_calls rpcs))
           in if quality = Some (Inl ArgumentError) then Some (Inr NoMatch) else quality)"

definition set_config_from_calls :: "rpc_info list \<Rightarrow> update_record res" where
  "set_config_from_calls rpcs =
     bind_res (py_nth rpcs 0) (\<lambda>start_rpc.
     bind_res (unpack_exact [2, 8] (ri_payload start_rpc)) (\<lambda>fs.
     bind_res (slot_of_encoded (drop 2 (ri_payload start_rpc))) (\<lambda>target.
       Inr (SetConfigRecord target (hd fs) (concat (map ri_payload (butlast (tl rpcs))))))))"

definition set_config_from_binary :: "byte list \<Rightarrow> update_record res option" where
  "set_config_from_binary d = bind_run (parse_multiple_rpcs d []) (\<lambda>rpcs. Some (set_config_from_calls rpcs))"

section \<open>Encoding\<close>

definition encode_call :: "int \<Rightarrow> rpc_call \<Rightarrow> byte list res" where
  "encode_call rtype c = bind_res (call_contents c) (frame_record rtype)"

fun encode_record :: "update_record \<Rightarrow> byte list res" where
  "encode_record (ReflashTileRecord s raw offset hw) = bind_res (reflash_tile_contents s raw offset hw) (frame_record 1)"
| "encode_record (ReflashControllerRecord raw offset) = bind_res (reflash_controller_contents raw offset) (frame_record 2)"
| "encode_record (EnhancedReflashControllerRecord raw base itype flags ctype n settings checks) =
     bind_res (enhanced_contents raw base itype flags ctype n settings checks) (frame_record 6)"
| "encode_record ResetDeviceRecord = frame_record 5 []"
| "encode_record (SendRPCRecord c) = encode_call 3 c"
| "encode_record (SendErrorCheckingRPCRecord c) = encode_call 4 c"
| "encode_record (SetDeviceTagRecord c _ _ _ _) = encode_call 4 c"
| "encode_record (AddNodeRecord c _) = encode_call 4 c"
| "encode_record (AddStreamerRecord c _) = encode_call 4 c"
| "encode_record (PersistGraphRecord c) = encode_call 4 c"
| "encode_record (ResetGraphRecord c) = encode_call 4 c"
| "encode_record (ClearDataRecord c) = encode_call 4 c"
| "encode_record (ClearConfigVariablesRecord c) = encode_call 4 c"
| "encode_record (SetGraphOnlineRecord c _) = encode_call 4 c"
| "encode_record (SetConstantRecord c _ _) = encode_call 4 c"
| "encode_record (SetConfigRecord target config_id d) = encode_set_config target config_id d"
| "encode_record (UnknownRecord rtype contents) = frame_record rtype contents"

section \<open>Matching\<close>

text \<open>The quality of the classes that look for one number of a call.\<close>

definition rpc_quality :: "int \<Rightarrow> byte list \<Rightarrow> nat \<Rightarrow> int res" where
  "rpc_quality rpc_id d record_count =
     (if record_count > 1 then Inr NoMatch
      else bind_res (parse_rpc_info d) (\<lambda>i. if ri_command i = rpc_id then Inr PerfectMatch else Inr NoMatch))"

definition device_tag_quality :: "byte list \<Rightarrow> nat \<Rightarrow> int res" where
  "device_tag_quality d record_count =
     (if record_count > 1 then Inr NoMatch
      else bind_res (parse_rpc_info d) (\<lambda>i.
        if ri_command i = 0x100B then bind_res (unpack_exact [4, 4, 1, 1] (ri_payload i)) (\<lambda>_. Inr PerfectMatch)
        else Inr NoMatch))"

definition single_quality :: "int \<Rightarrow> nat \<Rightarrow> int res" where
  "single_quality q record_count = (if record_count > 1 then Inr NoMatch else Inr q)"

definition add_node_quality :: "byte list \<Rightarrow> nat \<Rightarrow> int res" where
  "add_node_quality d record_count = rpc_quality 0x2003 d record_count"

definition add_streamer_quality :: "byte list \<Rightarrow> nat \<Rightarrow> int res" where
  "add_streamer_quality d record_count = rpc_quality 0x2007 d record_count"

definition persist_graph_quality :: "byte list \<Rightarrow> nat \<Rightarrow> int res" where
  "persist_graph_quality d record_count = rpc_quality 0x200E d record_count"

definition reset_graph_quality :: "byte list \<Rightarrow> nat \<Rightarrow> int res" where
  "reset_graph_quality d record_count = rpc_quality 0x200D d record_count"

definition clear_data_quality :: "byte list \<Rightarrow> nat \<Rightarrow> int res" where
  "clear_data_quality d record_count = rpc_quality 0x200C d record_count"

definition clear_configs_quality :: "byte list \<Rightarrow> nat \<Rightarrow> int res" where
  "clear_configs_quality d record_count = rpc_quality 0x2A0C d record_count"

definition set_online_quality :: "byte list \<Rightarrow> nat \<Rightarrow> int res" where
  "set_online_quality d record_count = rpc_quality 0x2005 d record_count"

definition set_constant_quality :: "byte list \<Rightarrow> nat \<Rightarrow> int res" where
  "set_constant_quality d record_count = rpc_quality 0x2000 d record_count"

definition reflash_tile_quality :: "nat \<Rightarrow> int res" where
  "reflash_tile_quality record_count = single_quality GenericMatch record_count"

definition call_class_quality :: "nat \<Rightarrow> int res" where
  "call_class_quality record_count = single_quality GenericMatch record_count"

definition reflash_controller_quality :: "nat \<Rightarrow> int res" where
  "reflash_controller_quality record_count = single_quality GenericMatch record_count"

definition enhanced_quality :: "nat \<Rightarrow> int res" where
  "enhanced_quality record_count = single_quality GenericMatch record_count"

definition reset_device_quality :: "nat \<Rightarrow> int res" where
  "reset_device_quality record_count = single_quality PerfectMatch record_count"

lemmas quality_defs [simp] =
  add_node_quality_def add_streamer_quality_def persist_graph_quality_def reset_graph_quality_def
  clear_data_quality_def clear_configs_quality_def set_online_quality_def set_constant_quality_def
  reflash_tile_quality_def call_class_quality_def reflash_controller_quality_def enhanced_quality_def
  reset_device_quality_def

fun match_quality :: "record_class \<Rightarrow> byte list \<Rightarrow> nat \<Rightarrow> int res option" where
  "match_quality ReflashTile d n = Some (reflash_tile_quality n)"
| "match_quality SendRPC d n = Some (call_class_quality n)"
| "match_quality SendErrorCheckingRPC d n = Some (call_class_quality n)"
| "match_quality ReflashController d n = Some (reflash_controller_quality n)"
| "match_quality EnhancedReflash d n = Some (enhanced_quality n)"
| "match_quality ResetDevice d n = Some (reset_device_quality n)"
| "match_quality SetDeviceTag d n = Some (device_tag_quality d n)"
| "match_quality AddNode d n = Some (add_node_quality d n)"
| "match_quality AddStreamer d n = Some (add_streamer_quality d n)"
| "match_quality SetConfig d n = set_config_quality d n"
| "match_quality PersistGraph d n = Some (persist_graph_quality d n)"
| "match_quality ResetGraph d n = Some (reset_graph_quality d n)"
| "match_quality ClearData d n = Some (clear_data_quality d n)"
| "match_quality ClearConfigVariables d n = Some (clear_configs_quality d n)"
| "match_quality SetGraphOnline d n = Some (set_online_quality d n)"
| "match_quality SetConstant d n = Some (set_constant_quality d n)"

fun class_from_binary :: "node_grammar \<Rightarrow> record_class \<Rightarrow> byte list \<Rightarrow> update_record res option" where
  "class_from_binary g ReflashTile d = Some (reflash_tile_from_binary d)"
| "class_from_binary g SendRPC d = Some (bind_res (call_from_binary new_call d) (\<lambda>c. Inr (SendRPCRecord c)))"
| "class_from_binary g SendErrorCheckingRPC d =
     Some (bind_res (call_from_binary new_checked_call d) (\<lambda>c. Inr (SendErrorCheckingRPCRecord c)))"
| "class_from_binary g ReflashController d = Some (reflash_controller_from_binary d)"
| "class_from_binary g EnhancedReflash d = Some (enhanced_from_binary d)"
| "class_from_binary g ResetDevice d = Some (reset_device_from_binary d)"
| "class_from_binary g SetDeviceTag d = Some (device_tag_from_binary d)"
| "class_from_binary g AddNode d = Some (add_node_from_binary g d)"
| "class_from_binary g AddStreamer d = Some (add_streamer_from_binary d)"
| "class_from_binary g SetConfig d = set_config_from_binary d"
| "class_from_binary g PersistGraph d = Some (persist_graph_from_binary d)"
| "class_from_binary g ResetGraph d = Some (reset_graph_from_binary d)"
| "class_from_binary g ClearData d = Some (clear_data_from_binary d)"
| "class_from_binary g ClearConfigVariables d = Some (clear_configs_from_binary d)"
| "class_from_binary g SetGraphOnline d = Some (set_online_from_binary d)"
| "class_from_binary g SetConstant d = Some (set_constant_from_binary d)"

text \<open>The classes that \<open>iotile-core\<close> registers; the classes of installed plugins follow.\<close>

definition core_classes :: "record_class list" where
  "core_classes = [ReflashTile, SendRPC, SendErrorCheckingRPC, ReflashController, EnhancedReflash, ResetDevice, SetDeviceTag]"

definition sg_classes :: "record_class list" where
  "sg_classes = [AddNode, AddStreamer, SetConfig, PersistGraph, ResetGraph, ClearData, ClearConfigVariables,
     SetGraphOnline, SetConstant]"

definition known_classes :: "record_class list \<Rightarrow> int \<Rightarrow> record_class list" where
  "known_classes plugins rtype = filter (\<lambda>c. record_type c = rtype) (core_classes @ plugins)"

text \<open>The outcome of \<open>FromBinary\<close>: a record, or the exception \<open>DeferMatching\<close> with a partial match.\<close>

datatype match_outcome = Matched update_record | DeferMatching "update_record option"

fun best_match ::
  "byte list \<Rightarrow> nat \<Rightarrow> record_class list \<Rightarrow> int \<times> record_class option \<Rightarrow> (int \<times> record_class option) res option" where
  "best_match d n [] best = Some (Inr best)"
| "best_match d n (c # cs) best =
     bind_run (match_quality c d n) (\<lambda>q. best_match d n cs (if q > fst best then (q, Some c) else best))"

definition best_record ::
  "node_grammar \<Rightarrow> record_class list \<Rightarrow> byte list \<Rightarrow> nat \<Rightarrow> match_outcome res option" where
  "best_record g classes match_data record_count =
     bind_run (best_match match_data record_count classes (NoMatch, None)) (\<lambda>(q, best).
       if q = DeferMatch then Some (Inr (DeferMatching None))
       else case best of
         None \<Rightarrow> Some (Inl DataError)
       | Some c \<Rightarrow> bind_run (class_from_binary g c match_data) (\<lambda>r.
           Some (Inr (if q = PartialMatch then DeferMatching (Some r) else Matched r))))"

definition record_from_binary ::
  "node_grammar \<Rightarrow> record_class list \<Rightarrow> byte list \<Rightarrow> nat \<Rightarrow> match_outcome res option" where
  "record_from_binary g plugins record_data record_count =
     (if length record_data < 8 then Some (Inl ArgumentError)
      else let total_length = le_int (take 4 record_data);
               classes = known_classes plugins (le_int (take 1 (drop 4 record_data)))
        in if record_count = 1 \<and> int (length record_data) \<noteq> total_length then Some (Inl ArgumentError)
           else if classes = [] then Some (Inl DataError)
           else best_record g classes (if record_count > 1 then record_data else drop 8 record_data) record_count)"

section \<open>Frames\<close>

text \<open>A binary record with the right length in its header.\<close>

definition is_frame :: "byte list \<Rightarrow> bool" where
  "is_frame b \<longleftrightarrow> 8 \<le> length b \<and> le_int (take 4 b) = int (length b)"

lemma framed_frame:
  assumes "frame_record rtype contents = Inr b"
  shows "is_frame b" "length b = length contents + 8" "le_int (take 1 (drop 4 b)) = rtype" "drop 8 b = contents"
proof -
  obtain h where h: "pack_fields [(4, int (length contents + 8)), (1, rtype), (3, 0)] = Inr h" "b = h @ contents"
    using assms by (auto simp: frame_record_def bind_res_Inr_iff)
  have "length h = 8" using length_pack_fields [OF h(1)] by simp
  moreover have "unpack_fields [4, 1, 3] (h @ []) = [int (length contents + 8), rtype, 0]"
    using unpack_pack_fields [OF h(1), of "[]"] by simp
  ultimately show "is_frame b" "length b = length contents + 8" "le_int (take 1 (drop 4 b)) = rtype" "drop 8 b = contents"
    using h(2) by (simp_all add: is_frame_def)
qed

lemma parse_multiple_frame:
  assumes "is_frame b"
  shows "parse_multiple_rpcs (b @ d) rpcs =
    (if le_int (take 1 (drop 4 b)) \<noteq> 4 then Some (Inl ArgumentError)
     else case parse_rpc_info (drop 8 b) of Inl e \<Rightarrow> Some (Inl e) | Inr i \<Rightarrow> parse_multiple_rpcs d (rpcs @ [i]))"
proof -
  have "b \<noteq> []" "4 - length b = 0" "8 - length b = 0" "1 - (length b - 4) = 0" "\<not> length b + length d < 8"
    using assms by (auto simp: is_frame_def)
  then show ?thesis using assms
    by (subst parse_multiple_rpcs.simps) (simp add: is_frame_def split: sum.splits)
qed

lemma parse_multiple_nil [simp]: "parse_multiple_rpcs [] rpcs = Some (Inr rpcs)"
  by (subst parse_multiple_rpcs.simps) simp

lemma parse_multiple_returns: "list_all is_frame bs \<Longrightarrow> parse_multiple_rpcs (concat bs) rpcs \<noteq> None"
  by (induction bs arbitrary: rpcs) (auto simp: parse_multiple_frame split: sum.splits)

lemma parse_multiple_map:
  assumes "list_all (\<lambda>(b, i). is_frame b \<and> le_int (take 1 (drop 4 b)) = 4 \<and> parse_rpc_info (drop 8 b) = Inr i) bis"
  shows "parse_multiple_rpcs (concat (map fst bis)) rpcs = Some (Inr (rpcs @ map snd bis))"
  using assms by (induction bis arbitrary: rpcs) (auto simp: parse_multiple_frame)

lemma parse_rpc_contents:
  assumes "call_contents c = Inr b"
  shows "parse_rpc_info b = Inr \<lparr>ri_command = rc_rpc_id c, ri_address = rc_address c,
    ri_response_size = (case rc_response c of None \<Rightarrow> 1 | Some n \<Rightarrow> push_bit 1 n), ri_payload = rc_payload c\<rparr>"
proof -
  let ?r = "case rc_response c of None \<Rightarrow> 1 | Some n \<Rightarrow> push_bit 1 n"
  obtain h where h: "pack_fields [(2, rc_rpc_id c), (1, rc_address c), (1, ?r)] = Inr h" "b = h @ rc_payload c"
    using assms unfolding call_contents_def Let_def bind_res_Inr_iff by blast
  have "length h = 4" "unpack_fields [2, 1, 1] (h @ rc_payload c) = [rc_rpc_id c, rc_address c, ?r]"
    using length_pack_fields [OF h(1)] unpack_pack_fields [OF h(1), of "rc_payload c"] by simp_all
  then show ?thesis using h(2) by (simp add: parse_rpc_info_def)
qed

section \<open>The best match\<close>

lemma best_match_unique:
  assumes "\<And>c. c \<in> set cs \<Longrightarrow> match_quality c d n = Some (Inr (f c))"
    and "\<And>c. c \<in> set cs \<Longrightarrow> c \<noteq> k \<Longrightarrow> f c < f k"
    and "(k \<in> set cs \<and> fst best < f k) \<or> best = (f k, Some k)"
  shows "best_match d n cs best = Some (Inr (f k, Some k))"
  using assms
proof (induction cs arbitrary: best)
  case (Cons c cs)
  show ?case
  proof (cases "c = k")
    case True
    then show ?thesis using Cons.prems
      by (auto intro!: Cons.IH)
  next
    case False
    then have less: "f c < f k" using Cons.prems(2) by simp
    have "k \<in> set cs \<and> fst (if f c > fst best then (f c, Some c) else best) < f k \<or>
        (if f c > fst best then (f c, Some c) else best) = (f k, Some k)"
      using Cons.prems(3) False less by (cases "best = (f k, Some k)") simp_all
    then have "best_match d n cs (if f c > fst best then (f c, Some c) else best) = Some (Inr (f k, Some k))"
      using Cons.prems(1,2) by (intro Cons.IH) simp_all
    then show ?thesis using Cons.prems(1) [of c] by simp
  qed
qed auto

lemma best_match_quality:
  "best_match d n cs best = Some (Inr (q, Some c)) \<Longrightarrow>
     best = (q, Some c) \<or> (match_quality c d n = Some (Inr q) \<and> fst best < q)"
proof (induction cs arbitrary: best)
  case (Cons x cs)
  then obtain p where p: "match_quality x d n = Some (Inr p)"
    by (cases "match_quality x d n") (auto simp: bind_run_def split: sum.splits)
  with Cons.prems Cons.IH [of "if p > fst best then (p, Some x) else best"] show ?case
    by (auto split: if_splits)
qed auto

text \<open>Several records in a row are matched only by \<open>SetConfig\<close>.\<close>

lemma multi_quality: "n > 1 \<Longrightarrow> c \<noteq> SetConfig \<Longrightarrow> match_quality c d n = Some (Inr NoMatch)"
  by (cases c) (auto simp: single_quality_def rpc_quality_def device_tag_quality_def)

lemma best_match_multi:
  assumes "n > 1" "set_config_quality d n = Some (Inr q)" "SetConfig \<in> set cs" "q > 0"
  shows "best_match d n cs (NoMatch, None) = Some (Inr (q, Some SetConfig))"
proof -
  have m: "match_quality c d n = Some (Inr (if c = SetConfig then q else 0))" for c
    using assms multi_quality [of n c d] by auto
  show ?thesis
    using best_match_unique [of cs d n "\<lambda>c. if c = SetConfig then q else 0" SetConfig "(NoMatch, None)", OF m] assms(3,4)
    by simp
qed

lemma set_config_quality_range:
  "set_config_quality d n = Some (Inr q) \<Longrightarrow> q \<in> {NoMatch, PerfectMatch, DeferMatch}"
  by (cases "parse_multiple_rpcs d []")
    (auto simp: set_config_quality_def Let_def match_config_calls_def bind_res_Inr_iff bind_run_def
      split: if_splits sum.splits)

lemma match_quality_range: "match_quality c d n = Some (Inr q) \<Longrightarrow> q \<noteq> PartialMatch"
  using set_config_quality_range [of d n q]
  by (cases c) (auto simp: single_quality_def rpc_quality_def device_tag_quality_def bind_res_Inr_iff split: if_splits)

lemma set_config_quality_returns:
  assumes "n = 1 \<or> (\<exists>bs. list_all is_frame bs \<and> d = concat bs)"
  shows "set_config_quality d n \<noteq> None"
proof (cases "n = 1")
  case False
  then have "parse_multiple_rpcs d [] \<noteq> None" using assms parse_multiple_returns by blast
  with False show ?thesis
    by (auto simp: set_config_quality_def Let_def bind_run_def split: option.splits sum.splits)
qed (simp add: set_config_quality_def)

lemma match_quality_returns:
  "n = 1 \<or> (\<exists>bs. list_all is_frame bs \<and> d = concat bs) \<Longrightarrow> match_quality c d n \<noteq> None"
  using set_config_quality_returns [of n d] by (cases c) auto

lemma best_match_returns:
  assumes "n = 1 \<or> (\<exists>bs. list_all is_frame bs \<and> d = concat bs)"
  shows "best_match d n cs best \<noteq> None"
proof (induction cs arbitrary: best)
  case (Cons c cs)
  then show ?case using match_quality_returns [OF assms, of c]
    by (auto simp: bind_run_def split: option.splits sum.splits)
qed simp

text \<open>Matching returns, and gives no partial matches.\<close>

lemma class_from_binary_returns: "c \<noteq> SetConfig \<Longrightarrow> class_from_binary g c d \<noteq> None"
  by (cases c) simp_all

lemma best_record_returns:
  assumes "n = 1 \<or> (\<exists>bs. list_all is_frame bs \<and> d = concat bs)"
  shows "best_record g cs d n \<noteq> None \<and> best_record g cs d n \<noteq> Some (Inr (DeferMatching (Some p)))"
proof (cases "best_match d n cs (NoMatch, None)")
  case (Some x)
  show ?thesis
  proof (cases x)
    case (Inr y)
    obtain q c where y: "y = (q, c)" by fastforce
    show ?thesis
    proof (cases c)
      case (Some k)
      have q: "match_quality k d n = Some (Inr q)" "q > 0"
        using best_match_quality [of d n cs "(NoMatch, None)" q k] \<open>best_match d n cs (NoMatch, None) = Some x\<close> Inr y Some by auto
      have "q = DeferMatch \<or> class_from_binary g k d \<noteq> None"
      proof (cases "k = SetConfig \<and> n \<noteq> 1")
        case True
        then have "parse_multiple_rpcs d [] \<noteq> None" using assms parse_multiple_returns by auto
        with True show ?thesis by (auto simp: set_config_from_binary_def bind_run_def split: option.splits sum.splits)
      next
        case False
        then show ?thesis using q class_from_binary_returns [of k g d]
          by (cases "k = SetConfig") (auto simp: set_config_quality_def bind_res_Inr_iff split: if_splits)
      qed
      then show ?thesis using Some \<open>best_match d n cs (NoMatch, None) = Some x\<close> Inr y match_quality_range [OF q(1)]
        by (cases "class_from_binary g k d"; cases "the (class_from_binary g k d)") (auto simp: best_record_def)
    qed (use \<open>best_match d n cs (NoMatch, None) = Some x\<close> Inr y in \<open>simp add: best_record_def\<close>)
  qed (use Some in \<open>simp add: best_record_def\<close>)
qed (use best_match_returns [OF assms] in simp)

lemma record_from_binary_returns:
  assumes "n > 0" "list_all is_frame bs"
  shows "record_from_binary g plugins (concat bs) n \<noteq> None \<and>
    record_from_binary g plugins (concat bs) n \<noteq> Some (Inr (DeferMatching (Some p)))"
proof -
  have "n = 1 \<or> (\<exists>cs. list_all is_frame cs \<and> (if n > 1 then concat bs else drop 8 (concat bs)) = concat cs)"
    using assms by auto
  from best_record_returns [OF this] show ?thesis unfolding record_from_binary_def Let_def by auto
qed

section \<open>Tags\<close>

definition version_text :: "int \<Rightarrow> int \<Rightarrow> string" where
  "version_text major minor = py_str_int major @ ''.'' @ py_str_int minor"

lemma str_int_no_dot: "n \<ge> 0 \<Longrightarrow> CHR ''.'' \<notin> set (py_str_int n)"
proof -
  have "digit_char d \<noteq> CHR ''.''" if "d < 10" for d
    using less_ten_cases [OF that] by (auto simp: digit_char_def)
  then show "n \<ge> 0 \<Longrightarrow> CHR ''.'' \<notin> set (py_str_int n)"
    using py_str_nat_digits [of "nat n"] by (fastforce simp: py_str_int_def list_all_iff)
qed

lemma partition_version:
  assumes "major \<ge> 0"
  shows "partition_dot (version_text major minor) = (py_str_int major, py_str_int minor)"
  using str_int_no_dot [OF assms] by (auto simp: partition_dot_def version_text_def takeWhile_append dropWhile_append)

lemma combine_version:
  assumes "0 \<le> major" "major < 64" "0 \<le> minor" "minor < 64" "0 \<le> tag" "tag < 2 ^ 20"
  shows "\<exists>info. combine_info (Some tag) (Some (version_text major minor)) = Inr info \<and>
    parse_info info = (tag, version_text major minor)"
proof -
  let ?info = "push_bit 20 (push_bit 6 major OR minor) OR tag"
  have v: "push_bit 6 major OR minor = major * 64 + minor"
    using push_bit_or_field [of minor 6 major] assms by simp
  have info: "?info = (major * 64 + minor) * 2 ^ 20 + tag"
    using push_bit_or_field [of tag 20 "major * 64 + minor"] assms v by simp
  have "(m * 2 ^ 20 + tag) mod 2 ^ 20 = tag" "(m * 2 ^ 20 + tag) div 2 ^ 20 = m" for m
    using assms(5,6) by simp_all
  then have parts: "?info mod 2 ^ 20 = tag" "?info div 2 ^ 20 = major * 64 + minor"
    unfolding info by blast+
  then have "?info div 2 ^ 20 div 64 = major" "?info div 2 ^ 20 mod 64 = minor" using assms by simp_all
  moreover have "?info div 2 ^ 26 = ?info div 2 ^ 20 div 64"
    by (simp add: zdiv_zmult2_eq [symmetric])
  moreover have dot: "CHR ''.'' \<in> set (version_text major minor)" by (simp add: version_text_def)
  ultimately have "parse_info ?info = (tag, version_text major minor)"
    using parts assms and_low_bits [of ?info 20] and_low_bits [of "?info div 2 ^ 20" 6] and_low_bits [of "?info div 2 ^ 26" 6]
    by (simp add: parse_info_def version_text_def drop_bit_eq_div)
  moreover have "combine_info (Some tag) (Some (version_text major minor)) = Inr ?info"
    using assms partition_version [OF assms(1), of minor] dot
    by (simp add: combine_info_def py_int10_str_int)
  ultimately show ?thesis by blast
qed

lemma combine_absent: "combine_info None (Some ''0.0'') = Inr 0"
  by code_simp

section \<open>Each class reads what it wrote\<close>

lemma unpack_fields_app:
  "length h = sum_list ns \<Longrightarrow> unpack_fields (ns @ ms) (h @ r) = unpack_fields ns h @ unpack_fields ms r"
  by (induction ns arbitrary: h) auto

lemma unpack_bytes:
  assumes "pack_fields fs = Inr h"
  shows "unpack_fields (map fst fs) (h @ rest) = map snd fs \<and> unpack_fields (map fst fs) h = map snd fs \<and>
    length h = sum_list (map fst fs)"
  using unpack_pack_fields [OF assms] unpack_pack_fields [OF assms, of "[]"] length_pack_fields [OF assms] by simp

lemma target_inverse: "create_target s = Inr t \<Longrightarrow> length t = 8 \<and> parse_target t = Inr (False, s)"
  using unpack_bytes [of "[(1, s), (6, 0), (1, 1)]" t "[]"]
  by (simp add: create_target_def parse_target_def del: unpack_fields.simps pack_fields.simps)

lemma reflash_tile_inverse:
  assumes "reflash_tile_contents s raw offset hw = Inr b"
  shows "reflash_tile_from_binary b = Inr (ReflashTileRecord s raw offset hw)"
proof -
  obtain t h1 h2 where h: "create_target s = Inr t" "pack_fields [(4, offset), (4, int (length raw))] = Inr h1"
    "pack_fields [(1, hw), (3, 0)] = Inr h2" "b = h1 @ t @ h2 @ raw"
    using assms unfolding reflash_tile_contents_def bind_res_Inr_iff by blast
  note u1 = unpack_bytes [OF h(2), of "[]"] and u2 = unpack_bytes [OF h(3), of raw] and ut = target_inverse [OF h(1)]
  have "unpack_fields [4, 4, 8, 1, 3] b = unpack_fields [4, 4] h1 @ unpack_fields [8] t @ unpack_fields [1, 3] (h2 @ raw)"
    using unpack_fields_app [of h1 "[4, 4]" "[8, 1, 3]" "t @ h2 @ raw"] unpack_fields_app [of t "[8]" "[1, 3]" "h2 @ raw"]
      u1 ut h(4) by simp
  moreover have "unpack_fields [4, 4] h1 = [offset, int (length raw)]" "unpack_fields [1, 3] (h2 @ raw) = [hw, 0]"
    using u1 u2 by (simp_all del: unpack_fields.simps)
  moreover have "unpack_fields [8] t = [le_int t]" using ut by simp
  ultimately have "unpack_fields [4, 4, 8, 1, 3] b = [offset, int (length raw), le_int t, hw, 0]" by simp
  then show ?thesis using u1 u2 ut h(4)
    by (simp add: reflash_tile_from_binary_def del: unpack_fields.simps)
qed

lemma reflash_controller_inverse:
  assumes "reflash_controller_contents raw offset = Inr b"
  shows "reflash_controller_from_binary b = Inr (ReflashControllerRecord raw offset)"
proof -
  obtain h where h: "pack_fields [(4, offset), (4, int (length raw))] = Inr h" "b = h @ raw"
    using assms unfolding reflash_controller_contents_def bind_res_Inr_iff by blast
  then show ?thesis using unpack_bytes [OF h(1), of raw]
    by (simp add: reflash_controller_from_binary_def del: unpack_fields.simps pack_fields.simps)
qed

lemma enhanced_inverse:
  assumes "enhanced_contents raw base itype flags ctype n settings checks = Inr b" "length settings = 16" "length checks = 64"
  shows "enhanced_from_binary b = Inr (EnhancedReflashControllerRecord raw base itype flags ctype n settings checks)"
proof -
  obtain h where h: "pack_fields [(4, base), (4, int (length raw)), (4, int (length raw)), (1, itype), (1, flags),
      (1, ctype), (1, n)] = Inr h" "b = h @ fill_chars 16 settings @ fill_chars 64 checks @ raw"
    using assms(1) unfolding enhanced_contents_def bind_res_Inr_iff by blast
  have b: "b = h @ settings @ checks @ raw"
    using h(2) assms(2,3) fill_chars_same [of 16 settings] fill_chars_same [of 64 checks] by simp
  show ?thesis using unpack_bytes [OF h(1), of "settings @ checks @ raw"] assms(2,3)
    by (simp add: b enhanced_from_binary_def del: unpack_fields.simps pack_fields.simps)
qed

section \<open>Which class a single record finds\<close>

definition call_info :: "rpc_call \<Rightarrow> rpc_info" where
  "call_info c = \<lparr>ri_command = rc_rpc_id c, ri_address = rc_address c,
     ri_response_size = (case rc_response c of None \<Rightarrow> 1 | Some n \<Rightarrow> push_bit 1 n), ri_payload = rc_payload c\<rparr>"

lemma call_info_simps [simp]:
  "ri_command (call_info c) = rc_rpc_id c" "ri_address (call_info c) = rc_address c" "ri_payload (call_info c) = rc_payload c"
  by (simp_all add: call_info_def)

lemma parse_call: "call_contents c = Inr b \<Longrightarrow> parse_rpc_info b = Inr (call_info c)"
  by (simp add: parse_rpc_contents call_info_def)

text \<open>The number of the call that a class looks for.\<close>

definition own_call :: "record_class \<Rightarrow> int option" where
  "own_call c = map_of
     [(SetDeviceTag, 0x100B), (AddNode, 0x2003), (AddStreamer, 0x2007), (SetConfig, 0x2A07), (PersistGraph, 0x200E),
      (ResetGraph, 0x200D), (ClearData, 0x200C), (ClearConfigVariables, 0x2A0C), (SetGraphOnline, 0x2005),
      (SetConstant, 0x2000)] c"

definition call_quality :: "rpc_info \<Rightarrow> record_class \<Rightarrow> int" where
  "call_quality i c =
     (if c = SendErrorCheckingRPC then 50
      else if own_call c \<noteq> Some (ri_command i) then 0
      else if c = SetConfig then (if ri_address i = 8 then 1000 else 0) else 100)"

lemma match_quality_call:
  assumes "record_type c = 4" "parse_rpc_info d = Inr i" "ri_command i = 0x100B \<longrightarrow> length (ri_payload i) = 10"
  shows "match_quality c d 1 = Some (Inr (call_quality i c))"
  using assms
  by (cases c) (auto simp: call_quality_def own_call_def single_quality_def rpc_quality_def device_tag_quality_def
    set_config_quality_def unpack_exact_def)

lemma own_call_unique: "own_call c = Some n \<Longrightarrow> own_call k = Some n \<Longrightarrow> c = k"
  by (cases c; cases k) (auto simp: own_call_def)

lemma known_classes_type: "c \<in> set (known_classes plugins t) \<longleftrightarrow> (c \<in> set core_classes \<or> c \<in> set plugins) \<and> record_type c = t"
  by (auto simp: known_classes_def)

text \<open>Reading a binary record of a class whose quality is the best.\<close>

lemma single_matched:
  assumes "frame_record t contents = Inr b" "k \<in> set (known_classes plugins t)"
    and "\<And>c. c \<in> set (known_classes plugins t) \<Longrightarrow> match_quality c contents 1 = Some (Inr (f c))"
    and "\<And>c. c \<in> set (known_classes plugins t) \<Longrightarrow> c \<noteq> k \<Longrightarrow> f c < f k"
    and "0 < f k" "f k < 1000" "class_from_binary g k contents = Some (Inr r)"
  shows "record_from_binary g plugins b 1 = Some (Inr (Matched r))"
proof -
  have "best_match contents 1 (known_classes plugins t) (0, None) = Some (Inr (f k, Some k))"
    using assms(2-5) by (intro best_match_unique) (auto simp del: One_nat_def)
  then have "best_record g (known_classes plugins t) contents 1 = Some (Inr (Matched r))"
    using assms(6,7) by (simp add: best_record_def)
  moreover have "known_classes plugins t \<noteq> []" using assms(2) by auto
  ultimately show ?thesis using framed_frame [OF assms(1)]
    by (simp add: record_from_binary_def Let_def is_frame_def)
qed

text \<open>The plugins all make calls with error checks.\<close>

definition plugins_ok :: "record_class list \<Rightarrow> bool" where
  "plugins_ok plugins \<longleftrightarrow> set plugins \<subseteq> set sg_classes"

lemma known_single:
  assumes "plugins_ok plugins" "c \<in> set core_classes" "record_type c \<noteq> 4"
  shows "known_classes plugins (record_type c) = [c]"
proof -
  have "filter (\<lambda>k. record_type k = record_type c) plugins = []"
    using assms by (auto simp: plugins_ok_def sg_classes_def filter_empty_conv)
  then show ?thesis using assms(2,3) by (auto simp: known_classes_def core_classes_def)
qed

lemma known_checked:
  assumes "plugins_ok plugins"
  shows "set (known_classes plugins 4) = {SendErrorCheckingRPC, SetDeviceTag} \<union> set plugins"
  using assms by (auto simp: known_classes_def core_classes_def plugins_ok_def sg_classes_def)

lemma only_class_matched:
  assumes "plugins_ok plugins" "c \<in> set core_classes" "record_type c \<noteq> 4" "frame_record (record_type c) contents = Inr b"
    and "class_from_binary g c contents = Some (Inr r)"
  shows "record_from_binary g plugins b 1 = Some (Inr (Matched r))"
proof -
  have q: "\<exists>q. match_quality c contents 1 = Some (Inr q) \<and> 0 < q \<and> q < 1000"
    using assms(2,3) by (cases c) (auto simp: core_classes_def single_quality_def)
  then obtain q where "match_quality c contents 1 = Some (Inr q)" "0 < q" "q < 1000" by blast
  then show ?thesis
    using known_single [OF assms(1-3)] assms(5)
    by (intro single_matched [OF assms(4), of c plugins "\<lambda>_. q"]) auto
qed

lemma call_matched:
  assumes "plugins_ok plugins" "call_contents c = Inr contents" "frame_record 4 contents = Inr b"
    and "k \<in> {SetDeviceTag} \<union> set plugins" "own_call k = Some (rc_rpc_id c)" "k \<noteq> SetConfig"
    and "rc_rpc_id c = 0x100B \<longrightarrow> length (rc_payload c) = 10" "class_from_binary g k contents = Some (Inr r)"
  shows "record_from_binary g plugins b 1 = Some (Inr (Matched r))"
proof -
  note i = parse_call [OF assms(2)]
  have k: "k \<noteq> SendErrorCheckingRPC" using assms(5) by (auto simp: own_call_def)
  show ?thesis
  proof (rule single_matched [OF assms(3) _ _ _ _ _ assms(8)])
    show "k \<in> set (known_classes plugins 4)" using assms(1,4) by (auto simp: known_checked)
    fix c' assume c': "c' \<in> set (known_classes plugins 4)"
    show "match_quality c' contents 1 = Some (Inr (call_quality (call_info c) c'))"
      using c' i assms(7) by (intro match_quality_call) (auto simp: known_classes_type)
  next
    fix c' assume "c' \<in> set (known_classes plugins 4)" "c' \<noteq> k"
    then show "call_quality (call_info c) c' <
      call_quality (call_info c) k"
      using own_call_unique [OF _ assms(5), of c'] assms(5,6) k by (auto simp: call_quality_def)
  qed (use assms(5,6) k in \<open>auto simp: call_quality_def\<close>)
qed

text \<open>A checked call that no other class looks for.\<close>

definition plain_call :: "record_class list \<Rightarrow> rpc_call \<Rightarrow> bool" where
  "plain_call plugins c \<longleftrightarrow>
     (\<forall>k \<in> {SetDeviceTag} \<union> set plugins. own_call k = Some (rc_rpc_id c) \<longrightarrow> k = SetConfig \<and> rc_address c \<noteq> 8)"

lemma plain_call_matched:
  assumes "plugins_ok plugins" "call_contents c = Inr contents" "frame_record 4 contents = Inr b" "plain_call plugins c"
    and "class_from_binary g SendErrorCheckingRPC contents = Some (Inr r)"
  shows "record_from_binary g plugins b 1 = Some (Inr (Matched r))"
proof -
  note i = parse_call [OF assms(2)]
  have tag: "rc_rpc_id c \<noteq> 0x100B" using assms(4) by (auto simp: plain_call_def own_call_def)
  show ?thesis
  proof (rule single_matched [OF assms(3) _ _ _ _ _ assms(5)])
    show "SendErrorCheckingRPC \<in> set (known_classes plugins 4)" using assms(1) by (auto simp: known_checked)
    fix c' assume c': "c' \<in> set (known_classes plugins 4)"
    show "match_quality c' contents 1 = Some (Inr (call_quality (call_info c) c'))"
      using c' i tag by (intro match_quality_call) (auto simp: known_classes_type)
  next
    fix c' assume "c' \<in> set (known_classes plugins 4)" "c' \<noteq> SendErrorCheckingRPC"
    then show "call_quality (call_info c) c' < call_quality (call_info c) SendErrorCheckingRPC"
      using assms(1,4) by (auto simp: call_quality_def plain_call_def known_checked)
  qed (auto simp: call_quality_def)
qed

section \<open>Records read back\<close>

lemma call_inverse:
  assumes "call_contents c = Inr b"
  shows "call_from_binary cls b = cls (rc_address c) (rc_rpc_id c) (rc_payload c) (rc_response c)"
  using parse_call [OF assms]
  by (auto simp: call_from_binary_def call_info_def push_bit_eq_mult enc_simps split: option.splits)

lemma new_call_eq: "new_call a n p r = Inr c \<Longrightarrow> c = \<lparr>rc_address = a, rc_rpc_id = n, rc_payload = p, rc_response = r\<rparr>"
  by (auto simp: new_call_def split: if_splits)

lemma new_checked_eq:
  "new_checked_call a n p (Some 4) = Inr c \<longleftrightarrow> c = \<lparr>rc_address = a, rc_rpc_id = n, rc_payload = p, rc_response = Some 4\<rparr>"
  by (auto simp: new_checked_call_def new_call_def)

text \<open>A tag comes with a version in \<open>X.Y\<close> form without leading zeros, or with none.\<close>

definition tag_ok :: "int option \<Rightarrow> string option \<Rightarrow> bool" where
  "tag_ok tag version \<longleftrightarrow>
     (case tag of None \<Rightarrow> version = None
      | Some n \<Rightarrow> 0 \<le> n \<and> (version = None \<or> (\<exists>major \<ge> 0. \<exists>minor \<ge> 0. version = Some (version_text major minor))))"

definition version_or_zero :: "string option \<Rightarrow> string" where
  "version_or_zero v = (case v of None \<Rightarrow> ''0.0'' | Some x \<Rightarrow> x)"

lemma zero_version: "''0.0'' = version_text 0 0"
  by code_simp

lemma tag_ok_combine:
  assumes "tag_ok tag v" "combine_info tag (Some (version_or_zero v)) = Inr info"
  shows "case tag of None \<Rightarrow> version_or_zero v = ''0.0'' | Some n \<Rightarrow> parse_info info = (n, version_or_zero v)"
proof (cases tag)
  case (Some n)
  then obtain major minor where m: "0 \<le> major" "0 \<le> minor" "version_or_zero v = version_text major minor"
    using assms(1) by (cases v) (fastforce simp: tag_ok_def version_or_zero_def zero_version)+
  have "major < 64 \<and> minor < 64 \<and> n < 2 ^ 20"
    using assms(2) Some m partition_version [OF m(1), of minor]
    by (auto simp: combine_info_def Let_def py_int10_str_int split: if_splits)
  then show ?thesis using combine_version [of major minor n] assms Some m by (auto simp: tag_ok_def)
qed (use assms in \<open>auto simp: tag_ok_def version_or_zero_def\<close>)

lemma device_tag_inverse:
  assumes "tag_ok app av" "tag_ok os ov" "app \<noteq> None \<or> os \<noteq> None" "new_set_device_tag app av os ov = Inr r"
  shows "\<exists>c. r = SetDeviceTagRecord c app (version_or_zero av) os (version_or_zero ov) \<and> rc_rpc_id c = 0x100B \<and>
    length (rc_payload c) = 10 \<and> (\<forall>b. call_contents c = Inr b \<longrightarrow> device_tag_from_binary b = Inr r)"
proof -
  let ?app = "if app \<noteq> None then 1 else 0 :: int" and ?os = "if os \<noteq> None then 1 else 0 :: int"
  obtain ai oi p c where p: "combine_info app (Some (version_or_zero av)) = Inr ai"
    "combine_info os (Some (version_or_zero ov)) = Inr oi" "pack_fields [(4, oi), (4, ai), (1, ?os), (1, ?app)] = Inr p"
    "new_checked_call 8 0x100B p (Some 4) = Inr c" "r = SetDeviceTagRecord c app (version_or_zero av) os (version_or_zero ov)"
    using assms(4) unfolding new_set_device_tag_def Let_def bind_res_Inr_iff version_or_zero_def by blast
  have u: "unpack_exact [4, 4, 1, 1] p = Inr [oi, ai, ?os, ?app]" "length p = 10"
    using unpack_bytes [OF p(3), of "[]"] by (simp_all add: unpack_exact_def del: unpack_fields.simps pack_fields.simps)
  have parsed: "app = Some n \<Longrightarrow> parse_info ai = (n, version_or_zero av)" "os = Some m \<Longrightarrow> parse_info oi = (m, version_or_zero ov)"
    "app = None \<Longrightarrow> av = None" "os = None \<Longrightarrow> ov = None" for n m
    using tag_ok_combine [OF assms(1) p(1)] tag_ok_combine [OF assms(2) p(2)] assms(1,2) by (simp_all add: tag_ok_def)
  have same: "new_set_device_tag app (if app = None then None else Some (version_or_zero av)) os
      (if os = None then None else Some (version_or_zero ov)) = Inr r"
    using assms(4) parsed(3,4) by (auto simp: new_set_device_tag_def version_or_zero_def split: option.splits)
  have "device_tag_from_binary b = Inr r" if "call_contents c = Inr b" for b
    using parse_call [OF that] u p(4) assms(3) parsed(1,2) same
    by (cases app; cases os) (simp_all add: device_tag_from_binary_def new_checked_eq call_info_def)
  then show ?thesis using p(4,5) u(2) by (auto simp: new_checked_eq)
qed

lemma add_node_inverse:
  assumes "desc_fits d" "g (desc_text d) = Some (desc_tokens d)" "new_add_node g (desc_text d) a = Inr r"
  shows "\<exists>c. r = AddNodeRecord c (desc_text d) \<and> rc_rpc_id c = 0x2003 \<and>
    (\<forall>b. call_contents c = Inr b \<longrightarrow> add_node_from_binary g b = Inr r)"
proof -
  obtain p where p: "create_node_descriptor g (desc_text d) = Inr p" "parse_node_binary p = Inr (desc_text d)"
    using descriptor_roundtrip [of d g, OF assms(1,2)] by blast
  let ?c = "\<lparr>rc_address = a, rc_rpc_id = 0x2003, rc_payload = p, rc_response = Some 4\<rparr>"
  have r: "r = AddNodeRecord ?c (desc_text d)"
    using assms(3) p(1) by (auto simp: new_add_node_def bind_res_Inr_iff new_checked_eq)
  have "add_node_from_binary g b = Inr r" if "call_contents ?c = Inr b" for b
    using parse_call [OF that] p(2) assms(3) by (simp add: add_node_from_binary_def call_info_def)
  with r show ?thesis by auto
qed

text \<open>A streamer that is not linked and whose followed streamer has a number below 128.\<close>

definition unlinked :: "data_streamer \<Rightarrow> bool" where
  "unlinked st \<longleftrightarrow> st_walker st = None \<and> st_index st = None \<and>
     (case st_with_other st of None \<Rightarrow> True | Some i \<Rightarrow> \<not> st_automatic st \<and> i < 128)"

lemma add_streamer_inverse:
  assumes "streamer_fits st" "unlinked st" "new_add_streamer st a = Inr r"
  shows "\<exists>c. r = AddStreamerRecord c st \<and> rc_rpc_id c = 0x2007 \<and>
    (\<forall>b. call_contents c = Inr b \<longrightarrow> add_streamer_from_binary b = Inr r)"
proof -
  have "st\<lparr>st_walker := None, st_index := None,
      st_with_other := if st_automatic st then None else map_option (\<lambda>i. i mod 128) (st_with_other st)\<rparr> = st"
    using assms(1,2) by (cases st) (auto simp: unlinked_def streamer_fits_def split: option.splits)
  then obtain p where p: "create_streamer_binary st = Inr p" "parse_streamer_binary p = Inr st"
    using streamer_binary_roundtrip [OF assms(1)] by auto
  let ?c = "\<lparr>rc_address = a, rc_rpc_id = 0x2007, rc_payload = p, rc_response = Some 4\<rparr>"
  have r: "r = AddStreamerRecord ?c st"
    using assms(3) p(1) by (auto simp: new_add_streamer_def bind_res_Inr_iff new_checked_eq)
  have "add_streamer_from_binary b = Inr r" if "call_contents ?c = Inr b" for b
    using parse_call [OF that] p(2) assms(3) by (simp add: add_streamer_from_binary_def call_info_def)
  with r show ?thesis by auto
qed

lemma set_constant_inverse:
  assumes "stream_encodable strm" "new_set_constant strm v a = Inr r"
  shows "\<exists>c. r = SetConstantRecord c strm v \<and> rc_rpc_id c = 0x2000 \<and>
    (\<forall>b. call_contents c = Inr b \<longrightarrow> set_constant_from_binary b = Inr r)"
proof -
  obtain p where p: "pack_fields [(4, v), (2, stream_encode strm)] = Inr p"
    using assms(2) unfolding new_set_constant_def bind_res_Inr_iff by blast
  let ?c = "\<lparr>rc_address = a, rc_rpc_id = 0x2000, rc_payload = p, rc_response = Some 4\<rparr>"
  have r: "r = SetConstantRecord ?c strm v"
    using assms(2) p by (auto simp: new_set_constant_def bind_res_Inr_iff new_checked_eq)
  have u: "unpack_exact [4, 2] p = Inr [v, stream_encode strm]"
    using unpack_bytes [OF p, of "[]"] by (simp add: unpack_exact_def del: unpack_fields.simps pack_fields.simps)
  have "set_constant_from_binary b = Inr r" if "call_contents ?c = Inr b" for b
    using parse_call [OF that] u assms(2) stream_decode_encode [OF assms(1)]
    by (simp add: set_constant_from_binary_def call_info_def)
  with r show ?thesis by auto
qed

lemma set_online_inverse:
  assumes "new_set_online online a = Inr r"
  shows "\<exists>c. r = SetGraphOnlineRecord c online \<and> rc_rpc_id c = 0x2005 \<and>
    (\<forall>b. call_contents c = Inr b \<longrightarrow> set_online_from_binary b = Inr r)"
proof -
  obtain p where p: "pack_fields [(2, if online then 1 else 0)] = Inr p"
    using assms unfolding new_set_online_def bind_res_Inr_iff by blast
  let ?c = "\<lparr>rc_address = a, rc_rpc_id = 0x2005, rc_payload = p, rc_response = Some 4\<rparr>"
  have r: "r = SetGraphOnlineRecord ?c online"
    using assms p by (auto simp: new_set_online_def bind_res_Inr_iff new_checked_eq)
  have u: "unpack_exact [2] p = Inr [if online then 1 else 0]"
    using unpack_bytes [OF p, of "[]"] by (simp add: unpack_exact_def del: unpack_fields.simps pack_fields.simps)
  have "set_online_from_binary b = Inr r" if "call_contents ?c = Inr b" for b
    using parse_call [OF that] u assms by (cases online) (simp_all add: set_online_from_binary_def call_info_def)
  with r show ?thesis by auto
qed

section \<open>Records that the constructors make\<close>

inductive built :: "node_grammar \<Rightarrow> record_class list \<Rightarrow> bool \<Rightarrow> update_record \<Rightarrow> bool" for g plugins allow_unknown where
  reflash_tile: "built g plugins allow_unknown (ReflashTileRecord s raw offset hw)"
| reflash_controller: "built g plugins allow_unknown (ReflashControllerRecord raw offset)"
| enhanced_reflash: "length settings = 16 \<Longrightarrow> length checks = 64 \<Longrightarrow>
    built g plugins allow_unknown (EnhancedReflashControllerRecord raw base itype flags ctype n settings checks)"
| reset_device: "built g plugins allow_unknown ResetDeviceRecord"
| send_rpc: "new_call a n p resp = Inr c \<Longrightarrow> built g plugins allow_unknown (SendRPCRecord c)"
| send_checked: "new_checked_call a n p (Some 4) = Inr c \<Longrightarrow> plain_call plugins c \<Longrightarrow>
    built g plugins allow_unknown (SendErrorCheckingRPCRecord c)"
| device_tag: "tag_ok app av \<Longrightarrow> tag_ok os ov \<Longrightarrow> app \<noteq> None \<or> os \<noteq> None \<Longrightarrow>
    new_set_device_tag app av os ov = Inr r \<Longrightarrow> built g plugins allow_unknown r"
| add_node: "AddNode \<in> set plugins \<Longrightarrow> desc_fits d \<Longrightarrow> g (desc_text d) = Some (desc_tokens d) \<Longrightarrow>
    new_add_node g (desc_text d) a = Inr r \<Longrightarrow> built g plugins allow_unknown r"
| add_streamer: "AddStreamer \<in> set plugins \<Longrightarrow> streamer_fits st \<Longrightarrow> unlinked st \<Longrightarrow>
    new_add_streamer st a = Inr r \<Longrightarrow> built g plugins allow_unknown r"
| set_constant: "SetConstant \<in> set plugins \<Longrightarrow> stream_encodable strm \<Longrightarrow>
    new_set_constant strm v a = Inr r \<Longrightarrow> built g plugins allow_unknown r"
| set_online: "SetGraphOnline \<in> set plugins \<Longrightarrow> new_set_online online a = Inr r \<Longrightarrow> built g plugins allow_unknown r"
| reset_graph: "ResetGraph \<in> set plugins \<Longrightarrow> new_reset_graph a = Inr r \<Longrightarrow> built g plugins allow_unknown r"
| persist_graph: "PersistGraph \<in> set plugins \<Longrightarrow> new_persist_graph a = Inr r \<Longrightarrow> built g plugins allow_unknown r"
| clear_data: "ClearData \<in> set plugins \<Longrightarrow> new_clear_data a = Inr r \<Longrightarrow> built g plugins allow_unknown r"
| clear_configs: "ClearConfigVariables \<in> set plugins \<Longrightarrow> new_clear_configs = Inr r \<Longrightarrow> built g plugins allow_unknown r"
| set_config: "SetConfig \<in> set plugins \<Longrightarrow> slot_ok target \<Longrightarrow> built g plugins allow_unknown (SetConfigRecord target n d)"
| unknown: "allow_unknown \<Longrightarrow> known_classes plugins t = [] \<Longrightarrow> built g plugins allow_unknown (UnknownRecord t contents)"

lemma encode_callE:
  assumes "encode_call t c = Inr b"
  obtains contents where "call_contents c = Inr contents" "frame_record t contents = Inr b"
  using assms by (auto simp: encode_call_def bind_res_Inr_iff)

lemma core_only:
  assumes "plugins_ok plugins" "bind_res x (frame_record (record_type k)) = Inr b" "k \<in> set core_classes" "record_type k \<noteq> 4"
    and "\<And>contents. x = Inr contents \<Longrightarrow> class_from_binary g k contents = Some (Inr r)"
  shows "is_frame b \<and> record_from_binary g plugins b 1 = Some (Inr (Matched r))"
proof -
  obtain contents where c: "x = Inr contents" "frame_record (record_type k) contents = Inr b"
    using assms(2) by (auto simp: bind_res_Inr_iff)
  show ?thesis
    using only_class_matched [OF assms(1,3,4) c(2) assms(5) [OF c(1)]] framed_frame(1) [OF c(2)] by simp
qed

lemma own_only:
  assumes "plugins_ok plugins" "encode_call 4 c = Inr b" "k \<in> {SetDeviceTag} \<union> set plugins" "k \<noteq> SetConfig"
    and "own_call k = Some (rc_rpc_id c)" "rc_rpc_id c = 0x100B \<longrightarrow> length (rc_payload c) = 10"
    and "\<And>contents. call_contents c = Inr contents \<Longrightarrow> class_from_binary g k contents = Some (Inr r)"
  shows "is_frame b \<and> record_from_binary g plugins b 1 = Some (Inr (Matched r))"
proof -
  obtain contents where "call_contents c = Inr contents" "frame_record 4 contents = Inr b"
    using assms(2) by (rule encode_callE)
  with call_matched [OF assms(1) this assms(3,5,4,6) assms(7)] framed_frame(1) show ?thesis by blast
qed

text \<open>A record that is read back from one binary record.\<close>

lemma built_matched:
  assumes "built g plugins allow_unknown r" "plugins_ok plugins" "encode_record r = Inr b"
    and "\<forall>s n d. r \<noteq> SetConfigRecord s n d" "\<forall>t d. r \<noteq> UnknownRecord t d"
  shows "is_frame b \<and> record_from_binary g plugins b 1 = Some (Inr (Matched r))"
  using assms(1,3-5)
proof cases
  case (reflash_tile s raw offset hw)
  then show ?thesis using assms(3) reflash_tile_inverse
    by (intro core_only [OF assms(2), of "reflash_tile_contents s raw offset hw" ReflashTile]) (auto simp: core_classes_def)
next
  case (reflash_controller raw offset)
  then show ?thesis using assms(3) reflash_controller_inverse
    by (intro core_only [OF assms(2), of "reflash_controller_contents raw offset" ReflashController]) (auto simp: core_classes_def)
next
  case (enhanced_reflash settings checks raw base itype flags ctype n)
  then show ?thesis using assms(3) enhanced_inverse
    by (intro core_only [OF assms(2), of "enhanced_contents raw base itype flags ctype n settings checks" EnhancedReflash])
      (auto simp: core_classes_def)
next
  case reset_device
  then show ?thesis using assms(3)
    by (intro core_only [OF assms(2), of "Inr []" ResetDevice]) (auto simp: core_classes_def reset_device_from_binary_def)
next
  case (send_rpc a n p resp c)
  then show ?thesis using assms(3) new_call_eq [OF send_rpc(2)]
    by (intro core_only [OF assms(2), of "call_contents c" SendRPC])
      (auto simp: core_classes_def encode_call_def dest!: call_inverse [where cls = new_call])
next
  case (send_checked a n p c)
  then obtain contents where c: "call_contents c = Inr contents" "frame_record 4 contents = Inr b"
    using assms(3) by (auto elim: encode_callE)
  have "new_checked_call (rc_address c) (rc_rpc_id c) (rc_payload c) (rc_response c) = Inr c"
    using send_checked(2) by (auto simp: new_checked_eq)
  then have "class_from_binary g SendErrorCheckingRPC contents = Some (Inr r)"
    using send_checked(1) call_inverse [OF c(1), of new_checked_call] by simp
  then show ?thesis
    using plain_call_matched [OF assms(2) c send_checked(3)] framed_frame(1) [OF c(2)] by simp
next
  case (device_tag app av os ov)
  then obtain c where c: "r = SetDeviceTagRecord c app (version_or_zero av) os (version_or_zero ov)" "rc_rpc_id c = 0x100B"
    "length (rc_payload c) = 10" "\<forall>b. call_contents c = Inr b \<longrightarrow> device_tag_from_binary b = Inr r"
    using device_tag_inverse by blast
  then show ?thesis using assms(3) by (intro own_only [OF assms(2), of c b SetDeviceTag]) (auto simp: own_call_def)
next
  case (add_node d a)
  then obtain c where c: "r = AddNodeRecord c (desc_text d)" "rc_rpc_id c = 0x2003"
    "\<forall>b. call_contents c = Inr b \<longrightarrow> add_node_from_binary g b = Inr r"
    using add_node_inverse by blast
  then show ?thesis using assms(3) add_node(1) by (intro own_only [OF assms(2), of c b AddNode]) (auto simp: own_call_def)
next
  case (add_streamer st a)
  then obtain c where c: "r = AddStreamerRecord c st" "rc_rpc_id c = 0x2007"
    "\<forall>b. call_contents c = Inr b \<longrightarrow> add_streamer_from_binary b = Inr r"
    using add_streamer_inverse by blast
  then show ?thesis using assms(3) add_streamer(1) by (intro own_only [OF assms(2), of c b AddStreamer]) (auto simp: own_call_def)
next
  case (set_constant strm v a)
  then obtain c where c: "r = SetConstantRecord c strm v" "rc_rpc_id c = 0x2000"
    "\<forall>b. call_contents c = Inr b \<longrightarrow> set_constant_from_binary b = Inr r"
    using set_constant_inverse by blast
  then show ?thesis using assms(3) set_constant(1) by (intro own_only [OF assms(2), of c b SetConstant]) (auto simp: own_call_def)
next
  case (set_online online a)
  then obtain c where c: "r = SetGraphOnlineRecord c online" "rc_rpc_id c = 0x2005"
    "\<forall>b. call_contents c = Inr b \<longrightarrow> set_online_from_binary b = Inr r"
    using set_online_inverse by blast
  then show ?thesis using assms(3) set_online(1) by (intro own_only [OF assms(2), of c b SetGraphOnline]) (auto simp: own_call_def)
next
  case (reset_graph a)
  then obtain c where c: "r = ResetGraphRecord c" "c = \<lparr>rc_address = a, rc_rpc_id = 0x200D, rc_payload = [], rc_response = Some 4\<rparr>"
    by (auto simp: new_reset_graph_def bind_res_Inr_iff new_checked_eq)
  then show ?thesis using assms(3) reset_graph
    by (intro own_only [OF assms(2), of c b ResetGraph]) (auto simp: own_call_def reset_graph_from_binary_def dest!: parse_call)
next
  case (persist_graph a)
  then obtain c where c: "r = PersistGraphRecord c" "c = \<lparr>rc_address = a, rc_rpc_id = 0x200E, rc_payload = [], rc_response = Some 4\<rparr>"
    by (auto simp: new_persist_graph_def bind_res_Inr_iff new_checked_eq)
  then show ?thesis using assms(3) persist_graph
    by (intro own_only [OF assms(2), of c b PersistGraph]) (auto simp: own_call_def persist_graph_from_binary_def dest!: parse_call)
next
  case (clear_data a)
  then obtain c where c: "r = ClearDataRecord c" "c = \<lparr>rc_address = a, rc_rpc_id = 0x200C, rc_payload = [], rc_response = Some 4\<rparr>"
    by (auto simp: new_clear_data_def bind_res_Inr_iff new_checked_eq)
  then show ?thesis using assms(3) clear_data
    by (intro own_only [OF assms(2), of c b ClearData]) (auto simp: own_call_def clear_data_from_binary_def dest!: parse_call)
next
  case clear_configs
  then obtain c where c: "r = ClearConfigVariablesRecord c" "c = \<lparr>rc_address = 8, rc_rpc_id = 0x2A0C, rc_payload = [], rc_response = Some 4\<rparr>"
    by (auto simp: new_clear_configs_def bind_res_Inr_iff new_checked_eq)
  then show ?thesis using assms(3) clear_configs
    by (intro own_only [OF assms(2), of c b ClearConfigVariables]) (auto simp: own_call_def clear_configs_from_binary_def dest!: parse_call)
qed auto

end
