(* ===== verification/Update_Script.thy ===== *)
theory Update_Script
  imports Update_Records
begin

text \<open>
  Update scripts (\<open>iotile/core/hw/update/script.py\<close>): the header with its hash, the loop that takes a script
  apart, and what a script that was encoded gives when it is read.
\<close>

section \<open>Scripts\<close>

definition SCRIPT_MAGIC :: int where "SCRIPT_MAGIC = 0x1F2E3D4C"

definition encode_records :: "update_record list \<Rightarrow> byte list res" where
  "encode_records records = bind_res (map_res encode_record records) (\<lambda>bs. Inr (concat bs))"

text \<open>The header with the hash of everything after it.\<close>

definition seal_script :: "byte list \<Rightarrow> byte list res" where
  "seal_script records_blob =
     bind_res (pack_fields [(4, SCRIPT_MAGIC), (4, int (length records_blob + 24))]) (\<lambda>header.
       let blob = header @ records_blob in Inr (take 16 (sha256 blob) @ blob))"

definition encode_script :: "update_record list \<Rightarrow> byte list res" where
  "encode_script records = bind_res (encode_records records) seal_script"

text \<open>The header that was found: its length, and whether the script is authenticated, checked and encrypted.\<close>

record script_header =
  header_length :: nat
  authenticated :: bool
  integrity_checked :: bool
  sh_encrypted :: bool

definition parse_header :: "byte list \<Rightarrow> script_header res" where
  "parse_header script_data =
     (if length script_data < 24 then Inl ArgumentError
      else let embedded_hash = take 16 script_data;
               magic = le_int (take 4 (drop 16 script_data));
               total_length = le_int (take 4 (drop 20 script_data))
        in if magic \<noteq> SCRIPT_MAGIC then Inl ArgumentError
           else if total_length \<noteq> int (length script_data) then Inl ArgumentError
           else if embedded_hash \<noteq> take 16 (sha256 (drop 16 script_data)) then Inl ArgumentError
           else Inr \<lparr>header_length = 24, authenticated = False, integrity_checked = True, sh_encrypted = False\<rparr>)"

text \<open>
  The variables of the loop: the position, the records found, and the bytes that are being matched, with their
  number of records and what matched before.
\<close>

record script_state =
  ss_curr :: nat
  ss_records :: "update_record list"
  ss_count :: nat
  ss_data :: "byte list"
  ss_partial :: "update_record option"
  ss_offset :: nat

definition new_script_state :: "nat \<Rightarrow> script_state" where
  "new_script_state start =
     \<lparr>ss_curr = start, ss_records = [], ss_count = 0, ss_data = [], ss_partial = None, ss_offset = 0\<rparr>"

text \<open>One more binary record; then the record is matched.\<close>

definition add_record :: "byte list \<Rightarrow> script_state \<Rightarrow> script_state" where
  "add_record script st =
     (let total_length = nat (le_int (take 4 (drop (ss_curr st) script))) in
      st\<lparr>ss_data := ss_data st @ take total_length (drop (ss_curr st) script), ss_count := ss_count st + 1,
         ss_curr := ss_curr st + total_length\<rparr>)"

definition match_records ::
  "node_grammar \<Rightarrow> record_class list \<Rightarrow> bool \<Rightarrow> int \<Rightarrow> script_state \<Rightarrow> match_outcome res option" where
  "match_records g plugins show_rpcs rtype st =
     (if show_rpcs \<and> rtype = record_type SendRPC
      then bind_run (class_from_binary g SendRPC (drop 8 (ss_data st))) (\<lambda>r. Some (Inr (Matched r)))
      else if show_rpcs \<and> rtype = record_type SendErrorCheckingRPC
      then bind_run (class_from_binary g SendErrorCheckingRPC (drop 8 (ss_data st))) (\<lambda>r. Some (Inr (Matched r)))
      else record_from_binary g plugins (ss_data st) (ss_count st))"

text \<open>The accumulator is reset and the record kept.\<close>

definition found_record :: "update_record \<Rightarrow> script_state \<Rightarrow> script_state" where
  "found_record r st =
     st\<lparr>ss_count := 0, ss_data := [], ss_partial := None, ss_offset := 0, ss_records := ss_records st @ [r]\<rparr>"

definition handle_outcome ::
  "bool \<Rightarrow> int \<Rightarrow> match_outcome res \<Rightarrow> script_state \<Rightarrow> script_state res" where
  "handle_outcome allow_unknown rtype result st =
     (case result of
        Inr (Matched r) \<Rightarrow> Inr (found_record r st)
      | Inr (DeferMatching None) \<Rightarrow> Inr st
      | Inr (DeferMatching (Some p)) \<Rightarrow> Inr (st\<lparr>ss_partial := Some p, ss_offset := ss_curr st\<rparr>)
      | Inl err \<Rightarrow>
          if err \<noteq> DataError then Inl err
          else if ss_count st > 1 \<and> ss_partial st \<noteq> None
          then Inr (found_record (the (ss_partial st)) (st\<lparr>ss_curr := ss_offset st\<rparr>))
          else if \<not> allow_unknown then Inl DataError
          else if ss_count st > 1 then Inl ArgumentError
          else Inr (found_record (UnknownRecord rtype (drop 8 (ss_data st))) st))"

partial_function (option) script_loop ::
  "node_grammar \<Rightarrow> record_class list \<Rightarrow> bool \<Rightarrow> bool \<Rightarrow> byte list \<Rightarrow> script_state \<Rightarrow> update_record list res option" where
  "script_loop g plugins allow_unknown show_rpcs script st =
     (if ss_curr st \<ge> length script then Some (Inr (ss_records st))
      else if length script - ss_curr st < 8 then Some (Inl ArgumentError)
      else case match_records g plugins show_rpcs (le_int (take 1 (drop (ss_curr st + 4) script))) (add_record script st) of
        None \<Rightarrow> None
      | Some result \<Rightarrow>
          (case handle_outcome allow_unknown (le_int (take 1 (drop (ss_curr st + 4) script))) result (add_record script st) of
             Inl e \<Rightarrow> Some (Inl e)
           | Inr st1 \<Rightarrow> script_loop g plugins allow_unknown show_rpcs script st1))"

definition script_from_binary ::
  "node_grammar \<Rightarrow> record_class list \<Rightarrow> bool \<Rightarrow> bool \<Rightarrow> byte list \<Rightarrow> update_record list res option" where
  "script_from_binary g plugins allow_unknown show_rpcs script =
     (case parse_header script of
        Inl e \<Rightarrow> Some (Inl e)
      | Inr header \<Rightarrow> script_loop g plugins allow_unknown show_rpcs script (new_script_state (header_length header)))"

section \<open>The loop\<close>

declare script_loop.simps [simp del]

text \<open>The state after one more binary record.\<close>

definition take_frame :: "byte list \<Rightarrow> script_state \<Rightarrow> script_state" where
  "take_frame b st = st\<lparr>ss_data := ss_data st @ b, ss_count := ss_count st + 1, ss_curr := ss_curr st + length b\<rparr>"

lemma loop_frame:
  assumes "is_frame b" "ss_curr st = length pre"
  shows "script_loop g plugins allow show_rpcs (pre @ b @ post) st =
    (case match_records g plugins show_rpcs (le_int (take 1 (drop 4 b))) (take_frame b st) of
       None \<Rightarrow> None
     | Some result \<Rightarrow>
         (case handle_outcome allow (le_int (take 1 (drop 4 b))) result (take_frame b st) of
            Inl e \<Rightarrow> Some (Inl e)
          | Inr st1 \<Rightarrow> script_loop g plugins allow show_rpcs (pre @ b @ post) st1))"
proof -
  have b: "8 \<le> length b" "le_int (take 4 b) = int (length b)" using assms(1) by (auto simp: is_frame_def)
  have h: "take 4 (b @ post) = take 4 b" "take 1 (drop 4 (b @ post)) = take 1 (drop 4 b)" using b(1) by simp_all
  have rtype: "take 1 (drop (ss_curr st + 4) (pre @ b @ post)) = take 1 (drop 4 b)"
    using assms(2) h(2) by simp
  have add: "add_record (pre @ b @ post) st = take_frame b st"
    using assms(2) b h by (simp add: add_record_def take_frame_def)
  have "\<not> ss_curr st \<ge> length (pre @ b @ post)" "\<not> length (pre @ b @ post) - ss_curr st < 8"
    using assms(2) b(1) by auto
  then show ?thesis by (subst script_loop.simps) (simp only: rtype add if_False)
qed

lemma loop_end: "ss_curr st = length script \<Longrightarrow> script_loop g plugins allow show_rpcs script st = Some (Inr (ss_records st))"
  by (subst script_loop.simps) simp

lemma loop_short:
  "ss_curr st = length pre \<Longrightarrow> post \<noteq> [] \<Longrightarrow> length post < 8 \<Longrightarrow>
   script_loop g plugins allow show_rpcs (pre @ post) st = Some (Inl ArgumentError)"
  by (subst script_loop.simps) simp

text \<open>A state between two records.\<close>

definition ready :: "script_state \<Rightarrow> bool" where
  "ready st \<longleftrightarrow> ss_count st = 0 \<and> ss_data st = [] \<and> ss_partial st = None \<and> ss_offset st = 0"

definition step_over :: "byte list \<Rightarrow> update_record \<Rightarrow> script_state \<Rightarrow> script_state" where
  "step_over b r st = st\<lparr>ss_curr := ss_curr st + length b, ss_records := ss_records st @ [r]\<rparr>"

lemma step_over_simps [simp]:
  "ready (step_over b r st) = ready st" "ss_curr (step_over b r st) = ss_curr st + length b"
  "ss_records (step_over b r st) = ss_records st @ [r]"
  by (simp_all add: step_over_def ready_def)

text \<open>The bytes that the loop reads as one record, wherever they stand.\<close>

definition reads_as :: "node_grammar \<Rightarrow> record_class list \<Rightarrow> bool \<Rightarrow> byte list \<Rightarrow> update_record \<Rightarrow> bool" where
  "reads_as g plugins allow b r \<longleftrightarrow>
     (\<forall>pre post st. ready st \<longrightarrow> ss_curr st = length pre \<longrightarrow>
        script_loop g plugins allow False (pre @ b @ post) st =
        script_loop g plugins allow False (pre @ b @ post) (step_over b r st))"

lemma ready_frame:
  assumes "ready st"
  shows "ss_data (take_frame b st) = b" "ss_count (take_frame b st) = 1"
    "found_record r (take_frame b st) = step_over b r st"
  using assms by (simp_all add: found_record_def take_frame_def step_over_def ready_def)

lemma match_records_plain: "match_records g plugins False t st = record_from_binary g plugins (ss_data st) (ss_count st)"
  by (simp add: match_records_def)

lemma reads_asI:
  assumes "is_frame b" "record_from_binary g plugins b 1 = Some x"
    and "\<And>st. ready st \<Longrightarrow> handle_outcome allow (le_int (take 1 (drop 4 b))) x (take_frame b st) = Inr (step_over b r st)"
  shows "reads_as g plugins allow b r"
  unfolding reads_as_def
proof (intro allI impI)
  fix pre post :: "byte list" and st assume st: "ready st" "ss_curr st = length pre"
  show "script_loop g plugins allow False (pre @ b @ post) st =
      script_loop g plugins allow False (pre @ b @ post) (step_over b r st)"
    unfolding loop_frame [OF assms(1) st(2)] match_records_plain ready_frame(1,2) [OF st(1)] assms(2)
    by (simp add: assms(3) [OF st(1)] del: One_nat_def)
qed

lemma matched_reads:
  assumes "is_frame b" "record_from_binary g plugins b 1 = Some (Inr (Matched r))"
  shows "reads_as g plugins allow b r"
  by (rule reads_asI [OF assms]) (simp add: handle_outcome_def ready_frame)

lemma unknown_reads:
  assumes "known_classes plugins t = []" "frame_record t contents = Inr b"
  shows "reads_as g plugins True b (UnknownRecord t contents)"
proof (rule reads_asI)
  note f = framed_frame [OF assms(2)]
  show "is_frame b" by (rule f)
  show "record_from_binary g plugins b 1 = Some (Inl DataError)"
    using f assms(1) by (simp add: record_from_binary_def is_frame_def Let_def)
  show "handle_outcome True (le_int (take 1 (drop 4 b))) (Inl DataError) (take_frame b st) =
      Inr (step_over b (UnknownRecord t contents) st)" if "ready st" for st
    using f ready_frame(1,2) [OF that, of b] ready_frame(3) [OF that] by (simp add: handle_outcome_def)
qed

lemma reads_all:
  assumes "list_all2 (reads_as g plugins allow) bs rs" "ready st" "ss_curr st = length pre"
  shows "script_loop g plugins allow False (pre @ concat bs @ post) st =
    script_loop g plugins allow False (pre @ concat bs @ post)
      (st\<lparr>ss_curr := length pre + length (concat bs), ss_records := ss_records st @ rs\<rparr>)"
  using assms
proof (induction bs rs arbitrary: st pre rule: list_all2_induct)
  case Nil
  then have "st\<lparr>ss_curr := length pre + length (concat []), ss_records := ss_records st @ []\<rparr> = st" by simp
  then show ?case by simp
next
  case (Cons b bs r rs)
  have "script_loop g plugins allow False (pre @ b @ concat bs @ post) st =
      script_loop g plugins allow False (pre @ b @ concat bs @ post) (step_over b r st)"
    using Cons.hyps(1) Cons.prems unfolding reads_as_def by blast
  also have "\<dots> = script_loop g plugins allow False ((pre @ b) @ concat bs @ post)
      ((step_over b r st)\<lparr>ss_curr := length (pre @ b) + length (concat bs), ss_records := ss_records (step_over b r st) @ rs\<rparr>)"
    using Cons.IH [of "step_over b r st" "pre @ b"] Cons.prems by simp
  finally show ?case by (simp add: step_over_def add.assoc)
qed

section \<open>Config variables read back\<close>

lemma encode_checked_frame:
  assumes "encode_checked 8 n p = Inr b"
  shows "is_frame b" "le_int (take 1 (drop 4 b)) = 4"
    "parse_rpc_info (drop 8 b) = Inr \<lparr>ri_command = n, ri_address = 8, ri_response_size = 8, ri_payload = p\<rparr>"
proof -
  let ?c = "\<lparr>rc_address = 8, rc_rpc_id = n, rc_payload = p, rc_response = Some 4\<rparr>"
  obtain contents where c: "call_contents ?c = Inr contents" "frame_record 4 contents = Inr b"
    using assms by (auto simp: encode_checked_def new_checked_call_def new_call_def bind_res_Inr_iff)
  show "is_frame b" "le_int (take 1 (drop 4 b)) = 4" using framed_frame [OF c(2)] by simp_all
  show "parse_rpc_info (drop 8 b) = Inr \<lparr>ri_command = n, ri_address = 8, ri_response_size = 8, ri_payload = p\<rparr>"
    using framed_frame(4) [OF c(2)] parse_call [OF c(1)] by (simp add: call_info_def)
qed

text \<open>The loop collects records as long as the call that ends the variable has not come.\<close>

definition deferred :: "byte list \<Rightarrow> nat \<Rightarrow> script_state \<Rightarrow> script_state" where
  "deferred d n st = st\<lparr>ss_data := d, ss_count := n, ss_curr := ss_curr st + length d\<rparr>"

definition config_info :: "int \<Rightarrow> byte list \<Rightarrow> rpc_info" where
  "config_info n p = \<lparr>ri_command = n, ri_address = 8, ri_response_size = 8, ri_payload = p\<rparr>"

lemma set_config_known: "SetConfig \<in> set plugins \<Longrightarrow> SetConfig \<in> set (known_classes plugins 4)"
  by (simp add: known_classes_def)

text \<open>The first call of a variable is deferred.\<close>

lemma begin_deferred:
  assumes "plugins_ok plugins" "SetConfig \<in> set plugins" "encode_checked 8 0x2A07 p = Inr b"
  shows "record_from_binary g plugins b 1 = Some (Inr (DeferMatching None))"
proof -
  note f = encode_checked_frame [OF assms(3)]
  let ?i = "config_info 0x2A07 p"
  have q: "match_quality c (drop 8 b) 1 = Some (Inr (call_quality ?i c))" if "c \<in> set (known_classes plugins 4)" for c
    using that f(3) by (intro match_quality_call) (auto simp: known_classes_type config_info_def)
  have "best_match (drop 8 b) 1 (known_classes plugins 4) (0, None) = Some (Inr (call_quality ?i SetConfig, Some SetConfig))"
  proof (rule best_match_unique [OF q])
    fix c assume c: "c \<in> set (known_classes plugins 4)" "c \<noteq> SetConfig"
    then show "call_quality ?i c < call_quality ?i SetConfig"
      by (simp add: call_quality_def own_call_def config_info_def)
  qed (use set_config_known [OF assms(2)] in \<open>auto simp: call_quality_def own_call_def config_info_def\<close>)
  moreover have "call_quality ?i SetConfig = 1000" by (simp add: call_quality_def own_call_def config_info_def)
  ultimately have "best_record g (known_classes plugins 4) (drop 8 b) 1 = Some (Inr (DeferMatching None))"
    by (simp add: best_record_def)
  moreover have "known_classes plugins 4 \<noteq> []" using set_config_known [OF assms(2)] by auto
  ultimately show ?thesis using f by (simp add: record_from_binary_def is_frame_def Let_def)
qed

text \<open>Further records are matched by their calls.\<close>

lemma calls_matched:
  assumes "SetConfig \<in> set plugins" "n > 1" "8 \<le> length d" "le_int (take 1 (drop 4 d)) = 4"
    and "parse_multiple_rpcs d [] = Some (Inr rpcs)" "match_config_calls rpcs = Inr q" "q > 0"
  shows "record_from_binary g plugins d n =
    (if q = DeferMatch then Some (Inr (DeferMatching None))
     else bind_run (Some (set_config_from_calls rpcs)) (\<lambda>r. Some (Inr (if q = PartialMatch then DeferMatching (Some r) else Matched r))))"
proof -
  have "set_config_quality d n = Some (Inr q)" using assms(2,5,6) by (simp add: set_config_quality_def)
  then have "best_match d n (known_classes plugins 4) (0, None) = Some (Inr (q, Some SetConfig))"
    using best_match_multi assms(2,7) set_config_known [OF assms(1)] by blast
  then have "best_record g (known_classes plugins 4) d n = (if q = DeferMatch then Some (Inr (DeferMatching None))
     else bind_run (Some (set_config_from_calls rpcs)) (\<lambda>r. Some (Inr (if q = PartialMatch then DeferMatching (Some r) else Matched r))))"
    using assms(5) by (simp add: best_record_def set_config_from_binary_def)
  moreover have "known_classes plugins 4 \<noteq> []" using set_config_known [OF assms(1)] by auto
  ultimately show ?thesis using assms(2-4) by (simp add: record_from_binary_def Let_def)
qed

definition call_frames :: "(byte list \<times> rpc_info) list \<Rightarrow> bool" where
  "call_frames bis = list_all (\<lambda>(b, i). is_frame b \<and> le_int (take 1 (drop 4 b)) = 4 \<and> parse_rpc_info (drop 8 b) = Inr i) bis"

definition pushes :: "(byte list \<times> rpc_info) list \<Rightarrow> bool" where
  "pushes bis = list_all (\<lambda>(b, i). ri_command i = 0x2A08 \<and> ri_address i = 8) bis"

lemma take_frame_deferred: "ready st \<Longrightarrow> take_frame b (deferred d n st) = deferred (d @ b) (n + 1) st"
  by (simp add: take_frame_def deferred_def)

lemma match_pushes:
  assumes "pushes bis"
  shows "match_config_calls (i0 # map snd bis @ [i]) =
    Inr (if ri_command i = 0x2A09 \<and> ri_address i = 8 then PerfectMatch else DeferMatch)"
proof -
  have "py_nth (i0 # map snd bis @ [i]) (- 1) = Inr i" by (simp add: py_nth_def nth_append)
  then show ?thesis using assms
    by (auto simp: match_config_calls_def pushes_def list_all_iff simp del: map_append)
qed

lemma next_call:
  assumes "plugins_ok plugins" "SetConfig \<in> set plugins" "call_frames ((b0, i0) # bis @ [(b, i)])" "pushes bis"
  shows "record_from_binary g plugins (b0 @ concat (map fst bis) @ b) (length bis + 2) =
    (if ri_command i = 0x2A09 \<and> ri_address i = 8
     then bind_run (Some (set_config_from_calls (i0 # map snd bis @ [i]))) (\<lambda>r. Some (Inr (Matched r)))
     else Some (Inr (DeferMatching None)))"
proof -
  have p: "parse_multiple_rpcs (b0 @ concat (map fst bis) @ b) [] = Some (Inr (i0 # map snd bis @ [i]))"
    using parse_multiple_map [of "(b0, i0) # bis @ [(b, i)]" "[]"] assms(3) by (simp add: call_frames_def)
  have "8 \<le> length b0" "le_int (take 1 (drop 4 b0)) = 4" using assms(3) by (auto simp: call_frames_def is_frame_def)
  then have "8 \<le> length (b0 @ concat (map fst bis) @ b)" "le_int (take 1 (drop 4 (b0 @ concat (map fst bis) @ b))) = 4"
    by auto
  from calls_matched [OF assms(2) _ this p match_pushes [OF assms(4)], of "length bis + 2" g] show ?thesis by simp
qed

lemma deferred_push:
  assumes "plugins_ok plugins" "SetConfig \<in> set plugins" "call_frames ((b0, i0) # bis @ [(b, i)])" "pushes bis"
    and "ready st" "length pre = ss_curr st + length (b0 @ concat (map fst bis))" "\<not> (ri_command i = 0x2A09 \<and> ri_address i = 8)"
  shows "script_loop g plugins allow False (pre @ b @ post) (deferred (b0 @ concat (map fst bis)) (length bis + 1) st) =
    script_loop g plugins allow False (pre @ b @ post) (deferred (b0 @ concat (map fst (bis @ [(b, i)]))) (length bis + 2) st)"
proof -
  have b: "is_frame b" using assms(3) by (simp add: call_frames_def)
  have at: "ss_curr (deferred (b0 @ concat (map fst bis)) (length bis + 1) st) = length pre"
    using assms(6) by (simp add: deferred_def)
  have data: "ss_data (deferred d n st) = d" "ss_count (deferred d n st) = n" for d n by (simp_all add: deferred_def)
  show ?thesis
    unfolding loop_frame [OF b at] match_records_plain take_frame_deferred [OF assms(5)] data
    using next_call [OF assms(1-4), of g] assms(7) by (simp add: handle_outcome_def)
qed

lemma deferred_pushes:
  assumes "plugins_ok plugins" "SetConfig \<in> set plugins" "call_frames ((b0, i0) # bis @ ps)" "pushes (bis @ ps)"
    and "ready st" "length pre = ss_curr st + length (b0 @ concat (map fst bis))"
  shows "script_loop g plugins allow False (pre @ concat (map fst ps) @ post)
      (deferred (b0 @ concat (map fst bis)) (length bis + 1) st) =
    script_loop g plugins allow False (pre @ concat (map fst ps) @ post)
      (deferred (b0 @ concat (map fst (bis @ ps))) (length (bis @ ps) + 1) st)"
  using assms(3-6)
proof (induction ps arbitrary: bis pre)
  case (Cons p ps)
  obtain b i where p: "p = (b, i)" by fastforce
  have "script_loop g plugins allow False (pre @ b @ concat (map fst ps) @ post)
      (deferred (b0 @ concat (map fst bis)) (length bis + 1) st) =
    script_loop g plugins allow False (pre @ b @ concat (map fst ps) @ post)
      (deferred (b0 @ concat (map fst (bis @ [(b, i)]))) (length bis + 2) st)"
    using Cons.prems p by (intro deferred_push [OF assms(1,2)]) (auto simp: call_frames_def pushes_def)
  also have "\<dots> = script_loop g plugins allow False ((pre @ b) @ concat (map fst ps) @ post)
      (deferred (b0 @ concat (map fst ((bis @ [(b, i)]) @ ps))) (length ((bis @ [(b, i)]) @ ps) + 1) st)"
    using Cons.IH [of "bis @ [(b, i)]" "pre @ b"] Cons.prems p by simp
  finally show ?case using p by simp
qed simp

text \<open>The begin call.\<close>

lemma begin_reads:
  assumes "plugins_ok plugins" "SetConfig \<in> set plugins" "encode_checked 8 0x2A07 p = Inr b" "ready st" "ss_curr st = length pre"
  shows "script_loop g plugins allow False (pre @ b @ post) st =
    script_loop g plugins allow False (pre @ b @ post) (deferred b 1 st)"
proof -
  have "take_frame b st = deferred b 1 st" using assms(4) by (simp add: take_frame_def deferred_def ready_def)
  moreover have "ss_data (deferred d n st) = d" "ss_count (deferred d n st) = n" for d n by (simp_all add: deferred_def)
  ultimately show ?thesis
    using loop_frame [OF encode_checked_frame(1) [OF assms(3)] assms(5)] begin_deferred [OF assms(1-3)]
    by (simp add: match_records_plain handle_outcome_def)
qed

lemma concat_chunks:
  "concat (map (\<lambda>i. take 20 (drop i d)) (py_range s (length d) 20)) = drop s (d :: 'a list)"
proof (induction "length d - s" arbitrary: s rule: less_induct)
  case less
  show ?case
  proof (cases "s < length d")
    case True
    have "concat (map (\<lambda>i. take 20 (drop i d)) (py_range (s + 20) (length d) 20)) = drop (s + 20) d"
      using less [of "s + 20"] True by simp
    then have "concat (map (\<lambda>i. take 20 (drop i d)) (py_range s (length d) 20)) = take 20 (drop s d) @ drop 20 (drop s d)"
      using True by (subst py_range.simps) (simp add: add.commute)
    then show ?thesis by (simp only: append_take_drop_id)
  qed (simp add: py_range.simps)
qed

text \<open>A config variable reads back.\<close>

lemma encode_set_configE:
  assumes "encode_set_config target n d = Inr b" "slot_ok target"
  obtains t p start ps stop where "slot_encode target = Inr t" "length t = 8" "pack_fields [(2, n)] = Inr p"
    "encode_checked 8 0x2A07 (p @ t) = Inr start" "map_res (encode_checked 8 0x2A08) (config_chunks d) = Inr ps"
    "encode_checked 8 0x2A09 [] = Inr stop" "b = start @ concat ps @ stop"
proof -
  obtain t p start ps stop where *: "slot_encode target = Inr t" "pack_fields [(2, n)] = Inr p"
    "encode_checked 8 0x2A07 (p @ fill_chars 8 t) = Inr start" "map_res (encode_checked 8 0x2A08) (config_chunks d) = Inr ps"
    "encode_checked 8 0x2A09 [] = Inr stop" "b = start @ concat ps @ stop"
    using assms(1) unfolding encode_set_config_def bind_res_Inr_iff by blast
  moreover have "length t = 8" using slot_encode_length [OF assms(2) *(1)] .
  ultimately show thesis using that fill_chars_same [of 8 t] by simp
qed

lemma map_res_frames:
  "map_res (encode_checked 8 0x2A08) ds = Inr ps \<Longrightarrow>
   \<exists>bis. ps = map fst bis \<and> call_frames bis \<and> pushes bis \<and> map ri_payload (map snd bis) = ds"
proof (induction ds arbitrary: ps)
  case (Cons d ds)
  then obtain b bs where b: "encode_checked 8 0x2A08 d = Inr b" "map_res (encode_checked 8 0x2A08) ds = Inr bs" "ps = b # bs"
    by (auto simp: bind_res_Inr_iff)
  then obtain bis where "bs = map fst bis \<and> call_frames bis \<and> pushes bis \<and> map ri_payload (map snd bis) = ds"
    using Cons.IH by blast
  then show ?case using encode_checked_frame [OF b(1)] b(3)
    by (intro exI [of _ "(b, \<lparr>ri_command = 0x2A08, ri_address = 8, ri_response_size = 8, ri_payload = d\<rparr>) # bis"])
      (auto simp: call_frames_def pushes_def)
qed (simp add: call_frames_def pushes_def)

lemma set_config_reads:
  assumes "plugins_ok plugins" "SetConfig \<in> set plugins" "slot_ok target" "encode_set_config target n d = Inr b"
  shows "reads_as g plugins allow b (SetConfigRecord target n d)"
  unfolding reads_as_def
proof (intro allI impI)
  fix pre post :: "byte list" and st assume st: "ready st" "ss_curr st = length pre"
  obtain t p start ps stop where b: "slot_encode target = Inr t" "length t = 8" "pack_fields [(2, n)] = Inr p"
    "encode_checked 8 0x2A07 (p @ t) = Inr start" "map_res (encode_checked 8 0x2A08) (config_chunks d) = Inr ps"
    "encode_checked 8 0x2A09 [] = Inr stop" "b = start @ concat ps @ stop"
    by (rule encode_set_configE [OF assms(4,3)])
  obtain bis where bis: "ps = map fst bis" "call_frames bis" "pushes bis" "map ri_payload (map snd bis) = config_chunks d"
    using map_res_frames [OF b(5)] by blast
  let ?first = "config_info 0x2A07 (p @ t)" and ?last = "config_info 0x2A09 []"
  note f0 = encode_checked_frame [OF b(4)] and f = encode_checked_frame [OF b(6)]
  have frames: "call_frames ((start, ?first) # bis @ [(stop, ?last)])" "call_frames ((start, ?first) # [] @ bis)"
    using f0 f bis(2) by (auto simp: call_frames_def config_info_def)
  let ?S = "pre @ b @ post" and ?d = "start @ concat (map fst bis)"
  have "script_loop g plugins allow False ?S st = script_loop g plugins allow False ?S (deferred start 1 st)"
    using begin_reads [OF assms(1,2) b(4) st, of g allow "concat ps @ stop @ post"] b(7) by simp
  also have "\<dots> = script_loop g plugins allow False ?S (deferred ?d (length bis + 1) st)"
    using deferred_pushes [OF assms(1,2) frames(2) _ st(1), of "pre @ start" g allow "stop @ post"] bis(1,3) st(2) b(7)
    by (simp add: pushes_def)
  also have "\<dots> = script_loop g plugins allow False ?S (step_over b (SetConfigRecord target n d) st)"
  proof -
    have at: "ss_curr (deferred ?d (length bis + 1) st) = length (pre @ ?d)" using st(2) by (simp add: deferred_def)
    have data: "ss_data (deferred d n st) = d" "ss_count (deferred d n st) = n" for d n by (simp_all add: deferred_def)
    have u: "unpack_exact [2, 8] (p @ t) = Inr [n, le_int t]"
      using unpack_bytes [OF b(3), of t] unpack_fields_app [of p "[2]" "[8]" t] b(2) by (auto simp: unpack_exact_def)
    have lp: "length p = 2" using unpack_bytes [OF b(3), of t] by simp
    have "concat (map ri_payload (map snd bis)) = d"
      using bis(4) concat_chunks [of d 0] by (simp add: config_chunks_def)
    then have "set_config_from_calls (?first # map snd bis @ [?last]) = Inr (SetConfigRecord target n d)"
      using u lp b(1,2) slot_encode_inverse [OF assms(3) b(1)]
      by (simp add: set_config_from_calls_def py_nth_def config_info_def butlast_append)
    then have "record_from_binary g plugins (?d @ stop) (length bis + 1 + 1) =
        Some (Inr (Matched (SetConfigRecord target n d)))"
      using next_call [OF assms(1,2) frames(1) bis(3), of g] by (simp add: config_info_def)
    moreover have "found_record r (deferred (?d @ stop) m st) = step_over b r st" for r m
      using st(1) b(7) bis(1) by (simp add: found_record_def deferred_def step_over_def ready_def)
    moreover have S: "?S = (pre @ ?d) @ stop @ post" using b(7) bis(1) by simp
    ultimately show ?thesis
      unfolding S
      using loop_frame [OF f(1) at, of g plugins allow False post]
      by (simp add: match_records_plain take_frame_deferred [OF st(1)] data handle_outcome_def del: append_assoc)
  qed
  finally show "script_loop g plugins allow False ?S st =
      script_loop g plugins allow False ?S (step_over b (SetConfigRecord target n d) st)" .
qed

text \<open>Every record that was built reads back.\<close>

lemma built_reads:
  assumes "built g plugins allow r" "plugins_ok plugins" "encode_record r = Inr b"
  shows "reads_as g plugins allow b r"
proof (cases "(\<exists>s n d. r = SetConfigRecord s n d) \<or> (\<exists>t d. r = UnknownRecord t d)")
  case True
  from assms(1) show ?thesis
  proof cases
    case (set_config target n d)
    then show ?thesis using set_config_reads [OF assms(2)] assms(3) by simp
  next
    case (unknown t contents)
    then show ?thesis using unknown_reads assms(3) by simp
  qed (use True in \<open>auto simp: new_set_device_tag_def new_add_node_def new_add_streamer_def new_set_constant_def
    new_set_online_def new_reset_graph_def new_persist_graph_def new_clear_data_def new_clear_configs_def Let_def
    bind_res_Inr_iff\<close>)
next
  case False
  then show ?thesis using built_matched [OF assms] matched_reads by blast
qed

lemma built_all_read:
  assumes "list_all (built g plugins allow) rs" "plugins_ok plugins" "map_res encode_record rs = Inr bs"
  shows "list_all2 (reads_as g plugins allow) bs rs"
  using assms built_reads by (auto simp: map_res_all2 list_all2_conv_all_nth list_all_length)

text \<open>A sealed script is read from position 24 on.\<close>

lemma sealed_from_binary:
  assumes "seal_script blob = Inr script"
  shows "\<exists>pre. script = pre @ blob \<and> length pre = 24 \<and> ready (new_script_state 24) \<and> ss_curr (new_script_state 24) = length pre \<and>
    script_from_binary g plugins allow show_rpcs script = script_loop g plugins allow show_rpcs (pre @ blob) (new_script_state 24)"
proof -
  obtain h where h: "pack_fields [(4, SCRIPT_MAGIC), (4, int (length blob + 24))] = Inr h" "script = take 16 (sha256 (h @ blob)) @ h @ blob"
    using assms unfolding seal_script_def Let_def bind_res_Inr_iff by blast
  have u: "unpack_fields [4, 4] (h @ blob) = [SCRIPT_MAGIC, int (length blob + 24)]" "length h = 8"
    using unpack_bytes [OF h(1), of blob] by (simp_all del: unpack_fields.simps)
  have "parse_header script = Inr \<lparr>header_length = 24, authenticated = False, integrity_checked = True, sh_encrypted = False\<rparr>"
    using u h(2) by (simp add: parse_header_def Let_def)
  then show ?thesis using u(2) h(2)
    by (intro exI [of _ "take 16 (sha256 (h @ blob)) @ h"]) (simp add: script_from_binary_def new_script_state_def ready_def)
qed

text \<open>The records before the point of interest are read.\<close>

lemma sealed_prefix:
  assumes "list_all (built g plugins allow) rs" "plugins_ok plugins" "encode_records rs = Inr blob"
    and "seal_script (blob @ post) = Inr script"
  shows "\<exists>pre st. ready st \<and> ss_curr st = length pre \<and> ss_records st = rs \<and>
    script_from_binary g plugins allow False script = script_loop g plugins allow False (pre @ post) st"
proof -
  obtain bs where bs: "map_res encode_record rs = Inr bs" "blob = concat bs"
    using assms(3) by (auto simp: encode_records_def bind_res_Inr_iff)
  obtain pre where pre: "length pre = 24" "ready (new_script_state 24)" "ss_curr (new_script_state 24) = length pre"
    "script_from_binary g plugins allow False script =
       script_loop g plugins allow False (pre @ concat bs @ post) (new_script_state 24)"
    using sealed_from_binary [OF assms(4), of g plugins allow False] bs(2) by auto
  let ?st = "(new_script_state 24)\<lparr>ss_curr := length pre + length (concat bs), ss_records := rs\<rparr>"
  have "script_from_binary g plugins allow False script = script_loop g plugins allow False ((pre @ concat bs) @ post) ?st"
    using pre(4) reads_all [OF built_all_read [OF assms(1,2) bs(1)] pre(2,3), of post] by (simp add: new_script_state_def)
  moreover have "ready ?st" "ss_curr ?st = length (pre @ concat bs)" "ss_records ?st = rs"
    using pre(2) by (simp_all add: ready_def)
  ultimately show ?thesis by blast
qed

text \<open>The outcomes that occur leave no partial match.\<close>

lemma handle_outcome_cases:
  assumes "handle_outcome allow t x st = Inr st'" "ss_partial st = None" "\<And>p. x \<noteq> Inr (DeferMatching (Some p))"
  shows "st' = st \<or> (\<exists>r. st' = found_record r st)"
  using assms by (auto simp: handle_outcome_def split: sum.splits match_outcome.splits option.splits if_splits)

lemma match_records_returns:
  assumes "list_all is_frame bs" "ss_data st = concat bs" "ss_count st = length bs" "bs \<noteq> []"
  shows "match_records g plugins show_rpcs t st \<noteq> None \<and> match_records g plugins show_rpcs t st \<noteq> Some (Inr (DeferMatching (Some p)))"
proof -
  have "bind_run (Some x) (\<lambda>r. Some (Inr (Matched r))) \<noteq> Some (Inr (DeferMatching (Some p))) \<and>
      bind_run (Some x) (\<lambda>r. Some (Inr (Matched r))) \<noteq> None" for x :: "update_record res"
    by (cases x) simp_all
  then show ?thesis
    using record_from_binary_returns [of "length bs" bs g plugins p] assms by (simp add: match_records_def)
qed

lemma loop_returns:
  assumes "list_all is_frame bs" "length rest < 8" "list_all is_frame acc" "ss_data st = concat acc"
    and "ss_count st = length acc" "ss_partial st = None" "ss_curr st = length pre"
  shows "script_loop g plugins allow show_rpcs (pre @ concat bs @ rest) st \<noteq> None"
  using assms(1,3-7)
proof (induction bs arbitrary: pre acc st)
  case Nil
  then show ?case using assms(2) loop_end [of st pre g plugins allow show_rpcs] loop_short [of st pre rest g plugins allow show_rpcs]
    by (cases "rest = []") simp_all
next
  case (Cons b bs)
  have b: "is_frame b" using Cons.prems(1) by simp
  let ?st = "take_frame b st"
  have st: "ss_data ?st = concat (acc @ [b])" "ss_count ?st = length (acc @ [b])" "ss_partial ?st = None"
      "ss_curr ?st = length (pre @ b)" "list_all is_frame (acc @ [b])"
    using Cons.prems b by (simp_all add: take_frame_def)
  let ?t = "le_int (take 1 (drop 4 b))"
  obtain x where x: "match_records g plugins show_rpcs ?t ?st = Some x" "\<And>p. x \<noteq> Inr (DeferMatching (Some p))"
    using match_records_returns [OF st(5,1,2), of g plugins show_rpcs ?t] by fastforce
  show ?case
  proof (cases "handle_outcome allow ?t x ?st")
    case (Inl e)
    then show ?thesis using x loop_frame [OF b Cons.prems(6), of g plugins allow show_rpcs "concat bs @ rest"] by simp
  next
    case (Inr st')
    have next_loop: "script_loop g plugins allow show_rpcs (pre @ b @ concat bs @ rest) st =
        script_loop g plugins allow show_rpcs (pre @ b @ concat bs @ rest) st'"
      using x Inr loop_frame [OF b Cons.prems(6), of g plugins allow show_rpcs "concat bs @ rest"] by simp
    have "script_loop g plugins allow show_rpcs ((pre @ b) @ concat bs @ rest) st' \<noteq> None"
      using handle_outcome_cases [OF Inr st(3) x(2)]
    proof
      assume "st' = ?st"
      then show ?thesis using Cons.prems(1) st by (intro Cons.IH [of "acc @ [b]"]) simp_all
    next
      assume "\<exists>r. st' = found_record r ?st"
      then show ?thesis using Cons.prems(1) st by (intro Cons.IH [of "[]"]) (auto simp: found_record_def)
    qed
    then show ?thesis using next_loop by simp
  qed
qed

text \<open>A record of length zero after the first call of a variable: the loop stays where it is.\<close>

lemma stuck_step:
  assumes "plugins_ok plugins" "SetConfig \<in> set plugins" "encode_checked 8 0x2A07 p = Inr start" "4 \<le> length rest"
    and "ready st" "length pre = ss_curr st + length start" "n > 0"
  shows "ss_curr (deferred start n st) = length pre"
    "add_record (pre @ [0, 0, 0, 0] @ rest) (deferred start n st) = deferred start (n + 1) st"
    "match_records g plugins False t (deferred start (n + 1) st) = Some (Inr (DeferMatching None))"
    "handle_outcome allow t (Inr (DeferMatching None)) (deferred start (n + 1) st) = Inr (deferred start (n + 1) st)"
proof -
  note f = encode_checked_frame [OF assms(3)]
  have "parse_multiple_rpcs start [] = Some (Inr [config_info 0x2A07 p])"
    using parse_multiple_map [of "[(start, config_info 0x2A07 p)]" "[]"] f by (simp add: config_info_def)
  moreover have "match_config_calls [config_info 0x2A07 p] = Inr DeferMatch"
    by (simp add: match_config_calls_def py_nth_def config_info_def)
  moreover have "8 \<le> length start" using f(1) by (simp add: is_frame_def)
  ultimately have m: "record_from_binary g plugins start (n + 1) = Some (Inr (DeferMatching None))"
    using calls_matched [OF assms(2), of "n + 1" start "[config_info 0x2A07 p]" "DeferMatch" g] f(2) assms(7) by simp
  then show "match_records g plugins False t (deferred start (n + 1) st) = Some (Inr (DeferMatching None))"
    by (simp add: match_records_plain deferred_def)
  show "ss_curr (deferred start n st) = length pre" using assms(6) by (simp add: deferred_def)
  then show "add_record (pre @ [0, 0, 0, 0] @ rest) (deferred start n st) = deferred start (n + 1) st"
    using assms(6) by (simp add: add_record_def deferred_def)
qed (simp add: handle_outcome_def)

lemma stuck:
  assumes "plugins_ok plugins" "SetConfig \<in> set plugins" "encode_checked 8 0x2A07 p = Inr start" "4 \<le> length rest"
    and "ready st" "length pre = ss_curr st + length start"
  shows "script_loop g plugins allow False (pre @ [0, 0, 0, 0] @ rest) (deferred start 1 st) = None"
proof (rule ccontr)
  let ?S = "pre @ [0, 0, 0, 0] @ rest"
  note step = stuck_step [OF assms]
  assume "\<not> ?thesis"
  then obtain y where "script_loop g plugins allow False ?S (deferred start 1 st) = Some y" by blast
  then have "\<not> (g = g \<and> plugins = plugins \<and> allow = allow \<and> \<not> False \<and> ?S = ?S \<and> (\<exists>n > 0. deferred start 1 st = deferred start n st))"
  proof (rule script_loop.raw_induct [where P = "\<lambda>g' plugins' allow' show_rpcs S st' y.
      \<not> (g' = g \<and> plugins' = plugins \<and> allow' = allow \<and> \<not> show_rpcs \<and> S = ?S \<and> (\<exists>n > 0. st' = deferred start n st))", rotated])
    fix loop g' plugins' allow' show_rpcs S st' y'
    assume IH: "\<And>g' plugins' allow' show_rpcs S st' y'. loop g' plugins' allow' show_rpcs S st' = Some y' \<Longrightarrow>
        \<not> (g' = g \<and> plugins' = plugins \<and> allow' = allow \<and> \<not> show_rpcs \<and> S = ?S \<and> (\<exists>n > 0. st' = deferred start n st))"
      and body: "(if length S \<le> ss_curr st' then Some (Inr (ss_records st'))
        else if length S - ss_curr st' < 8 then Some (Inl ArgumentError)
        else case match_records g' plugins' show_rpcs (le_int (take 1 (drop (ss_curr st' + 4) S))) (add_record S st') of
          None \<Rightarrow> None
        | Some result \<Rightarrow>
            (case handle_outcome allow' (le_int (take 1 (drop (ss_curr st' + 4) S))) result (add_record S st') of
               Inl e \<Rightarrow> Some (Inl e) | Inr st1 \<Rightarrow> loop g' plugins' allow' show_rpcs S st1)) = Some y'"
    show "\<not> (g' = g \<and> plugins' = plugins \<and> allow' = allow \<and> \<not> show_rpcs \<and> S = ?S \<and> (\<exists>n > 0. st' = deferred start n st))"
    proof
      assume "g' = g \<and> plugins' = plugins \<and> allow' = allow \<and> \<not> show_rpcs \<and> S = ?S \<and> (\<exists>n > 0. st' = deferred start n st)"
      then obtain n where n: "n > 0" "st' = deferred start n st" and
        same: "g' = g" "plugins' = plugins" "allow' = allow" "show_rpcs = False" "S = ?S" by blast
      have far: "\<not> length S \<le> ss_curr st'" "\<not> length S - ss_curr st' < 8"
        using step(1) [OF n(1)] n(2) same(5) assms(4) by auto
      have "loop g plugins allow False ?S (deferred start (n + 1) st) = Some y'"
        using body far unfolding same(1-4) n(2) unfolding same(5) step(2) [OF n(1)] step(3) [OF n(1)]
        by (simp only: if_False option.case step(4) [OF n(1)] sum.case)
      from IH [OF this] show False by auto
    qed
  qed
  then show False by auto
qed

lemma script_read_back:
  assumes "list_all (built g plugins allow) rs" "plugins_ok plugins" "encode_script rs = Inr b"
  shows "script_from_binary g plugins allow False b = Some (Inr rs)"
proof -
  obtain blob where "encode_records rs = Inr blob" "seal_script (blob @ []) = Inr b"
    using assms(3) by (auto simp: encode_script_def bind_res_Inr_iff)
  from sealed_prefix [OF assms(1,2) this] loop_end [of _ _ g plugins allow False] show ?thesis by fastforce
qed

section \<open>Properties\<close>

text \<open>
  C6: update scripts.  For records of all kinds that their constructors made from fitting arguments, also config
  variables that turn into many calls, reading the encoded script with any set of installed plugins gives
  exactly these records again.
\<close>

theorem script_roundtrip:
  assumes "list_all (built g plugins allow) rs" "plugins_ok plugins" "encode_script rs = Inr b"
  shows "script_from_binary g plugins allow False b = Some (Inr rs)"
  using assms by (rule script_read_back)

text \<open>
  Reading a script returns.  If a script after its header is cut into records of the lengths that their
  headers give, with a rest shorter than a header, then \<open>FromBinary\<close> returns or raises, whatever the types and
  the contents of the records are.
\<close>

theorem framed_script_returns:
  assumes "drop 24 script = concat bs @ rest" "list_all is_frame bs" "length rest < 8"
  shows "script_from_binary g plugins allow show_rpcs script \<noteq> None"
proof (cases "parse_header script")
  case (Inr h)
  then have h: "header_length h = 24" "24 \<le> length script" by (auto simp: parse_header_def Let_def split: if_splits)
  have "script = take 24 script @ concat bs @ rest" using assms(1) append_take_drop_id [of 24 script] by simp
  moreover have "script_loop g plugins allow show_rpcs (take 24 script @ concat bs @ rest) (new_script_state 24) \<noteq> None"
    using h(2) by (intro loop_returns [OF assms(2,3), of "[]"]) (simp_all add: new_script_state_def)
  ultimately show ?thesis using Inr h(1) by (simp add: script_from_binary_def)
qed (simp add: script_from_binary_def)

text \<open>
  Reading a script need not return.  After the call that begins a config variable a record of length zero is
  added again and again: a script with this in it makes \<open>FromBinary\<close> loop, whatever comes before and after.
\<close>

theorem zero_length_hangs:
  assumes "list_all (built g plugins allow) rs" "plugins_ok plugins" "SetConfig \<in> set plugins"
    and "encode_records rs = Inr blob" "encode_checked 8 0x2A07 p = Inr start" "4 \<le> length rest"
    and "seal_script (blob @ start @ [0, 0, 0, 0] @ rest) = Inr script"
  shows "script_from_binary g plugins allow False script = None"
proof -
  obtain pre st where st: "ready st" "ss_curr st = length pre" "script_from_binary g plugins allow False script =
      script_loop g plugins allow False (pre @ start @ [0, 0, 0, 0] @ rest) st"
    using sealed_prefix [OF assms(1,2,4,7)] by blast
  have "script_loop g plugins allow False (pre @ start @ [0, 0, 0, 0] @ rest) st =
      script_loop g plugins allow False ((pre @ start) @ [0, 0, 0, 0] @ rest) (deferred start 1 st)"
    using begin_reads [OF assms(2,3,5) st(1,2), of g allow "[0, 0, 0, 0] @ rest"] by simp
  also have "\<dots> = None"
    using st(2) by (intro stuck [OF assms(2,3,5,6) st(1)]) simp
  finally show ?thesis using st(3) by simp
qed

text \<open>
  A config variable without its end is lost.  If a script ends after the call that begins a variable and any
  number of calls that push data, \<open>FromBinary\<close> reports no error and leaves these calls out.
\<close>

theorem unfinished_variable_lost:
  assumes "list_all (built g plugins allow) rs" "plugins_ok plugins" "SetConfig \<in> set plugins"
    and "encode_records rs = Inr blob" "encode_checked 8 0x2A07 p = Inr start"
    and "map_res (encode_checked 8 0x2A08) ds = Inr ps" "seal_script (blob @ start @ concat ps) = Inr script"
  shows "script_from_binary g plugins allow False script = Some (Inr rs)"
proof -
  obtain pre st where st: "ready st" "ss_curr st = length pre" "ss_records st = rs" "script_from_binary g plugins allow False script =
      script_loop g plugins allow False (pre @ start @ concat ps) st"
    using sealed_prefix [OF assms(1,2,4,7)] by blast
  obtain bis where bis: "ps = map fst bis" "call_frames bis" "pushes bis" using map_res_frames [OF assms(6)] by blast
  have frames: "call_frames ((start, config_info 0x2A07 p) # [] @ bis)" "pushes ([] @ bis)"
    using encode_checked_frame [OF assms(5)] bis by (auto simp: call_frames_def config_info_def)
  have "script_loop g plugins allow False (pre @ start @ concat ps) st =
      script_loop g plugins allow False (pre @ start @ concat ps) (deferred start 1 st)"
    using begin_reads [OF assms(2,3,5) st(1,2)] .
  also have "\<dots> = script_loop g plugins allow False ((pre @ start) @ concat (map fst bis) @ [])
      (deferred (start @ concat (map fst bis)) (length bis + 1) st)"
    using deferred_pushes [OF assms(2,3) frames st(1), of "pre @ start" g allow "[]"] bis(1) st(2) by simp
  also have "\<dots> = Some (Inr rs)"
    using st(2,3) by (subst loop_end) (simp_all add: deferred_def)
  finally show ?thesis using st(4) by simp
qed

text \<open>
  A call that sets the device tag with a payload of the wrong length cannot be skipped: the format error of
  \<open>struct\<close> is not the \<open>ValueError\<close> that \<open>SetDeviceTagRecord.MatchQuality\<close> expects, so it leaves \<open>FromBinary\<close>,
  also when unknown records are allowed.
\<close>

theorem wrong_tag_raises:
  assumes "list_all (built g plugins allow) rs" "plugins_ok plugins" "encode_records rs = Inr blob"
    and "encode_record (SendErrorCheckingRPCRecord c) = Inr b" "rc_rpc_id c = 0x100B" "length (rc_payload c) \<noteq> 10"
    and "seal_script (blob @ b @ post) = Inr script"
  shows "script_from_binary g plugins allow False script = Some (Inl StructError)"
proof -
  obtain pre st where st: "ready st" "ss_curr st = length pre" "script_from_binary g plugins allow False script =
      script_loop g plugins allow False (pre @ b @ post) st"
    using sealed_prefix [OF assms(1,2,3,7)] by blast
  obtain contents where c: "call_contents c = Inr contents" "frame_record 4 contents = Inr b"
    using assms(4) by (auto elim: encode_callE)
  have q: "match_quality SetDeviceTag contents 1 = Some (Inl StructError)"
    using parse_call [OF c(1)] assms(5,6) by (simp add: device_tag_quality_def unpack_exact_def)
  obtain cs where cs: "known_classes plugins 4 = SendErrorCheckingRPC # SetDeviceTag # cs"
    by (simp add: known_classes_def core_classes_def)
  have "best_record g (known_classes plugins 4) contents 1 = Some (Inl StructError)"
    using q unfolding cs by (simp add: best_record_def single_quality_def)
  then have "record_from_binary g plugins b 1 = Some (Inl StructError)"
    using framed_frame [OF c(2)] cs by (simp add: record_from_binary_def is_frame_def Let_def)
  then show ?thesis
    using st(3) ready_frame(1,2) [OF st(1), of b]
    by (simp add: loop_frame [OF framed_frame(1) [OF c(2)] st(2)] match_records_plain handle_outcome_def)
qed

section \<open>Examples\<close>

lemma seal_total:
  assumes "length blob < 1000"
  shows "\<exists>script. seal_script blob = Inr script"
proof -
  have "\<exists>h. pack_fields [(4, SCRIPT_MAGIC), (4, int (length blob + 24))] = Inr h"
    using assms by (subst pack_fields_Inr_iff) (simp add: SCRIPT_MAGIC_def)
  then show ?thesis by (auto simp: seal_script_def Let_def)
qed

definition sample_records :: "update_record list" where
  "sample_records =
     [projr (new_reset_graph 8), projr (new_set_constant \<lparr>stream_type = 2, stream_id = 1, system = False\<rparr> 7 8),
      SetConfigRecord \<lparr>controller = False, slot = Some 3\<rparr> 0x8000 (replicate 25 7),
      projr (new_set_device_tag (Some 5) (Some (version_text 1 2)) None None), UnknownRecord 9 [1, 2]]"

lemma sample_built: "list_all (built g sg_classes True) sample_records" "plugins_ok sg_classes"
  "SetConfig \<in> set sg_classes"
proof -
  have r: "new_reset_graph 8 = Inr (projr (new_reset_graph 8))"
    "new_set_constant \<lparr>stream_type = 2, stream_id = 1, system = False\<rparr> 7 8 =
      Inr (projr (new_set_constant \<lparr>stream_type = 2, stream_id = 1, system = False\<rparr> 7 8))"
    "new_set_device_tag (Some 5) (Some (version_text 1 2)) None None =
      Inr (projr (new_set_device_tag (Some 5) (Some (version_text 1 2)) None None))"
    by code_simp+
  have "\<exists>major \<ge> 0. \<exists>minor \<ge> 0. Some (version_text 1 2) = Some (version_text major minor)"
    by (rule exI [of _ 1], rule conjI, simp, rule exI [of _ 2]) simp
  then have "tag_ok (Some 5) (Some (version_text 1 2))" by (simp add: tag_ok_def)
  moreover have "tag_ok None None" by (simp add: tag_ok_def)
  moreover have "slot_ok \<lparr>controller = False, slot = Some 3\<rparr>" "known_classes sg_classes 9 = []"
    "stream_encodable \<lparr>stream_type = 2, stream_id = 1, system = False\<rparr>"
    by code_simp+
  moreover show "plugins_ok sg_classes" "SetConfig \<in> set sg_classes" by (simp_all add: plugins_ok_def sg_classes_def)
  ultimately show "list_all (built g sg_classes True) sample_records"
    using built.reset_graph [OF _ r(1)] built.set_constant [OF _ _ r(2)] built.device_tag [OF _ _ _ r(3)]
      built.set_config [of sg_classes] built.unknown [of True]
    by (simp add: sample_records_def sg_classes_def)
qed

lemma sample_encoded: "\<exists>blob. encode_records sample_records = Inr blob \<and> length blob < 300"
proof -
  have "case encode_records sample_records of Inl _ \<Rightarrow> False | Inr blob \<Rightarrow> length blob < 300" by code_simp
  then show ?thesis by (auto split: sum.splits)
qed

theorem script_roundtrip_witness:
  "\<exists>b. encode_script sample_records = Inr b \<and>
     script_from_binary (\<lambda>_. None) sg_classes True False b = Some (Inr sample_records)"
proof -
  obtain blob where "encode_records sample_records = Inr blob" "length blob < 300" using sample_encoded by blast
  moreover obtain b where "seal_script blob = Inr b" using seal_total [of blob] calculation by auto
  ultimately have "encode_script sample_records = Inr b" by (simp add: encode_script_def)
  then show ?thesis using script_roundtrip [OF sample_built(1,2)] by blast
qed

theorem framed_script_returns_witness:
  "script_from_binary (\<lambda>_. None) [] False False (replicate 24 0 @ [9, 0, 0, 0, 77, 0, 0, 0, 1] @ [1, 2]) \<noteq> None"
proof -
  have "list_all is_frame [[9, 0, 0, 0, 77, 0, 0, 0, 1]]" by code_simp
  from framed_script_returns [OF _ this, of "replicate 24 0 @ [9, 0, 0, 0, 77, 0, 0, 0, 1] @ [1, 2]" "[1, 2]"]
  show ?thesis by simp
qed

lemma sample_start: "\<exists>start. encode_checked 8 0x2A07 [0, 128, 3, 0, 0, 0, 0, 0, 0, 1] = Inr start \<and> length start < 100"
proof -
  have "case encode_checked 8 0x2A07 [0, 128, 3, 0, 0, 0, 0, 0, 0, 1] of Inl _ \<Rightarrow> False | Inr b \<Rightarrow> length b < 100" by code_simp
  then show ?thesis by (auto split: sum.splits)
qed

theorem zero_length_hangs_witness:
  "\<exists>blob start script. encode_records sample_records = Inr blob \<and>
     seal_script (blob @ start @ [0, 0, 0, 0] @ [4, 0, 0, 0]) = Inr script \<and>
     script_from_binary (\<lambda>_. None) sg_classes True False script = None"
proof -
  obtain blob where b: "encode_records sample_records = Inr blob" "length blob < 300" using sample_encoded by blast
  obtain start where s: "encode_checked 8 0x2A07 [0, 128, 3, 0, 0, 0, 0, 0, 0, 1] = Inr start" "length start < 100"
    using sample_start by blast
  obtain script where script: "seal_script (blob @ start @ [0, 0, 0, 0] @ [4, 0, 0, 0]) = Inr script"
    using seal_total [of "blob @ start @ [0, 0, 0, 0] @ [4, 0, 0, 0]"] b(2) s(2) by auto
  show ?thesis using zero_length_hangs [OF sample_built b(1) s(1) _ script] b(1) script by auto
qed

theorem unfinished_variable_lost_witness:
  "\<exists>blob start script. encode_records sample_records = Inr blob \<and> start \<noteq> [] \<and> seal_script (blob @ start) = Inr script \<and>
     script_from_binary (\<lambda>_. None) sg_classes True False script = Some (Inr sample_records)"
proof -
  obtain blob where b: "encode_records sample_records = Inr blob" "length blob < 300" using sample_encoded by blast
  obtain start where s: "encode_checked 8 0x2A07 [0, 128, 3, 0, 0, 0, 0, 0, 0, 1] = Inr start" "length start < 100"
    using sample_start by blast
  obtain script where script: "seal_script (blob @ start @ concat []) = Inr script"
    using seal_total [of "blob @ start @ concat []"] b(2) s(2) by auto
  have "start \<noteq> []" using encode_checked_frame(1) [OF s(1)] by (auto simp: is_frame_def)
  moreover have "script_from_binary (\<lambda>_. None) sg_classes True False script = Some (Inr sample_records)"
    by (rule unfinished_variable_lost [OF sample_built b(1) s(1) _ script, of "[]"]) simp
  ultimately show ?thesis using b(1) script by auto
qed

theorem wrong_tag_raises_witness:
  "\<exists>blob b script. encode_records sample_records = Inr blob \<and> seal_script (blob @ b) = Inr script \<and>
     script_from_binary (\<lambda>_. None) sg_classes True False script = Some (Inl StructError)"
proof -
  let ?c = "\<lparr>rc_address = 8, rc_rpc_id = 0x100B, rc_payload = [1, 2], rc_response = Some 4\<rparr>"
  obtain blob where b: "encode_records sample_records = Inr blob" "length blob < 300" using sample_encoded by blast
  have "case encode_record (SendErrorCheckingRPCRecord ?c) of Inl _ \<Rightarrow> False | Inr b \<Rightarrow> length b < 100" by code_simp
  then obtain r where r: "encode_record (SendErrorCheckingRPCRecord ?c) = Inr r" "length r < 100"
    by (auto split: sum.splits)
  obtain script where script: "seal_script (blob @ r @ []) = Inr script"
    using seal_total [of "blob @ r @ []"] b(2) r(2) by auto
  show ?thesis using wrong_tag_raises [OF sample_built(1,2) b(1) r(1) _ _ script] b(1) script by auto
qed

end
