(* ===== verification/Processors.thy ===== *)
theory Processors
  imports Nodes
begin

text \<open>
  The processing functions of nodes (\<open>iotile/sg/processors.py\<close>).  They read the inputs of a node through
  their walkers, and may call an RPC or mark a streamer.  Both calls are parameters acting on a state of
  the caller, \<open>'m\<close>.  A function whose loop does not end gives \<open>None\<close>.
\<close>

section \<open>The functions\<close>

text \<open>The readings made here carry no time and no stream: \<open>IOTileReading(0, 0, value)\<close>.\<close>

definition result_reading :: "int \<Rightarrow> reading" where
  "result_reading v = new_reading 0 0 v None None None"

definition skip_inputs :: "input_ref list \<Rightarrow> sensor_log \<Rightarrow> sensor_log" where
  "skip_inputs refs log = fold in_skip_all refs log"

definition copy_all_a :: "input_ref list \<Rightarrow> sensor_log \<Rightarrow> (reading list, sensor_log) act option" where
  "copy_all_a inputs log =
     (case inputs of
        [] \<Rightarrow> Some (Inl PyTypeError, log)
      | a # others \<Rightarrow> map_option (\<lambda>(res, log1).
            case res of Inl err \<Rightarrow> (Inl err, log1) | Inr out \<Rightarrow> (Inr out, skip_inputs others log1))
          (drain (in_count a) (in_pop a) log []))"

definition copy_latest_a :: "input_ref list \<Rightarrow> sensor_log \<Rightarrow> (reading list, sensor_log) act option" where
  "copy_latest_a inputs log =
     (case inputs of
        [] \<Rightarrow> Some (Inl PyTypeError, log)
      | a # others \<Rightarrow>
          (case in_selector a log of
             None \<Rightarrow> Some (Inl AttributeError, log)
           | Some sel \<Rightarrow>
               if sel_inexhaustible sel then
                 (case in_pop a log of
                    (Inl err, log1) \<Rightarrow> Some (Inl err, log1)
                  | (Inr r, log1) \<Rightarrow> Some (Inr [r], skip_inputs others log1))
               else map_option (\<lambda>(res, log1).
                   case res of
                     Inl err \<Rightarrow> (Inl err, log1)
                   | Inr out \<Rightarrow> (Inr (if out = [] then [] else [last out]), skip_inputs others log1))
                 (drain (in_count a) (in_pop a) log [])))"

definition copy_count_a :: "input_ref list \<Rightarrow> sensor_log \<Rightarrow> (reading list, sensor_log) act" where
  "copy_count_a inputs log =
     (case inputs of
        [] \<Rightarrow> (Inl PyTypeError, log)
      | a # others \<Rightarrow>
          (Inr [result_reading (in_count a log)], skip_inputs others (in_skip_all a log)))"

definition call_rpc ::
  "(int \<Rightarrow> int \<Rightarrow> 'm \<Rightarrow> (int, 'm) act) \<Rightarrow> input_ref list \<Rightarrow> sensor_log \<times> 'm
   \<Rightarrow> (reading list, sensor_log \<times> 'm) act" where
  "call_rpc rpc inputs lm =
     (case lm of (log, m) \<Rightarrow>
      (case py_nth inputs 1 of
         Inl err \<Rightarrow> (Inl err, (log, m))
       | Inr b \<Rightarrow>
           (case in_pop b log of
              (Inl err, log1) \<Rightarrow>
                (if err = HardwareError \<or> err = StreamEmptyError
                 then (Inr [], (skip_inputs inputs log1, m)) else (Inl err, (log1, m)))
            | (Inr v, log1) \<Rightarrow>
                (case rpc (drop_bit 16 (r_value v)) (r_value v AND 0xFFFF) m of
                   (Inl err, m1) \<Rightarrow>
                     (if err = HardwareError \<or> err = StreamEmptyError
                      then (Inr [], (skip_inputs inputs log1, m1)) else (Inl err, (log1, m1)))
                 | (Inr response, m1) \<Rightarrow>
                     (Inr [result_reading response], (skip_inputs inputs log1, m1))))))"

definition trigger_streamer ::
  "(int \<Rightarrow> 'm \<Rightarrow> (unit, 'm) act) \<Rightarrow> input_ref list \<Rightarrow> sensor_log \<times> 'm
   \<Rightarrow> (reading list, sensor_log \<times> 'm) act" where
  "trigger_streamer mark inputs lm =
     (case lm of (log, m) \<Rightarrow>
      (case (case py_nth inputs 1 of Inl err \<Rightarrow> (Inl err, log) | Inr b \<Rightarrow> in_pop b log) of
         (Inl err, log1) \<Rightarrow>
           (if err = StreamEmptyError then (Inr [], (skip_inputs inputs log1, m))
            else (Inl err, (skip_inputs inputs log1, m)))
       | (Inr r, log1) \<Rightarrow>
           (case mark (r_value r) m of
              (Inl err, m1) \<Rightarrow>
                (if err = ArgumentError then (Inr [], (skip_inputs inputs log1, m1))
                 else (Inl err, (skip_inputs inputs log1, m1)))
            | (Inr _, m1) \<Rightarrow> (Inr [result_reading 0], (skip_inputs inputs log1, m1)))))"

definition subtract_afromb :: "input_ref list \<Rightarrow> sensor_log \<Rightarrow> (reading list, sensor_log) act" where
  "subtract_afromb inputs log =
     (let catch = (\<lambda>err log1. if err = StreamEmptyError then (Inr [], log1) else (Inl err, log1)) in
      case py_nth inputs 0 of
        Inl err \<Rightarrow> catch err log
      | Inr a \<Rightarrow>
          (case in_pop a log of
             (Inl err, log1) \<Rightarrow> catch err log1
           | (Inr va, log1) \<Rightarrow>
               (case py_nth inputs 1 of
                  Inl err \<Rightarrow> catch err log1
                | Inr b \<Rightarrow>
                    (case in_pop b log1 of
                       (Inl err, log2) \<Rightarrow> catch err log2
                     | (Inr vb, log2) \<Rightarrow> (Inr [result_reading (r_value vb - r_value va)], log2)))))"

section \<open>Dispatch\<close>

text \<open>The functions that the package registers under \<open>iotile.sg_processor\<close>, by name.\<close>

datatype processor = Copy_all_a | Copy_latest_a | Copy_count_a | Call_rpc | Trigger_streamer | Subtract_afromb

definition find_processing_function :: "string \<Rightarrow> processor option" where
  "find_processing_function name = map_of
     [(''copy_all_a'', Copy_all_a), (''copy_latest_a'', Copy_latest_a), (''copy_count_a'', Copy_count_a),
      (''call_rpc'', Call_rpc), (''trigger_streamer'', Trigger_streamer),
      (''subtract_afromb'', Subtract_afromb)] name"

definition pair_state :: "'m \<Rightarrow> ('a, sensor_log) act \<Rightarrow> ('a, sensor_log \<times> 'm) act" where
  "pair_state m x = map_state (\<lambda>log. (log, m)) x"

fun run_processor ::
  "(int \<Rightarrow> int \<Rightarrow> 'm \<Rightarrow> (int, 'm) act) \<Rightarrow> (int \<Rightarrow> 'm \<Rightarrow> (unit, 'm) act) \<Rightarrow> processor \<Rightarrow> input_ref list
   \<Rightarrow> sensor_log \<times> 'm \<Rightarrow> (reading list, sensor_log \<times> 'm) act option" where
  "run_processor rpc mark Copy_all_a inputs (log, m) = map_option (pair_state m) (copy_all_a inputs log)"
| "run_processor rpc mark Copy_latest_a inputs (log, m) = map_option (pair_state m) (copy_latest_a inputs log)"
| "run_processor rpc mark Copy_count_a inputs (log, m) = Some (pair_state m (copy_count_a inputs log))"
| "run_processor rpc mark Call_rpc inputs lm = Some (call_rpc rpc inputs lm)"
| "run_processor rpc mark Trigger_streamer inputs lm = Some (trigger_streamer mark inputs lm)"
| "run_processor rpc mark Subtract_afromb inputs (log, m) = Some (pair_state m (subtract_afromb inputs log))"

text \<open>\<open>SGNode.process\<close>.\<close>

definition node_process ::
  "(int \<Rightarrow> int \<Rightarrow> 'm \<Rightarrow> (int, 'm) act) \<Rightarrow> (int \<Rightarrow> 'm \<Rightarrow> (unit, 'm) act) \<Rightarrow> processor sg_node
   \<Rightarrow> sensor_log \<times> 'm \<Rightarrow> (reading list, sensor_log \<times> 'm) act option" where
  "node_process rpc mark node lm =
     (case n_func node of
        None \<Rightarrow> Some (Inl ProcessingFunctionError, lm)
      | Some f \<Rightarrow> run_processor rpc mark f (map fst (n_inputs node)) lm)"

section \<open>Inputs that do not interfere\<close>

text \<open>Reading or skipping one input leaves the other inputs alone.\<close>

lemma log_skip_all_frame:
  "sl_engine (log_skip_all wid log) = sl_engine log"
  "wid' \<noteq> wid \<Longrightarrow> sl_walkers (log_skip_all wid log) wid' = sl_walkers log wid'"
  by (simp_all add: log_skip_all_eq)

lemma in_skip_all_other:
  assumes "ref' \<noteq> ref \<or> ref = None"
  shows "in_contents ref' (in_skip_all ref log) = in_contents ref' log"
    "in_readable ref' (in_skip_all ref log) = in_readable ref' log"
  using assms by (cases ref; cases ref'; auto simp: log_contents_def in_readable_def log_readable_def log_skip_all_frame)+

lemma in_skip_all_empty:
  assumes "in_readable ref log"
  shows "in_contents ref (in_skip_all ref log) = [] \<and> in_readable ref (in_skip_all ref log)"
proof (cases ref)
  case (Some wid)
  then obtain w where w: "sl_walkers log wid = Some w" "walker_ok (sl_engine log) w" "walker_finite w"
    using assms by (auto simp: in_readable_def log_readable_def)
  have "walker_finite (walker_skip_all (sl_engine log) w)"
    using w(3) by (cases w) (auto simp: walker_finite_def vw_skip_all_def)
  then show ?thesis using w Some walker_skip_all_ok [OF w(2)]
    by (simp add: log_skip_all_eq log_contents_def in_readable_def log_readable_def)
qed (simp add: in_readable_def)

lemma skip_inputs_other:
  assumes "ref = None \<or> ref \<notin> set refs"
  shows "in_contents ref (skip_inputs refs log) = in_contents ref log"
    "in_readable ref (skip_inputs refs log) = in_readable ref log"
proof -
  have "in_contents ref (skip_inputs refs log) = in_contents ref log \<and>
      in_readable ref (skip_inputs refs log) = in_readable ref log"
    using assms
  proof (induction refs arbitrary: log)
    case (Cons r refs)
    show ?case
    proof (cases "ref = None")
      case True
      then show ?thesis by (simp add: in_readable_def)
    next
      case False
      then have "ref \<noteq> r" "ref \<notin> set refs" using Cons.prems by auto
      then show ?thesis using Cons.IH in_skip_all_other [of ref r log] by (simp add: skip_inputs_def)
    qed
  qed (simp add: skip_inputs_def)
  then show "in_contents ref (skip_inputs refs log) = in_contents ref log"
    "in_readable ref (skip_inputs refs log) = in_readable ref log" by simp_all
qed

lemma skip_inputs_empty:
  assumes "\<And>ref. ref \<in> set refs \<Longrightarrow> in_readable ref log" "ref \<in> set refs"
  shows "in_contents ref (skip_inputs refs log) = []"
  using assms
proof (induction refs arbitrary: log)
  case (Cons r refs)
  have r: "in_readable r log" using Cons.prems(1) by simp
  have read: "in_readable x (in_skip_all r log)" if "x \<in> set refs" for x
    using that Cons.prems(1) in_skip_all_empty [OF r] in_skip_all_other(2) [of x r log]
    by (cases "x = r") auto
  show ?case
  proof (cases "ref \<in> set refs")
    case True
    then show ?thesis using Cons.IH [OF read] by (simp add: skip_inputs_def)
  next
    case False
    then have "ref = r" using Cons.prems(2) by simp
    then show ?thesis using False skip_inputs_other(1) [of r refs "in_skip_all r log"] in_skip_all_empty [OF r]
      by (simp add: skip_inputs_def)
  qed
qed simp

section \<open>Draining an input\<close>

lemma in_pop_frame:
  "sl_engine (snd (in_pop ref log)) = sl_engine log"
  "Some wid \<noteq> ref \<Longrightarrow> sl_walkers (snd (in_pop ref log)) wid = sl_walkers log wid"
  by (cases ref; simp add: log_pop_def on_walker_frame)+

lemma in_pop_other:
  assumes "x \<noteq> ref"
  shows "in_contents x (snd (in_pop ref log)) = in_contents x log"
    "in_readable x (snd (in_pop ref log)) = in_readable x log"
  using assms in_pop_frame
  by (cases x; simp add: in_readable_def log_readable_def log_contents_def)+

definition same_others :: "input_ref \<Rightarrow> sensor_log \<Rightarrow> sensor_log \<Rightarrow> bool" where
  "same_others ref log0 log \<longleftrightarrow>
     (\<forall>x. x \<noteq> ref \<longrightarrow> in_contents x log = in_contents x log0 \<and> in_readable x log = in_readable x log0)"

interpretation framed: reader "in_count ref" "in_pop ref" "in_contents ref"
  "\<lambda>log. in_readable ref log \<and> same_others ref log0 log" for ref log0
proof unfold_locales
  fix log r rs
  assume a: "in_readable ref log \<and> same_others ref log0 log" "in_contents ref log = r # rs"
  then obtain log' where log': "in_pop ref log = (Inr r, log')" "in_contents ref log' = rs" "in_readable ref log'"
    using input.pop_next by blast
  then have "same_others ref log0 log'"
    using a(1) in_pop_other [of _ ref log] by (simp add: same_others_def)
  with log' show "\<exists>log'. in_pop ref log = (Inr r, log') \<and> in_contents ref log' = rs \<and>
      in_readable ref log' \<and> same_others ref log0 log'" by blast
qed (use input.count_contents input.pop_empty in auto)

lemma drain_input:
  assumes "in_readable a log"
  shows "\<exists>log'. drain (in_count a) (in_pop a) log [] = Some (Inr (in_contents a log), log') \<and>
    in_contents a log' = [] \<and> in_readable a log' \<and> same_others a log log'"
  using framed.drain_all [of a log log "[]"] assms by (simp add: same_others_def)

text \<open>After the other inputs have been skipped, no input has anything left.\<close>

lemma skipped_all:
  assumes "in_contents a log1 = []" "same_others a log log1" "a \<notin> set others"
    "\<And>ref. ref \<in> set others \<Longrightarrow> in_readable ref log" "ref \<in> set (a # others)"
  shows "in_contents ref (skip_inputs others log1) = []"
proof (cases "ref \<in> set others")
  case True
  have "in_readable x log1" if "x \<in> set others" for x
    using that assms(2-4) by (metis same_others_def)
  then show ?thesis using skip_inputs_empty True by blast
next
  case False
  then show ?thesis using assms skip_inputs_other(1) [of ref others log1] by auto
qed

section \<open>Loops that end\<close>

lemma walker_pop_count:
  assumes "walker_pop e w = (Inr r, w')" "walker_finite w" "walker_count w > 0"
  shows "walker_count w' < walker_count w" "walker_finite w'"
  using assms
  by (cases w; auto simp: bw_pop_def vw_pop_def cw_pop_def vw_count_def walker_finite_def Let_def map_state_def
      split: if_splits prod.splits sum.splits option.splits)+

lemma drain_terminates:
  assumes "walker_finite (in_walker log a)"
  shows "\<exists>y. drain (in_count a) (in_pop a) log acc = Some y"
  using assms
proof (induction "nat (in_count a log)" arbitrary: log acc rule: less_induct)
  case less
  show ?case
  proof (cases "in_count a log > 0")
    case False
    then show ?thesis by (subst drain.simps) simp
  next
    case True
    then obtain wid w where w: "a = Some wid" "sl_walkers log wid = Some w"
      by (cases a) (auto simp: log_count_def split: option.splits)
    obtain res w' where pop: "walker_pop (sl_engine log) w = (res, w')" by fastforce
    let ?log' = "log\<lparr>sl_walkers := (sl_walkers log)(wid \<mapsto> w')\<rparr>"
    have in_pop: "in_pop a log = (res, ?log')"
      using w pop by (simp add: log_pop_def on_walker_def)
    show ?thesis
    proof (cases res)
      case (Inl err)
      then show ?thesis using in_pop by (subst drain.simps) simp
    next
      case (Inr r)
      have "walker_count w' < walker_count w" "walker_finite w'"
        using walker_pop_count [OF pop [unfolded Inr]] less.prems True w
        by (simp_all add: in_walker_def log_count_def)
      then have "\<exists>y. drain (in_count a) (in_pop a) ?log' (acc @ [r]) = Some y"
        using less.hyps [of ?log'] True w by (simp add: in_walker_def log_count_def)
      then show ?thesis using in_pop True Inr by (subst drain.simps) simp
    qed
  qed
qed

lemma copy_all_a_terminates:
  "walker_finite (in_walker log a) \<Longrightarrow> \<exists>y. copy_all_a (a # others) log = Some y"
  using drain_terminates [of log a "[]"] by (auto simp: copy_all_a_def)

lemma copy_latest_a_terminates: "\<exists>y. copy_latest_a inputs log = Some y"
proof (cases inputs)
  case (Cons a others)
  show ?thesis
  proof (cases "walker_finite (in_walker log a)")
    case True
    then obtain y where "drain (in_count a) (in_pop a) log [] = Some y" using drain_terminates by blast
    moreover obtain res log1 where "in_pop a log = (res, log1)" by fastforce
    ultimately show ?thesis using Cons
      by (cases "in_selector a log"; cases res) (simp_all add: copy_latest_a_def)
  next
    case False
    then obtain v where "in_walker log a = Virtual v" "match_type (vw_selector v) = ConstantType"
      by (auto simp: walker_finite_def split: walker.splits)
    then show ?thesis using Cons
      by (auto simp: copy_latest_a_def in_selector_def sel_inexhaustible_def split: prod.split sum.split)
  qed
qed (simp add: copy_latest_a_def)

section \<open>Properties\<close>

text \<open>
  The copying functions.  If the inputs are in step, run out of readings, and the first is none of
  the others, then \<open>copy_all_a\<close> gives all unread readings of the first input in order, \<open>copy_count_a\<close>
  gives their number, and \<open>copy_latest_a\<close> gives the newest one, or nothing if there is none.  Afterwards
  no input has an unread reading.
\<close>

theorem copy_functions:
  assumes "\<forall>ref \<in> set (a # others). in_readable ref log" "a \<notin> set others"
    "in_selector a log = Some sel" "\<not> sel_inexhaustible sel"
  shows "(\<exists>log'. copy_all_a (a # others) log = Some (Inr (in_contents a log), log') \<and>
      (\<forall>ref \<in> set (a # others). in_contents ref log' = [])) \<and>
    (\<exists>log'. copy_latest_a (a # others) log =
        Some (Inr (if in_contents a log = [] then [] else [last (in_contents a log)]), log') \<and>
      (\<forall>ref \<in> set (a # others). in_contents ref log' = [])) \<and>
    (\<exists>log'. copy_count_a (a # others) log = (Inr [result_reading (int (length (in_contents a log)))], log') \<and>
      (\<forall>ref \<in> set (a # others). in_contents ref log' = []))"
proof -
  have a: "in_readable a log" and others: "\<And>ref. ref \<in> set others \<Longrightarrow> in_readable ref log"
    using assms(1) by simp_all
  obtain log1 where log1: "drain (in_count a) (in_pop a) log [] = Some (Inr (in_contents a log), log1)"
    "in_contents a log1 = []" "same_others a log log1"
    using drain_input [OF a] by blast
  note all = skipped_all [OF log1(2,3) assms(2) others]
  have "same_others a log (in_skip_all a log)"
    using in_skip_all_other by (auto simp: same_others_def)
  with in_skip_all_empty [OF a] have "\<forall>ref \<in> set (a # others). in_contents ref (skip_inputs others (in_skip_all a log)) = []"
    using skipped_all [OF _ _ assms(2) others] by blast
  then show ?thesis using log1(1) all assms(3,4) input.count_contents [OF a]
    by (simp add: copy_all_a_def copy_latest_a_def copy_count_a_def)
qed

lemma full_log_inputs:
  "in_readable (Some 0) (full_log True)" "in_readable None (full_log True)"
  "in_contents (Some 0) (full_log True) = [sample_reading 1 10 1, sample_reading 1 20 2, sample_reading 1 30 3]"
  "in_selector (Some 0) (full_log True) = Some \<lparr>match_type = 0, match_id = Some 1, match_spec = 3\<rparr>"
  by (simp_all add: in_readable_def log_readable_def full_log_fields sample_defs log_contents_def in_selector_def
      in_walker_def)

theorem copy_functions_witness:
  "\<exists>log'. copy_latest_a [Some 0, None] (full_log True) = Some (Inr [sample_reading 1 30 3], log') \<and>
     in_contents (Some 0) log' = []"
  using copy_functions [of "Some 0" "[None]" "full_log True"] full_log_inputs
  by (auto simp: sel_inexhaustible_def)

text \<open>
  Copying all readings of a constant stream never returns.  The loop of \<open>copy_all_a\<close> runs while the
  count of its input is positive, and a constant that has a value can be popped for ever.
\<close>

theorem copy_all_a_constant:
  assumes "sl_walkers log wid = Some (Virtual v)" "match_type (vw_selector v) = ConstantType"
    "vw_reading v = Some r"
  shows "copy_all_a (Some wid # others) log = None"
proof -
  have "drain (in_count (Some wid)) (in_pop (Some wid)) log [] = None"
  proof (rule drain_diverges)
    show "in_count (Some wid) log > 0" using assms by (simp add: log_count_def vw_count_def)
    show "in_pop (Some wid) log = (Inr r, log)"
      using assms by (simp add: log_pop_def on_walker_def vw_pop_def fun_upd_idem)
  qed
  then show ?thesis by (simp add: copy_all_a_def)
qed

definition constant_log :: sensor_log where
  "constant_log = small_log\<lparr>sl_walkers := [5 \<mapsto> Virtual \<lparr>vw_selector = \<lparr>match_type = 2, match_id = Some 1, match_spec = 3\<rparr>,
     vw_reading = Some (sample_reading 8193 7 0)\<rparr>]\<rparr>"

theorem copy_all_a_constant_witness:
  "copy_all_a [Some 5, None] constant_log = None"
  by (rule copy_all_a_constant [where v = "\<lparr>vw_selector = \<lparr>match_type = 2, match_id = Some 1, match_spec = 3\<rparr>,
     vw_reading = Some (sample_reading 8193 7 0)\<rparr>"]) (simp_all add: constant_log_def)

text \<open>
  Subtraction.  With unread readings on both inputs the result is the oldest reading of the second
  minus the oldest of the first, and each is taken off its input.  If the first input has a reading and
  the second has none, there is no result, yet the reading of the first input is consumed; with nothing
  on the first input nothing changes.
\<close>

theorem subtract_consumes:
  assumes "in_readable a log" "in_readable b log" "a \<noteq> b"
  shows "case in_contents a log of
      [] \<Rightarrow> subtract_afromb [a, b] log = (Inr [], log)
    | x # xs \<Rightarrow> (case in_contents b log of
        [] \<Rightarrow> \<exists>log'. subtract_afromb [a, b] log = (Inr [], log') \<and> in_contents a log' = xs \<and> in_contents b log' = []
      | y # ys \<Rightarrow> \<exists>log'. subtract_afromb [a, b] log = (Inr [result_reading (r_value y - r_value x)], log') \<and>
          in_contents a log' = xs \<and> in_contents b log' = ys)"
proof (cases "in_contents a log")
  case Nil
  then show ?thesis using input.pop_empty [OF assms(1)] by (simp add: subtract_afromb_def py_nth_def)
next
  case (Cons x xs)
  obtain log1 where log1: "in_pop a log = (Inr x, log1)" "in_contents a log1 = xs"
    using input.pop_next [OF assms(1) Cons] by blast
  have b: "in_contents b log1 = in_contents b log" "in_readable b log1"
    using in_pop_other [of b a log] assms(2,3) log1(1) by simp_all
  show ?thesis
  proof (cases "in_contents b log")
    case Nil
    then have "in_pop b log1 = (Inl StreamEmptyError, log1)" using input.pop_empty [OF b(2)] b(1) by simp
    then show ?thesis using Cons Nil log1 b(1) by (simp add: subtract_afromb_def py_nth_def)
  next
    case (Cons y ys)
    then obtain log2 where log2: "in_pop b log1 = (Inr y, log2)" "in_contents b log2 = ys"
      using input.pop_next [OF b(2)] b(1) by metis
    have "in_contents a log2 = xs" using in_pop_other(1) [of a b log1] assms(3) log1(2) log2(1) by simp
    then show ?thesis using \<open>in_contents a log = x # xs\<close> Cons log1(1) log2
      by (simp add: subtract_afromb_def py_nth_def)
  qed
qed

theorem subtract_consumes_witness:
  "\<exists>log'. subtract_afromb [Some 0, None] (full_log True) = (Inr [], log') \<and>
     in_contents (Some 0) log' = [sample_reading 1 20 2, sample_reading 1 30 3]"
  using subtract_consumes [OF full_log_inputs(1,2)] full_log_inputs(3) by simp

text \<open>
  Calling an RPC.  The oldest reading of the second input gives the address in its upper and the RPC
  id in its lower 16 bits.  A response becomes the only result; if there is no such reading or the call
  raises a \<open>HardwareError\<close> there is no result; in each case all inputs are left without unread readings.
  Any other exception of the call escapes.
\<close>

theorem call_rpc_behaviour:
  assumes "\<forall>ref \<in> set (a # b # rest). in_readable ref log"
  shows "(in_contents b log = [] \<longrightarrow>
      (\<exists>log'. call_rpc rpc (a # b # rest) (log, m) = (Inr [], (log', m)) \<and>
        (\<forall>ref \<in> set (a # b # rest). in_contents ref log' = []))) \<and>
    (\<forall>r rs res m'. in_contents b log = r # rs \<longrightarrow> rpc (r_value r div 65536) (r_value r mod 65536) m = (res, m') \<longrightarrow>
      (\<exists>log'. case res of
        Inr v \<Rightarrow> call_rpc rpc (a # b # rest) (log, m) = (Inr [result_reading v], (log', m')) \<and>
          (\<forall>ref \<in> set (a # b # rest). in_contents ref log' = [])
      | Inl err \<Rightarrow>
          if err = HardwareError \<or> err = StreamEmptyError
          then call_rpc rpc (a # b # rest) (log, m) = (Inr [], (log', m')) \<and>
            (\<forall>ref \<in> set (a # b # rest). in_contents ref log' = [])
          else call_rpc rpc (a # b # rest) (log, m) = (Inl err, (log', m'))))"
proof -
  have b: "in_readable b log" using assms by simp
  have skip: "\<forall>ref \<in> set (a # b # rest). in_contents ref (skip_inputs (a # b # rest) l) = []"
    if "\<forall>ref \<in> set (a # b # rest). in_readable ref l" for l
    using that skip_inputs_empty by blast
  have nth: "py_nth (a # b # rest) 1 = Inr b" by (simp add: py_nth_def)
  show ?thesis
  proof (cases "in_contents b log")
    case Nil
    then show ?thesis
      using input.pop_empty [OF b] skip [OF assms] by (simp add: call_rpc_def nth)
  next
    case (Cons r rs)
    obtain log1 where log1: "in_pop b log = (Inr r, log1)" "in_readable b log1"
      using input.pop_next [OF b Cons] by blast
    have "in_readable ref log1" if "ref \<in> set (a # b # rest)" for ref
      using assms that log1 in_pop_other(2) [of ref b log] by (cases "ref = b") auto
    note skip1 = skip [OF ballI, OF this]
    show ?thesis using Cons log1(1) skip1
      by (auto simp: call_rpc_def nth enc_simps split: sum.splits)
  qed
qed

theorem call_rpc_behaviour_witness:
  "\<exists>log'. call_rpc (\<lambda>addr rpc_id m. (Inr (1000 * addr + rpc_id), m + 1)) [None, Some 0] (full_log True, 5 :: int) =
       (Inr [result_reading 10], (log', 6)) \<and> in_contents (Some 0) log' = []"
proof -
  have "r_value (sample_reading 1 10 1) = 10" by (simp add: sample_reading_def new_reading_def)
  then show ?thesis
    using call_rpc_behaviour [of None "Some 0" "[]" "full_log True"
        "\<lambda>addr rpc_id m. (Inr (1000 * addr + rpc_id), m + 1)" "5 :: int"] full_log_inputs
    by simp
qed

end
