(* ===== verification/Sensor_Graph.thy ===== *)
theory Sensor_Graph
  imports Processors Node_Descriptor Streamer_Descriptor
begin

text \<open>
  The sensor graph (\<open>iotile/sg/graph.py\<close>): nodes, streamers, constants and configuration, how inputs run
  through the nodes, and which streamers are ready.
\<close>

section \<open>State\<close>

text \<open>
  Nodes are shared objects: \<open>g_store\<close> has every node that was made, and all references to nodes are positions
  in it.  Dictionaries are association lists in the order of insertion.  The sensor log is part of the state.
  A reading is a value here.  In the code a processing function may return the reading object that it popped,
  which is also in the log, and \<open>process_input\<close> then sets the time of this object; the times of readings in
  the log are therefore not those of the code after a reading was popped and returned, and nothing is said
  about them.
\<close>

datatype config_value = IntValue int | TextValue string | BytesValue "byte list"

record sensor_graph =
  g_store :: "processor sg_node list"
  g_roots :: "nat list"
  g_nodes :: "nat list"
  g_streamers :: "data_streamer list"
  g_constants :: "(data_stream \<times> int) list"
  g_metadata :: "(string \<times> config_value) list"
  g_configs :: "(slot_identifier \<times> (int \<times> (string \<times> config_value)) list) list"
  g_checksums :: "(string \<times> string) list option"
  g_log :: sensor_log
  g_model :: "device_model option"
  g_marked :: "int set"
  g_max_nodes :: "int option"
  g_max_streamers :: "int option"

definition new_sensor_graph :: "sensor_log \<Rightarrow> device_model option \<Rightarrow> bool \<Rightarrow> sensor_graph res" where
  "new_sensor_graph log model enforce_limits =
     (let make = (\<lambda>max_nodes max_streamers.
        \<lparr>g_store = [], g_roots = [], g_nodes = [], g_streamers = [], g_constants = [], g_metadata = [],
         g_configs = [], g_checksums = None, g_log = log, g_model = model, g_marked = {},
         g_max_nodes = max_nodes, g_max_streamers = max_streamers\<rparr>)
      in if \<not> enforce_limits then Inr (make None None)
         else case model of
           None \<Rightarrow> Inl ArgumentError
         | Some m \<Rightarrow>
             bind_res (dm_get m ''max_nodes'') (\<lambda>a.
             bind_res (dm_get m ''max_streamers'') (\<lambda>b. Inr (make (Some a) (Some b)))))"

definition graph_clear :: "sensor_graph \<Rightarrow> sensor_graph" where
  "graph_clear g = g\<lparr>g_roots := [], g_nodes := [], g_streamers := [], g_constants := [], g_metadata := [], g_configs := []\<rparr>"

definition on_log :: "(sensor_log \<Rightarrow> ('a, sensor_log) act) \<Rightarrow> sensor_graph \<Rightarrow> ('a, sensor_graph) act" where
  "on_log f g = map_state (\<lambda>log. g\<lparr>g_log := log\<rparr>) (f (g_log g))"

definition on_node ::
  "nat \<Rightarrow> (processor sg_node \<Rightarrow> ('a, processor sg_node) act) \<Rightarrow> sensor_graph \<Rightarrow> ('a, sensor_graph) act" where
  "on_node n f g = map_state (\<lambda>node. g\<lparr>g_store := (g_store g)[n := node]\<rparr>) (f (g_store g ! n))"

section \<open>Building the graph\<close>

text \<open>
  A walker on a constant starts with a reading of value 0.  The code gives this reading the stream object,
  where other readings have the code of their stream.
\<close>

definition init_constant :: "selector \<Rightarrow> nat \<Rightarrow> sensor_log \<Rightarrow> (unit, sensor_log) act" where
  "init_constant sel wid log =
     (if \<not> sel_inexhaustible sel then (Inr (), log)
      else case sel_as_stream sel of
        Inl err \<Rightarrow> (Inl err, log)
      | Inr s \<Rightarrow>
          let r = new_reading 0xFFFFFFFF (stream_encode s) 0 None None None in
          on_walker wid (\<lambda>w. (Inr (), case w of
              Virtual v \<Rightarrow> Virtual (v\<lparr>vw_reading := Some r\<rparr>)
            | Counter c \<Rightarrow> Counter (c\<lparr>cw_reading := Some r\<rparr>)
            | _ \<Rightarrow> w)) log)"

text \<open>\<open>other.connect_output(n)\<close> for all nodes whose stream the selector covers; whether there was one.\<close>

fun feed_from :: "selector \<Rightarrow> nat \<Rightarrow> nat list \<Rightarrow> bool \<Rightarrow> sensor_graph \<Rightarrow> (bool, sensor_graph) act" where
  "feed_from sel n [] found g = (Inr found, g)"
| "feed_from sel n (other # others) found g =
     (if sel_matches sel (n_stream (g_store g ! other))
      then bind_act (on_node other (connect_output n) g) (\<lambda>_. feed_from sel n others True)
      else feed_from sel n others found g)"

fun wire_inputs ::
  "nat \<Rightarrow> int \<Rightarrow> (selector \<times> trigger option) list \<Rightarrow> bool \<Rightarrow> sensor_graph \<Rightarrow> (unit, sensor_graph) act" where
  "wire_inputs n i [] in_root g = (Inr (), g)"
| "wire_inputs n i ((sel, trig) # inputs) in_root g =
     bind_act (on_log (log_create_walker sel True) g) (\<lambda>wid g1.
     bind_act (on_log (init_constant sel wid) g1) (\<lambda>_ g2.
     bind_act (on_node n (connect_input i (Some wid) trig) g2) (\<lambda>_ g3.
       if sel_input sel \<and> \<not> in_root then wire_inputs n (i + 1) inputs True (g3\<lparr>g_roots := g_roots g3 @ [n]\<rparr>)
       else bind_act (feed_from sel n (g_nodes g3) False g3) (\<lambda>found g4.
         if \<not> found \<and> sel_buffered sel then (Inl NodeConnectionError, g4)
         else wire_inputs n (i + 1) inputs in_root g4))))"

text \<open>\<open>n.connect_output(other)\<close> for every input of an older node that covers the stream of \<open>n\<close>.\<close>

fun feed_inputs :: "nat \<Rightarrow> nat \<Rightarrow> (input_ref \<times> trigger) list \<Rightarrow> sensor_graph \<Rightarrow> (unit, sensor_graph) act" where
  "feed_inputs n other [] g = (Inr (), g)"
| "feed_inputs n other ((ref, trig) # inputs) g =
     (if in_matches ref (g_log g) (n_stream (g_store g ! n))
      then bind_act (on_node n (connect_output other) g) (\<lambda>_. feed_inputs n other inputs)
      else feed_inputs n other inputs g)"

fun feed_nodes :: "nat \<Rightarrow> nat list \<Rightarrow> sensor_graph \<Rightarrow> (unit, sensor_graph) act" where
  "feed_nodes n [] g = (Inr (), g)"
| "feed_nodes n (other # others) g =
     bind_act (feed_inputs n other (n_inputs (g_store g ! other)) g) (\<lambda>_. feed_nodes n others)"

definition add_node :: "node_grammar \<Rightarrow> string \<Rightarrow> sensor_graph \<Rightarrow> (unit, sensor_graph) act" where
  "add_node grammar node_descriptor g =
     (if (case g_max_nodes g of None \<Rightarrow> False | Some m \<Rightarrow> int (length (g_nodes g)) \<ge> m)
      then (Inl ResourceUsageError, g)
      else case parse_node_descriptor grammar node_descriptor (g_model g) of
        Inl err \<Rightarrow> (Inl err, g)
      | Inr (node, inputs, proc) \<Rightarrow>
          let n = length (g_store g) in
          bind_act (wire_inputs n 0 inputs False (g\<lparr>g_store := g_store g @ [node]\<rparr>)) (\<lambda>_ g1.
          bind_act (feed_nodes n (g_nodes g1) g1) (\<lambda>_ g2.
            case find_processing_function proc of
              None \<Rightarrow> (Inl ProcessingFunctionError, g2)
            | Some f \<Rightarrow>
                (Inr (), g2\<lparr>g_store := (g_store g2)[n := set_func proc f (g_store g2 ! n)], g_nodes := g_nodes g2 @ [n]\<rparr>))))"

definition add_config :: "slot_identifier \<Rightarrow> int \<Rightarrow> string \<Rightarrow> config_value \<Rightarrow> sensor_graph \<Rightarrow> sensor_graph" where
  "add_config s config_id config_type v g =
     (let old = (case map_of (g_configs g) s of None \<Rightarrow> [] | Some d \<Rightarrow> d) in
      g\<lparr>g_configs := AList.update s (AList.update config_id (config_type, v) old) (g_configs g)\<rparr>)"

text \<open>The streamer is linked before it gets its index and is added.\<close>

definition add_streamer :: "data_streamer \<Rightarrow> sensor_graph \<Rightarrow> (unit, sensor_graph) act" where
  "add_streamer st g =
     (if (case g_max_streamers g of None \<Rightarrow> False | Some m \<Rightarrow> int (length (g_streamers g)) \<ge> m)
      then (Inl ResourceUsageError, g)
      else bind_act (on_log (link_to_storage st) g) (\<lambda>st1 g1.
        (Inr (), g1\<lparr>g_streamers := g_streamers g1 @ [st1\<lparr>st_index := Some (int (length (g_streamers g1)))\<rparr>]\<rparr>)))"

text \<open>A stream of an unknown type cannot be hashed; looking it up raises.\<close>

definition add_constant :: "data_stream \<Rightarrow> int \<Rightarrow> sensor_graph \<Rightarrow> (unit, sensor_graph) act" where
  "add_constant s v g =
     (if \<not> stream_hashable s then (Inl KeyError, g)
      else if map_of (g_constants g) s \<noteq> None then (Inl ArgumentError, g)
      else (Inr (), g\<lparr>g_constants := AList.update s v (g_constants g)\<rparr>))"

definition add_metadata :: "string \<Rightarrow> config_value \<Rightarrow> sensor_graph \<Rightarrow> (unit, sensor_graph) act" where
  "add_metadata name v g =
     (if map_of (g_metadata g) name \<noteq> None then (Inl ArgumentError, g)
      else (Inr (), g\<lparr>g_metadata := AList.update name v (g_metadata g)\<rparr>))"

section \<open>Configuration\<close>

definition get_config :: "slot_identifier \<Rightarrow> int \<Rightarrow> sensor_graph \<Rightarrow> (string \<times> config_value) res" where
  "get_config s config_id g =
     (case map_of (g_configs g) s of
        None \<Rightarrow> Inl ArgumentError
      | Some d \<Rightarrow> (case map_of d config_id of None \<Rightarrow> Inl ArgumentError | Some v \<Rightarrow> Inr v))"

definition is_output :: "data_stream \<Rightarrow> sensor_graph \<Rightarrow> bool" where
  "is_output s g = list_ex (\<lambda>st. sel_matches (st_selector st) s) (g_streamers g)"

definition config_fast_tick_secs :: int where "config_fast_tick_secs = 0x2000"
definition config_tick1_secs :: int where "config_tick1_secs = 0x2002"
definition config_tick2_secs :: int where "config_tick2_secs = 0x2003"

definition get_tick :: "string \<Rightarrow> sensor_graph \<Rightarrow> config_value res" where
  "get_tick name g =
     (case map_of [(''fast'', config_fast_tick_secs), (''user1'', config_tick1_secs), (''user2'', config_tick2_secs)] name of
        None \<Rightarrow> Inl ArgumentError
      | Some config \<Rightarrow>
          bind_res (slot_of_string ''controller'') (\<lambda>s.
            case get_config s config g of
              Inr (t, v) \<Rightarrow> Inr v
            | Inl err \<Rightarrow> if err = ArgumentError then Inr (IntValue 0) else Inl err))"

section \<open>Processing inputs\<close>

text \<open>
  The world outside the graph: the RPC executor and the function \<open>id_assigner\<close> of the sensor log, both
  acting on a state \<open>'w\<close>.
\<close>

record 'w graph_env =
  ge_rpc :: "int \<Rightarrow> int \<Rightarrow> 'w \<Rightarrow> (int, 'w) act"
  ge_assign :: "data_stream \<Rightarrow> 'w \<Rightarrow> int option \<times> 'w"

definition graph_push ::
  "'w graph_env \<Rightarrow> data_stream \<Rightarrow> reading \<Rightarrow> sensor_graph \<times> 'w \<Rightarrow> (unit, sensor_graph \<times> 'w) act" where
  "graph_push env s r gw =
     (case gw of (g, w) \<Rightarrow>
        (case (if stream_buffered s then ge_assign env s w else (None, w)) of
           (assigned, w1) \<Rightarrow> map_state (\<lambda>g1. (g1, w1)) (on_log (log_push assigned s r) g)))"

definition load_constants ::
  "'w graph_env \<Rightarrow> sensor_graph \<times> 'w \<Rightarrow> (unit, sensor_graph \<times> 'w) act" where
  "load_constants env gw =
     for_each (\<lambda>(s, v). graph_push env s (new_reading 0 (stream_encode s) v None None None)) (g_constants (fst gw)) gw"

text \<open>\<open>mark_streamer\<close>: on the set of marks of a graph with \<open>n\<close> streamers, and on the graph.\<close>

definition mark_index :: "int \<Rightarrow> int \<Rightarrow> 'w \<times> int set \<Rightarrow> (unit, 'w \<times> int set) act" where
  "mark_index n index wm =
     (if index \<ge> n then (Inl ArgumentError, wm) else (Inr (), (fst wm, insert index (snd wm))))"

definition mark_streamer :: "int \<Rightarrow> sensor_graph \<Rightarrow> (unit, sensor_graph) act" where
  "mark_streamer index g =
     map_state (\<lambda>wm. g\<lparr>g_marked := snd wm\<rparr>) (mark_index (int (length (g_streamers g))) index ((), g_marked g))"

text \<open>The call \<open>node.process(rpc_executor, self.mark_streamer)\<close>.\<close>

definition graph_process ::
  "'w graph_env \<Rightarrow> nat \<Rightarrow> sensor_graph \<times> 'w \<Rightarrow> (reading list, sensor_graph \<times> 'w) act option" where
  "graph_process env n gw =
     (case gw of (g, w) \<Rightarrow>
        map_option (map_state (\<lambda>(log, w1, marks). (g\<lparr>g_log := log, g_marked := marks\<rparr>, w1)))
          (node_process (\<lambda>address rpc_id (w1, marks). map_state (\<lambda>w2. (w2, marks)) (ge_rpc env address rpc_id w1))
            (mark_index (int (length (g_streamers g)))) (g_store g ! n) (g_log g, w, g_marked g)))"

text \<open>The results are pushed on the node's stream with the time of the input.\<close>

definition push_results ::
  "'w graph_env \<Rightarrow> nat \<Rightarrow> int \<Rightarrow> reading list \<Rightarrow> sensor_graph \<times> 'w \<Rightarrow> (unit, sensor_graph \<times> 'w) act" where
  "push_results env n t results gw =
     for_each (\<lambda>r. graph_push env (n_stream (g_store (fst gw) ! n)) (r\<lparr>raw_time := t\<rparr>)) results gw"

text \<open>
  The body of the \<open>try\<close> and its handler for one node that fires.  Every exception is logged, with the text of
  the node, and dropped.  The variable \<open>results\<close> is local to \<open>process_input\<close>: it is bound by the assignment, so
  after an exception of \<open>process\<close> it has the value of an earlier node, or none (\<open>None\<close>).
\<close>

definition log_exception ::
  "nat \<Rightarrow> reading list option \<Rightarrow> sensor_graph \<times> 'w \<Rightarrow> (reading list option, sensor_graph \<times> 'w) act" where
  "log_exception n results gw =
     (case node_str (g_log (fst gw)) (g_store (fst gw) ! n) of
        Inl err \<Rightarrow> (Inl err, gw) | Inr text \<Rightarrow> (Inr results, gw))"

definition run_node ::
  "'w graph_env \<Rightarrow> int \<Rightarrow> nat \<Rightarrow> reading list option \<Rightarrow> sensor_graph \<times> 'w
   \<Rightarrow> (reading list option, sensor_graph \<times> 'w) act option" where
  "run_node env t n results gw =
     (case graph_process env n gw of
        None \<Rightarrow> None
      | Some (Inl err, gw1) \<Rightarrow> Some (log_exception n results gw1)
      | Some (Inr rs, gw1) \<Rightarrow>
          (case push_results env n t rs gw1 of
             (Inl err, gw2) \<Rightarrow> Some (log_exception n (Some rs) gw2)
           | (Inr _, gw2) \<Rightarrow> Some (Inr (Some rs), gw2)))"

text \<open>
  The worklist.  A node whose \<open>triggered\<close> raises ends the loop with the exception, and so does reading
  \<open>results\<close> while it is unbound.
\<close>

partial_function (option) graph_loop ::
  "'w graph_env \<Rightarrow> int \<Rightarrow> nat list \<Rightarrow> reading list option \<Rightarrow> sensor_graph \<times> 'w
   \<Rightarrow> (unit, sensor_graph \<times> 'w) act option" where
  "graph_loop env t to_check results gw =
     (case to_check of
        [] \<Rightarrow> Some (Inr (), gw)
      | n # rest \<Rightarrow>
          (case node_triggered (g_log (fst gw)) (g_store (fst gw) ! n) of
             Inl err \<Rightarrow> Some (Inl err, gw)
           | Inr fires \<Rightarrow>
               if \<not> fires then graph_loop env t rest results gw
               else (case run_node env t n results gw of
                  None \<Rightarrow> None
                | Some (Inl err, gw1) \<Rightarrow> Some (Inl err, gw1)
                | Some (Inr None, gw1) \<Rightarrow> Some (Inl UnboundLocalError, gw1)
                | Some (Inr (Some rs), gw1) \<Rightarrow>
                    graph_loop env t (rest @ (if rs \<noteq> [] then n_outputs (g_store (fst gw1) ! n) else []))
                      (Some rs) gw1)))"

declare graph_loop.simps [simp del]

definition push_important ::
  "'w graph_env \<Rightarrow> data_stream \<Rightarrow> reading \<Rightarrow> sensor_graph \<times> 'w \<Rightarrow> (unit, sensor_graph \<times> 'w) act" where
  "push_important env s v gw =
     (if stream_important s
      then (case associated_stream s of Inl err \<Rightarrow> (Inl err, gw) | Inr out \<Rightarrow> graph_push env out v gw)
      else (Inr (), gw))"

definition process_input ::
  "'w graph_env \<Rightarrow> data_stream \<Rightarrow> reading \<Rightarrow> sensor_graph \<times> 'w \<Rightarrow> (unit, sensor_graph \<times> 'w) act option" where
  "process_input env s v gw =
     (case bind_act (graph_push env s v gw) (\<lambda>_. push_important env s v) of
        (Inl err, gw1) \<Rightarrow> Some (Inl err, gw1)
      | (Inr _, gw1) \<Rightarrow> graph_loop env (raw_time v) (g_roots (fst gw1)) None gw1)"

section \<open>Ready streamers\<close>

text \<open>
  Streamers are named by their position.  The inner loop enumerates \<open>self.streamers[i:]\<close> from 0, so its
  index \<open>j\<close> is not the position \<open>i + j\<close> of the streamer it looks at.
\<close>

fun with_others ::
  "int \<Rightarrow> nat \<Rightarrow> nat \<Rightarrow> data_streamer list \<Rightarrow> sensor_log \<Rightarrow> nat list \<Rightarrow> nat set \<Rightarrow> (nat list \<times> nat set) res" where
  "with_others i p j [] log ready selected = Inr (ready, selected)"
| "with_others i p j (st # sts) log ready selected =
     (if st_with_other st = Some i \<and> j \<notin> selected
      then bind_res (streamer_triggered st True log) (\<lambda>fires.
             if fires then with_others i (Suc p) (Suc j) sts log (ready @ [p]) (insert j selected)
             else with_others i (Suc p) (Suc j) sts log ready selected)
      else with_others i (Suc p) (Suc j) sts log ready selected)"

fun check_loop ::
  "int set option \<Rightarrow> nat \<Rightarrow> data_streamer list \<Rightarrow> nat list \<Rightarrow> nat set \<Rightarrow> sensor_graph \<Rightarrow> (nat list, sensor_graph) act" where
  "check_loop blacklist i [] ready selected g = (Inr ready, g)"
| "check_loop blacklist i (st # sts) ready selected g =
     (if (case blacklist of None \<Rightarrow> False | Some b \<Rightarrow> int i \<in> b) then check_loop blacklist (Suc i) sts ready selected g
      else if i \<in> selected then check_loop blacklist (Suc i) sts ready selected g
      else
        let marked = (int i \<in> g_marked g);
            g1 = g\<lparr>g_marked := g_marked g - {int i}\<rparr>
        in (case streamer_triggered st marked (g_log g1) of
              Inl err \<Rightarrow> (Inl err, g1)
            | Inr False \<Rightarrow> check_loop blacklist (Suc i) sts ready selected g1
            | Inr True \<Rightarrow>
                (case with_others (int i) i 0 (st # sts) (g_log g1) (ready @ [i]) (insert i selected) of
                   Inl err \<Rightarrow> (Inl err, g1)
                 | Inr (ready1, selected1) \<Rightarrow> check_loop blacklist (Suc i) sts ready1 selected1 g1)))"

definition check_streamers :: "int set option \<Rightarrow> sensor_graph \<Rightarrow> (nat list, sensor_graph) act" where
  "check_streamers blacklist g = check_loop blacklist 0 (g_streamers g) [] {} g"

end
