(* ===== verification/Graph_Process.thy ===== *)
theory Graph_Process
  imports Sensor_Graph "HOL-Library.Multiset"
begin

text \<open>
  Running inputs through the graph: what the operations leave alone, and when \<open>process_input\<close> returns.
\<close>

section \<open>What a run leaves alone\<close>

text \<open>
  A relation between states that every step of a program respects is respected by its loops.
\<close>

locale step_relation =
  fixes rel :: "'s \<Rightarrow> 's \<Rightarrow> bool"
  assumes rel_refl: "rel s s"
    and rel_trans: "rel s t \<Longrightarrow> rel t u \<Longrightarrow> rel s u"
begin

lemma bind_act:
  assumes "rel s (snd x)" "\<And>a t. x = (Inr a, t) \<Longrightarrow> rel t (snd (f a t))"
  shows "rel s (snd (bind_act x f))"
  using assms rel_trans by (cases x; cases "fst x") auto

lemma for_each:
  assumes "\<And>x s. x \<in> set xs \<Longrightarrow> rel s (snd (body x s))"
  shows "rel s (snd (for_each body xs s))"
  using assms
proof (induction xs arbitrary: s)
  case (Cons x xs)
  then show ?case by (auto intro!: bind_act)
qed (simp add: rel_refl)

lemma fold:
  assumes "\<And>x s. rel s (f x s)"
  shows "rel s (fold f xs s)"
  using assms by (induction xs arbitrary: s) (auto intro: rel_refl rel_trans)

lemma drain:
  assumes "drain cnt pop s readings = Some y" "\<And>s. rel s (snd (pop s))"
  shows "rel s (snd y)"
  using assms
proof (induction rule: drain.raw_induct [rotated, consumes 1, case_names step])
  case (step d cnt pop s readings y)
  show ?case
  proof (cases "cnt s > 0")
    case True
    obtain res t where pop: "pop s = (res, t)" by fastforce
    then have "rel s t" using step.prems [of s] by simp
    show ?thesis
    proof (cases res)
      case (Inl err)
      with step(2) True pop \<open>rel s t\<close> show ?thesis by auto
    next
      case (Inr r)
      with step(2) True pop have "d cnt pop t (readings @ [r]) = Some y" by simp
      from step(1) [OF this step(3)] \<open>rel s t\<close> show ?thesis by (rule rel_trans [rotated])
    qed
  next
    case False
    then show ?thesis using step.hyps by (auto simp: rel_refl)
  qed
qed

end

text \<open>The selectors of the walkers, and whether they run out of readings.\<close>

definition walker_kind :: "walker \<Rightarrow> selector option \<times> bool" where
  "walker_kind w = (walker_selector w, walker_finite w)"

definition kept :: "sensor_log \<Rightarrow> sensor_log \<Rightarrow> bool" where
  "kept log log' \<longleftrightarrow> (\<forall>wid. map_option walker_kind (sl_walkers log' wid) = map_option walker_kind (sl_walkers log wid))"

interpretation kept: step_relation kept
  by unfold_locales (auto simp: kept_def)

lemma kept_walkers [simp]: "sl_walkers log' = sl_walkers log \<Longrightarrow> kept log log'"
  by (simp add: kept_def)

text \<open>Reading the inputs of a node changes the walkers only.\<close>

definition popped :: "sensor_log \<Rightarrow> sensor_log \<Rightarrow> bool" where
  "popped log log' \<longleftrightarrow> kept log log' \<and> log' = log\<lparr>sl_walkers := sl_walkers log'\<rparr>"

interpretation popped: step_relation popped
proof unfold_locales
  show "popped a c" if "popped a b" "popped b c" for a b c
  proof -
    have "b = a\<lparr>sl_walkers := sl_walkers b\<rparr>" "c = b\<lparr>sl_walkers := sl_walkers c\<rparr>" using that by (simp_all add: popped_def)
    then have "c = a\<lparr>sl_walkers := sl_walkers c\<rparr>" by (metis sensor_log.fold_congs(9) sensor_log.surjective sensor_log.update_convs(9))
    then show ?thesis using that kept.rel_trans by (auto simp: popped_def)
  qed
qed (simp add: popped_def kept.rel_refl)

lemma popped_kept: "popped log log' \<Longrightarrow> kept log log'"
  by (simp add: popped_def)

lemma popped_on_walker:
  assumes "\<And>w. walker_kind (snd (f w)) = walker_kind w"
  shows "popped log (snd (on_walker wid f log))"
  using assms by (auto simp: popped_def kept_def on_walker_def map_state_def split: option.split)

lemma kind_simps [simp]:
  "walker_kind (Buffered b) = (Some (bw_selector b), True)"
  "walker_kind (Virtual v) = (Some (vw_selector v), match_type (vw_selector v) \<noteq> ConstantType)"
  "walker_kind (Counter c) = (Some (cw_selector c), True)"
  "walker_kind (Invalid sel) = (sel, True)"
  by (simp_all add: walker_kind_def walker_finite_def)

lemma kind_pop: "walker_kind (snd (walker_pop e w)) = walker_kind w"
  by (cases w) (auto simp: bw_pop_def vw_pop_def cw_pop_def Let_def map_state_def split: prod.split sum.split option.split)

lemma kind_skip: "walker_kind (walker_skip_all e w) = walker_kind w"
  by (cases w) (auto simp: bw_skip_all_def vw_skip_all_def cw_skip_all_def split: prod.split)

lemma kind_push: "walker_kind (snd (walker_push s r w)) = walker_kind w"
  by (cases w) (auto simp: vw_push_def cw_push_def Let_def map_state_def)

lemma popped_pop: "popped log (snd (in_pop ref log))"
  by (cases ref) (auto simp: popped.rel_refl log_pop_def kind_pop intro: popped_on_walker)

lemma popped_skip: "popped log (in_skip_all ref log)"
  by (cases ref) (auto simp: popped.rel_refl log_skip_all_def kind_skip intro: popped_on_walker)

lemma popped_skip_inputs: "popped log (skip_inputs refs log)"
  unfolding skip_inputs_def by (intro popped.fold popped_skip)

lemma popped_notify_added: "popped log (snd (notify_added s out wid log))"
  unfolding notify_added_def by (rule popped_on_walker) (auto simp: bw_notify_added_def split: walker.split)

lemma popped_notify_rollover: "popped log (snd (notify_rollover s out wid log))"
  unfolding notify_rollover_def
  by (rule popped_on_walker) (auto simp: bw_notify_rollover_def Let_def map_state_def split: walker.split)

lemma kept_on_engine: "kept log (snd (on_engine f log))"
  by (simp add: on_engine_def map_state_def)

lemma kept_erase: "kept log (snd (log_erase_buffer out log))"
  by (auto simp: log_erase_buffer_def notify_erased_def kept.rel_refl split: sum.split
      intro!: kept.bind_act kept.for_each kept_on_engine popped_kept [OF popped_notify_rollover])

lemma kept_store: "kept log (snd (log_store s r log))"
proof -
  obtain res log1 where e: "on_engine (engine_push r) log = (res, log1)" by fastforce
  then have "kept log log1" using kept_on_engine [of log "engine_push r"] by simp
  then show ?thesis using e
    by (auto simp: log_store_def split: sum.split intro!: kept.bind_act kept_on_engine
        intro: kept.rel_trans kept_erase)
qed

lemma kept_push_virtual:
  "kept log (snd (for_each (push_virtual s r) (sl_virtual log') (call_monitors s r log)))"
proof (rule kept.rel_trans)
  show "kept log (call_monitors s r log)" by simp
  show "kept (call_monitors s r log) (snd (for_each (push_virtual s r) (sl_virtual log') (call_monitors s r log)))"
    unfolding push_virtual_def by (intro kept.for_each popped_kept popped_on_walker) (simp add: kind_push)
qed

lemma kept_push: "kept log (snd (log_push assigned s r log))"
  unfolding log_push_def Let_def
  by (intro kept.bind_act)
    (auto simp: notify_queue_def set_last_value_def kept.rel_refl kept_push_virtual
      intro!: kept.bind_act kept.for_each kept_store popped_kept [OF popped_notify_added])

lemma popped_popD: "in_pop ref log1 = (res, log2) \<Longrightarrow> popped log log1 \<Longrightarrow> popped log log2"
  using popped_pop [of log1 ref] by (auto intro: popped.rel_trans)

lemma popped_skipI: "popped log log1 \<Longrightarrow> popped log (skip_inputs refs log1)"
  using popped_skip_inputs by (rule popped.rel_trans [rotated])

lemma popped_drainD: "drain (in_count ref) (in_pop ref) log [] = Some (res, log1) \<Longrightarrow> popped log log1"
  using popped.drain [of "in_count ref" "in_pop ref" log "[]"] popped_pop by fastforce

lemmas popped_intros = popped.rel_refl popped_skipI popped_popD popped_drainD

lemma popped_call_rpc: "popped log (fst (snd (call_rpc rpc inputs (log, m))))"
  by (auto simp: call_rpc_def split: prod.split sum.split intro: popped_intros)

lemma popped_trigger: "popped log (fst (snd (trigger_streamer mark inputs (log, m))))"
  by (auto simp: trigger_streamer_def split: prod.split sum.split intro: popped_intros)

lemma popped_subtract: "popped log (snd (subtract_afromb inputs log))"
  by (auto simp: subtract_afromb_def Let_def popped.rel_refl split: prod.split sum.split) (meson popped_intros)+

lemma popped_copy_all: "copy_all_a inputs log = Some y \<Longrightarrow> popped log (snd y)"
  by (cases inputs) (auto simp: copy_all_a_def popped.rel_refl split: sum.split dest!: popped_drainD intro: popped_skipI)

lemma popped_copy_latest: "copy_latest_a inputs log = Some y \<Longrightarrow> popped log (snd y)"
proof (cases inputs)
  case (Cons a others)
  obtain res log1 where "in_pop a log = (res, log1)" by fastforce
  moreover from popped_popD [OF this popped.rel_refl] have "popped log log1" .
  moreover assume "copy_latest_a inputs log = Some y"
  ultimately show ?thesis using Cons
    by (cases res) (auto simp: copy_latest_a_def popped.rel_refl split: option.splits if_splits sum.split
      dest!: popped_drainD intro: popped_skipI)
qed (auto simp: copy_latest_a_def popped.rel_refl)

lemma popped_copy_count: "popped log (snd (copy_count_a inputs log))"
  using popped_skip by (auto simp: copy_count_a_def split: list.split intro: popped_intros)

lemma popped_run:
  assumes "run_processor rpc mark f inputs lm = Some (res, lm')"
  shows "popped (fst lm) (fst lm')"
proof -
  obtain log m where lm: "lm = (log, m)" by fastforce
  show ?thesis
    using assms popped_copy_all [of inputs log] popped_copy_latest [of inputs log] popped_copy_count [of log inputs]
      popped_call_rpc [of log rpc inputs m] popped_trigger [of log mark inputs m] popped_subtract [of log inputs]
    unfolding lm by (cases f) (auto simp: pair_state_def map_state_def)
qed

lemma popped_process:
  "node_process rpc mark node lm = Some (res, lm') \<Longrightarrow> popped (fst lm) (fst lm')"
  by (auto simp: node_process_def popped.rel_refl split: option.splits intro: popped_run)

lemmas kept_process = popped_kept [OF popped_process]

section \<open>What a run stores\<close>

text \<open>The readings that a log holds: in the two areas, and as the last values of the streams.\<close>

definition log_readings :: "sensor_log \<Rightarrow> reading set" where
  "log_readings log = set (storage_data (sl_engine log)) \<union> set (streaming_data (sl_engine log)) \<union> snd ` set (sl_last_values log)"

definition gains :: "reading set \<Rightarrow> sensor_log \<Rightarrow> sensor_log \<Rightarrow> bool" where
  "gains R log log' \<longleftrightarrow> log_readings log' \<subseteq> log_readings log \<union> R"

interpretation gains: step_relation "gains R" for R
  by unfold_locales (auto simp: gains_def)

lemma gains_popped: "popped log log' \<Longrightarrow> gains R log log'"
proof -
  assume "popped log log'"
  then have "log' = log\<lparr>sl_walkers := sl_walkers log'\<rparr>" by (simp add: popped_def)
  then have "sl_engine log' = sl_engine (log\<lparr>sl_walkers := sl_walkers log'\<rparr>)" "sl_last_values log' = sl_last_values (log\<lparr>sl_walkers := sl_walkers log'\<rparr>)"
    by (rule arg_cong)+
  then show ?thesis by (simp add: gains_def log_readings_def)
qed

lemma gains_engine_push: "r \<in> R \<Longrightarrow> gains R log (snd (on_engine (engine_push r) log))"
  by (auto simp: gains_def log_readings_def on_engine_def map_state_def engine_push_def)

lemma gains_engine_popn: "gains R log (snd (on_engine (engine_popn b n) log))"
  by (auto simp: gains_def log_readings_def on_engine_def map_state_def engine_popn_def engine_area_def py_slice_from_def Let_def
      dest: in_set_dropD)

lemma gains_erase: "gains R log (snd (log_erase_buffer out log))"
  by (auto simp: log_erase_buffer_def notify_erased_def gains.rel_refl split: sum.split
      intro!: gains.bind_act gains.for_each gains_engine_popn gains_popped [OF popped_notify_rollover])

lemma gains_store:
  assumes "r \<in> R"
  shows "gains R log (snd (log_store s r log))"
proof -
  obtain res log1 where e: "on_engine (engine_push r) log = (res, log1)" by fastforce
  then have "gains R log log1" using gains_engine_push [OF assms, of log] by simp
  then show ?thesis using e assms
    by (auto simp: log_store_def split: sum.split intro!: gains.bind_act gains_engine_push
        intro: gains.rel_trans gains_erase)
qed

lemma update_values: "snd ` set (AList.update k x xs) \<subseteq> insert x (snd ` set xs)"
  by (induction xs) auto

lemma gains_last_value: "r \<in> R \<Longrightarrow> gains R log (snd (set_last_value s r log))"
  using update_values [of s r "sl_last_values log"] by (auto simp: set_last_value_def gains_def log_readings_def)

lemma gains_push_virtual: "gains R log (snd (for_each (push_virtual s r) (sl_virtual log') (call_monitors s r log)))"
proof (rule gains.rel_trans)
  show "gains R log (call_monitors s r log)" by (simp add: gains_def log_readings_def call_monitors_def)
  show "gains R (call_monitors s r log) (snd (for_each (push_virtual s r) (sl_virtual log') (call_monitors s r log)))"
    unfolding push_virtual_def by (intro gains.for_each gains_popped popped_on_walker) (simp add: kind_push)
qed

lemma gains_push:
  assumes "stamped assigned s r \<in> R"
  shows "gains R log (snd (log_push assigned s r log))"
  using assms unfolding log_push_def Let_def
  by (intro gains.bind_act)
    (auto simp: notify_queue_def gains.rel_refl gains_push_virtual
      intro!: gains.bind_act gains.for_each gains_store gains_last_value gains_popped [OF popped_notify_added])

section \<open>Functions that return\<close>

text \<open>Copying all readings is the only function with a loop that may not end: on a constant.\<close>

definition node_returns :: "sensor_log \<Rightarrow> processor sg_node \<Rightarrow> bool" where
  "node_returns log node \<longleftrightarrow>
     (n_func node = Some Copy_all_a \<longrightarrow>
      (case n_inputs node of [] \<Rightarrow> True | (ref, t) # rest \<Rightarrow> walker_finite (in_walker log ref)))"

lemma node_returns_kept: "kept log log' \<Longrightarrow> node_returns log' node = node_returns log node"
proof -
  assume "kept log log'"
  then have "walker_finite (in_walker log' ref) = walker_finite (in_walker log ref)" for ref
    by (cases ref) (auto simp: kept_def in_walker_def walker_kind_def split: option.split dest: spec [of _ "the ref"])
  then show ?thesis by (simp add: node_returns_def split: list.split)
qed

lemma node_process_returns:
  assumes "node_returns log node"
  shows "node_process rpc mark node (log, m) \<noteq> None"
proof (cases "n_func node")
  case (Some f)
  show ?thesis
  proof (cases "f = Copy_all_a")
    case True
    have "\<exists>y. copy_all_a (map fst (n_inputs node)) log = Some y"
    proof (cases "n_inputs node")
      case (Cons x xs)
      then have "walker_finite (in_walker log (fst x))"
        using assms Some True by (auto simp: node_returns_def split: prod.splits)
      then show ?thesis using Cons copy_all_a_terminates by simp
    qed (simp add: copy_all_a_def)
    then obtain y where "copy_all_a (map fst (n_inputs node)) log = Some y" by blast
    then show ?thesis using Some True by (simp add: node_process_def)
  next
    case False
    obtain y where "copy_latest_a (map fst (n_inputs node)) log = Some y" using copy_latest_a_terminates by blast
    then show ?thesis using False Some by (cases f) (simp_all add: node_process_def)
  qed
qed (simp add: node_process_def)

section \<open>Runs of the graph\<close>

text \<open>A run changes the log, the marks and the world only, and keeps the kinds of the walkers.\<close>

definition same_graph :: "sensor_graph \<times> 'w \<Rightarrow> sensor_graph \<times> 'w \<Rightarrow> bool" where
  "same_graph gw gw' \<longleftrightarrow>
     (\<exists>log marks. fst gw' = (fst gw)\<lparr>g_log := log, g_marked := marks\<rparr> \<and> kept (g_log (fst gw)) log)"

interpretation same_graph: step_relation same_graph
proof unfold_locales
  show "same_graph gw gw" for gw :: "sensor_graph \<times> 'w"
    unfolding same_graph_def by (intro exI [of _ "g_log (fst gw)"] exI [of _ "g_marked (fst gw)"]) (simp add: kept.rel_refl)
  show "same_graph a c" if "same_graph a b" "same_graph b c" for a b c :: "sensor_graph \<times> 'w"
    using that kept.rel_trans by (fastforce simp: same_graph_def)
qed

lemma same_graph_push: "same_graph gw (snd (graph_push env s r gw))"
proof -
  obtain g w where gw: "gw = (g, w)" by fastforce
  have "same_graph (g, w) (g\<lparr>g_log := log\<rparr>, w1)" if "kept (g_log g) log" for log w1
    using that unfolding same_graph_def by (intro exI [of _ log] exI [of _ "g_marked g"]) simp
  then show ?thesis using kept_push
    by (auto simp: gw graph_push_def on_log_def map_state_def split: prod.split)
qed

lemma same_graph_process:
  assumes "graph_process env n gw = Some (res, gw')"
  shows "same_graph gw gw'"
proof -
  obtain g w where gw: "gw = (g, w)" by fastforce
  from assms obtain log w1 marks where
    p: "node_process (\<lambda>address rpc_id (w1, marks). map_state (\<lambda>w2. (w2, marks)) (ge_rpc env address rpc_id w1))
          (mark_index (int (length (g_streamers g)))) (g_store g ! n) (g_log g, w, g_marked g) = Some (res, (log, w1, marks))"
    "gw' = (g\<lparr>g_log := log, g_marked := marks\<rparr>, w1)"
    by (auto simp: gw graph_process_def)
  from kept_process [OF p(1)] p(2) show ?thesis unfolding same_graph_def gw by auto
qed

lemma same_graph_results: "same_graph gw (snd (push_results env n t rs gw))"
  unfolding push_results_def by (intro same_graph.for_each same_graph_push)

lemma log_exception_state [simp]: "snd (log_exception n results gw) = gw"
  by (simp add: log_exception_def split: sum.split)

lemma run_node_cases:
  assumes "run_node env t n results gw = Some (res, gw')"
  obtains err gw1 where "graph_process env n gw = Some (Inl err, gw1)" "gw' = gw1"
    | rs gw1 where "graph_process env n gw = Some (Inr rs, gw1)" "gw' = snd (push_results env n t rs gw1)"
proof -
  obtain r gw1 where p: "graph_process env n gw = Some (r, gw1)" using assms by (auto simp: run_node_def split: option.splits)
  show ?thesis
  proof (cases r)
    case (Inl err)
    then have "log_exception n results gw1 = (res, gw')" using assms p by (simp add: run_node_def)
    then show ?thesis using that(1) p Inl by (metis log_exception_state snd_conv)
  next
    case (Inr rs)
    obtain r2 gw2 where pushed: "push_results env n t rs gw1 = (r2, gw2)" by (cases "push_results env n t rs gw1") blast
    then have "gw' = gw2" using assms p Inr log_exception_state [of n "Some rs" gw2]
      by (cases r2) (auto simp: run_node_def simp del: log_exception_state)
    then show ?thesis using that(2) p Inr pushed by simp
  qed
qed

lemma same_graph_run:
  assumes "run_node env t n results gw = Some (res, gw')"
  shows "same_graph gw gw'"
  using assms by (cases rule: run_node_cases) (auto intro: same_graph_process same_graph_results same_graph.rel_trans)

lemma same_graphD:
  assumes "same_graph gw gw'"
  shows "g_store (fst gw') = g_store (fst gw)" "g_roots (fst gw') = g_roots (fst gw)" "g_nodes (fst gw') = g_nodes (fst gw)"
    "g_streamers (fst gw') = g_streamers (fst gw)" "kept (g_log (fst gw)) (g_log (fst gw'))"
  using assms unfolding same_graph_def by (elim exE conjE; simp)+

text \<open>What a run stores: readings with the time of the input, in the streams \<open>ss\<close>.\<close>

definition run_stores :: "reading set \<Rightarrow> sensor_graph \<times> 'w \<Rightarrow> sensor_graph \<times> 'w \<Rightarrow> bool" where
  "run_stores R gw gw' \<longleftrightarrow> gains R (g_log (fst gw)) (g_log (fst gw'))"

interpretation run_stores: step_relation "run_stores R" for R
  by unfold_locales (auto simp: run_stores_def gains.rel_refl intro: gains.rel_trans)

definition of_time :: "int \<Rightarrow> data_stream set \<Rightarrow> reading set" where
  "of_time t ss = {r. raw_time r = t \<and> r_stream r \<in> stream_encode ` ss}"

lemma stored_push: "s \<in> ss \<Longrightarrow> raw_time r = t \<Longrightarrow> run_stores (of_time t ss) gw (snd (graph_push env s r gw))"
proof -
  assume "s \<in> ss" "raw_time r = t"
  then have "stamped assigned s r \<in> of_time t ss" for assigned by (auto simp: stamped_def of_time_def Let_def split: option.split)
  then show ?thesis using gains_push
    by (cases gw) (auto simp: graph_push_def on_log_def map_state_def run_stores_def split: prod.split)
qed

lemma stored_process:
  assumes "graph_process env n gw = Some (res, gw')"
  shows "run_stores R gw gw'"
proof -
  obtain g w where gw: "gw = (g, w)" by fastforce
  from assms obtain log w1 marks where
    p: "node_process (\<lambda>address rpc_id (w1, marks). map_state (\<lambda>w2. (w2, marks)) (ge_rpc env address rpc_id w1))
          (mark_index (int (length (g_streamers g)))) (g_store g ! n) (g_log g, w, g_marked g) = Some (res, (log, w1, marks))"
    "gw' = (g\<lparr>g_log := log, g_marked := marks\<rparr>, w1)"
    by (auto simp: gw graph_process_def)
  from popped_process [OF p(1)] p(2) show ?thesis by (simp add: run_stores_def gw gains_popped)
qed

lemma stored_results:
  "n_stream (g_store (fst gw) ! n) \<in> ss \<Longrightarrow> run_stores (of_time t ss) gw (snd (push_results env n t rs gw))"
  unfolding push_results_def by (intro run_stores.for_each stored_push) simp_all

lemma stored_run:
  assumes "run_node env t n results gw = Some (res, gw')" and "n_stream (g_store (fst gw) ! n) \<in> ss"
  shows "run_stores (of_time t ss) gw gw'"
  using assms(1)
proof (cases rule: run_node_cases)
  case 1
  then show ?thesis using stored_process by blast
next
  case (2 rs gw1)
  then have "n_stream (g_store (fst gw1) ! n) \<in> ss" using assms(2) same_graphD(1) [OF same_graph_process [OF 2(1)]] by simp
  then show ?thesis using stored_process [OF 2(1)] stored_results 2(2) run_stores.rel_trans by blast
qed

text \<open>The nodes that a run can reach: the roots, and what they notify.\<close>

definition downstream :: "sensor_graph \<Rightarrow> nat set" where
  "downstream g = {(m, n). n \<in> set (n_outputs (g_store g ! m))}\<^sup>* `` set (g_roots g)"

lemma downstream_outputs: "n \<in> downstream g \<Longrightarrow> set (n_outputs (g_store g ! n)) \<subseteq> downstream g"
  unfolding downstream_def by (auto intro: rtrancl_into_rtrancl)

definition streams_fed :: "sensor_graph \<Rightarrow> data_stream set" where
  "streams_fed g = (\<lambda>n. n_stream (g_store g ! n)) ` downstream g"

lemma loop_stores:
  assumes "graph_loop env t to_check results gw = Some y"
  shows "same_graph gw0 gw \<Longrightarrow> set to_check \<subseteq> downstream (fst gw0) \<Longrightarrow> streams_fed (fst gw0) \<subseteq> ss \<Longrightarrow>
    run_stores (of_time t ss) gw (snd y) \<and> same_graph gw (snd y)"
  using assms
proof (induction rule: graph_loop.raw_induct [rotated, consumes 1, case_names step])
  case (step loop env t to_check results gw y)
  show ?case
  proof (cases to_check)
    case Nil
    then show ?thesis using step(2) by (auto simp: run_stores.rel_refl same_graph.rel_refl)
  next
    case (Cons n rest)
    have store: "g_store (fst gw) = g_store (fst gw0)" using same_graphD(1) [OF step.prems(1)] .
    have n: "n \<in> downstream (fst gw0)" using step.prems(2) Cons by simp
    then have "n_stream (g_store (fst gw) ! n) \<in> ss" using step.prems(3) store by (auto simp: streams_fed_def)
    note run = stored_run [OF _ this] and same = same_graph_run
    show ?thesis
    proof (cases "node_triggered (g_log (fst gw)) (g_store (fst gw) ! n)")
      case (Inl err)
      then show ?thesis using step(2) Cons by (auto simp: run_stores.rel_refl same_graph.rel_refl)
    next
      case (Inr fires)
      show ?thesis
      proof (cases fires)
        case False
        then show ?thesis using step(2) step(1) [OF _ step.prems(1) _ step.prems(3)] Cons Inr step.prems(2) by simp
      next
        case True
        then obtain res gw1 where r: "run_node env t n results gw = Some (res, gw1)"
          using step(2) Cons Inr by (auto split: option.splits)
        have same1: "same_graph gw0 gw1" using same_graph.rel_trans [OF step.prems(1) same [OF r]] .
        have "set (rest @ (if rs \<noteq> [] then n_outputs (g_store (fst gw1) ! n) else [])) \<subseteq> downstream (fst gw0)" for rs :: "reading list"
          using step.prems(2) Cons downstream_outputs [OF n] same_graphD(1) [OF same1] by auto
        note next1 = step(1) [OF _ same1 this step.prems(3)]
        have "run_stores (of_time t ss) gw1 (snd y) \<and> same_graph gw1 (snd y)"
          using step(2) Cons Inr True r next1
          by (auto simp: run_stores.rel_refl same_graph.rel_refl split: sum.splits option.splits)
        then show ?thesis using run [OF r] same [OF r] run_stores.rel_trans same_graph.rel_trans by blast
      qed
    qed
  qed
qed

section \<open>Termination\<close>

text \<open>\<open>(o, n)\<close> says that node \<open>n\<close> notifies node \<open>o\<close>.\<close>

definition feeds :: "sensor_graph \<Rightarrow> (nat \<times> nat) set" where
  "feeds g = {(o', n). n < length (g_store g) \<and> o' \<in> set (n_outputs (g_store g ! n))}"

definition refs_ok :: "sensor_graph \<Rightarrow> bool" where
  "refs_ok g \<longleftrightarrow> set (g_roots g) \<subseteq> {..<length (g_store g)} \<and> set (g_nodes g) \<subseteq> {..<length (g_store g)} \<and>
     (\<forall>node \<in> set (g_store g). set (n_outputs node) \<subseteq> {..<length (g_store g)})"

lemma wf_feeds:
  assumes "refs_ok g" "acyclic (feeds g)"
  shows "wf (feeds g)"
proof (rule finite_acyclic_wf [OF _ assms(2)])
  have "feeds g \<subseteq> {..<length (g_store g)} \<times> {..<length (g_store g)}"
    using assms(1) by (auto simp: feeds_def refs_ok_def)
  then show "finite (feeds g)" by (rule finite_subset) simp
qed

lemma run_node_returns:
  assumes "node_returns (g_log (fst gw)) (g_store (fst gw) ! n)"
  shows "\<exists>res gw'. run_node env t n results gw = Some (res, gw')"
proof -
  obtain g w where gw: "gw = (g, w)" by fastforce
  have "graph_process env n gw \<noteq> None"
    using node_process_returns [OF assms] by (simp add: gw graph_process_def del: not_None_eq)
  then obtain res gw1 where "graph_process env n gw = Some (res, gw1)" by fastforce
  then show ?thesis by (cases "run_node env t n results gw") (auto simp: run_node_def split: sum.splits prod.splits)
qed

lemma graph_loop_returns:
  assumes "wf R"
  shows "feeds (fst gw) = R \<Longrightarrow> refs_ok (fst gw) \<Longrightarrow> set to_check \<subseteq> {..<length (g_store (fst gw))} \<Longrightarrow>
    \<forall>node \<in> set (g_store (fst gw)). node_returns (g_log (fst gw)) node \<Longrightarrow>
    graph_loop env t to_check results gw \<noteq> None"
proof (induction "mset to_check" arbitrary: to_check results gw rule: wf_induct_rule [OF wf_mult [OF assms]])
  case 1
  show ?case
  proof (cases to_check)
    case Nil
    then show ?thesis by (subst graph_loop.simps) simp
  next
    case (Cons n rest)
    let ?g = "fst gw"
    have n: "n < length (g_store ?g)" using 1(4) Cons by simp
    have smaller: "graph_loop env t (rest @ outs) results' gw' \<noteq> None"
      if outs: "set outs \<subseteq> set (n_outputs (g_store ?g ! n))" and same: "same_graph gw gw'" for outs results' gw'
    proof (rule 1(1))
      note g' = same_graphD [OF same]
      have "(b, n) \<in> R" if "b \<in># mset outs" for b
        using that outs n 1(2) by (auto simp: feeds_def)
      then have "(mset rest + mset outs, mset rest + {#n#}) \<in> mult R"
        by (intro one_step_implies_mult) auto
      then show "(mset (rest @ outs), mset to_check) \<in> mult R" using Cons by simp
      show "feeds (fst gw') = R" using 1(2) g' by (simp add: feeds_def)
      show "refs_ok (fst gw')" using 1(3) g' by (simp add: refs_ok_def)
      have "set outs \<subseteq> {..<length (g_store ?g)}" using outs 1(3) nth_mem [OF n] unfolding refs_ok_def by blast
      then show "set (rest @ outs) \<subseteq> {..<length (g_store (fst gw'))}" using 1(4) Cons g' by auto
      show "\<forall>node \<in> set (g_store (fst gw')). node_returns (g_log (fst gw')) node"
        using 1(5) g' node_returns_kept [OF g'(5)] by simp
    qed
    show ?thesis
    proof (cases "node_triggered (g_log ?g) (g_store ?g ! n)")
      case (Inl err)
      then show ?thesis using Cons by (subst graph_loop.simps) simp
    next
      case (Inr fires)
      obtain results1 gw1 where run: "run_node env t n results gw = Some (results1, gw1)"
        using run_node_returns 1(5) n by (metis nth_mem)
      note same = same_graph_run [OF run]
      have "g_store (fst gw1) = g_store ?g" using same_graphD(1) [OF same] .
      then show ?thesis
        using Cons Inr run smaller [of "[]" gw, OF _ same_graph.rel_refl] smaller [of "n_outputs (g_store ?g ! n)" gw1, OF _ same]
          smaller [of "[]" gw1, OF _ same]
        by (subst graph_loop.simps) (auto split: option.split sum.split)
    qed
  qed
qed

lemma same_graph_important: "same_graph gw (snd (push_important env s v gw))"
  by (auto simp: push_important_def same_graph.rel_refl same_graph_push split: sum.split)

section \<open>Properties\<close>

text \<open>
  C8: inputs are processed in finite time.  If the references of the graph are in range, no node notifies
  itself directly or indirectly, and no node copies all readings of a constant stream, then \<open>process_input\<close>
  returns, whatever the input, the RPCs and the log are.
\<close>

theorem process_input_returns:
  assumes "refs_ok g" "acyclic (feeds g)" "\<forall>node \<in> set (g_store g). node_returns (g_log g) node"
  shows "process_input env s v (g, w) \<noteq> None"
proof -
  obtain res gw1 where pushed: "bind_act (graph_push env s v (g, w)) (\<lambda>_. push_important env s v) = (res, gw1)"
    by (cases "bind_act (graph_push env s v (g, w)) (\<lambda>_. push_important env s v)") blast
  have "same_graph (g, w) (snd (bind_act (graph_push env s v (g, w)) (\<lambda>_. push_important env s v)))"
    by (intro same_graph.bind_act same_graph_push same_graph_important)
  then have "same_graph (g, w) gw1" by (simp add: pushed)
  note g1 = same_graphD [OF this]
  have "graph_loop env (raw_time v) (g_roots (fst gw1)) None gw1 \<noteq> None"
  proof (rule graph_loop_returns [OF wf_feeds [OF assms(1,2)]])
    show "feeds (fst gw1) = feeds g" "refs_ok (fst gw1)" "set (g_roots (fst gw1)) \<subseteq> {..<length (g_store (fst gw1))}"
      using g1 assms(1) by (simp_all add: feeds_def refs_ok_def)
    show "\<forall>node \<in> set (g_store (fst gw1)). node_returns (g_log (fst gw1)) node"
      using g1 assms(3) node_returns_kept [OF g1(5)] by simp
  qed
  then show ?thesis by (cases res) (auto simp: process_input_def pushed)
qed

text \<open>
  C11: what an input adds to the log.  Whether \<open>process_input\<close> ends normally or with an exception, and whatever the RPCs and
  the functions of the nodes do, the readings that the log holds afterwards in its two areas and as last values are those
  from before or have the time of the input; their streams are those of the readings from before, the input's stream, its
  associated output if it is important, and the streams of the nodes that are reachable from the roots.  Nothing of the graph
  changes but its log and the marks of its streamers.  (A reading from before may be the object that a function returns, and
  the code then sets the time of the stored reading as well, which the values of the model do not show: the statement
  leaves the streams and the times of the readings apart, so that it covers this.)
\<close>

theorem results_stamped:
  assumes "process_input env s v (g, w) = Some (res, g', w')" and "r \<in> log_readings (g_log g')"
  shows "(r \<in> log_readings (g_log g) \<or> raw_time r = raw_time v) \<and>
    r_stream r \<in> r_stream ` log_readings (g_log g) \<union>
      stream_encode ` ({s} \<union> {out. stream_important s \<and> associated_stream s = Inr out} \<union> streams_fed g) \<and>
    (\<exists>log marks. g' = g\<lparr>g_log := log, g_marked := marks\<rparr>)"
proof -
  let ?ss = "{s} \<union> {out. stream_important s \<and> associated_stream s = Inr out} \<union> streams_fed g"
  let ?rel = "\<lambda>gw gw'. run_stores (of_time (raw_time v) ?ss) gw gw' \<and> same_graph gw gw'"
  obtain x gw1 where pushed: "bind_act (graph_push env s v (g, w)) (\<lambda>_. push_important env s v) = (x, gw1)"
    by (cases "bind_act (graph_push env s v (g, w)) (\<lambda>_. push_important env s v)") blast
  have imp: "run_stores (of_time (raw_time v) ?ss) gw (snd (push_important env s v gw))" for gw
    by (auto simp: push_important_def run_stores.rel_refl split: sum.split intro!: stored_push)
  have "run_stores (of_time (raw_time v) ?ss) (g, w) (snd (bind_act (graph_push env s v (g, w)) (\<lambda>_. push_important env s v)))"
    by (intro run_stores.bind_act stored_push imp) simp_all
  moreover have "same_graph (g, w) (snd (bind_act (graph_push env s v (g, w)) (\<lambda>_. push_important env s v)))"
    by (intro same_graph.bind_act same_graph_push same_graph_important)
  ultimately have first: "?rel (g, w) gw1" by (simp add: pushed)
  have "?rel (g, w) (g', w')"
  proof (cases x)
    case (Inl err)
    then show ?thesis using assms(1) pushed first by (simp add: process_input_def)
  next
    case (Inr u)
    have "set (g_roots (fst gw1)) \<subseteq> downstream (fst (g, w))" using same_graphD(2) [of "(g, w)" gw1] first by (auto simp: downstream_def)
    moreover have "graph_loop env (raw_time v) (g_roots (fst gw1)) None gw1 = Some (res, g', w')"
      using assms(1) pushed Inr by (simp add: process_input_def)
    ultimately have "?rel gw1 (g', w')" using loop_stores [of env "raw_time v" "g_roots (fst gw1)" None gw1 "(res, g', w')" "(g, w)" ?ss] first by auto
    then show ?thesis using first run_stores.rel_trans same_graph.rel_trans by blast
  qed
  then show ?thesis using assms(2) by (fastforce simp: run_stores_def gains_def of_time_def same_graph_def)
qed

text \<open>
  Exceptions of processing functions are caught and logged, but \<open>process_input\<close> then looks at the results of the node.  If
  no node was run before, it raises \<open>UnboundLocalError\<close>; otherwise it takes the results of the node that ran before for
  those of the node that failed, and notifies the outputs of the failed node if there were any.
\<close>

theorem failing_node:
  assumes "node_triggered (g_log g) (g_store g ! n) = Inr True" "graph_process env n (g, w) = Some (Inl err, gw1)"
    "node_str (g_log (fst gw1)) (g_store g ! n) = Inr text"
  shows "graph_loop env t (n # rest) None (g, w) = Some (Inl UnboundLocalError, gw1) \<and>
    graph_loop env t (n # rest) (Some rs) (g, w) =
      graph_loop env t (rest @ (if rs \<noteq> [] then n_outputs (g_store g ! n) else [])) (Some rs) gw1"
proof -
  have "same_graph (g, w) gw1" using assms(2) by (rule same_graph_process)
  then have "g_store (fst gw1) = g_store g" using same_graphD(1) by fastforce
  then show ?thesis using assms by (subst (1 2) graph_loop.simps) (simp add: run_node_def log_exception_def)
qed

text \<open>
  A graph with one node whose function is not installed: adding the node raises, but the node stays a root,
  and the next input fails.
\<close>

definition quiet_env :: "unit graph_env" where
  "quiet_env = \<lparr>ge_rpc = (\<lambda>address rpc_id w. (Inl HardwareError, w)), ge_assign = (\<lambda>s w. (None, w))\<rparr>"

definition tick_desc :: "string \<Rightarrow> node_desc" where
  "tick_desc f = \<lparr>nd_input_a = (\<lparr>stream_type = 3, stream_id = 2, system = True\<rparr>, TrueTrigger), nd_input_b = None,
     nd_combiner = 0, nd_stream = \<lparr>stream_type = 0, stream_id = 5, system = False\<rparr>, nd_func = f\<rparr>"

definition tick_grammar :: "string \<Rightarrow> node_grammar" where
  "tick_grammar f text = (if text = desc_text (tick_desc f) then Some (desc_tokens (tick_desc f)) else None)"

definition empty_graph :: sensor_graph where
  "empty_graph = (case new_sensor_graph small_log (Some new_device_model) False of Inr g \<Rightarrow> g)"
definition dangling :: sensor_graph where
  "dangling = snd (add_node (tick_grammar ''average_a'') (desc_text (tick_desc ''average_a'')) empty_graph)"

lemma dangling_fields:
  "fst (add_node (tick_grammar ''average_a'') (desc_text (tick_desc ''average_a'')) empty_graph) = Inl ProcessingFunctionError"
  "g_roots dangling = [0]" "g_nodes dangling = []" "map n_func (g_store dangling) = [None]"
  "map n_outputs (g_store dangling) = [[]]"
  "node_triggered (g_log dangling) (g_store dangling ! 0) = Inr True"
  "node_str (g_log dangling) (g_store dangling ! 0) = Inr ''(system input 2 always) => buffered 5 using None''"
  by code_simp+

theorem failing_node_witness:
  "graph_loop quiet_env 10 [0] None (dangling, ()) = Some (Inl UnboundLocalError, (dangling, ()))"
proof -
  have "n_func (g_store dangling ! 0) = None" using dangling_fields(4) by (cases "g_store dangling") auto
  then have "graph_process quiet_env 0 (dangling, ()) = Some (Inl ProcessingFunctionError, (dangling, ()))"
    by (simp add: graph_process_def node_process_def)
  from failing_node [OF dangling_fields(6) this] dangling_fields(7) show ?thesis by fastforce
qed

text \<open>A graph with one node that copies the tick to a buffered stream, with the time of the tick.\<close>

definition copying :: sensor_graph where
  "copying = snd (add_node (tick_grammar ''copy_latest_a'') (desc_text (tick_desc ''copy_latest_a'')) empty_graph)"

definition tick_reading :: reading where
  "tick_reading = new_reading 9 14338 1 None (Some 4) None"

definition copied :: "(unit, sensor_graph \<times> unit) act option" where
  "copied = process_input quiet_env \<lparr>stream_type = 3, stream_id = 2, system = True\<rparr> tick_reading (copying, ())"

definition copied_reading :: reading where
  "copied_reading = tick_reading\<lparr>r_stream := 5\<rparr>"

declare graph_loop.simps [code] drain.simps [code]

lemma copied_fields:
  "map_option fst copied = Some (Inr ())"
  "map_option (\<lambda>y. storage_data (sl_engine (g_log (fst (snd y))))) copied = Some [copied_reading]"
  "storage_data (sl_engine (g_log copying)) = []" "streaming_data (sl_engine (g_log copying)) = []" "sl_last_values (g_log copying) = []"
  by code_simp+

theorem results_stamped_witness:
  "raw_time copied_reading = 9 \<and> (\<exists>g'. copied = Some (Inr (), g', ()) \<and> copied_reading \<in> log_readings (g_log g') \<and>
    (\<exists>log marks. g' = copying\<lparr>g_log := log, g_marked := marks\<rparr>))"
proof -
  obtain g' where g': "copied = Some (Inr (), g', ())" using copied_fields(1) by auto
  have "storage_data (sl_engine (g_log g')) = [copied_reading]" using copied_fields(2) by (simp add: g')
  then have c: "copied_reading \<in> log_readings (g_log g')" by (simp add: log_readings_def)
  have e: "log_readings (g_log copying) = {}" by (simp add: log_readings_def copied_fields)
  have t: "raw_time tick_reading = 9" by (simp add: tick_reading_def new_reading_def)
  note r = results_stamped [OF g' [unfolded copied_def] c]
  have "raw_time copied_reading = 9" using conjunct1 [OF r] by (simp add: e t)
  then show ?thesis using g' c conjunct2 [OF conjunct2 [OF r]] by blast
qed

theorem process_input_returns_witness:
  "process_input quiet_env \<lparr>stream_type = 3, stream_id = 2, system = True\<rparr> (sample_reading 0 1 0) (dangling, ()) \<noteq> None"
proof (rule process_input_returns)
  have store: "n_outputs (g_store dangling ! 0) = []" "n_func (g_store dangling ! 0) = None" "length (g_store dangling) = 1"
    using dangling_fields(4,5) by (cases "g_store dangling"; auto)+
  then have only: "set (g_store dangling) = {g_store dangling ! 0}" by (cases "g_store dangling") auto
  show "refs_ok dangling" using store only dangling_fields by (simp add: refs_ok_def)
  have "feeds dangling = {}" using store by (auto simp: feeds_def)
  then show "acyclic (feeds dangling)" by (simp add: acyclic_def)
  show "\<forall>node \<in> set (g_store dangling). node_returns (g_log dangling) node"
    using store only by (simp add: node_returns_def)
qed

section \<open>Ready streamers\<close>

text \<open>Streamers that the inner loop can add follow streamer \<open>i\<close>, and their index in the slice is not selected.\<close>

lemma with_others_ready:
  assumes "with_others i p j sts log ready selected = Inr (ready', selected')"
  shows "set ready' \<subseteq> set ready \<union> {p + k |k. k < length sts \<and> st_with_other (sts ! k) = Some i \<and> j + k \<notin> selected}"
  using assms
proof (induction sts arbitrary: p j ready selected)
  case (Cons st sts)
  have step: "{Suc p + k |k. k < length sts \<and> st_with_other (sts ! k) = Some i \<and> Suc j + k \<notin> sel} \<subseteq>
      {p + k |k. k < length (st # sts) \<and> st_with_other ((st # sts) ! k) = Some i \<and> j + k \<notin> selected}"
    if sub: "selected \<subseteq> sel" for sel
  proof
    fix x assume "x \<in> {Suc p + k |k. k < length sts \<and> st_with_other (sts ! k) = Some i \<and> Suc j + k \<notin> sel}"
    then obtain k where "x = p + Suc k" "k < length sts" "st_with_other (sts ! k) = Some i" "j + Suc k \<notin> selected"
      using sub by auto
    then show "x \<in> {p + k |k. k < length (st # sts) \<and> st_with_other ((st # sts) ! k) = Some i \<and> j + k \<notin> selected}"
      by (intro CollectI exI [of _ "Suc k"]) simp
  qed
  show ?case
  proof (cases "st_with_other st = Some i \<and> j \<notin> selected \<and> streamer_triggered st True log = Inr True")
    case True
    then have "with_others i (Suc p) (Suc j) sts log (ready @ [p]) (insert j selected) = Inr (ready', selected')"
      using Cons.prems by simp
    from Cons.IH [OF this] step [of "insert j selected"] True show ?thesis
      by (auto 0 4 intro: exI [of _ 0])
  next
    case False
    then have "with_others i (Suc p) (Suc j) sts log ready selected = Inr (ready', selected')"
      using Cons.prems by (auto simp: bind_res_Inr_iff split: if_splits)
    from Cons.IH [OF this] step [of selected] show ?thesis by blast
  qed
qed simp

lemma check_loop_misses:
  assumes "check_loop blacklist i (drop i sts) ready selected g = (Inr ready', g')"
    "q < length sts" "st_with_other (sts ! q) = Some (int k)" "q = 2 * k" "\<not> st_automatic (sts ! q)" 
    "int q \<notin> g_marked g" "q \<notin> set ready"
  shows "q \<notin> set ready'"
  using assms(1,6,7)
proof (induction "length sts - i" arbitrary: i ready selected g)
  case 0
  then show ?case by simp
next
  case (Suc m)
  have i: "i < length sts" using Suc.hyps(2) by simp
  then have d: "drop i sts = sts ! i # drop (Suc i) sts" by (simp add: Cons_nth_drop_Suc)
  let ?g1 = "g\<lparr>g_marked := g_marked g - {int i}\<rparr>"
  note IH = Suc.hyps(1) [of "Suc i"]
  consider (skip) "check_loop blacklist (Suc i) (drop (Suc i) sts) ready selected g = (Inr ready', g')"
    | (quiet) "check_loop blacklist (Suc i) (drop (Suc i) sts) ready selected ?g1 = (Inr ready', g')"
    | (fires) ready1 selected1 where "streamer_triggered (sts ! i) (int i \<in> g_marked g) (g_log g) = Inr True"
        "with_others (int i) i 0 (drop i sts) (g_log g) (ready @ [i]) (insert i selected) = Inr (ready1, selected1)"
        "check_loop blacklist (Suc i) (drop (Suc i) sts) ready1 selected1 ?g1 = (Inr ready', g')"
    using Suc.prems(1) d by (auto simp: Let_def split: if_splits sum.splits bool.splits prod.splits)
  then show ?case
  proof cases
    case skip
    then show ?thesis using IH Suc.hyps(2) Suc.prems by simp
  next
    case quiet
    then show ?thesis using IH Suc.hyps(2) Suc.prems by simp
  next
    case fires
    have "i \<noteq> q"
      using fires(1) assms(5) Suc.prems(2) by (auto simp: streamer_triggered_def split: if_splits)
    have "q \<notin> {i + l |l. l < length (drop i sts) \<and> st_with_other (drop i sts ! l) = Some (int i) \<and> 0 + l \<notin> insert i selected}"
    proof
      assume "q \<in> {i + l |l. l < length (drop i sts) \<and> st_with_other (drop i sts ! l) = Some (int i) \<and> 0 + l \<notin> insert i selected}"
      then obtain l where "q = i + l" "st_with_other (sts ! q) = Some (int i)" "l \<noteq> i" by auto
      then show False using assms(3,4) by simp
    qed
    then have "q \<notin> set ready1"
      using with_others_ready [OF fires(2)] Suc.prems(3) \<open>i \<noteq> q\<close> by auto
    then show ?thesis using IH [OF _ fires(3)] Suc.hyps(2) Suc.prems by simp
  qed
qed

definition ready_at :: "int set option \<Rightarrow> sensor_graph \<Rightarrow> nat \<Rightarrow> bool" where
  "ready_at blacklist g i \<longleftrightarrow>
     (case blacklist of None \<Rightarrow> True | Some b \<Rightarrow> int i \<notin> b) \<and>
     (st_automatic (g_streamers g ! i) \<or> int i \<in> g_marked g) \<and>
     (case st_walker (g_streamers g ! i) of None \<Rightarrow> False | Some wid \<Rightarrow> log_count wid (g_log g) > 0)"

definition checked :: "int set option \<Rightarrow> int set" where
  "checked blacklist = (case blacklist of None \<Rightarrow> UNIV | Some b \<Rightarrow> - b)"

lemma with_others_none:
  "\<forall>st \<in> set sts. st_with_other st = None \<Longrightarrow> with_others i p j sts log ready selected = Inr (ready, selected)"
  by (induction sts arbitrary: p j) auto

lemma check_loop_all:
  assumes "\<forall>st \<in> set (g_streamers g0). st_with_other st = None \<and> st_walker st \<noteq> None"
  shows "i \<le> length (g_streamers g0) \<Longrightarrow> \<forall>l \<in> selected. l < i \<Longrightarrow>
    g = g0\<lparr>g_marked := g_marked g0 - (checked blacklist \<inter> {0..<int i})\<rparr> \<Longrightarrow>
    check_loop blacklist i (drop i (g_streamers g0)) ready selected g =
      (Inr (ready @ filter (ready_at blacklist g0) [i..<length (g_streamers g0)]),
       g0\<lparr>g_marked := g_marked g0 - (checked blacklist \<inter> {0..<int (length (g_streamers g0))})\<rparr>)"
proof (induction "length (g_streamers g0) - i" arbitrary: i ready selected g)
  case 0
  then show ?case by simp
next
  case (Suc m)
  let ?sts = "g_streamers g0"
  have i: "i < length ?sts" using Suc.hyps(2) by simp
  then have d: "drop i ?sts = ?sts ! i # drop (Suc i) ?sts" and u: "[i..<length ?sts] = i # [Suc i..<length ?sts]"
    by (simp_all add: Cons_nth_drop_Suc upt_conv_Cons)
  have st: "st_with_other (?sts ! i) = None" "st_walker (?sts ! i) \<noteq> None" using assms i by auto
  have "i \<notin> selected" using Suc.prems(2) by auto
  have range: "{0..<int (Suc i)} = insert (int i) {0..<int i}" by auto
  have none: "with_others (int i) (Suc i) (Suc 0) (drop (Suc i) ?sts) log r sel = Inr (r, sel)" for log r sel
    using assms by (intro with_others_none) (auto dest: in_set_dropD)
  have m: "m = length ?sts - Suc i" "Suc i \<le> length ?sts" using Suc.hyps(2) i by simp_all
  note IH = Suc.hyps(1) [OF m]
  have later: "\<forall>l \<in> selected. l < Suc i" "\<forall>l \<in> insert i selected. l < Suc i" using Suc.prems(2) by auto
  show ?case
  proof (cases "int i \<in> checked blacklist")
    case False
    then have "g = g0\<lparr>g_marked := g_marked g0 - (checked blacklist \<inter> {0..<int (Suc i)})\<rparr>"
      using Suc.prems(3) unfolding range by auto
    moreover have "\<not> ready_at blacklist g0 i" "(case blacklist of None \<Rightarrow> False | Some b \<Rightarrow> int i \<in> b)"
      using False by (auto simp: ready_at_def checked_def split: option.splits)
    ultimately show ?thesis using IH [OF later(1)] d u by simp
  next
    case True
    let ?g1 = "g\<lparr>g_marked := g_marked g - {int i}\<rparr>"
    have "A - checked blacklist \<inter> {0..<int i} - {int i} = A - checked blacklist \<inter> {0..<int (Suc i)}" for A
      using True unfolding range by blast
    then have g1: "?g1 = g0\<lparr>g_marked := g_marked g0 - (checked blacklist \<inter> {0..<int (Suc i)})\<rparr>"
      using Suc.prems(3) by simp
    have allowed: "\<not> (case blacklist of None \<Rightarrow> False | Some b \<Rightarrow> int i \<in> b)"
      using True by (auto simp: checked_def split: option.splits)
    have fires: "streamer_triggered (?sts ! i) (int i \<in> g_marked g) (g_log g) = Inr (ready_at blacklist g0 i)"
      using st(2) allowed Suc.prems(3) True
      by (auto simp: streamer_triggered_def ready_at_def has_data_def split: option.splits)
    show ?thesis
    proof (cases "ready_at blacklist g0 i")
      case False
      then show ?thesis
        using IH [OF later(1) g1] fires allowed \<open>i \<notin> selected\<close> d u by simp
    next
      case True
      then show ?thesis
        using IH [OF later(2) g1, of "ready @ [i]"] fires allowed \<open>i \<notin> selected\<close> d u none st(1) by (simp add: Let_def)
    qed
  qed
qed

text \<open>
  C12: which streamers are ready.  If all streamers are linked and none follows another, \<open>check_streamers\<close> raises
  nothing and returns, in order, the streamers outside the blacklist that are automatic or marked and have data,
  and it drops the marks of the streamers it looked at.  But a streamer at position \<open>2 * k\<close> that follows streamer
  \<open>k\<close> and is neither automatic nor marked is never returned, although the docs say it triggers with it: its index
  in the slice is \<open>k\<close>, which is taken as already selected.
\<close>

theorem ready_streamers:
  "((\<forall>st \<in> set (g_streamers g). st_with_other st = None \<and> st_walker st \<noteq> None) \<longrightarrow>
     check_streamers blacklist g = (Inr (filter (ready_at blacklist g) [0..<length (g_streamers g)]),
       g\<lparr>g_marked := g_marked g - (checked blacklist \<inter> {0..<int (length (g_streamers g))})\<rparr>)) \<and>
   (2 * k < length (g_streamers g) \<longrightarrow> st_with_other (g_streamers g ! (2 * k)) = Some (int k) \<longrightarrow>
     \<not> st_automatic (g_streamers g ! (2 * k)) \<longrightarrow> int (2 * k) \<notin> g_marked g \<longrightarrow>
     check_streamers blacklist g = (Inr ready, g') \<longrightarrow> 2 * k \<notin> set ready)"
proof (intro conjI impI)
  assume all: "\<forall>st \<in> set (g_streamers g). st_with_other st = None \<and> st_walker st \<noteq> None"
  show "check_streamers blacklist g = (Inr (filter (ready_at blacklist g) [0..<length (g_streamers g)]),
       g\<lparr>g_marked := g_marked g - (checked blacklist \<inter> {0..<int (length (g_streamers g))})\<rparr>)"
    using check_loop_all [OF all, of 0 "{}" g blacklist "[]"] by (simp add: check_streamers_def)
next
  assume a: "2 * k < length (g_streamers g)" "st_with_other (g_streamers g ! (2 * k)) = Some (int k)"
    "\<not> st_automatic (g_streamers g ! (2 * k))" "int (2 * k) \<notin> g_marked g" "check_streamers blacklist g = (Inr ready, g')"
  show "2 * k \<notin> set ready"
    using check_loop_misses [of blacklist 0 "g_streamers g" "[]" "{}" g ready g' "2 * k" k] a
    by (simp add: check_streamers_def)
qed

text \<open>Three streamers on the readings of a log, the last of which follows the second.\<close>

definition following_graph :: sensor_graph where
  "following_graph = empty_graph\<lparr>g_log := full_log True, g_streamers :=
     map (\<lambda>(auto, other). \<lparr>st_selector = \<lparr>match_type = 0, match_id = Some 1, match_spec = 3\<rparr>,
       st_dest = \<lparr>controller = True, slot = None\<rparr>, st_format = ''hashedlist'', st_automatic = auto,
       st_report_type = ''telegram'', st_with_other = other, st_walker = Some 0, st_index = Some 0\<rparr>)
     [(False, None), (True, None), (False, Some 1)]\<rparr>"

theorem ready_streamers_witness:
  "\<exists>ready g'. check_streamers None following_graph = (Inr ready, g') \<and> 1 \<in> set ready \<and> 2 \<notin> set ready"
proof -
  have marks: "g_marked following_graph = {}"
    by (simp add: following_graph_def empty_graph_def new_sensor_graph_def)
  have "log_count 0 (full_log True) = 3" by code_simp
  then have "check_streamers None following_graph = (Inr [1], following_graph)"
    using marks by (simp add: check_streamers_def following_graph_def streamer_triggered_def has_data_def)
  then show ?thesis
    using ready_streamers [of following_graph None 1 "[1]" following_graph] marks
    by (auto simp: following_graph_def)
qed

end
