(* ===== verification/Graph_Invariant.thy ===== *)
theory Graph_Invariant
  imports Graph_Process
begin

text \<open>
  What holds of every sensor graph that is built and used through its methods, also when some of the calls
  raise.
\<close>

section \<open>The invariant\<close>

text \<open>
  References are in range; nodes are listed once and have a function, roots are listed once; streamers are
  linked and know their position; keys are used once; the limits are kept.
\<close>

definition streamers_ok :: "data_streamer list \<Rightarrow> bool" where
  "streamers_ok sts \<longleftrightarrow> (\<forall>i < length sts. st_index (sts ! i) = Some (int i) \<and> st_walker (sts ! i) \<noteq> None)"

definition within :: "int option \<Rightarrow> 'a list \<Rightarrow> bool" where
  "within limit xs = (case limit of None \<Rightarrow> True | Some m \<Rightarrow> int (length xs) \<le> max 0 m)"

definition graph_ok :: "sensor_graph \<Rightarrow> bool" where
  "graph_ok g \<longleftrightarrow> refs_ok g \<and> distinct (g_nodes g) \<and> distinct (g_roots g) \<and>
     (\<forall>n \<in> set (g_nodes g). n_func (g_store g ! n) \<noteq> None) \<and> streamers_ok (g_streamers g) \<and>
     distinct (map fst (g_constants g)) \<and> distinct (map fst (g_metadata g)) \<and> distinct (map fst (g_configs g)) \<and>
     within (g_max_nodes g) (g_nodes g) \<and> within (g_max_streamers g) (g_streamers g)"

lemma same_graph_ok:
  assumes "same_graph gw gw'" "graph_ok (fst gw)"
  shows "graph_ok (fst gw')"
proof -
  obtain log marks where "fst gw' = (fst gw)\<lparr>g_log := log, g_marked := marks\<rparr>"
    using assms(1) by (auto simp: same_graph_def)
  then show ?thesis using assms(2) by (simp add: graph_ok_def refs_ok_def)
qed

section \<open>Wiring\<close>

text \<open>Wiring changes nodes of the store: outputs are added, and functions stay.\<close>

definition grown :: "sensor_graph \<Rightarrow> sensor_graph \<Rightarrow> bool" where
  "grown g g' \<longleftrightarrow>
     (\<exists>store log. g' = g\<lparr>g_store := store, g_log := log\<rparr> \<and> length store = length (g_store g) \<and>
       (\<forall>i < length store. n_func (store ! i) = n_func (g_store g ! i) \<and>
          set (n_outputs (store ! i)) \<subseteq> set (n_outputs (g_store g ! i)) \<union> {..<length store}))"

interpretation grown: step_relation grown
proof unfold_locales
  show "grown g g" for g
    unfolding grown_def by (intro exI [of _ "g_store g"] exI [of _ "g_log g"]) simp
  show "grown a c" if "grown a b" "grown b c" for a b c
  proof -
    from that obtain store log store' log' where b: "b = a\<lparr>g_store := store, g_log := log\<rparr>" "length store = length (g_store a)"
      "\<And>i. i < length store \<Longrightarrow> n_func (store ! i) = n_func (g_store a ! i) \<and>
          set (n_outputs (store ! i)) \<subseteq> set (n_outputs (g_store a ! i)) \<union> {..<length store}"
      and c: "c = b\<lparr>g_store := store', g_log := log'\<rparr>" "length store' = length (g_store b)"
      "\<And>i. i < length store' \<Longrightarrow> n_func (store' ! i) = n_func (g_store b ! i) \<and>
          set (n_outputs (store' ! i)) \<subseteq> set (n_outputs (g_store b ! i)) \<union> {..<length store'}"
      unfolding grown_def by blast
    have "n_func (store' ! i) = n_func (g_store a ! i) \<and>
          set (n_outputs (store' ! i)) \<subseteq> set (n_outputs (g_store a ! i)) \<union> {..<length store'}" if "i < length store'" for i
      using b(1,2) c(1,2) b(3) [of i] c(3) [OF that] that by auto
    then show "grown a c"
      unfolding grown_def using b(1,2) c(1,2) by (intro exI [of _ store'] exI [of _ log']) simp
  qed
qed

lemma grown_on_log: "grown g (snd (on_log f g))"
  unfolding grown_def on_log_def
  by (intro exI [of _ "g_store g"] exI [of _ "snd (f (g_log g))"]) (simp add: map_state_def)

lemma grown_on_node:
  assumes "n_func (snd (f (g_store g ! n))) = n_func (g_store g ! n)"
    "set (n_outputs (snd (f (g_store g ! n)))) \<subseteq> set (n_outputs (g_store g ! n)) \<union> {..<length (g_store g)}"
  shows "grown g (snd (on_node n f g))"
proof -
  let ?node = "snd (f (g_store g ! n))"
  have "n_func ((g_store g)[n := ?node] ! i) = n_func (g_store g ! i) \<and>
      set (n_outputs ((g_store g)[n := ?node] ! i)) \<subseteq> set (n_outputs (g_store g ! i)) \<union> {..<length (g_store g)}"
    if "i < length (g_store g)" for i
    using assms that by (cases "i = n") auto
  then show ?thesis
    unfolding grown_def on_node_def
    by (intro exI [of _ "(g_store g)[n := ?node]"] exI [of _ "g_log g"]) (simp add: map_state_def)
qed

lemma grown_connect_output: "k < length (g_store g) \<Longrightarrow> grown g (snd (on_node n (connect_output k) g))"
  by (rule grown_on_node) (auto simp: connect_output_def)

lemma grown_connect_input: "grown g (snd (on_node n (connect_input i ref trig) g))"
  by (rule grown_on_node) (auto simp: connect_input_def Let_def split: sum.split)

lemma grownD:
  assumes "grown g g'"
  shows "length (g_store g') = length (g_store g)" "g_nodes g' = g_nodes g" "g_roots g' = g_roots g"
  using assms by (auto simp: grown_def)

lemma grown_feed_from: "n < length (g_store g) \<Longrightarrow> grown g (snd (feed_from sel n others found g))"
proof (induction others arbitrary: found g)
  case (Cons other others)
  have "grown t (snd (feed_from sel n others True t))" if "grown g t" for t
    using Cons grownD(1) [OF that] by simp
  moreover have step: "grown g (snd (on_node other (connect_output n) g))"
    using Cons.prems by (rule grown_connect_output)
  ultimately show ?case using Cons
    by (auto intro!: grown.bind_act)
qed (simp add: grown.rel_refl)

lemma grown_feed_inputs: "other < length (g_store g) \<Longrightarrow> grown g (snd (feed_inputs n other inputs g))"
proof (induction inputs arbitrary: g)
  case (Cons x inputs)
  have "grown t (snd (feed_inputs n other inputs t))" if "grown g t" for t
    using Cons grownD(1) [OF that] by simp
  moreover have "grown g (snd (on_node n (connect_output other) g))"
    using Cons.prems by (rule grown_connect_output)
  ultimately show ?case using Cons
    by (cases x) (auto intro!: grown.bind_act)
qed (simp add: grown.rel_refl)

lemma grown_feed_nodes: "set others \<subseteq> {..<length (g_store g)} \<Longrightarrow> grown g (snd (feed_nodes n others g))"
proof (induction others arbitrary: g)
  case (Cons other others)
  have "grown t (snd (feed_nodes n others t))" if "grown g t" for t
    using Cons grownD(1) [OF that] by simp
  moreover have "grown g (snd (feed_inputs n other (n_inputs (g_store g ! other)) g))"
    using Cons.prems by (intro grown_feed_inputs) simp
  ultimately show ?case by (auto intro!: grown.bind_act)
qed (simp add: grown.rel_refl)

lemma grown_roots: "grown g g' \<Longrightarrow> grown (g\<lparr>g_roots := R\<rparr>) (g'\<lparr>g_roots := R\<rparr>)"
proof -
  assume "grown g g'"
  then obtain store log where "g' = g\<lparr>g_store := store, g_log := log\<rparr>" "length store = length (g_store g)"
      "\<forall>i < length store. n_func (store ! i) = n_func (g_store g ! i) \<and>
          set (n_outputs (store ! i)) \<subseteq> set (n_outputs (g_store g ! i)) \<union> {..<length store}"
    unfolding grown_def by blast
  then show ?thesis unfolding grown_def by (intro exI [of _ store] exI [of _ log]) simp
qed

text \<open>The state after wiring, with the node appended to the roots at most once.\<close>

definition wired :: "nat \<Rightarrow> bool \<Rightarrow> sensor_graph \<Rightarrow> sensor_graph \<Rightarrow> bool" where
  "wired n in_root g g' \<longleftrightarrow> grown g g' \<or> (\<not> in_root \<and> grown (g\<lparr>g_roots := g_roots g @ [n]\<rparr>) g')"

lemma wired_grown: "grown g t \<Longrightarrow> wired n in_root t u \<Longrightarrow> wired n in_root g u"
  using grown_roots [of g t "g_roots g @ [n]"] grownD(3) [of g t] grown.rel_trans
  by (auto simp: wired_def)

lemma wired_bind:
  assumes "grown g (snd x)" "\<And>a t. grown g t \<Longrightarrow> wired n in_root t (snd (f a t))"
  shows "wired n in_root g (snd (bind_act x f))"
proof (cases "fst x")
  case (Inl err)
  then show ?thesis using assms(1) by (cases x) (auto simp: wired_def)
next
  case (Inr a)
  then show ?thesis using wired_grown [OF assms(1) assms(2) [OF assms(1)]] by (cases x) simp
qed

lemma wire_inputs_wired:
  "n < length (g_store g) \<Longrightarrow> wired n in_root g (snd (wire_inputs n i inputs in_root g))"
proof (induction inputs arbitrary: i in_root g)
  case (Cons x inputs)
  obtain sel trig where x: "x = (sel, trig)" by (cases x)
  have later: "wired n in_root g3 (snd (
      if sel_input sel \<and> \<not> in_root then wire_inputs n (i + 1) inputs True (g3\<lparr>g_roots := g_roots g3 @ [n]\<rparr>)
       else bind_act (feed_from sel n (g_nodes g3) False g3) (\<lambda>found g4.
         if \<not> found \<and> sel_buffered sel then (Inl NodeConnectionError, g4)
         else wire_inputs n (i + 1) inputs in_root g4)))"
    if g3: "grown g g3" for g3
  proof (cases "sel_input sel \<and> \<not> in_root")
    case True
    have "n < length (g_store (g3\<lparr>g_roots := g_roots g3 @ [n]\<rparr>))" using Cons.prems grownD(1) [OF g3] by simp
    from Cons.IH [OF this, of True "i + 1"] True show ?thesis by (simp add: wired_def)
  next
    case False
    have n3: "n < length (g_store g3)" using Cons.prems grownD(1) [OF g3] by simp
    have "wired n in_root g4 (snd (if \<not> found \<and> sel_buffered sel then (Inl NodeConnectionError, g4)
         else wire_inputs n (i + 1) inputs in_root g4))" if "grown g3 g4" for found g4
      using Cons.IH [of g4 in_root "i + 1"] n3 grownD(1) [OF that] by (auto simp: wired_def grown.rel_refl)
    then show ?thesis using False grown_feed_from [OF n3] by (simp only: if_False) (intro wired_bind)
  qed
  show ?case unfolding x wire_inputs.simps
  proof (intro wired_bind grown_on_log grown_connect_input)
    fix wid g1 u g2 v g3
    assume "grown g g1" "grown g1 g2" "grown g2 g3"
    then have "grown g g3" by (blast intro: grown.rel_trans)
    from later [OF this] show "wired n in_root g3 (snd (
      if sel_input sel \<and> \<not> in_root then wire_inputs n (i + 1) inputs True (g3\<lparr>g_roots := g_roots g3 @ [n]\<rparr>)
       else bind_act (feed_from sel n (g_nodes g3) False g3) (\<lambda>found g4.
         if \<not> found \<and> sel_buffered sel then (Inl NodeConnectionError, g4)
         else wire_inputs n (i + 1) inputs in_root g4)))" .
  qed
qed (simp add: wired_def grown.rel_refl)

section \<open>Each operation keeps the invariant\<close>

lemma refs_okI:
  assumes "set (g_roots g) \<subseteq> {..<length (g_store g)}" "set (g_nodes g) \<subseteq> {..<length (g_store g)}"
    "\<And>i. i < length (g_store g) \<Longrightarrow> set (n_outputs (g_store g ! i)) \<subseteq> {..<length (g_store g)}"
  shows "refs_ok g"
proof -
  have "set (n_outputs node) \<subseteq> {..<length (g_store g)}" if "node \<in> set (g_store g)" for node
    using that assms(3) by (metis in_set_conv_nth)
  then show ?thesis using assms(1,2) by (simp add: refs_ok_def)
qed

lemma refs_okD:
  "refs_ok g \<Longrightarrow> i < length (g_store g) \<Longrightarrow> set (n_outputs (g_store g ! i)) \<subseteq> {..<length (g_store g)}"
  by (auto simp: refs_ok_def)

lemma graph_ok_grown:
  assumes "grown g g'" "graph_ok g"
  shows "graph_ok g'"
proof -
  obtain store log where g': "g' = g\<lparr>g_store := store, g_log := log\<rparr>" "length store = length (g_store g)"
      "\<And>i. i < length store \<Longrightarrow> n_func (store ! i) = n_func (g_store g ! i) \<and>
          set (n_outputs (store ! i)) \<subseteq> set (n_outputs (g_store g ! i)) \<union> {..<length store}"
    using assms(1) unfolding grown_def by blast
  have refs: "refs_ok g" using assms(2) by (simp add: graph_ok_def)
  have "refs_ok g'"
  proof (rule refs_okI)
    fix i assume i: "i < length (g_store g')"
    then show "set (n_outputs (g_store g' ! i)) \<subseteq> {..<length (g_store g')}"
      using g' refs_okD [OF refs] by fastforce
  qed (use g' refs in \<open>simp_all add: refs_ok_def\<close>)
  moreover have "n_func (store ! n) \<noteq> None" if "n \<in> set (g_nodes g)" for n
    using assms(2) that g'(2) g'(3) [of n] by (auto simp: graph_ok_def refs_ok_def)
  ultimately show ?thesis using assms(2) g'(1) by (simp add: graph_ok_def)
qed

lemma graph_ok_wired:
  assumes "wired n in_root g g'" "graph_ok g" "n < length (g_store g)" "n \<notin> set (g_roots g)"
  shows "graph_ok g'"
proof -
  have "graph_ok (g\<lparr>g_roots := g_roots g @ [n]\<rparr>)"
    using assms(2-4) by (simp add: graph_ok_def refs_ok_def)
  then show ?thesis using assms(1,2) graph_ok_grown by (auto simp: wired_def)
qed

lemma parsed_node:
  assumes "parse_node_descriptor grammar desc model = Inr (node, inputs, proc)"
  shows "n_outputs node = []"
  using assms
  by (auto simp: parse_node_descriptor_def new_node_def bind_res_Inr_iff split: option.splits)

lemma graph_ok_node:
  assumes "graph_ok g" "n_outputs node = []"
  shows "graph_ok (g\<lparr>g_store := g_store g @ [node]\<rparr>)"
proof -
  have "refs_ok (g\<lparr>g_store := g_store g @ [node]\<rparr>)"
    using assms by (fastforce simp: graph_ok_def refs_ok_def)
  moreover have "n_func ((g_store g @ [node]) ! n) = n_func (g_store g ! n)" if "n \<in> set (g_nodes g)" for n
    using that assms(1) by (auto simp: graph_ok_def refs_ok_def nth_append)
  ultimately show ?thesis using assms(1) by (auto simp: graph_ok_def)
qed

lemma wired_nodes: "wired n in_root g g' \<Longrightarrow> g_nodes g' = g_nodes g \<and> length (g_store g') = length (g_store g)
    \<and> g_max_nodes g' = g_max_nodes g"
  by (auto simp: wired_def grown_def)

lemma add_node_ok:
  assumes "graph_ok g"
  shows "graph_ok (snd (add_node grammar desc g))"
proof (cases "parse_node_descriptor grammar desc (g_model g) :: (processor sg_node \<times> (selector \<times> trigger option) list \<times> string) res")
  case (Inl err)
  then show ?thesis using assms by (simp add: add_node_def)
next
  case (Inr parsed)
  obtain node inputs proc where p: "parsed = (node, inputs, proc)" by (cases parsed)
  show ?thesis
  proof (cases "case g_max_nodes g of None \<Rightarrow> False | Some m \<Rightarrow> int (length (g_nodes g)) \<ge> m")
    case True
    then show ?thesis using assms by (simp add: add_node_def)
  next
    case False
    let ?n = "length (g_store g)" and ?g0 = "g\<lparr>g_store := g_store g @ [node]\<rparr>"
    have ok0: "graph_ok ?g0" using graph_ok_node [OF assms] parsed_node Inr p by blast
    have fresh: "?n \<notin> set (g_roots ?g0)" "?n \<notin> set (g_nodes ?g0)"
      using assms by (auto simp: graph_ok_def refs_ok_def)
    obtain r1 g1 where w: "wire_inputs ?n 0 inputs False ?g0 = (r1, g1)" by fastforce
    have wired: "wired ?n False ?g0 g1" using wire_inputs_wired [of ?n ?g0 False 0 inputs] w by simp
    have ok1: "graph_ok g1" using graph_ok_wired [OF wired ok0] fresh by simp
    note same1 = wired_nodes [OF wired]
    obtain r2 g2 where f: "feed_nodes ?n (g_nodes g1) g1 = (r2, g2)" by fastforce
    have grown: "grown g1 g2"
      using grown_feed_nodes [of "g_nodes g1" g1 ?n] ok1 f by (simp add: graph_ok_def refs_ok_def)
    have ok2: "graph_ok g2" by (rule graph_ok_grown [OF grown ok1])
    have same2: "g_nodes g2 = g_nodes g" "length (g_store g2) = Suc ?n" "g_max_nodes g2 = g_max_nodes g"
      using grownD [OF grown] same1 grown by (auto simp: grown_def)
    have "graph_ok (g2\<lparr>g_store := (g_store g2)[?n := set_func proc f (g_store g2 ! ?n)], g_nodes := g_nodes g2 @ [?n]\<rparr>)" (is "graph_ok ?g3") for f
    proof -
      have "refs_ok ?g3"
      proof (rule refs_okI)
        have refs: "refs_ok g2" using ok2 by (simp add: graph_ok_def)
        fix i assume "i < length (g_store ?g3)"
        then show "set (n_outputs (g_store ?g3 ! i)) \<subseteq> {..<length (g_store ?g3)}"
          using refs_okD [OF refs] same2 by (cases "i = ?n") (simp_all add: set_func_def)
      qed (use ok2 same2 in \<open>auto simp: graph_ok_def refs_ok_def\<close>)
      moreover have "n_func (g_store ?g3 ! i) \<noteq> None" if "i \<in> set (g_nodes ?g3)" for i
        using that ok2 same2 by (cases "i = ?n") (auto simp: graph_ok_def set_func_def)
      moreover have "within (g_max_nodes g) (g_nodes g @ [?n])"
        using False by (auto simp: within_def split: option.splits)
      ultimately show ?thesis using ok2 fresh same2 by (simp add: graph_ok_def)
    qed
    then show ?thesis using False Inr p w f ok1 ok2
      by (cases r1; cases r2) (auto simp: add_node_def Let_def split: option.split)
  qed
qed

lemma linked: "link_to_storage st log = (Inr st', log') \<Longrightarrow> st_walker st' \<noteq> None"
  by (auto simp: link_to_storage_def bind_act_def split: prod.splits sum.splits)

lemma graph_ok_log: "graph_ok (g\<lparr>g_log := log\<rparr>) = graph_ok g" "graph_ok (g\<lparr>g_marked := marks\<rparr>) = graph_ok g"
  by (simp_all add: graph_ok_def refs_ok_def)

lemma add_streamer_ok:
  assumes "graph_ok g"
  shows "graph_ok (snd (add_streamer st g))"
proof (cases "case g_max_streamers g of None \<Rightarrow> False | Some m \<Rightarrow> int (length (g_streamers g)) \<ge> m")
  case True
  then show ?thesis using assms by (simp add: add_streamer_def)
next
  case False
  obtain res log where link: "link_to_storage st (g_log g) = (res, log)" by fastforce
  show ?thesis
  proof (cases res)
    case (Inl err)
    then show ?thesis using False link assms by (simp add: add_streamer_def on_log_def graph_ok_log)
  next
    case (Inr st1)
    let ?sts = "g_streamers g @ [st1\<lparr>st_index := Some (int (length (g_streamers g)))\<rparr>]"
    have "streamers_ok ?sts"
      using assms linked link Inr by (auto simp: graph_ok_def streamers_ok_def nth_append less_Suc_eq)
    moreover have "within (g_max_streamers g) ?sts" using False by (auto simp: within_def split: option.splits)
    ultimately show ?thesis using False link Inr assms
      by (simp add: add_streamer_def on_log_def graph_ok_def refs_ok_def)
  qed
qed

lemma add_items_ok:
  assumes "graph_ok g"
  shows "graph_ok (snd (add_constant s v g))" "graph_ok (snd (add_metadata name value g))"
    "graph_ok (add_config s' config_id config_type value' g)"
  using assms distinct_update
  by (auto simp: add_constant_def add_metadata_def add_config_def Let_def graph_ok_def refs_ok_def)

lemma check_loop_marks: "\<exists>marks. snd (check_loop blacklist i sts ready selected g) = g\<lparr>g_marked := marks\<rparr>"
proof (induction sts arbitrary: i ready selected g)
  case Nil
  then show ?case by (auto intro: exI [of _ "g_marked g"])
next
  case (Cons st sts)
  let ?g1 = "g\<lparr>g_marked := g_marked g - {int i}\<rparr>"
  have "\<exists>marks. snd (check_loop blacklist (Suc i) sts r sel ?g1) = g\<lparr>g_marked := marks\<rparr>" for r sel
    using Cons.IH [of "Suc i" r sel ?g1] by simp
  then show ?case using Cons.IH [of "Suc i" ready selected g]
    by (auto simp: Let_def split: sum.split bool.split prod.split)
qed

lemma check_streamers_ok: "graph_ok g \<Longrightarrow> graph_ok (snd (check_streamers blacklist g))"
  using check_loop_marks [of blacklist 0 "g_streamers g" "[]" "{}" g] by (auto simp: check_streamers_def graph_ok_log)

lemma mark_streamer_ok: "graph_ok g \<Longrightarrow> graph_ok (snd (mark_streamer index g))"
  by (simp add: mark_streamer_def map_state_def graph_ok_log)

lemma same_graph_loop:
  "graph_loop env t to_check results gw = Some y \<Longrightarrow> same_graph gw (snd y)"
proof (induction rule: graph_loop.raw_induct [rotated, consumes 1, case_names step])
  case (step d env t to_check results gw y)
  show ?case
  proof (cases to_check)
    case Nil
    then show ?thesis using step(2) by (auto simp: same_graph.rel_refl)
  next
    case (Cons n rest)
    show ?thesis
    proof (cases "node_triggered (g_log (fst gw)) (g_store (fst gw) ! n) = Inr True")
      case False
      then consider err where "y = (Inl err, gw)" | "d env t rest results gw = Some y"
        using step(2) Cons by (auto split: sum.splits if_splits)
      then show ?thesis using step(1) by cases (auto simp: same_graph.rel_refl)
    next
      case True
      then obtain res gw1 where run: "run_node env t n results gw = Some (res, gw1)"
        using step(2) Cons by (auto split: option.splits)
      note same = same_graph_run [OF run]
      consider rs where "res = Inr (Some rs)"
          "d env t (rest @ (if rs \<noteq> [] then n_outputs (g_store (fst gw1) ! n) else [])) (Some rs) gw1 = Some y"
        | "snd y = gw1"
        using step(2) Cons True run by (cases res) (auto split: option.splits)
      then show ?thesis
      proof cases
        case 1
        from same_graph.rel_trans [OF same step(1) [OF 1(2)]] show ?thesis .
      qed (use same in simp)
    qed
  qed
qed

lemma same_graph_input:
  assumes "process_input env s v gw = Some y"
  shows "same_graph gw (snd y)"
proof -
  obtain res gw1 where pushed: "bind_act (graph_push env s v gw) (\<lambda>_. push_important env s v) = (res, gw1)"
    by (cases "bind_act (graph_push env s v gw) (\<lambda>_. push_important env s v)") blast
  have "same_graph gw (snd (bind_act (graph_push env s v gw) (\<lambda>_. push_important env s v)))"
    by (intro same_graph.bind_act same_graph_push same_graph_important)
  then have "same_graph gw gw1" by (simp add: pushed)
  then show ?thesis
    using assms pushed same_graph_loop [of env "raw_time v" "g_roots (fst gw1)" None gw1 y] same_graph.rel_trans [of gw gw1 "snd y"]
    by (cases res) (auto simp: process_input_def)
qed

end
