(* ===== verification/Graph_Dump.thy ===== *)
theory Graph_Dump
  imports Graph_Invariant Hashing "HOL-Library.List_Lexorder" "HOL-Library.Char_ord"
begin

text \<open>
  Walking over the nodes of a sensor graph, and its dumps, binary forms and checksums (the second half of
  \<open>iotile/sg/graph.py\<close>, and \<open>iotile/core/utilities/hash_algorithms\<close>).
\<close>

section \<open>Breadth first\<close>

text \<open>\<open>inputs\<close> of the generator: the nodes seen so far that feed an input of the node, each once.\<close>

definition seen_inputs :: "sensor_graph \<Rightarrow> nat \<Rightarrow> nat list \<Rightarrow> nat list" where
  "seen_inputs g n seen =
     fold (\<lambda>(ref, trig). fold (\<lambda>other inputs.
         if in_matches ref (g_log g) (n_stream (g_store g ! other)) \<and> other \<notin> set inputs
         then inputs @ [other] else inputs) seen)
       (n_inputs (g_store g ! n)) []"

text \<open>
  \<open>for node, inputs, outputs in self.iterate_bfs()\<close> with a body that does not change the nodes.  A node is
  visited once for each path that leads to it.
\<close>

partial_function (option) bfs_loop ::
  "sensor_graph \<Rightarrow> (nat \<Rightarrow> nat list \<Rightarrow> 's \<Rightarrow> (unit, 's) act) \<Rightarrow> nat list \<Rightarrow> nat list \<Rightarrow> 's \<Rightarrow> (unit, 's) act option" where
  "bfs_loop g body working seen s =
     (case working of
        [] \<Rightarrow> Some (Inr (), s)
      | n # rest \<Rightarrow>
          (case body n (seen_inputs g n seen) s of
             (Inl err, s1) \<Rightarrow> Some (Inl err, s1)
           | (Inr _, s1) \<Rightarrow> bfs_loop g body (rest @ n_outputs (g_store g ! n)) (seen @ [n]) s1))"

declare bfs_loop.simps [simp del]

definition init_constants_body ::
  "int \<Rightarrow> nat \<Rightarrow> nat list \<Rightarrow> sensor_graph \<times> data_stream list \<Rightarrow> (unit, sensor_graph \<times> data_stream list) act" where
  "init_constants_body v n inputs state =
     (case input_streams (g_log (fst state)) (g_store (fst state) ! n) of
        Inl err \<Rightarrow> (Inl err, state)
      | Inr streams \<Rightarrow>
          for_each (\<lambda>s (g, remaining).
              if stream_type s \<noteq> ConstantType then (Inr (), (g, remaining))
              else if map_of (g_constants g) s \<noteq> None then (Inr (), (g, remaining))
              else bind_act (map_state (\<lambda>g1. (g1, remaining)) (add_constant s v g)) (\<lambda>_ (g1, r).
                (Inr (), (g1, r @ [s]))))
            (streams @ [n_stream (g_store (fst state) ! n)]) state)"

definition initialize_remaining_constants ::
  "int \<Rightarrow> sensor_graph \<Rightarrow> (unit, sensor_graph \<times> data_stream list) act option" where
  "initialize_remaining_constants v g = bfs_loop g (init_constants_body v) (g_roots g) [] (g, [])"

text \<open>\<open>toposort_flatten\<close> is a parameter; \<open>deps\<close> is the dictionary it is given.\<close>

definition node_index :: "sensor_graph \<Rightarrow> nat \<Rightarrow> nat res" where
  "node_index g n = (case filter (\<lambda>i. g_nodes g ! i = n) [0..<length (g_nodes g)] of
     [] \<Rightarrow> Inl KeyError | is \<Rightarrow> Inr (last is))"

definition deps_body ::
  "sensor_graph \<Rightarrow> nat \<Rightarrow> nat list \<Rightarrow> (nat \<times> nat set) list \<Rightarrow> (unit, (nat \<times> nat set) list) act" where
  "deps_body g n inputs deps =
     (case bind_res (node_index g n) (\<lambda>i. bind_res (map_res (node_index g) inputs) (\<lambda>is. Inr (i, set is))) of
        Inl err \<Rightarrow> (Inl err, deps)
      | Inr (i, ds) \<Rightarrow> (Inr (), AList.update i ds deps))"

fun check_roots :: "sensor_graph \<Rightarrow> nat list \<Rightarrow> unit res" where
  "check_roots g [] = Inr ()"
| "check_roots g (root # roots) =
     (if root \<notin> set (take (length (g_roots g)) (g_nodes g))
      then bind_res (node_str (g_log g) (g_store g ! root)) (\<lambda>_.
             if root \<in> set (g_nodes g) then Inl NodeConnectionError else Inl ValueError)
      else check_roots g roots)"

definition sort_nodes ::
  "((nat \<times> nat set) list \<Rightarrow> nat list res) \<Rightarrow> sensor_graph \<Rightarrow> (unit, sensor_graph) act option" where
  "sort_nodes toposort g =
     map_option (\<lambda>(res, deps).
        case res of
          Inl err \<Rightarrow> (Inl err, g)
        | Inr _ \<Rightarrow>
            (case bind_res (toposort deps) (map_res (\<lambda>i. py_nth (g_nodes g) (int i))) of
               Inl err \<Rightarrow> (Inl err, g)
             | Inr nodes \<Rightarrow> (let g1 = g\<lparr>g_nodes := nodes\<rparr> in (check_roots g1 (g_roots g1), g1))))
       (bfs_loop g (deps_body g) (g_roots g) [] [])"

section \<open>Text and bytes\<close>

text \<open>\<open>s.split(sep)\<close> for a separator that is not empty.\<close>

fun split_sep :: "string \<Rightarrow> string \<Rightarrow> string \<Rightarrow> string list" where
  "split_sep sep acc [] = [rev acc]"
| "split_sep sep acc (c # cs) =
     (if take (length sep) (c # cs) = sep then rev acc # split_sep sep [] (drop (length sep - 1) cs)
      else split_sep sep (c # acc) cs)"

text \<open>\<open>'{}'.format(bytearray(...))\<close>: the quote is a double one if only single ones occur.\<close>

definition byte_repr :: "int \<Rightarrow> byte \<Rightarrow> string" where
  "byte_repr quote b =
     (let n = uint b in
      if n = quote \<or> n = 92 then [char_of (92 :: nat), char_of (unat b)]
      else if n = 9 then [char_of (92 :: nat), CHR ''t'']
      else if n = 10 then [char_of (92 :: nat), CHR ''n'']
      else if n = 13 then [char_of (92 :: nat), CHR ''r'']
      else if n < 32 \<or> n \<ge> 127 then [char_of (92 :: nat), CHR ''x''] @ hex_byte b
      else [char_of (unat b)])"

definition bytearray_str :: "byte list \<Rightarrow> string" where
  "bytearray_str bs =
     (let quote = (if 39 \<in> set bs \<and> 34 \<notin> set bs then 34 else 39) in
      ''bytearray(b'' @ [char_of (nat quote)] @ concat (map (byte_repr quote) bs) @ [char_of (nat quote)] @ '')'')"

definition value_str :: "config_value \<Rightarrow> string" where
  "value_str v = (case v of IntValue i \<Rightarrow> py_str_int i | TextValue t \<Rightarrow> t
     | BytesValue bs \<Rightarrow> drop 10 (butlast (bytearray_str bs)))"

section \<open>Config values as bytes\<close>

text \<open>\<open>int_types\<close>: the width of a type, and whether it is signed.\<close>

definition int_types :: "string \<Rightarrow> (nat \<times> bool) option" where
  "int_types = map_of [(''uint8_t'', (1, False)), (''int8_t'', (1, True)), (''uint16_t'', (2, False)),
     (''int16_t'', (2, True)), (''uint32_t'', (4, False)), (''int32_t'', (4, True))]"

definition pack_int :: "nat \<times> bool \<Rightarrow> int \<Rightarrow> byte list res" where
  "pack_int t v =
     (case t of (n, neg) \<Rightarrow>
        if (if neg then - (2 ^ (8 * n - 1)) \<le> v \<and> v < 2 ^ (8 * n - 1) else 0 \<le> v \<and> v < 256 ^ n)
        then Inr (le_bytes n v) else Inl StructError)"

text \<open>The check for an array: subscripts of a text, of bytes and of a number.\<close>

definition check_array :: "config_value \<Rightarrow> unit res" where
  "check_array v =
     (case v of
        IntValue i \<Rightarrow> Inl PyTypeError
      | BytesValue bs \<Rightarrow> if bs = [] then Inl IndexError else Inl ArgumentError
      | TextValue t \<Rightarrow> if t = [] then Inl IndexError
          else if hd t \<noteq> CHR ''['' \<or> last t \<noteq> CHR '']'' then Inl ArgumentError else Inr ())"

definition pack_array :: "nat \<times> bool \<Rightarrow> string \<Rightarrow> byte list res" where
  "pack_array t text =
     bind_res (map_res (\<lambda>n. case py_int0 n of None \<Rightarrow> Inl ValueError | Some i \<Rightarrow> Inr i)
         (split_sep '','' [] (butlast (tl text)))) (\<lambda>is.
     bind_res (map_res (pack_int t) is) (\<lambda>bs. Inr (concat bs)))"

definition convert_to_bytearray :: "string \<Rightarrow> config_value \<Rightarrow> byte list res" where
  "convert_to_bytearray type_name v =
     (let lowered = py_lower type_name;
          is_array = py_endswith lowered ''[]'';
          base = (if is_array then py_slice_to lowered (-2) else lowered)
      in bind_res (if is_array then check_array v else Inr ()) (\<lambda>_.
         if int_types base = None \<and> base \<notin> {''string'', ''binary''} then Inl ArgumentError
         else if base = ''string'' then
           (case v of TextValue t \<Rightarrow> Inr (utf8 t) | _ \<Rightarrow> Inl PyTypeError)
         else if base = ''binary'' then
           (case v of BytesValue bs \<Rightarrow> Inr bs
            | IntValue i \<Rightarrow> if i < 0 then Inl ValueError else Inr (replicate (nat i) 0)
            | TextValue t \<Rightarrow> Inl PyTypeError)
         else (case int_types base of
             None \<Rightarrow> Inl KeyError
           | Some t \<Rightarrow>
               if is_array then (case v of TextValue text \<Rightarrow> pack_array t text | _ \<Rightarrow> Inl PyTypeError)
               else (case v of IntValue i \<Rightarrow> pack_int t i | _ \<Rightarrow> Inl StructError))))"

definition is_ignored_config :: "(slot_identifier \<times> int) list \<Rightarrow> slot_identifier \<Rightarrow> int \<Rightarrow> bool" where
  "is_ignored_config ignore s config_var = list_ex (\<lambda>(t, c). s = t \<and> config_var = c) ignore"

section \<open>Dumps\<close>

text \<open>\<open>sorted(items, key=...)\<close> with a key that may raise.\<close>

definition py_sorted :: "('a \<Rightarrow> ('k :: linorder) res) \<Rightarrow> 'a list \<Rightarrow> 'a list res" where
  "py_sorted key xs = bind_res (map_res key xs) (\<lambda>ks. Inr (map snd (sort_key fst (zip ks xs))))"

definition quoted :: "string \<Rightarrow> string" where
  "quoted t = [CHR 0x27] @ t @ [CHR 0x27]"

definition dump_roots :: "sensor_graph \<Rightarrow> string list res" where
  "dump_roots g = map_res (\<lambda>n. node_str (g_log g) (g_store g ! n)) (g_roots g)"

definition dump_nodes :: "sensor_graph \<Rightarrow> string list res" where
  "dump_nodes g = map_res (\<lambda>n. node_str (g_log g) (g_store g ! n)) (g_nodes g)"

definition dump_streamers :: "sensor_graph \<Rightarrow> string list res" where
  "dump_streamers g = map_res streamer_str (g_streamers g)"

definition dump_constant_database :: "sensor_graph \<Rightarrow> string list res" where
  "dump_constant_database g =
     map_res (\<lambda>(s, v). bind_res (stream_str s) (\<lambda>t. Inr (quoted t @ '' '' @ py_str_int v)))
       (sort_key (\<lambda>(s, v). stream_encode s) (g_constants g))"

definition dump_metadata_database :: "sensor_graph \<Rightarrow> string list" where
  "dump_metadata_database g =
     map (\<lambda>(name, v). name @ '': '' @ value_str v) (sort_key (\<lambda>(name, v). utf8 name) (g_metadata g))"

definition dump_slot_configs ::
  "bool \<Rightarrow> (slot_identifier \<times> int) list \<Rightarrow> slot_identifier \<times> (int \<times> (string \<times> config_value)) list \<Rightarrow> string list res" where
  "dump_slot_configs dump_type ignore entry =
     (case entry of (s, conf_vars) \<Rightarrow>
        bind_res (map_res (\<lambda>(conf_var, (conf_type, conf_val)).
            bind_res (convert_to_bytearray conf_type conf_val) (\<lambda>bs.
              Inr (if is_ignored_config ignore s conf_var then []
                   else [quoted (slot_str s) @ '' '' @ py_str_int conf_var @ '' '' @
                         (if dump_type then conf_type @ '' '' else []) @ bytearray_str bs])))
          (sort_key fst conf_vars)) (\<lambda>lines. Inr (concat lines)))"

definition dump_config_database :: "bool \<Rightarrow> (slot_identifier \<times> int) list \<Rightarrow> sensor_graph \<Rightarrow> string list res" where
  "dump_config_database dump_type ignore g =
     bind_res (py_sorted (\<lambda>(s, conf_vars). slot_encode s) (g_configs g)) (\<lambda>entries.
     bind_res (map_res (dump_slot_configs dump_type ignore) entries) (\<lambda>lines. Inr (concat lines)))"

section \<open>Binary forms and checksums\<close>

definition get_nodes_binary :: "node_grammar \<Rightarrow> sensor_graph \<Rightarrow> byte list res" where
  "get_nodes_binary grammar g =
     bind_res (dump_nodes g) (\<lambda>nodes.
     bind_res (map_res (create_node_descriptor grammar) nodes) (\<lambda>bs. Inr (concat bs)))"

definition get_streamers_binary :: "streamer_grammar \<Rightarrow> sensor_graph \<Rightarrow> byte list res" where
  "get_streamers_binary grammar g =
     bind_res (dump_streamers g) (\<lambda>texts.
     bind_res (map_res (\<lambda>t. bind_res (parse_string_descriptor grammar t) create_streamer_binary) texts) (\<lambda>bs.
       Inr (concat bs)))"

definition get_constant_database_binary :: "sensor_graph \<Rightarrow> byte list res" where
  "get_constant_database_binary g = bind_res (dump_constant_database g) (\<lambda>lines. Inr (concat (map utf8 lines)))"

definition known_metadata :: "string list" where
  "known_metadata = [''app_tag'', ''app_version'']"

text \<open>An entry whose value holds the separator again cannot be taken apart.\<close>

definition get_metadata_database_binary :: "sensor_graph \<Rightarrow> byte list res" where
  "get_metadata_database_binary g =
     bind_res (map_res (\<lambda>line. case split_sep '': '' [] line of
           [entry, rest] \<Rightarrow> Inr (if entry \<in> set known_metadata then utf8 line else [])
         | _ \<Rightarrow> Inl ValueError)
       (dump_metadata_database g)) (\<lambda>bs. Inr (concat bs))"

definition get_config_database_binary :: "(slot_identifier \<times> int) list \<Rightarrow> sensor_graph \<Rightarrow> byte list res" where
  "get_config_database_binary ignore g =
     bind_res (dump_config_database False ignore g) (\<lambda>lines. Inr (concat (map utf8 lines)))"

text \<open>
  \<open>KNOWN_HASH_ALGORITHMS[name].calculate\<close>: the CRC function made by \<open>crcmod\<close> is a parameter; SHA-256 comes from
  the standard library.
\<close>

definition calculate_crc :: "(byte list \<Rightarrow> int) \<Rightarrow> byte list \<Rightarrow> string" where
  "calculate_crc crc_func data = ''0x'' @ hex_nat (nat (crc_func data AND 0xFFFFFFFF))"

definition calculate_sha :: "byte list \<Rightarrow> string" where
  "calculate_sha data = concat (map hex_byte (sha256 data))"

definition hash_algorithm :: "(byte list \<Rightarrow> int) \<Rightarrow> config_value \<Rightarrow> (byte list \<Rightarrow> string) res" where
  "hash_algorithm crc_func name =
     (if name = TextValue ''crc32_0x104C11DB7'' then Inr (calculate_crc crc_func)
      else if name = TextValue ''sha256'' then Inr calculate_sha
      else Inl KeyError)"

text \<open>\<open>self.metadata_database[name]\<close>, and a metadata value used as the id of a config variable.\<close>

definition metadata_item :: "string \<Rightarrow> sensor_graph \<Rightarrow> config_value res" where
  "metadata_item name g = (case map_of (g_metadata g) name of None \<Rightarrow> Inl KeyError | Some v \<Rightarrow> Inr v)"

definition replace_config :: "slot_identifier \<Rightarrow> config_value \<Rightarrow> config_value \<Rightarrow> sensor_graph \<Rightarrow> (unit, sensor_graph) act" where
  "replace_config s address v g =
     (case address of
        IntValue i \<Rightarrow>
          (case get_config s i g of
             Inl err \<Rightarrow> (Inl err, g)
           | Inr (config_type, old) \<Rightarrow> (Inr (), add_config s i config_type v g))
      | _ \<Rightarrow> (Inl ArgumentError, g))"

text \<open>\<open>eval\<close> of the text of a dictionary is a parameter.\<close>

definition ignore_text :: "config_value \<Rightarrow> string res" where
  "ignore_text v =
     (case v of
        TextValue t \<Rightarrow> if t = [] then Inl IndexError
          else Inr (if hd t \<noteq> CHR ''{'' \<and> last t \<noteq> CHR ''}'' then ''{'' @ t @ ''}'' else t)
      | IntValue i \<Rightarrow> Inl PyTypeError
      | BytesValue bs \<Rightarrow> if bs = [] then Inl IndexError else Inl PyTypeError)"

definition parse_configs_ignorelist ::
  "(string \<Rightarrow> (string \<times> int list) list res) \<Rightarrow> sensor_graph \<Rightarrow> ((slot_identifier \<times> int) list, sensor_graph) act" where
  "parse_configs_ignorelist py_eval g =
     (case bind_res (slot_of_string ''controller'') (\<lambda>s.
           bind_res (metadata_item ''hash_configs_ignorelist'' g) (\<lambda>text.
           bind_res (metadata_item ''hash_configs_ignorelist_address'' g) (\<lambda>address. Inr (s, text, address)))) of
        Inl err \<Rightarrow> (Inl err, g)
      | Inr (s, text, address) \<Rightarrow>
          bind_act (replace_config s address text g) (\<lambda>_ g1.
            (bind_res (ignore_text text) (\<lambda>t.
             bind_res (py_eval t) (\<lambda>entries.
             bind_res (map_res (\<lambda>(target, ids). bind_res (slot_of_string target) (\<lambda>tile. Inr (map (\<lambda>i. (tile, i)) ids))) entries)
               (\<lambda>lists. Inr (concat lists)))), g1)))"

definition graph_checksums ::
  "node_grammar \<Rightarrow> streamer_grammar \<Rightarrow> (byte list \<Rightarrow> string) \<Rightarrow> (slot_identifier \<times> int) list \<Rightarrow> sensor_graph
   \<Rightarrow> (string \<times> string) list res" where
  "graph_checksums node_gr streamer_gr calculate ignore g =
     bind_res (get_nodes_binary node_gr g) (\<lambda>nodes.
     bind_res (get_streamers_binary streamer_gr g) (\<lambda>streamers.
     bind_res (get_config_database_binary ignore g) (\<lambda>configs.
     bind_res (get_constant_database_binary g) (\<lambda>constants.
     bind_res (get_metadata_database_binary g) (\<lambda>metadata.
       let sums = map calculate [nodes, streamers, configs, constants, metadata]
       in Inr (zip [''nodes'', ''streamers'', ''configs'', ''constants'', ''metadata''] sums @
               [(''device'', calculate (utf8 (concat sums)))]))))))"

definition hash_keys :: "string list" where
  "hash_keys = [''hash_address'', ''hash_algorithm'', ''hash_algorithm_address'', ''hash_configs_ignorelist'',
     ''hash_configs_ignorelist_address'']"

definition add_checksum ::
  "node_grammar \<Rightarrow> streamer_grammar \<Rightarrow> (byte list \<Rightarrow> int) \<Rightarrow> (string \<Rightarrow> (string \<times> int list) list res) \<Rightarrow> bool
   \<Rightarrow> sensor_graph \<Rightarrow> (unit, sensor_graph) act" where
  "add_checksum node_gr streamer_gr crc_func py_eval force g =
     (let finish = (\<lambda>algorithm ignore g1.
          case bind_res (hash_algorithm crc_func algorithm) (\<lambda>calculate.
               graph_checksums node_gr streamer_gr calculate ignore g1) of
            Inl err \<Rightarrow> (Inl err, g1)
          | Inr sums \<Rightarrow> (Inr (), g1\<lparr>g_checksums := Some sums\<rparr>))
      in
      if force then finish (TextValue ''sha256'') [] g
      else if \<exists>k \<in> set hash_keys. map_of (g_metadata g) k = None then (Inr (), g)
      else
        case bind_res (slot_of_string ''controller'') (\<lambda>s.
             bind_res (metadata_item ''hash_address'' g) (\<lambda>address.
             bind_res (metadata_item ''hash_algorithm'' g) (\<lambda>algorithm.
             bind_res (metadata_item ''hash_algorithm_address'' g) (\<lambda>algorithm_address.
               Inr (s, address, algorithm, algorithm_address))))) of
          Inl err \<Rightarrow> (Inl err, g)
        | Inr (s, address, algorithm, algorithm_address) \<Rightarrow>
            bind_act (replace_config s algorithm_address algorithm g) (\<lambda>_ g1.
            bind_act (parse_configs_ignorelist py_eval g1) (\<lambda>ignore g2.
            bind_act (finish algorithm ignore g2) (\<lambda>_ g3.
              replace_config s address
                (case map_of (case g_checksums g3 of None \<Rightarrow> [] | Some sums \<Rightarrow> sums) ''device'' of
                   None \<Rightarrow> TextValue [] | Some d \<Rightarrow> TextValue d) g3))))"

section \<open>Lemmas\<close>

text \<open>On a graph without cycles every walk over the nodes ends.\<close>

lemma bfs_returns:
  assumes "refs_ok g" "acyclic (feeds g)"
  shows "set working \<subseteq> {..<length (g_store g)} \<Longrightarrow> bfs_loop g body working seen s \<noteq> None"
proof (induction "mset working" arbitrary: working seen s rule: wf_induct_rule [OF wf_mult [OF wf_feeds [OF assms]]])
  case 1
  show ?case
  proof (cases working)
    case Nil
    then show ?thesis by (subst bfs_loop.simps) simp
  next
    case (Cons n rest)
    have n: "n < length (g_store g)" using 1(2) Cons by simp
    let ?next = "rest @ n_outputs (g_store g ! n)"
    have "(mset rest + mset (n_outputs (g_store g ! n)), mset rest + {#n#}) \<in> mult (feeds g)"
      using n by (intro one_step_implies_mult) (auto simp: feeds_def)
    then have "(mset ?next, mset working) \<in> mult (feeds g)" using Cons by simp
    moreover have "set ?next \<subseteq> {..<length (g_store g)}"
      using 1(2) Cons refs_okD [OF assms(1) n] by auto
    ultimately have "bfs_loop g body ?next (seen @ [n]) t \<noteq> None" for t using 1(1) by blast
    then show ?thesis using Cons by (subst bfs_loop.simps) (auto split: prod.split sum.split)
  qed
qed

lemma initialize_returns:
  assumes "refs_ok g" "acyclic (feeds g)"
  shows "initialize_remaining_constants v g \<noteq> None" "sort_nodes toposort g \<noteq> None"
proof -
  have "set (g_roots g) \<subseteq> {..<length (g_store g)}" using assms(1) by (simp add: refs_ok_def)
  then show "initialize_remaining_constants v g \<noteq> None" "sort_nodes toposort g \<noteq> None"
    using bfs_returns [OF assms] by (simp_all add: initialize_remaining_constants_def sort_nodes_def del: not_None_eq)
qed

text \<open>Sorting commutes with leaving out entries.\<close>

lemma map_res_parts:
  "map_res (\<lambda>x. bind_res (c x) (\<lambda>b. Inr (h x b))) xs = Inr ys \<Longrightarrow>
     ys = map (\<lambda>x. h x (projr (c x))) xs"
  by (induction xs arbitrary: ys) (auto simp: bind_res_Inr_iff)

lemma concat_filter_map: "(\<And>x. x \<in> set xs \<Longrightarrow> \<not> P x \<Longrightarrow> f x = []) \<Longrightarrow> concat (map f xs) = concat (map f (filter P xs))"
  by (induction xs) auto

definition config_lines ::
  "bool \<Rightarrow> (slot_identifier \<times> int) list \<Rightarrow> slot_identifier \<Rightarrow> int \<times> (string \<times> config_value) \<Rightarrow> string list" where
  "config_lines dump_type ignore s = (\<lambda>(conf_var, (conf_type, conf_val)).
     if is_ignored_config ignore s conf_var then []
     else [quoted (slot_str s) @ '' '' @ py_str_int conf_var @ '' '' @ (if dump_type then conf_type @ '' '' else []) @
           bytearray_str (projr (convert_to_bytearray conf_type conf_val))])"

definition convertible :: "int \<times> (string \<times> config_value) \<Rightarrow> bool" where
  "convertible = (\<lambda>(conf_var, (conf_type, conf_val)). \<exists>bs. convert_to_bytearray conf_type conf_val = Inr bs)"

lemma dump_slot_total:
  assumes "\<forall>e \<in> set conf_vars. convertible e"
  shows "dump_slot_configs dump_type ignore (s, conf_vars) =
    Inr (concat (map (config_lines dump_type ignore s) (sort_key fst (filter (\<lambda>e. \<not> is_ignored_config ignore s (fst e)) conf_vars))))"
proof -
  let ?f = "\<lambda>(conf_var, (conf_type, conf_val)).
      bind_res (convert_to_bytearray conf_type conf_val) (\<lambda>bs.
        Inr (if is_ignored_config ignore s conf_var then []
             else [quoted (slot_str s) @ '' '' @ py_str_int conf_var @ '' '' @
                   (if dump_type then conf_type @ '' '' else []) @ bytearray_str bs]))"
  have "map_res ?f (sort_key fst conf_vars) = Inr (map (config_lines dump_type ignore s) (sort_key fst conf_vars))"
    using assms by (intro map_res_Inr) (auto simp: convertible_def config_lines_def)
  moreover have "concat (map (config_lines dump_type ignore s) (sort_key fst conf_vars)) =
      concat (map (config_lines dump_type ignore s) (filter (\<lambda>e. \<not> is_ignored_config ignore s (fst e)) (sort_key fst conf_vars)))"
    by (rule concat_filter_map) (auto simp: config_lines_def)
  ultimately show ?thesis by (simp add: dump_slot_configs_def filter_sort)
qed

lemma filter_update:
  "\<not> P k \<Longrightarrow> filter (\<lambda>e. P (fst e)) (AList.update k v al) = filter (\<lambda>e. P (fst e)) al"
  by (induction al) auto

lemma sort_key_map: "sort_key k (map h xs) = map h (sort_key (\<lambda>x. k (h x)) xs)"
proof -
  have "insort_key k (h x) (map h ys) = map h (insort_key (\<lambda>x. k (h x)) x ys)" for x ys
    by (induction ys) auto
  then show ?thesis by (induction xs) (simp_all add: sort_key_def)
qed

lemma py_sorted_total:
  assumes "\<forall>x \<in> set xs. key x = Inr (f x)"
  shows "py_sorted key xs = Inr (sort_key f xs)"
proof -
  have "map_res key xs = Inr (map f xs)" using assms by (intro map_res_Inr) simp
  moreover have "zip (map f xs) xs = map (\<lambda>x. (f x, x)) xs" by (induction xs) auto
  ultimately show ?thesis by (simp add: py_sorted_def sort_key_map o_def)
qed

text \<open>The lines of all slots, for slots that can be encoded and values that can be converted.\<close>

definition slot_lines ::
  "bool \<Rightarrow> (slot_identifier \<times> int) list \<Rightarrow> slot_identifier \<times> (int \<times> (string \<times> config_value)) list \<Rightarrow> string list" where
  "slot_lines dump_type ignore = (\<lambda>(s, conf_vars). concat (map (config_lines dump_type ignore s)
     (sort_key fst (filter (\<lambda>e. \<not> is_ignored_config ignore s (fst e)) conf_vars))))"

definition configs_dumpable :: "sensor_graph \<Rightarrow> bool" where
  "configs_dumpable g \<longleftrightarrow> distinct (map fst (g_configs g)) \<and>
     (\<forall>(s, conf_vars) \<in> set (g_configs g). slot_ok s \<and> (\<forall>e \<in> set conf_vars. convertible e))"

lemma dump_configs_total:
  assumes "configs_dumpable g"
  shows "dump_config_database dump_type ignore g =
    Inr (concat (map (slot_lines dump_type ignore) (sort_key (\<lambda>(s, conf_vars). projr (slot_encode s)) (g_configs g))))"
proof -
  have "py_sorted (\<lambda>(s, conf_vars). slot_encode s) (g_configs g) =
      Inr (sort_key (\<lambda>(s, conf_vars). projr (slot_encode s)) (g_configs g))"
    using assms slot_encode_total by (intro py_sorted_total) (fastforce simp: configs_dumpable_def)
  moreover have "map_res (dump_slot_configs dump_type ignore) (sort_key (\<lambda>(s, conf_vars). projr (slot_encode s)) (g_configs g)) =
      Inr (map (slot_lines dump_type ignore) (sort_key (\<lambda>(s, conf_vars). projr (slot_encode s)) (g_configs g)))"
    using assms by (intro map_res_Inr) (auto simp: configs_dumpable_def slot_lines_def dump_slot_total)
  ultimately show ?thesis by (simp add: dump_config_database_def)
qed

lemma update_present:
  assumes "distinct (map fst al)" "k \<in> fst ` set al"
  shows "AList.update k v al = map (\<lambda>e. if fst e = k then (k, v) else e) al"
  using assms
proof (induction al)
  case (Cons e al)
  show ?case
  proof (cases "fst e = k")
    case True
    then have "map (\<lambda>e. if fst e = k then (k, v) else e) al = al"
      using Cons.prems(1) by (intro map_idI) (metis (no_types, lifting) distinct.simps(2) imageI list.set_map list.simps(9))
    then show ?thesis using True by (cases e) simp
  next
    case False
    then show ?thesis using Cons by (cases e) auto
  qed
qed simp

lemma update_absent: "k \<notin> fst ` set al \<Longrightarrow> AList.update k v al = al @ [(k, v)]"
  by (induction al) auto

lemma set_update_subset: "set (AList.update k v al) \<subseteq> insert (k, v) (set al)"
  by (induction al) auto

lemma ignored_config_lines:
  assumes "configs_dumpable g" "is_ignored_config ignore s i" "slot_ok s" "convertible (i, (t, v))"
  shows "configs_dumpable (add_config s i t v g) \<and>
    dump_config_database dump_type ignore (add_config s i t v g) = dump_config_database dump_type ignore g"
proof -
  define old where "old = (case map_of (g_configs g) s of None \<Rightarrow> [] | Some d \<Rightarrow> d)"
  define new where "new = AList.update i (t, v) old"
  let ?key = "\<lambda>(s, conf_vars). projr (slot_encode s)" and ?al = "g_configs g"
  have dist: "distinct (map fst ?al)" using assms(1) by (simp add: configs_dumpable_def)
  have "\<forall>e \<in> set old. convertible e"
    using assms(1) by (auto simp: old_def configs_dumpable_def split: option.splits dest!: map_of_SomeD)
  then have conv: "\<forall>e \<in> set new. convertible e"
    using assms(4) set_update_subset [of i "(t, v)" old] by (auto simp: new_def)
  have add: "g_configs (add_config s i t v g) = AList.update s new ?al"
    by (simp add: add_config_def old_def new_def)
  have dumpable: "configs_dumpable (add_config s i t v g)"
    using assms(1,3) conv add distinct_update [OF dist] set_update_subset [of s new ?al]
    by (fastforce simp: configs_dumpable_def)
  have lines: "slot_lines dump_type ignore (s, new) = slot_lines dump_type ignore (s, old)"
    using filter_update [of "\<lambda>c. \<not> is_ignored_config ignore s c" i "(t, v)" old] assms(2)
    by (simp add: slot_lines_def new_def)
  have "concat (map (slot_lines dump_type ignore) (sort_key ?key (AList.update s new ?al))) =
      concat (map (slot_lines dump_type ignore) (sort_key ?key ?al))"
  proof (cases "s \<in> fst ` set ?al")
    case True
    let ?h = "\<lambda>e. if fst e = s then (s, new) else e"
    have "slot_lines dump_type ignore (?h e) = slot_lines dump_type ignore e" if "e \<in> set ?al" for e
    proof (cases "fst e = s")
      case True
      then have "e = (s, old)" using that map_of_is_SomeI [OF dist, of s "snd e"] by (cases e) (auto simp: old_def)
      then show ?thesis using lines by simp
    qed simp
    then have "map (slot_lines dump_type ignore \<circ> ?h) (sort_key ?key ?al) = map (slot_lines dump_type ignore) (sort_key ?key ?al)"
      by simp
    moreover have "(\<lambda>e. ?key (?h e)) = ?key" by auto
    ultimately show ?thesis by (simp only: update_present [OF dist True] sort_key_map map_map)
  next
    case False
    then have "old = []" by (auto simp: old_def map_of_eq_None_iff [symmetric])
    then have none: "slot_lines dump_type ignore (s, new) = []"
      using lines by (simp add: slot_lines_def)
    let ?P = "\<lambda>e. fst e \<noteq> s"
    have "concat (map (slot_lines dump_type ignore) (sort_key ?key (?al @ [(s, new)]))) =
        concat (map (slot_lines dump_type ignore) (filter ?P (sort_key ?key (?al @ [(s, new)]))))"
      using False none by (intro concat_filter_map) (auto simp: image_iff)
    also have "filter ?P (sort_key ?key (?al @ [(s, new)])) = sort_key ?key (filter ?P ?al)"
      by (simp add: filter_sort)
    also have "filter ?P ?al = ?al" using False by (intro filter_True) auto
    finally show ?thesis using update_absent [OF False] by simp
  qed
  then show ?thesis using dump_configs_total [OF dumpable] dump_configs_total [OF assms(1)] dumpable add by simp
qed

section \<open>Properties\<close>

text \<open>
  C13: checksums do not depend on ignored variables.  If all config values can be converted and all slots can be
  encoded, setting a config variable that is ignored, to any value that can be converted, leaves all checksums as
  they are.  So a device checksum can be stored in an ignored variable of the graph that it belongs to.
\<close>

theorem checksum_ignores:
  assumes "configs_dumpable g" "is_ignored_config ignore s i" "slot_ok s" "convertible (i, (t, v))"
  shows "graph_checksums node_gr streamer_gr calculate ignore (add_config s i t v g) =
    graph_checksums node_gr streamer_gr calculate ignore g"
proof -
  have "get_config_database_binary ignore (add_config s i t v g) = get_config_database_binary ignore g"
    using ignored_config_lines [OF assms] by (simp add: get_config_database_binary_def)
  moreover have "get_nodes_binary node_gr (add_config s i t v g) = get_nodes_binary node_gr g"
    "get_streamers_binary streamer_gr (add_config s i t v g) = get_streamers_binary streamer_gr g"
    "get_constant_database_binary (add_config s i t v g) = get_constant_database_binary g"
    "get_metadata_database_binary (add_config s i t v g) = get_metadata_database_binary g"
    by (simp_all add: get_nodes_binary_def dump_nodes_def get_streamers_binary_def dump_streamers_def
        get_constant_database_binary_def dump_constant_database_def get_metadata_database_binary_def
        dump_metadata_database_def add_config_def Let_def)
  ultimately show ?thesis by (simp add: graph_checksums_def)
qed

definition config_graph :: sensor_graph where
  "config_graph = add_config \<lparr>controller = True, slot = None\<rparr> 10 ''uint16_t'' (IntValue 7) empty_graph"

theorem checksum_ignores_witness:
  "graph_checksums (\<lambda>_. None) (\<lambda>_. None) calculate_sha [(\<lparr>controller = True, slot = None\<rparr>, 11)]
     (add_config \<lparr>controller = True, slot = None\<rparr> 11 ''string'' (TextValue ''ab'') config_graph) =
   graph_checksums (\<lambda>_. None) (\<lambda>_. None) calculate_sha [(\<lparr>controller = True, slot = None\<rparr>, 11)] config_graph"
proof (rule checksum_ignores)
  have "g_configs config_graph = [(\<lparr>controller = True, slot = None\<rparr>, [(10, (''uint16_t'', IntValue 7))])]"
    by (simp add: config_graph_def add_config_def empty_graph_def new_sensor_graph_def)
  moreover have "convert_to_bytearray ''uint16_t'' (IntValue 7) = Inr [7, 0]"
    "convert_to_bytearray ''string'' (TextValue ''ab'') = Inr [97, 98]" by code_simp+
  ultimately show "configs_dumpable config_graph" "convertible (11, (''string'', TextValue ''ab''))"
    by (simp_all add: configs_dumpable_def slot_ok_def convertible_def)
qed (simp_all add: is_ignored_config_def slot_ok_def)

end
