(* ===== verification/Script_Format.thy ===== *)
theory Script_Format
  imports Update_Script Graph_Dump
begin

text \<open>
  The update script of a sensor graph (\<open>iotile/sg/output_formats/script.py\<close>): the records that install a graph
  with its constants and config variables on a device.
\<close>

section \<open>The records of a graph\<close>

text \<open>\<open>_convert_to_bytes\<close> has the text of \<open>_convert_to_bytearray\<close> of \<open>graph.py\<close>.\<close>

definition script_convert_to_bytes :: "string \<Rightarrow> config_value \<Rightarrow> byte list res" where
  "script_convert_to_bytes type_name v = convert_to_bytearray type_name v"

definition slot_records :: "slot_identifier \<times> (int \<times> (string \<times> config_value)) list \<Rightarrow> update_record list res" where
  "slot_records entry =
     (case entry of (s, conf_vars) \<Rightarrow>
        map_res (\<lambda>(config_id, (config_type, v)).
            bind_res (script_convert_to_bytes config_type v) (\<lambda>byte_value. Inr (SetConfigRecord s config_id byte_value)))
          (sort_key fst conf_vars))"

definition config_records :: "sensor_graph \<Rightarrow> update_record list res" where
  "config_records g =
     bind_res (py_sorted (\<lambda>(s, conf_vars). slot_encode s) (g_configs g)) (\<lambda>entries.
     bind_res (map_res slot_records entries) (\<lambda>rs. Inr (concat rs)))"

text \<open>The metadata are values of any type; only a number and a text go through the constructor.\<close>

definition tag_records :: "sensor_graph \<Rightarrow> update_record list res" where
  "tag_records g =
     (case map_of (g_metadata g) ''app_tag'' of
        None \<Rightarrow> Inr []
      | Some tag \<Rightarrow>
          bind_res (case map_of (g_metadata g) ''app_version'' of
              None \<Rightarrow> Inr None
            | Some (TextValue v) \<Rightarrow> Inr (Some v)
            | Some (IntValue i) \<Rightarrow> Inl AttributeError
            | Some (BytesValue b) \<Rightarrow> Inl PyTypeError) (\<lambda>version.
          bind_res (case tag of IntValue t \<Rightarrow> Inr t | _ \<Rightarrow> Inl PyTypeError) (\<lambda>t.
          bind_res (new_set_device_tag (Some t) version None None) (\<lambda>r. Inr [r]))))"

definition graph_records :: "node_grammar \<Rightarrow> sensor_graph \<Rightarrow> update_record list res" where
  "graph_records grammar g =
     bind_res (map_res (\<lambda>x. x) [new_set_online False 8, new_clear_data 8, new_reset_graph 8]) (\<lambda>start.
     bind_res (map_res (\<lambda>n. bind_res (node_str (g_log g) (g_store g ! n)) (\<lambda>t. new_add_node grammar t 8)) (g_nodes g)) (\<lambda>nodes.
     bind_res (map_res (\<lambda>st. new_add_streamer st 8) (g_streamers g)) (\<lambda>streamers.
     bind_res (map_res (\<lambda>(strm, v). new_set_constant strm v 8) (sort_key (\<lambda>(s, v). stream_encode s) (g_constants g))) (\<lambda>constants.
     bind_res (map_res (\<lambda>x. x) [new_persist_graph 8, new_clear_configs]) (\<lambda>stored.
     bind_res (config_records g) (\<lambda>configs.
     bind_res (tag_records g) (\<lambda>tags.
       Inr (start @ nodes @ streamers @ constants @ stored @ configs @ tags))))))))"

definition format_script :: "node_grammar \<Rightarrow> sensor_graph \<Rightarrow> byte list res" where
  "format_script grammar g = bind_res (graph_records grammar g) encode_script"

section \<open>What the script has to do\<close>

text \<open>The steps that install a graph, without the calls that carry them.\<close>

datatype install_step =
    SwitchOnline bool | ClearReadings | ClearGraph | LoadNode string | LoadStreamer data_streamer
  | LoadConstant data_stream int | KeepGraph | ClearConfigs | StoreConfig slot_identifier int "byte list"
  | TagDevice "int option" string "int option" string | OtherStep

fun step_of :: "update_record \<Rightarrow> install_step" where
  "step_of (SetGraphOnlineRecord c b) = SwitchOnline b"
| "step_of (ClearDataRecord c) = ClearReadings"
| "step_of (ResetGraphRecord c) = ClearGraph"
| "step_of (AddNodeRecord c t) = LoadNode t"
| "step_of (AddStreamerRecord c st) = LoadStreamer st"
| "step_of (SetConstantRecord c s v) = LoadConstant s v"
| "step_of (PersistGraphRecord c) = KeepGraph"
| "step_of (ClearConfigVariablesRecord c) = ClearConfigs"
| "step_of (SetConfigRecord s i d) = StoreConfig s i d"
| "step_of (SetDeviceTagRecord c a av os ov) = TagDevice a av os ov"
| "step_of _ = OtherStep"

text \<open>A streamer as a device knows it: not linked to a walker of this process.\<close>

definition unlink :: "data_streamer \<Rightarrow> data_streamer" where
  "unlink st = st\<lparr>st_walker := None, st_index := None\<rparr>"

definition config_steps :: "(slot_identifier \<times> (int \<times> (string \<times> config_value)) list) list \<Rightarrow> install_step list" where
  "config_steps entries =
     concat (map (\<lambda>(s, conf_vars). map (\<lambda>(i, (t, v)). StoreConfig s i (projr (convert_to_bytearray t v))) (sort_key fst conf_vars)) entries)"

definition install_plan :: "sensor_graph \<Rightarrow> install_step list" where
  "install_plan g =
     [SwitchOnline False, ClearReadings, ClearGraph] @
     map (\<lambda>n. LoadNode (projr (node_str (g_log g) (g_store g ! n)))) (g_nodes g) @
     map (\<lambda>st. LoadStreamer (unlink st)) (g_streamers g) @
     map (\<lambda>(s, v). LoadConstant s v) (sort_key (\<lambda>(s, v). stream_encode s) (g_constants g)) @
     [KeepGraph, ClearConfigs] @
     config_steps (sort_key (\<lambda>(s, conf_vars). projr (slot_encode s)) (g_configs g)) @
     (case map_of (g_metadata g) ''app_tag'' of
        Some (IntValue t) \<Rightarrow>
          [TagDevice (Some t) (case map_of (g_metadata g) ''app_version'' of Some (TextValue v) \<Rightarrow> v | _ \<Rightarrow> ''0.0'') None ''0.0'']
      | _ \<Rightarrow> [])"

section \<open>Reading the script of a graph\<close>

definition script_fits :: "node_grammar \<Rightarrow> sensor_graph \<Rightarrow> bool" where
  "script_fits grammar g \<longleftrightarrow>
     (\<forall>n \<in> set (g_nodes g). \<exists>d. desc_fits d \<and> grammar (desc_text d) = Some (desc_tokens d) \<and>
        node_str (g_log g) (g_store g ! n) = Inr (desc_text d)) \<and>
     (\<forall>st \<in> set (g_streamers g). streamer_fits st \<and>
        (case st_with_other st of None \<Rightarrow> True | Some i \<Rightarrow> \<not> st_automatic st \<and> i < 128)) \<and>
     (\<forall>(s, v) \<in> set (g_constants g). stream_encodable s) \<and>
     (\<forall>(s, c) \<in> set (g_configs g). slot_ok s) \<and>
     (case map_of (g_metadata g) ''app_tag'' of
        Some (IntValue t) \<Rightarrow>
          (case map_of (g_metadata g) ''app_version'' of
             None \<Rightarrow> tag_ok (Some t) None
           | Some (TextValue v) \<Rightarrow> tag_ok (Some t) (Some v)
           | _ \<Rightarrow> True)
      | _ \<Rightarrow> True)"

fun unlink_record :: "update_record \<Rightarrow> update_record" where
  "unlink_record (AddStreamerRecord c st) = AddStreamerRecord c (unlink st)"
| "unlink_record r = r"

lemma encode_unlinked [simp]: "encode_record (unlink_record r) = encode_record r"
  by (cases r) simp_all

lemma encode_script_unlinked: "encode_script (map unlink_record rs) = encode_script rs"
proof -
  have "map_res encode_record (map unlink_record rs) = map_res encode_record rs" by (induction rs) simp_all
  then show ?thesis by (simp add: encode_script_def encode_records_def)
qed

definition installs :: "node_grammar \<Rightarrow> record_class list \<Rightarrow> bool \<Rightarrow> update_record list \<Rightarrow> install_step list \<Rightarrow> bool" where
  "installs grammar plugins allow rs steps \<longleftrightarrow>
     list_all (\<lambda>r. built grammar plugins allow (unlink_record r)) rs \<and> map (step_of \<circ> unlink_record) rs = steps"

lemma installs_append:
  "installs grammar plugins allow rs xs \<Longrightarrow> installs grammar plugins allow rs' ys \<Longrightarrow>
   installs grammar plugins allow (rs @ rs') (xs @ ys)"
  by (auto simp: installs_def)

lemma installs_map_res:
  assumes "map_res f xs = Inr rs"
    and "\<And>x r. x \<in> set xs \<Longrightarrow> f x = Inr r \<Longrightarrow> built grammar plugins allow (unlink_record r) \<and> step_of (unlink_record r) = h x"
  shows "installs grammar plugins allow rs (map h xs)"
  using assms
proof (induction xs arbitrary: rs)
  case (Cons x xs)
  then obtain r rs' where r: "f x = Inr r" "map_res f xs = Inr rs'" "rs = r # rs'" by (auto simp: bind_res_Inr_iff)
  have "installs grammar plugins allow rs' (map h xs)" using Cons.IH [OF r(2)] Cons.prems(2) by (meson list.set_intros(2))
  then show ?case using Cons.prems(2) [OF _ r(1)] r(3) by (simp add: installs_def)
qed (simp add: installs_def)

lemma installs_concat:
  assumes "map_res f xs = Inr rss" "\<And>x rs. x \<in> set xs \<Longrightarrow> f x = Inr rs \<Longrightarrow> installs grammar plugins allow rs (h x)"
  shows "installs grammar plugins allow (concat rss) (concat (map h xs))"
  using assms
proof (induction xs arbitrary: rss)
  case (Cons x xs)
  then obtain rs rss' where r: "f x = Inr rs" "map_res f xs = Inr rss'" "rss = rs # rss'" by (auto simp: bind_res_Inr_iff)
  have "installs grammar plugins allow (concat rss') (concat (map h xs))" using Cons.IH [OF r(2)] Cons.prems(2) by simp
  then show ?case using installs_append [OF Cons.prems(2) [OF _ r(1)]] r(3) by simp
qed (simp add: installs_def)

lemma simple_steps:
  assumes "set sg_classes \<subseteq> set plugins"
  shows "new_set_online online 8 = Inr r \<Longrightarrow> installs grammar plugins allow [r] [SwitchOnline online]"
    "new_clear_data 8 = Inr r \<Longrightarrow> installs grammar plugins allow [r] [ClearReadings]"
    "new_reset_graph 8 = Inr r \<Longrightarrow> installs grammar plugins allow [r] [ClearGraph]"
    "new_persist_graph 8 = Inr r \<Longrightarrow> installs grammar plugins allow [r] [KeepGraph]"
    "new_clear_configs = Inr r \<Longrightarrow> installs grammar plugins allow [r] [ClearConfigs]"
proof -
  have c: "SetGraphOnline \<in> set plugins" "ClearData \<in> set plugins" "ResetGraph \<in> set plugins" "PersistGraph \<in> set plugins"
    "ClearConfigVariables \<in> set plugins"
    using assms by (auto simp: sg_classes_def)
  show "new_set_online online 8 = Inr r \<Longrightarrow> installs grammar plugins allow [r] [SwitchOnline online]"
    using built.set_online [OF c(1), of online 8 r grammar allow]
    by (auto simp: installs_def new_set_online_def bind_res_Inr_iff)
  show "new_clear_data 8 = Inr r \<Longrightarrow> installs grammar plugins allow [r] [ClearReadings]"
    using built.clear_data [OF c(2), of 8 r grammar allow] by (auto simp: installs_def new_clear_data_def bind_res_Inr_iff)
  show "new_reset_graph 8 = Inr r \<Longrightarrow> installs grammar plugins allow [r] [ClearGraph]"
    using built.reset_graph [OF c(3), of 8 r grammar allow] by (auto simp: installs_def new_reset_graph_def bind_res_Inr_iff)
  show "new_persist_graph 8 = Inr r \<Longrightarrow> installs grammar plugins allow [r] [KeepGraph]"
    using built.persist_graph [OF c(4), of 8 r grammar allow] by (auto simp: installs_def new_persist_graph_def bind_res_Inr_iff)
  show "new_clear_configs = Inr r \<Longrightarrow> installs grammar plugins allow [r] [ClearConfigs]"
    using built.clear_configs [OF c(5), of r grammar allow] by (auto simp: installs_def new_clear_configs_def bind_res_Inr_iff)
qed

lemma node_steps:
  assumes "script_fits grammar g" "set sg_classes \<subseteq> set plugins"
    and "map_res (\<lambda>n. bind_res (node_str (g_log g) (g_store g ! n)) (\<lambda>t. new_add_node grammar t 8)) (g_nodes g) = Inr rs"
  shows "installs grammar plugins allow rs (map (\<lambda>n. LoadNode (projr (node_str (g_log g) (g_store g ! n)))) (g_nodes g))"
proof (rule installs_map_res [OF assms(3)])
  fix n r assume n: "n \<in> set (g_nodes g)" "bind_res (node_str (g_log g) (g_store g ! n)) (\<lambda>t. new_add_node grammar t 8) = Inr r"
  then obtain d where d: "desc_fits d" "grammar (desc_text d) = Some (desc_tokens d)"
    "node_str (g_log g) (g_store g ! n) = Inr (desc_text d)"
    using assms(1) unfolding script_fits_def by blast
  have r: "new_add_node grammar (desc_text d) 8 = Inr r" using n(2) d(3) by simp
  have "AddNode \<in> set plugins" using assms(2) by (auto simp: sg_classes_def)
  from built.add_node [OF this d(1,2) r] add_node_inverse [OF d(1,2) r] d(3)
  show "built grammar plugins allow (unlink_record r) \<and>
      step_of (unlink_record r) = LoadNode (projr (node_str (g_log g) (g_store g ! n)))"
    by auto
qed

lemma unlink_simps [simp]:
  "st_selector (unlink st) = st_selector st" "st_dest (unlink st) = st_dest st" "st_format (unlink st) = st_format st"
  "st_automatic (unlink st) = st_automatic st" "st_report_type (unlink st) = st_report_type st"
  "st_with_other (unlink st) = st_with_other st" "st_walker (unlink st) = None" "st_index (unlink st) = None"
  by (simp_all add: unlink_def)

lemma streamer_steps:
  assumes "script_fits grammar g" "set sg_classes \<subseteq> set plugins"
    and "map_res (\<lambda>st. new_add_streamer st 8) (g_streamers g) = Inr rs"
  shows "installs grammar plugins allow rs (map (\<lambda>st. LoadStreamer (unlink st)) (g_streamers g))"
proof (rule installs_map_res [OF assms(3)])
  fix st r assume st: "st \<in> set (g_streamers g)" "new_add_streamer st 8 = Inr r"
  have fits: "streamer_fits st" "case st_with_other st of None \<Rightarrow> True | Some i \<Rightarrow> \<not> st_automatic st \<and> i < 128"
    using assms(1) st(1) by (auto simp: script_fits_def)
  then have u: "streamer_fits (unlink st)" "unlinked (unlink st)"
    by (simp_all add: streamer_fits_def unlinked_def split: option.splits)
  have "create_streamer_binary (unlink st) = create_streamer_binary st"
    unfolding create_streamer_binary_def unlink_simps by (rule refl)
  then obtain c where c: "r = AddStreamerRecord c st" "new_add_streamer (unlink st) 8 = Inr (AddStreamerRecord c (unlink st))"
    using st(2) by (auto simp: new_add_streamer_def bind_res_Inr_iff)
  have "AddStreamer \<in> set plugins" using assms(2) by (auto simp: sg_classes_def)
  from built.add_streamer [OF this u c(2)] show "built grammar plugins allow (unlink_record r) \<and>
      step_of (unlink_record r) = LoadStreamer (unlink st)"
    using c(1) by simp
qed

lemma constant_steps:
  assumes "script_fits grammar g" "set sg_classes \<subseteq> set plugins"
    and "map_res (\<lambda>(strm, v). new_set_constant strm v 8) (sort_key (\<lambda>(s, v). stream_encode s) (g_constants g)) = Inr rs"
  shows "installs grammar plugins allow rs
    (map (\<lambda>(s, v). LoadConstant s v) (sort_key (\<lambda>(s, v). stream_encode s) (g_constants g)))"
proof (rule installs_map_res [OF assms(3)])
  fix x r assume x: "x \<in> set (sort_key (\<lambda>(s, v). stream_encode s) (g_constants g))"
    "(case x of (strm, v) \<Rightarrow> new_set_constant strm v 8) = Inr r"
  obtain s v where sv: "x = (s, v)" by fastforce
  have s: "stream_encodable s" using assms(1) x(1) sv by (auto simp: script_fits_def)
  have r: "new_set_constant s v 8 = Inr r" using x(2) sv by simp
  have "SetConstant \<in> set plugins" using assms(2) by (auto simp: sg_classes_def)
  from built.set_constant [OF this s r] set_constant_inverse [OF s r] sv
  show "built grammar plugins allow (unlink_record r) \<and>
      step_of (unlink_record r) = (case x of (s, v) \<Rightarrow> LoadConstant s v)"
    by auto
qed

lemma config_record_steps:
  assumes "script_fits grammar g" "set sg_classes \<subseteq> set plugins" "config_records g = Inr rs"
  shows "installs grammar plugins allow rs (config_steps (sort_key (\<lambda>(s, conf_vars). projr (slot_encode s)) (g_configs g)))"
proof -
  have slots: "slot_ok s" if "(s, c) \<in> set (g_configs g)" for s c using assms(1) that by (auto simp: script_fits_def)
  have "py_sorted (\<lambda>(s, conf_vars). slot_encode s) (g_configs g) =
      Inr (sort_key (\<lambda>(s, conf_vars). projr (slot_encode s)) (g_configs g))"
    using slots slot_encode_total by (intro py_sorted_total) fastforce
  then obtain rss where rss: "map_res slot_records (sort_key (\<lambda>(s, conf_vars). projr (slot_encode s)) (g_configs g)) = Inr rss" "rs = concat rss"
    using assms(3) by (auto simp: config_records_def bind_res_Inr_iff)
  have c: "SetConfig \<in> set plugins" using assms(2) by (auto simp: sg_classes_def)
  show ?thesis
    unfolding rss(2) config_steps_def
  proof (rule installs_concat [OF rss(1)])
    fix x rs' assume x: "x \<in> set (sort_key (\<lambda>(s, conf_vars). projr (slot_encode s)) (g_configs g))" "slot_records x = Inr rs'"
    obtain s conf_vars where sv: "x = (s, conf_vars)" by fastforce
    have s: "slot_ok s" using slots x(1) sv by simp
    from x(2) sv have m: "map_res (\<lambda>(config_id, (config_type, v)). bind_res (script_convert_to_bytes config_type v)
        (\<lambda>byte_value. Inr (SetConfigRecord s config_id byte_value))) (sort_key fst conf_vars) = Inr rs'"
      by (simp add: slot_records_def)
    have "installs grammar plugins allow rs' (map (\<lambda>(i, (t, v)). StoreConfig s i (projr (convert_to_bytearray t v))) (sort_key fst conf_vars))"
      by (rule installs_map_res [OF m])
        (auto simp: bind_res_Inr_iff script_convert_to_bytes_def intro!: built.set_config [OF c s])
    then show "installs grammar plugins allow rs' (case x of (s, conf_vars) \<Rightarrow>
        map (\<lambda>(i, (t, v)). StoreConfig s i (projr (convert_to_bytearray t v))) (sort_key fst conf_vars))"
      using sv by simp
  qed
qed

lemma tag_steps:
  assumes "script_fits grammar g" "tag_records g = Inr rs"
  shows "installs grammar plugins allow rs
    (case map_of (g_metadata g) ''app_tag'' of
       Some (IntValue t) \<Rightarrow>
         [TagDevice (Some t) (case map_of (g_metadata g) ''app_version'' of Some (TextValue v) \<Rightarrow> v | _ \<Rightarrow> ''0.0'') None ''0.0'']
     | _ \<Rightarrow> [])"
proof (cases "map_of (g_metadata g) ''app_tag''")
  case None
  with assms(2) show ?thesis by (simp add: tag_records_def installs_def)
next
  case (Some tag)
  let ?version = "case map_of (g_metadata g) ''app_version'' of Some (TextValue v) \<Rightarrow> Some v | _ \<Rightarrow> None"
  obtain t r where t: "tag = IntValue t" "new_set_device_tag (Some t) ?version None None = Inr r" "rs = [r]"
    "\<And>x. map_of (g_metadata g) ''app_version'' = Some x \<Longrightarrow> \<exists>v. x = TextValue v"
    using assms(2) Some by (auto simp: tag_records_def bind_res_Inr_iff split: option.splits config_value.splits)
  have ok: "tag_ok (Some t) ?version"
    using assms(1) Some t(1,4) by (cases "map_of (g_metadata g) ''app_version''") (fastforce simp: script_fits_def)+
  have none: "tag_ok None None" by (simp add: tag_ok_def)
  obtain c where c: "r = SetDeviceTagRecord c (Some t) (version_or_zero ?version) None (version_or_zero None)"
    using device_tag_inverse [OF ok none _ t(2)] by blast
  have "built grammar plugins allow r" using built.device_tag [OF ok none _ t(2)] by simp
  moreover have "version_or_zero ?version = (case map_of (g_metadata g) ''app_version'' of Some (TextValue v) \<Rightarrow> v | _ \<Rightarrow> ''0.0'')"
    by (auto simp: version_or_zero_def split: option.splits config_value.splits)
  ultimately show ?thesis using Some t(1,3) c by (simp add: installs_def version_or_zero_def)
qed

lemma graph_steps:
  assumes "script_fits grammar g" "set sg_classes \<subseteq> set plugins" "graph_records grammar g = Inr rs"
  shows "installs grammar plugins allow rs (install_plan g)"
proof -
  obtain r1 r2 r3 nodes streamers constants r4 r5 configs tags where r:
    "new_set_online False 8 = Inr r1" "new_clear_data 8 = Inr r2" "new_reset_graph 8 = Inr r3"
    "map_res (\<lambda>n. bind_res (node_str (g_log g) (g_store g ! n)) (\<lambda>t. new_add_node grammar t 8)) (g_nodes g) = Inr nodes"
    "map_res (\<lambda>st. new_add_streamer st 8) (g_streamers g) = Inr streamers"
    "map_res (\<lambda>(strm, v). new_set_constant strm v 8) (sort_key (\<lambda>(s, v). stream_encode s) (g_constants g)) = Inr constants"
    "new_persist_graph 8 = Inr r4" "new_clear_configs = Inr r5" "config_records g = Inr configs" "tag_records g = Inr tags"
    "rs = [r1, r2, r3] @ nodes @ streamers @ constants @ [r4, r5] @ configs @ tags"
    using assms(3) by (auto simp: graph_records_def bind_res_Inr_iff)
  have "installs grammar plugins allow ([r1] @ [r2] @ [r3]) ([SwitchOnline False] @ [ClearReadings] @ [ClearGraph])"
    "installs grammar plugins allow ([r4] @ [r5]) ([KeepGraph] @ [ClearConfigs])"
    using simple_steps [OF assms(2)] r(1-3,7,8) by (intro installs_append; blast)+
  note parts = installs_append [OF this(1) installs_append [OF node_steps [OF assms(1,2) r(4)]
    installs_append [OF streamer_steps [OF assms(1,2) r(5)] installs_append [OF constant_steps [OF assms(1,2) r(6)]
    installs_append [OF this(2) installs_append [OF config_record_steps [OF assms(1,2) r(9)] tag_steps [OF assms(1) r(10)]]]]]]]
  then show ?thesis by (simp add: r(11) install_plan_def)
qed

lemma script_read:
  assumes "script_fits grammar g" "plugins_ok plugins" "set sg_classes \<subseteq> set plugins" "format_script grammar g = Inr b"
  shows "\<exists>rs. script_from_binary grammar plugins allow False b = Some (Inr rs) \<and> map step_of rs = install_plan g \<and> encode_script rs = Inr b"
proof -
  obtain rs where rs: "graph_records grammar g = Inr rs" "encode_script rs = Inr b"
    using assms(4) by (auto simp: format_script_def bind_res_Inr_iff)
  have "installs grammar plugins allow rs (install_plan g)" by (rule graph_steps [OF assms(1,3) rs(1)])
  then have i: "list_all (built grammar plugins allow) (map unlink_record rs)" "map step_of (map unlink_record rs) = install_plan g"
    by (simp_all add: installs_def list_all_iff)
  have "script_from_binary grammar plugins allow False b = Some (Inr (map unlink_record rs))"
    using script_read_back [OF i(1) assms(2)] rs(2) by (simp add: encode_script_unlinked)
  with i(2) rs(2) encode_script_unlinked [of rs] show ?thesis by metis
qed

section \<open>Properties\<close>

text \<open>
  The update script of a graph.  For a graph whose nodes, streamers, constants and slots fit the binary forms,
  reading the script that \<open>format_script\<close> makes gives records that install exactly this graph: offline, clear
  the readings and the old graph, add the nodes, streamers and constants, persist, clear the config variables and
  store those of the graph, and set the app tag.
\<close>

theorem script_installs_graph:
  assumes "script_fits grammar g" "plugins_ok plugins" "set sg_classes \<subseteq> set plugins" "format_script grammar g = Inr b"
  shows "\<exists>rs. script_from_binary grammar plugins allow False b = Some (Inr rs) \<and> map step_of rs = install_plan g"
  using script_read [OF assms] by blast

definition installed_graph :: sensor_graph where
  "installed_graph = config_graph\<lparr>g_constants := [(\<lparr>stream_type = 2, stream_id = 1, system = False\<rparr>, 7)],
     g_streamers := [manual_streamer 3], g_metadata := [(''app_tag'', IntValue 5)]\<rparr>"

lemma installed_encoded:
  "\<exists>rs blob. graph_records (\<lambda>_. None) installed_graph = Inr rs \<and> encode_records rs = Inr blob \<and> length blob < 900"
proof -
  have "case bind_res (graph_records (\<lambda>_. None) installed_graph) encode_records of Inl _ \<Rightarrow> False | Inr blob \<Rightarrow> length blob < 900"
    by code_simp
  then show ?thesis by (auto simp: bind_res_Inr_iff split: sum.splits)
qed

lemma installed_format: "\<exists>b. format_script (\<lambda>_. None) installed_graph = Inr b"
proof -
  obtain rs blob where rs: "graph_records (\<lambda>_. None) installed_graph = Inr rs" "encode_records rs = Inr blob" "length blob < 900"
    using installed_encoded by blast
  obtain b where "seal_script blob = Inr b" using seal_total [of blob] rs(3) by auto
  then show ?thesis using rs by (simp add: format_script_def encode_script_def)
qed

lemma installed_fits: "script_fits (\<lambda>_. None) installed_graph"
proof -
  have configs: "g_configs installed_graph = [(\<lparr>controller = True, slot = None\<rparr>, [(10, (''uint16_t'', IntValue 7))])]"
    "g_nodes installed_graph = []"
    by (simp_all add: installed_graph_def config_graph_def add_config_def empty_graph_def new_sensor_graph_def)
  show ?thesis
    unfolding script_fits_def configs
    by (simp add: installed_graph_def streamer_fits_def manual_streamer_def slot_ok_def sel_encodable_def ValidSpecifiers_def
      KnownFormats_def KnownTypes_def stream_encodable_def tag_ok_def)
qed

theorem script_installs_graph_witness:
  "\<exists>b rs. format_script (\<lambda>_. None) installed_graph = Inr b \<and>
     script_from_binary (\<lambda>_. None) sg_classes True False b = Some (Inr rs) \<and>
     map step_of rs = [SwitchOnline False, ClearReadings, ClearGraph, LoadStreamer (manual_streamer 3),
       LoadConstant \<lparr>stream_type = 2, stream_id = 1, system = False\<rparr> 7, KeepGraph, ClearConfigs,
       StoreConfig \<lparr>controller = True, slot = None\<rparr> 10 [7, 0], TagDevice (Some 5) ''0.0'' None ''0.0'']"
proof -
  obtain b where b: "format_script (\<lambda>_. None) installed_graph = Inr b" using installed_format by blast
  from script_installs_graph [OF installed_fits sample_built(2) _ b]
  obtain rs' where rs': "script_from_binary (\<lambda>_. None) sg_classes True False b = Some (Inr rs')" "map step_of rs' = install_plan installed_graph"
    by blast
  have "install_plan installed_graph = [SwitchOnline False, ClearReadings, ClearGraph, LoadStreamer (manual_streamer 3),
       LoadConstant \<lparr>stream_type = 2, stream_id = 1, system = False\<rparr> 7, KeepGraph, ClearConfigs,
       StoreConfig \<lparr>controller = True, slot = None\<rparr> 10 [7, 0], TagDevice (Some 5) ''0.0'' None ''0.0'']"
    by code_simp
  with b rs' show ?thesis by metis
qed

end
