(* ===== verification/Base64.thy ===== *)
theory Base64
  imports Prelude
begin

text \<open>
  \<open>base64.b64encode\<close> and \<open>b64decode\<close> of Python's library, with which dumps of the emulated device keep bytes.
\<close>

section \<open>Definitions\<close>

definition b64_char :: "nat \<Rightarrow> char" where
  "b64_char n = ''ABCDEFGHIJKLMNOPQRSTUVWXYZabcdefghijklmnopqrstuvwxyz0123456789+/'' ! n"

definition b64_value :: "char \<Rightarrow> nat option" where
  "b64_value c =
     (let n = of_char c :: nat in
      if 65 \<le> n \<and> n \<le> 90 then Some (n - 65)
      else if 97 \<le> n \<and> n \<le> 122 then Some (n - 71)
      else if 48 \<le> n \<and> n \<le> 57 then Some (n + 4)
      else if n = 43 then Some 62
      else if n = 47 then Some 63
      else None)"

fun b64encode :: "byte list \<Rightarrow> string" where
  "b64encode [] = ''''"
| "b64encode [a] = [b64_char (unat a div 4), b64_char (unat a mod 4 * 16), CHR ''='', CHR ''='']"
| "b64encode [a, b] =
     [b64_char (unat a div 4), b64_char (unat a mod 4 * 16 + unat b div 16), b64_char (unat b mod 16 * 4), CHR ''='']"
| "b64encode (a # b # c # rest) =
     [b64_char (unat a div 4), b64_char (unat a mod 4 * 16 + unat b div 16),
      b64_char (unat b mod 16 * 4 + unat c div 64), b64_char (unat c mod 64)] @ b64encode rest"

text \<open>
  The decoder: \<open>pos\<close> is the position in a group of four characters, \<open>left\<close> the bits that are waiting, \<open>pads\<close>
  the number of padding characters in a row.  Characters outside the alphabet are skipped, and a complete
  padding ends the input.  \<open>binascii.Error\<close> is a \<open>ValueError\<close>.
\<close>

fun b64_loop :: "nat \<Rightarrow> nat \<Rightarrow> nat \<Rightarrow> string \<Rightarrow> byte list res" where
  "b64_loop pos left pads [] = (if pos = 0 then Inr [] else Inl ValueError)"
| "b64_loop pos left pads (ch # rest) =
     (if ch = CHR ''='' then
        if pos \<ge> 2 \<and> pos + pads + 1 \<ge> 4 then Inr []
        else b64_loop pos left (if pos \<ge> 2 then pads + 1 else pads) rest
      else case b64_value ch of
        None \<Rightarrow> b64_loop pos left pads rest
      | Some v \<Rightarrow>
          if pos = 0 then b64_loop 1 v 0 rest
          else if pos = 1 then
            bind_res (b64_loop 2 (v mod 16) 0 rest) (\<lambda>bs. Inr (of_nat (left * 4 + v div 16) # bs))
          else if pos = 2 then
            bind_res (b64_loop 3 (v mod 4) 0 rest) (\<lambda>bs. Inr (of_nat (left * 16 + v div 4) # bs))
          else bind_res (b64_loop 0 0 0 rest) (\<lambda>bs. Inr (of_nat (left * 64 + v) # bs)))"

definition b64decode :: "string \<Rightarrow> byte list res" where
  "b64decode s = b64_loop 0 0 0 s"

section \<open>Decoding inverts encoding\<close>

lemma b64_alphabet:
  "map b64_value ''ABCDEFGHIJKLMNOPQRSTUVWXYZabcdefghijklmnopqrstuvwxyz0123456789+/'' = map Some [0..<64]"
  by (simp add: b64_value_def upt_rec)

lemma b64_value_char:
  assumes "n < 64"
  shows "b64_value (b64_char n) = Some n" "b64_char n \<noteq> CHR ''=''"
proof -
  have "map b64_value ''ABCDEFGHIJKLMNOPQRSTUVWXYZabcdefghijklmnopqrstuvwxyz0123456789+/'' ! n = map Some [0..<64] ! n"
    by (simp only: b64_alphabet)
  then show "b64_value (b64_char n) = Some n" using assms by (simp add: b64_char_def del: list.map)
  then show "b64_char n \<noteq> CHR ''=''" by (auto simp: b64_value_def)
qed

lemma byte_parts:
  fixes a b :: byte
  shows "unat a div 4 < 64" "unat a mod 4 * 16 + unat b div 16 < 64" "unat a mod 16 * 4 + unat b div 64 < 64"
    "unat a mod 4 * 16 < 64" "unat a mod 16 * 4 < 64"
proof -
  have "unat a < 256" "unat b < 256" using unsigned_less [of a] unsigned_less [of b] by simp_all
  then show "unat a div 4 < 64" "unat a mod 4 * 16 + unat b div 16 < 64" "unat a mod 16 * 4 + unat b div 64 < 64"
    "unat a mod 4 * 16 < 64" "unat a mod 16 * 4 < 64"
    by (simp_all add: less_mult_imp_div_less)
qed

lemma byte_joined:
  fixes a b :: byte
  assumes k: "k < 256"
  shows "unat a div 4 * 4 + (unat a mod 4 * 16 + unat b div 16) div 16 = unat a"
    "(unat a mod 4 * 16 + unat b div 16) mod 16 * 16 + (unat b mod 16 * 4 + k div 64) div 4 = unat b"
proof -
  have "unat a < 256" "unat b < 256" using unsigned_less [of a] unsigned_less [of b] by simp_all
  then have "unat b div 16 < 16" "k div 64 < 4" using k by (simp_all add: less_mult_imp_div_less)
  then show "unat a div 4 * 4 + (unat a mod 4 * 16 + unat b div 16) div 16 = unat a"
    "(unat a mod 4 * 16 + unat b div 16) mod 16 * 16 + (unat b mod 16 * 4 + k div 64) div 4 = unat b"
    by simp_all
qed

lemma b64_roundtrip: "b64decode (b64encode bs) = Inr bs"
  unfolding b64decode_def
proof (induction bs rule: b64encode.induct)
  case 1
  then show ?case by simp
next
  case (2 a)
  then show ?case
    using byte_joined(1) [of 0 a 0] by (simp add: b64_value_char byte_parts del: of_nat_add of_nat_mult)
next
  case (3 a b)
  then show ?case
    using byte_joined(1) [of 0 a b] byte_joined(2) [of 0 a b]
    by (simp add: b64_value_char byte_parts del: of_nat_add of_nat_mult)
next
  case (4 a b c rest)
  have "unat c < 256" using unsigned_less [of c] by simp
  then show ?case
    using 4 byte_joined(1) [of 0 a b] byte_joined(2) [of "unat c" a b]
    by (simp add: b64_value_char byte_parts del: of_nat_add of_nat_mult)
qed

end
