(* ===== verification/Remote_Bridge.thy ===== *)
theory Remote_Bridge
  imports Script_Format Base64
begin

text \<open>
  The remote bridge of the emulated controller, which receives update scripts
  (\<open>controller_features/remote_bridge.py\<close>), and the app that downloads a script to a device and runs it
  (\<open>iotile/core/hw/app/updater_app.py\<close>).
\<close>

section \<open>The bridge\<close>

abbreviation (input) IDLE :: int where "IDLE \<equiv> 0"
abbreviation (input) WAITING :: int where "WAITING \<equiv> 1"
abbreviation (input) RECEIVING :: int where "RECEIVING \<equiv> 2"
abbreviation (input) RECEIVED :: int where "RECEIVED \<equiv> 3"
abbreviation (input) VALIDATED :: int where "VALIDATED \<equiv> 4"
abbreviation (input) EXECUTING :: int where "EXECUTING \<equiv> 5"

text \<open>The state, with the bytes that were streamed to the device.\<close>

record bridge =
  rb_status :: int
  rb_error :: int
  rb_parsed_script :: "update_record list option"
  rb_script_error :: "py_error option"
  rb_device_script :: "byte list"

definition new_bridge :: bridge where
  "new_bridge = \<lparr>rb_status = IDLE, rb_error = 0, rb_parsed_script = None, rb_script_error = None, rb_device_script = []\<rparr>"

definition rb_clear_to_reset :: "bridge \<Rightarrow> bridge" where
  "rb_clear_to_reset b = b\<lparr>rb_status := IDLE, rb_error := 0\<rparr>"

definition push_script_chunk :: "byte list \<Rightarrow> bridge \<Rightarrow> bridge" where
  "push_script_chunk chunk b = b\<lparr>rb_device_script := rb_device_script b @ chunk\<rparr>"

definition begin_script :: "bridge \<Rightarrow> int \<times> bridge" where
  "begin_script b =
     (if rb_status b \<in> {RECEIVED, VALIDATED, EXECUTING} then (1, b)
      else (0, b\<lparr>rb_status := WAITING, rb_error := 0, rb_script_error := None, rb_parsed_script := None,
                 rb_device_script := []\<rparr>))"

definition end_script :: "bridge \<Rightarrow> int \<times> bridge" where
  "end_script b = (if rb_status b \<notin> {RECEIVED, WAITING} then (1, b) else (0, b\<lparr>rb_status := RECEIVED\<rparr>))"

text \<open>Reading the script may not return; an exception is kept and the call answers without an error.\<close>

definition trigger_script :: "(byte list \<Rightarrow> update_record list res option) \<Rightarrow> bridge \<Rightarrow> (int \<times> bridge) option" where
  "trigger_script parse b =
     (if rb_status b \<noteq> RECEIVED then Some (1, b)
      else case parse (rb_device_script b) of
        None \<Rightarrow> None
      | Some (Inr rs) \<Rightarrow> Some (0, b\<lparr>rb_parsed_script := Some rs, rb_status := IDLE\<rparr>)
      | Some (Inl e) \<Rightarrow> Some (0, b\<lparr>rb_script_error := Some e, rb_error := 1\<rparr>))"

definition query_status :: "bridge \<Rightarrow> int \<times> int" where
  "query_status b = (rb_status b, rb_error b)"

definition reset_script :: "bridge \<Rightarrow> int \<times> bridge" where
  "reset_script b = (0, b\<lparr>rb_status := IDLE, rb_error := 0, rb_parsed_script := None, rb_device_script := []\<rparr>)"

text \<open>A dump, and the script as text in it.\<close>

definition dump_script :: "update_record list option \<Rightarrow> string option res" where
  "dump_script v =
     (case v of None \<Rightarrow> Inr None | Some rs \<Rightarrow> bind_res (encode_script rs) (\<lambda>b. Inr (Some (b64encode b))))"

definition restore_script ::
  "(byte list \<Rightarrow> update_record list res option) \<Rightarrow> string option \<Rightarrow> update_record list option res option" where
  "restore_script parse t =
     (case t of
        None \<Rightarrow> Some (Inr None)
      | Some text \<Rightarrow> bind_run (Some (b64decode text)) (\<lambda>b. bind_run (parse b) (\<lambda>rs. Some (Inr (Some rs)))))"

section \<open>Steps\<close>

datatype bridge_event = BeginScript | PushChunk "byte list" | EndScript | TriggerScript | QueryStatus | ResetScript | ClearToReset

inductive bridge_step ::
  "(byte list \<Rightarrow> update_record list res option) \<Rightarrow> bridge \<Rightarrow> bridge_event \<Rightarrow> int list \<Rightarrow> bridge \<Rightarrow> bool" for parse where
  begin_call: "begin_script b = (err, b') \<Longrightarrow> bridge_step parse b BeginScript [err] b'"
| push_chunk: "bridge_step parse b (PushChunk c) [] (push_script_chunk c b)"
| end_call: "end_script b = (err, b') \<Longrightarrow> bridge_step parse b EndScript [err] b'"
| trigger_call: "trigger_script parse b = Some (err, b') \<Longrightarrow> bridge_step parse b TriggerScript [err] b'"
| query_call: "query_status b = (st, err) \<Longrightarrow> bridge_step parse b QueryStatus [st, err] b"
| reset_call: "reset_script b = (err, b') \<Longrightarrow> bridge_step parse b ResetScript [err] b'"
| reset_device: "bridge_step parse b ClearToReset [] (rb_clear_to_reset b)"

inductive bridge_run ::
  "(byte list \<Rightarrow> update_record list res option) \<Rightarrow> bridge \<Rightarrow> (bridge_event \<times> int list) list \<Rightarrow> bridge \<Rightarrow> bool" for parse where
  bridge_start: "bridge_run parse b [] b"
| bridge_next: "bridge_run parse b es b' \<Longrightarrow> bridge_step parse b' e out b'' \<Longrightarrow> bridge_run parse b (es @ [(e, out)]) b''"

inductive_cases bridge_stepE: "bridge_step parse b e out b'"

section \<open>The updater\<close>

text \<open>Operations that may raise and may not return.\<close>

type_synonym ('a, 's) run = "('a, 's) act option"

definition bind_exec :: "('a, 's) run \<Rightarrow> ('a \<Rightarrow> 's \<Rightarrow> ('b, 's) run) \<Rightarrow> ('b, 's) run" where
  "bind_exec x f = (case x of None \<Rightarrow> None | Some (Inl e, s) \<Rightarrow> Some (Inl e, s) | Some (Inr a, s) \<Rightarrow> f a s)"

lemma bind_exec_simps [simp]:
  "bind_exec None f = None"
  "bind_exec (Some (Inl e, s)) f = Some (Inl e, s)"
  "bind_exec (Some (Inr a, s)) f = f a s"
  by (simp_all add: bind_exec_def)

text \<open>What the updater calls on the connected device: the calls of the bridge, the stream and the reset.\<close>

record 's script_device =
  sd_query :: "'s \<Rightarrow> (int \<times> int, 's) run"
  sd_reset :: "'s \<Rightarrow> (int, 's) run"
  sd_begin :: "'s \<Rightarrow> (int, 's) run"
  sd_send_highspeed :: "byte list \<Rightarrow> 's \<Rightarrow> (unit, 's) run"
  sd_end :: "'s \<Rightarrow> (int, 's) run"
  sd_trigger :: "'s \<Rightarrow> (int, 's) run"
  sd_reboot :: "'s \<Rightarrow> (unit, 's) run"

definition check_error :: "int \<Rightarrow> 's \<Rightarrow> (unit, 's) run" where
  "check_error err s = Some (if err \<noteq> 0 then Inl HardwareError else Inr (), s)"

text \<open>
  The two loops that poll.  In the first an error of the device is counted like one of the connection, and
  then raised; each gives the number of errors that were counted.
\<close>

partial_function (option) wait_validated ::
  "('s \<Rightarrow> (int \<times> int, 's) run) \<Rightarrow> int \<Rightarrow> nat \<Rightarrow> 's \<Rightarrow> (int \<times> nat, 's) run" where
  "wait_validated query status errs s =
     (if status \<noteq> 3 then Some (Inr (status, errs), s)
      else case query s of
        None \<Rightarrow> None
      | Some (Inl e, s1) \<Rightarrow>
          if e \<noteq> HardwareError then Some (Inl e, s1)
          else if errs + 1 > 2 then Some (Inl HardwareError, s1)
          else wait_validated query status (errs + 1) s1
      | Some (Inr (status1, err), s1) \<Rightarrow>
          if err \<noteq> 0 then Some (Inl HardwareError, s1)
          else wait_validated query status1 errs s1)"

partial_function (option) wait_executed :: "('s \<Rightarrow> (int \<times> int, 's) run) \<Rightarrow> int \<Rightarrow> nat \<Rightarrow> 's \<Rightarrow> (unit, 's) run" where
  "wait_executed query status errs s =
     (if status = 0 then Some (Inr (), s)
      else case query s of
        None \<Rightarrow> None
      | Some (Inl e, s1) \<Rightarrow>
          if e \<noteq> HardwareError then Some (Inl e, s1)
          else if errs + 1 > 10 then Some (Inl HardwareError, s1)
          else wait_executed query status (errs + 1) s1
      | Some (Inr (status1, err), s1) \<Rightarrow>
          if err \<noteq> 0 then Some (Inl HardwareError, s1)
          else wait_executed query status1 errs s1)"

definition wait_script :: "'s script_device \<Rightarrow> 's \<Rightarrow> (unit, 's) run" where
  "wait_script d s =
     bind_exec (sd_trigger d s) (\<lambda>err s.
     bind_exec (check_error err s) (\<lambda>_ s.
     bind_exec (sd_query d s) (\<lambda>(status, err) s.
     bind_exec (check_error err s) (\<lambda>_ s.
     bind_exec (wait_validated (sd_query d) status 0 s) (\<lambda>(status, errs) s.
       wait_executed (sd_query d) status errs s)))))"

text \<open>The script is given by the result of its \<open>encode\<close>.\<close>

definition run_script :: "'s script_device \<Rightarrow> byte list res \<Rightarrow> bool \<Rightarrow> bool \<Rightarrow> 's \<Rightarrow> (unit, 's) run" where
  "run_script d encoded force no_reboot s =
     bind_exec (Some (encoded, s)) (\<lambda>raw_data s.
     bind_exec (sd_query d s) (\<lambda>(status, err) s.
     bind_exec (if status = 3 \<and> force then bind_exec (sd_reset d s) check_error
                else Some (if status \<noteq> 0 then Inl HardwareError else Inr (), s)) (\<lambda>_ s.
     bind_exec (sd_begin d s) (\<lambda>ignored s.
     bind_exec (sd_send_highspeed d raw_data s) (\<lambda>_ s.
     bind_exec (bind_exec (sd_end d s) check_error) (\<lambda>_ s.
     bind_exec (wait_script d s) (\<lambda>_ s.
       if no_reboot then Some (Inr (), s) else sd_reboot d s)))))))"

text \<open>
  \<open>load_script\<close> on the bytes of the file.  The three questions are answered by the last arguments; the result
  says whether a script was run.
\<close>

definition load_script ::
  "(byte list \<Rightarrow> update_record list res option) \<Rightarrow> 's script_device \<Rightarrow> byte list \<Rightarrow> bool \<Rightarrow> bool \<Rightarrow> bool \<Rightarrow> bool
   \<Rightarrow> 's \<Rightarrow> (bool, 's) run" where
  "load_script parse d indata confirm no_reboot do_load clear s =
     bind_exec (case parse indata of None \<Rightarrow> None | Some x \<Rightarrow> Some (x, s)) (\<lambda>script s.
       if confirm \<and> \<not> do_load then Some (Inr False, s)
       else
         bind_exec (sd_query d s) (\<lambda>(status, err) s.
         let run = (\<lambda>s. bind_exec (run_script d (encode_script script) False False s) (\<lambda>_ s. Some (Inr True, s))) in
         if status \<noteq> 0 \<and> \<not> confirm then Some (Inr False, s)
         else if status \<in> {3, 2, 1} then
           (if \<not> clear then Some (Inr False, s)
            else bind_exec (bind_exec (sd_reset d s) check_error) (\<lambda>_ s. run s))
         else if status \<in> {4, 5} then Some (Inr False, s)
         else run s))"

section \<open>Downloading a script\<close>

text \<open>What the updater relies on: the states of a device around a script, and how its calls go through them.\<close>

locale script_bridge =
  fixes d :: "'s script_device"
    and idle :: "'s \<Rightarrow> bool"
    and waiting :: "byte list \<Rightarrow> 's \<Rightarrow> bool"
    and received :: "byte list \<Rightarrow> 's \<Rightarrow> bool"
    and failed :: "'s \<Rightarrow> bool"
    and installed :: "'s \<Rightarrow> update_record list option"
    and parse :: "byte list \<Rightarrow> update_record list res option"
  assumes query_idle: "idle s \<Longrightarrow> sd_query d s = Some (Inr (0, 0), s)"
    and query_failed: "failed s \<Longrightarrow> sd_query d s = Some (Inr (3, 1), s)"
    and begin_idle: "idle s \<Longrightarrow> \<exists>s'. sd_begin d s = Some (Inr 0, s') \<and> waiting [] s'"
    and send_waiting: "waiting data s \<Longrightarrow> \<exists>s'. sd_send_highspeed d next_data s = Some (Inr (), s') \<and> waiting (data @ next_data) s'"
    and end_waiting: "waiting data s \<Longrightarrow> \<exists>s'. sd_end d s = Some (Inr 0, s') \<and> received data s'"
    and trigger_good: "received data s \<Longrightarrow> parse data = Some (Inr rs) \<Longrightarrow>
        \<exists>s'. sd_trigger d s = Some (Inr 0, s') \<and> idle s' \<and> installed s' = Some rs"
    and trigger_bad: "received data s \<Longrightarrow> parse data = Some (Inl e) \<Longrightarrow> \<exists>s'. sd_trigger d s = Some (Inr 0, s') \<and> failed s'"
    and trigger_stuck: "received data s \<Longrightarrow> parse data = None \<Longrightarrow> sd_trigger d s = None"
    and reset_failed: "failed s \<Longrightarrow> \<exists>s'. sd_reset d s = Some (Inr 0, s') \<and> idle s'"
begin

lemma downloaded:
  assumes "idle s"
  shows "\<exists>s'. received raw s' \<and> run_script d (Inr raw) force no_reboot s =
    bind_exec (wait_script d s') (\<lambda>_ s. if no_reboot then Some (Inr (), s) else sd_reboot d s)"
proof -
  obtain s1 where s1: "sd_begin d s = Some (Inr 0, s1)" "waiting [] s1" using begin_idle [OF assms] by blast
  obtain s2 where s2: "sd_send_highspeed d raw s1 = Some (Inr (), s2)" "waiting raw s2" using send_waiting [OF s1(2)] by fastforce
  obtain s3 where s3: "sd_end d s2 = Some (Inr 0, s3)" "received raw s3" using end_waiting [OF s2(2)] by blast
  show ?thesis
    using query_idle [OF assms] s1(1) s2(1) s3 by (intro exI [of _ s3]) (simp add: run_script_def check_error_def)
qed

lemma run_installs:
  assumes "idle s" "parse raw = Some (Inr rs)"
  shows "\<exists>s'. idle s' \<and> installed s' = Some rs \<and>
    run_script d (Inr raw) force no_reboot s = (if no_reboot then Some (Inr (), s') else sd_reboot d s')"
proof -
  obtain s3 where s3: "received raw s3" "run_script d (Inr raw) force no_reboot s =
      bind_exec (wait_script d s3) (\<lambda>_ s. if no_reboot then Some (Inr (), s) else sd_reboot d s)"
    using downloaded [OF assms(1)] by blast
  obtain s4 where s4: "sd_trigger d s3 = Some (Inr 0, s4)" "idle s4" "installed s4 = Some rs"
    using trigger_good [OF s3(1) assms(2)] by blast
  have "wait_script d s3 = Some (Inr (), s4)"
    using s4(1) query_idle [OF s4(2)]
    by (simp add: wait_script_def check_error_def wait_validated.simps wait_executed.simps)
  with s3 s4 show ?thesis by auto
qed

lemma run_rejected:
  assumes "idle s" "parse raw = Some (Inl e)"
  shows "\<exists>s'. failed s' \<and> run_script d (Inr raw) force no_reboot s = Some (Inl HardwareError, s')"
proof -
  obtain s3 where s3: "received raw s3" "run_script d (Inr raw) force no_reboot s =
      bind_exec (wait_script d s3) (\<lambda>_ s. if no_reboot then Some (Inr (), s) else sd_reboot d s)"
    using downloaded [OF assms(1)] by blast
  obtain s4 where s4: "sd_trigger d s3 = Some (Inr 0, s4)" "failed s4" using trigger_bad [OF s3(1) assms(2)] by blast
  have "wait_script d s3 = Some (Inl HardwareError, s4)"
    using s4(1) query_failed [OF s4(2)] by (simp add: wait_script_def check_error_def)
  with s3 s4 show ?thesis by auto
qed

lemma run_stuck:
  assumes "idle s" "parse raw = None"
  shows "run_script d (Inr raw) force no_reboot s = None"
proof -
  obtain s3 where s3: "received raw s3" "run_script d (Inr raw) force no_reboot s =
      bind_exec (wait_script d s3) (\<lambda>_ s. if no_reboot then Some (Inr (), s) else sd_reboot d s)"
    using downloaded [OF assms(1)] by blast
  show ?thesis using trigger_stuck [OF s3(1) assms(2)] s3(2) by (simp add: wait_script_def)
qed

text \<open>A script that was refused stays on the device: only a forced run goes on.\<close>

lemma run_after_failure:
  assumes "failed s"
  shows "run_script d (Inr raw) False no_reboot s = Some (Inl HardwareError, s)"
    "\<exists>s'. idle s' \<and> run_script d (Inr raw) True no_reboot s = run_script d (Inr raw) True no_reboot s'"
proof -
  obtain s' where s': "sd_reset d s = Some (Inr 0, s')" "idle s'" using reset_failed [OF assms] by blast
  then show "\<exists>s'. idle s' \<and> run_script d (Inr raw) True no_reboot s = run_script d (Inr raw) True no_reboot s'"
    using query_failed [OF assms] query_idle [OF s'(2)]
    by (intro exI [of _ s']) (simp add: run_script_def check_error_def)
  show "run_script d (Inr raw) False no_reboot s = Some (Inl HardwareError, s)"
    using query_failed [OF assms] by (simp add: run_script_def)
qed

lemma run_forced:
  assumes "failed s" "parse raw = Some (Inr rs)"
  shows "\<exists>s'. idle s' \<and> installed s' = Some rs \<and>
    run_script d (Inr raw) True no_reboot s = (if no_reboot then Some (Inr (), s') else sd_reboot d s')"
  using run_after_failure(2) [OF assms(1)] run_installs [OF _ assms(2)] by metis

end

text \<open>The emulated bridge as the device of the updater; the stream cuts the bytes into chunks of a size.\<close>

function cut_chunks :: "nat \<Rightarrow> byte list \<Rightarrow> byte list list" where
  "cut_chunks n d = (if d = [] then [] else if n = 0 then [d] else take n d # cut_chunks n (drop n d))"
  by auto
termination by (relation "measure (\<lambda>(n, d). length d)") auto

declare cut_chunks.simps [simp del]

lemma concat_cut_chunks [simp]: "concat (cut_chunks n d) = d"
  by (induction n d rule: cut_chunks.induct) (subst cut_chunks.simps, simp)

definition bridge_device ::
  "(byte list \<Rightarrow> update_record list res option) \<Rightarrow> nat \<Rightarrow> bridge script_device" where
  "bridge_device parse n =
     \<lparr>sd_query = (\<lambda>b. Some (Inr (query_status b), b)),
      sd_reset = (\<lambda>b. case reset_script b of (err, b') \<Rightarrow> Some (Inr err, b')),
      sd_begin = (\<lambda>b. case begin_script b of (err, b') \<Rightarrow> Some (Inr err, b')),
      sd_send_highspeed = (\<lambda>data b. Some (Inr (), fold push_script_chunk (cut_chunks n data) b)),
      sd_end = (\<lambda>b. case end_script b of (err, b') \<Rightarrow> Some (Inr err, b')),
      sd_trigger = (\<lambda>b. case trigger_script parse b of None \<Rightarrow> None | Some (err, b') \<Rightarrow> Some (Inr err, b')),
      sd_reboot = (\<lambda>b. Some (Inr (), rb_clear_to_reset b))\<rparr>"

lemma push_chunks: "fold push_script_chunk cs b = b\<lparr>rb_device_script := rb_device_script b @ concat cs\<rparr>"
  by (induction cs arbitrary: b) (simp_all add: push_script_chunk_def)

interpretation emulated: script_bridge "bridge_device parse n"
  "\<lambda>b. rb_status b = IDLE \<and> rb_error b = 0"
  "\<lambda>data b. rb_status b = WAITING \<and> rb_error b = 0 \<and> rb_device_script b = data"
  "\<lambda>data b. rb_status b = RECEIVED \<and> rb_error b = 0 \<and> rb_device_script b = data"
  "\<lambda>b. rb_status b = RECEIVED \<and> rb_error b = 1" rb_parsed_script parse
  for parse n
  by unfold_locales
    (auto simp: bridge_device_def query_status_def begin_script_def push_chunks end_script_def trigger_script_def reset_script_def)

text \<open>What every run keeps.\<close>

definition bridge_ok :: "bridge \<Rightarrow> bool" where
  "bridge_ok b \<longleftrightarrow> rb_status b \<in> {IDLE, WAITING, RECEIVED} \<and>
     rb_error b \<in> {0, 1} \<and>
     (rb_status b = WAITING \<longrightarrow> rb_error b = 0) \<and>
     (rb_status b \<noteq> IDLE \<longrightarrow> rb_parsed_script b = None)"

lemma bridge_step_ok: "bridge_step parse b e out b' \<Longrightarrow> bridge_ok b \<Longrightarrow> bridge_ok b'"
  by (induction rule: bridge_step.induct)
    (auto simp: bridge_ok_def begin_script_def push_script_chunk_def end_script_def trigger_script_def reset_script_def
      rb_clear_to_reset_def split: if_splits option.splits sum.splits)

lemma bridge_run_ok: "bridge_run parse b es b' \<Longrightarrow> bridge_ok b \<Longrightarrow> bridge_ok b'"
  by (induction rule: bridge_run.induct) (auto intro: bridge_step_ok)

section \<open>Properties\<close>

text \<open>
  C4: installing a graph.  For a graph that fits, the script that \<open>format_script\<close> makes can be loaded into an idle
  bridge, whatever the size of the chunks of the stream is: \<open>load_script\<close> says that it ran, and the records that
  the bridge has parsed are the steps that install this graph.
\<close>

theorem load_installs_graph:
  assumes "script_fits grammar g" "plugins_ok plugins" "set sg_classes \<subseteq> set plugins" "format_script grammar g = Inr b"
    and "rb_status s = IDLE" "rb_error s = 0"
  shows "\<exists>s' rs. load_script (script_from_binary grammar plugins True False)
      (bridge_device (script_from_binary grammar plugins True False) n) b confirm no_reboot True clear s = Some (Inr True, s') \<and>
    rb_parsed_script s' = Some rs \<and> map step_of rs = install_plan g \<and> rb_status s' = IDLE"
proof -
  let ?parse = "script_from_binary grammar plugins True False"
  let ?d = "bridge_device ?parse n"
  obtain rs where rs: "?parse b = Some (Inr rs)" "map step_of rs = install_plan g" "encode_script rs = Inr b"
    using script_read [OF assms(1-4)] by blast
  obtain s1 where s1: "rb_status s1 = IDLE" "rb_parsed_script s1 = Some rs"
    "run_script ?d (Inr b) False False s = sd_reboot ?d s1"
    using emulated.run_installs [of s ?parse b rs n False False] assms(5,6) rs(1) by auto
  have "sd_query ?d s = Some (Inr (0, 0), s)" using assms(5,6) by (simp add: bridge_device_def query_status_def)
  moreover have "sd_reboot ?d s1 = Some (Inr (), rb_clear_to_reset s1)" by (simp add: bridge_device_def)
  ultimately have "load_script ?parse ?d b confirm no_reboot True clear s = Some (Inr True, rb_clear_to_reset s1)"
    using rs(1,3) s1(3) by (simp add: load_script_def)
  with rs(2) s1 show ?thesis by (intro exI [of _ "rb_clear_to_reset s1"]) (simp add: rb_clear_to_reset_def)
qed

theorem load_installs_graph_witness:
  "\<exists>b s' rs. load_script (script_from_binary (\<lambda>_. None) sg_classes True False)
      (bridge_device (script_from_binary (\<lambda>_. None) sg_classes True False) 20) b True False True False new_bridge = Some (Inr True, s') \<and>
    rb_parsed_script s' = Some rs \<and> map step_of rs = install_plan installed_graph"
proof -
  obtain b where b: "format_script (\<lambda>_. None) installed_graph = Inr b" using installed_format by blast
  show ?thesis
    using load_installs_graph [OF installed_fits sample_built(2) _ b, of new_bridge 20 True False False]
    by (auto simp: new_bridge_def)
qed

text \<open>
  The states of the bridge.  Whatever calls and data arrive in whatever order, the bridge is idle, waiting or
  has received a script; \<open>RECEIVING\<close>, \<open>VALIDATED\<close> and \<open>EXECUTING\<close> do not occur.  A bridge that waits for a
  script reports no error, and only an idle bridge has a parsed script.
\<close>

theorem bridge_states:
  assumes "bridge_run parse new_bridge es b"
  shows "rb_status b \<in> {IDLE, WAITING, RECEIVED} \<and> rb_error b \<in> {0, 1} \<and>
    (rb_status b = WAITING \<longrightarrow> rb_error b = 0) \<and> (rb_status b \<noteq> IDLE \<longrightarrow> rb_parsed_script b = None)"
  using bridge_run_ok [OF assms] by (auto simp: bridge_ok_def new_bridge_def)

text \<open>A script is refused, a chunk that arrives late completes it, and the bridge is idle with the old error.\<close>

definition late_parse :: "byte list \<Rightarrow> update_record list res option" where
  "late_parse b = Some (if b = [1, 2] then Inr [] else Inl ArgumentError)"

definition late_events :: "(bridge_event \<times> int list) list" where
  "late_events = [(BeginScript, [0]), (PushChunk [1], []), (EndScript, [0]), (TriggerScript, [0]), (PushChunk [2], []),
     (TriggerScript, [0])]"

lemmas bridge_eval = begin_script_def end_script_def trigger_script_def push_script_chunk_def new_bridge_def late_parse_def

lemma late_run:
  "bridge_run late_parse new_bridge late_events
     \<lparr>rb_status = IDLE, rb_error = 1, rb_parsed_script = Some [], rb_script_error = Some ArgumentError, rb_device_script = [1, 2]\<rparr>"
proof -
  note next_step = bridge_next [where parse = late_parse and es = "_ # _", simplified]
  have a: "bridge_run late_parse new_bridge [(BeginScript, [0])]
      \<lparr>rb_status = WAITING, rb_error = 0, rb_parsed_script = None, rb_script_error = None, rb_device_script = []\<rparr>"
    using bridge_next [OF bridge_start begin_call] by (auto simp: bridge_eval)
  have b: "bridge_run late_parse new_bridge [(BeginScript, [0]), (PushChunk [1], [])]
      \<lparr>rb_status = WAITING, rb_error = 0, rb_parsed_script = None, rb_script_error = None, rb_device_script = [1]\<rparr>"
    using next_step [OF a push_chunk] by (auto simp: bridge_eval)
  have c: "bridge_run late_parse new_bridge [(BeginScript, [0]), (PushChunk [1], []), (EndScript, [0])]
      \<lparr>rb_status = RECEIVED, rb_error = 0, rb_parsed_script = None, rb_script_error = None, rb_device_script = [1]\<rparr>"
    using next_step [OF b end_call] by (auto simp: bridge_eval)
  have d: "bridge_run late_parse new_bridge [(BeginScript, [0]), (PushChunk [1], []), (EndScript, [0]), (TriggerScript, [0])]
      \<lparr>rb_status = RECEIVED, rb_error = 1, rb_parsed_script = None, rb_script_error = Some ArgumentError, rb_device_script = [1]\<rparr>"
    using next_step [OF c trigger_call] by (auto simp: bridge_eval)
  have e: "bridge_run late_parse new_bridge
      [(BeginScript, [0]), (PushChunk [1], []), (EndScript, [0]), (TriggerScript, [0]), (PushChunk [2], [])]
      \<lparr>rb_status = RECEIVED, rb_error = 1, rb_parsed_script = None, rb_script_error = Some ArgumentError, rb_device_script = [1, 2]\<rparr>"
    using next_step [OF d push_chunk] by (auto simp: bridge_eval)
  show ?thesis using next_step [OF e trigger_call] by (auto simp: bridge_eval late_events_def)
qed

theorem bridge_states_witness:
  "\<exists>b. bridge_run late_parse new_bridge late_events b \<and> rb_status b = IDLE \<and> rb_error b = 1 \<and>
     (rb_status b = WAITING \<longrightarrow> rb_error b = 0)"
  using bridge_states [OF late_run] late_run by fastforce

text \<open>
  A script that cannot be read.  The bridge answers the trigger without an error and keeps the script: the
  updater sees the error when it asks for the state, and raises.  The next script is refused by \<open>begin_script\<close>
  and by an unforced run, and a forced run installs it.
\<close>

theorem failed_script_blocks:
  fixes s :: bridge
  assumes "rb_status s = IDLE" "rb_error s = 0" "parse raw = Some (Inl e)" "parse good = Some (Inr rs)"
  shows "\<exists>s'. run_script (bridge_device parse n) (Inr raw) force no_reboot s = Some (Inl HardwareError, s') \<and>
    begin_script s' = (1, s') \<and>
    run_script (bridge_device parse n) (Inr good) False no_reboot s' = Some (Inl HardwareError, s') \<and>
    (\<exists>s2. run_script (bridge_device parse n) (Inr good) True no_reboot s' = Some (Inr (), s2) \<and>
       rb_status s2 = IDLE \<and> rb_parsed_script s2 = Some rs)"
proof -
  let ?d = "bridge_device parse n"
  obtain s' where s': "rb_status s' = RECEIVED" "rb_error s' = 1"
    "run_script ?d (Inr raw) force no_reboot s = Some (Inl HardwareError, s')"
    using emulated.run_rejected [of s parse raw e n force no_reboot] assms(1-3) by auto
  have refused: "begin_script s' = (1, s')" using s'(1) by (simp add: begin_script_def)
  have unforced: "run_script ?d (Inr good) False no_reboot s' = Some (Inl HardwareError, s')"
    using emulated.run_after_failure(1) [of s' parse n good no_reboot] s'(1,2) by simp
  have "\<exists>s2. run_script ?d (Inr good) True no_reboot s' = Some (Inr (), s2) \<and> rb_status s2 = IDLE \<and> rb_parsed_script s2 = Some rs"
    using emulated.run_forced [of s' parse good rs n no_reboot] s'(1,2) assms(4)
    by (auto simp: bridge_device_def rb_clear_to_reset_def split: if_splits)
  with s'(3) refused unforced show ?thesis by blast
qed

theorem failed_script_blocks_witness:
  "\<exists>s'. run_script (bridge_device late_parse 20) (Inr [1]) False False new_bridge = Some (Inl HardwareError, s') \<and>
     begin_script s' = (1, s')"
  using failed_script_blocks [of new_bridge late_parse "[1]" ArgumentError "[1, 2]" "[]" 20 False False]
  by (auto simp: new_bridge_def late_parse_def)

end
