(* ===== verification/Compiler_Scopes.thy ===== *)
theory Compiler_Scopes
  imports Graph_Dump
begin

text \<open>
  What the compiler of sensor graph files keeps while it generates nodes: the stream allocator
  (\<open>sg/parser/stream_allocator.py\<close>) and the stack of scopes (\<open>sg/parser/scopes\<close>).
\<close>

section \<open>State\<close>

text \<open>
  The parent of a scope is the scope below it on the stack, so the stack is a list with the innermost scope first.
  \<open>allocated\<close> and \<open>next_ids\<close> are dictionaries.  An identifier names a stream or a slot.
\<close>

datatype ident_object = StreamIdent data_stream | SlotIdent slot_identifier

datatype scope_kind =
    RootScope (system_tick: data_stream) (fast_tick: data_stream) (user1_tick: data_stream) (user2_tick: data_stream)
  | ConfigScope
  | TriggerScope data_stream trigger
  | GatedClockScope data_stream trigger "(string \<times> (data_stream \<times> int)) list"

record scope =
  sc_kind :: scope_kind
  sc_identifiers :: "(string \<times> ident_object) list"

record build_state =
  b_graph :: sensor_graph
  b_model :: device_model
  b_allocated :: "(data_stream \<times> (data_stream \<times> int \<times> data_stream option)) list"
  b_next_ids :: "(int \<times> int) list"

definition on_graph :: "(sensor_graph \<Rightarrow> ('a, sensor_graph) act) \<Rightarrow> build_state \<Rightarrow> ('a, build_state) act" where
  "on_graph f b = map_state (\<lambda>g. b\<lparr>b_graph := g\<rparr>) (f (b_graph b))"

section \<open>Texts of nodes\<close>

text \<open>The texts with one and with two inputs; the stream of an input is followed by its trigger.\<close>

definition one_input :: "data_stream \<Rightarrow> string \<Rightarrow> data_stream \<Rightarrow> string \<Rightarrow> string res" where
  "one_input a trig_a out func =
     bind_res (stream_str a) (\<lambda>sa. bind_res (stream_str out) (\<lambda>so.
       Inr (''('' @ sa @ '' '' @ trig_a @ '') => '' @ so @ '' using '' @ func)))"

definition two_inputs ::
  "data_stream \<Rightarrow> string \<Rightarrow> string \<Rightarrow> data_stream \<Rightarrow> string \<Rightarrow> data_stream \<Rightarrow> string \<Rightarrow> string res" where
  "two_inputs a trig_a combiner b trig_b out func =
     bind_res (stream_str a) (\<lambda>sa. bind_res (stream_str b) (\<lambda>sb. bind_res (stream_str out) (\<lambda>so.
       Inr (''('' @ sa @ '' '' @ trig_a @ '' '' @ combiner @ '' '' @ sb @ '' '' @ trig_b @ '') => '' @ so @ '' using '' @ func))))"

definition generate_node :: "node_grammar \<Rightarrow> string res \<Rightarrow> build_state \<Rightarrow> (unit, build_state) act" where
  "generate_node grammar desc b =
     (case desc of Inl err \<Rightarrow> (Inl err, b) | Inr text \<Rightarrow> on_graph (add_node grammar text) b)"

section \<open>The allocator\<close>

abbreviation (input) StartingID :: int where "StartingID \<equiv> 0x400"

text \<open>\<open>allocate_stream\<close> up to its last step.\<close>

definition allocate_only :: "int \<Rightarrow> int option \<Rightarrow> data_stream option \<Rightarrow> build_state \<Rightarrow> (data_stream, build_state) act" where
  "allocate_only strm_type strm_id previous b =
     (if TypeToString strm_type = None then (Inl ArgumentError, b)
      else if (case strm_id of None \<Rightarrow> False | Some i \<Rightarrow> i \<ge> StartingID) then (Inl ArgumentError, b)
      else
        let next = (case map_of (b_next_ids b) strm_type of None \<Rightarrow> StartingID | Some n \<Rightarrow> n);
            (i, b1) = (case strm_id of
               Some i \<Rightarrow> (i, b)
             | None \<Rightarrow> (next, b\<lparr>b_next_ids := AList.update strm_type (next + 1) (b_next_ids b)\<rparr>));
            s = new_stream strm_type i False
        in (Inr s, if map_of (b_allocated b1) s \<noteq> None then b1
                   else b1\<lparr>b_allocated := AList.update s (s, 0, previous) (b_allocated b1)\<rparr>))"

text \<open>The value of a constant is given to its copy as well.\<close>

definition duplicate_constant :: "data_stream \<Rightarrow> data_stream \<Rightarrow> build_state \<Rightarrow> (unit, build_state) act" where
  "duplicate_constant cur new b =
     (if stream_type cur = ConstantType then
        (case map_of (g_constants (b_graph b)) cur of
           None \<Rightarrow> (Inr (), b)
         | Some v \<Rightarrow> on_graph (add_constant new v) b)
      else (Inr (), b))"

text \<open>A stream with no room for another node is split: a copy of it takes its last output.\<close>

definition attach_stream :: "node_grammar \<Rightarrow> data_stream \<Rightarrow> build_state \<Rightarrow> (data_stream, build_state) act" where
  "attach_stream grammar s b =
     (case map_of (b_allocated b) s of
        None \<Rightarrow> (Inl KeyError, b)
      | Some (cur, n, prev) \<Rightarrow>
          bind_act (dm_get (b_model b) ''max_node_outputs'', b) (\<lambda>max_outputs b.
          if n = max_outputs - 1 then
            bind_act (allocate_only (stream_type cur) None (Some cur) b) (\<lambda>new b.
            bind_act (generate_node grammar (one_input cur ''always'' new ''copy_all_a'') b) (\<lambda>_ b.
              bind_act (duplicate_constant cur new (b\<lparr>b_allocated := AList.update s (new, 1, Some cur) (b_allocated b)\<rparr>)) (\<lambda>_ b.
                (Inr new, b))))
          else (Inr cur, b\<lparr>b_allocated := AList.update s (cur, n + 1, prev) (b_allocated b)\<rparr>)))"

definition allocate_stream ::
  "node_grammar \<Rightarrow> int \<Rightarrow> int option \<Rightarrow> data_stream option \<Rightarrow> bool \<Rightarrow> build_state \<Rightarrow> (data_stream, build_state) act" where
  "allocate_stream grammar strm_type strm_id previous attach b =
     bind_act (allocate_only strm_type strm_id previous b) (\<lambda>s b.
       if attach then attach_stream grammar s b else (Inr s, b))"

abbreviation (input) new_attached :: "node_grammar \<Rightarrow> int \<Rightarrow> build_state \<Rightarrow> (data_stream, build_state) act" where
  "new_attached grammar t \<equiv> allocate_stream grammar t None None True"

abbreviation (input) new_detached :: "node_grammar \<Rightarrow> int \<Rightarrow> build_state \<Rightarrow> (data_stream, build_state) act" where
  "new_detached grammar t \<equiv> allocate_stream grammar t None None False"

section \<open>Known streams\<close>

text \<open>\<open>sg/known_constants.py\<close>.\<close>

definition battery_voltage :: data_stream where "battery_voltage = new_stream InputType 0 True"
definition known_system_tick :: data_stream where "known_system_tick = new_stream InputType 2 True"
definition known_fast_tick :: data_stream where "known_fast_tick = new_stream InputType 3 True"
definition user_connected :: data_stream where "user_connected = new_stream InputType 1025 True"
definition user_disconnected :: data_stream where "user_disconnected = new_stream InputType 1026 True"
definition known_tick_1 :: data_stream where "known_tick_1 = new_stream InputType 5 True"
definition known_tick_2 :: data_stream where "known_tick_2 = new_stream InputType 6 True"

section \<open>Scopes\<close>

definition add_identifier :: "string \<Rightarrow> ident_object \<Rightarrow> scope \<Rightarrow> scope" where
  "add_identifier name obj sc = sc\<lparr>sc_identifiers := AList.update name obj (sc_identifiers sc)\<rparr>"

text \<open>The expected type is not passed on to the parent.\<close>

fun resolve_identifier :: "scope list \<Rightarrow> string \<Rightarrow> (ident_object \<Rightarrow> bool) option \<Rightarrow> ident_object res" where
  "resolve_identifier [] name expected = Inl UnresolvedIdentifierError"
| "resolve_identifier (sc # parents) name expected =
     (case map_of (sc_identifiers sc) name of
        Some obj \<Rightarrow>
          (case expected of
             Some is_type \<Rightarrow> if is_type obj then Inr obj else Inl UnresolvedIdentifierError
           | None \<Rightarrow> Inr obj)
      | None \<Rightarrow> resolve_identifier parents name None)"

fun is_stream :: "ident_object \<Rightarrow> bool" where
  "is_stream (StreamIdent s) = True"
| "is_stream (SlotIdent s) = False"

fun is_slot :: "ident_object \<Rightarrow> bool" where
  "is_slot (StreamIdent s) = False"
| "is_slot (SlotIdent s) = True"

definition count_trigger :: "string \<Rightarrow> int \<Rightarrow> trigger" where
  "count_trigger c n = InputTrigger \<lparr>use_count = True, comp_string = c, reference = n\<rparr>"

definition trigger_chain :: "node_grammar \<Rightarrow> scope list \<Rightarrow> build_state \<Rightarrow> (data_stream \<times> trigger, build_state) act" where
  "trigger_chain grammar scopes b =
     (case scopes of
        [] \<Rightarrow> (Inl IndexError, b)
      | sc # _ \<Rightarrow>
          (case sc_kind sc of
             TriggerScope strm cond \<Rightarrow> bind_act (attach_stream grammar strm b) (\<lambda>s b. (Inr (s, cond), b))
           | _ \<Rightarrow> (Inl SensorGraphSemanticError, b)))"

definition classify_clock :: "int \<Rightarrow> string \<Rightarrow> string res" where
  "classify_clock interval basis =
     (if basis = ''system'' then Inr (if interval mod 10 = 0 then ''standard'' else ''fast'')
      else if basis = ''tick_1'' then Inr ''tick_1''
      else if basis = ''tick_2'' then Inr ''tick_2''
      else Inl SensorGraphSemanticError)"

definition root_clock ::
  "node_grammar \<Rightarrow> data_stream \<Rightarrow> data_stream \<Rightarrow> data_stream \<Rightarrow> data_stream \<Rightarrow> int \<Rightarrow> string \<Rightarrow> build_state
   \<Rightarrow> (data_stream \<times> trigger, build_state) act" where
  "root_clock grammar systick fasttick user1tick user2tick interval basis b =
     (if basis = ''system'' then
        if interval mod 10 = 0
        then bind_act (attach_stream grammar systick b) (\<lambda>tick b. (Inr (tick, count_trigger ''>='' (interval div 10)), b))
        else bind_act (attach_stream grammar fasttick b) (\<lambda>tick b. (Inr (tick, count_trigger ''>='' interval), b))
      else if basis = ''tick_1''
        then bind_act (attach_stream grammar user1tick b) (\<lambda>tick b. (Inr (tick, count_trigger ''>='' interval), b))
      else if basis = ''tick_2''
        then bind_act (attach_stream grammar user2tick b) (\<lambda>tick b. (Inr (tick, count_trigger ''>='' interval), b))
      else (Inl SensorGraphSemanticError, b))"

text \<open>
  A gated scope asks its parent for a clock of each class once, and gates it with its latch.  It returns the stack,
  because the caches of the scopes below may change as well.
\<close>

definition gate_clock ::
  "node_grammar \<Rightarrow> data_stream \<Rightarrow> trigger \<Rightarrow> int \<Rightarrow> data_stream \<times> trigger \<Rightarrow> build_state \<Rightarrow> (data_stream \<times> int, build_state) act" where
  "gate_clock grammar latch_stream latch_trigger interval parent_clock b =
     (case parent_clock of
        (parent_stream, InputTrigger t) \<Rightarrow>
          if \<not> use_count t then (Inl SensorGraphSemanticError, b)
          else if reference t = 0 then (Inl ZeroDivisionError, b)
          else if interval mod reference t \<noteq> 0 then (Inl SensorGraphSemanticError, b)
          else bind_act (new_detached grammar CounterType b) (\<lambda>strm b.
               bind_act (attach_stream grammar latch_stream b) (\<lambda>latch b.
               bind_act (generate_node grammar
                   (two_inputs parent_stream ''always'' ''&&'' latch (trigger_str latch_trigger) strm ''copy_latest_a'') b) (\<lambda>_ b.
                 (Inr (strm, interval div reference t), b))))
      | _ \<Rightarrow> (Inl AttributeError, b))"

definition gated_result ::
  "node_grammar \<Rightarrow> int \<Rightarrow> data_stream \<times> int \<Rightarrow> build_state \<Rightarrow> (data_stream \<times> trigger, build_state) act" where
  "gated_result grammar interval data b =
     (case data of (strm, ratio) \<Rightarrow>
        if ratio = 0 then (Inl ZeroDivisionError, b)
        else if interval mod ratio \<noteq> 0 then (Inl SensorGraphSemanticError, b)
        else bind_act (attach_stream grammar strm b) (\<lambda>s b. (Inr (s, count_trigger ''>='' (interval div ratio)), b)))"

fun clock ::
  "node_grammar \<Rightarrow> scope list \<Rightarrow> int \<Rightarrow> string \<Rightarrow> build_state \<Rightarrow> (data_stream \<times> trigger, scope list \<times> build_state) act" where
  "clock grammar [] interval basis b = (Inl AttributeError, [], b)"
| "clock grammar (sc # parents) interval basis b =
     (case sc_kind sc of
        RootScope systick fasttick user1tick user2tick \<Rightarrow>
          map_state (\<lambda>b. (sc # parents, b)) (root_clock grammar systick fasttick user1tick user2tick interval basis b)
      | ConfigScope \<Rightarrow> (Inl SensorGraphSemanticError, sc # parents, b)
      | TriggerScope _ _ \<Rightarrow> (Inl SensorGraphSemanticError, sc # parents, b)
      | GatedClockScope latch_stream latch_trigger cache \<Rightarrow>
          (case classify_clock interval basis of
             Inl err \<Rightarrow> (Inl err, sc # parents, b)
           | Inr name \<Rightarrow>
               (case map_of cache name of
                  Some data \<Rightarrow> map_state (\<lambda>b. (sc # parents, b)) (gated_result grammar interval data b)
                | None \<Rightarrow>
                    (case clock grammar parents interval basis b of
                       (Inl err, parents1, b1) \<Rightarrow> (Inl err, sc # parents1, b1)
                     | (Inr parent_clock, parents1, b1) \<Rightarrow>
                         (case gate_clock grammar latch_stream latch_trigger interval parent_clock b1 of
                            (Inl err, b2) \<Rightarrow> (Inl err, sc # parents1, b2)
                          | (Inr data, b2) \<Rightarrow>
                              let sc1 = sc\<lparr>sc_kind := GatedClockScope latch_stream latch_trigger (AList.update name data cache)\<rparr> in
                              map_state (\<lambda>b. (sc1 # parents1, b)) (gated_result grammar interval data b2))))))"

text \<open>The constructors.  Only a stream has a type; asking a slot for it raises.\<close>

definition new_root_scope :: "node_grammar \<Rightarrow> build_state \<Rightarrow> (scope, build_state) act" where
  "new_root_scope grammar b =
     bind_act (new_attached grammar CounterType b) (\<lambda>systick b.
     bind_act (new_attached grammar CounterType b) (\<lambda>fasttick b.
     bind_act (new_attached grammar CounterType b) (\<lambda>user1tick b.
     bind_act (new_attached grammar CounterType b) (\<lambda>user2tick b.
     bind_act (generate_node grammar (one_input known_system_tick ''always'' systick ''copy_all_a'') b) (\<lambda>_ b.
     bind_act (generate_node grammar (one_input known_fast_tick ''always'' fasttick ''copy_all_a'') b) (\<lambda>_ b.
     bind_act (slot_of_string ''controller'', b) (\<lambda>dest b.
     let b = b\<lparr>b_graph := add_config dest config_fast_tick_secs ''uint32_t'' (IntValue 1) (b_graph b)\<rparr> in
     bind_act (generate_node grammar (one_input known_tick_1 ''always'' user1tick ''copy_all_a'') b) (\<lambda>_ b.
     bind_act (generate_node grammar (one_input known_tick_2 ''always'' user2tick ''copy_all_a'') b) (\<lambda>_ b.
       (Inr \<lparr>sc_kind = RootScope systick fasttick user1tick user2tick, sc_identifiers = []\<rparr>, b))))))))))"

definition new_trigger_scope :: "node_grammar \<Rightarrow> ident_object \<times> trigger \<Rightarrow> build_state \<Rightarrow> (scope, build_state) act" where
  "new_trigger_scope grammar trigger_input b =
     (case trigger_input of
        (SlotIdent _, _) \<Rightarrow> (Inl AttributeError, b)
      | (StreamIdent s, trig) \<Rightarrow>
          let t = (if stream_type s = InputType then UnbufferedType else stream_type s) in
          bind_act (new_detached grammar t b) (\<lambda>strm b.
          bind_act (generate_node grammar (one_input s (trigger_str trig) strm ''copy_latest_a'') b) (\<lambda>_ b.
            (Inr \<lparr>sc_kind = TriggerScope strm (count_trigger ''=='' 1), sc_identifiers = []\<rparr>, b))))"

definition new_gated_scope :: "node_grammar \<Rightarrow> data_stream \<times> trigger \<Rightarrow> build_state \<Rightarrow> (scope, build_state) act" where
  "new_gated_scope grammar input_latch b =
     bind_act (new_detached grammar ConstantType b) (\<lambda>strm b.
     bind_act (generate_node grammar (one_input (fst input_latch) ''always'' strm ''copy_latest_a'') b) (\<lambda>_ b.
       (Inr \<lparr>sc_kind = GatedClockScope strm (snd input_latch) [], sc_identifiers = []\<rparr>, b)))"

end
