(* ===== verification/Graph_Reachable.thy ===== *)
theory Graph_Reachable
  imports Graph_Dump
begin

text \<open>
  The states that a sensor graph reaches through its methods: building it, filling in its constants, sorting its
  nodes, adding its checksum, and running it.
\<close>

section \<open>Walks over the nodes keep the invariant\<close>

lemma bfs_loop_keeps:
  assumes "bfs_loop g body working seen s = Some y" and "\<And>n inputs s. P s \<Longrightarrow> P (snd (body n inputs s))" and "P s"
  shows "P (snd y)"
  using assms
proof (induction rule: bfs_loop.raw_induct [rotated, consumes 1, case_names step])
  case (step loop g body working seen s y)
  show ?case
  proof (cases working)
    case (Cons n rest)
    obtain r t where body: "body n (seen_inputs g n seen) s = (r, t)" by fastforce
    then have "P t" using step(3) [of s n "seen_inputs g n seen"] step(4) by simp
    then show ?thesis using step(1) [of g body "rest @ n_outputs (g_store g ! n)" "seen @ [n]" t y] step(2,3) Cons body by (cases r) auto
  qed (use step in auto)
qed

interpretation constants_kept: step_relation "\<lambda>x y :: sensor_graph \<times> data_stream list. graph_ok (fst x) \<longrightarrow> graph_ok (fst y)"
  by unfold_locales auto

lemma added_constant: "graph_ok g \<Longrightarrow> graph_ok (fst (snd (bind_act (r, g, x) (\<lambda>_ (g1, l). (Inr (), g1, l @ ys)))))"
  by (cases r) auto

lemma init_constants_keeps: "graph_ok (fst st) \<Longrightarrow> graph_ok (fst (snd (init_constants_body v n inputs st)))"
  by (cases "input_streams (g_log (fst st)) (g_store (fst st) ! n)")
    (auto simp: init_constants_body_def map_state_def add_items_ok intro!: constants_kept.for_each [rule_format] added_constant
       split: prod.split)

lemma initialize_ok:
  "initialize_remaining_constants v g = Some (r, g1, rest) \<Longrightarrow> graph_ok g \<Longrightarrow> graph_ok g1"
  using bfs_loop_keeps [where P = "\<lambda>st. graph_ok (fst st)" and s = "(g, [])"] init_constants_keeps
  by (fastforce simp: initialize_remaining_constants_def)

text \<open>Taking listed nodes by distinct indices gives a list of distinct listed nodes.\<close>

lemma picked_nodes:
  assumes "map_res (\<lambda>i. py_nth xs (int i)) order = Inr nodes" "distinct order" "distinct xs"
  shows "distinct nodes" "set nodes \<subseteq> set xs" "length nodes \<le> length xs"
proof -
  have "length nodes = length order \<and> (\<forall>k<length order. order ! k < length xs \<and> nodes ! k = xs ! (order ! k))"
    using assms(1)
  proof (induction order arbitrary: nodes)
    case (Cons j js)
    then show ?case by (auto simp: bind_res_Inr_iff py_nth_def nth_Cons split: if_splits nat.split)
  qed simp
  then have at: "length nodes = length order" "\<And>k. k < length order \<Longrightarrow> order ! k < length xs \<and> nodes ! k = xs ! (order ! k)"
    by blast+
  show "distinct nodes" using at assms(2,3) by (simp add: distinct_conv_nth)
  moreover show "set nodes \<subseteq> set xs" using at by (metis (no_types, lifting) in_set_conv_nth nth_mem subsetI)
  ultimately show "length nodes \<le> length xs" using assms(3) by (metis card_mono distinct_card List.finite_set)
qed

lemma graph_ok_nodes:
  assumes "graph_ok g" "distinct nodes" "set nodes \<subseteq> set (g_nodes g)" "length nodes \<le> length (g_nodes g)"
  shows "graph_ok (g\<lparr>g_nodes := nodes\<rparr>)"
  using assms by (auto simp: graph_ok_def refs_ok_def within_def split: option.splits)

lemma sort_nodes_ok:
  assumes "sort_nodes toposort g = Some (r, g')" and "graph_ok g" and "\<And>deps order. toposort deps = Inr order \<Longrightarrow> distinct order"
  shows "graph_ok g'"
proof -
  consider "g' = g" | deps order nodes where "toposort deps = Inr order" "map_res (\<lambda>i. py_nth (g_nodes g) (int i)) order = Inr nodes"
      "g' = g\<lparr>g_nodes := nodes\<rparr>"
  proof (cases "bfs_loop g (deps_body g) (g_roots g) [] []")
    case None
    then show ?thesis using assms(1) by (simp add: sort_nodes_def)
  next
    case (Some walk)
    obtain walked deps where walk: "walk = (walked, deps)" by fastforce
    show ?thesis
    proof (cases "\<exists>order nodes. walked = Inr () \<and> toposort deps = Inr order \<and>
        map_res (\<lambda>i. py_nth (g_nodes g) (int i)) order = Inr nodes")
      case True
      then show ?thesis using assms(1) Some walk that(2) by (auto simp: sort_nodes_def Let_def)
    next
      case False
      then have "g' = g" using assms(1) Some walk
        by (cases walked; cases "toposort deps")
          (auto simp: sort_nodes_def split: sum.splits)
      then show ?thesis by (rule that(1))
    qed
  qed
  then show ?thesis
  proof cases
    case 2
    then show ?thesis
      using graph_ok_nodes [OF assms(2)] picked_nodes [OF 2(2)] assms(2,3) by (simp add: graph_ok_def)
  qed (use assms(2) in simp)
qed

text \<open>A checksum changes the configuration and the table of checksums.\<close>

interpretation configured: step_relation "\<lambda>g g'. graph_ok g \<longrightarrow> graph_ok g'"
  by unfold_locales auto

lemma replace_config_ok: "graph_ok g \<Longrightarrow> graph_ok (snd (replace_config s address v g))"
  by (auto simp: replace_config_def add_items_ok split: config_value.split sum.split prod.split)

lemma parse_ignorelist_ok: "graph_ok g \<Longrightarrow> graph_ok (snd (parse_configs_ignorelist py_eval g))"
  unfolding parse_configs_ignorelist_def
  by (auto simp: replace_config_ok intro!: configured.bind_act [rule_format] split: sum.split prod.split)

lemma graph_ok_checksums: "graph_ok (g\<lparr>g_checksums := sums\<rparr>) = graph_ok g"
  by (simp add: graph_ok_def refs_ok_def)

lemma add_checksum_ok: "graph_ok g \<Longrightarrow> graph_ok (snd (add_checksum node_gr streamer_gr crc_func py_eval force g))"
  unfolding add_checksum_def Let_def
  by (auto simp: replace_config_ok parse_ignorelist_ok graph_ok_checksums intro!: configured.bind_act [rule_format]
      split: sum.split prod.split)

section \<open>Reachable graphs\<close>

text \<open>
  One call of a method that changes the graph, or a change of the sensor log, which the graph shares with its
  streamers and with other clients.  A walk over a graph with a cycle may not end; then there is no step.
\<close>

inductive graph_step ::
  "'w graph_env \<Rightarrow> node_grammar \<Rightarrow> streamer_grammar \<Rightarrow> ((nat \<times> nat set) list \<Rightarrow> nat list res) \<Rightarrow> (byte list \<Rightarrow> int)
   \<Rightarrow> (string \<Rightarrow> (string \<times> int list) list res) \<Rightarrow> sensor_graph \<times> 'w \<Rightarrow> sensor_graph \<times> 'w \<Rightarrow> bool"
  for env grammar streamer_gr toposort crc_func py_eval where
  step_node: "graph_step env grammar streamer_gr toposort crc_func py_eval (g, w) (snd (add_node grammar desc g), w)"
| step_streamer: "graph_step env grammar streamer_gr toposort crc_func py_eval (g, w) (snd (add_streamer st g), w)"
| step_constant: "graph_step env grammar streamer_gr toposort crc_func py_eval (g, w) (snd (add_constant s v g), w)"
| step_metadata: "graph_step env grammar streamer_gr toposort crc_func py_eval (g, w) (snd (add_metadata name val g), w)"
| step_config: "graph_step env grammar streamer_gr toposort crc_func py_eval (g, w) (add_config slt config_id config_type cv g, w)"
| step_initialize: "initialize_remaining_constants v g = Some (res, g1, remaining) \<Longrightarrow>
    graph_step env grammar streamer_gr toposort crc_func py_eval (g, w) (g1, w)"
| step_sort: "sort_nodes toposort g = Some (res, g1) \<Longrightarrow>
    graph_step env grammar streamer_gr toposort crc_func py_eval (g, w) (g1, w)"
| step_checksum: "graph_step env grammar streamer_gr toposort crc_func py_eval (g, w)
    (snd (add_checksum grammar streamer_gr crc_func py_eval force g), w)"
| step_mark: "graph_step env grammar streamer_gr toposort crc_func py_eval (g, w) (snd (mark_streamer index g), w)"
| step_check: "graph_step env grammar streamer_gr toposort crc_func py_eval (g, w) (snd (check_streamers blacklist g), w)"
| step_clear: "graph_step env grammar streamer_gr toposort crc_func py_eval (g, w) (graph_clear g, w)"
| step_load: "graph_step env grammar streamer_gr toposort crc_func py_eval gw (snd (load_constants env gw))"
| step_input: "process_input env s r gw = Some y \<Longrightarrow>
    graph_step env grammar streamer_gr toposort crc_func py_eval gw (snd y)"
| step_log: "graph_step env grammar streamer_gr toposort crc_func py_eval (g, w) (g\<lparr>g_log := log\<rparr>, w)"

lemma graph_step_ok:
  assumes "\<And>deps order. toposort deps = Inr order \<Longrightarrow> distinct order"
  shows "graph_step env grammar streamer_gr toposort crc_func py_eval gw gw' \<Longrightarrow> graph_ok (fst gw) \<Longrightarrow> graph_ok (fst gw')"
proof (induction rule: graph_step.induct)
  case (step_clear g w)
  then show ?case
    by (auto simp: graph_clear_def graph_ok_def refs_ok_def streamers_ok_def within_def split: option.splits)
next
  case (step_load gw)
  have "same_graph gw (snd (load_constants env gw))"
    unfolding load_constants_def by (intro same_graph.for_each) (auto simp: same_graph_push split: prod.split)
  then show ?case using step_load same_graph_ok by blast
next
  case (step_input s r gw y)
  then show ?case using same_graph_input same_graph_ok by blast
next
  case (step_initialize v g res g1 remaining w)
  then show ?case using initialize_ok by fastforce
next
  case (step_sort g res g1 w)
  then show ?case using sort_nodes_ok assms by fastforce
qed (simp_all add: add_node_ok add_streamer_ok add_items_ok mark_streamer_ok check_streamers_ok add_checksum_ok graph_ok_log)

section \<open>Properties\<close>

text \<open>
  C9: the invariant of sensor graphs.  In every state that a new graph reaches through its methods, also after
  calls that raised, and whatever happens to the log, all references to nodes are in range, listed nodes have a
  processing function and are listed once, like the roots, streamers are linked and numbered by their position, no
  constant, metadata name or slot occurs twice, and the numbers of nodes and streamers respect the limits.  The
  topological sort of the third-party package is only assumed to list no number twice.
\<close>

theorem graph_reachable_ok:
  assumes "new_sensor_graph log model limits = Inr g0"
    and "(graph_step env grammar streamer_gr toposort crc_func py_eval)\<^sup>*\<^sup>* (g0, w0) gw"
    and "\<forall>deps order. toposort deps = Inr order \<longrightarrow> distinct order"
  shows "graph_ok (fst gw)"
proof -
  have "graph_ok (fst (g0, w0))"
    using assms(1) by (auto simp: new_sensor_graph_def graph_ok_def refs_ok_def streamers_ok_def within_def
        bind_res_Inr_iff split: if_splits option.splits)
  with assms(2) show ?thesis by (induction rule: rtranclp_induct) (use assms(3) graph_step_ok in blast)+
qed

theorem graph_reachable_ok_witness:
  "graph_ok dangling \<and> g_roots dangling = [0] \<and> g_nodes dangling = []"
proof -
  have "new_sensor_graph small_log (Some new_device_model) False = Inr empty_graph"
    by (simp add: empty_graph_def new_sensor_graph_def)
  moreover have "(graph_step quiet_env (tick_grammar ''average_a'') (\<lambda>_. None) (\<lambda>deps. Inr (remdups (map fst deps))) (\<lambda>_. 0) (\<lambda>_. Inr []))\<^sup>*\<^sup>*
      (empty_graph, ()) (dangling, ())"
    unfolding dangling_def by (intro r_into_rtranclp step_node)
  ultimately show ?thesis
    using graph_reachable_ok [of small_log "Some new_device_model" False empty_graph quiet_env "tick_grammar ''average_a''"
        "\<lambda>_. None" "\<lambda>deps. Inr (remdups (map fst deps))" "\<lambda>_. 0" "\<lambda>_. Inr []" "()" "(dangling, ())"]
      dangling_fields by auto
qed

end
