(* ===== verification/Graph_Compiler.thy ===== *)
theory Graph_Compiler
  imports Compiler_Scopes Graph_Reachable
begin

text \<open>
  The compiler of sensor graph files from the results of its \<open>pyparsing\<close> grammar on: the statements
  (\<open>sg/parser/statements\<close>), the parser's loop over them and the compilation (\<open>sg/parser/parser_v1.py\<close>).
\<close>

section \<open>Statements\<close>

datatype trigger_definition = NamedEvent string | ExplicitTrigger data_stream trigger

datatype name_or_number = Name string | Number int

datatype copy_input = NoInput | ExplicitInput data_stream | ConstantInput int

datatype copy_modifier = CopyLatest | CopyAll | CopyCount | CopyAverage

datatype block_header =
    OnBlock trigger_definition "(string \<times> trigger_definition) option"
  | EveryBlock int string
  | WhenBlock slot_identifier
  | LatchBlock data_stream trigger
  | ConfigBlock slot_identifier

datatype simple_statement =
    CopyStatement copy_modifier copy_input data_stream
  | SubtractStatement data_stream data_stream "int option"
  | TriggerStatement int
  | CallStatement name_or_number slot_identifier "data_stream option"
  | StreamerStatement selector slot_identifier string bool string "int option"
  | MetaStatement string config_value
  | SetConfigStatement name_or_number config_value "string option"

datatype statement = Block block_header "statement list" | Simple simple_statement

section \<open>From the results of the grammar to statements\<close>

datatype trigger_clause =
    IdentifierClause string
  | StreamTriggerClause string data_stream string int
  | StreamAlwaysClause data_stream

datatype header_tokens =
    OnTokens trigger_clause "(string \<times> trigger_clause) option"
  | EveryTokens int string
  | WhenTokens slot_identifier
  | LatchTokens string data_stream string int
  | ConfigTokens slot_identifier

datatype statement_tokens =
    CopyTokens "string option" "data_stream option" "int option" data_stream
  | SubtractTokens data_stream data_stream "int option"
  | TriggerTokens int
  | CallTokens name_or_number slot_identifier "data_stream option"
  | StreamerTokens streamer_tokens
  | MetaTokens string config_value
  | SetTokens name_or_number config_value "string option"
  | RequireTokens string string config_value

text \<open>A file: blocks, and statements whose text is parsed later by the statement grammar.\<close>

datatype parse_tree = ParsedBlock header_tokens "parse_tree list" | Unparsed string

type_synonym statement_grammar = "string \<Rightarrow> statement_tokens res"

definition parse_trigger :: "trigger_clause \<Rightarrow> trigger_definition res" where
  "parse_trigger clause =
     (case clause of
        IdentifierClause name \<Rightarrow> Inr (NamedEvent name)
      | StreamTriggerClause trigger_type s oper ref \<Rightarrow>
          bind_res (new_input_trigger trigger_type oper ref) (\<lambda>t. Inr (ExplicitTrigger s (InputTrigger t)))
      | StreamAlwaysClause s \<Rightarrow> Inr (ExplicitTrigger s TrueTrigger))"

definition new_block_header :: "header_tokens \<Rightarrow> block_header res" where
  "new_block_header tokens =
     (case tokens of
        OnTokens a rest \<Rightarrow>
          bind_res (parse_trigger a) (\<lambda>trigger_a.
            case rest of
              None \<Rightarrow> Inr (OnBlock trigger_a None)
            | Some (combiner, b) \<Rightarrow> bind_res (parse_trigger b) (\<lambda>trigger_b. Inr (OnBlock trigger_a (Some (combiner, trigger_b)))))
      | EveryTokens interval basis \<Rightarrow> Inr (EveryBlock interval basis)
      | WhenTokens s \<Rightarrow> Inr (WhenBlock s)
      | LatchTokens trigger_type s oper ref \<Rightarrow>
          bind_res (new_input_trigger trigger_type oper ref) (\<lambda>t. Inr (LatchBlock s (InputTrigger t)))
      | ConfigTokens s \<Rightarrow> Inr (ConfigBlock s))"

definition new_streamer_statement :: "streamer_tokens \<Rightarrow> simple_statement res" where
  "new_streamer_statement parsed =
     (let encrypted = (tk_security parsed = Some ''encrypted'');
          signd = (tk_security parsed = Some ''signed'');
          auto = (\<not> tk_manual parsed \<and> tk_with_other parsed = None)
      in bind_res (slot_of_string ''controller'') (\<lambda>c.
         let dest = (case tk_tile parsed of None \<Rightarrow> c | Some t \<Rightarrow> t);
             report_type = (if tk_broadcast parsed then ''broadcast'' else ''telegram'');
             statement = (\<lambda>fmt. Inr (StreamerStatement (tk_selector parsed) dest fmt auto report_type (tk_with_other parsed)))
         in if tk_realtime parsed \<and> (encrypted \<or> signd) then Inl SensorGraphSemanticError
            else if tk_broadcast parsed \<and> (encrypted \<or> signd) then Inl SensorGraphSemanticError
            else if tk_realtime parsed \<or> tk_broadcast parsed then statement ''individual''
            else if signd then statement ''signedlist_userkey''
            else if encrypted then Inl SensorGraphSemanticError
            else statement ''hashedlist''))"

definition new_copy_statement :: "string option \<Rightarrow> data_stream option \<Rightarrow> int option \<Rightarrow> data_stream \<Rightarrow> simple_statement" where
  "new_copy_statement modifier explicit_input constant_input out =
     CopyStatement
       (if modifier = Some ''all'' then CopyAll
        else if modifier = Some ''average'' then CopyAverage
        else if modifier = Some ''count'' then CopyCount
        else CopyLatest)
       (case explicit_input of
          Some s \<Rightarrow> ExplicitInput s
        | None \<Rightarrow> (case constant_input of Some v \<Rightarrow> ConstantInput v | None \<Rightarrow> NoInput)) out"

text \<open>\<open>statement_map\<close> has no class for \<open>require\<close>.\<close>

definition new_simple_statement :: "statement_tokens \<Rightarrow> simple_statement res" where
  "new_simple_statement tokens =
     (case tokens of
        CopyTokens modifier explicit_input constant_input out \<Rightarrow>
          Inr (new_copy_statement modifier explicit_input constant_input out)
      | SubtractTokens a s d \<Rightarrow> Inr (SubtractStatement a s d)
      | TriggerTokens i \<Rightarrow> Inr (TriggerStatement i)
      | CallTokens rpc s out \<Rightarrow> Inr (CallStatement rpc s out)
      | StreamerTokens parsed \<Rightarrow> new_streamer_statement parsed
      | MetaTokens name v \<Rightarrow> Inr (MetaStatement name v)
      | SetTokens var v t \<Rightarrow> Inr (SetConfigStatement var v t)
      | RequireTokens name oper v \<Rightarrow> Inl ArgumentError)"

text \<open>\<open>parse_statement\<close>: children come before the header of their block.\<close>

fun parse_statement :: "statement_grammar \<Rightarrow> parse_tree \<Rightarrow> statement res"
  and parse_statements :: "statement_grammar \<Rightarrow> parse_tree list \<Rightarrow> statement list res" where
  "parse_statement language (ParsedBlock header children) =
     bind_res (parse_statements language children) (\<lambda>parsed.
     bind_res (new_block_header header) (\<lambda>h. Inr (Block h parsed)))"
| "parse_statement language (Unparsed text) =
     (case language text of
        Inl err \<Rightarrow> Inl (if err = ParseException then SensorGraphSyntaxError else err)
      | Inr tokens \<Rightarrow> bind_res (new_simple_statement tokens) (\<lambda>s. Inr (Simple s)))"
| "parse_statements language [] = Inr []"
| "parse_statements language (t # ts) =
     bind_res (parse_statement language t) (\<lambda>s. bind_res (parse_statements language ts) (\<lambda>ss. Inr (s # ss)))"

section \<open>Generating code\<close>

type_synonym compiler_state = "scope list \<times> build_state"

definition in_build :: "(build_state \<Rightarrow> ('a, build_state) act) \<Rightarrow> compiler_state \<Rightarrow> ('a, compiler_state) act" where
  "in_build f c = map_state (\<lambda>b. (fst c, b)) (f (snd c))"

definition push_scope :: "scope \<Rightarrow> compiler_state \<Rightarrow> (unit, compiler_state) act" where
  "push_scope sc c = (Inr (), sc # fst c, snd c)"

definition pop_scope :: "compiler_state \<Rightarrow> (unit, compiler_state) act" where
  "pop_scope c = (case fst c of [] \<Rightarrow> (Inl IndexError, c) | _ # scopes \<Rightarrow> (Inr (), scopes, snd c))"

text \<open>\<open>scope_stack[-1]\<close>.\<close>

definition current_scope :: "compiler_state \<Rightarrow> (scope, compiler_state) act" where
  "current_scope c = (case fst c of [] \<Rightarrow> Inl IndexError | sc # _ \<Rightarrow> Inr sc, c)"

definition convert_trigger :: "scope list \<Rightarrow> trigger_definition \<Rightarrow> (ident_object \<times> trigger) res" where
  "convert_trigger scopes def =
     (case def of
        NamedEvent name \<Rightarrow>
          bind_res (resolve_identifier scopes name (Some is_stream)) (\<lambda>obj. Inr (obj, TrueTrigger))
      | ExplicitTrigger s trig \<Rightarrow> Inr (StreamIdent s, trig))"

definition combine_events ::
  "node_grammar \<Rightarrow> ident_object \<times> trigger \<Rightarrow> string \<Rightarrow> ident_object \<times> trigger \<Rightarrow> build_state \<Rightarrow> (data_stream, build_state) act" where
  "combine_events grammar event_a combiner event_b b =
     bind_act (new_detached grammar UnbufferedType b) (\<lambda>trigger_stream b.
       case (event_a, event_b) of
         ((StreamIdent a, ta), (StreamIdent e, tb)) \<Rightarrow>
           let op = (if combiner = ''and'' then ''&&'' else ''||'');
               both = (\<lambda>x y b. generate_node grammar
                 (two_inputs x (trigger_str ta) op y (trigger_str tb) trigger_stream ''copy_latest_a'') b)
           in bind_act
             (if stream_input a \<and> \<not> stream_input e then
                bind_act (new_attached grammar UnbufferedType b) (\<lambda>u b.
                bind_act (generate_node grammar (one_input a ''always'' u ''copy_latest_a'') b) (\<lambda>_. both u e))
              else if stream_input e \<and> \<not> stream_input a then
                bind_act (new_attached grammar UnbufferedType b) (\<lambda>u b.
                bind_act (generate_node grammar (one_input e ''always'' u ''copy_latest_a'') b) (\<lambda>_. both a u))
              else both a e b) (\<lambda>_ b. (Inr trigger_stream, b))
       | _ \<Rightarrow> (Inl AttributeError, b))"

definition on_block_before ::
  "node_grammar \<Rightarrow> trigger_definition \<Rightarrow> (string \<times> trigger_definition) option \<Rightarrow> compiler_state \<Rightarrow> (unit, compiler_state) act" where
  "on_block_before grammar trigger_a rest c =
     bind_act (convert_trigger (fst c) trigger_a, c) (\<lambda>event_a c.
       case rest of
         None \<Rightarrow> bind_act (in_build (new_trigger_scope grammar event_a) c) push_scope
       | Some (combiner, trigger_b) \<Rightarrow>
           bind_act (convert_trigger (fst c) trigger_b, c) (\<lambda>event_b c.
           bind_act (in_build (combine_events grammar event_a combiner event_b) c) (\<lambda>trigger_stream c.
           bind_act (in_build (new_trigger_scope grammar (StreamIdent trigger_stream, TrueTrigger)) c) push_scope)))"

definition every_block_before :: "node_grammar \<Rightarrow> int \<Rightarrow> string \<Rightarrow> compiler_state \<Rightarrow> (unit, compiler_state) act" where
  "every_block_before grammar interval basis c =
     bind_act (clock grammar (fst c) interval basis (snd c)) (\<lambda>(s, trig) c.
     bind_act (in_build (new_trigger_scope grammar (StreamIdent s, trig)) c) push_scope)"

definition when_value :: "int \<Rightarrow> string" where
  "when_value v = ''when value=='' @ py_str_int v"

definition when_block_streams ::
  "node_grammar \<Rightarrow> slot_identifier \<Rightarrow> build_state \<Rightarrow> (data_stream \<times> data_stream \<times> data_stream, build_state) act" where
  "when_block_streams grammar s b =
     bind_act (new_attached grammar UnbufferedType b) (\<lambda>connect_stream b.
     bind_act (new_attached grammar UnbufferedType b) (\<lambda>disconnect_stream b.
     bind_act (new_attached grammar ConstantType b) (\<lambda>latch_stream b.
     bind_act (new_attached grammar ConstantType b) (\<lambda>latch_on_stream b.
     bind_act (new_attached grammar ConstantType b) (\<lambda>latch_off_stream b.
     bind_act (generate_node grammar (one_input user_connected ''always'' connect_stream ''copy_latest_a'') b) (\<lambda>_ b.
     bind_act (generate_node grammar (one_input user_disconnected ''always'' disconnect_stream ''copy_latest_a'') b) (\<lambda>_ b.
     bind_act (slot_address s, b) (\<lambda>address b.
     bind_act (generate_node grammar
       (two_inputs latch_on_stream ''always'' ''&&'' connect_stream (when_value address) latch_stream ''copy_latest_a'') b) (\<lambda>_ b.
     bind_act (generate_node grammar
       (two_inputs latch_off_stream ''always'' ''&&'' disconnect_stream (when_value address) latch_stream ''copy_latest_a'') b) (\<lambda>_ b.
     bind_act (on_graph (add_constant latch_on_stream 1) b) (\<lambda>_ b.
     bind_act (on_graph (add_constant latch_off_stream 0) b) (\<lambda>_ b.
     bind_act (on_graph (add_constant latch_stream 0) b) (\<lambda>_ b.
       (Inr (connect_stream, disconnect_stream, latch_stream), b))))))))))))))"

definition when_block_before :: "node_grammar \<Rightarrow> slot_identifier \<Rightarrow> compiler_state \<Rightarrow> (unit, compiler_state) act" where
  "when_block_before grammar s c =
     bind_act (in_build (when_block_streams grammar s) c) (\<lambda>(connect_stream, disconnect_stream, latch_stream) c.
     bind_act (in_build (new_gated_scope grammar
         (latch_stream, InputTrigger \<lparr>use_count = False, comp_string = ''=='', reference = 1\<rparr>)) c) (\<lambda>sc.
       push_scope (add_identifier ''disconnect'' (StreamIdent disconnect_stream)
         (add_identifier ''connect'' (StreamIdent connect_stream) sc))))"

definition latch_block_before :: "node_grammar \<Rightarrow> data_stream \<Rightarrow> trigger \<Rightarrow> compiler_state \<Rightarrow> (unit, compiler_state) act" where
  "latch_block_before grammar s trig c =
     bind_act (in_build (on_graph (add_constant s 0)) c) (\<lambda>_ c.
     bind_act (in_build (new_gated_scope grammar (s, trig)) c) push_scope)"

definition config_block_before :: "slot_identifier \<Rightarrow> compiler_state \<Rightarrow> (unit, compiler_state) act" where
  "config_block_before s c =
     bind_act (current_scope c) (\<lambda>_.
       push_scope (add_identifier ''current_slot'' (SlotIdent s) \<lparr>sc_kind = ConfigScope, sc_identifiers = []\<rparr>))"

definition execute_before :: "node_grammar \<Rightarrow> block_header \<Rightarrow> compiler_state \<Rightarrow> (unit, compiler_state) act" where
  "execute_before grammar header c =
     (case header of
        OnBlock a rest \<Rightarrow> on_block_before grammar a rest c
      | EveryBlock interval basis \<Rightarrow> every_block_before grammar interval basis c
      | WhenBlock s \<Rightarrow> when_block_before grammar s c
      | LatchBlock s trig \<Rightarrow> latch_block_before grammar s trig c
      | ConfigBlock s \<Rightarrow> config_block_before s c)"

definition copy_function :: "copy_modifier \<Rightarrow> string" where
  "copy_function m =
     (case m of CopyAll \<Rightarrow> ''copy_all_a'' | CopyAverage \<Rightarrow> ''average_a'' | CopyCount \<Rightarrow> ''copy_count_a'' | CopyLatest \<Rightarrow> ''copy_latest_a'')"

definition execute_copy ::
  "node_grammar \<Rightarrow> copy_modifier \<Rightarrow> copy_input \<Rightarrow> data_stream \<Rightarrow> scope list \<Rightarrow> build_state \<Rightarrow> (unit, build_state) act" where
  "execute_copy grammar modifier input_a out scopes b =
     bind_act (trigger_chain grammar scopes b) (\<lambda>(trigger_stream, cond) b.
       let func = copy_function modifier;
           triggered = (\<lambda>s. two_inputs s ''always'' ''&&'' trigger_stream (trigger_str cond) out func)
       in case input_a of
            ExplicitInput s \<Rightarrow>
              if stream_input s then
                bind_act (new_attached grammar UnbufferedType b) (\<lambda>u b.
                bind_act (generate_node grammar (one_input s ''always'' u ''copy_latest_a'') b) (\<lambda>_ b.
                  generate_node grammar (triggered u) b))
              else generate_node grammar (triggered s) b
          | ConstantInput v \<Rightarrow>
              bind_act (new_attached grammar ConstantType b) (\<lambda>k b.
              bind_act (generate_node grammar (triggered k) b) (\<lambda>_ b.
                on_graph (add_constant k v) b))
          | NoInput \<Rightarrow> generate_node grammar (one_input trigger_stream (trigger_str cond) out func) b)"

definition execute_subtract ::
  "node_grammar \<Rightarrow> data_stream \<Rightarrow> data_stream \<Rightarrow> int option \<Rightarrow> scope list \<Rightarrow> build_state \<Rightarrow> (unit, build_state) act" where
  "execute_subtract grammar a out d scopes b =
     (if stream_type a \<noteq> ConstantType then (Inl SensorGraphSemanticError, b)
      else bind_act (trigger_chain grammar scopes b) (\<lambda>(trigger_stream, cond) b.
           bind_act (generate_node grammar
               (two_inputs a ''always'' ''&&'' trigger_stream (trigger_str cond) out ''subtract_afromb'') b) (\<lambda>_ b.
             if map_of (g_constants (b_graph b)) a \<noteq> None
             then (if d \<noteq> None then Inl SensorGraphSemanticError else Inr (), b)
             else on_graph (add_constant a (case d of None \<Rightarrow> 0 | Some v \<Rightarrow> v)) b)))"

definition execute_trigger :: "node_grammar \<Rightarrow> int \<Rightarrow> scope list \<Rightarrow> build_state \<Rightarrow> (unit, build_state) act" where
  "execute_trigger grammar index scopes b =
     bind_act (new_attached grammar UnbufferedType b) (\<lambda>out b.
     bind_act (trigger_chain grammar scopes b) (\<lambda>(trigger_stream, cond) b.
     bind_act (new_attached grammar ConstantType b) (\<lambda>k b.
     bind_act (generate_node grammar
         (two_inputs trigger_stream (trigger_str cond) ''&&'' k ''always'' out ''trigger_streamer'') b) (\<lambda>_ b.
       on_graph (add_constant k index) b))))"

text \<open>The name of an RPC cannot be combined with the address.\<close>

definition execute_call ::
  "node_grammar \<Rightarrow> name_or_number \<Rightarrow> slot_identifier \<Rightarrow> data_stream option \<Rightarrow> scope list \<Rightarrow> build_state \<Rightarrow> (unit, build_state) act" where
  "execute_call grammar rpc s out scopes b =
     bind_act (trigger_chain grammar scopes b) (\<lambda>(trigger_stream, cond) b.
     bind_act (new_attached grammar ConstantType b) (\<lambda>k b.
     bind_act (bind_res (slot_address s) (\<lambda>address.
         case rpc of Name _ \<Rightarrow> Inl PyTypeError | Number i \<Rightarrow> Inr (push_bit 16 address OR i)), b) (\<lambda>v b.
     bind_act (case out of Some strm \<Rightarrow> (Inr strm, b) | None \<Rightarrow> new_detached grammar UnbufferedType b) (\<lambda>strm b.
     bind_act (generate_node grammar
         (two_inputs trigger_stream (trigger_str cond) ''&&'' k ''always'' strm ''call_rpc'') b) (\<lambda>_ b.
       on_graph (add_constant k v) b)))))"

definition execute_streamer ::
  "selector \<Rightarrow> slot_identifier \<Rightarrow> string \<Rightarrow> bool \<Rightarrow> string \<Rightarrow> int option \<Rightarrow> build_state \<Rightarrow> (unit, build_state) act" where
  "execute_streamer sel dest fmt auto report_type with_other b =
     bind_act (new_streamer sel dest fmt auto report_type with_other, b) (\<lambda>st b. on_graph (add_streamer st) b)"

definition execute_meta :: "string \<Rightarrow> config_value \<Rightarrow> scope list \<Rightarrow> build_state \<Rightarrow> (unit, build_state) act" where
  "execute_meta name v scopes b =
     (case scopes of
        [] \<Rightarrow> (Inl IndexError, b)
      | sc # _ \<Rightarrow>
          (case sc_kind sc of
             RootScope _ _ _ _ \<Rightarrow> on_graph (add_metadata name v) b
           | _ \<Rightarrow> (Inl SensorGraphSemanticError, b)))"

fun is_binary_value :: "config_value \<Rightarrow> bool" where
  "is_binary_value (BytesValue bs) = True"
| "is_binary_value _ = False"

definition execute_set_config ::
  "name_or_number \<Rightarrow> config_value \<Rightarrow> string option \<Rightarrow> scope list \<Rightarrow> build_state \<Rightarrow> (unit, build_state) act" where
  "execute_set_config var v explicit_type scopes b =
     (if scopes = [] then (Inl IndexError, b)
      else case resolve_identifier scopes ''current_slot'' (Some is_slot) of
        Inl err \<Rightarrow> (Inl (if err = UnresolvedIdentifierError then SensorGraphSemanticError else err), b)
      | Inr obj \<Rightarrow>
          (case (explicit_type, var, obj) of
             (Some t, Number config_id, SlotIdent s) \<Rightarrow>
               if is_binary_value v \<and> t \<noteq> ''binary'' then (Inl SensorGraphSemanticError, b)
               else if \<not> is_binary_value v \<and> t = ''binary'' then (Inl SensorGraphSemanticError, b)
               else (Inr (), b\<lparr>b_graph := add_config s config_id t v (b_graph b)\<rparr>)
           | _ \<Rightarrow> (Inl SensorGraphSemanticError, b)))"

definition execute_simple :: "node_grammar \<Rightarrow> simple_statement \<Rightarrow> compiler_state \<Rightarrow> (unit, compiler_state) act" where
  "execute_simple grammar stmt c =
     in_build (case stmt of
        CopyStatement modifier input_a out \<Rightarrow> execute_copy grammar modifier input_a out (fst c)
      | SubtractStatement a out d \<Rightarrow> execute_subtract grammar a out d (fst c)
      | TriggerStatement index \<Rightarrow> execute_trigger grammar index (fst c)
      | CallStatement rpc s out \<Rightarrow> execute_call grammar rpc s out (fst c)
      | StreamerStatement sel dest fmt auto report_type with_other \<Rightarrow> execute_streamer sel dest fmt auto report_type with_other
      | MetaStatement name v \<Rightarrow> execute_meta name v (fst c)
      | SetConfigStatement var v t \<Rightarrow> execute_set_config var v t (fst c)) c"

fun execute :: "node_grammar \<Rightarrow> statement \<Rightarrow> compiler_state \<Rightarrow> (unit, compiler_state) act"
  and execute_all :: "node_grammar \<Rightarrow> statement list \<Rightarrow> compiler_state \<Rightarrow> (unit, compiler_state) act" where
  "execute grammar (Simple stmt) c = execute_simple grammar stmt c"
| "execute grammar (Block header children) c =
     bind_act (execute_before grammar header c) (\<lambda>_ c.
     bind_act (execute_all grammar children c) (\<lambda>_. pop_scope))"
| "execute_all grammar [] c = (Inr (), c)"
| "execute_all grammar (s # ss) c = bind_act (execute grammar s c) (\<lambda>_. execute_all grammar ss)"

section \<open>The compiler\<close>

definition new_build_state :: "device_model \<Rightarrow> build_state res" where
  "new_build_state model =
     bind_res (new_engine model) (\<lambda>eng.
     bind_res (new_sensor_log (Some eng) (Some model)) (\<lambda>log.
     bind_res (new_sensor_graph log (Some model) False) (\<lambda>g.
       Inr \<lparr>b_graph = g, b_model = model, b_allocated = [], b_next_ids = []\<rparr>)))"

definition generate_code :: "node_grammar \<Rightarrow> device_model \<Rightarrow> statement list \<Rightarrow> (unit, compiler_state) act res" where
  "generate_code grammar model statements =
     bind_res (new_build_state model) (\<lambda>b.
       Inr (bind_act (map_state (\<lambda>b. ([], b)) (new_root_scope grammar b)) (\<lambda>root c.
            bind_act (push_scope root c) (\<lambda>_. execute_all grammar statements))))"

text \<open>The whole compilation; \<open>None\<close> when the walk over the graph does not end.\<close>

definition compile ::
  "node_grammar \<Rightarrow> ((nat \<times> nat set) list \<Rightarrow> nat list res) \<Rightarrow> device_model \<Rightarrow> statement list \<Rightarrow> sensor_graph res option" where
  "compile grammar toposort model statements =
     (case generate_code grammar model statements of
        Inl err \<Rightarrow> Some (Inl err)
      | Inr (Inl err, _) \<Rightarrow> Some (Inl err)
      | Inr (Inr _, scopes, b) \<Rightarrow>
          (case initialize_remaining_constants 0 (b_graph b) of
             None \<Rightarrow> None
           | Some (Inl err, _) \<Rightarrow> Some (Inl err)
           | Some (Inr _, g, _) \<Rightarrow>
               (case sort_nodes toposort g of
                  None \<Rightarrow> None
                | Some (Inl err, _) \<Rightarrow> Some (Inl err)
                | Some (Inr _, g1) \<Rightarrow> Some (Inr g1))))"

section \<open>The tree as text\<close>

definition name_or_number_str :: "name_or_number \<Rightarrow> string" where
  "name_or_number_str x = (case x of Name n \<Rightarrow> n | Number i \<Rightarrow> py_str_int i)"

definition trigger_def_str :: "trigger_definition \<Rightarrow> string res" where
  "trigger_def_str def =
     (case def of
        NamedEvent name \<Rightarrow> Inr name
      | ExplicitTrigger s trig \<Rightarrow> bind_res (stream_str s) (format_trigger trig))"

definition header_str :: "block_header \<Rightarrow> string res" where
  "header_str header =
     (case header of
        OnBlock a None \<Rightarrow> bind_res (trigger_def_str a) (\<lambda>x. Inr (''on '' @ x))
      | OnBlock a (Some (combiner, e)) \<Rightarrow>
          bind_res (trigger_def_str a) (\<lambda>x. bind_res (trigger_def_str e) (\<lambda>y. Inr (''on '' @ x @ '' '' @ combiner @ '' '' @ y)))
      | EveryBlock interval basis \<Rightarrow>
          Inr (if basis = ''system'' then ''every '' @ py_str_int interval else ''every '' @ py_str_int interval @ '' '' @ basis)
      | WhenBlock s \<Rightarrow> Inr (''when connected to '' @ slot_str s)
      | LatchBlock s trig \<Rightarrow> bind_res (stream_str s) (\<lambda>x. bind_res (format_trigger trig x) (\<lambda>t. Inr (''when '' @ t)))
      | ConfigBlock s \<Rightarrow> Inr (''config '' @ slot_str s))"

section \<open>What every step of the compiler keeps\<close>

text \<open>The graph stays well formed, whatever the step returns or raises.\<close>

definition built :: "build_state \<Rightarrow> build_state \<Rightarrow> bool" where
  "built b b' \<longleftrightarrow> (graph_ok (b_graph b) \<longrightarrow> graph_ok (b_graph b')) \<and> b_model b' = b_model b"

interpretation built: step_relation built
  by unfold_locales (auto simp: built_def)

definition compiled :: "compiler_state \<Rightarrow> compiler_state \<Rightarrow> bool" where
  "compiled c c' \<longleftrightarrow> built (snd c) (snd c')"

interpretation compiled: step_relation compiled
  by unfold_locales (auto simp: compiled_def intro: built.rel_refl built.rel_trans)

lemma built_graph: "(\<And>g. graph_ok g \<Longrightarrow> graph_ok (snd (f g))) \<Longrightarrow> built b (snd (on_graph f b))"
  by (simp add: built_def on_graph_def map_state_def)

lemma built_tables [simp]:
  "built b (b\<lparr>b_allocated := x\<rparr>)" "built b (b\<lparr>b_next_ids := y\<rparr>)" "built b (b\<lparr>b_next_ids := y, b_allocated := x\<rparr>)"
  "built b (b\<lparr>b_graph := add_config dest i t v (b_graph b)\<rparr>)" "built b b"
  by (simp_all add: built_def add_items_ok)

lemma built_generate: "built b (snd (generate_node grammar desc b))"
  by (cases desc) (auto simp: generate_node_def intro: built_graph add_node_ok)

lemma built_constant: "built b (snd (on_graph (add_constant s v) b))"
  by (intro built_graph add_items_ok)

lemma built_allocate_only: "built b (snd (allocate_only t i prev b))"
  by (simp add: allocate_only_def Let_def split: option.splits)

lemma built_duplicate: "built b (snd (duplicate_constant cur new b))"
  by (simp add: duplicate_constant_def built_constant split: option.split)

lemma built_split: "built b (snd (duplicate_constant cur new (b\<lparr>b_allocated := x\<rparr>)))"
  by (rule built.rel_trans [OF built_tables(1) built_duplicate])

lemmas built_steps = built_split built.bind_act built_generate built_constant built_allocate_only

lemma built_attach: "built b (snd (attach_stream grammar s b))"
  unfolding attach_stream_def
  by (cases "map_of (b_allocated b) s")
    (auto simp: Let_def intro!: built_steps split: option.splits)

lemma built_allocate: "built b (snd (allocate_stream grammar t i prev attach b))"
  by (auto simp: allocate_stream_def intro!: built_steps built_attach)

lemmas built_streams = built_steps built_attach built_allocate

lemma built_trigger_chain: "built b (snd (trigger_chain grammar scopes b))"
  by (auto simp: trigger_chain_def intro!: built_streams split: list.split scope_kind.split)

lemma built_root_clock: "built b (snd (root_clock grammar s f u1 u2 interval basis b))"
  unfolding root_clock_def by (simp split: if_split) (intro conjI impI built.bind_act built_attach; simp)

lemma built_gate_clock: "built b (snd (gate_clock grammar ls lt interval pc b))"
  proof (cases pc)
  case (Pair ps t)
  then show ?thesis unfolding gate_clock_def
    by (cases t) (auto intro!: built_streams simp del: bind_act_simps)
qed

lemma built_gated_result: "built b (snd (gated_result grammar interval data b))"
  by (auto simp: gated_result_def intro!: built_streams split: prod.split)

lemma built_clock: "built b (snd (snd (clock grammar scopes interval basis b)))"
proof (induction grammar scopes interval basis b rule: clock.induct)
  case (2 grammar sc parents interval basis b)
  show ?case
  proof (cases "sc_kind sc")
    case (GatedClockScope ls lt cache)
    show ?thesis
    proof (cases "classify_clock interval basis")
      case (Inr name)
      show ?thesis
      proof (cases "map_of cache name")
        case None
        obtain r ps b1 where c: "clock grammar parents interval basis b = (r, ps, b1)" by (metis prod_cases3)
        have IH: "built b b1" using "2.IH" [OF GatedClockScope Inr None] c by simp
        show ?thesis
        proof (cases r)
          case (Inr pc)
          obtain q b2 where g: "gate_clock grammar ls lt interval pc b1 = (q, b2)" by (cases "gate_clock grammar ls lt interval pc b1") auto
          have "built b b2" using IH built_gate_clock [of b1 grammar ls lt interval pc] g by (simp add: built.rel_trans)
          then show ?thesis
            using GatedClockScope None c Inr g \<open>classify_clock interval basis = Inr name\<close> built.rel_trans [OF _ built_gated_result]
            by (auto simp: Let_def map_state_def split: sum.splits)
        qed (use GatedClockScope None c IH \<open>classify_clock interval basis = Inr name\<close> in simp)
      qed (use GatedClockScope Inr built_gated_result in \<open>simp add: map_state_def\<close>)
    qed (use GatedClockScope in simp)
  qed (simp_all add: map_state_def built_root_clock)
qed simp

lemma in_build_compiled: "(\<And>b. built b (snd (f b))) \<Longrightarrow> compiled c (snd (in_build f c))"
  by (simp add: compiled_def in_build_def map_state_def)

lemma scopes_compiled [simp]:
  "compiled c (snd (push_scope sc c))" "compiled c (snd (pop_scope c))" "compiled c (snd (current_scope c))" "compiled c c"
  by (simp_all add: compiled_def push_scope_def pop_scope_def current_scope_def split: list.splits)

lemma clock_compiled: "compiled c (snd (clock grammar (fst c) interval basis (snd c)))"
  by (simp add: compiled_def built_clock)

lemma built_root: "built b (snd (new_root_scope grammar b))"
  unfolding new_root_scope_def Let_def
  by (intro built_streams) (auto intro!: built_streams intro: built.rel_trans [OF built_tables(4)])

lemma built_trigger_scope: "built b (snd (new_trigger_scope grammar t b))"
  by (auto simp: new_trigger_scope_def Let_def intro!: built_streams split: prod.split ident_object.split)

lemma built_gated_scope: "built b (snd (new_gated_scope grammar t b))"
  by (auto simp: new_gated_scope_def intro!: built_streams)

lemma built_combine: "built b (snd (combine_events grammar ea cmb eb b))"
  by (auto simp: combine_events_def Let_def intro!: built_streams split: prod.split ident_object.split)

lemma built_when_streams: "built b (snd (when_block_streams grammar s b))"
  unfolding when_block_streams_def by (intro built_streams) (auto intro!: built_streams)

lemmas compiled_steps = compiled.bind_act in_build_compiled clock_compiled built_streams built_trigger_scope built_combine
  built_gated_scope built_when_streams

lemma compiled_before: "compiled c (snd (execute_before grammar header c))"
  by (cases header)
    (auto simp: execute_before_def on_block_before_def every_block_before_def when_block_before_def latch_block_before_def
       config_block_before_def intro!: compiled_steps split: option.split prod.split)

lemma built_call: "built b (snd (execute_call grammar rpc s out scopes b))"
  unfolding execute_call_def by (intro built_streams built_trigger_chain) (auto intro!: built_streams split: option.split prod.split)

lemma built_simple:
  "built b (snd (execute_copy grammar m i out scopes b))" "built b (snd (execute_subtract grammar a out d scopes b))"
  "built b (snd (execute_trigger grammar index scopes b))"
  "built b (snd (execute_streamer sel dest fmt auto rt wo b))" "built b (snd (execute_meta name v scopes b))"
  "built b (snd (execute_set_config var v t scopes b))"
  by (auto simp: execute_copy_def execute_subtract_def execute_trigger_def execute_streamer_def execute_meta_def execute_set_config_def Let_def
      intro!: built_streams built_trigger_chain built_graph add_streamer_ok add_items_ok
      split: copy_input.split prod.split list.split scope_kind.split sum.split option.split name_or_number.split ident_object.split)

lemma compiled_execute:
  "compiled c (snd (execute grammar s c))" "compiled c (snd (execute_all grammar ss c))"
proof (induction grammar s c and grammar ss c rule: execute_execute_all.induct)
  case (1 grammar stmt c)
  then show ?case
    by (cases stmt) (auto simp: execute_simple_def intro!: in_build_compiled built_simple built_call)
next
  case (2 grammar header children c)
  then show ?case by (auto intro!: compiled.bind_act compiled_before)
next
  case (4 grammar s ss c)
  then show ?case by (auto intro!: compiled.bind_act)
qed simp

section \<open>Blocks leave the scopes as they found them\<close>

text \<open>A scope without the clocks it has cached.\<close>

definition scope_shape :: "scope \<Rightarrow> scope" where
  "scope_shape sc = (case sc_kind sc of
     GatedClockScope ls lt cache \<Rightarrow> sc\<lparr>sc_kind := GatedClockScope ls lt []\<rparr>
   | _ \<Rightarrow> sc)"

lemma scope_shape_cache: "sc_kind sc = GatedClockScope ls lt c1 \<Longrightarrow> scope_shape (sc\<lparr>sc_kind := GatedClockScope ls lt c2\<rparr>) = scope_shape sc"
  by (simp add: scope_shape_def)

lemma clock_shape: "map scope_shape (fst (snd (clock grammar scopes interval basis b))) = map scope_shape scopes"
proof (induction grammar scopes interval basis b rule: clock.induct)
  case (2 grammar sc parents interval basis b)
  show ?case
  proof (cases "sc_kind sc")
    case (GatedClockScope ls lt cache)
    show ?thesis
    proof (cases "classify_clock interval basis")
      case (Inr name)
      show ?thesis
      proof (cases "map_of cache name")
        case None
        obtain r ps b1 where c: "clock grammar parents interval basis b = (r, ps, b1)" by (metis prod_cases3)
        have IH: "map scope_shape ps = map scope_shape parents" using "2.IH" [OF GatedClockScope Inr None] c by simp
        show ?thesis
          using GatedClockScope None c IH Inr scope_shape_cache [OF GatedClockScope]
          by (auto simp: Let_def map_state_def simp del: map_eq_conv split: sum.split prod.split)
      qed (use GatedClockScope Inr in \<open>simp add: map_state_def\<close>)
    qed (use GatedClockScope in simp)
  qed (simp_all add: map_state_def)
qed simp

lemma in_build_scopes: "in_build f c = (r, c') \<Longrightarrow> fst c' = fst c"
  by (auto simp: in_build_def map_state_def)

lemma bind_act_Inr:
  "bind_act x f = (Inr b, s') \<longleftrightarrow> (\<exists>a s. x = (Inr a, s) \<and> f a s = (Inr b, s'))"
  by (cases x; cases "fst x") auto

text \<open>A block adds one scope, and its statements and what comes after it take that scope away again.\<close>

lemma execute_before_pushes:
  assumes "execute_before grammar header c = (Inr (), c')"
  shows "\<exists>sc. map scope_shape (fst c') = sc # map scope_shape (fst c)"
proof (cases header)
  case (OnBlock a rest)
  with assms show ?thesis
    by (auto simp: execute_before_def on_block_before_def bind_act_Inr push_scope_def split: option.splits dest!: in_build_scopes)
next
  case (EveryBlock interval basis)
  with assms clock_shape [of grammar "fst c" interval basis "snd c"] show ?thesis
    by (auto simp: execute_before_def every_block_before_def bind_act_Inr push_scope_def simp del: map_eq_conv dest!: in_build_scopes)
next
  case (WhenBlock s)
  with assms show ?thesis
    by (auto simp: execute_before_def when_block_before_def bind_act_Inr push_scope_def dest!: in_build_scopes)
next
  case (LatchBlock s t)
  with assms show ?thesis
    by (auto simp: execute_before_def latch_block_before_def bind_act_Inr push_scope_def dest!: in_build_scopes)
next
  case (ConfigBlock s)
  with assms show ?thesis
    by (auto simp: execute_before_def config_block_before_def current_scope_def bind_act_Inr push_scope_def split: list.splits)
qed

lemma execute_scopes:
  "execute grammar s c = (Inr (), c') \<Longrightarrow> map scope_shape (fst c') = map scope_shape (fst c)"
  "execute_all grammar ss c = (Inr (), c') \<Longrightarrow> map scope_shape (fst c') = map scope_shape (fst c)"
proof (induction grammar s c and grammar ss c arbitrary: c' and c' rule: execute_execute_all.induct)
  case (1 grammar stmt c)
  then show ?case by (auto simp: execute_simple_def dest!: in_build_scopes)
next
  case (2 grammar header children c)
  from "2.prems" obtain c1 c2 where steps: "execute_before grammar header c = (Inr (), c1)" "execute_all grammar children c1 = (Inr (), c2)"
    "pop_scope c2 = (Inr (), c')"
    by (auto simp: bind_act_Inr)
  have "map scope_shape (fst c2) = map scope_shape (fst c1)" using "2.IH" steps by blast
  moreover obtain sc where "map scope_shape (fst c1) = sc # map scope_shape (fst c)" using execute_before_pushes [OF steps(1)] by (elim exE) (rule that)
  ultimately show ?case using steps(3) by (auto simp: pop_scope_def simp del: map_eq_conv split: list.splits)
next
  case (4 grammar s ss c)
  from "4.prems" obtain c1 where steps: "execute grammar s c = (Inr (), c1)" "execute_all grammar ss c1 = (Inr (), c')"
    by (auto simp: bind_act_Inr)
  show ?case using "4.IH" (1) [OF steps(1)] "4.IH" (2) [OF steps(2)] by (rule trans [rotated])
qed simp

text \<open>
  A statement that succeeds leaves the stack of scopes as it was, except for the clocks that gated scopes have cached:
  every block opens one scope and closes it.
\<close>

theorem statements_keep_scopes:
  assumes "execute_all grammar statements c = (Inr (), c')"
  shows "map scope_shape (fst c') = map scope_shape (fst c)"
  using assms by (rule execute_scopes)

section \<open>Gated clocks tick as often as those of the root\<close>

text \<open>How many units of the interval one tick of a class of clocks stands for.\<close>

definition tick_units :: "string \<Rightarrow> int" where
  "tick_units name = (if name = ''standard'' then 10 else 1)"

definition caches_ok :: "scope list \<Rightarrow> bool" where
  "caches_ok scopes \<longleftrightarrow>
     (\<forall>sc\<in>set scopes. case sc_kind sc of
        GatedClockScope ls lt cache \<Rightarrow> \<forall>(name, s, ratio)\<in>set cache. ratio = tick_units name
      | _ \<Rightarrow> True)"

lemma caches_ok_Cons [simp]:
  "caches_ok (sc # scopes) \<longleftrightarrow> (case sc_kind sc of
      GatedClockScope ls lt cache \<Rightarrow> \<forall>(name, s, ratio)\<in>set cache. ratio = tick_units name
    | _ \<Rightarrow> True) \<and> caches_ok scopes"
  by (simp add: caches_ok_def)

lemma units_ratio: "n \<noteq> 0 \<Longrightarrow> tick_units name dvd n \<Longrightarrow> n div (n div tick_units name) = tick_units name"
  by (auto simp: tick_units_def)

lemma update_subset: "set (AList.update k v xs) \<subseteq> insert (k, v) (set xs)"
  by (induction xs) auto

lemma class_units: "classify_clock interval basis = Inr name \<Longrightarrow> tick_units name dvd interval"
  by (auto simp: classify_clock_def tick_units_def dvd_eq_mod_eq_0 split: if_splits)

lemma attach_trigger:
  "bind_act (attach_stream grammar s b) (\<lambda>x b. (Inr (x, t), b)) = (Inr (x', t'), b') \<Longrightarrow> t' = t"
  by (auto simp: bind_act_Inr)

lemma root_clock_units:
  assumes "root_clock grammar s f u1 u2 interval basis b = (Inr (x, t), b')"
  shows "\<exists>name. classify_clock interval basis = Inr name \<and> t = count_trigger ''>='' (interval div tick_units name)"
  using assms by (auto simp: root_clock_def classify_clock_def tick_units_def dest!: attach_trigger split: if_splits)

lemma gated_result_units:
  assumes "gated_result grammar interval (s, tick_units name) b = (Inr (x, t), b')"
  shows "t = count_trigger ''>='' (interval div tick_units name)"
  using assms by (auto simp: gated_result_def dest!: attach_trigger split: if_splits)

lemma clock_units:
  assumes "clock grammar scopes interval basis b = (Inr (x, t), scopes', b')" and "caches_ok scopes"
  shows "caches_ok scopes' \<and> (\<exists>name. classify_clock interval basis = Inr name \<and> t = count_trigger ''>='' (interval div tick_units name))"
  using assms
proof (induction grammar scopes interval basis b arbitrary: x t scopes' b' rule: clock.induct)
  case (2 grammar sc parents interval basis b)
  show ?case
  proof (cases "sc_kind sc")
    case (RootScope s f u1 u2)
    with 2(2,3) root_clock_units [of grammar s f u1 u2 interval basis b x t b'] show ?thesis
      by (cases "root_clock grammar s f u1 u2 interval basis b") auto
  next
    case (GatedClockScope ls lt cache)
    note gated = GatedClockScope
    obtain name where name: "classify_clock interval basis = Inr name" using 2(2) gated by (auto split: sum.splits)
    note units = class_units [OF name]
    have old: "\<forall>(n, s, ratio)\<in>set cache. ratio = tick_units n" and below: "caches_ok parents" using 2(3) gated by simp_all
    show ?thesis
    proof (cases "map_of cache name")
      case (Some data)
      have "data = (fst data, tick_units name)" using old map_of_SomeD [OF Some] by (cases data) auto
      then show ?thesis using 2(2,3) gated name Some gated_result_units [of grammar interval "fst data" name b x t b'] by (cases "gated_result grammar interval data b") auto
    next
      case None
      obtain r ps b1 where c: "clock grammar parents interval basis b = (r, ps, b1)" by (metis prod_cases3)
      obtain pc where pc: "r = Inr pc" using 2(2) gated name None c by (cases r) auto
      have IH: "caches_ok ps" "snd pc = count_trigger ''>='' (interval div tick_units name)"
        using "2.IH" [OF gated name None, of "fst pc" "snd pc" ps b1] c pc below name by auto
      obtain data b2 where g: "gate_clock grammar ls lt interval pc b1 = (Inr data, b2)"
        using 2(2) gated name None c pc by (auto split: prod.splits sum.splits)
      have "snd data = tick_units name"
        using g IH(2) units units_ratio [of interval name]
        by (cases "interval = 0") (auto simp: gate_clock_def count_trigger_def bind_act_Inr split: prod.splits if_splits)
      then obtain s where data: "data = (s, tick_units name)" by (cases data) auto
      have res: "map_state (\<lambda>b. (sc\<lparr>sc_kind := GatedClockScope ls lt (AList.update name data cache)\<rparr> # ps, b)) (gated_result grammar interval data b2)
          = (Inr (x, t), scopes', b')"
        using 2(2) gated name None c pc g by (simp add: Let_def)
      have "\<forall>(n, s, ratio)\<in>set (AList.update name data cache). ratio = tick_units n"
        using old data None by (auto dest!: subsetD [OF update_subset])
      then show ?thesis
        using res IH(1) name data gated_result_units [of grammar interval s name b2 x t b'] by (cases "gated_result grammar interval data b2") auto
    qed
  qed (use 2(2) in auto)
qed simp


text \<open>
  A clock has the same trigger in any nesting of gated scopes as at the root: its count times the seconds of the tick it
  is derived from (10 for intervals that 10 divides, else 1) is the interval, also when a clock of the class was cached before.
\<close>

theorem gated_clock_counts:
  assumes "clock grammar scopes interval ''system'' b = (Inr (x, t), scopes', b')" and "caches_ok scopes"
  shows "\<exists>n. t = count_trigger ''>='' n \<and> n * (if interval mod 10 = 0 then 10 else 1) = interval \<and> caches_ok scopes'"
  using clock_units [OF assms] by (auto simp: classify_clock_def tick_units_def)

section \<open>No stream gets more nodes than it has outputs\<close>

fun attach_times :: "node_grammar \<Rightarrow> data_stream \<Rightarrow> nat \<Rightarrow> build_state \<Rightarrow> (data_stream list, build_state) act" where
  "attach_times grammar s 0 b = (Inr [], b)"
| "attach_times grammar s (Suc n) b =
     bind_act (attach_stream grammar s b) (\<lambda>x b. bind_act (attach_times grammar s n b) (\<lambda>xs b. (Inr (x # xs), b)))"

definition next_id :: "build_state \<Rightarrow> int \<Rightarrow> int" where
  "next_id b t = (case map_of (b_next_ids b) t of None \<Rightarrow> StartingID | Some n \<Rightarrow> n)"

lemma allocate_only_Inr:
  assumes "allocate_only t None prev b = (Inr x, b')"
  shows "x = new_stream t (next_id b t) False" and "next_id b' t = next_id b t + 1" and "b_model b' = b_model b"
  using assms by (auto simp: allocate_only_def next_id_def update_conv Let_def split: option.splits if_splits)

lemma generate_node_tables:
  "generate_node grammar desc b = (r, b') \<Longrightarrow> b_allocated b' = b_allocated b \<and> b_next_ids b' = b_next_ids b \<and> b_model b' = b_model b"
  by (auto simp: generate_node_def on_graph_def map_state_def split: sum.splits)

lemma on_graph_tables:
  "on_graph f b = (r, b') \<Longrightarrow> b_allocated b' = b_allocated b \<and> b_next_ids b' = b_next_ids b \<and> b_model b' = b_model b"
  by (auto simp: on_graph_def map_state_def)

lemma attach_stream_Inr:
  assumes "attach_stream grammar s b = (Inr x, b')" and "map_of (b_allocated b) s = Some (cur, n, prev)"
    and "dm_get (b_model b) ''max_node_outputs'' = Inr m"
  shows "b_model b' = b_model b \<and>
    (if n = m - 1 then x = new_stream (stream_type cur) (next_id b (stream_type cur)) False \<and>
       map_of (b_allocated b') s = Some (x, 1, Some cur) \<and> next_id b' (stream_type cur) = next_id b (stream_type cur) + 1
     else x = cur \<and> map_of (b_allocated b') s = Some (cur, n + 1, prev) \<and> b_next_ids b' = b_next_ids b)"
proof (cases "n = m - 1")
  case True
  let ?t = "stream_type cur"
  let ?split = "\<lambda>b. b\<lparr>b_allocated := AList.update s (x, 1, Some cur) (b_allocated b)\<rparr>"
  obtain b1 b2 where alloc: "allocate_only ?t None (Some cur) b = (Inr x, b1)"
    and gen: "generate_node grammar (one_input cur ''always'' x ''copy_all_a'') b1 = (Inr (), b2)"
    and rest: "duplicate_constant cur x (?split b2) = (Inr (), b')"
    using assms True by (auto simp: attach_stream_def bind_act_Inr)
  have "b_allocated b' = AList.update s (x, 1, Some cur) (b_allocated b2) \<and> b_next_ids b' = b_next_ids b2 \<and> b_model b' = b_model b2"
    using rest by (auto simp: duplicate_constant_def split: if_splits option.splits dest!: on_graph_tables)
  then show ?thesis
    using True allocate_only_Inr [OF alloc] generate_node_tables [OF gen] by (simp add: update_conv next_id_def)
next
  case False
  then show ?thesis using assms by (auto simp: attach_stream_def bind_act_Inr update_conv)
qed

lemma attach_times_count:
  assumes "attach_times grammar s k b = (Inr xs, b')" and "map_of (b_allocated b) s = Some (cur, n, prev)"
    and "dm_get (b_model b) ''max_node_outputs'' = Inr m" and "2 \<le> m" and "0 \<le> n" and "n \<le> m - 1"
    and "stream_id cur < next_id b (stream_type cur)"
  shows "int (count_list xs t) \<le>
    (if t = cur then m - 1 - n
     else if stream_type t = stream_type cur \<and> stream_id t \<ge> next_id b (stream_type cur) then m - 1 else 0)"
  using assms
proof (induction k arbitrary: b cur n prev xs)
  case (Suc k)
  obtain x b1 ys where steps: "attach_stream grammar s b = (Inr x, b1)" "attach_times grammar s k b1 = (Inr ys, b')" "xs = x # ys"
    using Suc.prems(1) by (auto simp: bind_act_Inr)
  note one = attach_stream_Inr [OF steps(1) Suc.prems(2,3)]
  show ?case
  proof (cases "n = m - 1")
    case True
    let ?t = "stream_type cur"
    have x: "x = new_stream ?t (next_id b ?t) False" and at: "map_of (b_allocated b1) s = Some (x, 1, Some cur)"
      and nx: "next_id b1 ?t = next_id b ?t + 1" and mdl: "b_model b1 = b_model b" using one True by simp_all
    have type: "stream_type x = ?t" "stream_id x = next_id b ?t" by (simp_all add: x new_stream_def)
    have "int (count_list ys t) \<le> (if t = x then m - 1 - 1 else if stream_type t = stream_type x \<and> stream_id t \<ge> next_id b1 (stream_type x) then m - 1 else 0)"
      using Suc.IH [OF steps(2) at] Suc.prems(3,4) mdl nx type by simp
    then show ?thesis using steps(3) True Suc.prems(4,7) type nx by (auto split: if_splits)
  next
    case False
    have at: "map_of (b_allocated b1) s = Some (cur, n + 1, prev)" and x: "x = cur" and nx: "b_next_ids b1 = b_next_ids b"
      and mdl: "b_model b1 = b_model b" using one False by simp_all
    have nid: "next_id b1 (stream_type cur) = next_id b (stream_type cur)" using nx by (simp add: next_id_def)
    have "int (count_list ys t) \<le> (if t = cur then m - 1 - (n + 1) else if stream_type t = stream_type cur \<and> stream_id t \<ge> next_id b (stream_type cur) then m - 1 else 0)"
      using Suc.IH [OF steps(2) at] Suc.prems(3-) mdl False nid by fastforce
    then show ?thesis using steps(3) x by (auto split: if_splits)
  qed
qed simp

text \<open>
  C29: However often nodes are attached to a stream, no stream is handed out more than \<open>max_node_outputs - 1\<close> times: with the
  copy that continues it, every stream has at most \<open>max_node_outputs\<close> nodes.
\<close>

theorem attachments_fit_outputs:
  assumes "allocate_stream grammar strm_type None None False b = (Inr s, b1)" and "map_of (b_allocated b) s = None"
    and "dm_get (b_model b) ''max_node_outputs'' = Inr m" and "2 \<le> m"
    and "attach_times grammar s k b1 = (Inr xs, b2)"
  shows "int (count_list xs t) \<le> m - 1"
proof -
  have alloc: "allocate_only strm_type None None b = (Inr s, b1)" using assms(1) by (simp add: allocate_stream_def bind_act_Inr)
  have "map_of (b_allocated b1) s = Some (s, 0, None)"
    using alloc assms(2) by (auto simp: allocate_only_def Let_def update_conv split: option.splits if_splits)
  moreover have "stream_type s = strm_type" "stream_id s < next_id b1 strm_type" "b_model b1 = b_model b"
    using allocate_only_Inr [OF alloc] by (simp_all add: new_stream_def)
  ultimately show ?thesis
    using attach_times_count [OF assms(5), of s 0 None m t] assms(3,4) by (auto split: if_splits)
qed

section \<open>The compiled graph\<close>

lemma new_build_ok: "new_build_state model = Inr b \<Longrightarrow> graph_ok (b_graph b)"
  by (auto simp: new_build_state_def new_sensor_graph_def graph_ok_def refs_ok_def streamers_ok_def within_def bind_res_Inr_iff)

text \<open>
  C27: Whatever the file says, the graph that the compiler returns is well formed: references between nodes are in range, every
  node has a processing function and is listed once, streamers are linked and numbered, and no constant, metadata name or
  slot occurs twice.  The topological sort of the third-party package is only assumed to list no number twice.
\<close>

theorem compiled_graph_ok:
  assumes "compile grammar toposort model statements = Some (Inr g)" and "\<forall>deps order. toposort deps = Inr order \<longrightarrow> distinct order"
  shows "graph_ok g"
proof -
  obtain b0 scopes b g1 rest where gen: "new_build_state model = Inr b0"
    "bind_act (map_state (\<lambda>b. ([], b)) (new_root_scope grammar b0)) (\<lambda>root c.
       bind_act (push_scope root c) (\<lambda>_. execute_all grammar statements)) = (Inr (), scopes, b)"
    "initialize_remaining_constants 0 (b_graph b) = Some (Inr (), g1, rest)" "sort_nodes toposort g1 = Some (Inr (), g)"
    using assms(1) by (auto simp: compile_def generate_code_def bind_res_Inr_iff bind_res_def split: sum.splits option.splits prod.splits)
  obtain r b1 where new: "new_root_scope grammar b0 = (r, b1)" by fastforce
  then obtain root where r: "r = Inr root" using gen(2) by (cases r) auto
  note root = new [unfolded r]
  have run: "execute_all grammar statements ([root], b1) = (Inr (), scopes, b)" using gen(2) root by (simp add: push_scope_def)
  have "graph_ok (b_graph b1)" using built_root [of b0 grammar] root new_build_ok [OF gen(1)] by (simp add: built_def)
  then have "graph_ok (b_graph b)" using compiled_execute(2) [of "([root], b1)" grammar statements] run by (simp add: compiled_def built_def)
  then have "graph_ok g1"
    using initialize_ok [OF gen(3)] by blast
  then show ?thesis using sort_nodes_ok [OF gen(4)] assms(2) by blast
qed


section \<open>Witnesses\<close>

text \<open>A grammar that reads every text as the same node, and a topological order that is the order of discovery.\<close>

definition constant_grammar :: node_grammar where
  "constant_grammar text = Some \<lparr>nt_node = [''unbuffered'', ''1''], nt_input_a = Some \<lparr>it_stream = [''input'', ''1''], it_trigger = None\<rparr>,
     nt_input_b = None, nt_combiner = None, nt_processor = ''copy_all_a''\<rparr>"

definition listed_order :: "(nat \<times> nat set) list \<Rightarrow> nat list res" where
  "listed_order deps = Inr (remdups (map fst deps))"

definition empty_build :: build_state where
  "empty_build = (case new_build_state new_device_model of Inr b \<Rightarrow> b)"

definition configured :: "build_state \<Rightarrow> build_state" where
  "configured b = b\<lparr>b_graph := add_config \<lparr>controller = True, slot = None\<rparr> config_fast_tick_secs ''uint32_t'' (IntValue 1) (b_graph b)\<rparr>"

text \<open>The steps of the root scope on an empty graph.\<close>

definition root_build_1 :: build_state where
  "root_build_1 = snd (new_attached constant_grammar CounterType empty_build)"

definition root_build_2 :: build_state where
  "root_build_2 = snd (new_attached constant_grammar CounterType root_build_1)"

definition root_build_3 :: build_state where
  "root_build_3 = snd (new_attached constant_grammar CounterType root_build_2)"

definition root_build_4 :: build_state where
  "root_build_4 = snd (new_attached constant_grammar CounterType root_build_3)"

definition root_build_5 :: build_state where
  "root_build_5 = snd (generate_node constant_grammar (one_input known_system_tick ''always'' (new_stream CounterType 1024 False) ''copy_all_a'') root_build_4)"

definition root_build_6 :: build_state where
  "root_build_6 = snd (generate_node constant_grammar (one_input known_fast_tick ''always'' (new_stream CounterType 1025 False) ''copy_all_a'') root_build_5)"

definition root_build_7 :: build_state where
  "root_build_7 = snd (generate_node constant_grammar (one_input known_tick_1 ''always'' (new_stream CounterType 1026 False) ''copy_all_a'') (configured root_build_6))"

definition root_build_8 :: build_state where
  "root_build_8 = snd (generate_node constant_grammar (one_input known_tick_2 ''always'' (new_stream CounterType 1027 False) ''copy_all_a'') root_build_7)"

lemma root_build_1: "new_attached constant_grammar CounterType empty_build = (Inr (new_stream CounterType 1024 False), root_build_1)"
proof -
  have "fst (new_attached constant_grammar CounterType empty_build) = Inr (new_stream CounterType 1024 False)" by code_simp
  then show ?thesis unfolding root_build_1_def by (metis prod.collapse)
qed

lemma root_build_2: "new_attached constant_grammar CounterType root_build_1 = (Inr (new_stream CounterType 1025 False), root_build_2)"
proof -
  have "fst (new_attached constant_grammar CounterType root_build_1) = Inr (new_stream CounterType 1025 False)" by code_simp
  then show ?thesis unfolding root_build_2_def by (metis prod.collapse)
qed

lemma root_build_3: "new_attached constant_grammar CounterType root_build_2 = (Inr (new_stream CounterType 1026 False), root_build_3)"
proof -
  have "fst (new_attached constant_grammar CounterType root_build_2) = Inr (new_stream CounterType 1026 False)" by code_simp
  then show ?thesis unfolding root_build_3_def by (metis prod.collapse)
qed

lemma root_build_4: "new_attached constant_grammar CounterType root_build_3 = (Inr (new_stream CounterType 1027 False), root_build_4)"
proof -
  have "fst (new_attached constant_grammar CounterType root_build_3) = Inr (new_stream CounterType 1027 False)" by code_simp
  then show ?thesis unfolding root_build_4_def by (metis prod.collapse)
qed

lemma root_build_5: "generate_node constant_grammar (one_input known_system_tick ''always'' (new_stream CounterType 1024 False) ''copy_all_a'') root_build_4 = (Inr (), root_build_5)"
proof -
  have "fst (generate_node constant_grammar (one_input known_system_tick ''always'' (new_stream CounterType 1024 False) ''copy_all_a'') root_build_4) = Inr ()" by code_simp
  then show ?thesis unfolding root_build_5_def by (metis prod.collapse)
qed

lemma root_build_6: "generate_node constant_grammar (one_input known_fast_tick ''always'' (new_stream CounterType 1025 False) ''copy_all_a'') root_build_5 = (Inr (), root_build_6)"
proof -
  have "fst (generate_node constant_grammar (one_input known_fast_tick ''always'' (new_stream CounterType 1025 False) ''copy_all_a'') root_build_5) = Inr ()" by code_simp
  then show ?thesis unfolding root_build_6_def by (metis prod.collapse)
qed

lemma root_build_7: "generate_node constant_grammar (one_input known_tick_1 ''always'' (new_stream CounterType 1026 False) ''copy_all_a'') (configured root_build_6) = (Inr (), root_build_7)"
proof -
  have "fst (generate_node constant_grammar (one_input known_tick_1 ''always'' (new_stream CounterType 1026 False) ''copy_all_a'') (configured root_build_6)) = Inr ()" by code_simp
  then show ?thesis unfolding root_build_7_def by (metis prod.collapse)
qed

lemma root_build_8: "generate_node constant_grammar (one_input known_tick_2 ''always'' (new_stream CounterType 1027 False) ''copy_all_a'') root_build_7 = (Inr (), root_build_8)"
proof -
  have "fst (generate_node constant_grammar (one_input known_tick_2 ''always'' (new_stream CounterType 1027 False) ''copy_all_a'') root_build_7) = Inr ()" by code_simp
  then show ?thesis unfolding root_build_8_def by (metis prod.collapse)
qed

lemma sample_root:
  "new_root_scope constant_grammar empty_build =
     (Inr \<lparr>sc_kind = RootScope (new_stream CounterType 1024 False) (new_stream CounterType 1025 False)
        (new_stream CounterType 1026 False) (new_stream CounterType 1027 False), sc_identifiers = []\<rparr>, root_build_8)"
proof -
  have "slot_of_string ''controller'' = Inr \<lparr>controller = True, slot = None\<rparr>" by code_simp
  then show ?thesis
    by (simp add: new_root_scope_def root_build_1 root_build_2 root_build_3 root_build_4 root_build_5 root_build_6 Let_def
        root_build_7 [unfolded configured_def] root_build_8)
qed


declare bfs_loop.simps [code]

lemma sample_build: "new_build_state new_device_model = Inr empty_build"
proof -
  have "case new_build_state new_device_model of Inl _ \<Rightarrow> False | Inr b \<Rightarrow> True" by code_simp
  then show ?thesis by (auto simp: empty_build_def split: sum.splits)
qed

definition sample_initialized :: sensor_graph where
  "sample_initialized = fst (snd (the (initialize_remaining_constants 0 (b_graph root_build_8))))"

definition sample_compiled :: sensor_graph where
  "sample_compiled = snd (the (sort_nodes listed_order sample_initialized))"

lemma sample_compile: "compile constant_grammar listed_order new_device_model [] = Some (Inr sample_compiled)"
proof -
  have init: "case initialize_remaining_constants 0 (b_graph root_build_8) of Some (Inr _, x) \<Rightarrow> True | _ \<Rightarrow> False" by code_simp
  have sort: "case sort_nodes listed_order sample_initialized of Some (Inr _, x) \<Rightarrow> True | _ \<Rightarrow> False" by code_simp
  have gen: "generate_code constant_grammar new_device_model [] = Inr (Inr (), [\<lparr>sc_kind = RootScope (new_stream CounterType 1024 False)
      (new_stream CounterType 1025 False) (new_stream CounterType 1026 False) (new_stream CounterType 1027 False), sc_identifiers = []\<rparr>], root_build_8)"
    by (simp add: generate_code_def sample_build sample_root push_scope_def)
  show ?thesis
    using init sort unfolding compile_def gen sample_compiled_def sample_initialized_def by (auto split: option.splits prod.splits sum.splits)
qed

theorem compiled_graph_ok_witness: "graph_ok sample_compiled \<and> length (g_nodes sample_compiled) = 4"
proof -
  have "graph_ok sample_compiled" by (rule compiled_graph_ok [OF sample_compile]) (auto simp: listed_order_def)
  moreover have "length (g_nodes sample_compiled) = 4" by code_simp
  ultimately show ?thesis by simp
qed

definition sample_config :: statement where
  "sample_config = Block (ConfigBlock \<lparr>controller = False, slot = Some 1\<rparr>) [Simple (SetConfigStatement (Number 5) (IntValue 1) (Some ''uint8_t''))]"

theorem statements_keep_scopes_witness:
  "case execute_all constant_grammar [sample_config] ([\<lparr>sc_kind = ConfigScope, sc_identifiers = []\<rparr>], empty_build) of
     (r, c) \<Rightarrow> r = Inr () \<and> map scope_shape (fst c) = map scope_shape [\<lparr>sc_kind = ConfigScope, sc_identifiers = []\<rparr>]"
proof -
  let ?c = "([\<lparr>sc_kind = ConfigScope, sc_identifiers = []\<rparr>], empty_build)"
  have run: "fst (execute_all constant_grammar [sample_config] ?c) = Inr ()" by code_simp
  then have "execute_all constant_grammar [sample_config] ?c = (Inr (), snd (execute_all constant_grammar [sample_config] ?c))"
    by (metis prod.collapse)
  from statements_keep_scopes [OF this] run show ?thesis by (simp add: case_prod_unfold)
qed

theorem gated_clock_counts_witness:
  "case clock constant_grammar [\<lparr>sc_kind = GatedClockScope (new_stream CounterType 9 False) TrueTrigger [(''standard'', (new_stream CounterType 1024 False, 10))],
       sc_identifiers = []\<rparr>] 30 ''system'' root_build_1 of (Inr (x, t), _) \<Rightarrow> t = count_trigger ''>='' 3 | _ \<Rightarrow> False"
proof -
  let ?scopes = "[\<lparr>sc_kind = GatedClockScope (new_stream CounterType 9 False) TrueTrigger [(''standard'', (new_stream CounterType 1024 False, 10))],
       sc_identifiers = []\<rparr>]"
  have run: "case clock constant_grammar ?scopes 30 ''system'' root_build_1 of (Inr _, _) \<Rightarrow> True | _ \<Rightarrow> False" by code_simp
  then obtain x t scopes' b' where c: "clock constant_grammar ?scopes 30 ''system'' root_build_1 = (Inr (x, t), scopes', b')"
    by (cases "clock constant_grammar ?scopes 30 ''system'' root_build_1") (auto simp del: clock.simps split: sum.splits)
  from gated_clock_counts [OF this] show ?thesis by (auto simp: caches_ok_def tick_units_def c simp del: clock.simps)
qed

theorem attachments_fit_outputs_witness:
  "case attach_times constant_grammar (new_stream CounterType 1024 False) 5 (snd (new_detached constant_grammar CounterType empty_build)) of
     (Inr xs, _) \<Rightarrow> length xs = 5 \<and> count_list xs (new_stream CounterType 1024 False) \<le> 3 | _ \<Rightarrow> False"
proof -
  let ?s = "new_stream CounterType 1024 False" and ?b = "snd (new_detached constant_grammar CounterType empty_build)"
  have alloc: "fst (new_detached constant_grammar CounterType empty_build) = Inr ?s" by code_simp
  then have a: "new_detached constant_grammar CounterType empty_build = (Inr ?s, ?b)" by (metis prod.collapse)
  have facts: "map_of (b_allocated empty_build) ?s = None" "dm_get (b_model empty_build) ''max_node_outputs'' = Inr 4" by code_simp+
  have run: "case attach_times constant_grammar ?s 5 ?b of (Inr xs, _) \<Rightarrow> length xs = 5 | _ \<Rightarrow> False" by code_simp
  then obtain xs b2 where r: "attach_times constant_grammar ?s 5 ?b = (Inr xs, b2)" "length xs = 5"
    by (cases "attach_times constant_grammar ?s 5 ?b") (auto split: sum.splits)
  from attachments_fit_outputs [OF a facts _ r(1), of ?s] r show ?thesis by simp
qed

end
