(* ===== verification/Graph_Optimizer.thy ===== *)
theory Graph_Optimizer
  imports Graph_Compiler
begin

text \<open>
  The optimizer of sensor graphs (\<open>sg/optimizer/optimizer.py\<close>, \<open>sg/optimizer/passes\<close>): five passes over the nodes, each
  run until it has nothing left to do.
\<close>

section \<open>Walking\<close>

text \<open>A walk that stops at the first node for which the test answers true; the test may raise.\<close>

partial_function (option) bfs_first ::
  "sensor_graph \<Rightarrow> (nat \<Rightarrow> nat list \<Rightarrow> bool res) \<Rightarrow> nat list \<Rightarrow> nat list \<Rightarrow> (nat \<times> nat list) option res option" where
  "bfs_first g test working seen =
     (case working of
        [] \<Rightarrow> Some (Inr None)
      | n # rest \<Rightarrow>
          (case test n (seen_inputs g n seen) of
             Inl err \<Rightarrow> Some (Inl err)
           | Inr hit \<Rightarrow>
               if hit then Some (Inr (Some (n, seen_inputs g n seen)))
               else bfs_first g test (rest @ n_outputs (g_store g ! n)) (seen @ [n])))"

declare bfs_first.simps [simp del]

text \<open>\<open>list.remove\<close> on the lists of the graph and of a node.\<close>

definition remove_node :: "nat \<Rightarrow> sensor_graph \<Rightarrow> (unit, sensor_graph) act" where
  "remove_node n g =
     (case py_remove n (g_nodes g) of Inl err \<Rightarrow> (Inl err, g) | Inr ns \<Rightarrow> (Inr (), g\<lparr>g_nodes := ns\<rparr>))"

definition remove_root :: "nat \<Rightarrow> sensor_graph \<Rightarrow> (unit, sensor_graph) act" where
  "remove_root n g =
     (if n \<in> set (g_roots g)
      then (case py_remove n (g_roots g) of Inl err \<Rightarrow> (Inl err, g) | Inr ns \<Rightarrow> (Inr (), g\<lparr>g_roots := ns\<rparr>))
      else (Inr (), g))"

definition remove_output :: "nat \<Rightarrow> nat \<Rightarrow> sensor_graph \<Rightarrow> (unit, sensor_graph) act" where
  "remove_output n k = on_node k (\<lambda>node.
     case py_remove n (n_outputs node) of Inl err \<Rightarrow> (Inl err, node) | Inr ns \<Rightarrow> (Inr (), node\<lparr>n_outputs := ns\<rparr>))"

section \<open>Dead code\<close>

definition removable :: "sensor_graph \<Rightarrow> nat \<Rightarrow> bool" where
  "removable g n =
     (let node = g_store g ! n in
      n_outputs node = [] \<and> \<not> is_output (n_stream node) g \<and> stream_id (n_stream node) \<ge> StartingID \<and>
      n_func_name node \<noteq> Some ''call_rpc'' \<and> \<not> stream_buffered (n_stream node) \<and>
      n_func_name node \<noteq> Some ''trigger_streamer'')"

definition run_remove_dead_code :: "sensor_graph \<Rightarrow> (bool, sensor_graph) act option" where
  "run_remove_dead_code g =
     map_option (\<lambda>found.
        case found of
          Inl err \<Rightarrow> (Inl err, g)
        | Inr None \<Rightarrow> (Inr False, g)
        | Inr (Some (n, inputs)) \<Rightarrow>
            bind_act (for_each (remove_output n) inputs g) (\<lambda>_ g.
            bind_act (remove_root n g) (\<lambda>_ g.
            bind_act (remove_node n g) (\<lambda>_ g. (Inr True, g)))))
       (bfs_first g (\<lambda>n inputs. Inr (removable g n)) (g_roots g) [])"

section \<open>Copying all\<close>

text \<open>\<open>input_a.selector\<close>; an input without a walker has no selector, and asking for its type raises.\<close>

definition first_input :: "sensor_graph \<Rightarrow> nat \<Rightarrow> (input_ref \<times> trigger \<times> selector) res" where
  "first_input g n =
     bind_res (py_nth (n_inputs (g_store g ! n)) 0) (\<lambda>(ref, trig).
       case in_selector ref (g_log g) of None \<Rightarrow> Inl AttributeError | Some sel \<Rightarrow> Inr (ref, trig, sel))"

fun counts_one :: "trigger \<Rightarrow> bool" where
  "counts_one (InputTrigger t) = (comp_string t = ''=='' \<and> use_count t \<and> reference t = 1)"
| "counts_one _ = False"

text \<open>A node has no attribute \<open>input_a\<close>, so the last test of the inner loop raises when it is reached.\<close>

fun single_readings :: "sensor_graph \<Rightarrow> input_ref \<Rightarrow> nat list \<Rightarrow> bool res" where
  "single_readings g ref [] = Inr True"
| "single_readings g ref (k # ks) =
     (if in_matches ref (g_log g) (n_stream (g_store g ! k)) \<and> n_func_name (g_store g ! k) = Some ''copy_all_a''
      then Inl AttributeError else single_readings g ref ks)"

definition can_downgrade :: "sensor_graph \<Rightarrow> nat \<Rightarrow> nat list \<Rightarrow> bool res" where
  "can_downgrade g n inputs =
     bind_res (first_input g n) (\<lambda>(ref, trig, sel).
       if match_type sel \<in> {InputType, UnbufferedType} then Inr True
       else if counts_one trig then Inr True
       else if trig = TrueTrigger \<and> \<not> sel_buffered sel then single_readings g ref inputs
       else Inr False)"

definition downgrade_body :: "nat \<Rightarrow> nat list \<Rightarrow> sensor_graph \<times> bool \<Rightarrow> (unit, sensor_graph \<times> bool) act" where
  "downgrade_body n inputs st =
     (case st of (g, did) \<Rightarrow>
        if n_func_name (g_store g ! n) \<noteq> Some ''copy_all_a'' then (Inr (), st)
        else (case can_downgrade g n inputs of
                Inl err \<Rightarrow> (Inl err, st)
              | Inr False \<Rightarrow> (Inr (), st)
              | Inr True \<Rightarrow>
                  (case find_processing_function ''copy_latest_a'' of
                     None \<Rightarrow> (Inl ProcessingFunctionError, g, True)
                   | Some f \<Rightarrow> (Inr (), g\<lparr>g_store := (g_store g)[n := set_func ''copy_latest_a'' f (g_store g ! n)]\<rparr>, True))))"

definition run_downgrade :: "sensor_graph \<Rightarrow> (bool, sensor_graph) act option" where
  "run_downgrade g =
     map_option (\<lambda>(res, g1, did). (bind_res res (\<lambda>_. Inr did), g1))
       (bfs_loop g downgrade_body (g_roots g) [] (g, False))"

section \<open>Counting to one\<close>

definition always_body :: "nat \<Rightarrow> nat list \<Rightarrow> sensor_graph \<Rightarrow> (unit, sensor_graph) act" where
  "always_body n inputs g =
     (if num_inputs (g_store g ! n) \<noteq> 1 then (Inr (), g)
      else case first_input g n of
        Inl err \<Rightarrow> (Inl err, g)
      | Inr (ref, trig, sel) \<Rightarrow>
          if match_type sel \<in> {InputType, UnbufferedType} \<and> counts_one trig
          then (Inr (), g\<lparr>g_store := (g_store g)[n := (g_store g ! n)\<lparr>n_inputs := (n_inputs (g_store g ! n))[0 := (ref, TrueTrigger)]\<rparr>]\<rparr>)
          else (Inr (), g))"

text \<open>The pass returns nothing, which ends its loop.\<close>

definition run_convert_always :: "sensor_graph \<Rightarrow> (bool, sensor_graph) act option" where
  "run_convert_always g =
     map_option (\<lambda>(res, g1). (bind_res res (\<lambda>_. Inr False), g1)) (bfs_loop g always_body (g_roots g) [] g)"

section \<open>Copies of one reading\<close>

fun try_combine :: "trigger \<Rightarrow> trigger \<Rightarrow> trigger res" where
  "try_combine FalseTrigger t2 = Inr FalseTrigger"
| "try_combine TrueTrigger t2 = Inr t2"
| "try_combine (InputTrigger a) FalseTrigger = Inr FalseTrigger"
| "try_combine (InputTrigger a) TrueTrigger = Inr (InputTrigger a)"
| "try_combine (InputTrigger a) (InputTrigger b) =
     (if use_count a \<and> use_count b then
        if comp_string a = ''=='' \<and> comp_string b = ''=='' then
          if reference a * reference b \<le> 0xFFFFFFFF
          then map_sum id InputTrigger (new_input_trigger ''count'' ''=='' (reference a * reference b))
          else Inl ArgumentError
        else if comp_string a \<in> set [''>='', ''<='', ''<'', ''>''] \<and> comp_string b = ''=='' \<and> reference b = 1
        then map_sum id InputTrigger (new_input_trigger ''count'' (comp_string a) (reference a))
        else Inl ArgumentError
      else if \<not> use_count a \<and> \<not> use_count b then
        if comp_string a = ''=='' \<and> comp_string b = ''=='' \<and> reference a = reference b
        then map_sum id InputTrigger (new_input_trigger ''value'' (comp_string a) (reference a))
        else Inl ArgumentError
      else Inl ArgumentError)"

definition can_combine :: "trigger \<Rightarrow> trigger \<Rightarrow> bool res" where
  "can_combine t1 t2 =
     (case try_combine t1 t2 of
        Inr _ \<Rightarrow> Inr True
      | Inl err \<Rightarrow> if err = ArgumentError then Inr False else Inl err)"

text \<open>\<open>out.inputs[i]\<close> for the position that \<open>find_input\<close> returned, which may be no position.\<close>

definition input_at :: "data_stream \<Rightarrow> nat \<Rightarrow> sensor_graph \<Rightarrow> (int \<times> input_ref \<times> trigger) res" where
  "input_at s out g =
     (case find_input (g_log g) s (g_store g ! out) of
        None \<Rightarrow> Inl PyTypeError
      | Some i \<Rightarrow> bind_res (py_nth (n_inputs (g_store g ! out)) i) (\<lambda>(ref, trig). Inr (i, ref, trig)))"

fun outputs_combine :: "data_stream \<Rightarrow> trigger \<Rightarrow> nat list \<Rightarrow> sensor_graph \<Rightarrow> bool res" where
  "outputs_combine s trig [] g = Inr True"
| "outputs_combine s trig (out # outs) g =
     bind_res (input_at s out g) (\<lambda>(i, ref, out_trig).
       if n_func_name (g_store g ! out) = Some ''copy_all_a'' then Inr False
       else bind_res (can_combine trig out_trig) (\<lambda>ok. if ok then outputs_combine s trig outs g else Inr False))"

text \<open>The first input is there, because the node has one input.\<close>

definition copy_removable :: "sensor_graph \<Rightarrow> nat \<Rightarrow> nat list \<Rightarrow> bool res" where
  "copy_removable g n inputs =
     (let node = g_store g ! n in
      if n_func_name node \<noteq> Some ''copy_latest_a'' then Inr False
      else if num_inputs node \<noteq> 1 then Inr False
      else if inputs = [] then Inr False
      else if list_ex (\<lambda>k. stream_type (n_stream (g_store g ! k)) \<noteq> stream_type (n_stream node) \<or>
                free_outputs (g_store g ! k) + 1 < int (length (n_outputs node))) inputs then Inr False
      else if is_output (n_stream node) g then Inr False
      else bind_res (py_nth (n_inputs node) 0) (\<lambda>(ref, trig). outputs_combine (n_stream node) trig (n_outputs node) g))"

text \<open>One output of the removed node is connected to the inputs of that node.\<close>

definition reconnect :: "data_stream \<Rightarrow> input_ref \<times> trigger \<Rightarrow> nat list \<Rightarrow> nat \<Rightarrow> sensor_graph \<Rightarrow> (unit, sensor_graph) act" where
  "reconnect s first inputs out g =
     bind_act (input_at s out g, g) (\<lambda>(i, old_walker, old_trigger) g.
     bind_act (try_combine (snd first) old_trigger, g) (\<lambda>new_trigger g.
     bind_act (bind_res (iw_selector_str (in_selector (fst first) (g_log g))) sel_of_string, g) (\<lambda>sel g.
     bind_act (on_log (log_create_walker sel True) g) (\<lambda>new_walker g.
     bind_act (case old_walker of None \<Rightarrow> (Inl KeyError, g) | Some w \<Rightarrow> on_log (log_destroy_walker w) g) (\<lambda>_ g.
     bind_act (on_node out (\<lambda>node.
         case py_set (n_inputs node) i (Some new_walker, new_trigger) of
           Inl err \<Rightarrow> (Inl err, node) | Inr xs \<Rightarrow> (Inr (), node\<lparr>n_inputs := xs\<rparr>)) g) (\<lambda>_ g.
       for_each (\<lambda>k. on_node k (connect_output out)) inputs g))))))"

definition remove_copy :: "nat \<Rightarrow> nat list \<Rightarrow> sensor_graph \<Rightarrow> (unit, sensor_graph) act" where
  "remove_copy n inputs g =
     (let node = g_store g ! n in
      bind_act (remove_node n g) (\<lambda>_ g.
      bind_act (for_each (remove_output n) inputs g) (\<lambda>_ g.
      bind_act (py_nth (n_inputs node) 0, g) (\<lambda>first g.
      bind_act (for_each (reconnect (n_stream node) first inputs) (n_outputs node) g) (\<lambda>_ g.
      bind_act (remove_root n g) (\<lambda>_ g.
        case fst first of None \<Rightarrow> (Inl KeyError, g) | Some w \<Rightarrow> on_log (log_destroy_walker w) g))))))"

definition run_remove_copy :: "sensor_graph \<Rightarrow> (bool, sensor_graph) act option" where
  "run_remove_copy g =
     map_option (\<lambda>found.
        case found of
          Inl err \<Rightarrow> (Inl err, g)
        | Inr None \<Rightarrow> (Inr False, g)
        | Inr (Some (n, inputs)) \<Rightarrow> bind_act (remove_copy n inputs g) (\<lambda>_ g. (Inr True, g)))
       (bfs_first g (copy_removable g) (g_roots g) [])"

section \<open>Constants\<close>

text \<open>\<open>as_stream\<close> raises for a selector of more than one stream.\<close>

fun used_constants :: "sensor_graph \<Rightarrow> (input_ref \<times> trigger) list \<Rightarrow> data_stream set \<Rightarrow> (unit, data_stream set) act" where
  "used_constants g [] used = (Inr (), used)"
| "used_constants g ((ref, trig) # rest) used =
     (case in_selector ref (g_log g) of
        None \<Rightarrow> used_constants g rest used
      | Some sel \<Rightarrow>
          if match_type sel = ConstantType then
            (case sel_as_stream sel of Inl err \<Rightarrow> (Inl err, used) | Inr s \<Rightarrow> used_constants g rest (insert s used))
          else used_constants g rest used)"

definition run_remove_constants :: "sensor_graph \<Rightarrow> (bool, sensor_graph) act option" where
  "run_remove_constants g =
     map_option (\<lambda>(res, used).
        case res of
          Inl err \<Rightarrow> (Inl err, g)
        | Inr _ \<Rightarrow> (Inr False, g\<lparr>g_constants := filter (\<lambda>(s, v). s \<in> used) (g_constants g)\<rparr>))
       (bfs_loop g (\<lambda>n inputs used. used_constants g (n_inputs (g_store g ! n)) used) (g_roots g) [] {})"

section \<open>The optimizer\<close>

record optimizer_pass =
  op_name :: string
  op_before :: "string list"
  op_after :: "string list"
  op_run :: "sensor_graph \<Rightarrow> (bool, sensor_graph) act option"

definition known_passes :: "optimizer_pass list" where
  "known_passes =
     [\<lparr>op_name = ''remove-copy'', op_before = [], op_after = [], op_run = run_remove_copy\<rparr>,
      \<lparr>op_name = ''convert-always'', op_before = [''remove-copy''], op_after = [], op_run = run_convert_always\<rparr>,
      \<lparr>op_name = ''downgrade-copyall'', op_before = [''convert-always''], op_after = [], op_run = run_downgrade\<rparr>,
      \<lparr>op_name = ''remove-dead-code'', op_before = [''remove-copy'', ''convert_always'', ''downgrade-copyall''], op_after = [],
       op_run = run_remove_dead_code\<rparr>,
      \<lparr>op_name = ''remove-constants'', op_before = [], op_after = [''remove-copy'', ''remove-dead-code''],
       op_run = run_remove_constants\<rparr>]"

text \<open>The dictionary that is given to \<open>toposort_flatten\<close>.\<close>

definition pass_dependencies :: "optimizer_pass list \<Rightarrow> (string \<times> string set) list" where
  "pass_dependencies passes =
     fold (\<lambda>p deps.
        let own = (case map_of deps (op_name p) of None \<Rightarrow> {} | Some d \<Rightarrow> d);
            deps1 = AList.update (op_name p) (own \<union> set (op_after p)) deps
        in fold (\<lambda>other deps.
             if other \<in> op_name ` set passes
             then AList.update other (insert (op_name p) (case map_of deps other of None \<Rightarrow> {} | Some d \<Rightarrow> d)) deps
             else deps) (op_before p) deps1) passes []"

text \<open>\<open>while rerun: rerun = run(...)\<close>.\<close>

partial_function (option) rerun :: "(sensor_graph \<Rightarrow> (bool, sensor_graph) act option) \<Rightarrow> sensor_graph \<Rightarrow> (unit, sensor_graph) act option" where
  "rerun run g =
     (case run g of
        None \<Rightarrow> None
      | Some (Inl err, g1) \<Rightarrow> Some (Inl err, g1)
      | Some (Inr again, g1) \<Rightarrow> if again then rerun run g1 else Some (Inr (), g1))"

declare rerun.simps [simp del]

fun run_passes :: "string list \<Rightarrow> sensor_graph \<Rightarrow> (unit, sensor_graph) act option" where
  "run_passes [] g = Some (Inr (), g)"
| "run_passes (name # names) g =
     (case find (\<lambda>p. op_name p = name) known_passes of
        None \<Rightarrow> Some (Inl KeyError, g)
      | Some p \<Rightarrow>
          (case rerun (op_run p) g of
             None \<Rightarrow> None
           | Some (Inl err, g1) \<Rightarrow> Some (Inl err, g1)
           | Some (Inr _, g1) \<Rightarrow> run_passes names g1))"

definition optimize ::
  "((string \<times> string set) list \<Rightarrow> string list res) \<Rightarrow> sensor_graph \<Rightarrow> (unit, sensor_graph) act option" where
  "optimize toposort g =
     (case toposort (pass_dependencies known_passes) of
        Inl err \<Rightarrow> Some (Inl err, g)
      | Inr names \<Rightarrow> run_passes names g)"

section \<open>Combining triggers\<close>

text \<open>
  A reading pushed to a walker: a virtual walker keeps the latest reading, a counter keeps the number of readings and the latest
  of them, a buffered walker keeps all.  A node that copies the latest reading takes all readings of its input when it fires.
\<close>

datatype walker_kind = VirtualKind | CounterKind | BufferedKind

fun push_pending :: "walker_kind \<Rightarrow> reading list \<Rightarrow> reading \<Rightarrow> reading list" where
  "push_pending VirtualKind rs v = [v]"
| "push_pending CounterKind rs v = replicate (Suc (length rs)) v"
| "push_pending BufferedKind rs v = rs @ [v]"

text \<open>What a node with one input sees each time it fires, for readings pushed one by one.\<close>

fun one_stage :: "walker_kind \<Rightarrow> trigger \<Rightarrow> reading list \<Rightarrow> reading list \<Rightarrow> reading list option list" where
  "one_stage kind t rs [] = []"
| "one_stage kind t rs (v # vs) =
     (let rs1 = push_pending kind rs v in
      if condition t rs1 then Some rs1 # one_stage kind t [] vs else None # one_stage kind t rs1 vs)"

text \<open>The same with a node that copies the latest reading before it.\<close>

fun two_stages :: "walker_kind \<Rightarrow> trigger \<Rightarrow> trigger \<Rightarrow> reading list \<Rightarrow> reading list \<Rightarrow> reading list \<Rightarrow> reading list option list" where
  "two_stages kind t1 t2 rs ss [] = []"
| "two_stages kind t1 t2 rs ss (v # vs) =
     (let rs1 = push_pending kind rs v in
      if condition t1 rs1 then
        let ss1 = push_pending kind ss (last rs1) in
        if condition t2 ss1 then Some ss1 # two_stages kind t1 t2 [] [] vs else None # two_stages kind t1 t2 [] ss1 vs
      else None # two_stages kind t1 t2 rs1 ss vs)"

lemma push_pending_facts [simp]:
  "push_pending kind rs v \<noteq> []" "last (push_pending kind rs v) = v" "length (push_pending kind [] v) = 1"
  "push_pending kind [] v = [v]"
  by (cases kind; simp)+

lemma push_pending_length: "length (push_pending kind rs v) = (if kind = VirtualKind then 1 else Suc (length rs))"
  by (cases kind) simp_all

abbreviation (input) latest :: "reading list option list \<Rightarrow> reading option list" where
  "latest \<equiv> map (map_option last)"

lemma never_fires: "(\<And>rs. rs \<noteq> [] \<Longrightarrow> \<not> condition t rs) \<Longrightarrow> one_stage kind t rs vs = replicate (length vs) None"
  by (induction vs arbitrary: rs) (simp_all add: Let_def)



lemma two_never_fires:
  assumes "(\<forall>rs. rs \<noteq> [] \<longrightarrow> \<not> condition t1 rs) \<or> (\<forall>rs. rs \<noteq> [] \<longrightarrow> \<not> condition t2 rs)"
  shows "two_stages kind t1 t2 rs ss vs = replicate (length vs) None"
  using assms by (induction vs arbitrary: rs ss) (auto simp: Let_def)

text \<open>If the second condition holds as soon as it is looked at, the second node adds nothing.\<close>

lemma second_always:
  assumes "\<And>rs v. condition t1 (push_pending kind rs v) \<Longrightarrow> condition t2 [v]"
  shows "latest (two_stages kind t1 t2 rs [] vs) = latest (one_stage kind t1 rs vs)"
  using assms by (induction vs arbitrary: rs) (simp_all add: Let_def)

lemma first_always: "two_stages kind TrueTrigger t2 [] ss vs = one_stage kind t2 ss vs"
  by (induction vs arbitrary: ss) (simp_all add: Let_def)

text \<open>Counting to \<open>x\<close> and then to \<open>y\<close> is counting to \<open>x * y\<close>.\<close>

abbreviation (input) count_is :: "int \<Rightarrow> trigger" where "count_is n \<equiv> count_trigger ''=='' n"

lemma condition_count: "condition (count_is n) rs \<longleftrightarrow> int (length rs) = n"
  by (simp add: count_trigger_def comp_function_def)

lemma counts_multiply:
  assumes "0 < x" and "0 < y" and "kind \<noteq> VirtualKind" and "int (length rs) < x" and "int (length ss) < y"
    and "int (length us) = int (length ss) * x + int (length rs)"
  shows "latest (two_stages kind (count_is x) (count_is y) rs ss vs) = latest (one_stage kind (count_is (x * y)) us vs)"
  using assms(4-)
proof (induction vs arbitrary: rs ss us)
  case (Cons v vs)
  have len: "length (push_pending kind rs v) = Suc (length rs)" for rs v using assms(3) by (simp add: push_pending_length)
  let ?rs = "push_pending kind rs v" and ?ss = "push_pending kind ss v" and ?us = "push_pending kind us v"
  show ?case
  proof (cases "int (length rs) + 1 = x")
    case full: True
    show ?thesis
    proof (cases "int (length ss) + 1 = y")
      case True
      have "int (length us) + 1 = x * y" using full True Cons.prems(3) by (simp add: algebra_simps flip: True full)
      then show ?thesis using full True Cons.IH [of "[]" "[]" "[]"] assms(1,2) by (simp add: Let_def condition_count len)
    next
      case False
      have "(int (length ss) + 1) * x < y * x" using False Cons.prems(2) assms(1) by simp
      then have "int (length us) + 1 \<noteq> x * y" using full Cons.prems(3) by (simp add: algebra_simps)
      moreover have "latest (two_stages kind (count_is x) (count_is y) [] ?ss vs) = latest (one_stage kind (count_is (x * y)) ?us vs)"
        using Cons.prems False full assms(1) by (intro Cons.IH) (simp_all add: len algebra_simps)
      ultimately show ?thesis using full False by (simp add: Let_def condition_count len)
    qed
  next
    case False
    have "int (length ss) * x + x \<le> y * x" using Cons.prems(2) assms(1) mult_right_mono [of "int (length ss) + 1" y x] by (simp add: algebra_simps)
    then have "int (length us) + 1 \<noteq> x * y" using False Cons.prems(1,3) by (simp add: algebra_simps)
    moreover have "latest (two_stages kind (count_is x) (count_is y) ?rs ss vs) = latest (one_stage kind (count_is (x * y)) ?us vs)"
      using Cons.prems False by (intro Cons.IH) (simp_all add: len)
    ultimately show ?thesis using False by (simp add: Let_def condition_count len)
  qed
qed simp

lemma virtual_counts:
  assumes "0 \<le> x" and "0 \<le> y"
  shows "latest (two_stages VirtualKind (count_is x) (count_is y) rs ss vs) = latest (one_stage VirtualKind (count_is (x * y)) us vs)"
proof -
  have "x * y = 1 \<longleftrightarrow> x = 1 \<and> y = 1" using assms by (simp add: pos_zmult_eq_1_iff zmult_eq_1_iff)
  then show ?thesis
    by (induction vs arbitrary: rs ss us) (auto simp: Let_def condition_count)
qed

text \<open>A buffered walker whose oldest reading does not match never fires again.\<close>

lemma same_values:
  assumes "\<not> use_count a" and "\<not> use_count b" and "comp_string a = ''==''" and "comp_string b = ''==''" and "reference a = reference b"
    and "rs \<noteq> [] \<and> kind = BufferedKind \<Longrightarrow> r_value (hd rs) \<noteq> reference a"
  shows "latest (two_stages kind (InputTrigger a) (InputTrigger b) rs [] vs) = latest (one_stage kind (InputTrigger a) rs vs)"
  using assms(6)
proof (induction vs arbitrary: rs)
  case (Cons v vs)
  show ?case
  proof (cases "kind = BufferedKind \<and> rs \<noteq> []")
    case True
    then obtain r rest where "rs = r # rest" "r_value r \<noteq> reference a" using Cons.prems by (cases rs) auto
    then show ?thesis using True Cons.IH [of "rs @ [v]"] assms by (simp add: Let_def comp_function_def)
  next
    case False
    then obtain tl where now: "push_pending kind rs v = v # tl" by (cases kind; cases rs) auto
    show ?thesis
    proof (cases "r_value v = reference a")
      case True
      then show ?thesis using Cons.IH [of "[]"] assms now push_pending_facts(2) [of kind rs v] by (simp add: Let_def comp_function_def)
    next
      case False
      then show ?thesis using Cons.IH [of "v # tl"] assms now by (simp add: Let_def comp_function_def)
    qed
  qed
qed simp

fun counts_up :: "trigger \<Rightarrow> bool" where
  "counts_up (InputTrigger t) = (use_count t \<longrightarrow> 0 \<le> reference t)"
| "counts_up _ = True"

text \<open>
  Replacing two triggers by their combination, on walkers reduced to the readings they hold (\<open>one_stage\<close>, \<open>two_stages\<close>: virtual,
  counter and buffered ones; constant streams, whose readings are never used up, are not covered): a node behind a copy of the
  latest reading fires for the same readings, with the same latest reading, as the node with the combined trigger and without
  the copy between, for counts that are not negative.
\<close>

theorem combined_trigger_equivalent:
  assumes "try_combine t1 t2 = Inr t3" and "counts_up t1" and "counts_up t2"
  shows "latest (two_stages kind t1 t2 [] [] vs) = latest (one_stage kind t3 [] vs)"
proof (cases "(t1, t2)" rule: try_combine.cases)
  case (1 t)
  then show ?thesis using assms(1) by (simp add: two_never_fires never_fires)
next
  case (2 t)
  then show ?thesis using assms(1) by (simp add: first_always)
next
  case (3 a)
  then show ?thesis using assms(1) by (simp add: two_never_fires never_fires)
next
  case (4 a)
  then show ?thesis using assms(1) by (simp add: second_always)
next
  case (5 a b)
  then have t: "t1 = InputTrigger a" "t2 = InputTrigger b" by simp_all
  consider (counts) "use_count a" "use_count b" "comp_string a = ''==''" "comp_string b = ''==''"
      "t3 = count_is (reference a * reference b)"
    | (one) "use_count a" "use_count b" "comp_string b = ''==''" "reference b = 1" "t3 = t1"
    | (vals) "\<not> use_count a" "\<not> use_count b" "comp_string a = ''==''" "comp_string b = ''==''" "reference a = reference b" "t3 = t1"
    using assms(1) t
    by (cases a; cases b) (auto simp: new_input_trigger_def known_comps_def count_trigger_def split: if_splits)
  then show ?thesis
  proof cases
    case counts
    have eq: "t1 = count_is (reference a)" "t2 = count_is (reference b)" using counts t by (cases a; cases b; simp add: count_trigger_def)+
    have pos: "0 \<le> reference a" "0 \<le> reference b" using assms(2,3) counts t by simp_all
    show ?thesis
    proof (cases "kind = VirtualKind")
      case True
      then show ?thesis using virtual_counts [OF pos] eq counts(5) by simp
    next
      case False
      show ?thesis
      proof (cases "reference a = 0 \<or> reference b = 0")
        case True
        then show ?thesis unfolding eq counts(5) by (auto simp: two_never_fires never_fires condition_count)
      next
        case nonzero: False
        then show ?thesis unfolding eq counts(5) using counts_multiply [of "reference a" "reference b" kind "[]" "[]" "[]"] pos False by simp
      qed
    qed
  next
    case one
    then show ?thesis using t by (simp add: second_always comp_function_def)
  next
    case vals
    then show ?thesis unfolding t using same_values [of a b "[]" kind vs] by simp
  qed
qed


theorem combined_trigger_equivalent_witness:
  "\<forall>vs. latest (two_stages CounterKind (count_is 6) (count_is 10) [] [] vs) = latest (one_stage CounterKind (count_is 60) [] vs)"
  by (intro allI, rule combined_trigger_equivalent) (simp_all add: count_trigger_def new_input_trigger_def known_comps_def)

text \<open>
  The same replacement changes what a node sees that counts its readings.  The pass only excepts nodes that copy all
  readings: behind a clock that fires every \<open>n\<close> ticks a node gets one reading at a time, and \<open>n\<close> readings after the pass.
\<close>

theorem combined_count_differs:
  assumes "2 \<le> n" and "length vs = n"
  shows "try_combine (count_trigger ''>='' (int n)) (count_is 1) = Inr (count_trigger ''>='' (int n))"
    and "map (map_option length) (two_stages CounterKind (count_trigger ''>='' (int n)) (count_is 1) [] [] vs) = replicate (n - 1) None @ [Some 1]"
    and "map (map_option length) (one_stage CounterKind (count_trigger ''>='' (int n)) [] vs) = replicate (n - 1) None @ [Some n]"
proof -
  have ge: "condition (count_trigger ''>='' m) rs \<longleftrightarrow> m \<le> int (length rs)" for m rs
    by (simp add: count_trigger_def comp_function_def)
  show "try_combine (count_trigger ''>='' (int n)) (count_is 1) = Inr (count_trigger ''>='' (int n))"
    by (simp add: count_trigger_def new_input_trigger_def known_comps_def)
  have "length rs + length vs = n \<Longrightarrow> vs \<noteq> [] \<Longrightarrow>
      map (map_option length) (two_stages CounterKind (count_trigger ''>='' (int n)) (count_is 1) rs [] vs) = replicate (length vs - 1) None @ [Some 1] \<and>
      map (map_option length) (one_stage CounterKind (count_trigger ''>='' (int n)) rs vs) = replicate (length vs - 1) None @ [Some n]" for rs vs
  proof (induction vs arbitrary: rs)
    case (Cons v vs)
    then show ?case
    proof (cases "vs = []")
      case True
      then show ?thesis using Cons.prems by (auto simp: Let_def ge condition_count)
    next
      case False
      have "length (replicate (Suc (length rs)) v) + length vs = n" using Cons.prems(1) by simp
      from Cons.IH [OF this False] show ?thesis
        using False Cons.prems(1) by (cases vs) (auto simp: Let_def ge)
    qed
  qed simp
  moreover have "length [] + length vs = n" "vs \<noteq> []" using assms by auto
  ultimately have "map (map_option length) (two_stages CounterKind (count_trigger ''>='' (int n)) (count_is 1) [] [] vs) = replicate (length vs - 1) None @ [Some 1] \<and>
      map (map_option length) (one_stage CounterKind (count_trigger ''>='' (int n)) [] vs) = replicate (length vs - 1) None @ [Some n]"
    by blast
  then
  show "map (map_option length) (two_stages CounterKind (count_trigger ''>='' (int n)) (count_is 1) [] [] vs) = replicate (n - 1) None @ [Some 1]"
    and "map (map_option length) (one_stage CounterKind (count_trigger ''>='' (int n)) [] vs) = replicate (n - 1) None @ [Some n]"
    using assms(2) by simp_all
qed

theorem combined_count_differs_witness:
  "map (map_option length) (two_stages CounterKind (count_trigger ''>='' (int 2)) (count_is 1) [] []
       [\<lparr>raw_time = 0, r_stream = 1, r_value = 7, reading_id = 0, reading_time = None\<rparr>, \<lparr>raw_time = 0, r_stream = 1, r_value = 8, reading_id = 0, reading_time = None\<rparr>]) = [None, Some 1] \<and>
   map (map_option length) (one_stage CounterKind (count_trigger ''>='' (int 2)) []
       [\<lparr>raw_time = 0, r_stream = 1, r_value = 7, reading_id = 0, reading_time = None\<rparr>, \<lparr>raw_time = 0, r_stream = 1, r_value = 8, reading_id = 0, reading_time = None\<rparr>]) = [None, Some 2]"
  using combined_count_differs(2,3) [of 2 "[\<lparr>raw_time = 0, r_stream = 1, r_value = 7, reading_id = 0, reading_time = None\<rparr>, \<lparr>raw_time = 0, r_stream = 1, r_value = 8, reading_id = 0, reading_time = None\<rparr>]"]
  by simp

end
