(* ===== verification/Connection_Manager.thy ===== *)
theory Connection_Manager
  imports Prelude "HOL-Library.AList" "HOL-Library.Multiset"
begin

text \<open>
  The connection manager of the native BLE adapter (\<open>native_ble/.../connection_manager.py\<close>): the states of
  connections, the queue of actions and the worker that handles them one by one.
\<close>

section \<open>Actions\<close>

text \<open>A connection is named by its number or by an internal string; anything else is refused.\<close>

datatype conn_key = IntKey int | StrKey string | OtherKey

text \<open>The arguments with which callbacks are called.  Callbacks and contexts are kept as numbers.\<close>

datatype call_arg = IntArg int | StrArg string | BoolArg bool | NoneArg | BytesArg "byte list"

datatype action_data =
    BeginConnection int string nat nat
  | FinishConnection conn_key bool "string option"
  | ForceDisconnect conn_key
  | BeginDisconnection conn_key nat
  | FinishDisconnection conn_key bool "string option"
  | BeginOperation conn_key nat string
  | FinishOperation conn_key bool "call_arg list"

text \<open>Times are milliseconds of the monotonic clock.  No caller waits for an action, so \<open>sync\<close> is left out.\<close>

record conn_action =
  ca_data :: action_data
  ca_timeout :: "int option"
  ca_start_time :: int

definition set_timeout :: "int option \<Rightarrow> int \<Rightarrow> conn_action \<Rightarrow> conn_action" where
  "set_timeout t now a = a\<lparr>ca_timeout := t, ca_start_time := now\<rparr>"

definition ca_expired :: "int \<Rightarrow> conn_action \<Rightarrow> bool" where
  "ca_expired now a = (case ca_timeout a of None \<Rightarrow> False | Some t \<Rightarrow> now - ca_start_time a > t)"

section \<open>The manager\<close>

abbreviation (input) Disconnected :: int where "Disconnected \<equiv> 0"
abbreviation (input) Connecting :: int where "Connecting \<equiv> 1"
abbreviation (input) Idle :: int where "Idle \<equiv> 2"
abbreviation (input) InProgress :: int where "InProgress \<equiv> 3"
abbreviation (input) Disconnecting :: int where "Disconnecting \<equiv> 4"

text \<open>The dictionary of one connection; \<open>None\<close> is an absent \<open>action\<close>.\<close>

record conn_data =
  cd_state :: int
  cd_microstate :: "string option"
  cd_connection_id :: int
  cd_internal_id :: string
  cd_action :: "conn_action option"
  cd_context :: nat

text \<open>
  Both tables refer to the same dictionaries, which are kept in a store.  The calls of callbacks are recorded.
\<close>

record manager =
  cm_id :: int
  cm_stopped :: bool
  cm_actions :: "conn_action list"
  cm_connections :: "(int \<times> nat) list"
  cm_int_connections :: "(string \<times> nat) list"
  cm_store :: "conn_data list"
  cm_now :: int
  cm_calls :: "(nat \<times> call_arg list) list"

definition new_manager :: "int \<Rightarrow> manager" where
  "new_manager adapter_id =
     \<lparr>cm_id = adapter_id, cm_stopped = False, cm_actions = [], cm_connections = [], cm_int_connections = [],
      cm_store = [], cm_now = 0, cm_calls = []\<rparr>"

definition stop_manager :: "manager \<Rightarrow> manager" where
  "stop_manager m = m\<lparr>cm_stopped := True\<rparr>"

definition get_connections :: "manager \<Rightarrow> int list" where
  "get_connections m = map fst (cm_connections m)"

text \<open>The table for a key, and what it has there.\<close>

definition table_lookup :: "conn_key \<Rightarrow> manager \<Rightarrow> nat option res" where
  "table_lookup key m =
     (case key of
        StrKey s \<Rightarrow> Inr (map_of (cm_int_connections m) s)
      | IntKey i \<Rightarrow> Inr (map_of (cm_connections m) i)
      | OtherKey \<Rightarrow> Inl ArgumentError)"

definition get_context :: "conn_key \<Rightarrow> manager \<Rightarrow> nat res" where
  "get_context key m =
     bind_res (table_lookup key m) (\<lambda>r. case r of None \<Rightarrow> Inl ArgumentError | Some r \<Rightarrow> Inr (cd_context (cm_store m ! r)))"

definition get_connection_id :: "conn_key \<Rightarrow> manager \<Rightarrow> int res" where
  "get_connection_id key m =
     bind_res (table_lookup key m) (\<lambda>r. case r of None \<Rightarrow> Inl ArgumentError | Some r \<Rightarrow> Inr (cd_connection_id (cm_store m ! r)))"

definition get_connection :: "conn_key \<Rightarrow> manager \<Rightarrow> nat option" where
  "get_connection key m = (case table_lookup key m of Inl e \<Rightarrow> None | Inr r \<Rightarrow> r)"

definition get_connection_state :: "conn_key \<Rightarrow> manager \<Rightarrow> int res" where
  "get_connection_state key m =
     bind_res (table_lookup key m) (\<lambda>r. case r of None \<Rightarrow> Inr Disconnected | Some r \<Rightarrow> Inr (cd_state (cm_store m ! r)))"

definition conn_state_name :: "conn_key \<Rightarrow> manager \<Rightarrow> string res" where
  "conn_state_name key m =
     bind_res (get_connection_state key m) (\<lambda>st.
       Inr (if st = Disconnected then ''Disconnected'' else if st = Connecting then ''Connecting''
            else if st = Idle then ''Idle'' else if st = InProgress then ''InProgress''
            else if st = Disconnecting then ''Disconnecting'' else ''Unknown state''))"

text \<open>\<open>ConnectionAction(...)\<close> and \<open>_actions.put\<close>.\<close>

definition new_action :: "action_data \<Rightarrow> int option \<Rightarrow> int \<Rightarrow> conn_action" where
  "new_action d timeout now = \<lparr>ca_data = d, ca_timeout = timeout, ca_start_time = now\<rparr>"

definition put_action :: "action_data \<Rightarrow> int option \<Rightarrow> manager \<Rightarrow> manager" where
  "put_action d timeout m = m\<lparr>cm_actions := cm_actions m @ [new_action d timeout (cm_now m)]\<rparr>"

abbreviation (input) default_timeout :: "int option" where "default_timeout \<equiv> Some 5000"

definition begin_connection :: "int \<Rightarrow> string \<Rightarrow> nat \<Rightarrow> nat \<Rightarrow> int option \<Rightarrow> manager \<Rightarrow> manager" where
  "begin_connection connection_id internal_id cb ctxt timeout =
     put_action (BeginConnection connection_id internal_id cb ctxt) timeout"

definition finish_connection :: "conn_key \<Rightarrow> bool \<Rightarrow> string option \<Rightarrow> manager \<Rightarrow> manager" where
  "finish_connection key successful failure_reason = put_action (FinishConnection key successful failure_reason) default_timeout"

definition unexpected_disconnect :: "conn_key \<Rightarrow> manager \<Rightarrow> manager" where
  "unexpected_disconnect key = put_action (ForceDisconnect key) default_timeout"

definition begin_disconnection :: "conn_key \<Rightarrow> nat \<Rightarrow> int option \<Rightarrow> manager \<Rightarrow> manager" where
  "begin_disconnection key cb timeout = put_action (BeginDisconnection key cb) timeout"

definition finish_disconnection :: "conn_key \<Rightarrow> bool \<Rightarrow> string option \<Rightarrow> manager \<Rightarrow> manager" where
  "finish_disconnection key successful failure_reason = put_action (FinishDisconnection key successful failure_reason) default_timeout"

definition begin_operation :: "conn_key \<Rightarrow> string \<Rightarrow> nat \<Rightarrow> int option \<Rightarrow> manager \<Rightarrow> manager" where
  "begin_operation key op_name cb timeout = put_action (BeginOperation key cb op_name) timeout"

definition finish_operation :: "conn_key \<Rightarrow> bool \<Rightarrow> call_arg list \<Rightarrow> manager \<Rightarrow> manager" where
  "finish_operation key success args = put_action (FinishOperation key success args) default_timeout"

text \<open>The timeouts of all connections; \<open>put\<close> adds the failures at the end of the queue.\<close>

definition time_out :: "int \<times> nat \<Rightarrow> manager \<Rightarrow> manager" where
  "time_out entry m =
     (case entry of (connection_id, r) \<Rightarrow>
        let d = cm_store m ! r in
        case cd_action d of
          None \<Rightarrow> m
        | Some a \<Rightarrow>
            if \<not> ca_expired (cm_now m) a then m
            else if cd_state d = Connecting then finish_connection (IntKey connection_id) False (Some ''Connection attempt timed out'') m
            else if cd_state d = Disconnecting
            then finish_disconnection (IntKey connection_id) False (Some ''Disconnection attempt timed out'') m
            else if cd_state d = InProgress then
              (if cd_microstate d = Some ''rpc''
               then finish_operation (IntKey connection_id) False [StrArg ''RPC timed out without response'', NoneArg, NoneArg] m
               else if cd_microstate d = Some ''open_interface''
               then finish_operation (IntKey connection_id) False [StrArg ''Open interface request timed out''] m
               else m)
            else m)"

definition check_timeouts :: "manager \<Rightarrow> manager" where
  "check_timeouts m = fold time_out (cm_connections m) m"

text \<open>A new connection is put into both tables.\<close>

definition insert_connection :: "conn_data \<Rightarrow> manager \<Rightarrow> manager" where
  "insert_connection d m =
     m\<lparr>cm_connections := AList.update (cd_connection_id d) (length (cm_store m)) (cm_connections m),
       cm_int_connections := AList.update (cd_internal_id d) (length (cm_store m)) (cm_int_connections m),
       cm_store := cm_store m @ [d]\<rparr>"

definition add_connection :: "int \<Rightarrow> string \<Rightarrow> nat \<Rightarrow> manager \<Rightarrow> (unit, manager) act" where
  "add_connection connection_id internal_id ctxt m =
     bind_act (get_connection_state (IntKey connection_id) m, m) (\<lambda>st m.
     if st \<noteq> Disconnected then (Inr (), m)
     else bind_act (get_connection_state (StrKey internal_id) m, m) (\<lambda>st m.
     if st \<noteq> Disconnected then (Inr (), m)
     else (Inr (), insert_connection
       \<lparr>cd_state = Idle, cd_microstate = None, cd_connection_id = connection_id, cd_internal_id = internal_id,
        cd_action = None, cd_context = ctxt\<rparr> m)))"

section \<open>The worker\<close>

text \<open>
  What a callback does to the manager is a parameter: the actions that it puts, and whether it raises.
\<close>

type_synonym reaction = "nat \<Rightarrow> call_arg list \<Rightarrow> (action_data \<times> int option) list \<times> bool"

definition call_back :: "reaction \<Rightarrow> nat \<Rightarrow> call_arg list \<Rightarrow> manager \<Rightarrow> (unit, manager) act" where
  "call_back react cb args m =
     (case react cb args of (puts, raises) \<Rightarrow>
        (if raises then Inl PlainException else Inr (),
         fold (\<lambda>(d, t). put_action d t) puts (m\<lparr>cm_calls := cm_calls m @ [(cb, args)]\<rparr>)))"

fun action_callback :: "action_data \<Rightarrow> nat option" where
  "action_callback (BeginConnection i s cb ctxt) = Some cb"
| "action_callback (BeginDisconnection key cb) = Some cb"
| "action_callback (BeginOperation key cb op_name) = Some cb"
| "action_callback _ = None"

text \<open>\<open>data['action'].data['callback']\<close>.\<close>

definition stored_callback :: "conn_data \<Rightarrow> nat res" where
  "stored_callback d =
     (case cd_action d of
        None \<Rightarrow> Inl KeyError
      | Some a \<Rightarrow> (case action_callback (ca_data a) of None \<Rightarrow> Inl KeyError | Some cb \<Rightarrow> Inr cb))"

definition set_data :: "nat \<Rightarrow> conn_data \<Rightarrow> manager \<Rightarrow> manager" where
  "set_data r d m = m\<lparr>cm_store := (cm_store m)[r := d]\<rparr>"

definition set_idle :: "nat \<Rightarrow> manager \<Rightarrow> manager" where
  "set_idle r m = set_data r ((cm_store m ! r)\<lparr>cd_state := Idle, cd_microstate := None, cd_action := None\<rparr>) m"

definition remove_connection :: "int \<Rightarrow> string \<Rightarrow> manager \<Rightarrow> (unit, manager) act" where
  "remove_connection i s m =
     (if map_of (cm_connections m) i = None then (Inl KeyError, m)
      else let m1 = m\<lparr>cm_connections := AList.delete i (cm_connections m)\<rparr> in
           if map_of (cm_int_connections m1) s = None then (Inl KeyError, m1)
           else (Inr (), m1\<lparr>cm_int_connections := AList.delete s (cm_int_connections m1)\<rparr>))"

text \<open>\<open>_get_connection\<close> in a handler; subscripting \<open>None\<close> raises.\<close>

definition with_connection ::
  "conn_key \<Rightarrow> (nat \<Rightarrow> conn_data \<Rightarrow> manager \<Rightarrow> (unit, manager) act) \<Rightarrow> manager \<Rightarrow> (unit, manager) act" where
  "with_connection key f m =
     (case get_connection key m of None \<Rightarrow> (Inl PyTypeError, m) | Some r \<Rightarrow> f r (cm_store m ! r) m)"

definition reason_arg :: "string option \<Rightarrow> call_arg" where
  "reason_arg failure_reason = StrArg (case failure_reason of None \<Rightarrow> ''No reason was given'' | Some t \<Rightarrow> t)"

fun key_arg :: "conn_key \<Rightarrow> call_arg" where
  "key_arg (IntKey i) = IntArg i"
| "key_arg (StrKey s) = StrArg s"
| "key_arg OtherKey = NoneArg"

definition begin_connection_action ::
  "reaction \<Rightarrow> conn_action \<Rightarrow> int \<Rightarrow> string \<Rightarrow> nat \<Rightarrow> nat \<Rightarrow> manager \<Rightarrow> (unit, manager) act" where
  "begin_connection_action react action connection_id internal_id cb ctxt m =
     bind_act (get_connection_state (IntKey connection_id) m, m) (\<lambda>st m.
     if st \<noteq> Disconnected
     then call_back react cb [IntArg connection_id, IntArg (cm_id m), BoolArg False,
            StrArg ''Connection ID is already in use for another connection''] m
     else bind_act (get_connection_state (StrKey internal_id) m, m) (\<lambda>st m.
     if st \<noteq> Disconnected
     then call_back react cb [IntArg connection_id, IntArg (cm_id m), BoolArg False,
            StrArg ''Internal ID is already in use for another connection''] m
     else (Inr (), insert_connection
       \<lparr>cd_state = Connecting, cd_microstate = None, cd_connection_id = connection_id, cd_internal_id = internal_id,
        cd_action = Some action, cd_context = ctxt\<rparr> m)))"

definition finish_connection_action ::
  "reaction \<Rightarrow> conn_key \<Rightarrow> bool \<Rightarrow> string option \<Rightarrow> manager \<Rightarrow> (unit, manager) act" where
  "finish_connection_action react key success failure_reason m =
     bind_act (get_connection_state key m, m) (\<lambda>st m.
     if st \<noteq> Connecting then (Inr (), m)
     else with_connection key (\<lambda>r d m.
       bind_act (stored_callback d, m) (\<lambda>cb m.
       if \<not> success
       then bind_act (remove_connection (cd_connection_id d) (cd_internal_id d) m) (\<lambda>_ m.
              call_back react cb [IntArg (cd_connection_id d), IntArg (cm_id m), BoolArg False, reason_arg failure_reason] m)
       else call_back react cb [IntArg (cd_connection_id d), IntArg (cm_id m), BoolArg True, NoneArg] (set_idle r m))) m)"

definition force_disconnect_action :: "reaction \<Rightarrow> conn_key \<Rightarrow> manager \<Rightarrow> (unit, manager) act" where
  "force_disconnect_action react key m =
     bind_act (get_connection_state key m, m) (\<lambda>st m.
     if st = Disconnected then (Inr (), m)
     else with_connection key (\<lambda>r d m.
       bind_act
        (if cd_state d = Connecting
         then bind_act (stored_callback d, m) (\<lambda>cb. call_back react cb
                [IntArg (cd_connection_id d), IntArg (cm_id m), BoolArg False, StrArg ''Unexpected disconnection''])
         else if cd_state d = Disconnecting
         then bind_act (stored_callback d, m) (\<lambda>cb. call_back react cb
                [IntArg (cd_connection_id d), IntArg (cm_id m), BoolArg True, NoneArg])
         else if cd_state d = InProgress
         then bind_act (stored_callback d, m) (\<lambda>cb.
                if cd_microstate d = Some ''rpc''
                then call_back react cb [BoolArg False, StrArg ''Unexpected disconnection'', IntArg 0xFF, NoneArg]
                else if cd_microstate d = Some ''open_interface'' \<or> cd_microstate d = Some ''close_interface''
                then call_back react cb [BoolArg False, StrArg ''Unexpected disconnection'']
                else (\<lambda>m. (Inr (), m)))
         else (Inr (), m)) (\<lambda>_ m.
       remove_connection (cd_connection_id d) (cd_internal_id d) m)) m)"

definition begin_disconnection_action :: "reaction \<Rightarrow> conn_action \<Rightarrow> conn_key \<Rightarrow> nat \<Rightarrow> manager \<Rightarrow> (unit, manager) act" where
  "begin_disconnection_action react action key cb m =
     bind_act (get_connection_state key m, m) (\<lambda>st m.
     if st \<noteq> Idle
     then call_back react cb [key_arg key, IntArg (cm_id m), BoolArg False,
            StrArg ''Cannot start disconnection, connection is not idle''] m
     else with_connection key (\<lambda>r d m.
       (Inr (), set_data r (d\<lparr>cd_state := Disconnecting, cd_microstate := None, cd_action := Some action\<rparr>) m)) m)"

definition finish_disconnection_action ::
  "reaction \<Rightarrow> conn_key \<Rightarrow> bool \<Rightarrow> string option \<Rightarrow> manager \<Rightarrow> (unit, manager) act" where
  "finish_disconnection_action react key success failure_reason m =
     bind_act (get_connection_state key m, m) (\<lambda>st m.
     if st \<noteq> Disconnecting then (Inr (), m)
     else with_connection key (\<lambda>r d m.
       bind_act (stored_callback d, m) (\<lambda>cb m.
       if \<not> success
       then call_back react cb [IntArg (cd_connection_id d), IntArg (cm_id m), BoolArg False, reason_arg failure_reason] (set_idle r m)
       else bind_act (remove_connection (cd_connection_id d) (cd_internal_id d) m) (\<lambda>_ m.
              call_back react cb [IntArg (cd_connection_id d), IntArg (cm_id m), BoolArg True, NoneArg] m))) m)"

definition begin_operation_action ::
  "reaction \<Rightarrow> conn_action \<Rightarrow> conn_key \<Rightarrow> nat \<Rightarrow> string \<Rightarrow> manager \<Rightarrow> (unit, manager) act" where
  "begin_operation_action react action key cb op_name m =
     bind_act (get_connection_state key m, m) (\<lambda>st m.
     if st \<noteq> Idle
     then call_back react cb [key_arg key, IntArg (cm_id m), BoolArg False,
            StrArg ''Cannot start operation, connection is not idle''] m
     else with_connection key (\<lambda>r d m.
       (Inr (), set_data r (d\<lparr>cd_state := InProgress, cd_microstate := Some op_name, cd_action := Some action\<rparr>) m)) m)"

definition finish_operation_action :: "reaction \<Rightarrow> conn_key \<Rightarrow> bool \<Rightarrow> call_arg list \<Rightarrow> manager \<Rightarrow> (unit, manager) act" where
  "finish_operation_action react key success args m =
     bind_act (get_connection_state key m, m) (\<lambda>st m.
     if st \<noteq> InProgress then (Inr (), m)
     else with_connection key (\<lambda>r d m.
       bind_act (stored_callback d, m) (\<lambda>cb m.
       call_back react cb ([IntArg (cd_connection_id d), IntArg (cm_id m), BoolArg success] @ args) (set_idle r m))) m)"

definition handle_action :: "reaction \<Rightarrow> conn_action \<Rightarrow> manager \<Rightarrow> (unit, manager) act" where
  "handle_action react a m =
     (case ca_data a of
        BeginConnection i s cb ctxt \<Rightarrow> begin_connection_action react a i s cb ctxt m
      | FinishConnection key success why \<Rightarrow> finish_connection_action react key success why m
      | ForceDisconnect key \<Rightarrow> force_disconnect_action react key m
      | BeginDisconnection key cb \<Rightarrow> begin_disconnection_action react a key cb m
      | FinishDisconnection key success why \<Rightarrow> finish_disconnection_action react key success why m
      | BeginOperation key cb op_name \<Rightarrow> begin_operation_action react a key cb op_name m
      | FinishOperation key success args \<Rightarrow> finish_operation_action react key success args m)"

text \<open>One round of the worker's loop; an exception of a handler is only logged.\<close>

definition worker_round :: "reaction \<Rightarrow> manager \<Rightarrow> manager" where
  "worker_round react m =
     (if cm_stopped m then m
      else let m1 = check_timeouts m in
           case cm_actions m1 of [] \<Rightarrow> m1 | a # q \<Rightarrow> snd (handle_action react a (m1\<lparr>cm_actions := q\<rparr>)))"

section \<open>The tables\<close>

text \<open>What is in the dictionary of a connection in each state.\<close>

definition data_ok :: "conn_data \<Rightarrow> bool" where
  "data_ok d \<longleftrightarrow>
     cd_state d = Idle \<and> cd_microstate d = None \<and> cd_action d = None \<or>
     (\<exists>a cb ctxt. cd_state d = Connecting \<and> cd_microstate d = None \<and> cd_action d = Some a \<and>
        ca_data a = BeginConnection (cd_connection_id d) (cd_internal_id d) cb ctxt) \<or>
     (\<exists>a key cb. cd_state d = Disconnecting \<and> cd_microstate d = None \<and> cd_action d = Some a \<and>
        ca_data a = BeginDisconnection key cb) \<or>
     (\<exists>a key cb op_name. cd_state d = InProgress \<and> cd_microstate d = Some op_name \<and> cd_action d = Some a \<and>
        ca_data a = BeginOperation key cb op_name)"

definition live :: "nat \<Rightarrow> manager \<Rightarrow> bool" where
  "live r m \<longleftrightarrow> r < length (cm_store m) \<and> data_ok (cm_store m ! r) \<and>
     map_of (cm_connections m) (cd_connection_id (cm_store m ! r)) = Some r \<and>
     map_of (cm_int_connections m) (cd_internal_id (cm_store m ! r)) = Some r"

definition manager_ok :: "manager \<Rightarrow> bool" where
  "manager_ok m \<longleftrightarrow>
     distinct (map fst (cm_connections m)) \<and> distinct (map fst (cm_int_connections m)) \<and>
     (\<forall>i r. map_of (cm_connections m) i = Some r \<longrightarrow> live r m \<and> cd_connection_id (cm_store m ! r) = i) \<and>
     (\<forall>s r. map_of (cm_int_connections m) s = Some r \<longrightarrow> live r m \<and> cd_internal_id (cm_store m ! r) = s)"

lemma data_okE:
  assumes "data_ok d"
  obtains (idle) "cd_state d = Idle" "cd_microstate d = None" "cd_action d = None"
  | (connecting) a cb ctxt where "cd_state d = Connecting" "cd_microstate d = None" "cd_action d = Some a"
      "ca_data a = BeginConnection (cd_connection_id d) (cd_internal_id d) cb ctxt"
  | (disconnecting) a key cb where "cd_state d = Disconnecting" "cd_microstate d = None" "cd_action d = Some a"
      "ca_data a = BeginDisconnection key cb"
  | (in_progress) a key cb op_name where "cd_state d = InProgress" "cd_microstate d = Some op_name" "cd_action d = Some a"
      "ca_data a = BeginOperation key cb op_name"
  using assms unfolding data_ok_def by (elim disjE exE conjE) (rule that; assumption)+

lemma data_ok_stored: "data_ok d \<Longrightarrow> cd_state d \<noteq> Idle \<Longrightarrow> \<exists>cb. stored_callback d = Inr cb"
  by (erule data_okE) (auto simp: stored_callback_def)

lemma liveD:
  assumes "live r m"
  shows "r < length (cm_store m)" "data_ok (cm_store m ! r)"
    "map_of (cm_connections m) (cd_connection_id (cm_store m ! r)) = Some r"
    "map_of (cm_int_connections m) (cd_internal_id (cm_store m ! r)) = Some r"
  using assms by (simp_all add: live_def)

lemma lookup_live:
  assumes "manager_ok m" "table_lookup key m = Inr (Some r)"
  shows "live r m"
  using assms by (auto simp: manager_ok_def table_lookup_def split: conn_key.splits)

lemma state_cases:
  assumes "manager_ok m" "get_connection_state key m = Inr st"
  obtains (absent) "st = Disconnected" "get_connection key m = None"
  | (present) r where "live r m" "get_connection key m = Some r" "cd_state (cm_store m ! r) = st" "st \<in> {1, 2, 3, 4}"
proof (cases "table_lookup key m")
  case (Inr x)
  show thesis
  proof (cases x)
    case None
    then show thesis using Inr assms(2) absent by (simp add: get_connection_state_def get_connection_def)
  next
    case (Some r)
    then have "live r m" using lookup_live [OF assms(1)] Inr by simp
    then show thesis using Inr Some assms(2) present liveD(2)
      by (auto simp: get_connection_state_def get_connection_def elim!: data_okE)
  qed
qed (use assms(2) in \<open>simp add: get_connection_state_def\<close>)

text \<open>Managers with the same connections.\<close>

definition same_tables :: "manager \<Rightarrow> manager \<Rightarrow> bool" where
  "same_tables m m' \<longleftrightarrow> cm_connections m' = cm_connections m \<and> cm_int_connections m' = cm_int_connections m \<and>
     cm_store m' = cm_store m"

lemma same_tables_refl [simp]: "same_tables m m" by (simp add: same_tables_def)

lemma same_tables_ok: "same_tables m m' \<Longrightarrow> manager_ok m' = manager_ok m"
  by (simp add: same_tables_def manager_ok_def live_def)

lemma put_actions_frame:
  fixes m :: manager and puts :: "(action_data \<times> int option) list"
  shows "same_tables m (fold (\<lambda>(d, t). put_action d t) puts m)"
  "cm_calls (fold (\<lambda>(d, t). put_action d t) puts m) = cm_calls m"
  by (induction puts arbitrary: m) (auto simp: same_tables_def put_action_def)

lemma call_back_frame:
  "same_tables m (snd (call_back react cb args m))"
  "cm_calls (snd (call_back react cb args m)) = cm_calls m @ [(cb, args)]"
  "fst (call_back react cb args m) = (if snd (react cb args) then Inl PlainException else Inr ())"
  using put_actions_frame [where m = "m\<lparr>cm_calls := cm_calls m @ [(cb, args)]\<rparr>" and puts = "fst (react cb args)"]
  by (cases "react cb args"; simp add: call_back_def same_tables_def)+

definition removed :: "nat \<Rightarrow> manager \<Rightarrow> manager" where
  "removed r m = m\<lparr>cm_connections := AList.delete (cd_connection_id (cm_store m ! r)) (cm_connections m),
     cm_int_connections := AList.delete (cd_internal_id (cm_store m ! r)) (cm_int_connections m)\<rparr>"

lemma remove_live:
  assumes "live r m"
  shows "remove_connection (cd_connection_id (cm_store m ! r)) (cd_internal_id (cm_store m ! r)) m = (Inr (), removed r m)"
  using liveD [OF assms] by (simp add: remove_connection_def removed_def)

lemma list_update_lookup: "xs[i := x] ! j = (if i = j \<and> i < length xs then x else xs ! j)"
  by (cases "i < length xs") (auto simp: nth_list_update list_update_beyond)

lemma ok_set_data:
  assumes "manager_ok m" "live r m" "data_ok d" "cd_connection_id d = cd_connection_id (cm_store m ! r)"
    "cd_internal_id d = cd_internal_id (cm_store m ! r)"
  shows "manager_ok (set_data r d m)"
proof -
  have "live r' (set_data r d m)" if "live r' m" for r'
    using that assms(3-5) by (auto simp: live_def set_data_def list_update_lookup)
  with assms(1,4,5) show ?thesis
    unfolding manager_ok_def set_data_def by (auto simp: list_update_lookup)
qed

lemma live_removed:
  assumes "live r m" "live r' m" "r' \<noteq> r"
  shows "live r' (removed r m)"
  using liveD [OF assms(1)] liveD [OF assms(2)] assms(3) by (auto simp: live_def removed_def delete_conv')

lemma ok_removed:
  assumes "manager_ok m" "live r m"
  shows "manager_ok (removed r m)"
  unfolding manager_ok_def
proof (intro conjI allI impI)
  show "distinct (map fst (cm_connections (removed r m)))" "distinct (map fst (cm_int_connections (removed r m)))"
    using assms(1) by (simp_all add: manager_ok_def removed_def distinct_delete)
  fix i r' assume "map_of (cm_connections (removed r m)) i = Some r'"
  then have "map_of (cm_connections m) i = Some r'" "i \<noteq> cd_connection_id (cm_store m ! r)"
    by (auto simp: removed_def delete_conv' split: if_splits)
  then have "live r' m" "cd_connection_id (cm_store m ! r') = i" "r' \<noteq> r"
    using assms(1) unfolding manager_ok_def by blast+
  then show "live r' (removed r m)" "cd_connection_id (cm_store (removed r m) ! r') = i"
    using live_removed [OF assms(2)] by (simp_all add: removed_def)
next
  fix s r' assume "map_of (cm_int_connections (removed r m)) s = Some r'"
  then have "map_of (cm_int_connections m) s = Some r'" "s \<noteq> cd_internal_id (cm_store m ! r)"
    by (auto simp: removed_def delete_conv' split: if_splits)
  then have "live r' m" "cd_internal_id (cm_store m ! r') = s" "r' \<noteq> r"
    using assms(1) unfolding manager_ok_def by blast+
  then show "live r' (removed r m)" "cd_internal_id (cm_store (removed r m) ! r') = s"
    using live_removed [OF assms(2)] by (simp_all add: removed_def)
qed

lemma live_insert:
  assumes "map_of (cm_connections m) (cd_connection_id d) = None" "map_of (cm_int_connections m) (cd_internal_id d) = None" "live r m"
  shows "live r (insert_connection d m)"
  using liveD [OF assms(3)] assms(1,2) by (auto simp: live_def insert_connection_def update_conv' nth_append)

lemma ok_insert:
  assumes "manager_ok m" "data_ok d" "map_of (cm_connections m) (cd_connection_id d) = None"
    "map_of (cm_int_connections m) (cd_internal_id d) = None"
  shows "manager_ok (insert_connection d m)"
proof -
  have new: "live (length (cm_store m)) (insert_connection d m)"
    using assms(2) by (simp add: live_def insert_connection_def update_conv')
  have old: "cm_store (insert_connection d m) ! r = cm_store m ! r" if "live r m" for r
    using liveD(1) [OF that] by (simp add: insert_connection_def nth_append)
  show ?thesis
    unfolding manager_ok_def
  proof (intro conjI allI impI)
    show "distinct (map fst (cm_connections (insert_connection d m)))" "distinct (map fst (cm_int_connections (insert_connection d m)))"
      using assms(1) by (simp_all add: manager_ok_def insert_connection_def distinct_update)
    fix i r assume "map_of (cm_connections (insert_connection d m)) i = Some r"
    then have "i = cd_connection_id d \<and> r = length (cm_store m) \<or> map_of (cm_connections m) i = Some r"
      by (auto simp: insert_connection_def update_conv' split: if_splits)
    then show "live r (insert_connection d m)" "cd_connection_id (cm_store (insert_connection d m) ! r) = i"
      using assms(1) new live_insert [OF assms(3,4)] old by (auto simp: manager_ok_def insert_connection_def)
  next
    fix s r assume "map_of (cm_int_connections (insert_connection d m)) s = Some r"
    then have "s = cd_internal_id d \<and> r = length (cm_store m) \<or> map_of (cm_int_connections m) s = Some r"
      by (auto simp: insert_connection_def update_conv' split: if_splits)
    then show "live r (insert_connection d m)" "cd_internal_id (cm_store (insert_connection d m) ! r) = s"
      using assms(1) new live_insert [OF assms(3,4)] old by (auto simp: manager_ok_def insert_connection_def)
  qed
qed

section \<open>What an action does\<close>

definition begun :: "conn_action \<Rightarrow> nat list" where
  "begun a = (case action_callback (ca_data a) of None \<Rightarrow> [] | Some cb \<Rightarrow> [cb])"

definition pending :: "conn_data \<Rightarrow> nat list" where
  "pending d = (case cd_action d of None \<Rightarrow> [] | Some a \<Rightarrow> begun a)"

lemma stored_pending: "stored_callback d = Inr cb \<Longrightarrow> pending d = [cb]"
  by (auto simp: stored_callback_def pending_def begun_def split: option.splits)

text \<open>The operations whose callbacks are called when the device disconnects by itself, and the keys of connections.\<close>

definition cancellable :: "string \<Rightarrow> bool" where
  "cancellable op_name \<longleftrightarrow> op_name \<in> {''rpc'', ''open_interface'', ''close_interface''}"

fun bad_key :: "action_data \<Rightarrow> bool" where
  "bad_key (BeginOperation key cb op_name) = (key = OtherKey)"
| "bad_key (BeginDisconnection key cb) = (key = OtherKey)"
| "bad_key _ = False"

text \<open>The requests whose callback may be dropped, and the actions that drop one or call one for a second time.\<close>

definition droppable :: "conn_action \<Rightarrow> bool" where
  "droppable a \<longleftrightarrow> bad_key (ca_data a) \<or>
     (case ca_data a of BeginOperation key cb op_name \<Rightarrow> \<not> cancellable op_name | _ \<Rightarrow> False)"

definition disrupting :: "conn_action \<Rightarrow> bool" where
  "disrupting a \<longleftrightarrow> bad_key (ca_data a) \<or> (case ca_data a of ForceDisconnect key \<Rightarrow> True | _ \<Rightarrow> False)"

text \<open>
  What one action does to the connections, which callbacks it calls, and which of the callbacks it drops.
  \<open>raised\<close> tells that a callback raised.
\<close>

inductive effect :: "bool \<Rightarrow> conn_action \<Rightarrow> nat list \<Rightarrow> nat list \<Rightarrow> manager \<Rightarrow> manager \<Rightarrow> bool" for raised a where
  e_ignored: "same_tables m m' \<Longrightarrow> begun a \<noteq> [] \<longrightarrow> bad_key (ca_data a) \<Longrightarrow> effect raised a [] (begun a) m m'"
| e_refused: "same_tables m m' \<Longrightarrow> effect raised a (begun a) [] m m'"
| e_new: "same_tables (insert_connection d m) m' \<Longrightarrow> data_ok d \<Longrightarrow> cd_state d = Connecting \<Longrightarrow> cd_action d = Some a \<Longrightarrow>
    map_of (cm_connections m) (cd_connection_id d) = None \<Longrightarrow> map_of (cm_int_connections m) (cd_internal_id d) = None \<Longrightarrow>
    effect raised a [] [] m m'"
| e_begin: "same_tables (set_data r d m) m' \<Longrightarrow> live r m \<Longrightarrow> cd_state (cm_store m ! r) = Idle \<Longrightarrow> data_ok d \<Longrightarrow>
    cd_state d \<in> {InProgress, Disconnecting} \<Longrightarrow> cd_action d = Some a \<Longrightarrow>
    cd_connection_id d = cd_connection_id (cm_store m ! r) \<Longrightarrow> cd_internal_id d = cd_internal_id (cm_store m ! r) \<Longrightarrow>
    effect raised a [] [] m m'"
| e_finish: "same_tables (set_idle r m) m' \<Longrightarrow> live r m \<Longrightarrow> cd_state (cm_store m ! r) \<noteq> Idle \<Longrightarrow> begun a = [] \<Longrightarrow>
    effect raised a (pending (cm_store m ! r)) [] m m'"
| e_close: "same_tables (removed r m) m' \<Longrightarrow> live r m \<Longrightarrow> begun a = [] \<Longrightarrow>
    cd_state (cm_store m ! r) \<in> {Connecting, Disconnecting} \<or> (\<exists>key. ca_data a = ForceDisconnect key) \<Longrightarrow>
    effect raised a (pending (cm_store m ! r)) [] m m'"
| e_drop: "same_tables (removed r m) m' \<Longrightarrow> live r m \<Longrightarrow> ca_data a = ForceDisconnect key \<Longrightarrow>
    cd_state (cm_store m ! r) = InProgress \<Longrightarrow> cd_microstate (cm_store m ! r) = Some op_name \<Longrightarrow> \<not> cancellable op_name \<Longrightarrow>
    effect raised a [] (pending (cm_store m ! r)) m m'"
| e_raised: "same_tables m m' \<Longrightarrow> live r m \<Longrightarrow> ca_data a = ForceDisconnect key \<Longrightarrow> raised \<Longrightarrow>
    effect raised a (pending (cm_store m ! r)) [] m m'"

inductive_cases effectE: "effect raised a called lost m m'"

text \<open>The callbacks called between two states.\<close>

definition calls_between :: "manager \<Rightarrow> manager \<Rightarrow> nat list \<Rightarrow> bool" where
  "calls_between m m' called \<longleftrightarrow> (\<exists>cs. cm_calls m' = cm_calls m @ cs \<and> map fst cs = called)"

lemma calls_between_call:
  "calls_between m (snd (call_back react cb args m)) [cb]"
  "calls_between m (snd (call_back react cb args (set_idle r m))) [cb]"
  "calls_between m (snd (call_back react cb args (removed r m))) [cb]"
  by (simp_all add: calls_between_def call_back_frame set_idle_def set_data_def removed_def)

lemma calls_between_none:
  "calls_between m m []" "calls_between m (removed r m) []" "calls_between m (set_data r d m) []"
  "calls_between m (insert_connection d m) []"
  by (simp_all add: calls_between_def removed_def set_data_def insert_connection_def)

definition acts :: "bool \<Rightarrow> conn_action \<Rightarrow> manager \<Rightarrow> manager \<Rightarrow> bool" where
  "acts raised a m m' \<longleftrightarrow> (\<exists>called lost. effect raised a called lost m m' \<and> calls_between m m' called)"

lemma actsI: "effect raised a called lost m m' \<Longrightarrow> calls_between m m' called \<Longrightarrow> acts raised a m m'"
  by (auto simp: acts_def)

lemma same_tables_call: "same_tables m (snd (call_back react cb args m))"
  by (rule call_back_frame)

lemma bind_act_call: "bind_act (call_back react cb args m) f =
  (if snd (react cb args) then (Inl PlainException, snd (call_back react cb args m)) else f () (snd (call_back react cb args m)))"
  using call_back_frame(3) [of react cb args m] by (cases "call_back react cb args m") auto

lemma data_ok_state: "data_ok d \<Longrightarrow> cd_state d \<noteq> Disconnected"
  by (erule data_okE) simp_all

lemma state_absent:
  assumes "get_connection_state key m = Inr Disconnected" "manager_ok m"
  shows "table_lookup key m = Inr None"
proof -
  obtain x where x: "table_lookup key m = Inr x" using assms(1) by (auto simp: get_connection_state_def bind_res_Inr_iff)
  have "x \<noteq> Some r" for r
    using x assms(1) data_ok_state [OF liveD(2) [OF lookup_live [OF assms(2)]]] by (auto simp: get_connection_state_def)
  then show ?thesis using x by auto
qed

lemma refused_acts: "begun a = [cb] \<Longrightarrow> acts raised a m (snd (call_back react cb args m))"
  by (rule actsI [OF e_refused [OF same_tables_call]]) (simp add: calls_between_call)

lemma ignored_acts: "begun a \<noteq> [] \<longrightarrow> bad_key (ca_data a) \<Longrightarrow> acts raised a m m"
  by (rule actsI [OF e_ignored [OF same_tables_refl] calls_between_none(1)])

lemma finish_acts:
  assumes "live r m" "cd_state (cm_store m ! r) \<noteq> Idle" "begun a = []" "stored_callback (cm_store m ! r) = Inr cb"
  shows "acts raised a m (snd (call_back react cb args (set_idle r m)))"
  using e_finish [OF same_tables_call assms(1-3)] calls_between_call(2) stored_pending [OF assms(4)]
  by (metis acts_def)

lemma close_acts:
  assumes "live r m" "begun a = []" "stored_callback (cm_store m ! r) = Inr cb"
    "cd_state (cm_store m ! r) \<in> {Connecting, Disconnecting} \<or> (\<exists>key. ca_data a = ForceDisconnect key)"
  shows "acts raised a m (snd (call_back react cb args (removed r m)))"
  using e_close [OF same_tables_call assms(1,2,4)] calls_between_call(3) stored_pending [OF assms(3)]
  by (metis acts_def)

lemma begin_acts:
  assumes "live r m" "cd_state (cm_store m ! r) = Idle" "data_ok d" "cd_state d \<in> {InProgress, Disconnecting}" "cd_action d = Some a"
    "cd_connection_id d = cd_connection_id (cm_store m ! r)" "cd_internal_id d = cd_internal_id (cm_store m ! r)"
  shows "acts raised a m (set_data r d m)"
  by (rule actsI [OF e_begin [OF same_tables_refl assms] calls_between_none(3)])

text \<open>What a handler finds in the table for its key.\<close>

lemma key_cases:
  assumes "manager_ok m"
  obtains (bad_key) "key = OtherKey" "get_connection_state key m = Inl ArgumentError"
  | (absent) "get_connection_state key m = Inr Disconnected"
  | (present) r where "live r m" "get_connection key m = Some r" "get_connection_state key m = Inr (cd_state (cm_store m ! r))"
      "cd_state (cm_store m ! r) \<noteq> Disconnected"
proof (cases "get_connection_state key m")
  case (Inl e)
  then have "key = OtherKey \<and> e = ArgumentError"
    by (auto simp: get_connection_state_def table_lookup_def split: conn_key.splits option.splits)
  then show thesis using Inl bad_key by simp
next
  case (Inr st)
  from assms Inr show thesis
  proof (cases rule: state_cases)
    case absent
    then show thesis using Inr that(2) by simp
  next
    case (present r)
    then show thesis using Inr that(3) by auto
  qed
qed

lemma begin_connection_acts:
  assumes "manager_ok m" "ca_data a = BeginConnection i s cb ctxt"
  shows "acts raised a m (snd (begin_connection_action react a i s cb ctxt m))"
proof -
  have b: "begun a = [cb]" using assms(2) by (simp add: begun_def)
  obtain st1 st2 where look: "get_connection_state (IntKey i) m = Inr st1" "get_connection_state (StrKey s) m = Inr st2"
    by (simp add: get_connection_state_def table_lookup_def) (metis option.case_eq_if)
  let ?d = "\<lparr>cd_state = Connecting, cd_microstate = None, cd_connection_id = i, cd_internal_id = s,
      cd_action = Some a, cd_context = ctxt\<rparr>"
  show ?thesis
  proof (cases "st1 = 0 \<and> st2 = 0")
    case True
    then have "map_of (cm_connections m) i = None" "map_of (cm_int_connections m) s = None"
      using state_absent [OF _ assms(1), of "IntKey i"] state_absent [OF _ assms(1), of "StrKey s"] look True
      by (simp_all add: table_lookup_def)
    moreover have "data_ok ?d" using assms(2) by (simp add: data_ok_def)
    ultimately have "effect raised a [] [] m (insert_connection ?d m)"
      by (intro e_new [of ?d]) simp_all
    then show ?thesis using True look calls_between_none(4) by (auto simp: begin_connection_action_def intro: actsI)
  next
    case False
    then show ?thesis using look refused_acts [OF b] by (auto simp: begin_connection_action_def)
  qed
qed

lemma finish_connection_acts:
  assumes "manager_ok m" "ca_data a = FinishConnection key success why"
  shows "acts raised a m (snd (finish_connection_action react key success why m))"
proof -
  have b: "begun a = []" using assms(2) by (simp add: begun_def)
  show ?thesis using assms(1)
  proof (cases rule: key_cases [of m key])
    case (present r)
    show ?thesis
    proof (cases "cd_state (cm_store m ! r) = Connecting")
      case True
      then obtain cb where "stored_callback (cm_store m ! r) = Inr cb" using data_ok_stored [OF liveD(2) [OF present(1)]] by auto
      then show ?thesis using present True b
        by (auto simp: finish_connection_action_def with_connection_def remove_live [OF present(1)] intro: close_acts finish_acts)
    qed (use present b ignored_acts in \<open>auto simp: finish_connection_action_def\<close>)
  qed (use b ignored_acts in \<open>auto simp: finish_connection_action_def\<close>)
qed

lemma finish_disconnection_acts:
  assumes "manager_ok m" "ca_data a = FinishDisconnection key success why"
  shows "acts raised a m (snd (finish_disconnection_action react key success why m))"
proof -
  have b: "begun a = []" using assms(2) by (simp add: begun_def)
  show ?thesis using assms(1)
  proof (cases rule: key_cases [of m key])
    case (present r)
    show ?thesis
    proof (cases "cd_state (cm_store m ! r) = Disconnecting")
      case True
      then obtain cb where "stored_callback (cm_store m ! r) = Inr cb" using data_ok_stored [OF liveD(2) [OF present(1)]] by auto
      then show ?thesis using present True b
        by (auto simp: finish_disconnection_action_def with_connection_def remove_live [OF present(1)] intro: close_acts finish_acts)
    qed (use present b ignored_acts in \<open>auto simp: finish_disconnection_action_def\<close>)
  qed (use b ignored_acts in \<open>auto simp: finish_disconnection_action_def\<close>)
qed

lemma finish_operation_acts:
  assumes "manager_ok m" "ca_data a = FinishOperation key success args"
  shows "acts raised a m (snd (finish_operation_action react key success args m))"
proof -
  have b: "begun a = []" using assms(2) by (simp add: begun_def)
  show ?thesis using assms(1)
  proof (cases rule: key_cases [of m key])
    case (present r)
    show ?thesis
    proof (cases "cd_state (cm_store m ! r) = InProgress")
      case True
      then obtain cb where "stored_callback (cm_store m ! r) = Inr cb" using data_ok_stored [OF liveD(2) [OF present(1)]] by auto
      then show ?thesis using present True b
        by (auto simp: finish_operation_action_def with_connection_def intro: finish_acts)
    qed (use present b ignored_acts in \<open>auto simp: finish_operation_action_def\<close>)
  qed (use b ignored_acts in \<open>auto simp: finish_operation_action_def\<close>)
qed

lemma begin_disconnection_acts:
  assumes "manager_ok m" "ca_data a = BeginDisconnection key cb"
  shows "acts raised a m (snd (begin_disconnection_action react a key cb m))"
proof -
  have b: "begun a = [cb]" using assms(2) by (simp add: begun_def)
  show ?thesis using assms(1)
  proof (cases rule: key_cases [of m key])
    case (present r)
    let ?d = "(cm_store m ! r)\<lparr>cd_state := Disconnecting, cd_microstate := None, cd_action := Some a\<rparr>"
    have "data_ok ?d" using assms(2) by (simp add: data_ok_def)
    then show ?thesis using present refused_acts [OF b] begin_acts [OF present(1), of ?d]
      by (auto simp: begin_disconnection_action_def with_connection_def)
  qed (use b assms(2) ignored_acts refused_acts [OF b] in \<open>auto simp: begin_disconnection_action_def\<close>)
qed

lemma begin_operation_acts:
  assumes "manager_ok m" "ca_data a = BeginOperation key cb op_name"
  shows "acts raised a m (snd (begin_operation_action react a key cb op_name m))"
proof -
  have b: "begun a = [cb]" using assms(2) by (simp add: begun_def)
  show ?thesis using assms(1)
  proof (cases rule: key_cases [of m key])
    case (present r)
    let ?d = "(cm_store m ! r)\<lparr>cd_state := InProgress, cd_microstate := Some op_name, cd_action := Some a\<rparr>"
    have "data_ok ?d" using assms(2) by (simp add: data_ok_def)
    then show ?thesis using present refused_acts [OF b] begin_acts [OF present(1), of ?d]
      by (auto simp: begin_operation_action_def with_connection_def)
  qed (use b assms(2) ignored_acts refused_acts [OF b] in \<open>auto simp: begin_operation_action_def\<close>)
qed

text \<open>A forced disconnection; \<open>raised\<close> covers a callback that raises before the connection is removed.\<close>

lemma force_disconnect_acts:
  assumes "manager_ok m" "ca_data a = ForceDisconnect key" "\<not> raised \<longrightarrow> (\<forall>cb args. \<not> snd (react cb args))"
  shows "acts raised a m (snd (force_disconnect_action react key m))"
proof -
  have b: "begun a = []" using assms(2) by (simp add: begun_def)
  show ?thesis using assms(1)
  proof (cases rule: key_cases [of m key])
    case (present r)
    let ?d = "cm_store m ! r"
    have keep: "removed r (snd (call_back react cb args m)) = snd (call_back react cb args m)
        \<lparr>cm_connections := cm_connections (removed r m), cm_int_connections := cm_int_connections (removed r m)\<rparr>" for cb args
      using same_tables_call [of m react cb args] by (simp add: removed_def same_tables_def)
    have closed: "acts raised a m (snd (bind_act (call_back react cb args m) (\<lambda>_ m.
        remove_connection (cd_connection_id ?d) (cd_internal_id ?d) m)))"
      if cb: "stored_callback ?d = Inr cb" for cb args
    proof (cases "snd (react cb args)")
      case True
      then have "effect raised a [cb] [] m (snd (call_back react cb args m))"
        using e_raised [OF same_tables_call present(1) assms(2)] assms(3) stored_pending [OF cb] by metis
      then show ?thesis using True calls_between_call(1) by (simp add: bind_act_call actsI)
    next
      case False
      let ?m1 = "snd (call_back react cb args m)"
      have live1: "live r ?m1" "cm_store ?m1 = cm_store m"
        using present(1) same_tables_call [of m react cb args] by (simp_all add: live_def same_tables_def)
      have "same_tables (removed r m) (removed r ?m1)"
        using same_tables_call [of m react cb args] by (simp add: same_tables_def removed_def)
      then have "effect raised a [cb] [] m (removed r ?m1)"
        using e_close [of r m] present(1) b assms(2) stored_pending [OF cb] by metis
      moreover have "calls_between m (removed r ?m1) [cb]"
        using calls_between_call(1) by (simp add: calls_between_def removed_def)
      ultimately show ?thesis using False remove_live [OF live1(1)] live1(2) by (simp add: bind_act_call actsI)
    qed
    show ?thesis using liveD(2) [OF present(1)]
    proof (cases rule: data_okE)
      case idle
      have "effect raised a [] [] m (removed r m)"
        using e_close [OF same_tables_refl present(1) b] assms(2) idle by (fastforce simp: pending_def)
      then show ?thesis using present idle calls_between_none(2)
        by (auto simp: force_disconnect_action_def with_connection_def remove_live [OF present(1)] intro: actsI)
    next
      case (connecting a' cb ctxt)
      then show ?thesis using present closed [of cb]
        by (simp add: force_disconnect_action_def with_connection_def stored_callback_def)
    next
      case (disconnecting a' key' cb)
      then show ?thesis using present closed [of cb]
        by (simp add: force_disconnect_action_def with_connection_def stored_callback_def)
    next
      case (in_progress a' key' cb op_name)
      show ?thesis
      proof (cases "cancellable op_name")
        case True
        then show ?thesis using in_progress present closed [of cb]
          by (auto simp: force_disconnect_action_def with_connection_def stored_callback_def cancellable_def)
      next
        case False
        have "acts raised a m (removed r m)"
          by (rule actsI [OF e_drop [OF same_tables_refl present(1) assms(2) in_progress(1,2) False] calls_between_none(2)])
        then show ?thesis using in_progress present False
          by (simp add: force_disconnect_action_def with_connection_def stored_callback_def cancellable_def remove_live [OF present(1)])
      qed
    qed
  qed (use b ignored_acts in \<open>auto simp: force_disconnect_action_def\<close>)
qed

lemma handle_acts:
  assumes "manager_ok m" "\<not> raised \<longrightarrow> (\<forall>cb args. \<not> snd (react cb args))"
  shows "acts raised a m (snd (handle_action react a m))"
  using assms begin_connection_acts finish_connection_acts force_disconnect_acts [of m a _ raised react] begin_disconnection_acts
    finish_disconnection_acts begin_operation_acts finish_operation_acts
  by (cases "ca_data a") (simp_all add: handle_action_def)

lemma effect_ok: "effect raised a called lost m m' \<Longrightarrow> manager_ok m \<Longrightarrow> manager_ok m'"
proof (erule effectE)
  fix r assume "same_tables (set_idle r m) m'" "live r m" "manager_ok m"
  moreover from this have "manager_ok (set_idle r m)"
    unfolding set_idle_def by (intro ok_set_data) (simp_all add: data_ok_def)
  ultimately show "manager_ok m'" by (simp add: same_tables_ok)
qed (auto simp: same_tables_ok ok_insert ok_set_data ok_removed dest!: same_tables_ok [THEN iffD2, rotated])

section \<open>Runs\<close>

text \<open>
  Other threads put actions, add connections and let time pass between any two steps of the worker, which looks
  for timeouts and handles the first action of the queue.
\<close>

datatype manager_event = PutAction | AddConnection | TimePasses | CheckTimeouts | HandleAction conn_action

inductive manager_step :: "bool \<Rightarrow> manager \<Rightarrow> manager_event \<Rightarrow> manager \<Rightarrow> bool" for raised where
  step_put: "manager_step raised m PutAction (put_action d t m)"
| step_add: "manager_step raised m AddConnection (snd (add_connection i s ctxt m))"
| step_time: "0 \<le> dt \<Longrightarrow> manager_step raised m TimePasses (m\<lparr>cm_now := cm_now m + dt\<rparr>)"
| step_check: "manager_step raised m CheckTimeouts (check_timeouts m)"
| step_handle: "cm_actions m = a # q \<Longrightarrow> \<not> raised \<longrightarrow> (\<forall>cb args. \<not> snd (react cb args)) \<Longrightarrow>
    manager_step raised m (HandleAction a) (snd (handle_action react a (m\<lparr>cm_actions := q\<rparr>)))"

inductive manager_run :: "bool \<Rightarrow> manager \<Rightarrow> manager_event list \<Rightarrow> manager \<Rightarrow> bool" for raised m0 where
  run_nil: "manager_run raised m0 [] m0"
| run_step: "manager_run raised m0 es m \<Longrightarrow> manager_step raised m e m' \<Longrightarrow> manager_run raised m0 (es @ [e]) m'"

inductive_cases manager_stepE: "manager_step raised m e m'"

definition handled :: "manager_event list \<Rightarrow> conn_action list" where
  "handled es = concat (map (\<lambda>e. case e of HandleAction a \<Rightarrow> [a] | _ \<Rightarrow> []) es)"

lemma handled_simps [simp]: "handled [] = []" "handled (es @ fs) = handled es @ handled fs" "handled [HandleAction a] = [a]"
  "handled [PutAction] = []" "handled [AddConnection] = []" "handled [TimePasses] = []" "handled [CheckTimeouts] = []"
  by (simp_all add: handled_def)

lemma time_out_frame: "same_tables m (time_out entry m) \<and> cm_calls (time_out entry m) = cm_calls m"
  by (cases entry) (simp add: time_out_def Let_def finish_connection_def finish_disconnection_def finish_operation_def
      put_action_def same_tables_def split: option.splits)

lemma check_timeouts_frame: "same_tables m (check_timeouts m) \<and> cm_calls (check_timeouts m) = cm_calls m"
proof -
  have "same_tables m (fold time_out es m) \<and> cm_calls (fold time_out es m) = cm_calls m" for es
  proof (induction es arbitrary: m)
    case (Cons e es)
    then show ?case using time_out_frame [of m e] Cons [of "time_out e m"] by (auto simp: same_tables_def)
  qed simp
  then show ?thesis by (simp add: check_timeouts_def)
qed

text \<open>A connection that was made before the manager started is added idle, or not at all.\<close>

lemma add_connection_cases:
  assumes "manager_ok m"
  obtains (kept) "snd (add_connection i s ctxt m) = m"
  | (added) "map_of (cm_connections m) i = None" "map_of (cm_int_connections m) s = None"
      "snd (add_connection i s ctxt m) = insert_connection \<lparr>cd_state = Idle, cd_microstate = None, cd_connection_id = i,
         cd_internal_id = s, cd_action = None, cd_context = ctxt\<rparr> m"
proof -
  obtain st1 st2 where look: "get_connection_state (IntKey i) m = Inr st1" "get_connection_state (StrKey s) m = Inr st2"
    by (simp add: get_connection_state_def table_lookup_def) (metis option.case_eq_if)
  show thesis
  proof (cases "st1 = 0 \<and> st2 = 0")
    case True
    then have "map_of (cm_connections m) i = None" "map_of (cm_int_connections m) s = None"
      using state_absent [OF _ assms, of "IntKey i"] state_absent [OF _ assms, of "StrKey s"] look
      by (simp_all add: table_lookup_def)
    then show thesis using added True look by (simp add: add_connection_def)
  qed (use look kept in \<open>auto simp: add_connection_def\<close>)
qed

text \<open>The connections of a step: those of an action, an added one, or the same as before.\<close>

inductive change :: "bool \<Rightarrow> manager_event \<Rightarrow> nat list \<Rightarrow> nat list \<Rightarrow> manager \<Rightarrow> manager \<Rightarrow> bool" for raised where
  c_same: "same_tables m m' \<Longrightarrow> handled [e] = [] \<Longrightarrow> change raised e [] [] m m'"
| c_add: "data_ok d \<Longrightarrow> cd_state d = Idle \<Longrightarrow> cd_action d = None \<Longrightarrow> map_of (cm_connections m) (cd_connection_id d) = None \<Longrightarrow>
    map_of (cm_int_connections m) (cd_internal_id d) = None \<Longrightarrow> change raised AddConnection [] [] m (insert_connection d m)"
| c_act: "effect raised a called lost m m' \<Longrightarrow> change raised (HandleAction a) called lost m m'"

lemma effect_frame: "effect raised a called lost (m\<lparr>cm_actions := q\<rparr>) m' \<Longrightarrow> effect raised a called lost m m'"
proof (induction "m\<lparr>cm_actions := q\<rparr>" m' rule: effect.induct)
  case (e_new d m')
  then show ?case by (intro effect.e_new [of d]) (simp_all add: same_tables_def insert_connection_def)
next
  case (e_begin r d m')
  then show ?case by (intro effect.e_begin [of r d]) (simp_all add: same_tables_def set_data_def live_def)
next
  case (e_finish r m')
  then show ?case using effect.e_finish [of r m m' a raised] by (simp add: same_tables_def set_data_def set_idle_def live_def)
next
  case (e_close r m')
  then show ?case using effect.e_close [of r m m' a raised] by (simp add: same_tables_def removed_def live_def)
next
  case (e_drop r m' key op_name)
  then show ?case using effect.e_drop [of r m m' a key op_name raised] by (simp add: same_tables_def removed_def live_def)
next
  case (e_raised m' r key)
  then show ?case using effect.e_raised [of m m' r a key raised] by (simp add: same_tables_def live_def)
qed (auto intro: effect.intros simp: same_tables_def)

lemma step_change:
  assumes "manager_ok m" "manager_step raised m e m'"
  shows "\<exists>called lost. change raised e called lost m m' \<and> calls_between m m' called"
  using assms(2)
proof cases
  case (step_add i s ctxt)
  show ?thesis
    using assms(1)
  proof (cases rule: add_connection_cases [of m i s ctxt])
    case kept
    then show ?thesis using step_add c_same [OF same_tables_refl, of AddConnection raised m] calls_between_none(1) by auto
  next
    case added
    let ?d = "\<lparr>cd_state = Idle, cd_microstate = None, cd_connection_id = i, cd_internal_id = s, cd_action = None, cd_context = ctxt\<rparr>"
    have "data_ok ?d" by (simp add: data_ok_def)
    then show ?thesis using step_add added c_add [of ?d m raised] calls_between_none(4) [of m ?d] by auto
  qed
next
  case (step_handle a q react)
  have "manager_ok (m\<lparr>cm_actions := q\<rparr>)" using assms(1) same_tables_ok [of m "m\<lparr>cm_actions := q\<rparr>"] by (simp add: same_tables_def)
  then have "acts raised a (m\<lparr>cm_actions := q\<rparr>) m'" using handle_acts step_handle by metis
  then obtain called lost where "effect raised a called lost (m\<lparr>cm_actions := q\<rparr>) m'" "calls_between (m\<lparr>cm_actions := q\<rparr>) m' called"
    by (auto simp: acts_def)
  then show ?thesis using effect_frame c_act step_handle(1) by (fastforce simp: calls_between_def)
next
  case step_check
  then show ?thesis using check_timeouts_frame [of m] c_same [of m m' CheckTimeouts raised] by (auto simp: calls_between_def)
qed (auto simp: calls_between_def same_tables_def put_action_def intro!: exI [of _ "[]"] c_same)

lemma step_ok:
  assumes "manager_ok m" "manager_step raised m e m'"
  shows "manager_ok m'"
proof -
  obtain called lost where "change raised e called lost m m'" using step_change [OF assms] by blast
  then show ?thesis using assms(1) by cases (auto simp: same_tables_ok ok_insert intro: effect_ok)
qed

lemma run_ok: "manager_run raised m0 es m \<Longrightarrow> manager_ok m0 \<Longrightarrow> manager_ok m"
  by (induction rule: manager_run.induct) (auto intro: step_ok)

lemma new_manager_ok [simp]: "manager_ok (new_manager n)"
  by (simp add: manager_ok_def new_manager_def)

section \<open>Answers\<close>

text \<open>The callbacks that connections wait to call.\<close>

definition waiting :: "manager \<Rightarrow> nat multiset" where
  "waiting m = mset (concat (map (\<lambda>(i, r). pending (cm_store m ! r)) (cm_connections m)))"

lemma waiting_cong: "same_tables m m' \<Longrightarrow> waiting m' = waiting m"
  by (simp add: waiting_def same_tables_def)

lemma split_live:
  assumes "manager_ok m" "live r m"
  obtains xs ys where "cm_connections m = xs @ (cd_connection_id (cm_store m ! r), r) # ys"
    "\<forall>(i, r') \<in> set (xs @ ys). i \<noteq> cd_connection_id (cm_store m ! r) \<and> r' \<noteq> r"
proof -
  obtain xs ys where c: "cm_connections m = xs @ (cd_connection_id (cm_store m ! r), r) # ys"
    using liveD(3) [OF assms(2)] by (meson map_of_SomeD split_list)
  have dist: "distinct (map fst (cm_connections m))" using assms(1) by (simp add: manager_ok_def)
  have other: "i \<noteq> cd_connection_id (cm_store m ! r)" if "(i, r') \<in> set (xs @ ys)" for i r'
  proof
    assume "i = cd_connection_id (cm_store m ! r)"
    then have "cd_connection_id (cm_store m ! r) \<in> fst ` set (xs @ ys)" using that by (auto intro: image_eqI [where x = "(i, r')"])
    then show False using dist c by auto
  qed
  moreover have "cd_connection_id (cm_store m ! r') = i" if "(i, r') \<in> set (xs @ ys)" for i r'
  proof -
    have "map_of (cm_connections m) i = Some r'"
      using that c dist by (intro map_of_is_SomeI) auto
    then show ?thesis using assms(1) unfolding manager_ok_def by blast
  qed
  ultimately have "\<forall>(i, r') \<in> set (xs @ ys). i \<noteq> cd_connection_id (cm_store m ! r) \<and> r' \<noteq> r" by fast
  with c show thesis by (rule that)
qed

lemma waiting_set_data:
  assumes "manager_ok m" "live r m"
  shows "waiting (set_data r d m) + mset (pending (cm_store m ! r)) = waiting m + mset (pending d)"
proof -
  obtain xs ys where c: "cm_connections m = xs @ (cd_connection_id (cm_store m ! r), r) # ys"
    "\<forall>(i, r') \<in> set (xs @ ys). i \<noteq> cd_connection_id (cm_store m ! r) \<and> r' \<noteq> r"
    using split_live [OF assms] .
  have "map (\<lambda>(i, r'). pending ((cm_store m)[r := d] ! r')) zs = map (\<lambda>(i, r'). pending (cm_store m ! r')) zs"
    if "set zs \<subseteq> set (xs @ ys)" for zs
  proof (intro map_cong refl)
    fix x assume "x \<in> set zs"
    then have "x \<in> set (xs @ ys)" using that by blast
    then have "snd x \<noteq> r" using c(2) by (cases x) auto
    then show "(case x of (i, r') \<Rightarrow> pending ((cm_store m)[r := d] ! r')) = (case x of (i, r') \<Rightarrow> pending (cm_store m ! r'))"
      by (cases x) simp
  qed
  from this [of xs] this [of ys] show ?thesis using liveD(1) [OF assms(2)] by (simp add: waiting_def set_data_def c(1) del: map_eq_conv)
qed

lemma waiting_removed:
  assumes "manager_ok m" "live r m"
  shows "waiting (removed r m) + mset (pending (cm_store m ! r)) = waiting m"
proof -
  obtain xs ys where c: "cm_connections m = xs @ (cd_connection_id (cm_store m ! r), r) # ys"
    "\<forall>(i, r') \<in> set (xs @ ys). i \<noteq> cd_connection_id (cm_store m ! r) \<and> r' \<noteq> r"
    using split_live [OF assms] .
  have "filter (\<lambda>(i, r'). i \<noteq> cd_connection_id (cm_store m ! r)) zs = zs" if "set zs \<subseteq> set (xs @ ys)" for zs
    using that c(2) by (intro filter_True) auto
  then have "AList.delete (cd_connection_id (cm_store m ! r)) (cm_connections m) = xs @ ys"
    by (simp add: AList.delete_eq c(1) prod.case_eq_if eq_commute)
  then show ?thesis by (simp add: waiting_def removed_def c(1))
qed

lemma waiting_insert:
  assumes "manager_ok m" "map_of (cm_connections m) (cd_connection_id d) = None"
  shows "waiting (insert_connection d m) = waiting m + mset (pending d)"
proof -
  have "AList.update k v al = al @ [(k, v)]" if "map_of al k = None" for k :: int and v :: nat and al
    using that by (induction al) (auto split: if_splits)
  moreover have "map (\<lambda>(i, r). pending ((cm_store m @ [d]) ! r)) (cm_connections m) = map (\<lambda>(i, r). pending (cm_store m ! r)) (cm_connections m)"
  proof (intro map_cong refl)
    fix x assume "x \<in> set (cm_connections m)"
    then have "map_of (cm_connections m) (fst x) = Some (snd x)" using assms(1) by (simp add: manager_ok_def)
    then have "live (snd x) m" using assms(1) unfolding manager_ok_def by blast
    then have "snd x < length (cm_store m)" by (rule liveD)
    then show "(case x of (i, r) \<Rightarrow> pending ((cm_store m @ [d]) ! r)) = (case x of (i, r) \<Rightarrow> pending (cm_store m ! r))"
      by (simp add: nth_append prod.case_eq_if)
  qed
  ultimately show ?thesis using assms(2) by (simp add: waiting_def insert_connection_def del: map_eq_conv)
qed

lemma one_pending: "length (begun a) \<le> 1" "length (pending d) \<le> 1"
  by (simp_all add: begun_def pending_def split: option.split)

text \<open>\<open>again\<close> are callbacks that are called although they are still waiting.\<close>

lemma effect_answers:
  assumes "effect raised a called lost m m'" "manager_ok m"
  shows "\<exists>again. mset (begun a) + waiting m + again = mset called + mset lost + waiting m' \<and>
    size again + length lost \<le> (if disrupting a then 1 else 0) \<and> (\<not> raised \<longrightarrow> again = {#})"
proof -
  have none: ?thesis if "mset (begun a) + waiting m = mset called + waiting m'" "lost = []"
    using that by (intro exI [of _ "{#}"]) simp
  show ?thesis using assms(1)
  proof cases
    case e_ignored
    then have "length lost \<le> (if disrupting a then 1 else 0)"
      using one_pending(1) [of a] by (cases "begun a") (auto simp: disrupting_def)
    then show ?thesis using e_ignored by (intro exI [of _ "{#}"]) (simp add: waiting_cong)
  next
    case e_refused
    then show ?thesis by (intro none) (simp_all add: waiting_cong)
  next
    case (e_new d)
    then show ?thesis using waiting_insert [OF assms(2)] waiting_cong [OF e_new(3)] by (intro none) (simp_all add: pending_def)
  next
    case (e_begin r d)
    have "pending (cm_store m ! r) = []"
      using liveD(2) [OF e_begin(4)] e_begin(5) by (auto simp: pending_def elim: data_okE)
    then show ?thesis using e_begin waiting_set_data [OF assms(2) e_begin(4), of d] waiting_cong [OF e_begin(3)]
      by (intro none) (simp_all add: pending_def)
  next
    case (e_finish r)
    then show ?thesis
      using waiting_set_data [OF assms(2) e_finish(4), of "(cm_store m ! r)\<lparr>cd_state := Idle, cd_microstate := None, cd_action := None\<rparr>"]
        waiting_cong [OF e_finish(3)]
      by (intro none) (simp_all add: set_idle_def pending_def [of "(cm_store m ! r)\<lparr>cd_state := Idle, cd_microstate := None, cd_action := None\<rparr>"] union_commute)
  next
    case (e_close r)
    then show ?thesis using waiting_removed [OF assms(2) e_close(4)] waiting_cong [OF e_close(3)] by (intro none) (simp_all add: union_commute)
  next
    case (e_drop r key op_name)
    then show ?thesis using waiting_removed [OF assms(2) e_drop(4)] waiting_cong [OF e_drop(3)] one_pending(2) [of "cm_store m ! r"]
      by (intro exI [of _ "{#}"]) (simp add: begun_def disrupting_def union_commute)
  next
    case (e_raised r key)
    then show ?thesis using waiting_cong [OF e_raised(3)] one_pending(2) [of "cm_store m ! r"]
      by (intro exI [of _ "mset (pending (cm_store m ! r))"]) (simp add: begun_def disrupting_def union_commute)
  qed
qed

text \<open>The action that a connection keeps was handled before.\<close>

definition from_handled :: "conn_action list \<Rightarrow> manager \<Rightarrow> bool" where
  "from_handled as m \<longleftrightarrow> (\<forall>r a. live r m \<longrightarrow> cd_action (cm_store m ! r) = Some a \<longrightarrow> a \<in> set as)"

lemma live_cases:
  "live r' (set_data r d m) \<Longrightarrow> live r m \<Longrightarrow> cd_connection_id d = cd_connection_id (cm_store m ! r) \<Longrightarrow>
     cd_internal_id d = cd_internal_id (cm_store m ! r) \<Longrightarrow>
     live r' m \<and> cm_store (set_data r d m) ! r' = (if r' = r then d else cm_store m ! r')"
  "live r' (removed r m) \<Longrightarrow> live r' m"
  "live r' (insert_connection d m) \<Longrightarrow> r' = length (cm_store m) \<or> live r' m \<and> cm_store (insert_connection d m) ! r' = cm_store m ! r'"
  by (auto simp: live_def set_data_def removed_def insert_connection_def list_update_lookup delete_conv' update_conv' nth_append
      split: if_splits)

lemma from_handled_same: "from_handled as m \<Longrightarrow> same_tables m m' \<Longrightarrow> set as \<subseteq> set bs \<Longrightarrow> from_handled bs m'"
  by (auto simp: from_handled_def live_def same_tables_def)

lemma from_handled_set:
  assumes "from_handled as m" "live r m" "cd_connection_id d = cd_connection_id (cm_store m ! r)"
    "cd_internal_id d = cd_internal_id (cm_store m ! r)" "set as \<subseteq> set bs" "\<And>a. cd_action d = Some a \<Longrightarrow> a \<in> set bs"
  shows "from_handled bs (set_data r d m)"
  using assms live_cases(1) [OF _ assms(2-4)] unfolding from_handled_def by (metis subsetD)

lemma from_handled_removed: "from_handled as m \<Longrightarrow> set as \<subseteq> set bs \<Longrightarrow> from_handled bs (removed r m)"
  unfolding from_handled_def
proof (intro allI impI)
  fix r' a assume as: "\<forall>r a. live r m \<longrightarrow> cd_action (cm_store m ! r) = Some a \<longrightarrow> a \<in> set as" "set as \<subseteq> set bs"
    and a: "live r' (removed r m)" "cd_action (cm_store (removed r m) ! r') = Some a"
  have "live r' m" using a(1) by (rule live_cases)
  then show "a \<in> set bs" using as a(2) by (auto simp: removed_def)
qed

lemma from_handled_insert:
  assumes "from_handled as m" "set as \<subseteq> set bs" "\<And>a. cd_action d = Some a \<Longrightarrow> a \<in> set bs"
  shows "from_handled bs (insert_connection d m)"
  unfolding from_handled_def
proof (intro allI impI)
  fix r a assume a: "live r (insert_connection d m)" "cd_action (cm_store (insert_connection d m) ! r) = Some a"
  from live_cases(3) [OF a(1)] show "a \<in> set bs"
  proof
    assume "r = length (cm_store m)"
    then show ?thesis using a(2) assms(3) by (simp add: insert_connection_def)
  next
    assume "live r m \<and> cm_store (insert_connection d m) ! r = cm_store m ! r"
    then show ?thesis using a(2) assms(1,2) by (auto simp: from_handled_def)
  qed
qed

lemma change_handled:
  assumes "change raised e called lost m m'" "from_handled as m"
  shows "from_handled (as @ handled [e]) m'"
  using assms(1)
proof cases
  case (c_act a)
  from c_act(2) show ?thesis
  proof cases
    case (e_new d)
    then show ?thesis using c_act(1) by (intro from_handled_same [OF from_handled_insert [OF assms(2), where bs = "as @ handled [e]"] e_new(3)]) auto
  next
    case (e_begin r d)
    then show ?thesis using c_act(1) by (intro from_handled_same [OF from_handled_set [OF assms(2) e_begin(4), where bs = "as @ handled [e]"] e_begin(3)]) auto
  next
    case (e_finish r)
    then show ?thesis unfolding set_idle_def
      using c_act(1) by (intro from_handled_same [OF from_handled_set [OF assms(2) e_finish(4), where bs = "as @ handled [e]"] e_finish(3) [unfolded set_idle_def]]) auto
  next
    case (e_close r)
    then show ?thesis by (intro from_handled_same [OF from_handled_removed [OF assms(2), where bs = "as @ handled [e]"] e_close(3)]) auto
  next
    case (e_drop r key op_name)
    then show ?thesis by (intro from_handled_same [OF from_handled_removed [OF assms(2), where bs = "as @ handled [e]"] e_drop(3)]) auto
  qed (auto intro: from_handled_same [OF assms(2)])
next
  case (c_add d)
  then show ?thesis by (auto intro!: from_handled_insert [OF assms(2)])
qed (auto intro: from_handled_same [OF assms(2)])

lemma run_handled:
  assumes "manager_run raised (new_manager n) es m"
  shows "from_handled (handled es) m"
  using assms
proof (induction rule: manager_run.induct)
  case run_nil
  then show ?case by (simp add: from_handled_def live_def new_manager_def)
next
  case (run_step es m e m')
  then show ?case using step_change [OF run_ok [OF run_step.hyps(1)]] change_handled by fastforce
qed

text \<open>The callbacks of an event's requests, and those that may be dropped among them.\<close>

definition requested :: "conn_action list \<Rightarrow> nat list" where
  "requested as = concat (map begun as)"

lemma requested_simps [simp]: "requested [] = []" "requested (as @ bs) = requested as @ requested bs" "requested [a] = begun a"
  by (simp_all add: requested_def)

lemma begun_requested: "a \<in> set as \<Longrightarrow> set (begun a) \<subseteq> set (requested as)"
  by (auto simp: requested_def)

lemma effect_lost:
  assumes "effect raised a called lost m m'" "from_handled as m"
  shows "set lost \<subseteq> set (requested (filter droppable (as @ [a])))"
  using assms(1)
proof cases
  case e_ignored
  then show ?thesis by (cases "begun a") (auto simp: droppable_def)
next
  case (e_drop r key op_name)
  from liveD(2) [OF e_drop(4)] show ?thesis
  proof (cases rule: data_okE)
    case (in_progress b key' cb op)
    then have "b \<in> set as" using assms(2) e_drop(4) by (simp add: from_handled_def)
    moreover have "droppable b" using in_progress e_drop by (simp add: droppable_def)
    ultimately have "set (begun b) \<subseteq> set (requested (filter droppable as))" by (intro begun_requested) simp
    then show ?thesis using e_drop in_progress by (auto simp: pending_def)
  qed (use e_drop in simp_all)
qed auto

lemma step_answers:
  assumes "manager_step raised m e m'" "manager_ok m" "from_handled as m"
  shows "\<exists>called lost again. calls_between m m' called \<and>
    mset (requested (handled [e])) + waiting m + again = mset called + mset lost + waiting m' \<and>
    set lost \<subseteq> set (requested (filter droppable (as @ handled [e]))) \<and>
    size again + length lost \<le> length (filter disrupting (handled [e])) \<and> (\<not> raised \<longrightarrow> again = {#})"
proof -
  obtain called lost where c: "change raised e called lost m m'" "calls_between m m' called"
    using step_change [OF assms(2,1)] by blast
  from c(1) show ?thesis
  proof cases
    case (c_act a)
    then show ?thesis using effect_answers [OF c_act(2) assms(2)] effect_lost [OF c_act(2) assms(3)] c(2)
      by (intro exI [of _ called] exI [of _ lost]) (auto simp del: mset_append)
  next
    case (c_add d)
    then show ?thesis using waiting_insert [OF assms(2)] c(2)
      by (intro exI [of _ called] exI [of _ lost] exI [of _ "{#}"]) (simp add: pending_def)
  next
    case c_same
    then show ?thesis using c(2) waiting_cong [OF c_same(3)]
      by (intro exI [of _ called] exI [of _ lost] exI [of _ "{#}"]) simp
  qed
qed

text \<open>The state of a connection, for clients.\<close>

definition conn_state :: "int \<Rightarrow> manager \<Rightarrow> int" where
  "conn_state i m = (case map_of (cm_connections m) i of None \<Rightarrow> Disconnected | Some r \<Rightarrow> cd_state (cm_store m ! r))"

text \<open>The transitions that the documentation allows, with failures.\<close>

definition protocol :: "(int \<times> int) set" where
  "protocol = {(Disconnected, Connecting), (Connecting, Idle), (Connecting, Disconnected), (Idle, InProgress), (InProgress, Idle),
     (Idle, Disconnecting), (Disconnecting, Idle), (Disconnecting, Disconnected)}"

lemma conn_state_same: "same_tables m m' \<Longrightarrow> conn_state i m' = conn_state i m"
  by (simp add: conn_state_def same_tables_def split: option.split)

lemma conn_state_live: "live r m \<Longrightarrow> conn_state (cd_connection_id (cm_store m ! r)) m = cd_state (cm_store m ! r)"
  by (simp add: conn_state_def live_def)

lemma conn_state_set:
  assumes "manager_ok m" "live r m" "cd_connection_id d = cd_connection_id (cm_store m ! r)"
  shows "conn_state i (set_data r d m) = (if i = cd_connection_id (cm_store m ! r) then cd_state d else conn_state i m)"
proof -
  note r = liveD(1,3) [OF assms(2)]
  show ?thesis
  proof (cases "i = cd_connection_id (cm_store m ! r)")
    case True
    then show ?thesis using r by (simp add: conn_state_def set_data_def)
  next
    case False
    then have "r' \<noteq> r" if "map_of (cm_connections m) i = Some r'" for r'
      using that assms(1) unfolding manager_ok_def by blast
    then show ?thesis using False by (cases "map_of (cm_connections m) i") (simp_all add: conn_state_def set_data_def)
  qed
qed

lemma conn_state_removed: "conn_state i (removed r m) = (if i = cd_connection_id (cm_store m ! r) then Disconnected else conn_state i m)"
  by (simp add: conn_state_def removed_def delete_conv' split: option.split)

lemma conn_state_insert:
  assumes "manager_ok m"
  shows "conn_state i (insert_connection d m) = (if i = cd_connection_id d then cd_state d else conn_state i m)"
proof -
  have "map_of (cm_connections m) i = Some r \<Longrightarrow> r < length (cm_store m)" for i r
    using assms liveD(1) unfolding manager_ok_def by blast
  then show ?thesis by (auto simp: conn_state_def insert_connection_def update_conv' nth_append split: option.splits)
qed

lemma effect_protocol:
  assumes "effect raised a called lost m m'" "manager_ok m" "conn_state i m' \<noteq> conn_state i m"
  shows "(conn_state i m, conn_state i m') \<in> protocol \<or> (\<exists>key. ca_data a = ForceDisconnect key) \<and> conn_state i m' = Disconnected"
  using assms(1)
proof cases
  case (e_new d)
  then have "i = cd_connection_id d" "conn_state i m' = 1"
    using assms(3) conn_state_insert [OF assms(2), of i d] conn_state_same [OF e_new(3)] by (auto split: if_splits)
  then show ?thesis using e_new by (simp add: protocol_def conn_state_def)
next
  case (e_begin r d)
  then have "i = cd_connection_id (cm_store m ! r)" "conn_state i m' = cd_state d"
    using assms(3) conn_state_set [OF assms(2) e_begin(4) e_begin(9)] conn_state_same [OF e_begin(3)] by (auto split: if_splits)
  then show ?thesis using e_begin conn_state_live [OF e_begin(4)] by (auto simp: protocol_def)
next
  case (e_finish r)
  then have "i = cd_connection_id (cm_store m ! r)" "conn_state i m' = Idle"
    using assms(3) conn_state_set [OF assms(2) e_finish(4)] conn_state_same [OF e_finish(3)] by (auto simp: set_idle_def split: if_splits)
  moreover have "cd_state (cm_store m ! r) \<in> {1, 3, 4}" using liveD(2) [OF e_finish(4)] e_finish(5) by (auto elim: data_okE)
  ultimately show ?thesis using conn_state_live [OF e_finish(4)] by (auto simp: protocol_def)
next
  case (e_close r)
  then have "i = cd_connection_id (cm_store m ! r)" "conn_state i m' = 0"
    using assms(3) conn_state_removed [of i r m] conn_state_same [OF e_close(3)] by (auto split: if_splits)
  then show ?thesis using e_close(6) conn_state_live [OF e_close(4)] by (auto simp: protocol_def)
next
  case (e_drop r key op_name)
  then show ?thesis using assms(3) conn_state_removed [of i r m] conn_state_same [OF e_drop(3)] by (auto split: if_splits)
qed (use assms(3) conn_state_same in auto)

section \<open>Properties\<close>

text \<open>
  C20: the tables of connections.  Whatever actions are put and handled in whatever order, also with callbacks that
  raise, both tables name the same connections under their own keys, and what is stored of a connection fits its
  state: a connection that is idle has no action, and every other one has the action that brought it there.
\<close>

theorem connections_agree:
  assumes "manager_run raised (new_manager n) es m"
  shows "manager_ok m"
  using run_ok [OF assms] by simp

text \<open>
  C21: every request is accounted for.  Whatever actions are put and handled in whatever order, and whatever callbacks do,
  the callbacks of the requests handled so far are those that were called, those that connections still wait to call,
  and those that were dropped.  Dropped are only callbacks of requests whose key is neither a number nor a string, and of
  operations other than RPCs and opening or closing an interface; and each loss, like each callback that is
  called once more after it raised, is due to a handled action of its own, a forced disconnection or a request with such a
  key.  If no callback raises none is called twice.
\<close>

theorem answered_once:
  assumes "manager_run raised (new_manager n) es m"
  shows "\<exists>dropped again. mset (requested (handled es)) + again = mset (map fst (cm_calls m)) + waiting m + dropped \<and>
    set_mset dropped \<subseteq> set (requested (filter droppable (handled es))) \<and>
    size again + size dropped \<le> length (filter disrupting (handled es)) \<and> (\<not> raised \<longrightarrow> again = {#})"
  using assms
proof (induction rule: manager_run.induct)
  case run_nil
  then show ?case by (simp add: waiting_def new_manager_def)
next
  case (run_step es m e m')
  then obtain dropped again where IH: "mset (requested (handled es)) + again = mset (map fst (cm_calls m)) + waiting m + dropped"
      "set_mset dropped \<subseteq> set (requested (filter droppable (handled es)))"
      "size again + size dropped \<le> length (filter disrupting (handled es))" "\<not> raised \<longrightarrow> again = {#}" by blast
  obtain called lost again' where step: "calls_between m m' called"
      "mset (requested (handled [e])) + waiting m + again' = mset called + mset lost + waiting m'"
      "set lost \<subseteq> set (requested (filter droppable (handled es @ handled [e])))"
      "size again' + length lost \<le> length (filter disrupting (handled [e]))" "\<not> raised \<longrightarrow> again' = {#}"
    using step_answers [OF run_step.hyps(2) run_ok [OF run_step.hyps(1)] run_handled [OF run_step.hyps(1)]] by auto
  have "mset (map fst (cm_calls m')) = mset (map fst (cm_calls m)) + mset called"
    using step(1) by (auto simp: calls_between_def)
  moreover have "(mset (requested (handled es)) + again) + (mset (requested (handled [e])) + waiting m + again') =
      (mset (map fst (cm_calls m)) + waiting m + dropped) + (mset called + mset lost + waiting m')"
    using IH(1) step(2) by simp
  ultimately have "mset (requested (handled (es @ [e]))) + (again + again') =
      mset (map fst (cm_calls m')) + waiting m' + (dropped + mset lost)"
    by (simp add: ac_simps)
  then show ?case using IH(2-4) step(3-5)
    by (intro exI [of _ "dropped + mset lost"] exI [of _ "again + again'"]) auto
qed

text \<open>
  C22: the states of a connection.  A step changes the state of a connection only as the documented protocol says,
  except that a forced disconnection leads from any state to the end and that an adopted connection starts idle.
\<close>

theorem protocol_followed:
  assumes "manager_run raised (new_manager n) es m" "manager_step raised m e m'" "conn_state i m' \<noteq> conn_state i m"
  shows "(conn_state i m, conn_state i m') \<in> protocol \<or>
    (\<exists>a key. e = HandleAction a \<and> ca_data a = ForceDisconnect key) \<and> conn_state i m' = Disconnected \<or>
    e = AddConnection \<and> conn_state i m = Disconnected \<and> conn_state i m' = Idle"
proof -
  have ok: "manager_ok m" using run_ok [OF assms(1)] by simp
  obtain called lost where "change raised e called lost m m'" using step_change [OF ok assms(2)] by blast
  then show ?thesis
  proof cases
    case (c_act a)
    then show ?thesis using effect_protocol [OF c_act(2) ok assms(3)] by auto
  next
    case (c_add d)
    then have "i = cd_connection_id d" using assms(3) conn_state_insert [OF ok] by (auto split: if_splits)
    then show ?thesis using c_add conn_state_insert [OF ok, of i d] by (simp add: conn_state_def)
  qed (use assms(3) conn_state_same in auto)
qed

section \<open>Timeouts\<close>

text \<open>The connections that time out, and the action that fails them.\<close>

fun timeout_action :: "int \<Rightarrow> conn_data \<Rightarrow> action_data option" where
  "timeout_action i d =
     (if cd_state d = Connecting then Some (FinishConnection (IntKey i) False (Some ''Connection attempt timed out''))
      else if cd_state d = Disconnecting then Some (FinishDisconnection (IntKey i) False (Some ''Disconnection attempt timed out''))
      else if cd_state d = InProgress \<and> cd_microstate d = Some ''rpc''
      then Some (FinishOperation (IntKey i) False [StrArg ''RPC timed out without response'', NoneArg, NoneArg])
      else if cd_state d = InProgress \<and> cd_microstate d = Some ''open_interface''
      then Some (FinishOperation (IntKey i) False [StrArg ''Open interface request timed out''])
      else None)"

lemma time_out_eq: "time_out (i, r) m =
  (case cd_action (cm_store m ! r) of
     None \<Rightarrow> m
   | Some a \<Rightarrow> if \<not> ca_expired (cm_now m) a then m
       else case timeout_action i (cm_store m ! r) of None \<Rightarrow> m | Some d \<Rightarrow> put_action d default_timeout m)"
  by (auto simp: time_out_def Let_def finish_connection_def finish_disconnection_def finish_operation_def split: option.splits)

text \<open>What the search for timeouts puts into the queue.\<close>

fun timeout_put :: "manager \<Rightarrow> int \<times> nat \<Rightarrow> conn_action list" where
  "timeout_put m (i, r) =
     (case cd_action (cm_store m ! r) of
        None \<Rightarrow> []
      | Some a \<Rightarrow> if \<not> ca_expired (cm_now m) a then []
          else case timeout_action i (cm_store m ! r) of None \<Rightarrow> [] | Some d \<Rightarrow> [new_action d default_timeout (cm_now m)])"

definition timeout_puts :: "manager \<Rightarrow> conn_action list" where
  "timeout_puts m = concat (map (timeout_put m) (cm_connections m))"

lemma check_timeouts_puts: "check_timeouts m = m\<lparr>cm_actions := cm_actions m @ timeout_puts m\<rparr>"
proof -
  have "fold time_out es (m\<lparr>cm_actions := q\<rparr>) = m\<lparr>cm_actions := q @ concat (map (timeout_put m) es)\<rparr>" for es q
  proof (induction es arbitrary: q)
    case (Cons e es)
    then show ?case by (cases e) (simp add: time_out_eq put_action_def split: option.splits)
  qed simp
  from this [of "cm_connections m" "cm_actions m"] show ?thesis by (simp add: check_timeouts_def timeout_puts_def)
qed

text \<open>Handlers only add to the queue.\<close>

lemma call_back_queue: "\<exists>puts. cm_actions (snd (call_back react cb args m)) = cm_actions m @ puts"
proof -
  have "\<exists>puts. cm_actions (fold (\<lambda>(d, t). put_action d t) ps m) = cm_actions m @ puts" for ps m
  proof (induction ps arbitrary: m)
    case (Cons p ps)
    obtain d t where "p = (d, t)" by fastforce
    then show ?case using Cons [of "put_action d t m"] by (auto simp: put_action_def)
  qed simp
  from this [of "fst (react cb args)" "m\<lparr>cm_calls := cm_calls m @ [(cb, args)]\<rparr>"] show ?thesis
    by (cases "react cb args") (simp add: call_back_def)
qed

definition grows :: "manager \<Rightarrow> ('a, manager) act \<Rightarrow> bool" where
  "grows m x \<longleftrightarrow> (\<exists>puts. cm_actions (snd x) = cm_actions m @ puts) \<and> cm_stopped (snd x) = cm_stopped m \<and> cm_now (snd x) = cm_now m"

lemma grows_refl: "cm_actions m' = cm_actions m \<Longrightarrow> cm_stopped m' = cm_stopped m \<Longrightarrow> cm_now m' = cm_now m \<Longrightarrow> grows m (x, m')"
  by (simp add: grows_def)

lemma put_actions_rest:
  fixes m :: manager and puts :: "(action_data \<times> int option) list"
  shows "cm_stopped (fold (\<lambda>(d, t). put_action d t) puts m) = cm_stopped m"
    "cm_now (fold (\<lambda>(d, t). put_action d t) puts m) = cm_now m"
proof (induction puts arbitrary: m)
  case (Cons p puts)
  { case 1 show ?case using Cons(1) [of "put_action (fst p) (snd p) m"] by (cases p) (simp add: put_action_def) }
  { case 2 show ?case using Cons(2) [of "put_action (fst p) (snd p) m"] by (cases p) (simp add: put_action_def) }
qed simp_all

lemma grows_call: "grows m (call_back react cb args m)"
  using call_back_queue [of react cb args m] put_actions_rest
  by (cases "react cb args") (simp add: grows_def call_back_def)

lemma grows_bind:
  assumes "grows m x" "\<And>a m'. x = (Inr a, m') \<Longrightarrow> grows m' (f a m')"
  shows "grows m (bind_act x f)"
proof -
  obtain y m1 where x: "x = (y, m1)" by fastforce
  show ?thesis
  proof (cases y)
    case (Inr a)
    then show ?thesis using assms(1) assms(2) [of a m1] x by (auto simp: grows_def)
  qed (use assms(1) x in \<open>simp add: grows_def\<close>)
qed

lemma grows_trans: "grows m (y, m1) \<Longrightarrow> grows m1 x \<Longrightarrow> grows m x"
  by (auto simp: grows_def)

lemma grows_remove: "grows m (remove_connection i s m)"
  by (simp add: remove_connection_def grows_def Let_def)

lemma grows_with: "(\<And>r. grows m (f r (cm_store m ! r) m)) \<Longrightarrow> grows m (with_connection key f m)"
  by (simp add: with_connection_def grows_refl split: option.split)

lemma grows_idle_call: "grows m (call_back react cb args (set_idle r m))"
  by (rule grows_trans [OF _ grows_call]) (simp add: grows_def set_idle_def set_data_def)

lemmas grows_intros = grows_bind grows_call grows_remove grows_with grows_idle_call grows_refl

lemma handle_grows: "grows m (handle_action react a m)"
  by (cases "ca_data a")
    (auto simp: handle_action_def begin_connection_action_def finish_connection_action_def force_disconnect_action_def
      begin_disconnection_action_def finish_disconnection_action_def begin_operation_action_def finish_operation_action_def
      set_data_def insert_connection_def intro!: grows_intros split: if_splits)

text \<open>A connection that times out keeps its dictionary until its callback is called.\<close>

lemma timeout_busy: "timeout_action i d = Some f \<Longrightarrow> cd_state d \<noteq> Idle"
  by (auto split: if_splits)

lemma effect_busy:
  assumes "effect raised a called lost m m'" "live r m" "timeout_action i (cm_store m ! r) = Some f"
  shows "live r m' \<and> cm_store m' ! r = cm_store m ! r \<or> called = pending (cm_store m ! r)"
proof -
  have same: "live r m1 \<and> cm_store m1 ! r = cm_store m ! r \<Longrightarrow> same_tables m1 m' \<Longrightarrow> live r m' \<and> cm_store m' ! r = cm_store m ! r" for m1
    by (auto simp: live_def same_tables_def)
  have other: "live r (set_data r' d m) \<and> cm_store (set_data r' d m) ! r = cm_store m ! r" if "r' \<noteq> r" for r' d
    using assms(2) that by (simp add: live_def set_data_def)
  have gone: "live r (removed r' m) \<and> cm_store (removed r' m) ! r = cm_store m ! r" if "live r' m" "r' \<noteq> r" for r'
    using live_removed [OF that(1) assms(2)] that by (simp add: removed_def)
  from assms(1) show ?thesis
  proof cases
    case (e_new d)
    have "cm_store (insert_connection d m) ! r = cm_store m ! r"
      using liveD(1) [OF assms(2)] by (simp add: insert_connection_def nth_append)
    then show ?thesis using same [OF _ e_new(3)] live_insert [OF e_new(7,8) assms(2)] by simp
  next
    case (e_begin r' d)
    then have "r' \<noteq> r" using timeout_busy [OF assms(3)] by auto
    then show ?thesis using same [OF other e_begin(3)] by simp
  next
    case (e_finish r')
    then show ?thesis using same [OF other e_finish(3) [unfolded set_idle_def]] by (cases "r' = r") auto
  next
    case (e_close r')
    then show ?thesis using same [OF gone [OF e_close(4)] e_close(3)] by (cases "r' = r") auto
  next
    case (e_drop r' key op_name)
    have "r' \<noteq> r" using e_drop assms(3) by (auto simp: cancellable_def)
    then show ?thesis using same [OF gone [OF e_drop(4)] e_drop(3)] by simp
  qed (use assms(2) same in auto)
qed

lemma handle_timeout:
  assumes "live r m" "timeout_action (cd_connection_id (cm_store m ! r)) (cm_store m ! r) = Some (ca_data x)"
    "stored_callback (cm_store m ! r) = Inr cb"
  shows "\<exists>args. cm_calls (snd (handle_action react x m)) = cm_calls m @ [(cb, args)]"
proof -
  let ?d = "cm_store m ! r"
  have look: "get_connection_state (IntKey (cd_connection_id ?d)) m = Inr (cd_state ?d)"
    "get_connection (IntKey (cd_connection_id ?d)) m = Some r"
    using liveD(3) [OF assms(1)] by (simp_all add: get_connection_state_def get_connection_def table_lookup_def)
  have idle: "cm_calls (set_idle r m) = cm_calls m" "cm_calls (removed r m) = cm_calls m"
    by (simp_all add: set_idle_def set_data_def removed_def)
  show ?thesis
    using assms(2) look idle assms(3) remove_live [OF assms(1)]
    by (auto simp: handle_action_def finish_connection_action_def finish_disconnection_action_def finish_operation_action_def
        with_connection_def call_back_frame split: if_splits dest!: sym [of _ "ca_data x"])
qed

lemma round_cases:
  assumes "manager_ok m" "\<not> cm_stopped m" "cm_actions (check_timeouts m) = a # q"
  shows "\<exists>called lost puts. effect True a called lost m (worker_round react m) \<and> calls_between m (worker_round react m) called \<and>
    cm_actions (worker_round react m) = q @ puts \<and> \<not> cm_stopped (worker_round react m)"
proof -
  let ?m1 = "check_timeouts m\<lparr>cm_actions := q\<rparr>"
  have m1: "?m1 = m\<lparr>cm_actions := q\<rparr>" by (simp add: check_timeouts_puts)
  have r: "worker_round react m = snd (handle_action react a (m\<lparr>cm_actions := q\<rparr>))"
    using assms(2,3) m1 by (simp add: worker_round_def Let_def)
  have "manager_ok (m\<lparr>cm_actions := q\<rparr>)" using assms(1) same_tables_ok [of m "m\<lparr>cm_actions := q\<rparr>"] by (simp add: same_tables_def)
  then obtain called lost where e: "effect True a called lost (m\<lparr>cm_actions := q\<rparr>) (worker_round react m)"
    "calls_between (m\<lparr>cm_actions := q\<rparr>) (worker_round react m) called"
    using handle_acts [of "m\<lparr>cm_actions := q\<rparr>" True react a] r by (auto simp: acts_def)
  have "\<exists>puts. cm_actions (worker_round react m) = q @ puts" "\<not> cm_stopped (worker_round react m)"
    using handle_grows [of "m\<lparr>cm_actions := q\<rparr>" react a] assms(2) r by (auto simp: grows_def)
  then show ?thesis using effect_frame [OF e(1)] e(2) by (auto simp: calls_between_def)
qed

lemma round_frame:
  assumes "manager_ok m"
  shows "manager_ok (worker_round react m) \<and> (\<exists>cs. cm_calls (worker_round react m) = cm_calls m @ cs)"
proof (cases "cm_stopped m")
  case False
  show ?thesis
  proof (cases "cm_actions (check_timeouts m)")
    case Nil
    then have "worker_round react m = check_timeouts m" using False by (simp add: worker_round_def)
    then show ?thesis using check_timeouts_frame [of m] assms same_tables_ok by auto
  next
    case (Cons a q)
    then show ?thesis using round_cases [OF assms False Cons, of react] assms effect_ok by (fastforce simp: calls_between_def)
  qed
qed (use assms in \<open>simp add: worker_round_def\<close>)

lemma rounds_frame: "manager_ok m \<Longrightarrow> \<exists>cs. cm_calls (fold worker_round reacts m) = cm_calls m @ cs"
proof (induction reacts arbitrary: m)
  case (Cons react reacts)
  obtain cs1 where "manager_ok (worker_round react m)" "cm_calls (worker_round react m) = cm_calls m @ cs1"
    using round_frame [OF Cons.prems] by blast
  moreover from this obtain cs2 where "cm_calls (fold worker_round reacts (worker_round react m)) = cm_calls (worker_round react m) @ cs2"
    using Cons.IH by blast
  ultimately show ?case by simp
qed simp

text \<open>The action that fails the request comes closer to the head of the queue with every round.\<close>

lemma queue_drains:
  assumes "manager_ok m" "\<not> cm_stopped m" "live r m" "timeout_action (cd_connection_id (cm_store m ! r)) (cm_store m ! r) = Some (ca_data x)"
    "stored_callback (cm_store m ! r) = Inr cb" "cm_actions (check_timeouts m) = pre @ x # post" "length pre < length reacts"
  shows "\<exists>cs. cm_calls (fold worker_round reacts m) = cm_calls m @ cs \<and> cb \<in> fst ` set cs"
  using assms
proof (induction pre arbitrary: m reacts post)
  case Nil
  then obtain react rest where reacts: "reacts = react # rest" by (cases reacts) auto
  let ?m1 = "m\<lparr>cm_actions := post\<rparr>"
  have r: "worker_round react m = snd (handle_action react x ?m1)"
    using Nil.prems(2,6) by (simp add: worker_round_def Let_def check_timeouts_puts)
  have "live r ?m1" using Nil.prems(3) by (simp add: live_def)
  then obtain args where "cm_calls (worker_round react m) = cm_calls m @ [(cb, args)]"
    using handle_timeout [of r ?m1 x cb react] Nil.prems(4,5) r by auto
  moreover obtain cs where "cm_calls (fold worker_round rest (worker_round react m)) = cm_calls (worker_round react m) @ cs"
    using rounds_frame round_frame [OF Nil.prems(1)] by blast
  ultimately show ?case using reacts by (auto intro!: exI [of _ "(cb, args) # cs"])
next
  case (Cons a pre)
  then obtain react rest where reacts: "reacts = react # rest" by (cases reacts) auto
  let ?m' = "worker_round react m"
  obtain called lost puts where r: "effect True a called lost m ?m'" "calls_between m ?m' called"
    "cm_actions ?m' = pre @ x # post @ puts" "\<not> cm_stopped ?m'"
    using round_cases [OF Cons.prems(1,2), of a "pre @ x # post" react] Cons.prems(6) by auto
  obtain cs1 where cs1: "cm_calls ?m' = cm_calls m @ cs1" "map fst cs1 = called" using r(2) by (auto simp: calls_between_def)
  have ok: "manager_ok ?m'" using round_frame [OF Cons.prems(1)] by blast
  from effect_busy [OF r(1) Cons.prems(3,4)] show ?case
  proof
    assume busy: "live r ?m' \<and> cm_store ?m' ! r = cm_store m ! r"
    have "cm_actions (check_timeouts ?m') = pre @ x # (post @ puts @ timeout_puts ?m')" using r(3) by (simp add: check_timeouts_puts)
    then obtain cs where "cm_calls (fold worker_round rest ?m') = cm_calls ?m' @ cs" "cb \<in> fst ` set cs"
      using Cons.IH [OF ok r(4), of "post @ puts @ timeout_puts ?m'" rest] busy Cons.prems(4,5,7) reacts by auto
    then show ?thesis using reacts cs1 by (auto intro!: exI [of _ "cs1 @ cs"])
  next
    assume "called = pending (cm_store m ! r)"
    then have "map fst cs1 = [cb]" using cs1 stored_pending [OF Cons.prems(5)] by simp
    moreover obtain cs where "cm_calls (fold worker_round rest ?m') = cm_calls ?m' @ cs" using rounds_frame [OF ok] by blast
    ultimately show ?thesis using reacts cs1 by (auto intro!: exI [of _ "cs1 @ cs"] simp: image_iff)
  qed
qed

lemma timeout_puts_length: "length (timeout_puts m) \<le> length (cm_connections m)"
proof -
  have "length (concat (map f xs)) \<le> length xs" if "\<And>x. length (f x) \<le> 1" for f :: "int \<times> nat \<Rightarrow> conn_action list" and xs
  proof (induction xs)
    case (Cons x xs)
    then show ?case using that [of x] by simp
  qed simp
  moreover have "length (timeout_put m x) \<le> 1" for x by (cases x) (simp split: option.split)
  ultimately show ?thesis unfolding timeout_puts_def by blast
qed

section \<open>Properties of timeouts\<close>

text \<open>
  C23: which requests time out.  Once the time of a connection attempt, a disconnection, an RPC or the opening of an
  interface is over, its callback is called within as many rounds of the worker as there are actions in the queue and
  connections, whatever callbacks do and whatever else is put into the queue by them.  Any other operation, closing an
  interface or a script among them, is never failed by the check for timeouts, however much time passes.
\<close>

theorem expired_request_answered:
  assumes "manager_run raised (new_manager n) es m" "\<not> cm_stopped m" "map_of (cm_connections m) i = Some r"
    and "cd_action (cm_store m ! r) = Some a" "ca_expired (cm_now m) a" "action_callback (ca_data a) = Some cb"
  shows "if cd_state (cm_store m ! r) = InProgress \<and> cd_microstate (cm_store m ! r) \<notin> {Some ''rpc'', Some ''open_interface''}
    then \<forall>dt. time_out (i, r) (m\<lparr>cm_now := cm_now m + dt\<rparr>) = m\<lparr>cm_now := cm_now m + dt\<rparr>
    else length (cm_actions m) + length (cm_connections m) \<le> length reacts \<longrightarrow>
      (\<exists>cs. cm_calls (fold worker_round reacts m) = cm_calls m @ cs \<and> cb \<in> fst ` set cs)"
proof -
  let ?d = "cm_store m ! r"
  have ok: "manager_ok m" using run_ok [OF assms(1)] by simp
  then have r: "live r m" "cd_connection_id ?d = i" using assms(3) unfolding manager_ok_def by blast+
  have busy: "cd_state ?d \<in> {1, 3, 4}" using liveD(2) [OF r(1)] assms(4) by (auto elim: data_okE)
  show ?thesis
  proof (cases "cd_state ?d = InProgress \<and> cd_microstate ?d \<notin> {Some ''rpc'', Some ''open_interface''}")
    case True
    then show ?thesis by (simp add: time_out_eq split: option.split)
  next
    case False
    then obtain f where f: "timeout_action i ?d = Some f" using busy by auto
    let ?x = "new_action f default_timeout (cm_now m)"
    have "?x \<in> set (timeout_puts m)"
      using map_of_SomeD [OF assms(3)] assms(4,5) f
      by (auto simp: timeout_puts_def simp del: timeout_action.simps intro!: bexI [of _ "(i, r)"])
    then obtain pre post where t: "timeout_puts m = pre @ ?x # post" by (meson split_list)
    have cb: "stored_callback ?d = Inr cb" using assms(4,6) by (simp add: stored_callback_def)
    have "cm_actions (check_timeouts m) = (cm_actions m @ pre) @ ?x # post" using t by (simp add: check_timeouts_puts)
    moreover have "length (cm_actions m @ pre) < length reacts"
      if "length (cm_actions m) + length (cm_connections m) \<le> length reacts"
      using that timeout_puts_length [of m] t by simp
    ultimately have "\<exists>cs. cm_calls (fold worker_round reacts m) = cm_calls m @ cs \<and> cb \<in> fst ` set cs"
      if "length (cm_actions m) + length (cm_connections m) \<le> length reacts"
      using that queue_drains [OF ok assms(2) r(1), of ?x cb "cm_actions m @ pre" post reacts] f r(2) cb
      by (simp add: new_action_def)
    then show ?thesis by (subst if_not_P [OF False]) blast
  qed
qed

definition silent :: reaction where "silent cb args = ([], False)"

definition first_attempt :: conn_action where
  "first_attempt = \<lparr>ca_data = BeginConnection 1 ''a'' 5 0, ca_timeout = Some 10, ca_start_time = 0\<rparr>"

definition attempting :: "int \<Rightarrow> manager" where
  "attempting now = \<lparr>cm_id = 0, cm_stopped = False, cm_actions = [], cm_connections = [(1, 0)], cm_int_connections = [(''a'', 0)],
     cm_store = [\<lparr>cd_state = Connecting, cd_microstate = None, cd_connection_id = 1, cd_internal_id = ''a'',
       cd_action = Some first_attempt, cd_context = 0\<rparr>], cm_now = now, cm_calls = []\<rparr>"

definition queued :: manager where
  "queued = put_action (BeginConnection 1 ''a'' 5 0) (Some 10) (new_manager 0)"

lemma queued_run: "manager_run False (new_manager 0) [PutAction] queued"
  using run_step [OF run_nil step_put] by (simp add: queued_def)

lemma attempt_step: "manager_step False queued (HandleAction first_attempt) (attempting 0)"
proof -
  have q: "cm_actions queued = first_attempt # []"
    by (simp add: queued_def put_action_def new_action_def new_manager_def first_attempt_def)
  have "snd (handle_action silent first_attempt (queued\<lparr>cm_actions := []\<rparr>)) = attempting 0"
    by (simp add: handle_action_def begin_connection_action_def get_connection_state_def table_lookup_def insert_connection_def
        attempting_def first_attempt_def queued_def put_action_def new_manager_def)
  then show ?thesis using step_handle [OF q, of False silent] by (simp add: silent_def)
qed

lemma attempting_run: "manager_run False (new_manager 0) [PutAction, HandleAction first_attempt, TimePasses] (attempting 11)"
proof -
  have "manager_run False (new_manager 0) [PutAction, HandleAction first_attempt] (attempting 0)"
    using run_step [OF queued_run attempt_step] by simp
  moreover have "manager_step False (attempting 0) TimePasses (attempting 11)"
    using step_time [of 11 False "attempting 0"] by (simp add: attempting_def)
  ultimately show ?thesis using run_step by fastforce
qed

theorem connections_agree_witness: "manager_ok (attempting 11)"
  by (rule connections_agree [OF attempting_run])

theorem answered_once_witness: "waiting (attempting 11) = {#5#}"
proof -
  have "\<exists>dropped again. mset (requested (handled [PutAction, HandleAction first_attempt, TimePasses])) + again =
      mset (map fst (cm_calls (attempting 11))) + waiting (attempting 11) + dropped \<and>
      set_mset dropped \<subseteq> set (requested (filter droppable (handled [PutAction, HandleAction first_attempt, TimePasses]))) \<and>
      size again + size dropped \<le> length (filter disrupting (handled [PutAction, HandleAction first_attempt, TimePasses])) \<and>
      (\<not> False \<longrightarrow> again = {#})"
    by (rule answered_once [OF attempting_run])
  then show ?thesis by (simp add: handled_def first_attempt_def requested_def begun_def attempting_def disrupting_def)
qed

theorem protocol_followed_witness: "(conn_state 1 queued, conn_state 1 (attempting 0)) \<in> protocol"
proof -
  have "conn_state 1 (attempting 0) = Connecting" "conn_state 1 queued = Disconnected"
    by (simp_all add: conn_state_def attempting_def queued_def put_action_def new_manager_def)
  then show ?thesis using protocol_followed [OF queued_run attempt_step, of 1] by simp
qed

text \<open>
  A timeout hits the next request.  If the answer to an RPC that has just expired is in the queue and the next
  RPC behind it, the worker handles the answer and starts the next RPC, and then fails this one with the timeout of
  the first, although the second has no time limit at all.
\<close>

theorem timeout_fails_next:
  assumes "cm_connections m = [(i, r)]" "r < length (cm_store m)" "cd_connection_id (cm_store m ! r) = i" "\<not> cm_stopped m"
    and "cd_state (cm_store m ! r) = InProgress" "cd_microstate (cm_store m ! r) = Some ''rpc''"
    and "cd_action (cm_store m ! r) = Some a" "ca_expired (cm_now m) a" "action_callback (ca_data a) = Some cb"
    and "cm_actions m = [b1, b2]" "ca_data b1 = FinishOperation (IntKey i) True args"
    and "ca_data b2 = BeginOperation (IntKey i) cb2 ''rpc''" "ca_timeout b2 = None"
  shows "cm_calls (fold worker_round [silent, silent, silent] m) = cm_calls m @
    [(cb, [IntArg i, IntArg (cm_id m), BoolArg True] @ args),
     (cb2, [IntArg i, IntArg (cm_id m), BoolArg False, StrArg ''RPC timed out without response'', NoneArg, NoneArg])]"
proof -
  let ?x = "new_action (FinishOperation (IntKey i) False [StrArg ''RPC timed out without response'', NoneArg, NoneArg])
      default_timeout (cm_now m)"
  let ?idle = "(cm_store m ! r)\<lparr>cd_state := Idle, cd_microstate := None, cd_action := None\<rparr>"
  let ?m1 = "m\<lparr>cm_actions := [b2, ?x], cm_store := (cm_store m)[r := ?idle],
      cm_calls := cm_calls m @ [(cb, [IntArg i, IntArg (cm_id m), BoolArg True] @ args)]\<rparr>"
  let ?busy = "?idle\<lparr>cd_state := InProgress, cd_microstate := Some ''rpc'', cd_action := Some b2\<rparr>"
  let ?m2 = "?m1\<lparr>cm_actions := [?x], cm_store := (cm_store m)[r := ?busy]\<rparr>"
  note eval = worker_round_def check_timeouts_puts timeout_puts_def handle_action_def finish_operation_action_def begin_operation_action_def
    with_connection_def get_connection_state_def get_connection_def table_lookup_def call_back_def silent_def set_idle_def set_data_def
    stored_callback_def new_action_def
  have "worker_round silent m = ?m1" using assms by (simp add: eval)
  moreover have "worker_round silent ?m1 = ?m2" using assms by (simp add: eval)
  moreover have "cm_calls (worker_round silent ?m2) = cm_calls ?m1 @ [(cb2, [IntArg i, IntArg (cm_id m), BoolArg False,
      StrArg ''RPC timed out without response'', NoneArg, NoneArg])]"
    using assms by (simp add: eval ca_expired_def)
  ultimately show ?thesis by simp
qed

text \<open>
  An operation of another kind is not cancelled.  A script download that is in progress never times out, and
  when the device disconnects by itself the connection is removed without calling its callback.
\<close>

theorem other_operation_forgotten:
  assumes "manager_run raised (new_manager n) es m" "map_of (cm_connections m) i = Some r"
    and "cd_state (cm_store m ! r) = InProgress" "cd_microstate (cm_store m ! r) = Some op_name" "\<not> cancellable op_name"
  shows "time_out (i, r) m = m \<and> (\<exists>m'. force_disconnect_action react (IntKey i) m = (Inr (), m') \<and> cm_calls m' = cm_calls m \<and>
    conn_state i m' = Disconnected \<and> waiting m' + mset (pending (cm_store m ! r)) = waiting m)"
proof -
  let ?d = "cm_store m ! r"
  have ok: "manager_ok m" using run_ok [OF assms(1)] by simp
  then have r: "live r m" "cd_connection_id ?d = i" using assms(2) unfolding manager_ok_def by blast+
  obtain cb where cb: "stored_callback ?d = Inr cb" using data_ok_stored [OF liveD(2) [OF r(1)]] assms(3) by auto
  have "timeout_action i ?d = None" using assms(3-5) by (auto simp: cancellable_def)
  then have t: "time_out (i, r) m = m" by (simp add: time_out_eq split: option.split)
  have "force_disconnect_action react (IntKey i) m = (Inr (), removed r m)"
    using assms(2-5) cb remove_live [OF r(1)]
    by (auto simp: force_disconnect_action_def with_connection_def get_connection_state_def get_connection_def table_lookup_def cancellable_def)
  moreover have "cm_calls (removed r m) = cm_calls m" by (simp add: removed_def)
  ultimately show ?thesis using t conn_state_removed [of i r m] r(2) waiting_removed [OF ok r(1)] by simp
qed

definition answered_late :: manager where
  "answered_late = \<lparr>cm_id = 0, cm_stopped = False,
     cm_actions = [\<lparr>ca_data = FinishOperation (IntKey 1) True [NoneArg], ca_timeout = Some 5000, ca_start_time = 9\<rparr>,
       \<lparr>ca_data = BeginOperation (IntKey 1) 6 ''rpc'', ca_timeout = None, ca_start_time = 10\<rparr>],
     cm_connections = [(1, 0)], cm_int_connections = [(''a'', 0)],
     cm_store = [\<lparr>cd_state = InProgress, cd_microstate = Some ''rpc'', cd_connection_id = 1, cd_internal_id = ''a'',
       cd_action = Some \<lparr>ca_data = BeginOperation (IntKey 1) 5 ''rpc'', ca_timeout = Some 10, ca_start_time = 0\<rparr>, cd_context = 0\<rparr>],
     cm_now = 11, cm_calls = []\<rparr>"

theorem timeout_fails_next_witness:
  "cm_calls (fold worker_round [silent, silent, silent] answered_late) =
    [(5, [IntArg 1, IntArg 0, BoolArg True, NoneArg]),
     (6, [IntArg 1, IntArg 0, BoolArg False, StrArg ''RPC timed out without response'', NoneArg, NoneArg])]"
  using timeout_fails_next [of answered_late 1 0 "\<lparr>ca_data = BeginOperation (IntKey 1) 5 ''rpc'', ca_timeout = Some 10, ca_start_time = 0\<rparr>" 5
      "\<lparr>ca_data = FinishOperation (IntKey 1) True [NoneArg], ca_timeout = Some 5000, ca_start_time = 9\<rparr>"
      "\<lparr>ca_data = BeginOperation (IntKey 1) 6 ''rpc'', ca_timeout = None, ca_start_time = 10\<rparr>" "[NoneArg]" 6]
  by (simp add: answered_late_def ca_expired_def)

definition script_action :: conn_action where
  "script_action = \<lparr>ca_data = BeginOperation (IntKey 1) 5 ''script'', ca_timeout = Some 10, ca_start_time = 0\<rparr>"

definition downloading :: "int \<Rightarrow> manager" where
  "downloading now = \<lparr>cm_id = 0, cm_stopped = False, cm_actions = [], cm_connections = [(1, 0)], cm_int_connections = [(''a'', 0)],
     cm_store = [\<lparr>cd_state = InProgress, cd_microstate = Some ''script'', cd_connection_id = 1, cd_internal_id = ''a'',
       cd_action = Some script_action, cd_context = 0\<rparr>], cm_now = now, cm_calls = []\<rparr>"

lemma downloading_run: "manager_run False (new_manager 0) [AddConnection, PutAction, HandleAction script_action] (downloading 0)"
proof -
  let ?m1 = "snd (add_connection 1 ''a'' 0 (new_manager 0))"
  let ?m2 = "put_action (BeginOperation (IntKey 1) 5 ''script'') (Some 10) ?m1"
  have m1: "?m1 = insert_connection \<lparr>cd_state = Idle, cd_microstate = None, cd_connection_id = 1, cd_internal_id = ''a'',
      cd_action = None, cd_context = 0\<rparr> (new_manager 0)"
    by (simp add: add_connection_def get_connection_state_def table_lookup_def new_manager_def)
  have "manager_run False (new_manager 0) ([] @ [AddConnection]) ?m1" by (rule run_step [OF run_nil step_add])
  then have r: "manager_run False (new_manager 0) [AddConnection, PutAction] ?m2" using run_step [OF _ step_put] by fastforce
  have q: "cm_actions ?m2 = script_action # []"
    by (simp only: m1) (simp add: put_action_def new_action_def insert_connection_def new_manager_def script_action_def)
  have "snd (handle_action silent script_action (?m2\<lparr>cm_actions := []\<rparr>)) = downloading 0"
    by (simp only: m1) (simp add: handle_action_def begin_operation_action_def get_connection_state_def get_connection_def with_connection_def
        table_lookup_def insert_connection_def set_data_def downloading_def script_action_def put_action_def new_manager_def)
  then have "manager_step False ?m2 (HandleAction script_action) (downloading 0)"
    using step_handle [OF q, of False silent] by (simp add: silent_def)
  from run_step [OF r this] show ?thesis by simp
qed

lemma downloading_late:
  "manager_run False (new_manager 0) [AddConnection, PutAction, HandleAction script_action, TimePasses] (downloading 1000)"
proof -
  have "manager_step False (downloading 0) TimePasses (downloading 1000)"
    using step_time [of 1000 False "downloading 0"] by (simp add: downloading_def)
  from run_step [OF downloading_run this] show ?thesis by simp
qed

theorem expired_request_answered_witness:
  "(\<exists>cs. cm_calls (fold worker_round [silent] (attempting 11)) = cs \<and> 5 \<in> fst ` set cs) \<and>
   time_out (1, 0) (downloading 1000) = downloading 1000"
proof
  show "\<exists>cs. cm_calls (fold worker_round [silent] (attempting 11)) = cs \<and> 5 \<in> fst ` set cs"
    using expired_request_answered [OF attempting_run, of 1 0 first_attempt 5 "[silent]"]
    by (simp add: attempting_def first_attempt_def ca_expired_def)
  let ?m = "downloading 1000"
  have m: "\<not> cm_stopped ?m" "map_of (cm_connections ?m) 1 = Some 0" "cd_action (cm_store ?m ! 0) = Some script_action"
    "ca_expired (cm_now ?m) script_action" "action_callback (ca_data script_action) = Some 5"
    and kind: "cd_state (cm_store ?m ! 0) = InProgress \<and> cd_microstate (cm_store ?m ! 0) \<notin> {Some ''rpc'', Some ''open_interface''}"
    by (simp_all add: downloading_def script_action_def ca_expired_def)
  have "\<forall>dt. time_out (1, 0) (?m\<lparr>cm_now := cm_now ?m + dt\<rparr>) = ?m\<lparr>cm_now := cm_now ?m + dt\<rparr>"
    using expired_request_answered [OF downloading_late m, where reacts = "[]"] unfolding if_P [OF kind] .
  from spec [OF this, of 0] show "time_out (1, 0) ?m = ?m" by simp
qed

theorem other_operation_forgotten_witness:
  "\<exists>m'. force_disconnect_action silent (IntKey 1) (downloading 0) = (Inr (), m') \<and> cm_calls m' = [] \<and> conn_state 1 m' = Disconnected"
  using other_operation_forgotten [OF downloading_run, of 1 0 "''script''" silent]
  by (auto simp: downloading_def cancellable_def)

end
