(* ===== verification/Aws_Connections.thy ===== *)
theory Aws_Connections
  imports Connection_Manager
begin

text \<open>
  The connection manager of the AWS IoT adapter (\<open>awsiot/.../connection_manager.py\<close>, \<open>timeout.py\<close>).  It is an older
  copy of the one of the BLE adapter and differs in what it stores of a connection, in how it measures time and in
  what it passes to callbacks; it is shown to be a refinement of the other one.
\<close>

section \<open>Timeouts\<close>

text \<open>Times are milliseconds of the wall clock, which may be set back.\<close>

record timeout_interval =
  tv_start :: int
  tv_end :: int
  tv_length :: int
  tv_expired_latch :: bool

definition new_timeout :: "int \<Rightarrow> int \<Rightarrow> timeout_interval" where
  "new_timeout timeout now = \<lparr>tv_start = now, tv_end = now + timeout, tv_length = timeout, tv_expired_latch = False\<rparr>"

definition check_time_backwards :: "int \<Rightarrow> timeout_interval \<Rightarrow> timeout_interval" where
  "check_time_backwards now t = (if now < tv_start t then t\<lparr>tv_start := now, tv_end := now + tv_length t\<rparr> else t)"

definition tv_expired :: "int \<Rightarrow> timeout_interval \<Rightarrow> bool \<times> timeout_interval" where
  "tv_expired now t =
     (if tv_expired_latch t then (True, t)
      else let t1 = check_time_backwards now t in
           if now > tv_end t1 then (True, t1\<lparr>tv_expired_latch := True\<rparr>) else (False, t1))"

section \<open>The manager\<close>

record aws_action =
  aa_data :: action_data
  aa_timeout :: timeout_interval

record aws_data =
  ad_state :: int
  ad_microstate :: "string option"
  ad_conn_id :: int
  ad_int_id :: string
  ad_callback :: "nat option"
  ad_timeout :: timeout_interval
  ad_context :: nat

record aws_manager =
  am_id :: int
  am_stopped :: bool
  am_actions :: "aws_action list"
  am_connections :: "(int \<times> nat) list"
  am_int_connections :: "(string \<times> nat) list"
  am_store :: "aws_data list"
  am_now :: int
  am_calls :: "(nat \<times> call_arg list) list"

definition new_aws_manager :: "int \<Rightarrow> aws_manager" where
  "new_aws_manager adapter_id =
     \<lparr>am_id = adapter_id, am_stopped = False, am_actions = [], am_connections = [], am_int_connections = [],
      am_store = [], am_now = 0, am_calls = []\<rparr>"

definition aws_stop_manager :: "aws_manager \<Rightarrow> aws_manager" where
  "aws_stop_manager m = m\<lparr>am_stopped := True\<rparr>"

definition aws_get_connections :: "aws_manager \<Rightarrow> int list" where
  "aws_get_connections m = map fst (am_connections m)"

definition aws_lookup :: "conn_key \<Rightarrow> aws_manager \<Rightarrow> nat option res" where
  "aws_lookup key m =
     (case key of
        StrKey s \<Rightarrow> Inr (map_of (am_int_connections m) s)
      | IntKey i \<Rightarrow> Inr (map_of (am_connections m) i)
      | OtherKey \<Rightarrow> Inl ArgumentError)"

definition aws_get_context :: "conn_key \<Rightarrow> aws_manager \<Rightarrow> nat res" where
  "aws_get_context key m =
     bind_res (aws_lookup key m) (\<lambda>r. case r of None \<Rightarrow> Inl ArgumentError | Some r \<Rightarrow> Inr (ad_context (am_store m ! r)))"

definition aws_get_connection_id :: "conn_key \<Rightarrow> aws_manager \<Rightarrow> int res" where
  "aws_get_connection_id key m =
     bind_res (aws_lookup key m) (\<lambda>r. case r of None \<Rightarrow> Inl ArgumentError | Some r \<Rightarrow> Inr (ad_conn_id (am_store m ! r)))"

definition aws_get_connection :: "conn_key \<Rightarrow> aws_manager \<Rightarrow> nat option" where
  "aws_get_connection key m = (case aws_lookup key m of Inl e \<Rightarrow> None | Inr r \<Rightarrow> r)"

definition aws_get_connection_state :: "conn_key \<Rightarrow> aws_manager \<Rightarrow> int res" where
  "aws_get_connection_state key m =
     bind_res (aws_lookup key m) (\<lambda>r. case r of None \<Rightarrow> Inr Disconnected | Some r \<Rightarrow> Inr (ad_state (am_store m ! r)))"

definition aws_put :: "action_data \<Rightarrow> int \<Rightarrow> aws_manager \<Rightarrow> aws_manager" where
  "aws_put d timeout m = m\<lparr>am_actions := am_actions m @ [\<lparr>aa_data = d, aa_timeout = new_timeout timeout (am_now m)\<rparr>]\<rparr>"

abbreviation (input) aws_default :: int where "aws_default \<equiv> 5000"

definition aws_begin_connection :: "int \<Rightarrow> string \<Rightarrow> nat \<Rightarrow> nat \<Rightarrow> int \<Rightarrow> aws_manager \<Rightarrow> aws_manager" where
  "aws_begin_connection conn_id internal_id cb ctxt timeout = aws_put (BeginConnection conn_id internal_id cb ctxt) timeout"

definition aws_finish_connection :: "conn_key \<Rightarrow> bool \<Rightarrow> string option \<Rightarrow> aws_manager \<Rightarrow> aws_manager" where
  "aws_finish_connection key successful failure_reason = aws_put (FinishConnection key successful failure_reason) aws_default"

definition aws_unexpected_disconnect :: "conn_key \<Rightarrow> aws_manager \<Rightarrow> aws_manager" where
  "aws_unexpected_disconnect key = aws_put (ForceDisconnect key) aws_default"

definition aws_begin_disconnection :: "conn_key \<Rightarrow> nat \<Rightarrow> int \<Rightarrow> aws_manager \<Rightarrow> aws_manager" where
  "aws_begin_disconnection key cb timeout = aws_put (BeginDisconnection key cb) timeout"

definition aws_finish_disconnection :: "conn_key \<Rightarrow> bool \<Rightarrow> string option \<Rightarrow> aws_manager \<Rightarrow> aws_manager" where
  "aws_finish_disconnection key successful failure_reason = aws_put (FinishDisconnection key successful failure_reason) aws_default"

text \<open>The time limit only goes into the data of the action, where it is not read.\<close>

definition aws_begin_operation :: "conn_key \<Rightarrow> string \<Rightarrow> nat \<Rightarrow> int \<Rightarrow> aws_manager \<Rightarrow> aws_manager" where
  "aws_begin_operation key op_name cb timeout = aws_put (BeginOperation key cb op_name) aws_default"

definition aws_finish_operation :: "conn_key \<Rightarrow> bool \<Rightarrow> call_arg list \<Rightarrow> aws_manager \<Rightarrow> aws_manager" where
  "aws_finish_operation key success args = aws_put (FinishOperation key success args) aws_default"

definition aws_time_out :: "int \<times> nat \<Rightarrow> aws_manager \<Rightarrow> aws_manager" where
  "aws_time_out entry m =
     (case entry of (conn_id, r) \<Rightarrow>
        let d = am_store m ! r in
        case tv_expired (am_now m) (ad_timeout d) of (is_expired, t) \<Rightarrow>
          let m1 = m\<lparr>am_store := (am_store m)[r := d\<lparr>ad_timeout := t\<rparr>]\<rparr> in
          if \<not> is_expired then m1
          else if ad_state d = Connecting then aws_finish_connection (IntKey conn_id) False (Some ''Connection attempt timed out'') m1
          else if ad_state d = Disconnecting
          then aws_finish_disconnection (IntKey conn_id) False (Some ''Disconnection attempt timed out'') m1
          else if ad_state d = InProgress then
            (if ad_microstate d = Some ''rpc''
             then aws_finish_operation (IntKey conn_id) False [StrArg ''RPC timed out without response'', NoneArg, NoneArg] m1
             else if ad_microstate d = Some ''open_interface''
             then aws_finish_operation (IntKey conn_id) False [StrArg ''Open interface request timed out''] m1
             else m1)
          else m1)"

definition aws_check_timeouts :: "aws_manager \<Rightarrow> aws_manager" where
  "aws_check_timeouts m = fold aws_time_out (am_connections m) m"

section \<open>The worker\<close>

text \<open>A callback that is \<open>None\<close> cannot be called.\<close>

definition aws_call :: "reaction \<Rightarrow> nat option \<Rightarrow> call_arg list \<Rightarrow> aws_manager \<Rightarrow> (unit, aws_manager) act" where
  "aws_call react callback args m =
     (case callback of
        None \<Rightarrow> (Inl PyTypeError, m)
      | Some cb \<Rightarrow>
          (case react cb args of (puts, raises) \<Rightarrow>
             (if raises then Inl PlainException else Inr (),
              fold (\<lambda>(d, t). aws_put d (case t of None \<Rightarrow> aws_default | Some t \<Rightarrow> t)) puts
                (m\<lparr>am_calls := am_calls m @ [(cb, args)]\<rparr>))))"

definition aws_set_data :: "nat \<Rightarrow> aws_data \<Rightarrow> aws_manager \<Rightarrow> aws_manager" where
  "aws_set_data r d m = m\<lparr>am_store := (am_store m)[r := d]\<rparr>"

definition aws_remove :: "int \<Rightarrow> string \<Rightarrow> aws_manager \<Rightarrow> (unit, aws_manager) act" where
  "aws_remove i s m =
     (if map_of (am_connections m) i = None then (Inl KeyError, m)
      else let m1 = m\<lparr>am_connections := AList.delete i (am_connections m)\<rparr> in
           if map_of (am_int_connections m1) s = None then (Inl KeyError, m1)
           else (Inr (), m1\<lparr>am_int_connections := AList.delete s (am_int_connections m1)\<rparr>))"

definition aws_with_connection ::
  "conn_key \<Rightarrow> (nat \<Rightarrow> aws_data \<Rightarrow> aws_manager \<Rightarrow> (unit, aws_manager) act) \<Rightarrow> aws_manager \<Rightarrow> (unit, aws_manager) act" where
  "aws_with_connection key f m =
     (case aws_get_connection key m of None \<Rightarrow> (Inl PyTypeError, m) | Some r \<Rightarrow> f r (am_store m ! r) m)"

definition aws_begin_connection_action ::
  "reaction \<Rightarrow> aws_action \<Rightarrow> int \<Rightarrow> string \<Rightarrow> nat \<Rightarrow> nat \<Rightarrow> aws_manager \<Rightarrow> (unit, aws_manager) act" where
  "aws_begin_connection_action react action conn_id int_id cb ctxt m =
     bind_act (aws_get_connection_state (IntKey conn_id) m, m) (\<lambda>st m.
     if st \<noteq> Disconnected
     then aws_call react (Some cb) [IntArg conn_id, IntArg (am_id m), BoolArg False,
            StrArg ''Connection ID is already in use for another connection''] m
     else bind_act (aws_get_connection_state (StrKey int_id) m, m) (\<lambda>st m.
     if st \<noteq> Disconnected
     then aws_call react (Some cb) [IntArg conn_id, IntArg (am_id m), BoolArg False,
            StrArg ''Internal ID is already in use for another connection''] m
     else (Inr (), m
       \<lparr>am_connections := AList.update conn_id (length (am_store m)) (am_connections m),
        am_int_connections := AList.update int_id (length (am_store m)) (am_int_connections m),
        am_store := am_store m @ [\<lparr>ad_state = Connecting, ad_microstate = None, ad_conn_id = conn_id, ad_int_id = int_id,
          ad_callback = Some cb, ad_timeout = aa_timeout action, ad_context = ctxt\<rparr>]\<rparr>)))"

definition aws_finish_connection_action ::
  "reaction \<Rightarrow> conn_key \<Rightarrow> bool \<Rightarrow> string option \<Rightarrow> aws_manager \<Rightarrow> (unit, aws_manager) act" where
  "aws_finish_connection_action react key success reason m =
     bind_act (aws_get_connection_state key m, m) (\<lambda>st m.
     if st \<noteq> Connecting then (Inr (), m)
     else aws_with_connection key (\<lambda>r d m.
       if \<not> success
       then bind_act (aws_remove (ad_conn_id d) (ad_int_id d) m) (\<lambda>_ m.
              aws_call react (ad_callback d) [IntArg (ad_conn_id d), IntArg (am_id m), BoolArg False, reason_arg reason] m)
       else aws_call react (ad_callback d) [IntArg (ad_conn_id d), IntArg (am_id m), BoolArg True, NoneArg]
              (aws_set_data r (d\<lparr>ad_state := Idle, ad_microstate := None, ad_callback := None\<rparr>) m)) m)"

definition aws_force_disconnect_action :: "reaction \<Rightarrow> conn_key \<Rightarrow> aws_manager \<Rightarrow> (unit, aws_manager) act" where
  "aws_force_disconnect_action react key m =
     bind_act (aws_get_connection_state key m, m) (\<lambda>st m.
     if st = Disconnected then (Inr (), m)
     else aws_with_connection key (\<lambda>r d m.
       bind_act
        (if ad_state d = Connecting then aws_call react (ad_callback d) [BoolArg False, StrArg ''Unexpected disconnection''] m
         else if ad_state d = Disconnecting then aws_call react (ad_callback d) [BoolArg True, NoneArg] m
         else if ad_state d = InProgress \<and> ad_microstate d = Some ''rpc''
         then aws_call react (ad_callback d) [BoolArg False, StrArg ''Unexpected disconnection'', NoneArg, NoneArg] m
         else if ad_state d = InProgress \<and> (ad_microstate d = Some ''open_interface'' \<or> ad_microstate d = Some ''close_interface'')
         then aws_call react (ad_callback d) [BoolArg False, StrArg ''Unexpected disconnection''] m
         else (Inr (), m)) (\<lambda>_ m.
       aws_remove (ad_conn_id d) (ad_int_id d) m)) m)"

definition aws_begin_disconnection_action ::
  "reaction \<Rightarrow> aws_action \<Rightarrow> conn_key \<Rightarrow> nat \<Rightarrow> aws_manager \<Rightarrow> (unit, aws_manager) act" where
  "aws_begin_disconnection_action react action key cb m =
     bind_act (aws_get_connection_state key m, m) (\<lambda>st m.
     if st \<noteq> Idle
     then aws_call react (Some cb) [key_arg key, IntArg (am_id m), BoolArg False,
            StrArg ''Cannot start disconnection, connection is not idle''] m
     else aws_with_connection key (\<lambda>r d m.
       (Inr (), aws_set_data r (d\<lparr>ad_state := Disconnecting, ad_microstate := None, ad_callback := Some cb,
          ad_timeout := aa_timeout action\<rparr>) m)) m)"

definition aws_finish_disconnection_action ::
  "reaction \<Rightarrow> conn_key \<Rightarrow> bool \<Rightarrow> string option \<Rightarrow> aws_manager \<Rightarrow> (unit, aws_manager) act" where
  "aws_finish_disconnection_action react key success reason m =
     bind_act (aws_get_connection_state key m, m) (\<lambda>st m.
     if st \<noteq> Disconnecting then (Inr (), m)
     else aws_with_connection key (\<lambda>r d m.
       if \<not> success
       then aws_call react (ad_callback d) [IntArg (ad_conn_id d), IntArg (am_id m), BoolArg False, reason_arg reason]
              (aws_set_data r (d\<lparr>ad_state := Idle, ad_microstate := None, ad_callback := None\<rparr>) m)
       else bind_act (aws_remove (ad_conn_id d) (ad_int_id d) m) (\<lambda>_ m.
              aws_call react (ad_callback d) [IntArg (ad_conn_id d), IntArg (am_id m), BoolArg True, NoneArg] m)) m)"

definition aws_begin_operation_action ::
  "reaction \<Rightarrow> aws_action \<Rightarrow> conn_key \<Rightarrow> nat \<Rightarrow> string \<Rightarrow> aws_manager \<Rightarrow> (unit, aws_manager) act" where
  "aws_begin_operation_action react action key cb op_name m =
     bind_act (aws_get_connection_state key m, m) (\<lambda>st m.
     if st \<noteq> Idle
     then aws_call react (Some cb) [key_arg key, IntArg (am_id m), BoolArg False,
            StrArg ''Cannot start operation, connection is not idle''] m
     else aws_with_connection key (\<lambda>r d m.
       (Inr (), aws_set_data r (d\<lparr>ad_state := InProgress, ad_microstate := Some op_name, ad_callback := Some cb,
          ad_timeout := aa_timeout action\<rparr>) m)) m)"

text \<open>The callback is not cleared here.\<close>

definition aws_finish_operation_action ::
  "reaction \<Rightarrow> conn_key \<Rightarrow> bool \<Rightarrow> call_arg list \<Rightarrow> aws_manager \<Rightarrow> (unit, aws_manager) act" where
  "aws_finish_operation_action react key success args m =
     bind_act (aws_get_connection_state key m, m) (\<lambda>st m.
     if st \<noteq> InProgress then (Inr (), m)
     else aws_with_connection key (\<lambda>r d m.
       aws_call react (ad_callback d) ([IntArg (ad_conn_id d), IntArg (am_id m), BoolArg success] @ args)
         (aws_set_data r (d\<lparr>ad_state := Idle, ad_microstate := None\<rparr>) m)) m)"

definition aws_handle_action :: "reaction \<Rightarrow> aws_action \<Rightarrow> aws_manager \<Rightarrow> (unit, aws_manager) act" where
  "aws_handle_action react a m =
     (case aa_data a of
        BeginConnection i s cb ctxt \<Rightarrow> aws_begin_connection_action react a i s cb ctxt m
      | FinishConnection key success why \<Rightarrow> aws_finish_connection_action react key success why m
      | ForceDisconnect key \<Rightarrow> aws_force_disconnect_action react key m
      | BeginDisconnection key cb \<Rightarrow> aws_begin_disconnection_action react a key cb m
      | FinishDisconnection key success why \<Rightarrow> aws_finish_disconnection_action react key success why m
      | BeginOperation key cb op_name \<Rightarrow> aws_begin_operation_action react a key cb op_name m
      | FinishOperation key success args \<Rightarrow> aws_finish_operation_action react key success args m)"

definition aws_worker_round :: "reaction \<Rightarrow> aws_manager \<Rightarrow> aws_manager" where
  "aws_worker_round react m =
     (if am_stopped m then m
      else let m1 = aws_check_timeouts m in
           case am_actions m1 of [] \<Rightarrow> m1 | a # q \<Rightarrow> snd (aws_handle_action react a (m1\<lparr>am_actions := q\<rparr>)))"

section \<open>Steps\<close>

text \<open>A step handles at most one action; the clock may go either way.\<close>

inductive aws_step :: "bool \<Rightarrow> aws_manager \<Rightarrow> action_data list \<Rightarrow> aws_manager \<Rightarrow> bool" for raised where
  aws_puts: "aws_step raised m [] (aws_put d t m)"
| aws_time: "aws_step raised m [] (m\<lparr>am_now := now\<rparr>)"
| aws_check: "aws_step raised m [] (aws_check_timeouts m)"
| aws_handle: "am_actions m = a # q \<Longrightarrow> \<not> raised \<longrightarrow> (\<forall>cb args. \<not> snd (react cb args)) \<Longrightarrow>
    aws_step raised m [aa_data a] (snd (aws_handle_action react a (m\<lparr>am_actions := q\<rparr>)))"

inductive aws_run :: "bool \<Rightarrow> aws_manager \<Rightarrow> action_data list \<Rightarrow> aws_manager \<Rightarrow> bool" for raised m0 where
  aws_nil: "aws_run raised m0 [] m0"
| aws_next: "aws_run raised m0 ds m \<Longrightarrow> aws_step raised m fs m' \<Longrightarrow> aws_run raised m0 (ds @ fs) m'"

section \<open>The BLE manager as the specification\<close>

text \<open>A dictionary of this manager and one of the other for the same connection.\<close>

definition same_data :: "aws_data \<Rightarrow> conn_data \<Rightarrow> bool" where
  "same_data d e \<longleftrightarrow> ad_state d = cd_state e \<and> ad_microstate d = cd_microstate e \<and> ad_conn_id d = cd_connection_id e \<and>
     ad_int_id d = cd_internal_id e \<and> ad_context d = cd_context e \<and>
     (cd_state e \<noteq> Idle \<longrightarrow> (\<exists>cb. ad_callback d = Some cb \<and> stored_callback e = Inr cb))"

definition related :: "aws_manager \<Rightarrow> manager \<Rightarrow> bool" where
  "related m n \<longleftrightarrow> am_id m = cm_id n \<and> am_connections m = cm_connections n \<and> am_int_connections m = cm_int_connections n \<and>
     map aa_data (am_actions m) = map ca_data (cm_actions n) \<and> list_all2 same_data (am_store m) (cm_store n) \<and>
     map fst (am_calls m) = map fst (cm_calls n)"

lemma related_lookup:
  assumes "related m n"
  shows "aws_lookup key m = table_lookup key n" "aws_get_connection key m = get_connection key n" "am_id m = cm_id n"
  using assms by (auto simp: related_def aws_lookup_def table_lookup_def aws_get_connection_def get_connection_def split: conn_key.splits)

lemma related_data: "related m n \<Longrightarrow> r < length (cm_store n) \<Longrightarrow> same_data (am_store m ! r) (cm_store n ! r)"
  by (auto simp: related_def list_all2_conv_all_nth)

lemma related_put: "related m n \<Longrightarrow> related (aws_put d t m) (put_action d t' n)"
  by (simp add: related_def aws_put_def put_action_def new_action_def)

lemma related_puts:
  "related m n \<Longrightarrow> related (fold (\<lambda>(d, t). aws_put d (case t of None \<Rightarrow> aws_default | Some t \<Rightarrow> t)) puts m)
     (fold (\<lambda>(d, t). put_action d t) puts n)"
proof (induction puts arbitrary: m n)
  case (Cons p puts)
  obtain d t where "p = (d, t)" by fastforce
  then show ?case using Cons.IH [OF related_put [OF Cons.prems]] by simp
qed simp

lemma related_call:
  assumes "related m n" "react' cb args' = react cb args"
  shows "related (snd (aws_call react (Some cb) args m)) (snd (call_back react' cb args' n)) \<and>
    fst (aws_call react (Some cb) args m) = fst (call_back react' cb args' n)"
proof -
  have "related (m\<lparr>am_calls := am_calls m @ [(cb, args)]\<rparr>) (n\<lparr>cm_calls := cm_calls n @ [(cb, args')]\<rparr>)"
    using assms(1) by (simp add: related_def)
  then show ?thesis using related_puts assms(2) by (cases "react cb args") (simp add: aws_call_def call_back_def)
qed

lemma related_set:
  "related m n \<Longrightarrow> same_data d e \<Longrightarrow> related (aws_set_data r d m) (set_data r e n)"
  by (auto simp: related_def aws_set_data_def set_data_def intro: list_all2_update_cong)

lemma related_remove:
  "related m n \<Longrightarrow> related (snd (aws_remove i s m)) (snd (remove_connection i s n)) \<and>
     fst (aws_remove i s m) = fst (remove_connection i s n)"
  by (auto simp: related_def aws_remove_def remove_connection_def Let_def)

lemma related_state:
  assumes "related m n" "manager_ok n"
  shows "aws_get_connection_state key m = get_connection_state key n"
proof -
  have "live r n" if "table_lookup key n = Inr (Some r)" for r using lookup_live [OF assms(2) that] .
  then show ?thesis using related_lookup(1) [OF assms(1)] related_data [OF assms(1)] liveD(1)
    by (cases "table_lookup key n") (auto simp: aws_get_connection_state_def get_connection_state_def same_data_def split: option.splits)
qed

text \<open>A handler finds the same in both managers.\<close>

lemma related_key_cases:
  assumes "related m n" "manager_ok n"
  obtains (bad_key) "get_connection_state key n = Inl ArgumentError" "aws_get_connection_state key m = Inl ArgumentError"
  | (absent) "get_connection_state key n = Inr Disconnected" "aws_get_connection_state key m = Inr Disconnected"
  | (present) r d e where "live r n" "aws_get_connection key m = Some r" "get_connection key n = Some r"
      "get_connection_state key n = Inr (cd_state e)" "aws_get_connection_state key m = Inr (cd_state e)"
      "am_store m ! r = d" "cm_store n ! r = e" "same_data d e" "cd_state e \<noteq> Disconnected"
  using assms(2)
proof (cases rule: key_cases [of n key])
  case (present r)
  then show thesis using that(3) [of r] related_lookup(2) [OF assms(1)] related_state [OF assms] related_data [OF assms(1) liveD(1)]
    by simp
qed (use that related_state [OF assms] in auto)

lemma stored_same: "same_data d e \<Longrightarrow> cd_state e \<noteq> Idle \<Longrightarrow> \<exists>cb. ad_callback d = Some cb \<and> stored_callback e = Inr cb"
  by (simp add: same_data_def)

lemma same_ids: "same_data d e \<Longrightarrow> ad_conn_id d = cd_connection_id e \<and> ad_int_id d = cd_internal_id e \<and>
    ad_state d = cd_state e \<and> ad_microstate d = cd_microstate e"
  by (simp add: same_data_def)

definition simulates :: "(unit, aws_manager) act \<Rightarrow> (unit, manager) act \<Rightarrow> bool" where
  "simulates x y \<longleftrightarrow> related (snd x) (snd y) \<and> fst x = fst y"

lemma simulates_same: "related m n \<Longrightarrow> simulates (res, m) (res, n)"
  by (simp add: simulates_def)

lemma simulates_call: "related m n \<Longrightarrow> react' cb args' = react cb args \<Longrightarrow>
    simulates (aws_call react (Some cb) args m) (call_back react' cb args' n)"
  using related_call [of m n react' cb args' react args] by (simp add: simulates_def)

lemma simulates_bind:
  assumes "simulates x y" "\<And>a m n. related m n \<Longrightarrow> simulates (f a m) (g a n)"
  shows "simulates (bind_act x f) (bind_act y g)"
proof -
  obtain rx m ry n where x: "x = (rx, m)" "y = (ry, n)" by fastforce
  then have "related m n" "rx = ry" using assms(1) by (simp_all add: simulates_def)
  then show ?thesis using assms(2) x by (cases ry) (simp_all add: simulates_def)
qed

lemma simulates_remove: "related m n \<Longrightarrow> simulates (aws_remove i s m) (remove_connection i s n)"
  using related_remove by (simp add: simulates_def)

lemma begin_connection_sim:
  assumes "related m n" "manager_ok n" "ca_data b = BeginConnection i s cb ctxt" "ca_data b = aa_data a"
  shows "simulates (aws_begin_connection_action react a i s cb ctxt m) (begin_connection_action react b i s cb ctxt n)"
proof -
  have st: "aws_get_connection_state key m = get_connection_state key n" for key using related_state [OF assms(1,2)] .
  have len: "length (am_store m) = length (cm_store n)" using assms(1) by (auto simp: related_def list_all2_lengthD)
  have new: "related (m
       \<lparr>am_connections := AList.update i (length (am_store m)) (am_connections m),
        am_int_connections := AList.update s (length (am_store m)) (am_int_connections m),
        am_store := am_store m @ [\<lparr>ad_state = Connecting, ad_microstate = None, ad_conn_id = i, ad_int_id = s,
          ad_callback = Some cb, ad_timeout = aa_timeout a, ad_context = ctxt\<rparr>]\<rparr>)
     (insert_connection \<lparr>cd_state = Connecting, cd_microstate = None, cd_connection_id = i, cd_internal_id = s,
        cd_action = Some b, cd_context = ctxt\<rparr> n)"
    using assms(1,3) len
    by (simp add: related_def insert_connection_def list_all2_append same_data_def stored_callback_def)
  show ?thesis
    using related_lookup(3) [OF assms(1)] st [of "IntKey i"] st [of "StrKey s"]
    by (cases "get_connection_state (IntKey i) n"; cases "get_connection_state (StrKey s) n")
      (auto simp: aws_begin_connection_action_def begin_connection_action_def intro: simulates_same simulates_call assms(1) new)
qed

lemma finish_connection_sim:
  assumes "related m n" "manager_ok n"
  shows "simulates (aws_finish_connection_action react key success why m) (finish_connection_action react key success why n)"
  using assms
proof (cases rule: related_key_cases [of m n key])
  case (present r d e)
  show ?thesis
  proof (cases "cd_state e = Connecting")
    case True
    then obtain cb where cb: "ad_callback d = Some cb" "stored_callback e = Inr cb" using stored_same [OF present(8)] by auto
    have idle: "related (aws_set_data r ((am_store m ! r)\<lparr>ad_state := Idle, ad_microstate := None, ad_callback := None\<rparr>) m) (set_idle r n)"
      unfolding set_idle_def using present(6-8) by (intro related_set [OF assms(1)]) (simp add: same_data_def)
    show ?thesis
      using present True cb same_ids [OF present(8)] related_lookup(3) [OF assms(1)]
      by (auto simp: aws_finish_connection_action_def finish_connection_action_def aws_with_connection_def with_connection_def
          intro!: simulates_bind simulates_remove simulates_call assms(1) idle dest: related_lookup(3))
  qed (use present simulates_same [OF assms(1)] in \<open>simp add: aws_finish_connection_action_def finish_connection_action_def\<close>)
qed (use simulates_same [OF assms(1)] in \<open>simp_all add: aws_finish_connection_action_def finish_connection_action_def\<close>)

lemma finish_disconnection_sim:
  assumes "related m n" "manager_ok n"
  shows "simulates (aws_finish_disconnection_action react key success why m) (finish_disconnection_action react key success why n)"
  using assms
proof (cases rule: related_key_cases [of m n key])
  case (present r d e)
  show ?thesis
  proof (cases "cd_state e = Disconnecting")
    case True
    then obtain cb where cb: "ad_callback d = Some cb" "stored_callback e = Inr cb" using stored_same [OF present(8)] by auto
    have idle: "related (aws_set_data r ((am_store m ! r)\<lparr>ad_state := Idle, ad_microstate := None, ad_callback := None\<rparr>) m) (set_idle r n)"
      unfolding set_idle_def using present(6-8) by (intro related_set [OF assms(1)]) (simp add: same_data_def)
    show ?thesis
      using present True cb same_ids [OF present(8)] related_lookup(3) [OF assms(1)]
      by (auto simp: aws_finish_disconnection_action_def finish_disconnection_action_def aws_with_connection_def with_connection_def
          intro!: simulates_bind simulates_remove simulates_call assms(1) idle dest: related_lookup(3))
  qed (use present simulates_same [OF assms(1)] in \<open>simp add: aws_finish_disconnection_action_def finish_disconnection_action_def\<close>)
qed (use simulates_same [OF assms(1)] in \<open>simp_all add: aws_finish_disconnection_action_def finish_disconnection_action_def\<close>)

lemma finish_operation_sim:
  assumes "related m n" "manager_ok n"
  shows "simulates (aws_finish_operation_action react key success args m) (finish_operation_action react key success args n)"
  using assms
proof (cases rule: related_key_cases [of m n key])
  case (present r d e)
  show ?thesis
  proof (cases "cd_state e = InProgress")
    case True
    then obtain cb where cb: "ad_callback d = Some cb" "stored_callback e = Inr cb" using stored_same [OF present(8)] by auto
    have "related (aws_set_data r (d\<lparr>ad_state := Idle, ad_microstate := None\<rparr>) m) (set_idle r n)"
      unfolding set_idle_def using present(6-8) by (intro related_set [OF assms(1)]) (simp add: same_data_def)
    then show ?thesis
      using present True cb same_ids [OF present(8)] related_lookup(3) [OF assms(1)]
      by (simp add: aws_finish_operation_action_def finish_operation_action_def aws_with_connection_def with_connection_def
          simulates_call)
  qed (use present simulates_same [OF assms(1)] in \<open>simp add: aws_finish_operation_action_def finish_operation_action_def\<close>)
qed (use simulates_same [OF assms(1)] in \<open>simp_all add: aws_finish_operation_action_def finish_operation_action_def\<close>)

lemma begin_disconnection_sim:
  assumes "related m n" "manager_ok n" "ca_data b = BeginDisconnection key cb" "ca_data b = aa_data a"
  shows "simulates (aws_begin_disconnection_action react a key cb m) (begin_disconnection_action react b key cb n)"
  using assms(1,2)
proof (cases rule: related_key_cases [of m n key])
  case (present r d e)
  have "related (aws_set_data r (d\<lparr>ad_state := Disconnecting, ad_microstate := None, ad_callback := Some cb, ad_timeout := aa_timeout a\<rparr>) m)
      (set_data r (e\<lparr>cd_state := Disconnecting, cd_microstate := None, cd_action := Some b\<rparr>) n)"
    using present(8) assms(3) by (intro related_set [OF assms(1)]) (simp add: same_data_def stored_callback_def)
  then show ?thesis using present simulates_call [OF assms(1)] related_lookup(3) [OF assms(1)]
    by (auto simp: aws_begin_disconnection_action_def begin_disconnection_action_def aws_with_connection_def with_connection_def
        intro: simulates_same)
qed (use simulates_same [OF assms(1)] simulates_call [OF assms(1)] related_lookup(3) [OF assms(1)] in
    \<open>simp_all add: aws_begin_disconnection_action_def begin_disconnection_action_def\<close>)

lemma begin_operation_sim:
  assumes "related m n" "manager_ok n" "ca_data b = BeginOperation key cb op_name" "ca_data b = aa_data a"
  shows "simulates (aws_begin_operation_action react a key cb op_name m) (begin_operation_action react b key cb op_name n)"
  using assms(1,2)
proof (cases rule: related_key_cases [of m n key])
  case (present r d e)
  have "related (aws_set_data r (d\<lparr>ad_state := InProgress, ad_microstate := Some op_name, ad_callback := Some cb, ad_timeout := aa_timeout a\<rparr>) m)
      (set_data r (e\<lparr>cd_state := InProgress, cd_microstate := Some op_name, cd_action := Some b\<rparr>) n)"
    using present(8) assms(3) by (intro related_set [OF assms(1)]) (simp add: same_data_def stored_callback_def)
  then show ?thesis using present simulates_call [OF assms(1)] related_lookup(3) [OF assms(1)]
    by (auto simp: aws_begin_operation_action_def begin_operation_action_def aws_with_connection_def with_connection_def
        intro: simulates_same)
qed (use simulates_same [OF assms(1)] simulates_call [OF assms(1)] related_lookup(3) [OF assms(1)] in
    \<open>simp_all add: aws_begin_operation_action_def begin_operation_action_def\<close>)

text \<open>
  The callbacks of a forced disconnection get other arguments, so the reaction of the other manager is a different
  one; a handler calls at most one callback.
\<close>

lemma force_disconnect_sim:
  assumes "related m n" "manager_ok n"
  shows "\<exists>args. simulates (aws_force_disconnect_action react key m) (force_disconnect_action (\<lambda>cb _. react cb args) key n)"
  using assms
proof (cases rule: related_key_cases [of m n key])
  case (present r d e)
  note ids = same_ids [OF present(8)]
  have call: "simulates (bind_act (aws_call react (Some cb) args m) (\<lambda>_ m. aws_remove (ad_conn_id d) (ad_int_id d) m))
      (bind_act (call_back (\<lambda>cb _. react cb args) cb args' n) (\<lambda>_ n. remove_connection (cd_connection_id e) (cd_internal_id e) n))" for cb args args'
    using ids by (intro simulates_bind simulates_call [OF assms(1)]) (auto intro: simulates_remove)
  have none: "simulates (aws_remove (ad_conn_id d) (ad_int_id d) m) (remove_connection (cd_connection_id e) (cd_internal_id e) n)"
    using ids simulates_remove [OF assms(1)] by simp
  show ?thesis
  proof (cases "cd_state e = Idle")
    case True
    then show ?thesis using present none ids
      by (auto simp: aws_force_disconnect_action_def force_disconnect_action_def aws_with_connection_def with_connection_def)
  next
    case False
    then obtain cb where cb: "ad_callback d = Some cb" "stored_callback e = Inr cb" using stored_same [OF present(8)] by blast
    let ?args = "if cd_state e = Connecting then [BoolArg False, StrArg ''Unexpected disconnection'']
      else if cd_state e = Disconnecting then [BoolArg True, NoneArg]
      else if cd_microstate e = Some ''rpc'' then [BoolArg False, StrArg ''Unexpected disconnection'', NoneArg, NoneArg]
      else [BoolArg False, StrArg ''Unexpected disconnection'']"
    show ?thesis
      using present False cb call none ids
      by (intro exI [of _ ?args])
        (auto simp: aws_force_disconnect_action_def force_disconnect_action_def aws_with_connection_def with_connection_def)
  qed
qed (use simulates_same [OF assms(1)] in \<open>simp_all add: aws_force_disconnect_action_def force_disconnect_action_def\<close>)

lemma handle_sim:
  assumes "related m n" "manager_ok n" "ca_data b = aa_data a"
  shows "\<exists>react'. (\<forall>cb args. \<exists>args'. react' cb args = react cb args') \<and>
    simulates (aws_handle_action react a m) (handle_action react' b n)"
proof (cases "aa_data a")
  case (ForceDisconnect key)
  then show ?thesis using force_disconnect_sim [OF assms(1,2), of react key] assms(3)
    by (fastforce simp: aws_handle_action_def handle_action_def)
next
  case (BeginConnection i s cb ctxt)
  then show ?thesis using begin_connection_sim [OF assms(1,2) _ assms(3)] assms(3)
    by (intro exI [of _ react]) (auto simp: aws_handle_action_def handle_action_def)
next
  case (FinishConnection key success why)
  then show ?thesis using finish_connection_sim [OF assms(1,2)] assms(3)
    by (intro exI [of _ react]) (auto simp: aws_handle_action_def handle_action_def)
next
  case (BeginDisconnection key cb)
  then show ?thesis using begin_disconnection_sim [OF assms(1,2) _ assms(3)] assms(3)
    by (intro exI [of _ react]) (auto simp: aws_handle_action_def handle_action_def)
next
  case (FinishDisconnection key success why)
  then show ?thesis using finish_disconnection_sim [OF assms(1,2)] assms(3)
    by (intro exI [of _ react]) (auto simp: aws_handle_action_def handle_action_def)
next
  case (BeginOperation key cb op_name)
  then show ?thesis using begin_operation_sim [OF assms(1,2) _ assms(3)] assms(3)
    by (intro exI [of _ react]) (auto simp: aws_handle_action_def handle_action_def)
next
  case (FinishOperation key success args)
  then show ?thesis using finish_operation_sim [OF assms(1,2)] assms(3)
    by (intro exI [of _ react]) (auto simp: aws_handle_action_def handle_action_def)
qed

text \<open>The timeouts that are found are actions that the other manager may be given.\<close>

lemma aws_time_out_sim:
  assumes "manager_run raised m0 es n" "related m n"
  shows "\<exists>es' n'. manager_run raised m0 (es @ es') n' \<and> handled es' = [] \<and> related (aws_time_out entry m) n'"
proof -
  obtain i r where entry: "entry = (i, r)" by fastforce
  let ?m1 = "m\<lparr>am_store := (am_store m)[r := (am_store m ! r)\<lparr>ad_timeout := snd (tv_expired (am_now m) (ad_timeout (am_store m ! r)))\<rparr>]\<rparr>"
  have "list_all2 same_data (am_store ?m1) (cm_store n)"
  proof (cases "r < length (am_store m)")
    case True
    then have "same_data ((am_store m ! r)\<lparr>ad_timeout := t\<rparr>) (cm_store n ! r)" for t
      using assms(2) by (auto simp: related_def list_all2_conv_all_nth same_data_def)
    then show ?thesis using assms(2) list_all2_update_cong [of same_data "am_store m" "cm_store n" _ "cm_store n ! r" r]
      by (simp add: related_def)
  qed (use assms(2) in \<open>simp add: related_def list_update_beyond\<close>)
  then have rel: "related ?m1 n" using assms(2) by (simp add: related_def)
  have "aws_time_out entry m = ?m1 \<or> (\<exists>d. aws_time_out entry m = aws_put d aws_default ?m1)"
    by (auto simp: entry aws_time_out_def Let_def aws_finish_connection_def aws_finish_disconnection_def aws_finish_operation_def
        split: prod.split)
  then show ?thesis
  proof
    assume "aws_time_out entry m = ?m1"
    then show ?thesis using assms(1) rel by (intro exI [of _ "[]"] exI [of _ n]) simp
  next
    assume "\<exists>d. aws_time_out entry m = aws_put d aws_default ?m1"
    then obtain d where "aws_time_out entry m = aws_put d aws_default ?m1" by blast
    then show ?thesis using run_step [OF assms(1) step_put, of d default_timeout] related_put [OF rel, of d aws_default default_timeout]
      by (intro exI [of _ "[PutAction]"] exI [of _ "put_action d default_timeout n"]) simp
  qed
qed

lemma aws_time_outs_sim:
  assumes "manager_run raised m0 es n" "related m n"
  shows "\<exists>es' n'. manager_run raised m0 (es @ es') n' \<and> handled es' = [] \<and> related (fold aws_time_out entries m) n'"
  using assms
proof (induction entries arbitrary: m n es)
  case Nil
  then show ?case by (intro exI [of _ "[]"] exI [of _ n]) simp
next
  case (Cons entry entries)
  obtain es1 n1 where 1: "manager_run raised m0 (es @ es1) n1" "handled es1 = []" "related (aws_time_out entry m) n1"
    using aws_time_out_sim [OF Cons.prems] by blast
  obtain es2 n2 where "manager_run raised m0 ((es @ es1) @ es2) n2" "handled es2 = []"
    "related (fold aws_time_out entries (aws_time_out entry m)) n2"
    using Cons.IH [OF 1(1,3)] by blast
  then show ?case using 1(2) by (intro exI [of _ "es1 @ es2"] exI [of _ n2]) simp
qed

section \<open>Properties\<close>

text \<open>
  C24: the AWS manager does what the BLE manager does.  For every run of it there is a run of the BLE manager that
  handles the same actions in the same order, calls the same callbacks in the same order and ends with the same
  connections in the same states.
\<close>

theorem aws_refines:
  assumes "aws_run raised (new_aws_manager n) ds m"
  shows "\<exists>es m'. manager_run raised (new_manager n) es m' \<and> map ca_data (handled es) = ds \<and> related m m'"
  using assms
proof (induction rule: aws_run.induct)
  case aws_nil
  then show ?case by (intro exI [of _ "[]"] exI [of _ "new_manager n"])
      (simp add: run_nil related_def new_aws_manager_def new_manager_def)
next
  case (aws_next ds m fs m')
  then obtain es b where b: "manager_run raised (new_manager n) es b" "map ca_data (handled es) = ds" "related m b" by blast
  from aws_next.hyps(2) show ?case
  proof cases
    case (aws_puts d t)
    then show ?thesis using run_step [OF b(1) step_put, of d None] related_put [OF b(3), of d t None] b(2)
      by (intro exI [of _ "es @ [PutAction]"] exI [of _ "put_action d None b"]) simp
  next
    case (aws_time now)
    then show ?thesis using b by (intro exI [of _ es] exI [of _ b]) (simp add: related_def)
  next
    case aws_check
    then show ?thesis using aws_time_outs_sim [OF b(1,3), of "am_connections m"] b(2)
      by (auto simp: aws_check_timeouts_def) (metis append_Nil2 handled_simps(2) map_append)
  next
    case (aws_handle a q react)
    obtain c p where c: "cm_actions b = c # p" "ca_data c = aa_data a" "map aa_data q = map ca_data p"
      using b(3) aws_handle(3) by (auto simp: related_def Cons_eq_map_conv)
    have ok: "manager_ok (b\<lparr>cm_actions := p\<rparr>)"
      using run_ok [OF b(1)] same_tables_ok [of b "b\<lparr>cm_actions := p\<rparr>"] by (simp add: same_tables_def)
    have "related (m\<lparr>am_actions := q\<rparr>) (b\<lparr>cm_actions := p\<rparr>)" using b(3) c(3) by (simp add: related_def)
    from handle_sim [OF this ok c(2)] obtain react' where r:
      "\<forall>cb args. \<exists>args'. react' cb args = react cb args'"
      "simulates (aws_handle_action react a (m\<lparr>am_actions := q\<rparr>)) (handle_action react' c (b\<lparr>cm_actions := p\<rparr>))" by blast
    have "\<not> raised \<longrightarrow> (\<forall>cb args. \<not> snd (react' cb args))" using r(1) aws_handle(4) by metis
    from run_step [OF b(1) step_handle [OF c(1) this]] show ?thesis using r(2) b(2) c(2) aws_handle
      by (intro exI [of _ "es @ [HandleAction c]"] exI [of _ "snd (handle_action react' c (b\<lparr>cm_actions := p\<rparr>))"])
        (simp add: simulates_def)
  qed
qed

definition aws_attempt :: aws_action where
  "aws_attempt = \<lparr>aa_data = BeginConnection 1 ''a'' 5 0, aa_timeout = new_timeout 10 0\<rparr>"

definition aws_attempting :: aws_manager where
  "aws_attempting = \<lparr>am_id = 0, am_stopped = False, am_actions = [], am_connections = [(1, 0)], am_int_connections = [(''a'', 0)],
     am_store = [\<lparr>ad_state = Connecting, ad_microstate = None, ad_conn_id = 1, ad_int_id = ''a'',
       ad_callback = Some 5, ad_timeout = new_timeout 10 0, ad_context = 0\<rparr>], am_now = 0, am_calls = []\<rparr>"

lemma aws_attempting_run: "aws_run False (new_aws_manager 0) [BeginConnection 1 ''a'' 5 0] aws_attempting"
proof -
  let ?q = "aws_put (BeginConnection 1 ''a'' 5 0) 10 (new_aws_manager 0)"
  have q: "am_actions ?q = aws_attempt # []" by (simp add: aws_put_def new_aws_manager_def aws_attempt_def)
  have "snd (aws_handle_action silent aws_attempt (?q\<lparr>am_actions := []\<rparr>)) = aws_attempting"
    by (simp add: aws_handle_action_def aws_begin_connection_action_def aws_get_connection_state_def aws_lookup_def
        aws_attempting_def aws_attempt_def aws_put_def new_aws_manager_def)
  then have "aws_step False ?q [aa_data aws_attempt] aws_attempting"
    using aws_handle [OF q, of False silent] by (simp add: silent_def)
  moreover have "aws_run False (new_aws_manager 0) ([] @ []) ?q" by (rule aws_next [OF aws_nil aws_puts])
  ultimately show ?thesis using aws_next by (fastforce simp: aws_attempt_def)
qed

theorem aws_refines_witness:
  "\<exists>es m'. manager_run False (new_manager 0) es m' \<and> map ca_data (handled es) = [BeginConnection 1 ''a'' 5 0] \<and>
    cm_connections m' = [(1, 0)]"
proof -
  obtain es m' where "manager_run False (new_manager 0) es m'" "map ca_data (handled es) = [BeginConnection 1 ''a'' 5 0]"
    "related aws_attempting m'"
    using aws_refines [OF aws_attempting_run] by (elim exE conjE) (rule that)
  then show ?thesis by (intro exI [of _ es] exI [of _ m']) (simp add: related_def aws_attempting_def)
qed

text \<open>
  The time limit of an RPC.  Whatever time limit \<open>begin_operation\<close> is given, the RPC fails as soon as more than
  five seconds have passed, because the limit is not passed on to the action.
\<close>

theorem aws_rpc_limit:
  assumes "am_connections m = [(i, r)]" "r < length (am_store m)" "ad_conn_id (am_store m ! r) = i" "ad_state (am_store m ! r) = Idle"
    and "\<not> am_stopped m" "am_actions m = []" "m1 = aws_worker_round silent (aws_begin_operation (IntKey i) ''rpc'' cb t m)"
  shows "am_calls m1 = am_calls m \<and> am_calls (aws_worker_round silent (m1\<lparr>am_now := am_now m + 5001\<rparr>)) =
    am_calls m @ [(cb, [IntArg i, IntArg (am_id m), BoolArg False, StrArg ''RPC timed out without response'', NoneArg, NoneArg])]"
proof -
  let ?d = "am_store m ! r"
  obtain e tv where e: "tv_expired (am_now m) (ad_timeout ?d) = (e, tv)" by fastforce
  let ?busy = "?d\<lparr>ad_state := InProgress, ad_microstate := Some ''rpc'', ad_callback := Some cb, ad_timeout := new_timeout 5000 (am_now m)\<rparr>"
  note eval = aws_worker_round_def aws_check_timeouts_def aws_time_out_def aws_handle_action_def aws_with_connection_def
    aws_get_connection_state_def aws_get_connection_def aws_lookup_def aws_set_data_def Let_def
  have m1: "m1 = m\<lparr>am_actions := [], am_store := (am_store m)[r := ?busy]\<rparr>"
    using assms(1-6) e by (simp add: assms(7) eval aws_begin_operation_def aws_put_def aws_begin_operation_action_def)
  have x: "tv_expired (am_now m + 5001) (new_timeout 5000 (am_now m)) =
      (True, (new_timeout 5000 (am_now m))\<lparr>tv_expired_latch := True\<rparr>)"
    by (simp add: tv_expired_def new_timeout_def check_time_backwards_def Let_def)
  show ?thesis
    using assms(1-6) x
    by (simp add: m1 eval aws_finish_operation_def aws_put_def aws_finish_operation_action_def aws_call_def silent_def)
qed

theorem aws_rpc_limit_witness:
  "am_calls (aws_worker_round silent ((aws_worker_round silent (aws_begin_operation (IntKey 1) ''rpc'' 7 60000
      (aws_attempting\<lparr>am_store := [(am_store aws_attempting ! 0)\<lparr>ad_state := Idle\<rparr>]\<rparr>)))\<lparr>am_now := 5001\<rparr>)) =
    [(7, [IntArg 1, IntArg 0, BoolArg False, StrArg ''RPC timed out without response'', NoneArg, NoneArg])]"
  using aws_rpc_limit [of "aws_attempting\<lparr>am_store := [(am_store aws_attempting ! 0)\<lparr>ad_state := Idle\<rparr>]\<rparr>" 1 0 _ 7 60000, OF _ _ _ _ _ _ refl]
  by (simp add: aws_attempting_def)

end
