(* ===== verification/Mqtt_Packets.thy ===== *)
theory Mqtt_Packets
  imports Prelude "HOL-Library.AList" "HOL-Library.Multiset"
begin

text \<open>
  The ordered message channel of the AWS IoT transport: the queue that puts packets in order (\<open>packet_queue.py\<close>), the numbers
  of packets (\<open>topic_sequencer.py\<close>), topics (\<open>topic_validator.py\<close>) and the client (\<open>mqtt_client.py\<close>).
\<close>

section \<open>The packet queue\<close>

text \<open>The callback of a queue is named by a value; what it does is a parameter of the operations.\<close>

record ('c, 'a) packet_queue =
  pq_out_of_order :: "(int \<times> 'a) list"
  pq_next_expected :: "int option"
  pq_callback :: 'c
  pq_reorder :: bool

definition new_packet_queue :: "'c \<Rightarrow> bool \<Rightarrow> ('c, 'a) packet_queue" where
  "new_packet_queue callback reorder =
     \<lparr>pq_out_of_order = [], pq_next_expected = None, pq_callback = callback, pq_reorder = reorder\<rparr>"

type_synonym ('c, 'a, 'w) packet_reaction = "'c \<Rightarrow> 'a \<Rightarrow> 'w \<Rightarrow> (unit, 'w) act"

text \<open>The loop over the packets in order; a packet whose callback raises stays in front.\<close>

fun deliver ::
  "('a \<Rightarrow> 'w \<Rightarrow> (unit, 'w) act) \<Rightarrow> (int \<times> 'a) list \<Rightarrow> int option \<Rightarrow> 'w \<Rightarrow> (unit, (int \<times> 'a) list \<times> int option \<times> 'w) act" where
  "deliver call [] expected w = (Inr (), [], expected, w)"
| "deliver call ((s, args) # rest) expected w =
     (if expected \<noteq> None \<and> expected \<noteq> Some s then (Inr (), (s, args) # rest, expected, w)
      else case call args w of
        (Inl err, w1) \<Rightarrow> (Inl err, (s, args) # rest, expected, w1)
      | (Inr _, w1) \<Rightarrow> deliver call rest (Some (s + 1)) w1)"

definition receive_packet ::
  "('c, 'a, 'w) packet_reaction \<Rightarrow> int \<Rightarrow> 'a \<Rightarrow> ('c, 'a) packet_queue \<times> 'w \<Rightarrow> (unit, ('c, 'a) packet_queue \<times> 'w) act" where
  "receive_packet react s args qw =
     (case qw of (q, w) \<Rightarrow>
        if \<not> pq_reorder q then (case react (pq_callback q) args w of (r, w1) \<Rightarrow> (r, q, w1))
        else if (case pq_next_expected q of None \<Rightarrow> False | Some e \<Rightarrow> s < e) then (Inr (), q, w)
        else case deliver (react (pq_callback q)) (sort_key fst (pq_out_of_order q @ [(s, args)])) (pq_next_expected q) w of
          (r, out_of_order, expected, w1) \<Rightarrow> (r, q\<lparr>pq_out_of_order := out_of_order, pq_next_expected := expected\<rparr>, w1))"

definition reset_queue :: "('c, 'a) packet_queue \<Rightarrow> ('c, 'a) packet_queue" where
  "reset_queue q = q\<lparr>pq_next_expected := None\<rparr>"

section \<open>Sequence numbers\<close>

type_synonym topic_sequencer = "(string \<times> int) list"

definition next_sequence :: "string \<Rightarrow> topic_sequencer \<Rightarrow> int \<times> topic_sequencer" where
  "next_sequence channel topics =
     (case map_of topics channel of
        None \<Rightarrow> (0, AList.update channel 0 topics)
      | Some n \<Rightarrow> (n + 1, AList.update channel (n + 1) topics))"

definition reset_sequencer :: "topic_sequencer \<Rightarrow> topic_sequencer" where
  "reset_sequencer topics = []"

section \<open>Topics\<close>

record topic_validator =
  tv_prefix :: string
  tv_key :: "string option"
  tv_client :: "string option"

definition new_validator :: "string \<Rightarrow> topic_validator" where
  "new_validator prefix =
     \<lparr>tv_prefix = (if prefix \<noteq> [] \<and> last prefix \<noteq> CHR ''/'' then prefix @ ''/'' else prefix), tv_key = None, tv_client = None\<rparr>"

definition lock_topic :: "string \<Rightarrow> string \<Rightarrow> topic_validator \<Rightarrow> topic_validator" where
  "lock_topic key client v = v\<lparr>tv_key := Some key, tv_client := Some client\<rparr>"

definition unlock_topic :: "topic_validator \<Rightarrow> topic_validator" where
  "unlock_topic v = v\<lparr>tv_key := None, tv_client := None\<rparr>"

definition topic_locked :: "topic_validator \<Rightarrow> bool" where
  "topic_locked v \<longleftrightarrow> tv_key v \<noteq> None"

definition gateway_topic :: "string \<Rightarrow> string \<Rightarrow> topic_validator \<Rightarrow> string" where
  "gateway_topic slug postfix v = tv_prefix v @ ''devices/'' @ slug @ ''/'' @ postfix"

definition gateway_connect :: "topic_validator \<Rightarrow> string" where
  "gateway_connect v = tv_prefix v @ ''devices/+/control/connect''"

definition gateway_action :: "topic_validator \<Rightarrow> string" where
  "gateway_action v = tv_prefix v @ ''devices/+/control/action''"

text \<open>
  \<open>match\<close> of the expression that is made of a topic: \<open>+\<close> stands for \<open>[^/]+\<close> and \<open>#\<close> for \<open>.*\<close>, a dot is not quoted, and
  the end of the text is not asked for.  Topics have no other characters that are special in an expression.
\<close>

fun topic_matches :: "string \<Rightarrow> string \<Rightarrow> bool" where
  "topic_matches [] s = True"
| "topic_matches (c # p) [] = (c = CHR ''#'' \<and> topic_matches p [])"
| "topic_matches (c # p) (x # s) =
     (if c = CHR ''#'' then topic_matches p (x # s) \<or> x \<noteq> CHR 0x0A \<and> topic_matches (c # p) s
      else if c = CHR ''+'' then x \<noteq> CHR ''/'' \<and> (topic_matches p s \<or> topic_matches (c # p) s)
      else if c = CHR ''.'' then x \<noteq> CHR 0x0A \<and> topic_matches p s
      else x = c \<and> topic_matches p s)"

definition is_wildcard :: "string \<Rightarrow> bool" where
  "is_wildcard topic \<longleftrightarrow> CHR ''+'' \<in> set topic \<or> CHR ''#'' \<in> set topic"

section \<open>The client\<close>

text \<open>
  Arguments of a callback are the sequence number, the topic and the message.  The broker is the list of what was published;
  whether it takes a packet is an argument.
\<close>

type_synonym 'm packet_args = "int \<times> string \<times> 'm"

record ('c, 'm) mqtt_client =
  mc_sequencer :: topic_sequencer
  mc_queues :: "(string \<times> ('c, 'm packet_args) packet_queue) list"
  mc_wildcard_queues :: "(string \<times> 'c \<times> bool) list"
  mc_published :: "(string \<times> int \<times> 'm) list"

definition new_mqtt_client :: "('c, 'm) mqtt_client" where
  "new_mqtt_client = \<lparr>mc_sequencer = [], mc_queues = [], mc_wildcard_queues = [], mc_published = []\<rparr>"

text \<open>The number is used up also when the broker does not take the packet.\<close>

definition publish :: "bool \<Rightarrow> string \<Rightarrow> 'm \<Rightarrow> ('c, 'm) mqtt_client \<Rightarrow> (unit, ('c, 'm) mqtt_client) act" where
  "publish broker_ok topic message c =
     (case next_sequence topic (mc_sequencer c) of (n, topics) \<Rightarrow>
        if broker_ok then (Inr (), c\<lparr>mc_sequencer := topics, mc_published := mc_published c @ [(topic, n, message)]\<rparr>)
        else (Inl InternalError, c\<lparr>mc_sequencer := topics\<rparr>))"

definition subscribe :: "bool \<Rightarrow> string \<Rightarrow> 'c \<Rightarrow> bool \<Rightarrow> ('c, 'm) mqtt_client \<Rightarrow> (unit, ('c, 'm) mqtt_client) act" where
  "subscribe broker_ok topic callback ordered c =
     (if broker_ok then Inr () else Inl InternalError,
      if is_wildcard topic then c\<lparr>mc_wildcard_queues := mc_wildcard_queues c @ [(topic, callback, ordered)]\<rparr>
      else c\<lparr>mc_queues := AList.update topic (new_packet_queue callback ordered) (mc_queues c)\<rparr>)"

definition unsubscribe :: "bool \<Rightarrow> string \<Rightarrow> ('c, 'm) mqtt_client \<Rightarrow> (unit, ('c, 'm) mqtt_client) act" where
  "unsubscribe broker_ok topic c =
     (if map_of (mc_queues c) topic = None then (Inl KeyError, c)
      else (if broker_ok then Inr () else Inl InternalError, c\<lparr>mc_queues := AList.delete topic (mc_queues c)\<rparr>))"

definition reset_sequence :: "string \<Rightarrow> ('c, 'm) mqtt_client \<Rightarrow> ('c, 'm) mqtt_client" where
  "reset_sequence topic c =
     (case map_of (mc_queues c) topic of
        None \<Rightarrow> c
      | Some q \<Rightarrow> c\<lparr>mc_queues := AList.update topic (reset_queue q) (mc_queues c)\<rparr>)"

text \<open>The queue of a topic, which the first matching wildcard subscription makes when there is none.\<close>

definition queue_for :: "string \<Rightarrow> ('c, 'm) mqtt_client \<Rightarrow> ('c, 'm packet_args) packet_queue option" where
  "queue_for topic c =
     (case map_of (mc_queues c) topic of
        Some q \<Rightarrow> Some q
      | None \<Rightarrow> map_option (\<lambda>(_, callback, ordered). new_packet_queue callback ordered)
          (find (\<lambda>(pattern, _, _). topic_matches pattern topic) (mc_wildcard_queues c)))"

text \<open>
  \<open>_on_receive\<close> from the result of \<open>json.loads\<close> on: nothing when the text is not JSON or the keys are missing.
\<close>

definition on_receive ::
  "('c, 'm packet_args, 'w) packet_reaction \<Rightarrow> string \<Rightarrow> (int \<times> 'm) option \<Rightarrow> ('c, 'm) mqtt_client \<times> 'w
   \<Rightarrow> (unit, ('c, 'm) mqtt_client \<times> 'w) act" where
  "on_receive react topic packet cw =
     (case (cw, packet) of
        ((c, w), Some (s, message)) \<Rightarrow>
          (case queue_for topic c of
             None \<Rightarrow> (Inr (), c, w)
           | Some q \<Rightarrow>
               (case receive_packet react s (s, topic, message) (q, w) of
                  (r, q1, w1) \<Rightarrow> (r, c\<lparr>mc_queues := AList.update topic q1 (mc_queues c)\<rparr>, w1)))
      | _ \<Rightarrow> (Inr (), cw))"

section \<open>Packets that arrive once\<close>

text \<open>A callback that never raises and keeps what it was called with.\<close>

definition recorded :: "('c, 'a, 'a list) packet_reaction" where
  "recorded callback args w = (Inr (), w @ [args])"

definition receive_all :: "(int \<times> 'a) list \<Rightarrow> ('c, 'a) packet_queue \<times> 'a list \<Rightarrow> ('c, 'a) packet_queue \<times> 'a list" where
  "receive_all ps qw = fold (\<lambda>(s, args) qw. snd (receive_packet recorded s args qw)) ps qw"

lemma receive_all_simps [simp]:
  "receive_all [] qw = qw"
  "receive_all ((s, args) # ps) qw = receive_all ps (snd (receive_packet recorded s args qw))"
  "receive_all (ps @ qs) qw = receive_all qs (receive_all ps qw)"
  by (simp_all add: receive_all_def)

text \<open>The first packets of a list as far as their numbers follow each other.\<close>

fun contiguous :: "int \<Rightarrow> (int \<times> 'a) list \<Rightarrow> (int \<times> 'a) list" where
  "contiguous n [] = []"
| "contiguous n ((s, args) # ps) = (if s = n then (s, args) # contiguous (n + 1) ps else [])"

lemma contiguous_append: "contiguous n xs = xs \<Longrightarrow> contiguous n (xs @ ys) = xs @ contiguous (n + int (length xs)) ys"
  by (induction n xs rule: contiguous.induct) (auto simp: algebra_simps split: if_splits)

lemma contiguous_prefix: "xs = contiguous n xs @ drop (length (contiguous n xs)) xs"
  by (induction n xs rule: contiguous.induct) auto

lemma contiguous_twice [simp]: "contiguous n (contiguous n xs) = contiguous n xs"
  by (induction n xs rule: contiguous.induct) auto

lemma contiguous_numbers: "fst ` set (contiguous n xs) = {n..<n + int (length (contiguous n xs))}"
proof (induction n xs rule: contiguous.induct)
  case (2 n s args ps)
  show ?case
  proof (cases "s = n")
    case True
    then have "fst ` set (contiguous n ((s, args) # ps)) = insert n (fst ` set (contiguous (n + 1) ps))" by simp
    also have "\<dots> = insert n {n + 1..<n + 1 + int (length (contiguous (n + 1) ps))}" using 2 [OF True] by simp
    also have "\<dots> = {n..<n + int (length (contiguous n ((s, args) # ps)))}" using True by auto
    finally show ?thesis .
  qed simp
qed simp

lemma contiguous_stuck: "n \<notin> fst ` set xs \<Longrightarrow> contiguous n xs = []"
  by (cases "(n, xs)" rule: contiguous.cases) auto

lemma deliver_recorded:
  "deliver (recorded c) xs (Some e) w =
     (Inr (), drop (length (contiguous e xs)) xs, Some (e + int (length (contiguous e xs))), w @ map snd (contiguous e xs))"
  by (induction e xs arbitrary: w rule: contiguous.induct) (auto simp: recorded_def)

text \<open>The state of a queue that has seen some packets with different numbers from \<open>n\<close> on.\<close>

definition queue_has :: "int \<Rightarrow> (int \<times> 'a) list \<Rightarrow> ('c, 'a) packet_queue \<times> 'a list \<Rightarrow> bool" where
  "queue_has n ps qw \<longleftrightarrow>
     (let all = sort_key fst ps; done = contiguous n all in
      pq_reorder (fst qw) \<and> pq_next_expected (fst qw) = Some (n + int (length done)) \<and>
      pq_out_of_order (fst qw) = drop (length done) all \<and> snd qw = map snd done)"

lemma sort_key_split:
  assumes "distinct (map fst (ps @ [(s, args)]))" and "all = sort_key fst ps" and "contiguous n all = xs" and "n + int (length xs) \<le> s"
  shows "sort_key fst (ps @ [(s, args)]) = xs @ sort_key fst (drop (length xs) all @ [(s, args)])"
proof (rule sort_key_inj_key_eq)
  have all: "all = xs @ drop (length xs) all" using contiguous_prefix [of all n] assms(3) by simp
  then have m: "mset ps = mset xs + mset (drop (length xs) all)" using assms(2) by (metis mset_append mset_sort)
  then show "mset (ps @ [(s, args)]) = mset (xs @ sort_key fst (drop (length xs) all @ [(s, args)]))" by simp
  show "inj_on fst (set (ps @ [(s, args)]))" using assms(1) by (auto simp: distinct_map)
  have "sorted (map fst (xs @ drop (length xs) all))" using all assms(2) by (metis sorted_sort_key)
  moreover have "fst x < s" if "x \<in> set xs" for x
  proof -
    have "fst ` set xs = {n..<n + int (length xs)}" using contiguous_numbers [of n all] assms(3) by simp
    then have "fst x \<in> {n..<n + int (length xs)}" using that by blast
    then show ?thesis using assms(4) by simp
  qed
  ultimately show "sorted (map fst (xs @ sort_key fst (drop (length xs) all @ [(s, args)])))"
    by (auto simp: sorted_append less_imp_le)
qed

lemma receive_queue_has:
  assumes "queue_has n ps qw" and "distinct (map fst (ps @ [(s, args)]))" and "n \<le> s"
  shows "queue_has n (ps @ [(s, args)]) (snd (receive_packet recorded s args qw))"
proof -
  obtain q w where qw: "qw = (q, w)" by fastforce
  define all where "all = sort_key fst ps"
  define xs where "xs = contiguous n all"
  have q: "pq_reorder q" "pq_next_expected q = Some (n + int (length xs))" "pq_out_of_order q = drop (length xs) all" "w = map snd xs"
    using assms(1) by (simp_all add: queue_has_def Let_def qw xs_def all_def)
  have "set xs \<subseteq> set all" using arg_cong [OF contiguous_prefix [of all n], of set] by (auto simp: xs_def)
  then have "set xs \<subseteq> set ps" by (simp add: all_def)
  then have "s \<notin> fst ` set xs" using assms(2) by auto
  then have late: "n + int (length xs) \<le> s" using contiguous_numbers [of n all] assms(3) by (auto simp: xs_def)
  have split: "sort_key fst (ps @ [(s, args)]) = xs @ sort_key fst (drop (length xs) all @ [(s, args)])"
    using sort_key_split [OF assms(2) all_def xs_def [symmetric] late] .
  have "contiguous n (xs @ ys) = xs @ contiguous (n + int (length xs)) ys" for ys
    by (rule contiguous_append) (simp add: xs_def)
  then show ?thesis
    using late q by (simp add: qw receive_packet_def queue_has_def deliver_recorded split Let_def)
qed

lemma receive_all_queue_has:
  assumes "queue_has n ps qw" and "distinct (map fst (ps @ qs))" and "\<forall>s \<in> fst ` set qs. n \<le> s"
  shows "queue_has n (ps @ qs) (receive_all qs qw)"
  using assms
proof (induction qs arbitrary: ps qw)
  case (Cons p qs)
  obtain s args where p: "p = (s, args)" by fastforce
  have "queue_has n (ps @ [(s, args)]) (snd (receive_packet recorded s args qw))"
    using Cons.prems by (intro receive_queue_has) (auto simp: p)
  from Cons.IH [OF this] show ?case using Cons.prems by (auto simp: p)
qed simp

lemma first_packet:
  "queue_has s [(s, args)] (snd (receive_packet recorded s args (new_packet_queue callback True, [])))"
  by (simp add: receive_packet_def new_packet_queue_def queue_has_def recorded_def)

lemma receive_early:
  assumes "queue_has n ps (q, w)" and "t < n"
  shows "receive_packet recorded t args (q, w) = (Inr (), q, w)"
  using assms by (simp add: queue_has_def Let_def receive_packet_def)

lemma receive_all_late:
  assumes "queue_has n ps qw" and "distinct (map fst (ps @ qs))"
  shows "receive_all qs qw = receive_all (filter (\<lambda>p. n \<le> fst p) qs) qw"
  using assms
proof (induction qs arbitrary: ps qw)
  case (Cons p qs)
  obtain s args where p: "p = (s, args)" by fastforce
  obtain q w where qw: "qw = (q, w)" by fastforce
  show ?case
  proof (cases "n \<le> s")
    case True
    have "queue_has n (ps @ [(s, args)]) (snd (receive_packet recorded s args qw))"
      using Cons.prems True by (intro receive_queue_has) (auto simp: p)
    from Cons.IH [OF this] show ?thesis using Cons.prems True by (auto simp: p)
  next
    case False
    then show ?thesis using Cons.IH [OF Cons.prems(1)] Cons.prems receive_early [of n ps q w s args] by (simp add: p qw)
  qed
qed simp

text \<open>A new queue starts with the number of the packet that comes first.\<close>

lemma receive_new_queue:
  assumes "distinct (map fst ((s, args) # ps))"
  shows "queue_has s (filter (\<lambda>p. s \<le> fst p) ((s, args) # ps)) (receive_all ((s, args) # ps) (new_packet_queue callback True, []))"
proof -
  let ?late = "filter (\<lambda>p. s \<le> fst p) ps" and ?qw = "snd (receive_packet recorded s args (new_packet_queue callback True, []))"
  have "queue_has s ([(s, args)] @ ?late) (receive_all ?late ?qw)"
    using assms by (intro receive_all_queue_has [OF first_packet]) (auto simp: distinct_map_filter)
  moreover have "receive_all ps ?qw = receive_all ?late ?qw"
    using assms by (intro receive_all_late [OF first_packet]) simp
  ultimately show ?thesis by simp
qed

lemma queue_has_all:
  assumes "queue_has n ps qw" and "sort_key fst ps = contiguous n (sort_key fst ps)"
  shows "snd qw = map snd (sort_key fst ps)"
  using assms by (simp add: queue_has_def Let_def)

section \<open>Packets that never arrive, and packets that arrive twice\<close>

lemma gap_blocks:
  assumes "pq_reorder q" and "pq_next_expected q = Some e" and "e \<notin> fst ` set (pq_out_of_order q)" and "e \<notin> fst ` set ps"
  shows "snd (receive_all ps (q, w)) = w"
  using assms
proof (induction ps arbitrary: q)
  case (Cons p ps)
  obtain s args where p: "p = (s, args)" by fastforce
  show ?case
  proof (cases "s < e")
    case True
    then show ?thesis using Cons by (simp add: p receive_packet_def)
  next
    case False
    let ?all = "sort_key fst (pq_out_of_order q @ [(s, args)])"
    have "contiguous e ?all = []" using Cons.prems by (intro contiguous_stuck) (auto simp: p)
    then have "receive_packet recorded s args (q, w) = (Inr (), q\<lparr>pq_out_of_order := ?all, pq_next_expected := Some e\<rparr>, w)"
      using False Cons.prems by (simp add: receive_packet_def deliver_recorded)
    moreover have "snd (receive_all ps (q\<lparr>pq_out_of_order := ?all, pq_next_expected := Some e\<rparr>, w)) = w"
      using Cons.prems by (intro Cons.IH) (auto simp: p)
    ultimately show ?thesis by (simp add: p)
  qed
qed simp

text \<open>A queue with two packets of the number \<open>s\<close>, or that has already delivered one of them.\<close>

definition doubled :: "int \<Rightarrow> int \<Rightarrow> (int \<times> 'a) list \<Rightarrow> bool" where
  "doubled s e xs \<longleftrightarrow> sorted (map fst xs) \<and>
     (e \<le> s \<and> 2 \<le> count_list (map fst xs) s \<or> e = s + 1 \<and> s \<in> fst ` set xs)"

lemma count_pos: "Suc 0 \<le> count_list xs x \<longleftrightarrow> x \<in> set xs"
  by (simp add: Suc_le_eq count_list_0_iff flip: neq0_conv)

lemma doubled_deliver:
  assumes "doubled s e xs"
  shows "fst ` set (contiguous e xs) \<subseteq> {..s}" and
    "doubled s (e + int (length (contiguous e xs))) (drop (length (contiguous e xs)) xs)"
  using assms
proof (induction e xs rule: contiguous.induct)
  case (2 n t args ps)
  { case 1
    show ?case
    proof (cases "t = n \<and> n < s")
      case True
      then have "doubled s (n + 1) ps" using 1 by (auto simp: doubled_def split: if_splits)
      then show ?thesis using 2(1) True by auto
    next
      case False
      then show ?thesis using 1 by (cases ps) (auto simp: doubled_def count_pos split: if_splits)
    qed
  next
    case 2
    show ?case
    proof (cases "t = n \<and> n < s")
      case True
      then have "doubled s (n + 1) ps" using 2 by (auto simp: doubled_def split: if_splits)
      then show ?thesis using "2.IH"(2) True by (auto simp: algebra_simps)
    next
      case False
      then show ?thesis using 2 by (cases ps) (auto simp: doubled_def count_pos split: if_splits)
    qed
  }
qed (simp_all add: doubled_def)


lemma doubled_insert:
  assumes "doubled s e xs"
  shows "doubled s e (sort_key fst (xs @ [(t, args)]))"
proof -
  have m: "count_list (map fst (sort_key fst (xs @ [(t, args)]))) k = count_list (map fst (xs @ [(t, args)])) k" for k
    by (simp flip: count_mset)
  show ?thesis using assms by (auto simp: doubled_def m)
qed

text \<open>The number of a packet is among the arguments of the callback.\<close>

abbreviation (input) numbered :: "(int \<times> int \<times> 'a) list \<Rightarrow> bool" where
  "numbered ps \<equiv> \<forall>p \<in> set ps. fst (snd p) = fst p"

lemma doubled_receive:
  assumes "pq_reorder q" and "pq_next_expected q = Some e" and "doubled s e (pq_out_of_order q)"
    and "numbered (pq_out_of_order q)" and "numbered ps"
  shows "\<exists>new. snd (receive_all ps (q, w)) = w @ new \<and> fst ` set new \<subseteq> {..s}"
  using assms
proof (induction ps arbitrary: q e w)
  case (Cons p ps)
  obtain t args where p: "p = (t, args)" by (cases p)
  show ?case
  proof (cases "t < e")
    case True
    then have "receive_packet recorded t args (q, w) = (Inr (), q, w)" using Cons.prems by (simp add: receive_packet_def)
    then show ?thesis using Cons.IH [OF Cons.prems(1-4)] Cons.prems(5) by (simp add: p)
  next
    case False
    let ?all = "sort_key fst (pq_out_of_order q @ [(t, args)])"
    let ?out = "contiguous e ?all"
    let ?q = "q\<lparr>pq_out_of_order := drop (length ?out) ?all, pq_next_expected := Some (e + int (length ?out))\<rparr>"
    have d: "doubled s e ?all" using Cons.prems(3) by (rule doubled_insert)
    have n: "numbered ?all" using Cons.prems(4,5) by (auto simp: p)
    have "set ?out \<union> set (drop (length ?out) ?all) = set ?all" using arg_cong [OF contiguous_prefix [of ?all e], of set] by simp
    then have n': "numbered ?out" "numbered (drop (length ?out) ?all)" using n by blast+
    have "\<exists>new. snd (receive_all ps (?q, w @ map snd ?out)) = (w @ map snd ?out) @ new \<and> fst ` set new \<subseteq> {..s}"
      using Cons.prems doubled_deliver(2) [OF d] n'(2) by (intro Cons.IH) simp_all
    then obtain new where new: "snd (receive_all ps (?q, w @ map snd ?out)) = w @ map snd ?out @ new" "fst ` set new \<subseteq> {..s}" by auto
    have "fst ` set (map snd ?out) \<subseteq> {..s}" using doubled_deliver(1) [OF d] n'(1) by (force simp: image_iff)
    moreover have "receive_packet recorded t args (q, w) = (Inr (), ?q, w @ map snd ?out)"
      using False Cons.prems by (simp add: receive_packet_def deliver_recorded)
    ultimately show ?thesis using new by (intro exI [of _ "map snd ?out @ new"]) (auto simp: p)
  qed
qed simp

text \<open>
  C31: What a queue does with packets that arrive once, in any order.  The packet that comes first decides where the queue
  starts.  At any time the callback was called with the packets from its number on, in order, up to the first number
  that has not come yet; packets with a lower number than the first one are dropped.
\<close>

theorem packets_in_order:
  assumes "distinct (map fst ((s, args) # ps))"
  shows "snd (receive_all ((s, args) # ps) (new_packet_queue callback True, [])) =
    map snd (contiguous s (sort_key fst (filter (\<lambda>p. s \<le> fst p) ((s, args) # ps))))"
  using receive_new_queue [OF assms, of callback] by (simp add: queue_has_def Let_def)

text \<open>
  C33: A packet that arrives twice while it has to wait blocks the queue for ever: once two packets with the number \<open>s\<close> are
  waiting, nothing after \<open>s\<close> is delivered again, whatever arrives.
\<close>

theorem waiting_duplicate_blocks:
  assumes "pq_reorder q" and "pq_next_expected q = Some e" and "e \<le> s" and "sorted (map fst (pq_out_of_order q))"
    and "2 \<le> count_list (map fst (pq_out_of_order q)) s"
    and "\<forall>p \<in> set (pq_out_of_order q @ ps). fst (snd p) = fst p"
  shows "\<exists>new. snd (receive_all ps (q, w)) = w @ new \<and> fst ` set new \<subseteq> {..s}"
  using assms by (intro doubled_receive [of _ e]) (auto simp: doubled_def)

section \<open>From a publisher to a subscriber\<close>

definition publish_all :: "(bool \<times> string \<times> 'm) list \<Rightarrow> ('c, 'm) mqtt_client \<Rightarrow> ('c, 'm) mqtt_client" where
  "publish_all ms c = fold (\<lambda>(broker_ok, topic, message) c. snd (publish broker_ok topic message c)) ms c"

definition published_on :: "string \<Rightarrow> ('c, 'm) mqtt_client \<Rightarrow> (int \<times> 'm) list" where
  "published_on topic c = map snd (filter (\<lambda>p. fst p = topic) (mc_published c))"

definition next_number :: "string \<Rightarrow> ('c, 'm) mqtt_client \<Rightarrow> int" where
  "next_number topic c = (case map_of (mc_sequencer c) topic of None \<Rightarrow> 0 | Some n \<Rightarrow> n + 1)"

definition receive_topic ::
  "string \<Rightarrow> (int \<times> 'm) list \<Rightarrow> ('c, 'm) mqtt_client \<times> 'm packet_args list \<Rightarrow> ('c, 'm) mqtt_client \<times> 'm packet_args list" where
  "receive_topic topic ps cw = fold (\<lambda>p cw. snd (on_receive recorded topic (Some p) cw)) ps cw"

lemma publish_facts:
  "next_number t (snd (publish ok t' m c)) = (if t' = t then next_number t c + 1 else next_number t c)"
  "published_on t (snd (publish ok t' m c)) = published_on t c @ (if ok \<and> t' = t then [(next_number t c, m)] else [])"
  by (auto simp: publish_def next_sequence_def next_number_def published_on_def update_conv split: option.split)

lemma publish_all_later:
  "\<exists>new. published_on t (publish_all ms c) = published_on t c @ new \<and> (\<forall>p \<in> set new. next_number t c \<le> fst p)"
proof (induction ms arbitrary: c)
  case (Cons x ms)
  obtain ok t' m where x: "x = (ok, t', m)" by (rule prod_cases3)
  let ?c = "snd (publish ok t' m c)"
  obtain new where "published_on t (publish_all ms ?c) = published_on t ?c @ new" "\<forall>p \<in> set new. next_number t ?c \<le> fst p"
    using Cons.IH [of ?c] by blast
  then show ?case
    by (intro exI [of _ "(if ok \<and> t' = t then [(next_number t c, m)] else []) @ new"])
      (fastforce simp: x publish_all_def publish_facts split: if_splits)
qed (simp add: publish_all_def)

lemma publish_all_numbers:
  "published_on t (publish_all (map (\<lambda>m. (True, t, m)) ms) c) =
     published_on t c @ map (\<lambda>k. (next_number t c + int k, ms ! k)) [0..<length ms]"
proof (induction ms arbitrary: c)
  case (Cons m ms)
  have "[0..<length (m # ms)] = 0 # map Suc [0..<length ms]" by (simp add: map_Suc_upt upt_conv_Cons del: upt_Suc)
  then show ?case using Cons.IH [of "snd (publish True t m c)"]
    by (simp add: publish_all_def publish_facts o_def algebra_simps del: upt_Suc)
qed (simp add: publish_all_def)

lemma receive_topic_queue:
  "queue_for t c = Some q \<Longrightarrow>
     snd (receive_topic t ps (c, w)) = snd (receive_all (map (\<lambda>(n, m). (n, n, t, m)) ps) (q, w))"
proof (induction ps arbitrary: c q w)
  case (Cons p ps)
  obtain n m where p: "p = (n, m)" by fastforce
  obtain r q1 w1 where r: "receive_packet recorded n (n, t, m) (q, w) = (r, q1, w1)" by (rule prod_cases3)
  let ?c = "c\<lparr>mc_queues := AList.update t q1 (mc_queues c)\<rparr>"
  have "queue_for t ?c = Some q1" by (simp add: queue_for_def update_conv)
  then have "snd (receive_topic t ps (?c, w1)) = snd (receive_all (map (\<lambda>(n, m). (n, n, t, m)) ps) (q1, w1))" by (rule Cons.IH)
  moreover have "receive_topic t (p # ps) (c, w) = receive_topic t ps (?c, w1)"
    using Cons.prems r by (simp add: receive_topic_def on_receive_def p)
  ultimately show ?case using r by (simp add: p)
qed (simp add: receive_topic_def)

lemma contiguous_upt: "contiguous (int i) (map (\<lambda>k. (int k, f k)) [i..<j]) = map (\<lambda>k. (int k, f k)) [i..<j]"
proof (induction "j - i" arbitrary: i)
  case (Suc n)
  then have "i < j" "n = j - Suc i" by simp_all
  then show ?case using Suc.hyps(1) [of "Suc i"] by (simp add: upt_conv_Cons add.commute)
qed simp

lemma sorted_distinct_mset:
  assumes "mset xs = mset ys" and "distinct (map fst ys)" and "sorted (map fst ys)"
  shows "sort_key fst xs = ys"
proof (rule sort_key_inj_key_eq [OF assms(1)])
  have "set xs = set ys" using assms(1) by (rule mset_eq_setD)
  then show "inj_on fst (set xs)" using assms(2) by (simp add: distinct_map)
qed (rule assms(3))

text \<open>
  C32: What a subscriber is given of what was published.  When the broker delivers all messages of a topic, in any order, a
  new subscriber is given the messages from the one that reaches it first on, each once and with its number, in the order in
  which they were published, and no others: all of them if the first one published comes first, and otherwise those
  published before the one that comes first are lost.
\<close>

theorem published_in_order:
  assumes "next_number t c = 0" and "sent = drop (length (published_on t c)) (published_on t (publish_all (map (\<lambda>m. (True, t, m)) ms) c))"
    and "mset arrivals = mset sent" and "queue_for t d = Some (new_packet_queue callback True)"
  shows "snd (receive_topic t arrivals (d, [])) = map (\<lambda>k. (int k, t, ms ! k)) [nat (fst (hd arrivals))..<length ms]"
proof -
  let ?g = "\<lambda>(n, m). (n, n, t, m)" and ?f = "\<lambda>k. (int k, int k, t, ms ! k)"
  have sent: "sent = map (\<lambda>k. (int k, ms ! k)) [0..<length ms]" unfolding assms(2) publish_all_numbers by (simp add: assms(1))
  then have g: "map ?g sent = map ?f [0..<length ms]" by (simp add: o_def)
  have m: "mset (map ?g arrivals) = mset (map ?f [0..<length ms])" using assms(3) by (simp only: mset_map flip: g)
  show ?thesis
  proof (cases arrivals)
    case Nil
    then have "sent = []" using assms(3) by simp
    then have "ms = []" using sent by simp
    then show ?thesis using Nil by (simp add: receive_topic_def)
  next
    case (Cons p rest)
    have "p \<in> set sent" using mset_eq_setD [OF assms(3)] Cons by auto
    then obtain i where i: "i < length ms" "p = (int i, ms ! i)" using sent by auto
    have "mset (map fst (map ?g arrivals)) = mset (map fst (map ?f [0..<length ms]))"
      using arg_cong [OF m, of "image_mset fst"] by (simp only: mset_map)
    then have "distinct (map fst (map ?g arrivals)) \<longleftrightarrow> distinct (map fst (map ?f [0..<length ms]))"
      by (rule mset_eq_imp_distinct_iff)
    then have d: "distinct (map fst (map ?g arrivals))" by (simp add: o_def distinct_map inj_on_def)
    have split: "[0..<length ms] = [0..<i] @ [i..<length ms]" using i(1) upt_add_eq_append [of 0 i "length ms - i"] by simp
    have late: "filter (\<lambda>p. int i \<le> fst p) (map ?f [0..<length ms]) = map ?f [i..<length ms]"
      unfolding split by (simp add: filter_map o_def)
    have "mset (filter (\<lambda>p. int i \<le> fst p) (map ?g arrivals)) = mset (map ?f [i..<length ms])"
      by (simp only: mset_filter m flip: late)
    then have sorted: "sort_key fst (filter (\<lambda>p. int i \<le> fst p) (map ?g arrivals)) = map ?f [i..<length ms]"
      by (rule sorted_distinct_mset) (simp add: o_def distinct_map, simp add: o_def sorted_map)
    have "queue_has (int i) (filter (\<lambda>p. int i \<le> fst p) (map ?g arrivals))
        (receive_all (map ?g arrivals) (new_packet_queue callback True, []))"
      using receive_new_queue [of "int i" "(int i, t, ms ! i)" "map ?g rest" callback] d by (simp add: Cons i(2))
    then have "snd (receive_all (map ?g arrivals) (new_packet_queue callback True, [])) = map snd (contiguous (int i) (map ?f [i..<length ms]))"
      by (simp only: queue_has_def Let_def sorted)
    then have "snd (receive_all (map ?g arrivals) (new_packet_queue callback True, [])) = map snd (map ?f [i..<length ms])"
      by (simp only: contiguous_upt [of i "\<lambda>k. (int k, t, ms ! k)" "length ms"])
    then show ?thesis using receive_topic_queue [OF assms(4), of arrivals "[]"] by (simp add: Cons i(2) o_def)
  qed
qed

text \<open>
  A packet that the broker does not take blocks the topic: its number is used up, so a subscriber that waits for it is
  given nothing of what is published later.
\<close>

theorem failed_publish_blocks:
  assumes "publish False t m c = (Inl InternalError, c1)" and "pq_reorder q" and "pq_next_expected q = Some (next_number t c)"
    and "pq_out_of_order q = []"
    and "set ps \<subseteq> set (drop (length (published_on t c1)) (published_on t (publish_all ms c1)))" and "queue_for t d = Some q"
  shows "snd (receive_topic t ps (d, w)) = w"
proof -
  have c1: "c1 = snd (publish False t m c)" using assms(1) by simp
  then have n: "next_number t c1 = next_number t c + 1" by (simp add: publish_facts)
  obtain new where "published_on t (publish_all ms c1) = published_on t c1 @ new" "\<forall>p \<in> set new. next_number t c1 \<le> fst p"
    using publish_all_later by blast
  then have "\<forall>p \<in> set ps. next_number t c < fst p" using assms(5) n by fastforce
  then have "next_number t c \<notin> fst ` set (map (\<lambda>(n, m). (n, n, t, m)) ps)" by auto
  then show ?thesis using gap_blocks [OF assms(2,3)] assms(4) receive_topic_queue [OF assms(6), of ps w] by simp
qed

text \<open>
  A reset does not drop the packets that are waiting: when the numbers start again, a packet that was left waiting with the
  number \<open>s\<close> is delivered in the place of the new packet with this number, and the new one is dropped.
\<close>

theorem reset_keeps_waiting:
  assumes "pq_reorder q" and "pq_out_of_order q = [(int s, old)]" and "0 < s"
  shows "snd (receive_all (map (\<lambda>i. (int i, f i)) [0..<Suc s]) (reset_queue q, w)) = w @ map f [0..<s] @ [old]"
proof -
  let ?st = "\<lambda>i. q\<lparr>pq_out_of_order := (if i < s then [(int s, old)] else []), pq_next_expected := Some (if i < s then int i else int s + 1)\<rparr>"
  have "receive_all (map (\<lambda>i. (int i, f i)) [0..<i]) (reset_queue q, w) = (?st i, w @ map f [0..<i] @ (if i = s then [old] else []))"
    if "Suc 0 \<le> i" "i \<le> s" for i
    using that
  proof (induction i rule: dec_induct)
    case base
    then show ?case using assms by (auto simp: receive_packet_def reset_queue_def recorded_def)
  next
    case (step i)
    then show ?case using assms by (auto simp: receive_packet_def recorded_def)
  qed
  from this [of s] show ?thesis using assms(3) by (simp add: receive_packet_def assms(1))
qed


theorem packets_in_order_witness:
  "snd (receive_all [(4, ''a''), (7, ''d''), (3, ''z''), (6, ''c''), (5, ''b''), (9, ''f'')] (new_packet_queue () True, [])) =
    [''a'', ''b'', ''c'', ''d'']"
  using packets_in_order [of 4 "''a''" "[(7, ''d''), (3, ''z''), (6, ''c''), (5, ''b''), (9, ''f'')]" "()"] by simp

theorem waiting_duplicate_blocks_witness:
  "\<exists>new. snd (receive_all [(1, 1, ''b''), (2, 2, ''c''), (3, 3, ''d''), (4, 4, ''e'')]
      (\<lparr>pq_out_of_order = [(2, 2 :: int, ''c''), (2, 2, ''c'')], pq_next_expected = Some 1, pq_callback = (), pq_reorder = True\<rparr>, [])) = [] @ new \<and>
    fst ` set new \<subseteq> {..2}"
  by (rule waiting_duplicate_blocks [of _ 1]) simp_all

definition subscriber :: "(unit, string) mqtt_client" where
  "subscriber = new_mqtt_client\<lparr>mc_wildcard_queues := [(''devices/+/control/action'', (), True)]\<rparr>"

definition fresh_client :: "(unit, string) mqtt_client" where
  "fresh_client = new_mqtt_client"

theorem published_in_order_witness:
  "snd (receive_topic ''devices/d1/control/action'' [(0, ''a''), (2, ''c''), (1, ''b'')] (subscriber, [])) =
    [(0, ''devices/d1/control/action'', ''a''), (1, ''devices/d1/control/action'', ''b''), (2, ''devices/d1/control/action'', ''c'')] \<and>
   snd (receive_topic ''devices/d1/control/action'' [(1, ''b''), (0, ''a''), (2, ''c'')] (subscriber, [])) =
    [(1, ''devices/d1/control/action'', ''b''), (2, ''devices/d1/control/action'', ''c'')]"
proof -
  let ?t = "''devices/d1/control/action''"
  have q: "queue_for ?t subscriber = Some (new_packet_queue () True)" by code_simp
  have n: "next_number ?t fresh_client = 0" by code_simp
  have sent: "drop (length (published_on ?t fresh_client))
      (published_on ?t (publish_all (map (\<lambda>m. (True, ?t, m)) [''a'', ''b'', ''c'']) fresh_client)) = [(0, ''a''), (1, ''b''), (2, ''c'')]"
    by code_simp
  from published_in_order [OF n sent [symmetric], of "[(0, ''a''), (2, ''c''), (1, ''b'')]" subscriber "()"]
    published_in_order [OF n sent [symmetric], of "[(1, ''b''), (0, ''a''), (2, ''c'')]" subscriber "()"] q
  show ?thesis by (simp add: upt_rec)
qed

definition waiting_subscriber :: "(unit, string) mqtt_client" where
  "waiting_subscriber =
     subscriber\<lparr>mc_queues := [(''devices/d1/control/action'', (new_packet_queue () True)\<lparr>pq_next_expected := Some 0\<rparr>)]\<rparr>"

theorem failed_publish_blocks_witness:
  "snd (receive_topic ''devices/d1/control/action'' [(2, ''c''), (1, ''b'')] (waiting_subscriber, [])) = []"
proof -
  let ?t = "''devices/d1/control/action''" and ?q = "(new_packet_queue () True)\<lparr>pq_next_expected := Some 0\<rparr>"
  define c1 where "c1 = snd (publish False ''devices/d1/control/action'' ''a'' fresh_client)"
  have p: "publish False ?t ''a'' fresh_client = (Inl InternalError, c1)" by (simp add: c1_def publish_def split: prod.split)
  have n: "pq_next_expected ?q = Some (next_number ?t fresh_client)" by code_simp
  have sent: "drop (length (published_on ?t c1)) (published_on ?t (publish_all [(True, ?t, ''b''), (True, ?t, ''c'')] c1)) = [(1, ''b''), (2, ''c'')]"
    unfolding c1_def by code_simp
  show ?thesis
    by (rule failed_publish_blocks [OF p _ n, where ms = "[(True, ?t, ''b''), (True, ?t, ''c'')]"])
      (simp_all only: sent, simp_all add: new_packet_queue_def queue_for_def waiting_subscriber_def)
qed

theorem reset_keeps_waiting_witness:
  "snd (receive_all [(0, ''a''), (1, ''b''), (2, ''c'')] (reset_queue (\<lparr>pq_out_of_order = [(2, ''old'')], pq_next_expected = Some 1,
      pq_callback = (), pq_reorder = True\<rparr>), [])) = [''a'', ''b'', ''old'']"
  using reset_keeps_waiting [of "\<lparr>pq_out_of_order = [(2, ''old'')], pq_next_expected = Some 1, pq_callback = (), pq_reorder = True\<rparr>"
      2 "''old''" "\<lambda>i. [''a'', ''b'', ''c''] ! i" "[]"]
  by (simp add: upt_rec numeral_2_eq_2)

end
