(* ===== verification/Versions.thy ===== *)
theory Versions
  imports Prelude
begin

text \<open>
  Semantic versions and ranges of them (\<open>iotile/core/dev/semver.py\<close>).
\<close>

section \<open>Versions\<close>

text \<open>A released version has the type \<open>release\<close> and no number.\<close>

record sem_version =
  sv_major :: int
  sv_minor :: int
  sv_patch :: int
  sv_release_type :: string
  sv_prerelease_number :: "int option"

definition prerelease_order :: "(string \<times> int) list" where
  "prerelease_order = [(''build'', 0), (''alpha'', 1), (''beta'', 2), (''rc'', 3), (''release'', 4)]"

definition released :: "int \<times> int \<times> int \<Rightarrow> sem_version" where
  "released r = (case r of (major, minor, patch) \<Rightarrow>
     \<lparr>sv_major = major, sv_minor = minor, sv_patch = patch, sv_release_type = ''release'', sv_prerelease_number = None\<rparr>)"

definition release_tuple :: "sem_version \<Rightarrow> int \<times> int \<times> int" where
  "release_tuple v = (sv_major v, sv_minor v, sv_patch v)"

definition inc_first_nonzero :: "sem_version \<Rightarrow> sem_version" where
  "inc_first_nonzero v =
     (case release_tuple v of (a, b, c) \<Rightarrow>
        released (if a = 0 \<and> b = 0 then (a, b, c + 1) else if a = 0 then (a, b + 1, 0) else (a + 1, 0, 0)))"

definition dec_first_nonzero :: "sem_version \<Rightarrow> sem_version res" where
  "dec_first_nonzero v =
     (case release_tuple v of (a, b, c) \<Rightarrow>
        if a = 0 \<and> b = 0 \<and> c = 0 then Inl PlainException
        else Inr (released (if a = 0 \<and> b = 0 then (a, b, c - 1) else if a = 0 then (a, b - 1, 0) else (a - 1, 0, 0))))"

definition coexistence_class :: "sem_version \<Rightarrow> int \<times> int \<times> int" where
  "coexistence_class v =
     (case release_tuple v of (a, b, c) \<Rightarrow> if a = 0 \<and> b = 0 then (a, b, c) else if a = 0 then (a, b, 0) else (a, 0, 0))"

definition inc_release :: "sem_version \<Rightarrow> sem_version" where
  "inc_release v = (case release_tuple v of (a, b, c) \<Rightarrow> released (a, b, c + 1))"

definition is_release :: "sem_version \<Rightarrow> bool" where
  "is_release v \<longleftrightarrow> sv_release_type v = ''release''"

abbreviation (input) is_prerelease :: "sem_version \<Rightarrow> bool" where
  "is_prerelease v \<equiv> \<not> is_release v"

section \<open>Text\<close>

text \<open>\<open>isalpha\<close> for the characters of ASCII.\<close>

definition py_isalpha :: "char \<Rightarrow> bool" where
  "py_isalpha c \<longleftrightarrow> (let n = of_char c :: nat in 65 \<le> n \<and> n \<le> 90 \<or> 97 \<le> n \<and> n \<le> 122)"

text \<open>\<open>split\<close> at a character.\<close>

fun split_at :: "char \<Rightarrow> string \<Rightarrow> string list" where
  "split_at d [] = [[]]"
| "split_at d (c # s) = (if c = d then [] # split_at d s else (case split_at d s of [] \<Rightarrow> [[c]] | p # ps \<Rightarrow> (c # p) # ps))"

definition int_of_string :: "string \<Rightarrow> int res" where
  "int_of_string s = (case py_int10 s of None \<Rightarrow> Inl ValueError | Some n \<Rightarrow> Inr n)"

definition parse_prerelease :: "string \<Rightarrow> (string \<times> int) res" where
  "parse_prerelease prerelease =
     (let release_type = takeWhile py_isalpha prerelease; release_number = dropWhile py_isalpha prerelease in
      if map_of prerelease_order release_type = None \<or> release_type = ''release'' then Inl DataError
      else case py_int10 release_number of None \<Rightarrow> Inl DataError | Some n \<Rightarrow> Inr (release_type, n))"

text \<open>More than one hyphen in the last part makes the unpacking of the parts fail.\<close>

definition version_of_string :: "string \<Rightarrow> sem_version res" where
  "version_of_string version =
     (case split_at (CHR ''.'') version of
        [p0, p1, p2] \<Rightarrow>
          bind_res (int_of_string p0) (\<lambda>major.
          bind_res (int_of_string p1) (\<lambda>minor.
            if CHR ''-'' \<in> set p2 then
              (case split_at (CHR ''-'') p2 of
                 [patchstr, prerelease] \<Rightarrow>
                   bind_res (int_of_string patchstr) (\<lambda>patch.
                   bind_res (parse_prerelease prerelease) (\<lambda>(release_type, n).
                     Inr \<lparr>sv_major = major, sv_minor = minor, sv_patch = patch, sv_release_type = release_type,
                          sv_prerelease_number = Some n\<rparr>))
               | _ \<Rightarrow> Inl ValueError)
            else bind_res (int_of_string p2) (\<lambda>patch. Inr (released (major, minor, patch)))))
      | _ \<Rightarrow> Inl DataError)"

definition number_str :: "int option \<Rightarrow> string" where
  "number_str n = (case n of None \<Rightarrow> ''None'' | Some k \<Rightarrow> py_str_int k)"

definition triple_str :: "sem_version \<Rightarrow> string" where
  "triple_str v = py_str_int (sv_major v) @ ''.'' @ py_str_int (sv_minor v) @ ''.'' @ py_str_int (sv_patch v)"

definition version_str :: "sem_version \<Rightarrow> string" where
  "version_str v =
     (if is_release v then triple_str v
      else triple_str v @ ''-'' @ sv_release_type v @ number_str (sv_prerelease_number v))"

definition prerelease_templates :: "(string \<times> string) list" where
  "prerelease_templates = [(''build'', ''.dev''), (''alpha'', ''a''), (''beta'', ''b''), (''rc'', ''rc'')]"

definition pep440_string :: "sem_version \<Rightarrow> string res" where
  "pep440_string v =
     (if is_release v then Inr (version_str v)
      else case (map_of prerelease_templates (sv_release_type v), sv_prerelease_number v) of
        (None, _) \<Rightarrow> Inl KeyError
      | (Some infx, None) \<Rightarrow> Inl PyTypeError
      | (Some infx, Some n) \<Rightarrow> Inr (triple_str v @ infx @ py_str_int n))"

definition pep440_compatibility_specifier :: "sem_version \<Rightarrow> string res" where
  "pep440_compatibility_specifier v =
     bind_res (pep440_string v) (\<lambda>s. Inr (''>= '' @ s @ '', == '' @ py_str_int (sv_major v) @ ''.*''))"

section \<open>Order\<close>

text \<open>
  The tuples are compared element by element; two numbers of which one is missing are not equal and cannot be ordered.
\<close>

definition ordering_tuple :: "sem_version \<Rightarrow> ((int \<times> int \<times> int \<times> int) \<times> int option) res" where
  "ordering_tuple v =
     (case map_of prerelease_order (sv_release_type v) of
        None \<Rightarrow> Inl KeyError
      | Some k \<Rightarrow> Inr ((sv_major v, sv_minor v, sv_patch v, k), sv_prerelease_number v))"

fun tuple_less :: "(int \<times> int \<times> int \<times> int) \<times> int option \<Rightarrow> (int \<times> int \<times> int \<times> int) \<times> int option \<Rightarrow> bool res" where
  "tuple_less ((a, b, c, k), n) ((a', b', c', k'), n') =
     (if a \<noteq> a' then Inr (a < a') else if b \<noteq> b' then Inr (b < b') else if c \<noteq> c' then Inr (c < c')
      else if k \<noteq> k' then Inr (k < k')
      else if n = n' then Inr False
      else case (n, n') of (Some i, Some j) \<Rightarrow> Inr (i < j) | _ \<Rightarrow> Inl PyTypeError)"

definition version_eq :: "sem_version \<Rightarrow> sem_version \<Rightarrow> bool res" where
  "version_eq v w = bind_res (ordering_tuple v) (\<lambda>x. bind_res (ordering_tuple w) (\<lambda>y. Inr (x = y)))"

definition version_lt :: "sem_version \<Rightarrow> sem_version \<Rightarrow> bool res" where
  "version_lt v w = bind_res (ordering_tuple v) (\<lambda>x. bind_res (ordering_tuple w) (tuple_less x))"

definition version_gt :: "sem_version \<Rightarrow> sem_version \<Rightarrow> bool res" where
  "version_gt v w = bind_res (ordering_tuple v) (\<lambda>x. bind_res (ordering_tuple w) (\<lambda>y. tuple_less y x))"

text \<open>\<open>total_ordering\<close> derives the other two from \<open><\<close> and \<open>==\<close>.\<close>

definition version_le :: "sem_version \<Rightarrow> sem_version \<Rightarrow> bool res" where
  "version_le v w = bind_res (version_lt v w) (\<lambda>lt. if lt then Inr True else version_eq v w)"

definition version_ge :: "sem_version \<Rightarrow> sem_version \<Rightarrow> bool res" where
  "version_ge v w = bind_res (version_lt v w) (\<lambda>lt. Inr (\<not> lt))"

section \<open>Ranges\<close>

text \<open>Lower end, upper end, and whether each of them is included.\<close>

type_synonym ver_range = "sem_version option \<times> sem_version option \<times> bool \<times> bool"

definition above_lower :: "sem_version \<Rightarrow> sem_version option \<Rightarrow> bool \<Rightarrow> bool res" where
  "above_lower version lower inc =
     (case lower of
        None \<Rightarrow> Inr True
      | Some l \<Rightarrow> bind_res (if inc then version_lt version l else version_le version l) (\<lambda>out. Inr (\<not> out)))"

definition below_upper :: "sem_version \<Rightarrow> sem_version option \<Rightarrow> bool \<Rightarrow> bool res" where
  "below_upper version upper inc =
     (case upper of
        None \<Rightarrow> Inr True
      | Some u \<Rightarrow> bind_res (if inc then version_gt version u else version_ge version u) (\<lambda>out. Inr (\<not> out)))"

definition no_prerelease_end :: "sem_version option \<Rightarrow> bool" where
  "no_prerelease_end bound = (case bound of None \<Rightarrow> True | Some v \<Rightarrow> is_release v)"

definition other_release :: "sem_version \<Rightarrow> sem_version option \<Rightarrow> bool" where
  "other_release version bound = (case bound of None \<Rightarrow> False | Some v \<Rightarrow> release_tuple version \<noteq> release_tuple v)"

definition check_ver_range :: "sem_version \<Rightarrow> ver_range \<Rightarrow> bool res" where
  "check_ver_range version rng =
     (case rng of (lower, upper, lower_inc, upper_inc) \<Rightarrow>
        if lower = None \<and> upper = None then Inr True
        else bind_res (above_lower version lower lower_inc) (\<lambda>above.
          if \<not> above then Inr False
          else bind_res (below_upper version upper upper_inc) (\<lambda>below.
            if \<not> below then Inr False
            else if is_prerelease version then
              if no_prerelease_end lower \<and> no_prerelease_end upper then Inr False
              else Inr (\<not> (other_release version lower \<and> other_release version upper))
            else Inr True)))"

fun check_intersection :: "sem_version \<Rightarrow> ver_range list \<Rightarrow> bool res" where
  "check_intersection version [] = Inr True"
| "check_intersection version (r # rs) =
     bind_res (check_ver_range version r) (\<lambda>ok. if ok then check_intersection version rs else Inr False)"

fun range_check :: "sem_version \<Rightarrow> ver_range list list \<Rightarrow> bool res" where
  "range_check version [] = Inr False"
| "range_check version (d # ds) =
     bind_res (check_intersection version d) (\<lambda>ok. if ok then Inr True else range_check version ds)"

fun range_filter :: "ver_range list list \<Rightarrow> ('a \<Rightarrow> sem_version) \<Rightarrow> 'a list \<Rightarrow> 'a list res" where
  "range_filter ds key [] = Inr []"
| "range_filter ds key (x # xs) =
     bind_res (range_check (key x) ds) (\<lambda>ok.
     bind_res (range_filter ds key xs) (\<lambda>ys. Inr (if ok then x # ys else ys)))"

text \<open>A \<open>DataError\<close> becomes an \<open>ArgumentError\<close>; other exceptions pass.\<close>

definition parsed_end :: "string \<Rightarrow> sem_version res" where
  "parsed_end s = (case version_of_string s of Inl DataError \<Rightarrow> Inl ArgumentError | r \<Rightarrow> r)"

definition range_of_string :: "string \<Rightarrow> ver_range list list res" where
  "range_of_string text =
     (case py_strip text of
        [] \<Rightarrow> Inl ArgumentError
      | c # rest \<Rightarrow>
          if c = CHR ''*'' \<and> rest = [] then Inr [[(None, None, True, True)]]
          else if c = CHR ''^'' then
            bind_res (parsed_end rest) (\<lambda>v. Inr [[(Some v, Some (inc_first_nonzero v), True, False)]])
          else if c = CHR ''='' then bind_res (parsed_end rest) (\<lambda>v. Inr [[(Some v, Some v, True, True)]])
          else Inl ArgumentError)"

section \<open>Versions that can be read back\<close>

definition version_ok :: "sem_version \<Rightarrow> bool" where
  "version_ok v \<longleftrightarrow> sv_release_type v \<in> fst ` set prerelease_order \<and> (sv_prerelease_number v = None \<longleftrightarrow> is_release v)"

lemma version_ok_cases:
  assumes "version_ok v"
  obtains (release) "is_release v" "sv_prerelease_number v = None"
    | (prerelease) n where "\<not> is_release v" "sv_release_type v \<in> {''build'', ''alpha'', ''beta'', ''rc''}" "sv_prerelease_number v = Some n"
  using assms by (auto simp: version_ok_def prerelease_order_def is_release_def)

lemma digit_not_special: "d < 10 \<Longrightarrow> digit_char d \<noteq> CHR ''.'' \<and> digit_char d \<noteq> CHR ''-'' \<and> \<not> py_isalpha (digit_char d)"
  by (drule less_ten_cases) (auto simp: digit_char_def py_isalpha_def)

lemma str_nat_special: "c \<in> set (py_str_nat n) \<Longrightarrow> c \<noteq> CHR ''.'' \<and> c \<noteq> CHR ''-'' \<and> \<not> py_isalpha c"
proof -
  assume "c \<in> set (py_str_nat n)"
  then obtain d where "d < 10" "c = digit_char d" using py_str_nat_digits [of n] by (auto simp: list_all_iff)
  then show ?thesis by (simp add: digit_not_special)
qed

lemma str_int_special:
  "CHR ''.'' \<notin> set (py_str_int k)" "0 \<le> k \<Longrightarrow> CHR ''-'' \<notin> set (py_str_int k)" "c \<in> set (py_str_int k) \<Longrightarrow> \<not> py_isalpha c"
  using str_nat_special by (auto simp: py_str_int_def py_isalpha_def split: if_splits)

lemma split_at_absent: "d \<notin> set s \<Longrightarrow> split_at d s = [s]"
  by (induction s) auto

lemma split_at_append: "d \<notin> set s \<Longrightarrow> split_at d (s @ d # t) = s # split_at d t"
  by (induction s) auto

lemma int_of_str [simp]: "int_of_string (py_str_int k) = Inr k"
  by (simp add: int_of_string_def py_int10_str_int)

lemma parse_prerelease_str:
  assumes "t \<in> {''build'', ''alpha'', ''beta'', ''rc''}"
  shows "parse_prerelease (t @ py_str_int n) = Inr (t, n)"
proof -
  have "\<forall>c \<in> set t. py_isalpha c" using assms by (auto simp: py_isalpha_def)
  moreover have "py_str_int n \<noteq> []" by simp
  then obtain c cs where "py_str_int n = c # cs" by (cases "py_str_int n") auto
  ultimately have "takeWhile py_isalpha (t @ py_str_int n) = t" "dropWhile py_isalpha (t @ py_str_int n) = py_str_int n"
    using str_int_special(3) [of c n] by (simp_all add: takeWhile_append2 dropWhile_append2)
  then show ?thesis using assms by (auto simp: parse_prerelease_def prerelease_order_def py_int10_str_int)
qed

lemma version_string_parsed:
  assumes "version_ok v" and "0 \<le> sv_patch v" and "\<forall>n. sv_prerelease_number v = Some n \<longrightarrow> 0 \<le> n"
  shows "version_of_string (version_str v) = Inr v"
  using assms(1)
proof (cases rule: version_ok_cases)
  case release
  then show ?thesis
    using assms(2) by (cases v) (simp add: version_of_string_def version_str_def triple_str_def split_at_append split_at_absent
      str_int_special released_def is_release_def)
next
  case (prerelease k)
  then have "sv_prerelease_number v = Some k" "0 \<le> k" using assms(3) by auto
  let ?t = "sv_release_type v"
  have "CHR ''.'' \<notin> set ?t" "CHR ''-'' \<notin> set ?t" using prerelease(2) by auto
  then have "split_at (CHR ''.'') (version_str v) =
      [py_str_int (sv_major v), py_str_int (sv_minor v), py_str_int (sv_patch v) @ ''-'' @ ?t @ py_str_int k]"
    using prerelease by (simp add: version_str_def triple_str_def number_str_def split_at_append split_at_absent str_int_special)
  moreover have "split_at (CHR ''-'') (py_str_int (sv_patch v) @ ''-'' @ ?t @ py_str_int k) = [py_str_int (sv_patch v), ?t @ py_str_int k]"
    using assms(2) \<open>0 \<le> k\<close> \<open>CHR ''-'' \<notin> set ?t\<close> by (simp add: split_at_append split_at_absent str_int_special)
  ultimately show ?thesis
    using prerelease parse_prerelease_str [OF prerelease(2), of k]
    by (cases v) (simp add: version_of_string_def)
qed

text \<open>
  C34: A version is read back from its text: parsing inverts \<open>str\<close> for every well-formed version without negative numbers.
\<close>

theorem version_string_roundtrip:
  assumes "version_ok v" and "0 \<le> sv_patch v" and "\<forall>n. sv_prerelease_number v = Some n \<longrightarrow> 0 \<le> n"
  shows "version_of_string (version_str v) = Inr v"
  using assms by (rule version_string_parsed)

section \<open>The order\<close>

lemma order_number:
  assumes "version_ok v"
  obtains k where "map_of prerelease_order (sv_release_type v) = Some k" "k = 4 \<longleftrightarrow> sv_prerelease_number v = None"
    "k \<in> {0..4}" "fst (prerelease_order ! nat k) = sv_release_type v"
  using assms by (auto simp: version_ok_def prerelease_order_def is_release_def nat_eq_iff numeral_eq_Suc)

lemma order_number_inj:
  assumes "version_ok v" "version_ok w" "map_of prerelease_order (sv_release_type v) = map_of prerelease_order (sv_release_type w)"
  shows "sv_release_type v = sv_release_type w"
  using assms by (elim order_number) auto

definition tuple_key :: "(int \<times> int \<times> int \<times> int) \<times> int option \<Rightarrow> int list" where
  "tuple_key t = (case t of ((a, b, c, k), n) \<Rightarrow> [a, b, c, k, case n of None \<Rightarrow> 0 | Some i \<Rightarrow> i])"

lemma tuple_less_key:
  "snd x = None \<longleftrightarrow> snd (snd (snd (fst x))) = 4 \<Longrightarrow> snd y = None \<longleftrightarrow> snd (snd (snd (fst y))) = 4 \<Longrightarrow>
     tuple_less x y = Inr (ord_class.lexordp (tuple_key x) (tuple_key y))"
  by (cases "(x, y)" rule: tuple_less.cases) (auto simp: tuple_key_def split: option.split)

text \<open>Well-formed versions are compared by a list of numbers.\<close>

definition version_key :: "sem_version \<Rightarrow> int list" where
  "version_key v = (case ordering_tuple v of Inl err \<Rightarrow> [] | Inr t \<Rightarrow> tuple_key t)"

lemma version_lt_key:
  assumes "version_ok v" and "version_ok w"
  shows "version_lt v w = Inr (ord_class.lexordp (version_key v) (version_key w))"
proof -
  obtain b where b: "map_of prerelease_order (sv_release_type v) = Some b" "b = 4 \<longleftrightarrow> sv_prerelease_number v = None"
    using assms(1) by (rule order_number)
  obtain c where c: "map_of prerelease_order (sv_release_type w) = Some c" "c = 4 \<longleftrightarrow> sv_prerelease_number w = None"
    using assms(2) by (rule order_number)
  show ?thesis using b c by (simp add: version_lt_def version_key_def ordering_tuple_def tuple_less_key del: tuple_less.simps)
qed

lemma version_key_inj:
  assumes "version_ok v" and "version_ok w" and "version_key v = version_key w"
  shows "v = w"
proof -
  obtain b where b: "map_of prerelease_order (sv_release_type v) = Some b" "b = 4 \<longleftrightarrow> sv_prerelease_number v = None"
    using assms(1) by (rule order_number)
  obtain c where c: "map_of prerelease_order (sv_release_type w) = Some c" "c = 4 \<longleftrightarrow> sv_prerelease_number w = None"
    using assms(2) by (rule order_number)
  have "b = c" using assms(3) b c by (simp add: version_key_def ordering_tuple_def tuple_key_def)
  then have "sv_release_type v = sv_release_type w" using order_number_inj [OF assms(1,2)] b(1) c(1) by simp
  then show ?thesis using assms(3) b c \<open>b = c\<close>
    by (cases v; cases w) (auto simp: version_key_def ordering_tuple_def tuple_key_def split: option.splits)
qed

lemma version_eq_ok:
  assumes "version_ok v" and "version_ok w"
  shows "version_eq v w = Inr (v = w)"
proof -
  obtain b where b: "map_of prerelease_order (sv_release_type v) = Some b" using assms(1) by (rule order_number)
  obtain c where c: "map_of prerelease_order (sv_release_type w) = Some c" using assms(2) by (rule order_number)
  have "ordering_tuple v = ordering_tuple w \<Longrightarrow> v = w"
    using version_key_inj [OF assms] by (simp add: version_key_def)
  then show ?thesis using b c by (auto simp: version_eq_def ordering_tuple_def)
qed

text \<open>
  C35: Comparing well-formed versions never raises and is a strict total order that agrees with equality: of two different
  versions exactly one is smaller, and the order is transitive.
\<close>

theorem version_order:
  assumes "version_ok u" and "version_ok v" and "version_ok w"
  shows "version_eq v w = Inr (v = w) \<and> version_lt v w \<in> {Inr True, Inr False} \<and>
    (version_lt v w = Inr True \<longleftrightarrow> v \<noteq> w \<and> version_lt w v = Inr False) \<and>
    (version_lt u v = Inr True \<longrightarrow> version_lt v w = Inr True \<longrightarrow> version_lt u w = Inr True)"
proof -
  note lt = version_lt_key [OF assms(1,2)] version_lt_key [OF assms(1,3)] version_lt_key [OF assms(2,3)] version_lt_key [OF assms(3,2)]
  have "version_eq v w = Inr (v = w)" by (rule version_eq_ok [OF assms(2,3)])
  moreover have "version_lt v w \<in> {Inr True, Inr False}" by (simp add: lt)
  moreover have "version_lt v w = Inr True \<longleftrightarrow> v \<noteq> w \<and> version_lt w v = Inr False"
    using version_key_inj [OF assms(2,3)] lexordp_linear [of "version_key v" "version_key w"] lexordp_antisym lexordp_irreflexive'
    by (auto simp: lt)
  moreover have "version_lt u v = Inr True \<longrightarrow> version_lt v w = Inr True \<longrightarrow> version_lt u w = Inr True"
    using lexordp_trans by (auto simp: lt)
  ultimately show ?thesis by blast
qed

section \<open>Ranges\<close>

lemma released_ok [simp]: "version_ok (released r)" "is_release (released r)" "release_tuple (released r) = r"
  by (cases r; simp add: version_ok_def released_def is_release_def prerelease_order_def release_tuple_def)+

lemma released_fields [simp]:
  "sv_major (released (a, b, c)) = a" "sv_minor (released (a, b, c)) = b" "sv_patch (released (a, b, c)) = c"
  by (simp_all add: released_def)

lemma released_eq: "version_eq (released (a, b, c)) (released (a', b', c')) = Inr (a = a' \<and> b = b' \<and> c = c')"
proof -
  have "released (a, b, c) = released (a', b', c') \<longleftrightarrow> a = a' \<and> b = b' \<and> c = c'" by (simp add: released_def)
  then show ?thesis by (simp add: version_eq_ok)
qed

lemma released_tuple: "version_ok v \<Longrightarrow> is_release v \<Longrightarrow> v = released (release_tuple v)"
  by (cases v) (auto simp: released_def release_tuple_def is_release_def version_ok_def)

lemma released_lt: "version_lt (released (a, b, c)) (released (a', b', c')) =
    Inr (a < a' \<or> a = a' \<and> (b < b' \<or> b = b' \<and> c < c'))"
  by (simp add: version_lt_def ordering_tuple_def released_def prerelease_order_def)

lemma released_le: "version_le (released (a, b, c)) (released (a', b', c')) =
    Inr (a < a' \<or> a = a' \<and> (b < b' \<or> b = b' \<and> c \<le> c'))"
  by (auto simp: version_le_def released_lt released_eq)

lemma no_space_version: "version_ok v \<Longrightarrow> no_space (version_str v)"
  by (erule version_ok_cases) (auto simp: version_str_def triple_str_def number_str_def py_isspace_def)

lemma caret_parsed:
  assumes "version_ok v" and "0 \<le> sv_patch v" and "\<forall>n. sv_prerelease_number v = Some n \<longrightarrow> 0 \<le> n"
  shows "range_of_string (CHR ''^'' # version_str v) = Inr [[(Some v, Some (inc_first_nonzero v), True, False)]]"
proof -
  have "py_strip (CHR ''^'' # version_str v) = CHR ''^'' # version_str v"
    using no_space_version [OF assms(1)] by (intro py_strip_no_space) (simp add: py_isspace_def)
  then show ?thesis using version_string_parsed [OF assms] by (simp add: range_of_string_def parsed_end_def)
qed

text \<open>Not being before a version is the order of the other side; a release is compared by its three numbers.\<close>

lemma version_le_key:
  assumes "version_ok v" and "version_ok w"
  shows "version_le v w = Inr True \<longleftrightarrow> \<not> ord_class.lexordp (version_key w) (version_key v)"
  using version_lt_key [OF assms] version_eq_ok [OF assms] version_key_inj [OF assms] lexordp_linear [of "version_key v" "version_key w"]
    lexordp_antisym lexordp_irreflexive' by (auto simp: version_le_def)

lemma version_key_ok:
  assumes "version_ok v"
  obtains k n where "version_key v = [sv_major v, sv_minor v, sv_patch v, k, n]" "k \<le> 4" "k = 4 \<longleftrightarrow> is_release v" "is_release v \<Longrightarrow> n = 0"
proof -
  obtain k where "map_of prerelease_order (sv_release_type v) = Some k" "k = 4 \<longleftrightarrow> sv_prerelease_number v = None" "k \<in> {0..4}"
    using assms by (rule order_number)
  moreover have "sv_prerelease_number v = None \<longleftrightarrow> is_release v" using assms by (simp add: version_ok_def)
  ultimately show thesis
    by (intro that [of k "case sv_prerelease_number v of None \<Rightarrow> 0 | Some i \<Rightarrow> i"])
      (auto simp: version_key_def ordering_tuple_def tuple_key_def)
qed

definition tuple_before :: "int \<times> int \<times> int \<Rightarrow> int \<times> int \<times> int \<Rightarrow> bool" where
  "tuple_before r r' = (case r of (a, b, c) \<Rightarrow> case r' of (a', b', c') \<Rightarrow> a < a' \<or> a = a' \<and> (b < b' \<or> b = b' \<and> c < c'))"

lemma before_release:
  assumes "version_ok w"
  shows "version_lt w (released r) = Inr (tuple_before (release_tuple w) r \<or> release_tuple w = r \<and> \<not> is_release w)"
proof -
  obtain k n where k: "version_key w = [sv_major w, sv_minor w, sv_patch w, k, n]" "k \<le> 4" "k = 4 \<longleftrightarrow> is_release w" "is_release w \<Longrightarrow> n = 0"
    using version_key_ok [OF assms] by blast
  obtain a b c where r: "r = (a, b, c)" by (rule prod_cases3)
  have "version_key (released r) = [a, b, c, 4, 0]"
    by (simp add: r version_key_def ordering_tuple_def tuple_key_def released_def prerelease_order_def)
  then show ?thesis using k by (auto simp: version_lt_key [OF assms released_ok(1)] r tuple_before_def release_tuple_def)
qed

lemma tuple_after:
  assumes "version_ok v" and "version_ok w"
  shows "version_le v w = Inr True \<Longrightarrow> tuple_before (release_tuple v) (release_tuple w) \<or> release_tuple v = release_tuple w"
    and "tuple_before (release_tuple v) (release_tuple w) \<Longrightarrow> version_le v w = Inr True"
proof -
  obtain k n where v: "version_key v = [sv_major v, sv_minor v, sv_patch v, k, n]" using version_key_ok [OF assms(1)] by blast
  obtain l m where w: "version_key w = [sv_major w, sv_minor w, sv_patch w, l, m]" using version_key_ok [OF assms(2)] by blast
  show "version_le v w = Inr True \<Longrightarrow> tuple_before (release_tuple v) (release_tuple w) \<or> release_tuple v = release_tuple w"
    and "tuple_before (release_tuple v) (release_tuple w) \<Longrightarrow> version_le v w = Inr True"
    by (auto simp: version_le_key [OF assms] v w tuple_before_def release_tuple_def)
qed

text \<open>The end of a caret range is a release, so that a prerelease is in it only if its start is one.\<close>

lemma inc_first_released: "\<exists>r. inc_first_nonzero v = released r"
  by (simp only: inc_first_nonzero_def split: prod.split) blast

lemma caret_checked:
  assumes "version_ok v" and "version_ok w"
  shows "range_check w [[(Some v, Some (inc_first_nonzero v), True, False)]] =
    Inr (version_le v w = Inr True \<and> version_lt w (inc_first_nonzero v) = Inr True \<and>
      (is_release w \<or> \<not> is_release v \<and> release_tuple w \<in> {release_tuple v, release_tuple (inc_first_nonzero v)}))"
proof -
  obtain r where r: "inc_first_nonzero v = released r" using inc_first_released by blast
  show ?thesis
    by (auto simp: check_ver_range_def above_lower_def below_upper_def version_ge_def no_prerelease_end_def other_release_def r
        version_le_key [OF assms] version_lt_key [OF assms(2,1)] version_lt_key [OF assms(2) released_ok(1)])
qed

lemma next_class:
  assumes "tuple_before (release_tuple v) (release_tuple w) \<or> release_tuple v = release_tuple w"
    and "0 \<le> sv_major v" and "0 \<le> sv_minor v" and "0 \<le> sv_patch v" and "0 \<le> sv_major w" and "0 \<le> sv_minor w" and "0 \<le> sv_patch w"
  shows "tuple_before (release_tuple w) (release_tuple (inc_first_nonzero v)) \<longleftrightarrow> coexistence_class w = coexistence_class v"
  using assms
  by (cases "sv_major v = 0"; cases "sv_minor v = 0"; cases "sv_major w = 0"; cases "sv_minor w = 0";
      simp add: tuple_before_def inc_first_nonzero_def coexistence_class_def release_tuple_def released_def) arith+

text \<open>
  C36: What a caret range contains.  For all versions without negative numbers, \<open>^X.Y.Z\<close> and \<open>^X.Y.Z-type\<close> contain of the
  releases exactly those from the version on that have its coexistence class.  The range of a release contains no prerelease
  at all, not even a later one of the same class.  The range of a prerelease contains of the prereleases those from it on of
  its own release, and every prerelease of the first release outside the class.
\<close>

theorem caret_range:
  assumes "version_ok v" and "version_ok w" and "\<forall>n. sv_prerelease_number v = Some n \<longrightarrow> 0 \<le> n"
    and "0 \<le> sv_major v" and "0 \<le> sv_minor v" and "0 \<le> sv_patch v" and "0 \<le> sv_major w" and "0 \<le> sv_minor w" and "0 \<le> sv_patch w"
  shows "\<exists>r. range_of_string (CHR ''^'' # version_str v) = Inr r \<and>
    range_check w r = Inr (
      if is_release w then version_le v w = Inr True \<and> coexistence_class w = coexistence_class v
      else \<not> is_release v \<and>
        (release_tuple w = release_tuple v \<and> version_le v w = Inr True \<or> release_tuple w = release_tuple (inc_first_nonzero v)))"
proof -
  obtain r where r: "inc_first_nonzero v = released r" using inc_first_released by blast
  have lt: "version_lt w (inc_first_nonzero v) =
      Inr (tuple_before (release_tuple w) (release_tuple (inc_first_nonzero v)) \<or>
        release_tuple w = release_tuple (inc_first_nonzero v) \<and> \<not> is_release w)"
    using before_release [OF assms(2), of r] by (simp add: r)
  have up: "tuple_before (release_tuple v) (release_tuple (inc_first_nonzero v))"
    by (simp add: tuple_before_def inc_first_nonzero_def release_tuple_def released_def)
  have "range_of_string (CHR ''^'' # version_str v) = Inr [[(Some v, Some (inc_first_nonzero v), True, False)]]"
    using assms by (intro caret_parsed)
  moreover have "range_check w [[(Some v, Some (inc_first_nonzero v), True, False)]] =
      Inr (if is_release w then version_le v w = Inr True \<and> coexistence_class w = coexistence_class v
        else \<not> is_release v \<and>
          (release_tuple w = release_tuple v \<and> version_le v w = Inr True \<or> release_tuple w = release_tuple (inc_first_nonzero v)))"
  proof (cases "is_release w")
    case True
    then show ?thesis using tuple_after(1) [OF assms(1,2)] next_class [of v w] assms(4-9) by (unfold caret_checked [OF assms(1,2)] lt, auto)
  next
    case False
    then show ?thesis using up tuple_after(2) [OF assms(1,2)] by (unfold caret_checked [OF assms(1,2)] lt, auto)
  qed
  ultimately show ?thesis by blast
qed

text \<open>
  The caret range of a prerelease also contains every prerelease of the next release that is not compatible with it.
\<close>

theorem caret_next_prerelease:
  assumes "version_ok v" and "\<not> is_release v" and "0 \<le> sv_major v" and "0 \<le> sv_minor v" and "0 \<le> sv_patch v"
    and "\<forall>n. sv_prerelease_number v = Some n \<longrightarrow> 0 \<le> n" and "t \<in> {''build'', ''alpha'', ''beta'', ''rc''}"
    and "w = (inc_first_nonzero v)\<lparr>sv_release_type := t, sv_prerelease_number := Some k\<rparr>"
  shows "\<exists>r. range_of_string (CHR ''^'' # version_str v) = Inr r \<and> range_check w r = Inr True"
    and "coexistence_class w \<noteq> coexistence_class v"
proof -
  obtain a b c where v: "release_tuple v = (a, b, c)" "sv_major v = a" "sv_minor v = b" "sv_patch v = c" "0 \<le> a" "0 \<le> b" "0 \<le> c"
    using assms(3-5) by (simp add: release_tuple_def)
  obtain i where i: "map_of prerelease_order (sv_release_type v) = Some i" using assms(1) by (rule order_number)
  obtain j where j: "map_of prerelease_order t = Some j" "j < 4" using assms(7) by (auto simp: prerelease_order_def)
  have "range_check w [[(Some v, Some (inc_first_nonzero v), True, False)]] = Inr True"
    using assms(2,8) v i j by (auto simp: check_ver_range_def above_lower_def below_upper_def version_ge_def version_lt_def ordering_tuple_def
        inc_first_nonzero_def released_def no_prerelease_end_def other_release_def release_tuple_def prerelease_order_def)
  then show "\<exists>r. range_of_string (CHR ''^'' # version_str v) = Inr r \<and> range_check w r = Inr True"
    using caret_parsed [OF assms(1,5,6)] by blast
  show "coexistence_class w \<noteq> coexistence_class v"
    using assms(8) v by (auto simp: coexistence_class_def inc_first_nonzero_def released_def release_tuple_def)
qed

definition same_alpha :: sem_version where
  "same_alpha = (released (2, 0, 1))\<lparr>sv_release_type := ''alpha'', sv_prerelease_number := Some 1\<rparr>"

theorem caret_range_witness:
  "(\<exists>r. range_of_string (CHR ''^'' # version_str (released (2, 0, 0))) = Inr r \<and> range_check (released (2, 5, 1)) r = Inr True) \<and>
   (\<exists>r. range_of_string (CHR ''^'' # version_str (released (0, 2, 5))) = Inr r \<and> range_check (released (0, 3, 0)) r = Inr False) \<and>
   (\<exists>r. range_of_string (CHR ''^'' # version_str (released (2, 0, 0))) = Inr r \<and> range_check same_alpha r = Inr False) \<and>
   (\<exists>r. range_of_string (CHR ''^'' # version_str same_alpha) = Inr r \<and> range_check same_alpha r = Inr True)"
proof -
  have a: "version_ok same_alpha" by (simp add: same_alpha_def released_def version_ok_def is_release_def prerelease_order_def)
  have f: "\<not> is_release same_alpha" "sv_major same_alpha = 2" "sv_minor same_alpha = 0" "sv_patch same_alpha = 1"
      "sv_prerelease_number same_alpha = Some 1"
    by (simp_all add: same_alpha_def released_def is_release_def)
  have l: "version_le same_alpha same_alpha = Inr True" by (simp add: version_le_key [OF a a] lexordp_irreflexive')
  have r: "sv_prerelease_number (released t) = None" for t by (cases t) (simp add: released_def)
  show ?thesis
    using caret_range [of "released (2, 0, 0)" "released (2, 5, 1)"] caret_range [of "released (0, 2, 5)" "released (0, 3, 0)"]
      caret_range [OF released_ok(1) a, of "(2, 0, 0)"] caret_range [OF a a]
    by (simp add: released_le coexistence_class_def l f r)
qed

definition alpha_version :: sem_version where
  "alpha_version = \<lparr>sv_major = 1, sv_minor = 2, sv_patch = 3, sv_release_type = ''alpha'', sv_prerelease_number = Some 1\<rparr>"

definition next_rc :: sem_version where
  "next_rc = \<lparr>sv_major = 2, sv_minor = 0, sv_patch = 0, sv_release_type = ''rc'', sv_prerelease_number = Some 3\<rparr>"

lemma alpha_version_ok: "version_ok alpha_version" "\<not> is_release alpha_version"
  by (simp_all add: alpha_version_def version_ok_def is_release_def prerelease_order_def)

theorem caret_next_prerelease_witness:
  "coexistence_class next_rc \<noteq> coexistence_class alpha_version"
  by (rule caret_next_prerelease(2) [where k = 3 and t = "''rc''"])
    (simp_all add: alpha_version_ok, simp_all add: alpha_version_def next_rc_def inc_first_nonzero_def released_def release_tuple_def)

theorem version_string_roundtrip_witness:
  "version_of_string (version_str alpha_version) = Inr alpha_version"
  using version_string_roundtrip [OF alpha_version_ok(1)] by (simp add: alpha_version_def)

theorem version_order_witness:
  "version_lt alpha_version (released (2, 0, 0)) = Inr True"
  using version_order [OF alpha_version_ok(1) alpha_version_ok(1) released_ok(1), of "(2, 0, 0)"]
  by (simp add: alpha_version_def released_def version_lt_def ordering_tuple_def prerelease_order_def)

end
