(* ===== verification/Utc_Assigner.thy ===== *)
theory Utc_Assigner
  imports Reports "HOL-Library.Multiset"
begin

text \<open>
  The assignment of UTC times to readings (\<open>iotile/core/hw/reports/utc_assigner.py\<close>): points in time at which the
  uptime of a device or the time of day is known, and the walk from a reading to the nearest known time.
\<close>

section \<open>Anchors\<close>

record time_anchor =
  ta_reading_id :: int
  ta_uptime :: "int option"
  ta_utc :: "datetime option"
  ta_is_break :: bool
  ta_exact :: bool

text \<open>A list that is sorted when it is needed.\<close>

record anchor_list =
  al_key_set :: "int set"
  al_data :: "time_anchor list"
  al_keys :: "int list"
  al_sorted :: bool

definition new_anchor_list :: anchor_list where
  "new_anchor_list = \<lparr>al_key_set = {}, al_data = [], al_keys = [], al_sorted = False\<rparr>"

definition ensure_sorted :: "anchor_list \<Rightarrow> anchor_list" where
  "ensure_sorted s =
     (if al_sorted s then s
      else let d = sort_key ta_reading_id (al_data s) in s\<lparr>al_data := d, al_keys := map ta_reading_id d, al_sorted := True\<rparr>)"

definition add_anchor :: "time_anchor \<Rightarrow> anchor_list \<Rightarrow> anchor_list" where
  "add_anchor a s =
     s\<lparr>al_key_set := insert (ta_reading_id a) (al_key_set s), al_data := al_data s @ [a], al_sorted := False\<rparr>"

text \<open>\<open>bisect_left\<close>: the number of keys before the first one that is not smaller.\<close>

definition bisect_left :: "int list \<Rightarrow> int \<Rightarrow> nat" where
  "bisect_left keys k = length (takeWhile (\<lambda>x. x < k) keys)"

definition bisect_key_left :: "int \<Rightarrow> anchor_list \<Rightarrow> nat \<times> anchor_list" where
  "bisect_key_left k s = (let s1 = ensure_sorted s in (bisect_left (al_keys s1) k, s1))"

definition anchor_slice :: "nat option \<Rightarrow> nat option \<Rightarrow> bool \<Rightarrow> anchor_list \<Rightarrow> time_anchor list \<times> anchor_list" where
  "anchor_slice start stop reverse s =
     (let s1 = ensure_sorted s;
          n = length (al_data s1);
          d = drop (case start of None \<Rightarrow> 0 | Some i \<Rightarrow> min i n) (take (case stop of None \<Rightarrow> n | Some j \<Rightarrow> min j n) (al_data s1))
      in (if reverse then rev d else d, s1))"

definition anchor_at :: "int \<Rightarrow> anchor_list \<Rightarrow> time_anchor res \<times> anchor_list" where
  "anchor_at i s = (let s1 = ensure_sorted s in (py_nth (al_data s1) i, s1))"

definition has_anchor :: "time_anchor \<Rightarrow> anchor_list \<Rightarrow> bool" where
  "has_anchor a s \<longleftrightarrow> ta_reading_id a \<in> al_key_set s"

section \<open>Assignments\<close>

record utc_assignment =
  ua_reading_id :: int
  ua_utc :: datetime
  ua_found_id :: bool
  ua_exact :: bool
  ua_crossed_break :: bool
  ua_rtc_value :: int

text \<open>\<open>int(delta.total_seconds())\<close> cuts towards zero.\<close>

definition whole_seconds :: "int \<Rightarrow> int" where
  "whole_seconds us = (if us < 0 then - (- us div 1000000) else us div 1000000)"

definition new_assignment :: "int \<Rightarrow> datetime \<Rightarrow> bool \<Rightarrow> bool \<Rightarrow> bool \<Rightarrow> utc_assignment" where
  "new_assignment rid utc found exact crossed_break =
     \<lparr>ua_reading_id = rid, ua_utc = utc, ua_found_id = found, ua_exact = exact, ua_crossed_break = crossed_break,
      ua_rtc_value = whole_seconds (utc - Y2KReference) OR push_bit 31 1\<rparr>"

text \<open>1970-01-01, as a time since 2000-01-01.\<close>

definition EpochReference :: datetime where "EpochReference = - seconds 946684800"

definition epoch_value :: "utc_assignment \<Rightarrow> int" where
  "epoch_value a = whole_seconds (ua_utc a - EpochReference)"

section \<open>The assigner\<close>

record utc_assigner =
  u_anchor_points :: anchor_list
  u_prepared :: bool
  u_anchor_streams :: "(int \<times> (reading \<Rightarrow> datetime)) list"
  u_break_streams :: "int set"

definition new_utc_assigner :: utc_assigner where
  "new_utc_assigner =
     \<lparr>u_anchor_points = new_anchor_list, u_prepared = False, u_anchor_streams = [], u_break_streams = {}\<rparr>"

definition load_known_breaks :: "utc_assigner \<Rightarrow> utc_assigner" where
  "load_known_breaks u = u\<lparr>u_break_streams := insert 0x5C00 (u_break_streams u)\<rparr>"

definition convert_rtc :: "int \<Rightarrow> datetime" where
  "convert_rtc timestamp =
     Y2KReference + seconds (if timestamp AND push_bit 31 1 \<noteq> 0 then timestamp AND NOT (push_bit 31 1) else timestamp)"

definition convert_rtc_anchor :: "reading \<Rightarrow> datetime" where
  "convert_rtc_anchor r = convert_rtc (r_value r)"

definition convert_epoch_anchor :: "reading \<Rightarrow> datetime" where
  "convert_epoch_anchor r = EpochReference + seconds (r_value r)"

definition known_converters :: "(string \<times> (reading \<Rightarrow> datetime)) list" where
  "known_converters = [(''rtc'', convert_rtc_anchor), (''epoch'', convert_epoch_anchor)]"

text \<open>A converter is given by its name or as a function.\<close>

definition anchor_stream :: "int \<Rightarrow> string + (reading \<Rightarrow> datetime) \<Rightarrow> utc_assigner \<Rightarrow> (unit, utc_assigner) act" where
  "anchor_stream strm converter u =
     (let set_converter = (\<lambda>f. (Inr (), u\<lparr>u_anchor_streams := (strm, f) # filter (\<lambda>e. fst e \<noteq> strm) (u_anchor_streams u)\<rparr>)) in
      case converter of
        Inr f \<Rightarrow> set_converter f
      | Inl name \<Rightarrow> (case map_of known_converters name of None \<Rightarrow> (Inl ArgumentError, u) | Some f \<Rightarrow> set_converter f))"

definition id_range :: "utc_assigner \<Rightarrow> (int \<times> int) res \<times> utc_assigner" where
  "id_range u =
     (if al_data (u_anchor_points u) = [] then (Inr (0, 0), u)
      else let s1 = ensure_sorted (u_anchor_points u) in
        (bind_res (py_nth (al_data s1) 0) (\<lambda>a. bind_res (py_nth (al_data s1) (- 1)) (\<lambda>b.
           Inr (ta_reading_id a, ta_reading_id b))), u\<lparr>u_anchor_points := s1\<rparr>))"

text \<open>An uptime with its highest bit set is a time of day.\<close>

definition add_point :: "int \<Rightarrow> int option \<Rightarrow> datetime option \<Rightarrow> bool \<Rightarrow> utc_assigner \<Rightarrow> utc_assigner" where
  "add_point rid uptime utc is_break u =
     (if rid = 0 \<or> uptime = None \<and> utc = None then u
      else let is_rtc = (case uptime of None \<Rightarrow> False | Some t \<Rightarrow> t AND push_bit 31 1 \<noteq> 0) in
      if is_rtc \<and> utc \<noteq> None then u
      else let utc1 = (if is_rtc then Some (convert_rtc (the uptime AND NOT (push_bit 31 1))) else utc);
               uptime1 = (if is_rtc then None else uptime);
               anchor = \<lparr>ta_reading_id = rid, ta_uptime = uptime1, ta_utc = utc1, ta_is_break = is_break, ta_exact = (utc1 \<noteq> None)\<rparr>
      in if has_anchor anchor (u_anchor_points u) then u
         else u\<lparr>u_anchor_points := add_anchor anchor (u_anchor_points u), u_prepared := False\<rparr>)"

definition add_reading :: "reading \<Rightarrow> utc_assigner \<Rightarrow> utc_assigner" where
  "add_reading r u =
     add_point (reading_id r) (Some (raw_time r)) (map_option (\<lambda>f. f r) (map_of (u_anchor_streams u) (r_stream r)))
       (r_stream r \<in> u_break_streams u) u"

text \<open>A report is a signed list or of another class.\<close>

definition add_report :: "signed_list_report option \<Rightarrow> bool \<Rightarrow> utc_assigner \<Rightarrow> (unit, utc_assigner) act" where
  "add_report report ignore_errors u =
     (case report of
        None \<Rightarrow> (if ignore_errors then Inr () else Inl ArgumentError, u)
      | Some r \<Rightarrow> (Inr (), add_point (report_id r) (Some (sent_timestamp r)) (Some (received_time r)) False
          (fold add_reading (visible_readings r) u)))"

section \<open>Assigning a time\<close>

fun fix_right_loop :: "int \<Rightarrow> bool \<Rightarrow> time_anchor \<Rightarrow> time_anchor list \<Rightarrow> int \<Rightarrow> bool \<Rightarrow> bool \<Rightarrow> utc_assignment option" where
  "fix_right_loop rid found last_anchor [] accum exact crossed = None"
| "fix_right_loop rid found last_anchor (cur # rest) accum exact crossed =
     (let (accum1, exact1, crossed1) =
        (case (ta_uptime cur, ta_uptime last_anchor) of
           (Some t, Some last_t) \<Rightarrow>
             if ta_is_break cur \<or> t < last_t then (accum, False, True) else (accum + (t - last_t), exact, crossed)
         | _ \<Rightarrow> (accum, False, crossed))
      in case ta_utc cur of
           Some utc \<Rightarrow> Some (new_assignment rid (utc - seconds accum1) found exact1 crossed1)
         | None \<Rightarrow> fix_right_loop rid found cur rest accum1 exact1 crossed1)"

definition fix_right :: "int \<Rightarrow> time_anchor \<Rightarrow> nat \<Rightarrow> bool \<Rightarrow> anchor_list \<Rightarrow> utc_assignment option \<times> anchor_list" where
  "fix_right rid last_anchor start found s =
     (if int start = int (length (al_data s)) - 1 then (None, s)
      else case anchor_slice (Some (start + 1)) None False s of (d, s1) \<Rightarrow>
        (fix_right_loop rid found last_anchor d 0 True False, s1))"

fun fix_left_loop :: "int \<Rightarrow> bool \<Rightarrow> time_anchor \<Rightarrow> time_anchor list \<Rightarrow> int \<Rightarrow> bool \<Rightarrow> bool \<Rightarrow> utc_assignment option" where
  "fix_left_loop rid found last_anchor [] accum exact crossed = None"
| "fix_left_loop rid found last_anchor (cur # rest) accum exact crossed =
     (let (accum1, exact1, crossed1) =
        (case (ta_uptime cur, ta_uptime last_anchor) of
           (Some t, Some last_t) \<Rightarrow>
             if ta_is_break cur \<or> last_t < t then (accum, False, True) else (accum + (last_t - t), exact, crossed)
         | _ \<Rightarrow> (accum, False, crossed))
      in case ta_utc cur of
           Some utc \<Rightarrow> Some (new_assignment rid (utc + seconds accum1) found exact1 crossed1)
         | None \<Rightarrow> fix_left_loop rid found cur rest accum1 exact1 crossed1)"

definition fix_left :: "int \<Rightarrow> time_anchor \<Rightarrow> nat \<Rightarrow> bool \<Rightarrow> anchor_list \<Rightarrow> utc_assignment option \<times> anchor_list" where
  "fix_left rid last_anchor start found s =
     (if start = 0 then (None, s)
      else case anchor_slice None (Some start) True s of (d, s1) \<Rightarrow>
        (fix_left_loop rid found last_anchor d 0 True False, s1))"

definition pick_best_fix :: "utc_assignment option \<Rightarrow> utc_assignment option \<Rightarrow> string \<Rightarrow> utc_assignment option" where
  "pick_best_fix before after prefer =
     (case (before, after) of
        (None, None) \<Rightarrow> None
      | (Some b, None) \<Rightarrow> Some b
      | (None, Some a) \<Rightarrow> Some a
      | (Some b, Some a) \<Rightarrow>
          if ua_crossed_break a \<and> \<not> ua_crossed_break b then Some b
          else if ua_crossed_break b \<and> \<not> ua_crossed_break a then Some a
          else if ua_exact b \<and> \<not> ua_exact a then Some b
          else if ua_exact a \<and> \<not> ua_exact b then Some a
          else if prefer = ''before'' then Some b
          else Some a)"

definition assign_at :: "int \<Rightarrow> int option \<Rightarrow> string \<Rightarrow> nat \<Rightarrow> anchor_list \<Rightarrow> utc_assignment option res" where
  "assign_at rid uptime prefer i s =
     bind_res (py_nth (al_data s) (int i)) (\<lambda>found_anchor.
       let last_anchor = (case uptime of None \<Rightarrow> found_anchor | Some t \<Rightarrow> found_anchor\<lparr>ta_uptime := Some t\<rparr>);
           found = (ta_reading_id last_anchor = rid)
       in if found \<and> ta_utc last_anchor \<noteq> None
          then Inr (Some (new_assignment rid (the (ta_utc last_anchor)) found True False))
          else let left_assign = fst (fix_left rid last_anchor i found s) in
            if (case left_assign of None \<Rightarrow> False | Some a \<Rightarrow> ua_exact a) then Inr left_assign
            else let right_assign = fst (fix_right rid last_anchor i found s) in
              if (case right_assign of None \<Rightarrow> False | Some a \<Rightarrow> ua_exact a) then Inr right_assign
              else Inr (pick_best_fix left_assign right_assign prefer))"

definition assign_utc :: "int \<Rightarrow> int option \<Rightarrow> string \<Rightarrow> utc_assigner \<Rightarrow> (utc_assignment option, utc_assigner) act" where
  "assign_utc rid uptime prefer u =
     (if prefer \<noteq> ''before'' \<and> prefer \<noteq> ''after'' then (Inl ArgumentError, u)
      else if al_data (u_anchor_points u) = [] then (Inr None, u)
      else case anchor_at (- 1) (u_anchor_points u) of (last_point, s) \<Rightarrow>
        (bind_res last_point (\<lambda>p.
           if rid > ta_reading_id p then Inr None
           else assign_at rid uptime prefer (fst (bisect_key_left rid s)) s), u\<lparr>u_anchor_points := s\<rparr>))"

text \<open>The loop over the anchors, which are changed in place; progress callbacks are left out.\<close>

definition prepare_anchor :: "nat \<Rightarrow> utc_assigner \<Rightarrow> (unit, utc_assigner) act" where
  "prepare_anchor i u =
     bind_act (py_nth (al_data (u_anchor_points u)) (int i), u) (\<lambda>cur u.
     if ta_exact cur then (Inr (), u)
     else bind_act (assign_utc (ta_reading_id cur) (ta_uptime cur) ''before'' u) (\<lambda>assignment u.
       case assignment of
         None \<Rightarrow> (Inr (), u)
       | Some a \<Rightarrow>
           (Inr (), if ua_exact a
            then u\<lparr>u_anchor_points := (u_anchor_points u)
                  \<lparr>al_data := (al_data (u_anchor_points u))[i := cur\<lparr>ta_utc := Some (ua_utc a), ta_exact := True\<rparr>]\<rparr>\<rparr>
            else u)))"

definition ensure_prepared :: "utc_assigner \<Rightarrow> (unit, utc_assigner) act" where
  "ensure_prepared u =
     (if u_prepared u then (Inr (), u)
      else let u1 = u\<lparr>u_anchor_points := ensure_sorted (u_anchor_points u)\<rparr> in
        bind_act (for_each prepare_anchor [0..<length (al_data (u_anchor_points u1))] u1) (\<lambda>_ u2.
          (Inr (), u2\<lparr>u_prepared := True\<rparr>)))"

text \<open>The readings of a report with their times; a reading without a time is dropped.\<close>

fun fix_readings :: "string \<Rightarrow> reading list \<Rightarrow> utc_assigner \<Rightarrow> (reading list, utc_assigner) act" where
  "fix_readings prefer [] u = (Inr [], u)"
| "fix_readings prefer (r # rs) u =
     bind_act (assign_utc (reading_id r) (Some (raw_time r)) prefer u) (\<lambda>assignment u.
     bind_act (fix_readings prefer rs u) (\<lambda>fixed u.
       (Inr (case assignment of
               None \<Rightarrow> fixed
             | Some a \<Rightarrow> new_reading (ua_rtc_value a) (r_stream r) (r_value r) None (Some (reading_id r)) (Some (ua_utc a)) # fixed), u)))"

definition fix_report ::
  "(byte list \<Rightarrow> byte list \<Rightarrow> byte list) \<Rightarrow> signer \<Rightarrow> datetime \<Rightarrow> signed_list_report option \<Rightarrow> string \<Rightarrow> string
   \<Rightarrow> utc_assigner \<Rightarrow> (signed_list_report, utc_assigner) act" where
  "fix_report aes_ctr auth now report errors prefer u =
     (case report of
        None \<Rightarrow> (Inl ArgumentError, u)
      | Some r \<Rightarrow>
          if errors \<noteq> ''drop'' then (Inl ArgumentError, u)
          else bind_act (ensure_prepared u) (\<lambda>_ u.
            bind_act (fix_readings prefer (visible_readings r) u) (\<lambda>fixed u.
            bind_act (signed_list_from_readings aes_ctr auth None now (origin r) fixed NoKey (report_id r) (streamer_selector r)
                (origin_streamer r) (sent_timestamp r), u) (\<lambda>fixed_report u.
              (Inr (fixed_report\<lparr>received_time := received_time r\<rparr>), u)))))"

section \<open>The anchors are a sorted list without duplicates\<close>

definition anchors_ok :: "anchor_list \<Rightarrow> bool" where
  "anchors_ok s \<longleftrightarrow>
     al_key_set s = ta_reading_id ` set (al_data s) \<and> distinct (map ta_reading_id (al_data s)) \<and>
     (al_sorted s \<longrightarrow> al_keys s = map ta_reading_id (al_data s) \<and> sorted (al_keys s))"

lemma new_anchor_list_ok [simp]: "anchors_ok new_anchor_list"
  by (simp add: anchors_ok_def new_anchor_list_def)

lemma add_anchor_ok: "anchors_ok s \<Longrightarrow> \<not> has_anchor a s \<Longrightarrow> anchors_ok (add_anchor a s)"
  by (auto simp: anchors_ok_def add_anchor_def has_anchor_def)

lemma ensure_sorted_ok: "anchors_ok s \<Longrightarrow> anchors_ok (ensure_sorted s)"
  by (auto simp: anchors_ok_def ensure_sorted_def Let_def distinct_map)

lemma ensure_sorted_sorted:
  assumes "anchors_ok s"
  shows "sorted (map ta_reading_id (al_data (ensure_sorted s)))" and "al_keys (ensure_sorted s) = map ta_reading_id (al_data (ensure_sorted s))"
    and "al_sorted (ensure_sorted s)"
  using assms by (auto simp: anchors_ok_def ensure_sorted_def Let_def)

lemma ensure_sorted_twice [simp]: "ensure_sorted (ensure_sorted s) = ensure_sorted s"
  by (simp add: ensure_sorted_def Let_def)

lemma ensure_sorted_set [simp]:
  "set (al_data (ensure_sorted s)) = set (al_data s)" "length (al_data (ensure_sorted s)) = length (al_data s)"
  "al_key_set (ensure_sorted s) = al_key_set s" "al_data (ensure_sorted s) = [] \<longleftrightarrow> al_data s = []"
  by (auto simp: ensure_sorted_def Let_def dest: arg_cong [where f = length])

lemma bisect_left_append:
  "\<forall>x\<in>set xs. x < k \<Longrightarrow> \<not> y < k \<Longrightarrow> bisect_left (xs @ y # ys) k = length xs"
  by (simp add: bisect_left_def takeWhile_append2)

lemma bisect_left_found:
  assumes "sorted ks" and "distinct ks" and "i < length ks"
  shows "bisect_left ks (ks ! i) = i"
proof -
  have split: "ks = take i ks @ ks ! i # drop (Suc i) ks" using assms(3) by (rule id_take_nth_drop)
  have "\<forall>x\<in>set (take i ks). x < ks ! i"
  proof
    fix x assume "x \<in> set (take i ks)"
    then obtain j where "j < i" "x = ks ! j" using assms(3) by (auto simp: in_set_conv_nth)
    then have "x \<le> ks ! i" "x \<noteq> ks ! i" using assms by (auto simp: sorted_nth_mono nth_eq_iff_index_eq)
    then show "x < ks ! i" by simp
  qed
  then have "bisect_left (take i ks @ ks ! i # drop (Suc i) ks) (ks ! i) = i"
    using assms(3) by (simp add: bisect_left_append)
  then show ?thesis using split by simp
qed

text \<open>The points of a report or of a user keep the list in order.\<close>

lemma add_point_ok: "anchors_ok (u_anchor_points u) \<Longrightarrow> anchors_ok (u_anchor_points (add_point rid uptime utc is_break u))"
  by (simp add: add_point_def Let_def add_anchor_ok)

section \<open>What an assignment says of the true time\<close>

text \<open>
  \<open>T\<close> gives the true time of every reading id. Between neighbouring readings time does not run backwards; an uptime never
  advances more than the true time, and it advances as much unless a reset shows as a break or as a smaller uptime.
\<close>

definition clock_step :: "(int \<Rightarrow> datetime) \<Rightarrow> time_anchor \<Rightarrow> time_anchor \<Rightarrow> bool" where
  "clock_step T a b \<longleftrightarrow> T (ta_reading_id a) \<le> T (ta_reading_id b) \<and>
     (case (ta_uptime a, ta_uptime b) of
        (Some s, Some t) \<Rightarrow>
          seconds (t - s) \<le> T (ta_reading_id b) - T (ta_reading_id a) \<and>
          (s \<le> t \<and> \<not> ta_is_break b \<longrightarrow> seconds (t - s) = T (ta_reading_id b) - T (ta_reading_id a))
      | _ \<Rightarrow> True)"

definition true_anchor :: "(int \<Rightarrow> datetime) \<Rightarrow> time_anchor \<Rightarrow> bool" where
  "true_anchor T a \<longleftrightarrow> (case ta_utc a of None \<Rightarrow> True | Some t \<Rightarrow> t = T (ta_reading_id a))"

lemma seconds_add: "seconds (a + b) = seconds a + seconds b"
  by (simp add: seconds_def algebra_simps)

lemma new_assignment_fields [simp]:
  "ua_utc (new_assignment rid utc f e c) = utc" "ua_exact (new_assignment rid utc f e c) = e"
  "ua_found_id (new_assignment rid utc f e c) = f" "ua_crossed_break (new_assignment rid utc f e c) = c"
  "ua_reading_id (new_assignment rid utc f e c) = rid"
  by (simp_all add: new_assignment_def)

lemma right_step:
  assumes "(case (ta_uptime c, ta_uptime l) of
        (Some t, Some last_t) \<Rightarrow>
          if ta_is_break c \<or> t < last_t then (acc, False, True) else (acc + (t - last_t), ex, cr)
      | _ \<Rightarrow> (acc, False, cr)) = (acc1, ex1, cr1)"
    and "clock_step T l c" and "seconds acc \<le> T (ta_reading_id l) - T0" and "ex \<Longrightarrow> seconds acc = T (ta_reading_id l) - T0"
  shows "seconds acc1 \<le> T (ta_reading_id c) - T0 \<and> (ex1 \<longrightarrow> seconds acc1 = T (ta_reading_id c) - T0)"
  using assms by (cases "ta_uptime c"; cases "ta_uptime l") (auto simp: clock_step_def seconds_add split: if_splits)

lemma left_step:
  assumes "(case (ta_uptime c, ta_uptime l) of
        (Some t, Some last_t) \<Rightarrow>
          if ta_is_break c \<or> last_t < t then (acc, False, True) else (acc + (last_t - t), ex, cr)
      | _ \<Rightarrow> (acc, False, cr)) = (acc1, ex1, cr1)"
    and "clock_step T c l" and "seconds acc \<le> T0 - T (ta_reading_id l)"
    and "ex \<Longrightarrow> seconds acc = T0 - T (ta_reading_id l) \<and> \<not> ta_is_break l"
  shows "seconds acc1 \<le> T0 - T (ta_reading_id c) \<and> (ex1 \<longrightarrow> seconds acc1 = T0 - T (ta_reading_id c) \<and> \<not> ta_is_break c)"
  using assms by (cases "ta_uptime c"; cases "ta_uptime l") (auto simp: clock_step_def seconds_add split: if_splits)

lemma fix_right_loop_bound:
  assumes "fix_right_loop rid found l d acc ex cr = Some a" and "successively (clock_step T) (l # d)"
    and "\<forall>c\<in>set d. true_anchor T c" and "seconds acc \<le> T (ta_reading_id l) - T0"
    and "ex \<Longrightarrow> seconds acc = T (ta_reading_id l) - T0"
  shows "T0 \<le> ua_utc a \<and> (ua_exact a \<longrightarrow> ua_utc a = T0)"
  using assms
proof (induction d arbitrary: l acc ex cr)
  case (Cons cur rest)
  obtain acc1 ex1 cr1 where step: "(case (ta_uptime cur, ta_uptime l) of
        (Some t, Some last_t) \<Rightarrow>
          if ta_is_break cur \<or> t < last_t then (acc, False, True) else (acc + (t - last_t), ex, cr)
      | _ \<Rightarrow> (acc, False, cr)) = (acc1, ex1, cr1)" by (rule prod_cases3)
  have inv: "seconds acc1 \<le> T (ta_reading_id cur) - T0" "ex1 \<Longrightarrow> seconds acc1 = T (ta_reading_id cur) - T0"
    using right_step [where T = T and ?T0.0 = T0, OF step _ Cons.prems(4,5)] Cons.prems(2) by auto
  have eq: "fix_right_loop rid found l (cur # rest) acc ex cr =
      (case ta_utc cur of Some utc \<Rightarrow> Some (new_assignment rid (utc - seconds acc1) found ex1 cr1)
       | None \<Rightarrow> fix_right_loop rid found cur rest acc1 ex1 cr1)"
    by (subst fix_right_loop.simps(2), unfold Let_def, subst step, simp)
  show ?case
  proof (cases "ta_utc cur")
    case None
    have "successively (clock_step T) (cur # rest)" "\<forall>c\<in>set rest. true_anchor T c" using Cons.prems(2,3) by simp_all
    then show ?thesis using Cons.IH [of cur acc1 ex1 cr1] Cons.prems(1) inv unfolding eq None option.case by blast
  next
    case (Some utc)
    have "utc = T (ta_reading_id cur)" using Cons.prems(3) Some by (simp add: true_anchor_def)
    moreover have "a = new_assignment rid (utc - seconds acc1) found ex1 cr1" using Cons.prems(1) unfolding eq Some by simp
    ultimately show ?thesis using inv by auto
  qed
qed simp

definition clock_step_back :: "(int \<Rightarrow> datetime) \<Rightarrow> time_anchor \<Rightarrow> time_anchor \<Rightarrow> bool" where
  "clock_step_back T b a = clock_step T a b"

lemma fix_left_loop_bound:
  assumes "fix_left_loop rid found l d acc ex cr = Some a" and "successively (clock_step_back T) (l # d)"
    and "\<forall>c\<in>set d. true_anchor T c" and "seconds acc \<le> T0 - T (ta_reading_id l)"
    and "ex \<Longrightarrow> seconds acc = T0 - T (ta_reading_id l) \<and> \<not> ta_is_break l"
  shows "ua_utc a \<le> T0 \<and> (ua_exact a \<longrightarrow> ua_utc a = T0)"
  using assms
proof (induction d arbitrary: l acc ex cr)
  case (Cons cur rest)
  obtain acc1 ex1 cr1 where step: "(case (ta_uptime cur, ta_uptime l) of
        (Some t, Some last_t) \<Rightarrow>
          if ta_is_break cur \<or> last_t < t then (acc, False, True) else (acc + (last_t - t), ex, cr)
      | _ \<Rightarrow> (acc, False, cr)) = (acc1, ex1, cr1)" by (rule prod_cases3)
  have inv: "seconds acc1 \<le> T0 - T (ta_reading_id cur)" "ex1 \<Longrightarrow> seconds acc1 = T0 - T (ta_reading_id cur) \<and> \<not> ta_is_break cur"
    using left_step [where T = T and ?T0.0 = T0, OF step _ Cons.prems(4,5)] Cons.prems(2) by (auto simp: clock_step_back_def)
  have eq: "fix_left_loop rid found l (cur # rest) acc ex cr =
      (case ta_utc cur of Some utc \<Rightarrow> Some (new_assignment rid (utc + seconds acc1) found ex1 cr1)
       | None \<Rightarrow> fix_left_loop rid found cur rest acc1 ex1 cr1)"
    by (subst fix_left_loop.simps(2), unfold Let_def, subst step, simp)
  show ?case
  proof (cases "ta_utc cur")
    case None
    have "successively (clock_step_back T) (cur # rest)" "\<forall>c\<in>set rest. true_anchor T c" using Cons.prems(2,3) by simp_all
    then show ?thesis using Cons.IH [of cur acc1 ex1 cr1] Cons.prems(1) inv unfolding eq None option.case by blast
  next
    case (Some utc)
    have "utc = T (ta_reading_id cur)" using Cons.prems(3) Some by (simp add: true_anchor_def)
    moreover have "a = new_assignment rid (utc + seconds acc1) found ex1 cr1" using Cons.prems(1) unfolding eq Some by simp
    ultimately show ?thesis using inv by auto
  qed
qed simp


text \<open>
  A list of points that fits the true time, and one that in addition has no break whose time is unknown: the search to
  the left does not look at the mark of the reading that it starts from.
\<close>

definition clocked :: "(int \<Rightarrow> datetime) \<Rightarrow> anchor_list \<Rightarrow> bool" where
  "clocked T s \<longleftrightarrow> anchors_ok s \<and> successively (clock_step T) (al_data (ensure_sorted s)) \<and> (\<forall>c\<in>set (al_data s). true_anchor T c)"

definition well_clocked :: "(int \<Rightarrow> datetime) \<Rightarrow> anchor_list \<Rightarrow> bool" where
  "well_clocked T s \<longleftrightarrow> clocked T s \<and> (\<forall>c\<in>set (al_data s). ta_utc c = None \<longrightarrow> \<not> ta_is_break c)"

lemma clocked_sorted: "clocked T s \<Longrightarrow> clocked T (ensure_sorted s)"
  by (simp add: clocked_def ensure_sorted_ok)

lemma well_clocked_sorted: "well_clocked T s \<Longrightarrow> well_clocked T (ensure_sorted s)"
  by (simp add: well_clocked_def clocked_def ensure_sorted_ok)

lemma anchor_slice_right [simp]:
  "al_sorted s \<Longrightarrow> anchor_slice (Some i) None False s = (drop i (al_data s), s)"
  by (simp add: anchor_slice_def ensure_sorted_def Let_def min_def)

lemma anchor_slice_left [simp]:
  "al_sorted s \<Longrightarrow> i \<le> length (al_data s) \<Longrightarrow> anchor_slice None (Some i) True s = (rev (take i (al_data s)), s)"
  by (simp add: anchor_slice_def ensure_sorted_def Let_def)

lemma successively_split:
  assumes "successively P ds" and "i < length ds"
  shows "successively P (ds ! i # drop (Suc i) ds)" and "successively (\<lambda>b a. P a b) (ds ! i # rev (take i ds))"
proof -
  have "successively P (take i ds @ ds ! i # drop (Suc i) ds)" using assms by (simp add: id_take_nth_drop [symmetric])
  then show "successively P (ds ! i # drop (Suc i) ds)" by (simp add: successively_append_iff)
  have "successively P (take (Suc i) ds)"
    using assms(1) by (subst (asm) append_take_drop_id [of "Suc i", symmetric]) (simp only: successively_append_iff)
  then have "successively P (rev (ds ! i # rev (take i ds)))" using assms(2) by (simp add: take_Suc_conv_app_nth)
  then show "successively (\<lambda>b a. P a b) (ds ! i # rev (take i ds))"
    by (subst (asm) successively_rev)
qed

lemma successively_back:
  "successively (clock_step T) ds \<Longrightarrow> i < length ds \<Longrightarrow> successively (clock_step_back T) (ds ! i # rev (take i ds))"
  using successively_split(2) [of "clock_step T" ds i] by (simp add: clock_step_back_def [abs_def])

lemma fix_right_bound:
  assumes "fst (fix_right rid (al_data s ! i) i found s) = Some a" and "clocked T s" and "al_sorted s" and "i < length (al_data s)"
  shows "T (ta_reading_id (al_data s ! i)) \<le> ua_utc a \<and> (ua_exact a \<longrightarrow> ua_utc a = T (ta_reading_id (al_data s ! i)))"
proof -
  have walk: "fix_right_loop rid found (al_data s ! i) (drop (Suc i) (al_data s)) 0 True False = Some a"
    using assms(1,3) by (simp add: fix_right_def split: if_splits)
  show ?thesis
    using assms(2-4) by (intro fix_right_loop_bound [OF walk successively_split(1)])
      (auto simp: clocked_def ensure_sorted_def seconds_def dest: in_set_dropD)
qed

lemma fix_left_bound:
  assumes "fst (fix_left rid (al_data s ! i) i found s) = Some a" and "clocked T s" and "al_sorted s" and "i < length (al_data s)"
    and "\<not> ta_is_break (al_data s ! i)"
  shows "ua_utc a \<le> T (ta_reading_id (al_data s ! i)) \<and> (ua_exact a \<longrightarrow> ua_utc a = T (ta_reading_id (al_data s ! i)))"
proof -
  have walk: "fix_left_loop rid found (al_data s ! i) (rev (take i (al_data s))) 0 True False = Some a"
    using assms(1,3,4) by (simp add: fix_left_def split: if_splits)
  show ?thesis
    using assms(2-) by (intro fix_left_loop_bound [OF walk successively_back])
      (auto simp: clocked_def ensure_sorted_def seconds_def dest: in_set_takeD)
qed

lemma py_nth_int: "i < length xs \<Longrightarrow> py_nth xs (int i) = Inr (xs ! i)"
  by (simp add: py_nth_def)

lemma assign_utc_alt:
  assumes "anchors_ok (u_anchor_points u)" and "prefer = ''before'' \<or> prefer = ''after''" and "al_data (u_anchor_points u) \<noteq> []"
  shows "assign_utc rid uptime prefer u =
     (let s = ensure_sorted (u_anchor_points u) in
       (if rid > ta_reading_id (last (al_data s)) then Inr None else assign_at rid uptime prefer (bisect_left (al_keys s) rid) s,
        u\<lparr>u_anchor_points := s\<rparr>))"
  using assms by (auto simp: assign_utc_def anchor_at_def py_nth_last bisect_key_left_def Let_def)

lemma assign_at_true:
  assumes "assign_at rid uptime prefer i s = Inr (Some a)" and "clocked T s" and "al_sorted s" and "i < length (al_data s)"
    and "ta_reading_id (al_data s ! i) = rid"
    and "uptime = None \<or> ta_utc (al_data s ! i) \<noteq> None \<or> uptime = ta_uptime (al_data s ! i)" and "ua_exact a"
  shows "ua_utc a = T rid \<or> ta_is_break (al_data s ! i) \<and> ta_utc (al_data s ! i) = None \<and>
    fst (fix_left rid (al_data s ! i) i True s) = Some a"
proof (cases "ta_utc (al_data s ! i)")
  case (Some t)
  have "true_anchor T (al_data s ! i)" using assms(2) nth_mem [OF assms(4)] by (simp add: clocked_def)
  then have "t = T rid" using assms(5) Some by (simp add: true_anchor_def)
  then show ?thesis using assms Some by (auto simp: assign_at_def py_nth_int split: option.splits)
next
  case None
  have start: "(case uptime of None \<Rightarrow> al_data s ! i | Some t \<Rightarrow> (al_data s ! i)\<lparr>ta_uptime := Some t\<rparr>) = al_data s ! i"
    using assms(6) None by (auto split: option.splits)
  have "fst (fix_left rid (al_data s ! i) i True s) = Some a \<or> fst (fix_right rid (al_data s ! i) i True s) = Some a"
    using assms(1,4,5,7) None unfolding assign_at_def py_nth_int [OF assms(4)] bind_res_simps Let_def start pick_best_fix_def
    by (auto split: option.splits if_splits)
  then show ?thesis
    using fix_left_bound [OF _ assms(2,3,4)] fix_right_bound [OF _ assms(2,3,4)] assms(5,7) None by blast
qed

lemma anchor_position:
  assumes "anchors_ok s" and "c \<in> set (al_data s)"
  obtains i where "i < length (al_data (ensure_sorted s))" and "al_data (ensure_sorted s) ! i = c"
    and "bisect_left (al_keys (ensure_sorted s)) (ta_reading_id c) = i"
    and "ta_reading_id c \<le> ta_reading_id (last (al_data (ensure_sorted s)))"
proof -
  let ?d = "al_data (ensure_sorted s)"
  obtain i where i: "i < length ?d" "?d ! i = c" using assms(2) by (metis ensure_sorted_set(1) in_set_conv_nth)
  note ok = ensure_sorted_sorted [OF assms(1)] ensure_sorted_ok [OF assms(1)]
  have "bisect_left (al_keys (ensure_sorted s)) (ta_reading_id c) = i"
    using bisect_left_found [of "map ta_reading_id ?d" i] ok i by (simp add: anchors_ok_def)
  moreover have "ta_reading_id c \<le> ta_reading_id (last ?d)"
  proof -
    have "?d \<noteq> []" using i(1) by auto
    moreover have "ta_reading_id (?d ! i) \<le> ta_reading_id (?d ! (length ?d - 1))"
      using sorted_nth_mono [OF ok(1), of i "length ?d - 1"] i(1) by simp
    ultimately show ?thesis using i(2) by (simp add: last_conv_nth)
  qed
  ultimately show thesis using that i by blast
qed

lemma assign_known:
  assumes "anchors_ok (u_anchor_points u)" and "c \<in> set (al_data (u_anchor_points u))"
    and "prefer = ''before'' \<or> prefer = ''after''"
  obtains i where "i < length (al_data (ensure_sorted (u_anchor_points u)))" and "al_data (ensure_sorted (u_anchor_points u)) ! i = c"
    and "assign_utc (ta_reading_id c) uptime prefer u =
           (assign_at (ta_reading_id c) uptime prefer i (ensure_sorted (u_anchor_points u)),
            u\<lparr>u_anchor_points := ensure_sorted (u_anchor_points u)\<rparr>)"
proof (rule anchor_position [OF assms(1,2)])
  fix i assume "i < length (al_data (ensure_sorted (u_anchor_points u)))" "al_data (ensure_sorted (u_anchor_points u)) ! i = c"
    "bisect_left (al_keys (ensure_sorted (u_anchor_points u))) (ta_reading_id c) = i"
    "ta_reading_id c \<le> ta_reading_id (last (al_data (ensure_sorted (u_anchor_points u))))"
  moreover have "al_data (u_anchor_points u) \<noteq> []" using assms(2) by auto
  ultimately show thesis using that assign_utc_alt [OF assms(1,3)] by (simp add: Let_def)
qed

lemma assign_ok: "assign_utc rid uptime prefer u = (Inr x, u') \<Longrightarrow> prefer = ''before'' \<or> prefer = ''after''"
  by (auto simp: assign_utc_def split: if_splits)

lemma assign_exact:
  assumes "clocked T (u_anchor_points u)" and "c \<in> set (al_data (u_anchor_points u))"
    and "uptime = None \<or> ta_utc c \<noteq> None \<or> uptime = ta_uptime c"
    and "assign_utc (ta_reading_id c) uptime prefer u = (Inr (Some a), u')" and "ua_exact a"
  shows "ua_utc a = T (ta_reading_id c) \<or> ta_is_break c \<and> ta_utc c = None \<and>
    (\<exists>i < length (al_data (ensure_sorted (u_anchor_points u))). al_data (ensure_sorted (u_anchor_points u)) ! i = c \<and>
       fst (fix_left (ta_reading_id c) c i True (ensure_sorted (u_anchor_points u))) = Some a)"
proof -
  have ok: "anchors_ok (u_anchor_points u)" using assms(1) by (simp add: clocked_def)
  then show ?thesis
  proof (rule assign_known [OF _ assms(2) assign_ok [OF assms(4)]])
    fix i assume i: "i < length (al_data (ensure_sorted (u_anchor_points u)))" "al_data (ensure_sorted (u_anchor_points u)) ! i = c"
      "assign_utc (ta_reading_id c) uptime prefer u =
         (assign_at (ta_reading_id c) uptime prefer i (ensure_sorted (u_anchor_points u)),
          u\<lparr>u_anchor_points := ensure_sorted (u_anchor_points u)\<rparr>)"
    have "assign_at (ta_reading_id c) uptime prefer i (ensure_sorted (u_anchor_points u)) = Inr (Some a)"
      using i(3) assms(4) by simp
    from assign_at_true [OF this clocked_sorted [OF assms(1)] ensure_sorted_sorted(3) [OF ok] i(1), unfolded i(2), OF refl assms(3,5)]
    show ?thesis using i(1,2) by blast
  qed
qed

lemma assign_exact_true:
  assumes "well_clocked T (u_anchor_points u)" and "c \<in> set (al_data (u_anchor_points u))"
    and "uptime = None \<or> ta_utc c \<noteq> None \<or> uptime = ta_uptime c"
    and "assign_utc (ta_reading_id c) uptime prefer u = (Inr (Some a), u')" and "ua_exact a"
  shows "ua_utc a = T (ta_reading_id c)"
  using assign_exact [OF _ assms(2-5)] assms(1,2) by (auto simp: well_clocked_def)

text \<open>
  C25: When a time that is claimed to be exact is the true time.  Suppose that every known time of the assigner is true,
  that uptimes never run ahead of the true time, and that a reset between neighbouring points shows as a break or as a smaller
  uptime.  Then an exact assignment for a reading that is one of the points is the true time of the reading, with one
  exception: the reading is itself a break, its time was not known, and the time was taken from the points before
  the break.  Readings that are not among the points are not covered; for them, as for the exception, exact times can be wrong
  (\<open>break_time_wrong\<close>, \<open>unknown_time_wrong\<close>).
\<close>

theorem exact_time_is_true:
  assumes "clocked T (u_anchor_points u)" and "c \<in> set (al_data (u_anchor_points u))"
    and "uptime = None \<or> ta_utc c \<noteq> None \<or> uptime = ta_uptime c"
    and "assign_utc (ta_reading_id c) uptime prefer u = (Inr (Some a), u')" and "ua_exact a"
  shows "ua_utc a = T (ta_reading_id c) \<or> ta_is_break c \<and> ta_utc c = None \<and>
    (\<exists>i < length (al_data (ensure_sorted (u_anchor_points u))). al_data (ensure_sorted (u_anchor_points u)) ! i = c \<and>
       fst (fix_left (ta_reading_id c) c i True (ensure_sorted (u_anchor_points u))) = Some a)"
  using assms by (rule assign_exact)

text \<open>
  When no exact time is known the two candidates still bracket the true time: the one found before the reading is never
  later, and the one found after it is never earlier.
\<close>

theorem candidates_bracket_truth:
  assumes "well_clocked T s" and "al_sorted s" and "i < length (al_data s)" and "\<not> ta_is_break (al_data s ! i)"
    and "fst (fix_left rid (al_data s ! i) i found s) = Some before"
    and "fst (fix_right rid (al_data s ! i) i found s) = Some after"
  shows "ua_utc before \<le> T (ta_reading_id (al_data s ! i))" and "T (ta_reading_id (al_data s ! i)) \<le> ua_utc after"
  using fix_left_bound [OF assms(5) _ assms(2,3,4)] fix_right_bound [OF assms(6) _ assms(2,3)] assms(1)
  by (auto simp: well_clocked_def)

definition without_utc :: "time_anchor \<Rightarrow> time_anchor" where
  "without_utc a = a\<lparr>ta_utc := None, ta_exact := False\<rparr>"

lemma successively_without_utc:
  "successively (clock_step T) ds \<longleftrightarrow> successively (clock_step T) (map without_utc ds)"
proof -
  have "clock_step T (without_utc a) (without_utc b) = clock_step T a b" for a b
    by (simp add: clock_step_def without_utc_def split: option.split)
  then show ?thesis by (simp add: successively_map)
qed

text \<open>Storing a true time in an anchor of a sorted list keeps what the assignments rest on.\<close>

definition set_known :: "nat \<Rightarrow> datetime \<Rightarrow> anchor_list \<Rightarrow> anchor_list" where
  "set_known i t s = s\<lparr>al_data := (al_data s)[i := (al_data s ! i)\<lparr>ta_utc := Some t, ta_exact := True\<rparr>]\<rparr>"

lemma map_set_known:
  assumes "\<And>a t. f (a\<lparr>ta_utc := Some t, ta_exact := True\<rparr>) = f a" and "i < length (al_data s)"
  shows "map f (al_data (set_known i t s)) = map f (al_data s)"
proof -
  have "map f (al_data (set_known i t s)) = (map f (al_data s))[i := map f (al_data s) ! i]"
    using assms(2) by (simp add: set_known_def map_update assms(1))
  then show ?thesis by simp
qed

lemma set_known_clocked:
  assumes "well_clocked T s" and "al_sorted s" and "i < length (al_data s)" and "t = T (ta_reading_id (al_data s ! i))"
  shows "well_clocked T (set_known i t s)" and "al_sorted (set_known i t s)"
proof -
  let ?s = "set_known i t s"
  have ids: "map ta_reading_id (al_data ?s) = map ta_reading_id (al_data s)"
    and bare: "map without_utc (al_data ?s) = map without_utc (al_data s)"
    using assms(3) by (auto intro!: map_set_known simp: without_utc_def)
  have fields: "al_keys ?s = al_keys s" "al_key_set ?s = al_key_set s" "al_sorted ?s = al_sorted s"
    by (simp_all add: set_known_def)
  have same_ids: "ta_reading_id ` set (al_data ?s) = ta_reading_id ` set (al_data s)" using ids by (metis set_map)
  have ok: "anchors_ok ?s" using assms(1) unfolding well_clocked_def clocked_def anchors_ok_def fields ids same_ids by auto
  have "successively (clock_step T) (al_data ?s)"
    using assms(1,2) successively_without_utc [of T "al_data ?s"] successively_without_utc [of T "al_data s"] bare
    by (simp add: well_clocked_def clocked_def ensure_sorted_def)
  moreover have "set (al_data ?s) \<subseteq> insert ((al_data s ! i)\<lparr>ta_utc := Some t, ta_exact := True\<rparr>) (set (al_data s))"
    by (simp add: set_known_def set_update_subset_insert)
  ultimately show "well_clocked T ?s"
    using assms ok fields by (auto simp: well_clocked_def clocked_def ensure_sorted_def true_anchor_def)
  show "al_sorted ?s" using assms(2) fields by simp
qed

lemma assign_at_returns: "i < length (al_data s) \<Longrightarrow> \<exists>x. assign_at rid uptime prefer i s = Inr x"
  by (simp add: assign_at_def py_nth_int Let_def)

lemma prepare_anchor_step:
  assumes "well_clocked T (u_anchor_points u)" and "al_sorted (u_anchor_points u)" and "i < length (al_data (u_anchor_points u))"
  shows "\<exists>s. prepare_anchor i u = (Inr (), u\<lparr>u_anchor_points := s\<rparr>) \<and>
    (s = u_anchor_points u \<or> s = set_known i (T (ta_reading_id (al_data (u_anchor_points u) ! i))) (u_anchor_points u))"
proof -
  let ?s = "u_anchor_points u" and ?c = "al_data (u_anchor_points u) ! i"
  have sorted: "ensure_sorted ?s = ?s" using assms(2) by (simp add: ensure_sorted_def)
  have ok: "anchors_ok ?s" using assms(1) by (simp add: well_clocked_def clocked_def)
  have c: "?c \<in> set (al_data ?s)" using assms(3) by simp
  obtain x where x: "assign_utc (ta_reading_id ?c) (ta_uptime ?c) ''before'' u = (Inr x, u)"
  proof (rule assign_known [OF ok c, of "''before''" "ta_uptime ?c" thesis])
    fix j assume "j < length (al_data (ensure_sorted ?s))"
      "assign_utc (ta_reading_id ?c) (ta_uptime ?c) ''before'' u =
         (assign_at (ta_reading_id ?c) (ta_uptime ?c) ''before'' j (ensure_sorted ?s), u\<lparr>u_anchor_points := ensure_sorted ?s\<rparr>)"
    moreover have "u\<lparr>u_anchor_points := ?s\<rparr> = u" by simp
    ultimately show thesis
      using that assign_at_returns [of j ?s "ta_reading_id ?c" "ta_uptime ?c" "''before''"] unfolding sorted by auto
  qed simp
  show ?thesis
  proof (cases "\<not> ta_exact ?c \<and> (\<exists>a. x = Some a \<and> ua_exact a)")
    case True
    then obtain a where a: "x = Some a" "ua_exact a" by blast
    have "ua_utc a = T (ta_reading_id ?c)" using assign_exact_true [OF assms(1) c _ x [unfolded a(1)] a(2)] by simp
    then show ?thesis using True a x assms(3) by (auto simp: prepare_anchor_def py_nth_int set_known_def)
  next
    case False
    have "prepare_anchor i u = (Inr (), u\<lparr>u_anchor_points := ?s\<rparr>)"
      using False x assms(3) by (auto simp: prepare_anchor_def py_nth_int split: option.splits)
    then show ?thesis by blast
  qed
qed


lemma ensure_prepared_keeps:
  assumes "\<not> u_prepared u" and "well_clocked T (u_anchor_points u)" and "P (ensure_sorted (u_anchor_points u))"
    and step: "\<And>s i. P s \<Longrightarrow> well_clocked T s \<Longrightarrow> i < length (al_data s) \<Longrightarrow> P (set_known i (T (ta_reading_id (al_data s ! i))) s)"
  shows "\<exists>s. ensure_prepared u = (Inr (), u\<lparr>u_anchor_points := s, u_prepared := True\<rparr>) \<and> well_clocked T s \<and> al_sorted s \<and> P s"
proof -
  let ?u = "u\<lparr>u_anchor_points := ensure_sorted (u_anchor_points u)\<rparr>"
  let ?n = "length (al_data (u_anchor_points ?u))"
  let ?I = "\<lambda>v. \<exists>s. v = u\<lparr>u_anchor_points := s\<rparr> \<and> well_clocked T s \<and> al_sorted s \<and> length (al_data s) = ?n \<and> P s"
  have start: "?I ?u" using assms(2,3) ensure_sorted_sorted(3) [of "u_anchor_points u"] by (auto simp: well_clocked_sorted well_clocked_def [of T "u_anchor_points u"] clocked_def [of T "u_anchor_points u"])
  have body: "prepare_anchor i v = (Inr (), snd (prepare_anchor i v)) \<and> ?I (snd (prepare_anchor i v))"
    if i: "i \<in> set [0..<?n]" and inv: "?I v" for i v
  proof -
    obtain s where s: "v = u\<lparr>u_anchor_points := s\<rparr>" "well_clocked T s" "al_sorted s" "length (al_data s) = ?n" "P s" using inv by blast
    have len: "i < length (al_data s)" using i s(4) by simp
    obtain s' where s': "prepare_anchor i v = (Inr (), v\<lparr>u_anchor_points := s'\<rparr>)"
      "s' = s \<or> s' = set_known i (T (ta_reading_id (al_data s ! i))) s"
      using prepare_anchor_step [of T v i] s len by auto
    have "well_clocked T s' \<and> al_sorted s' \<and> length (al_data s') = ?n \<and> P s'"
      using s'(2) s set_known_clocked [OF s(2,3) len refl] step [OF s(5,2) len] by (auto simp: set_known_def)
    then show ?thesis using s' s(1) by auto
  qed
  have "for_each prepare_anchor [0..<?n] ?u = (Inr (), fold (\<lambda>i v. snd (prepare_anchor i v)) [0..<?n] ?u) \<and>
      ?I (fold (\<lambda>i v. snd (prepare_anchor i v)) [0..<?n] ?u)"
    by (rule for_each_total [where P = ?I]) (rule start, erule (1) body)
  then obtain s where s: "for_each prepare_anchor [0..<?n] ?u = (Inr (), u\<lparr>u_anchor_points := s\<rparr>)" "well_clocked T s" "al_sorted s" "P s"
    by (elim conjE exE) (rule that; simp)
  then show ?thesis using assms(1) by (auto simp: ensure_prepared_def Let_def)
qed

text \<open>
  Preparing an assigner never raises, and every time it adds is the true one: afterwards the known times are again all
  true, and the anchors are those of before.
\<close>

theorem prepared_times_true:
  assumes "well_clocked T (u_anchor_points u)" and "ensure_prepared u = (r, u')"
  shows "r = Inr ()" and "well_clocked T (u_anchor_points u')"
    and "ta_reading_id ` set (al_data (u_anchor_points u')) = ta_reading_id ` set (al_data (u_anchor_points u))"
proof -
  let ?P = "\<lambda>s. ta_reading_id ` set (al_data s) = ta_reading_id ` set (al_data (u_anchor_points u))"
  have step: "?P (set_known i t s)" if "?P s" "i < length (al_data s)" for s i t
  proof -
    have "map ta_reading_id (al_data (set_known i t s)) = map ta_reading_id (al_data s)" using that(2) by (intro map_set_known) simp_all
    then show ?thesis using that(1) by (metis set_map)
  qed
  have "r = Inr () \<and> well_clocked T (u_anchor_points u') \<and> ?P (u_anchor_points u')"
  proof (cases "u_prepared u")
    case True
    then show ?thesis using assms by (simp add: ensure_prepared_def)
  next
    case False
    from ensure_prepared_keeps [of u T ?P, OF False assms(1)] step assms(2) show ?thesis by auto
  qed
  then show "r = Inr ()" "well_clocked T (u_anchor_points u')" "?P (u_anchor_points u')" by blast+
qed

section \<open>A report of one boot\<close>

text \<open>All points have uptimes that never decrease, and the last one has a known time.\<close>

definition uptime_step :: "time_anchor \<Rightarrow> time_anchor \<Rightarrow> bool" where
  "uptime_step a b \<longleftrightarrow> \<not> ta_is_break b \<and>
     (case (ta_uptime a, ta_uptime b) of (Some s, Some t) \<Rightarrow> s \<le> t | _ \<Rightarrow> False)"

definition one_boot :: "anchor_list \<Rightarrow> bool" where
  "one_boot s \<longleftrightarrow> al_data s \<noteq> [] \<and> successively uptime_step (al_data s) \<and> ta_utc (last (al_data s)) \<noteq> None"

lemma fix_right_loop_one_boot:
  assumes "successively uptime_step (l # d)" and "d \<noteq> []" and "ta_utc (last d) \<noteq> None"
  shows "\<exists>a. fix_right_loop rid found l d acc True cr = Some a \<and> ua_exact a"
  using assms
proof (induction d arbitrary: l acc)
  case (Cons c d)
  obtain s t where st: "ta_uptime l = Some s" "ta_uptime c = Some t" "s \<le> t" "\<not> ta_is_break c"
    using Cons.prems(1) by (auto simp: uptime_step_def split: option.splits)
  show ?case
  proof (cases "ta_utc c")
    case None
    then have "d \<noteq> []" using Cons.prems(3) by auto
    then show ?thesis using Cons.IH [of c "acc + (t - s)"] Cons.prems(1,3) st None by (simp add: Let_def)
  next
    case (Some utc)
    then show ?thesis using st by (simp add: Let_def)
  qed
qed simp

lemma assign_at_one_boot:
  assumes "one_boot s" and "well_clocked T s" and "al_sorted s" and "i < length (al_data s)"
    and up: "uptime = None \<or> uptime = ta_uptime (al_data s ! i)"
  shows "\<exists>a. assign_at (ta_reading_id (al_data s ! i)) uptime prefer i s = Inr (Some a) \<and> ua_exact a"
proof -
  let ?c = "al_data s ! i"
  have start: "(case uptime of None \<Rightarrow> ?c | Some t \<Rightarrow> ?c\<lparr>ta_uptime := Some t\<rparr>) = ?c" using up by (auto split: option.splits)
  show ?thesis
  proof (cases "ta_utc ?c")
    case None
    have "i \<noteq> length (al_data s) - 1" using assms(1) None by (auto simp: one_boot_def last_conv_nth)
    then have more: "drop (Suc i) (al_data s) \<noteq> []" "int i \<noteq> int (length (al_data s)) - 1" using assms(4) by auto
    have "successively uptime_step (?c # drop (Suc i) (al_data s))" using assms(1,4) by (intro successively_split) (simp_all add: one_boot_def)
    then obtain a where "fst (fix_right (ta_reading_id ?c) ?c i True s) = Some a" "ua_exact a"
      using fix_right_loop_one_boot [of ?c "drop (Suc i) (al_data s)" "ta_reading_id ?c" True 0 False] more assms(1,3)
      by (auto simp: fix_right_def one_boot_def last_drop)
    then show ?thesis
      unfolding assign_at_def py_nth_int [OF assms(4)] bind_res_simps Let_def start using None by (auto split: option.splits)
  next
    case (Some t)
    then show ?thesis unfolding assign_at_def py_nth_int [OF assms(4)] bind_res_simps Let_def start by auto
  qed
qed

lemma set_known_one_boot: "one_boot s \<Longrightarrow> i < length (al_data s) \<Longrightarrow> one_boot (set_known i t s)"
proof -
  assume one: "one_boot s" and i: "i < length (al_data s)"
  have "uptime_step (without_utc a) (without_utc b) = uptime_step a b" for a b
    by (simp add: uptime_step_def without_utc_def)
  then have bare: "successively uptime_step ds \<longleftrightarrow> successively uptime_step (map without_utc ds)" for ds
    by (simp add: successively_map)
  have "map without_utc (al_data (set_known i t s)) = map without_utc (al_data s)"
    using i by (intro map_set_known) (simp_all add: without_utc_def)
  then have "successively uptime_step (al_data (set_known i t s))" using one bare by (metis one_boot_def)
  then show ?thesis using one i by (auto simp: one_boot_def set_known_def last_list_update)
qed

lemma low_bits_of_uptime:
  assumes "0 \<le> t" and "t < 2 ^ 31"
  shows "t AND push_bit 31 1 = (0::int)"
  using assms and_single_bit [of t 31] by (auto simp: push_bit_eq_mult)

text \<open>The points that a report of a fresh assigner leaves.\<close>

definition reading_anchor :: "reading \<Rightarrow> time_anchor" where
  "reading_anchor r = \<lparr>ta_reading_id = reading_id r, ta_uptime = Some (raw_time r), ta_utc = None, ta_is_break = False, ta_exact = False\<rparr>"

lemma add_readings:
  assumes "\<forall>r\<in>set rs. reading_id r \<noteq> 0 \<and> 0 \<le> raw_time r \<and> raw_time r < 2 ^ 31" and "distinct (map reading_id rs)"
    and "\<forall>r\<in>set rs. reading_id r \<notin> al_key_set (u_anchor_points u)" and "u_anchor_streams u = []" and "u_break_streams u = {}"
    and "\<not> al_sorted (u_anchor_points u)" and "\<not> u_prepared u"
  shows "fold add_reading rs u = u\<lparr>u_anchor_points := (u_anchor_points u)
    \<lparr>al_key_set := reading_id ` set rs \<union> al_key_set (u_anchor_points u), al_data := al_data (u_anchor_points u) @ map reading_anchor rs\<rparr>\<rparr>"
  using assms
proof (induction rs arbitrary: u)
  case (Cons r rs)
  let ?u = "u\<lparr>u_anchor_points := add_anchor (reading_anchor r) (u_anchor_points u)\<rparr>"
  have "raw_time r AND 2147483648 = 0" using low_bits_of_uptime [of "raw_time r"] Cons.prems(1) by simp
  then have "add_reading r u = ?u"
    using Cons.prems by (cases u) (simp add: add_reading_def add_point_def Let_def has_anchor_def reading_anchor_def)
  moreover have "fold add_reading rs ?u = ?u\<lparr>u_anchor_points := (u_anchor_points ?u)
    \<lparr>al_key_set := reading_id ` set rs \<union> al_key_set (u_anchor_points ?u), al_data := al_data (u_anchor_points ?u) @ map reading_anchor rs\<rparr>\<rparr>"
    using Cons.prems by (intro Cons.IH) (auto simp: add_anchor_def reading_anchor_def image_iff)
  ultimately show ?case using Cons.prems(6) by (simp add: add_anchor_def reading_anchor_def)
qed simp


definition boot_time :: "signed_list_report \<Rightarrow> int \<Rightarrow> datetime" where
  "boot_time rep rid = received_time rep - seconds (sent_timestamp rep -
     (case find (\<lambda>r. reading_id r = rid) (visible_readings rep) of None \<Rightarrow> sent_timestamp rep | Some r \<Rightarrow> raw_time r))"

lemma find_reading: "distinct (map reading_id rs) \<Longrightarrow> r \<in> set rs \<Longrightarrow> find (\<lambda>x. reading_id x = reading_id r) rs = Some r"
  by (induction rs) (auto simp: image_iff)

lemma find_no_reading: "n \<notin> reading_id ` set rs \<Longrightarrow> find (\<lambda>x. reading_id x = n) rs = None"
  by (induction rs) auto

definition one_boot_report :: "signed_list_report \<Rightarrow> bool" where
  "one_boot_report rep \<longleftrightarrow>
     sorted_wrt (<) (0 # map reading_id (visible_readings rep) @ [report_id rep]) \<and>
     sorted (0 # map raw_time (visible_readings rep) @ [sent_timestamp rep]) \<and> sent_timestamp rep < 2 ^ 31"

lemma one_boot_report_facts:
  assumes "one_boot_report rep"
  shows "\<forall>r\<in>set (visible_readings rep). 0 < reading_id r \<and> reading_id r < report_id rep \<and> 0 \<le> raw_time r \<and>
      raw_time r \<le> sent_timestamp rep \<and> raw_time r < 2 ^ 31"
    and "sorted_wrt (<) (map reading_id (visible_readings rep))" and "sorted (map raw_time (visible_readings rep))"
    and "0 < report_id rep" and "0 \<le> sent_timestamp rep" and "sent_timestamp rep < 2 ^ 31"
  using assms by (fastforce simp: one_boot_report_def sorted_wrt_append)+

definition report_anchor :: "signed_list_report \<Rightarrow> time_anchor" where
  "report_anchor rep = \<lparr>ta_reading_id = report_id rep, ta_uptime = Some (sent_timestamp rep), ta_utc = Some (received_time rep),
     ta_is_break = False, ta_exact = True\<rparr>"

lemma add_one_boot_report:
  assumes "one_boot_report rep"
  shows "add_report (Some rep) ignore_errors new_utc_assigner =
    (Inr (), new_utc_assigner\<lparr>u_anchor_points := \<lparr>al_key_set = insert (report_id rep) (reading_id ` set (visible_readings rep)),
        al_data = map reading_anchor (visible_readings rep) @ [report_anchor rep], al_keys = [], al_sorted = False\<rparr>\<rparr>)"
proof -
  note facts = one_boot_report_facts [OF assms]
  have dist: "distinct (map reading_id (visible_readings rep))" using facts(2) by (simp add: strict_sorted_iff)
  have "sent_timestamp rep AND 2147483648 = 0" using low_bits_of_uptime facts(5,6) by simp
  moreover have "report_id rep \<notin> reading_id ` set (visible_readings rep)" using facts(1) by fastforce
  moreover have "fold add_reading (visible_readings rep) new_utc_assigner = new_utc_assigner\<lparr>u_anchor_points :=
      \<lparr>al_key_set = reading_id ` set (visible_readings rep), al_data = map reading_anchor (visible_readings rep), al_keys = [], al_sorted = False\<rparr>\<rparr>"
    using facts(1) dist by (subst add_readings) (auto simp: new_utc_assigner_def new_anchor_list_def)
  ultimately show ?thesis
    using facts(4) by (simp add: add_report_def new_utc_assigner_def add_point_def has_anchor_def add_anchor_def report_anchor_def)
qed

lemma one_boot_points:
  fixes rep :: signed_list_report
  defines "s \<equiv> \<lparr>al_key_set = insert (report_id rep) (reading_id ` set (visible_readings rep)),
        al_data = map reading_anchor (visible_readings rep) @ [report_anchor rep], al_keys = [], al_sorted = False\<rparr>"
  assumes "one_boot_report rep"
  shows "well_clocked (boot_time rep) s" and "one_boot (ensure_sorted s)"
proof -
  note facts = one_boot_report_facts [OF assms(2)]
  have dist: "distinct (map reading_id (visible_readings rep))" using facts(2) by (simp add: strict_sorted_iff)
  have fresh: "report_id rep \<notin> reading_id ` set (visible_readings rep)" using facts(1) by fastforce
  have ids: "map ta_reading_id (al_data s) = map reading_id (visible_readings rep) @ [report_id rep]"
    by (simp add: s_def reading_anchor_def report_anchor_def comp_def)
  have "sorted (map ta_reading_id (al_data s))"
    unfolding ids using facts(1,2) by (auto simp: sorted_append strict_sorted_iff intro: less_imp_le)
  then have data: "al_data (ensure_sorted s) = al_data s"
    by (simp add: ensure_sorted_def Let_def sort_key_id_if_sorted)
  have up: "sorted_wrt (\<lambda>a b. raw_time a \<le> raw_time b) (visible_readings rep)" using facts(3) by (simp add: sorted_map)
  have at: "boot_time rep (reading_id r) = received_time rep - seconds (sent_timestamp rep - raw_time r)" if "r \<in> set (visible_readings rep)" for r
    using find_reading [OF dist that] by (simp add: boot_time_def)
  have end_at: "boot_time rep (report_id rep) = received_time rep"
    using find_no_reading [OF fresh] by (simp add: boot_time_def seconds_def)
  have "sorted_wrt uptime_step (al_data s)"
    using facts(1) up by (auto simp: s_def sorted_wrt_append sorted_wrt_map uptime_step_def reading_anchor_def report_anchor_def)
  then show "one_boot (ensure_sorted s)"
    unfolding one_boot_def data by (auto simp: s_def report_anchor_def intro: successively_if_sorted_wrt)
  have "sorted_wrt (\<lambda>a b. clock_step (boot_time rep) (reading_anchor a) (reading_anchor b)) (visible_readings rep)"
    by (rule sorted_wrt_mono_rel [OF _ up]) (auto simp: clock_step_def reading_anchor_def at seconds_def)
  then have "sorted_wrt (clock_step (boot_time rep)) (al_data s)"
    using facts(1) by (auto simp: s_def sorted_wrt_append sorted_wrt_map clock_step_def reading_anchor_def report_anchor_def at end_at seconds_def)
  then have "successively (clock_step (boot_time rep)) (al_data s)" by (rule successively_if_sorted_wrt)
  moreover have "anchors_ok s"
    using dist fresh by (auto simp: anchors_ok_def s_def reading_anchor_def report_anchor_def comp_def image_image)
  ultimately show "well_clocked (boot_time rep) s"
    unfolding well_clocked_def clocked_def data by (auto simp: s_def true_anchor_def reading_anchor_def report_anchor_def end_at)
qed

lemma fix_readings_one_boot:
  assumes "one_boot (u_anchor_points u)" and "well_clocked T (u_anchor_points u)" and "al_sorted (u_anchor_points u)"
    and "prefer = ''before'' \<or> prefer = ''after''"
    and "\<forall>r\<in>set rs. \<exists>c\<in>set (al_data (u_anchor_points u)). ta_reading_id c = reading_id r \<and> ta_uptime c = Some (raw_time r)"
  obtains fixed where "fix_readings prefer rs u = (Inr fixed, u)" and "map reading_id fixed = map reading_id rs"
    and "map r_stream fixed = map r_stream rs" and "map r_value fixed = map r_value rs"
    and "map reading_time fixed = map (\<lambda>r. Some (T (reading_id r))) rs"
  using assms(5)
proof (induction rs arbitrary: thesis)
  case (Cons r rs)
  let ?s = "u_anchor_points u"
  have sorted: "ensure_sorted ?s = ?s" and ok: "anchors_ok ?s" using assms(2,3) by (simp_all add: ensure_sorted_def well_clocked_def clocked_def)
  have same: "u\<lparr>u_anchor_points := ?s\<rparr> = u" by simp
  obtain c where c: "c \<in> set (al_data ?s)" "ta_reading_id c = reading_id r" "ta_uptime c = Some (raw_time r)" using Cons.prems(2) by auto
  obtain i where i: "i < length (al_data ?s)" "al_data ?s ! i = c"
    "assign_utc (reading_id r) (Some (raw_time r)) prefer u = (assign_at (reading_id r) (Some (raw_time r)) prefer i ?s, u)"
    using assign_known [OF ok c(1) assms(4), of "Some (raw_time r)"] unfolding sorted same c(2) by metis
  obtain a where a: "assign_utc (reading_id r) (Some (raw_time r)) prefer u = (Inr (Some a), u)" "ua_exact a"
    using assign_at_one_boot [OF assms(1,2,3) i(1), of "Some (raw_time r)"] i c by auto
  have t: "ua_utc a = T (reading_id r)" using assign_exact_true [OF assms(2) c(1) _ a(1) [folded c(2)] a(2)] c by simp
  obtain fixed where "fix_readings prefer rs u = (Inr fixed, u)" "map reading_id fixed = map reading_id rs"
    "map r_stream fixed = map r_stream rs" "map r_value fixed = map r_value rs"
    "map reading_time fixed = map (\<lambda>r. Some (T (reading_id r))) rs"
    using Cons.IH Cons.prems(2) by auto
  then show ?case using a t by (intro Cons.prems(1) [of "new_reading (ua_rtc_value a) (r_stream r) (r_value r) None (Some (reading_id r)) (Some (ua_utc a)) # fixed"])
    (auto simp: new_reading_def)
qed auto

text \<open>
  The readings of a device that did not restart get exact times from their own report: when a report with increasing ids
  and uptimes is added to a fresh assigner and the assigner is prepared, no reading is dropped, and each gets the time the
  report was received minus the uptime that passed from the reading until the report was sent.
\<close>

theorem one_boot_report_fixed:
  assumes "one_boot_report rep" and "add_report (Some rep) ignore_errors new_utc_assigner = (Inr (), u)"
    and "ensure_prepared u = (r, u')" and "prefer = ''before'' \<or> prefer = ''after''"
  shows "\<exists>fixed. fix_readings prefer (visible_readings rep) u' = (Inr fixed, u') \<and>
    map reading_id fixed = map reading_id (visible_readings rep) \<and>
    map r_stream fixed = map r_stream (visible_readings rep) \<and> map r_value fixed = map r_value (visible_readings rep) \<and>
    map reading_time fixed =
      map (\<lambda>x. Some (received_time rep - seconds (sent_timestamp rep - raw_time x))) (visible_readings rep)"
proof -
  let ?rs = "visible_readings rep" and ?T = "boot_time rep"
  have dist: "distinct (map reading_id ?rs)" using one_boot_report_facts(2) [OF assms(1)] by (simp add: strict_sorted_iff)
  note u = add_one_boot_report [OF assms(1), of ignore_errors, unfolded assms(2), simplified]
  let ?P = "\<lambda>s. one_boot s \<and> (\<forall>x\<in>set ?rs. \<exists>c\<in>set (al_data s). ta_reading_id c = reading_id x \<and> ta_uptime c = Some (raw_time x))"
  have clocked: "well_clocked ?T (u_anchor_points u)" using one_boot_points(1) [OF assms(1)] u by simp
  have points: "?P (ensure_sorted (u_anchor_points u))"
    using one_boot_points(2) [OF assms(1)] u by (auto simp: reading_anchor_def)
  have step: "?P (set_known i t s)" if "?P s" "i < length (al_data s)" for s i t
  proof -
    have "map (\<lambda>a. (ta_reading_id a, ta_uptime a)) (al_data (set_known i t s)) = map (\<lambda>a. (ta_reading_id a, ta_uptime a)) (al_data s)"
      using that(2) by (intro map_set_known) simp_all
    then have img: "(\<lambda>a. (ta_reading_id a, ta_uptime a)) ` set (al_data (set_known i t s)) = (\<lambda>a. (ta_reading_id a, ta_uptime a)) ` set (al_data s)"
      by (metis set_map)
    have "\<exists>c\<in>set (al_data (set_known i t s)). ta_reading_id c = m \<and> ta_uptime c = n"
      if "c \<in> set (al_data s)" "ta_reading_id c = m" "ta_uptime c = n" for c m n
      using img that by (metis (mono_tags, lifting) image_iff prod.inject)
    then show ?thesis using that set_known_one_boot by blast
  qed
  obtain s where s: "u_anchor_points u' = s" "well_clocked ?T s" "al_sorted s" "?P s"
    using ensure_prepared_keeps [of u ?T ?P] u clocked points step assms(3) by (auto simp: new_utc_assigner_def)
  obtain fixed where "fix_readings prefer ?rs u' = (Inr fixed, u')" "map reading_id fixed = map reading_id ?rs"
    "map r_stream fixed = map r_stream ?rs" "map r_value fixed = map r_value ?rs"
    "map reading_time fixed = map (\<lambda>r. Some (?T (reading_id r))) ?rs"
    using fix_readings_one_boot [of u' ?T "prefer" ?rs] s assms(4) by blast
  moreover have "map (\<lambda>r. Some (?T (reading_id r))) ?rs = map (\<lambda>x. Some (received_time rep - seconds (sent_timestamp rep - raw_time x))) ?rs"
    using find_reading [OF dist] by (simp add: boot_time_def)
  ultimately show ?thesis by auto
qed

section \<open>The order in which points are added\<close>

definition add_points :: "(int \<times> int option \<times> datetime option \<times> bool) list \<Rightarrow> utc_assigner \<Rightarrow> utc_assigner" where
  "add_points ps u = fold (\<lambda>(rid, uptime, utc, is_break). add_point rid uptime utc is_break) ps u"

definition point_anchor :: "int \<times> int option \<times> datetime option \<times> bool \<Rightarrow> time_anchor option" where
  "point_anchor p = (case p of (rid, uptime, utc, is_break) \<Rightarrow>
     (case al_data (u_anchor_points (add_point rid uptime utc is_break new_utc_assigner)) of [] \<Rightarrow> None | a # _ \<Rightarrow> Some a))"

lemma add_point_anchor:
  assumes "rid \<notin> al_key_set (u_anchor_points u)"
  shows "u_anchor_points (add_point rid uptime utc is_break u) =
     (case point_anchor (rid, uptime, utc, is_break) of None \<Rightarrow> u_anchor_points u | Some a \<Rightarrow> add_anchor a (u_anchor_points u))"
    and "point_anchor (rid, uptime, utc, is_break) = Some a \<Longrightarrow> ta_reading_id a = rid"
  using assms
  by (auto simp: point_anchor_def add_point_def new_utc_assigner_def new_anchor_list_def has_anchor_def add_anchor_def Let_def split: if_splits)

lemma add_points_data:
  assumes "distinct (map fst ps)" and "\<forall>p\<in>set ps. fst p \<notin> al_key_set (u_anchor_points u)" and "\<not> al_sorted (u_anchor_points u)"
  shows "al_data (u_anchor_points (add_points ps u)) = al_data (u_anchor_points u) @ List.map_filter point_anchor ps \<and>
    al_key_set (u_anchor_points (add_points ps u)) =
      al_key_set (u_anchor_points u) \<union> ta_reading_id ` set (List.map_filter point_anchor ps) \<and>
    \<not> al_sorted (u_anchor_points (add_points ps u))"
  using assms
proof (induction ps arbitrary: u)
  case (Cons p ps)
  obtain rid uptime utc brk where p: "p = (rid, uptime, utc, brk)" by (cases p) auto
  let ?u = "add_point rid uptime utc brk u"
  have fresh: "rid \<notin> al_key_set (u_anchor_points u)" using Cons.prems(2) p by simp
  note one = add_point_anchor [OF fresh, of uptime utc brk]
  have "\<forall>q\<in>set ps. fst q \<notin> al_key_set (u_anchor_points ?u)" and "\<not> al_sorted (u_anchor_points ?u)"
    using Cons.prems p one by (auto simp: add_anchor_def image_iff split: option.splits)
  from Cons.IH [OF _ this] Cons.prems(1)
  have "al_data (u_anchor_points (add_points ps ?u)) = al_data (u_anchor_points ?u) @ List.map_filter point_anchor ps"
    "al_key_set (u_anchor_points (add_points ps ?u)) =
      al_key_set (u_anchor_points ?u) \<union> ta_reading_id ` set (List.map_filter point_anchor ps)"
    "\<not> al_sorted (u_anchor_points (add_points ps ?u))" by simp_all
  moreover have "add_points (p # ps) u = add_points ps ?u" by (simp add: add_points_def p)
  ultimately show ?case
    using one p by (cases "point_anchor p") (simp_all add: add_anchor_def List.map_filter_simps)
qed (simp add: add_points_def List.map_filter_simps)

lemma points_ids: "distinct (map fst ps) \<Longrightarrow> distinct (map ta_reading_id (List.map_filter point_anchor ps))"
proof (induction ps)
  case (Cons p ps)
  have id_of: "point_anchor q = Some a \<Longrightarrow> ta_reading_id a = fst q" for q a
    using add_point_anchor(2) [where u = new_utc_assigner]
    by (cases q) (auto simp: new_utc_assigner_def new_anchor_list_def)
  have "a \<in> set (List.map_filter point_anchor ps) \<Longrightarrow> ta_reading_id a \<in> fst ` set ps" for a
    using id_of by (force simp: map_filter_def)
  then show ?case using Cons id_of by (cases "point_anchor p") (auto simp: List.map_filter_simps)
qed (simp add: List.map_filter_simps)

lemma points_sorted_same:
  assumes "distinct (map fst ps)" and "mset ps = mset qs"
  shows "ensure_sorted (u_anchor_points (add_points ps new_utc_assigner)) = ensure_sorted (u_anchor_points (add_points qs new_utc_assigner))"
proof -
  let ?s = "\<lambda>ps. u_anchor_points (add_points ps new_utc_assigner)"
  have sets: "set (List.map_filter point_anchor ps) = set (List.map_filter point_anchor qs)"
    using mset_eq_setD [OF assms(2)] by (simp add: map_filter_def)
  have "distinct (map fst qs)" using assms by (metis mset_eq_imp_distinct_iff mset_map)
  then have ids: "distinct (map ta_reading_id (List.map_filter point_anchor ps))" "distinct (map ta_reading_id (List.map_filter point_anchor qs))"
    using assms(1) points_ids by blast+
  have "sort_key ta_reading_id (List.map_filter point_anchor ps) = sort_key ta_reading_id (List.map_filter point_anchor qs)"
    using ids sets by (intro map_sorted_distinct_set_unique) (auto simp: distinct_map)
  moreover have "al_data (?s ps) = List.map_filter point_anchor ps" "al_data (?s qs) = List.map_filter point_anchor qs"
    "al_key_set (?s ps) = al_key_set (?s qs)" "\<not> al_sorted (?s ps)" "\<not> al_sorted (?s qs)"
    using add_points_data [of ps new_utc_assigner] add_points_data [of qs new_utc_assigner] sets assms(1) \<open>distinct (map fst qs)\<close>
    by (simp_all add: new_utc_assigner_def new_anchor_list_def)
  ultimately show ?thesis by (simp add: ensure_sorted_def Let_def)
qed

text \<open>
  C26: Points with different ids can be added in any order: the times that are assigned to readings do not depend on it.
\<close>

theorem point_order_irrelevant:
  assumes "distinct (map fst ps)" and "mset ps = mset qs"
  shows "fst (assign_utc rid uptime prefer (add_points ps new_utc_assigner)) =
         fst (assign_utc rid uptime prefer (add_points qs new_utc_assigner))"
proof -
  note same = points_sorted_same [OF assms]
  have "al_data (u_anchor_points (add_points ps new_utc_assigner)) = [] \<longleftrightarrow> al_data (u_anchor_points (add_points qs new_utc_assigner)) = []"
    using arg_cong [OF same, of al_data] by (metis ensure_sorted_set(4))
  then show ?thesis by (simp add: assign_utc_def anchor_at_def bisect_key_left_def same Let_def)
qed

text \<open>
  What the assigner does with a reading that it does not know: it looks from the anchor after the next one on, so the next
  anchor is passed over, and with it a restart of the device that the anchor marks.  The assignment still claims to be exact and
  to cross no break.
\<close>

theorem unknown_reading_skips:
  assumes "anchors_ok (u_anchor_points u)" and "al_data (ensure_sorted (u_anchor_points u)) = b # c # ds"
    and "rid < ta_reading_id b" and "ta_uptime c = Some v" and "ta_utc c = Some w" and "\<not> ta_is_break c" and "t \<le> v"
    and "prefer = ''before'' \<or> prefer = ''after''"
  shows "fst (assign_utc rid (Some t) prefer u) = Inr (Some (new_assignment rid (w - seconds (v - t)) False True False))"
proof -
  let ?s = "ensure_sorted (u_anchor_points u)"
  note ok = ensure_sorted_sorted [OF assms(1)]
  have "al_data (u_anchor_points u) \<noteq> []" using assms(2) ensure_sorted_set(4) [of "u_anchor_points u"] by simp
  moreover have "\<not> ta_reading_id (last (al_data ?s)) < rid"
    using ok(1) assms(2,3) by (cases ds rule: rev_cases) (auto simp: sorted_append)
  moreover have "bisect_left (al_keys ?s) rid = 0"
    using assms(2,3) ok(2) by (simp add: bisect_left_def)
  ultimately show ?thesis
    using assms(2-) ok(3) by (auto simp: assign_utc_alt [OF assms(1,8)] Let_def assign_at_def py_nth_def fix_left_def fix_right_def)
qed


text \<open>Two readings and the report they came in.\<close>

definition example_points :: anchor_list where
  "example_points = \<lparr>al_key_set = {1, 2, 3}, al_data =
     [\<lparr>ta_reading_id = 1, ta_uptime = Some 10, ta_utc = None, ta_is_break = False, ta_exact = False\<rparr>,
      \<lparr>ta_reading_id = 2, ta_uptime = Some 20, ta_utc = None, ta_is_break = False, ta_exact = False\<rparr>,
      \<lparr>ta_reading_id = 3, ta_uptime = Some 25, ta_utc = Some (seconds 1025), ta_is_break = False, ta_exact = True\<rparr>],
     al_keys = [1, 2, 3], al_sorted = True\<rparr>"

lemma example_clocked: "well_clocked (\<lambda>i. if i = 1 then seconds 1010 else if i = 2 then seconds 1020 else seconds 1025) example_points"
  by (simp add: well_clocked_def clocked_def anchors_ok_def ensure_sorted_def example_points_def clock_step_def true_anchor_def seconds_def insert_commute)

theorem exact_time_is_true_witness:
  "\<exists>a. assign_utc 1 (Some 10) ''before'' (new_utc_assigner\<lparr>u_anchor_points := example_points\<rparr>) =
     (Inr (Some a), new_utc_assigner\<lparr>u_anchor_points := example_points\<rparr>) \<and> ua_utc a = seconds 1010"
proof -
  let ?u = "new_utc_assigner\<lparr>u_anchor_points := example_points\<rparr>"
  let ?c = "\<lparr>ta_reading_id = 1, ta_uptime = Some 10, ta_utc = None, ta_is_break = False, ta_exact = False\<rparr>"
  let ?a = "new_assignment 1 (seconds 1025 - seconds 15) True True False"
  have run: "assign_utc 1 (Some 10) ''before'' ?u = (Inr (Some ?a), ?u)"
    by (simp add: example_points_def assign_utc_def anchor_at_def ensure_sorted_def py_nth_def bisect_key_left_def bisect_left_def
      assign_at_def fix_left_def fix_right_def)
  have "ua_utc ?a = (if (1::int) = 1 then seconds 1010 else seconds 1025)"
    using exact_time_is_true [of "\<lambda>i. if i = 1 then seconds 1010 else if i = 2 then seconds 1020 else seconds 1025" ?u ?c "Some 10"
        "''before''" ?a ?u] example_clocked run
    by (simp add: example_points_def well_clocked_def)
  then show ?thesis using run by auto
qed

text \<open>
  Where exact times are wrong.  The device runs until second 1003 with uptime 3 and starts again at second 2000.  In the first
  list the restart is marked on the reading in question, in the second one on the point after it.
\<close>

definition restart_points :: anchor_list where
  "restart_points = \<lparr>al_key_set = {1, 2}, al_data =
     [\<lparr>ta_reading_id = 1, ta_uptime = Some 3, ta_utc = Some (seconds 1003), ta_is_break = False, ta_exact = True\<rparr>,
      \<lparr>ta_reading_id = 2, ta_uptime = Some 5, ta_utc = None, ta_is_break = True, ta_exact = False\<rparr>],
     al_keys = [1, 2], al_sorted = True\<rparr>"

definition later_points :: anchor_list where
  "later_points = \<lparr>al_key_set = {2, 3}, al_data =
     [\<lparr>ta_reading_id = 2, ta_uptime = Some 0, ta_utc = None, ta_is_break = True, ta_exact = False\<rparr>,
      \<lparr>ta_reading_id = 3, ta_uptime = Some 10, ta_utc = Some (seconds 2010), ta_is_break = False, ta_exact = True\<rparr>],
     al_keys = [2, 3], al_sorted = True\<rparr>"

lemma break_time_wrong:
  "clocked (\<lambda>i. if i = 1 then seconds 1003 else seconds 2005) restart_points \<and>
   (\<exists>a. assign_utc 2 (Some 5) ''before'' (new_utc_assigner\<lparr>u_anchor_points := restart_points\<rparr>) =
      (Inr (Some a), new_utc_assigner\<lparr>u_anchor_points := restart_points\<rparr>) \<and> ua_exact a \<and> ua_utc a = seconds 1005)"
proof
  show "clocked (\<lambda>i. if i = 1 then seconds 1003 else seconds 2005) restart_points"
    by (simp add: clocked_def anchors_ok_def ensure_sorted_def restart_points_def clock_step_def true_anchor_def seconds_def insert_commute)
  show "\<exists>a. assign_utc 2 (Some 5) ''before'' (new_utc_assigner\<lparr>u_anchor_points := restart_points\<rparr>) =
      (Inr (Some a), new_utc_assigner\<lparr>u_anchor_points := restart_points\<rparr>) \<and> ua_exact a \<and> ua_utc a = seconds 1005"
    by (simp add: restart_points_def assign_utc_def anchor_at_def ensure_sorted_def py_nth_def bisect_key_left_def bisect_left_def
      assign_at_def fix_left_def fix_right_def anchor_slice_def Let_def seconds_def)
qed

lemma unknown_time_wrong:
  "clocked (\<lambda>i. if i = 1 then seconds 1003 else if i = 2 then seconds 2000 else seconds 2010) later_points \<and>
   (\<exists>a. assign_utc 1 (Some 3) ''before'' (new_utc_assigner\<lparr>u_anchor_points := later_points\<rparr>) =
      (Inr (Some a), new_utc_assigner\<lparr>u_anchor_points := later_points\<rparr>) \<and> ua_exact a \<and> ua_utc a = seconds 2003)"
proof
  show "clocked (\<lambda>i. if i = 1 then seconds 1003 else if i = 2 then seconds 2000 else seconds 2010) later_points"
    by (simp add: clocked_def anchors_ok_def ensure_sorted_def later_points_def clock_step_def true_anchor_def seconds_def insert_commute)
  show "\<exists>a. assign_utc 1 (Some 3) ''before'' (new_utc_assigner\<lparr>u_anchor_points := later_points\<rparr>) =
      (Inr (Some a), new_utc_assigner\<lparr>u_anchor_points := later_points\<rparr>) \<and> ua_exact a \<and> ua_utc a = seconds 2003"
    by (simp add: later_points_def assign_utc_def anchor_at_def ensure_sorted_def py_nth_def bisect_key_left_def bisect_left_def
      assign_at_def fix_left_def fix_right_def anchor_slice_def Let_def seconds_def)
qed

definition example_known :: anchor_list where
  "example_known = example_points\<lparr>al_data := (al_data example_points)[0 := (al_data example_points ! 0)\<lparr>ta_utc := Some (seconds 1010)\<rparr>]\<rparr>"

theorem candidates_bracket_truth_witness:
  "\<exists>b a. fst (fix_left 2 (al_data example_known ! 1) 1 True example_known) = Some b \<and>
     fst (fix_right 2 (al_data example_known ! 1) 1 True example_known) = Some a \<and> ua_utc b \<le> seconds 1020 \<and> seconds 1020 \<le> ua_utc a"
proof -
  let ?T = "\<lambda>i::int. if i = 1 then seconds 1010 else if i = 2 then seconds 1020 else seconds 1025"
  have wc: "well_clocked ?T example_known" and len: "al_sorted example_known" "1 < length (al_data example_known)"
    "\<not> ta_is_break (al_data example_known ! 1)" and id: "ta_reading_id (al_data example_known ! 1) = 2"
    by (simp_all add: well_clocked_def clocked_def anchors_ok_def ensure_sorted_def example_known_def example_points_def clock_step_def true_anchor_def
        seconds_def insert_commute)
  have left: "fst (fix_left 2 (al_data example_known ! 1) 1 True example_known) = Some (new_assignment 2 (seconds 1010 + seconds 10) True True False)"
    and right: "fst (fix_right 2 (al_data example_known ! 1) 1 True example_known) = Some (new_assignment 2 (seconds 1025 - seconds 5) True True False)"
    by (simp_all add: example_known_def example_points_def fix_left_def fix_right_def anchor_slice_def ensure_sorted_def Let_def)
  from candidates_bracket_truth [OF wc len left right] left right id show ?thesis by auto
qed

theorem prepared_times_true_witness:
  "fst (ensure_prepared (new_utc_assigner\<lparr>u_anchor_points := example_points\<rparr>)) = Inr ()"
  using prepared_times_true(1) [of "\<lambda>i. if i = 1 then seconds 1010 else if i = 2 then seconds 1020 else seconds 1025"
      "new_utc_assigner\<lparr>u_anchor_points := example_points\<rparr>"] example_clocked
  by (metis (no_types, lifting) prod.collapse utc_assigner.select_convs(1) utc_assigner.surjective utc_assigner.update_convs(1))

definition example_report :: signed_list_report where
  "example_report = \<lparr>origin = 1, received_time = seconds 1025, raw_report = [], signed = False, encrypted = False, verified = False,
     sent_timestamp = 25, visible_readings =
       [\<lparr>raw_time = 10, r_stream = 0, r_value = 5, reading_id = 1, reading_time = None\<rparr>,
        \<lparr>raw_time = 20, r_stream = 0, r_value = 6, reading_id = 2, reading_time = None\<rparr>],
     report_id = 3, origin_streamer = 0, streamer_selector = 0, signature_flags = 0, lowest_id = 1, highest_id = 2, signature = []\<rparr>"

theorem one_boot_report_fixed_witness:
  "\<exists>u u' fixed. add_report (Some example_report) False new_utc_assigner = (Inr (), u) \<and> ensure_prepared u = (Inr (), u') \<and>
     fix_readings ''before'' (visible_readings example_report) u' = (Inr fixed, u') \<and>
     map reading_time fixed = [Some (seconds 1010), Some (seconds 1020)]"
proof -
  have one: "one_boot_report example_report" by (simp add: one_boot_report_def example_report_def)
  obtain u where u: "add_report (Some example_report) False new_utc_assigner = (Inr (), u)" using add_one_boot_report [OF one] by blast
  have np: "\<not> u_prepared u" using u add_one_boot_report [OF one, of False] by (auto simp: new_utc_assigner_def)
  have wc: "well_clocked (boot_time example_report) (u_anchor_points u)" using u add_one_boot_report [OF one, of False] one_boot_points(1) [OF one] by auto
  obtain u' where u': "ensure_prepared u = (Inr (), u')" using ensure_prepared_keeps [OF np wc, of "\<lambda>_. True"] by auto
  have "map (\<lambda>x. Some (received_time example_report - seconds (sent_timestamp example_report - raw_time x))) (visible_readings example_report)
      = [Some (seconds 1010), Some (seconds 1020)]" by (simp add: example_report_def seconds_def)
  then show ?thesis using one_boot_report_fixed [OF one u u', of "''before''"] u u' by auto
qed

theorem point_order_irrelevant_witness:
  "fst (assign_utc 1 None ''before'' (add_points [(1, Some 5, None, False), (2, None, Some 7, False)] new_utc_assigner)) =
   fst (assign_utc 1 None ''before'' (add_points [(2, None, Some 7, False), (1, Some 5, None, False)] new_utc_assigner))"
  by (rule point_order_irrelevant) simp_all

theorem unknown_reading_skips_witness:
  "fst (assign_utc 1 (Some 20) ''before'' (new_utc_assigner\<lparr>u_anchor_points := \<lparr>al_key_set = {2, 3}, al_data =
      [\<lparr>ta_reading_id = 2, ta_uptime = Some 0, ta_utc = None, ta_is_break = True, ta_exact = False\<rparr>,
       \<lparr>ta_reading_id = 3, ta_uptime = Some 25, ta_utc = Some (seconds 1025), ta_is_break = False, ta_exact = True\<rparr>],
      al_keys = [2, 3], al_sorted = True\<rparr>\<rparr>)) = Inr (Some (new_assignment 1 (seconds 1025 - seconds (25 - 20)) False True False))"
  by (rule unknown_reading_skips) (auto simp: anchors_ok_def ensure_sorted_def)

end
