(* ===== verification/Config_Database.thy ===== *)
theory Config_Database
  imports Rpc_Payload Base64 Error_Codes Slots
begin

text \<open>
  The config variables that an emulated controller keeps for the tiles
  (\<open>emulate/reference/controller_features/config_database.py\<close>).
\<close>

section \<open>State\<close>

record config_entry =
  ce_target :: slot_identifier
  ce_var_id :: int
  ce_data :: "byte list"
  ce_valid :: bool

text \<open>The magic number is an attribute that \<open>restore\<close> sets like the others.\<close>

record config_db =
  cd_magic :: int
  cd_control_size :: int
  cd_data_size :: int
  cd_entries :: "config_entry list"
  cd_in_progress :: "config_entry option"
  cd_data_index :: int

definition new_config_entry :: "slot_identifier \<Rightarrow> int \<Rightarrow> byte list \<Rightarrow> bool \<Rightarrow> config_entry" where
  "new_config_entry target var_id data valid =
     \<lparr>ce_target = target, ce_var_id = var_id, ce_data = data, ce_valid = valid\<rparr>"

definition new_config_db :: "int \<Rightarrow> int \<Rightarrow> config_db" where
  "new_config_db control_size data_size =
     \<lparr>cd_magic = 0xcaca, cd_control_size = control_size, cd_data_size = data_size, cd_entries = [],
      cd_in_progress = None, cd_data_index = 0\<rparr>"

definition CONTROL_SIZE :: int where "CONTROL_SIZE = 16"

definition control_space :: "config_entry \<Rightarrow> int" where
  "control_space e = CONTROL_SIZE"

definition data_space :: "config_entry \<Rightarrow> int" where
  "data_space e = int (length (ce_data e))"

section \<open>Operations\<close>

definition max_entries :: "config_db \<Rightarrow> int" where
  "max_entries db = cd_control_size db div CONTROL_SIZE - 1"

definition space_of :: "config_entry list \<Rightarrow> int" where
  "space_of es = sum_list (map data_space es)"

definition config_compact :: "config_db \<Rightarrow> config_db" where
  "config_compact db =
     (let saved_length = space_of (filter (Not \<circ> ce_valid) (cd_entries db)) in
      db\<lparr>cd_entries := filter ce_valid (cd_entries db), cd_data_index := cd_data_index db - saved_length\<rparr>)"

definition config_clear :: "config_db \<Rightarrow> config_db" where
  "config_clear db = db\<lparr>cd_entries := [], cd_in_progress := None, cd_data_index := 0\<rparr>"

text \<open>The new entry is in progress also when the call is refused.\<close>

definition start_entry :: "slot_identifier \<Rightarrow> int \<Rightarrow> config_db \<Rightarrow> (int, config_db) act" where
  "start_entry target var_id db =
     (let entry = new_config_entry target var_id [] True;
          db1 = db\<lparr>cd_in_progress := Some entry\<rparr> in
      if cd_data_size db - cd_data_index db < data_space entry then (Inr DESTINATION_BUFFER_TOO_SMALL, db1)
      else bind_act (struct_pack ''H'' [Num var_id], db1) (\<lambda>b db1.
        let entry1 = entry\<lparr>ce_data := ce_data entry @ b\<rparr> in
        (Inr NO_ERROR, db1\<lparr>cd_in_progress := Some entry1, cd_data_index := cd_data_index db1 + data_space entry1\<rparr>)))"

definition cdb_add_data :: "byte list \<Rightarrow> config_db \<Rightarrow> int \<times> config_db" where
  "cdb_add_data data db =
     (if cd_data_size db - cd_data_index db < int (length data) then (DESTINATION_BUFFER_TOO_SMALL, db)
      else case cd_in_progress db of
        None \<Rightarrow> (NO_ERROR, db)
      | Some entry \<Rightarrow> (NO_ERROR, db\<lparr>cd_in_progress := Some (entry\<lparr>ce_data := ce_data entry @ data\<rparr>)\<rparr>))"

text \<open>\<open>for entry in self.entries: ... entry.valid = False\<close>\<close>

definition invalidate_copies :: "config_entry \<Rightarrow> config_entry list \<Rightarrow> config_entry list" where
  "invalidate_copies new = map (\<lambda>e.
     if ce_target e = ce_target new \<and> ce_var_id e = ce_var_id new then e\<lparr>ce_valid := False\<rparr> else e)"

definition end_entry :: "config_db \<Rightarrow> int \<times> config_db" where
  "end_entry db =
     (case cd_in_progress db of
        None \<Rightarrow> (NO_ERROR, db)
      | Some entry \<Rightarrow>
          if data_space entry = 2 then (INPUT_BUFFER_WRONG_SIZE, db)
          else (NO_ERROR, db\<lparr>cd_entries := invalidate_copies entry (cd_entries db) @ [entry],
                  cd_data_index := cd_data_index db + (data_space entry - 2), cd_in_progress := None\<rparr>))"

text \<open>The arguments of a call: address, variable, offset and data; the call is \<open>SET_CONFIG_VARIABLE\<close>.\<close>

type_synonym config_rpc = "int \<times> int \<times> nat \<times> byte list"

definition generate_rpcs :: "int \<Rightarrow> config_entry \<Rightarrow> config_rpc list" where
  "generate_rpcs address e =
     map (\<lambda>offset. (address, ce_var_id e, offset - 2, take 16 (drop offset (ce_data e))))
       (py_range 2 (length (ce_data e)) 16)"

fun matching_entries :: "int \<Rightarrow> config_entry list \<Rightarrow> config_entry list res" where
  "matching_entries address [] = Inr []"
| "matching_entries address (e # es) =
     bind_res (if ce_valid e then slot_matches (ce_target e) address else Inr False) (\<lambda>m.
     bind_res (matching_entries address es) (\<lambda>rest. Inr (if m then e # rest else rest)))"

definition stream_matching :: "int \<Rightarrow> config_db \<Rightarrow> config_rpc list res" where
  "stream_matching address db =
     bind_res (matching_entries address (cd_entries db)) (\<lambda>es. Inr (concat (map (generate_rpcs address) es)))"

definition config_int_types :: "string \<Rightarrow> string option" where
  "config_int_types name = map_of
     [(''uint8_t'', ''B''), (''int8_t'', ''b''), (''uint16_t'', ''H''), (''int16_t'', ''h''),
      (''uint32_t'', ''L''), (''int32_t'', ''l'')] name"

text \<open>\<open>bytes(value)\<close>: of a number that many zeros, of text without an encoding a \<open>TypeError\<close>.\<close>

definition py_bytes :: "rpc_value \<Rightarrow> byte list res" where
  "py_bytes v =
     (case v of
        Raw b \<Rightarrow> Inr b
      | Num n \<Rightarrow> if n < 0 then Inl ValueError else Inr (replicate (nat n) 0)
      | Text t \<Rightarrow> Inl PyTypeError)"

definition convert_to_bytes :: "string \<Rightarrow> rpc_value \<Rightarrow> byte list res" where
  "convert_to_bytes type_name v =
     (let type_name = py_lower type_name in
      case config_int_types type_name of
        None \<Rightarrow>
          if type_name = ''string'' then py_bytes v
          else if type_name = ''binary'' then py_bytes v
          else Inl ArgumentError
      | Some code \<Rightarrow> struct_pack code [v])"

definition add_direct :: "slot_identifier \<Rightarrow> int \<Rightarrow> string \<Rightarrow> rpc_value \<Rightarrow> config_db \<Rightarrow> (unit, config_db) act" where
  "add_direct target var_id var_type v db =
     bind_act (struct_pack ''H'' [Num var_id], db) (\<lambda>b1 db.
     bind_act (convert_to_bytes var_type v, db) (\<lambda>b2 db.
       let data = b1 @ b2 in
       if cd_data_size db - cd_data_index db < int (length data) then (Inl DataError, db)
       else let entry = new_config_entry target var_id data True in
         (Inr (), db\<lparr>cd_entries := invalidate_copies entry (cd_entries db) @ [entry],
                   cd_data_index := cd_data_index db + data_space entry\<rparr>)))"

section \<open>Dumps\<close>

text \<open>
  A dump is a dictionary; a key that is missing is \<open>None\<close>.  An entry in progress is dumped as it is.
  \<open>restore\<close> goes through the keys in the order of a set, so after an exception it is open which attributes are
  set; the result is then only the exception.
\<close>

record entry_dump =
  ed_target :: string
  ed_data :: string
  ed_var_id :: int
  ed_valid :: bool

record config_dump =
  dd_magic :: "int option"
  dd_control_size :: "int option"
  dd_data_size :: "int option"
  dd_entries :: "entry_dump list option"
  dd_in_progress :: "config_entry option option"
  dd_data_index :: "int option"

definition entry_to_dump :: "config_entry \<Rightarrow> entry_dump" where
  "entry_to_dump e =
     \<lparr>ed_target = slot_str (ce_target e), ed_data = b64encode (ce_data e), ed_var_id = ce_var_id e,
      ed_valid = ce_valid e\<rparr>"

definition entry_restore :: "entry_dump \<Rightarrow> config_entry res" where
  "entry_restore d =
     bind_res (slot_of_string (ed_target d)) (\<lambda>target.
     bind_res (b64decode (ed_data d)) (\<lambda>data.
       Inr (new_config_entry target (ed_var_id d) data (ed_valid d))))"

definition config_to_dump :: "config_db \<Rightarrow> config_dump" where
  "config_to_dump db =
     \<lparr>dd_magic = Some (cd_magic db), dd_control_size = Some (cd_control_size db),
      dd_data_size = Some (cd_data_size db), dd_entries = Some (map entry_to_dump (cd_entries db)),
      dd_in_progress = Some (cd_in_progress db), dd_data_index = Some (cd_data_index db)\<rparr>"

definition restored :: "'a \<Rightarrow> 'a option \<Rightarrow> 'a" where
  "restored old new = (case new of None \<Rightarrow> old | Some v \<Rightarrow> v)"

definition config_restore :: "config_dump \<Rightarrow> config_db \<Rightarrow> config_db res" where
  "config_restore d db =
     bind_res (case dd_entries d of None \<Rightarrow> Inr (cd_entries db) | Some es \<Rightarrow> map_res entry_restore es) (\<lambda>es.
       Inr \<lparr>cd_magic = restored (cd_magic db) (dd_magic d),
            cd_control_size = restored (cd_control_size db) (dd_control_size d),
            cd_data_size = restored (cd_data_size db) (dd_data_size d),
            cd_entries = es,
            cd_in_progress = restored (cd_in_progress db) (dd_in_progress d),
            cd_data_index = restored (cd_data_index db) (dd_data_index d)\<rparr>)"

section \<open>Remote procedure calls\<close>

definition start_config_var_entry :: "int \<Rightarrow> byte list \<Rightarrow> config_db \<Rightarrow> (rpc_value list, config_db) act" where
  "start_config_var_entry var_id encoded_selector db =
     bind_act (slot_of_encoded encoded_selector, db) (\<lambda>sel db.
     bind_act (start_entry sel var_id db) (\<lambda>err db. (Inr [Num err], db)))"

definition continue_config_var_entry :: "byte list \<Rightarrow> config_db \<Rightarrow> (rpc_value list, config_db) act" where
  "continue_config_var_entry data db = (case cdb_add_data data db of (err, db1) \<Rightarrow> (Inr [Num err], db1))"

definition end_config_var_entry :: "config_db \<Rightarrow> (rpc_value list, config_db) act" where
  "end_config_var_entry db = (case end_entry db of (err, db1) \<Rightarrow> (Inr [Num err], db1))"

definition get_config_var_entry :: "int \<Rightarrow> config_db \<Rightarrow> (rpc_value list, config_db) act" where
  "get_config_var_entry index db =
     (if index = 0 \<or> index > int (length (cd_entries db))
      then (Inr [Num INVALID_ARRAY_KEY, Num 0, Num 0, Num 0, Raw (replicate 8 0), Num 0, Num 0], db)
      else bind_act (py_nth (cd_entries db) (index - 1), db) (\<lambda>entry db.
        if \<not> ce_valid entry then (Inr [Num OBSOLETE_ENTRY, Num 0, Num 0, Num 0, Raw (replicate 8 0), Num 0, Num 0], db)
        else let offset = space_of (py_slice_to (cd_entries db) (index - 1)) in
          bind_act (slot_encode (ce_target entry), db) (\<lambda>target db.
            (Inr [Num NO_ERROR, Num (cd_magic db), Num offset, Num (data_space entry), Raw target, Num 0xFF, Num 0], db))))"

definition count_config_var_entries :: "config_db \<Rightarrow> (rpc_value list, config_db) act" where
  "count_config_var_entries db = (Inr [Num (int (length (cd_entries db)))], db)"

definition clear_config_var_entries :: "config_db \<Rightarrow> (rpc_value list, config_db) act" where
  "clear_config_var_entries db = (Inr [Num NO_ERROR], config_clear db)"

definition get_config_var_data :: "int \<Rightarrow> int \<Rightarrow> config_db \<Rightarrow> (rpc_value list, config_db) act" where
  "get_config_var_data index offset db =
     (if index = 0 \<or> index > int (length (cd_entries db)) then (Inr [Num INVALID_ARRAY_KEY, Raw []], db)
      else bind_act (py_nth (cd_entries db) (index - 1), db) (\<lambda>entry db.
        if \<not> ce_valid entry then (Inr [Num OBSOLETE_ENTRY, Raw []], db)
        else if offset \<ge> data_space entry then (Inr [Num INVALID_ARRAY_KEY, Raw []], db)
        else (Inr [Num NO_ERROR, Raw (take 16 (drop (nat offset) (ce_data entry)))], db)))"

text \<open>The position of \<open>entries[index - 1]\<close> counts from the end when it is negative.\<close>

definition invalidate_config_var_entry :: "int \<Rightarrow> config_db \<Rightarrow> (rpc_value list, config_db) act" where
  "invalidate_config_var_entry index db =
     (if index = 0 \<or> index > int (length (cd_entries db)) then (Inr [Num INVALID_ARRAY_KEY, Raw []], db)
      else bind_act (py_nth (cd_entries db) (index - 1), db) (\<lambda>entry db.
        if \<not> ce_valid entry then (Inr [Num OBSOLETE_ENTRY, Raw []], db)
        else (Inr [Num NO_ERROR],
              db\<lparr>cd_entries := (cd_entries db)[nat ((index - 1) mod int (length (cd_entries db))) :=
                entry\<lparr>ce_valid := False\<rparr>]\<rparr>)))"

definition compact_config_database :: "config_db \<Rightarrow> (rpc_value list, config_db) act" where
  "compact_config_database db = (Inr [Num NO_ERROR], config_compact db)"

definition get_config_database_info :: "config_db \<Rightarrow> (rpc_value list, config_db) act" where
  "get_config_database_info db =
     (let max_size = cd_data_size db;
          entry_limit = max_entries db;
          used_size = cd_data_index db;
          used_entries = int (length (cd_entries db));
          invalid_size = space_of (filter (Not \<circ> ce_valid) (cd_entries db));
          invalid_entries = int (length (filter (Not \<circ> ce_valid) (cd_entries db))) in
      (Inr [Num max_size, Num used_size, Num invalid_size, Num used_entries, Num invalid_entries, Num entry_limit, Num 0],
       db))"

text \<open>The declarations are those of \<open>rpc_config_database.py\<close>.\<close>

definition config_functions :: "config_db rpc_declaration list" where
  "config_functions =
     [(0x2a07, ''H8s'', ''L'', as_function (\<lambda>args. case args of
         [Num var_id, Raw sel] \<Rightarrow> Some (start_config_var_entry var_id sel) | _ \<Rightarrow> None)),
      (0x2a08, ''V'', ''L'', as_function (\<lambda>args. case args of
         [Raw data] \<Rightarrow> Some (continue_config_var_entry data) | _ \<Rightarrow> None)),
      (0x2a09, '''', ''L'', as_function (\<lambda>args. case args of [] \<Rightarrow> Some end_config_var_entry | _ \<Rightarrow> None)),
      (0x2a0a, ''H'', ''L3H8sBB'', as_function (\<lambda>args. case args of
         [Num index] \<Rightarrow> Some (get_config_var_entry index) | _ \<Rightarrow> None)),
      (0x2a0b, '''', ''L'', as_function (\<lambda>args. case args of [] \<Rightarrow> Some count_config_var_entries | _ \<Rightarrow> None)),
      (0x2a0c, '''', ''L'', as_function (\<lambda>args. case args of [] \<Rightarrow> Some clear_config_var_entries | _ \<Rightarrow> None)),
      (0x2a0d, ''HH'', ''LV'', as_function (\<lambda>args. case args of
         [Num index, Num offset] \<Rightarrow> Some (get_config_var_data index offset) | _ \<Rightarrow> None)),
      (0x2a0e, ''H'', ''L'', as_function (\<lambda>args. case args of
         [Num index] \<Rightarrow> Some (invalidate_config_var_entry index) | _ \<Rightarrow> None)),
      (0x2a0f, '''', ''L'', as_function (\<lambda>args. case args of [] \<Rightarrow> Some compact_config_database | _ \<Rightarrow> None)),
      (0x2a10, '''', ''L6H'', as_function (\<lambda>args. case args of [] \<Rightarrow> Some get_config_database_info | _ \<Rightarrow> None))]"

definition config_rpcs :: "config_db rpc_dispatcher" where
  "config_rpcs = rpc_table config_functions"

section \<open>Storing\<close>

lemma pack_H: "0 \<le> v \<Longrightarrow> v < 65536 \<Longrightarrow> struct_pack ''H'' [Num v] = Inr (le_bytes 2 v)"
  by (simp add: struct_pack_def dec_digit_def digit_val_def py_isspace_def code_fields_def int_code_def int_fits_def Let_def)

lemma pack_H_cases:
  obtains "0 \<le> v" "v < 65536" "struct_pack ''H'' [Num v] = Inr (le_bytes 2 v)"
  | "\<not> (0 \<le> v \<and> v < 65536)" "struct_pack ''H'' [Num v] = Inl StructError"
proof (cases "0 \<le> v \<and> v < 65536")
  case False
  then have "struct_pack ''H'' [Num v] = Inl StructError"
    by (auto simp: struct_pack_def dec_digit_def digit_val_def py_isspace_def code_fields_def int_code_def int_fits_def Let_def)
  with False show ?thesis using that(2) by blast
qed (use that(1) pack_H in blast)

text \<open>The data of an entry: the number of the variable and its value.\<close>

definition entry_for :: "slot_identifier \<Rightarrow> int \<Rightarrow> byte list \<Rightarrow> config_entry" where
  "entry_for t v val = new_config_entry t v (le_bytes 2 v @ val) True"

lemma start_entry_ok:
  assumes "0 \<le> v" "v < 65536" "cd_data_index db \<le> cd_data_size db"
  shows "start_entry t v db =
    (Inr NO_ERROR, db\<lparr>cd_in_progress := Some (entry_for t v []), cd_data_index := cd_data_index db + 2\<rparr>)"
  using assms by (simp add: start_entry_def pack_H entry_for_def new_config_entry_def data_space_def)

lemma cdb_add_data_ok:
  assumes "cd_in_progress db = Some (entry_for t v val)" "int (length d) \<le> cd_data_size db - cd_data_index db"
  shows "cdb_add_data d db = (NO_ERROR, db\<lparr>cd_in_progress := Some (entry_for t v (val @ d))\<rparr>)"
  using assms by (simp add: cdb_add_data_def entry_for_def new_config_entry_def)

lemma add_all:
  assumes "cd_in_progress db = Some (entry_for t v val)"
    and "\<And>d. d \<in> set chunks \<Longrightarrow> int (length d) \<le> cd_data_size db - cd_data_index db"
  shows "fold (\<lambda>d. snd \<circ> cdb_add_data d) chunks db = db\<lparr>cd_in_progress := Some (entry_for t v (val @ concat chunks))\<rparr>"
  using assms
proof (induction chunks arbitrary: db val)
  case (Cons d chunks)
  have "cdb_add_data d db = (NO_ERROR, db\<lparr>cd_in_progress := Some (entry_for t v (val @ d))\<rparr>)"
    using Cons.prems by (intro cdb_add_data_ok) auto
  with Cons.IH [of "db\<lparr>cd_in_progress := Some (entry_for t v (val @ d))\<rparr>" "val @ d"] Cons.prems(2)
  show ?case by simp
qed simp

section \<open>What every call keeps\<close>

definition entry_key :: "config_entry \<Rightarrow> slot_identifier \<times> int" where
  "entry_key e = (ce_target e, ce_var_id e)"

definition config_ok :: "config_db \<Rightarrow> bool" where
  "config_ok db \<longleftrightarrow>
     list_all (slot_ok \<circ> ce_target) (cd_entries db) \<and>
     distinct (map entry_key (filter ce_valid (cd_entries db))) \<and>
     (\<forall>e. cd_in_progress db = Some e \<longrightarrow> slot_ok (ce_target e) \<and> ce_valid e)"

lemma invalidate_valid:
  "filter ce_valid (invalidate_copies new es) = filter (\<lambda>e. entry_key e \<noteq> entry_key new) (filter ce_valid es)"
  by (induction es) (auto simp: invalidate_copies_def entry_key_def)

lemma invalidate_ok: "list_all (slot_ok \<circ> ce_target) es \<Longrightarrow> list_all (slot_ok \<circ> ce_target) (invalidate_copies new es)"
  by (auto simp: invalidate_copies_def list_all_iff)

lemma append_entry_ok:
  assumes "distinct (map entry_key (filter ce_valid es))"
  shows "distinct (map entry_key (filter ce_valid (invalidate_copies e es @ [e])))"
  using distinct_map_filter [OF assms, of "\<lambda>e'. entry_key e' \<noteq> entry_key e"]
  by (auto simp: invalidate_valid simp del: filter_filter)

lemma slot_of_encoded_ok: "slot_of_encoded b = Inr s \<Longrightarrow> slot_ok s"
  by (auto simp: slot_of_encoded_def new_slot_def slot_ok_def split: list.splits option.splits if_splits)

lemma config_ok_new: "config_ok (new_config_db c d)"
  by (simp add: config_ok_def new_config_db_def)

lemma config_ok_start:
  assumes "config_ok db" "slot_ok t"
  shows "config_ok (snd (start_entry t v db))"
  using assms
  by (cases v rule: pack_H_cases) (auto simp: start_entry_def config_ok_def new_config_entry_def Let_def)

lemma config_ok_add: "config_ok db \<Longrightarrow> config_ok (snd (cdb_add_data d db))"
  by (auto simp: cdb_add_data_def config_ok_def split: option.splits)

lemma config_ok_end: "config_ok db \<Longrightarrow> config_ok (snd (end_entry db))"
  using append_entry_ok [of "cd_entries db"] 
  by (auto simp: end_entry_def config_ok_def invalidate_ok simp del: filter_append map_append split: option.splits)

lemma config_ok_clear: "config_ok (config_clear db)"
  by (simp add: config_ok_def config_clear_def)

lemma config_ok_compact: "config_ok db \<Longrightarrow> config_ok (config_compact db)"
  by (auto simp: config_ok_def config_compact_def Let_def list_all_iff)

lemma config_ok_direct:
  assumes "config_ok db" "slot_ok t"
  shows "config_ok (snd (add_direct t v type_name x db))"
proof (cases "snd (add_direct t v type_name x db) = db")
  case False
  then obtain e where e: "cd_in_progress (snd (add_direct t v type_name x db)) = cd_in_progress db"
    "cd_entries (snd (add_direct t v type_name x db)) = invalidate_copies e (cd_entries db) @ [e]" "ce_target e = t"
    by (cases v rule: pack_H_cases; cases "convert_to_bytes type_name x")
      (auto simp: add_direct_def new_config_entry_def Let_def split: if_splits)
  with assms show ?thesis
    using append_entry_ok [of "cd_entries db" e] by (auto simp: config_ok_def invalidate_ok simp del: filter_append map_append)
qed (simp add: assms)

text \<open>Invalidating an entry of the list drops its key from those of the valid entries.\<close>

lemma invalidate_one:
  assumes "i < length es" "distinct (map entry_key (filter ce_valid es))"
  shows "distinct (map entry_key (filter ce_valid (es[i := (es ! i)\<lparr>ce_valid := False\<rparr>])))"
proof -
  let ?e = "(es ! i)\<lparr>ce_valid := False\<rparr>"
  have es: "es = take i es @ es ! i # drop (Suc i) es" using assms(1) by (rule id_take_nth_drop)
  have "filter ce_valid (es[i := ?e]) = filter ce_valid (take i es) @ filter ce_valid (drop (Suc i) es)"
    using assms(1) by (simp add: upd_conv_take_nth_drop)
  moreover have "filter ce_valid es =
      filter ce_valid (take i es) @ filter ce_valid [es ! i] @ filter ce_valid (drop (Suc i) es)"
    by (subst es) simp
  ultimately show ?thesis using assms(2) by auto
qed

lemma py_nth_mod:
  assumes "py_nth xs k = Inr x"
  shows "nat (k mod int (length xs)) < length xs" "x = xs ! nat (k mod int (length xs))"
proof -
  have "nat (k mod int (length xs)) < length xs \<and> x = xs ! nat (k mod int (length xs))"
  proof (cases "0 \<le> k")
    case True
    with assms show ?thesis by (auto simp: py_nth_def mod_pos_pos_trivial split: if_splits)
  next
    case False
    with assms have k: "nat (- k) \<le> length xs" "x = xs ! (length xs - nat (- k))" by (auto simp: py_nth_def split: if_splits)
    have "k mod int (length xs) = (k + int (length xs)) mod int (length xs)" by simp
    also have "\<dots> = k + int (length xs)" using k(1) False by (intro mod_pos_pos_trivial) auto
    finally show ?thesis using k False by (auto simp: nat_diff_distrib intro!: arg_cong [where f = "(!) xs"])
  qed
  then show "nat (k mod int (length xs)) < length xs" "x = xs ! nat (k mod int (length xs))" by auto
qed

lemma config_ok_invalidate:
  assumes "config_ok db"
  shows "config_ok (snd (invalidate_config_var_entry index db))"
proof (cases "py_nth (cd_entries db) (index - 1)")
  case (Inr entry)
  let ?i = "nat ((index - 1) mod int (length (cd_entries db)))"
  have i: "?i < length (cd_entries db)" "entry = cd_entries db ! ?i" using py_nth_mod [OF Inr] by auto
  have "list_all (slot_ok \<circ> ce_target) ((cd_entries db)[?i := entry\<lparr>ce_valid := False\<rparr>])"
    using assms i by (auto simp: config_ok_def list_all_length nth_list_update)
  then show ?thesis
    using assms Inr invalidate_one [of ?i "cd_entries db"] i
    by (auto simp: invalidate_config_var_entry_def config_ok_def)
qed (use assms in \<open>simp add: invalidate_config_var_entry_def\<close>)

lemma get_keeps:
  "snd (get_config_var_entry index db) = db" "snd (get_config_var_data index offset db) = db"
  "snd (count_config_var_entries db) = db" "snd (get_config_database_info db) = db"
  by (auto simp: get_config_var_entry_def get_config_var_data_def count_config_var_entries_def
    get_config_database_info_def bind_act_def split: sum.splits)

lemma config_ok_calls:
  assumes "config_ok db"
  shows "config_ok (snd (start_config_var_entry v sel db))" "config_ok (snd (continue_config_var_entry d db))"
    "config_ok (snd (end_config_var_entry db))" "config_ok (snd (clear_config_var_entries db))"
    "config_ok (snd (compact_config_database db))"
proof -
  show "config_ok (snd (start_config_var_entry v sel db))"
  proof (cases "slot_of_encoded sel")
    case (Inr t)
    then show ?thesis
      using config_ok_start [OF assms slot_of_encoded_ok [OF Inr], of v]
      by (cases "start_entry t v db"; cases "fst (start_entry t v db)") (auto simp: start_config_var_entry_def)
  qed (simp add: start_config_var_entry_def assms)
qed (use config_ok_add [OF assms, of d] config_ok_end [OF assms] config_ok_clear config_ok_compact [OF assms] in
  \<open>auto simp: continue_config_var_entry_def end_config_var_entry_def clear_config_var_entries_def
    compact_config_database_def split: prod.splits\<close>)

interpretation config_service: rpc_service config_functions config_ok
proof unfold_locales
  fix rpc_id af rf f db args
  assume "(rpc_id, af, rf, f) \<in> set config_functions" "config_ok db"
  then show "config_ok (snd (f args db))"
    by (auto simp: config_functions_def as_function_state get_keeps config_ok_calls config_ok_invalidate
      split: option.splits list.splits rpc_value.splits)
qed

section \<open>Streaming and dumping\<close>

lemma slot_ok_address: "slot_ok s \<Longrightarrow> \<exists>a. slot_address s = Inr a"
  by (erule slot_ok_cases) (simp_all add: slot_address_def)

lemma slot_ok_matches: "slot_ok s \<Longrightarrow> slot_matches s a = Inr (slot_address s = Inr a)"
  by (erule slot_ok_cases) (auto simp: slot_matches_def slot_address_def)

lemma slot_address_inj: "slot_ok s \<Longrightarrow> slot_ok t \<Longrightarrow> slot_address s = slot_address t \<Longrightarrow> s = t"
  by (erule slot_ok_cases; erule slot_ok_cases) (auto simp: slot_address_def)

lemma matching_ok:
  "list_all (slot_ok \<circ> ce_target) es \<Longrightarrow>
     matching_entries a es = Inr (filter (\<lambda>e. ce_valid e \<and> slot_address (ce_target e) = Inr a) es)"
  by (induction es) (auto simp: slot_ok_matches)

lemma matching_distinct:
  assumes "list_all (slot_ok \<circ> ce_target) es" "distinct (map entry_key (filter ce_valid es))"
  shows "distinct (map ce_var_id (filter (\<lambda>e. ce_valid e \<and> slot_address (ce_target e) = Inr a) es))"
proof -
  let ?m = "filter (\<lambda>e. slot_address (ce_target e) = Inr a) (filter ce_valid es)"
  have keys: "distinct (map entry_key ?m)" using assms(2) by (rule distinct_map_filter)
  have "inj_on ce_var_id (set ?m)"
  proof (rule inj_onI)
    fix x y assume xy: "x \<in> set ?m" "y \<in> set ?m" "ce_var_id x = ce_var_id y"
    have "slot_ok (ce_target x)" "slot_ok (ce_target y)" using assms(1) xy by (auto simp: list_all_iff)
    then have "ce_target x = ce_target y" by (rule slot_address_inj) (use xy in auto)
    with xy keys show "x = y" by (auto simp: distinct_map entry_key_def inj_on_def)
  qed
  moreover have "distinct ?m" using keys distinct_map by blast
  ultimately show ?thesis by (simp add: distinct_map conj_commute)
qed

lemma matching_compact: "matching_entries a (filter ce_valid es) = matching_entries a es"
proof (induction es)
  case (Cons e es)
  then show ?case by (cases "matching_entries a es") (auto split: if_splits)
qed simp

lemma entry_dump_inverse: "slot_ok (ce_target e) \<Longrightarrow> entry_restore (entry_to_dump e) = Inr e"
  by (cases e) (simp add: entry_to_dump_def entry_restore_def slot_text_inverse b64_roundtrip new_config_entry_def)

lemma entries_dump_inverse:
  "list_all (slot_ok \<circ> ce_target) es \<Longrightarrow> map_res entry_restore (map entry_to_dump es) = Inr es"
  by (induction es) (auto simp: entry_dump_inverse)

section \<open>Properties\<close>

text \<open>
  A config variable that is pushed in pieces is stored whole.  After \<open>start_entry\<close>, any number of
  \<open>add_data\<close> and \<open>end_entry\<close>, all of which report success, the database ends with one valid entry whose data
  are the number of the variable and the pieces in order; older entries for the same tile and variable are no
  longer valid.  Only each piece alone is compared with the room that was there at the start: the pieces together
  may be longer than the database.
\<close>

theorem config_store:
  assumes "0 \<le> v" "v < 65536" "cd_data_index db \<le> cd_data_size db" "concat chunks \<noteq> []"
    and "\<forall>d \<in> set chunks. int (length d) \<le> cd_data_size db - cd_data_index db - 2"
  shows "\<exists>db1. start_entry t v db = (Inr NO_ERROR, db1) \<and>
    (\<forall>n < length chunks. fst (cdb_add_data (chunks ! n) (fold (\<lambda>d. snd \<circ> cdb_add_data d) (take n chunks) db1)) = NO_ERROR) \<and>
    (let entry = new_config_entry t v (le_bytes 2 v @ concat chunks) True in
     end_entry (fold (\<lambda>d. snd \<circ> cdb_add_data d) chunks db1) =
       (NO_ERROR, db\<lparr>cd_entries := invalidate_copies entry (cd_entries db) @ [entry], cd_in_progress := None,
          cd_data_index := cd_data_index db + 2 + int (length (concat chunks))\<rparr>))"
proof -
  let ?db1 = "db\<lparr>cd_in_progress := Some (entry_for t v []), cd_data_index := cd_data_index db + 2\<rparr>"
  have room: "int (length d) \<le> cd_data_size ?db1 - cd_data_index ?db1" if "d \<in> set chunks" for d
    using bspec [OF assms(5) that] by simp
  have "fst (cdb_add_data (chunks ! n) (fold (\<lambda>d. snd \<circ> cdb_add_data d) (take n chunks) ?db1)) = NO_ERROR"
    if n: "n < length chunks" for n
  proof -
    have "fold (\<lambda>d. snd \<circ> cdb_add_data d) (take n chunks) ?db1 =
        ?db1\<lparr>cd_in_progress := Some (entry_for t v ([] @ concat (take n chunks)))\<rparr>"
      by (rule add_all) (use room in \<open>auto dest: in_set_takeD\<close>)
    with room [of "chunks ! n"] n show ?thesis by (simp add: cdb_add_data_ok)
  qed
  moreover have "fold (\<lambda>d. snd \<circ> cdb_add_data d) chunks ?db1 =
      ?db1\<lparr>cd_in_progress := Some (entry_for t v ([] @ concat chunks))\<rparr>"
    by (rule add_all) (use room in auto)
  ultimately show ?thesis
    using start_entry_ok [OF assms(1-3), of t] assms(4)
    by (auto simp: Let_def end_entry_def data_space_def entry_for_def new_config_entry_def)
qed

theorem config_store_witness:
  "\<exists>db1. start_entry \<lparr>controller = True, slot = None\<rparr> 5 (new_config_db 64 10) = (Inr NO_ERROR, db1) \<and>
     cd_data_index (snd (end_entry (fold (\<lambda>d. snd \<circ> cdb_add_data d) [replicate 8 1, replicate 8 2] db1))) = 18"
  using config_store [of 5 "new_config_db 64 10" "[replicate 8 1, replicate 8 2]" "\<lparr>controller = True, slot = None\<rparr>"]
  by (fastforce simp: new_config_db_def Let_def)

text \<open>
  C30: whatever calls clients send, with any numbers and any payloads, a tile is sent every variable at most
  once.  The entries that match an address are valid, their variables are different, and \<open>stream_matching\<close>
  does not raise.
\<close>

theorem config_unique:
  assumes "served config_functions (new_config_db c d) db"
  shows "\<exists>es. matching_entries a (cd_entries db) = Inr es \<and> distinct (map ce_var_id es) \<and> list_all ce_valid es \<and>
    stream_matching a db = Inr (concat (map (generate_rpcs a) es))"
proof -
  have "config_ok db" using config_service.served_ok [OF assms] config_ok_new by blast
  then show ?thesis
    using matching_ok matching_distinct by (auto simp: config_ok_def stream_matching_def list_all_iff)
qed

theorem config_unique_witness:
  "\<exists>es. matching_entries 8 (cd_entries (snd (dispatch_rpc (rpc_table config_functions) 0x2a0c [] (new_config_db 64 64)))) = Inr es
     \<and> distinct (map ce_var_id es)"
proof -
  have "served config_functions (new_config_db 64 64) (snd (dispatch_rpc (rpc_table config_functions) 0x2a0c [] (new_config_db 64 64)))"
    by (intro served.intros)
  from config_unique [OF this, of 8] show ?thesis by blast
qed

text \<open>
  Compacting the database does not change what is sent to any tile.  It leaves no invalid entry, and gives
  back exactly the space that \<open>get_config_database_info\<close> reports as invalid.
\<close>

theorem config_compact_keeps:
  "stream_matching a (config_compact db) = stream_matching a db \<and>
   list_all ce_valid (cd_entries (config_compact db)) \<and>
   (\<exists>used invalid n1 n2 limit. fst (get_config_database_info db) =
        Inr [Num (cd_data_size db), Num used, Num invalid, Num n1, Num n2, Num limit, Num 0] \<and>
      fst (get_config_database_info (config_compact db)) =
        Inr [Num (cd_data_size db), Num (used - invalid), Num 0, Num (n1 - n2), Num 0, Num limit, Num 0])"
  using sum_length_filter_compl [of ce_valid "cd_entries db"]
  by (auto simp: stream_matching_def config_compact_def matching_compact get_config_database_info_def list_all_iff
    space_of_def max_entries_def Let_def o_def)

text \<open>
  A database can be restored from its dump.  Whatever the database held before, \<open>restore\<close> of a dump gives
  the state that was dumped, for every state that calls can lead to.
\<close>

theorem config_dump_restore:
  assumes "served config_functions (new_config_db c d) db"
  shows "config_restore (config_to_dump db) db' = Inr db"
proof -
  have "config_ok db" using config_service.served_ok [OF assms] config_ok_new by blast
  then have "map_res entry_restore (map entry_to_dump (cd_entries db)) = Inr (cd_entries db)"
    using entries_dump_inverse by (simp add: config_ok_def)
  then show ?thesis by (simp add: config_restore_def config_to_dump_def restored_def)
qed

theorem config_dump_restore_witness:
  "config_restore (config_to_dump (snd (dispatch_rpc (rpc_table config_functions) 0x2a0c [] (new_config_db 64 64)))) (new_config_db 1 1)
     = Inr (snd (dispatch_rpc (rpc_table config_functions) 0x2a0c [] (new_config_db 64 64)))"
  by (rule config_dump_restore [OF served.call [OF served.start]])

text \<open>
  Refused calls.  When the database is overfull, \<open>start_entry\<close> answers an error but the entry stays in
  progress, so that \<open>end_entry\<close> invalidates the stored value of the variable and stores an entry without data.
  A refused \<open>add_data\<close> changes nothing.  \<open>end_entry\<close> without data is refused, and the entry stays in progress.
\<close>

theorem config_refusals:
  "(cd_data_size db < cd_data_index db \<longrightarrow>
      (let entry = new_config_entry t v [] True in
       \<exists>db1. start_entry t v db = (Inr DESTINATION_BUFFER_TOO_SMALL, db1) \<and>
         end_entry db1 = (NO_ERROR, db\<lparr>cd_entries := invalidate_copies entry (cd_entries db) @ [entry],
           cd_data_index := cd_data_index db - 2, cd_in_progress := None\<rparr>))) \<and>
   (int (length data) > cd_data_size db - cd_data_index db \<longrightarrow> cdb_add_data data db = (DESTINATION_BUFFER_TOO_SMALL, db)) \<and>
   (0 \<le> v \<and> v < 65536 \<and> cd_data_index db \<le> cd_data_size db \<longrightarrow>
      (\<exists>db1. start_entry t v db = (Inr NO_ERROR, db1) \<and> end_entry db1 = (INPUT_BUFFER_WRONG_SIZE, db1)))"
  by (auto simp: Let_def start_entry_def end_entry_def cdb_add_data_def new_config_entry_def data_space_def pack_H
    split: option.splits)

theorem config_refusals_witness:
  "\<exists>db1. start_entry \<lparr>controller = True, slot = None\<rparr> 5 (new_config_db 64 (- 1)) = (Inr DESTINATION_BUFFER_TOO_SMALL, db1)"
  using config_refusals [of "new_config_db 64 (- 1)" "\<lparr>controller = True, slot = None\<rparr>" 5 "[]"]
  by (auto simp: new_config_db_def Let_def)

lemma unpack_H: "length p = 2 \<Longrightarrow> unpack_rpc_payload ''H'' p = Inr [Num (le_int p)]"
  by (simp add: unpack_rpc_payload_def create_argcode_def py_endswith_def py_startswith_def lift_res_def struct_unpack_def
    dec_digit_def digit_val_def py_isspace_def code_fields_def int_code_def fields_width_def sign_value_def Let_def)

lemma pack_L_two: "pack_rpc_payload ''L'' [x, y] = Inl (OtherException StructError)"
  by (cases x) (simp_all add: pack_rpc_payload_def create_respcode_def py_endswith_def py_startswith_def lift_res_def struct_pack_def
    dec_digit_def digit_val_def py_isspace_def code_fields_def int_code_def Let_def)

text \<open>
  A failure to invalidate an entry does not reach the client as the documented error code.  For an index out
  of range or an entry that is no longer valid the method returns two values where its declaration has one, and
  the call raises; nothing changes.
\<close>

theorem config_invalidate_errors:
  assumes "length p = 2" "le_int p = 0 \<or> le_int p > int (length (cd_entries db)) \<or>
      \<not> ce_valid (cd_entries db ! nat (le_int p - 1))"
  shows "dispatch_rpc (rpc_table config_functions) 0x2a0e p db = (Inl RPCInvalidReturnValueError, db)"
proof -
  have "le_int p \<ge> 0" using le_int_bounds by blast
  then have "\<exists>x y. invalidate_config_var_entry (le_int p) db = (Inr [x, y], db)"
    using assms(2) by (auto simp: invalidate_config_var_entry_def py_nth_def)
  then show ?thesis
    using assms(1)
    by (auto simp: dispatch_rpc_def rpc_table_def new_dispatcher_def add_rpc_def config_functions_def rpc_executor_def
      unpack_H struct_error_as_def as_function_def pack_L_two)
qed

theorem config_invalidate_errors_witness:
  "dispatch_rpc (rpc_table config_functions) 0x2a0e [0, 0] (new_config_db 64 64) = (Inl RPCInvalidReturnValueError, new_config_db 64 64)"
  by (rule config_invalidate_errors) simp_all

end
