(* ===== verification/Tile_Config.thy ===== *)
theory Tile_Config
  imports Config_Database
begin

text \<open>
  The config variables of an emulated tile (\<open>emulate/virtual/emulated_tile.py\<close>): declaring them, setting them
  in pieces while the tile starts, and reading them as Python values.
\<close>

section \<open>Types of variables\<close>

definition TYPE_CODES :: "string \<Rightarrow> (char \<times> nat) option" where
  "TYPE_CODES name = map_of
     [(''uint8_t'', CHR ''B'', 1), (''char'', CHR ''B'', 1), (''int8_t'', CHR ''b'', 1), (''uint16_t'', CHR ''H'', 2),
      (''int16_t'', CHR ''h'', 2), (''uint32_t'', CHR ''L'', 4), (''int32_t'', CHR ''l'', 4)] name"

text \<open>The total size, the size of a unit, the code of a unit and whether it is an array.\<close>

definition parse_size_name :: "string \<Rightarrow> (int \<times> nat \<times> char \<times> bool) res" where
  "parse_size_name type_name =
     (let known = (\<lambda>base_type (count :: int) is_array.
            case TYPE_CODES base_type of
              None \<Rightarrow> Inl ArgumentError
            | Some (code, base_size) \<Rightarrow> Inr (int base_size * count, base_size, code, is_array)) in
      if CHR '' '' \<in> set type_name then Inl ArgumentError
      else if type_name = [] then Inl IndexError
      else if last type_name = CHR '']'' then
        if CHR ''['' \<notin> set type_name then Inl ArgumentError
        else let base_type = takeWhile (\<lambda>c. c \<noteq> CHR ''['') type_name in
          (case py_int0 (drop (length base_type + 1) (butlast type_name)) of
             None \<Rightarrow> Inl ValueError
           | Some count \<Rightarrow> known base_type count True)
      else known type_name 1 False)"

section \<open>Descriptors\<close>

text \<open>A default is nothing, text, \<open>bytes\<close>, a \<open>bytearray\<close>, a number or a list of numbers.\<close>

datatype config_default =
    NoDefault | TextDefault string | BytesDefault "byte list" | BytearrayDefault "byte list"
  | IntDefault int | ListDefault "int list"

record config_var =
  cv_id :: int
  cv_total_size :: int
  cv_unit_size :: nat
  cv_base_type :: char
  cv_variable :: bool
  cv_max_units :: int
  cv_type_name :: string
  cv_value :: "byte list"
  cv_special_type :: "string option"
  cv_default :: "byte list option"
  cv_name :: string

definition convert_default_value :: "char \<Rightarrow> string option \<Rightarrow> config_default \<Rightarrow> byte list option res" where
  "convert_default_value base_type special dflt =
     (let packed = (\<lambda>ns. bind_res (struct_pack (replicate (length ns) base_type) (map Num ns)) (\<lambda>b. Inr (Some b))) in
      case dflt of
        NoDefault \<Rightarrow> Inr None
      | TextDefault t \<Rightarrow> if special = Some ''string'' then Inr (Some (utf8 t @ [0])) else Inl DataError
      | BytesDefault b \<Rightarrow> Inr (Some (if special = Some ''string'' then b @ [0] else b))
      | BytearrayDefault b \<Rightarrow> Inr (Some b)
      | IntDefault n \<Rightarrow> packed [n]
      | ListDefault ns \<Rightarrow> packed ns)"

definition validate_python_type :: "bool \<Rightarrow> nat \<Rightarrow> string option \<Rightarrow> unit res" where
  "validate_python_type is_array unit_size python_type =
     (if python_type = Some ''bool'' then if is_array then Inl ArgumentError else Inr ()
      else if python_type = Some ''string'' then if is_array \<and> unit_size = 1 then Inr () else Inl ArgumentError
      else if python_type \<noteq> None then Inl ArgumentError
      else Inr ())"

definition unnamed_variable :: "int \<Rightarrow> string" where
  "unnamed_variable config_id = ''Unnamed variable '' @
     (if config_id < 0 then ''-0x'' else ''0x'') @ hex_digits (nat \<bar>config_id\<bar>)"

definition new_config_var ::
  "int \<Rightarrow> string \<Rightarrow> config_default \<Rightarrow> string option \<Rightarrow> string option \<Rightarrow> config_var res" where
  "new_config_var config_id type_name dflt name python_type =
     bind_res (parse_size_name type_name) (\<lambda>(total_size, unit_size, base_type, is_array).
     bind_res (convert_default_value base_type python_type dflt) (\<lambda>default_value.
     bind_res (validate_python_type is_array unit_size python_type) (\<lambda>_.
       Inr \<lparr>cv_id = config_id, cv_total_size = total_size, cv_unit_size = unit_size, cv_base_type = base_type,
            cv_variable = is_array, cv_max_units = total_size div int unit_size, cv_type_name = type_name,
            cv_value = [], cv_special_type = python_type, cv_default = default_value,
            cv_name = (case name of None \<Rightarrow> unnamed_variable config_id | Some n \<Rightarrow> n)\<rparr>)))"

definition clear_value :: "config_var \<Rightarrow> config_var" where
  "clear_value v = v\<lparr>cv_value := (case cv_default v of None \<Rightarrow> [] | Some b \<Rightarrow> b)\<rparr>"

definition update_value :: "nat \<Rightarrow> byte list \<Rightarrow> config_var \<Rightarrow> int \<times> config_var" where
  "update_value offset val v =
     (if int (offset + length val) > cv_total_size v then (INPUT_BUFFER_TOO_LONG, v)
      else let extended = (if length (cv_value v) < offset
                 then cv_value v @ replicate (offset - length (cv_value v)) 0 else cv_value v);
               cut = (if length extended > offset then take offset extended else extended) in
        (0, v\<lparr>cv_value := cut @ val\<rparr>))"

text \<open>Text is a list of code points.\<close>

datatype latched = LatchedInt int | LatchedBool bool | LatchedList "int list" | LatchedText "nat list"

definition num_of :: "rpc_value \<Rightarrow> int" where
  "num_of v = (case v of Num n \<Rightarrow> n | _ \<Rightarrow> 0)"

definition latch_var :: "config_var \<Rightarrow> (latched, config_var) act" where
  "latch_var v =
     (if cv_value v = [] then (Inl DataError, v)
      else let remaining = length (cv_value v) mod cv_unit_size v;
               v1 = (if remaining > 0 then v\<lparr>cv_value := cv_value v @ replicate remaining 0\<rparr> else v) in
        if cv_special_type v1 = Some ''string'' then
          if last (cv_value v1) \<noteq> 0 then (Inl DataError, v1)
          else (case utf8_decode (butlast (cv_value v1)) of
                  None \<Rightarrow> (Inl ValueError, v1)
                | Some t \<Rightarrow> (Inr (LatchedText t), v1))
        else
          bind_act (struct_unpack (replicate (length (cv_value v1) div cv_unit_size v1) (cv_base_type v1)) (cv_value v1), v1)
            (\<lambda>vals v1.
              let data = map num_of vals in
              if cv_variable v1 then (Inr (LatchedList data), v1)
              else bind_act (py_nth data 0, v1) (\<lambda>d v1.
                if cv_special_type v1 = Some ''bool'' then (Inr (LatchedBool (d \<noteq> 0)), v1) else (Inr (LatchedInt d), v1))))"

section \<open>Tiles\<close>

text \<open>
  The variables are a dictionary in the order of declaration.  \<open>initialized\<close> is the event that the tile has
  started.
\<close>

record tile =
  tile_name :: "byte list"
  tile_vars :: "(int \<times> config_var) list"
  tile_initialized :: bool

definition new_tile :: "byte list \<Rightarrow> tile" where
  "new_tile name = \<lparr>tile_name = name, tile_vars = [], tile_initialized = False\<rparr>"

text \<open>\<open>d[key] = value\<close> on a dictionary in the order of insertion.\<close>

fun dict_set :: "'k \<Rightarrow> 'v \<Rightarrow> ('k \<times> 'v) list \<Rightarrow> ('k \<times> 'v) list" where
  "dict_set k v [] = [(k, v)]"
| "dict_set k v ((k', v') # d) = (if k' = k then (k, v) # d else (k', v') # dict_set k v d)"

definition declare_config_variable ::
  "string \<Rightarrow> int \<Rightarrow> string \<Rightarrow> config_default \<Rightarrow> string option \<Rightarrow> tile \<Rightarrow> (unit, tile) act" where
  "declare_config_variable name config_id type_name dflt convert t =
     bind_act (new_config_var config_id type_name dflt (Some name) convert, t) (\<lambda>v t.
       (Inr (), t\<lparr>tile_vars := dict_set config_id v (tile_vars t)\<rparr>))"

definition reset_config_variables :: "tile \<Rightarrow> tile" where
  "reset_config_variables t = t\<lparr>tile_vars := map (\<lambda>(k, v). (k, clear_value v)) (tile_vars t)\<rparr>"

fun latch_all :: "(int \<times> config_var) list \<Rightarrow> (string \<times> latched) list \<Rightarrow>
    ((string \<times> latched) list, (int \<times> config_var) list) act" where
  "latch_all [] values = (Inr values, [])"
| "latch_all ((k, v) # vars) values =
     (case latch_var v of
        (Inl e, v1) \<Rightarrow> (Inl e, (k, v1) # vars)
      | (Inr x, v1) \<Rightarrow>
          (case latch_all vars (dict_set (cv_name v1) x values) of (r, vars1) \<Rightarrow> (r, (k, v1) # vars1)))"

definition latch_config_variables :: "tile \<Rightarrow> ((string \<times> latched) list, tile) act" where
  "latch_config_variables t =
     (case latch_all (tile_vars t) [] of (r, vars) \<Rightarrow> (r, t\<lparr>tile_vars := vars\<rparr>))"

text \<open>
  The dump has the variables by their numbers; \<open>restore_state\<close> converts the keys with \<open>int\<close>, since JSON makes
  them text.
\<close>

definition tile_dump_state :: "tile \<Rightarrow> (int \<times> string) list" where
  "tile_dump_state t = map (\<lambda>(k, v). (k, b64encode (cv_value v))) (tile_vars t)"

fun tile_restore_state :: "(int \<times> string) list \<Rightarrow> tile \<Rightarrow> (unit, tile) act" where
  "tile_restore_state [] t = (Inr (), t)"
| "tile_restore_state ((k, s) # state) t =
     bind_act (b64decode s, t) (\<lambda>b t.
       case map_of (tile_vars t) k of
         None \<Rightarrow> tile_restore_state state t
       | Some v \<Rightarrow> tile_restore_state state (t\<lparr>tile_vars := dict_set k (v\<lparr>cv_value := b\<rparr>) (tile_vars t)\<rparr>))"

definition tile_handle_reset :: "tile \<Rightarrow> tile" where
  "tile_handle_reset t = reset_config_variables (t\<lparr>tile_initialized := False\<rparr>)"

section \<open>Remote procedure calls\<close>

definition list_config_variables :: "int \<Rightarrow> tile \<Rightarrow> (rpc_value list, tile) act" where
  "list_config_variables offset t =
     (let names = take 9 (drop (nat offset) (sort (map fst (tile_vars t))));
          count = length names in
      (Inr (Num (int count) # map Num (names @ replicate (9 - count) 0)), t))"

definition describe_config_variable :: "int \<Rightarrow> tile \<Rightarrow> (rpc_value list, tile) act" where
  "describe_config_variable config_id t =
     (case map_of (tile_vars t) config_id of
        None \<Rightarrow> (Inr [Num INVALID_ARRAY_KEY, Num 0, Num 0, Num 0, Num 0], t)
      | Some v \<Rightarrow>
          let packed_size = cv_total_size v OR push_bit 15 (if cv_variable v then 1 else 0) in
          (Inr [Num 0, Num 0, Num 0, Num config_id, Num packed_size], t))"

definition set_config_variable :: "int \<Rightarrow> int \<Rightarrow> byte list \<Rightarrow> tile \<Rightarrow> (rpc_value list, tile) act" where
  "set_config_variable config_id offset val t =
     (if tile_initialized t then (Inr [Num STATE_CHANGE_AT_INVALID_TIME], t)
      else case map_of (tile_vars t) config_id of
        None \<Rightarrow> (Inr [Num INVALID_ARRAY_KEY], t)
      | Some v \<Rightarrow>
          (case update_value (nat offset) val v of
             (err, v1) \<Rightarrow> (Inr [Num err], t\<lparr>tile_vars := dict_set config_id v1 (tile_vars t)\<rparr>)))"

definition get_config_variable :: "int \<Rightarrow> int \<Rightarrow> tile \<Rightarrow> (rpc_value list, tile) act" where
  "get_config_variable config_id offset t =
     (case map_of (tile_vars t) config_id of
        None \<Rightarrow> (Inr [Raw []], t)
      | Some v \<Rightarrow> (Inr [Raw (take 20 (drop (nat offset) (cv_value v)))], t))"

definition tile_status :: "tile \<Rightarrow> (rpc_value list, tile) act" where
  "tile_status t =
     (let status = push_bit 1 1 OR push_bit 0 1 in
      (Inr [Num 0xFFFF, Raw (tile_name t), Num 1, Num 0, Num 0, Num status], t))"

text \<open>The reset call never answers: it resets the tile and raises.\<close>

definition reset_rpc :: "rpc_value list \<Rightarrow> tile \<Rightarrow> (rpc_value list option rpc_res) \<times> tile" where
  "reset_rpc args t = (if args = [] then (Inl TileNotFoundError, tile_handle_reset t) else (Inl (OtherException PyTypeError), t))"

definition tile_functions :: "tile rpc_declaration list" where
  "tile_functions =
     [(1, '''', '''', reset_rpc),
      (4, '''', ''H6s3BB'', as_function (\<lambda>args. case args of [] \<Rightarrow> Some tile_status | _ \<Rightarrow> None)),
      (10, ''H'', ''H9H'', as_function (\<lambda>args. case args of [Num offset] \<Rightarrow> Some (list_config_variables offset) | _ \<Rightarrow> None)),
      (11, ''H'', ''HHLHH'', as_function (\<lambda>args. case args of [Num i] \<Rightarrow> Some (describe_config_variable i) | _ \<Rightarrow> None)),
      (12, ''HHV'', ''H'', as_function (\<lambda>args. case args of
         [Num i, Num offset, Raw val] \<Rightarrow> Some (set_config_variable i offset val) | _ \<Rightarrow> None)),
      (13, ''HH'', ''V'', as_function (\<lambda>args. case args of
         [Num i, Num offset] \<Rightarrow> Some (get_config_variable i offset) | _ \<Rightarrow> None))]"

section \<open>Dictionaries\<close>

lemma map_of_dict_set: "map_of (dict_set k v d) = (map_of d)(k \<mapsto> v)"
  by (induction k v d rule: dict_set.induct) (auto simp: fun_eq_iff)

lemma keys_dict_set: "k \<in> fst ` set d \<Longrightarrow> map fst (dict_set k v d) = map fst d"
  by (induction k v d rule: dict_set.induct) auto

lemma map_of_clear: "map_of (tile_vars (reset_config_variables t)) i = map_option clear_value (map_of (tile_vars t) i)"
  by (simp add: reset_config_variables_def map_of_map)

section \<open>Receiving a variable\<close>

text \<open>The calls of a list, sent to a tile one after the other; the answers are not looked at.\<close>

definition receive :: "config_rpc \<Rightarrow> tile \<Rightarrow> tile" where
  "receive rpc t = (case rpc of (address, i, offset, val) \<Rightarrow> snd (set_config_variable i (int offset) val t))"

text \<open>
  What becomes of a variable to which a value is streamed: a value that is too long is cut after the last piece
  of 16 bytes that fits.
\<close>

definition delivered :: "byte list \<Rightarrow> config_var \<Rightarrow> config_var" where
  "delivered val v =
     (if val = [] then v
      else if int (length val) \<le> cv_total_size v then v\<lparr>cv_value := val\<rparr>
      else if cv_total_size v < 16 then v
      else v\<lparr>cv_value := take (nat (cv_total_size v) div 16 * 16) val\<rparr>)"

lemma update_value_ok:
  assumes "offset \<le> length (cv_value v)" "int (offset + length d) \<le> cv_total_size v"
  shows "update_value offset d v = (0, v\<lparr>cv_value := take offset (cv_value v) @ d\<rparr>)"
  using assms by (simp add: update_value_def Let_def)

text \<open>The pieces of 16 bytes of a value with their offsets.\<close>

function pieces :: "nat \<Rightarrow> byte list \<Rightarrow> (nat \<times> byte list) list" where
  "pieces k d = (if d = [] then [] else (k, take 16 d) # pieces (k + 16) (drop 16 d))"
  by auto
termination by (relation "measure (\<lambda>(k, d). length d)") auto

declare pieces.simps [simp del]

lemma pieces_range:
  "2 \<le> s \<Longrightarrow> map (\<lambda>offset. (offset - 2, take 16 (drop offset data))) (py_range s (length data) 16) = pieces (s - 2) (drop s data)"
proof (induction "drop s data" arbitrary: s rule: length_induct)
  case (1 s)
  show ?case
  proof (cases "s < length data")
    case True
    have "map (\<lambda>offset. (offset - 2, take 16 (drop offset data))) (py_range (s + 16) (length data) 16) =
        pieces (s + 16 - 2) (drop (s + 16) data)"
      using 1(1) [rule_format, of "drop (s + 16) data" "s + 16"] 1(2) True by simp
    with True 1(2) show ?thesis by (subst py_range.simps, subst pieces.simps) (simp add: add.commute)
  next
    case False
    then show ?thesis by (simp add: py_range.simps pieces.simps)
  qed
qed

definition write_piece :: "nat \<times> byte list \<Rightarrow> config_var \<Rightarrow> config_var" where
  "write_piece p v = snd (update_value (fst p) (snd p) v)"

lemma write_piece_refused: "int (k + length d) > cv_total_size v \<Longrightarrow> write_piece (k, d) v = v"
  by (simp add: write_piece_def update_value_def)

lemma pieces_refused: "cv_total_size v < int k \<Longrightarrow> fold write_piece (pieces k d) v = v"
proof (induction k d rule: pieces.induct)
  case (1 k d)
  then show ?case by (subst pieces.simps) (simp add: write_piece_refused)
qed

lemma write_pieces:
  assumes "d \<noteq> []" "k \<le> length (cv_value v)"
  shows "fold write_piece (pieces k d) v =
    (if int (k + length d) \<le> cv_total_size v then v\<lparr>cv_value := take k (cv_value v) @ d\<rparr>
     else if cv_total_size v < int (k + 16) then v
     else v\<lparr>cv_value := take k (cv_value v) @ take (nat ((cv_total_size v - int k) div 16) * 16) d\<rparr>)"
  using assms
proof (induction k d arbitrary: v rule: pieces.induct)
  case (1 k d)
  let ?c = "take 16 d" and ?T = "cv_total_size v"
  have step: "fold write_piece (pieces k d) v = fold write_piece (pieces (k + 16) (drop 16 d)) (write_piece (k, ?c) v)"
    using 1(2) by (subst pieces.simps) simp
  show ?case
  proof (cases "int (k + length ?c) \<le> ?T")
    case False
    have "fold write_piece (pieces (k + 16) (drop 16 d)) v = v"
    proof (cases "drop 16 d = []")
      case True
      then show ?thesis by (simp add: pieces.simps)
    qed (rule pieces_refused, use False in auto)
    then show ?thesis unfolding step write_piece_refused [OF False [unfolded not_le]] using False by auto
  next
    case True
    define v1 where "v1 = v\<lparr>cv_value := take k (cv_value v) @ ?c\<rparr>"
    have piece: "write_piece (k, ?c) v = v1"
      using update_value_ok [OF 1(3) True] by (simp add: write_piece_def v1_def)
    show ?thesis
    proof (cases "drop 16 d = []")
      case True
      then show ?thesis unfolding step piece using \<open>int (k + length ?c) \<le> ?T\<close> by (simp add: pieces.simps v1_def)
    next
      case False
      then have c: "length ?c = 16" by simp
      have old: "take (k + 16) (cv_value v1) = take k (cv_value v) @ ?c" "k + 16 \<le> length (cv_value v1)"
        "cv_total_size v1 = ?T" using 1(3) c by (simp_all add: v1_def)
      have IH: "fold write_piece (pieces (k + 16) (drop 16 d)) v1 =
        (if int (k + 16 + length (drop 16 d)) \<le> ?T then v1\<lparr>cv_value := (take k (cv_value v) @ ?c) @ drop 16 d\<rparr>
         else if ?T < int (k + 16 + 16) then v1
         else v1\<lparr>cv_value := (take k (cv_value v) @ ?c) @
                take (nat ((?T - int (k + 16)) div 16) * 16) (drop 16 d)\<rparr>)"
        using 1(1) [OF 1(2) False old(2)] by (simp only: old)
      have len: "int (k + 16 + length (drop 16 d)) = int (k + length d)" using False by simp
      have "?T \<ge> int (k + 16)" using True c by simp
      then have n: "nat ((?T - int k) div 16) = Suc (nat ((?T - int (k + 16)) div 16))"
        by (simp add: diff_diff_eq [symmetric] div_pos_geq)
      have cut: "take (nat ((?T - int k) div 16) * 16) d = ?c @ take (nat ((?T - int (k + 16)) div 16) * 16) (drop 16 d)"
        unfolding n by (simp add: take_add)
      have one: "nat ((?T - int (k + 16)) div 16) = 0" if "?T < int (k + 16 + 16)"
        using that \<open>?T \<ge> int (k + 16)\<close> by simp
      show ?thesis
        unfolding step piece IH len cut using one \<open>?T \<ge> int (k + 16)\<close> by (auto simp: v1_def)
    qed
  qed
qed

lemma write_all: "fold write_piece (pieces 0 val) v = delivered val v"
proof (cases "val = []")
  case False
  have "nat (cv_total_size v div 16) = nat (cv_total_size v) div 16" by (simp add: nat_div_distrib')
  with write_pieces [OF False, of 0 v] False show ?thesis by (simp add: delivered_def)
qed (simp add: pieces.simps delivered_def)

text \<open>What one call, and all the calls for an entry, do to the variables of a tile that is starting.\<close>

lemma receive_vars:
  assumes "\<not> tile_initialized t"
  shows "\<not> tile_initialized (receive (a, i, k, d) t)"
    "map_of (tile_vars (receive (a, i, k, d) t)) j =
      (if j = i then map_option (write_piece (k, d)) (map_of (tile_vars t) j) else map_of (tile_vars t) j)"
  using assms
  by (auto simp: receive_def set_config_variable_def write_piece_def map_of_dict_set split: option.splits prod.splits)

lemma generate_pieces:
  assumes "length (ce_data e) \<ge> 2"
  shows "generate_rpcs a e = map (\<lambda>(k, d). (a, ce_var_id e, k, d)) (pieces 0 (drop 2 (ce_data e)))"
  by (simp add: generate_rpcs_def pieces_range [of 2 "ce_data e", simplified, symmetric] o_def)

lemma receive_pieces:
  assumes "\<not> tile_initialized t"
  shows "\<not> tile_initialized (fold receive (map (\<lambda>(k, d). (a, i, k, d)) ps) t) \<and>
    map_of (tile_vars (fold receive (map (\<lambda>(k, d). (a, i, k, d)) ps) t)) j =
      (if j = i then map_option (fold write_piece ps) (map_of (tile_vars t) j) else map_of (tile_vars t) j)"
  using assms
proof (induction ps arbitrary: t)
  case (Cons p ps)
  obtain k d where p: "p = (k, d)" by (cases p)
  note step = receive_vars [OF Cons.prems, of a i k d]
  show ?case using Cons.IH [OF step(1)] p step(2) [of j] by (auto simp: option.map_comp o_def)
qed (simp add: option.map_id)

lemma generate_short: "length (ce_data e) \<le> 2 \<Longrightarrow> generate_rpcs a e = []"
  by (simp add: generate_rpcs_def py_range.simps)

lemma write_all_fun: "fold write_piece (pieces 0 val) = delivered val"
  by (rule ext) (rule write_all)

lemma receive_entry:
  assumes "\<not> tile_initialized t"
  shows "\<not> tile_initialized (fold receive (generate_rpcs a e) t) \<and>
    map_of (tile_vars (fold receive (generate_rpcs a e) t)) j =
      (if j = ce_var_id e then map_option (delivered (drop 2 (ce_data e))) (map_of (tile_vars t) j)
       else map_of (tile_vars t) j)"
proof (cases "length (ce_data e) \<ge> 2")
  case True
  then show ?thesis
    using receive_pieces [OF assms, of a "ce_var_id e" "pieces 0 (drop 2 (ce_data e))" j]
    by (simp add: generate_pieces write_all_fun)
next
  case False
  then have "delivered (drop 2 (ce_data e)) = (\<lambda>v. v)" by (simp add: delivered_def fun_eq_iff)
  with False assms show ?thesis by (simp add: generate_short option.map_ident)
qed

lemma receive_entries:
  assumes "\<not> tile_initialized t" "distinct (map ce_var_id es)"
  shows "\<not> tile_initialized (fold receive (concat (map (generate_rpcs a) es)) t) \<and>
    map_of (tile_vars (fold receive (concat (map (generate_rpcs a) es)) t)) j =
      (case find (\<lambda>e. ce_var_id e = j) es of
         None \<Rightarrow> map_of (tile_vars t) j
       | Some e \<Rightarrow> map_option (delivered (drop 2 (ce_data e))) (map_of (tile_vars t) j))"
  using assms
proof (induction es arbitrary: t)
  case (Cons e es)
  let ?t = "fold receive (generate_rpcs a e) t"
  have e: "\<not> tile_initialized ?t" "map_of (tile_vars ?t) j =
      (if j = ce_var_id e then map_option (delivered (drop 2 (ce_data e))) (map_of (tile_vars t) j)
       else map_of (tile_vars t) j)"
    using receive_entry [OF Cons.prems(1)] by auto
  have "find (\<lambda>e. ce_var_id e = j) es = None" if "ce_var_id e = j"
    using that Cons.prems(2) by (auto simp: find_None_iff) (metis image_eqI)
  with Cons.IH [OF e(1)] Cons.prems(2) e(2) show ?case
    by (cases "ce_var_id e = j"; cases "find (\<lambda>e. ce_var_id e = j) es") simp_all
qed simp

lemma find_filter: "find P (filter Q xs) = find (\<lambda>x. Q x \<and> P x) xs"
  by (induction xs) auto

lemma delivered_all:
  assumes "config_ok db" "stream_matching a db = Inr rpcs" "map_of (tile_vars t) i = Some v"
  shows "map_of (tile_vars (fold receive rpcs (tile_handle_reset t))) i = Some
    (case find (\<lambda>e. ce_valid e \<and> slot_address (ce_target e) = Inr a \<and> ce_var_id e = i) (cd_entries db) of
       None \<Rightarrow> clear_value v
     | Some e \<Rightarrow> delivered (drop 2 (ce_data e)) (clear_value v))"
proof -
  define es where "es = filter (\<lambda>e. ce_valid e \<and> slot_address (ce_target e) = Inr a) (cd_entries db)"
  have rpcs: "rpcs = concat (map (generate_rpcs a) es)" and dist: "distinct (map ce_var_id es)"
    using assms(1,2) matching_ok [of "cd_entries db" a] matching_distinct [of "cd_entries db" a]
    by (auto simp: config_ok_def stream_matching_def es_def)
  have "find (\<lambda>e. ce_var_id e = i) es =
      find (\<lambda>e. ce_valid e \<and> slot_address (ce_target e) = Inr a \<and> ce_var_id e = i) (cd_entries db)"
    by (simp add: es_def find_filter conj_assoc)
  moreover have "\<not> tile_initialized (tile_handle_reset t)"
    "map_of (tile_vars (tile_handle_reset t)) i = Some (clear_value v)"
    using assms(3) by (simp_all add: tile_handle_reset_def map_of_clear, simp add: reset_config_variables_def)
  ultimately show ?thesis
    using receive_entries [of "tile_handle_reset t" es a i] dist rpcs by (simp split: option.splits)
qed

section \<open>Properties\<close>

text \<open>
  C7: config variables reach their tile.  Take any database that calls can lead to, and a tile that resets and
  is sent everything that \<open>stream_matching\<close> gives for its address.  Afterwards each variable of the tile has the
  value of the valid entry for this tile and variable, and its default when there is none.  A value that is too
  long for the variable is cut to the pieces that fit.
\<close>

theorem config_delivered:
  assumes "served config_functions (new_config_db c d) db" "stream_matching a db = Inr rpcs"
    and "map_of (tile_vars t) i = Some v"
  shows "map_of (tile_vars (fold receive rpcs (tile_handle_reset t))) i = Some
    (case find (\<lambda>e. ce_valid e \<and> slot_address (ce_target e) = Inr a \<and> ce_var_id e = i) (cd_entries db) of
       None \<Rightarrow> clear_value v
     | Some e \<Rightarrow> delivered (drop 2 (ce_data e)) (clear_value v))"
  using delivered_all [OF _ assms(2,3)] config_service.served_ok [OF assms(1) config_ok_new] by blast

theorem config_delivered_witness:
  "\<exists>v. new_config_var 5 ''uint8_t'' (IntDefault 9) None None = Inr v \<and>
     map_of (tile_vars (fold receive [(8, 5, 0, [7])] (tile_handle_reset \<lparr>tile_name = [], tile_vars = [(5, v)], tile_initialized = True\<rparr>))) 5
       = Some (v\<lparr>cv_value := [7]\<rparr>)"
proof -
  let ?call = "\<lambda>i p db. snd (dispatch_rpc (rpc_table config_functions) i p db)"
  let ?db = "?call 0x2a09 [] (?call 0x2a08 [7] (?call 0x2a07 [5, 0, 0, 0, 0, 0, 0, 0, 0, 2] (new_config_db 64 64)))"
  have served: "served config_functions (new_config_db 64 64) ?db" by (intro served.intros)
  have stored: "stream_matching 8 ?db = Inr [(8, 5, 0, [7])]"
    "find (\<lambda>e. ce_valid e \<and> slot_address (ce_target e) = Inr 8 \<and> ce_var_id e = 5) (cd_entries ?db) =
       Some (new_config_entry \<lparr>controller = True, slot = None\<rparr> 5 [5, 0, 7] True)"
    by code_simp+
  let ?var = "new_config_var 5 ''uint8_t'' (IntDefault 9) None None"
  define v where "v = projr ?var"
  have v: "?var = Inr v" "cv_total_size v = 1" unfolding v_def by code_simp+
  show ?thesis
    using config_delivered [OF served stored(1), of "\<lparr>tile_name = [], tile_vars = [(5, v)], tile_initialized = True\<rparr>" 5 v] v
    by (simp add: stored(2) new_config_entry_def delivered_def clear_value_def)
qed

section \<open>Latching\<close>

lemma type_code_int:
  "TYPE_CODES name = Some (c, n) \<Longrightarrow> \<exists>neg. int_code c = Some (n, neg)"
  unfolding TYPE_CODES_def by (drule map_of_SomeD, auto) (simp add: int_code_def, blast)+

lemma int_code_plain:
  "int_code c = Some (n, neg) \<Longrightarrow> n > 0 \<and> dec_digit c = None \<and> \<not> py_isspace c \<and> code_fields None c = Some [IntField n neg]"
  by (auto simp: int_code_def dec_digit_def digit_val_def py_isspace_def code_fields_def split: if_splits)

lemma parse_units:
  "int_code c = Some (n, neg) \<Longrightarrow> struct_parse None (replicate k c) = Some (replicate k (IntField n neg))"
  by (induction k) (auto simp: int_code_plain)

lemma fitted_units: "length ns = k \<Longrightarrow> fitted (replicate k (IntField n neg)) (map Num ns) = map Num ns"
  by (induction ns arbitrary: k) auto

lemma unpack_units:
  "length b = k * n \<Longrightarrow> \<exists>ns. unpack_values (replicate k (IntField n neg)) b = map Num ns \<and> length ns = k"
proof (induction k arbitrary: b)
  case (Suc k)
  then have "length (drop n b) = k * n" by simp
  from Suc.IH [OF this] obtain ns where "unpack_values (replicate k (IntField n neg)) (drop n b) = map Num ns" "length ns = k"
    by blast
  then show ?case by (intro exI [of _ "sign_value n neg (le_int (take n b)) # ns"]) simp
qed simp

lemma width_units: "fields_width (replicate k (IntField n neg)) = k * n"
  by (simp add: fields_width_def sum_list_replicate)

lemma num_of_map: "num_of (Num n) = n" "num_of \<circ> Num = id"
  by (simp_all add: num_of_def fun_eq_iff)

lemma whole_iff: "(x :: nat) = x div u * u \<longleftrightarrow> x mod u = 0"
  by (metis add_cancel_right_right div_mult_mod_eq)

text \<open>Latching a variable whose data consist of whole units.\<close>

lemma latch_units:
  assumes "int_code (cv_base_type v) = Some (cv_unit_size v, neg)" "cv_value v \<noteq> []"
    and "cv_special_type v \<noteq> Some ''string''" "length (cv_value v) = k * cv_unit_size v"
    and "struct_unpack (replicate k (cv_base_type v)) (cv_value v) = Inr (map Num ns)" "length ns = k"
  shows "latch_var v = (Inr (if cv_variable v then LatchedList ns
      else if cv_special_type v = Some ''bool'' then LatchedBool (hd ns \<noteq> 0) else LatchedInt (hd ns)), v)"
proof -
  have "cv_unit_size v > 0" using int_code_plain [OF assms(1)] by simp
  moreover have "k > 0" using assms(2,4) by (cases k) auto
  moreover from this have "ns \<noteq> []" using assms(6) by auto
  ultimately show ?thesis
    using assms by (simp add: latch_var_def num_of_map py_nth_def hd_conv_nth Let_def)
qed

lemma packed_units:
  assumes "int_code c = Some (n, neg)" "struct_pack (replicate (length ns) c) (map Num ns) = Inr b"
  shows "length b = length ns * n" "struct_unpack (replicate (length ns) c) b = Inr (map Num ns)"
  using struct_unpack_packed [OF parse_units [OF assms(1)] assms(2)] by (simp_all add: width_units fitted_units)

lemma new_config_var_type:
  assumes "new_config_var i type_name dflt name python_type = Inr v"
  obtains neg where "int_code (cv_base_type v) = Some (cv_unit_size v, neg)"
    "cv_special_type v = python_type" "convert_default_value (cv_base_type v) python_type dflt = Inr (cv_default v)"
    "validate_python_type (cv_variable v) (cv_unit_size v) python_type = Inr ()"
proof -
  obtain total u c arr d where p: "parse_size_name type_name = Inr (total, u, c, arr)"
    "convert_default_value c python_type dflt = Inr d" "validate_python_type arr u python_type = Inr ()"
    "cv_base_type v = c" "cv_unit_size v = u" "cv_special_type v = python_type" "cv_default v = d" "cv_variable v = arr"
    using assms by (auto simp: new_config_var_def bind_res_Inr_iff)
  have "\<exists>nm. TYPE_CODES nm = Some (c, u)"
    using p(1) by (auto simp: parse_size_name_def Let_def split: if_splits option.splits)
  then obtain neg where "int_code c = Some (u, neg)" using type_code_int by blast
  with p that show ?thesis by simp
qed

section \<open>Properties of latching\<close>

text \<open>
  A tile reads the default values that were declared.  After a reset, latching a variable gives the declared
  number, truth value, list of numbers or text, and a \<open>DataError\<close> when there is no default.
\<close>

theorem defaults_latched:
  assumes "new_config_var i type_name dflt name python_type = Inr v"
  shows "case dflt of
      NoDefault \<Rightarrow> fst (latch_var (clear_value v)) = Inl DataError
    | TextDefault t \<Rightarrow> latch_var (clear_value v) = (Inr (LatchedText (map of_char t)), clear_value v)
    | IntDefault n \<Rightarrow> python_type \<noteq> Some ''string'' \<longrightarrow>
        latch_var (clear_value v) =
          (Inr (if cv_variable v then LatchedList [n]
                else if python_type = Some ''bool'' then LatchedBool (n \<noteq> 0) else LatchedInt n), clear_value v)
    | ListDefault ns \<Rightarrow> python_type \<noteq> Some ''string'' \<longrightarrow> cv_variable v \<longrightarrow> ns \<noteq> [] \<longrightarrow>
        latch_var (clear_value v) = (Inr (LatchedList ns), clear_value v)
    | _ \<Rightarrow> True"
proof -
  obtain neg where v: "int_code (cv_base_type v) = Some (cv_unit_size v, neg)"
    "cv_special_type v = python_type" "convert_default_value (cv_base_type v) python_type dflt = Inr (cv_default v)"
    "validate_python_type (cv_variable v) (cv_unit_size v) python_type = Inr ()"
    using new_config_var_type [OF assms] by blast
  have units: "latch_var (clear_value v) = (Inr (if cv_variable v then LatchedList ns
      else if python_type = Some ''bool'' then LatchedBool (hd ns \<noteq> 0) else LatchedInt (hd ns)), clear_value v)"
    if b: "struct_pack (replicate (length ns) (cv_base_type v)) (map Num ns) = Inr b" "cv_default v = Some b" "ns \<noteq> []"
      and p: "python_type \<noteq> Some ''string''" for ns b
  proof -
    have "cv_unit_size v > 0" using int_code_plain [OF v(1)] by simp
    with packed_units [OF v(1) b(1)] b(3) have "b \<noteq> []" by auto
    with packed_units [OF v(1) b(1)] b(2) p v show ?thesis
      using latch_units [of "clear_value v" neg "length ns" ns] by (simp add: clear_value_def)
  qed
  show ?thesis
  proof (cases dflt)
    case (TextDefault t)
    with v have "cv_default v = Some (utf8 t @ [0])" "python_type = Some ''string''" "cv_unit_size v = 1"
      by (auto simp: convert_default_value_def validate_python_type_def split: if_splits)
    with TextDefault v(2) show ?thesis by (simp add: latch_var_def clear_value_def utf8_decode_utf8)
  next
    case (IntDefault n)
    with v(3) obtain b where b: "struct_pack (replicate (length [n]) (cv_base_type v)) (map Num [n]) = Inr b" "cv_default v = Some b"
      by (auto simp: convert_default_value_def bind_res_Inr_iff)
    from units [OF b] IntDefault show ?thesis by auto
  next
    case (ListDefault ns)
    with v(3) obtain b where b: "struct_pack (replicate (length ns) (cv_base_type v)) (map Num ns) = Inr b" "cv_default v = Some b"
      by (auto simp: convert_default_value_def bind_res_Inr_iff)
    from units [OF b] ListDefault show ?thesis by auto
  qed (use v(3) in \<open>auto simp: convert_default_value_def latch_var_def clear_value_def\<close>)
qed

theorem defaults_latched_witness:
  "latch_var (clear_value (projr (new_config_var 5 ''uint16_t[3]'' (ListDefault [7, 513]) None None))) =
     (Inr (LatchedList [7, 513]), clear_value (projr (new_config_var 5 ''uint16_t[3]'' (ListDefault [7, 513]) None None)))"
proof -
  let ?var = "new_config_var 5 ''uint16_t[3]'' (ListDefault [7, 513]) None None"
  have "?var = Inr (projr ?var)" "cv_variable (projr ?var)" by code_simp+
  with defaults_latched [of 5 "''uint16_t[3]''" "ListDefault [7, 513]" None None "projr ?var"] show ?thesis by simp
qed

text \<open>
  The padding of incomplete data is wrong.  Data that do not end on a unit boundary are filled with as many
  zeros as there are bytes beyond the last boundary, not up to the next one.  So latching succeeds only when
  half a unit or nothing is missing; one or three bytes of a four byte unit raise a \<open>struct.error\<close>.
\<close>

theorem latch_padding:
  assumes "int_code (cv_base_type v) = Some (cv_unit_size v, neg)" "cv_value v \<noteq> []" "cv_special_type v \<noteq> Some ''string''"
  shows "if 2 * (length (cv_value v) mod cv_unit_size v) mod cv_unit_size v = 0
    then \<exists>x. fst (latch_var v) = Inr x else fst (latch_var v) = Inl StructError"
proof -
  let ?u = "cv_unit_size v" and ?r = "length (cv_value v) mod cv_unit_size v"
  define v1 where "v1 = v\<lparr>cv_value := cv_value v @ replicate ?r 0\<rparr>"
  have u: "?u > 0" using int_code_plain [OF assms(1)] by simp
  have "length (cv_value v1) = length (cv_value v) div ?u * ?u + 2 * ?r"
    using div_mult_mod_eq [of "length (cv_value v)" ?u] by (simp add: v1_def)
  then have rem: "length (cv_value v1) mod ?u = 2 * ?r mod ?u" by simp
  have whole: "\<exists>x. fst (latch_var w) = Inr x"
    if w: "int_code (cv_base_type w) = Some (cv_unit_size w, neg)" "cv_value w \<noteq> []" "cv_special_type w \<noteq> Some ''string''"
      "length (cv_value w) mod cv_unit_size w = 0" for w
  proof -
    let ?k = "length (cv_value w) div cv_unit_size w"
    have len: "length (cv_value w) = ?k * cv_unit_size w" using w(4) by auto
    obtain ns where ns: "unpack_values (replicate ?k (IntField (cv_unit_size w) neg)) (cv_value w) = map Num ns" "length ns = ?k"
      using unpack_units [OF len] by blast
    then have "struct_unpack (replicate ?k (cv_base_type w)) (cv_value w) = Inr (map Num ns)"
      using len by (simp add: struct_unpack_def parse_units [OF w(1)] width_units)
    from latch_units [OF w(1-3) len this ns(2)] show ?thesis by simp
  qed
  show ?thesis
  proof (cases "?r = 0")
    case True
    then show ?thesis using whole [OF assms True] by simp
  next
    case False
    have "latch_var v = (if length (cv_value v1) mod ?u = 0 then latch_var v1 else (Inl StructError, v1))"
      using False assms(2,3) parse_units [OF assms(1)]
      by (auto simp: latch_var_def Let_def v1_def struct_unpack_def width_units whole_iff)
    moreover have "\<exists>x. fst (latch_var v1) = Inr x" if "length (cv_value v1) mod ?u = 0"
      using whole [of v1] assms that by (simp add: v1_def)
    ultimately show ?thesis using rem by simp
  qed
qed

theorem latch_padding_witness:
  "fst (latch_var ((projr (new_config_var 5 ''uint32_t'' NoDefault None None))\<lparr>cv_value := [1]\<rparr>)) = Inl StructError"
proof -
  let ?v = "(projr (new_config_var 5 ''uint32_t'' NoDefault None None))\<lparr>cv_value := [1]\<rparr>"
  have "int_code (cv_base_type ?v) = Some (cv_unit_size ?v, False)" "cv_value ?v \<noteq> []" "cv_special_type ?v \<noteq> Some ''string''"
    "2 * (length (cv_value ?v) mod cv_unit_size ?v) mod cv_unit_size ?v \<noteq> 0"
    by code_simp+
  with latch_padding [of ?v False] show ?thesis by simp
qed

end
