(* ===== verification/Tile_Manager.thy ===== *)
theory Tile_Manager
  imports Tile_Config
begin

text \<open>
  How tiles register with the emulated controller and are configured and started
  (\<open>controller_features/tile_manager.py\<close>, \<open>emulate/virtual/peripheral_tile.py\<close>).
\<close>

section \<open>State of the controller\<close>

abbreviation (input) SAFE_MODE_LEVEL :: int where "SAFE_MODE_LEVEL \<equiv> 2"
abbreviation (input) START_ON_COMMAND :: int where "START_ON_COMMAND \<equiv> 1"
abbreviation (input) TILE_INVALID :: int where "TILE_INVALID \<equiv> 0"
abbreviation (input) JUST_REGISTERED :: int where "JUST_REGISTERED \<equiv> 1"
abbreviation (input) BEING_CONFIGURED :: int where "BEING_CONFIGURED \<equiv> 2"
abbreviation (input) RUNNING :: int where "RUNNING \<equiv> 3"
abbreviation (input) SAFE_MODE :: int where "SAFE_MODE \<equiv> 4"

text \<open>
  The information about tiles are shared objects: the list of registered tiles and the queue of the background
  task refer to them, by their position in \<open>tm_store\<close>.
\<close>

record tile_info =
  ti_hw_type :: int
  ti_name :: rpc_value
  ti_api :: "int \<times> int"
  ti_fw :: "int \<times> int \<times> int"
  ti_exec :: "int \<times> int \<times> int"
  ti_slot :: int
  ti_unique_id :: int
  ti_state :: int
  ti_address :: "int option"

record tile_manager =
  tm_store :: "tile_info list"
  tm_registered :: "nat list"
  tm_safe_mode :: bool
  tm_debug_mode :: bool
  tm_queue :: "(nat \<times> config_rpc list) list"
  tm_initialized :: bool

definition registration_packet :: "tile_info \<Rightarrow> rpc_value list" where
  "registration_packet info =
     (case (ti_api info, ti_fw info, ti_exec info) of
        ((a0, a1), (f0, f1, f2), (e0, e1, e2)) \<Rightarrow>
          [Num (ti_hw_type info), Num a0, Num a1, ti_name info, Num f0, Num f1, Num f2, Num e0, Num e0, Num e0,
           Num (ti_slot info), Num (ti_unique_id info)])"

definition invalid_info :: tile_info where
  "invalid_info =
     \<lparr>ti_hw_type = 0, ti_name = Text (replicate 6 (char_of (0 :: nat))), ti_api = (0, 0), ti_fw = (0, 0, 0),
      ti_exec = (0, 0, 0), ti_slot = 0, ti_unique_id = 0, ti_state = TILE_INVALID, ti_address = None\<rparr>"

text \<open>The first tile in the list with the slot of the new one is replaced; otherwise the new one is added.\<close>

fun replace_slot :: "tile_info list \<Rightarrow> nat \<Rightarrow> nat list \<Rightarrow> nat list" where
  "replace_slot store new [] = [new]"
| "replace_slot store new (r # rs) =
     (if ti_slot (store ! r) = ti_slot (store ! new) then new # rs else r # replace_slot store new rs)"

definition insert_tile :: "nat \<Rightarrow> tile_manager \<Rightarrow> tile_manager" where
  "insert_tile new tm = tm\<lparr>tm_registered := replace_slot (tm_store tm) new (tm_registered tm)\<rparr>"

text \<open>A new object for the information about a tile.\<close>

definition new_info :: "tile_info \<Rightarrow> tile_manager \<Rightarrow> nat \<times> tile_manager" where
  "new_info info tm = (length (tm_store tm), tm\<lparr>tm_store := tm_store tm @ [info]\<rparr>)"

definition set_info_state :: "nat \<Rightarrow> int \<Rightarrow> tile_manager \<Rightarrow> tile_manager" where
  "set_info_state r st tm = tm\<lparr>tm_store := (tm_store tm)[r := (tm_store tm ! r)\<lparr>ti_state := st\<rparr>]\<rparr>"

definition new_tile_manager_state :: tile_manager where
  "new_tile_manager_state =
     \<lparr>tm_store = [], tm_registered = [], tm_safe_mode = False, tm_debug_mode = False, tm_queue = [],
      tm_initialized = False\<rparr>"

text \<open>The controller registers itself in slot 0.\<close>

definition new_tile_manager ::
  "int \<Rightarrow> byte list \<Rightarrow> int \<times> int \<Rightarrow> int \<times> int \<times> int \<Rightarrow> int \<times> int \<times> int \<Rightarrow> tile_manager" where
  "new_tile_manager hw name api fw exec =
     (case new_info \<lparr>ti_hw_type = hw, ti_name = Raw name, ti_api = api, ti_fw = fw, ti_exec = exec, ti_slot = 0,
         ti_unique_id = 0, ti_state = RUNNING, ti_address = None\<rparr> new_tile_manager_state of
        (r, tm) \<Rightarrow> insert_tile r tm)"

definition tm_clear_to_reset :: "tile_manager \<Rightarrow> tile_manager" where
  "tm_clear_to_reset tm =
     tm\<lparr>tm_initialized := False, tm_registered := take 1 (tm_registered tm), tm_safe_mode := False,
        tm_debug_mode := False\<rparr>"

section \<open>Dumps\<close>

record info_dump =
  id_hw_type :: int
  id_name :: string
  id_api :: "int \<times> int"
  id_fw :: "int \<times> int \<times> int"
  id_exec :: "int \<times> int \<times> int"
  id_slot :: int
  id_unique_id :: int
  id_state :: int
  id_address :: "int option"

record tile_manager_dump =
  td_registered :: "info_dump list"
  td_safe_mode :: bool
  td_debug_mode :: bool

definition info_to_dump :: "tile_info \<Rightarrow> info_dump res" where
  "info_to_dump info =
     (case ti_name info of
        Raw b \<Rightarrow> Inr \<lparr>id_hw_type = ti_hw_type info, id_name = b64encode b, id_api = ti_api info, id_fw = ti_fw info,
            id_exec = ti_exec info, id_slot = ti_slot info, id_unique_id = ti_unique_id info,
            id_state = ti_state info, id_address = ti_address info\<rparr>
      | _ \<Rightarrow> Inl PyTypeError)"

definition info_restore :: "info_dump \<Rightarrow> tile_info res" where
  "info_restore d =
     bind_res (b64decode (id_name d)) (\<lambda>name.
       Inr \<lparr>ti_hw_type = id_hw_type d, ti_name = Raw name, ti_api = id_api d, ti_fw = id_fw d, ti_exec = id_exec d,
            ti_slot = id_slot d, ti_unique_id = id_unique_id d, ti_state = id_state d, ti_address = id_address d\<rparr>)"

definition tm_dump :: "tile_manager \<Rightarrow> tile_manager_dump res" where
  "tm_dump tm =
     bind_res (map_res (\<lambda>r. info_to_dump (tm_store tm ! r)) (tm_registered tm)) (\<lambda>infos.
       Inr \<lparr>td_registered = infos, td_safe_mode = tm_safe_mode tm, td_debug_mode = tm_debug_mode tm\<rparr>)"

text \<open>The restored objects are new; the queue keeps those it has.\<close>

definition tm_restore :: "tile_manager_dump \<Rightarrow> tile_manager \<Rightarrow> tile_manager res" where
  "tm_restore d tm =
     bind_res (map_res info_restore (td_registered d)) (\<lambda>infos.
       Inr (tm\<lparr>tm_store := tm_store tm @ infos,
               tm_registered := map ((+) (length (tm_store tm))) [0..<length infos],
               tm_safe_mode := td_safe_mode d, tm_debug_mode := td_debug_mode d\<rparr>))"

section \<open>Remote procedure calls\<close>

text \<open>The methods work on the tile manager and the config database of the controller.\<close>

type_synonym tile_controller = "tile_manager \<times> config_db"

definition register_tile ::
  "int \<Rightarrow> int \<times> int \<Rightarrow> byte list \<Rightarrow> int \<times> int \<times> int \<Rightarrow> int \<times> int \<times> int \<Rightarrow> int \<Rightarrow> int \<Rightarrow> tile_controller \<Rightarrow>
   (rpc_value list, tile_controller) act" where
  "register_tile hw api name fw exec sl unique_id c =
     (let (tm, db) = c;
          address = 10 + sl;
          (r, tm1) = new_info \<lparr>ti_hw_type = hw, ti_name = Raw name, ti_api = api, ti_fw = fw, ti_exec = exec,
            ti_slot = sl, ti_unique_id = unique_id, ti_state = JUST_REGISTERED, ti_address = Some address\<rparr> tm;
          tm2 = insert_tile r tm1;
          debug = (if tm_debug_mode tm2 then 1 else 0);
          queued = (\<lambda>run_level tm3 rpcs.
            (Inr [Num address, Num run_level, Num debug], tm3\<lparr>tm_queue := tm_queue tm3 @ [(r, rpcs)]\<rparr>, db)) in
      if tm_safe_mode tm2 then queued SAFE_MODE_LEVEL (set_info_state r SAFE_MODE tm2) []
      else let tm3 = set_info_state r BEING_CONFIGURED tm2 in
        bind_act (stream_matching address db, (tm3, db)) (\<lambda>rpcs _. queued START_ON_COMMAND tm3 rpcs))"

definition count_tiles :: "tile_controller \<Rightarrow> (rpc_value list, tile_controller) act" where
  "count_tiles c = (Inr [Num (int (length (tm_registered (fst c))))], c)"

definition describe_tile :: "int \<Rightarrow> tile_controller \<Rightarrow> (rpc_value list, tile_controller) act" where
  "describe_tile index c =
     (let tm = fst c in
      if index \<ge> int (length (tm_registered tm)) then (Inr (registration_packet invalid_info), c)
      else bind_act (py_nth (tm_registered tm) index, c) (\<lambda>r c.
        (Inr (registration_packet (tm_store tm ! r)), c)))"

text \<open>The twelve arguments of a registration: three numbers, the name and eight numbers.\<close>

fun num_args :: "rpc_value list \<Rightarrow> int list option" where
  "num_args [] = Some []"
| "num_args (Num n # args) = map_option ((#) n) (num_args args)"
| "num_args (_ # args) = None"

definition register_args :: "rpc_value list \<Rightarrow> (tile_controller \<Rightarrow> (rpc_value list, tile_controller) act) option" where
  "register_args args =
     (case (num_args (take 3 args), drop 3 args) of
        (Some [hw, a0, a1], Raw name # rest) \<Rightarrow>
          (case num_args rest of
             Some [f0, f1, f2, e0, e1, e2, sl, uid] \<Rightarrow>
               Some (register_tile hw (a0, a1) name (f0, f1, f2) (e0, e1, e2) sl uid)
           | _ \<Rightarrow> None)
      | _ \<Rightarrow> None)"

definition tile_manager_functions :: "tile_controller rpc_declaration list" where
  "tile_manager_functions =
     [(0x2a00, ''3B6s6BBL'', ''HHH'', as_function register_args),
      (0x2a01, '''', ''H'', as_function (\<lambda>args. case args of [] \<Rightarrow> Some count_tiles | _ \<Rightarrow> None)),
      (0x2a02, ''H'', ''3B6s6BBL'', as_function (\<lambda>args. case args of
         [Num index] \<Rightarrow> Some (describe_tile index) | _ \<Rightarrow> None))]"

section \<open>The background task\<close>

text \<open>
  The calls that the task makes to tiles.  Other tasks run while it waits for the answer, so a call may change
  the tile manager too.  The answers are not looked at; an exception ends the task for good.
\<close>

datatype tile_call = SetVariable config_rpc | StartApplication "int option"

type_synonym 'd await_call = "tile_call \<Rightarrow> tile_manager \<times> 'd \<Rightarrow> unit rpc_res \<times> (tile_manager \<times> 'd)"

fun send_calls :: "'d await_call \<Rightarrow> tile_call list \<Rightarrow> tile_manager \<times> 'd \<Rightarrow> unit rpc_res \<times> (tile_manager \<times> 'd)" where
  "send_calls await [] w = (Inr (), w)"
| "send_calls await (c # cs) w = bind_act (await c w) (\<lambda>_. send_calls await cs)"

text \<open>One round of the loop, when the queue is not empty.\<close>

definition tm_round :: "'d await_call \<Rightarrow> tile_manager \<times> 'd \<Rightarrow> unit rpc_res \<times> (tile_manager \<times> 'd)" where
  "tm_round await w =
     (case tm_queue (fst w) of
        [] \<Rightarrow> (Inr (), w)
      | (r, rpcs) # rest \<Rightarrow>
          let w1 = ((fst w)\<lparr>tm_queue := rest\<rparr>, snd w) in
          bind_act (send_calls await (map SetVariable rpcs) w1) (\<lambda>_ w2.
          bind_act (await (StartApplication (ti_address (tm_store (fst w2) ! r))) w2) (\<lambda>_ w3.
            (Inr (), (set_info_state r RUNNING (fst w3), snd w3)))))"

section \<open>Peripheral tiles\<close>

text \<open>
  A tile with its executive: the events of the start, the mode and the run level that the controller answered.
\<close>

record peripheral =
  pt_tile :: tile
  pt_registered :: bool
  pt_start_received :: bool
  pt_app_running :: bool
  pt_debug_mode :: bool
  pt_run_level :: "int option"

definition new_peripheral :: "byte list \<Rightarrow> peripheral" where
  "new_peripheral name =
     \<lparr>pt_tile = new_tile name, pt_registered = False, pt_start_received = False, pt_app_running = False,
      pt_debug_mode = False, pt_run_level = None\<rparr>"

definition pt_handle_reset :: "peripheral \<Rightarrow> peripheral" where
  "pt_handle_reset p =
     p\<lparr>pt_registered := False, pt_start_received := False, pt_app_running := False,
       pt_tile := tile_handle_reset (pt_tile p)\<rparr>"

text \<open>
  The main task in three parts: the answer of the registration, the start call, and going on when nothing is to
  be waited for.  The application of the base class only reports that it is initialized.
\<close>

definition pt_answered :: "int \<Rightarrow> int \<Rightarrow> peripheral \<Rightarrow> peripheral" where
  "pt_answered run_level debug p =
     (let p1 = p\<lparr>pt_debug_mode := (debug \<noteq> 0), pt_run_level := Some run_level, pt_registered := True\<rparr> in
      if run_level = SAFE_MODE_LEVEL then p1\<lparr>pt_tile := (pt_tile p1)\<lparr>tile_initialized := True\<rparr>\<rparr> else p1)"

definition start_application :: "rpc_value list \<Rightarrow> peripheral \<Rightarrow> (rpc_value list option rpc_res) \<times> peripheral" where
  "start_application args p =
     (if args = [] then (Inr None, p\<lparr>pt_start_received := True\<rparr>) else (Inl (OtherException PyTypeError), p))"

definition pt_continue :: "peripheral \<Rightarrow> peripheral" where
  "pt_continue p =
     (if pt_registered p \<and> pt_run_level p \<noteq> Some SAFE_MODE_LEVEL \<and>
         (pt_run_level p = Some START_ON_COMMAND \<longrightarrow> pt_start_received p)
      then p\<lparr>pt_app_running := True, pt_tile := (pt_tile p)\<lparr>tile_initialized := True\<rparr>\<rparr>
      else p)"

record peripheral_dump =
  pd_vars :: "(int \<times> string) list"
  pd_app_started :: bool
  pd_debug_mode :: bool
  pd_run_level :: "int option"

definition pt_dump_state :: "peripheral \<Rightarrow> peripheral_dump" where
  "pt_dump_state p =
     \<lparr>pd_vars = tile_dump_state (pt_tile p), pd_app_started = pt_app_running p, pd_debug_mode = pt_debug_mode p,
      pd_run_level = pt_run_level p\<rparr>"

definition pt_restore_state :: "peripheral_dump \<Rightarrow> peripheral \<Rightarrow> (unit, peripheral) act" where
  "pt_restore_state d p =
     (case tile_restore_state (pd_vars d) (pt_tile p) of
        (Inl e, t) \<Rightarrow> (Inl e, p\<lparr>pt_tile := t\<rparr>)
      | (Inr _, t) \<Rightarrow>
          (Inr (), p\<lparr>pt_tile := t, pt_debug_mode := pd_debug_mode d, pt_run_level := pd_run_level d,
                     pt_app_running := (pd_app_started d \<or> pt_app_running p)\<rparr>))"

section \<open>The list of registered tiles\<close>

definition slot_at :: "tile_info list \<Rightarrow> nat \<Rightarrow> int" where
  "slot_at store r = ti_slot (store ! r)"

definition tiles_ok :: "tile_controller \<Rightarrow> bool" where
  "tiles_ok c \<longleftrightarrow>
     (\<forall>r \<in> set (tm_registered (fst c)) \<union> fst ` set (tm_queue (fst c)). r < length (tm_store (fst c))) \<and>
     distinct (map (slot_at (tm_store (fst c))) (tm_registered (fst c))) \<and> config_ok (snd c)"

lemma replace_slot_set:
  "set (replace_slot store new rs) \<subseteq> insert new (set rs)" "new \<in> set (replace_slot store new rs)"
  by (induction rs) auto

lemma replace_slot_slots:
  "slot_at store ` set (replace_slot store new rs) = insert (slot_at store new) (slot_at store ` set rs)"
  by (induction rs) (auto simp: slot_at_def)

lemma replace_slot_distinct:
  "distinct (map (slot_at store) rs) \<Longrightarrow> distinct (map (slot_at store) (replace_slot store new rs))"
  by (induction rs) (auto simp: replace_slot_slots, auto simp: slot_at_def)

lemma replace_slot_length: "length rs \<le> length (replace_slot store new rs)"
  by (induction rs) auto

lemma slot_at_append: "r < length store \<Longrightarrow> slot_at (store @ new) r = slot_at store r"
  by (simp add: slot_at_def nth_append)

lemma slot_at_state: "slot_at (tm_store (set_info_state r st tm)) q = slot_at (tm_store tm) q"
  by (cases "r < length (tm_store tm)") (auto simp: set_info_state_def slot_at_def nth_list_update list_update_beyond)

lemma set_info_state_simps [simp]:
  "tm_registered (set_info_state r st tm) = tm_registered tm" "tm_queue (set_info_state r st tm) = tm_queue tm"
  "length (tm_store (set_info_state r st tm)) = length (tm_store tm)"
  "tm_safe_mode (set_info_state r st tm) = tm_safe_mode tm" "tm_debug_mode (set_info_state r st tm) = tm_debug_mode tm"
  by (simp_all add: set_info_state_def)

text \<open>What a registration does to the tile manager, in both modes, whether or not it raises.\<close>

lemma register_tile_state:
  assumes "snd (register_tile hw api name fw exec sl uid (tm, db)) = (tm', db')"
  obtains info st queued where "ti_slot info = sl"
    "tm' = (set_info_state (length (tm_store tm)) st
       (insert_tile (length (tm_store tm)) (tm\<lparr>tm_store := tm_store tm @ [info]\<rparr>)))\<lparr>tm_queue := tm_queue tm @ queued\<rparr>"
    "fst ` set queued \<subseteq> {length (tm_store tm)}" "db' = db"
proof -
  define info where "info = \<lparr>ti_hw_type = hw, ti_name = Raw name, ti_api = api, ti_fw = fw, ti_exec = exec, ti_slot = sl,
    ti_unique_id = uid, ti_state = JUST_REGISTERED, ti_address = Some (10 + sl)\<rparr>"
  let ?tm = "\<lambda>st. set_info_state (length (tm_store tm)) st
       (insert_tile (length (tm_store tm)) (tm\<lparr>tm_store := tm_store tm @ [info]\<rparr>))"
  have queue: "tm_queue (insert_tile r t) = tm_queue t" "tm_safe_mode (insert_tile r t) = tm_safe_mode t" for r t
    by (simp_all add: insert_tile_def)
  have same: "(?tm st)\<lparr>tm_queue := tm_queue tm @ []\<rparr> = ?tm st" for st
    by (simp add: set_info_state_def insert_tile_def)
  consider "tm' = (?tm SAFE_MODE)\<lparr>tm_queue := tm_queue tm @ [(length (tm_store tm), [])]\<rparr>"
    | rpcs where "tm' = (?tm BEING_CONFIGURED)\<lparr>tm_queue := tm_queue tm @ [(length (tm_store tm), rpcs)]\<rparr>"
    | "tm' = ?tm BEING_CONFIGURED"
    using assms by (cases "stream_matching (10 + sl) db")
      (auto simp: register_tile_def new_info_def Let_def queue simp flip: info_def split: if_splits)
  moreover have "db' = db"
    using assms by (cases "stream_matching (10 + sl) db") (auto simp: register_tile_def new_info_def Let_def split: if_splits)
  moreover have "ti_slot info = sl" by (simp add: info_def)
  ultimately show ?thesis
  proof cases
    case 1
    with that \<open>db' = db\<close> \<open>ti_slot info = sl\<close> show ?thesis by force
  next
    case (2 rpcs)
    with that \<open>db' = db\<close> \<open>ti_slot info = sl\<close> show ?thesis by force
  next
    case 3
    show ?thesis
      by (rule that [of info "[]" BEING_CONFIGURED]) (use 3 same \<open>db' = db\<close> \<open>ti_slot info = sl\<close> in simp_all)
  qed
qed

lemma register_keeps:
  assumes "tiles_ok c"
  shows "tiles_ok (snd (register_tile hw api name fw exec sl uid c))"
    "length (tm_registered (fst c)) \<le> length (tm_registered (fst (snd (register_tile hw api name fw exec sl uid c))))"
proof -
  obtain tm db where c: "c = (tm, db)" by (cases c)
  obtain tm' db' where res: "snd (register_tile hw api name fw exec sl uid (tm, db)) = (tm', db')"
    by (cases "snd (register_tile hw api name fw exec sl uid (tm, db))")
  let ?n = "length (tm_store tm)"
  obtain info st queued where tm': "tm' = (set_info_state ?n st
       (insert_tile ?n (tm\<lparr>tm_store := tm_store tm @ [info]\<rparr>)))\<lparr>tm_queue := tm_queue tm @ queued\<rparr>"
    "fst ` set queued \<subseteq> {?n}" "db' = db"
    using register_tile_state [OF res] by metis
  have slots: "distinct (map (slot_at (tm_store tm @ [info])) (tm_registered tm))"
    using assms c by (auto simp: tiles_ok_def slot_at_append cong: map_cong)
  have reg: "tm_registered tm' = replace_slot (tm_store tm @ [info]) ?n (tm_registered tm)"
    "slot_at (tm_store tm') = slot_at (tm_store tm @ [info])"
    "tm_queue tm' = tm_queue tm @ queued" "length (tm_store tm') = Suc ?n"
    using slot_at_state [of ?n st "insert_tile ?n (tm\<lparr>tm_store := tm_store tm @ [info]\<rparr>)"]
    by (simp_all add: tm'(1) insert_tile_def fun_eq_iff)
  have "r < Suc ?n" if "r \<in> set (tm_registered tm')" for r
    using that replace_slot_set(1) [of "tm_store tm @ [info]" ?n "tm_registered tm"] assms c
    by (auto simp: reg tiles_ok_def intro: less_SucI)
  moreover have "r < Suc ?n" if "r \<in> fst ` set (tm_queue tm')" for r
  proof -
    have "r \<in> fst ` set (tm_queue tm) \<or> r = ?n" using that tm'(2) by (auto simp: reg)
    with assms c show ?thesis by (auto simp: tiles_ok_def intro: less_SucI)
  qed
  moreover have "distinct (map (slot_at (tm_store tm')) (tm_registered tm'))"
    using replace_slot_distinct [OF slots] by (simp add: reg)
  moreover have "config_ok db'" using assms c tm'(3) by (simp add: tiles_ok_def)
  ultimately show "tiles_ok (snd (register_tile hw api name fw exec sl uid c))"
    by (auto simp: tiles_ok_def c res reg(4))
  show "length (tm_registered (fst c)) \<le> length (tm_registered (fst (snd (register_tile hw api name fw exec sl uid c))))"
    by (simp add: c res reg replace_slot_length)
qed

lemma describe_keeps: "snd (describe_tile index c) = c" "snd (count_tiles c) = c"
  by (auto simp: describe_tile_def count_tiles_def bind_act_def Let_def split: sum.splits)

text \<open>The invariant together with a lower bound on the number of tiles.\<close>

lemma register_keeps_both:
  "tiles_ok c \<Longrightarrow> n \<le> length (tm_registered (fst c)) \<Longrightarrow>
     tiles_ok (snd (register_tile hw api name fw exec sl uid c)) \<and>
     n \<le> length (tm_registered (fst (snd (register_tile hw api name fw exec sl uid c))))"
  using register_keeps [of c hw api name fw exec sl uid] by linarith

lemma register_args_Some:
  "register_args args = Some g \<Longrightarrow> \<exists>hw api name fw exec sl uid. g = register_tile hw api name fw exec sl uid"
  unfolding register_args_def
  by (auto split: option.splits list.splits rpc_value.splits simp del: split_paired_Ex) blast

interpretation tile_service: rpc_service tile_manager_functions
  "\<lambda>c. tiles_ok c \<and> n \<le> length (tm_registered (fst c))" for n
proof unfold_locales
  fix rpc_id af rf f c args
  assume "(rpc_id, af, rf, f) \<in> set tile_manager_functions" "tiles_ok c \<and> n \<le> length (tm_registered (fst c))"
  moreover have "tiles_ok (snd (g c)) \<and> n \<le> length (tm_registered (fst (snd (g c))))"
    if "register_args args = Some g" for g
    using register_args_Some [OF that] register_keeps_both calculation(2) by blast
  ultimately show "tiles_ok (snd (f args c)) \<and> n \<le> length (tm_registered (fst (snd (f args c))))"
    by (auto simp: tile_manager_functions_def as_function_state describe_keeps
      split: option.splits list.splits rpc_value.splits)
qed

section \<open>Booting a tile\<close>

text \<open>
  The calls of the background task to one peripheral tile, when no other task changes the tile manager and the
  tile answers.
\<close>

definition call_peripheral :: "peripheral await_call" where
  "call_peripheral c w =
     (case c of
        SetVariable rpc \<Rightarrow> (Inr (), (fst w, (snd w)\<lparr>pt_tile := receive rpc (pt_tile (snd w))\<rparr>))
      | StartApplication addr \<Rightarrow> (Inr (), (fst w, snd (start_application [] (snd w)))))"

lemma send_variables:
  "send_calls call_peripheral (map SetVariable rpcs) (tm, p) = (Inr (), (tm, p\<lparr>pt_tile := fold receive rpcs (pt_tile p)\<rparr>))"
  by (induction rpcs arbitrary: p) (simp_all add: call_peripheral_def)

lemma registered_state:
  assumes "r < length (tm_store tm)" "r \<in> set (tm_registered tm)"
  shows "r \<in> set (tm_registered (set_info_state r st tm)) \<and> ti_state (tm_store (set_info_state r st tm) ! r) = st"
  using assms by (simp add: set_info_state_def)

text \<open>A registration at an idle controller, outside safe mode.\<close>

lemma register_idle:
  assumes "\<not> tm_safe_mode tm" "tm_queue tm = []" "stream_matching (10 + sl) db = Inr rpcs"
  obtains tm1 where "register_tile hw api name fw exec sl uid (tm, db) =
      (Inr [Num (10 + sl), Num START_ON_COMMAND, Num (if tm_debug_mode tm then 1 else 0)], (tm1, db))"
    "tm_queue tm1 = [(length (tm_store tm), rpcs)]" "length (tm_store tm) < length (tm_store tm1)"
    "length (tm_store tm) \<in> set (tm_registered tm1)" "ti_slot (tm_store tm1 ! length (tm_store tm)) = sl"
  using assms replace_slot_set(2)
  by (simp add: register_tile_def new_info_def insert_tile_def Let_def set_info_state_def)

text \<open>
  C3: a tile that resets is configured and started.  It registers with an idle controller whose database
  calls can lead to; the background task of the controller makes its round; then the tile goes on.  Afterwards
  the application of the tile runs, every variable of the tile has the value that the database has for it or else
  its default, and the controller lists the tile as running.
\<close>

theorem tile_boot:
  assumes "served config_functions (new_config_db c d) db" "\<not> tm_safe_mode tm" "tm_queue tm = []"
    and "map_of (tile_vars (pt_tile p)) i = Some v"
  shows "\<exists>tm1 level debug tm2 p1 r.
    register_tile hw api name fw exec sl uid (tm, db) = (Inr [Num (10 + sl), Num level, Num debug], (tm1, db)) \<and>
    tm_round call_peripheral (tm1, pt_answered level debug (pt_handle_reset p)) = (Inr (), (tm2, p1)) \<and>
    pt_app_running (pt_continue p1) \<and> tile_initialized (pt_tile (pt_continue p1)) \<and>
    map_of (tile_vars (pt_tile (pt_continue p1))) i = Some
      (case find (\<lambda>e. ce_valid e \<and> slot_address (ce_target e) = Inr (10 + sl) \<and> ce_var_id e = i) (cd_entries db) of
         None \<Rightarrow> clear_value v
       | Some e \<Rightarrow> delivered (drop 2 (ce_data e)) (clear_value v)) \<and>
    r \<in> set (tm_registered tm2) \<and> ti_slot (tm_store tm2 ! r) = sl \<and> ti_state (tm_store tm2 ! r) = RUNNING \<and>
    tm_queue tm2 = []"
proof -
  have ok: "config_ok db" using config_service.served_ok [OF assms(1)] config_ok_new by blast
  then obtain rpcs where rpcs: "stream_matching (10 + sl) db = Inr rpcs"
    using matching_ok [of "cd_entries db" "10 + sl"] by (auto simp: config_ok_def stream_matching_def)
  obtain tm1 where tm1: "register_tile hw api name fw exec sl uid (tm, db) =
      (Inr [Num (10 + sl), Num START_ON_COMMAND, Num (if tm_debug_mode tm then 1 else 0)], (tm1, db))"
    "tm_queue tm1 = [(length (tm_store tm), rpcs)]" "length (tm_store tm) < length (tm_store tm1)"
    "length (tm_store tm) \<in> set (tm_registered tm1)" "ti_slot (tm_store tm1 ! length (tm_store tm)) = sl"
    by (rule register_idle [OF assms(2,3) rpcs])
  let ?r = "length (tm_store tm)" and ?debug = "if tm_debug_mode tm then 1 else 0 :: int"
  let ?p0 = "pt_answered START_ON_COMMAND ?debug (pt_handle_reset p)"
  let ?p1 = "?p0\<lparr>pt_tile := fold receive rpcs (tile_handle_reset (pt_tile p)), pt_start_received := True\<rparr>"
  let ?tm2 = "set_info_state ?r RUNNING (tm1\<lparr>tm_queue := []\<rparr>)"
  have p0: "pt_tile ?p0 = tile_handle_reset (pt_tile p)" by (simp add: pt_answered_def pt_handle_reset_def)
  have round: "tm_round call_peripheral (tm1, ?p0) = (Inr (), (?tm2, ?p1))"
    by (simp add: tm_round_def tm1(2) send_variables p0 call_peripheral_def start_application_def)
  have vars: "map_of (tile_vars (fold receive rpcs (tile_handle_reset (pt_tile p)))) i = Some
      (case find (\<lambda>e. ce_valid e \<and> slot_address (ce_target e) = Inr (10 + sl) \<and> ce_var_id e = i) (cd_entries db) of
         None \<Rightarrow> clear_value v
       | Some e \<Rightarrow> delivered (drop 2 (ce_data e)) (clear_value v))"
    by (rule delivered_all [OF ok rpcs assms(4)])
  have app: "pt_app_running (pt_continue ?p1)" "tile_initialized (pt_tile (pt_continue ?p1))"
    "tile_vars (pt_tile (pt_continue ?p1)) = tile_vars (fold receive rpcs (tile_handle_reset (pt_tile p)))"
    by (simp_all add: pt_continue_def pt_answered_def)
  have reg: "?r \<in> set (tm_registered ?tm2)" "ti_state (tm_store ?tm2 ! ?r) = RUNNING" "ti_slot (tm_store ?tm2 ! ?r) = sl"
    using tm1(3-5) registered_state [of ?r "tm1\<lparr>tm_queue := []\<rparr>" RUNNING] by (simp_all add: set_info_state_def)
  have queue: "tm_queue ?tm2 = []" by simp
  show ?thesis
    by (intro exI conjI) (rule tm1(1) round app(1,2) reg queue vars [folded app(3)])+
qed

theorem tile_boot_witness:
  "\<exists>v tm1 level debug tm2 p1. new_config_var 5 ''uint8_t'' (IntDefault 9) None None = Inr v \<and>
     register_tile 1 (3, 0) [] (1, 0, 0) (1, 0, 0) 2 0 (new_tile_manager 0 [] (3, 0) (1, 0, 0) (1, 0, 0), new_config_db 64 64)
       = (Inr [Num 12, Num level, Num debug], (tm1, new_config_db 64 64)) \<and>
     tm_round call_peripheral (tm1, pt_answered level debug (pt_handle_reset
       ((new_peripheral [])\<lparr>pt_tile := (new_tile [])\<lparr>tile_vars := [(5, v)]\<rparr>\<rparr>))) = (Inr (), (tm2, p1)) \<and>
     map_of (tile_vars (pt_tile (pt_continue p1))) 5 = Some (clear_value v)"
proof -
  let ?var = "new_config_var 5 ''uint8_t'' (IntDefault 9) None None"
  let ?tm = "new_tile_manager 0 [] (3, 0) (1, 0, 0) (1, 0, 0)"
  let ?p = "(new_peripheral [])\<lparr>pt_tile := (new_tile [])\<lparr>tile_vars := [(5, projr ?var)]\<rparr>\<rparr>"
  have v: "?var = Inr (projr ?var)" by code_simp
  have tm: "\<not> tm_safe_mode ?tm" "tm_queue ?tm = []" by code_simp+
  have "map_of (tile_vars (pt_tile ?p)) 5 = Some (projr ?var)" by simp
  from tile_boot [OF served.start tm this, of 1 "(3, 0)" "[]" "(1, 0, 0)" "(1, 0, 0)" 2 0 64 64] v
  show ?thesis by (fastforce simp: new_config_db_def)
qed

text \<open>
  The list of registered tiles only grows, and has each slot once, whatever calls clients send.  The calls
  never remove a tile; a tile that registers again takes its old place.
\<close>

theorem tiles_registered:
  assumes "served tile_manager_functions c c'" "tiles_ok c"
  shows "distinct (map (\<lambda>r. ti_slot (tm_store (fst c') ! r)) (tm_registered (fst c'))) \<and>
    (\<forall>r \<in> set (tm_registered (fst c')). r < length (tm_store (fst c'))) \<and>
    length (tm_registered (fst c)) \<le> length (tm_registered (fst c'))"
  using tile_service.served_ok [OF assms(1), of "length (tm_registered (fst c))"] assms(2)
  by (auto simp: tiles_ok_def simp flip: slot_at_def)

theorem tiles_registered_witness:
  "distinct (map (\<lambda>r. ti_slot (tm_store (new_tile_manager 0 [] (3, 0) (1, 0, 0) (1, 0, 0)) ! r))
     (tm_registered (new_tile_manager 0 [] (3, 0) (1, 0, 0) (1, 0, 0))))"
proof -
  have "tiles_ok (new_tile_manager 0 [] (3, 0) (1, 0, 0) (1, 0, 0), new_config_db 64 64)"
    using config_ok_new
    by (simp add: tiles_ok_def new_tile_manager_def new_info_def insert_tile_def new_tile_manager_state_def)
  from tiles_registered [OF served.start this] show ?thesis by simp
qed

text \<open>
  A tile in safe mode is started all the same.  A tile that registers in safe mode is queued without
  variables, but the background task sends it the start call like any other tile and then records it as running,
  which overwrites the state \<open>SAFE_MODE\<close>.
\<close>

theorem safe_mode_lost:
  assumes "tm_safe_mode tm" "tm_queue tm = []"
  shows "\<exists>tm1 debug tm2 p1 r.
    register_tile hw api name fw exec sl uid (tm, db) = (Inr [Num (10 + sl), Num SAFE_MODE_LEVEL, Num debug], (tm1, db)) \<and>
    ti_state (tm_store tm1 ! r) = SAFE_MODE \<and> r \<in> set (tm_registered tm1) \<and>
    tm_round call_peripheral (tm1, pt_answered SAFE_MODE_LEVEL debug (pt_handle_reset p)) = (Inr (), (tm2, p1)) \<and>
    ti_state (tm_store tm2 ! r) = RUNNING \<and> r \<in> set (tm_registered tm2) \<and> pt_start_received p1"
  using assms replace_slot_set(2)
  by (auto simp: register_tile_def new_info_def insert_tile_def Let_def set_info_state_def tm_round_def
    call_peripheral_def start_application_def intro!: exI [of _ "length (tm_store tm)"])

theorem safe_mode_lost_witness:
  "\<exists>tm1 debug. register_tile 1 (3, 0) [] (1, 0, 0) (1, 0, 0) 2 0
     ((new_tile_manager 0 [] (3, 0) (1, 0, 0) (1, 0, 0))\<lparr>tm_safe_mode := True\<rparr>, new_config_db 64 64)
       = (Inr [Num 12, Num SAFE_MODE_LEVEL, Num debug], (tm1, new_config_db 64 64))"
proof -
  let ?tm = "(new_tile_manager 0 [] (3, 0) (1, 0, 0) (1, 0, 0))\<lparr>tm_safe_mode := True\<rparr>"
  have tm: "tm_safe_mode ?tm" "tm_queue ?tm = []" by code_simp+
  from safe_mode_lost [OF tm, of 1 "(3, 0)" "[]" "(1, 0, 0)" "(1, 0, 0)" 2 0 "new_config_db 64 64" "new_peripheral []"]
  show ?thesis by auto
qed

text \<open>
  Describing tiles.  For an index that is out of range the answer cannot be packed, because its name is text,
  and the call raises.  For a registered tile the three numbers of the version of the executive are all the major
  number.
\<close>

theorem describe_tile_answers:
  "(length p = 2 \<and> le_int p \<ge> int (length (tm_registered (fst c))) \<longrightarrow>
      dispatch_rpc (rpc_table tile_manager_functions) 0x2a02 p c = (Inl RPCInvalidReturnValueError, c)) \<and>
   (k < length (tm_registered tm) \<longrightarrow> tm_store tm ! (tm_registered tm ! k) =
      \<lparr>ti_hw_type = hw, ti_name = Raw name, ti_api = (a0, a1), ti_fw = (f0, f1, f2), ti_exec = (e0, e1, e2), ti_slot = sl,
       ti_unique_id = uid, ti_state = st, ti_address = addr\<rparr> \<longrightarrow>
      describe_tile (int k) (tm, db) = (Inr [Num hw, Num a0, Num a1, Raw name, Num f0, Num f1, Num f2, Num e0, Num e0, Num e0,
        Num sl, Num uid], (tm, db)))"
proof -
  have pack: "pack_rpc_payload ''3B6s6BBL'' (registration_packet invalid_info) = Inl (OtherException StructError)"
    by (simp add: pack_rpc_payload_def create_respcode_def py_endswith_def py_startswith_def lift_res_def struct_pack_def
      dec_digit_def digit_val_def py_isspace_def code_fields_def int_code_def Let_def registration_packet_def invalid_info_def
      int_fits_def numeral_nat)
  show ?thesis
    by (auto simp: dispatch_rpc_def rpc_table_def new_dispatcher_def add_rpc_def tile_manager_functions_def rpc_executor_def
      unpack_H struct_error_as_def as_function_def describe_tile_def pack registration_packet_def [of "tm_store _ ! _"]
      py_nth_def Let_def)
qed

theorem describe_tile_answers_witness:
  "dispatch_rpc (rpc_table tile_manager_functions) 0x2a02 [9, 0] (new_tile_manager 0 [] (3, 0) (1, 0, 0) (1, 0, 0), new_config_db 64 64)
     = (Inl RPCInvalidReturnValueError, new_tile_manager 0 [] (3, 0) (1, 0, 0) (1, 0, 0), new_config_db 64 64)"
proof -
  let ?c = "(new_tile_manager 0 [] (3, 0) (1, 0, 0) (1, 0, 0), new_config_db 64 64)"
  have "length [9, 0 :: byte] = 2 \<and> le_int [9, 0 :: byte] \<ge> int (length (tm_registered (fst ?c)))" by code_simp
  with describe_tile_answers [of "[9, 0]" ?c] show ?thesis by blast
qed

end
