(* ===== verification/Emulated_Log.thy ===== *)
theory Emulated_Log
  imports Sensor_Log Error_Codes
begin

text \<open>
  The sensor log of the emulated controller
  (\<open>iotile/emulate/reference/controller_features/sensor_log.py\<close>): a sensor log that assigns increasing
  ids to readings, and the RPCs that push, count, clear, inspect and dump readings.
\<close>

section \<open>Streams\<close>

definition declare_stream :: "string \<Rightarrow> int res" where
  "declare_stream name = bind_res (stream_of_string name) (\<lambda>s. Inr (stream_encode s))"

text \<open>\<open>streams.DATA_CLEARED\<close>.\<close>

definition DATA_CLEARED :: int where "DATA_CLEARED = 0x5C03"

lemma DATA_CLEARED_declared: "declare_stream ''system output 1027'' = Inr DATA_CLEARED"
  by code_simp

section \<open>State and operations\<close>

text \<open>\<open>rsl_dump_walker\<close> is the number of the walker left by the last \<open>dump_begin\<close>.\<close>

record rsl =
  rsl_storage :: sensor_log
  rsl_dump_walker :: "nat option"
  rsl_next_id :: int

definition new_rsl :: "device_model \<Rightarrow> rsl res" where
  "new_rsl model =
     bind_res (new_engine model) (\<lambda>e.
     bind_res (new_sensor_log (Some e) (Some model)) (\<lambda>log.
       Inr \<lparr>rsl_storage = log, rsl_dump_walker = None, rsl_next_id = 1\<rparr>))"

record rsl_dump =
  rd_storage :: log_dump
  rd_dump_walker :: "walker_dump option"
  rd_next_id :: "int option"

definition rsl_dump_state :: "(datetime \<Rightarrow> string) \<Rightarrow> rsl \<Rightarrow> rsl_dump res" where
  "rsl_dump_state isof s =
     bind_res (case rsl_dump_walker s of
         None \<Rightarrow> Inr None
       | Some wid \<Rightarrow> (case sl_walkers (rsl_storage s) wid of
           None \<Rightarrow> Inl KeyError | Some w \<Rightarrow> map_sum id Some (dump_walker isof w))) (\<lambda>dw.
     bind_res (log_dump_state isof (rsl_storage s)) (\<lambda>d.
       Inr \<lparr>rd_storage = d, rd_dump_walker = dw, rd_next_id = Some (rsl_next_id s)\<rparr>))"

definition rsl_prepare_for_restore :: "rsl \<Rightarrow> rsl" where
  "rsl_prepare_for_restore s = s\<lparr>rsl_storage := log_destroy_all_walkers (rsl_storage s)\<rparr>"

text \<open>An operation of the underlying sensor log.\<close>

definition on_storage :: "(sensor_log \<Rightarrow> ('a, sensor_log) act) \<Rightarrow> rsl \<Rightarrow> ('a, rsl) act" where
  "on_storage f s = map_state (\<lambda>log. s\<lparr>rsl_storage := log\<rparr>) (f (rsl_storage s))"

definition rsl_restore :: "(string \<Rightarrow> datetime) \<Rightarrow> rsl_dump \<Rightarrow> rsl \<Rightarrow> (unit, rsl) act" where
  "rsl_restore parse state s =
     bind_act (on_storage (log_restore parse (rd_storage state) False) s) (\<lambda>_ s1.
     bind_act (case rd_dump_walker state of
         None \<Rightarrow> (Inr None, s1)
       | Some d \<Rightarrow> bind_act (on_storage (log_restore_walker parse d) s1) (\<lambda>wid s2. (Inr (Some wid), s2)))
       (\<lambda>dw s2. (Inr (), s2\<lparr>rsl_dump_walker := dw,
                   rsl_next_id := (case rd_next_id state of None \<Rightarrow> 1 | Some i \<Rightarrow> i)\<rparr>)))"

definition allocate_id :: "rsl \<Rightarrow> int \<times> rsl" where
  "allocate_id s = (rsl_next_id s, s\<lparr>rsl_next_id := rsl_next_id s + 1\<rparr>)"

text \<open>\<open>storage.push\<close>: the \<open>id_assigner\<close> of the log is called for readings of buffered streams.\<close>

definition rsl_storage_push :: "data_stream \<Rightarrow> reading \<Rightarrow> rsl \<Rightarrow> (unit, rsl) act" where
  "rsl_storage_push strm reading s =
     (if stream_buffered strm then
        (case allocate_id s of (i, s1) \<Rightarrow> on_storage (log_push (Some i) strm reading) s1)
      else on_storage (log_push None strm reading) s)"

text \<open>\<open>push\<close> calls \<open>IOTileReading(stream_id, timestamp, value)\<close>: the raw time comes first there.\<close>

definition rsl_push :: "int \<Rightarrow> int \<Rightarrow> int \<Rightarrow> rsl \<Rightarrow> (int, rsl) act" where
  "rsl_push code timestamp val s =
     (let strm = stream_of_encoded code; reading = new_reading code timestamp val None None None in
      case rsl_storage_push strm reading s of
        (Inr _, s1) \<Rightarrow> (Inr NO_ERROR, s1)
      | (Inl err, s1) \<Rightarrow>
          if err = StorageFullError then (Inr (pack_error SENSOR_LOG RING_BUFFER_FULL), s1) else (Inl err, s1))"

definition rsl_clear :: "int \<Rightarrow> rsl \<Rightarrow> (int, rsl) act" where
  "rsl_clear timestamp s = rsl_push DATA_CLEARED timestamp 1 (s\<lparr>rsl_storage := log_clear (rsl_storage s)\<rparr>)"

text \<open>\<open>clear_to_reset\<close>, given the values of the two configuration variables.\<close>

definition rsl_clear_to_reset :: "bool \<Rightarrow> bool \<Rightarrow> rsl \<Rightarrow> (unit, rsl) act" where
  "rsl_clear_to_reset storage_fillstop streaming_fillstop s =
     (let s1 = s\<lparr>rsl_storage := log_destroy_all_walkers (rsl_storage s), rsl_dump_walker := None\<rparr> in
      bind_act (if storage_fillstop then on_storage (log_set_rollover ''storage'' False) s1 else (Inr (), s1))
        (\<lambda>_ s2. if streaming_fillstop then on_storage (log_set_rollover ''streaming'' False) s2 else (Inr (), s2)))"

definition rsl_count :: "rsl \<Rightarrow> int \<times> int" where
  "rsl_count s = log_engine_count (rsl_storage s)"

definition rsl_inspect_virtual :: "int \<Rightarrow> rsl \<Rightarrow> (int \<times> int) res" where
  "rsl_inspect_virtual code s =
     (let strm = stream_of_encoded code in
      if stream_buffered strm then Inr (pack_error SENSOR_LOG VIRTUAL_STREAM_NOT_FOUND, 0)
      else case log_inspect_last strm True (rsl_storage s) of
        Inr r \<Rightarrow> Inr (NO_ERROR, r_value r)
      | Inl err \<Rightarrow>
          if err = StreamEmptyError then Inr (NO_ERROR, 0)
          else if err = UnresolvedIdentifierError then Inr (pack_error SENSOR_LOG VIRTUAL_STREAM_NOT_FOUND, 0)
          else Inl err)"

definition rsl_dump_begin :: "int \<Rightarrow> rsl \<Rightarrow> (int \<times> int \<times> int, rsl) act" where
  "rsl_dump_begin selector_id s =
     bind_act (case rsl_dump_walker s of None \<Rightarrow> (Inr (), s) | Some wid \<Rightarrow> on_storage (log_destroy_walker wid) s)
       (\<lambda>_ s1. case sel_of_encoded selector_id of
            Inl err \<Rightarrow> (Inl err, s1)
          | Inr sel \<Rightarrow>
              bind_act (on_storage (log_create_walker sel False) s1) (\<lambda>wid s2.
                (Inr (NO_ERROR, NO_ERROR, log_count wid (rsl_storage s2)), s2\<lparr>rsl_dump_walker := Some wid\<rparr>)))"

definition rsl_dump_seek :: "int \<Rightarrow> rsl \<Rightarrow> (int \<times> int \<times> int, rsl) act" where
  "rsl_dump_seek rid s =
     (case rsl_dump_walker s of
        None \<Rightarrow> (Inr (pack_error SENSOR_LOG STREAM_WALKER_NOT_INITIALIZED, NO_ERROR, 0), s)
      | Some wid \<Rightarrow>
          (case on_storage (log_seek wid rid ''id'') s of
             (Inl err, s1) \<Rightarrow>
               if err = UnresolvedIdentifierError then (Inr (pack_error SENSOR_LOG NO_MORE_READINGS, NO_ERROR, 0), s1)
               else (Inl err, s1)
           | (Inr exact, s1) \<Rightarrow>
               (Inr (if exact then NO_ERROR else pack_error SENSOR_LOG ID_FOUND_FOR_ANOTHER_STREAM, NO_ERROR,
                     log_count wid (rsl_storage s1)), s1)))"

text \<open>\<open>dump_next\<close> answers a reading, \<open>None\<close>, or the number of an error.\<close>

datatype dump_answer = DumpReading reading | DumpEmpty | DumpError int

definition rsl_dump_next :: "rsl \<Rightarrow> (dump_answer, rsl) act" where
  "rsl_dump_next s =
     (case rsl_dump_walker s of
        None \<Rightarrow> (Inr (DumpError (pack_error SENSOR_LOG STREAM_WALKER_NOT_INITIALIZED)), s)
      | Some wid \<Rightarrow>
          (case on_storage (log_pop wid) s of
             (Inr r, s1) \<Rightarrow> (Inr (DumpReading r), s1)
           | (Inl err, s1) \<Rightarrow> if err = StreamEmptyError then (Inr DumpEmpty, s1) else (Inl err, s1)))"

definition keep_max :: "int \<Rightarrow> reading \<Rightarrow> int \<Rightarrow> bool \<times> int" where
  "keep_max i reading shared = (False, if reading_id reading > shared then reading_id reading else shared)"

definition highest_stored_id :: "rsl \<Rightarrow> int res" where
  "highest_stored_id s =
     (case engine_scan_storage (sl_engine (rsl_storage s)) ''storage'' keep_max 0 None 0 of
        (Inl err, shared) \<Rightarrow> Inl err
      | (Inr _, shared) \<Rightarrow>
          (case engine_scan_storage (sl_engine (rsl_storage s)) ''streaming'' keep_max 0 None shared of
             (Inl err, shared') \<Rightarrow> Inl err
           | (Inr _, shared') \<Rightarrow> Inr shared'))"

section \<open>Remote procedure calls\<close>

definition rsl_push_reading :: "int \<Rightarrow> int \<Rightarrow> rsl \<Rightarrow> (int list, rsl) act" where
  "rsl_push_reading val code s = bind_act (rsl_push code 0 val s) (\<lambda>err s1. (Inr [err], s1))"

fun push_many_loop :: "int \<Rightarrow> int \<Rightarrow> int list \<Rightarrow> int \<Rightarrow> rsl \<Rightarrow> (int list, rsl) act" where
  "push_many_loop val code [] count s = (Inr [NO_ERROR, count], s)"
| "push_many_loop val code (i # is) count s =
     bind_act (rsl_push code 0 val s) (\<lambda>err s1.
       if err \<noteq> NO_ERROR then (Inr [err, i], s1) else push_many_loop val code is count s1)"

definition rsl_push_many_readings :: "int \<Rightarrow> int \<Rightarrow> int \<Rightarrow> rsl \<Rightarrow> (int list, rsl) act" where
  "rsl_push_many_readings val count code s = push_many_loop val code [1..count] count s"

definition rsl_count_readings :: "rsl \<Rightarrow> int list" where
  "rsl_count_readings s = (case rsl_count s of (storage, out) \<Rightarrow> [NO_ERROR, storage, out])"

definition rsl_clear_readings :: "rsl \<Rightarrow> (int list, rsl) act" where
  "rsl_clear_readings s = bind_act (rsl_clear 0 s) (\<lambda>_ s1. (Inr [NO_ERROR], s1))"

definition rsl_inspect_virtual_stream :: "int \<Rightarrow> rsl \<Rightarrow> int list res" where
  "rsl_inspect_virtual_stream code s = bind_res (rsl_inspect_virtual code s) (\<lambda>(err, val). Inr [err, val])"

definition rsl_dump_stream_begin :: "int \<Rightarrow> rsl \<Rightarrow> (int list, rsl) act" where
  "rsl_dump_stream_begin code s =
     bind_act (rsl_dump_begin code s) (\<lambda>(err, err2, count) s1. (Inr [err, err2, count, 0], s1))"

definition rsl_dump_stream_seek :: "int \<Rightarrow> rsl \<Rightarrow> (int list, rsl) act" where
  "rsl_dump_stream_seek rid s =
     bind_act (rsl_dump_seek rid s) (\<lambda>(err, err2, count) s1. (Inr [err, err2, count], s1))"

text \<open>The reply is a string of bytes; an error number has no attribute \<open>raw_time\<close>.\<close>

definition rsl_dump_stream_next :: "int \<Rightarrow> rsl \<Rightarrow> (byte list, rsl) act" where
  "rsl_dump_stream_next output_format s =
     bind_act (rsl_dump_next s) (\<lambda>answer s1.
       let reply = (\<lambda>err timestamp val rid code.
             if output_format = 0 then pack_fields [(4, err), (4, timestamp), (4, val)]
             else if output_format \<noteq> 1 then Inl ValueError
             else pack_fields [(4, err), (4, timestamp), (4, val), (4, rid), (2, code), (2, 0)])
       in (case answer of
             DumpError err \<Rightarrow> Inl AttributeError
           | DumpEmpty \<Rightarrow> reply (pack_error SENSOR_LOG NO_MORE_READINGS) 0 0 0 0
           | DumpReading r \<Rightarrow> reply NO_ERROR (raw_time r) (r_value r) (reading_id r) (r_stream r), s1))"

definition rsl_get_highest_saved_id :: "rsl \<Rightarrow> int list res" where
  "rsl_get_highest_saved_id s = bind_res (highest_stored_id s) (\<lambda>i. Inr [NO_ERROR, i])"

section \<open>What a push does to the stored readings\<close>

lemma for_each_engine:
  assumes "\<And>x l. sl_engine (snd (f x l)) = sl_engine l"
  shows "sl_engine (snd (for_each f xs log)) = sl_engine log"
proof (induction xs arbitrary: log)
  case (Cons x xs)
  obtain r l where "f x log = (r, l)" by fastforce
  then show ?case using Cons.IH [of l] assms [of x log] by (cases r) simp_all
qed simp

lemma notify_engine:
  "sl_engine (snd (notify_queue s log)) = sl_engine log"
  "sl_engine (snd (for_each (notify_erased out) rs log)) = sl_engine log"
  "sl_engine (snd (for_each (push_virtual s r) wids log)) = sl_engine log"
  "sl_engine (snd (set_last_value s r log)) = sl_engine log"
  "sl_engine (call_monitors s r log) = sl_engine log"
proof -
  have added: "sl_engine (snd (notify_added s out wid l)) = sl_engine l" for s out wid l
    by (simp add: notify_added_def on_walker_frame)
  have roll: "sl_engine (snd (notify_erased out r l)) = sl_engine l" for out r l
    unfolding notify_erased_def by (rule for_each_engine) (simp add: notify_rollover_def on_walker_frame)
  show "sl_engine (snd (notify_queue s log)) = sl_engine log"
    unfolding notify_queue_def by (rule for_each_engine) (rule added)
  show "sl_engine (snd (for_each (notify_erased out) rs log)) = sl_engine log"
    by (rule for_each_engine) (rule roll)
  show "sl_engine (snd (for_each (push_virtual s r) wids log)) = sl_engine log"
    by (rule for_each_engine) (simp add: push_virtual_def on_walker_frame)
qed (simp_all add: set_last_value_def call_monitors_def)

text \<open>The stored readings may lose some at the front and gain at most \<open>r\<close> at the end.\<close>

definition shifted :: "reading \<Rightarrow> reading list \<Rightarrow> reading list \<Rightarrow> bool" where
  "shifted r old new \<longleftrightarrow> (\<exists>k ys. new = drop k old @ ys \<and> (ys = [] \<or> ys = [r]))"

lemma shifted_refl [simp]: "shifted r xs xs"
  unfolding shifted_def by (rule exI [of _ 0]) simp

lemma shifted_push: "shifted r xs (drop k xs)" "shifted r xs (drop k xs @ [r])" "shifted r xs (xs @ [r])"
  unfolding shifted_def by (blast, blast) (rule exI [of _ 0], simp)

text \<open>At most the area \<open>out\<close> of the engine is changed, and it is shifted.\<close>

definition engine_shifted :: "bool \<Rightarrow> reading \<Rightarrow> engine \<Rightarrow> engine \<Rightarrow> bool" where
  "engine_shifted out r e e' \<longleftrightarrow>
     area_data (\<not> out) e' = area_data (\<not> out) e \<and> shifted r (area_data out e) (area_data out e')"

lemma bind_act_engine:
  assumes "\<And>a l. sl_engine (snd (f a l)) = sl_engine l"
  shows "sl_engine (snd (bind_act x f)) = sl_engine (snd x)"
  using assms by (cases x; cases "fst x") auto


lemma engine_push_shifted:
  assumes "is_output_reading r = out"
  shows "snd (engine_push r e) = e \<or> snd (engine_push r e) = set_area out (area_data out e @ [r]) e"
  using assms by (simp add: engine_push_area)

lemma set_area_self [simp]: "set_area out (area_data out e) e = e"
  by (simp add: set_area_def area_data_def)

lemma engine_popn_shifted:
  "\<exists>k. snd (engine_popn (if out then ''streaming'' else ''storage'') n e) = set_area out (drop k (area_data out e)) e"
proof (cases "n > int (length (area_data out e))")
  case True
  then have "snd (engine_popn (if out then ''streaming'' else ''storage'') n e) = set_area out (drop 0 (area_data out e)) e"
    by (cases out; simp add: engine_popn_def engine_area_def area_data_def set_area_def Let_def)
  then show ?thesis by blast
next
  case False
  then have "snd (engine_popn (if out then ''streaming'' else ''storage'') n e) =
      set_area out (drop (py_clamp (area_data out e) n) (area_data out e)) e"
    by (cases out; simp add: engine_popn_def engine_area_def area_data_def set_area_def py_slice_from_def Let_def)
  then show ?thesis by blast
qed

lemma on_engine_engine: "sl_engine (snd (on_engine f log)) = snd (f (sl_engine log))"
  by (simp add: on_engine_def map_state_def split: prod.split)

lemma log_erase_shifted:
  "\<exists>k. sl_engine (snd (log_erase_buffer out log)) = set_area out (drop k (area_data out (sl_engine log))) (sl_engine log)"
proof (cases "dm_get (sl_model log) ''buffer_erase_size''")
  case (Inl err)
  then have "sl_engine (snd (log_erase_buffer out log)) = set_area out (drop 0 (area_data out (sl_engine log))) (sl_engine log)"
    by (simp add: log_erase_buffer_def)
  then show ?thesis by blast
next
  case (Inr n)
  then have "sl_engine (snd (log_erase_buffer out log)) =
      snd (engine_popn (if out then ''streaming'' else ''storage'') n (sl_engine log))"
    by (simp add: log_erase_buffer_def bind_act_engine notify_engine on_engine_engine)
  then show ?thesis using engine_popn_shifted [of out n "sl_engine log"] by simp
qed

lemma bind_act_cases:
  "fst x = Inl e \<Longrightarrow> snd (bind_act x f) = snd x"
  "fst x = Inr a \<Longrightarrow> snd (bind_act x f) = snd (f a (snd x))"
  by (cases x; simp)+

lemma set_area_shifted:
  "engine_shifted out r e e"
  "engine_shifted out r e (set_area out (drop k (area_data out e)) e)"
  "engine_shifted out r e (set_area out (drop k (area_data out e) @ [r]) e)"
  "engine_shifted out r e (set_area out (area_data out e @ [r]) e)"
  by (simp_all add: engine_shifted_def shifted_push)

lemma log_store_shifted:
  assumes "is_output_reading r = stream_output s"
  shows "engine_shifted (stream_output s) r (sl_engine log) (sl_engine (snd (log_store s r log)))"
proof -
  let ?o = "stream_output s" and ?e = "sl_engine log"
  note push = engine_push_shifted [OF assms]
  obtain k where k: "sl_engine (snd (log_erase_buffer ?o log)) = set_area ?o (drop k (area_data ?o ?e)) ?e"
    using log_erase_shifted by blast
  obtain res log1 where first: "on_engine (engine_push r) log = (res, log1)" by fastforce
  then have log1: "sl_engine log1 = ?e \<or> sl_engine log1 = set_area ?o (area_data ?o ?e @ [r]) ?e"
    using push [of ?e] on_engine_engine [of "engine_push r" log] by simp
  show ?thesis
  proof (cases "res = Inl StorageFullError \<and> (if ?o then sl_rollover_streaming log1 else sl_rollover_storage log1)")
    case False
    then have "snd (log_store s r log) = log1"
      using first by (cases "stream_output s") (auto simp: log_store_def split: sum.splits)
    then show ?thesis using log1 set_area_shifted by auto
  next
    case True
    then have full: "engine_push r ?e = (Inl StorageFullError, ?e)"
      using first by (auto simp: on_engine_def engine_push_area map_state_def split: if_splits)
    then have same: "log1 = log" using first by (simp add: on_engine_def)
    have store: "log_store s r log = bind_act (log_erase_buffer ?o log) (\<lambda>_. on_engine (engine_push r))"
      using first True same by (auto simp: log_store_def)
    show ?thesis
    proof (cases "fst (log_erase_buffer ?o log)")
      case (Inl err)
      then show ?thesis using k store set_area_shifted by (simp add: bind_act_cases)
    next
      case (Inr u)
      then have "sl_engine (snd (log_store s r log)) = snd (engine_push r (set_area ?o (drop k (area_data ?o ?e)) ?e))"
        using store k by (simp add: bind_act_cases on_engine_engine)
      then show ?thesis
        using push [of "set_area ?o (drop k (area_data ?o ?e)) ?e"] set_area_shifted by auto
    qed
  qed
qed

lemma log_push_shifted:
  assumes "stream_encodable s"
  shows "stream_buffered s \<Longrightarrow> engine_shifted (stream_output s) (stamped assigned s reading) (sl_engine log)
      (sl_engine (snd (log_push assigned s reading log)))"
    "\<not> stream_buffered s \<Longrightarrow> sl_engine (snd (log_push assigned s reading log)) = sl_engine log"
proof -
  have rest: "sl_engine (snd (bind_act (for_each (push_virtual s r) wids l) (\<lambda>_. set_last_value s r))) = sl_engine l" for r wids l
    by (simp add: bind_act_engine notify_engine)
  let ?r = "stamped assigned s reading"
  have "sl_engine (snd (log_push assigned s reading log)) =
    sl_engine (snd (if stream_buffered s then bind_act (log_store s ?r log) (\<lambda>_. notify_queue s) else (Inr (), log)))"
    unfolding log_push_def Let_def by (rule bind_act_engine) (simp add: rest notify_engine)
  also have "\<dots> = sl_engine (snd (if stream_buffered s then log_store s ?r log else (Inr (), log)))"
    by (simp add: bind_act_engine notify_engine)
  finally have eng: "sl_engine (snd (log_push assigned s reading log)) =
    sl_engine (snd (if stream_buffered s then log_store s ?r log else (Inr (), log)))" .
  show "stream_buffered s \<Longrightarrow> engine_shifted (stream_output s) ?r (sl_engine log)
      (sl_engine (snd (log_push assigned s reading log)))"
    using eng log_store_shifted stamped_stream(2) [OF assms, of assigned reading] by simp
  show "\<not> stream_buffered s \<Longrightarrow> sl_engine (snd (log_push assigned s reading log)) = sl_engine log"
    using eng by simp
qed

section \<open>Ids\<close>

definition increasing_below :: "int \<Rightarrow> reading list \<Rightarrow> bool" where
  "increasing_below n rs \<longleftrightarrow> sorted_wrt (<) (map reading_id rs) \<and> (\<forall>r \<in> set rs. 0 < reading_id r \<and> reading_id r < n)"

definition ids_ok :: "rsl \<Rightarrow> bool" where
  "ids_ok s \<longleftrightarrow> 1 \<le> rsl_next_id s \<and> (\<forall>out. increasing_below (rsl_next_id s) (area_data out (sl_engine (rsl_storage s))))"

lemma increasing_below_drop: "increasing_below n rs \<Longrightarrow> increasing_below n (drop k rs)"
  by (auto simp: increasing_below_def drop_map [symmetric] sorted_wrt_drop dest: in_set_dropD)

lemma increasing_below_mono: "increasing_below n rs \<Longrightarrow> n \<le> m \<Longrightarrow> increasing_below m rs"
  by (force simp: increasing_below_def)

lemma increasing_below_add:
  "increasing_below n rs \<Longrightarrow> 1 \<le> n \<Longrightarrow> reading_id r = n \<Longrightarrow> increasing_below (n + 1) (rs @ [r])"
  by (auto simp: increasing_below_def sorted_wrt_append)

lemma increasing_below_shifted:
  assumes "increasing_below n old" "1 \<le> n" "reading_id r = n" "shifted r old new"
  shows "increasing_below (n + 1) new"
proof -
  obtain k ys where new: "new = drop k old @ ys" "ys = [] \<or> ys = [r]" using assms(4) by (auto simp: shifted_def)
  note old = increasing_below_drop [OF assms(1), of k]
  show ?thesis
    using new increasing_below_add [OF old assms(2,3)] increasing_below_mono [OF old, of "n + 1"] by auto
qed

lemma stamped_id: "stream_buffered s \<Longrightarrow> reading_id (stamped (Some i) s r) = i"
  by (simp add: stamped_def Let_def)

lemma on_storage_simps:
  "rsl_next_id (snd (on_storage f s)) = rsl_next_id s"
  "rsl_storage (snd (on_storage f s)) = snd (f (rsl_storage s))"
  "rsl_dump_walker (snd (on_storage f s)) = rsl_dump_walker s"
  by (simp_all add: on_storage_def map_state_def split: prod.split)

lemma rsl_storage_push_ids:
  assumes "ids_ok s" "stream_encodable strm"
  shows "ids_ok (snd (rsl_storage_push strm reading s))"
proof (cases "stream_buffered strm")
  case True
  let ?n = "rsl_next_id s" and ?r = "stamped (Some (rsl_next_id s)) strm reading"
  let ?s' = "snd (rsl_storage_push strm reading s)"
  have next_id: "rsl_next_id ?s' = ?n + 1"
    using True by (simp add: rsl_storage_push_def allocate_id_def on_storage_simps)
  have "sl_engine (rsl_storage ?s') = sl_engine (snd (log_push (Some ?n) strm reading (rsl_storage s)))"
    using True by (simp add: rsl_storage_push_def allocate_id_def on_storage_simps)
  then have sh: "engine_shifted (stream_output strm) ?r (sl_engine (rsl_storage s)) (sl_engine (rsl_storage ?s'))"
    using log_push_shifted(1) [OF assms(2) True] by simp
  have old: "increasing_below ?n (area_data out (sl_engine (rsl_storage s)))" "1 \<le> ?n" for out
    using assms(1) by (simp_all add: ids_ok_def)
  have "increasing_below (?n + 1) (area_data out (sl_engine (rsl_storage ?s')))" for out
  proof (cases "out = stream_output strm")
    case True
    then show ?thesis
      using increasing_below_shifted [OF old(1) old(2) stamped_id [OF \<open>stream_buffered strm\<close>]] sh
      unfolding engine_shifted_def by blast
  next
    case False
    then have "area_data out (sl_engine (rsl_storage ?s')) = area_data out (sl_engine (rsl_storage s))"
      using sh by (cases out; cases "stream_output strm") (simp_all add: engine_shifted_def)
    then show ?thesis using increasing_below_mono [OF old(1)] by simp
  qed
  then show ?thesis using next_id old(2) by (simp add: ids_ok_def)
next
  case False
  then show ?thesis
    using assms(1) log_push_shifted(2) [OF assms(2) False]
    by (simp add: rsl_storage_push_def on_storage_simps ids_ok_def)
qed

lemma rsl_push_ids: "ids_ok s \<Longrightarrow> ids_ok (snd (rsl_push code timestamp val s))"
  using rsl_storage_push_ids [OF _ stream_of_encoded_encodable, of s code]
  by (auto simp: rsl_push_def Let_def split: prod.splits sum.splits) (metis snd_conv)+

lemma ids_ok_engine:
  "sl_engine (rsl_storage s') = sl_engine (rsl_storage s) \<Longrightarrow> rsl_next_id s' = rsl_next_id s \<Longrightarrow> ids_ok s' = ids_ok s"
  by (simp add: ids_ok_def)

lemma log_ops_engine:
  "sl_engine (snd (log_destroy_walker wid log)) = sl_engine log"
  "sl_engine (snd (log_create_walker sel skip log)) = sl_engine log"
  "sl_engine (snd (log_seek wid v target log)) = sl_engine log"
  "sl_engine (log_destroy_all_walkers log) = sl_engine log"
  "sl_engine (snd (log_set_rollover area b log)) = sl_engine log"
  by (auto simp: log_destroy_walker_def log_create_walker_def log_seek_def log_destroy_all_walkers_def alloc_walker_def
      log_set_rollover_def on_walker_frame split: option.split sum.split bool.split)

lemma log_clear_engine: "sl_engine (log_clear log) = engine_clear (sl_engine log)"
proof -
  have "sl_engine (fold log_skip_all wids l) = sl_engine l" for wids l
    by (induction wids arbitrary: l) (simp_all add: log_skip_all_def on_walker_frame)
  then show ?thesis by (simp add: log_clear_def Let_def)
qed

text \<open>The operations of the subsystem as steps; reports take ids as well.\<close>

inductive rsl_step :: "rsl \<Rightarrow> rsl \<Rightarrow> bool" where
  push: "rsl_step s (snd (rsl_push code timestamp val s))"
| clear: "rsl_step s (snd (rsl_clear timestamp s))"
| reset: "rsl_step s (snd (rsl_clear_to_reset b c s))"
| dump_begin: "rsl_step s (snd (rsl_dump_begin code s))"
| dump_seek: "rsl_step s (snd (rsl_dump_seek rid s))"
| dump_next: "rsl_step s (snd (rsl_dump_next s))"
| report_id: "rsl_step s (snd (allocate_id s))"
| create: "rsl_step s (snd (on_storage (log_create_walker sel skip) s))"
| pop: "rsl_step s (snd (on_storage (log_pop wid) s))"

lemma rsl_dump_begin_engine:
  "sl_engine (rsl_storage (snd (rsl_dump_begin code s))) = sl_engine (rsl_storage s) \<and>
   rsl_next_id (snd (rsl_dump_begin code s)) = rsl_next_id s"
proof -
  let ?x = "case rsl_dump_walker s of None \<Rightarrow> (Inr (), s) | Some wid \<Rightarrow> on_storage (log_destroy_walker wid) s"
  have x: "sl_engine (rsl_storage (snd ?x)) = sl_engine (rsl_storage s)" "rsl_next_id (snd ?x) = rsl_next_id s"
    by (auto simp: on_storage_simps log_ops_engine split: option.split)
  have create: "sl_engine (rsl_storage (snd (on_storage (log_create_walker sel b) t))) = sl_engine (rsl_storage t)"
    "rsl_next_id (snd (on_storage (log_create_walker sel b) t)) = rsl_next_id t" for sel b t
    by (simp_all add: on_storage_simps log_ops_engine)
  obtain r s1 where s1: "?x = (r, s1)" by fastforce
  show ?thesis
  proof (cases "r = Inr ()")
    case False
    then show ?thesis using x s1 by (cases r) (simp_all add: rsl_dump_begin_def)
  next
    case True
    show ?thesis
    proof (cases "sel_of_encoded code")
      case (Inr sel)
      obtain r2 s2 where s2: "on_storage (log_create_walker sel False) s1 = (r2, s2)" by fastforce
      then show ?thesis using x s1 True Inr create [of sel False s1]
        by (cases r2) (simp_all add: rsl_dump_begin_def)
    qed (use x s1 True in \<open>simp add: rsl_dump_begin_def\<close>)
  qed
qed

lemma rsl_step_ids:
  assumes "rsl_step s s'" "ids_ok s"
  shows "ids_ok s'"
  using assms
proof (cases rule: rsl_step.cases)
  case (clear timestamp)
  have "ids_ok (s\<lparr>rsl_storage := log_clear (rsl_storage s)\<rparr>)"
    using assms(2) by (simp add: ids_ok_def log_clear_engine engine_clear_def area_data_def increasing_below_def)
  then show ?thesis using clear rsl_push_ids by (simp add: rsl_clear_def)
next
  case (reset b c)
  have "sl_engine (rsl_storage s') = sl_engine (rsl_storage s) \<and> rsl_next_id s' = rsl_next_id s"
    using reset
    by (simp add: rsl_clear_to_reset_def on_storage_def log_set_rollover_def map_state_def Let_def
        log_destroy_all_walkers_def)
  then show ?thesis using assms(2) ids_ok_engine by blast
next
  case (dump_begin code)
  then show ?thesis using assms(2) rsl_dump_begin_engine [of code s] ids_ok_engine by blast
next
  case (dump_seek rid)
  have "sl_engine (rsl_storage s') = sl_engine (rsl_storage s) \<and> rsl_next_id s' = rsl_next_id s"
  proof (cases "rsl_dump_walker s")
    case (Some wid)
    obtain r s1 where "on_storage (log_seek wid rid ''id'') s = (r, s1)" by fastforce
    then show ?thesis using dump_seek Some on_storage_simps [of "log_seek wid rid ''id''" s]
      by (cases r) (simp_all add: rsl_dump_seek_def log_ops_engine)
  qed (use dump_seek in \<open>simp add: rsl_dump_seek_def\<close>)
  then show ?thesis using assms(2) ids_ok_engine by blast
next
  case dump_next
  have "sl_engine (rsl_storage s') = sl_engine (rsl_storage s) \<and> rsl_next_id s' = rsl_next_id s"
  proof (cases "rsl_dump_walker s")
    case (Some wid)
    obtain r s1 where "on_storage (log_pop wid) s = (r, s1)" by fastforce
    then show ?thesis using dump_next Some on_storage_simps [of "log_pop wid" s] log_pop_frame(3)
      by (cases r) (simp_all add: rsl_dump_next_def)
  qed (use dump_next in \<open>simp add: rsl_dump_next_def\<close>)
  then show ?thesis using assms(2) ids_ok_engine by blast
next
  case report_id
  then show ?thesis using assms(2) increasing_below_mono [of "rsl_next_id s" _ "rsl_next_id s + 1"]
    by (simp add: ids_ok_def allocate_id_def)
next
  case (create sel skip)
  then show ?thesis using assms(2) by (simp add: ids_ok_def on_storage_simps log_ops_engine)
next
  case (pop wid)
  then show ?thesis using assms(2) log_pop_frame(3) by (simp add: ids_ok_def on_storage_simps)
qed (simp add: rsl_push_ids)

lemma rsl_run_ids: "rsl_step\<^sup>*\<^sup>* s s' \<Longrightarrow> ids_ok s \<Longrightarrow> ids_ok s'"
  by (induction rule: rtranclp_induct) (auto intro: rsl_step_ids)

lemma scan_keep_max:
  "\<exists>m. scan_loop data keep_max [int n..int (length data) - 1] scanned v =
     (Inr m, fold max (map reading_id (drop n data)) v)"
proof (induction "length data - n" arbitrary: n scanned v)
  case 0
  then show ?case by (simp add: upto_past)
next
  case (Suc k)
  then have n: "n < length data" by simp
  have "drop n data = data ! n # drop (Suc n) data" using n by (simp add: Cons_nth_drop_Suc)
  moreover have "(if reading_id (data ! n) > v then reading_id (data ! n) else v) = max (reading_id (data ! n)) v" by simp
  ultimately show ?case
    using Suc(1) [of "Suc n" "scanned + 1" "max (reading_id (data ! n)) v"] Suc(2) n
    by (simp add: upto_from_nat py_nth_Inr keep_max_def)
qed

lemma engine_scan_keep_max:
  assumes "area_name = (if out then ''streaming'' else ''storage'')"
  shows "\<exists>m. engine_scan_storage e area_name keep_max 0 None v = (Inr m, fold max (map reading_id (area_data out e)) v)"
  using scan_keep_max [of "area_data out e" 0 0 v] assms
  by (auto simp: engine_scan_storage_def Let_def area_data_def)

lemma highest_stored_id_eq:
  "highest_stored_id s = Inr (fold max (map reading_id
     (area_data False (sl_engine (rsl_storage s)) @ area_data True (sl_engine (rsl_storage s)))) 0)"
proof -
  let ?e = "sl_engine (rsl_storage s)"
  obtain m where "engine_scan_storage ?e ''storage'' keep_max 0 None 0 = (Inr m, fold max (map reading_id (area_data False ?e)) 0)"
    using engine_scan_keep_max [of "''storage''" False] by auto
  moreover obtain m' where "engine_scan_storage ?e ''streaming'' keep_max 0 None (fold max (map reading_id (area_data False ?e)) 0) =
    (Inr m', fold max (map reading_id (area_data True ?e)) (fold max (map reading_id (area_data False ?e)) 0))"
    using engine_scan_keep_max [of "''streaming''" True] by auto
  ultimately show ?thesis by (simp add: highest_stored_id_def)
qed

lemma fold_max_bound: "\<forall>x \<in> set xs. x < n \<Longrightarrow> v < n \<Longrightarrow> fold max xs v < (n::int)"
  by (induction xs arbitrary: v) simp_all

lemma fold_max_upper: "v \<le> fold max xs v \<and> (\<forall>x \<in> set xs. x \<le> fold max xs (v :: int))"
proof (induction xs arbitrary: v)
  case (Cons x xs)
  show ?case using Cons.IH [of "max x v"] by (auto simp: max_def split: if_splits)
qed simp

lemma new_rsl_ids: "new_rsl model = Inr s \<Longrightarrow> ids_ok s"
  by (auto simp: new_rsl_def new_engine_def new_sensor_log_def bind_res_Inr_iff Let_def ids_ok_def
      increasing_below_def area_data_def)

section \<open>Dumping a stream\<close>

text \<open>The answers of \<open>n\<close> calls of \<open>dump_next\<close>; an exception ends them.\<close>

fun dump_answers :: "nat \<Rightarrow> rsl \<Rightarrow> dump_answer list" where
  "dump_answers 0 s = []"
| "dump_answers (Suc n) s = (case rsl_dump_next s of (Inl err, s1) \<Rightarrow> [] | (Inr a, s1) \<Rightarrow> a # dump_answers n s1)"

lemma dump_answers_all:
  assumes "rsl_dump_walker s = Some wid" "log_readable wid (rsl_storage s)"
  shows "dump_answers (length (log_contents wid (rsl_storage s)) + n) s =
    map DumpReading (log_contents wid (rsl_storage s)) @ replicate n DumpEmpty"
  using assms
proof (induction "log_contents wid (rsl_storage s)" arbitrary: s)
  case Nil
  have "rsl_dump_next s = (Inr DumpEmpty, s)"
    using Nil log_reader.pop_empty [OF Nil.prems(2)] by (simp add: rsl_dump_next_def on_storage_def map_state_def)
  then have "dump_answers n s = replicate n DumpEmpty" by (induction n) simp_all
  then show ?case using Nil(1) [symmetric] by simp
next
  case (Cons r rs)
  obtain log' where pop: "log_pop wid (rsl_storage s) = (Inr r, log')" "log_contents wid log' = rs" "log_readable wid log'"
    using log_reader.pop_next [OF Cons.prems(2) Cons.hyps(2) [symmetric]] by blast
  let ?s1 = "s\<lparr>rsl_storage := log'\<rparr>"
  have "rsl_dump_next s = (Inr (DumpReading r), ?s1)"
    using Cons.prems(1) pop(1) by (simp add: rsl_dump_next_def on_storage_def map_state_def)
  then show ?case using Cons.hyps(1) [of ?s1] Cons.hyps(2) [symmetric] Cons.prems pop by simp
qed

lemma log_create_readable:
  assumes "log_ok log" "sel_buffered sel"
  shows "\<exists>log'. log_create_walker sel False log = (Inr (sl_next log), log') \<and> log_ok log' \<and>
    log_contents (sl_next log) log' = matching sel (area_data (sel_output sel) (sl_engine log)) \<and>
    log_readable (sl_next log) log' \<and> sl_engine log' = sl_engine log"
proof -
  obtain log' where log': "log_create_walker sel False log = (Inr (sl_next log), log')" "log_ok log'"
    "log_contents (sl_next log) log' = matching sel (engine_area (sl_engine log) (area_of sel))" "sl_engine log' = sl_engine log"
    using log_create_walker_ok [OF assms(1), of sel False] assms(2) by auto
  obtain b where "sl_walkers log' (sl_next log) = Some (Buffered b)" "bw_ok (sl_engine log) b"
    using log'(1) assms(2) bw_new_ok [OF assms(2), of "sl_engine log" False]
    by (auto simp: log_create_walker_def alloc_walker_def)
  then have "log_readable (sl_next log) log'" using log'(4) by (simp add: log_readable_def walker_finite_def)
  then show ?thesis using log' engine_area_data by auto
qed

section \<open>Properties\<close>

text \<open>
  C17: reading ids.  In every state that a new sensor log subsystem reaches by pushes, clears, resets, dump
  operations, walkers and allocated report ids, the ids of the readings in each storage area increase from
  the oldest to the newest and are below the next id, so no id is stored twice in an area or given out
  again, and \<open>highest_stored_id\<close> returns an upper bound of the stored ids that is below the next id.
\<close>

theorem stored_ids_increase:
  assumes "new_rsl model = Inr s0" "rsl_step\<^sup>*\<^sup>* s0 s"
  shows "sorted_wrt (<) (map reading_id (area_data out (sl_engine (rsl_storage s)))) \<and>
    (\<exists>top. highest_stored_id s = Inr top \<and> 0 \<le> top \<and> top < rsl_next_id s \<and>
      (\<forall>r \<in> set (storage_data (sl_engine (rsl_storage s))) \<union> set (streaming_data (sl_engine (rsl_storage s))).
         0 < reading_id r \<and> reading_id r \<le> top))"
proof -
  let ?e = "sl_engine (rsl_storage s)" and ?n = "rsl_next_id s"
  let ?ids = "map reading_id (area_data False ?e @ area_data True ?e)"
  have inv: "1 \<le> ?n" "increasing_below ?n (area_data out ?e)" for out
    using rsl_run_ids [OF assms(2) new_rsl_ids [OF assms(1)]] by (simp_all add: ids_ok_def)
  have ids: "\<forall>i \<in> set ?ids. 0 < i \<and> i < ?n"
    using inv(2) [of True] inv(2) [of False] by (auto simp: increasing_below_def)
  have "fold max ?ids 0 < ?n" using fold_max_bound [of ?ids ?n 0] ids inv(1) by simp
  moreover have "0 \<le> fold max ?ids 0" "\<forall>i \<in> set ?ids. i \<le> fold max ?ids 0"
    using fold_max_upper [of 0 ?ids] by blast+
  ultimately show ?thesis
    using highest_stored_id_eq [of s] inv(2) [of out] ids
    by (auto simp: increasing_below_def area_data_def)
qed

theorem stored_ids_increase_witness:
  "\<exists>s0 top. new_rsl new_device_model = Inr s0 \<and>
     highest_stored_id (snd (rsl_push 0x1001 5 7 (snd (rsl_push 0x0001 3 9 s0)))) = Inr top \<and> top < 3"
proof -
  obtain s0 where s0: "new_rsl new_device_model = Inr s0" "rsl_next_id s0 = 1"
    by (auto simp: new_rsl_def new_engine_def new_sensor_log_def new_device_model_def dm_add_property_def dm_get_def Let_def)
  let ?s = "snd (rsl_push 0x1001 5 7 (snd (rsl_push 0x0001 3 9 s0)))"
  have "rsl_step\<^sup>*\<^sup>* s0 ?s"
    by (rule rtranclp.rtrancl_into_rtrancl [OF r_into_rtranclp]) (rule rsl_step.push)+
  from stored_ids_increase [OF s0(1) this, of True]
  obtain top where top: "highest_stored_id ?s = Inr top" "top < rsl_next_id ?s" by blast
  have next_id: "rsl_next_id (snd (rsl_push code t v s)) \<le> rsl_next_id s + 1" for code t v s
    by (auto simp: rsl_push_def rsl_storage_push_def allocate_id_def Let_def on_storage_def map_state_def
        split: prod.splits sum.splits if_splits)
  have "rsl_next_id ?s \<le> 3"
    using next_id [of "0x1001" 5 7 "snd (rsl_push 0x0001 3 9 s0)"] next_id [of "0x0001" 3 9 s0] s0(2) by simp
  with s0(1) top show ?thesis by (intro exI [of _ s0] exI [of _ top]) simp
qed

text \<open>
  Dumping a stream.  If the log is in step, \<open>dump_begin\<close> on the code of a selector of buffered streams
  (with no old dump walker or one still registered) reports the number of stored readings it covers, and the
  following calls of \<open>dump_next\<close> answer exactly these readings, oldest first, and from then on that there is none.
\<close>

theorem dump_reads_all:
  assumes "log_ok (rsl_storage s)" "sel_of_encoded code = Inr sel" "sel_buffered sel"
    "rsl_dump_walker s = None \<or> (\<exists>wid b. rsl_dump_walker s = Some wid \<and> wid \<in> set (sl_queue (rsl_storage s)))"
  shows "\<exists>s1. rsl_dump_begin code s = (Inr (NO_ERROR, NO_ERROR,
       int (length (matching sel (area_data (sel_output sel) (sl_engine (rsl_storage s)))))), s1) \<and>
    dump_answers (length (matching sel (area_data (sel_output sel) (sl_engine (rsl_storage s)))) + n) s1 =
      map DumpReading (matching sel (area_data (sel_output sel) (sl_engine (rsl_storage s)))) @ replicate n DumpEmpty"
proof -
  let ?rs = "matching sel (area_data (sel_output sel) (sl_engine (rsl_storage s)))"
  obtain s0 where s0: "(case rsl_dump_walker s of None \<Rightarrow> (Inr (), s) | Some wid \<Rightarrow> on_storage (log_destroy_walker wid) s) = (Inr (), s0)"
    "log_ok (rsl_storage s0)" "sl_engine (rsl_storage s0) = sl_engine (rsl_storage s)"
  proof (cases "rsl_dump_walker s")
    case (Some wid)
    then have wid: "wid \<in> set (sl_queue (rsl_storage s))" using assms(4) by auto
    then have "queue_walker_ok (sl_engine (rsl_storage s)) (sl_walkers (rsl_storage s) wid)"
      using assms(1) by (simp add: log_ok_def)
    then have "log_destroy_walker wid (rsl_storage s) =
        (Inr (), (rsl_storage s)\<lparr>sl_queue := remove1 wid (sl_queue (rsl_storage s))\<rparr>)"
      using wid by (auto simp: queue_walker_ok_iff log_destroy_walker_def py_remove_def walker_buffered_def bw_ok_def)
    moreover have "log_ok (snd (log_destroy_walker wid (rsl_storage s)))" by (rule log_destroy_walker_ok [OF assms(1)])
    ultimately show ?thesis using that Some by (simp add: on_storage_def map_state_def)
  qed (use that assms(1) in simp)
  obtain log' where log': "log_create_walker sel False (rsl_storage s0) = (Inr (sl_next (rsl_storage s0)), log')"
    "log_contents (sl_next (rsl_storage s0)) log' = ?rs" "log_readable (sl_next (rsl_storage s0)) log'"
    using log_create_readable [OF s0(2) assms(3)] s0(3) by auto
  let ?s1 = "s0\<lparr>rsl_storage := log', rsl_dump_walker := Some (sl_next (rsl_storage s0))\<rparr>"
  have "rsl_dump_begin code s = (Inr (NO_ERROR, NO_ERROR, int (length ?rs)), ?s1)"
    using s0(1) assms(2) log' log_reader.count_contents [OF log'(3)]
    by (simp add: rsl_dump_begin_def on_storage_def map_state_def)
  moreover have "dump_answers (length ?rs + n) ?s1 = map DumpReading ?rs @ replicate n DumpEmpty"
    using dump_answers_all [of ?s1 "sl_next (rsl_storage s0)" n] log' by simp
  ultimately show ?thesis by blast
qed

theorem dump_reads_all_witness:
  "\<exists>s1. rsl_dump_begin 1 \<lparr>rsl_storage = full_log True, rsl_dump_walker = None, rsl_next_id = 4\<rparr> =
     (Inr (0, 0, 3), s1) \<and>
   dump_answers 4 s1 = [DumpReading (sample_reading 1 10 1), DumpReading (sample_reading 1 20 2),
     DumpReading (sample_reading 1 30 3), DumpEmpty]"
proof -
  let ?s = "\<lparr>rsl_storage = full_log True, rsl_dump_walker = None, rsl_next_id = 4\<rparr>"
  let ?sel = "\<lparr>match_type = 0, match_id = Some 1, match_spec = 3\<rparr>"
  have sel: "sel_of_encoded 1 = Inr ?sel" "sel_buffered ?sel" "\<not> sel_output ?sel"
    by (code_simp, simp_all add: sel_defs)
  have "matching ?sel (area_data (sel_output ?sel) (sl_engine (rsl_storage ?s))) =
      [sample_reading 1 10 1, sample_reading 1 20 2, sample_reading 1 30 3]"
    using sel(3) by (simp add: full_log_fields area_data_def) (simp add: sample_defs)
  then show ?thesis
    using dump_reads_all [of ?s 1 ?sel 1] full_log_ok sel by (simp add: eval_nat_numeral)
qed

text \<open>
  Clearing.  If the output area can hold a reading, clearing a subsystem whose log is in step leaves exactly
  one reading stored, on the stream \<open>DATA_CLEARED\<close> with value 1 and the next id, so that the highest stored id is
  the highest id ever assigned.  Its raw time is the number of the stream, whatever the timestamp is: \<open>push\<close>
  gives the arguments of \<open>IOTileReading\<close> in the wrong order.
\<close>

theorem clear_keeps_id:
  assumes "log_ok (rsl_storage s)" "0 < streaming_length (sl_engine (rsl_storage s))" "0 \<le> rsl_next_id s"
  shows "\<exists>s1. rsl_clear timestamp s = (Inr NO_ERROR, s1) \<and> log_ok (rsl_storage s1) \<and>
    storage_data (sl_engine (rsl_storage s1)) = [] \<and>
    streaming_data (sl_engine (rsl_storage s1)) =
      [\<lparr>raw_time = DATA_CLEARED, r_stream = DATA_CLEARED, r_value = 1, reading_id = rsl_next_id s, reading_time = None\<rparr>] \<and>
    highest_stored_id s1 = Inr (rsl_next_id s) \<and> rsl_next_id s1 = rsl_next_id s + 1"
proof -
  let ?log = "log_clear (rsl_storage s)" and ?strm = "stream_of_encoded DATA_CLEARED"
  let ?n = "rsl_next_id s"
  have strm: "stream_buffered ?strm" "stream_output ?strm" "stream_encode ?strm = DATA_CLEARED" "stream_hashable ?strm"
    by code_simp+
  have ok: "log_ok ?log" using log_clear_ok(1) [OF assms(1)] .
  have e: "sl_engine ?log = engine_clear (sl_engine (rsl_storage s))" by (rule log_clear_engine)
  let ?r = "stamped (Some ?n) ?strm (new_reading DATA_CLEARED timestamp 1 None None None)"
  have r: "?r = \<lparr>raw_time = DATA_CLEARED, r_stream = DATA_CLEARED, r_value = 1, reading_id = ?n, reading_time = None\<rparr>"
    using strm by (simp add: stamped_def new_reading_def try_assign_utc_time_def DATA_CLEARED_def)
  have room: "stream_buffered ?strm \<longrightarrow> int (length (area_data (stream_output ?strm) (sl_engine ?log)))
       \<noteq> area_capacity (stream_output ?strm) (sl_engine ?log)"
    using assms(2) strm(2) by (simp add: e engine_clear_def area_data_def area_capacity_def)
  have push: "log_push (Some ?n) ?strm (new_reading DATA_CLEARED timestamp 1 None None None) ?log =
      (Inr (), after_push ?strm ?r ?log)"
    using log_push_room [OF ok stream_of_encoded_encodable strm(4)] room by simp
  have sof: "stream_of_encoded (r_stream ?r) = ?strm" by (simp add: r)
  let ?s1 = "s\<lparr>rsl_storage := after_push ?strm ?r ?log, rsl_next_id := ?n + 1\<rparr>"
  have clear: "rsl_clear timestamp s = (Inr NO_ERROR, ?s1)"
    using push strm(1) by (simp add: rsl_clear_def rsl_push_def rsl_storage_push_def allocate_id_def on_storage_def map_state_def Let_def)
  have "log_ok (rsl_storage ?s1)" using after_push_ok [OF ok sof] room by simp
  moreover have eng: "sl_engine (rsl_storage ?s1) = set_area True [?r] (engine_clear (sl_engine (rsl_storage s)))"
    using strm e by (simp add: stored_def set_area_def area_data_def engine_clear_def)
  ultimately show ?thesis
    using clear r highest_stored_id_eq [of ?s1] assms(3)
    by (simp add: set_area_def area_data_def engine_clear_def)
qed

theorem clear_keeps_id_witness:
  "\<exists>s1. rsl_clear 77 \<lparr>rsl_storage = full_log True, rsl_dump_walker = None, rsl_next_id = 4\<rparr> = (Inr 0, s1) \<and>
     map raw_time (streaming_data (sl_engine (rsl_storage s1))) = [DATA_CLEARED]"
  using clear_keeps_id [of "\<lparr>rsl_storage = full_log True, rsl_dump_walker = None, rsl_next_id = 4\<rparr>" 77] full_log_ok
  by (auto simp: full_log_fields)

end
