(* ===== verification/Stream_Manager.thy ===== *)
theory Stream_Manager
  imports Streamers Emulated_Log
begin

text \<open>
  The stream manager of the emulated controller
  (\<open>iotile/emulate/reference/controller_features/stream_manager.py\<close>): a queue of triggered streamers whose
  readings a background task turns into reports and hands to the device.
\<close>

section \<open>State\<close>

record queued_streamer =
  q_status :: int
  q_streamer :: data_streamer
  q_callback :: bool
  q_initial_count :: int
  q_sent_count :: int
  q_highest_ack :: int

text \<open>\<open>ss_world\<close> is whatever else the device and the callbacks act on.\<close>

record 'w stream_state =
  ss_in_progress :: "int option set"
  ss_queue :: "queued_streamer list"
  ss_rsl :: rsl
  ss_world :: 'w

text \<open>
  What the task calls: \<open>se_stream\<close> is \<open>device.stream\<close> together with everything other tasks do while it is
  awaited, and \<open>se_finished\<close> the callback given with a streamer.
\<close>

record 'w stream_env =
  se_aes :: "byte list \<Rightarrow> byte list \<Rightarrow> byte list"
  se_auth :: signer
  se_now :: datetime
  se_iotile_id :: int
  se_uptime :: int
  se_stream :: "any_report \<Rightarrow> 'w stream_state \<Rightarrow> (bool, 'w stream_state) act"
  se_finished :: "int option \<Rightarrow> bool \<Rightarrow> int \<Rightarrow> 'w stream_state \<Rightarrow> (unit, 'w stream_state) act"

definition MAX_REPORT_SIZE :: int where "MAX_REPORT_SIZE = 3 * 64 * 1024"

definition new_stream_manager :: "rsl \<Rightarrow> 'w \<Rightarrow> 'w stream_state" where
  "new_stream_manager s w = \<lparr>ss_in_progress = {}, ss_queue = [], ss_rsl = s, ss_world = w\<rparr>"

definition new_queued_streamer :: "data_streamer \<Rightarrow> bool \<Rightarrow> sensor_log \<Rightarrow> queued_streamer res" where
  "new_queued_streamer st callback log =
     (case st_walker st of
        None \<Rightarrow> Inl AttributeError
      | Some wid \<Rightarrow> Inr \<lparr>q_status = 1, q_streamer = st, q_callback = callback,
          q_initial_count = log_count wid log, q_sent_count = 0, q_highest_ack = 0\<rparr>)"

definition q_remaining :: "queued_streamer \<Rightarrow> int" where
  "q_remaining q = q_initial_count q - q_sent_count q"

definition record_acknowledgement :: "int \<Rightarrow> queued_streamer \<Rightarrow> queued_streamer" where
  "record_acknowledgement ack q = (if ack > q_highest_ack q then q\<lparr>q_highest_ack := ack\<rparr> else q)"

definition sm_in_progress :: "'w stream_state \<Rightarrow> int option set" where
  "sm_in_progress s = ss_in_progress s"

definition sm_clear_to_reset :: "'w stream_state \<Rightarrow> 'w stream_state" where
  "sm_clear_to_reset s = s\<lparr>ss_in_progress := {}\<rparr>"

definition process_streamer :: "data_streamer \<Rightarrow> bool \<Rightarrow> 'w stream_state \<Rightarrow> (unit, 'w stream_state) act" where
  "process_streamer st callback s =
     (if st_index st \<in> ss_in_progress s then (Inl InternalError, s)
      else case new_queued_streamer st callback (rsl_storage (ss_rsl s)) of
        Inl err \<Rightarrow> (Inl err, s)
      | Inr q \<Rightarrow> (Inr (), s\<lparr>ss_in_progress := insert (st_index st) (ss_in_progress s), ss_queue := ss_queue s @ [q]\<rparr>))"

section \<open>The background task\<close>

text \<open>\<open>_build_report\<close>.\<close>

definition sm_build_report ::
  "'w stream_env \<Rightarrow> data_streamer \<Rightarrow> 'w stream_state \<Rightarrow> (streamer_report, 'w stream_state) act" where
  "sm_build_report env st s =
     (case (if requires_id st then (case allocate_id (ss_rsl s) of (i, r) \<Rightarrow> (Some i, r)) else (None, ss_rsl s)) of
        (rid, r) \<Rightarrow>
          map_state (\<lambda>r'. s\<lparr>ss_rsl := r'\<rparr>)
            (on_storage (build_report (se_aes env) (se_auth env) (se_now env) (se_iotile_id env) (Some MAX_REPORT_SIZE)
               (se_uptime env) rid False st) r))"

fun is_individual :: "any_report \<Rightarrow> bool" where
  "is_individual (Individual rep) = True"
| "is_individual _ = False"

text \<open>One round of the loop over a queued streamer.\<close>

definition stream_one ::
  "'w stream_env \<Rightarrow> queued_streamer \<Rightarrow> 'w stream_state \<Rightarrow> (bool, queued_streamer \<times> 'w stream_state) act" where
  "stream_one env q s =
     (case sm_build_report env (q_streamer q) s of
        (Inl err, s1) \<Rightarrow> (Inl err, (q, s1))
      | (Inr r, s1) \<Rightarrow>
          let q1 = q\<lparr>q_sent_count := q_sent_count q + sr_num_readings r\<rparr>;
              q2 = (if is_individual (sr_report r) then record_acknowledgement (sr_highest_id r) q1 else q1)
          in map_state (\<lambda>s2. (q2, s2)) (se_stream env (sr_report r) s1))"

text \<open>The loop; an exception ends it without success.\<close>

partial_function (option) stream_loop ::
  "'w stream_env \<Rightarrow> queued_streamer \<Rightarrow> bool \<Rightarrow> 'w stream_state
   \<Rightarrow> (bool \<times> queued_streamer \<times> 'w stream_state) option" where
  "stream_loop env q success s =
     (if q_remaining q > 0 then
        (case stream_one env q s of
           (Inl err, (q1, s1)) \<Rightarrow> Some (False, q1, s1)
         | (Inr ok, (q1, s1)) \<Rightarrow> stream_loop env q1 ok s1)
      else Some (success, q, s))"

declare stream_loop.simps [simp del]

text \<open>
  One round of \<open>_reset_vector\<close>: the next queued streamer is served.  \<open>set.remove\<close> raises \<open>KeyError\<close> for an
  index that is not in progress (any more), out of the \<open>finally\<close> block, which ends the task.
\<close>

definition serve_next :: "'w stream_env \<Rightarrow> 'w stream_state \<Rightarrow> (unit, 'w stream_state) act option" where
  "serve_next env s =
     (case ss_queue s of
        [] \<Rightarrow> Some (Inr (), s)
      | q # rest \<Rightarrow>
          map_option (\<lambda>(success, q1, s1).
            let index = st_index (q_streamer q1) in
            if index \<notin> ss_in_progress s1 then (Inl KeyError, s1)
            else
              let s2 = s1\<lparr>ss_in_progress := ss_in_progress s1 - {index}\<rparr> in
              (Inr (), if q_callback q1 then snd (se_finished env index success (q_highest_ack q1) s2) else s2))
            (stream_loop env q False (s\<lparr>ss_queue := rest\<rparr>)))"

section \<open>The loop ends\<close>

lemma collect_readings_length:
  "collect_readings n wid acc h log = (Inr (rs, h2), log') \<Longrightarrow> acc \<noteq> [] \<or> 0 < n \<Longrightarrow> rs \<noteq> []"
proof (induction n arbitrary: acc h log)
  case (Suc n)
  then show ?case by (auto split: prod.splits sum.splits if_splits)
qed simp

lemma build_report_counts:
  assumes "build_report aes auth now dev limit uptime rid chain st log = (Inr r, log')"
  shows "1 \<le> sr_num_readings r"
proof -
  obtain wid i where w: "st_walker st = Some wid" "st_index st = Some i"
    using assms by (auto simp: build_report_def split: option.splits)
  consider "build_individual now dev uptime (st_report_type st) wid log = (Inr r, log')"
    | "build_hashed_list aes auth now dev limit uptime (the rid) i (st_selector st) wid log = (Inr r, log')"
    using assms w by (auto simp: build_report_def split: if_splits)
  then show ?thesis
  proof cases
    case 1
    then show ?thesis
      by (auto simp: build_individual_def streamer_result_def map_sum_def split: prod.splits sum.splits if_splits)
  next
    case 2
    then obtain l where l: "limit = Some l" "\<not> (l - 20 - 24) div 16 \<le> 0"
      by (auto simp: build_hashed_list_def Let_def split: option.splits if_splits)
    obtain x log1 where col: "collect_readings (nat ((l - 20 - 24) div 16)) wid [] 0 log = (x, log1)" by fastforce
    then obtain rs h2 where x: "x = Inr (rs, h2)"
      using 2 l by (cases x) (auto simp: build_hashed_list_def Let_def)
    then have "rs \<noteq> []" using collect_readings_length [OF col [unfolded x]] l(2) by simp
    moreover have "sr_num_readings r = int (length rs)"
      using 2 l col x by (auto simp: build_hashed_list_def Let_def streamer_result_def bind_res_Inr_iff map_sum_def split: sum.splits)
    ultimately show ?thesis by (cases rs) auto
  qed
qed

lemma stream_one_remaining:
  assumes "stream_one env q s = (Inr ok, (q1, s1))"
  shows "q_remaining q1 < q_remaining q"
proof -
  obtain r s2 where r: "sm_build_report env (q_streamer q) s = (Inr r, s2)"
    using assms by (auto simp: stream_one_def split: prod.splits sum.splits)
  then obtain rid t log where "build_report (se_aes env) (se_auth env) (se_now env) (se_iotile_id env) (Some MAX_REPORT_SIZE)
               (se_uptime env) rid False (q_streamer q) t = (Inr r, log)"
    by (auto simp: sm_build_report_def on_storage_def map_state_def split: prod.splits) (metis prod.collapse)
  from build_report_counts [OF this] show ?thesis
    using assms r
    by (auto simp: stream_one_def Let_def map_state_def q_remaining_def record_acknowledgement_def split: prod.splits if_splits)
qed

lemma stream_loop_ends: "\<exists>y. stream_loop env q success s = Some y"
proof (induction "nat (q_remaining q)" arbitrary: q success s rule: less_induct)
  case less
  show ?case
  proof (cases "q_remaining q > 0")
    case True
    obtain res q1 s1 where one: "stream_one env q s = (res, (q1, s1))" by (metis prod.exhaust)
    show ?thesis
    proof (cases res)
      case (Inr ok)
      then have "q_remaining q1 < q_remaining q" using stream_one_remaining one by blast
      then have "\<exists>y. stream_loop env q1 ok s1 = Some y" using less.hyps [of q1] True by simp
      then show ?thesis using True one Inr by (subst stream_loop.simps) simp
    next
      case (Inl err)
      then have "stream_loop env q success s = Some (False, q1, s1)"
        using True one by (subst stream_loop.simps) simp
      then show ?thesis by blast
    qed
  next
    case False
    then have "stream_loop env q success s = Some (success, q, s)" by (subst stream_loop.simps) simp
    then show ?thesis by blast
  qed
qed

section \<open>Everything arrives\<close>

fun any_readings :: "any_report \<Rightarrow> reading list" where
  "any_readings (Individual rep) = visible_readings rep"
| "any_readings (SignedList rep) = visible_readings rep"
| "any_readings (Broadcast rep) = visible_readings rep"

text \<open>A device that takes every report, while nothing else happens.\<close>

definition recording :: "any_report list stream_env \<Rightarrow> bool" where
  "recording env \<longleftrightarrow> (\<forall>r s. se_stream env r s = (Inr True, s\<lparr>ss_world := ss_world s @ [r]\<rparr>))"

text \<open>The log of the state and the walker of a streamer are such that its reports can be built.\<close>

definition streamable :: "any_report list stream_env \<Rightarrow> data_streamer \<Rightarrow> nat \<Rightarrow> rsl \<Rightarrow> bool" where
  "streamable env st wid t \<longleftrightarrow> list_streamer MAX_REPORT_SIZE st \<and> st_walker st = Some wid \<and>
     log_readable wid (rsl_storage t) \<and> list_all packable (log_contents wid (rsl_storage t)) \<and>
     0 \<le> se_iotile_id env \<and> se_iotile_id env < 256 ^ 4 \<and> 0 \<le> se_uptime env \<and> se_uptime env < 256 ^ 4 \<and>
     0 \<le> rsl_next_id t \<and> rsl_next_id t + int (length (log_contents wid (rsl_storage t))) \<le> 256 ^ 4"

abbreviation (input) request_of :: "'w stream_env \<Rightarrow> report_request \<Rightarrow> any_report res" where
  "request_of env \<equiv> build_request (se_aes env) (se_auth env) (se_now env)"

lemma stream_one_list:
  assumes "streamable env st wid (ss_rsl s)" "recording env" "q_streamer q = st"
    "log_contents wid (rsl_storage (ss_rsl s)) \<noteq> []"
  defines "rs \<equiv> log_contents wid (rsl_storage (ss_rsl s))" and "k \<equiv> per_report MAX_REPORT_SIZE"
  shows "\<exists>req rep t. stream_one env q s = (Inr True,
      (q\<lparr>q_sent_count := q_sent_count q + int (min (length rs) k)\<rparr>,
       s\<lparr>ss_rsl := t, ss_world := ss_world s @ [rep]\<rparr>)) \<and>
    request_of env req = Inr rep \<and> any_readings rep = map (received (se_now env - seconds (se_uptime env))) (take k rs) \<and>
    log_contents wid (rsl_storage t) = drop k rs \<and> streamable env st wid t"
proof -
  let ?t = "(ss_rsl s)\<lparr>rsl_next_id := rsl_next_id (ss_rsl s) + 1\<rparr>" and ?n = "rsl_next_id (ss_rsl s)"
  note a = assms(1) [unfolded streamable_def]
  have len: "0 < length rs" using assms(4) by (simp add: rs_def)
  then have "1 \<le> int (length rs)" by linarith
  then have n: "?n < 256 ^ 4" using a unfolding rs_def by linarith
  obtain rep log' where rep: "build_report (se_aes env) (se_auth env) (se_now env) (se_iotile_id env) (Some MAX_REPORT_SIZE)
       (se_uptime env) (Some ?n) False st (rsl_storage (ss_rsl s)) =
      (Inr \<lparr>sr_report = SignedList rep, sr_num_readings = int (min (length rs) k),
        sr_highest_id = fold max (map reading_id (take k rs)) 0\<rparr>, log')"
    "\<exists>code i. signed_list_from_readings (se_aes env) (se_auth env) None (se_now env) (se_iotile_id env) (take k rs) NoKey ?n code i
        (se_uptime env) = Inr rep"
    "visible_readings rep = map (received (se_now env - seconds (se_uptime env))) (take k rs)"
    "log_contents wid log' = drop k rs" "log_readable wid log'"
    using build_list_report [of MAX_REPORT_SIZE st wid "rsl_storage (ss_rsl s)" "se_iotile_id env" "se_uptime env" ?n
        "se_aes env" "se_auth env" "se_now env" False] a assms(4) n
    unfolding rs_def k_def by blast
  let ?t' = "?t\<lparr>rsl_storage := log'\<rparr>"
  have id: "requires_id st" using a by (simp add: requires_id_def list_streamer_def)
  have "sm_build_report env st s = (Inr \<lparr>sr_report = SignedList rep, sr_num_readings = int (min (length rs) k),
        sr_highest_id = fold max (map reading_id (take k rs)) 0\<rparr>, s\<lparr>ss_rsl := ?t'\<rparr>)"
    using rep(1) id by (simp add: sm_build_report_def allocate_id_def on_storage_def map_state_def)
  then have "stream_one env q s = (Inr True, (q\<lparr>q_sent_count := q_sent_count q + int (min (length rs) k)\<rparr>,
       s\<lparr>ss_rsl := ?t', ss_world := ss_world s @ [SignedList rep]\<rparr>))"
    using assms(2,3) by (simp add: stream_one_def recording_def map_state_def Let_def)
  moreover obtain code i where "signed_list_from_readings (se_aes env) (se_auth env) None (se_now env) (se_iotile_id env)
      (take k rs) NoKey ?n code i (se_uptime env) = Inr rep"
    using rep(2) by blast
  then have "request_of env (SignedListOf (se_iotile_id env) (take k rs) NoKey ?n code i (se_uptime env)) =
      Inr (SignedList rep)"
    by simp
  moreover have "0 < k" using per_report_pos by (simp add: k_def MAX_REPORT_SIZE_def)
  then have "int (length rs - k) + 1 \<le> int (length rs)" using len by linarith
  then have "streamable env st wid ?t'"
    using a rep(4,5) by (auto simp: streamable_def list_all_iff rs_def [symmetric] dest: in_set_dropD)
  ultimately show ?thesis using rep(3,4)
    by (intro exI conjI) (assumption | simp)+
qed

lemma stream_loop_delivers:
  assumes "streamable env st wid (ss_rsl s)" "recording env" "q_streamer q = st"
    "q_remaining q = int (length (log_contents wid (rsl_storage (ss_rsl s))))"
  shows "\<exists>reqs reps t n. stream_loop env q success s = Some (success \<or> reps \<noteq> [], q\<lparr>q_sent_count := n\<rparr>,
       s\<lparr>ss_rsl := t, ss_world := ss_world s @ reps\<rparr>) \<and>
    map_res (request_of env) reqs = Inr reps \<and>
    concat (map any_readings reps) =
      map (received (se_now env - seconds (se_uptime env))) (log_contents wid (rsl_storage (ss_rsl s))) \<and>
    log_contents wid (rsl_storage t) = []"
  using assms
proof (induction "length (log_contents wid (rsl_storage (ss_rsl s)))" arbitrary: q success s rule: less_induct)
  case less
  let ?rs = "log_contents wid (rsl_storage (ss_rsl s))" and ?k = "per_report MAX_REPORT_SIZE"
  show ?case
  proof (cases "?rs = []")
    case True
    then have "stream_loop env q success s = Some (success, q\<lparr>q_sent_count := q_sent_count q\<rparr>, s\<lparr>ss_rsl := ss_rsl s, ss_world := ss_world s @ []\<rparr>)"
      using less.prems(4) by (subst stream_loop.simps) simp
    moreover have "map_res (request_of env) [] = Inr []" by simp
    ultimately show ?thesis using True by (intro exI [of _ "[]"] exI [of _ "ss_rsl s"] exI [of _ "q_sent_count q"]) simp
  next
    case False
    obtain req rep t where one: "stream_one env q s = (Inr True,
        (q\<lparr>q_sent_count := q_sent_count q + int (min (length ?rs) ?k)\<rparr>, s\<lparr>ss_rsl := t, ss_world := ss_world s @ [rep]\<rparr>))"
      "request_of env req = Inr rep" "any_readings rep = map (received (se_now env - seconds (se_uptime env))) (take ?k ?rs)"
      "log_contents wid (rsl_storage t) = drop ?k ?rs" "streamable env st wid t"
      using stream_one_list [OF less.prems(1-3) False] by blast
    let ?q1 = "q\<lparr>q_sent_count := q_sent_count q + int (min (length ?rs) ?k)\<rparr>"
    let ?s1 = "s\<lparr>ss_rsl := t, ss_world := ss_world s @ [rep]\<rparr>"
    have k: "0 < ?k" using per_report_pos by (simp add: MAX_REPORT_SIZE_def)
    have "length (drop ?k ?rs) < length ?rs" using k False by simp
    moreover have "q_remaining ?q1 = int (length (drop ?k ?rs))"
      using less.prems(4) by (simp add: q_remaining_def)
    ultimately obtain reqs reps t' n where ih: "stream_loop env ?q1 True ?s1 = Some (True \<or> reps \<noteq> [], ?q1\<lparr>q_sent_count := n\<rparr>,
        ?s1\<lparr>ss_rsl := t', ss_world := ss_world ?s1 @ reps\<rparr>)" "map_res (request_of env) reqs = Inr reps"
      "concat (map any_readings reps) = map (received (se_now env - seconds (se_uptime env))) (drop ?k ?rs)"
      "log_contents wid (rsl_storage t') = []"
      using less.hyps [of ?s1 ?q1 True] one(4,5) less.prems(2,3) by (auto simp del: length_drop)
    have "q_remaining q > 0" using less.prems(4) False by simp
    then have loop: "stream_loop env q success s = Some (success \<or> rep # reps \<noteq> [], q\<lparr>q_sent_count := n\<rparr>,
        s\<lparr>ss_rsl := t', ss_world := ss_world s @ rep # reps\<rparr>)"
      using one(1) ih(1) by (subst stream_loop.simps) simp
    have reqs: "map_res (request_of env) (req # reqs) = Inr (rep # reps)" using one(2) ih(2) by simp
    have "map f (take ?k ?rs) @ map f (drop ?k ?rs) = map f ?rs" for f :: "reading \<Rightarrow> reading"
      by (simp flip: map_append)
    then have readings: "concat (map any_readings (rep # reps)) = map (received (se_now env - seconds (se_uptime env))) ?rs"
      using one(3) ih(3) by simp
    show ?thesis using loop reqs readings ih(4) by blast
  qed
qed

text \<open>
  C19: the background task always gets on.  Whatever the device, other tasks and the callbacks do, serving a
  queued streamer returns: every round of the loop either raises, which is caught, or sends at least one reading
  of the number that was there when the streamer was queued.
\<close>

theorem serve_returns: "\<exists>y. serve_next env s = Some y"
proof (cases "ss_queue s")
  case (Cons q rest)
  obtain y where "stream_loop env q False (s\<lparr>ss_queue := rest\<rparr>) = Some y" using stream_loop_ends by blast
  then show ?thesis using Cons by (simp add: serve_next_def)
qed (simp add: serve_next_def)

text \<open>
  C2: from the log to the other end.  Let a list streamer be queued on an idle manager.  If the device takes
  every report and nothing interferes, serving the queue sends reports that empty the streamer's walker and frees
  the streamer; and however the bytes of these reports are cut into chunks, a report parser at the other end
  recovers the reports, whose readings are together exactly the readings that were waiting, in order, each equal
  to the original as \<open>__eq__\<close> compares them.
\<close>

theorem streaming_end_to_end:
  assumes "recording env" "streamable env st wid t" "process_streamer st False (new_stream_manager t []) = (Inr (), s)"
  shows "\<exists>s'. serve_next env s = Some (Inr (), s') \<and> ss_queue s' = [] \<and> ss_in_progress s' = {} \<and>
    log_contents wid (rsl_storage (ss_rsl s')) = [] \<and>
    list_all2 reading_eq (concat (map any_readings (ss_world s'))) (log_contents wid (rsl_storage t)) \<and>
    (\<forall>chunks. concat chunks = concat (map any_raw_report (ss_world s')) \<longrightarrow>
      (\<exists>q. feed (known_parser (se_aes env) (se_auth env) (se_now env) None errors) chunks new_parser = Some (Inr (), q) \<and>
         p_reports q = ss_world s'))"
proof -
  let ?rs = "log_contents wid (rsl_storage t)"
  have st: "st_walker st = Some wid" "log_readable wid (rsl_storage t)" using assms(2) by (simp_all add: streamable_def)
  let ?q = "\<lparr>q_status = 1, q_streamer = st, q_callback = False, q_initial_count = log_count wid (rsl_storage t),
      q_sent_count = 0, q_highest_ack = 0\<rparr>"
  have s: "s = \<lparr>ss_in_progress = {st_index st}, ss_queue = [?q], ss_rsl = t, ss_world = []\<rparr>"
    using assms(3) st(1) by (simp add: process_streamer_def new_stream_manager_def new_queued_streamer_def)
  let ?s0 = "s\<lparr>ss_queue := []\<rparr>"
  have "q_remaining ?q = int (length ?rs)"
    using log_reader.count_contents [OF st(2)] by (simp add: q_remaining_def)
  then obtain reqs reps t' n where loop: "stream_loop env ?q False ?s0 = Some (False \<or> reps \<noteq> [], ?q\<lparr>q_sent_count := n\<rparr>,
       ?s0\<lparr>ss_rsl := t', ss_world := ss_world ?s0 @ reps\<rparr>)" "map_res (request_of env) reqs = Inr reps"
    "concat (map any_readings reps) = map (received (se_now env - seconds (se_uptime env))) ?rs"
    "log_contents wid (rsl_storage t') = []"
    using stream_loop_delivers [of env st wid ?s0 ?q False] assms(1,2) s by auto
  let ?s' = "\<lparr>ss_in_progress = {}, ss_queue = [], ss_rsl = t', ss_world = reps\<rparr>"
  have serve: "serve_next env s = Some (Inr (), ?s')"
    using loop(1) s by (simp add: serve_next_def)
  have eq: "list_all2 reading_eq (concat (map any_readings reps)) ?rs"
    unfolding loop(3) list_all2_map1 by (rule list_all2_refl) (rule received_eq)
  have "\<exists>q. feed (known_parser (se_aes env) (se_auth env) (se_now env) None errors) chunks new_parser = Some (Inr (), q) \<and>
      p_reports q = reps" if "concat chunks = concat (map any_raw_report reps)" for chunks
    using delivers [OF loop(2) that] by blast
  then show ?thesis using serve eq loop(4) by (intro exI [of _ ?s']) simp
qed

definition sample_env :: "any_report list stream_env" where
  "sample_env = \<lparr>se_aes = toy_cipher, se_auth = (\<lambda>kt dev rid sent. Inl NotFoundError), se_now = 0, se_iotile_id = 5,
     se_uptime = 20, se_stream = (\<lambda>r s. (Inr True, s\<lparr>ss_world := ss_world s @ [r]\<rparr>)),
     se_finished = (\<lambda>i ok ack s. (Inr (), s))\<rparr>"

definition sample_rsl :: rsl where
  "sample_rsl = \<lparr>rsl_storage = full_log False, rsl_dump_walker = None, rsl_next_id = 4\<rparr>"

lemma sample_streamable: "recording sample_env" "streamable sample_env sample_streamer 0 sample_rsl"
proof -
  show "recording sample_env" by (simp add: recording_def sample_env_def)
  have "list_streamer MAX_REPORT_SIZE sample_streamer"
    by (simp add: sample_list_streamer MAX_REPORT_SIZE_def)
  then show "streamable sample_env sample_streamer 0 sample_rsl"
    using full_log_readable [of False] full_log_packable [of False]
    by (simp add: streamable_def sample_rsl_def) (simp add: sample_env_def sample_streamer_def full_log_contents)
qed

theorem streaming_end_to_end_witness:
  "\<exists>s s'. process_streamer sample_streamer False (new_stream_manager sample_rsl []) = (Inr (), s) \<and>
     serve_next sample_env s = Some (Inr (), s') \<and>
     list_all2 reading_eq (concat (map any_readings (ss_world s')))
       [sample_reading 1 10 1, sample_reading 1 20 2, sample_reading 1 30 3]"
proof -
  obtain s where "process_streamer sample_streamer False (new_stream_manager sample_rsl ([] :: any_report list)) = (Inr (), s)"
    by (auto simp: process_streamer_def new_stream_manager_def new_queued_streamer_def sample_streamer_def)
  moreover from streaming_end_to_end [OF sample_streamable(1,2) this] obtain s' where
    "serve_next sample_env s = Some (Inr (), s')"
    "list_all2 reading_eq (concat (map any_readings (ss_world s'))) (log_contents 0 (rsl_storage sample_rsl))"
    by blast
  ultimately show ?thesis by (auto simp: sample_rsl_def full_log_contents)
qed

end
