(* ===== verification/Spec2Isabelle.thy ===== *)
theory Spec2Isabelle
  imports Clock_Manager Supervisor Remote_Bridge Graph_Optimizer Aws_Connections Mqtt_Packets Versions Utc_Assigner Tile_Manager Sensor_Log Slots Nodes Node_Descriptor Streamer_Descriptor Processors Auth Report_Parser Stream_Manager
begin

text \<open>
  A verification library for \<open>iotile/coretools\<close>.

  The program is a set of Python packages around IOTile devices.  The library models its core logic: the
  sensor graph engine (\<open>iotilesensorgraph/iotile/sg\<close>), the reports with which readings travel
  (\<open>iotilecore/iotile/core/hw/reports\<close>, \<open>.../hw/auth\<close>), the remote procedure calls between tiles
  (\<open>.../hw/virtual\<close>), the emulated controller and its tiles
  (\<open>iotileemulate/iotile/emulate/reference/controller_features\<close>, \<open>iotileemulate/iotile/emulate/virtual\<close>), the
  compiler and the optimizer of the sensor graph language (\<open>sg/parser\<close>, \<open>sg/optimizer\<close>), the state machines of two
  transports (\<open>transport_plugins/native_ble\<close>, \<open>transport_plugins/awsiot\<close>), the supervisor of the gateway's services
  (\<open>iotilegateway/supervisor\<close>) and semantic versions (\<open>iotile/core/dev/semver.py\<close>).

  How the parts interact.  A reading is pushed into a sensor log on a stream; the log keeps buffered streams in
  the two areas of a storage engine and tells stream walkers about them.  Walkers are the inputs of graph nodes
  and the source of data streamers.  A streamer packs what its walker has into a report; the stream manager of
  the controller sends reports until the walker is empty; a report parser at the other end takes them apart.
  A graph is put on a device by an update script: the graph is turned into records, the script is streamed to the
  remote bridge of the controller, which reads it back when it is triggered.
  A tile that starts registers with the tile manager of the controller; the manager takes the variables that the
  config database has for it, sends them with RPCs and then the start call, and the tile latches its variables.
  Sensor graph files are compiled statement by statement into a graph, which the optimizer rewrites.  A report that
  was decoded gets the times of its readings from the UTC assigner.  A transport keeps its connections in a connection
  manager, whose worker handles queued requests and answers; the MQTT transport numbers its packets so that they can
  be put back in order.  Services of a gateway register with the supervisor, which tells every connected client what
  changed and carries RPCs to the agent of a service.

  Theories, in the order of the code's layers:
  \<^item> \<open>Prelude\<close>: errors, results, state passing, Python text, numbers, bytes and \<open>struct\<close> packing.  An exception
    is a value of \<open>error\<close>; an operation on a state returns \<open>(Inl exception or Inr result, state after)\<close>, so
    the effects made before an exception are kept as Python keeps them.
  \<^item> \<open>Streams\<close> (\<open>sg/stream.py\<close>): streams and selectors, their text and their 16-bit codes.
  \<^item> \<open>Device_Model\<close> (\<open>sg/model.py\<close>), \<open>Readings\<close> (\<open>hw/reports/report.py\<close>).
  \<^item> \<open>Storage_Engine\<close> (\<open>sg/engine/in_memory.py\<close>), \<open>Walkers\<close> (\<open>sg/walker.py\<close>), \<open>Sensor_Log\<close>
    (\<open>sg/sensor_log.py\<close>): the log is a record with the engine, a store of walkers by number, the queue of the
    buffered and the list of the virtual ones; the unread readings of a walker are \<open>log_contents\<close>.
  \<^item> \<open>Slots\<close> (\<open>sg/slot.py\<close>), \<open>Nodes\<close> (\<open>sg/node.py\<close>), \<open>Node_Descriptor\<close> (\<open>sg/node_descriptor.py\<close>),
    \<open>Processors\<close> (\<open>sg/processors.py\<close>).
  \<^item> \<open>Sensor_Graph\<close>, \<open>Graph_Process\<close>, \<open>Graph_Invariant\<close>, \<open>Graph_Dump\<close>, \<open>Graph_Reachable\<close> (\<open>sg/graph.py\<close>): the
    graph is a record with a store of nodes; references between nodes are positions in the store.  The first theory
    has the operations, the second how an input runs through the nodes, the third what each operation keeps, the
    fourth the walk over the nodes, the dumps, binary forms and checksums, the last the graphs that any sequence of
    the operations reaches.
  \<^item> \<open>Hashing\<close>, \<open>Auth\<close> (\<open>hw/auth\<close>): SHA-256, HMAC, key derivation and key providers.
  \<^item> \<open>Reports\<close> (\<open>hw/reports/*_format.py\<close>, \<open>broadcast.py\<close>), \<open>Report_Parser\<close> (\<open>hw/reports/parser.py\<close>).
  \<^item> \<open>Streamers\<close> (\<open>sg/streamer.py\<close>), \<open>Streamer_Descriptor\<close> (\<open>sg/streamer_descriptor.py\<close>), \<open>Emulated_Log\<close> and \<open>Stream_Manager\<close> (the emulated controller).
  \<^item> \<open>Rpc_Payload\<close> (\<open>hw/virtual/common_types.py\<close>): argument formats, status codes, the dispatcher.  \<open>served\<close> is
    the relation between the states of a service before and after calls with any numbers and payloads.
  \<^item> \<open>Error_Codes\<close>, \<open>Base64\<close>, \<open>Config_Database\<close> (\<open>config_database.py\<close>), \<open>Tile_Config\<close>
    (\<open>virtual/emulated_tile.py\<close>), \<open>Tile_Manager\<close> (\<open>tile_manager.py\<close>, \<open>virtual/peripheral_tile.py\<close>): the store
    of config variables, the variables of a tile, and the protocol with which a tile starts.
  \<^item> \<open>Update_Records\<close> (\<open>hw/update/record.py\<close>, \<open>hw/update/records\<close>, \<open>sg/update\<close>), \<open>Update_Script\<close>
    (\<open>hw/update/script.py\<close>), \<open>Script_Format\<close> (\<open>sg/output_formats/script.py\<close>): the records of update scripts,
    how the best class for a binary record is found, and the script that installs a graph.
  \<^item> \<open>Remote_Bridge\<close> (\<open>controller_features/remote_bridge.py\<close>, \<open>hw/app/updater_app.py\<close>): the calls with which
    a device receives a script as a step relation, and the app that downloads and runs it.
  \<^item> \<open>Clock_Manager\<close> (\<open>controller_features/clock_manager.py\<close>): the time, its synchronization and the timers.
  \<^item> \<open>Compiler_Scopes\<close> (\<open>sg/parser/stream_allocator.py\<close>, \<open>sg/parser/scopes\<close>), \<open>Graph_Compiler\<close>
    (\<open>sg/parser/statements\<close>, \<open>sg/parser/parser_v1.py\<close>), \<open>Graph_Optimizer\<close> (\<open>sg/optimizer\<close>): statements are a
    datatype with the results of the grammar, scopes a stack, and a pass a function on the graph that says whether it
    has to run again.
  \<^item> \<open>Utc_Assigner\<close> (\<open>hw/reports/utc_assigner.py\<close>): the sorted anchors and the searches to both sides.
  \<^item> \<open>Connection_Manager\<close> (\<open>native_ble/connection_manager.py\<close>), \<open>Aws_Connections\<close>
    (\<open>awsiot/connection_manager.py\<close>, \<open>timeout.py\<close>): the two tables refer to connections in a store; the worker is
    a function per round and a step relation; a callback is a parameter that may queue further actions or raise.
  \<^item> \<open>Mqtt_Packets\<close> (\<open>awsiot/packet_queue.py\<close>, \<open>topic_sequencer.py\<close>, \<open>topic_validator.py\<close>,
    \<open>mqtt_client.py\<close>), \<open>Versions\<close> (\<open>iotile/core/dev/semver.py\<close>).
  \<^item> \<open>Service_States\<close> (\<open>supervisor/states.py\<close>, \<open>service_manager.py\<close>, \<open>async_tools/awaitable_dict.py\<close>),
    \<open>Supervisor\<close> (\<open>supervisor/server.py\<close>, \<open>client.py\<close>, \<open>service_tile.py\<close>): a call that waits is two definitions,
    one up to where it waits and one for when it is woken.

  What the lemmas show.  \<open>Walkers\<close> and \<open>Sensor_Log\<close> relate walkers to the list of readings they still have
  to give (locale \<open>reader\<close>), and the operations of the log to operations on these lists; \<open>Nodes\<close> and
  \<open>Processors\<close> rest on the same interface.  \<open>Reports\<close> and \<open>Report_Parser\<close> show that decoding inverts encoding
  (a signed report is decoded by the default chain of providers, so one that was signed by a provider of its own is
  verified if the chain has the same key) and that the parser does not depend on how bytes arrive (locale \<open>report_formats\<close>).  \<open>Streamers\<close> and
  \<open>Stream_Manager\<close> compose both ends.

  \<open>Node_Descriptor\<close> and \<open>Streamer_Descriptor\<close> show that the binary descriptors can be read back.
  \<open>Graph_Process\<close> collects what all operations leave alone (locale \<open>step_relation\<close>, interpreted on two
  relations between graphs and on what a log gains) and shows that \<open>process_input\<close> returns on graphs without
  cycles, where the measure is the multiset of ranks of the nodes still to visit, and which readings it can leave in
  the log.  \<open>Graph_Reachable\<close> has the graphs that the methods can reach as an inductive relation, also through calls
  that raise.
  \<open>Rpc_Payload\<close> shows that a call through packed arguments is the call of the method, and that a service whose
  methods keep an invariant keeps it whatever clients send (locale \<open>rpc_service\<close>, interpreted for the config
  database and the tile manager); \<open>Tile_Config\<close> and \<open>Tile_Manager\<close> compose storing, sending and latching of
  variables up to the running tile.
  \<open>Update_Script\<close> shows that records made by their constructors (\<open>built\<close>) are read back from a script, when the
  reader returns and when it does not; \<open>Script_Format\<close> that the script of a graph installs this graph
  (\<open>install_plan\<close>); \<open>Remote_Bridge\<close> what the updater does on any device that keeps the contract of the locale
  \<open>script_bridge\<close>, interpreted on the emulated bridge.
  \<open>Clock_Manager\<close> shows when timers fire and when they stop, with the \<open>rpc_service\<close> interpretation on its handlers.
  \<open>Graph_Compiler\<close> shows that every compiled graph is well formed and that no stream gets more nodes than it has
  outputs, \<open>Graph_Optimizer\<close> that combined triggers fire for the same readings on virtual, counter and buffered streams.
  \<open>Utc_Assigner\<close> assumes a device whose uptime advances with the true time between restarts (\<open>clocked\<close>) and shows that
  a time found for a known reading is true if it is claimed to be exact, unless the reading itself marks a restart and the
  time comes from the readings before it; it has an example of that case, and one of a reading id that is not known.
  \<open>Connection_Manager\<close> shows that both tables agree, and which callbacks are called, dropped or called again, for any order of
  actions;
  \<open>Aws_Connections\<close> that the other manager refines it.  \<open>Mqtt_Packets\<close> relates the queue to the longest run of
  consecutive numbers (\<open>contiguous\<close>).  \<open>Supervisor\<close> has any interleaving of commands, RPCs, clients that come and go
  and passing time as a list of steps, and shows for each that at most one event takes the copy of a client
  (\<open>replica\<close>) along.

  Bounds.  The loops of the code are structural recursions where a list bounds them.  The loop of
  \<open>copy_all_a\<close>, the parser's loop, the loop of the stream manager, \<open>graph_loop\<close> of \<open>process_input\<close> and
  \<open>bfs_loop\<close> of the walk over a graph, \<open>parse_multiple_rpcs\<close> and \<open>script_loop\<close> of the script reader and the two
  loops of the updater that poll a device, \<open>bfs_first\<close> and \<open>rerun\<close> of the optimizer are partial functions on
  options: their value is \<open>None\<close> when the code does not return, and the properties state when they return.

  Not modelled: the pyparsing grammar of the sensor graph language and its simulator, asyncio and the websocket layer,
  the hardware side of the transports, virtual device servers, the hardware manager and its shell, build tools, the
  device server of the gateway, cloud and shipping packages, which are input and output around this core.  The compiler
  and the descriptors are modelled from the results of their grammars on, and the order of dumped
  nodes from the result of \<open>toposort\<close> on.  AES, the clock, callbacks, devices and RPC targets are parameters.
  Formats of \<open>struct\<close> are modelled for the codes that the repository's declarations use.  The background tasks of
  the controller are modelled one round at a time; what other tasks do while a call is awaited is a parameter.  Readings are values: that \<open>process_input\<close> sets the time
  of a result which may be a stored reading object itself (what \<open>pop\<close> returned) is not shown by the model, and the property
  about it is stated so that it holds with it.
\<close>

end
